(* ===== verification/Prelude.thy ===== *)
theory Prelude
  imports Complex_Main "HOL-Library.AList" "HOL-Library.Char_ord" "HOL-Library.List_Lexorder"
begin

text \<open>
  What every component of the renderer core shares: JavaScript's insertion-ordered \<open>Map\<close>
  and \<open>Set\<close>, optional fields, the stable \<open>Array.prototype.sort\<close> with a
  comparator, \<open>indexOf\<close>, and the outcome of a reducer that may hand back its own
  input. Strings are HOL strings (one character per code unit, code units below 256),
  numbers are exact rationals (a double's rounding, NaN and the infinities are not modelled).
\<close>

named_theorems wf_intros \<open>operations that keep a well-formedness invariant\<close>

type_synonym number = rat

section \<open>Reducer outcomes\<close>

text \<open>
  The reducers of \<open>store/operations.ts\<close> and \<open>store/store.ts\<close> return their own input
  to say that nothing changed, and callers compare references. \<open>Unchanged\<close> is that case;
  \<open>Diverges\<close> is a call that never returns.
\<close>

datatype 'a reduced = Unchanged | Changed 'a | Diverges

definition settle :: "'a \<Rightarrow> 'a reduced \<Rightarrow> 'a option" where
  "settle cur r = (case r of Unchanged \<Rightarrow> Some cur | Changed x \<Rightarrow> Some x | Diverges \<Rightarrow> None)"

lemma settle_simps [simp]:
  "settle cur Unchanged = Some cur" "settle cur (Changed x) = Some x" "settle cur Diverges = None"
  by (simp_all add: settle_def)

section \<open>Optional and nullable fields\<close>

text \<open>A field declared \<open>f?: T | null\<close>: absent, \<open>null\<close> and a value are three
  different things to \<open>===\<close>, and \<open>?? null\<close> identifies the first two.\<close>

datatype 'a nullable = Undefined | Null | Present 'a

fun nullish :: "'a nullable \<Rightarrow> 'a option" where
  "nullish (Present x) = Some x"
| "nullish _ = None"

fun of_option :: "'a option \<Rightarrow> 'a nullable" where
  "of_option None = Null"
| "of_option (Some x) = Present x"

lemma nullish_of_option [simp]: "nullish (of_option x) = x"
  by (cases x) simp_all

section \<open>Insertion-ordered maps\<close>

text \<open>
  A JavaScript \<open>Map\<close> iterates in insertion order; setting a present key keeps its
  position. \<open>AList.update\<close> and \<open>AList.delete\<close> do the same on association lists.
\<close>

type_synonym ('k, 'v) omap = "('k \<times> 'v) list"

abbreviation omap_get :: "('k, 'v) omap \<Rightarrow> 'k \<Rightarrow> 'v option" where
  "omap_get m k \<equiv> map_of m k"

abbreviation omap_set :: "'k \<Rightarrow> 'v \<Rightarrow> ('k, 'v) omap \<Rightarrow> ('k, 'v) omap" where
  "omap_set k v m \<equiv> AList.update k v m"

abbreviation omap_delete :: "'k \<Rightarrow> ('k, 'v) omap \<Rightarrow> ('k, 'v) omap" where
  "omap_delete k m \<equiv> AList.delete k m"

abbreviation omap_keys :: "('k, 'v) omap \<Rightarrow> 'k list" where
  "omap_keys m \<equiv> map fst m"

abbreviation omap_values :: "('k, 'v) omap \<Rightarrow> 'v list" where
  "omap_values m \<equiv> map snd m"

definition omap_has :: "('k, 'v) omap \<Rightarrow> 'k \<Rightarrow> bool" where
  "omap_has m k \<longleftrightarrow> k \<in> set (omap_keys m)"

definition omap_getd :: "'v \<Rightarrow> ('k, 'v) omap \<Rightarrow> 'k \<Rightarrow> 'v" where
  "omap_getd d m k = (case omap_get m k of None \<Rightarrow> d | Some v \<Rightarrow> v)"

definition omap_from :: "('a \<Rightarrow> 'k) \<Rightarrow> ('a \<Rightarrow> 'v) \<Rightarrow> 'a list \<Rightarrow> ('k, 'v) omap" where
  "omap_from key val xs = fold (\<lambda>x m. omap_set (key x) (val x) m) xs []"

abbreviation omap_wf :: "('k, 'v) omap \<Rightarrow> bool" where
  "omap_wf m \<equiv> distinct (omap_keys m)"

lemma omap_has_get: "omap_has m k \<longleftrightarrow> omap_get m k \<noteq> None"
  by (simp add: omap_has_def map_of_eq_None_iff)

lemma omap_get_set [simp]: "omap_get (omap_set k v m) k' = (if k' = k then Some v else omap_get m k')"
  by (simp add: update_conv')

lemma omap_get_delete [simp]: "omap_get (omap_delete k m) k' = (if k' = k then None else omap_get m k')"
  by (simp add: delete_conv')

lemma omap_wf_set [simp, wf_intros]: "omap_wf m \<Longrightarrow> omap_wf (omap_set k v m)"
  by (rule distinct_update)

lemma omap_keys_delete: "omap_keys (omap_delete k m) = filter (\<lambda>k'. k' \<noteq> k) (omap_keys m)"
  by (induction m) (auto simp: AList.delete_eq)

lemma omap_wf_delete [simp, wf_intros]: "omap_wf m \<Longrightarrow> omap_wf (omap_delete k m)"
  by (simp add: omap_keys_delete)

lemma omap_keys_filter: "set (omap_keys (filter P m)) \<subseteq> set (omap_keys m)"
  by auto

lemma omap_wf_filter [simp, wf_intros]: "omap_wf m \<Longrightarrow> omap_wf (filter P m)"
  by (rule distinct_map_filter)

lemma omap_get_filter:
  "omap_wf m \<Longrightarrow> omap_get (filter (\<lambda>(k, v). P k v) m) k =
    (case omap_get m k of Some v \<Rightarrow> if P k v then Some v else None | None \<Rightarrow> None)"
  by (induction m) (auto split: option.splits simp: map_of_eq_None_iff rev_image_eqI)

lemma omap_get_filter_key:
  "omap_get (filter (\<lambda>(k, v). P k) m) k = (if P k then omap_get m k else None)"
  by (induction m) auto

lemma omap_has_set [simp]: "omap_has (omap_set k v m) k' \<longleftrightarrow> k' = k \<or> omap_has m k'"
  by (simp add: omap_has_get)

lemma omap_has_delete [simp]: "omap_has (omap_delete k m) k' \<longleftrightarrow> k' \<noteq> k \<and> omap_has m k'"
  by (simp add: omap_has_get)

lemma omap_get_in: "omap_get m k = Some v \<Longrightarrow> (k, v) \<in> set m"
  by (rule map_of_SomeD)

lemma omap_get_iff: "omap_wf m \<Longrightarrow> omap_get m k = Some v \<longleftrightarrow> (k, v) \<in> set m"
  by (rule map_of_eq_Some_iff)

lemma omap_fold_set_wf:
  "omap_wf m \<Longrightarrow> omap_wf (fold (\<lambda>x m. omap_set (key x) (val x) m) xs m)"
  by (induction xs arbitrary: m) simp_all

lemma omap_from_wf [simp, wf_intros]: "omap_wf (omap_from key val xs)"
  unfolding omap_from_def by (rule omap_fold_set_wf) simp

lemma omap_set_map_snd:
  "omap_get m k = Some v \<Longrightarrow> omap_keys (omap_set k w m) = omap_keys m"
  by (metis map_of_SomeD imageI image_set fst_conv update_keys)

section \<open>Insertion-ordered sets\<close>

definition oset_add :: "'a \<Rightarrow> 'a list \<Rightarrow> 'a list" where
  "oset_add x xs = (if x \<in> set xs then xs else xs @ [x])"

definition oset_remove :: "'a \<Rightarrow> 'a list \<Rightarrow> 'a list" where
  "oset_remove x xs = filter (\<lambda>y. y \<noteq> x) xs"

definition oset_from :: "'a list \<Rightarrow> 'a list" where
  "oset_from xs = fold oset_add xs []"

lemma oset_add_set [simp]: "set (oset_add x xs) = insert x (set xs)"
  by (auto simp: oset_add_def)

lemma oset_add_distinct [simp]: "distinct (oset_add x xs) \<longleftrightarrow> distinct xs"
  by (simp add: oset_add_def)

lemma oset_remove_set [simp]: "set (oset_remove x xs) = set xs - {x}"
  by (auto simp: oset_remove_def)

lemma oset_remove_distinct [simp]: "distinct xs \<Longrightarrow> distinct (oset_remove x xs)"
  by (simp add: oset_remove_def)

lemma oset_fold_set: "set (fold oset_add xs ys) = set xs \<union> set ys"
  by (induction xs arbitrary: ys) auto

lemma oset_fold_distinct: "distinct ys \<Longrightarrow> distinct (fold oset_add xs ys)"
  by (induction xs arbitrary: ys) auto

lemma oset_from_set [simp]: "set (oset_from xs) = set xs"
  by (simp add: oset_from_def oset_fold_set)

lemma oset_from_distinct [simp]: "distinct (oset_from xs)"
  by (simp add: oset_from_def oset_fold_distinct)

lemma oset_fold_id: "distinct (ys @ xs) \<Longrightarrow> fold oset_add xs ys = ys @ xs"
proof (induction xs arbitrary: ys)
  case Nil
  show ?case by simp
next
  case (Cons x xs)
  then have "oset_add x ys = ys @ [x]" by (auto simp: oset_add_def)
  with Cons.IH [of "ys @ [x]"] Cons.prems show ?case by simp
qed

lemma oset_from_id: "distinct xs \<Longrightarrow> oset_from xs = xs"
  using oset_fold_id [of "[]" xs] by (simp add: oset_from_def)

section \<open>Arrays\<close>

text \<open>\<open>indexOf\<close> and \<open>findIndex\<close>, with \<open>None\<close> for the code's \<open>-1\<close>, and
  \<open>a[i]\<close>, which is \<open>undefined\<close> outside the array.\<close>

fun find_index :: "('a \<Rightarrow> bool) \<Rightarrow> 'a list \<Rightarrow> nat option" where
  "find_index P [] = None"
| "find_index P (x # xs) = (if P x then Some 0 else map_option Suc (find_index P xs))"

definition index_of :: "'a list \<Rightarrow> 'a \<Rightarrow> nat option" where
  "index_of xs x = find_index (\<lambda>y. y = x) xs"

definition array_at :: "'a list \<Rightarrow> nat \<Rightarrow> 'a option" where
  "array_at xs i = (if i < length xs then Some (xs ! i) else None)"

lemma find_index_None: "find_index P xs = None \<longleftrightarrow> (\<forall>x \<in> set xs. \<not> P x)"
  by (induction xs) auto

lemma find_index_Some:
  "find_index P xs = Some i \<Longrightarrow> i < length xs \<and> P (xs ! i) \<and> (\<forall>j < i. \<not> P (xs ! j))"
proof (induction xs arbitrary: i)
  case Nil
  then show ?case by simp
next
  case (Cons x xs)
  show ?case
  proof (cases "P x")
    case True
    with Cons.prems show ?thesis by simp
  next
    case False
    with Cons.prems obtain k where k: "find_index P xs = Some k" "i = Suc k" by auto
    from Cons.IH [OF k(1)] k(2) False show ?thesis
      by (auto simp: less_Suc_eq_0_disj)
  qed
qed

lemma index_of_None: "index_of xs x = None \<longleftrightarrow> x \<notin> set xs"
  by (auto simp: index_of_def find_index_None)

lemma index_of_Some: "index_of xs x = Some i \<Longrightarrow> i < length xs \<and> xs ! i = x \<and> (\<forall>j < i. xs ! j \<noteq> x)"
  unfolding index_of_def by (drule find_index_Some) simp

lemma index_of_in: "x \<in> set xs \<Longrightarrow> \<exists>i. index_of xs x = Some i \<and> i < length xs \<and> xs ! i = x"
  by (metis index_of_None index_of_Some option.exhaust)

lemma index_of_nth: "distinct xs \<Longrightarrow> i < length xs \<Longrightarrow> index_of xs (xs ! i) = Some i"
  by (metis index_of_in index_of_Some nth_mem nth_eq_iff_index_eq)

lemma array_at_mem: "array_at xs i = Some x \<Longrightarrow> x \<in> set xs"
  by (auto simp: array_at_def split: if_splits)

section \<open>Comparator sorting\<close>

text \<open>
  \<open>Array.prototype.sort\<close> is stable; any stable sort gives the same result for a
  consistent comparator, so the model inserts.
\<close>

fun js_insert :: "('a \<Rightarrow> 'a \<Rightarrow> 'n::{zero,linorder}) \<Rightarrow> 'a \<Rightarrow> 'a list \<Rightarrow> 'a list" where
  "js_insert cmp x [] = [x]"
| "js_insert cmp x (y # ys) = (if cmp x y \<le> 0 then x # y # ys else y # js_insert cmp x ys)"

fun js_sort :: "('a \<Rightarrow> 'a \<Rightarrow> 'n::{zero,linorder}) \<Rightarrow> 'a list \<Rightarrow> 'a list" where
  "js_sort cmp [] = []"
| "js_sort cmp (x # xs) = js_insert cmp x (js_sort cmp xs)"

lemma js_insert_set [simp]: "set (js_insert cmp x xs) = insert x (set xs)"
  by (induction xs) auto

lemma js_sort_set [simp]: "set (js_sort cmp xs) = set xs"
  by (induction xs) auto

lemma js_insert_length [simp]: "length (js_insert cmp x xs) = Suc (length xs)"
  by (induction xs) auto

lemma js_sort_length [simp]: "length (js_sort cmp xs) = length xs"
  by (induction xs) auto

lemma js_insert_distinct_map:
  "distinct (map f (js_insert cmp x xs)) \<longleftrightarrow> f x \<notin> f ` set xs \<and> distinct (map f xs)"
  by (induction xs) auto

lemma js_sort_distinct_map [simp]: "distinct (map f (js_sort cmp xs)) \<longleftrightarrow> distinct (map f xs)"
  by (induction xs) (auto simp: js_insert_distinct_map)

lemma js_sort_distinct [simp]: "distinct (js_sort cmp xs) \<longleftrightarrow> distinct xs"
  using js_sort_distinct_map [of "\<lambda>x. x" cmp xs] by simp

lemma js_insert_filter_length:
  "length (filter P (js_insert cmp x xs)) = length (filter P (x # xs))"
  by (induction xs) auto

lemma js_sort_filter_length [simp]: "length (filter P (js_sort cmp xs)) = length (filter P xs)"
proof (induction xs)
  case Nil
  show ?case by simp
next
  case (Cons x xs)
  then show ?case using js_insert_filter_length [of P cmp x "js_sort cmp xs"] by simp
qed

lemma js_sort_map:
  "(\<And>x y. cmp x y = cmp' (g x) (g y)) \<Longrightarrow> map g (js_sort cmp xs) = js_sort cmp' (map g xs)"
proof -
  assume h: "\<And>x y. cmp x y = cmp' (g x) (g y)"
  have "map g (js_insert cmp x ys) = js_insert cmp' (g x) (map g ys)" for x ys
    by (induction ys) (simp_all add: h)
  then show ?thesis by (induction xs) simp_all
qed

text \<open>
  The contract of a comparator: on entries with different keys it is total and transitive.
  It says nothing of an entry against itself, because the code's tie-break
  \<open>left.id < right.id ? -1 : 1\<close> is not reflexive.
\<close>

locale comparator =
  fixes cmp :: "'a \<Rightarrow> 'a \<Rightarrow> 'n::{zero,linorder}" and key :: "'a \<Rightarrow> 'k"
  assumes total: "key x \<noteq> key y \<Longrightarrow> cmp x y \<le> 0 \<or> cmp y x \<le> 0"
    and trans: "cmp x y \<le> 0 \<Longrightarrow> cmp y z \<le> 0 \<Longrightarrow> key x \<noteq> key y \<Longrightarrow> key y \<noteq> key z \<Longrightarrow>
      key x \<noteq> key z \<Longrightarrow> cmp x z \<le> 0"
begin

lemma insert_sorted:
  assumes "sorted_wrt (\<lambda>x y. cmp x y \<le> 0) xs" and "distinct (map key (x # xs))"
  shows "sorted_wrt (\<lambda>x y. cmp x y \<le> 0) (js_insert cmp x xs)"
  using assms
proof (induction xs)
  case Nil
  then show ?case by simp
next
  case (Cons y ys)
  show ?case
  proof (cases "cmp x y \<le> 0")
    case True
    have "cmp x z \<le> 0" if "z \<in> set ys" for z
    proof (rule trans [OF True])
      show "cmp y z \<le> 0" using Cons.prems(1) that by simp
      show "key x \<noteq> key y" "key y \<noteq> key z" "key x \<noteq> key z" using Cons.prems(2) that by auto
    qed
    with True Cons.prems(1) show ?thesis by simp
  next
    case False
    with total [of x y] Cons.prems(2) have "cmp y x \<le> 0" by auto
    with False Cons show ?thesis by simp
  qed
qed

lemma sort_sorted:
  "distinct (map key xs) \<Longrightarrow> sorted_wrt (\<lambda>x y. cmp x y \<le> 0) (js_sort cmp xs)"
proof (induction xs)
  case Nil
  show ?case by simp
next
  case (Cons x xs)
  have "key x \<notin> key ` set xs" "distinct (map key xs)" using Cons.prems by simp_all
  with Cons.IH show ?case by (auto intro!: insert_sorted)
qed

text \<open>Sorting an already sorted array changes nothing.\<close>

lemma sort_idem: "sorted_wrt (\<lambda>x y. cmp x y \<le> 0) xs \<Longrightarrow> js_sort cmp xs = xs"
proof (induction xs)
  case Nil
  show ?case by simp
next
  case (Cons x xs)
  then have "js_sort cmp xs = xs" and "\<forall>y \<in> set xs. cmp x y \<le> 0" by simp_all
  then show ?case by (cases xs) simp_all
qed

end

section \<open>Folding reducers\<close>

text \<open>
  The loop of \<open>applyOperations\<close>: each operation meets the state the previous one left,
  and the whole batch is unchanged when every step was.
\<close>

fun reduce_all :: "('s \<Rightarrow> 'op \<Rightarrow> 's reduced) \<Rightarrow> 's \<Rightarrow> 'op list \<Rightarrow> 's reduced" where
  "reduce_all step s [] = Unchanged"
| "reduce_all step s (op # ops) =
    (case step s op of
       Unchanged \<Rightarrow> reduce_all step s ops
     | Changed s' \<Rightarrow>
         (case reduce_all step s' ops of Unchanged \<Rightarrow> Changed s' | r \<Rightarrow> r)
     | Diverges \<Rightarrow> Diverges)"

locale reducer =
  fixes step :: "'s \<Rightarrow> 'op \<Rightarrow> 's reduced" and inv :: "'s \<Rightarrow> bool" and ok :: "'op \<Rightarrow> bool"
  assumes keeps: "inv s \<Longrightarrow> ok op \<Longrightarrow> step s op = Changed s' \<Longrightarrow> inv s'"
begin

lemma batch_keeps:
  "inv s \<Longrightarrow> list_all ok ops \<Longrightarrow> reduce_all step s ops = Changed s' \<Longrightarrow> inv s'"
proof (induction ops arbitrary: s s')
  case Nil
  then show ?case by simp
next
  case (Cons op ops)
  show ?case
  proof (cases "step s op")
    case Unchanged
    with Cons show ?thesis by simp
  next
    case (Changed t)
    have t: "inv t" using keeps Cons.prems(1,2) Changed by auto
    with Changed Cons show ?thesis by (auto split: reduced.splits)
  next
    case Diverges
    with Cons.prems show ?thesis by simp
  qed
qed

lemma batch_settles:
  "inv s \<Longrightarrow> list_all ok ops \<Longrightarrow> settle s (reduce_all step s ops) = Some t \<Longrightarrow> inv t"
  using batch_keeps by (auto simp: settle_def split: reduced.splits)

end

text \<open>Transition systems: an invariant of every step holds in every reachable state.\<close>

inductive reached :: "('s \<Rightarrow> 's \<Rightarrow> bool) \<Rightarrow> 's \<Rightarrow> 's \<Rightarrow> bool" for step where
  reached_refl: "reached step s s"
| reached_step: "reached step s t \<Longrightarrow> step t u \<Longrightarrow> reached step s u"

locale invariant_system =
  fixes step :: "'s \<Rightarrow> 's \<Rightarrow> bool" and start :: 's and inv :: "'s \<Rightarrow> bool"
  assumes init: "inv start"
    and preserve: "inv s \<Longrightarrow> step s t \<Longrightarrow> inv t"
begin

lemma reached_inv_from: "reached step s t \<Longrightarrow> inv s \<Longrightarrow> inv t"
  by (induction rule: reached.induct) (auto intro: preserve)

lemma reachable_inv: "reached step start t \<Longrightarrow> inv t"
  by (rule reached_inv_from [OF _ init])

end

end
