(* ===== verification/Contracts.thy ===== *)
theory Contracts
  imports Prelude
begin

text \<open>
  The wire types of \<open>contracts/workspace.ts\<close>, \<open>references/types.ts\<close> and the JSON values
  the contracts leave untyped. Field names carry a prefix for their record
  (\<open>n_title\<close> is \<open>WorkspaceNode.title\<close>) because record fields are global in HOL.
\<close>

section \<open>Untyped JSON\<close>

datatype json =
    JNull
  | JBool bool
  | JNum number
  | JStr string
  | JArr "json list"
  | JObj "(string \<times> json) list"

text \<open>\<open>value.field\<close> on something that passed \<open>isJsonNode\<close>: arrays are objects too, but
  have none of the named fields the code reads.\<close>

fun json_field :: "string \<Rightarrow> json \<Rightarrow> json option" where
  "json_field k (JObj fields) = map_of fields k"
| "json_field k _ = None"

fun is_json_node :: "json \<Rightarrow> bool" where
  "is_json_node (JArr xs) = True"
| "is_json_node (JObj fs) = True"
| "is_json_node _ = False"

fun json_is_array :: "json option \<Rightarrow> json list option" where
  "json_is_array (Some (JArr xs)) = Some xs"
| "json_is_array _ = None"

fun json_string :: "json option \<Rightarrow> string option" where
  "json_string (Some (JStr s)) = Some s"
| "json_string _ = None"

section \<open>Nodes and documents\<close>

datatype node_kind = KNote | KFolder

record workspace_node =
  n_id :: string
  n_kind :: node_kind
  n_parentId :: "string option"
  n_rank :: number
  n_title :: string
  n_icon :: "string option"
  n_coverImageId :: "string nullable"
  n_coverGradient :: "string nullable"
  n_coverFullWidth :: "bool option"
  n_coverPositionX :: "number option"
  n_coverPositionY :: "number option"
  n_coverZoom :: "number option"
  n_createdAt :: number
  n_updatedAt :: number
  n_deletedAt :: "number option"
  n_pinnedAt :: "number option"
  n_lockedAt :: "number nullable"

type_synonym node_map = "(string, workspace_node) omap"

record sealed_payload =
  sp_scheme :: string
  sp_keyId :: string
  sp_nonce :: string
  sp_ciphertext :: string

record workspace_document =
  d_noteId :: string
  d_documentJson :: json
  d_markdown :: string
  d_revision :: number
  d_wordCount :: number
  d_sealed :: "sealed_payload nullable"

datatype note_lock_kind = LockPin | LockPassphrase

record note_lock_state =
  l_configured :: bool
  l_unlocked :: bool
  l_kind :: "note_lock_kind option"
  l_hint :: "string option"
  l_failedAttempts :: number
  l_nextAttemptAt :: "number option"
  l_lockedNoteCount :: number

record workspace_delta =
  delta_documents :: "workspace_document list"
  delta_nodes :: "workspace_node list"

record history_header =
  h_noteId :: string
  h_versionId :: string
  h_createdAt :: number
  h_summary :: string
  h_additions :: "number nullable"
  h_deletions :: "number nullable"
  h_wordCount :: "number nullable"

text \<open>\<open>s_extra\<close> holds the \<open>Record<string, unknown>\<close> half of the settings type.\<close>

record workspace_settings =
  s_settingsVersion :: number
  s_theme :: string
  s_compactSidebar :: bool
  s_showPageIcons :: bool
  s_rememberLastNote :: bool
  s_editorFont :: string
  s_editorLineHeight :: string
  s_showLineNumbers :: bool
  s_editorPlaceholder :: string
  s_extra :: "(string, json) omap"

record workspace_image =
  img_id :: string
  img_noteId :: string
  img_contentHash :: string
  img_mimeType :: string
  img_byteSize :: number
  img_width :: "number option"
  img_height :: "number option"
  img_createdAt :: number

record media_metadata =
  mm_contentHash :: string
  mm_name :: string
  mm_alt :: string
  mm_updatedAt :: number

section \<open>Note properties\<close>

datatype property_color =
  CGray | CStone | CAmber | CGreen | CBlue | CTeal | CRose | CRed

record property_option =
  o_id :: string
  o_label :: string
  o_color :: property_color

datatype property_type =
    PText | PNumber | PDate | PSelect | PMultiSelect | PPerson
  | PUrl | PCheckbox | PRating | PLocation | PEmail | PPhone

datatype property_value =
    VText string
  | VNumber "number option"
  | VDate string
  | VSelect "string option"
  | VMultiSelect "string list"
  | VPerson "string list"
  | VUrl string
  | VCheckbox bool
  | VRating "number option"
  | VLocation string
  | VEmail string
  | VPhone string

fun value_type :: "property_value \<Rightarrow> property_type" where
  "value_type (VText _) = PText"
| "value_type (VNumber _) = PNumber"
| "value_type (VDate _) = PDate"
| "value_type (VSelect _) = PSelect"
| "value_type (VMultiSelect _) = PMultiSelect"
| "value_type (VPerson _) = PPerson"
| "value_type (VUrl _) = PUrl"
| "value_type (VCheckbox _) = PCheckbox"
| "value_type (VRating _) = PRating"
| "value_type (VLocation _) = PLocation"
| "value_type (VEmail _) = PEmail"
| "value_type (VPhone _) = PPhone"

record property_field =
  f_id :: string
  f_name :: string
  f_value :: property_value
  f_options :: "property_option list"
  f_position :: number

record note_property =
  p_noteId :: string
  p_field :: property_field

abbreviation p_id :: "note_property \<Rightarrow> string" where
  "p_id p \<equiv> f_id (p_field p)"

abbreviation p_position :: "note_property \<Rightarrow> number" where
  "p_position p \<equiv> f_position (p_field p)"

record property_template =
  t_id :: string
  t_name :: string
  t_position :: number
  t_properties :: "property_field list"

section \<open>Tasks, annotations, prompts\<close>

datatype task_status = Todo | InProgress | Done

datatype task_priority = Urgent | High | Medium | Low

record task_source =
  ts_noteId :: string
  ts_blockId :: string

record workspace_task =
  k_id :: string
  k_title :: string
  k_status :: task_status
  k_priority :: task_priority
  k_dueDate :: "string option"
  k_description :: string
  k_tagIds :: "string list"
  k_assigneeIds :: "string list"
  k_source :: "task_source option"
  k_detachedAt :: "number option"
  k_createdAt :: number
  k_updatedAt :: number

datatype annotation_status = AnnotationOpen | AnnotationResolved

record annotation_comment =
  c_id :: string
  c_bodyMarkdown :: string
  c_authorId :: "string nullable"
  c_createdAt :: number
  c_updatedAt :: number

record workspace_annotation =
  a_id :: string
  a_noteId :: string
  a_status :: annotation_status
  a_anchorText :: string
  a_createdAt :: number
  a_resolvedAt :: "number nullable"
  a_comments :: "annotation_comment list"

record task_source_document =
  sd_noteId :: string
  sd_documentJson :: json
  sd_markdown :: string
  sd_wordCount :: number
  sd_expectedRevision :: number

datatype prompt_input_shape = ShapeSelection | ShapeNote | ShapeFreeform

record workspace_prompt =
  pr_id :: string
  pr_name :: string
  pr_systemPrompt :: string
  pr_inputShape :: prompt_input_shape
  pr_temperatureMillis :: "number option"
  pr_maxOutputBytes :: number
  pr_builtInId :: "string option"
  pr_createdAt :: number
  pr_updatedAt :: number

section \<open>References\<close>

record tag_record =
  tag_id :: string
  tag_name :: string
  tag_color :: "string option"
  tag_createdAt :: number
  tag_updatedAt :: number
  tag_createdIn :: "string option"

record person_record =
  person_id :: string
  person_name :: string
  person_initials :: "string option"
  person_color :: "string option"
  person_note :: "string option"
  person_createdAt :: number
  person_updatedAt :: number
  person_createdIn :: "string option"

datatype reference_kind = RTag | RPerson | RNote

record structured_reference =
  r_kind :: reference_kind
  r_targetId :: string

record note_references =
  nr_noteId :: string
  nr_targets :: "structured_reference list"

record reference_bootstrap =
  rb_tags :: "tag_record list"
  rb_people :: "person_record list"
  rb_references :: "note_references list"

definition emptyReferenceBootstrap :: reference_bootstrap where
  "emptyReferenceBootstrap = \<lparr>rb_tags = [], rb_people = [], rb_references = []\<rparr>"

datatype reference_operation =
    RCreateTag tag_record
  | RRenameTag string string
  | RRecolorTag string "string option"
  | RDeleteTag string
  | RCreatePerson person_record
  | RRenamePerson string string
  | RRecolorPerson string "string option"
  | RDeletePerson string

section \<open>Snapshots\<close>

record opened_file_state =
  of_formatId :: string
  of_fileHash :: string
  of_noteHash :: string

record import_receipt =
  ir_provider :: string
  ir_sourceKey :: string
  ir_sourcePath :: string
  ir_noteId :: string
  ir_importedAt :: number
  ir_openedFile :: "opened_file_state nullable"

text \<open>An absent optional list is \<open>None\<close>.\<close>

record workspace_snapshot =
  sn_protocolVersion :: number
  sn_activeNoteId :: "string option"
  sn_nodes :: "workspace_node list"
  sn_documents :: "workspace_document list"
  sn_historyHeaders :: "history_header list"
  sn_settings :: workspace_settings
  sn_tags :: "tag_record list"
  sn_people :: "person_record list"
  sn_references :: "note_references list"
  sn_images :: "workspace_image list option"
  sn_mediaMetadata :: "media_metadata list option"
  sn_properties :: "note_property list option"
  sn_propertyTemplates :: "property_template list option"
  sn_tasks :: "workspace_task list option"
  sn_prompts :: "workspace_prompt list option"
  sn_annotations :: "workspace_annotation list option"
  sn_importReceipts :: "import_receipt list option"

section \<open>Operations\<close>

datatype node_position = First | Last | Before string | After string

record node_placement =
  pl_parentId :: "string option"
  pl_position :: node_position

datatype workspace_operation =
    CreateTag tag_record
  | RenameTag string string
  | RecolorTag string "string option"
  | DeleteTag string
  | CreatePerson person_record
  | RenamePerson string string
  | RecolorPerson string "string option"
  | DeletePerson string
  | CreateFolder string string node_placement number
  | CreateNote string string node_placement json string number
  | RenameNode string string number
  | SetNoteCover string "string option" number
  | SetNoteCoverGradient string "string option" number
  | SetNoteCoverFullWidth string bool number
  | SetNoteCoverTransform string number number number number
  | MoveNode string node_placement number
  | SetNodePinned string bool number
  | SetNodeLocked string bool number
  | SaveDocument string json string number number number
  | TrashSubtree string number
  | RestoreSubtree string node_placement number
  | PurgeSubtree string number
  | SetActiveNote "string option"
  | UpdateSettings workspace_settings
  | SetMathMacros "(string \<times> string) list"
  | AttachImage workspace_image
  | SetMediaMetadata media_metadata
  | SetNoteProperty note_property number
  | RemoveNoteProperty string string number
  | ReorderNoteProperties string "string list" number
  | SetNotePropertyTemplate property_template
  | DeleteNotePropertyTemplate string
  | ReorderNotePropertyTemplates "string list"
  | RecordProviderImport import_receipt
  | CreateTask workspace_task
  | UpdateTask workspace_task "task_source_document option"
  | DeleteTask string "task_source_document option" number
  | DetachTask string "task_source_document option" number
  | PromoteChecklistTask workspace_task task_source_document
  | CreateAnnotation workspace_annotation
  | AddAnnotationComment string annotation_comment
  | UpdateAnnotationComment string string string number
  | DeleteAnnotationComment string string
  | ResolveAnnotation string number
  | ReopenAnnotation string
  | DeleteAnnotation string
  | SetPrompt workspace_prompt
  | DeletePrompt string

record entity_revision =
  er_id :: string
  er_revision :: number

record node_rank_change =
  rc_id :: string
  rc_parentId :: "string option"
  rc_rank :: number

record operation_ack =
  ack_applied :: number
  ack_revisions :: "entity_revision list"
  ack_rankChanges :: "node_rank_change list"

record search_hit =
  sh_noteId :: string
  sh_title :: string
  sh_snippet :: string
  sh_score :: number

definition WORKSPACE_PROTOCOL_VERSION :: number where
  "WORKSPACE_PROTOCOL_VERSION = 1"

definition envelope :: "workspace_operation \<Rightarrow> number \<times> workspace_operation" where
  "envelope op = (WORKSPACE_PROTOCOL_VERSION, op)"

end
