(* ===== verification/Walk.thy ===== *)
theory Walk
  imports Prelude
begin

text \<open>
  The traversals the tree, trash and operation modules share: grouping into a map of lists,
  the explicit-stack preorder walk, and the visited-set sweep. The walk is fuelled (one
  unit per popped entry); \<open>forest\<close> proves that one unit per node is enough.
\<close>

section \<open>Grouping\<close>

text \<open>\<open>const xs = m.get(k) ?? []; xs.push(x); m.set(k, xs)\<close>.\<close>

definition omap_push :: "'k \<Rightarrow> 'v \<Rightarrow> ('k, 'v list) omap \<Rightarrow> ('k, 'v list) omap" where
  "omap_push k x m = omap_set k (omap_getd [] m k @ [x]) m"

lemma omap_getd_push [simp]:
  "omap_getd [] (omap_push k x m) k' = (if k' = k then omap_getd [] m k @ [x] else omap_getd [] m k')"
  by (simp add: omap_push_def omap_getd_def)

lemma omap_push_wf [simp, wf_intros]: "omap_wf m \<Longrightarrow> omap_wf (omap_push k x m)"
  by (simp add: omap_push_def)

text \<open>The grouping loop \<open>for (const x of xs) if (keep(x)) push(key(x), val(x))\<close>.\<close>

definition group_by :: "('a \<Rightarrow> bool) \<Rightarrow> ('a \<Rightarrow> 'k) \<Rightarrow> ('a \<Rightarrow> 'v) \<Rightarrow> 'a list \<Rightarrow> ('k, 'v list) omap" where
  "group_by keep key val xs = fold (\<lambda>x m. if keep x then omap_push (key x) (val x) m else m) xs []"

lemma group_by_fold:
  "omap_getd [] (fold (\<lambda>x m. if keep x then omap_push (key x) (val x) m else m) xs m) k
     = omap_getd [] m k @ map val (filter (\<lambda>x. keep x \<and> key x = k) xs)"
  by (induction xs arbitrary: m) auto

lemma group_by_get:
  "omap_getd [] (group_by keep key val xs) k = map val (filter (\<lambda>x. keep x \<and> key x = k) xs)"
  unfolding group_by_def group_by_fold by (simp add: omap_getd_def)

lemma group_by_wf_fold:
  "omap_wf m \<Longrightarrow> omap_wf (fold (\<lambda>x m. if keep x then omap_push (key x) (val x) m else m) xs m)"
  by (induction xs arbitrary: m) auto

lemma group_by_wf [simp, wf_intros]: "omap_wf (group_by keep key val xs)"
  unfolding group_by_def by (rule group_by_wf_fold) simp

lemma omap_getd_map_snd:
  "f [] = [] \<Longrightarrow> omap_getd [] (map (\<lambda>(k, v). (k, f v)) m) k = f (omap_getd [] m k)"
  by (induction m) (auto simp: omap_getd_def)

section \<open>Preorder walk with an explicit stack\<close>

text \<open>
  The stack's top is the list's head. The code pops an entry, emits it and pushes its children
  last to first, so the first child is on top.
\<close>

fun walk :: "nat \<Rightarrow> ('n \<Rightarrow> 'n list) \<Rightarrow> 'n list \<Rightarrow> 'n list \<Rightarrow> 'n list option" where
  "walk fuel ch [] acc = Some acc"
| "walk 0 ch (x # st) acc = None"
| "walk (Suc fuel) ch (x # st) acc = walk fuel ch (ch x @ st) (acc @ [x])"

lemma walk_more_fuel: "walk f ch st acc = Some r \<Longrightarrow> walk (f + k) ch st acc = Some r"
  by (induction f ch st acc rule: walk.induct) auto

text \<open>
  The contract of a \<open>children\<close> function over a set of nodes: it lists exactly the nodes
  with that parent, once each. \<open>below ns S\<close> are the nodes hanging under the entries
  of \<open>S\<close>.
\<close>

inductive below :: "('n \<Rightarrow> 'k) \<Rightarrow> ('n \<Rightarrow> 'k option) \<Rightarrow> 'n list \<Rightarrow> 'n list \<Rightarrow> 'n \<Rightarrow> bool"
  for key parent ns S where
  below_start: "x \<in> set S \<Longrightarrow> below key parent ns S x"
| below_child: "below key parent ns S y \<Longrightarrow> x \<in> set ns \<Longrightarrow> parent x = Some (key y) \<Longrightarrow>
    below key parent ns S x"

text \<open>Each node of a walk is a start node or comes after its parent.\<close>

definition parents_first :: "('n \<Rightarrow> 'k) \<Rightarrow> ('n \<Rightarrow> 'k option) \<Rightarrow> 'n set \<Rightarrow> 'n list \<Rightarrow> bool" where
  "parents_first key parent S xs \<longleftrightarrow>
    (\<forall>ys x zs. xs = ys @ x # zs \<longrightarrow> x \<in> S \<or> (\<exists>y \<in> set ys. parent x = Some (key y)))"

lemma parents_first_Nil [simp]: "parents_first key parent S []"
  by (simp add: parents_first_def)

lemma parents_first_snocI:
  assumes "parents_first key parent S xs" and "x \<in> S \<or> (\<exists>y \<in> set xs. parent x = Some (key y))"
  shows "parents_first key parent S (xs @ [x])"
  unfolding parents_first_def
proof (intro allI impI)
  fix ys y zs
  assume eq: "xs @ [x] = ys @ y # zs"
  show "y \<in> S \<or> (\<exists>u \<in> set ys. parent y = Some (key u))"
  proof (cases zs rule: rev_cases)
    case Nil
    with eq assms(2) show ?thesis by simp
  next
    case (snoc zs' z)
    with eq have "xs = ys @ y # zs'" by simp
    with assms(1) show ?thesis by (simp add: parents_first_def)
  qed
qed

lemma parents_first_mono:
  assumes pf: "parents_first key parent S xs" and sub: "S \<subseteq> T"
  shows "parents_first key parent T xs"
  unfolding parents_first_def
proof (intro allI impI)
  fix ys x zs
  assume "xs = ys @ x # zs"
  with pf have "x \<in> S \<or> (\<exists>y \<in> set ys. parent x = Some (key y))"
    unfolding parents_first_def by blast
  with sub show "x \<in> T \<or> (\<exists>y \<in> set ys. parent x = Some (key y))" by blast
qed

lemma parents_firstD:
  assumes "parents_first key parent S xs" and "x \<in> set xs"
  shows "x \<in> S \<or> (\<exists>y \<in> set xs. parent x = Some (key y))"
proof -
  from assms(2) obtain ys zs where "xs = ys @ x # zs" by (auto simp: in_set_conv_decomp)
  with assms(1) show ?thesis unfolding parents_first_def by fastforce
qed

locale forest =
  fixes key :: "'n \<Rightarrow> 'k" and parent :: "'n \<Rightarrow> 'k option"
    and children :: "'n list \<Rightarrow> 'k \<Rightarrow> 'n list"
  assumes children_set: "distinct (map key ns) \<Longrightarrow> set (children ns k) = {n \<in> set ns. parent n = Some k}"
    and children_distinct: "distinct (map key ns) \<Longrightarrow> distinct (children ns k)"
begin

definition walk_inv :: "'n list \<Rightarrow> 'n list \<Rightarrow> 'n list \<Rightarrow> 'n list \<Rightarrow> bool" where
  "walk_inv ns S st acc \<longleftrightarrow>
     distinct (acc @ st) \<and> set (acc @ st) \<subseteq> set ns \<and> set S \<subseteq> set (acc @ st) \<and>
     (\<forall>x \<in> set (acc @ st). below key parent ns S x) \<and>
     (\<forall>x \<in> set st. x \<in> set S \<or> (\<exists>y \<in> set acc. parent x = Some (key y))) \<and>
     parents_first key parent (set S) acc \<and>
     (\<forall>x \<in> set acc. \<forall>n \<in> set ns. parent n = Some (key x) \<longrightarrow> n \<in> set (acc @ st))"

lemma walk_fresh:
  assumes inv: "walk_inv ns S (x # st) acc" and d: "distinct (map key ns)"
    and free: "\<And>s y. s \<in> set S \<Longrightarrow> below key parent ns S y \<Longrightarrow> parent s \<noteq> Some (key y)"
    and p: "parent n = Some (key x)"
  shows "n \<notin> set acc \<and> n \<notin> set st \<and> n \<noteq> x \<and> n \<notin> set S"
proof -
  have inj: "inj_on key (set ns)" using d by (simp add: distinct_map)
  have xns: "x \<in> set ns" and xb: "below key parent ns S x" and sub: "set acc \<subseteq> set ns"
    and xacc: "x \<notin> set acc"
    using inv by (auto simp: walk_inv_def)
  have nS: "n \<notin> set S" using free xb p by blast
  have no: "\<not> (\<exists>y \<in> set acc. parent n = Some (key y))"
    using p xacc sub xns inj by (auto dest: inj_onD)
  have "n \<notin> set acc"
    using parents_firstD [of key parent "set S" acc n] inv nS no by (auto simp: walk_inv_def)
  moreover have "n \<notin> set (x # st)" using inv nS no unfolding walk_inv_def by blast
  ultimately show ?thesis using nS by simp
qed

lemma walk_inv_step:
  assumes inv: "walk_inv ns S (x # st) acc" and d: "distinct (map key ns)"
    and free: "\<And>s y. s \<in> set S \<Longrightarrow> below key parent ns S y \<Longrightarrow> parent s \<noteq> Some (key y)"
  shows "walk_inv ns S (children ns (key x) @ st) (acc @ [x])"
proof -
  let ?ch = "children ns (key x)"
  note ch = children_set [OF d, of "key x"]
  have xb: "below key parent ns S x" using inv by (auto simp: walk_inv_def)
  have fresh: "n \<notin> set acc \<and> n \<notin> set st \<and> n \<noteq> x" if n: "n \<in> set ?ch" for n
    using walk_fresh [OF inv d free, of n] n ch by auto
  have pf: "parents_first key parent (set S) (acc @ [x])"
    using inv by (auto simp: walk_inv_def intro!: parents_first_snocI)
  have dist: "distinct ((acc @ [x]) @ ?ch @ st)"
    using inv fresh children_distinct [OF d] by (auto simp: walk_inv_def)
  have bel: "\<forall>y \<in> set ?ch. below key parent ns S y"
    using ch xb by (auto intro: below_child)
  show ?thesis
    unfolding walk_inv_def
  proof (intro conjI)
    show "distinct ((acc @ [x]) @ ?ch @ st)" by (rule dist)
    show "set ((acc @ [x]) @ ?ch @ st) \<subseteq> set ns" using inv ch by (auto simp: walk_inv_def)
    show "set S \<subseteq> set ((acc @ [x]) @ ?ch @ st)" using inv by (auto simp: walk_inv_def)
    show "\<forall>y \<in> set ((acc @ [x]) @ ?ch @ st). below key parent ns S y"
      using inv bel by (auto simp: walk_inv_def)
    show "\<forall>y \<in> set (?ch @ st). y \<in> set S \<or> (\<exists>z \<in> set (acc @ [x]). parent y = Some (key z))"
      using inv ch by (auto simp: walk_inv_def)
    show "parents_first key parent (set S) (acc @ [x])" by (rule pf)
    show "\<forall>y \<in> set (acc @ [x]). \<forall>n \<in> set ns. parent n = Some (key y) \<longrightarrow>
        n \<in> set ((acc @ [x]) @ ?ch @ st)"
      using inv ch by (auto simp: walk_inv_def)
  qed
qed

lemma walk_run:
  assumes "walk_inv ns S st acc" and d: "distinct (map key ns)"
    and free: "\<And>s y. s \<in> set S \<Longrightarrow> below key parent ns S y \<Longrightarrow> parent s \<noteq> Some (key y)"
    and "length ns - length acc \<le> fuel"
  shows "\<exists>r. walk fuel (\<lambda>x. children ns (key x)) st acc = Some r \<and> walk_inv ns S [] r"
  using assms(1,4)
proof (induction fuel arbitrary: st acc)
  case 0
  have "length (acc @ st) \<le> length ns"
    using 0(1) unfolding walk_inv_def
    by (metis (no_types) card_length card_mono distinct_card finite_set order_trans)
  with 0 show ?case by (cases st) auto
next
  case (Suc fuel)
  show ?case
  proof (cases st)
    case Nil
    with Suc.prems show ?thesis by simp
  next
    case (Cons x st')
    from walk_inv_step [OF Suc.prems(1) [unfolded Cons] d free]
    have "walk_inv ns S (children ns (key x) @ st') (acc @ [x])" by blast
    from Suc.IH [OF this] Suc.prems(2) Cons show ?thesis by simp
  qed
qed

text \<open>Siblings keep the order their children list gives them, and so do the start nodes.\<close>

definition order_inv :: "'n list \<Rightarrow> 'n list \<Rightarrow> 'n list \<Rightarrow> 'n list \<Rightarrow> bool" where
  "order_inv ns S st acc \<longleftrightarrow>
     (\<forall>p \<in> set acc. filter (\<lambda>x. parent x = Some (key p)) (acc @ st) = children ns (key p)) \<and>
     filter (\<lambda>x. x \<in> set S) (acc @ st) = S"

lemma order_inv_step:
  assumes inv: "walk_inv ns S (x # st) acc" and ord: "order_inv ns S (x # st) acc"
    and d: "distinct (map key ns)"
    and free: "\<And>s y. s \<in> set S \<Longrightarrow> below key parent ns S y \<Longrightarrow> parent s \<noteq> Some (key y)"
  shows "order_inv ns S (children ns (key x) @ st) (acc @ [x])"
proof -
  let ?ch = "children ns (key x)"
  note ch = children_set [OF d, of "key x"]
  note fresh = walk_fresh [OF inv d free]
  have inj: "inj_on key (set ns)" using d by (simp add: distinct_map)
  have sub: "x \<in> set ns" "set acc \<subseteq> set ns" "x \<notin> set acc" using inv by (auto simp: walk_inv_def)
  have old: "filter (\<lambda>y. parent y = Some (key p)) ?ch = []" if "p \<in> set acc" for p
    using that sub inj ch by (auto simp: filter_empty_conv dest: inj_onD)
  have own: "filter (\<lambda>y. parent y = Some (key x)) ?ch = ?ch"
    using ch by (auto simp: filter_id_conv)
  have none: "filter (\<lambda>y. parent y = Some (key x)) (acc @ [x]) = []" "filter (\<lambda>y. parent y = Some (key x)) st = []"
    using fresh by (auto simp: filter_empty_conv)
  have starts: "filter (\<lambda>y. y \<in> set S) ?ch = []"
    using fresh ch by (auto simp: filter_empty_conv)
  have "filter (\<lambda>y. parent y = Some (key p)) ((acc @ [x]) @ ?ch @ st) = children ns (key p)"
    if p: "p \<in> set (acc @ [x])" for p
  proof (cases "p = x")
    case True
    show ?thesis unfolding True filter_append none(2) own using none(1) by simp
  next
    case False
    with p have "p \<in> set acc" by simp
    with ord old [of p] show ?thesis by (auto simp: order_inv_def)
  qed
  moreover have "filter (\<lambda>y. y \<in> set S) ((acc @ [x]) @ ?ch @ st) = S"
    using ord starts by (cases "x \<in> set S") (simp_all add: order_inv_def)
  ultimately show ?thesis by (simp add: order_inv_def)
qed

lemma walk_orders_run:
  assumes d: "distinct (map key ns)"
    and free: "\<And>s y. s \<in> set S \<Longrightarrow> below key parent ns S y \<Longrightarrow> parent s \<noteq> Some (key y)"
  shows "walk_inv ns S st acc \<Longrightarrow> order_inv ns S st acc \<Longrightarrow>
    walk fuel (\<lambda>x. children ns (key x)) st acc = Some r \<Longrightarrow> order_inv ns S [] r"
proof (induction fuel arbitrary: st acc)
  case 0
  then show ?case by (cases st) auto
next
  case (Suc fuel)
  show ?case
  proof (cases st)
    case Nil
    with Suc.prems show ?thesis by simp
  next
    case (Cons x st')
    from Suc.IH [OF walk_inv_step [OF Suc.prems(1) [unfolded Cons] d free]
        order_inv_step [OF Suc.prems(1,2) [unfolded Cons] d free]] Suc.prems(3)
    show ?thesis by (simp add: Cons)
  qed
qed

lemma walk_orders:
  assumes d: "distinct (map key ns)" and S: "distinct S" "set S \<subseteq> set ns"
    and free: "\<And>s y. s \<in> set S \<Longrightarrow> below key parent ns S y \<Longrightarrow> parent s \<noteq> Some (key y)"
    and r: "walk fuel (\<lambda>x. children ns (key x)) S [] = Some r"
  shows "(\<forall>p \<in> set r. filter (\<lambda>x. parent x = Some (key p)) r = children ns (key p)) \<and>
    filter (\<lambda>x. x \<in> set S) r = S"
proof -
  have "walk_inv ns S S []" using S by (auto simp: walk_inv_def intro: below_start)
  moreover have "order_inv ns S S []" by (simp add: order_inv_def filter_id_conv)
  ultimately have "order_inv ns S [] r" using walk_orders_run [OF d free _ _ r] by blast
  then show ?thesis by (simp add: order_inv_def)
qed

text \<open>
  The walk from a start list returns, visits exactly the nodes below it, each once, and every
  node after its parent.
\<close>

lemma walk_correct:
  assumes d: "distinct (map key ns)" and S: "distinct S" "set S \<subseteq> set ns"
    and free: "\<And>s y. s \<in> set S \<Longrightarrow> below key parent ns S y \<Longrightarrow> parent s \<noteq> Some (key y)"
    and fuel: "length ns \<le> fuel"
  shows "\<exists>r. walk fuel (\<lambda>x. children ns (key x)) S [] = Some r \<and> distinct r \<and>
    set r = {x. below key parent ns S x} \<and> set r \<subseteq> set ns \<and> parents_first key parent (set S) r"
proof -
  have "walk_inv ns S S []"
    using S by (auto simp: walk_inv_def intro: below_start)
  from walk_run [OF this d free] fuel obtain r
    where r: "walk fuel (\<lambda>x. children ns (key x)) S [] = Some r" "walk_inv ns S [] r" by auto
  have "x \<in> set r" if "below key parent ns S x" for x
    using that
  proof induction
    case (below_start x)
    with r(2) show ?case by (auto simp: walk_inv_def)
  next
    case (below_child y x)
    from r(2) have "\<forall>n \<in> set ns. parent n = Some (key y) \<longrightarrow> n \<in> set r"
      using below_child.IH unfolding walk_inv_def by simp
    with below_child.hyps show ?case by blast
  qed
  then have "{x. below key parent ns S x} \<subseteq> set r" by blast
  moreover have "set r \<subseteq> {x. below key parent ns S x}" "distinct r" "set r \<subseteq> set ns"
    "parents_first key parent (set S) r"
    using r(2) by (simp_all add: walk_inv_def subset_iff)
  ultimately show ?thesis using r(1) by blast
qed

end

section \<open>Visited-set sweep\<close>

text \<open>
  \<open>while (pending.length > 0) { id = pending.pop(); if (!id || seen.has(id)) continue;
  seen.add(id); pending.push(...children(id)) }\<close>. The set of identifiers not yet seen
  shrinks, or else the stack does.
\<close>

function sweep :: "(string, string list) omap \<Rightarrow> string list \<Rightarrow> string list \<Rightarrow> string list" where
  "sweep ch [] seen = seen"
| "sweep ch (x # st) seen =
    (if x = [] \<or> x \<in> set seen then sweep ch st seen
     else sweep ch (rev (omap_getd [] ch x) @ st) (seen @ [x]))"
  by pat_completeness auto

definition sweep_universe :: "(string, string list) omap \<Rightarrow> string list \<Rightarrow> string set" where
  "sweep_universe ch st = set st \<union> (\<Union>p \<in> set ch. set (snd p))"

lemma sweep_universe_finite: "finite (sweep_universe ch st)"
  by (simp add: sweep_universe_def)

lemma omap_getd_sub: "set (omap_getd [] ch x) \<subseteq> (\<Union>p \<in> set ch. set (snd p))"
proof (cases "omap_get ch x")
  case None
  then show ?thesis by (simp add: omap_getd_def)
next
  case (Some v)
  then have "(x, v) \<in> set ch" by (rule omap_get_in)
  with Some show ?thesis by (force simp: omap_getd_def)
qed

termination sweep
proof (relation "measures [\<lambda>(ch, st, seen). card (sweep_universe ch st - set seen), \<lambda>(ch, st, seen). length st]")
  fix ch :: "(string, string list) omap" and x st seen
  show "((ch, st, seen), ch, x # st, seen)
    \<in> measures [\<lambda>(ch, st, seen). card (sweep_universe ch st - set seen), \<lambda>(ch, st, seen). length st]"
  proof -
    have "card (sweep_universe ch st - set seen) \<le> card (sweep_universe ch (x # st) - set seen)"
      by (rule card_mono) (auto simp: sweep_universe_finite sweep_universe_def)
    then show ?thesis by auto
  qed
  assume "\<not> (x = [] \<or> x \<in> set seen)"
  then have "sweep_universe ch (rev (omap_getd [] ch x) @ st) - set (seen @ [x])
      \<subset> sweep_universe ch (x # st) - set seen"
    using omap_getd_sub [of ch x] by (auto simp: sweep_universe_def)
  then have "card (sweep_universe ch (rev (omap_getd [] ch x) @ st) - set (seen @ [x]))
      < card (sweep_universe ch (x # st) - set seen)"
    by (rule psubset_card_mono [rotated]) (simp add: sweep_universe_finite)
  then show "((ch, rev (omap_getd [] ch x) @ st, seen @ [x]), ch, x # st, seen)
    \<in> measures [\<lambda>(ch, st, seen). card (sweep_universe ch st - set seen), \<lambda>(ch, st, seen). length st]"
    by auto
qed simp

text \<open>Identifiers reachable from the start along the children map, skipping empty ones.\<close>

inductive swept :: "(string, string list) omap \<Rightarrow> string set \<Rightarrow> string \<Rightarrow> bool" for ch S where
  swept_start: "x \<in> S \<Longrightarrow> x \<noteq> [] \<Longrightarrow> swept ch S x"
| swept_child: "swept ch S x \<Longrightarrow> y \<in> set (omap_getd [] ch x) \<Longrightarrow> y \<noteq> [] \<Longrightarrow> swept ch S y"

lemma swept_subset: "swept ch S x \<Longrightarrow> (\<And>y. y \<in> S \<Longrightarrow> y \<noteq> [] \<Longrightarrow> y \<in> T) \<Longrightarrow>
  (\<And>y z. y \<in> T \<Longrightarrow> z \<in> set (omap_getd [] ch y) \<Longrightarrow> z \<noteq> [] \<Longrightarrow> z \<in> T) \<Longrightarrow> x \<in> T"
  by (induction rule: swept.induct) auto

lemma sweep_grows: "set seen \<subseteq> set (sweep ch st seen)"
  by (induction ch st seen rule: sweep.induct) auto

lemma sweep_sound:
  "(\<And>x. x \<in> set st \<Longrightarrow> x \<noteq> [] \<Longrightarrow> swept ch S x) \<Longrightarrow> (\<And>x. x \<in> set seen \<Longrightarrow> swept ch S x) \<Longrightarrow>
   x \<in> set (sweep ch st seen) \<Longrightarrow> swept ch S x"
proof (induction ch st seen rule: sweep.induct)
  case (1 ch seen)
  then show ?case by simp
next
  case (2 ch y st seen)
  show ?case
  proof (cases "y = [] \<or> y \<in> set seen")
    case True
    with 2 show ?thesis by auto
  next
    case False
    have y: "swept ch S y" using "2.prems"(1) False by simp
    show ?thesis
    proof (rule "2.IH"(2) [OF False])
      fix z assume "z \<in> set (rev (omap_getd [] ch y) @ st)" "z \<noteq> []"
      with y "2.prems"(1) show "swept ch S z" by (auto intro: swept_child)
    next
      fix z assume "z \<in> set (seen @ [y])"
      with y "2.prems"(2) show "swept ch S z" by auto
    next
      show "x \<in> set (sweep ch (rev (omap_getd [] ch y) @ st) (seen @ [y]))"
        using "2.prems"(3) False by simp
    qed
  qed
qed

lemma sweep_closed:
  "(\<And>x y. x \<in> set seen \<Longrightarrow> y \<in> set (omap_getd [] ch x) \<Longrightarrow> y \<noteq> [] \<Longrightarrow> y \<in> set seen \<union> set st) \<Longrightarrow>
   (\<forall>x \<in> set st. x \<noteq> [] \<longrightarrow> x \<in> set (sweep ch st seen)) \<and>
   (\<forall>x \<in> set (sweep ch st seen). \<forall>y \<in> set (omap_getd [] ch x). y \<noteq> [] \<longrightarrow> y \<in> set (sweep ch st seen))"
proof (induction ch st seen rule: sweep.induct)
  case (1 ch seen)
  then show ?case by auto
next
  case (2 ch y st seen)
  show ?case
  proof (cases "y = [] \<or> y \<in> set seen")
    case True
    from 2(1) [OF True] 2(3) True have
      "(\<forall>x \<in> set st. x \<noteq> [] \<longrightarrow> x \<in> set (sweep ch st seen)) \<and>
       (\<forall>x \<in> set (sweep ch st seen). \<forall>y \<in> set (omap_getd [] ch x). y \<noteq> [] \<longrightarrow> y \<in> set (sweep ch st seen))"
      by (metis UnE UnI1 UnI2 set_ConsD)
    with True sweep_grows [of seen ch st] show ?thesis by auto
  next
    case False
    have step: "z \<in> set (seen @ [y]) \<union> set (rev (omap_getd [] ch y) @ st)"
      if "x \<in> set (seen @ [y])" "z \<in> set (omap_getd [] ch x)" "z \<noteq> []" for x z
      using 2(3) [of x z] that by auto
    from 2(2) [OF False step] False sweep_grows [of "seen @ [y]" ch "rev (omap_getd [] ch y) @ st"]
    show ?thesis by auto
  qed
qed

lemma sweep_set: "set (sweep ch st []) = {x. swept ch (set st) x}"
proof (intro set_eqI iffI)
  fix x assume "x \<in> set (sweep ch st [])"
  then have "swept ch (set st) x" by (rule sweep_sound [rotated 2]) (auto intro: swept_start)
  then show "x \<in> {x. swept ch (set st) x}" by simp
next
  fix x assume "x \<in> {x. swept ch (set st) x}"
  then have "swept ch (set st) x" by simp
  then show "x \<in> set (sweep ch st [])"
    by (rule swept_subset) (use sweep_closed [of "[]" ch st] in auto)
qed

lemma sweep_distinct: "distinct seen \<Longrightarrow> distinct (sweep ch st seen)"
  by (induction ch st seen rule: sweep.induct) auto

end
