(* ===== verification/Node_Tree.thy ===== *)
theory Node_Tree
  imports Contracts Walk
begin

text \<open>
  \<open>store/tree.ts\<close>: which nodes trash hides, the order of the tree, the row index the sidebar
  reads, the visible rows, ancestors, ranges and the virtual window. The spec of availability
  is \<open>hidden\<close>, an own or inherited trash marker; the spec of the order is \<open>parents_first\<close>.
\<close>

definition JOURNAL_ROOT_ID :: string where
  "JOURNAL_ROOT_ID = ''journal-root''"

section \<open>Trash availability\<close>

definition child_ids :: "workspace_node list \<Rightarrow> (string, string list) omap" where
  "child_ids nodes = group_by (\<lambda>n. n_parentId n \<noteq> None) (\<lambda>n. the (n_parentId n)) n_id nodes"

definition unavailableNodeIds :: "workspace_node list \<Rightarrow> string list" where
  "unavailableNodeIds nodes =
     sweep (child_ids nodes) (rev (map n_id (filter (\<lambda>n. n_deletedAt n \<noteq> None) nodes))) []"

text \<open>The specification: a node is hidden by its own marker or by its parent's being hidden.\<close>

inductive hidden :: "workspace_node list \<Rightarrow> string \<Rightarrow> bool" for nodes where
  hidden_own: "n \<in> set nodes \<Longrightarrow> n_deletedAt n \<noteq> None \<Longrightarrow> hidden nodes (n_id n)"
| hidden_inherited: "hidden nodes p \<Longrightarrow> n \<in> set nodes \<Longrightarrow> n_parentId n = Some p \<Longrightarrow>
    hidden nodes (n_id n)"

lemma child_ids_get:
  "omap_getd [] (child_ids nodes) p = map n_id (filter (\<lambda>n. n_parentId n = Some p) nodes)"
proof -
  have "filter (\<lambda>n. n_parentId n \<noteq> None \<and> the (n_parentId n) = p) nodes =
      filter (\<lambda>n. n_parentId n = Some p) nodes"
    by (rule filter_cong) auto
  then show ?thesis by (simp add: child_ids_def group_by_get)
qed

lemma unavailable_hidden:
  assumes ids: "\<And>n. n \<in> set nodes \<Longrightarrow> n_id n \<noteq> []"
  shows "set (unavailableNodeIds nodes) = {x. hidden nodes x}"
proof -
  let ?S = "n_id ` set (filter (\<lambda>n. n_deletedAt n \<noteq> None) nodes)"
  have "swept (child_ids nodes) ?S x \<longleftrightarrow> hidden nodes x" for x
  proof
    assume "swept (child_ids nodes) ?S x"
    then show "hidden nodes x"
      by induction (auto simp: child_ids_get intro: hidden_own hidden_inherited)
  next
    assume "hidden nodes x"
    then show "swept (child_ids nodes) ?S x"
    proof induction
      case (hidden_own n)
      then show ?case by (auto intro!: swept_start simp: ids)
    next
      case (hidden_inherited p n)
      then show ?case by (auto intro!: swept_child [of _ _ p] simp: ids child_ids_get)
    qed
  qed
  then show ?thesis by (simp add: unavailableNodeIds_def sweep_set)
qed

section \<open>Ordering\<close>

definition siblingGroup :: "workspace_node \<Rightarrow> number" where
  "siblingGroup n =
     (let hid = (case n_title n of c # _ \<Rightarrow> c = CHR ''.'' | [] \<Rightarrow> False)
      in if n_kind n = KFolder then (if hid then 2 else 0) else (if hid then 3 else 1))"

definition compare_ids :: "string \<Rightarrow> string \<Rightarrow> number" where
  "compare_ids a b = (if a < b then -1 else 1)"

definition sibling_cmp :: "workspace_node \<Rightarrow> workspace_node \<Rightarrow> number" where
  "sibling_cmp l r =
     (if siblingGroup l \<noteq> siblingGroup r then siblingGroup l - siblingGroup r
      else if n_rank l \<noteq> n_rank r then n_rank l - n_rank r
      else compare_ids (n_id l) (n_id r))"

lemma sibling_cmp_le:
  "n_id x \<noteq> n_id y \<Longrightarrow> sibling_cmp x y \<le> 0 \<longleftrightarrow>
    siblingGroup x < siblingGroup y \<or> siblingGroup x = siblingGroup y \<and>
     (n_rank x < n_rank y \<or> n_rank x = n_rank y \<and> n_id x < n_id y)"
  by (auto simp: sibling_cmp_def compare_ids_def)

interpretation siblings: comparator sibling_cmp n_id
proof
  fix x y :: workspace_node
  assume "n_id x \<noteq> n_id y"
  then show "sibling_cmp x y \<le> 0 \<or> sibling_cmp y x \<le> 0"
    using sibling_cmp_le [of x y] sibling_cmp_le [of y x] by (simp add: neq_iff) (auto)
next
  fix x y z :: workspace_node
  assume "sibling_cmp x y \<le> 0" "sibling_cmp y z \<le> 0"
    "n_id x \<noteq> n_id y" "n_id y \<noteq> n_id z" "n_id x \<noteq> n_id z"
  then show "sibling_cmp x z \<le> 0"
    by (auto simp: sibling_cmp_le)
qed

definition by_parent :: "workspace_node list \<Rightarrow> (string option, workspace_node list) omap" where
  "by_parent nodes =
     (let unavailable = unavailableNodeIds nodes
      in map (\<lambda>(p, s). (p, js_sort sibling_cmp s))
           (group_by (\<lambda>n. n_id n \<notin> set unavailable) n_parentId (\<lambda>n. n) nodes))"

definition orderAvailableNodes :: "workspace_node list \<Rightarrow> workspace_node list option" where
  "orderAvailableNodes nodes =
     (let groups = by_parent nodes
      in walk (length nodes) (\<lambda>n. omap_getd [] groups (Some (n_id n))) (omap_getd [] groups None) [])"

definition available :: "workspace_node list \<Rightarrow> workspace_node list" where
  "available nodes = filter (\<lambda>n. n_id n \<notin> set (unavailableNodeIds nodes)) nodes"

lemma by_parent_get:
  "omap_getd [] (by_parent nodes) p =
     js_sort sibling_cmp (filter (\<lambda>n. n_parentId n = p) (available nodes))"
  by (simp add: by_parent_def Let_def omap_getd_map_snd group_by_get available_def)

definition sorted_children :: "workspace_node list \<Rightarrow> string \<Rightarrow> workspace_node list" where
  "sorted_children ns k = js_sort sibling_cmp (filter (\<lambda>n. n_parentId n = Some k) ns)"

interpretation tree_walk: forest n_id n_parentId sorted_children
proof
  fix ns :: "workspace_node list" and k
  assume d: "distinct (map n_id ns)"
  show "set (sorted_children ns k) = {n \<in> set ns. n_parentId n = Some k}"
    by (auto simp: sorted_children_def)
  show "distinct (sorted_children ns k)"
    using d by (simp add: sorted_children_def distinct_map)
qed

lemma available_distinct: "distinct (map n_id nodes) \<Longrightarrow> distinct (map n_id (available nodes))"
  by (simp add: available_def distinct_map_filter)

text \<open>The whole contract of the ordering, for arrays whose ids are distinct.\<close>

lemma order_correct:
  assumes d: "distinct (map n_id nodes)"
  shows "\<exists>r. orderAvailableNodes nodes = Some r \<and> distinct r \<and> set r \<subseteq> set (available nodes) \<and>
    (\<forall>q. sorted_wrt (\<lambda>x y. sibling_cmp x y \<le> 0) (filter (\<lambda>n. n_parentId n = q) r)) \<and>
    parents_first n_id n_parentId {n. n_parentId n = None} r \<and>
    (\<forall>n \<in> set (available nodes). n_parentId n = None \<longrightarrow> n \<in> set r) \<and>
    (\<forall>n \<in> set (available nodes). \<forall>p \<in> set r. n_parentId n = Some (n_id p) \<longrightarrow> n \<in> set r)"
proof -
  let ?ns = "available nodes"
  let ?S = "js_sort sibling_cmp (filter (\<lambda>n. n_parentId n = None) ?ns)"
  have dn: "distinct (map n_id ?ns)" by (rule available_distinct [OF d])
  have S: "distinct ?S" "set ?S \<subseteq> set ?ns" using dn by (auto simp: distinct_map)
  have len: "length ?ns \<le> length nodes" by (simp add: available_def)
  have free: "\<And>s y. s \<in> set ?S \<Longrightarrow> below n_id n_parentId ?ns ?S y \<Longrightarrow> n_parentId s \<noteq> Some (n_id y)"
    by auto
  have "orderAvailableNodes nodes = walk (length nodes) (\<lambda>n. sorted_children ?ns (n_id n)) ?S []"
    by (simp add: orderAvailableNodes_def Let_def by_parent_get sorted_children_def)
  note eq = this
  from tree_walk.walk_correct [OF dn S free len] eq obtain r where
    r: "orderAvailableNodes nodes = Some r" "distinct r" "set r = {x. below n_id n_parentId ?ns ?S x}"
      "set r \<subseteq> set ?ns" "parents_first n_id n_parentId (set ?S) r" by auto
  have order: "\<forall>p \<in> set r. filter (\<lambda>x. n_parentId x = Some (n_id p)) r = sorted_children ?ns (n_id p)"
    "filter (\<lambda>x. x \<in> set ?S) r = ?S"
    using tree_walk.walk_orders [OF dn S free, of "length nodes" r] eq r(1) by auto
  have "parents_first n_id n_parentId {n. n_parentId n = None} r"
    by (rule parents_first_mono [OF r(5)]) auto
  moreover have "\<forall>n \<in> set ?ns. n_parentId n = None \<longrightarrow> n \<in> set r"
    unfolding r(3) by (simp add: below_start)
  moreover have "\<forall>n \<in> set ?ns. \<forall>p \<in> set r. n_parentId n = Some (n_id p) \<longrightarrow> n \<in> set r"
    unfolding r(3) mem_Collect_eq by (blast intro: below_child)
  moreover have "sorted_wrt (\<lambda>x y. sibling_cmp x y \<le> 0) (filter (\<lambda>n. n_parentId n = q) r)" for q
  proof (cases q)
    case None
    have "filter (\<lambda>n. n_parentId n = None) r = filter (\<lambda>n. n \<in> set ?S) r"
      by (rule filter_cong) (use r(4) in auto)
    also have "\<dots> = ?S" using order(2) .
    finally show ?thesis using siblings.sort_sorted [OF distinct_map_filter [OF dn]] None by simp
  next
    case (Some k)
    show ?thesis
    proof (cases "\<exists>p \<in> set r. n_id p = k")
      case True
      then obtain p where "p \<in> set r" "n_id p = k" by blast
      with order(1) have "filter (\<lambda>n. n_parentId n = q) r = sorted_children ?ns k" by (auto simp: Some)
      then show ?thesis
        using siblings.sort_sorted [OF distinct_map_filter [OF dn]] by (simp add: sorted_children_def)
    next
      case False
      with parents_firstD [OF r(5)] have "filter (\<lambda>n. n_parentId n = q) r = []"
        by (fastforce simp: filter_empty_conv Some)
      then show ?thesis by simp
    qed
  qed
  ultimately show ?thesis using r by blast
qed

lemma order_ids_distinct:
  assumes "distinct (map n_id nodes)" and "orderAvailableNodes nodes = Some r"
  shows "distinct (map n_id r)"
proof -
  from order_correct [OF assms(1)] assms(2) have "distinct r" "set r \<subseteq> set nodes"
    by (auto simp: available_def)
  moreover have "inj_on n_id (set nodes)" using assms(1) by (simp add: distinct_map)
  ultimately show ?thesis by (auto simp: distinct_map intro: inj_on_subset)
qed

section \<open>Pinned nodes\<close>

definition pinned_cmp :: "workspace_node \<Rightarrow> workspace_node \<Rightarrow> number" where
  "pinned_cmp l r =
     (if n_pinnedAt l \<noteq> n_pinnedAt r
      then (case n_pinnedAt r of None \<Rightarrow> 0 | Some x \<Rightarrow> x) - (case n_pinnedAt l of None \<Rightarrow> 0 | Some x \<Rightarrow> x)
      else compare_ids (n_id l) (n_id r))"

definition pinnedNodeIds :: "workspace_node list \<Rightarrow> string list" where
  "pinnedNodeIds nodes =
     (let unavailable = unavailableNodeIds nodes
      in map n_id (js_sort pinned_cmp
           (filter (\<lambda>n. n_pinnedAt n \<noteq> None \<and> n_id n \<notin> set unavailable) nodes)))"

section \<open>Row index\<close>

record node_record =
  nr_id :: string
  nr_parentId :: "string option"
  nr_kind :: node_kind
  nr_title :: string
  nr_depth :: nat
  nr_setSize :: nat
  nr_posInSet :: nat
  nr_descendantCount :: nat

type_synonym record_map = "(string, node_record) omap"

record node_index =
  ix_nodes :: record_map
  ix_children :: "(string option, string list) omap"
  ix_order :: "string list"

text \<open>The first loop: one record per node, its depth from the parent's record, its position
  from the siblings seen so far.\<close>

definition index_row :: "workspace_node \<Rightarrow> node_index \<Rightarrow> node_index" where
  "index_row n ix =
     (let parent = (case n_parentId n of None \<Rightarrow> None | Some p \<Rightarrow> omap_get (ix_nodes ix) p);
          siblings = omap_getd [] (ix_children ix) (n_parentId n);
          row = \<lparr>nr_id = n_id n, nr_parentId = n_parentId n, nr_kind = n_kind n, nr_title = n_title n,
            nr_depth = (case parent of None \<Rightarrow> 1 | Some r \<Rightarrow> nr_depth r + 1),
            nr_setSize = 0, nr_posInSet = length siblings + 1, nr_descendantCount = 0\<rparr>
      in \<lparr>ix_nodes = omap_set (n_id n) row (ix_nodes ix),
          ix_children = omap_set (n_parentId n) (siblings @ [n_id n]) (ix_children ix),
          ix_order = ix_order ix @ [n_id n]\<rparr>)"

text \<open>The second loop writes every sibling list's length into its members.\<close>

definition set_sizes :: "string list \<Rightarrow> record_map \<Rightarrow> record_map" where
  "set_sizes siblings m =
     fold (\<lambda>i m. case omap_get m i of None \<Rightarrow> m
        | Some r \<Rightarrow> omap_set i (r\<lparr>nr_setSize := length siblings\<rparr>) m) siblings m"

text \<open>The third loop adds each record's subtree to its parent's count, last record first.\<close>

definition add_descendants :: "string \<Rightarrow> record_map \<Rightarrow> record_map" where
  "add_descendants i m =
     (case omap_get m i of None \<Rightarrow> m
      | Some r \<Rightarrow> (case nr_parentId r of None \<Rightarrow> m
          | Some p \<Rightarrow> (case omap_get m p of None \<Rightarrow> m
              | Some pr \<Rightarrow> omap_set p
                  (pr\<lparr>nr_descendantCount := nr_descendantCount pr + (nr_descendantCount r + 1)\<rparr>) m)))"

definition buildNodeIndex :: "workspace_node list \<Rightarrow> node_index" where
  "buildNodeIndex ordered =
     (let ix = fold index_row ordered \<lparr>ix_nodes = [], ix_children = [], ix_order = []\<rparr>;
          sized = fold (\<lambda>c. set_sizes (snd c)) (ix_children ix) (ix_nodes ix)
      in ix\<lparr>ix_nodes := fold add_descendants (rev (ix_order ix)) sized\<rparr>)"

section \<open>Visible rows\<close>

fun flatten_loop :: "nat \<Rightarrow> record_map \<Rightarrow> (string option, string list) omap \<Rightarrow> string list \<Rightarrow>
    string list \<Rightarrow> string list \<Rightarrow> string list option" where
  "flatten_loop fuel nodes ch expanded [] visible = Some visible"
| "flatten_loop 0 nodes ch expanded (i # st) visible = None"
| "flatten_loop (Suc fuel) nodes ch expanded (i # st) visible =
     (if i = [] then Some visible
      else if i = JOURNAL_ROOT_ID then flatten_loop fuel nodes ch expanded st visible
      else case omap_get nodes i of
          None \<Rightarrow> flatten_loop fuel nodes ch expanded st (visible @ [i])
        | Some r \<Rightarrow>
            if nr_kind r \<noteq> KFolder \<or> i \<notin> set expanded
            then flatten_loop fuel nodes ch expanded st (visible @ [i])
            else flatten_loop fuel nodes ch expanded
                   (filter (\<lambda>c. c \<noteq> []) (omap_getd [] ch (Some i)) @ st) (visible @ [i]))"

text \<open>Fuel: every row of a well-formed index is listed under one parent, so it is pushed once.\<close>

definition flattenVisible :: "record_map \<Rightarrow> (string option, string list) omap \<Rightarrow> string list \<Rightarrow>
    string list option" where
  "flattenVisible nodes ch expanded =
     flatten_loop (length (concat (omap_values ch))) nodes ch expanded (omap_getd [] ch None) []"

section \<open>Ancestors, ranges, selection roots\<close>

fun ancestor_loop :: "nat \<Rightarrow> record_map \<Rightarrow> node_record option \<Rightarrow> string list \<Rightarrow> string list option" where
  "ancestor_loop fuel nodes current ancestors =
     (case current of None \<Rightarrow> Some ancestors
      | Some r \<Rightarrow> (case nr_parentId r of
          None \<Rightarrow> Some ancestors
        | Some p \<Rightarrow>
            if p = [] then Some ancestors
            else (case fuel of 0 \<Rightarrow> None
              | Suc fuel' \<Rightarrow> ancestor_loop fuel' nodes (omap_get nodes p) (p # ancestors))))"

definition ancestorIds :: "record_map \<Rightarrow> string \<Rightarrow> string list option" where
  "ancestorIds nodes i = ancestor_loop (length nodes) nodes (omap_get nodes i) []"

definition visibleTreeRange :: "string list \<Rightarrow> string \<Rightarrow> string \<Rightarrow> string list" where
  "visibleTreeRange visibleIds anchorId targetId =
     (case (index_of visibleIds anchorId, index_of visibleIds targetId) of
        (Some a, Some t) \<Rightarrow>
          let start = min a t; end = max a t
          in oset_from (take (end + 1 - start) (drop start visibleIds))
      | _ \<Rightarrow> [targetId])"

definition selectedTreeRoots :: "string list \<Rightarrow> record_map \<Rightarrow> string list option" where
  "selectedTreeRoots selectedIds nodes =
     map_option (\<lambda>chains. map fst (filter (\<lambda>(i, as). \<not> list_ex (\<lambda>a. a \<in> set selectedIds) as)
        (zip selectedIds chains)))
      (those (map (ancestorIds nodes) selectedIds))"

section \<open>Virtual window\<close>

record virtual_window =
  vw_start :: number
  vw_end :: number
  vw_offset :: number
  vw_totalHeight :: number

definition visualTreeIndent :: "number \<Rightarrow> number \<Rightarrow> number \<Rightarrow> number \<Rightarrow> number" where
  "visualTreeIndent depth basePadding depthIndent maximumIndent =
     min (basePadding + max 0 (depth - 1) * depthIndent) maximumIndent"

definition virtualTreeWindow :: "number \<Rightarrow> number \<Rightarrow> number \<Rightarrow> number \<Rightarrow> number \<Rightarrow> number \<Rightarrow> virtual_window" where
  "virtualTreeWindow rowCount scrollTop viewportHeight rowPitch overscan maximumRows =
     (if rowCount = 0 \<or> rowPitch \<le> 0
      then \<lparr>vw_start = 0, vw_end = 0, vw_offset = 0, vw_totalHeight = 0\<rparr>
      else
        let visibleRows = max 1 (of_int \<lceil>viewportHeight / rowPitch\<rceil>);
            windowRows = min (min maximumRows (visibleRows + overscan * 2)) rowCount;
            firstVisible = max 0 (of_int \<lfloor>scrollTop / rowPitch\<rfloor>);
            leadingOverscan = min overscan (max 0 (windowRows - visibleRows));
            start = min (max 0 (firstVisible - leadingOverscan)) (max 0 (rowCount - windowRows));
            end = min rowCount (start + windowRows)
        in \<lparr>vw_start = start, vw_end = end, vw_offset = start * rowPitch,
            vw_totalHeight = rowCount * rowPitch\<rparr>)"

lemma visibleTreeRange_ends:
  assumes "anchor \<in> set visible" and "target \<in> set visible"
  shows "anchor \<in> set (visibleTreeRange visible anchor target) \<and>
    target \<in> set (visibleTreeRange visible anchor target) \<and>
    set (visibleTreeRange visible anchor target) \<subseteq> set visible"
proof -
  obtain a t where a: "index_of visible anchor = Some a" "a < length visible" "visible ! a = anchor"
    and t: "index_of visible target = Some t" "t < length visible" "visible ! t = target"
    using assms index_of_in by metis
  let ?xs = "take (max a t + 1 - min a t) (drop (min a t) visible)"
  have nth: "visible ! i \<in> set ?xs" if "min a t \<le> i" "i \<le> max a t" for i
  proof -
    have "i - min a t < length ?xs" using that a t by (auto simp: max_def min_def)
    moreover have "?xs ! (i - min a t) = visible ! i" using that a t by (simp add: min_def max_def)
    ultimately show ?thesis by (metis nth_mem)
  qed
  have "set ?xs \<subseteq> set visible" by (meson set_drop_subset set_take_subset subset_trans)
  with nth [of a] nth [of t] a t show ?thesis
    by (simp add: visibleTreeRange_def Let_def)
qed

end
