(* ===== verification/Node_Index.thy ===== *)
theory Node_Index
  imports Node_Tree
begin

text \<open>
  Correctness of the row index (\<open>buildNodeIndex\<close>), of the visible rows (\<open>flattenVisible\<close>)
  and of ancestor chains, for the parents-first arrays \<open>orderAvailableNodes\<close> produces.
\<close>

section \<open>The first loop\<close>

abbreviation empty_index :: node_index where
  "empty_index \<equiv> \<lparr>ix_nodes = [], ix_children = [], ix_order = []\<rparr>"

definition index_rows :: "workspace_node list \<Rightarrow> node_index" where
  "index_rows xs = fold index_row xs empty_index"

lemma index_rows_snoc: "index_rows (xs @ [n]) = index_row n (index_rows xs)"
  by (simp add: index_rows_def)

lemma index_rows_Nil: "index_rows [] = empty_index"
  by (simp add: index_rows_def)

lemma index_rows_order: "ix_order (index_rows xs) = map n_id xs"
  by (induction xs rule: rev_induct)
    (simp_all add: index_rows_Nil index_rows_snoc index_row_def Let_def)

lemma index_rows_children:
  "omap_getd [] (ix_children (index_rows xs)) p = map n_id (filter (\<lambda>n. n_parentId n = p) xs)"
proof (induction xs arbitrary: p rule: rev_induct)
  case Nil
  show ?case by (simp add: index_rows_Nil omap_getd_def)
next
  case (snoc n xs)
  then show ?case
    by (simp add: index_rows_snoc index_row_def Let_def omap_getd_def)
qed

lemma index_rows_keys:
  "distinct (map n_id xs) \<Longrightarrow> omap_keys (ix_nodes (index_rows xs)) = map n_id xs"
  by (induction xs rule: rev_induct)
    (simp_all add: index_rows_Nil index_rows_snoc index_row_def Let_def update_keys)

lemma index_rows_children_wf: "omap_wf (ix_children (index_rows xs))"
  by (induction xs rule: rev_induct)
    (simp_all add: index_rows_Nil index_rows_snoc index_row_def Let_def)

text \<open>What the first loop records of a node.\<close>

definition row_of :: "workspace_node \<Rightarrow> node_record \<Rightarrow> bool" where
  "row_of n r \<longleftrightarrow> nr_id r = n_id n \<and> nr_parentId r = n_parentId n \<and> nr_kind r = n_kind n \<and>
     nr_title r = n_title n"

lemma index_rows_get:
  "distinct (map n_id xs) \<Longrightarrow> n \<in> set xs \<Longrightarrow>
    \<exists>r. omap_get (ix_nodes (index_rows xs)) (n_id n) = Some r \<and> row_of n r \<and> nr_descendantCount r = 0"
proof (induction xs rule: rev_induct)
  case Nil
  then show ?case by simp
next
  case (snoc m xs)
  show ?case
  proof (cases "n = m")
    case True
    then show ?thesis by (simp add: index_rows_snoc index_row_def Let_def row_of_def)
  next
    case False
    with snoc.prems have n: "n \<in> set xs" by simp
    then have "n_id n \<in> n_id ` set xs" by simp
    with snoc.prems have "n_id n \<noteq> n_id m" by auto
    with n snoc show ?thesis by (auto simp: index_rows_snoc index_row_def Let_def)
  qed
qed

section \<open>The second and third loops\<close>

lemma set_sizes_get:
  "omap_get (set_sizes s m) i =
     map_option (\<lambda>r. if i \<in> set s then r\<lparr>nr_setSize := length s\<rparr> else r) (omap_get m i)"
proof -
  have "omap_get (fold (\<lambda>i m. case omap_get m i of None \<Rightarrow> m
        | Some r \<Rightarrow> omap_set i (r\<lparr>nr_setSize := k\<rparr>) m) s m) i =
     map_option (\<lambda>r. if i \<in> set s then r\<lparr>nr_setSize := k\<rparr> else r) (omap_get m i)" for k
  proof (induction s arbitrary: m)
    case Nil
    then show ?case by (cases "omap_get m i") simp_all
  next
    case (Cons j s)
    then show ?case by (cases "omap_get m i") (auto split: option.splits)
  qed
  then show ?thesis by (simp add: set_sizes_def)
qed

lemma all_sizes_get:
  "(\<And>p s. (p, s) \<in> set chs \<Longrightarrow> i \<in> set s \<Longrightarrow> length s = k) \<Longrightarrow>
   omap_get (fold (\<lambda>c. set_sizes (snd c)) chs m) i =
     map_option (\<lambda>r. if i \<in> (\<Union>c \<in> set chs. set (snd c)) then r\<lparr>nr_setSize := k\<rparr> else r) (omap_get m i)"
proof (induction chs arbitrary: m)
  case Nil
  then show ?case by (cases "omap_get m i") simp_all
next
  case (Cons c chs)
  obtain p s where c: "c = (p, s)" by (cases c)
  have IH: "omap_get (fold (\<lambda>c. set_sizes (snd c)) chs (set_sizes s m)) i =
      map_option (\<lambda>r. if i \<in> (\<Union>c \<in> set chs. set (snd c)) then r\<lparr>nr_setSize := k\<rparr> else r)
        (omap_get (set_sizes s m) i)"
    by (rule Cons.IH) (metis Cons.prems list.set_intros(2))
  have k: "i \<in> set s \<Longrightarrow> length s = k" using Cons.prems [of p s] by (simp add: c)
  show ?case unfolding fold_simps IH [unfolded c] c snd_conv
    using k by (cases "omap_get m i") (auto simp: c IH set_sizes_get)
qed

lemma add_descendants_get:
  "omap_get (add_descendants j m) i =
     (case omap_get m j of None \<Rightarrow> omap_get m i
      | Some r \<Rightarrow>
        map_option (\<lambda>q. if nr_parentId r = Some i
          then q\<lparr>nr_descendantCount := nr_descendantCount q + (nr_descendantCount r + 1)\<rparr> else q) (omap_get m i))"
  by (cases "omap_get m i") (auto simp: add_descendants_def split: option.splits)

text \<open>
  The counting loop over a suffix of a parents-first order: a record that the suffix does not
  hold keeps its count but for the members of the suffix that name it as parent.
\<close>

lemma add_descendants_keeps:
  "omap_get m i = Some r \<Longrightarrow> \<exists>c. omap_get (add_descendants j m) i = Some (r\<lparr>nr_descendantCount := c\<rparr>)"
  by (auto simp: add_descendants_get split: option.splits intro: exI [of _ "nr_descendantCount r"])

lemma descendants_keep:
  "omap_get m i = Some r \<Longrightarrow> \<exists>c. omap_get (fold add_descendants js m) i = Some (r\<lparr>nr_descendantCount := c\<rparr>)"
proof (induction js arbitrary: m r)
  case Nil
  then show ?case by (auto intro: exI [of _ "nr_descendantCount r"])
next
  case (Cons j js)
  from add_descendants_keeps [OF Cons.prems, of j] obtain c where
    "omap_get (add_descendants j m) i = Some (r\<lparr>nr_descendantCount := c\<rparr>)" by blast
  from Cons.IH [OF this] show ?case by simp
qed

definition count_in :: "record_map \<Rightarrow> string \<Rightarrow> nat" where
  "count_in m i = (case omap_get m i of None \<Rightarrow> 0 | Some r \<Rightarrow> nr_descendantCount r)"

definition counted :: "workspace_node list \<Rightarrow> record_map \<Rightarrow> workspace_node \<Rightarrow> nat" where
  "counted zs m n = (\<Sum>c\<leftarrow>filter (\<lambda>c. n_parentId c = Some (n_id n)) zs. Suc (count_in m (n_id c)))"

lemma count_in_add:
  "omap_get m j = Some r \<Longrightarrow> omap_get m i \<noteq> None \<Longrightarrow>
   count_in (add_descendants j m) i =
     (if nr_parentId r = Some i then count_in m i + Suc (count_in m j) else count_in m i)"
  by (auto simp: count_in_def add_descendants_get)

lemma counting_loop:
  assumes d: "distinct (map n_id xs)" and pf: "parents_first n_id n_parentId {n. n_parentId n = None} xs"
    and m0: "\<And>n. n \<in> set xs \<Longrightarrow> \<exists>r. omap_get m (n_id n) = Some r \<and> row_of n r \<and> nr_descendantCount r = 0"
    and xs: "xs = ys @ zs" and n: "n \<in> set xs"
  shows "count_in (fold add_descendants (rev (map n_id zs)) m) (n_id n) =
    counted zs (fold add_descendants (rev (map n_id zs)) m) n"
  using xs n
proof (induction zs arbitrary: ys n)
  case Nil
  from m0 [OF Nil.prems(2)] show ?case by (auto simp: count_in_def counted_def)
next
  case (Cons x zs)
  let ?m = "fold add_descendants (rev (map n_id zs)) m"
  have IH: "count_in ?m (n_id k) = counted zs ?m k" if "k \<in> set xs" for k
    using Cons.IH [of "ys @ [x]" k] Cons.prems(1) that by simp
  have here: "\<exists>r. omap_get ?m (n_id k) = Some r \<and> nr_parentId r = n_parentId k" if "k \<in> set xs" for k
    using m0 [OF that] descendants_keep [of m "n_id k" _ "rev (map n_id zs)"] by (fastforce simp: row_of_def)
  have x: "x \<in> set xs" using Cons.prems(1) by simp
  then obtain r where r: "omap_get ?m (n_id x) = Some r" "nr_parentId r = n_parentId x"
    using here by blast
  have new: "count_in (add_descendants (n_id x) ?m) (n_id k) =
      (if n_parentId x = Some (n_id k) then count_in ?m (n_id k) + Suc (count_in ?m (n_id x))
       else count_in ?m (n_id k))" if "k \<in> set xs" for k
    using count_in_add [OF r(1), of "n_id k"] here [OF that] r(2) by auto
  have later: "n_parentId x \<noteq> Some (n_id k)" if k: "k \<in> set (x # zs)" for k
  proof
    assume p: "n_parentId x = Some (n_id k)"
    from pf Cons.prems(1) have "x \<in> {n. n_parentId n = None} \<or> (\<exists>y \<in> set ys. n_parentId x = Some (n_id y))"
      unfolding parents_first_def by blast
    with p obtain y where y: "y \<in> set ys" "n_id k = n_id y" by auto
    with d Cons.prems(1) k show False by (metis UnI1 disjoint_iff distinct_append image_eqI image_set map_append)
  qed
  have same: "count_in (add_descendants (n_id x) ?m) (n_id k) = count_in ?m (n_id k)" if "k \<in> set (x # zs)" for k
    using new [of k] later [OF that] that Cons.prems(1) by auto
  have "counted (x # zs) (add_descendants (n_id x) ?m) n = counted (x # zs) ?m n"
    unfolding counted_def
    by (rule arg_cong [where f = sum_list], rule map_cong [OF refl])
      (auto intro!: same split: if_splits)
  with new [OF Cons.prems(2)] IH [OF Cons.prems(2)] show ?case by (simp add: counted_def)
qed

section \<open>The index as a whole\<close>

lemma index_sizes:
  assumes d: "distinct (map n_id xs)" and n: "n \<in> set xs"
    and get: "omap_get (ix_nodes (index_rows xs)) (n_id n) = Some r"
  shows "omap_get (fold (\<lambda>c. set_sizes (snd c)) (ix_children (index_rows xs)) (ix_nodes (index_rows xs))) (n_id n)
    = Some (r\<lparr>nr_setSize := length (filter (\<lambda>m. n_parentId m = n_parentId n) xs)\<rparr>)"
proof -
  let ?chs = "ix_children (index_rows xs)"
  have entry: "s = map n_id (filter (\<lambda>m. n_parentId m = p) xs)" if "(p, s) \<in> set ?chs" for p s
  proof -
    have "omap_get ?chs p = Some s"
      using that index_rows_children_wf [of xs] by (simp add: omap_get_iff)
    then have "omap_getd [] ?chs p = s" by (simp add: omap_getd_def)
    then show ?thesis by (simp add: index_rows_children)
  qed
  have inj: "m = n" if "m \<in> set xs" "n_id m = n_id n" for m
    using d n that by (auto simp: distinct_map dest: inj_onD)
  have len: "length s = length (filter (\<lambda>m. n_parentId m = n_parentId n) xs)"
    if "(p, s) \<in> set ?chs" "n_id n \<in> set s" for p s
    using entry [OF that(1)] that(2) inj by auto
  have "n_id n \<in> set (omap_getd [] ?chs (n_parentId n))" using n by (auto simp: index_rows_children)
  then obtain s where "omap_get ?chs (n_parentId n) = Some s" "n_id n \<in> set s"
    by (cases "omap_get ?chs (n_parentId n)") (auto simp: omap_getd_def)
  then have "n_id n \<in> (\<Union>c \<in> set ?chs. set (snd c))" by (force dest: omap_get_in)
  with all_sizes_get [of ?chs "n_id n", OF len] get show ?thesis by simp
qed

definition count_of :: "node_index \<Rightarrow> string \<Rightarrow> nat" where
  "count_of ix i = count_in (ix_nodes ix) i"

lemma build_parts:
  "ix_order (buildNodeIndex xs) = map n_id xs"
  "ix_children (buildNodeIndex xs) = ix_children (index_rows xs)"
  "ix_nodes (buildNodeIndex xs) = fold add_descendants (rev (map n_id xs))
     (fold (\<lambda>c. set_sizes (snd c)) (ix_children (index_rows xs)) (ix_nodes (index_rows xs)))"
  by (simp_all add: buildNodeIndex_def Let_def index_rows_def [symmetric] index_rows_order)

lemma build_index_row:
  assumes d: "distinct (map n_id xs)" and pf: "parents_first n_id n_parentId {n. n_parentId n = None} xs"
    and n: "n \<in> set xs"
  shows "\<exists>r. omap_get (ix_nodes (buildNodeIndex xs)) (n_id n) = Some r \<and> row_of n r \<and>
     nr_setSize r = length (filter (\<lambda>m. n_parentId m = n_parentId n) xs) \<and>
     nr_descendantCount r = counted xs (ix_nodes (buildNodeIndex xs)) n"
proof -
  let ?m = "fold (\<lambda>c. set_sizes (snd c)) (ix_children (index_rows xs)) (ix_nodes (index_rows xs))"
  let ?size = "\<lambda>k. length (filter (\<lambda>m. n_parentId m = n_parentId k) xs)"
  have base: "\<exists>r. omap_get ?m (n_id k) = Some r \<and> row_of k r \<and> nr_descendantCount r = 0 \<and>
      nr_setSize r = ?size k" if k: "k \<in> set xs" for k
    using index_rows_get [OF d k] index_sizes [OF d k] by (fastforce simp: row_of_def)
  then have m0: "\<And>k. k \<in> set xs \<Longrightarrow>
      \<exists>r. omap_get ?m (n_id k) = Some r \<and> row_of k r \<and> nr_descendantCount r = 0" by blast
  from base [OF n] obtain r where r: "omap_get ?m (n_id n) = Some r" "row_of n r" "nr_setSize r = ?size n"
    by blast
  from descendants_keep [OF r(1), of "rev (map n_id xs)"] obtain c where
    c: "omap_get (ix_nodes (buildNodeIndex xs)) (n_id n) = Some (r\<lparr>nr_descendantCount := c\<rparr>)"
    by (auto simp: build_parts)
  have "c = counted xs (ix_nodes (buildNodeIndex xs)) n"
    using counting_loop [OF d pf m0, of "[]" xs n] n c by (simp add: build_parts count_in_def)
  with c r show ?thesis by (auto simp: row_of_def)
qed

lemma set_sizes_dom: "omap_get (set_sizes s m) i = None \<longleftrightarrow> omap_get m i = None"
  by (simp add: set_sizes_get)

lemma build_index_keys:
  assumes "distinct (map n_id xs)"
  shows "omap_get (ix_nodes (buildNodeIndex xs)) i = None \<longleftrightarrow> i \<notin> n_id ` set xs"
proof -
  have sizes: "omap_get (fold (\<lambda>c. set_sizes (snd c)) cs m) i = None \<longleftrightarrow> omap_get m i = None" for cs m
    by (induction cs arbitrary: m) (simp_all add: set_sizes_dom)
  have adds: "omap_get (fold add_descendants js m) i = None \<longleftrightarrow> omap_get m i = None" for js m
    by (induction js arbitrary: m) (simp_all add: add_descendants_get split: option.split)
  have "omap_get (ix_nodes (index_rows xs)) i = None \<longleftrightarrow> i \<notin> set (omap_keys (ix_nodes (index_rows xs)))"
    by (metis map_of_eq_None_iff set_map)
  then show ?thesis by (simp add: build_parts sizes adds index_rows_keys [OF assms] del: set_map) simp
qed

lemma build_index_children:
  "omap_getd [] (ix_children (buildNodeIndex xs)) p = map n_id (filter (\<lambda>n. n_parentId n = p) xs)"
  by (simp add: build_parts index_rows_children)

section \<open>Visible rows\<close>

text \<open>
  The specification: a root is shown; a child of a shown, expanded folder is shown; the
  journal's folder and whatever hangs under it never are.
\<close>

inductive shown :: "workspace_node list \<Rightarrow> string list \<Rightarrow> string \<Rightarrow> bool" for xs expanded where
  shown_root: "n \<in> set xs \<Longrightarrow> n_parentId n = None \<Longrightarrow> n_id n \<noteq> JOURNAL_ROOT_ID \<Longrightarrow> shown xs expanded (n_id n)"
| shown_child: "shown xs expanded (n_id p) \<Longrightarrow> p \<in> set xs \<Longrightarrow> n_kind p = KFolder \<Longrightarrow>
    n_id p \<in> set expanded \<Longrightarrow> n \<in> set xs \<Longrightarrow> n_parentId n = Some (n_id p) \<Longrightarrow>
    n_id n \<noteq> JOURNAL_ROOT_ID \<Longrightarrow> shown xs expanded (n_id n)"

text \<open>\<open>flattenVisible\<close> as a walk over nodes: only an expanded folder has children.\<close>

definition opens :: "string list \<Rightarrow> workspace_node \<Rightarrow> bool" where
  "opens expanded p \<longleftrightarrow> n_id p \<noteq> JOURNAL_ROOT_ID \<and> n_kind p = KFolder \<and> n_id p \<in> set expanded"

definition shown_parent :: "workspace_node list \<Rightarrow> string list \<Rightarrow> workspace_node \<Rightarrow> string option" where
  "shown_parent xs expanded n =
     (case n_parentId n of None \<Rightarrow> None
      | Some k \<Rightarrow> if \<exists>p \<in> set xs. n_id p = k \<and> opens expanded p then Some k else None)"

definition shown_children :: "workspace_node list \<Rightarrow> string list \<Rightarrow> workspace_node list \<Rightarrow> string \<Rightarrow> workspace_node list" where
  "shown_children xs expanded ns k = filter (\<lambda>n. shown_parent xs expanded n = Some k) ns"

lemma shown_forest: "forest n_id (shown_parent xs expanded) (shown_children xs expanded)"
  by unfold_locales (auto simp: shown_children_def distinct_map)

lemma shown_children_eq:
  assumes d: "distinct (map n_id xs)" and p: "p \<in> set xs"
  shows "shown_children xs expanded xs (n_id p) =
    (if opens expanded p then filter (\<lambda>n. n_parentId n = Some (n_id p)) xs else [])"
proof -
  have "(\<exists>q \<in> set xs. n_id q = n_id p \<and> opens expanded q) \<longleftrightarrow> opens expanded p"
    using d p by (auto simp: distinct_map dest: inj_onD)
  then have "shown_parent xs expanded n = Some (n_id p) \<longleftrightarrow>
      n_parentId n = Some (n_id p) \<and> opens expanded p" for n
    by (auto simp: shown_parent_def split: option.splits)
  then show ?thesis by (simp add: shown_children_def)
qed

lemma flatten_walk:
  assumes d: "distinct (map n_id xs)" and pf: "parents_first n_id n_parentId {n. n_parentId n = None} xs"
    and ids: "\<And>n. n \<in> set xs \<Longrightarrow> n_id n \<noteq> []" and st: "set st \<subseteq> set xs"
  shows "flatten_loop fuel (ix_nodes (buildNodeIndex xs)) (ix_children (buildNodeIndex xs)) expanded
      (map n_id st) (filter (\<lambda>i. i \<noteq> JOURNAL_ROOT_ID) (map n_id acc)) =
    map_option (\<lambda>r. filter (\<lambda>i. i \<noteq> JOURNAL_ROOT_ID) (map n_id r))
      (walk fuel (\<lambda>n. shown_children xs expanded xs (n_id n)) st acc)"
  using st
proof (induction fuel "\<lambda>n :: workspace_node. shown_children xs expanded xs (n_id n)" st acc rule: walk.induct)
  case (1 fuel acc)
  show ?case by simp
next
  case (2 n st acc)
  show ?case by simp
next
  case (3 fuel n st acc)
  have n: "n \<in> set xs" using "3.prems" by simp
  obtain r where r: "omap_get (ix_nodes (buildNodeIndex xs)) (n_id n) = Some r" "nr_kind r = n_kind n"
    using build_index_row [OF d pf n] by (auto simp: row_of_def)
  note ch = shown_children_eq [OF d n, of expanded]
  have sub: "set (shown_children xs expanded xs (n_id n) @ st) \<subseteq> set xs"
    using "3.prems" by (auto simp: shown_children_def)
  have ne: "filter (\<lambda>c. c \<noteq> []) (map n_id (filter (\<lambda>m. n_parentId m = Some (n_id n)) xs)) =
      map n_id (filter (\<lambda>m. n_parentId m = Some (n_id n)) xs)"
    using ids by (auto simp: filter_id_conv)
  note IH = "3.hyps" [OF sub]
  show ?case
  proof (cases "n_id n = JOURNAL_ROOT_ID")
    case True
    with IH ch show ?thesis by (simp add: opens_def JOURNAL_ROOT_ID_def)
  next
    case False
    with IH ch r ids [OF n] ne show ?thesis
      by (auto simp: opens_def build_index_children)
  qed
qed

lemma index_entries: "length (concat (omap_values (ix_children (index_rows xs)))) = length xs"
proof (induction xs rule: rev_induct)
  case Nil
  show ?case by (simp add: index_rows_Nil)
next
  case (snoc n xs)
  have *: "length (concat (omap_values (omap_set k (omap_getd [] m k @ [x]) m))) =
      Suc (length (concat (omap_values m)))" for k :: "string option" and m and x :: string
    by (induction m) (auto simp: omap_getd_def split: option.splits)
  from snoc * show ?case by (simp add: index_rows_snoc index_row_def Let_def)
qed

lemma flatten_correct:
  assumes d: "distinct (map n_id xs)" and pf: "parents_first n_id n_parentId {n. n_parentId n = None} xs"
    and ids: "\<And>n. n \<in> set xs \<Longrightarrow> n_id n \<noteq> []"
  shows "\<exists>v. flattenVisible (ix_nodes (buildNodeIndex xs)) (ix_children (buildNodeIndex xs)) expanded = Some v \<and>
    distinct v \<and> set v = {i. shown xs expanded i}"
proof -
  let ?P = "shown_parent xs expanded" and ?S = "filter (\<lambda>n. n_parentId n = None) xs"
  let ?C = "\<lambda>n. shown_children xs expanded xs (n_id n)"
  have S: "distinct ?S" "set ?S \<subseteq> set xs" using d by (auto simp: distinct_map)
  have free: "\<And>s y. s \<in> set ?S \<Longrightarrow> below n_id ?P xs ?S y \<Longrightarrow> ?P s \<noteq> Some (n_id y)"
    by (auto simp: shown_parent_def)
  from forest.walk_correct [OF shown_forest d S free order_refl] obtain r where
    r: "walk (length xs) ?C ?S [] = Some r" "distinct r"
      "set r = {x. below n_id ?P xs ?S x}" "set r \<subseteq> set xs" by blast
  let ?v = "filter (\<lambda>i. i \<noteq> JOURNAL_ROOT_ID) (map n_id r)"
  have v: "flattenVisible (ix_nodes (buildNodeIndex xs)) (ix_children (buildNodeIndex xs)) expanded = Some ?v"
    using flatten_walk [OF d pf ids S(2), of "length xs" expanded "[]"] r(1)
    by (simp add: flattenVisible_def build_index_children)
      (simp add: build_parts index_entries)
  have dv: "distinct ?v"
    using r(2,4) d by (auto simp: distinct_map intro!: distinct_filter inj_on_subset [of n_id "set xs"])
  have into: "shown xs expanded (n_id x)" if "below n_id ?P xs ?S x" "n_id x \<noteq> JOURNAL_ROOT_ID" for x
    using that
  proof induction
    case (below_start x)
    then show ?case by (auto intro: shown_root)
  next
    case (below_child y x)
    from below_child.hyps(3) obtain p where p: "p \<in> set xs" "n_id p = n_id y" "opens expanded p"
        "n_parentId x = Some (n_id y)"
      by (auto simp: shown_parent_def split: option.splits if_splits)
    with below_child show ?case
      by (metis shown_child opens_def)
  qed
  have outof: "\<exists>x. i = n_id x \<and> x \<in> set xs \<and> below n_id ?P xs ?S x \<and> i \<noteq> JOURNAL_ROOT_ID"
    if "shown xs expanded i" for i
    using that
  proof induction
    case (shown_root n)
    then show ?case by (auto intro!: exI [of _ n] below_start)
  next
    case (shown_child p n)
    then obtain x where x: "n_id p = n_id x" "x \<in> set xs" "below n_id ?P xs ?S x" by blast
    have "?P n = Some (n_id x)"
      using shown_child x by (auto simp: shown_parent_def opens_def)
    with x(3) shown_child.hyps have "below n_id ?P xs ?S n" by (blast intro: below_child)
    with shown_child.hyps show ?case by blast
  qed
  have "set ?v = {i. shown xs expanded i}"
    using into outof r(3) by (auto simp: image_iff)
  with v dv show ?thesis by blast
qed

end
