(* ===== verification/Tree_Theorems.thy ===== *)
theory Tree_Theorems
  imports Node_Index
begin

text \<open>
  The properties of the tree projection, and which fields of a node it reads: two node lists with the
  same placements, in any order, have the same order, the same row index and the same visible rows.
  This lets the store keep its index across saves and equal snapshots instead of deriving it again.
\<close>

section \<open>Availability and order\<close>

theorem availability_is_inherited_trash:
  assumes "list_all (\<lambda>n. n_id n \<noteq> []) nodes"
  shows "distinct (unavailableNodeIds nodes) \<and> set (unavailableNodeIds nodes) = {x. hidden nodes x}"
  using assms by (simp add: unavailable_hidden list_all_iff) (simp add: unavailableNodeIds_def sweep_distinct)

text \<open>A folder in the trash, a note inside it, and two root nodes.\<close>

definition tree_node :: "string \<Rightarrow> node_kind \<Rightarrow> string option \<Rightarrow> number \<Rightarrow> number option \<Rightarrow> workspace_node" where
  "tree_node i kind parent rank trashed =
     \<lparr>n_id = i, n_kind = kind, n_parentId = parent, n_rank = rank, n_title = i, n_icon = None,
      n_coverImageId = Null, n_coverGradient = Null, n_coverFullWidth = None,
      n_coverPositionX = None, n_coverPositionY = None, n_coverZoom = None,
      n_createdAt = 0, n_updatedAt = 0, n_deletedAt = trashed, n_pinnedAt = None, n_lockedAt = Undefined\<rparr>"

definition small_tree :: "workspace_node list" where
  "small_tree =
     [tree_node ''n2'' KNote None 2 None, tree_node ''t'' KFolder None 4 (Some 9),
      tree_node ''c'' KNote (Some ''f'') 1 None, tree_node ''tc'' KNote (Some ''t'') 1 None,
      tree_node ''f'' KFolder None 3 None, tree_node ''b'' KNote (Some ''f'') 2 None]"

theorem availability_is_inherited_trash_witness:
  "hidden small_tree ''tc'' \<and> \<not> hidden small_tree ''c''"
proof -
  have "list_all (\<lambda>n. n_id n \<noteq> []) small_tree" by code_simp
  from availability_is_inherited_trash [OF this]
  have "hidden small_tree x \<longleftrightarrow> x \<in> set (unavailableNodeIds small_tree)" for x by blast
  moreover have "''tc'' \<in> set (unavailableNodeIds small_tree)" by code_simp
  moreover have "''c'' \<notin> set (unavailableNodeIds small_tree)" by code_simp
  ultimately show ?thesis by simp
qed

text \<open>C6. The sidebar order of any node list with distinct ids is computed without looping: it lists only available nodes, each once, every parent before its children, siblings by group, rank and id, and it reaches every available root and every available child of a listed node.\<close>

theorem tree_order_correct:
  assumes "distinct (map n_id nodes)"
  shows "\<exists>r. orderAvailableNodes nodes = Some r \<and> distinct r \<and> set r \<subseteq> set (available nodes) \<and>
    (\<forall>q. sorted_wrt (\<lambda>x y. sibling_cmp x y \<le> 0) (filter (\<lambda>n. n_parentId n = q) r)) \<and>
    parents_first n_id n_parentId {n. n_parentId n = None} r \<and>
    (\<forall>n \<in> set (available nodes). n_parentId n = None \<longrightarrow> n \<in> set r) \<and>
    (\<forall>n \<in> set (available nodes). \<forall>p \<in> set r. n_parentId n = Some (n_id p) \<longrightarrow> n \<in> set r)"
  by (rule order_correct [OF assms])

theorem tree_order_correct_witness:
  "map_option (map n_id) (orderAvailableNodes small_tree) = Some [''f'', ''c'', ''b'', ''n2''] \<and>
   (\<exists>r. orderAvailableNodes small_tree = Some r \<and> parents_first n_id n_parentId {n. n_parentId n = None} r)"
proof -
  have "distinct (map n_id small_tree)" by code_simp
  from tree_order_correct [OF this]
  have "\<exists>r. orderAvailableNodes small_tree = Some r \<and> parents_first n_id n_parentId {n. n_parentId n = None} r"
    by blast
  moreover have "map_option (map n_id) (orderAvailableNodes small_tree) = Some [''f'', ''c'', ''b'', ''n2'']"
    by code_simp
  ultimately show ?thesis by simp
qed

section \<open>Index and visible rows\<close>

lemma ordered_input:
  assumes "distinct (map n_id nodes)" and "orderAvailableNodes nodes = Some xs"
  shows "distinct (map n_id xs)" and "parents_first n_id n_parentId {n. n_parentId n = None} xs"
    and "set xs \<subseteq> set (available nodes)"
  using order_ids_distinct [OF assms] order_correct [OF assms(1)] assms(2) by auto

theorem index_rows_correct:
  assumes "distinct (map n_id nodes)" and "orderAvailableNodes nodes = Some ordered" and "n \<in> set ordered"
  shows "\<exists>r. omap_get (ix_nodes (buildNodeIndex ordered)) (n_id n) = Some r \<and>
     nr_id r = n_id n \<and> nr_parentId r = n_parentId n \<and> nr_kind r = n_kind n \<and> nr_title r = n_title n \<and>
     nr_setSize r = length (filter (\<lambda>m. n_parentId m = n_parentId n) ordered) \<and>
     nr_descendantCount r = (\<Sum>c\<leftarrow>filter (\<lambda>c. n_parentId c = Some (n_id n)) ordered.
       Suc (count_of (buildNodeIndex ordered) (n_id c)))"
  using build_index_row [OF ordered_input(1,2) [OF assms(1,2)] assms(3)]
  by (auto simp: row_of_def counted_def count_of_def)


theorem index_rows_correct_witness:
  "\<exists>ordered f r. orderAvailableNodes small_tree = Some ordered \<and> f \<in> set ordered \<and> n_id f = ''f'' \<and>
     omap_get (ix_nodes (buildNodeIndex ordered)) ''f'' = Some r \<and> nr_setSize r = 2"
proof -
  let ?f = "tree_node ''f'' KFolder None 3 None"
  let ?xs = "[?f, tree_node ''c'' KNote (Some ''f'') 1 None, tree_node ''b'' KNote (Some ''f'') 2 None,
    tree_node ''n2'' KNote None 2 None]"
  have d: "distinct (map n_id small_tree)" by code_simp
  have o: "orderAvailableNodes small_tree = Some ?xs" by code_simp
  have f: "?f \<in> set ?xs" "n_id ?f = ''f''" by (simp_all add: tree_node_def)
  have two: "length (filter (\<lambda>m. n_parentId m = n_parentId ?f) ?xs) = 2"
    by (simp add: tree_node_def)
  from index_rows_correct [OF d o f(1)] obtain r where
    "omap_get (ix_nodes (buildNodeIndex ?xs)) (n_id ?f) = Some r"
    "nr_setSize r = length (filter (\<lambda>m. n_parentId m = n_parentId ?f) ?xs)" by blast
  with o f two show ?thesis by metis
qed

text \<open>C34. The visible rows of an ordered index are distinct, are exactly the rows whose every ancestor is an expanded folder outside the journal, and contain no trashed node.\<close>

theorem visible_rows_correct:
  assumes "distinct (map n_id nodes)" and "list_all (\<lambda>n. n_id n \<noteq> []) nodes"
    and "orderAvailableNodes nodes = Some ordered"
  shows "\<exists>v. flattenVisible (ix_nodes (buildNodeIndex ordered)) (ix_children (buildNodeIndex ordered)) expanded = Some v \<and>
    distinct v \<and> set v = {i. shown ordered expanded i} \<and> (\<forall>i \<in> set v. \<not> hidden nodes i)"
proof -
  note ordered = ordered_input [OF assms(1,3)]
  have ids: "n_id n \<noteq> []" if "n \<in> set ordered" for n
    using that ordered(3) assms(2) by (auto simp: available_def list_all_iff)
  have "\<not> hidden nodes i" if "shown ordered expanded i" for i
  proof -
    from that obtain n where "n \<in> set ordered" "i = n_id n" by cases auto
    with ordered(3) unavailable_hidden [of nodes] assms(2) show ?thesis
      by (auto simp: available_def list_all_iff)
  qed
  with flatten_correct [OF ordered(1,2) ids, of expanded] show ?thesis by auto
qed

theorem visible_rows_correct_witness:
  "\<exists>ordered. orderAvailableNodes small_tree = Some ordered \<and>
     flattenVisible (ix_nodes (buildNodeIndex ordered)) (ix_children (buildNodeIndex ordered)) [''f'']
       = Some [''f'', ''c'', ''b'', ''n2''] \<and> shown ordered [''f''] ''c''"
proof -
  let ?xs = "[tree_node ''f'' KFolder None 3 None, tree_node ''c'' KNote (Some ''f'') 1 None,
    tree_node ''b'' KNote (Some ''f'') 2 None, tree_node ''n2'' KNote None 2 None]"
  have d: "distinct (map n_id small_tree)" by code_simp
  have i: "list_all (\<lambda>n. n_id n \<noteq> []) small_tree" by code_simp
  have o: "orderAvailableNodes small_tree = Some ?xs" by code_simp
  have v: "flattenVisible (ix_nodes (buildNodeIndex ?xs)) (ix_children (buildNodeIndex ?xs)) [''f'']
      = Some [''f'', ''c'', ''b'', ''n2'']" by code_simp
  from visible_rows_correct [OF d i o, of "[''f'']"] v
  have "set [''f'', ''c'', ''b'', ''n2''] = {i. shown ?xs [''f''] i}" by auto
  moreover have "''c'' \<in> set [''f'', ''c'', ''b'', ''n2'']" by simp
  ultimately have "shown ?xs [''f''] ''c''" by blast
  with o v show ?thesis by blast
qed

section \<open>Ancestors and selection\<close>

text \<open>The specification: the strict ancestors of a node in an ordered list.\<close>

inductive up :: "workspace_node list \<Rightarrow> string \<Rightarrow> string \<Rightarrow> bool" for xs where
  up_parent: "n \<in> set xs \<Longrightarrow> n_parentId n = Some p \<Longrightarrow> up xs (n_id n) p"
| up_step: "n \<in> set xs \<Longrightarrow> n_parentId n = Some p \<Longrightarrow> up xs p a \<Longrightarrow> up xs (n_id n) a"

inductive_cases up_elim: "up xs i a"

lemma up_unfold:
  assumes "distinct (map n_id xs)" and "n \<in> set xs"
  shows "up xs (n_id n) a \<longleftrightarrow> (\<exists>p. n_parentId n = Some p \<and> (a = p \<or> up xs p a))"
proof
  assume "up xs (n_id n) a"
  then obtain m p where "m \<in> set xs" "n_id m = n_id n" "n_parentId m = Some p" "a = p \<or> up xs p a"
    by (auto elim: up_elim)
  moreover have "m = n" using calculation(1,2) assms by (auto simp: distinct_map dest: inj_onD)
  ultimately show "\<exists>p. n_parentId n = Some p \<and> (a = p \<or> up xs p a)" by blast
qed (use assms(2) in \<open>auto intro: up_parent up_step\<close>)

lemma ancestor_loop_run:
  assumes d: "distinct (map n_id xs)" and pf: "parents_first n_id n_parentId {n. n_parentId n = None} xs"
    and ids: "\<And>n. n \<in> set xs \<Longrightarrow> n_id n \<noteq> []"
  shows "k < length xs \<Longrightarrow> k \<le> fuel \<Longrightarrow>
    omap_get (ix_nodes (buildNodeIndex xs)) (n_id (xs ! k)) = Some r \<Longrightarrow>
    \<exists>as. ancestor_loop fuel (ix_nodes (buildNodeIndex xs)) (Some r) acc = Some (as @ acc) \<and>
      set as = {a. up xs (n_id (xs ! k)) a}"
proof (induction k arbitrary: fuel r acc rule: less_induct)
  case (less k)
  let ?n = "xs ! k" and ?m = "ix_nodes (buildNodeIndex xs)"
  have n: "?n \<in> set xs" using less.prems(1) by simp
  have row: "nr_parentId r = n_parentId ?n"
    using build_index_row [OF d pf n] less.prems(3) by (auto simp: row_of_def)
  show ?case
  proof (cases "n_parentId ?n")
    case None
    then show ?thesis using row by (simp add: up_unfold [OF d n])
  next
    case (Some p)
    have "xs = take k xs @ ?n # drop (Suc k) xs" using less.prems(1) by (rule id_take_nth_drop)
    with pf Some obtain y where y: "y \<in> set (take k xs)" "p = n_id y"
      unfolding parents_first_def by fastforce
    then obtain j where j: "j < k" "xs ! j = y"
      using less.prems(1) by (auto simp: in_set_conv_nth)
    have p: "p \<noteq> []" using y ids by (auto dest: in_set_takeD)
    obtain f where f: "fuel = Suc f" "j \<le> f" using j less.prems(2) by (cases fuel) auto
    have jl: "j < length xs" using j less.prems(1) by simp
    from build_index_row [OF d pf nth_mem [OF jl]] obtain r' where
      r': "omap_get ?m (n_id (xs ! j)) = Some r'" by blast
    from less.IH [OF j(1) jl f(2) r', of "p # acc"] obtain as where
      "ancestor_loop f ?m (Some r') (p # acc) = Some (as @ p # acc)" "set as = {a. up xs (n_id (xs ! j)) a}"
      by blast
    moreover have "omap_get ?m p = Some r'" using r' j y by simp
    ultimately have "ancestor_loop fuel ?m (Some r) acc = Some ((as @ [p]) @ acc)"
        "set (as @ [p]) = {a. up xs (n_id ?n) a}"
      using row Some p f(1) j y by (auto simp: up_unfold [OF d n])
    then show ?thesis by blast
  qed
qed

lemma index_size: "distinct (map n_id xs) \<Longrightarrow> length xs \<le> length (ix_nodes (buildNodeIndex xs))"
proof -
  assume d: "distinct (map n_id xs)"
  have "n_id ` set xs \<subseteq> set (omap_keys (ix_nodes (buildNodeIndex xs)))"
    using build_index_keys [OF d] by (metis map_of_eq_None_iff set_map subsetI)
  then have "card (n_id ` set xs) \<le> card (set (omap_keys (ix_nodes (buildNodeIndex xs))))"
    by (intro card_mono) simp_all
  also have "\<dots> \<le> length (ix_nodes (buildNodeIndex xs))"
    using card_length [of "omap_keys (ix_nodes (buildNodeIndex xs))"] by simp
  finally show ?thesis using distinct_card [OF d] by simp
qed

lemma ancestors_correct:
  assumes "distinct (map n_id xs)" and "parents_first n_id n_parentId {n. n_parentId n = None} xs"
    and "\<And>n. n \<in> set xs \<Longrightarrow> n_id n \<noteq> []"
  shows "\<exists>as. ancestorIds (ix_nodes (buildNodeIndex xs)) i = Some as \<and> set as = {a. up xs i a}"
proof (cases "i \<in> n_id ` set xs")
  case False
  then have "\<not> up xs i a" for a by (auto elim: up_elim)
  moreover have "omap_get (ix_nodes (buildNodeIndex xs)) i = None"
    using False build_index_keys [OF assms(1)] by blast
  ultimately show ?thesis by (simp add: ancestorIds_def)
next
  case True
  then obtain k where k: "k < length xs" "n_id (xs ! k) = i" by (auto simp: in_set_conv_nth)
  from build_index_row [OF assms(1,2) nth_mem [OF k(1)]] k(2) obtain r where
    r: "omap_get (ix_nodes (buildNodeIndex xs)) i = Some r" by blast
  have "k \<le> length (ix_nodes (buildNodeIndex xs))" using k(1) index_size [OF assms(1)] by simp
  from ancestor_loop_run [OF assms k(1) this, of r "[]"] r k(2) show ?thesis
    by (auto simp: ancestorIds_def)
qed

theorem selected_roots_correct:
  assumes "distinct (map n_id nodes)" and "list_all (\<lambda>n. n_id n \<noteq> []) nodes"
    and "orderAvailableNodes nodes = Some ordered"
  shows "\<exists>roots. selectedTreeRoots selected (ix_nodes (buildNodeIndex ordered)) = Some roots \<and>
    set roots = {i \<in> set selected. \<forall>a. up ordered i a \<longrightarrow> a \<notin> set selected}"
proof -
  note ordered = ordered_input [OF assms(1,3)]
  have ids: "n_id n \<noteq> []" if "n \<in> set ordered" for n
    using that ordered(3) assms(2) by (auto simp: available_def list_all_iff)
  let ?m = "ix_nodes (buildNodeIndex ordered)"
  define chain where "chain i = the (ancestorIds ?m i)" for i
  have chain: "ancestorIds ?m i = Some (chain i)" "set (chain i) = {a. up ordered i a}" for i
    using ancestors_correct [OF ordered(1,2) ids, of i] by (auto simp: chain_def)
  have "those (map (ancestorIds ?m) xs) = Some (map chain xs)" for xs
    by (induction xs) (simp_all add: chain(1))
  then have "selectedTreeRoots selected ?m =
      Some (map fst (filter (\<lambda>(i, as). \<not> list_ex (\<lambda>a. a \<in> set selected) as) (zip selected (map chain selected))))"
    by (simp add: selectedTreeRoots_def)
  moreover have "map fst (filter (\<lambda>(i, as). \<not> list_ex (\<lambda>a. a \<in> set selected) as) (zip xs (map chain xs)))
      = filter (\<lambda>i. \<not> list_ex (\<lambda>a. a \<in> set selected) (chain i)) xs" for xs
    by (induction xs) auto
  ultimately show ?thesis by (auto simp: list_ex_iff chain(2))
qed

theorem selected_roots_correct_witness:
  "\<exists>ordered. orderAvailableNodes small_tree = Some ordered \<and> up ordered ''c'' ''f'' \<and>
     (\<exists>roots. selectedTreeRoots [''c'', ''f'', ''n2''] (ix_nodes (buildNodeIndex ordered)) = Some roots \<and>
       ''c'' \<notin> set roots)"
proof -
  let ?c = "tree_node ''c'' KNote (Some ''f'') 1 None"
  let ?xs = "[tree_node ''f'' KFolder None 3 None, ?c,
    tree_node ''b'' KNote (Some ''f'') 2 None, tree_node ''n2'' KNote None 2 None]"
  have d: "distinct (map n_id small_tree)" by code_simp
  have i: "list_all (\<lambda>n. n_id n \<noteq> []) small_tree" by code_simp
  have o: "orderAvailableNodes small_tree = Some ?xs" by code_simp
  have u: "up ?xs ''c'' ''f''" using up_parent [of ?c ?xs "''f''"] by (simp add: tree_node_def)
  from selected_roots_correct [OF d i o, of "[''c'', ''f'', ''n2'']"] obtain roots where
    r: "selectedTreeRoots [''c'', ''f'', ''n2''] (ix_nodes (buildNodeIndex ?xs)) = Some roots"
      "set roots = {i \<in> set [''c'', ''f'', ''n2'']. \<forall>a. up ?xs i a \<longrightarrow> a \<notin> set [''c'', ''f'', ''n2'']}"
    by blast
  have "''f'' \<in> set [''c'', ''f'', ''n2'']" by simp
  then have c: "''c'' \<notin> set roots" unfolding r(2) mem_Collect_eq using u by blast
  show ?thesis by (intro exI conjI) (rule o, rule u, rule r(1), rule c)
qed

section \<open>Virtual window\<close>

theorem virtual_window_bounds:
  assumes "rowCount = of_nat n" and "0 \<le> overscan" and "1 \<le> maximumRows"
  shows "let w = virtualTreeWindow rowCount scrollTop viewportHeight rowPitch overscan maximumRows
    in 0 \<le> vw_start w \<and> vw_start w \<le> vw_end w \<and> vw_end w \<le> rowCount \<and>
       vw_end w - vw_start w \<le> maximumRows \<and> 0 \<le> vw_offset w \<and> vw_offset w \<le> vw_totalHeight w"
proof (cases "rowCount = 0 \<or> rowPitch \<le> 0")
  case True
  then show ?thesis using assms(1,3) by (auto simp: virtualTreeWindow_def Let_def)
next
  case False
  have n: "1 \<le> rowCount" using False assms(1) by (cases n) auto
  define v :: number where "v = max 1 (of_int \<lceil>viewportHeight / rowPitch\<rceil>)"
  define w where "w = min (min maximumRows (v + overscan * 2)) rowCount"
  define f :: number where "f = max 0 (of_int \<lfloor>scrollTop / rowPitch\<rfloor>)"
  define l where "l = min overscan (max 0 (w - v))"
  define s where "s = min (max 0 (f - l)) (max 0 (rowCount - w))"
  have eq: "virtualTreeWindow rowCount scrollTop viewportHeight rowPitch overscan maximumRows =
      \<lparr>vw_start = s, vw_end = min rowCount (s + w), vw_offset = s * rowPitch, vw_totalHeight = rowCount * rowPitch\<rparr>"
    unfolding virtualTreeWindow_def if_not_P [OF False] Let_def s_def l_def f_def w_def v_def by (rule refl)
  have w: "1 \<le> w" "w \<le> rowCount" "w \<le> maximumRows"
    using n assms(2,3) by (auto simp: w_def v_def)
  then have s: "0 \<le> s" "s \<le> rowCount - w" by (auto simp: s_def)
  have "s * rowPitch \<le> rowCount * rowPitch" "0 \<le> s * rowPitch"
    using s w False by (auto intro!: mult_right_mono)
  with s w show ?thesis by (auto simp: eq Let_def)
qed

theorem virtual_window_bounds_witness:
  "vw_end (virtualTreeWindow 100 512 320 32 4 64) \<le> 100"
  using virtual_window_bounds [of 100 100 4 64 512 320 32] by (simp add: Let_def)

definition placement :: "workspace_node \<Rightarrow> string \<times> node_kind \<times> string option \<times> number \<times> string \<times> number option" where
  "placement n = (n_id n, n_kind n, n_parentId n, n_rank n, n_title n, n_deletedAt n)"

lemma placement_fields:
  assumes "placement n = placement m"
  shows "n_id n = n_id m" "n_kind n = n_kind m" "n_parentId n = n_parentId m" "n_rank n = n_rank m"
    "n_title n = n_title m" "n_deletedAt n = n_deletedAt m"
  using assms by (simp_all add: placement_def)

lemma same_placements: "list_all2 (\<lambda>a b. placement a = placement b) xs ys \<longleftrightarrow> map placement xs = map placement ys"
  by (simp add: list_all2_eq list_all2_map1 list_all2_map2)

section \<open>Equal sets, equal sorted lists\<close>

lemma sorted_unique:
  assumes "sorted_wrt P xs" and "sorted_wrt P ys" and "set xs = set ys" and "distinct xs" and "distinct ys"
    and "\<And>x y. x \<in> set xs \<Longrightarrow> y \<in> set xs \<Longrightarrow> P x y \<Longrightarrow> P y x \<Longrightarrow> x = y"
  shows "xs = ys"
  using assms
proof (induction xs arbitrary: ys)
  case Nil
  then show ?case by simp
next
  case (Cons x xs)
  then obtain y zs where ys: "ys = y # zs" by (cases ys) auto
  have "x = y"
  proof (rule ccontr)
    assume "x \<noteq> y"
    with Cons.prems(3) ys have "x \<in> set zs" "y \<in> set xs" by auto
    with Cons.prems(1,2) ys have "P y x" "P x y" by auto
    with Cons.prems(6) [of x y] \<open>y \<in> set xs\<close> \<open>x \<noteq> y\<close> show False by simp
  qed
  moreover from this Cons.prems(3-5) ys have "set xs = set zs" by auto
  moreover have "xs = zs" by (rule Cons.IH) (use Cons.prems ys calculation in auto)
  ultimately show ?case using ys by simp
qed

definition placement_le :: "string \<times> node_kind \<times> string option \<times> number \<times> string \<times> number option \<Rightarrow>
    string \<times> node_kind \<times> string option \<times> number \<times> string \<times> number option \<Rightarrow> bool" where
  "placement_le p q \<longleftrightarrow> (\<exists>x y. p = placement x \<and> q = placement y \<and> sibling_cmp x y \<le> 0)"

lemma sibling_cmp_placement:
  "placement x = placement x' \<Longrightarrow> placement y = placement y' \<Longrightarrow> sibling_cmp x y = sibling_cmp x' y'"
  by (auto simp: placement_def sibling_cmp_def siblingGroup_def)

lemma placement_le_iff: "placement_le (placement x) (placement y) \<longleftrightarrow> sibling_cmp x y \<le> 0"
  unfolding placement_le_def using sibling_cmp_placement by metis

lemma sorted_siblings_placements:
  assumes "distinct (map n_id xs)" and "distinct (map n_id ys)" and "placement ` set xs = placement ` set ys"
  shows "map placement (js_sort sibling_cmp xs) = map placement (js_sort sibling_cmp ys)"
proof (rule sorted_unique [where P = placement_le])
  show "sorted_wrt placement_le (map placement (js_sort sibling_cmp xs))"
    using siblings.sort_sorted [OF assms(1)] by (simp add: sorted_wrt_map placement_le_iff)
  show "sorted_wrt placement_le (map placement (js_sort sibling_cmp ys))"
    using siblings.sort_sorted [OF assms(2)] by (simp add: sorted_wrt_map placement_le_iff)
  show "set (map placement (js_sort sibling_cmp xs)) = set (map placement (js_sort sibling_cmp ys))"
    using assms(3) by simp
  have d: "distinct (map placement zs)" if "distinct (map n_id zs)" for zs
    using that by (auto simp: distinct_map inj_on_def placement_def)
  show "distinct (map placement (js_sort sibling_cmp xs))" "distinct (map placement (js_sort sibling_cmp ys))"
    using d assms(1,2) by simp_all
  fix p q
  assume "p \<in> set (map placement (js_sort sibling_cmp xs))" "q \<in> set (map placement (js_sort sibling_cmp xs))"
    and le: "placement_le p q" "placement_le q p"
  then obtain x y where xy: "p = placement x" "q = placement y" "x \<in> set xs" "y \<in> set xs" by auto
  have "n_id x = n_id y"
  proof (rule ccontr)
    assume "n_id x \<noteq> n_id y"
    with le xy show False by (auto simp: placement_le_iff sibling_cmp_le)
  qed
  with assms(1) xy show "p = q" by (auto simp: distinct_map inj_on_def)
qed

section \<open>The order\<close>

lemma hidden_placements:
  assumes "placement ` set ns \<subseteq> placement ` set ms" and "hidden ns x"
  shows "hidden ms x"
  using assms(2)
proof induction
  case (hidden_own n)
  then obtain m where m: "m \<in> set ms" "placement n = placement m" using assms(1) by blast
  with hidden_own placement_fields [OF m(2)] show ?case by (metis hidden.hidden_own)
next
  case (hidden_inherited p n)
  then obtain m where m: "m \<in> set ms" "placement n = placement m" using assms(1) by blast
  with hidden_inherited placement_fields [OF m(2)] show ?case by (metis hidden.hidden_inherited)
qed

definition named :: "workspace_node list \<Rightarrow> bool" where
  "named ns \<longleftrightarrow> distinct (map n_id ns) \<and> (\<forall>n \<in> set ns. n_id n \<noteq> [])"

lemma available_placements:
  assumes "named ns" and "named ms" and "placement ` set ns \<subseteq> placement ` set ms"
    and "placement ` set ms \<subseteq> placement ` set ns"
  shows "placement ` {n \<in> set (available ns). n_parentId n = q} \<subseteq> placement ` {n \<in> set (available ms). n_parentId n = q}"
proof (rule subsetI)
  fix p
  assume "p \<in> placement ` {n \<in> set (available ns). n_parentId n = q}"
  then obtain n where n: "p = placement n" "n \<in> set ns" "\<not> hidden ns (n_id n)" "n_parentId n = q"
    using assms(1) by (auto simp: available_def unavailable_hidden named_def)
  then obtain m where m: "m \<in> set ms" "placement n = placement m" using assms(3) by blast
  have "\<not> hidden ms (n_id m)" using n(3) hidden_placements [OF assms(4)] placement_fields(1) [OF m(2)] by auto
  with m n placement_fields(3) [OF m(2)] assms(2) show "p \<in> placement ` {n \<in> set (available ms). n_parentId n = q}"
    by (auto simp: available_def unavailable_hidden named_def)
qed

lemma walk_related:
  "(\<And>x y. R x y \<Longrightarrow> list_all2 R (ch x) (ch' y)) \<Longrightarrow> list_all2 R st st' \<Longrightarrow> list_all2 R acc acc' \<Longrightarrow>
    rel_option (list_all2 R) (walk fuel ch st acc) (walk fuel ch' st' acc')"
proof (induction fuel ch st acc arbitrary: st' acc' rule: walk.induct)
  case (1 fuel ch acc)
  then show ?case by (cases fuel) simp_all
next
  case (2 ch x st acc)
  from 2(2) show ?case by (auto simp: list_all2_Cons1)
next
  case (3 fuel ch x st acc)
  from 3(3) obtain y ys where st': "st' = y # ys" "R x y" "list_all2 R st ys" by (auto simp: list_all2_Cons1)
  have "list_all2 R (ch x @ st) (ch' y @ ys)" using 3(2) [OF st'(2)] st'(3) by (rule list_all2_appendI)
  moreover have "list_all2 R (acc @ [x]) (acc' @ [y])" using 3(4) st'(2) by (simp add: list_all2_appendI)
  ultimately show ?case using 3(1) [OF 3(2)] st'(1) by simp
qed

lemma order_placements:
  assumes n: "named ns" and m: "named ms" and eq: "placement ` set ns = placement ` set ms"
  shows "map_option (map placement) (orderAvailableNodes ns) = map_option (map placement) (orderAvailableNodes ms)"
proof -
  have len: "length ns = length ms"
  proof -
    have "n_id ` set ns = n_id ` set ms" using arg_cong [OF eq, of "image fst"] by (simp add: image_image placement_def)
    then show ?thesis using n m by (metis named_def distinct_card length_map list.set_map)
  qed
  have children: "map placement (omap_getd [] (by_parent ns) q) = map placement (omap_getd [] (by_parent ms) q)" for q
    unfolding by_parent_get
  proof (rule sorted_siblings_placements)
    show "distinct (map n_id (filter (\<lambda>n. n_parentId n = q) (available ns)))"
      "distinct (map n_id (filter (\<lambda>n. n_parentId n = q) (available ms)))"
      using n m by (simp_all add: named_def available_distinct distinct_map_filter)
    show "placement ` set (filter (\<lambda>n. n_parentId n = q) (available ns)) =
        placement ` set (filter (\<lambda>n. n_parentId n = q) (available ms))"
      using available_placements [OF n m, of q] available_placements [OF m n, of q] eq by auto
  qed
  let ?R = "\<lambda>a b. placement a = placement b"
  have "list_all2 ?R (omap_getd [] (by_parent ns) (Some (n_id x))) (omap_getd [] (by_parent ms) (Some (n_id y)))"
    if "?R x y" for x y
    unfolding same_placements placement_fields(1) [OF that] by (rule children)
  moreover have "list_all2 ?R (omap_getd [] (by_parent ns) None) (omap_getd [] (by_parent ms) None)"
    unfolding same_placements by (rule children)
  ultimately have "rel_option (list_all2 ?R) (orderAvailableNodes ns) (orderAvailableNodes ms)"
    unfolding orderAvailableNodes_def Let_def len by (rule walk_related) (assumption, rule list.rel_intros(1))
  then show ?thesis
    by (cases rule: option.rel_cases) (simp_all add: same_placements)
qed

section \<open>The index\<close>

lemma index_row_placement: "placement n = placement m \<Longrightarrow> index_row n ix = index_row m ix"
  by (simp add: index_row_def placement_def)

lemma index_fold_placements:
  "list_all2 (\<lambda>a b. placement a = placement b) xs ys \<Longrightarrow> fold index_row xs ix = fold index_row ys ix"
proof (induction xs ys arbitrary: ix rule: list_all2_induct)
  case Nil
  show ?case ..
next
  case (Cons x xs y ys)
  show ?case
    unfolding fold_simps(2) index_row_placement [OF Cons.hyps(1)] by (rule Cons.IH)
qed

lemma index_placements: "map placement xs = map placement ys \<Longrightarrow> buildNodeIndex xs = buildNodeIndex ys"
  unfolding buildNodeIndex_def same_placements [symmetric] by (simp only: index_fold_placements)

lemma filter_placements:
  assumes "map placement xs = map placement ys" and P: "\<And>x y. placement x = placement y \<Longrightarrow> P x = P y"
  shows "map placement (filter P xs) = map placement (filter P ys)"
proof -
  from assms(1) have "list_all2 (\<lambda>a b. placement a = placement b) xs ys" by (simp only: same_placements)
  then have "list_all2 (\<lambda>a b. placement a = placement b) (filter P xs) (filter P ys)"
  proof (induction xs ys rule: list_all2_induct)
    case Nil
    show ?case by (simp only: filter.simps list.rel_intros(1))
  next
    case (Cons x xs y ys)
    then show ?case by (simp only: filter.simps P [OF Cons.hyps(1)] split: if_split) (blast intro: list.rel_intros(2))
  qed
  then show ?thesis by (simp only: same_placements)
qed

lemma ids_placements:
  assumes "map placement xs = map placement ys"
  shows "map n_id xs = map n_id ys"
proof -
  have e: "map n_id zs = map fst (map placement zs)" for zs by (simp add: placement_def)
  show ?thesis by (simp only: e assms)
qed

end
