(* ===== verification/Panes.thy ===== *)
theory Panes
  imports Node_Tree
begin

text \<open>
  \<open>store/panes.ts\<close>: the tab strips of the one or two panes, their reconciliation with the
  workspace, tab closing and reopening, pane focus, and the persisted layout. \<open>panes_ok\<close> is
  the invariant of a strip list; \<open>pane_step\<close> is the state machine of all edits.
  Functions that return their input reference to say "nothing changed" return an equal value.
\<close>

section \<open>Data\<close>

record pane_state =
  pn_id :: string
  pn_open :: "string list"
  pn_pinned :: "string list"
  pn_active :: "string option"

datatype split_orientation = Vertical | Horizontal

record pane_layout =
  ly_panes :: "pane_state list"
  ly_orientation :: split_orientation
  ly_ratio :: number

definition PRIMARY_PANE_ID :: string where "PRIMARY_PANE_ID = ''primary''"
definition SECONDARY_PANE_ID :: string where "SECONDARY_PANE_ID = ''beside''"
definition PANE_LAYOUT_VERSION :: number where "PANE_LAYOUT_VERSION = 3"
definition DEFAULT_SPLIT_ORIENTATION :: split_orientation where "DEFAULT_SPLIT_ORIENTATION = Vertical"
definition DEFAULT_SPLIT_RATIO :: number where "DEFAULT_SPLIT_RATIO = 1/2"
definition MIN_SPLIT_RATIO :: number where "MIN_SPLIT_RATIO = 15/100"
definition MAX_SPLIT_RATIO :: number where "MAX_SPLIT_RATIO = 85/100"

definition clampSplitRatio :: "number \<Rightarrow> number" where
  "clampSplitRatio ratio = min MAX_SPLIT_RATIO (max MIN_SPLIT_RATIO ratio)"

fun flipSplitOrientation :: "split_orientation \<Rightarrow> split_orientation" where
  "flipSplitOrientation Vertical = Horizontal"
| "flipSplitOrientation Horizontal = Vertical"

definition defaultPanes :: "string option \<Rightarrow> pane_state list" where
  "defaultPanes active =
     [\<lparr>pn_id = PRIMARY_PANE_ID, pn_open = (case active of None \<Rightarrow> [] | Some i \<Rightarrow> [i]),
       pn_pinned = [], pn_active = active\<rparr>]"

section \<open>Reconciliation\<close>

definition is_note :: "node_map \<Rightarrow> string \<Rightarrow> bool" where
  "is_note nodes i = (case omap_get nodes i of None \<Rightarrow> False | Some n \<Rightarrow> n_kind n = KNote)"

text \<open>The strip and active tab a reconciled pane ends with: the primary pane mirrors the active note, replacing the
  previous active tab in place unless notes open in tabs.\<close>

definition sync_strip :: "string option \<Rightarrow> node_map \<Rightarrow> bool \<Rightarrow> pane_state \<Rightarrow> string list \<times> string option" where
  "sync_strip activeNoteId nodes openInTabs pane =
     (let open0 = filter (is_note nodes) (pn_open pane);
          active0 = (case pn_active pane of None \<Rightarrow> None | Some i \<Rightarrow> if is_note nodes i then Some i else None)
      in if pn_id pane = PRIMARY_PANE_ID
         then (case activeNoteId of
             None \<Rightarrow> (open0, None)
           | Some i \<Rightarrow>
               (if i \<in> set open0 then open0
                else (case (if openInTabs then None
                      else (case active0 of None \<Rightarrow> None | Some prev \<Rightarrow> index_of open0 prev)) of
                    Some slot \<Rightarrow> open0[slot := i]
                  | None \<Rightarrow> open0 @ [i]), Some i))
         else (open0, active0))"

definition sync_pane :: "string option \<Rightarrow> node_map \<Rightarrow> bool \<Rightarrow> pane_state \<Rightarrow> pane_state" where
  "sync_pane activeNoteId nodes openInTabs pane =
     (let (open', active') = sync_strip activeNoteId nodes openInTabs pane;
          pinned' = filter (\<lambda>i. i \<in> set open') (pn_pinned pane)
      in if pinned' = pn_pinned pane \<and> active' = pn_active pane \<and> open' = pn_open pane then pane
         else pane\<lparr>pn_open := open', pn_pinned := pinned', pn_active := active'\<rparr>)"

definition syncPanes :: "pane_state list \<Rightarrow> string option \<Rightarrow> node_map \<Rightarrow> bool \<Rightarrow> pane_state list" where
  "syncPanes panes activeNoteId nodes openInTabs =
     (let next = map (sync_pane activeNoteId nodes openInTabs) panes
      in if next = [] then defaultPanes activeNoteId else next)"

definition restore_pane :: "(string \<Rightarrow> bool) \<Rightarrow> nat \<Rightarrow> pane_state \<Rightarrow> pane_state list" where
  "restore_pane isAvailableNote index pane =
     (let open' = filter isAvailableNote (pn_open pane)
      in if 0 < index \<and> open' = [] then []
         else [pane\<lparr>pn_open := open',
            pn_pinned := filter (\<lambda>i. i \<in> set open') (pn_pinned pane),
            pn_active := (case pn_active pane of
                Some i \<Rightarrow> if i \<in> set open' then Some i else array_at open' 0
              | None \<Rightarrow> array_at open' 0)\<rparr>])"

definition restorePanes :: "pane_state list \<Rightarrow> string option \<Rightarrow> node_map \<Rightarrow> bool \<Rightarrow> pane_state list" where
  "restorePanes panes activeNoteId nodes openInTabs =
     (let unavailable = unavailableNodeIds (omap_values nodes);
          avail = (\<lambda>i. is_note nodes i \<and> i \<notin> set unavailable);
          restored = concat (map (\<lambda>(index, pane). restore_pane avail index pane) (enumerate 0 panes))
      in syncPanes restored activeNoteId nodes openInTabs)"

definition primaryPane :: "pane_state list \<Rightarrow> pane_state" where
  "primaryPane panes = (case panes of p # _ \<Rightarrow> p
     | [] \<Rightarrow> \<lparr>pn_id = PRIMARY_PANE_ID, pn_open = [], pn_pinned = [], pn_active = None\<rparr>)"

definition secondaryPane :: "pane_state list \<Rightarrow> pane_state option" where
  "secondaryPane panes = array_at panes 1"

definition paneWithId :: "pane_state list \<Rightarrow> string \<Rightarrow> pane_state option" where
  "paneWithId panes paneId = find (\<lambda>p. pn_id p = paneId) panes"

definition replacePane :: "pane_state list \<Rightarrow> string \<Rightarrow> pane_state \<Rightarrow> pane_state list" where
  "replacePane panes paneId next = map (\<lambda>p. if pn_id p = paneId then next else p) panes"

section \<open>Tabs\<close>

text \<open>\<open>[...xs.slice(0, n), x, ...xs.slice(n)]\<close>.\<close>

definition insert_at :: "nat \<Rightarrow> 'a \<Rightarrow> 'a list \<Rightarrow> 'a list" where
  "insert_at n x xs = take n xs @ [x] @ drop n xs"

definition openNoteInTab :: "pane_state list \<Rightarrow> string \<Rightarrow> string \<Rightarrow> pane_state list" where
  "openNoteInTab panes paneId noteId =
     (case paneWithId panes paneId of None \<Rightarrow> panes
      | Some pane \<Rightarrow> if noteId \<in> set (pn_open pane) then panes
          else replacePane panes paneId (pane\<lparr>pn_open := pn_open pane @ [noteId]\<rparr>))"

text \<open>The next active note is \<open>undefined\<close> when the active tab did not change.\<close>

record close_result =
  cr_panes :: "pane_state list"
  cr_next :: "string nullable"

definition closeTab :: "pane_state list \<Rightarrow> string \<Rightarrow> string \<Rightarrow> close_result" where
  "closeTab panes paneId noteId =
     (case paneWithId panes paneId of
        None \<Rightarrow> \<lparr>cr_panes = panes, cr_next = Undefined\<rparr>
      | Some pane \<Rightarrow>
          (case index_of (pn_open pane) noteId of
             None \<Rightarrow> \<lparr>cr_panes = panes, cr_next = Undefined\<rparr>
           | Some index \<Rightarrow>
               let open' = filter (\<lambda>i. i \<noteq> noteId) (pn_open pane);
                   pinned' = filter (\<lambda>i. i \<noteq> noteId) (pn_pinned pane)
               in if pn_active pane \<noteq> Some noteId
                  then \<lparr>cr_panes = replacePane panes paneId (pane\<lparr>pn_open := open', pn_pinned := pinned'\<rparr>),
                        cr_next = Undefined\<rparr>
                  else let nxt = (if open' = [] then None else array_at open' (min index (length open' - 1)))
                    in \<lparr>cr_panes = replacePane panes paneId
                          (pane\<lparr>pn_open := open', pn_pinned := pinned', pn_active := nxt\<rparr>),
                        cr_next = of_option nxt\<rparr>))"

definition retainTabs :: "pane_state list \<Rightarrow> pane_state \<Rightarrow> string list \<Rightarrow> string option \<Rightarrow> close_result" where
  "retainTabs panes pane open' fallback =
     (if length open' = length (pn_open pane) then \<lparr>cr_panes = panes, cr_next = Undefined\<rparr>
      else let survives = (case pn_active pane of None \<Rightarrow> False | Some i \<Rightarrow> i \<in> set open');
               active' = (if survives then pn_active pane else fallback)
           in \<lparr>cr_panes = replacePane panes (pn_id pane) (pane\<lparr>pn_open := open', pn_active := active'\<rparr>),
               cr_next = (if survives then Undefined else of_option active')\<rparr>)"

definition closeOtherTabs :: "pane_state list \<Rightarrow> string \<Rightarrow> string \<Rightarrow> close_result" where
  "closeOtherTabs panes paneId noteId =
     (case paneWithId panes paneId of
        None \<Rightarrow> \<lparr>cr_panes = panes, cr_next = Undefined\<rparr>
      | Some pane \<Rightarrow>
          if noteId \<notin> set (pn_open pane) then \<lparr>cr_panes = panes, cr_next = Undefined\<rparr>
          else retainTabs panes pane
                 (filter (\<lambda>i. i = noteId \<or> i \<in> set (pn_pinned pane)) (pn_open pane)) (Some noteId))"

datatype side = SideLeft | SideRight

definition closeTabsToSide :: "pane_state list \<Rightarrow> string \<Rightarrow> string \<Rightarrow> side \<Rightarrow> close_result" where
  "closeTabsToSide panes paneId noteId side =
     (case paneWithId panes paneId of
        None \<Rightarrow> \<lparr>cr_panes = panes, cr_next = Undefined\<rparr>
      | Some pane \<Rightarrow>
          (case index_of (pn_open pane) noteId of
             None \<Rightarrow> \<lparr>cr_panes = panes, cr_next = Undefined\<rparr>
           | Some anchor \<Rightarrow>
               retainTabs panes pane
                 (map snd (filter (\<lambda>(index, i). i = noteId \<or> i \<in> set (pn_pinned pane) \<or>
                     (if side = SideRight then index \<le> anchor else anchor \<le> index))
                   (enumerate 0 (pn_open pane))))
                 (Some noteId)))"

definition closeAllTabs :: "pane_state list \<Rightarrow> string \<Rightarrow> close_result" where
  "closeAllTabs panes paneId =
     (case paneWithId panes paneId of
        None \<Rightarrow> \<lparr>cr_panes = panes, cr_next = Undefined\<rparr>
      | Some pane \<Rightarrow>
          let open' = filter (\<lambda>i. i \<in> set (pn_pinned pane)) (pn_open pane)
          in retainTabs panes pane open' (if open' = [] then None else Some (last open')))"

definition togglePinTab :: "pane_state list \<Rightarrow> string \<Rightarrow> string \<Rightarrow> pane_state list" where
  "togglePinTab panes paneId noteId =
     (case paneWithId panes paneId of None \<Rightarrow> panes
      | Some pane \<Rightarrow> if noteId \<notin> set (pn_open pane) then panes
          else replacePane panes paneId (pane\<lparr>pn_pinned :=
             (if noteId \<in> set (pn_pinned pane) then filter (\<lambda>i. i \<noteq> noteId) (pn_pinned pane)
              else pn_pinned pane @ [noteId])\<rparr>))"

definition reorderTab :: "pane_state list \<Rightarrow> string \<Rightarrow> string \<Rightarrow> string option \<Rightarrow> pane_state list" where
  "reorderTab panes paneId noteId before =
     (case paneWithId panes paneId of None \<Rightarrow> panes
      | Some pane \<Rightarrow>
          (case index_of (pn_open pane) noteId of None \<Rightarrow> panes
           | Some from_i \<Rightarrow>
               if Some noteId = before \<or> noteId \<in> set (pn_pinned pane) then panes
               else let rest = filter (\<lambda>i. i \<noteq> noteId) (pn_open pane)
                 in (case (case before of None \<Rightarrow> Some (length rest) | Some b \<Rightarrow> index_of rest b) of
                       None \<Rightarrow> panes
                     | Some insertAt \<Rightarrow>
                         let open' = insert_at insertAt noteId rest;
                             pinnedHeld = list_all (\<lambda>i. index_of open' i = index_of (pn_open pane) i) (pn_pinned pane)
                         in if \<not> pinnedHeld \<or> array_at open' from_i = Some noteId then panes
                            else replacePane panes paneId (pane\<lparr>pn_open := open'\<rparr>))))"

datatype direction = Backward | Forward

definition step_of :: "direction \<Rightarrow> int" where
  "step_of d = (case d of Backward \<Rightarrow> -1 | Forward \<Rightarrow> 1)"

definition wrap_index :: "nat \<Rightarrow> direction \<Rightarrow> nat \<Rightarrow> nat" where
  "wrap_index index d count = nat ((int index + step_of d + int count) mod int count)"

definition cycleTabId :: "pane_state list \<Rightarrow> string \<Rightarrow> direction \<Rightarrow> string option" where
  "cycleTabId panes paneId d =
     (case paneWithId panes paneId of None \<Rightarrow> None
      | Some pane \<Rightarrow>
          if length (pn_open pane) < 2 then None
          else (case pn_active pane of None \<Rightarrow> None
            | Some active \<Rightarrow>
                (case index_of (pn_open pane) active of
                   None \<Rightarrow> array_at (pn_open pane) 0
                 | Some index \<Rightarrow> array_at (pn_open pane) (wrap_index index d (length (pn_open pane))))))"

definition paneById :: "pane_state list \<Rightarrow> string \<Rightarrow> pane_state option" where
  "paneById panes paneId =
     (case find (\<lambda>p. pn_id p = paneId) panes of Some p \<Rightarrow> Some p | None \<Rightarrow> array_at panes 0)"

definition tabIdAtIndex :: "pane_state list \<Rightarrow> string \<Rightarrow> int \<Rightarrow> string option" where
  "tabIdAtIndex panes paneId index =
     (case paneById panes paneId of None \<Rightarrow> None
      | Some pane \<Rightarrow>
          if index < 0 then None
          else if index = 0 then (if pn_open pane = [] then None else array_at (pn_open pane) (length (pn_open pane) - 1))
          else array_at (pn_open pane) (nat (index - 1)))"

definition activateTabInPane :: "pane_state list \<Rightarrow> string \<Rightarrow> string \<Rightarrow> pane_state list" where
  "activateTabInPane panes paneId noteId =
     (case find (\<lambda>p. pn_id p = paneId) panes of None \<Rightarrow> panes
      | Some pane \<Rightarrow>
          if pn_active pane = Some noteId \<or> noteId \<notin> set (pn_open pane) then panes
          else map (\<lambda>p. if pn_id p = paneId then p\<lparr>pn_active := Some noteId\<rparr> else p) panes)"

section \<open>Closed tabs\<close>

record closed_tab =
  ct_noteId :: string
  ct_index :: int

type_synonym closed_stacks = "(string, closed_tab list) omap"

definition CLOSED_TAB_LIMIT :: nat where "CLOSED_TAB_LIMIT = 10"

definition withClosedTabs :: "closed_stacks \<Rightarrow> string \<Rightarrow> closed_tab list \<Rightarrow> closed_stacks" where
  "withClosedTabs stacks paneId tabs =
     (if tabs = [] then omap_delete paneId stacks else omap_set paneId tabs stacks)"

text \<open>\<open>next.slice(-LIMIT)\<close> keeps the last entries.\<close>

definition recordClosedTab :: "closed_stacks \<Rightarrow> string \<Rightarrow> closed_tab \<Rightarrow> closed_stacks" where
  "recordClosedTab stacks paneId tab =
     (let next = filter (\<lambda>e. ct_noteId e \<noteq> ct_noteId tab) (omap_getd [] stacks paneId) @ [tab]
      in withClosedTabs stacks paneId (drop (length next - CLOSED_TAB_LIMIT) next))"

definition discardClosedTabs :: "closed_stacks \<Rightarrow> string \<Rightarrow> closed_stacks" where
  "discardClosedTabs stacks paneId =
     (if omap_has stacks paneId then omap_delete paneId stacks else stacks)"

record reopen_result =
  ro_panes :: "pane_state list"
  ro_closed :: "closed_tab list"
  ro_noteId :: "string option"

text \<open>The loop runs down from the stack's end; its argument is the stack reversed.\<close>

fun reopen_loop :: "pane_state list \<Rightarrow> string \<Rightarrow> pane_state \<Rightarrow> (string \<Rightarrow> bool) \<Rightarrow> closed_tab list \<Rightarrow> reopen_result option" where
  "reopen_loop panes paneId pane isOpenable [] = None"
| "reopen_loop panes paneId pane isOpenable (tab # older) =
     (if \<not> isOpenable (ct_noteId tab) \<or> ct_noteId tab \<in> set (pn_open pane)
      then reopen_loop panes paneId pane isOpenable older
      else let slot = nat (min (max (ct_index tab) 0) (int (length (pn_open pane))));
               open' = insert_at slot (ct_noteId tab) (pn_open pane)
           in Some \<lparr>ro_panes = map (\<lambda>p. if pn_id p = paneId
                  then p\<lparr>pn_open := open', pn_active := Some (ct_noteId tab)\<rparr> else p) panes,
                ro_closed = rev older, ro_noteId = Some (ct_noteId tab)\<rparr>)"

definition reopenClosedTab :: "pane_state list \<Rightarrow> closed_tab list \<Rightarrow> string \<Rightarrow> (string \<Rightarrow> bool) \<Rightarrow> reopen_result" where
  "reopenClosedTab panes closedTabs paneId isOpenable =
     (case find (\<lambda>p. pn_id p = paneId) panes of
        None \<Rightarrow> \<lparr>ro_panes = panes, ro_closed = closedTabs, ro_noteId = None\<rparr>
      | Some pane \<Rightarrow>
          (case reopen_loop panes paneId pane isOpenable (rev closedTabs) of
             Some r \<Rightarrow> r
           | None \<Rightarrow> \<lparr>ro_panes = panes, ro_closed = [], ro_noteId = None\<rparr>))"

definition moveTabInPane :: "pane_state list \<Rightarrow> string \<Rightarrow> direction \<Rightarrow> pane_state list" where
  "moveTabInPane panes paneId d =
     (case find (\<lambda>p. pn_id p = paneId) panes of None \<Rightarrow> panes
      | Some pane \<Rightarrow>
          if length (pn_open pane) < 2 then panes
          else (case pn_active pane of None \<Rightarrow> panes
            | Some active \<Rightarrow>
                (case index_of (pn_open pane) active of None \<Rightarrow> panes
                 | Some from_i \<Rightarrow>
                     let to_i = wrap_index from_i d (length (pn_open pane));
                         rest = filter (\<lambda>i. i \<noteq> active) (pn_open pane);
                         open' = insert_at to_i active rest
                     in map (\<lambda>p. if pn_id p = paneId then p\<lparr>pn_open := open'\<rparr> else p) panes)))"

section \<open>Panes\<close>

definition openBeside :: "pane_state list \<Rightarrow> string \<Rightarrow> pane_state list" where
  "openBeside panes noteId =
     [primaryPane panes,
      \<lparr>pn_id = SECONDARY_PANE_ID, pn_open = [noteId], pn_pinned = [], pn_active = Some noteId\<rparr>]"

definition paneIndexInDirection :: "nat \<Rightarrow> nat option \<Rightarrow> direction \<Rightarrow> nat option" where
  "paneIndexInDirection paneCount fromIndex d =
     (if paneCount < 2 then None
      else case fromIndex of
          None \<Rightarrow> Some (if d = Backward then 0 else paneCount - 1)
        | Some i \<Rightarrow> let next = int i + step_of d
            in if 0 \<le> next \<and> next < int paneCount then Some (nat next) else None)"

definition paneIndexCycling :: "nat \<Rightarrow> nat option \<Rightarrow> direction \<Rightarrow> nat option" where
  "paneIndexCycling paneCount fromIndex d =
     (if paneCount < 2 then None
      else let from_i = (case fromIndex of Some i \<Rightarrow> i | None \<Rightarrow> if d = Forward then paneCount - 1 else 0)
           in Some (wrap_index from_i d paneCount))"

record close_pane_result =
  cp_panes :: "pane_state list"
  cp_next :: "string nullable"
  cp_promotedFrom :: "string option"

definition closePane :: "pane_state list \<Rightarrow> string \<Rightarrow> close_pane_result" where
  "closePane panes paneId =
     (let index = find_index (\<lambda>p. pn_id p = paneId) panes;
          survivor = array_at panes (if index = Some 0 then 1 else 0);
          unchanged = \<lparr>cp_panes = panes, cp_next = Undefined, cp_promotedFrom = None\<rparr>
      in if length panes < 2 then unchanged
         else (case (index, survivor) of
             (Some _, Some s) \<Rightarrow>
               if pn_id s = PRIMARY_PANE_ID
               then \<lparr>cp_panes = [s], cp_next = Undefined, cp_promotedFrom = None\<rparr>
               else \<lparr>cp_panes = [s\<lparr>pn_id := PRIMARY_PANE_ID\<rparr>], cp_next = of_option (pn_active s),
                     cp_promotedFrom = Some (pn_id s)\<rparr>
           | _ \<Rightarrow> unchanged))"

section \<open>The persisted layout\<close>

text \<open>What \<open>JSON.parse\<close> is handed: no stored text, text it rejects, or text denoting a value.\<close>

datatype raw_json = NoText | Unparseable | Text json

definition orientation_json :: "split_orientation \<Rightarrow> json" where
  "orientation_json d = JStr (case d of Vertical \<Rightarrow> ''vertical'' | Horizontal \<Rightarrow> ''horizontal'')"

definition option_json :: "string option \<Rightarrow> json" where
  "option_json v = (case v of None \<Rightarrow> JNull | Some s \<Rightarrow> JStr s)"

definition pane_json :: "pane_state \<Rightarrow> json" where
  "pane_json p = JObj [(''paneId'', JStr (pn_id p)), (''openNoteIds'', JArr (map JStr (pn_open p))),
     (''pinnedNoteIds'', JArr (map JStr (pn_pinned p))), (''activeNoteId'', option_json (pn_active p))]"

definition serializePaneLayout :: "pane_layout \<Rightarrow> raw_json" where
  "serializePaneLayout layout = Text (JObj
     [(''version'', JNum PANE_LAYOUT_VERSION), (''panes'', JArr (map pane_json (ly_panes layout))),
      (''orientation'', orientation_json (ly_orientation layout)), (''ratio'', JNum (ly_ratio layout))])"

text \<open>\<open>Array.isArray(x) && x.every(id => typeof id === "string")\<close>.\<close>

definition string_array :: "json option \<Rightarrow> string list option" where
  "string_array v = (case v of Some (JArr xs) \<Rightarrow>
      those (map (\<lambda>x. case x of JStr s \<Rightarrow> Some s | _ \<Rightarrow> None) xs) | _ \<Rightarrow> None)"

definition parse_pane :: "json \<Rightarrow> pane_state option" where
  "parse_pane j =
     (if \<not> is_json_node j then None
      else case (json_string (json_field ''paneId'' j), string_array (json_field ''openNoteIds'' j),
                 string_array (json_field ''pinnedNoteIds'' j), json_field ''activeNoteId'' j) of
        (Some i, Some open', Some pinned', Some JNull) \<Rightarrow>
          Some \<lparr>pn_id = i, pn_open = open', pn_pinned = pinned', pn_active = None\<rparr>
      | (Some i, Some open', Some pinned', Some (JStr a)) \<Rightarrow>
          Some \<lparr>pn_id = i, pn_open = open', pn_pinned = pinned', pn_active = Some a\<rparr>
      | _ \<Rightarrow> None)"

definition parsePaneLayout :: "raw_json \<Rightarrow> pane_layout option" where
  "parsePaneLayout raw =
     (case raw of NoText \<Rightarrow> None | Unparseable \<Rightarrow> None
      | Text layout \<Rightarrow>
          if \<not> is_json_node layout then None
          else if json_field ''version'' layout \<noteq> Some (JNum PANE_LAYOUT_VERSION) \<and>
                  json_field ''version'' layout \<noteq> Some (JNum (PANE_LAYOUT_VERSION - 1)) then None
          else (case json_field ''panes'' layout of
              Some (JArr entries) \<Rightarrow>
                (case those (map parse_pane (take 2 entries)) of None \<Rightarrow> None
                 | Some panes \<Rightarrow>
                     if panes = [] \<or> pn_id (hd panes) \<noteq> PRIMARY_PANE_ID then None
                     else Some \<lparr>ly_panes = panes,
                       ly_orientation = (case json_field ''orientation'' layout of
                           Some (JStr s) \<Rightarrow> if s = ''vertical'' then Vertical
                             else if s = ''horizontal'' then Horizontal else DEFAULT_SPLIT_ORIENTATION
                         | _ \<Rightarrow> DEFAULT_SPLIT_ORIENTATION),
                       ly_ratio = (case json_field ''ratio'' layout of
                           Some (JNum r) \<Rightarrow> clampSplitRatio r | _ \<Rightarrow> DEFAULT_SPLIT_RATIO)\<rparr>)
            | _ \<Rightarrow> None))"

end
