(* ===== verification/Pane_Invariants.thy ===== *)
theory Pane_Invariants
  imports Panes
begin

text \<open>
  The invariant of the tab strips and that every operation of \<open>store/panes.ts\<close> keeps it.
  \<open>pane_edit\<close> is the contract the tab operations share; \<open>pane_step\<close> is the state
  machine of all of them, whose reachable states satisfy the invariant.
\<close>

definition pane_ok :: "pane_state \<Rightarrow> bool" where
  "pane_ok p \<longleftrightarrow> distinct (pn_open p) \<and> distinct (pn_pinned p) \<and> set (pn_pinned p) \<subseteq> set (pn_open p) \<and>
     (case pn_active p of None \<Rightarrow> True | Some i \<Rightarrow> i \<in> set (pn_open p))"

definition panes_ok :: "pane_state list \<Rightarrow> bool" where
  "panes_ok ps \<longleftrightarrow> list_all pane_ok ps \<and> distinct (map pn_id ps) \<and> ps \<noteq> [] \<and> length ps \<le> 2 \<and>
     pn_id (hd ps) = PRIMARY_PANE_ID"

locale pane_edit =
  fixes edit :: "'a \<Rightarrow> pane_state list \<Rightarrow> pane_state list"
  assumes same_ids: "map pn_id (edit a ps) = map pn_id ps"
    and each_ok: "list_all pane_ok ps \<Longrightarrow> distinct (map pn_id ps) \<Longrightarrow> list_all pane_ok (edit a ps)"
begin

lemma keeps_ok: "panes_ok ps \<Longrightarrow> panes_ok (edit a ps)"
proof -
  assume ok: "panes_ok ps"
  have ids: "map pn_id (edit a ps) = map pn_id ps" by (rule same_ids)
  then have len: "length (edit a ps) = length ps" by (metis length_map)
  have "ps \<noteq> []" using ok by (simp add: panes_ok_def)
  with len have ne: "edit a ps \<noteq> []" by auto
  have "pn_id (hd (edit a ps)) = pn_id (hd ps)"
    using ids ne \<open>ps \<noteq> []\<close> by (metis list.map_sel(1))
  with ok ids len ne each_ok [of ps a] show ?thesis by (simp add: panes_ok_def)
qed

lemma run_keeps_ok: "panes_ok ps \<Longrightarrow> panes_ok (fold edit as ps)"
  by (induction as arbitrary: ps) (auto intro: keeps_ok)

end

section \<open>Helpers\<close>

lemma paneWithId_Some: "paneWithId ps k = Some p \<Longrightarrow> p \<in> set ps \<and> pn_id p = k"
  unfolding paneWithId_def by (auto simp: find_Some_iff)

lemma replacePane_ids: "pn_id q = k \<Longrightarrow> map pn_id (replacePane ps k q) = map pn_id ps"
  by (auto simp: replacePane_def)

lemma replacePane_ok: "list_all pane_ok ps \<Longrightarrow> pane_ok q \<Longrightarrow> list_all pane_ok (replacePane ps k q)"
  by (auto simp: replacePane_def list_all_iff)

lemma pane_of: "list_all pane_ok ps \<Longrightarrow> paneWithId ps k = Some p \<Longrightarrow> pane_ok p"
  by (auto dest: paneWithId_Some simp: list_all_iff)

lemma pane_okD:
  assumes "pane_ok p"
  shows "distinct (pn_open p)" "distinct (pn_pinned p)" "x \<in> set (pn_pinned p) \<Longrightarrow> x \<in> set (pn_open p)"
    "pn_active p = Some i \<Longrightarrow> i \<in> set (pn_open p)"
  using assms by (auto simp: pane_ok_def)

lemma pane_okI:
  assumes "distinct (pn_open p)" "distinct (pn_pinned p)"
    "\<And>x. x \<in> set (pn_pinned p) \<Longrightarrow> x \<in> set (pn_open p)"
    "\<And>i. pn_active p = Some i \<Longrightarrow> i \<in> set (pn_open p)"
  shows "pane_ok p"
  using assms by (auto simp: pane_ok_def split: option.splits)

lemma unique_pane:
  "distinct (map pn_id ps) \<Longrightarrow> paneWithId ps k = Some p \<Longrightarrow> q \<in> set ps \<Longrightarrow> pn_id q = k \<Longrightarrow> q = p"
  by (auto dest!: paneWithId_Some simp: distinct_map dest: inj_onD)

lemma find_pane: "find (\<lambda>p. pn_id p = k) ps = paneWithId ps k"
  by (simp add: paneWithId_def)

lemma map_pane_ids: "(\<And>p. pn_id (f p) = pn_id p) \<Longrightarrow> map pn_id (map (\<lambda>p. if pn_id p = k then f p else p) ps) = map pn_id ps"
  by simp

text \<open>With distinct pane ids, an edit of the panes with one id is an edit of that pane.\<close>

lemma map_pane_ok:
  assumes ok: "list_all pane_ok ps" and "\<And>p. p \<in> set ps \<Longrightarrow> pn_id p = k \<Longrightarrow> pane_ok (f p)"
  shows "list_all pane_ok (map (\<lambda>p. if pn_id p = k then f p else p) ps)"
  using assms by (auto simp: list_all_iff)

lemma distinct_insert_at:
  "distinct xs \<Longrightarrow> x \<notin> set xs \<Longrightarrow> distinct (insert_at n x xs)"
  by (auto dest: in_set_takeD in_set_dropD simp: insert_at_def set_take_disj_set_drop_if_distinct)

lemma set_insert_at: "set (insert_at n x xs) = insert x (set xs)"
  unfolding insert_at_def by (metis Un_insert_right append_Cons append_Nil append_take_drop_id list.simps(15) set_append)

section \<open>Tab operations\<close>

interpretation tab_opening: pane_edit "\<lambda>(k, i) ps. openNoteInTab ps k i"
proof (unfold_locales, clarify)
  fix ps :: "pane_state list" and k i :: string
  show "map pn_id (openNoteInTab ps k i) = map pn_id ps"
    by (auto simp: openNoteInTab_def replacePane_ids paneWithId_Some split: option.split)
next
  fix ps :: "pane_state list" and a :: "string \<times> string"
  assume ok: "list_all pane_ok ps"
  obtain k i where a: "a = (k, i)" by (cases a)
  show "list_all pane_ok ((\<lambda>(k, i) ps. openNoteInTab ps k i) a ps)"
  proof (cases "paneWithId ps k")
    case None
    with ok show ?thesis by (simp add: a openNoteInTab_def)
  next
    case (Some p)
    from pane_of [OF ok Some] have "i \<notin> set (pn_open p) \<Longrightarrow> pane_ok (p\<lparr>pn_open := pn_open p @ [i]\<rparr>)"
      by (auto simp: pane_ok_def split: option.splits)
    with Some ok show ?thesis by (auto simp: a openNoteInTab_def intro: replacePane_ok)
  qed
qed

lemma retain_ids:
  "pn_id p = k \<Longrightarrow> map pn_id (cr_panes (retainTabs ps p xs fb)) = map pn_id ps"
  by (simp add: retainTabs_def Let_def replacePane_ids)

lemma retain_ok:
  assumes "list_all pane_ok ps" and p: "pane_ok p" and "distinct xs" and "set (pn_pinned p) \<subseteq> set xs"
    and "case fb of None \<Rightarrow> True | Some i \<Rightarrow> i \<in> set xs"
  shows "list_all pane_ok (cr_panes (retainTabs ps p xs fb))"
  using assms by (auto simp: retainTabs_def Let_def pane_ok_def intro!: replacePane_ok split: option.splits)

lemma close_ids: "map pn_id (cr_panes (closeTab ps k i)) = map pn_id ps"
  by (auto simp: closeTab_def Let_def replacePane_ids paneWithId_Some split: option.split)

lemma close_ok: "list_all pane_ok ps \<Longrightarrow> list_all pane_ok (cr_panes (closeTab ps k i))"
proof (cases "paneWithId ps k")
  case None
  assume "list_all pane_ok ps"
  with None show ?thesis by (simp add: closeTab_def)
next
  case (Some p)
  assume ok: "list_all pane_ok ps"
  note p = pane_okD [OF pane_of [OF ok Some]]
  let ?o = "filter (\<lambda>j. j \<noteq> i) (pn_open p)" and ?q = "filter (\<lambda>j. j \<noteq> i) (pn_pinned p)"
  have keep: "pane_ok (p\<lparr>pn_open := ?o, pn_pinned := ?q\<rparr>)" if "pn_active p \<noteq> Some i"
    by (rule pane_okI) (use p that in auto)
  have nxt: "pane_ok (p\<lparr>pn_open := ?o, pn_pinned := ?q, pn_active := array_at ?o n\<rparr>)" for n
    by (rule pane_okI) (auto simp: p(1,2) dest: p(3) array_at_mem)
  have none: "pane_ok (p\<lparr>pn_open := [], pn_pinned := ?q, pn_active := None\<rparr>)" if "?o = []"
  proof (rule pane_okI)
    fix x assume "x \<in> set (pn_pinned (p\<lparr>pn_open := [], pn_pinned := ?q, pn_active := None\<rparr>))"
    then have "x \<in> set ?o" using p(3) by auto
    with that show "x \<in> set (pn_open (p\<lparr>pn_open := [], pn_pinned := ?q, pn_active := None\<rparr>))" by simp
  qed (use p in auto)
  show ?thesis
  proof (cases "index_of (pn_open p) i")
    case None
    with ok Some show ?thesis by (simp add: closeTab_def)
  next
    case (Some n)
    with ok \<open>paneWithId ps k = Some p\<close> keep nxt none show ?thesis
      by (cases "pn_active p = Some i"; cases "?o = []")
        (simp_all add: closeTab_def Let_def replacePane_ok del: filter_empty_conv)
  qed
qed

interpretation closing: pane_edit "\<lambda>(k, i) ps. cr_panes (closeTab ps k i)"
  by unfold_locales (auto simp: close_ids close_ok)

interpretation closing_others: pane_edit "\<lambda>(k, i) ps. cr_panes (closeOtherTabs ps k i)"
proof unfold_locales
  fix ps :: "pane_state list" and a :: "string \<times> string"
  show "map pn_id ((\<lambda>(k, i) ps. cr_panes (closeOtherTabs ps k i)) a ps) = map pn_id ps"
    by (auto simp: closeOtherTabs_def retain_ids paneWithId_Some split: option.split prod.split)
  assume ok: "list_all pane_ok ps"
  show "list_all pane_ok ((\<lambda>(k, i) ps. cr_panes (closeOtherTabs ps k i)) a ps)"
  proof (cases "paneWithId ps (fst a)")
    case None
    with ok show ?thesis by (cases a) (simp add: closeOtherTabs_def)
  next
    case (Some p)
    note p = pane_okD [OF pane_of [OF ok Some]]
    have "snd a \<in> set (pn_open p) \<Longrightarrow> list_all pane_ok (cr_panes (retainTabs ps p
        (filter (\<lambda>i. i = snd a \<or> i \<in> set (pn_pinned p)) (pn_open p)) (Some (snd a))))"
      by (rule retain_ok [OF ok pane_of [OF ok Some]]) (use p in auto)
    with ok Some show ?thesis by (cases a) (simp add: closeOtherTabs_def)
  qed
qed

lemma side_tabs:
  "set (map snd (filter (\<lambda>(n, i). P n i) (enumerate 0 xs))) \<subseteq> set xs"
  "distinct xs \<Longrightarrow> distinct (map snd (filter (\<lambda>(n, i). P n i) (enumerate 0 xs)))"
  "(\<And>n. P n x) \<Longrightarrow> x \<in> set xs \<Longrightarrow> x \<in> set (map snd (filter (\<lambda>(n, i). P n i) (enumerate 0 xs)))"
proof -
  show "set (map snd (filter (\<lambda>(n, i). P n i) (enumerate 0 xs))) \<subseteq> set xs"
    by (auto simp: in_set_enumerate_eq)
  show "distinct xs \<Longrightarrow> distinct (map snd (filter (\<lambda>(n, i). P n i) (enumerate 0 xs)))"
    by (rule distinct_map_filter) simp
  assume "\<And>n. P n x" and "x \<in> set xs"
  then obtain n where "n < length xs" "xs ! n = x" by (auto simp: in_set_conv_nth)
  with \<open>\<And>n. P n x\<close> show "x \<in> set (map snd (filter (\<lambda>(n, i). P n i) (enumerate 0 xs)))"
    by (force simp: in_set_enumerate_eq)
qed

interpretation closing_side: pane_edit "\<lambda>(k, i, sd) ps. cr_panes (closeTabsToSide ps k i sd)"
proof unfold_locales
  fix ps :: "pane_state list" and a :: "string \<times> string \<times> side"
  obtain k i sd where a: "a = (k, i, sd)" by (cases a)
  show "map pn_id ((\<lambda>(k, i, sd) ps. cr_panes (closeTabsToSide ps k i sd)) a ps) = map pn_id ps"
    by (auto simp: a closeTabsToSide_def retain_ids paneWithId_Some split: option.split)
  assume ok: "list_all pane_ok ps"
  show "list_all pane_ok ((\<lambda>(k, i, sd) ps. cr_panes (closeTabsToSide ps k i sd)) a ps)"
  proof (cases "paneWithId ps k")
    case None
    with ok show ?thesis by (simp add: a closeTabsToSide_def)
  next
    case (Some p)
    from pane_of [OF ok Some] have p: "pane_ok p" .
    let ?P = "\<lambda>anchor n j. j = i \<or> j \<in> set (pn_pinned p) \<or> (if sd = SideRight then n \<le> anchor else anchor \<le> n)"
    let ?xs = "\<lambda>anchor. map snd (filter (\<lambda>(n, j). ?P anchor n j) (enumerate 0 (pn_open p)))"
    have "list_all pane_ok (cr_panes (retainTabs ps p (?xs m) (Some i)))"
      if m: "index_of (pn_open p) i = Some m" for m
    proof (rule retain_ok [OF ok p])
      show "distinct (?xs m)" by (rule side_tabs(2)) (rule pane_okD(1) [OF p])
      show "set (pn_pinned p) \<subseteq> set (?xs m)"
        by (rule subsetI, rule side_tabs(3)) (simp_all add: pane_okD(3) [OF p])
      have "i \<in> set (pn_open p)" using index_of_Some [OF m] nth_mem by blast
      then have "i \<in> set (?xs m)" by (intro side_tabs(3)) auto
      then show "case Some i of None \<Rightarrow> True | Some j \<Rightarrow> j \<in> set (?xs m)" by simp
    qed
    with ok Some show ?thesis by (simp add: a closeTabsToSide_def split: option.split)
  qed
qed

interpretation closing_all: pane_edit "\<lambda>k ps. cr_panes (closeAllTabs ps k)"
proof unfold_locales
  fix ps :: "pane_state list" and k :: string
  show "map pn_id (cr_panes (closeAllTabs ps k)) = map pn_id ps"
    by (auto simp: closeAllTabs_def Let_def retain_ids paneWithId_Some split: option.split)
  assume ok: "list_all pane_ok ps"
  show "list_all pane_ok (cr_panes (closeAllTabs ps k))"
  proof (cases "paneWithId ps k")
    case None
    with ok show ?thesis by (simp add: closeAllTabs_def)
  next
    case (Some p)
    from pane_of [OF ok Some] have p: "pane_ok p" .
    let ?xs = "filter (\<lambda>i. i \<in> set (pn_pinned p)) (pn_open p)"
    have "list_all pane_ok (cr_panes (retainTabs ps p ?xs (if ?xs = [] then None else Some (last ?xs))))"
    proof (rule retain_ok [OF ok p])
      show "distinct ?xs" "set (pn_pinned p) \<subseteq> set ?xs" using p by (auto simp: pane_ok_def)
      show "case (if ?xs = [] then None else Some (last ?xs)) of None \<Rightarrow> True | Some i \<Rightarrow> i \<in> set ?xs"
        using last_in_set [of ?xs] by (cases "?xs = []") (simp_all del: filter_empty_conv)
    qed
    with Some show ?thesis by (simp add: closeAllTabs_def Let_def)
  qed
qed

interpretation pinning: pane_edit "\<lambda>(k, i) ps. togglePinTab ps k i"
proof unfold_locales
  fix ps :: "pane_state list" and a :: "string \<times> string"
  show "map pn_id ((\<lambda>(k, i) ps. togglePinTab ps k i) a ps) = map pn_id ps"
    by (auto simp: togglePinTab_def replacePane_ids paneWithId_Some split: option.split prod.split)
  assume ok: "list_all pane_ok ps"
  show "list_all pane_ok ((\<lambda>(k, i) ps. togglePinTab ps k i) a ps)"
  proof (cases "paneWithId ps (fst a)")
    case None
    with ok show ?thesis by (cases a) (simp add: togglePinTab_def)
  next
    case (Some p)
    note p = pane_okD [OF pane_of [OF ok Some]]
    have "pane_ok (p\<lparr>pn_pinned := filter (\<lambda>j. j \<noteq> snd a) (pn_pinned p)\<rparr>)"
      by (rule pane_okI) (use p in auto)
    moreover have "snd a \<in> set (pn_open p) \<Longrightarrow> snd a \<notin> set (pn_pinned p) \<Longrightarrow>
        pane_ok (p\<lparr>pn_pinned := pn_pinned p @ [snd a]\<rparr>)"
      by (rule pane_okI) (use p in auto)
    ultimately show ?thesis using ok Some by (cases a) (simp add: togglePinTab_def replacePane_ok)
  qed
qed

lemma strip_insert_ok:
  assumes p: "pane_ok p" and i: "i \<in> set (pn_open p)"
  shows "pane_ok (p\<lparr>pn_open := insert_at n i (filter (\<lambda>j. j \<noteq> i) (pn_open p))\<rparr>)"
proof -
  let ?r = "filter (\<lambda>j. j \<noteq> i) (pn_open p)"
  have d: "distinct (insert_at n i ?r)"
    using p by (intro distinct_insert_at) (auto simp: pane_ok_def)
  have s: "set (insert_at n i ?r) = set (pn_open p)"
    using i by (subst set_insert_at) auto
  show ?thesis using p d s by (auto simp: pane_ok_def split: option.splits)
qed

interpretation reordering: pane_edit "\<lambda>(k, i, b) ps. reorderTab ps k i b"
proof unfold_locales
  fix ps :: "pane_state list" and a :: "string \<times> string \<times> string option"
  obtain k i b where a: "a = (k, i, b)" by (cases a)
  show "map pn_id ((\<lambda>(k, i, b) ps. reorderTab ps k i b) a ps) = map pn_id ps"
    by (auto simp: a reorderTab_def Let_def replacePane_ids paneWithId_Some split: option.split)
  assume ok: "list_all pane_ok ps"
  show "list_all pane_ok ((\<lambda>(k, i, b) ps. reorderTab ps k i b) a ps)"
  proof (cases "paneWithId ps k")
    case None
    with ok show ?thesis by (simp add: a reorderTab_def)
  next
    case (Some p)
    from pane_of [OF ok Some] have p: "pane_ok p" .
    have "i \<in> set (pn_open p)" if "index_of (pn_open p) i = Some m" for m
      using index_of_Some [OF that] nth_mem by blast
    with strip_insert_ok [OF p, of i] ok Some show ?thesis
      by (simp add: a reorderTab_def Let_def replacePane_ok split: option.split)
  qed
qed

interpretation activating: pane_edit "\<lambda>(k, i) ps. activateTabInPane ps k i"
proof unfold_locales
  fix ps :: "pane_state list" and a :: "string \<times> string"
  obtain k i where a: "a = (k, i)" by (cases a)
  show "map pn_id ((\<lambda>(k, i) ps. activateTabInPane ps k i) a ps) = map pn_id ps"
    by (auto simp: a activateTabInPane_def split: option.split)
  assume ok: "list_all pane_ok ps" and d: "distinct (map pn_id ps)"
  have "list_all pane_ok (map (\<lambda>p. if pn_id p = k then p\<lparr>pn_active := Some i\<rparr> else p) ps)"
    if "paneWithId ps k = Some q" "i \<in> set (pn_open q)" for q
    by (rule map_pane_ok [OF ok])
      (use that unique_pane [OF d that(1)] pane_of [OF ok that(1)] in \<open>auto simp: pane_ok_def\<close>)
  with ok show "list_all pane_ok ((\<lambda>(k, i) ps. activateTabInPane ps k i) a ps)"
    by (simp add: a activateTabInPane_def find_pane split: option.split)
qed

interpretation moving: pane_edit "\<lambda>(k, d) ps. moveTabInPane ps k d"
proof unfold_locales
  fix ps :: "pane_state list" and a :: "string \<times> direction"
  obtain k dr where a: "a = (k, dr)" by (cases a)
  show "map pn_id ((\<lambda>(k, d) ps. moveTabInPane ps k d) a ps) = map pn_id ps"
    by (auto simp: a moveTabInPane_def Let_def split: option.split)
  assume ok: "list_all pane_ok ps" and d: "distinct (map pn_id ps)"
  have "list_all pane_ok (map (\<lambda>p. if pn_id p = k then p\<lparr>pn_open :=
        insert_at n i (filter (\<lambda>j. j \<noteq> i) (pn_open q))\<rparr> else p) ps)"
    if "paneWithId ps k = Some q" "pn_active q = Some i" "index_of (pn_open q) i = Some m" for q i n m
  proof (rule map_pane_ok [OF ok])
    fix p assume "p \<in> set ps" "pn_id p = k"
    with unique_pane [OF d that(1)] have "p = q" by blast
    moreover have "i \<in> set (pn_open q)" using index_of_Some [OF that(3)] nth_mem by blast
    ultimately show "pane_ok (p\<lparr>pn_open := insert_at n i (filter (\<lambda>j. j \<noteq> i) (pn_open q))\<rparr>)"
      using strip_insert_ok [OF pane_of [OF ok that(1)]] by simp
  qed
  with ok show "list_all pane_ok ((\<lambda>(k, d) ps. moveTabInPane ps k d) a ps)"
    by (simp add: a moveTabInPane_def find_pane Let_def split: option.split)
qed

lemma reopen_loop_shape:
  "reopen_loop ps k p f tabs = Some r \<Longrightarrow>
    \<exists>i n. i \<notin> set (pn_open p) \<and> f i \<and> ro_noteId r = Some i \<and>
      ro_panes r = map (\<lambda>q. if pn_id q = k then q\<lparr>pn_open := insert_at n i (pn_open p),
        pn_active := Some i\<rparr> else q) ps"
proof (induction ps k p f tabs rule: reopen_loop.induct)
  case (1 ps k p f)
  then show ?case by simp
next
  case (2 ps k p f t older)
  show ?case
  proof (cases "\<not> f (ct_noteId t) \<or> ct_noteId t \<in> set (pn_open p)")
    case True
    with 2 show ?thesis by simp
  next
    case False
    with "2.prems" show ?thesis by (auto simp: Let_def)
  qed
qed

interpretation reopening: pane_edit "\<lambda>(k, tabs, f) ps. ro_panes (reopenClosedTab ps tabs k f)"
proof unfold_locales
  fix ps :: "pane_state list" and a :: "string \<times> closed_tab list \<times> (string \<Rightarrow> bool)"
  obtain k tabs f where a: "a = (k, tabs, f)" by (cases a)
  show "map pn_id ((\<lambda>(k, tabs, f) ps. ro_panes (reopenClosedTab ps tabs k f)) a ps) = map pn_id ps"
    by (auto simp: a reopenClosedTab_def split: option.split dest!: reopen_loop_shape)
  assume ok: "list_all pane_ok ps" and d: "distinct (map pn_id ps)"
  have "list_all pane_ok (ro_panes r)"
    if q: "paneWithId ps k = Some q" and r: "reopen_loop ps k q f (rev tabs) = Some r" for q r
  proof -
    from reopen_loop_shape [OF r] obtain i n where i: "i \<notin> set (pn_open q)"
      and eq: "ro_panes r = map (\<lambda>p. if pn_id p = k then p\<lparr>pn_open := insert_at n i (pn_open q),
        pn_active := Some i\<rparr> else p) ps" by blast
    show ?thesis unfolding eq
    proof (rule map_pane_ok [OF ok])
      fix p assume "p \<in> set ps" "pn_id p = k"
      with unique_pane [OF d q] have "p = q" by blast
      moreover have "distinct (insert_at n i (pn_open q))"
        using pane_of [OF ok q] i by (intro distinct_insert_at) (simp_all add: pane_ok_def)
      ultimately show "pane_ok (p\<lparr>pn_open := insert_at n i (pn_open q), pn_active := Some i\<rparr>)"
        using pane_of [OF ok q] set_insert_at [of n i "pn_open q"]
        by (auto simp: pane_ok_def)
    qed
  qed
  with ok show "list_all pane_ok ((\<lambda>(k, tabs, f) ps. ro_panes (reopenClosedTab ps tabs k f)) a ps)"
    by (simp add: a reopenClosedTab_def find_pane split: option.split)
qed

section \<open>Reconciliation\<close>

lemma distinct_replace: "distinct xs \<Longrightarrow> x \<notin> set xs \<Longrightarrow> distinct (xs[n := x])"
  by (rule distinct_list_update) auto

lemma sync_pane_id [simp]: "pn_id (sync_pane act nodes tabs p) = pn_id p"
  by (simp add: sync_pane_def Let_def split: prod.split)

lemma sync_pane_strip:
  "sync_pane act nodes tabs p =
     p\<lparr>pn_open := fst (sync_strip act nodes tabs p),
       pn_pinned := filter (\<lambda>i. i \<in> set (fst (sync_strip act nodes tabs p))) (pn_pinned p),
       pn_active := snd (sync_strip act nodes tabs p)\<rparr>"
  by (cases p) (simp add: sync_pane_def Let_def split: prod.split)

lemma sync_strip_distinct:
  assumes "distinct (pn_open p)"
  shows "distinct (fst (sync_strip act nodes tabs p))"
proof -
  let ?o = "filter (is_note nodes) (pn_open p)"
  have "distinct ?o" using assms by simp
  then show ?thesis
    using distinct_replace [of ?o] by (auto simp: sync_strip_def Let_def split: option.split)
qed

lemma sync_strip_active:
  assumes ok: "pane_ok p" and a: "snd (sync_strip act nodes tabs p) = Some i"
  shows "i \<in> set (fst (sync_strip act nodes tabs p))"
proof (cases "pn_id p = PRIMARY_PANE_ID")
  case True
  let ?o = "filter (is_note nodes) (pn_open p)"
  have "i \<in> set (?o[slot := i])" if "index_of ?o prev = Some slot" for prev slot
    using index_of_Some [OF that] by (simp add: set_update_memI)
  with True a show ?thesis
    by (auto simp: sync_strip_def Let_def split: option.splits if_splits)
next
  case False
  with a pane_okD(4) [OF ok] show ?thesis
    by (auto simp: sync_strip_def Let_def split: option.splits if_splits)
qed

lemma sync_pane_ok: "pane_ok p \<Longrightarrow> pane_ok (sync_pane act nodes tabs p)"
  unfolding sync_pane_strip
  by (rule pane_okI) (auto simp: sync_strip_distinct pane_okD sync_strip_active)

interpretation syncing: pane_edit "\<lambda>(act, nodes, tabs) ps. map (sync_pane act nodes tabs) ps"
  by unfold_locales (auto simp: list_all_iff sync_pane_ok comp_def)

lemma sync_nonempty: "ps \<noteq> [] \<Longrightarrow> syncPanes ps act nodes tabs = map (sync_pane act nodes tabs) ps"
  by (simp add: syncPanes_def Let_def)

lemma default_panes_ok: "panes_ok (defaultPanes act)"
  by (auto simp: panes_ok_def defaultPanes_def pane_ok_def split: option.split)

lemma sync_panes_ok: "panes_ok ps \<Longrightarrow> panes_ok (syncPanes ps act nodes tabs)"
  using syncing.keeps_ok [of ps "(act, nodes, tabs)"] by (simp add: sync_nonempty panes_ok_def)

lemma sync_strip_notes:
  "j \<in> set (fst (sync_strip act nodes tabs p)) \<Longrightarrow> is_note nodes j \<and> j \<in> set (pn_open p) \<or> Some j = act"
  by (auto simp: sync_strip_def Let_def split: option.splits if_splits dest!: set_update_subset_insert [THEN subsetD])

lemma sync_strip_fix:
  assumes act: "case act of None \<Rightarrow> True | Some i \<Rightarrow> is_note nodes i"
  shows "sync_strip act nodes tabs' (sync_pane act nodes tabs p) = sync_strip act nodes tabs p"
proof -
  let ?o = "filter (is_note nodes) (pn_open p)"
  have upd: "filter (is_note nodes) (?o[n := i]) = ?o[n := i]" if "is_note nodes i" for n i
    using that set_update_subset_insert [of ?o n i] by (auto simp: filter_id_conv)
  have mem: "i \<in> set (?o[n := i])" if "index_of ?o q = Some n" for n i q
    using index_of_Some [OF that] by (simp add: set_update_memI)
  show ?thesis
    using act upd mem unfolding sync_pane_strip
    by (auto simp: sync_strip_def Let_def split: option.splits)
qed

lemma sync_pane_fix:
  assumes "case act of None \<Rightarrow> True | Some i \<Rightarrow> is_note nodes i"
  shows "sync_pane act nodes tabs' (sync_pane act nodes tabs p) = sync_pane act nodes tabs p"
  using sync_strip_fix [OF assms, of tabs' tabs p] by (simp add: sync_pane_strip)

lemma sync_panes_fix:
  assumes "ps \<noteq> []" and "case act of None \<Rightarrow> True | Some i \<Rightarrow> is_note nodes i"
  shows "syncPanes (syncPanes ps act nodes tabs) act nodes tabs' = syncPanes ps act nodes tabs"
  using assms by (simp add: sync_nonempty sync_pane_fix)

section \<open>The split\<close>

lemma beside_ok: "panes_ok ps \<Longrightarrow> panes_ok (openBeside ps i)"
  by (cases ps) (auto simp: panes_ok_def openBeside_def primaryPane_def pane_ok_def
      PRIMARY_PANE_ID_def SECONDARY_PANE_ID_def)

lemma pane_ok_id [simp]: "pane_ok (s\<lparr>pn_id := k\<rparr>) = pane_ok s"
  by (simp add: pane_ok_def split: option.split)

lemma close_pane_ok:
  assumes "panes_ok ps"
  shows "panes_ok (cp_panes (closePane ps k))"
proof -
  have one: "panes_ok [s\<lparr>pn_id := PRIMARY_PANE_ID\<rparr>]" if "s \<in> set ps" for s
    using assms that by (auto simp: panes_ok_def list_all_iff)
  have kept: "panes_ok [s]" if "s \<in> set ps" "pn_id s = PRIMARY_PANE_ID" for s
    using assms that by (auto simp: panes_ok_def list_all_iff)
  show ?thesis
    using assms one kept array_at_mem [of ps]
    by (auto simp: closePane_def Let_def split: option.split)
qed

section \<open>The state machine of pane edits\<close>

inductive pane_step :: "pane_state list \<Rightarrow> pane_state list \<Rightarrow> bool" where
  step_sync: "pane_step ps (syncPanes ps act nodes tabs)"
| step_open: "pane_step ps (openNoteInTab ps k i)"
| step_close: "pane_step ps (cr_panes (closeTab ps k i))"
| step_close_others: "pane_step ps (cr_panes (closeOtherTabs ps k i))"
| step_close_side: "pane_step ps (cr_panes (closeTabsToSide ps k i sd))"
| step_close_all: "pane_step ps (cr_panes (closeAllTabs ps k))"
| step_pin: "pane_step ps (togglePinTab ps k i)"
| step_reorder: "pane_step ps (reorderTab ps k i b)"
| step_activate: "pane_step ps (activateTabInPane ps k i)"
| step_move: "pane_step ps (moveTabInPane ps k d)"
| step_reopen: "pane_step ps (ro_panes (reopenClosedTab ps tabs_closed k f))"
| step_beside: "pane_step ps (openBeside ps i)"
| step_close_pane: "pane_step ps (cp_panes (closePane ps k))"

lemmas pane_edits =
  tab_opening.keeps_ok [of _ "(k, i)" for k i, simplified]
  closing.keeps_ok [of _ "(k, i)" for k i, simplified]
  closing_others.keeps_ok [of _ "(k, i)" for k i, simplified]
  closing_side.keeps_ok [of _ "(k, i, sd)" for k i sd, simplified]
  closing_all.keeps_ok
  pinning.keeps_ok [of _ "(k, i)" for k i, simplified]
  reordering.keeps_ok [of _ "(k, i, b)" for k i b, simplified]
  activating.keeps_ok [of _ "(k, i)" for k i, simplified]
  moving.keeps_ok [of _ "(k, d)" for k d, simplified]
  reopening.keeps_ok [of _ "(k, t, f)" for k t f, simplified]

lemma pane_step_ok: "pane_step ps qs \<Longrightarrow> panes_ok ps \<Longrightarrow> panes_ok qs"
  by (induction rule: pane_step.induct) (auto intro: pane_edits sync_panes_ok beside_ok close_pane_ok)

interpretation pane_machine: invariant_system pane_step "defaultPanes None" panes_ok
  by unfold_locales (auto intro: default_panes_ok pane_step_ok)

end
