(* ===== verification/Pane_Theorems.thy ===== *)
theory Pane_Theorems
  imports Pane_Invariants
begin

text \<open>
  The properties of the tab strips: the invariant of the state machine, reconciliation, the
  close and reopen round trip, anchored pins, cycling, and the persisted layout.
\<close>

text \<open>C32. Every pane layout reached from the default one by the pane operations is well formed: one or two panes with distinct ids, duplicate-free tabs, pins and the active tab among the open ones.\<close>

theorem pane_reachable_ok:
  assumes "reached pane_step (defaultPanes None) ps"
  shows "panes_ok ps"
  using assms by (rule pane_machine.reachable_inv)

theorem pane_reachable_ok_witness:
  "panes_ok (openNoteInTab (defaultPanes None) PRIMARY_PANE_ID ''n1'')"
proof (rule pane_reachable_ok)
  show "reached pane_step (defaultPanes None) (openNoteInTab (defaultPanes None) PRIMARY_PANE_ID ''n1'')"
    by (rule reached_step, rule reached_refl, rule step_open)
qed

section \<open>Reconciliation\<close>

theorem sync_panes_mirror:
  assumes ok: "panes_ok ps"
  shows "pn_active (primaryPane (syncPanes ps act nodes tabs)) = act \<and>
    (\<forall>p \<in> set (syncPanes ps act nodes tabs). \<forall>j \<in> set (pn_open p). is_note nodes j \<or> Some j = act) \<and>
    ((case act of None \<Rightarrow> True | Some i \<Rightarrow> is_note nodes i) \<longrightarrow>
      syncPanes (syncPanes ps act nodes tabs) act nodes tabs = syncPanes ps act nodes tabs)"
proof -
  from ok have ne: "ps \<noteq> []" by (simp add: panes_ok_def)
  then obtain p rest where ps: "ps = p # rest" by (cases ps) auto
  have prim: "pn_id p = PRIMARY_PANE_ID" using ok ps by (simp add: panes_ok_def)
  have mirror: "pn_active (primaryPane (syncPanes ps act nodes tabs)) = act"
    using prim by (auto simp: ps sync_nonempty primaryPane_def sync_pane_strip sync_strip_def Let_def
      split: option.split)
  have opened: "\<forall>p \<in> set (syncPanes ps act nodes tabs). \<forall>j \<in> set (pn_open p). is_note nodes j \<or> Some j = act"
    by (auto simp: sync_nonempty [OF ne] sync_pane_strip dest: sync_strip_notes)
  have idem: "sync_pane act nodes tabs (sync_pane act nodes tabs q) = sync_pane act nodes tabs q"
    if "case act of None \<Rightarrow> True | Some i \<Rightarrow> is_note nodes i" for q
    by (rule sync_pane_fix [OF that])
  have "(case act of None \<Rightarrow> True | Some i \<Rightarrow> is_note nodes i) \<longrightarrow>
      syncPanes (syncPanes ps act nodes tabs) act nodes tabs = syncPanes ps act nodes tabs"
    using idem ne by (simp add: sync_nonempty)
  with mirror opened show ?thesis by blast
qed

theorem sync_panes_mirror_witness:
  "pn_active (primaryPane (syncPanes (defaultPanes None) (Some ''n1'') [] False)) = Some ''n1''"
  using sync_panes_mirror [OF default_panes_ok, of None "Some ''n1''" "[]" False] by blast

section \<open>Closing and reopening\<close>

lemma filter_split:
  assumes "distinct (xs @ i # ys)"
  shows "filter (\<lambda>j. j \<noteq> i) (xs @ i # ys) = xs @ ys"
proof -
  have "filter (\<lambda>j. j \<noteq> i) xs = xs" "filter (\<lambda>j. j \<noteq> i) ys = ys"
    using assms by (auto simp: filter_id_conv)
  then show ?thesis by simp
qed

lemma index_split:
  assumes "index_of xs i = Some n"
  shows "\<exists>ys zs. xs = ys @ i # zs \<and> length ys = n"
proof (intro exI conjI)
  show "xs = take n xs @ i # drop (Suc n) xs"
    using index_of_Some [OF assms] id_take_nth_drop [of n xs] by simp
  show "length (take n xs) = n" using index_of_Some [OF assms] by simp
qed

lemma filter_insert_at:
  assumes "distinct xs" and "index_of xs i = Some n"
  shows "insert_at n i (filter (\<lambda>j. j \<noteq> i) xs) = xs"
proof -
  from index_split [OF assms(2)] obtain ys zs where xs: "xs = ys @ i # zs" "length ys = n" by blast
  with assms(1) filter_split [of ys i zs] show ?thesis by (simp add: insert_at_def)
qed

lemma paneWithId_replace:
  "paneWithId ps k = Some p \<Longrightarrow> pn_id q = k \<Longrightarrow> paneWithId (replacePane ps k q) k = Some q"
  by (induction ps) (auto simp: paneWithId_def replacePane_def)

lemma paneWithId_map:
  "paneWithId ps k = Some p \<Longrightarrow> (\<And>q. pn_id (f q) = pn_id q) \<Longrightarrow>
    paneWithId (map (\<lambda>q. if pn_id q = k then f q else q) ps) k = Some (f p)"
  by (induction ps) (auto simp: paneWithId_def)

lemma closed_stack_last:
  "\<exists>older. omap_getd [] (recordClosedTab stacks k t) k = older @ [t] \<and> length older < CLOSED_TAB_LIMIT \<and>
     set older \<subseteq> set (omap_getd [] stacks k) \<and> ct_noteId t \<notin> ct_noteId ` set older"
proof -
  let ?e = "filter (\<lambda>e. ct_noteId e \<noteq> ct_noteId t) (omap_getd [] stacks k)"
  let ?d = "length (?e @ [t]) - CLOSED_TAB_LIMIT"
  have eq: "drop ?d (?e @ [t]) = drop ?d ?e @ [t]" by (simp add: CLOSED_TAB_LIMIT_def)
  have "omap_getd [] (recordClosedTab stacks k t) k = drop ?d ?e @ [t]"
    unfolding recordClosedTab_def Let_def eq by (simp add: withClosedTabs_def omap_getd_def [of _ "omap_set _ _ _"])
  moreover have "length (drop ?d ?e) < CLOSED_TAB_LIMIT" by (simp add: CLOSED_TAB_LIMIT_def)
  moreover have "set (drop ?d ?e) \<subseteq> set ?e" by (rule set_drop_subset)
  ultimately show ?thesis by (intro exI [of _ "drop ?d ?e"]) auto
qed

theorem closed_stack_bounded:
  "length (omap_getd [] (recordClosedTab stacks k t) k) \<le> CLOSED_TAB_LIMIT \<and>
   last (omap_getd [] (recordClosedTab stacks k t) k) = t \<and>
   count_list (map ct_noteId (omap_getd [] (recordClosedTab stacks k t) k)) (ct_noteId t) = 1"
proof -
  from closed_stack_last [of stacks k t] obtain older where
    o: "omap_getd [] (recordClosedTab stacks k t) k = older @ [t]" "length older < CLOSED_TAB_LIMIT"
      "ct_noteId t \<notin> ct_noteId ` set older" by blast
  then have "count_list (map ct_noteId older) (ct_noteId t) = 0" by (simp add: count_list_0_iff)
  with o show ?thesis by simp
qed

theorem close_then_reopen:
  assumes ok: "panes_ok ps" and p: "paneWithId ps k = Some p"
    and n: "index_of (pn_open p) i = Some n" and openable: "isOpenable i"
  shows "let after = cr_panes (closeTab ps k i);
      stack = omap_getd [] (recordClosedTab stacks k \<lparr>ct_noteId = i, ct_index = int n\<rparr>) k;
      r = reopenClosedTab after stack k isOpenable
    in ro_noteId r = Some i \<and>
      (\<exists>q. paneWithId (ro_panes r) k = Some q \<and> pn_open q = pn_open p \<and> pn_active q = Some i)"
proof -
  define closed_panes where "closed_panes = cr_panes (closeTab ps k i)"
  define stack where "stack = omap_getd [] (recordClosedTab stacks k \<lparr>ct_noteId = i, ct_index = int n\<rparr>) k"
  let ?o = "filter (\<lambda>j. j \<noteq> i) (pn_open p)"
  have dp: "distinct (pn_open p)" using ok pane_of [OF _ p] by (auto simp: panes_ok_def pane_okD)
  have pid: "pn_id p = k" using paneWithId_Some [OF p] by simp
  obtain c where c: "paneWithId closed_panes k = Some c" "pn_open c = ?o"
    unfolding closed_panes_def closeTab_def
    by (cases "pn_active p = Some i") (auto simp: p n Let_def pid paneWithId_replace [OF p])
  from closed_stack_last [of stacks k "\<lparr>ct_noteId = i, ct_index = int n\<rparr>"] obtain older where
    st: "stack = older @ [\<lparr>ct_noteId = i, ct_index = int n\<rparr>]" unfolding stack_def by blast
  have len: "n \<le> length ?o"
  proof -
    from index_split [OF n] obtain ys zs where "pn_open p = ys @ i # zs" "length ys = n" by blast
    with dp filter_split [of ys i zs] show ?thesis by simp
  qed
  then have slot: "nat (min (max (int n) 0) (int (length ?o))) = n" by simp
  have "reopen_loop closed_panes k c isOpenable (rev stack) = Some
      \<lparr>ro_panes = map (\<lambda>q. if pn_id q = k then q\<lparr>pn_open := insert_at n i ?o, pn_active := Some i\<rparr> else q) closed_panes,
       ro_closed = older, ro_noteId = Some i\<rparr>"
    using openable slot by (simp add: st c(2) Let_def)
  then have r: "reopenClosedTab closed_panes stack k isOpenable =
      \<lparr>ro_panes = map (\<lambda>q. if pn_id q = k then q\<lparr>pn_open := insert_at n i ?o, pn_active := Some i\<rparr> else q) closed_panes,
       ro_closed = older, ro_noteId = Some i\<rparr>"
    by (simp add: reopenClosedTab_def find_pane c(1))
  show ?thesis
    unfolding Let_def closed_panes_def [symmetric] stack_def [symmetric] r
    by (simp add: paneWithId_map [OF c(1)] filter_insert_at [OF dp n])
qed

definition two_tabs :: "pane_state list" where
  "two_tabs = [\<lparr>pn_id = ''primary'', pn_open = [''a'', ''b'', ''c''], pn_pinned = [''a''], pn_active = Some ''b''\<rparr>]"

lemma two_tabs_ok: "panes_ok two_tabs"
  by (simp add: panes_ok_def two_tabs_def pane_ok_def PRIMARY_PANE_ID_def)

lemma two_tabs_pane: "paneWithId two_tabs ''primary'' = Some (hd two_tabs)"
  by (simp add: two_tabs_def paneWithId_def)

theorem close_then_reopen_witness:
  "\<exists>q. paneWithId (ro_panes (reopenClosedTab (cr_panes (closeTab two_tabs ''primary'' ''b''))
      (omap_getd [] (recordClosedTab [] ''primary'' \<lparr>ct_noteId = ''b'', ct_index = int 1\<rparr>) ''primary'')
      ''primary'' (\<lambda>_. True))) ''primary'' = Some q \<and> pn_open q = [''a'', ''b'', ''c'']"
proof -
  have n: "index_of (pn_open (hd two_tabs)) ''b'' = Some 1" by (simp add: two_tabs_def index_of_def)
  from close_then_reopen [OF two_tabs_ok two_tabs_pane n, of "\<lambda>_. True" "[]"]
  show ?thesis by (auto simp: Let_def) (auto simp: two_tabs_def)
qed

section \<open>Reordering, cycling\<close>

lemma insert_filter_mset:
  "distinct xs \<Longrightarrow> i \<in> set xs \<Longrightarrow> distinct (insert_at n i (filter (\<lambda>j. j \<noteq> i) xs)) \<and>
    set (insert_at n i (filter (\<lambda>j. j \<noteq> i) xs)) = set xs"
  by (auto simp: set_insert_at intro!: distinct_insert_at)

theorem reorder_anchors_pins:
  assumes ok: "panes_ok ps" and p: "paneWithId ps k = Some p" and q: "paneWithId (reorderTab ps k i b) k = Some q"
  shows "set (pn_open q) = set (pn_open p) \<and> length (pn_open q) = length (pn_open p) \<and>
    pn_pinned q = pn_pinned p \<and> pn_active q = pn_active p \<and>
    (\<forall>j \<in> set (pn_pinned p). index_of (pn_open q) j = index_of (pn_open p) j)"
proof -
  have dp: "distinct (pn_open p)" using ok pane_of [OF _ p] by (auto simp: panes_ok_def pane_okD)
  have pid: "pn_id p = k" using paneWithId_Some [OF p] by simp
  show ?thesis
  proof (cases "reorderTab ps k i b = ps")
    case True
    with p q show ?thesis by simp
  next
    case False
    then obtain n m where idx: "index_of (pn_open p) i = Some m"
      and held: "list_all (\<lambda>j. index_of (insert_at n i (filter (\<lambda>j. j \<noteq> i) (pn_open p))) j = index_of (pn_open p) j) (pn_pinned p)"
      and eq: "reorderTab ps k i b = replacePane ps k (p\<lparr>pn_open := insert_at n i (filter (\<lambda>j. j \<noteq> i) (pn_open p))\<rparr>)"
      using p by (auto simp: reorderTab_def Let_def split: option.splits if_splits)
    have q': "q = p\<lparr>pn_open := insert_at n i (filter (\<lambda>j. j \<noteq> i) (pn_open p))\<rparr>"
      using q paneWithId_replace [OF p] pid unfolding eq by simp
    have "i \<in> set (pn_open p)" using index_of_Some [OF idx] nth_mem by blast
    from insert_filter_mset [OF dp this, of n] have
      s: "distinct (pn_open q)" "set (pn_open q) = set (pn_open p)" by (simp_all add: q')
    then have "length (pn_open q) = length (pn_open p)" using dp by (metis distinct_card)
    with s held show ?thesis by (auto simp: q' list_all_iff)
  qed
qed

theorem reorder_anchors_pins_witness:
  "set (pn_open (hd (reorderTab two_tabs ''primary'' ''c'' (Some ''b'')))) = {''a'', ''b'', ''c''} \<and>
   pn_open (hd (reorderTab two_tabs ''primary'' ''c'' (Some ''b''))) = [''a'', ''c'', ''b'']"
proof -
  have r: "reorderTab two_tabs ''primary'' ''c'' (Some ''b'') =
      [(hd two_tabs)\<lparr>pn_open := [''a'', ''c'', ''b'']\<rparr>]"
    by (simp add: reorderTab_def two_tabs_def paneWithId_def index_of_def Let_def insert_at_def
        replacePane_def array_at_def numeral_2_eq_2)
  have q: "paneWithId (reorderTab two_tabs ''primary'' ''c'' (Some ''b'')) ''primary'' =
      Some ((hd two_tabs)\<lparr>pn_open := [''a'', ''c'', ''b'']\<rparr>)"
    by (simp add: r paneWithId_def) (simp add: two_tabs_def)
  from reorder_anchors_pins [OF two_tabs_ok two_tabs_pane q] r show ?thesis
    by (simp add: two_tabs_def)
qed

lemma wrap_index_bound: "0 < c \<Longrightarrow> wrap_index i d c < c"
  by (simp add: wrap_index_def nat_less_iff)

lemma wrap_index_inverse:
  assumes "i < c"
  shows "wrap_index (wrap_index i Forward c) Backward c = i"
proof -
  have "(int (wrap_index i Forward c) + -1 + int c) mod int c = ((int i + 1 + int c) mod int c + (int c - 1)) mod int c"
    using assms by (simp add: wrap_index_def step_of_def algebra_simps)
  also have "\<dots> = (int i + 1 + int c + (int c - 1)) mod int c" by (rule mod_add_left_eq)
  also have "\<dots> = (int i + int c * 2) mod int c" by (simp add: algebra_simps)
  also have "\<dots> = int i" using assms by simp
  finally show ?thesis by (simp add: wrap_index_def step_of_def)
qed

theorem cycle_forward_backward:
  assumes ok: "panes_ok ps" and p: "paneWithId ps k = Some p" and i: "pn_active p = Some i"
    and many: "2 \<le> length (pn_open p)"
  shows "\<exists>j. cycleTabId ps k Forward = Some j \<and> j \<in> set (pn_open p) \<and> j \<noteq> i \<and>
    cycleTabId (activateTabInPane ps k j) k Backward = Some i"
proof -
  note pk = pane_okD [OF pane_of [OF _ p]]
  have okl: "list_all pane_ok ps" using ok by (simp add: panes_ok_def)
  have dp: "distinct (pn_open p)" and im: "i \<in> set (pn_open p)" using pk(1,4) okl i by blast+
  let ?c = "length (pn_open p)"
  from index_of_in [OF im] obtain m where m: "index_of (pn_open p) i = Some m" "m < ?c" "pn_open p ! m = i"
    by blast
  let ?m = "wrap_index m Forward ?c"
  have mb: "?m < ?c" by (rule wrap_index_bound) (use many in linarith)
  let ?j = "pn_open p ! ?m"
  have fwd: "cycleTabId ps k Forward = Some ?j"
    using many mb by (simp add: cycleTabId_def p i m(1) array_at_def)
  have ne: "?m \<noteq> m"
  proof -
    have "?m = (if Suc m = ?c then 0 else Suc m)"
    proof (cases "Suc m = ?c")
      case True
      then have "int ?c = int m + 1" by simp
      then have "(int m + 1 + int ?c) mod int ?c = 0" by (metis mod_add_self2 mod_self)
      with True show ?thesis by (simp add: wrap_index_def step_of_def)
    next
      case False
      with m(2) have "(int m + 1 + int ?c) mod int ?c = int m + 1" by simp
      with False show ?thesis by (simp add: wrap_index_def step_of_def)
    qed
    with many show ?thesis by auto
  qed
  have jn: "?j \<noteq> i" using dp mb m ne by (metis nth_eq_iff_index_eq)
  have jm: "?j \<in> set (pn_open p)" using mb by simp
  have act: "paneWithId (activateTabInPane ps k ?j) k = Some (p\<lparr>pn_active := Some ?j\<rparr>)"
    using jn jm by (simp add: activateTabInPane_def find_pane p i paneWithId_map [OF p])
  have back_i: "index_of (pn_open p) ?j = Some ?m" by (rule index_of_nth [OF dp mb])
  have "cycleTabId (activateTabInPane ps k ?j) k Backward = Some i"
    using many m by (simp add: cycleTabId_def act back_i wrap_index_inverse array_at_def)
  with fwd jm jn show ?thesis by blast
qed

theorem cycle_forward_backward_witness:
  "\<exists>j. cycleTabId two_tabs ''primary'' Forward = Some j \<and> j \<noteq> ''b''"
proof -
  have "pn_active (hd two_tabs) = Some ''b''" "2 \<le> length (pn_open (hd two_tabs))"
    by (simp_all add: two_tabs_def)
  from cycle_forward_backward [OF two_tabs_ok two_tabs_pane this] show ?thesis by blast
qed

section \<open>The persisted layout\<close>

lemma those_map_Some: "(\<And>x. x \<in> set xs \<Longrightarrow> f (g x) = Some x) \<Longrightarrow> those (map f (map g xs)) = Some xs"
  by (induction xs) auto

lemma string_array_map: "string_array (Some (JArr (map JStr xs))) = Some xs"
  unfolding string_array_def by (simp del: map_map add: those_map_Some)

lemma parse_pane_json: "parse_pane (pane_json p) = Some p"
  by (cases p; cases "pn_active p")
    (simp_all add: parse_pane_def pane_json_def string_array_map option_json_def)

definition layout_ok :: "pane_layout \<Rightarrow> bool" where
  "layout_ok l \<longleftrightarrow> panes_ok (ly_panes l) \<and> MIN_SPLIT_RATIO \<le> ly_ratio l \<and> ly_ratio l \<le> MAX_SPLIT_RATIO"

theorem layout_roundtrip:
  assumes "layout_ok l"
  shows "parsePaneLayout (serializePaneLayout l) = Some l"
proof -
  have ok: "panes_ok (ly_panes l)" and r: "MIN_SPLIT_RATIO \<le> ly_ratio l" "ly_ratio l \<le> MAX_SPLIT_RATIO"
    using assms by (simp_all add: layout_ok_def)
  have panes: "those (map parse_pane (map pane_json (ly_panes l))) = Some (ly_panes l)"
    using those_map_Some [of "ly_panes l" parse_pane pane_json] by (simp add: parse_pane_json del: map_map)
  have ratio: "clampSplitRatio (ly_ratio l) = ly_ratio l"
    using r by (simp add: clampSplitRatio_def max_def min_def)
  show ?thesis
    using ok ratio unfolding parsePaneLayout_def serializePaneLayout_def
    by (cases "ly_orientation l")
      (simp_all add: panes orientation_json_def panes_ok_def del: map_map take_map)
qed

theorem layout_roundtrip_witness:
  "parsePaneLayout (serializePaneLayout \<lparr>ly_panes = two_tabs, ly_orientation = Horizontal, ly_ratio = 1/2\<rparr>)
     = Some \<lparr>ly_panes = two_tabs, ly_orientation = Horizontal, ly_ratio = 1/2\<rparr>"
  by (rule layout_roundtrip)
    (simp add: layout_ok_def two_tabs_ok MIN_SPLIT_RATIO_def MAX_SPLIT_RATIO_def)

theorem parsed_layout_ok:
  assumes "parsePaneLayout raw = Some l"
  shows "1 \<le> length (ly_panes l) \<and> length (ly_panes l) \<le> 2 \<and> pn_id (primaryPane (ly_panes l)) = PRIMARY_PANE_ID \<and>
    MIN_SPLIT_RATIO \<le> ly_ratio l \<and> ly_ratio l \<le> MAX_SPLIT_RATIO"
proof -
  have clamp: "MIN_SPLIT_RATIO \<le> clampSplitRatio x \<and> clampSplitRatio x \<le> MAX_SPLIT_RATIO" for x
    by (simp add: clampSplitRatio_def MIN_SPLIT_RATIO_def MAX_SPLIT_RATIO_def)
  have default: "MIN_SPLIT_RATIO \<le> DEFAULT_SPLIT_RATIO \<and> DEFAULT_SPLIT_RATIO \<le> MAX_SPLIT_RATIO"
    by (simp add: DEFAULT_SPLIT_RATIO_def MIN_SPLIT_RATIO_def MAX_SPLIT_RATIO_def)
  have len: "length ys = length xs" if "those xs = Some ys" for xs :: "pane_state option list" and ys
    using that by (induction xs arbitrary: ys) (auto split: option.splits)
  from assms obtain j entries panes where
    "raw = Text j" and panes: "those (map parse_pane (take 2 entries)) = Some panes" "panes \<noteq> []"
      "pn_id (hd panes) = PRIMARY_PANE_ID" "ly_panes l = panes"
    and ratio: "ly_ratio l = (case json_field ''ratio'' j of Some (JNum r) \<Rightarrow> clampSplitRatio r | _ \<Rightarrow> DEFAULT_SPLIT_RATIO)"
    unfolding parsePaneLayout_def
    by (auto split: raw_json.splits if_splits option.splits json.splits)
  from len [OF panes(1)] panes have "length panes \<le> 2" "1 \<le> length panes" by (cases panes; auto)+
  moreover have "pn_id (primaryPane panes) = PRIMARY_PANE_ID"
    using panes(2,3) by (cases panes) (simp_all add: primaryPane_def)
  moreover have "MIN_SPLIT_RATIO \<le> ly_ratio l \<and> ly_ratio l \<le> MAX_SPLIT_RATIO"
    unfolding ratio using clamp default by (auto split: option.split json.split)
  ultimately show ?thesis using panes(4) by simp
qed

theorem parsed_layout_ok_witness:
  "\<exists>l. parsePaneLayout (serializePaneLayout \<lparr>ly_panes = two_tabs, ly_orientation = Vertical, ly_ratio = 2\<rparr>) = Some l \<and>
     ly_ratio l \<le> MAX_SPLIT_RATIO"
proof -
  have "parsePaneLayout (serializePaneLayout \<lparr>ly_panes = two_tabs, ly_orientation = Vertical, ly_ratio = 2\<rparr>)
      = Some \<lparr>ly_panes = two_tabs, ly_orientation = Vertical, ly_ratio = 85/100\<rparr>"
    by (simp add: parsePaneLayout_def serializePaneLayout_def two_tabs_def parse_pane_json
        orientation_json_def PRIMARY_PANE_ID_def clampSplitRatio_def MIN_SPLIT_RATIO_def MAX_SPLIT_RATIO_def)
  from parsed_layout_ok [OF this] this show ?thesis by blast
qed

end
