(* ===== verification/Operations.thy ===== *)
theory Operations
  imports Node_Tree
begin

text \<open>
  \<open>store/operations.ts\<close>: the provisional rank of an optimistic placement, the subtree an
  operation cascades over, and \<open>reduceOperation\<close>, the local effect of an operation on the
  canonical node map.
\<close>

definition RANK_STEP :: number where
  "RANK_STEP = 1024"

section \<open>Provisional ranks\<close>

definition rank_cmp :: "workspace_node \<Rightarrow> workspace_node \<Rightarrow> number" where
  "rank_cmp l r =
     (if n_rank l \<noteq> n_rank r then n_rank l - n_rank r else compare_ids (n_id l) (n_id r))"

definition orderedSiblings :: "node_map \<Rightarrow> string option \<Rightarrow> string option \<Rightarrow> workspace_node list" where
  "orderedSiblings nodes parentId excludeId =
     js_sort rank_cmp
       (filter (\<lambda>n. n_parentId n = parentId \<and> n_deletedAt n = None \<and> Some (n_id n) \<noteq> excludeId)
         (omap_values nodes))"

definition last_rank :: "workspace_node list \<Rightarrow> number" where
  "last_rank siblings = n_rank (last siblings) + RANK_STEP"

definition provisionalRank :: "node_map \<Rightarrow> node_placement \<Rightarrow> string option \<Rightarrow> number" where
  "provisionalRank nodes placement movedId =
     (let siblings = orderedSiblings nodes (pl_parentId placement) movedId;
          beside = (\<lambda>anchorId near away.
            case find_index (\<lambda>n. n_id n = anchorId) siblings of
              None \<Rightarrow> last_rank siblings
            | Some i \<Rightarrow>
                let anchor = siblings ! i
                in case near i of
                    None \<Rightarrow> away (n_rank anchor)
                  | Some neighbor \<Rightarrow> (n_rank anchor + n_rank neighbor) / 2)
      in if siblings = [] then RANK_STEP
         else case pl_position placement of
             First \<Rightarrow> n_rank (hd siblings) - RANK_STEP
           | Last \<Rightarrow> last_rank siblings
           | Before a \<Rightarrow> beside a (\<lambda>i. if i = 0 then None else array_at siblings (i - 1)) (\<lambda>r. r - RANK_STEP)
           | After a \<Rightarrow> beside a (\<lambda>i. array_at siblings (i + 1)) (\<lambda>r. r + RANK_STEP))"

section \<open>Subtrees\<close>

text \<open>The stack's top is the list's head, so a pushed block lies reversed on the stack. One unit of
  fuel per node and one for the root: more pops than that mean a parent cycle, and then the
  code's loop never ends.\<close>

definition subtreeIds :: "node_map \<Rightarrow> string \<Rightarrow> string list option" where
  "subtreeIds nodes rootId =
     (let children = child_ids (omap_values nodes)
      in walk (length nodes + 1) (\<lambda>i. rev (omap_getd [] children i)) [rootId] [])"

text \<open>One pass of the purge loop, and the loop until a pass adds nothing.\<close>

definition removal_pass :: "node_map \<Rightarrow> string list \<Rightarrow> string list" where
  "removal_pass nodes removed =
     fold (\<lambda>n removed. case n_parentId n of
         None \<Rightarrow> removed
       | Some p \<Rightarrow> if p \<noteq> [] \<and> p \<in> set removed \<and> n_id n \<notin> set removed
           then removed @ [n_id n] else removed) (omap_values nodes) removed"

function removal_loop :: "node_map \<Rightarrow> string list \<Rightarrow> string list" where
  "removal_loop nodes removed =
     (let removed' = removal_pass nodes removed
      in if removed' = removed then removed else removal_loop nodes removed')"
  by pat_completeness auto

lemma removal_fold_grows:
  fixes ns :: "workspace_node list"
  defines "step \<equiv> \<lambda>n removed. case n_parentId n of
         None \<Rightarrow> removed
       | Some p \<Rightarrow> if p \<noteq> [] \<and> p \<in> set removed \<and> n_id n \<notin> set removed
           then removed @ [n_id n] else removed"
  shows "\<exists>more. fold step ns removed = removed @ more \<and> set more \<subseteq> n_id ` set ns \<and>
    set more \<inter> set removed = {}"
proof (induction ns arbitrary: removed)
  case Nil
  show ?case by simp
next
  case (Cons n ns)
  from Cons.IH [of "step n removed"] obtain more where m:
    "fold step ns (step n removed) = step n removed @ more" "set more \<subseteq> n_id ` set ns"
    "set more \<inter> set (step n removed) = {}" by blast
  show ?case
  proof (cases "step n removed = removed")
    case True
    with m show ?thesis by auto
  next
    case False
    then have "step n removed = removed @ [n_id n]" "n_id n \<notin> set removed"
      by (auto simp: step_def split: option.splits if_splits)
    with m show ?thesis by auto
  qed
qed

lemma removal_pass_grows:
  "\<exists>more. removal_pass nodes removed = removed @ more \<and> set more \<subseteq> n_id ` set (omap_values nodes) \<and>
     set more \<inter> set removed = {}"
  unfolding removal_pass_def by (rule removal_fold_grows)

termination removal_loop
proof (relation "measure (\<lambda>(nodes, removed). card (n_id ` set (omap_values nodes) - set removed))")
  fix nodes removed r
  assume r: "r = removal_pass nodes removed" and ne: "r \<noteq> removed"
  from removal_pass_grows [of nodes removed] obtain more where m: "r = removed @ more"
    "set more \<subseteq> n_id ` set (omap_values nodes)" "set more \<inter> set removed = {}"
    unfolding r by blast
  from ne m(1) have "more \<noteq> []" by simp
  then obtain x where "x \<in> set more" by (cases more) auto
  with m have "n_id ` set (omap_values nodes) - set r \<subset> n_id ` set (omap_values nodes) - set removed"
    by auto
  then show "((nodes, r), nodes, removed)
      \<in> measure (\<lambda>(nodes, removed). card (n_id ` set (omap_values nodes) - set removed))"
    by (simp add: psubset_card_mono)
qed simp

declare removal_loop.simps [simp del]

section \<open>The reducer\<close>

text \<open>\<open>const existing = nodes.get(id); if (!existing || refuse) return nodes; next.set(id, ...)\<close>.\<close>

definition edit_node :: "node_map \<Rightarrow> string \<Rightarrow> (workspace_node \<Rightarrow> bool) \<Rightarrow>
    (workspace_node \<Rightarrow> workspace_node) \<Rightarrow> node_map reduced" where
  "edit_node nodes i accepts change =
     (case omap_get nodes i of
        None \<Rightarrow> Unchanged
      | Some existing \<Rightarrow>
          if accepts existing then Changed (omap_set i (change existing) nodes) else Unchanged)"

definition create_node :: "node_map \<Rightarrow> node_kind \<Rightarrow> string \<Rightarrow> string \<Rightarrow> node_placement \<Rightarrow> number \<Rightarrow>
    node_map" where
  "create_node nodes kind i title placement now =
     omap_set i
       \<lparr>n_id = i, n_kind = kind, n_parentId = pl_parentId placement,
        n_rank = provisionalRank nodes placement None, n_title = title, n_icon = None,
        n_coverImageId = Null, n_coverGradient = Null, n_coverFullWidth = Some False,
        n_coverPositionX = Some 50, n_coverPositionY = Some 50, n_coverZoom = Some 1,
        n_createdAt = now, n_updatedAt = now, n_deletedAt = None, n_pinnedAt = None, n_lockedAt = Null\<rparr>
       nodes"

definition with_cover :: "string option \<Rightarrow> number \<Rightarrow> workspace_node \<Rightarrow> workspace_node" where
  "with_cover imageId now n =
     (let same = (of_option imageId = n_coverImageId n)
      in n\<lparr>n_coverImageId := of_option imageId,
           n_coverGradient := (if imageId = None then of_option (nullish (n_coverGradient n)) else Null),
           n_coverFullWidth := (if imageId = None \<and> nullish (n_coverGradient n) = None
             then Some False else n_coverFullWidth n),
           n_coverPositionX := (if same then n_coverPositionX n else Some 50),
           n_coverPositionY := (if same then n_coverPositionY n else Some 50),
           n_coverZoom := (if same then n_coverZoom n else Some 1),
           n_updatedAt := now\<rparr>)"

definition with_gradient :: "string option \<Rightarrow> number \<Rightarrow> workspace_node \<Rightarrow> workspace_node" where
  "with_gradient gradient now n =
     n\<lparr>n_coverGradient := of_option gradient,
       n_coverImageId := (if gradient = None then of_option (nullish (n_coverImageId n)) else Null),
       n_coverFullWidth := (if gradient = None \<and> nullish (n_coverImageId n) = None
         then Some False else n_coverFullWidth n),
       n_coverPositionX := Some 50,
       n_coverPositionY := Some 50,
       n_coverZoom := Some 1,
       n_updatedAt := now\<rparr>"

definition locked_node :: "workspace_node \<Rightarrow> bool" where
  "locked_node n \<longleftrightarrow> nullish (n_lockedAt n) \<noteq> None"

definition lock_one :: "node_map \<Rightarrow> bool \<Rightarrow> number \<Rightarrow> string \<Rightarrow> node_map \<times> bool \<Rightarrow> node_map \<times> bool" where
  "lock_one nodes lock now i acc =
     (case omap_get nodes i of
        None \<Rightarrow> acc
      | Some existing \<Rightarrow>
          if locked_node existing = lock then acc
          else (omap_set i (existing\<lparr>n_lockedAt := (if lock then Present now else Null),
                 n_updatedAt := now\<rparr>) (fst acc), True))"

definition lock_subtree :: "node_map \<Rightarrow> string \<Rightarrow> bool \<Rightarrow> number \<Rightarrow> node_map reduced" where
  "lock_subtree nodes i lock now =
     (case omap_get nodes i of
        None \<Rightarrow> Unchanged
      | Some target \<Rightarrow>
          if n_deletedAt target \<noteq> None then Unchanged
          else (case subtreeIds nodes i of
              None \<Rightarrow> Diverges
            | Some ids \<Rightarrow>
                (let (next, changed) = fold (lock_one nodes lock now) ids (nodes, False)
                 in if changed then Changed next else Unchanged)))"

definition purge_subtree :: "node_map \<Rightarrow> string \<Rightarrow> node_map reduced" where
  "purge_subtree nodes rootId =
     (if rootId \<notin> set (unavailableNodeIds (omap_values nodes)) then Unchanged
      else Changed (fold (\<lambda>i m. omap_delete i m) (removal_loop nodes [rootId]) nodes))"

definition reduceOperation :: "node_map \<Rightarrow> workspace_operation \<Rightarrow> node_map reduced" where
  "reduceOperation nodes operation =
     (case operation of
        CreateFolder i title placement now \<Rightarrow> Changed (create_node nodes KFolder i title placement now)
      | CreateNote i title placement _ _ now \<Rightarrow> Changed (create_node nodes KNote i title placement now)
      | RenameNode i title now \<Rightarrow>
          edit_node nodes i (\<lambda>_. True) (\<lambda>n. n\<lparr>n_title := title, n_updatedAt := now\<rparr>)
      | SetNoteCover i imageId now \<Rightarrow>
          edit_node nodes i (\<lambda>n. n_kind n = KNote) (with_cover imageId now)
      | SetNoteCoverGradient i gradient now \<Rightarrow>
          edit_node nodes i (\<lambda>n. n_kind n = KNote) (with_gradient gradient now)
      | SetNoteCoverFullWidth i fullWidth now \<Rightarrow>
          edit_node nodes i (\<lambda>n. n_kind n = KNote)
            (\<lambda>n. n\<lparr>n_coverFullWidth := Some fullWidth, n_updatedAt := now\<rparr>)
      | SetNoteCoverTransform i x y zoom now \<Rightarrow>
          edit_node nodes i (\<lambda>n. n_kind n = KNote \<and> nullish (n_coverImageId n) \<noteq> None)
            (\<lambda>n. n\<lparr>n_coverPositionX := Some x, n_coverPositionY := Some y, n_coverZoom := Some zoom,
                   n_updatedAt := now\<rparr>)
      | MoveNode i placement now \<Rightarrow>
          edit_node nodes i (\<lambda>_. True)
            (\<lambda>n. n\<lparr>n_parentId := pl_parentId placement,
                   n_rank := provisionalRank nodes placement (Some i), n_updatedAt := now\<rparr>)
      | SetNodePinned i pinned now \<Rightarrow>
          (let pinnedAt = (if pinned then Some now else None)
           in edit_node nodes i (\<lambda>n. n_deletedAt n = None \<and> n_pinnedAt n \<noteq> pinnedAt)
                (\<lambda>n. n\<lparr>n_pinnedAt := pinnedAt, n_updatedAt := now\<rparr>))
      | SetNodeLocked i lock now \<Rightarrow> lock_subtree nodes i lock now
      | TrashSubtree i now \<Rightarrow>
          edit_node nodes i (\<lambda>n. n_deletedAt n = None) (\<lambda>n. n\<lparr>n_deletedAt := Some now\<rparr>)
      | RestoreSubtree i placement now \<Rightarrow>
          edit_node nodes i (\<lambda>n. n_deletedAt n \<noteq> None)
            (\<lambda>n. n\<lparr>n_deletedAt := None, n_parentId := pl_parentId placement,
                   n_rank := provisionalRank nodes placement None, n_updatedAt := now\<rparr>)
      | PurgeSubtree i _ \<Rightarrow> purge_subtree nodes i
      | _ \<Rightarrow> Unchanged)"

end
