(* ===== verification/Operation_Invariants.thy ===== *)
theory Operation_Invariants
  imports Operations
begin

text \<open>
  The invariants of the node map under \<open>reduceOperation\<close>: every entry is stored under its own
  id, and the parent links form a forest. \<open>descends\<close> is the specification of a subtree.
\<close>

section \<open>The node map\<close>

definition node_map_ok :: "node_map \<Rightarrow> bool" where
  "node_map_ok m \<longleftrightarrow> omap_wf m \<and> list_all (\<lambda>(k, n). n_id n = k) m"

lemma node_map_ok_iff:
  "node_map_ok m \<longleftrightarrow> omap_wf m \<and> (\<forall>k n. omap_get m k = Some n \<longrightarrow> n_id n = k)"
  unfolding node_map_ok_def
  by (auto simp: list_all_iff dest: omap_get_in)

lemma node_map_ok_wf: "node_map_ok m \<Longrightarrow> omap_wf m"
  by (simp add: node_map_ok_def)

lemma node_map_ok_id: "node_map_ok m \<Longrightarrow> omap_get m k = Some n \<Longrightarrow> n_id n = k"
  by (simp add: node_map_ok_iff)

lemma node_map_ok_keys: "node_map_ok m \<Longrightarrow> map n_id (omap_values m) = omap_keys m"
  by (auto simp: node_map_ok_def list_all_iff)

lemma node_map_ok_distinct: "node_map_ok m \<Longrightarrow> distinct (map n_id (omap_values m))"
  by (simp only: node_map_ok_keys node_map_ok_wf)

lemma node_map_ok_value: "node_map_ok m \<Longrightarrow> n \<in> set (omap_values m) \<longleftrightarrow> omap_get m (n_id n) = Some n"
  by (auto simp: node_map_ok_def list_all_iff omap_get_iff) (metis (mono_tags, lifting) rev_image_eqI snd_conv)

lemma node_map_ok_set [wf_intros]:
  "node_map_ok m \<Longrightarrow> n_id n = k \<Longrightarrow> node_map_ok (omap_set k n m)"
  by (auto simp: node_map_ok_iff)

lemma node_map_ok_delete [wf_intros]: "node_map_ok m \<Longrightarrow> node_map_ok (omap_delete k m)"
  by (auto simp: node_map_ok_iff)

lemma node_map_ok_delete_all [wf_intros]:
  "node_map_ok m \<Longrightarrow> node_map_ok (fold (\<lambda>i m. omap_delete i m) ks m)"
  by (induction ks arbitrary: m) (auto intro: wf_intros)

lemma delete_all_get:
  "omap_get (fold (\<lambda>i m. omap_delete i m) ks m) k = (if k \<in> set ks then None else omap_get m k)"
  by (induction ks arbitrary: m) auto

section \<open>Parent links\<close>

text \<open>\<open>(k, p)\<close> is an edge when the node stored under \<open>k\<close> has parent \<open>p\<close>.\<close>

definition parent_edges :: "node_map \<Rightarrow> (string \<times> string) set" where
  "parent_edges m = set (concat (map (\<lambda>(k, n). case n_parentId n of None \<Rightarrow> [] | Some p \<Rightarrow> [(k, p)]) m))"

definition descends :: "node_map \<Rightarrow> string \<Rightarrow> string \<Rightarrow> bool" where
  "descends m base x \<longleftrightarrow> (x, base) \<in> (parent_edges m)\<^sup>*"

definition forest_map :: "node_map \<Rightarrow> bool" where
  "forest_map m \<longleftrightarrow> node_map_ok m \<and> acyclic (parent_edges m)"

lemma parent_edges_in:
  "(k, p) \<in> parent_edges m \<longleftrightarrow> (\<exists>n. (k, n) \<in> set m \<and> n_parentId n = Some p)"
  unfolding parent_edges_def by (force split: option.splits)

lemma parent_edges_iff:
  "omap_wf m \<Longrightarrow> (k, p) \<in> parent_edges m \<longleftrightarrow> (\<exists>n. omap_get m k = Some n \<and> n_parentId n = Some p)"
  by (simp add: parent_edges_in omap_get_iff)

definition parent_of :: "node_map \<Rightarrow> string \<Rightarrow> string option" where
  "parent_of m k = (case omap_get m k of None \<Rightarrow> None | Some n \<Rightarrow> n_parentId n)"

lemma parent_of_edge: "omap_wf m \<Longrightarrow> (k, p) \<in> parent_edges m \<longleftrightarrow> parent_of m k = Some p"
  by (cases "omap_get m k") (simp_all add: parent_edges_iff parent_of_def)

lemma descends_refl [simp]: "descends m base base"
  by (simp add: descends_def)

lemma descends_child: "descends m base p \<Longrightarrow> (k, p) \<in> parent_edges m \<Longrightarrow> descends m base k"
  unfolding descends_def by (rule converse_rtrancl_into_rtrancl)

lemma descends_induct [consumes 1, case_names base child]:
  assumes "descends m base x" and "P base"
    and "\<And>k p. descends m base p \<Longrightarrow> P p \<Longrightarrow> (k, p) \<in> parent_edges m \<Longrightarrow> P k"
  shows "P x"
  using assms(1) unfolding descends_def
  by (induction rule: converse_rtrancl_induct) (auto intro: assms(2,3) simp: descends_def)

section \<open>Subtrees are exactly the descendants\<close>

lemma child_ids_parent:
  assumes "node_map_ok m"
  shows "omap_getd [] (child_ids (omap_values m)) p = filter (\<lambda>k. parent_of m k = Some p) (omap_keys m)"
proof -
  have stored: "omap_get m (n_id (snd e)) = Some (snd e)" if "e \<in> set m" for e
    using node_map_ok_value [OF assms, of "snd e"] that by force
  have "map n_id (filter (\<lambda>n. n_parentId n = Some p) (omap_values m)) =
      filter (\<lambda>k. parent_of m k = Some p) (map n_id (omap_values m))"
    unfolding filter_map o_def
    by (rule arg_cong [where f = "map n_id"], rule arg_cong [where f = "map snd"], rule filter_cong)
       (auto simp: parent_of_def dest: stored)
  then show ?thesis by (simp only: child_ids_get node_map_ok_keys [OF assms])
qed

definition keyed_children :: "node_map \<Rightarrow> string list \<Rightarrow> string \<Rightarrow> string list" where
  "keyed_children m ks p = rev (filter (\<lambda>k. parent_of m k = Some p) ks)"

lemma keyed_forest: "forest (\<lambda>k. k) (parent_of m) (keyed_children m)"
  by unfold_locales (auto simp: keyed_children_def)

lemma below_descends:
  assumes wf: "omap_wf m" and base: "base \<in> set (omap_keys m)"
  shows "below (\<lambda>k. k) (parent_of m) (omap_keys m) [base] x \<longleftrightarrow> descends m base x"
proof
  assume "below (\<lambda>k. k) (parent_of m) (omap_keys m) [base] x"
  then show "descends m base x"
    by induction (auto intro: descends_child simp: parent_of_edge [OF wf])
next
  assume "descends m base x"
  then show "below (\<lambda>k. k) (parent_of m) (omap_keys m) [base] x"
  proof (induction rule: descends_induct)
    case base
    show ?case by (simp add: below_start)
  next
    case (child k p)
    then have "parent_of m k = Some p" by (simp add: parent_of_edge [OF wf])
    moreover have "k \<in> set (omap_keys m)" using child.hyps(2) by (force simp: parent_edges_in)
    ultimately show ?case using below_child [OF child.IH, of k] by simp
  qed
qed

lemma subtree_walk:
  "node_map_ok m \<Longrightarrow>
    subtreeIds m base = walk (length m + 1) (\<lambda>k. keyed_children m (omap_keys m) k) [base] []"
  by (simp add: subtreeIds_def Let_def child_ids_parent keyed_children_def)

lemma subtree_correct:
  assumes ok: "node_map_ok m" and base: "base \<in> set (omap_keys m)"
    and free: "\<And>p. parent_of m base = Some p \<Longrightarrow> \<not> descends m base p"
  shows "\<exists>ids. subtreeIds m base = Some ids \<and> distinct ids \<and> set ids = {x. descends m base x}"
proof -
  have wf: "omap_wf m" using ok by (rule node_map_ok_wf)
  have d: "distinct (map (\<lambda>k. k) (omap_keys m))" using wf by simp
  have "\<exists>r. walk (length m + 1) (\<lambda>k. keyed_children m (omap_keys m) k) [base] [] = Some r \<and> distinct r \<and>
      set r = {x. below (\<lambda>k. k) (parent_of m) (omap_keys m) [base] x} \<and> set r \<subseteq> set (omap_keys m) \<and>
      parents_first (\<lambda>k. k) (parent_of m) (set [base]) r"
    by (rule forest.walk_correct [OF keyed_forest d])
       (use base free in \<open>auto simp: below_descends [OF wf base]\<close>)
  then show ?thesis by (auto simp: subtree_walk [OF ok] below_descends [OF wf base])
qed

text \<open>A stack that always holds a node of a cycle never empties.\<close>

lemma walk_endless:
  "(\<And>x. x \<in> C \<Longrightarrow> \<exists>y \<in> C. y \<in> set (ch x)) \<Longrightarrow> x \<in> C \<Longrightarrow> x \<in> set st \<Longrightarrow> walk fuel ch st acc = None"
proof (induction fuel ch st acc arbitrary: x rule: walk.induct)
  case (3 fuel ch y st acc)
  show ?case
  proof (cases "x = y")
    case True
    with "3.prems"(1) [OF "3.prems"(2)] obtain z where "z \<in> C" "z \<in> set (ch y)" by blast
    with "3.IH" [of z] "3.prems"(1) show ?thesis by simp
  next
    case False
    with "3.prems"(3) "3.IH" [OF "3.prems"(1,2)] show ?thesis by simp
  qed
qed auto

lemma subtree_none:
  assumes ok: "node_map_ok m" and p: "parent_of m base = Some p" and cycle: "descends m base p"
  shows "subtreeIds m base = None"
proof -
  let ?C = "{x. descends m base x \<and> (base, x) \<in> (parent_edges m)\<^sup>+}"
  have base_key: "base \<in> set (omap_keys m)"
    using p by (auto simp: parent_of_def split: option.splits dest!: omap_get_in) force
  have step: "\<exists>y \<in> ?C. y \<in> set (keyed_children m (omap_keys m) x)" if "x \<in> ?C" for x
  proof -
    from that have "(base, x) \<in> (parent_edges m)\<^sup>+" by simp
    then obtain y where y: "(base, y) \<in> (parent_edges m)\<^sup>*" "(y, x) \<in> parent_edges m"
      by (meson tranclD2)
    have dy: "descends m base y" using that y(2) by (auto intro: descends_child)
    have "(base, p) \<in> parent_edges m" using p by (simp add: parent_of_edge node_map_ok_wf [OF ok])
    then have loop: "(base, base) \<in> (parent_edges m)\<^sup>+"
      using cycle unfolding descends_def by (rule rtrancl_into_trancl2)
    have "(base, y) \<in> (parent_edges m)\<^sup>+" using loop y(1) by (rule trancl_rtrancl_trancl)
    moreover have "y \<in> set (keyed_children m (omap_keys m) x)"
      using y(2) by (force simp: keyed_children_def parent_of_edge [OF node_map_ok_wf [OF ok], symmetric]
        parent_edges_in)
    ultimately show ?thesis using dy by blast
  qed
  have "(base, base) \<in> (parent_edges m)\<^sup>+"
    using p cycle by (auto simp: parent_of_edge [OF node_map_ok_wf [OF ok], symmetric] descends_def
        intro: rtrancl_into_trancl2)
  then have "base \<in> ?C" by simp
  then have "walk (length m + 1) (\<lambda>k. keyed_children m (omap_keys m) k) [base] [] = None"
    by (intro walk_endless [where C = ?C and x = base] step) simp_all
  then show ?thesis by (simp only: subtree_walk [OF ok])
qed

lemma subtree_total: "forest_map m \<Longrightarrow> i \<in> set (omap_keys m) \<Longrightarrow>
  \<exists>ids. subtreeIds m i = Some ids \<and> distinct ids \<and> set ids = {x. descends m i x}"
proof (rule subtree_correct)
  fix p
  assume f: "forest_map m" and p: "parent_of m i = Some p"
  then have "(i, p) \<in> parent_edges m" by (simp add: forest_map_def parent_of_edge node_map_ok_wf)
  moreover have "acyclic (parent_edges m)" using f by (simp add: forest_map_def)
  ultimately show "\<not> descends m i p"
    unfolding descends_def acyclic_def by (meson rtrancl_into_trancl2)
qed (simp_all add: forest_map_def)

section \<open>Hidden subtrees\<close>

text \<open>Trash availability over a node map: hidden under the values is hidden under the edges.\<close>

lemma hidden_descends:
  assumes ok: "node_map_ok m"
  shows "hidden (omap_values m) x \<longleftrightarrow>
    (\<exists>k n. omap_get m k = Some n \<and> n_deletedAt n \<noteq> None \<and> descends m k x)"
proof
  assume "hidden (omap_values m) x"
  then show "\<exists>k n. omap_get m k = Some n \<and> n_deletedAt n \<noteq> None \<and> descends m k x"
  proof induction
    case (hidden_own n)
    then show ?case using node_map_ok_value [OF ok] descends_refl by blast
  next
    case (hidden_inherited p n)
    then have "(n_id n, p) \<in> parent_edges m"
      using node_map_ok_value [OF ok, of n] by (simp add: parent_edges_iff node_map_ok_wf [OF ok])
    with hidden_inherited.IH show ?case by (blast intro: descends_child)
  qed
next
  assume "\<exists>k n. omap_get m k = Some n \<and> n_deletedAt n \<noteq> None \<and> descends m k x"
  then obtain k n where k: "omap_get m k = Some n" "n_deletedAt n \<noteq> None" and d: "descends m k x" by blast
  have kid: "n_id n = k" using node_map_ok_id [OF ok k(1)] .
  from d show "hidden (omap_values m) x"
  proof (induction rule: descends_induct)
    case base
    have "n \<in> set (omap_values m)" using k(1) kid node_map_ok_value [OF ok] by simp
    from hidden_own [OF this k(2)] kid show ?case by simp
  next
    case (child c p)
    from child.hyps(2) obtain e where e: "(c, e) \<in> set m" "n_parentId e = Some p"
      by (auto simp: parent_edges_in)
    then have "n_id e = c" using ok by (auto simp: node_map_ok_def list_all_iff)
    moreover have "e \<in> set (omap_values m)" using e(1) by force
    ultimately show ?case using hidden_inherited [OF child.IH _ e(2)] by auto
  qed
qed

section \<open>Purge\<close>

lemma removal_fold_sound:
  fixes ns :: "workspace_node list"
  defines "step \<equiv> \<lambda>n removed. case n_parentId n of
         None \<Rightarrow> removed
       | Some p \<Rightarrow> if p \<noteq> [] \<and> p \<in> set removed \<and> n_id n \<notin> set removed
           then removed @ [n_id n] else removed"
  assumes ns: "\<And>n p. n \<in> set ns \<Longrightarrow> n_parentId n = Some p \<Longrightarrow> P p \<Longrightarrow> P (n_id n)"
    and r: "\<forall>x \<in> set removed. P x"
  shows "\<forall>x \<in> set (fold step ns removed). P x"
  using ns r
proof (induction ns arbitrary: removed)
  case Nil
  then show ?case by simp
next
  case (Cons n ns)
  have "\<forall>x \<in> set (step n removed). P x"
    using Cons.prems by (auto simp: step_def split: option.splits)
  then have "\<forall>x \<in> set (fold step ns (step n removed)). P x"
    using Cons.prems(1) by (intro Cons.IH) auto
  then show ?case by simp
qed

lemma removal_fold_fixed:
  fixes ns :: "workspace_node list"
  defines "step \<equiv> \<lambda>n removed. case n_parentId n of
         None \<Rightarrow> removed
       | Some p \<Rightarrow> if p \<noteq> [] \<and> p \<in> set removed \<and> n_id n \<notin> set removed
           then removed @ [n_id n] else removed"
  assumes "fold step ns removed = removed" and "n \<in> set ns" and "n_parentId n = Some p"
    and "p \<noteq> []" and "p \<in> set removed"
  shows "n_id n \<in> set removed"
  using assms(2,3)
proof (induction ns)
  case Nil
  then show ?case by simp
next
  case (Cons k ns)
  have grows: "\<exists>more. fold step ns (step k removed) = step k removed @ more"
    unfolding step_def using removal_fold_grows by blast
  have "step k removed = removed \<or> step k removed = removed @ [n_id k]"
    by (auto simp: step_def split: option.splits)
  with grows Cons.prems(1) have same: "step k removed = removed" by auto
  show ?case
  proof (cases "n = k")
    case True
    with same assms(4-6) show ?thesis by (auto simp: step_def split: if_splits)
  next
    case False
    with Cons same show ?thesis by simp
  qed
qed

lemma removal_loop_fixed: "removal_pass m (removal_loop m removed) = removal_loop m removed"
proof (induction m removed rule: removal_loop.induct)
  case (1 m removed)
  show ?case
  proof (cases "removal_pass m removed = removed")
    case True
    then show ?thesis by (simp add: removal_loop.simps)
  next
    case False
    with 1 show ?thesis by (simp add: removal_loop.simps [of m removed] Let_def)
  qed
qed

lemma removal_loop_contains: "set removed \<subseteq> set (removal_loop m removed)"
proof (induction m removed rule: removal_loop.induct)
  case (1 m removed)
  have "set removed \<subseteq> set (removal_pass m removed)"
    using removal_pass_grows [of m removed] by auto
  with 1 show ?case by (cases "removal_pass m removed = removed")
    (auto simp: removal_loop.simps [of m removed] Let_def)
qed

lemma removal_loop_sound:
  assumes "\<And>n p. n \<in> set (omap_values m) \<Longrightarrow> n_parentId n = Some p \<Longrightarrow> P p \<Longrightarrow> P (n_id n)"
  shows "\<forall>x \<in> set removed. P x \<Longrightarrow> \<forall>x \<in> set (removal_loop m removed). P x"
  using assms
proof (induction m removed rule: removal_loop.induct)
  case (1 m removed)
  have pass: "\<forall>x \<in> set (removal_pass m removed). P x"
    unfolding removal_pass_def by (rule removal_fold_sound) (use 1(2,3) in auto)
  show ?case
  proof (cases "removal_pass m removed = removed")
    case True
    with 1(2) show ?thesis by (simp add: removal_loop.simps [of m removed])
  next
    case False
    with 1(1) [OF refl False pass 1(3)] show ?thesis
      by (simp add: removal_loop.simps [of m removed] Let_def)
  qed
qed

lemma removal_correct:
  assumes ok: "node_map_ok m" and ids: "[] \<notin> set (omap_keys m)" and base: "base \<noteq> []"
  shows "set (removal_loop m [base]) = {x. descends m base x}"
proof (intro equalityI subsetI)
  fix x assume "x \<in> set (removal_loop m [base])"
  moreover have "\<forall>x \<in> set (removal_loop m [base]). descends m base x"
  proof (rule removal_loop_sound)
    fix n p assume n: "n \<in> set (omap_values m)" "n_parentId n = Some p" "descends m base p"
    then have "(n_id n, p) \<in> parent_edges m"
      using node_map_ok_value [OF ok] by (simp add: parent_edges_iff node_map_ok_wf [OF ok])
    with n(3) show "descends m base (n_id n)" by (rule descends_child)
  qed simp
  ultimately show "x \<in> {x. descends m base x}" by simp
next
  fix x assume "x \<in> {x. descends m base x}"
  then have "descends m base x" by simp
  then have "x \<in> set (removal_loop m [base]) \<and> x \<noteq> []"
  proof (induction rule: descends_induct)
    case base
    from removal_loop_contains [of "[base]" m] assms(3) show ?case by simp
  next
    case (child k p)
    from child.hyps(2) obtain n where n: "(k, n) \<in> set m" "n_parentId n = Some p"
      by (auto simp: parent_edges_in)
    then have "n_id n = k" using ok by (auto simp: node_map_ok_def list_all_iff)
    moreover have "n \<in> set (omap_values m)" using n(1) by force
    ultimately have "k \<in> set (removal_loop m [base])"
      using removal_fold_fixed [OF removal_loop_fixed [unfolded removal_pass_def], of n _ p] n child.IH
      by metis
    moreover have "k \<noteq> []" using n(1) ids by force
    ultimately show ?case by simp
  qed
  then show "x \<in> set (removal_loop m [base])" ..
qed

section \<open>Every operation keeps the node map\<close>

lemma edit_node_ok:
  assumes "node_map_ok m" and "\<And>n. n_id (change n) = n_id n"
  shows "edit_node m i accepts change = Changed m' \<Longrightarrow> node_map_ok m'"
  using assms by (auto simp: edit_node_def node_map_ok_id intro!: wf_intros split: option.splits if_splits)

lemma lock_fold_ok:
  "node_map_ok m \<Longrightarrow> node_map_ok (fst acc) \<Longrightarrow> node_map_ok (fst (fold (lock_one m lock now) ids acc))"
proof (induction ids arbitrary: acc)
  case Nil
  then show ?case by simp
next
  case (Cons i ids)
  have "node_map_ok (fst (lock_one m lock now i acc))"
    using Cons.prems by (auto simp: lock_one_def node_map_ok_id intro!: wf_intros split: option.splits)
  with Cons show ?case by simp
qed

lemma lock_subtree_ok: "node_map_ok m \<Longrightarrow> lock_subtree m i lock now = Changed m' \<Longrightarrow> node_map_ok m'"
  using lock_fold_ok [of m "(m, False)"]
  by (auto simp: lock_subtree_def Let_def split: option.splits if_splits prod.splits) (metis fst_conv)

lemma node_cover_id [simp]: "n_id (with_cover img now n) = n_id n" "n_id (with_gradient g now n) = n_id n"
  by (simp_all add: with_cover_def with_gradient_def Let_def)

lemma node_cover_parent [simp]:
  "n_parentId (with_cover img now n) = n_parentId n" "n_parentId (with_gradient g now n) = n_parentId n"
  by (simp_all add: with_cover_def with_gradient_def Let_def)

lemma reduceOperation_ok:
  "node_map_ok m \<Longrightarrow> reduceOperation m op = Changed m' \<Longrightarrow> node_map_ok m'"
  by (cases op)
    (auto simp: reduceOperation_def create_node_def purge_subtree_def Let_def
      intro: wf_intros edit_node_ok lock_subtree_ok split: if_splits elim: edit_node_ok [rotated 2])

interpretation node_reducer: reducer reduceOperation node_map_ok "\<lambda>_. True"
  by unfold_locales (rule reduceOperation_ok)

section \<open>Which operations touch the parent links\<close>

text \<open>The target position of an operation that hangs a node somewhere.\<close>

fun attaches :: "workspace_operation \<Rightarrow> (string \<times> string option) option" where
  "attaches (CreateFolder i _ pl _) = Some (i, pl_parentId pl)"
| "attaches (CreateNote i _ pl _ _ _) = Some (i, pl_parentId pl)"
| "attaches (MoveNode i pl _) = Some (i, pl_parentId pl)"
| "attaches (RestoreSubtree i pl _) = Some (i, pl_parentId pl)"
| "attaches _ = None"

definition attach_ok :: "node_map \<Rightarrow> workspace_operation \<Rightarrow> bool" where
  "attach_ok m op \<longleftrightarrow> (\<forall>i p. attaches op = Some (i, Some p) \<longrightarrow> \<not> descends m i p)"

lemma edges_set:
  "omap_wf m \<Longrightarrow> parent_edges (omap_set i n m) =
    {e \<in> parent_edges m. fst e \<noteq> i} \<union> (case n_parentId n of None \<Rightarrow> {} | Some p \<Rightarrow> {(i, p)})"
  by (auto simp: parent_edges_iff split: option.splits if_splits)

lemma edges_same:
  assumes "omap_wf m" and "omap_wf m'" and "\<And>k. parent_of m' k = parent_of m k"
  shows "parent_edges m' = parent_edges m"
  using assms by (auto simp: parent_of_edge)

lemma edges_edit:
  assumes wf: "omap_wf m" and keep: "\<And>n. n_parentId (change n) = n_parentId n"
    and r: "edit_node m i accepts change = Changed m'"
  shows "parent_edges m' = parent_edges m"
proof -
  from r obtain e where e: "omap_get m i = Some e" and m': "m' = omap_set i (change e) m"
    by (auto simp: edit_node_def split: option.splits if_splits)
  show ?thesis
    by (rule edges_same [OF wf]) (use wf in \<open>simp_all add: m' parent_of_def e keep\<close>)
qed

lemma edges_delete: "omap_wf m \<Longrightarrow> parent_edges (omap_delete i m) \<subseteq> parent_edges m"
  by (auto simp: parent_edges_iff split: if_splits)

lemma edges_delete_all:
  "omap_wf m \<Longrightarrow> parent_edges (fold (\<lambda>i m. omap_delete i m) ks m) \<subseteq> parent_edges m"
proof (induction ks arbitrary: m)
  case Nil
  then show ?case by simp
next
  case (Cons k ks)
  from Cons.IH [of "omap_delete k m"] Cons.prems edges_delete [of m k] show ?case by auto
qed

lemma lock_fold_get:
  assumes "distinct ids"
  shows "omap_get (fst (fold (lock_one m lock now) ids acc)) k =
    (case omap_get m k of
       Some e \<Rightarrow> if k \<in> set ids \<and> locked_node e \<noteq> lock
         then Some (e\<lparr>n_lockedAt := (if lock then Present now else Null), n_updatedAt := now\<rparr>)
         else omap_get (fst acc) k
     | None \<Rightarrow> omap_get (fst acc) k)"
  using assms
proof (induction ids arbitrary: acc)
  case Nil
  then show ?case by (simp split: option.splits)
next
  case (Cons i ids)
  from Cons.IH [of "lock_one m lock now i acc"] Cons.prems show ?case
    by (auto simp: lock_one_def split: option.splits)
qed

lemma lock_fold_changed:
  "snd (fold (lock_one m lock now) ids acc) \<longleftrightarrow>
    snd acc \<or> (\<exists>k \<in> set ids. \<exists>e. omap_get m k = Some e \<and> locked_node e \<noteq> lock)"
  by (induction ids arbitrary: acc) (auto simp: lock_one_def split: option.splits)

text \<open>The lock cascade over a subtree that exists: every member ends with the requested state, a
  member already there keeps its own timestamp, and nothing else moves.\<close>

definition relock :: "node_map \<Rightarrow> string \<Rightarrow> bool \<Rightarrow> number \<Rightarrow> string \<Rightarrow> workspace_node \<Rightarrow> workspace_node" where
  "relock m i lock now k e = (if descends m i k \<and> locked_node e \<noteq> lock
     then e\<lparr>n_lockedAt := (if lock then Present now else Null), n_updatedAt := now\<rparr> else e)"

lemma lock_subtree_get:
  assumes f: "forest_map m" and i: "omap_get m i = Some n" "n_deletedAt n = None"
  shows "\<exists>m'. settle m (lock_subtree m i lock now) = Some m' \<and>
    (\<forall>k. omap_get m' k = map_option (relock m i lock now k) (omap_get m k))"
proof -
  have "i \<in> set (omap_keys m)" using i(1) by (metis map_of_eq_None_iff option.distinct(1) set_map)
  from subtree_total [OF f this] obtain ids where
    ids: "subtreeIds m i = Some ids" "distinct ids" "set ids = {x. descends m i x}" by blast
  let ?r = "fold (lock_one m lock now) ids (m, False)"
  have get: "omap_get (fst ?r) k = map_option (relock m i lock now k) (omap_get m k)" for k
    using lock_fold_get [OF ids(2), of m lock now "(m, False)" k] ids(3)
    by (auto simp: relock_def split: option.splits)
  show ?thesis
  proof (cases "snd ?r")
    case True
    then have "lock_subtree m i lock now = Changed (fst ?r)"
      using i ids(1) by (simp add: lock_subtree_def case_prod_beta)
    with get show ?thesis by simp
  next
    case False
    then have same: "\<not> (descends m i k \<and> locked_node e \<noteq> lock)" if "omap_get m k = Some e" for k e
      using that ids(3) lock_fold_changed [of m lock now ids "(m, False)"] by auto
    from False have "lock_subtree m i lock now = Unchanged"
      using i ids(1) by (simp add: lock_subtree_def case_prod_beta)
    moreover have "omap_get m k = map_option (relock m i lock now k) (omap_get m k)" for k
      using same [of k] by (cases "omap_get m k") (auto simp: relock_def)
    ultimately show ?thesis by simp
  qed
qed

lemma relock_parent [simp]: "n_parentId (relock m i lock now k e) = n_parentId e"
  by (simp add: relock_def)

lemma edges_lock:
  assumes f: "forest_map m" and r: "lock_subtree m i lock now = Changed m'"
  shows "parent_edges m' = parent_edges m"
proof -
  have wf: "omap_wf m" "omap_wf m'"
    using f lock_subtree_ok [OF _ r] by (auto simp: forest_map_def node_map_ok_wf)
  from r obtain n where i: "omap_get m i = Some n" "n_deletedAt n = None"
    by (auto simp: lock_subtree_def split: option.splits if_splits)
  from lock_subtree_get [OF f i, of lock now] r
  have "omap_get m' k = map_option (relock m i lock now k) (omap_get m k)" for k by simp
  then show ?thesis
    by (intro edges_same [OF wf]) (simp add: parent_of_def split: option.splits)
qed

end
