(* ===== verification/Operation_Theorems.thy ===== *)
theory Operation_Theorems
  imports Operation_Invariants
begin

text \<open>
  What \<open>reduceOperation\<close> promises: provisional ranks fall strictly between their
  neighbours, batches keep the node map and the forest of parent links, and trash, purge and
  lock reach exactly the subtree they name.
\<close>

section \<open>Ranks\<close>

interpretation ranks: comparator rank_cmp n_id
proof
  have le: "rank_cmp x y \<le> 0 \<longleftrightarrow> n_rank x < n_rank y \<or> n_rank x = n_rank y \<and> n_id x < n_id y"
    if "n_id x \<noteq> n_id y" for x y
    using that by (auto simp: rank_cmp_def compare_ids_def)
  fix x y :: workspace_node
  assume "n_id x \<noteq> n_id y"
  then show "rank_cmp x y \<le> 0 \<or> rank_cmp y x \<le> 0"
    using le [of x y] le [of y x] by (simp add: neq_iff) (auto)
next
  have le: "rank_cmp x y \<le> 0 \<longleftrightarrow> n_rank x < n_rank y \<or> n_rank x = n_rank y \<and> n_id x < n_id y"
    if "n_id x \<noteq> n_id y" for x y
    using that by (auto simp: rank_cmp_def compare_ids_def)
  fix x y z :: workspace_node
  assume "rank_cmp x y \<le> 0" "rank_cmp y z \<le> 0"
    "n_id x \<noteq> n_id y" "n_id y \<noteq> n_id z" "n_id x \<noteq> n_id z"
  then show "rank_cmp x z \<le> 0" by (auto simp: le)
qed

lemma siblings_increasing:
  assumes ok: "node_map_ok m" and ranks: "distinct (map n_rank (orderedSiblings m p ex))"
  shows "sorted_wrt (\<lambda>x y. n_rank x < n_rank y) (orderedSiblings m p ex)"
proof -
  let ?ss = "orderedSiblings m p ex"
  have d: "distinct (map n_id (filter (\<lambda>n. n_parentId n = p \<and> n_deletedAt n = None \<and> Some (n_id n) \<noteq> ex)
      (omap_values m)))"
    by (rule distinct_map_filter [OF node_map_ok_distinct [OF ok]])
  from ranks.sort_sorted [OF d] have s: "sorted_wrt (\<lambda>x y. rank_cmp x y \<le> 0) ?ss"
    by (simp add: orderedSiblings_def)
  show ?thesis
    unfolding sorted_wrt_iff_nth_less
  proof (intro allI impI)
    fix i j
    assume ij: "i < j" "j < length ?ss"
    with s have "rank_cmp (?ss ! i) (?ss ! j) \<le> 0" by (simp add: sorted_wrt_iff_nth_less)
    moreover have "n_rank (?ss ! i) \<noteq> n_rank (?ss ! j)"
      using nth_eq_iff_index_eq [OF ranks, of i j] ij by simp
    ultimately show "n_rank (?ss ! i) < n_rank (?ss ! j)" by (simp add: rank_cmp_def)
  qed
qed

text \<open>A value splits a strictly ranked sibling list at \<open>i\<close>.\<close>

definition splits_at :: "workspace_node list \<Rightarrow> nat \<Rightarrow> number \<Rightarrow> bool" where
  "splits_at ss i r \<longleftrightarrow> (\<forall>j < length ss. if j < i then n_rank (ss ! j) < r else r < n_rank (ss ! j))"

lemma splits_atI:
  assumes s: "sorted_wrt (\<lambda>x y. n_rank x < n_rank y) ss" and i: "i \<le> length ss"
    and lower: "0 < i \<Longrightarrow> n_rank (ss ! (i - 1)) < r" and upper: "i < length ss \<Longrightarrow> r < n_rank (ss ! i)"
  shows "splits_at ss i r"
  unfolding splits_at_def
proof (intro allI impI)
  fix j assume j: "j < length ss"
  show "if j < i then n_rank (ss ! j) < r else r < n_rank (ss ! j)"
  proof (cases "j < i")
    case True
    then have "n_rank (ss ! j) \<le> n_rank (ss ! (i - 1))"
      using s i by (cases "j = i - 1") (auto simp: sorted_wrt_iff_nth_less intro!: less_imp_le)
    with True lower show ?thesis by simp
  next
    case False
    then have "n_rank (ss ! i) \<le> n_rank (ss ! j)"
      using s j by (cases "j = i") (auto simp: sorted_wrt_iff_nth_less intro!: less_imp_le)
    with False j upper show ?thesis by simp
  qed
qed

text \<open>The index a placement asks for, among the siblings left when the moved node is taken out.\<close>

definition placement_index :: "workspace_node list \<Rightarrow> node_position \<Rightarrow> nat" where
  "placement_index ss position =
     (case position of
        First \<Rightarrow> 0
      | Last \<Rightarrow> length ss
      | Before a \<Rightarrow> (case find_index (\<lambda>n. n_id n = a) ss of None \<Rightarrow> length ss | Some i \<Rightarrow> i)
      | After a \<Rightarrow> (case find_index (\<lambda>n. n_id n = a) ss of None \<Rightarrow> length ss | Some i \<Rightarrow> i + 1))"

lemma midpoint: "(a :: number) < b \<Longrightarrow> a < (a + b) / 2 \<and> (a + b) / 2 < b"
  by (simp add: field_simps)

lemma splits_ends:
  assumes "sorted_wrt (\<lambda>x y. n_rank x < n_rank y) ss" and "ss \<noteq> []"
  shows "splits_at ss (length ss) (last_rank ss)" and "splits_at ss 0 (n_rank (hd ss) - RANK_STEP)"
  using assms by (auto intro!: splits_atI simp: last_rank_def last_conv_nth hd_conv_nth RANK_STEP_def)

lemma splits_middle:
  assumes s: "sorted_wrt (\<lambda>x y. n_rank x < n_rank y) ss" and i: "i < length ss"
  shows "i = 0 \<Longrightarrow> splits_at ss i (n_rank (ss ! i) - RANK_STEP)"
    and "0 < i \<Longrightarrow> splits_at ss i ((n_rank (ss ! i) + n_rank (ss ! (i - 1))) / 2)"
    and "i + 1 = length ss \<Longrightarrow> splits_at ss (i + 1) (n_rank (ss ! i) + RANK_STEP)"
    and "i + 1 < length ss \<Longrightarrow> splits_at ss (i + 1) ((n_rank (ss ! i) + n_rank (ss ! (i + 1))) / 2)"
proof -
  have step: "n_rank (ss ! j) < n_rank (ss ! k)" if "j < k" "k < length ss" for j k
    using s that by (simp add: sorted_wrt_iff_nth_less)
  show "splits_at ss i (n_rank (ss ! i) - RANK_STEP)" if "i = 0"
    using i that by (intro splits_atI [OF s]) (auto simp: RANK_STEP_def)
  show "splits_at ss i ((n_rank (ss ! i) + n_rank (ss ! (i - 1))) / 2)" if "0 < i"
    using i that midpoint [OF step [of "i - 1" i]]
    by (intro splits_atI [OF s]) (simp_all add: add.commute)
  show "splits_at ss (i + 1) (n_rank (ss ! i) + RANK_STEP)" if "i + 1 = length ss"
    using i that by (intro splits_atI [OF s]) (auto simp: RANK_STEP_def that [symmetric])
  show "splits_at ss (i + 1) ((n_rank (ss ! i) + n_rank (ss ! (i + 1))) / 2)" if "i + 1 < length ss"
    using i that midpoint [OF step [of i "i + 1"]]
    by (intro splits_atI [OF s]) simp_all
qed

theorem provisional_rank_between:
  assumes ok: "node_map_ok nodes"
    and ranks: "distinct (map n_rank (orderedSiblings nodes (pl_parentId placement) movedId))"
  shows "splits_at (orderedSiblings nodes (pl_parentId placement) movedId)
    (placement_index (orderedSiblings nodes (pl_parentId placement) movedId) (pl_position placement))
    (provisionalRank nodes placement movedId)"
proof -
  let ?ss = "orderedSiblings nodes (pl_parentId placement) movedId"
  have s: "sorted_wrt (\<lambda>x y. n_rank x < n_rank y) ?ss" by (rule siblings_increasing [OF ok ranks])
  show ?thesis
  proof (cases "?ss = []")
    case True
    then show ?thesis by (simp add: splits_at_def)
  next
    case ne: False
    note ends = splits_ends [OF s ne] and middle = splits_middle [OF s]
    note shape = placement_index_def provisionalRank_def Let_def array_at_def ne
    show ?thesis
    proof (cases "pl_position placement")
      case First
      with ends show ?thesis by (simp add: shape)
    next
      case Last
      with ends show ?thesis by (simp add: shape)
    next
      case (Before a)
      show ?thesis
      proof (cases "find_index (\<lambda>n. n_id n = a) ?ss")
        case None
        with Before ends show ?thesis by (simp add: shape)
      next
        case (Some i)
        then have i: "i < length ?ss" "i - 1 < length ?ss" using find_index_Some [OF Some] by auto
        with Some Before middle(1,2) [of i] show ?thesis
          by (cases "i = 0") (simp_all add: shape)
      qed
    next
      case (After a)
      show ?thesis
      proof (cases "find_index (\<lambda>n. n_id n = a) ?ss")
        case None
        with After ends show ?thesis by (simp add: shape)
      next
        case (Some i)
        then have i: "i < length ?ss" by (simp add: find_index_Some)
        with Some After middle(3,4) [of i] show ?thesis
          by (cases "i + 1 = length ?ss") (simp_all add: shape)
      qed
    qed
  qed
qed


definition sample_node :: "string \<Rightarrow> node_kind \<Rightarrow> string option \<Rightarrow> number \<Rightarrow> workspace_node" where
  "sample_node i kind parent rank =
     \<lparr>n_id = i, n_kind = kind, n_parentId = parent, n_rank = rank, n_title = i, n_icon = None,
      n_coverImageId = Null, n_coverGradient = Null, n_coverFullWidth = None,
      n_coverPositionX = None, n_coverPositionY = None, n_coverZoom = None,
      n_createdAt = 0, n_updatedAt = 0, n_deletedAt = None, n_pinnedAt = None, n_lockedAt = Undefined\<rparr>"

text \<open>Two root notes, a folder \<open>f\<close> with a note inside it.\<close>

definition sample_map :: node_map where
  "sample_map = map (\<lambda>n. (n_id n, n))
     [sample_node ''f'' KFolder None 1024, sample_node ''n'' KNote (Some ''f'') 1024,
      sample_node ''a'' KNote None 2048]"

theorem provisional_rank_between_witness:
  "splits_at (orderedSiblings sample_map None None) 1
     (provisionalRank sample_map \<lparr>pl_parentId = None, pl_position = Before ''a''\<rparr> None) \<and>
   provisionalRank sample_map \<lparr>pl_parentId = None, pl_position = Before ''a''\<rparr> None = 1536"
proof -
  have "node_map_ok sample_map" by code_simp
  moreover have "distinct (map n_rank (orderedSiblings sample_map None None))" by code_simp
  moreover have "placement_index (orderedSiblings sample_map None None) (Before ''a'') = 1" by code_simp
  moreover have "provisionalRank sample_map \<lparr>pl_parentId = None, pl_position = Before ''a''\<rparr> None = 1536"
    by code_simp
  ultimately show ?thesis
    using provisional_rank_between [of sample_map "\<lparr>pl_parentId = None, pl_position = Before ''a''\<rparr>" None]
    by simp
qed

section \<open>Batches and the forest\<close>

theorem node_batch_ok:
  assumes "node_map_ok nodes"
    and "settle nodes (reduce_all reduceOperation nodes operations) = Some nodes'"
  shows "node_map_ok nodes'"
  using node_reducer.batch_settles [OF assms(1) _ assms(2)] by (simp add: list_all_iff)

theorem node_batch_ok_witness:
  "node_map_ok (the (settle sample_map (reduce_all reduceOperation sample_map
     [TrashSubtree ''f'' 5, PurgeSubtree ''f'' 6, RenameNode ''a'' ''b'' 7])))"
proof -
  let ?ops = "[TrashSubtree ''f'' 5, PurgeSubtree ''f'' 6, RenameNode ''a'' ''b'' 7]"
  have "node_map_ok sample_map" by code_simp
  moreover have "settle sample_map (reduce_all reduceOperation sample_map ?ops) \<noteq> None" by code_simp
  ultimately show ?thesis using node_batch_ok [of sample_map ?ops] by auto
qed

lemma forest_step:
  assumes f: "forest_map m" and a: "attach_ok m op" and r: "reduceOperation m op = Changed m'"
  shows "forest_map m'"
proof -
  have ok: "node_map_ok m" and wf: "omap_wf m" and ac: "acyclic (parent_edges m)"
    using f by (auto simp: forest_map_def node_map_ok_wf)
  have hung: "acyclic (parent_edges (omap_set i n m))"
    if "attaches op = Some (i, n_parentId n)" for i n
  proof (cases "n_parentId n")
    case None
    then show ?thesis using ac wf by (auto simp: edges_set intro: acyclic_subset)
  next
    case (Some p)
    with that a have "\<not> descends m i p" by (simp add: attach_ok_def)
    with ac have "acyclic (insert (i, p) (parent_edges m))" by (simp add: acyclic_insert descends_def)
    moreover have "parent_edges (omap_set i n m) \<subseteq> insert (i, p) (parent_edges m)"
      using wf Some by (auto simp: edges_set)
    ultimately show ?thesis by (rule acyclic_subset)
  qed
  have same: "acyclic (parent_edges m')" if "parent_edges m' \<subseteq> parent_edges m"
    using ac that by (rule acyclic_subset)
  have edit: "acyclic (parent_edges m')"
    if "edit_node m i g change = Changed m'" "\<And>n. n_parentId (change n) = n_parentId n" for i g change
    using edges_edit [OF wf that(2,1)] same by simp
  have move: "acyclic (parent_edges m')"
    if "edit_node m i g change = Changed m'" "\<And>n. attaches op = Some (i, n_parentId (change n))" for i g change
    using that(1) hung [of i] that(2) by (auto simp: edit_node_def split: option.splits if_splits)
  have "acyclic (parent_edges m')"
    using r
  proof (cases op)
    case (CreateFolder i t pl now)
    with r hung [of i] show ?thesis by (auto simp: reduceOperation_def create_node_def)
  next
    case (CreateNote i t pl doc md now)
    with r hung [of i] show ?thesis by (auto simp: reduceOperation_def create_node_def)
  next
    case (MoveNode i pl now)
    with r show ?thesis by (intro move) (auto simp: reduceOperation_def)
  next
    case (RestoreSubtree i pl now)
    with r show ?thesis by (intro move) (auto simp: reduceOperation_def)
  next
    case (SetNodeLocked i lock now)
    with r edges_lock [OF f] same show ?thesis by (auto simp: reduceOperation_def)
  next
    case (PurgeSubtree i now)
    with r show ?thesis
      by (intro same) (simp add: reduceOperation_def purge_subtree_def edges_delete_all [OF wf]
        split: if_splits, use edges_delete_all [OF wf] in blast)
  qed (auto simp: reduceOperation_def Let_def intro: edit)
  with reduceOperation_ok [OF ok r] show ?thesis by (simp add: forest_map_def)
qed

lemma forest_returns:
  assumes f: "forest_map m"
  shows "reduceOperation m op \<noteq> Diverges"
proof (cases op)
  case (SetNodeLocked i lock now)
  show ?thesis
  proof (cases "lock_subtree m i lock now")
    case Diverges
    then obtain n where "omap_get m i = Some n" "n_deletedAt n = None"
      by (auto simp: lock_subtree_def split: option.splits if_splits)
    from lock_subtree_get [OF f this, of lock now] Diverges show ?thesis by simp
  qed (simp_all add: SetNodeLocked reduceOperation_def)
qed (auto simp: reduceOperation_def edit_node_def purge_subtree_def Let_def split: option.splits)

text \<open>C1. On a node map whose parent edges form a forest, every operation that does not attach a node under its own descendant returns, and the map it leaves is again such a forest.\<close>

theorem operation_keeps_forest:
  assumes "forest_map nodes" and "attach_ok nodes operation"
  shows "\<exists>nodes'. settle nodes (reduceOperation nodes operation) = Some nodes' \<and> forest_map nodes'"
  using assms forest_step [OF assms] forest_returns [OF assms(1), of operation]
  by (cases "reduceOperation nodes operation") auto

lemma sample_edges: "parent_edges sample_map = {(''n'', ''f'')}"
  by (simp add: parent_edges_def sample_map_def sample_node_def)

lemma sample_forest: "forest_map sample_map"
proof -
  have "node_map_ok sample_map" by code_simp
  then show ?thesis by (simp add: forest_map_def sample_edges acyclic_insert wf_acyclic)
qed

theorem operation_keeps_forest_witness:
  "\<exists>m. settle sample_map (reduceOperation sample_map
     (MoveNode ''a'' \<lparr>pl_parentId = Some ''f'', pl_position = First\<rparr> 9)) = Some m \<and> forest_map m"
proof (rule operation_keeps_forest [OF sample_forest])
  have "(''f'', ''a'') \<notin> {(''n'', ''f'')}\<^sup>*"
    by (auto elim: converse_rtranclE)
  then show "attach_ok sample_map (MoveNode ''a'' \<lparr>pl_parentId = Some ''f'', pl_position = First\<rparr> 9)"
    by (simp add: attach_ok_def descends_def sample_edges)
qed

section \<open>Cascades\<close>

text \<open>C7. Locking or unlocking an untrashed node of a forest sets the lock of exactly that node and its descendants whose lock differs, and leaves every other record alone.\<close>

theorem lock_cascade:
  assumes "forest_map nodes" and "omap_get nodes i = Some n" and "n_deletedAt n = None"
  shows "\<exists>nodes'. settle nodes (reduceOperation nodes (SetNodeLocked i lock now)) = Some nodes' \<and>
    (\<forall>k. omap_get nodes' k = map_option (relock nodes i lock now k) (omap_get nodes k)) \<and>
    (\<forall>k e. descends nodes i k \<and> omap_get nodes' k = Some e \<longrightarrow> locked_node e = lock)"
proof -
  from lock_subtree_get [OF assms, of lock now] obtain m' where
    m': "settle nodes (lock_subtree nodes i lock now) = Some m'"
      "\<forall>k. omap_get m' k = map_option (relock nodes i lock now k) (omap_get nodes k)" by blast
  have "locked_node e = lock" if "descends nodes i k" "omap_get m' k = Some e" for k e
  proof -
    from m'(2) that obtain e' where "e = relock nodes i lock now k e'"
      by (metis (no_types) map_option_eq_Some)
    with that(1) show ?thesis by (cases lock) (simp_all add: relock_def locked_node_def)
  qed
  moreover have "reduceOperation nodes (SetNodeLocked i lock now) = lock_subtree nodes i lock now"
    by (simp add: reduceOperation_def)
  ultimately show ?thesis using m' by metis
qed

theorem lock_cascade_witness:
  "\<exists>m. settle sample_map (reduceOperation sample_map (SetNodeLocked ''f'' True 9)) = Some m \<and>
     map_option locked_node (omap_get m ''n'') = Some True"
proof -
  have f: "omap_get sample_map ''f'' = Some (sample_node ''f'' KFolder None 1024)"
    "n_deletedAt (sample_node ''f'' KFolder None 1024) = None"
    by (simp_all add: sample_map_def sample_node_def)
  have d: "descends sample_map ''f'' ''n''" by (auto simp: descends_def sample_edges)
  have g: "omap_get sample_map ''n'' = Some (sample_node ''n'' KNote (Some ''f'') 1024)"
    by (simp add: sample_map_def sample_node_def)
  from lock_cascade [OF sample_forest f, of True 9] obtain m where
    m: "settle sample_map (reduceOperation sample_map (SetNodeLocked ''f'' True 9)) = Some m"
      "\<And>k. omap_get m k = map_option (relock sample_map ''f'' True 9 k) (omap_get sample_map k)"
      "\<And>k e. descends sample_map ''f'' k \<and> omap_get m k = Some e \<Longrightarrow> locked_node e = True"
    by blast
  from m(2) [of "''n''"] g obtain e where e: "omap_get m ''n'' = Some e" by simp
  with m(3) d have "locked_node e = True" by blast
  with e have "map_option locked_node (omap_get m ''n'') = Some True" by simp
  with m(1) show ?thesis by blast
qed

theorem lock_cycle_diverges:
  assumes "node_map_ok nodes" and "omap_get nodes i = Some n" and "n_deletedAt n = None"
    and "n_parentId n = Some p" and "descends nodes i p"
  shows "reduceOperation nodes (SetNodeLocked i lock now) = Diverges"
  using assms subtree_none [OF assms(1), of i p]
  by (simp add: reduceOperation_def lock_subtree_def parent_of_def)

text \<open>Moving a folder under its own child is accepted, and the next lock never returns.\<close>

theorem lock_cycle_diverges_witness:
  "\<exists>m. reduceOperation sample_map (MoveNode ''f'' \<lparr>pl_parentId = Some ''n'', pl_position = First\<rparr> 9) = Changed m \<and>
     reduceOperation m (SetNodeLocked ''f'' True 10) = Diverges"
proof -
  let ?pl = "\<lparr>pl_parentId = Some ''n'', pl_position = First\<rparr>"
  define n where "n = (sample_node ''f'' KFolder None 1024)\<lparr>n_parentId := Some ''n'',
    n_rank := provisionalRank sample_map ?pl (Some ''f''), n_updatedAt := 9\<rparr>"
  let ?m = "omap_set ''f'' n sample_map"
  have ok: "node_map_ok ?m"
    by (rule node_map_ok_set) (simp_all add: forest_map_def [symmetric] n_def sample_node_def
        sample_forest [unfolded forest_map_def])
  have get: "omap_get ?m ''f'' = Some n" by simp
  have "omap_wf sample_map" using sample_forest by (simp add: forest_map_def node_map_ok_def)
  then have "parent_edges ?m = {(''f'', ''n''), (''n'', ''f'')}"
    by (auto simp: edges_set sample_edges n_def)
  then have "descends ?m ''f'' ''n''" by (auto simp: descends_def)
  with lock_cycle_diverges [OF ok get, of "''n''" True 10]
  have "reduceOperation ?m (SetNodeLocked ''f'' True 10) = Diverges"
    by (simp add: n_def sample_node_def)
  moreover have "reduceOperation sample_map (MoveNode ''f'' ?pl 9) = Changed ?m"
    by (simp add: reduceOperation_def edit_node_def n_def sample_map_def sample_node_def)
  ultimately show ?thesis by blast
qed

lemma unavailable_named:
  assumes "node_map_ok nodes" and "[] \<notin> set (omap_keys nodes)"
  shows "x \<in> set (unavailableNodeIds (omap_values nodes)) \<longleftrightarrow> hidden (omap_values nodes) x"
proof -
  have "n_id n \<noteq> []" if "n \<in> set (omap_values nodes)" for n
    using assms(2) that node_map_ok_keys [OF assms(1)] by (metis image_eqI set_map)
  then show ?thesis using unavailable_hidden [of "omap_values nodes"] by simp
qed

text \<open>C8. On a map of nodes with non-empty ids, trashing an untrashed node stamps that node and changes no other record, and the ids the code then computes as unavailable are exactly those it computed before and the node with all its descendants.\<close>

theorem trash_hides_subtree:
  assumes "node_map_ok nodes" and "[] \<notin> set (omap_keys nodes)" and "omap_get nodes i = Some n" and "n_deletedAt n = None"
  shows "\<exists>nodes'. reduceOperation nodes (TrashSubtree i now) = Changed nodes' \<and>
    (\<forall>x. x \<in> set (unavailableNodeIds (omap_values nodes')) \<longleftrightarrow>
      x \<in> set (unavailableNodeIds (omap_values nodes)) \<or> descends nodes i x) \<and>
    (\<forall>k. omap_get nodes' k = (if k = i then Some (n\<lparr>n_deletedAt := Some now\<rparr>) else omap_get nodes k))"
proof -
  let ?m = "omap_set i (n\<lparr>n_deletedAt := Some now\<rparr>) nodes"
  have r: "reduceOperation nodes (TrashSubtree i now) = Changed ?m"
    using assms by (simp add: reduceOperation_def edit_node_def)
  have ok: "node_map_ok ?m" by (rule reduceOperation_ok [OF assms(1) r])
  have "parent_edges ?m = parent_edges nodes"
    by (rule edges_same) (use assms node_map_ok_wf in \<open>auto simp: parent_of_def\<close>)
  then have d: "descends ?m = descends nodes" by (intro ext) (simp add: descends_def)
  have "hidden (omap_values ?m) x \<longleftrightarrow> hidden (omap_values nodes) x \<or> descends nodes i x" for x
    unfolding hidden_descends [OF ok] hidden_descends [OF assms(1)] d omap_get_set
    using assms(3,4) by (auto split: if_splits)
  moreover have "omap_keys ?m = omap_keys nodes" using assms(3) by (rule omap_set_map_snd)
  then have "[] \<notin> set (omap_keys ?m)" using assms(2) by simp
  note un = unavailable_named [OF ok this] unavailable_named [OF assms(1,2)]
  ultimately show ?thesis using r by (auto simp: un)
qed

theorem trash_hides_subtree_witness:
  "\<exists>m. reduceOperation sample_map (TrashSubtree ''f'' 9) = Changed m \<and> ''n'' \<in> set (unavailableNodeIds (omap_values m)) \<and>
     ''n'' \<notin> set (unavailableNodeIds (omap_values sample_map))"
proof -
  have "omap_get sample_map ''f'' = Some (sample_node ''f'' KFolder None 1024)"
    "n_deletedAt (sample_node ''f'' KFolder None 1024) = None"
    by (simp_all add: sample_map_def sample_node_def)
  moreover have "node_map_ok sample_map" "[] \<notin> set (omap_keys sample_map)" by code_simp+
  moreover have "descends sample_map ''f'' ''n''" by (auto simp: descends_def sample_edges)
  moreover have "''n'' \<notin> set (unavailableNodeIds (omap_values sample_map))" by code_simp
  ultimately show ?thesis using trash_hides_subtree [of sample_map "''f''" _ 9] by blast
qed

lemma purge_get:
  assumes "node_map_ok nodes" and "[] \<notin> set (omap_keys nodes)" and "hidden (omap_values nodes) i"
  shows "\<exists>nodes'. reduceOperation nodes (PurgeSubtree i now) = Changed nodes' \<and>
    (\<forall>k. omap_get nodes' k = (if descends nodes i k then None else omap_get nodes k)) \<and>
    (\<forall>k n p. omap_get nodes' k = Some n \<longrightarrow> n_parentId n = Some p \<longrightarrow> \<not> descends nodes i p)"
proof -
  have ids: "n_id n \<noteq> []" if "n \<in> set (omap_values nodes)" for n
    using assms(2) that node_map_ok_keys [OF assms(1)] by (metis image_eqI set_map)
  from assms(3) have "i \<noteq> []" by cases (use ids in auto)
  note removed = removal_correct [OF assms(1,2) this]
  let ?m = "fold (\<lambda>i m. omap_delete i m) (removal_loop nodes [i]) nodes"
  have "reduceOperation nodes (PurgeSubtree i now) = Changed ?m"
    using unavailable_hidden [of "omap_values nodes"] ids assms(3)
    by (simp add: reduceOperation_def purge_subtree_def)
  moreover have get: "omap_get ?m k = (if descends nodes i k then None else omap_get nodes k)" for k
    by (simp add: delete_all_get removed)
  moreover have "\<not> descends nodes i p" if "omap_get ?m k = Some n" "n_parentId n = Some p" for k n p
  proof
    assume "descends nodes i p"
    moreover have "(k, p) \<in> parent_edges nodes"
      using that get [of k] by (auto simp: parent_edges_iff node_map_ok_wf [OF assms(1)] split: if_splits)
    ultimately have "descends nodes i k" by (rule descends_child)
    with that get [of k] show False by simp
  qed
  ultimately show ?thesis by blast
qed

text \<open>C9. Purging a hidden subtree removes exactly the node and its descendants and leaves no node whose parent was purged.\<close>

theorem purge_exact:
  assumes "node_map_ok nodes" and "[] \<notin> set (omap_keys nodes)" and "hidden (omap_values nodes) i"
  shows "\<exists>nodes'. reduceOperation nodes (PurgeSubtree i now) = Changed nodes' \<and>
    (\<forall>k. omap_get nodes' k = (if descends nodes i k then None else omap_get nodes k)) \<and>
    (\<forall>k n p. omap_get nodes' k = Some n \<longrightarrow> n_parentId n = Some p \<longrightarrow> \<not> descends nodes i p)"
  by (rule purge_get [OF assms])

theorem purge_exact_witness:
  "\<exists>m. reduceOperation (omap_set ''f'' ((sample_node ''f'' KFolder None 1024)\<lparr>n_deletedAt := Some 3\<rparr>) sample_map)
     (PurgeSubtree ''f'' 9) = Changed m \<and> omap_get m ''f'' = None"
proof -
  let ?f = "(sample_node ''f'' KFolder None 1024)\<lparr>n_deletedAt := Some 3\<rparr>"
  let ?s = "omap_set ''f'' ?f sample_map"
  have "node_map_ok ?s" by code_simp
  moreover have "[] \<notin> set (omap_keys ?s)" by code_simp
  moreover have "?f \<in> set (omap_values ?s)" by (simp add: sample_map_def sample_node_def)
  then have "hidden (omap_values ?s) ''f''"
    using hidden_own [of ?f "omap_values ?s"] by (simp add: sample_node_def)
  ultimately obtain m where "reduceOperation ?s (PurgeSubtree ''f'' 9) = Changed m"
      "\<forall>k. omap_get m k = (if descends ?s ''f'' k then None else omap_get ?s k)"
    using purge_exact [of ?s "''f''" 9] by blast
  then show ?thesis using descends_refl by metis
qed

section \<open>Covers\<close>

text \<open>A note shows an image or a gradient, never both.\<close>

definition one_cover :: "workspace_node \<Rightarrow> bool" where
  "one_cover n \<longleftrightarrow> nullish (n_coverImageId n) = None \<or> nullish (n_coverGradient n) = None"

definition covers_ok :: "node_map \<Rightarrow> bool" where
  "covers_ok m \<longleftrightarrow> list_all one_cover (omap_values m)"

lemma one_cover_cover [intro]: "one_cover (with_cover img now n)"
  by (cases img) (simp_all add: one_cover_def with_cover_def Let_def)

lemma one_cover_gradient [intro]: "one_cover (with_gradient g now n)"
  by (cases g) (simp_all add: one_cover_def with_gradient_def)

lemma one_cover_update [simp]:
  "one_cover (n\<lparr>n_title := v0\<rparr>) = one_cover n"
  "one_cover (n\<lparr>n_parentId := v1\<rparr>) = one_cover n"
  "one_cover (n\<lparr>n_rank := v2\<rparr>) = one_cover n"
  "one_cover (n\<lparr>n_coverFullWidth := v3\<rparr>) = one_cover n"
  "one_cover (n\<lparr>n_coverPositionX := v4\<rparr>) = one_cover n"
  "one_cover (n\<lparr>n_coverPositionY := v5\<rparr>) = one_cover n"
  "one_cover (n\<lparr>n_coverZoom := v6\<rparr>) = one_cover n"
  "one_cover (n\<lparr>n_updatedAt := v7\<rparr>) = one_cover n"
  "one_cover (n\<lparr>n_deletedAt := v8\<rparr>) = one_cover n"
  "one_cover (n\<lparr>n_pinnedAt := v9\<rparr>) = one_cover n"
  "one_cover (n\<lparr>n_lockedAt := v10\<rparr>) = one_cover n"
  by (simp_all add: one_cover_def)

lemma covers_ok_set: "covers_ok m \<Longrightarrow> one_cover n \<Longrightarrow> covers_ok (omap_set i n m)"
  unfolding covers_ok_def by (induction m) auto

lemma covers_ok_get: "covers_ok m \<Longrightarrow> omap_get m i = Some n \<Longrightarrow> one_cover n"
  unfolding covers_ok_def by (auto simp: list_all_iff dest!: omap_get_in)

lemma covers_ok_delete_all: "covers_ok m \<Longrightarrow> covers_ok (fold (\<lambda>i m. omap_delete i m) ks m)"
proof (induction ks arbitrary: m)
  case (Cons k ks)
  have "covers_ok (omap_delete k m)"
    using Cons.prems by (auto simp: covers_ok_def list_all_iff AList.delete_eq)
  with Cons.IH show ?case by simp
qed simp

lemma covers_edit:
  assumes "edit_node m i accepts change = Changed m'" and c: "covers_ok m"
    and change: "\<And>n. one_cover n \<Longrightarrow> one_cover (change n)"
  shows "covers_ok m'"
proof -
  from assms(1) obtain e where "omap_get m i = Some e" "m' = omap_set i (change e) m"
    by (auto simp: edit_node_def split: option.splits if_splits)
  with covers_ok_set [OF c change] covers_ok_get [OF c] show ?thesis by blast
qed

lemma covers_lock:
  assumes c: "covers_ok m"
  shows "covers_ok (fst acc) \<Longrightarrow> covers_ok (fst (fold (lock_one m lock now) ids acc))"
proof (induction ids arbitrary: acc)
  case (Cons i ids)
  have "covers_ok (fst (lock_one m lock now i acc))"
  proof (cases "omap_get m i")
    case (Some e)
    have "one_cover (e\<lparr>n_lockedAt := l, n_updatedAt := now\<rparr>)" for l
      using covers_ok_get [OF c Some] by (simp add: one_cover_def)
    with Some Cons.prems show ?thesis by (auto simp: lock_one_def intro!: covers_ok_set)
  qed (simp add: lock_one_def Cons.prems)
  with Cons.IH show ?case by simp
qed simp

lemma covers_step:
  assumes c: "covers_ok m" and r: "reduceOperation m op = Changed m'"
  shows "covers_ok m'"
proof (cases op)
  case (SetNodeLocked i lock now)
  with c r covers_lock [of m "(m, False)"] show ?thesis
    by (auto simp: reduceOperation_def lock_subtree_def case_prod_beta Let_def split: option.splits if_splits)
next
  case (CreateFolder i t pl now)
  with c r show ?thesis
    by (auto simp: reduceOperation_def create_node_def one_cover_def intro!: covers_ok_set)
next
  case (CreateNote i t pl doc md now)
  with c r show ?thesis
    by (auto simp: reduceOperation_def create_node_def one_cover_def intro!: covers_ok_set)
next
  case (PurgeSubtree i now)
  with c r show ?thesis
    by (auto simp: reduceOperation_def purge_subtree_def intro!: covers_ok_delete_all split: if_splits)
qed (use r in \<open>auto simp: reduceOperation_def Let_def intro: covers_edit [OF _ c]\<close>)

interpretation cover_reducer: reducer reduceOperation covers_ok "\<lambda>_. True"
  by unfold_locales (rule covers_step)

theorem covers_exclusive:
  assumes "covers_ok nodes"
    and "settle nodes (reduce_all reduceOperation nodes operations) = Some nodes'"
  shows "covers_ok nodes'"
  using cover_reducer.batch_settles [OF assms(1) _ assms(2)] by (simp add: list_all_iff)

theorem covers_exclusive_witness:
  "covers_ok (the (settle sample_map (reduce_all reduceOperation sample_map
     [SetNoteCover ''a'' (Some ''img'') 1, SetNoteCoverGradient ''a'' (Some ''sunset'') 2])))"
proof -
  let ?ops = "[SetNoteCover ''a'' (Some ''img'') 1, SetNoteCoverGradient ''a'' (Some ''sunset'') 2]"
  have "covers_ok sample_map" by code_simp
  moreover have "settle sample_map (reduce_all reduceOperation sample_map ?ops) \<noteq> None" by code_simp
  ultimately show ?thesis using covers_exclusive [of sample_map ?ops] by auto
qed

end
