(* ===== verification/References.thy ===== *)
theory References
  imports Contracts
begin

text \<open>
  \<open>references/\<close>: extracting the structured references of a document, and the two-way
  projection (note to targets, target key to notes) that is updated in place of a rebuild.
\<close>

section \<open>Keys\<close>

fun kind_name :: "reference_kind \<Rightarrow> string" where
  "kind_name RTag = ''tag''"
| "kind_name RPerson = ''person''"
| "kind_name RNote = ''note''"

definition referenceKey :: "reference_kind \<Rightarrow> string \<Rightarrow> string" where
  "referenceKey kind targetId = kind_name kind @ '':'' @ targetId"

definition key_of :: "structured_reference \<Rightarrow> string" where
  "key_of r = referenceKey (r_kind r) (r_targetId r)"

lemma referenceKey_inj: "referenceKey k t = referenceKey k' t' \<longleftrightarrow> k = k' \<and> t = t'"
  by (cases k; cases k') (auto simp: referenceKey_def)

lemma key_of_inj: "key_of r = key_of r' \<longleftrightarrow> r = r'"
  by (cases r; cases r') (auto simp: key_of_def referenceKey_inj)

section \<open>Extraction\<close>

definition referenceFromNode :: "json \<Rightarrow> structured_reference option" where
  "referenceFromNode node =
     (case json_field ''attrs'' node of
        None \<Rightarrow> None
      | Some attrs \<Rightarrow>
          (case json_string (json_field ''id'' attrs) of
             None \<Rightarrow> None
           | Some i \<Rightarrow>
               if i = [] then None
               else if json_field ''type'' node = Some (JStr ''tag_ref'')
               then Some \<lparr>r_kind = RTag, r_targetId = i\<rparr>
               else if json_field ''type'' node = Some (JStr ''mention_ref'')
               then (if json_field ''kind'' attrs = Some (JStr ''person'')
                     then Some \<lparr>r_kind = RPerson, r_targetId = i\<rparr>
                     else if json_field ''kind'' attrs = Some (JStr ''note'')
                     then Some \<lparr>r_kind = RNote, r_targetId = i\<rparr> else None)
               else None))"

definition content_of :: "json \<Rightarrow> json list" where
  "content_of node = (case json_is_array (json_field ''content'' node) of None \<Rightarrow> [] | Some xs \<Rightarrow> xs)"

lemma content_size: "size_list size (content_of node) < Suc (size node)"
proof (cases node)
  case (JObj fields)
  show ?thesis
  proof (cases "json_is_array (map_of fields ''content'')")
    case None
    then show ?thesis by (simp add: content_of_def JObj)
  next
    case (Some xs)
    then have "map_of fields ''content'' = Some (JArr xs)"
      by (cases "map_of fields ''content''") (auto elim: json_is_array.elims)
    then have "(''content'', JArr xs) \<in> set fields" by (rule map_of_SomeD)
    then have "size_prod (\<lambda>_. 0) size (''content'', JArr xs) < Suc (size_list (size_prod (\<lambda>_. 0) size) fields)"
      by (metis size_list_estimation' order_refl less_Suc_eq_le)
    with Some show ?thesis by (simp add: content_of_def JObj)
  qed
qed (simp_all add: content_of_def)

text \<open>The stack's top is the list's head; the seen set holds reference keys.\<close>

function extract_loop :: "json list \<Rightarrow> string list \<Rightarrow> structured_reference list \<Rightarrow> structured_reference list" where
  "extract_loop [] seen references = references"
| "extract_loop (v # pending) seen references =
     (if \<not> is_json_node v then extract_loop pending seen references
      else let pending' = content_of v @ pending
           in case referenceFromNode v of
                None \<Rightarrow> extract_loop pending' seen references
              | Some r \<Rightarrow>
                  if key_of r \<in> set seen then extract_loop pending' seen references
                  else extract_loop pending' (oset_add (key_of r) seen) (references @ [r]))"
  by pat_completeness auto

lemma size_list_append: "size_list f (xs @ ys) = size_list f xs + size_list f ys"
  by (induction xs) simp_all

termination extract_loop
  by (relation "measure (\<lambda>(pending, seen, references). size_list size pending)")
     (use content_size in \<open>auto simp: size_list_append\<close>)

definition extractReferences :: "json \<Rightarrow> structured_reference list" where
  "extractReferences documentJson = extract_loop [documentJson] [] []"

definition referencesEqual :: "structured_reference list \<Rightarrow> structured_reference list \<Rightarrow> bool" where
  "referencesEqual left right \<longleftrightarrow> length left = length right \<and>
     list_all2 (\<lambda>a b. r_kind a = r_kind b \<and> r_targetId a = r_targetId b) left right"

lemma referencesEqual_eq: "referencesEqual left right \<longleftrightarrow> left = right"
proof -
  have "(r_kind a = r_kind b \<and> r_targetId a = r_targetId b) = (a = b)" for a b :: structured_reference
    by (cases a; cases b) simp
  then show ?thesis by (auto simp: referencesEqual_def list_all2_eq dest: list_all2_lengthD)
qed

section \<open>The projection\<close>

record reference_projection =
  outgoingReferences :: "(string, structured_reference list) omap"
  incomingReferences :: "(string, string list) omap"

definition build_target :: "string \<Rightarrow> structured_reference \<Rightarrow> (string, string list) omap \<Rightarrow>
    (string, string list) omap" where
  "build_target noteId target incoming =
     (let key = key_of target; sources = omap_getd [] incoming key
      in if noteId \<in> set sources then incoming else omap_set key (sources @ [noteId]) incoming)"

definition build_entry :: "note_references \<Rightarrow> reference_projection \<Rightarrow> reference_projection" where
  "build_entry entry p =
     (if nr_targets entry = [] then p
      else \<lparr>outgoingReferences = omap_set (nr_noteId entry) (nr_targets entry) (outgoingReferences p),
            incomingReferences = fold (build_target (nr_noteId entry)) (nr_targets entry) (incomingReferences p)\<rparr>)"

definition buildReferenceProjection :: "note_references list \<Rightarrow> reference_projection" where
  "buildReferenceProjection references =
     fold build_entry references \<lparr>outgoingReferences = [], incomingReferences = []\<rparr>"

definition withoutSource :: "string \<Rightarrow> string \<Rightarrow> (string, string list) omap \<Rightarrow> (string, string list) omap" where
  "withoutSource key noteId incoming =
     (case omap_get incoming key of
        None \<Rightarrow> incoming
      | Some sources \<Rightarrow>
          if noteId \<notin> set sources then incoming
          else (let remaining = filter (\<lambda>s. s \<noteq> noteId) sources
                in if remaining = [] then omap_delete key incoming else omap_set key remaining incoming))"

definition withSource :: "string \<Rightarrow> string \<Rightarrow> (string, string list) omap \<Rightarrow> (string, string list) omap" where
  "withSource key noteId incoming =
     (case omap_get incoming key of
        None \<Rightarrow> omap_set key [noteId] incoming
      | Some sources \<Rightarrow>
          if noteId \<notin> set sources then omap_set key (sources @ [noteId]) incoming else incoming)"

text \<open>\<open>None\<close> is the code's \<open>null\<close>: nothing changed.\<close>

definition updateNoteReferences :: "reference_projection \<Rightarrow> string \<Rightarrow> structured_reference list \<Rightarrow>
    reference_projection option" where
  "updateNoteReferences projection noteId targets =
     (let previous = omap_getd [] (outgoingReferences projection) noteId
      in if referencesEqual previous targets then None
         else
           let outgoing = (if targets = [] then omap_delete noteId (outgoingReferences projection)
                           else omap_set noteId targets (outgoingReferences projection));
               nextKeys = oset_from (map key_of targets);
               cleared = fold (\<lambda>t inc. if key_of t \<notin> set nextKeys then withoutSource (key_of t) noteId inc else inc)
                           previous (incomingReferences projection);
               incoming = fold (\<lambda>k. withSource k noteId) nextKeys cleared
           in Some \<lparr>outgoingReferences = outgoing, incomingReferences = incoming\<rparr>)"

definition remove_source :: "string \<Rightarrow> reference_projection \<Rightarrow> reference_projection" where
  "remove_source noteId p =
     (let targets = omap_getd [] (outgoingReferences p) noteId
      in \<lparr>outgoingReferences = omap_delete noteId (outgoingReferences p),
          incomingReferences = fold (\<lambda>t. withoutSource (key_of t) noteId) targets (incomingReferences p)\<rparr>)"

definition removeSourceNotes :: "reference_projection \<Rightarrow> string list \<Rightarrow> reference_projection option" where
  "removeSourceNotes projection removedNoteIds =
     (let affected = filter (omap_has (outgoingReferences projection)) removedNoteIds
      in if affected = [] then None else Some (fold remove_source affected projection))"

definition removeTarget :: "(string, string list) omap \<Rightarrow> string \<Rightarrow> (string, string list) omap" where
  "removeTarget incoming key = (if omap_has incoming key then omap_delete key incoming else incoming)"

section \<open>The projection's invariant\<close>

text \<open>\<open>incoming\<close> is the inverse of \<open>outgoing\<close>, and neither holds an empty list.\<close>

definition lists_ok :: "(string, 'a list) omap \<Rightarrow> bool" where
  "lists_ok m \<longleftrightarrow> omap_wf m \<and> list_all (\<lambda>(k, v). v \<noteq> []) m"

definition mirrors :: "reference_projection \<Rightarrow> bool" where
  "mirrors p \<longleftrightarrow> (\<forall>k n. n \<in> set (omap_getd [] (incomingReferences p) k) \<longleftrightarrow>
     k \<in> key_of ` set (omap_getd [] (outgoingReferences p) n))"

definition projection_ok :: "reference_projection \<Rightarrow> bool" where
  "projection_ok p \<longleftrightarrow> lists_ok (outgoingReferences p) \<and> lists_ok (incomingReferences p) \<and> mirrors p"

lemma lists_ok_iff: "lists_ok m \<longleftrightarrow> omap_wf m \<and> (\<forall>k v. omap_get m k = Some v \<longrightarrow> v \<noteq> [])"
  unfolding lists_ok_def list_all_iff by fastforce

lemma lists_ok_set [wf_intros]: "lists_ok m \<Longrightarrow> v \<noteq> [] \<Longrightarrow> lists_ok (omap_set k v m)"
  by (auto simp: lists_ok_iff simp del: map_of_eq_Some_iff)

lemma lists_ok_delete [wf_intros]: "lists_ok m \<Longrightarrow> lists_ok (omap_delete k m)"
  by (auto simp: lists_ok_iff simp del: map_of_eq_Some_iff)

lemma withSource_ok [wf_intros]: "lists_ok inc \<Longrightarrow> lists_ok (withSource k n inc)"
  by (auto simp: withSource_def intro!: wf_intros split: option.splits)

lemma withoutSource_ok [wf_intros]: "lists_ok inc \<Longrightarrow> lists_ok (withoutSource k n inc)"
  by (auto simp: withoutSource_def Let_def intro!: wf_intros split: option.splits)

lemma build_target_ok [wf_intros]: "lists_ok inc \<Longrightarrow> lists_ok (build_target n t inc)"
  by (auto simp: build_target_def Let_def intro!: wf_intros)

lemma withSource_get:
  "set (omap_getd [] (withSource k n inc) k') = (if k' = k then insert n (set (omap_getd [] inc k)) else set (omap_getd [] inc k'))"
  by (auto simp: withSource_def omap_getd_def split: option.splits)

lemma withoutSource_get:
  "set (omap_getd [] (withoutSource k n inc) k') =
    (if k' = k then set (omap_getd [] inc k) - {n} else set (omap_getd [] inc k'))"
proof (cases "omap_get inc k")
  case None
  then show ?thesis by (simp add: withoutSource_def omap_getd_def)
next
  case (Some v)
  show ?thesis
  proof (cases "n \<in> set v \<and> filter (\<lambda>s. s \<noteq> n) v \<noteq> []")
    case True
    with Some show ?thesis by (auto simp: withoutSource_def omap_getd_def Let_def)
  next
    case False
    with Some have "n \<notin> set v \<or> set v - {n} = {}" by (auto simp: filter_empty_conv)
    with False Some show ?thesis by (cases "n \<in> set v") (simp_all add: withoutSource_def omap_getd_def Let_def)
  qed
qed

lemma build_target_get:
  "set (omap_getd [] (build_target n t inc) k') =
    (if k' = key_of t then insert n (set (omap_getd [] inc k')) else set (omap_getd [] inc k'))"
  by (auto simp: build_target_def omap_getd_def Let_def split: option.splits)

lemma build_fold_get:
  "set (omap_getd [] (fold (build_target n) ts inc) k) =
    (if k \<in> key_of ` set ts then insert n (set (omap_getd [] inc k)) else set (omap_getd [] inc k))"
  by (induction ts arbitrary: inc) (auto simp: build_target_get)

lemma withSource_fold_get:
  "set (omap_getd [] (fold (\<lambda>k. withSource k n) ks inc) k) =
    (if k \<in> set ks then insert n (set (omap_getd [] inc k)) else set (omap_getd [] inc k))"
  by (induction ks arbitrary: inc) (auto simp: withSource_get)

lemma withoutSource_fold_get:
  "set (omap_getd [] (fold (\<lambda>t inc. if P t then withoutSource (key_of t) n inc else inc) ts inc) k) =
    (if \<exists>t \<in> set ts. P t \<and> key_of t = k then set (omap_getd [] inc k) - {n} else set (omap_getd [] inc k))"
  by (induction ts arbitrary: inc) (auto simp: withoutSource_get)

lemma fold_lists_ok:
  assumes "\<And>x inc. lists_ok inc \<Longrightarrow> lists_ok (f x inc)"
  shows "lists_ok inc \<Longrightarrow> lists_ok (fold f xs inc)"
  by (induction xs arbitrary: inc) (auto intro: assms)

lemma mirrorsI:
  "(\<And>k n. n \<in> set (omap_getd [] (incomingReferences p) k) \<longleftrightarrow>
     k \<in> key_of ` set (omap_getd [] (outgoingReferences p) n)) \<Longrightarrow> mirrors p"
  by (simp add: mirrors_def)

lemma mirrorsD:
  "mirrors p \<Longrightarrow> n \<in> set (omap_getd [] (incomingReferences p) k) \<longleftrightarrow>
     k \<in> key_of ` set (omap_getd [] (outgoingReferences p) n)"
  by (simp add: mirrors_def)

lemma omap_getd_set: "omap_getd d (omap_set k v m) k' = (if k' = k then v else omap_getd d m k')"
  by (simp add: omap_getd_def)

lemma omap_getd_delete: "omap_getd d (omap_delete k m) k' = (if k' = k then d else omap_getd d m k')"
  by (simp add: omap_getd_def)

lemma build_entry_ok:
  assumes p: "projection_ok p" and fresh: "omap_getd [] (outgoingReferences p) (nr_noteId e) = []"
  shows "projection_ok (build_entry e p)"
proof (cases "nr_targets e = []")
  case True
  with p show ?thesis by (simp add: build_entry_def)
next
  case False
  have "lists_ok (fold (build_target (nr_noteId e)) (nr_targets e) (incomingReferences p))"
    using p by (intro fold_lists_ok wf_intros) (simp_all add: projection_ok_def)
  moreover have "mirrors (build_entry e p)"
    using p fresh False
    by (intro mirrorsI) (auto simp: build_entry_def omap_getd_set build_fold_get projection_ok_def mirrorsD)
  ultimately show ?thesis
    using p False by (auto simp: projection_ok_def build_entry_def intro: wf_intros)
qed

lemma build_entry_other:
  "n \<noteq> nr_noteId e \<Longrightarrow> omap_getd [] (outgoingReferences (build_entry e p)) n = omap_getd [] (outgoingReferences p) n"
  by (simp add: build_entry_def omap_getd_set)

lemma build_ok_from:
  "projection_ok p \<Longrightarrow> distinct (map nr_noteId es) \<Longrightarrow>
   (\<And>e. e \<in> set es \<Longrightarrow> omap_getd [] (outgoingReferences p) (nr_noteId e) = []) \<Longrightarrow>
   projection_ok (fold build_entry es p)"
proof (induction es arbitrary: p)
  case Nil
  then show ?case by simp
next
  case (Cons e es)
  have "projection_ok (fold build_entry es (build_entry e p))"
  proof (rule Cons.IH)
    show "projection_ok (build_entry e p)" using Cons.prems by (intro build_entry_ok) auto
    show "distinct (map nr_noteId es)" using Cons.prems(2) by simp
    fix e' assume e': "e' \<in> set es"
    then have "nr_noteId e' \<noteq> nr_noteId e" using Cons.prems(2) by (metis distinct.simps(2) image_eqI list.simps(9) set_map)
    with Cons.prems(3) [of e'] e' show "omap_getd [] (outgoingReferences (build_entry e p)) (nr_noteId e') = []"
      by (simp add: build_entry_other)
  qed
  then show ?case by simp
qed

lemma build_ok: "distinct (map nr_noteId es) \<Longrightarrow> projection_ok (buildReferenceProjection es)"
  unfolding buildReferenceProjection_def
  by (rule build_ok_from) (simp_all add: projection_ok_def lists_ok_def mirrors_def omap_getd_def)

lemma update_ok:
  assumes p: "projection_ok p" and r: "updateNoteReferences p noteId targets = Some p'"
  shows "projection_ok p' \<and> omap_getd [] (outgoingReferences p') noteId = targets \<and>
    (\<forall>n. n \<noteq> noteId \<longrightarrow> omap_get (outgoingReferences p') n = omap_get (outgoingReferences p) n)"
proof -
  let ?prev = "omap_getd [] (outgoingReferences p) noteId"
  let ?next = "oset_from (map key_of targets)"
  let ?cleared = "fold (\<lambda>t inc. if key_of t \<notin> set ?next then withoutSource (key_of t) noteId inc else inc)
    ?prev (incomingReferences p)"
  have p': "p' = \<lparr>outgoingReferences = (if targets = [] then omap_delete noteId (outgoingReferences p)
        else omap_set noteId targets (outgoingReferences p)),
      incomingReferences = fold (\<lambda>k. withSource k noteId) ?next ?cleared\<rparr>"
    using r by (simp add: updateNoteReferences_def Let_def split: if_splits)
  have out: "omap_getd [] (outgoingReferences p') n = (if n = noteId then targets else omap_getd [] (outgoingReferences p) n)" for n
    by (simp add: p' omap_getd_set omap_getd_delete)
  have inc: "set (omap_getd [] (incomingReferences p') k) =
      (if k \<in> key_of ` set targets then insert noteId (set (omap_getd [] (incomingReferences p) k))
       else if k \<in> key_of ` set ?prev then set (omap_getd [] (incomingReferences p) k) - {noteId}
       else set (omap_getd [] (incomingReferences p) k))" for k
    unfolding p' by (auto simp: withSource_fold_get withoutSource_fold_get)
  have "mirrors p'"
    using p by (intro mirrorsI) (auto simp: inc out projection_ok_def mirrorsD)
  moreover have "lists_ok (incomingReferences p')"
    unfolding p' using p by (auto simp: projection_ok_def intro!: fold_lists_ok wf_intros)
  moreover have "lists_ok (outgoingReferences p')"
    unfolding p' using p by (auto simp: projection_ok_def intro!: wf_intros)
  ultimately show ?thesis by (auto simp: projection_ok_def out) (simp add: p')
qed

lemma remove_source_ok:
  assumes p: "projection_ok p"
  shows "projection_ok (remove_source noteId p)"
proof -
  let ?ts = "omap_getd [] (outgoingReferences p) noteId"
  have inc: "set (omap_getd [] (fold (\<lambda>t. withoutSource (key_of t) noteId) ?ts (incomingReferences p)) k) =
      (if k \<in> key_of ` set ?ts then set (omap_getd [] (incomingReferences p) k) - {noteId}
       else set (omap_getd [] (incomingReferences p) k))" for k
    using withoutSource_fold_get [of "\<lambda>_. True" noteId ?ts "incomingReferences p" k] by auto
  have "mirrors (remove_source noteId p)"
    using p by (intro mirrorsI) (auto simp: remove_source_def Let_def inc omap_getd_delete projection_ok_def mirrorsD)
  moreover have "lists_ok (fold (\<lambda>t. withoutSource (key_of t) noteId) ?ts (incomingReferences p))"
    using p by (intro fold_lists_ok wf_intros) (simp_all add: projection_ok_def)
  ultimately show ?thesis
    using p by (auto simp: projection_ok_def remove_source_def Let_def intro: wf_intros)
qed

lemma remove_sources_ok: "projection_ok p \<Longrightarrow> projection_ok (fold remove_source ns p)"
  by (induction ns arbitrary: p) (auto intro: remove_source_ok)

lemma remove_sources_out:
  "omap_get (outgoingReferences (fold remove_source ns p)) n =
    (if n \<in> set ns then None else omap_get (outgoingReferences p) n)"
  by (induction ns arbitrary: p) (auto simp: remove_source_def Let_def)

end
