(* ===== verification/Reference_Theorems.thy ===== *)
theory Reference_Theorems
  imports References
begin

text \<open>
  What \<open>references/\<close> promises: extraction returns the document's references in reading order,
  each once, and the incremental projection stays the exact inverse it was built as.
\<close>

section \<open>Extraction\<close>

text \<open>The specification: the references of a subtree, a node before its content.\<close>

function doc_refs :: "json \<Rightarrow> structured_reference list" where
  "doc_refs v =
     (if is_json_node v
      then (case referenceFromNode v of None \<Rightarrow> [] | Some r \<Rightarrow> [r]) @ concat (map doc_refs (content_of v))
      else [])"
  by pat_completeness auto

lemma size_list_member: "x \<in> set xs \<Longrightarrow> size x < size_list size xs"
  by (induction xs) auto

lemma content_member_size: "x \<in> set (content_of v) \<Longrightarrow> size x < size v"
  using content_size [of v] size_list_member [of x "content_of v"] by simp

termination doc_refs
  by (relation "measure size") (simp_all add: content_member_size)

declare doc_refs.simps [simp del]

lemma extract_loop_spec:
  "set seen = key_of ` set refs \<Longrightarrow>
    extract_loop pending seen refs = fold oset_add (concat (map doc_refs pending)) refs"
proof (induction pending seen refs rule: extract_loop.induct)
  case (1 seen refs)
  then show ?case by simp
next
  case (2 v pending seen refs)
  show ?case
  proof (cases "is_json_node v")
    case False
    with 2 show ?thesis by (simp add: doc_refs.simps [of v])
  next
    case True
    show ?thesis
    proof (cases "referenceFromNode v")
      case None
      with 2 True show ?thesis by (simp add: doc_refs.simps [of v] Let_def)
    next
      case (Some r)
      have "key_of r \<in> set seen \<longleftrightarrow> r \<in> set refs" using 2(5) by (auto simp: key_of_inj)
      with 2 True Some show ?thesis
        by (cases "r \<in> set refs") (simp_all add: doc_refs.simps [of v] Let_def oset_add_def)
    qed
  qed
qed

theorem extract_in_reading_order:
  "extractReferences documentJson = oset_from (doc_refs documentJson) \<and>
   distinct (extractReferences documentJson) \<and>
   set (extractReferences documentJson) = set (doc_refs documentJson)"
proof -
  have "extractReferences documentJson = oset_from (doc_refs documentJson)"
    using extract_loop_spec [of "[]" "[]" "[documentJson]"] by (simp add: extractReferences_def oset_from_def)
  then show ?thesis by simp
qed

section \<open>The projection\<close>

text \<open>Every way the store replaces the projection once a snapshot built it.\<close>

inductive projection_step :: "reference_projection \<Rightarrow> reference_projection \<Rightarrow> bool" where
  step_update: "updateNoteReferences p n ts = Some p' \<Longrightarrow> projection_step p p'"
| step_remove: "removeSourceNotes p ns = Some p' \<Longrightarrow> projection_step p p'"

lemma removeSourceNotes_ok:
  "projection_ok p \<Longrightarrow> removeSourceNotes p ns = Some p' \<Longrightarrow> projection_ok p'"
  by (auto simp: removeSourceNotes_def Let_def intro: remove_sources_ok split: if_splits)

lemma projection_step_ok: "projection_ok p \<Longrightarrow> projection_step p p' \<Longrightarrow> projection_ok p'"
  by (erule projection_step.cases) (auto simp: update_ok intro: removeSourceNotes_ok)

interpretation empty_projection: invariant_system projection_step "buildReferenceProjection []" projection_ok
  by unfold_locales (auto intro: projection_step_ok build_ok)

text \<open>C27. From the projection built at bootstrap, any sequence of updates and note removals keeps the incoming map the exact inverse of the outgoing one.\<close>

theorem projection_stays_inverse:
  assumes "distinct (map nr_noteId references)"
    and "reached projection_step (buildReferenceProjection references) p"
  shows "n \<in> set (omap_getd [] (incomingReferences p) (referenceKey kind target)) \<longleftrightarrow>
    \<lparr>r_kind = kind, r_targetId = target\<rparr> \<in> set (omap_getd [] (outgoingReferences p) n)"
proof -
  have "projection_ok p"
    by (rule empty_projection.reached_inv_from [OF assms(2) build_ok [OF assms(1)]])
  then have "n \<in> set (omap_getd [] (incomingReferences p) (referenceKey kind target)) \<longleftrightarrow>
      referenceKey kind target \<in> key_of ` set (omap_getd [] (outgoingReferences p) n)"
    by (simp add: projection_ok_def mirrorsD)
  moreover have "referenceKey kind target = key_of \<lparr>r_kind = kind, r_targetId = target\<rparr>"
    by (simp add: key_of_def)
  ultimately show ?thesis by (auto simp: key_of_inj)
qed

definition tag_ref :: "string \<Rightarrow> structured_reference" where
  "tag_ref i = \<lparr>r_kind = RTag, r_targetId = i\<rparr>"

definition sample_references :: "note_references list" where
  "sample_references = [\<lparr>nr_noteId = ''a'', nr_targets = [tag_ref ''x'', tag_ref ''y'']\<rparr>,
     \<lparr>nr_noteId = ''b'', nr_targets = [tag_ref ''x'']\<rparr>]"

theorem projection_stays_inverse_witness:
  "\<exists>p. updateNoteReferences (buildReferenceProjection sample_references) ''a'' [tag_ref ''y''] = Some p \<and>
     ''a'' \<notin> set (omap_getd [] (incomingReferences p) ''tag:x'')"
proof -
  have d: "distinct (map nr_noteId sample_references)" by code_simp
  obtain p where p: "updateNoteReferences (buildReferenceProjection sample_references) ''a'' [tag_ref ''y''] = Some p"
    by (simp add: updateNoteReferences_def Let_def referencesEqual_eq sample_references_def
        buildReferenceProjection_def build_entry_def omap_getd_def tag_ref_def)
  have "reached projection_step (buildReferenceProjection sample_references) p"
    using reached_refl step_update [OF p] by (rule reached_step)
  from projection_stays_inverse [OF d this, of "''a''" RTag "''x''"] update_ok [OF build_ok [OF d] p]
  have "''a'' \<notin> set (omap_getd [] (incomingReferences p) (referenceKey RTag ''x''))"
    by (simp add: tag_ref_def)
  with p show ?thesis by (simp add: referenceKey_def)
qed

theorem update_is_local:
  assumes "projection_ok projection"
  shows "case updateNoteReferences projection noteId targets of
      None \<Rightarrow> omap_getd [] (outgoingReferences projection) noteId = targets
    | Some p \<Rightarrow> omap_getd [] (outgoingReferences p) noteId = targets \<and>
        (\<forall>n. n \<noteq> noteId \<longrightarrow> omap_get (outgoingReferences p) n = omap_get (outgoingReferences projection) n) \<and>
        (\<forall>k n. n \<noteq> noteId \<longrightarrow> n \<in> set (omap_getd [] (incomingReferences p) k) \<longleftrightarrow>
           n \<in> set (omap_getd [] (incomingReferences projection) k))"
proof (cases "updateNoteReferences projection noteId targets")
  case None
  then show ?thesis
    by (simp add: updateNoteReferences_def Let_def referencesEqual_eq split: if_splits)
next
  case (Some p)
  note u = update_ok [OF assms Some]
  have "n \<in> set (omap_getd [] (incomingReferences p) k) \<longleftrightarrow>
      n \<in> set (omap_getd [] (incomingReferences projection) k)" if "n \<noteq> noteId" for k n
  proof -
    have "omap_getd [] (outgoingReferences p) n = omap_getd [] (outgoingReferences projection) n"
      using u that by (simp add: omap_getd_def)
    moreover have "mirrors p" "mirrors projection" using u assms by (simp_all add: projection_ok_def)
    ultimately show ?thesis by (simp add: mirrorsD)
  qed
  with u Some show ?thesis by simp
qed

theorem update_is_local_witness:
  "updateNoteReferences (buildReferenceProjection sample_references) ''b'' [tag_ref ''x''] = None \<or>
   omap_getd [] (outgoingReferences (the (updateNoteReferences (buildReferenceProjection sample_references)
     ''b'' [tag_ref ''x'']))) ''b'' = [tag_ref ''x'']"
proof -
  have "distinct (map nr_noteId sample_references)" by code_simp
  from update_is_local [OF build_ok [OF this], of "''b''" "[tag_ref ''x'']"]
  show ?thesis by (auto split: option.splits)
qed

end
