(* ===== verification/Strings.thy ===== *)
theory Strings
  imports Prelude
begin

text \<open>
  The string operations of the JavaScript library the components share: \<open>trim\<close>, UTF-8
  length, decimal printing and reading, and \<open>padStart\<close>.
\<close>

text \<open>\<open>trim\<close> strips the white space among the first 256 code units.\<close>

definition js_space :: "char \<Rightarrow> bool" where
  "js_space c \<longleftrightarrow> (9 \<le> (of_char c :: nat) \<and> (of_char c :: nat) \<le> 13) \<or> of_char c = (32 :: nat) \<or> of_char c = (160 :: nat)"

definition js_trim :: "string \<Rightarrow> string" where
  "js_trim s = rev (dropWhile js_space (rev (dropWhile js_space s)))"

text \<open>UTF-8 length: code units from 128 to 255 take two bytes.\<close>

definition byteLength :: "string \<Rightarrow> nat" where
  "byteLength s = sum_list (map (\<lambda>c. if (of_char c :: nat) < 128 then 1 else 2) s)"

fun nat_digits :: "nat \<Rightarrow> string" where
  "nat_digits n = (let d = char_of (48 + n mod 10 :: nat) in if n < 10 then [d] else nat_digits (n div 10) @ [d])"

declare nat_digits.simps [simp del]

text \<open>\<open>`${n}`\<close> for an integer.\<close>

definition int_string :: "int \<Rightarrow> string" where
  "int_string n = (if n < 0 then CHR ''-'' # nat_digits (nat (- n)) else nat_digits (nat n))"

definition padStart :: "nat \<Rightarrow> string \<Rightarrow> string" where
  "padStart width s = replicate (width - length s) (CHR ''0'') @ s"

definition is_digit :: "char \<Rightarrow> bool" where
  "is_digit c \<longleftrightarrow> CHR ''0'' \<le> c \<and> c \<le> CHR ''9''"

definition digit_value :: "char \<Rightarrow> nat" where
  "digit_value c = of_char c - 48"

definition digits_value :: "string \<Rightarrow> nat" where
  "digits_value s = fold (\<lambda>c n. 10 * n + digit_value c) s 0"

lemma digit_char:
  assumes "n < 10"
  shows "is_digit (char_of (48 + n :: nat)) \<and> digit_value (char_of (48 + n :: nat)) = n"
proof -
  have "n = 0 \<or> n = 1 \<or> n = 2 \<or> n = 3 \<or> n = 4 \<or> n = 5 \<or> n = 6 \<or> n = 7 \<or> n = 8 \<or> n = 9"
    using assms by arith
  then show ?thesis by (elim disjE) (simp_all add: is_digit_def digit_value_def less_eq_char_def)
qed

lemma nat_digits_digits: "list_all is_digit (nat_digits n)"
proof (induction n rule: nat_digits.induct)
  case (1 n)
  have "is_digit (char_of (48 + n mod 10 :: nat))" using digit_char [of "n mod 10"] by simp
  with 1 show ?case by (cases "n < 10") (simp_all add: nat_digits.simps [of n] Let_def)
qed

lemma digits_value_snoc: "digits_value (s @ [c]) = 10 * digits_value s + digit_value c"
  by (simp add: digits_value_def)

text \<open>Reading back what was printed, with any zero padding in front.\<close>

lemma digits_value_nat_digits [simp]: "digits_value (nat_digits n) = n"
proof (induction n rule: nat_digits.induct)
  case (1 n)
  have d: "digit_value (char_of (48 + n mod 10 :: nat)) = n mod 10" using digit_char [of "n mod 10"] by simp
  show ?case
  proof (cases "n < 10")
    case True
    with d show ?thesis by (simp add: nat_digits.simps [of n] Let_def digits_value_def)
  next
    case False
    with 1 d have "digits_value (nat_digits n) = 10 * (n div 10) + n mod 10"
      by (simp add: nat_digits.simps [of n] Let_def digits_value_snoc)
    then show ?thesis by simp
  qed
qed

lemma digits_value_zeros [simp]: "digits_value (replicate k (CHR ''0'') @ s) = digits_value s"
proof (induction k)
  case (Suc k)
  have "digit_value (CHR ''0'') = 0" by (simp add: digit_value_def)
  with Suc show ?case by (simp add: digits_value_def)
qed simp

lemma digits_value_pad [simp]: "digits_value (padStart w (nat_digits n)) = n"
  by (simp add: padStart_def)

lemma padStart_digits: "list_all is_digit s \<Longrightarrow> list_all is_digit (padStart w s)"
  by (auto simp: padStart_def list_all_iff is_digit_def less_eq_char_def)

lemma nat_digits_length: "n < 10 ^ k \<Longrightarrow> 0 < k \<Longrightarrow> length (nat_digits n) \<le> k"
proof (induction n arbitrary: k rule: nat_digits.induct)
  case (1 n)
  show ?case
  proof (cases "n < 10")
    case True
    with 1 show ?thesis by (simp add: nat_digits.simps [of n] Let_def)
  next
    case False
    with "1.prems" obtain k' where k: "k = Suc k'" "0 < k'" by (cases k; cases "k - 1") auto
    from "1.prems"(1) have "n div 10 < 10 ^ k'" unfolding k by (simp add: less_mult_imp_div_less mult.commute)
    with "1.IH" [OF refl False this k(2)] False show ?thesis
      by (simp add: nat_digits.simps [of n] Let_def k(1))
  qed
qed

lemma padStart_length: "length s \<le> w \<Longrightarrow> length (padStart w s) = w"
  by (simp add: padStart_def)

lemma padded_length: "n < 10 ^ w \<Longrightarrow> 0 < w \<Longrightarrow> length (padStart w (nat_digits n)) = w"
  by (rule padStart_length) (rule nat_digits_length)

end
