(* ===== verification/Property_Values.thy ===== *)
theory Property_Values
  imports Contracts Strings
begin

text \<open>
  \<open>properties/value.ts\<close>: the validating normalizers of untyped note-property input. A throw of
  \<open>PropertyValidationError\<close> is \<open>Inl issues\<close>, with the issues' text and order as the code
  collects them.
\<close>

section \<open>Identifiers and numbers\<close>

definition id_char :: "char \<Rightarrow> bool" where
  "id_char c \<longleftrightarrow> (CHR ''A'' \<le> c \<and> c \<le> CHR ''Z'') \<or> (CHR ''a'' \<le> c \<and> c \<le> CHR ''z'') \<or>
     (CHR ''0'' \<le> c \<and> c \<le> CHR ''9'') \<or> c = CHR ''_'' \<or> c = CHR ''-''"

definition is_integer :: "number \<Rightarrow> bool" where
  "is_integer x \<longleftrightarrow> of_int \<lfloor>x\<rfloor> = x"

definition MAX_SAFE_INTEGER :: number where
  "MAX_SAFE_INTEGER = 9007199254740991"

definition is_safe_integer :: "number \<Rightarrow> bool" where
  "is_safe_integer x \<longleftrightarrow> is_integer x \<and> \<bar>x\<bar> \<le> MAX_SAFE_INTEGER"

section \<open>Limits and names\<close>

definition MAX_ID_BYTES :: nat where "MAX_ID_BYTES = 128"
definition MAX_NAME_BYTES :: nat where "MAX_NAME_BYTES = 80"
definition MAX_VALUE_BYTES :: nat where "MAX_VALUE_BYTES = 2000"
definition MAX_PROPERTY_OPTIONS :: nat where "MAX_PROPERTY_OPTIONS = 64"
definition MAX_NOTE_PROPERTIES :: nat where "MAX_NOTE_PROPERTIES = 64"

fun type_name :: "property_type \<Rightarrow> string" where
  "type_name PText = ''text''"
| "type_name PNumber = ''number''"
| "type_name PDate = ''date''"
| "type_name PSelect = ''select''"
| "type_name PMultiSelect = ''multi-select''"
| "type_name PPerson = ''person''"
| "type_name PUrl = ''url''"
| "type_name PCheckbox = ''checkbox''"
| "type_name PRating = ''rating''"
| "type_name PLocation = ''location''"
| "type_name PEmail = ''email''"
| "type_name PPhone = ''phone''"

definition NOTE_PROPERTY_TYPES :: "property_type list" where
  "NOTE_PROPERTY_TYPES = [PText, PNumber, PDate, PSelect, PMultiSelect, PPerson, PUrl, PCheckbox,
     PRating, PLocation, PEmail, PPhone]"

fun color_name :: "property_color \<Rightarrow> string" where
  "color_name CGray = ''gray''"
| "color_name CStone = ''stone''"
| "color_name CAmber = ''amber''"
| "color_name CGreen = ''green''"
| "color_name CBlue = ''blue''"
| "color_name CTeal = ''teal''"
| "color_name CRose = ''rose''"
| "color_name CRed = ''red''"

definition NOTE_PROPERTY_COLORS :: "property_color list" where
  "NOTE_PROPERTY_COLORS = [CGray, CStone, CAmber, CGreen, CBlue, CTeal, CRose, CRed]"

definition type_of_name :: "string \<Rightarrow> property_type option" where
  "type_of_name s = find (\<lambda>t. type_name t = s) NOTE_PROPERTY_TYPES"

definition color_of_name :: "string \<Rightarrow> property_color option" where
  "color_of_name s = find (\<lambda>c. color_name c = s) NOTE_PROPERTY_COLORS"

lemma type_of_name_name [simp]: "type_of_name (type_name t) = Some t"
  by (cases t) (simp_all add: type_of_name_def NOTE_PROPERTY_TYPES_def)

lemma color_of_name_name [simp]: "color_of_name (color_name c) = Some c"
  by (cases c) (simp_all add: color_of_name_def NOTE_PROPERTY_COLORS_def)

section \<open>Errors\<close>

type_synonym issues = "string list"
type_synonym 'a validated = "issues + 'a"

fun bind_validated :: "'a validated \<Rightarrow> ('a \<Rightarrow> 'b validated) \<Rightarrow> 'b validated" where
  "bind_validated (Inl e) f = Inl e"
| "bind_validated (Inr x) f = f x"

definition check :: "bool \<Rightarrow> string \<Rightarrow> 'a validated \<Rightarrow> 'a validated" where
  "check refuse message result = (if refuse then Inl [message] else result)"

fun validate_each :: "('a \<Rightarrow> 'b validated) \<Rightarrow> 'a list \<Rightarrow> 'b list validated" where
  "validate_each f [] = Inr []"
| "validate_each f (x # xs) =
     bind_validated (f x) (\<lambda>y. bind_validated (validate_each f xs) (\<lambda>ys. Inr (y # ys)))"

lemma bind_validated_Inr:
  "bind_validated r f = Inr y \<longleftrightarrow> (\<exists>x. r = Inr x \<and> f x = Inr y)"
  by (cases r) auto

lemma check_Inr [simp]: "check refuse message result = Inr x \<longleftrightarrow> \<not> refuse \<and> result = Inr x"
  by (simp add: check_def)

lemma validate_each_Inr: "validate_each f xs = Inr ys \<longleftrightarrow> list_all2 (\<lambda>x y. f x = Inr y) xs ys"
  by (induction xs arbitrary: ys) (auto simp: bind_validated_Inr list_all2_Cons1)

lemma validate_each_member:
  "validate_each f xs = Inr ys \<Longrightarrow> y \<in> set ys \<Longrightarrow> \<exists>x \<in> set xs. f x = Inr y"
  by (induction xs arbitrary: ys) (auto simp: bind_validated_Inr)

section \<open>Readers\<close>

definition valid_id :: "string \<Rightarrow> bool" where
  "valid_id s \<longleftrightarrow> s \<noteq> [] \<and> byteLength s \<le> MAX_ID_BYTES \<and> list_all id_char s"

definition isValidId :: "json option \<Rightarrow> bool" where
  "isValidId v = (case json_string v of None \<Rightarrow> False | Some s \<Rightarrow> valid_id s)"

definition readId :: "json option \<Rightarrow> string \<Rightarrow> issues \<times> string" where
  "readId v label = (if isValidId v then ([], the (json_string v)) else ([label @ '' is invalid''], []))"

definition readName :: "json option \<Rightarrow> string \<Rightarrow> nat \<Rightarrow> issues \<times> string" where
  "readName v label maximum =
     (case json_string v of
        None \<Rightarrow> ([label @ '' cannot be empty''], [])
      | Some s \<Rightarrow>
          if js_trim s = [] then ([label @ '' cannot be empty''], [])
          else ((if byteLength s > maximum then [label @ '' is too long''] else []), s))"

fun json_number :: "json option \<Rightarrow> number option" where
  "json_number (Some (JNum x)) = Some x"
| "json_number _ = None"

definition readPosition :: "json option \<Rightarrow> string \<Rightarrow> issues \<times> number" where
  "readPosition v label =
     (case json_number v of
        None \<Rightarrow> ([label @ '' position must be a non-negative integer''], 0)
      | Some x \<Rightarrow>
          if is_safe_integer x \<and> 0 \<le> x then ([], x)
          else ([label @ '' position must be a non-negative integer''], 0))"

definition duplicates :: "'a list \<Rightarrow> string \<Rightarrow> issues" where
  "duplicates values label =
     (if length (oset_from values) = length values then [] else [label @ '' contain duplicates''])"

definition is_record :: "json \<Rightarrow> bool" where
  "is_record v = (case v of JObj _ \<Rightarrow> True | _ \<Rightarrow> False)"

definition validateIdList :: "json option \<Rightarrow> string \<Rightarrow> issues" where
  "validateIdList v label =
     (case json_is_array v of
        None \<Rightarrow> [label @ '' value must be an array'']
      | Some xs \<Rightarrow>
          (if length xs > MAX_PROPERTY_OPTIONS then [label @ '' value exceeds 64 entries''] else []) @
          concat (map (\<lambda>(i, x). if isValidId (Some x) then []
            else [label @ '' value '' @ nat_digits i @ '' is not a valid ID'']) (List.enumerate 0 xs)) @
          duplicates (map (\<lambda>x. the (json_string (Some x))) (filter (\<lambda>x. isValidId (Some x)) xs))
            (label @ '' value IDs''))"

text \<open>The loop over an array that reports every string member missing from a set.\<close>

definition unknown_members :: "json option \<Rightarrow> string list \<Rightarrow> string \<Rightarrow> issues" where
  "unknown_members v known message =
     (case json_is_array v of
        None \<Rightarrow> []
      | Some xs \<Rightarrow> concat (map (\<lambda>x. case x of
            JStr s \<Rightarrow> if s \<notin> set known then [message @ s] else []
          | _ \<Rightarrow> []) xs))"

section \<open>Values\<close>

fun emptyNotePropertyValue :: "property_type \<Rightarrow> property_value" where
  "emptyNotePropertyValue PNumber = VNumber None"
| "emptyNotePropertyValue PSelect = VSelect None"
| "emptyNotePropertyValue PMultiSelect = VMultiSelect []"
| "emptyNotePropertyValue PPerson = VPerson []"
| "emptyNotePropertyValue PCheckbox = VCheckbox False"
| "emptyNotePropertyValue PRating = VRating None"
| "emptyNotePropertyValue PText = VText []"
| "emptyNotePropertyValue PDate = VDate []"
| "emptyNotePropertyValue PUrl = VUrl []"
| "emptyNotePropertyValue PLocation = VLocation []"
| "emptyNotePropertyValue PEmail = VEmail []"
| "emptyNotePropertyValue PPhone = VPhone []"

text \<open>The issues the switch over the value's type reports. \<open>personIds\<close> is
  \<open>context.personIds ?? new Set()\<close>.\<close>

definition text_issues :: "property_type \<Rightarrow> json option \<Rightarrow> issues" where
  "text_issues type v =
     (case json_string v of
        None \<Rightarrow> [type_name type @ '' value must be a string'']
      | Some s \<Rightarrow> if byteLength s > MAX_VALUE_BYTES then [type_name type @ '' value is too long''] else [])"

definition value_issues :: "property_type \<Rightarrow> json option \<Rightarrow> string list \<Rightarrow> string list \<Rightarrow> issues" where
  "value_issues type v optionIds personIds =
     (case type of
        PNumber \<Rightarrow>
          (if v = Some JNull \<or> json_number v \<noteq> None then [] else [''number value must be finite or null''])
      | PSelect \<Rightarrow>
          (if v \<noteq> Some JNull \<and> \<not> isValidId v then [''select value must be an option ID or null'']
           else case json_string v of
               None \<Rightarrow> []
             | Some s \<Rightarrow> if s \<notin> set optionIds then [''select value references unknown option '' @ s] else [])
      | PMultiSelect \<Rightarrow>
          validateIdList v ''multi-select'' @
          unknown_members v optionIds ''multi-select value references unknown option ''
      | PPerson \<Rightarrow>
          validateIdList v ''person'' @ unknown_members v personIds ''person value references unknown person ''
      | PCheckbox \<Rightarrow>
          (case v of Some (JBool _) \<Rightarrow> [] | _ \<Rightarrow> [''checkbox value must be boolean''])
      | PRating \<Rightarrow>
          (if v = Some JNull then []
           else case json_number v of
               None \<Rightarrow> [''rating value must be an integer from 0 through 5 or null'']
             | Some x \<Rightarrow> if is_integer x \<and> 0 \<le> x \<and> x \<le> 5 then []
                 else [''rating value must be an integer from 0 through 5 or null''])
      | _ \<Rightarrow> text_issues type v)"

text \<open>The value of a given type, read from JSON the switch accepted.\<close>

definition json_strings :: "json option \<Rightarrow> string list" where
  "json_strings v = (case json_is_array v of None \<Rightarrow> []
     | Some xs \<Rightarrow> map (\<lambda>x. case x of JStr s \<Rightarrow> s | _ \<Rightarrow> []) xs)"

definition typed_value :: "property_type \<Rightarrow> json option \<Rightarrow> property_value" where
  "typed_value type v =
     (let s = (case json_string v of None \<Rightarrow> [] | Some s \<Rightarrow> s)
      in case type of
           PText \<Rightarrow> VText s | PDate \<Rightarrow> VDate s | PUrl \<Rightarrow> VUrl s | PLocation \<Rightarrow> VLocation s
         | PEmail \<Rightarrow> VEmail s | PPhone \<Rightarrow> VPhone s
         | PNumber \<Rightarrow> VNumber (json_number v)
         | PSelect \<Rightarrow> VSelect (json_string v)
         | PMultiSelect \<Rightarrow> VMultiSelect (json_strings v)
         | PPerson \<Rightarrow> VPerson (json_strings v)
         | PCheckbox \<Rightarrow> VCheckbox (v = Some (JBool True))
         | PRating \<Rightarrow> VRating (json_number v))"

definition normalizeNotePropertyValue :: "json option \<Rightarrow> property_option list \<Rightarrow> string list option \<Rightarrow>
    property_value validated" where
  "normalizeNotePropertyValue input options personIds =
     (case input of
        Some (JObj entries) \<Rightarrow>
          let version = (if map_of entries ''valueVersion'' = Some (JNum 1) then []
                else [''property value version must be 1'']);
              type = (case json_string (map_of entries ''type'') of None \<Rightarrow> None | Some s \<Rightarrow> type_of_name s);
              issues = version @ (if type = None then [''property value type is unsupported''] else [])
          in if issues \<noteq> [] then Inl issues
             else
               let v = map_of entries ''value'';
                   found = value_issues (the type) v (map o_id options)
                     (case personIds of None \<Rightarrow> [] | Some ids \<Rightarrow> ids)
               in if found \<noteq> [] then Inl found else Inr (typed_value (the type) v)
      | _ \<Rightarrow> Inl [''property value must be an object''])"

section \<open>Fields\<close>

definition normalize_option :: "nat \<Rightarrow> json \<Rightarrow> issues \<times> property_option list" where
  "normalize_option index entry =
     (let label = ''property option '' @ nat_digits index
      in if \<not> is_record entry then ([label @ '' must be an object''], [])
         else
           let (e1, i) = readId (json_field ''id'' entry) (label @ '' ID'');
               (e2, name) = readName (json_field ''label'' entry) (label @ '' label'') MAX_NAME_BYTES
           in case json_string (json_field ''color'' entry) of
               None \<Rightarrow> (e1 @ e2 @ [label @ '' color is unsupported''], [])
             | Some s \<Rightarrow> (case color_of_name s of
                   None \<Rightarrow> (e1 @ e2 @ [label @ '' color is unsupported''], [])
                 | Some c \<Rightarrow> (e1 @ e2, [\<lparr>o_id = i, o_label = name, o_color = c\<rparr>])))"

definition normalizeOptions :: "json option \<Rightarrow> issues \<times> property_option list" where
  "normalizeOptions v =
     (case json_is_array v of
        None \<Rightarrow> ([''property options must be an array''], [])
      | Some xs \<Rightarrow>
          let results = map (\<lambda>(i, x). normalize_option i x) (List.enumerate 0 xs);
              options = concat (map snd results)
          in ((if length xs > MAX_PROPERTY_OPTIONS then [''property options exceed 64 entries''] else []) @
              concat (map fst results) @ duplicates (map o_id options) ''property option IDs'', options))"

fun owns_options :: "property_type \<Rightarrow> bool" where
  "owns_options PSelect = True"
| "owns_options PMultiSelect = True"
| "owns_options _ = False"

definition normalizeNotePropertyField :: "json \<Rightarrow> string list option \<Rightarrow> property_field validated" where
  "normalizeNotePropertyField input personIds =
     (if \<not> is_record input then Inl [''property must be an object'']
      else
        let (e1, i) = readId (json_field ''id'' input) ''property ID'';
            (e2, name) = readName (json_field ''name'' input) ''property name'' MAX_NAME_BYTES;
            (e3, position) = readPosition (json_field ''position'' input) ''property'';
            (e4, options) = normalizeOptions (json_field ''options'' input)
        in if e1 @ e2 @ e3 @ e4 \<noteq> [] then Inl (e1 @ e2 @ e3 @ e4)
           else bind_validated (normalizeNotePropertyValue (json_field ''value'' input) options personIds)
             (\<lambda>v. check (\<not> owns_options (value_type v) \<and> options \<noteq> [])
                (type_name (value_type v) @ '' properties cannot own options'')
                (Inr \<lparr>f_id = i, f_name = name, f_value = v, f_options = options, f_position = position\<rparr>)))"

definition position_cmp :: "property_field \<Rightarrow> property_field \<Rightarrow> number" where
  "position_cmp l r = f_position l - f_position r"

definition normalizeNotePropertyFields :: "json \<Rightarrow> string list option \<Rightarrow> property_field list validated" where
  "normalizeNotePropertyFields input personIds =
     (case input of
        JArr xs \<Rightarrow>
          check (length xs > MAX_NOTE_PROPERTIES) ''properties exceed 64 entries''
            (bind_validated (validate_each (\<lambda>x. normalizeNotePropertyField x personIds) xs)
              (\<lambda>fields.
                if duplicates (map f_id fields) ''property IDs'' \<noteq> []
                then Inl (duplicates (map f_id fields) ''property IDs'')
                else if duplicates (map f_position fields) ''property positions'' \<noteq> []
                then Inl (duplicates (map f_position fields) ''property positions'')
                else check (list_ex (\<lambda>(i, p). p \<noteq> of_nat i)
                       (List.enumerate 0 (js_sort (\<lambda>l r. l - r) (map f_position fields))))
                     ''property positions must be contiguous from zero''
                     (Inr (js_sort position_cmp fields))))
      | _ \<Rightarrow> Inl [''properties must be an array''])"

section \<open>Typed values as the JSON they are\<close>

text \<open>The normalizers are also handed typed values; these are the objects those values are.\<close>

definition id_json :: "string option \<Rightarrow> json" where
  "id_json v = (case v of None \<Rightarrow> JNull | Some s \<Rightarrow> JStr s)"

definition number_json :: "number option \<Rightarrow> json" where
  "number_json v = (case v of None \<Rightarrow> JNull | Some x \<Rightarrow> JNum x)"

fun payload_json :: "property_value \<Rightarrow> json" where
  "payload_json (VText s) = JStr s"
| "payload_json (VNumber x) = number_json x"
| "payload_json (VDate s) = JStr s"
| "payload_json (VSelect s) = id_json s"
| "payload_json (VMultiSelect xs) = JArr (map JStr xs)"
| "payload_json (VPerson xs) = JArr (map JStr xs)"
| "payload_json (VUrl s) = JStr s"
| "payload_json (VCheckbox b) = JBool b"
| "payload_json (VRating x) = number_json x"
| "payload_json (VLocation s) = JStr s"
| "payload_json (VEmail s) = JStr s"
| "payload_json (VPhone s) = JStr s"

definition value_json :: "property_value \<Rightarrow> json" where
  "value_json v = JObj [(''valueVersion'', JNum 1), (''type'', JStr (type_name (value_type v))),
     (''value'', payload_json v)]"

definition option_object :: "property_option \<Rightarrow> json" where
  "option_object opt = JObj [(''id'', JStr (o_id opt)), (''label'', JStr (o_label opt)),
     (''color'', JStr (color_name (o_color opt)))]"

definition field_json :: "property_field \<Rightarrow> json" where
  "field_json f = JObj [(''id'', JStr (f_id f)), (''name'', JStr (f_name f)), (''value'', value_json (f_value f)),
     (''options'', JArr (map option_object (f_options f))), (''position'', JNum (f_position f))]"

end
