(* ===== verification/Properties.thy ===== *)
theory Properties
  imports Property_Values
begin

text \<open>
  \<open>properties/operations.ts\<close> and \<open>properties/templates.ts\<close>: editing the ordered properties of a
  note, the options of a property, and the property templates. \<open>cloneProperty\<close> and
  \<open>cloneTemplate\<close> copy, so they are the identity on values. An id factory is a stateful
  source of strings, passed in by the caller.
\<close>

type_synonym note_properties = "note_property list"

datatype id_kind = PropertyId | OptionId

type_synonym 's id_factory = "'s \<Rightarrow> id_kind \<Rightarrow> string \<times> 's"

section \<open>Assertions\<close>

definition assertNoteId :: "string \<Rightarrow> 'a validated \<Rightarrow> 'a validated" where
  "assertNoteId noteId result =
     check (noteId = [] \<or> byteLength noteId > 128 \<or> \<not> list_all id_char noteId) ''note ID is invalid'' result"

definition assertSingleOwner :: "note_properties \<Rightarrow> string \<Rightarrow> 'a validated \<Rightarrow> 'a validated" where
  "assertSingleOwner properties fallback result =
     assertNoteId fallback
       (check (list_ex (\<lambda>p. p_noteId p \<noteq> fallback) properties) ''properties contain a foreign note owner'' result)"

definition assertCompleteOrder :: "string list \<Rightarrow> string list \<Rightarrow> string \<Rightarrow> 'a validated \<Rightarrow> 'a validated" where
  "assertCompleteOrder currentIds orderedIds label result =
     check (length orderedIds \<noteq> length currentIds) (label @ '' reorder must contain the complete ID set'')
       (check (length (oset_from orderedIds) \<noteq> length orderedIds) (label @ '' reorder contains duplicate IDs'')
         (check (list_ex (\<lambda>i. i \<notin> set currentIds) orderedIds) (label @ '' reorder contains foreign IDs'') result))"

definition assertOptionOwner :: "property_type \<Rightarrow> 'a validated \<Rightarrow> 'a validated" where
  "assertOptionOwner type result =
     check (\<not> owns_options type) (type_name type @ '' properties cannot own options'') result"

definition required :: "'a option \<Rightarrow> string \<Rightarrow> 'a validated" where
  "required v message = (case v of None \<Rightarrow> Inl [message] | Some x \<Rightarrow> Inr x)"

section \<open>Properties of a note\<close>

definition upper_first :: "string \<Rightarrow> string" where
  "upper_first s = (case s of [] \<Rightarrow> []
     | c # cs \<Rightarrow> (if CHR ''a'' \<le> c \<and> c \<le> CHR ''z'' then char_of ((of_char c :: nat) - 32) else c) # cs)"

definition defaultPropertyName :: "property_type \<Rightarrow> string" where
  "defaultPropertyName type =
     (if type = PMultiSelect then ''Multi-select'' else upper_first (type_name type))"

definition normalize_owned :: "note_property \<Rightarrow> string list option \<Rightarrow> note_property validated" where
  "normalize_owned property personIds =
     bind_validated (normalizeNotePropertyField (field_json (p_field property)) personIds)
       (\<lambda>field. Inr \<lparr>p_noteId = p_noteId property, p_field = field\<rparr>)"

definition createNoteProperty :: "string \<Rightarrow> property_type \<Rightarrow> 's id_factory \<Rightarrow> 's \<Rightarrow> string option \<Rightarrow> number \<Rightarrow>
    note_property validated \<times> 's" where
  "createNoteProperty noteId type idFactory s name position =
     (case assertNoteId noteId (Inr ()) of
        Inl e \<Rightarrow> (Inl e, s)
      | Inr _ \<Rightarrow>
          let (i, s') = idFactory s PropertyId;
              field = \<lparr>f_id = i, f_name = (case name of None \<Rightarrow> defaultPropertyName type | Some n \<Rightarrow> n),
                f_value = emptyNotePropertyValue type, f_options = [], f_position = position\<rparr>
          in (normalize_owned \<lparr>p_noteId = noteId, p_field = field\<rparr> None, s'))"

definition changeNotePropertyType :: "note_property \<Rightarrow> property_type \<Rightarrow> note_property" where
  "changeNotePropertyType property type =
     property\<lparr>p_field := (p_field property)\<lparr>f_value := emptyNotePropertyValue type, f_options := []\<rparr>\<rparr>"

definition upsertNoteProperty :: "note_properties \<Rightarrow> note_property \<Rightarrow> string list option \<Rightarrow> note_properties validated" where
  "upsertNoteProperty properties property personIds =
     assertSingleOwner properties (p_noteId property)
       (bind_validated (normalize_owned property personIds)
         (\<lambda>entry.
           case find_index (\<lambda>e. p_id e = p_id property) properties of
             None \<Rightarrow>
               check (p_position entry \<noteq> of_nat (length properties))
                 ''new property position must append to the ordered set'' (Inr (properties @ [entry]))
           | Some index \<Rightarrow>
               check (p_position entry \<noteq> p_position (properties ! index))
                 ''setting a property cannot reorder it'' (Inr (properties[index := entry]))))"

definition at_position :: "note_property \<Rightarrow> nat \<Rightarrow> note_property" where
  "at_position p i = p\<lparr>p_field := (p_field p)\<lparr>f_position := of_nat i\<rparr>\<rparr>"

definition renumber :: "note_properties \<Rightarrow> note_properties" where
  "renumber ps = map (\<lambda>(i, p). at_position p i) (List.enumerate 0 ps)"

definition removeNoteProperty :: "note_properties \<Rightarrow> string \<Rightarrow> note_properties validated" where
  "removeNoteProperty properties propertyId =
     check (\<not> list_ex (\<lambda>p. p_id p = propertyId) properties) (''unknown property '' @ propertyId)
       (Inr (renumber (filter (\<lambda>p. p_id p \<noteq> propertyId) properties)))"

definition reorderNoteProperties :: "note_properties \<Rightarrow> string list \<Rightarrow> note_properties validated" where
  "reorderNoteProperties properties orderedIds =
     assertCompleteOrder (map p_id properties) orderedIds ''property''
       (let byId = omap_from p_id (\<lambda>p. p) properties
        in bind_validated
             (validate_each (\<lambda>i. required (omap_get byId i) (''unknown property '' @ i)) orderedIds)
             (\<lambda>ps. Inr (renumber ps)))"

section \<open>Options of a property\<close>

definition with_options :: "note_property \<Rightarrow> property_option list \<Rightarrow> note_property" where
  "with_options property options = property\<lparr>p_field := (p_field property)\<lparr>f_options := options\<rparr>\<rparr>"

definition with_value :: "note_property \<Rightarrow> property_value \<Rightarrow> note_property" where
  "with_value property v = property\<lparr>p_field := (p_field property)\<lparr>f_value := v\<rparr>\<rparr>"

abbreviation p_options :: "note_property \<Rightarrow> property_option list" where
  "p_options p \<equiv> f_options (p_field p)"

abbreviation p_value :: "note_property \<Rightarrow> property_value" where
  "p_value p \<equiv> f_value (p_field p)"

definition upsertPropertyOption :: "note_property \<Rightarrow> property_option \<Rightarrow> note_property validated" where
  "upsertPropertyOption property opt =
     assertOptionOwner (value_type (p_value property))
       (let options = (case find_index (\<lambda>e. o_id e = o_id opt) (p_options property) of
             None \<Rightarrow> p_options property @ [opt]
           | Some index \<Rightarrow> (p_options property)[index := opt])
        in normalize_owned (with_options property options) None)"

definition createPropertyOption :: "note_property \<Rightarrow> string \<Rightarrow> property_color \<Rightarrow> 's id_factory \<Rightarrow> 's \<Rightarrow>
    note_property validated \<times> 's" where
  "createPropertyOption property label color idFactory s =
     (let (i, s') = idFactory s OptionId
      in (upsertPropertyOption property \<lparr>o_id = i, o_label = label, o_color = color\<rparr>, s'))"

fun drop_option :: "string \<Rightarrow> property_value \<Rightarrow> property_value" where
  "drop_option optionId (VSelect v) = VSelect (if v = Some optionId then None else v)"
| "drop_option optionId (VMultiSelect ids) = VMultiSelect (filter (\<lambda>i. i \<noteq> optionId) ids)"
| "drop_option optionId v = v"

definition removePropertyOption :: "note_property \<Rightarrow> string \<Rightarrow> note_property validated" where
  "removePropertyOption property optionId =
     assertOptionOwner (value_type (p_value property))
       (check (\<not> list_ex (\<lambda>opt. o_id opt = optionId) (p_options property))
         (''unknown property option '' @ optionId)
         (normalize_owned
           (with_options (with_value property (drop_option optionId (p_value property)))
             (filter (\<lambda>opt. o_id opt \<noteq> optionId) (p_options property))) None))"

definition reorderPropertyOptions :: "note_property \<Rightarrow> string list \<Rightarrow> note_property validated" where
  "reorderPropertyOptions property orderedIds =
     assertOptionOwner (value_type (p_value property))
       (assertCompleteOrder (map o_id (p_options property)) orderedIds ''property option''
         (let byId = omap_from o_id (\<lambda>opt. opt) (p_options property)
          in bind_validated
               (validate_each (\<lambda>i. required (omap_get byId i) (''unknown option '' @ i)) orderedIds)
               (\<lambda>options. normalize_owned (with_options property options) None)))"

definition replacePropertyValue :: "note_property \<Rightarrow> property_value \<Rightarrow> string list option \<Rightarrow> note_property validated" where
  "replacePropertyValue property v personIds = normalize_owned (with_value property v) personIds"

definition normalizeOwnedProperties :: "note_properties \<Rightarrow> string list option \<Rightarrow> note_properties validated" where
  "normalizeOwnedProperties properties personIds =
     (case properties of
        [] \<Rightarrow> Inr []
      | p # _ \<Rightarrow>
          assertSingleOwner properties (p_noteId p)
            (bind_validated
              (normalizeNotePropertyFields (JArr (map (\<lambda>q. field_json (p_field q)) properties)) personIds)
              (\<lambda>entries. Inr (map (\<lambda>f. \<lparr>p_noteId = p_noteId p, p_field = f\<rparr>) entries))))"

section \<open>Templates\<close>

definition template_field :: "string \<Rightarrow> string \<Rightarrow> property_type \<Rightarrow> (string \<times> property_color) list \<Rightarrow> property_field" where
  "template_field i name type options =
     \<lparr>f_id = i, f_name = name, f_value = emptyNotePropertyValue type,
      f_options = map (\<lambda>(n, label, color).
        \<lparr>o_id = i @ ''_option_'' @ nat_digits n, o_label = label, o_color = color\<rparr>) (List.enumerate 0 options),
      f_position = 0\<rparr>"

definition template :: "string \<Rightarrow> string \<Rightarrow> number \<Rightarrow> property_field list \<Rightarrow> property_template" where
  "template i name position properties =
     \<lparr>t_id = i, t_name = name, t_position = position,
      t_properties = map (\<lambda>(n, f). f\<lparr>f_position := of_nat n\<rparr>) (List.enumerate 0 properties)\<rparr>"

definition BUILT_IN_PROPERTY_TEMPLATES :: "property_template list" where
  "BUILT_IN_PROPERTY_TEMPLATES =
     [template ''blank'' ''Blank'' 0 [],
      template ''meeting'' ''Meeting'' 1
        [template_field ''meeting_date'' ''Date'' PDate [],
         template_field ''meeting_attendees'' ''Attendees'' PPerson [],
         template_field ''meeting_status'' ''Status'' PSelect
           [(''Scheduled'', CBlue), (''In progress'', CAmber), (''Done'', CGreen)],
         template_field ''meeting_location'' ''Location'' PLocation []],
      template ''project'' ''Project'' 2
        [template_field ''project_status'' ''Status'' PSelect
           [(''Backlog'', CGray), (''Planned'', CBlue), (''Active'', CAmber), (''Shipped'', CGreen)],
         template_field ''project_priority'' ''Priority'' PSelect
           [(''Low'', CGray), (''Medium'', CAmber), (''High'', CRed)],
         template_field ''project_owner'' ''Owner'' PPerson [],
         template_field ''project_due'' ''Due'' PDate [],
         template_field ''project_tags'' ''Tags'' PMultiSelect [],
         template_field ''project_link'' ''Link'' PUrl []],
      template ''contact'' ''Contact'' 3
        [template_field ''contact_email'' ''Email'' PEmail [],
         template_field ''contact_phone'' ''Phone'' PPhone [],
         template_field ''contact_company'' ''Company'' PText [],
         template_field ''contact_location'' ''Location'' PLocation []],
      template ''journal'' ''Journal'' 4
        [template_field ''journal_date'' ''Date'' PDate [],
         template_field ''journal_mood'' ''Mood'' PSelect
           [(''Great'', CGreen), (''Good'', CTeal), (''Okay'', CAmber), (''Low'', CRose)],
         template_field ''journal_energy'' ''Energy'' PRating []],
      template ''idea'' ''Idea'' 5
        [template_field ''idea_status'' ''Status'' PSelect
           [(''Draft'', CGray), (''Exploring'', CBlue), (''Shipped'', CGreen)],
         template_field ''idea_category'' ''Category'' PSelect
           [(''Product'', CTeal), (''Writing'', CAmber), (''Personal'', CRose)],
         template_field ''idea_priority'' ''Priority'' PSelect
           [(''Low'', CGray), (''Medium'', CAmber), (''High'', CRed)],
         template_field ''idea_tags'' ''Tags'' PMultiSelect []],
      template ''reading'' ''Reading'' 6
        [template_field ''reading_author'' ''Author'' PText [],
         template_field ''reading_source'' ''Source'' PUrl [],
         template_field ''reading_rating'' ''Rating'' PRating [],
         template_field ''reading_status'' ''Status'' PSelect
           [(''To read'', CGray), (''Reading'', CAmber), (''Read'', CGreen)]]]"

fun remapOptionValue :: "property_value \<Rightarrow> (string, string) omap \<Rightarrow> property_value validated" where
  "remapOptionValue (VSelect v) optionIds =
     Inr (VSelect (case v of None \<Rightarrow> None | Some i \<Rightarrow> omap_get optionIds i))"
| "remapOptionValue (VMultiSelect ids) optionIds =
     bind_validated
       (validate_each (\<lambda>i. required (case omap_get optionIds i of Some m \<Rightarrow> if m = [] then None else Some m | None \<Rightarrow> None)
          (''template references unknown option '' @ i)) ids)
       (\<lambda>mapped. Inr (VMultiSelect mapped))"
| "remapOptionValue v optionIds = Inr v"

text \<open>One fresh option id per option, recorded from old to new.\<close>

fun fresh_options :: "'s id_factory \<Rightarrow> 's \<Rightarrow> property_option list \<Rightarrow> (string, string) omap \<Rightarrow>
    property_option list \<times> (string, string) omap \<times> 's" where
  "fresh_options idFactory s [] ids = ([], ids, s)"
| "fresh_options idFactory s (opt # options) ids =
     (let (i, s') = idFactory s OptionId;
          (rest, ids', s'') = fresh_options idFactory s' options (omap_set (o_id opt) i ids)
      in (opt\<lparr>o_id := i\<rparr> # rest, ids', s''))"

definition instantiate_field :: "'s id_factory \<Rightarrow> 's \<Rightarrow> property_field \<Rightarrow> property_field validated \<times> 's" where
  "instantiate_field idFactory s property =
     (let (options, ids, s') = fresh_options idFactory s (f_options property) [];
          (i, s'') = idFactory s' PropertyId
      in (bind_validated (remapOptionValue (f_value property) ids)
            (\<lambda>v. Inr (property\<lparr>f_id := i, f_options := options, f_value := v\<rparr>)), s''))"

fun instantiate_fields :: "'s id_factory \<Rightarrow> 's \<Rightarrow> property_field list \<Rightarrow> property_field list validated \<times> 's" where
  "instantiate_fields idFactory s [] = (Inr [], s)"
| "instantiate_fields idFactory s (f # fs) =
     (case instantiate_field idFactory s f of
        (Inl e, s') \<Rightarrow> (Inl e, s')
      | (Inr g, s') \<Rightarrow>
          (case instantiate_fields idFactory s' fs of
             (Inl e, s'') \<Rightarrow> (Inl e, s'')
           | (Inr gs, s'') \<Rightarrow> (Inr (g # gs), s'')))"

definition fields_json :: "property_field list \<Rightarrow> json" where
  "fields_json fs = JArr (map field_json fs)"

definition instantiatePropertyTemplate :: "property_template \<Rightarrow> string \<Rightarrow> 's id_factory \<Rightarrow> 's \<Rightarrow>
    note_properties validated \<times> 's" where
  "instantiatePropertyTemplate templateValue noteId idFactory s =
     (if noteId = [] then (Inl [''note ID cannot be empty''], s)
      else (case normalizeNotePropertyFields (fields_json (t_properties templateValue)) None of
          Inl e \<Rightarrow> (Inl e, s)
        | Inr normalized \<Rightarrow>
            (case instantiate_fields idFactory s normalized of
               (Inl e, s') \<Rightarrow> (Inl e, s')
             | (Inr instantiated, s') \<Rightarrow>
                 (bind_validated (normalizeNotePropertyFields (fields_json instantiated) None)
                    (\<lambda>fs. Inr (map (\<lambda>f. \<lparr>p_noteId = noteId, p_field = f\<rparr>) fs)), s'))))"

definition normalizeTemplate :: "property_template \<Rightarrow> property_template validated" where
  "normalizeTemplate templateValue =
     check (t_id templateValue = [] \<or> byteLength (t_id templateValue) > 128 \<or> \<not> list_all id_char (t_id templateValue))
       ''property template ID is invalid''
       (check (js_trim (t_name templateValue) = []) ''property template name cannot be empty''
         (check (byteLength (t_name templateValue) > 60) ''property template name is too long''
           (check (\<not> is_safe_integer (t_position templateValue) \<or> t_position templateValue < 0)
             ''property template position must be non-negative''
             (bind_validated (normalizeNotePropertyFields (fields_json (t_properties templateValue)) None)
               (\<lambda>fs. Inr (templateValue\<lparr>t_properties := fs\<rparr>))))))"

definition upsertPropertyTemplate :: "property_template list \<Rightarrow> property_template \<Rightarrow> property_template list validated" where
  "upsertPropertyTemplate templates templateValue =
     bind_validated (normalizeTemplate templateValue)
       (\<lambda>normalized.
         case find_index (\<lambda>e. t_id e = t_id normalized) templates of
           None \<Rightarrow>
             check (t_position normalized \<noteq> of_nat (length templates))
               ''new template position must append to the ordered set'' (Inr (templates @ [normalized]))
         | Some index \<Rightarrow>
             check (t_position normalized \<noteq> t_position (templates ! index))
               ''setting a template cannot reorder it'' (Inr (templates[index := normalized])))"

definition renumber_templates :: "property_template list \<Rightarrow> property_template list" where
  "renumber_templates ts = map (\<lambda>(i, t). t\<lparr>t_position := of_nat i\<rparr>) (List.enumerate 0 ts)"

definition deletePropertyTemplate :: "property_template list \<Rightarrow> string \<Rightarrow> property_template list validated" where
  "deletePropertyTemplate templates templateId =
     check (\<not> list_ex (\<lambda>t. t_id t = templateId) templates) (''unknown property template '' @ templateId)
       (Inr (renumber_templates (filter (\<lambda>t. t_id t \<noteq> templateId) templates)))"

definition reorderPropertyTemplates :: "property_template list \<Rightarrow> string list \<Rightarrow> property_template list validated" where
  "reorderPropertyTemplates templates orderedIds =
     check (length orderedIds \<noteq> length templates \<or> length (oset_from orderedIds) \<noteq> length orderedIds \<or>
         list_ex (\<lambda>i. i \<notin> set (map t_id templates)) orderedIds)
       ''template reorder must contain each owned ID exactly once''
       (let byId = omap_from t_id (\<lambda>t. t) templates
        in bind_validated
             (validate_each (\<lambda>i. required (omap_get byId i) (''unknown property template '' @ i)) orderedIds)
             (\<lambda>ts. Inr (renumber_templates ts)))"

end
