(* ===== verification/Property_Theorems.thy ===== *)
theory Property_Theorems
  imports Properties
begin

text \<open>
  The specification of valid values, options and fields, and the two halves of the normalizers'
  contract: what they accept is valid, and a valid field passes through unchanged. The ordered set of
  a note stays contiguous and duplicate-free under every edit, options leave no dangling references,
  and the built-in templates are valid.
\<close>

section \<open>The specification\<close>

definition id_list_ok :: "string list \<Rightarrow> string list \<Rightarrow> bool" where
  "id_list_ok ids known \<longleftrightarrow> length ids \<le> MAX_PROPERTY_OPTIONS \<and> list_all valid_id ids \<and> distinct ids \<and>
     list_all (\<lambda>i. i \<in> set known) ids"

fun value_ok :: "string list \<Rightarrow> string list \<Rightarrow> property_value \<Rightarrow> bool" where
  "value_ok optionIds personIds (VSelect v) \<longleftrightarrow>
     (case v of None \<Rightarrow> True | Some i \<Rightarrow> valid_id i \<and> i \<in> set optionIds)"
| "value_ok optionIds personIds (VMultiSelect ids) \<longleftrightarrow> id_list_ok ids optionIds"
| "value_ok optionIds personIds (VPerson ids) \<longleftrightarrow> id_list_ok ids personIds"
| "value_ok optionIds personIds (VRating v) \<longleftrightarrow>
     (case v of None \<Rightarrow> True | Some x \<Rightarrow> is_integer x \<and> 0 \<le> x \<and> x \<le> 5)"
| "value_ok optionIds personIds (VNumber v) \<longleftrightarrow> True"
| "value_ok optionIds personIds (VCheckbox b) \<longleftrightarrow> True"
| "value_ok optionIds personIds (VText s) \<longleftrightarrow> byteLength s \<le> MAX_VALUE_BYTES"
| "value_ok optionIds personIds (VDate s) \<longleftrightarrow> byteLength s \<le> MAX_VALUE_BYTES"
| "value_ok optionIds personIds (VUrl s) \<longleftrightarrow> byteLength s \<le> MAX_VALUE_BYTES"
| "value_ok optionIds personIds (VLocation s) \<longleftrightarrow> byteLength s \<le> MAX_VALUE_BYTES"
| "value_ok optionIds personIds (VEmail s) \<longleftrightarrow> byteLength s \<le> MAX_VALUE_BYTES"
| "value_ok optionIds personIds (VPhone s) \<longleftrightarrow> byteLength s \<le> MAX_VALUE_BYTES"

definition name_ok :: "string \<Rightarrow> bool" where
  "name_ok s \<longleftrightarrow> js_trim s \<noteq> [] \<and> byteLength s \<le> MAX_NAME_BYTES"

definition option_ok :: "property_option \<Rightarrow> bool" where
  "option_ok opt \<longleftrightarrow> valid_id (o_id opt) \<and> name_ok (o_label opt)"

definition options_ok :: "property_option list \<Rightarrow> bool" where
  "options_ok options \<longleftrightarrow> length options \<le> MAX_PROPERTY_OPTIONS \<and> list_all option_ok options \<and>
     distinct (map o_id options)"

definition persons :: "string list option \<Rightarrow> string list" where
  "persons ids = (case ids of None \<Rightarrow> [] | Some xs \<Rightarrow> xs)"

definition field_ok :: "string list option \<Rightarrow> property_field \<Rightarrow> bool" where
  "field_ok personIds f \<longleftrightarrow> valid_id (f_id f) \<and> name_ok (f_name f) \<and>
     is_safe_integer (f_position f) \<and> 0 \<le> f_position f \<and> options_ok (f_options f) \<and>
     value_ok (map o_id (f_options f)) (persons personIds) (f_value f) \<and>
     (owns_options (value_type (f_value f)) \<or> f_options f = [])"

definition numbered :: "(nat \<Rightarrow> 'a \<Rightarrow> bool) \<Rightarrow> 'a list \<Rightarrow> bool" where
  "numbered P xs \<longleftrightarrow> list_all (\<lambda>(i, x). P i x) (List.enumerate 0 xs)"

definition fields_ok :: "string list option \<Rightarrow> property_field list \<Rightarrow> bool" where
  "fields_ok personIds fs \<longleftrightarrow> length fs \<le> MAX_NOTE_PROPERTIES \<and> list_all (field_ok personIds) fs \<and>
     distinct (map f_id fs) \<and> numbered (\<lambda>i f. f_position f = of_nat i) fs"

section \<open>Duplicates\<close>

lemma oset_from_length_iff: "length (oset_from xs) = length xs \<longleftrightarrow> distinct xs"
proof
  assume "length (oset_from xs) = length xs"
  moreover have "card (set xs) = length (oset_from xs)"
    using distinct_card [OF oset_from_distinct, of xs] by simp
  ultimately show "distinct xs" by (simp add: card_distinct)
qed (simp add: oset_from_id)

lemma duplicates_iff [simp]: "duplicates xs label = [] \<longleftrightarrow> distinct xs"
  by (simp add: duplicates_def oset_from_length_iff)

section \<open>Values\<close>

lemma isValidId_Some: "isValidId v \<longleftrightarrow> (\<exists>s. v = Some (JStr s) \<and> valid_id s)"
  unfolding isValidId_def by (cases v rule: json_string.cases) auto

lemma concat_empty_enumerate:
  "concat (map (\<lambda>(i, x). if P x then [] else [f i]) (List.enumerate n xs)) = [] \<longleftrightarrow> list_all P xs"
  by (induction xs arbitrary: n) auto

lemma validateIdList_empty:
  "validateIdList v label = [] \<longleftrightarrow>
    (\<exists>ids. v = Some (JArr (map JStr ids)) \<and> length ids \<le> MAX_PROPERTY_OPTIONS \<and> list_all valid_id ids \<and> distinct ids)"
proof
  assume e: "validateIdList v label = []"
  then obtain xs where v: "v = Some (JArr xs)"
    by (cases v rule: json_is_array.cases) (simp_all add: validateIdList_def)
  from e have xs: "length xs \<le> MAX_PROPERTY_OPTIONS" "list_all (\<lambda>x. isValidId (Some x)) xs"
    and d: "distinct (map (\<lambda>x. the (json_string (Some x))) (filter (\<lambda>x. isValidId (Some x)) xs))"
    by (auto simp: validateIdList_def v concat_empty_enumerate simp del: concat_eq_Nil_conv split: if_splits)
  let ?ids = "map (\<lambda>x. the (json_string (Some x))) xs"
  have "filter (\<lambda>x. isValidId (Some x)) xs = xs" using xs(2) by (simp add: filter_id_conv list_all_iff)
  moreover have "xs = map JStr ?ids"
    using xs(2) by (induction xs) (auto simp: isValidId_Some)
  moreover have "list_all valid_id ?ids" using xs(2) by (auto simp: list_all_iff isValidId_Some)
  ultimately show "\<exists>ids. v = Some (JArr (map JStr ids)) \<and> length ids \<le> MAX_PROPERTY_OPTIONS \<and>
      list_all valid_id ids \<and> distinct ids"
    using v xs(1) d by (intro exI [of _ ?ids]) simp
next
  assume "\<exists>ids. v = Some (JArr (map JStr ids)) \<and> length ids \<le> MAX_PROPERTY_OPTIONS \<and>
      list_all valid_id ids \<and> distinct ids"
  then obtain ids where v: "v = Some (JArr (map JStr ids))" "length ids \<le> MAX_PROPERTY_OPTIONS"
      "list_all valid_id ids" "distinct ids" by blast
  have all: "list_all (\<lambda>x. isValidId (Some x)) (map JStr ids)"
    using v(3) by (simp add: list_all_iff isValidId_Some)
  then have "filter (\<lambda>x. isValidId (Some x)) (map JStr ids) = map JStr ids"
    by (simp add: filter_id_conv list_all_iff)
  moreover have "map (\<lambda>x. the (json_string (Some x))) (map JStr ids) = ids" by (induction ids) simp_all
  ultimately show "validateIdList v label = []"
    using v all by (simp add: validateIdList_def concat_empty_enumerate del: concat_eq_Nil_conv)
qed

lemma unknown_members_empty:
  "unknown_members (Some (JArr (map JStr ids))) known m = [] \<longleftrightarrow> list_all (\<lambda>i. i \<in> set known) ids"
  by (induction ids) (auto simp: unknown_members_def)

lemma id_list_issues:
  "validateIdList v label @ unknown_members v known m = [] \<longleftrightarrow>
    (\<exists>ids. v = Some (JArr (map JStr ids)) \<and> id_list_ok ids known)"
  by (auto simp: validateIdList_empty unknown_members_empty id_list_ok_def)

lemma json_strings_array [simp]: "json_strings (Some (JArr (map JStr ids))) = ids"
  by (induction ids) (simp_all add: json_strings_def)

lemma text_issues_empty:
  "text_issues type v = [] \<longleftrightarrow> (\<exists>s. v = Some (JStr s) \<and> byteLength s \<le> MAX_VALUE_BYTES)"
  by (cases v rule: json_string.cases) (auto simp: text_issues_def)

lemma rating_issues_empty:
  "value_issues PRating v optionIds personIds = [] \<longleftrightarrow>
    (\<exists>x. v = Some (number_json x) \<and> (case x of None \<Rightarrow> True | Some x \<Rightarrow> is_integer x \<and> 0 \<le> x \<and> x \<le> 5))"
  by (cases v rule: json_number.cases) (auto simp: value_issues_def number_json_def split: option.splits)

lemma number_issues_empty:
  "value_issues PNumber v optionIds personIds = [] \<longleftrightarrow> (\<exists>x. v = Some (number_json x))"
  by (cases v rule: json_number.cases) (auto simp: value_issues_def number_json_def split: option.splits)

lemma select_issues_empty:
  "value_issues PSelect v optionIds personIds = [] \<longleftrightarrow>
    (\<exists>i. v = Some (id_json i) \<and> (case i of None \<Rightarrow> True | Some i \<Rightarrow> valid_id i \<and> i \<in> set optionIds))"
  by (cases v rule: json_string.cases)
    (auto simp: value_issues_def id_json_def isValidId_Some split: option.splits)

lemma checkbox_issues_empty:
  "value_issues PCheckbox v optionIds personIds = [] \<longleftrightarrow> (\<exists>b. v = Some (JBool b))"
  by (auto simp: value_issues_def split: option.splits json.splits)

lemma list_issues_empty:
  "value_issues PMultiSelect v optionIds personIds = [] \<longleftrightarrow>
    (\<exists>ids. v = Some (JArr (map JStr ids)) \<and> id_list_ok ids optionIds)"
  "value_issues PPerson v optionIds personIds = [] \<longleftrightarrow>
    (\<exists>ids. v = Some (JArr (map JStr ids)) \<and> id_list_ok ids personIds)"
  unfolding value_issues_def property_type.case by (rule id_list_issues)+

lemma json_number_number [simp]: "json_number (Some (number_json x)) = x"
  by (cases x) (simp_all add: number_json_def)

lemma json_string_id [simp]: "json_string (Some (id_json x)) = x"
  by (cases x) (simp_all add: id_json_def)

lemma typed_value_payload [simp]: "typed_value (value_type pv) (Some (payload_json pv)) = pv"
  by (cases pv) (simp_all add: typed_value_def)

lemmas switch_issues = list_issues_empty select_issues_empty rating_issues_empty number_issues_empty
  checkbox_issues_empty

text \<open>The switch accepts exactly the payloads of valid values of the type.\<close>

lemma value_issues_typed:
  "value_issues type v optionIds personIds = [] \<Longrightarrow>
    value_type (typed_value type v) = type \<and> v = Some (payload_json (typed_value type v)) \<and>
    value_ok optionIds personIds (typed_value type v)"
  by (cases type)
    (auto simp: switch_issues typed_value_def, simp_all add: value_issues_def text_issues_empty, auto)

lemma value_issues_empty:
  "value_issues type v optionIds personIds = [] \<longleftrightarrow>
    (\<exists>pv. value_type pv = type \<and> v = Some (payload_json pv) \<and> value_ok optionIds personIds pv)"
proof
  assume "value_issues type v optionIds personIds = []"
  then show "\<exists>pv. value_type pv = type \<and> v = Some (payload_json pv) \<and> value_ok optionIds personIds pv"
    using value_issues_typed by blast
next
  assume "\<exists>pv. value_type pv = type \<and> v = Some (payload_json pv) \<and> value_ok optionIds personIds pv"
  then obtain pv where pv: "type = value_type pv" "v = Some (payload_json pv)" "value_ok optionIds personIds pv"
    by blast
  then show "value_issues type v optionIds personIds = []"
    by (cases pv) (auto simp: switch_issues, simp_all add: value_issues_def text_issues_empty)
qed

lemma type_of_name_Some: "type_of_name s = Some t \<Longrightarrow> s = type_name t"
  by (auto simp: type_of_name_def find_Some_iff)

text \<open>What a value normalizes to is valid, and a valid value normalizes to itself.\<close>

lemma normalize_value_sound:
  "normalizeNotePropertyValue input options personIds = Inr pv \<Longrightarrow>
    value_ok (map o_id options) (persons personIds) pv"
  by (auto simp: normalizeNotePropertyValue_def Let_def persons_def value_issues_empty
      split: option.splits json.splits if_splits)

lemma normalize_value_complete:
  assumes "value_ok (map o_id options) (persons personIds) pv"
  shows "normalizeNotePropertyValue (Some (value_json pv)) options personIds = Inr pv"
proof -
  have "value_issues (value_type pv) (Some (payload_json pv)) (map o_id options) (persons personIds) = []"
    using assms by (auto simp: value_issues_empty)
  then show ?thesis
    by (simp add: normalizeNotePropertyValue_def value_json_def Let_def persons_def)
qed

section \<open>Options and fields\<close>

lemma readId_Nil: "fst (readId v label) = [] \<longleftrightarrow> isValidId v"
  by (simp add: readId_def)

lemma readId_value: "fst (readId v label) = [] \<Longrightarrow> v = Some (JStr (snd (readId v label))) \<and> valid_id (snd (readId v label))"
  by (auto simp: readId_def isValidId_Some split: if_splits)

lemma readName_value: "fst (readName v label MAX_NAME_BYTES) = [] \<Longrightarrow>
    v = Some (JStr (snd (readName v label MAX_NAME_BYTES))) \<and> name_ok (snd (readName v label MAX_NAME_BYTES))"
  by (cases v rule: json_string.cases) (auto simp: readName_def name_ok_def split: if_splits)

lemma readPosition_value: "fst (readPosition v label) = [] \<Longrightarrow>
    is_safe_integer (snd (readPosition v label)) \<and> 0 \<le> snd (readPosition v label)"
  by (auto simp: readPosition_def split: option.splits if_splits)

lemma read_valid:
  "valid_id s \<Longrightarrow> readId (Some (JStr s)) label = ([], s)"
  "name_ok s \<Longrightarrow> readName (Some (JStr s)) label MAX_NAME_BYTES = ([], s)"
  "is_safe_integer x \<Longrightarrow> 0 \<le> x \<Longrightarrow> readPosition (Some (JNum x)) label = ([], x)"
  by (simp_all add: readId_def isValidId_Some readName_def name_ok_def readPosition_def)

lemma normalize_option_sound:
  "normalize_option i entry = ([], opts) \<Longrightarrow> list_all option_ok opts \<and> length opts = 1"
proof -
  assume r: "normalize_option i entry = ([], opts)"
  then have rec: "is_record entry" by (auto simp: normalize_option_def Let_def split: if_splits)
  let ?label = "''property option '' @ nat_digits i"
  let ?i = "readId (json_field ''id'' entry) (?label @ '' ID'')"
  let ?n = "readName (json_field ''label'' entry) (?label @ '' label'') MAX_NAME_BYTES"
  from r rec obtain c where e: "fst ?i = []" "fst ?n = []" and opts:
    "opts = [\<lparr>o_id = snd ?i, o_label = snd ?n, o_color = c\<rparr>]"
    by (auto simp: normalize_option_def Let_def case_prod_beta split: option.splits if_splits)
  from readId_value [OF e(1)] readName_value [OF e(2)] show ?thesis
    by (simp add: opts option_ok_def)
qed

lemma normalize_option_complete:
  "option_ok opt \<Longrightarrow> normalize_option i (option_object opt) = ([], [opt])"
  by (simp add: normalize_option_def option_object_def is_record_def option_ok_def read_valid Let_def)

lemma enumerate_results:
  assumes "concat (map fst (map (\<lambda>(i, x). normalize_option i x) (List.enumerate n xs))) = []"
  shows "list_all option_ok (concat (map snd (map (\<lambda>(i, x). normalize_option i x) (List.enumerate n xs)))) \<and>
    length (concat (map snd (map (\<lambda>(i, x). normalize_option i x) (List.enumerate n xs)))) = length xs"
  using assms
proof (induction xs arbitrary: n)
  case Nil
  then show ?case by simp
next
  case (Cons x xs)
  have "normalize_option n x = ([], snd (normalize_option n x))"
    using Cons.prems by (cases "normalize_option n x") simp
  from normalize_option_sound [OF this] Cons.IH [of "Suc n"] Cons.prems show ?case by simp
qed

lemma normalizeOptions_sound: "fst (normalizeOptions v) = [] \<Longrightarrow> options_ok (snd (normalizeOptions v))"
proof (cases "json_is_array v")
  case (Some xs)
  assume e: "fst (normalizeOptions v) = []"
  let ?r = "map (\<lambda>(i, x). normalize_option i x) (List.enumerate 0 xs)"
  from e Some have "length xs \<le> MAX_PROPERTY_OPTIONS" "concat (map fst ?r) = []"
      "distinct (map o_id (concat (map snd ?r)))"
    by (auto simp: normalizeOptions_def Let_def simp del: concat_eq_Nil_conv map_concat split: if_splits)
  with enumerate_results [of 0 xs] Some show ?thesis
    by (simp add: options_ok_def normalizeOptions_def Let_def del: concat_eq_Nil_conv map_map)
qed (simp add: normalizeOptions_def)

lemma enumerate_objects:
  "list_all option_ok opts \<Longrightarrow>
    map (\<lambda>(i, x). normalize_option i x) (List.enumerate n (map option_object opts)) = map (\<lambda>opt. ([], [opt])) opts"
  by (induction opts arbitrary: n) (simp_all add: normalize_option_complete)

lemma normalizeOptions_complete:
  "options_ok opts \<Longrightarrow> normalizeOptions (Some (JArr (map option_object opts))) = ([], opts)"
  by (simp add: normalizeOptions_def options_ok_def enumerate_objects Let_def o_def concat_map_singleton
      del: map_map) (simp add: o_def)

lemma normalize_field_sound:
  assumes r: "normalizeNotePropertyField input personIds = Inr f"
  shows "field_ok personIds f"
proof -
  have rec: "is_record input" using r by (auto simp: normalizeNotePropertyField_def split: if_splits)
  let ?i = "readId (json_field ''id'' input) ''property ID''"
  let ?n = "readName (json_field ''name'' input) ''property name'' MAX_NAME_BYTES"
  let ?p = "readPosition (json_field ''position'' input) ''property''"
  let ?o = "normalizeOptions (json_field ''options'' input)"
  from r rec obtain v where e: "fst ?i = []" "fst ?n = []" "fst ?p = []" "fst ?o = []"
    and v: "normalizeNotePropertyValue (json_field ''value'' input) (snd ?o) personIds = Inr v"
      "owns_options (value_type v) \<or> snd ?o = []"
    and f: "f = \<lparr>f_id = snd ?i, f_name = snd ?n, f_value = v, f_options = snd ?o, f_position = snd ?p\<rparr>"
    by (auto simp: normalizeNotePropertyField_def Let_def case_prod_beta bind_validated_Inr split: if_splits)
  from readId_value [OF e(1)] readName_value [OF e(2)] readPosition_value [OF e(3)]
    normalizeOptions_sound [OF e(4)] normalize_value_sound [OF v(1)] v(2)
  show ?thesis by (simp add: field_ok_def f)
qed

lemma field_json_fields:
  "json_field ''id'' (field_json f) = Some (JStr (f_id f))"
  "json_field ''name'' (field_json f) = Some (JStr (f_name f))"
  "json_field ''value'' (field_json f) = Some (value_json (f_value f))"
  "json_field ''options'' (field_json f) = Some (JArr (map option_object (f_options f)))"
  "json_field ''position'' (field_json f) = Some (JNum (f_position f))"
  "is_record (field_json f)"
  by (simp_all add: field_json_def is_record_def)

lemma normalize_field_complete:
  "field_ok personIds f \<Longrightarrow> normalizeNotePropertyField (field_json f) personIds = Inr f"
  by (auto simp: normalizeNotePropertyField_def field_json_fields field_ok_def read_valid
      normalizeOptions_complete normalize_value_complete Let_def check_def)

text \<open>Nothing is rewritten: a typed field that is accepted comes back as it was.\<close>

lemma read_same:
  "fst (readId (Some (JStr s)) label) = [] \<Longrightarrow> snd (readId (Some (JStr s)) label) = s"
  "fst (readName (Some (JStr s)) label m) = [] \<Longrightarrow> snd (readName (Some (JStr s)) label m) = s"
  "fst (readPosition (Some (JNum x)) label') = [] \<Longrightarrow> snd (readPosition (Some (JNum x)) label') = x"
  by (auto simp: readId_def readName_def readPosition_def split: if_splits)

lemma normalize_option_same:
  "fst (normalize_option i (option_object opt)) = [] \<Longrightarrow> normalize_option i (option_object opt) = ([], [opt])"
  by (auto simp: normalize_option_def option_object_def is_record_def Let_def case_prod_beta read_same)

lemma normalize_options_same:
  "fst (normalizeOptions (Some (JArr (map option_object opts)))) = [] \<Longrightarrow>
    snd (normalizeOptions (Some (JArr (map option_object opts)))) = opts"
proof -
  have "concat (map fst (map (\<lambda>(i, x). normalize_option i x) (List.enumerate n (map option_object opts)))) = [] \<Longrightarrow>
      concat (map snd (map (\<lambda>(i, x). normalize_option i x) (List.enumerate n (map option_object opts)))) = opts" for n
    by (induction opts arbitrary: n) (auto simp: normalize_option_same)
  from this [of 0] show "fst (normalizeOptions (Some (JArr (map option_object opts)))) = [] \<Longrightarrow>
    snd (normalizeOptions (Some (JArr (map option_object opts)))) = opts"
    by (simp add: normalizeOptions_def Let_def del: concat_eq_Nil_conv map_map)
qed

lemma normalize_value_same:
  "normalizeNotePropertyValue (Some (value_json v)) options personIds = Inr w \<Longrightarrow> w = v"
  by (auto simp: normalizeNotePropertyValue_def value_json_def Let_def split: if_splits)

lemma normalize_field_iff:
  "normalizeNotePropertyField (field_json f) personIds = Inr g \<longleftrightarrow> g = f \<and> field_ok personIds f"
proof
  assume r: "normalizeNotePropertyField (field_json f) personIds = Inr g"
  let ?i = "readId (Some (JStr (f_id f))) ''property ID''"
  let ?n = "readName (Some (JStr (f_name f))) ''property name'' MAX_NAME_BYTES"
  let ?p = "readPosition (Some (JNum (f_position f))) ''property''"
  let ?o = "normalizeOptions (Some (JArr (map option_object (f_options f))))"
  from r obtain v where e: "fst ?i = []" "fst ?n = []" "fst ?p = []" "fst ?o = []"
    and v: "normalizeNotePropertyValue (Some (value_json (f_value f))) (snd ?o) personIds = Inr v"
    and g: "g = \<lparr>f_id = snd ?i, f_name = snd ?n, f_value = v, f_options = snd ?o, f_position = snd ?p\<rparr>"
    by (auto simp: normalizeNotePropertyField_def field_json_fields Let_def case_prod_beta
        bind_validated_Inr split: if_splits)
  have "g = f"
    unfolding g read_same(1) [OF e(1)] read_same(2) [OF e(2)] read_same(3) [OF e(3)]
      normalize_options_same [OF e(4)] normalize_value_same [OF v] by simp
  with normalize_field_sound [OF r] show "g = f \<and> field_ok personIds f" by simp
qed (simp add: normalize_field_complete)

section \<open>Ordered field sets\<close>

lemma numbered_Cons_snoc:
  "numbered P [] " "numbered P (xs @ [x]) \<longleftrightarrow> numbered P xs \<and> P (length xs) x"
  by (simp_all add: numbered_def enumerate_append_eq)

lemma numbered_nth: "numbered P xs \<longleftrightarrow> (\<forall>i < length xs. P i (xs ! i))"
  by (induction xs rule: rev_induct) (auto simp: numbered_Cons_snoc nth_append less_Suc_eq)

interpretation positions: comparator position_cmp f_position
  by unfold_locales (auto simp: position_cmp_def)

lemma numbered_sorted:
  assumes "numbered (\<lambda>i f. f_position f = of_nat i) fs"
  shows "js_sort position_cmp fs = fs"
proof (rule positions.sort_idem)
  show "sorted_wrt (\<lambda>x y. position_cmp x y \<le> 0) fs"
    using assms by (auto simp: sorted_wrt_iff_nth_less numbered_nth position_cmp_def)
qed

lemma numbered_distinct:
  assumes "numbered (\<lambda>i f. f_position f = of_nat i) fs"
  shows "distinct (map f_position fs)"
  using assms by (auto simp: distinct_conv_nth numbered_nth)

lemma normalize_fields_sound:
  assumes r: "normalizeNotePropertyFields input personIds = Inr fs"
  shows "fields_ok personIds fs"
proof -
  from r obtain xs where xs: "input = JArr xs" by (cases input) (auto simp: normalizeNotePropertyFields_def)
  from r obtain gs where gs: "validate_each (\<lambda>x. normalizeNotePropertyField x personIds) xs = Inr gs"
    and len: "length xs \<le> MAX_NOTE_PROPERTIES" and d: "distinct (map f_id gs)"
    and pos: "\<not> list_ex (\<lambda>(i, p). p \<noteq> of_nat i) (List.enumerate 0 (js_sort (\<lambda>l r. l - r) (map f_position gs)))"
    and fs: "fs = js_sort position_cmp gs"
    by (auto simp: xs normalizeNotePropertyFields_def bind_validated_Inr split: if_splits)
  have ok: "\<forall>f \<in> set gs. field_ok personIds f"
    using validate_each_member [OF gs] normalize_field_sound by blast
  have "map f_position fs = js_sort (\<lambda>l r. l - r) (map f_position gs)"
    unfolding fs by (rule js_sort_map) (simp add: position_cmp_def)
  with pos have "numbered (\<lambda>i p. p = of_nat i) (map f_position fs)"
    by (auto simp: numbered_def list_ex_iff list_all_iff)
  then have "numbered (\<lambda>i f. f_position f = of_nat i) fs" by (simp add: numbered_nth)
  moreover have "length fs \<le> MAX_NOTE_PROPERTIES"
    using len gs by (auto simp: fs validate_each_Inr dest: list_all2_lengthD)
  ultimately show ?thesis using ok d by (simp add: fields_ok_def fs list_all_iff)
qed

lemma normalize_fields_complete:
  assumes ok: "fields_ok personIds fs"
  shows "normalizeNotePropertyFields (fields_json fs) personIds = Inr fs"
proof -
  have each: "validate_each (\<lambda>x. normalizeNotePropertyField x personIds) (map field_json fs) = Inr fs"
    using ok by (auto simp: validate_each_Inr list_all2_conv_all_nth fields_ok_def list_all_length
        intro: normalize_field_complete)
  have n: "numbered (\<lambda>i f. f_position f = of_nat i) fs" using ok by (simp add: fields_ok_def)
  have "map f_position (js_sort position_cmp fs) = js_sort (\<lambda>l r. l - r) (map f_position fs)"
    by (rule js_sort_map) (simp add: position_cmp_def)
  then have "js_sort (\<lambda>l r. l - r) (map f_position fs) = map f_position fs"
    by (simp add: numbered_sorted [OF n])
  moreover have "\<not> list_ex (\<lambda>(i, p). p \<noteq> of_nat i) (List.enumerate 0 (map f_position fs))"
    using n by (auto simp: list_ex_iff in_set_enumerate_eq numbered_nth)
  ultimately show ?thesis
    using ok each numbered_distinct [OF n] numbered_sorted [OF n]
    by (simp add: normalizeNotePropertyFields_def fields_json_def fields_ok_def check_def)
qed

section \<open>The ordered properties of a note\<close>

definition owned_ok :: "string list option \<Rightarrow> string \<Rightarrow> note_properties \<Rightarrow> bool" where
  "owned_ok personIds noteId ps \<longleftrightarrow> list_all (\<lambda>p. p_noteId p = noteId \<and> field_ok personIds (p_field p)) ps \<and>
     distinct (map p_id ps) \<and> numbered (\<lambda>i p. p_position p = of_nat i) ps"

lemma of_nat_safe: "n < 2 ^ 53 \<Longrightarrow> is_safe_integer (of_nat n)"
proof -
  assume "n < 2 ^ 53"
  then have "(of_nat n :: number) \<le> of_nat (2 ^ 53 - 1)" by (simp only: of_nat_le_iff)
  then show ?thesis by (simp add: is_safe_integer_def is_integer_def MAX_SAFE_INTEGER_def)
qed

lemma field_ok_position:
  "field_ok personIds f \<Longrightarrow> field_ok personIds (f\<lparr>f_position := x\<rparr>) \<longleftrightarrow> is_safe_integer x \<and> 0 \<le> x"
  by (auto simp: field_ok_def)

lemma renumber_nth: "length (renumber ps) = length ps"
  "i < length ps \<Longrightarrow> renumber ps ! i = at_position (ps ! i) i"
  by (simp_all add: renumber_def nth_enumerate_eq)

lemma renumber_ids: "map p_id (renumber ps) = map p_id ps"
  by (rule nth_equalityI) (simp_all add: renumber_nth at_position_def)

lemma renumber_ok:
  assumes "list_all (\<lambda>p. p_noteId p = noteId \<and> field_ok personIds (p_field p)) ps"
    and "distinct (map p_id ps)" and "length ps \<le> 2 ^ 53"
  shows "owned_ok personIds noteId (renumber ps)"
proof -
  have "p_noteId (renumber ps ! i) = noteId \<and> field_ok personIds (p_field (renumber ps ! i)) \<and>
      p_position (renumber ps ! i) = of_nat i" if "i < length ps" for i
    using that assms(1,3) of_nat_safe [of i]
    by (auto simp: renumber_nth at_position_def list_all_length field_ok_position)
  then show ?thesis
    using assms(2) renumber_ids [of ps]
    by (auto simp: owned_ok_def list_all_length numbered_nth renumber_nth(1) simp del: map_eq_conv)
qed

lemma normalize_owned_Inr:
  "normalize_owned p personIds = Inr q \<longleftrightarrow> q = p \<and> field_ok personIds (p_field p)"
  by (cases p; cases q) (auto simp: normalize_owned_def bind_validated_Inr normalize_field_iff)

lemma assertNoteId_Inr: "assertNoteId noteId r = Inr x \<longleftrightarrow> valid_id noteId \<and> r = Inr x"
  by (auto simp: assertNoteId_def valid_id_def MAX_ID_BYTES_def)

lemma assertSingleOwner_Inr:
  "assertSingleOwner ps noteId r = Inr x \<longleftrightarrow>
    valid_id noteId \<and> list_all (\<lambda>p. p_noteId p = noteId) ps \<and> r = Inr x"
  by (auto simp: assertSingleOwner_def assertNoteId_Inr list_ex_iff list_all_iff)

lemma assertCompleteOrder_Inr:
  "distinct current \<Longrightarrow> assertCompleteOrder current ordered label r = Inr x \<longleftrightarrow>
    distinct ordered \<and> set ordered = set current \<and> r = Inr x"
proof -
  assume d: "distinct current"
  have "length ordered = length current \<and> distinct ordered \<and> (\<forall>i \<in> set ordered. i \<in> set current) \<longleftrightarrow>
      distinct ordered \<and> set ordered = set current"
    using d by (metis card_subset_eq distinct_card finite_set subsetI)
  then show ?thesis by (auto simp: assertCompleteOrder_def oset_from_length_iff list_ex_iff)
qed

lemma upsert_cases:
  assumes "owned_ok personIds noteId ps" and "upsertNoteProperty ps p personIds = Inr qs"
  shows "field_ok personIds (p_field p) \<and> list_all (\<lambda>e. p_noteId e = p_noteId p) ps \<and>
    (p_id p \<notin> p_id ` set ps \<and> p_position p = of_nat (length ps) \<and> qs = ps @ [p] \<or>
     (\<exists>i < length ps. p_id (ps ! i) = p_id p \<and> p_position p = of_nat i \<and> qs = ps[i := p]))"
proof -
  from assms(2) have f: "field_ok personIds (p_field p)" "list_all (\<lambda>e. p_noteId e = p_noteId p) ps"
    and r: "(case find_index (\<lambda>e. p_id e = p_id p) ps of
        None \<Rightarrow> p_position p = of_nat (length ps) \<and> qs = ps @ [p]
      | Some i \<Rightarrow> p_position p = p_position (ps ! i) \<and> qs = ps[i := p])"
    by (auto simp: upsertNoteProperty_def assertSingleOwner_Inr bind_validated_Inr normalize_owned_Inr
        split: option.splits)
  show ?thesis
  proof (cases "find_index (\<lambda>e. p_id e = p_id p) ps")
    case None
    with f r show ?thesis by (auto simp: find_index_None)
  next
    case (Some i)
    from find_index_Some [OF Some] have i: "i < length ps" "p_id (ps ! i) = p_id p" by auto
    moreover have "p_position (ps ! i) = of_nat i"
      using assms(1) i(1) by (simp add: owned_ok_def numbered_nth)
    ultimately show ?thesis using f r Some by auto
  qed
qed

lemma upsert_ok:
  assumes ok: "owned_ok personIds noteId ps" and own: "p_noteId p = noteId"
    and r: "upsertNoteProperty ps p personIds = Inr qs"
  shows "owned_ok personIds noteId qs"
proof -
  from upsert_cases [OF ok r] have f: "field_ok personIds (p_field p)" by blast
  from upsert_cases [OF ok r] consider
    (append) "p_id p \<notin> p_id ` set ps" "p_position p = of_nat (length ps)" "qs = ps @ [p]"
  | (replace) i where "i < length ps" "p_id (ps ! i) = p_id p" "p_position p = of_nat i" "qs = ps[i := p]"
    by blast
  then show ?thesis
  proof cases
    case append
    with ok own f show ?thesis by (auto simp: owned_ok_def numbered_Cons_snoc)
  next
    case replace
    then have "map p_id qs = map p_id ps"
      by (simp add: map_update) (metis list_update_id nth_map)
    with ok own f replace show ?thesis
      by (auto simp: owned_ok_def list_all_length numbered_nth nth_list_update simp del: map_eq_conv)
  qed
qed

text \<open>A safe last position bounds the number of properties.\<close>

lemma owned_length: "owned_ok personIds noteId ps \<Longrightarrow> length ps \<le> 2 ^ 53"
proof (cases ps rule: rev_cases)
  case (snoc qs q)
  assume "owned_ok personIds noteId ps"
  then have "is_safe_integer (of_nat (length qs))"
    by (auto simp: snoc owned_ok_def numbered_Cons_snoc field_ok_def)
  then have "(of_nat (length qs) :: number) \<le> of_nat (2 ^ 53 - 1)"
    by (simp add: is_safe_integer_def MAX_SAFE_INTEGER_def)
  then have "length qs \<le> 2 ^ 53 - 1" by (simp only: of_nat_le_iff)
  then show ?thesis by (simp add: snoc)
qed simp

lemma remove_ok:
  assumes ok: "owned_ok personIds noteId ps"
    and r: "removeNoteProperty ps i = Inr qs"
  shows "owned_ok personIds noteId qs"
proof -
  let ?k = "filter (\<lambda>p. p_id p \<noteq> i) ps"
  have "length ?k \<le> 2 ^ 53" using owned_length [OF ok] by (meson length_filter_le order_trans)
  moreover from r have "qs = renumber ?k" by (simp add: removeNoteProperty_def)
  moreover have "list_all (\<lambda>p. p_noteId p = noteId \<and> field_ok personIds (p_field p)) ?k" "distinct (map p_id ?k)"
    using ok by (auto simp: owned_ok_def list_all_iff distinct_map_filter)
  ultimately show ?thesis using renumber_ok by simp
qed

lemma omap_from_get:
  "distinct (map key xs) \<Longrightarrow> omap_get (omap_from key val xs) k =
    map_option val (find (\<lambda>x. key x = k) xs)"
proof -
  have "omap_get (fold (\<lambda>x m. omap_set (key x) (val x) m) xs m) k =
      (if k \<in> key ` set xs then map_option val (find (\<lambda>x. key x = k) xs) else omap_get m k)"
    if "distinct (map key xs)" for m
    using that by (induction xs arbitrary: m) (auto simp: find_None_iff)
  moreover assume "distinct (map key xs)"
  ultimately show ?thesis
    by (auto simp: omap_from_def find_None_iff)
qed

text \<open>Picking every element of a keyed list by an ordered list of keys.\<close>

lemma pick_all:
  assumes d: "distinct (map key xs)"
    and r: "validate_each (\<lambda>i. required (omap_get (omap_from key (\<lambda>x. x) xs) i) (m i)) ids = Inr ys"
  shows "map key ys = ids \<and> set ys \<subseteq> set xs"
proof -
  have "key y = i \<and> y \<in> set xs"
    if "required (omap_get (omap_from key (\<lambda>x. x) xs) i) (m i) = Inr y" for i y
    using that by (auto simp: required_def omap_from_get [OF d] find_Some_iff split: option.splits)
  with r show ?thesis unfolding validate_each_Inr by (induction rule: list_all2_induct) auto
qed

lemma pick_all_total:
  assumes d: "distinct (map key xs)" and sub: "set ids \<subseteq> key ` set xs"
  shows "\<exists>ys. validate_each (\<lambda>i. required (omap_get (omap_from key (\<lambda>x. x) xs) i) (m i)) ids = Inr ys"
  using sub
proof (induction ids)
  case (Cons i ids)
  then obtain x where x: "find (\<lambda>x. key x = i) xs = Some x"
    by (cases "find (\<lambda>x. key x = i) xs") (auto simp: find_None_iff)
  with Cons show ?case by (auto simp: required_def omap_from_get [OF d])
qed simp

lemma reorder_Inr:
  assumes ok: "owned_ok personIds noteId ps"
    and r: "reorderNoteProperties ps ids = Inr qs"
  shows "owned_ok personIds noteId qs \<and> map p_id qs = ids \<and> distinct ids \<and> set ids = p_id ` set ps"
proof -
  have d: "distinct (map p_id ps)" using ok by (simp add: owned_ok_def)
  from r obtain ys where ids: "distinct ids" "set ids = set (map p_id ps)"
    and ys: "validate_each (\<lambda>i. required (omap_get (omap_from p_id (\<lambda>p. p) ps) i) (''unknown property '' @ i)) ids = Inr ys"
    and qs: "qs = renumber ys"
    by (auto simp: reorderNoteProperties_def assertCompleteOrder_Inr [OF d] Let_def bind_validated_Inr)
  from pick_all [OF d ys] have p: "map p_id ys = ids" "set ys \<subseteq> set ps" by auto
  have "length ys = length ps"
    using p(1) ids distinct_card [OF ids(1)] distinct_card [OF d] by (metis length_map)
  then have "owned_ok personIds noteId (renumber ys)"
    using ok p ids owned_length [OF ok] by (intro renumber_ok) (auto simp: owned_ok_def list_all_iff)
  with qs p ids show ?thesis by (simp add: renumber_ids)
qed

section \<open>Normalizers\<close>

theorem normalized_field_valid:
  assumes "normalizeNotePropertyField input personIds = Inr f"
  shows "field_ok personIds f \<and> normalizeNotePropertyField (field_json f) personIds = Inr f"
  using normalize_field_sound [OF assms] by (simp add: normalize_field_iff)

definition status_field :: property_field where
  "status_field = \<lparr>f_id = ''status'', f_name = ''Status'', f_value = VSelect (Some ''o1''),
     f_options = [\<lparr>o_id = ''o1'', o_label = ''Open'', o_color = CBlue\<rparr>,
       \<lparr>o_id = ''o2'', o_label = ''Done'', o_color = CGreen\<rparr>], f_position = 0\<rparr>"

theorem normalized_field_valid_witness: "field_ok None status_field"
proof -
  have "normalizeNotePropertyField (field_json status_field) None = Inr status_field" by code_simp
  from normalized_field_valid [OF this] show ?thesis by simp
qed

theorem normalized_fields_ordered:
  assumes "normalizeNotePropertyFields input personIds = Inr fs"
  shows "fields_ok personIds fs \<and> normalizeNotePropertyFields (fields_json fs) personIds = Inr fs"
  using normalize_fields_sound [OF assms] normalize_fields_complete by blast

theorem normalized_fields_ordered_witness:
  "\<exists>fs. normalizeNotePropertyFields
      (fields_json [status_field\<lparr>f_id := ''b'', f_position := 1\<rparr>, status_field]) None = Inr fs \<and>
    map f_id fs = [''status'', ''b''] \<and> fields_ok None fs"
proof -
  let ?fs = "[status_field, status_field\<lparr>f_id := ''b'', f_position := 1\<rparr>]"
  have "normalizeNotePropertyFields
      (fields_json [status_field\<lparr>f_id := ''b'', f_position := 1\<rparr>, status_field]) None = Inr ?fs" by code_simp
  from this normalized_fields_ordered [OF this] show ?thesis by (auto simp: status_field_def)
qed

section \<open>The ordered set of a note\<close>

inductive property_step :: "string list option \<Rightarrow> string \<Rightarrow> note_properties \<Rightarrow> note_properties \<Rightarrow> bool"
  for personIds noteId where
  step_upsert: "upsertNoteProperty ps p personIds = Inr qs \<Longrightarrow> p_noteId p = noteId \<Longrightarrow>
    property_step personIds noteId ps qs"
| step_remove: "removeNoteProperty ps i = Inr qs \<Longrightarrow> property_step personIds noteId ps qs"
| step_reorder: "reorderNoteProperties ps ids = Inr qs \<Longrightarrow> property_step personIds noteId ps qs"

lemma property_step_ok:
  assumes "owned_ok personIds noteId ps" and "property_step personIds noteId ps qs"
  shows "owned_ok personIds noteId qs"
  using assms(2,1) by cases (auto intro: upsert_ok remove_ok dest: reorder_Inr)

interpretation property_machine: invariant_system "property_step personIds noteId" "[]" "owned_ok personIds noteId"
proof
  show "owned_ok personIds noteId []" by (simp add: owned_ok_def numbered_def)
qed (rule property_step_ok)

theorem properties_reachable_ok:
  assumes "reached (property_step personIds noteId) [] properties"
  shows "distinct (map p_id properties) \<and> (\<forall>i < length properties. p_position (properties ! i) = of_nat i) \<and>
    (\<forall>p \<in> set properties. p_noteId p = noteId \<and> field_ok personIds (p_field p))"
  using property_machine.reachable_inv [OF assms]
  by (simp add: owned_ok_def numbered_nth list_all_iff)

theorem properties_reachable_ok_witness:
  "\<exists>ps. reached (property_step None ''n'') [] ps \<and> length ps = 1 \<and> p_position (ps ! 0) = 0"
proof -
  let ?p = "\<lparr>p_noteId = ''n'', p_field = status_field\<rparr>"
  have "upsertNoteProperty [] ?p None = Inr [?p]" by code_simp
  then have "property_step None ''n'' [] [?p]" by (rule step_upsert) simp
  with reached_refl have r: "reached (property_step None ''n'') [] [?p]" by (rule reached_step)
  from properties_reachable_ok [OF r] have "p_position ([?p] ! 0) = 0" by simp
  with r show ?thesis by (intro exI [of _ "[?p]"] conjI) simp_all
qed

theorem reorder_exactly_permutations:
  assumes "owned_ok personIds noteId properties"
  shows "(\<exists>qs. reorderNoteProperties properties orderedIds = Inr qs \<and> map p_id qs = orderedIds) \<longleftrightarrow>
    distinct orderedIds \<and> set orderedIds = set (map p_id properties)"
proof
  assume "\<exists>qs. reorderNoteProperties properties orderedIds = Inr qs \<and> map p_id qs = orderedIds"
  then show "distinct orderedIds \<and> set orderedIds = set (map p_id properties)"
    using reorder_Inr [OF assms] by auto
next
  assume ids: "distinct orderedIds \<and> set orderedIds = set (map p_id properties)"
  have d: "distinct (map p_id properties)" using assms by (simp add: owned_ok_def)
  from pick_all_total [OF d] ids obtain ys where
    "validate_each (\<lambda>i. required (omap_get (omap_from p_id (\<lambda>p. p) properties) i) (''unknown property '' @ i))
      orderedIds = Inr ys" by fastforce
  then have "reorderNoteProperties properties orderedIds = Inr (renumber ys)"
    using ids by (simp add: reorderNoteProperties_def assertCompleteOrder_Inr [OF d] Let_def)
  with reorder_Inr [OF assms this] show
    "\<exists>qs. reorderNoteProperties properties orderedIds = Inr qs \<and> map p_id qs = orderedIds" by blast
qed

theorem reorder_exactly_permutations_witness:
  "\<not> (\<exists>qs. reorderNoteProperties [\<lparr>p_noteId = ''n'', p_field = status_field\<rparr>] [''status'', ''x''] = Inr qs \<and>
      map p_id qs = [''status'', ''x''])"
proof -
  have "owned_ok None ''n'' [\<lparr>p_noteId = ''n'', p_field = status_field\<rparr>]" by code_simp
  from reorder_exactly_permutations [OF this, of "[''status'', ''x'']"] show ?thesis
    by (simp add: status_field_def)
qed

section \<open>Options\<close>

text \<open>The options a value names.\<close>

fun references_option :: "string \<Rightarrow> property_value \<Rightarrow> bool" where
  "references_option i (VSelect v) \<longleftrightarrow> v = Some i"
| "references_option i (VMultiSelect ids) \<longleftrightarrow> i \<in> set ids"
| "references_option i v \<longleftrightarrow> False"

lemma drop_option_ok:
  assumes "value_ok ids ps v" and "owns_options (value_type v)"
  shows "value_ok (filter (\<lambda>j. j \<noteq> i) ids) ps (drop_option i v) \<and> value_type (drop_option i v) = value_type v \<and>
    (\<forall>j. references_option j (drop_option i v) \<longleftrightarrow> references_option j v \<and> j \<noteq> i)"
proof (cases v)
  case (VMultiSelect xs)
  from assms VMultiSelect show ?thesis
    by (auto simp: id_list_ok_def list_all_iff intro: le_trans [OF length_filter_le])
qed (use assms in \<open>auto split: option.splits\<close>)

theorem remove_option_leaves_no_reference:
  assumes "field_ok None (p_field property)" and "owns_options (value_type (p_value property))"
    and "optionId \<in> o_id ` set (p_options property)"
  shows "\<exists>q. removePropertyOption property optionId = Inr q \<and> field_ok None (p_field q) \<and>
    map o_id (p_options q) = filter (\<lambda>i. i \<noteq> optionId) (map o_id (p_options property)) \<and>
    (\<forall>j. references_option j (p_value q) \<longleftrightarrow> references_option j (p_value property) \<and> j \<noteq> optionId)"
proof -
  let ?opts = "filter (\<lambda>opt. o_id opt \<noteq> optionId) (p_options property)"
  let ?q = "with_options (with_value property (drop_option optionId (p_value property))) ?opts"
  have ids: "map o_id ?opts = filter (\<lambda>i. i \<noteq> optionId) (map o_id (p_options property))"
    by (simp add: filter_map o_def)
  have v: "value_ok (map o_id (p_options property)) (persons None) (p_value property)"
    using assms(1) by (simp add: field_ok_def)
  note dropped = drop_option_ok [OF v assms(2), of optionId]
  have "options_ok ?opts"
    using assms(1) le_trans [OF length_filter_le]
    by (auto simp: field_ok_def options_ok_def list_all_iff distinct_map_filter)
  then have "field_ok None (p_field ?q)"
    using assms(1,2) dropped ids by (simp add: field_ok_def with_options_def with_value_def)
  then have "removePropertyOption property optionId = Inr ?q"
    using assms(2,3) by (auto simp: removePropertyOption_def assertOptionOwner_def normalize_owned_Inr
        check_def list_ex_iff image_iff)
  with \<open>field_ok None (p_field ?q)\<close> dropped ids show ?thesis
    by (intro exI [of _ ?q]) (simp add: with_options_def with_value_def)
qed

theorem remove_option_leaves_no_reference_witness:
  "\<exists>q. removePropertyOption \<lparr>p_noteId = ''n'', p_field = status_field\<rparr> ''o1'' = Inr q \<and>
     \<not> references_option ''o1'' (p_value q)"
proof -
  let ?p = "\<lparr>p_noteId = ''n'', p_field = status_field\<rparr>"
  have "field_ok None (p_field ?p)" by code_simp
  moreover have "owns_options (value_type (p_value ?p))" by code_simp
  moreover have "''o1'' \<in> o_id ` set (p_options ?p)" by (simp add: status_field_def)
  ultimately show ?thesis using remove_option_leaves_no_reference [of ?p "''o1''"] by blast
qed

section \<open>Templates\<close>

theorem built_in_templates_valid:
  "list_all (\<lambda>t. normalizeTemplate t = Inr t) BUILT_IN_PROPERTY_TEMPLATES \<and>
   numbered (\<lambda>i t. t_position t = of_nat i) BUILT_IN_PROPERTY_TEMPLATES \<and>
   distinct (map t_id BUILT_IN_PROPERTY_TEMPLATES)"
  by code_simp

theorem instantiated_template_ok:
  assumes "instantiatePropertyTemplate templateValue noteId idFactory s = (Inr ps, s')"
  shows "owned_ok None noteId ps \<and> length ps \<le> MAX_NOTE_PROPERTIES"
proof -
  from assms obtain fs gs where fs: "normalizeNotePropertyFields (fields_json gs) None = Inr fs"
    and ps: "ps = map (\<lambda>f. \<lparr>p_noteId = noteId, p_field = f\<rparr>) fs"
    by (auto simp: instantiatePropertyTemplate_def bind_validated_Inr split: if_splits sum.splits prod.splits)
  from normalize_fields_sound [OF fs] show ?thesis
    by (auto simp: ps fields_ok_def owned_ok_def numbered_nth list_all_iff o_def)
qed

definition counting_ids :: "nat id_factory" where
  "counting_ids n kind = (''id'' @ nat_digits n, Suc n)"

theorem instantiated_template_ok_witness:
  "\<exists>ps s'. instantiatePropertyTemplate (BUILT_IN_PROPERTY_TEMPLATES ! 4) ''n'' counting_ids 0 = (Inr ps, s') \<and>
     owned_ok None ''n'' ps \<and> map p_id ps = [''id0'', ''id5'', ''id6'']"
proof -
  let ?r = "instantiatePropertyTemplate (BUILT_IN_PROPERTY_TEMPLATES ! 4) ''n'' counting_ids 0"
  have "(case fst ?r of Inl _ \<Rightarrow> False | Inr ps \<Rightarrow> map p_id ps = [''id0'', ''id5'', ''id6''])" by code_simp
  then obtain ps where ps: "fst ?r = Inr ps" "map p_id ps = [''id0'', ''id5'', ''id6'']"
    by (auto split: sum.splits)
  then have r: "?r = (Inr ps, snd ?r)" by (metis prod.collapse)
  from instantiated_template_ok [OF r] have "owned_ok None ''n'' ps" by simp
  show ?thesis by (intro exI conjI) (rule r, fact, rule ps(2))
qed

end
