(* ===== verification/Dates.thy ===== *)
theory Dates
  imports Strings
begin

text \<open>
  \<open>journal/dates.ts\<close>: calendar math on \<open>YYYY-MM-DD\<close> keys. A JavaScript \<open>Date\<close> at
  local midnight is its day number since 1970-01-01, \<open>None\<close> for an Invalid Date; the
  standard's \<open>MakeDay\<close>, \<open>YearFromTime\<close> and \<open>MonthFromTime\<close> are written out on
  day numbers, with the two-digit year rule of the constructor and the range check of
  \<open>TimeClip\<close>. Time zone offsets never show in these functions, which read back only local
  fields, and \<open>Intl\<close> formatting is not modelled.
\<close>

section \<open>The calendar\<close>

definition day_from_year :: "int \<Rightarrow> int" where
  "day_from_year y = 365 * (y - 1970) + (y - 1969) div 4 - (y - 1901) div 100 + (y - 1601) div 400"

definition leap :: "int \<Rightarrow> bool" where
  "leap y \<longleftrightarrow> y mod 4 = 0 \<and> (y mod 100 \<noteq> 0 \<or> y mod 400 = 0)"

definition month_lengths :: "int \<Rightarrow> int list" where
  "month_lengths y = [31, if leap y then 29 else 28, 31, 30, 31, 30, 31, 31, 30, 31, 30, 31]"

definition days_in_month :: "int \<Rightarrow> int \<Rightarrow> int" where
  "days_in_month y m = month_lengths y ! nat m"

definition make_day :: "int \<Rightarrow> int \<Rightarrow> int \<Rightarrow> int" where
  "make_day y m d = day_from_year (y + m div 12) +
     sum_list (take (nat (m mod 12)) (month_lengths (y + m div 12))) + d - 1"

definition year_of :: "int \<Rightarrow> int" where
  "year_of day =
     (let y = 1970 + (400 * day) div 146097
      in if day < day_from_year y then y - 1 else if day_from_year (y + 1) \<le> day then y + 1 else y)"

fun month_scan :: "int \<Rightarrow> int list \<Rightarrow> int \<Rightarrow> int \<times> int" where
  "month_scan m [] r = (m, r)"
| "month_scan m (l # ls) r = (if r < l then (m, r) else month_scan (m + 1) ls (r - l))"

text \<open>Year, month from 0, day from 1.\<close>

definition civil_of :: "int \<Rightarrow> int \<times> int \<times> int" where
  "civil_of day =
     (let y = year_of day; (m, r) = month_scan 0 (month_lengths y) (day - day_from_year y)
      in (y, m, r + 1))"

section \<open>Dates\<close>

type_synonym js_date = "int option"

definition MAX_DAY :: int where "MAX_DAY = 100000000"

definition time_clip :: "int \<Rightarrow> js_date" where
  "time_clip day = (if \<bar>day\<bar> \<le> MAX_DAY then Some day else None)"

text \<open>\<open>new Date(y, m, d)\<close>.\<close>

definition new_date :: "int \<Rightarrow> int \<Rightarrow> int \<Rightarrow> js_date" where
  "new_date y m d = time_clip (make_day (if 0 \<le> y \<and> y \<le> 99 then 1900 + y else y) m d)"

definition getFullYear :: "int \<Rightarrow> int" where "getFullYear day = fst (civil_of day)"
definition getMonth :: "int \<Rightarrow> int" where "getMonth day = fst (snd (civil_of day))"
definition getDate :: "int \<Rightarrow> int" where "getDate day = snd (snd (civil_of day))"
definition getDay :: "int \<Rightarrow> int" where "getDay day = (4 + day) mod 7"

text \<open>\<open>date.setDate(d)\<close>.\<close>

definition setDate :: "int \<Rightarrow> int \<Rightarrow> js_date" where
  "setDate day d = time_clip (make_day (getFullYear day) (getMonth day) d)"

section \<open>Date keys\<close>

fun match_date_key :: "string \<Rightarrow> (int \<times> int \<times> int) option" where
  "match_date_key [a, b, c, d, s, e, f, t, g, h] =
     (if list_all is_digit [a, b, c, d, e, f, g, h] \<and> s = CHR ''-'' \<and> t = CHR ''-''
      then Some (int (digits_value [a, b, c, d]), int (digits_value [e, f]), int (digits_value [g, h]))
      else None)"
| "match_date_key _ = None"

definition isDateKey :: "string \<Rightarrow> bool" where
  "isDateKey v =
     (case match_date_key v of
        None \<Rightarrow> False
      | Some (year, month, day) \<Rightarrow>
          (case new_date year (month - 1) day of
             None \<Rightarrow> False
           | Some parsed \<Rightarrow> getFullYear parsed = year \<and> getMonth parsed = month - 1 \<and> getDate parsed = day))"

text \<open>An Invalid Date prints \<open>NaN\<close> for each field, the year padded to four.\<close>

definition dateKeyOf :: "js_date \<Rightarrow> string" where
  "dateKeyOf date =
     (case date of
        None \<Rightarrow> ''0NaN-NaN-NaN''
      | Some day \<Rightarrow> padStart 4 (int_string (getFullYear day)) @ ''-'' @
          padStart 2 (int_string (getMonth day + 1)) @ ''-'' @ padStart 2 (int_string (getDate day)))"

definition parseDateKey :: "string \<Rightarrow> js_date" where
  "parseDateKey key =
     (case match_date_key key of None \<Rightarrow> None | Some (y, m, d) \<Rightarrow> new_date y (m - 1) d)"

definition shiftDay :: "string \<Rightarrow> int \<Rightarrow> string" where
  "shiftDay key offset =
     dateKeyOf (case parseDateKey key of None \<Rightarrow> None | Some day \<Rightarrow> setDate day (getDate day + offset))"

text \<open>A month key is the year and the month from 0; \<open>None\<close> stands for the two \<open>NaN\<close>s
  read from an Invalid Date.\<close>

type_synonym month_key = "int \<times> int"

definition month_of_date :: "js_date \<Rightarrow> month_key option" where
  "month_of_date date = map_option (\<lambda>day. (getFullYear day, getMonth day)) date"

definition monthOfKey :: "string \<Rightarrow> month_key option" where
  "monthOfKey key = month_of_date (parseDateKey key)"

definition shiftMonth :: "month_key \<Rightarrow> int \<Rightarrow> month_key option" where
  "shiftMonth current offset = month_of_date (new_date (fst current) (snd current + offset) 1)"

definition sameMonth :: "month_key \<Rightarrow> month_key \<Rightarrow> bool" where
  "sameMonth left right \<longleftrightarrow> fst left = fst right \<and> snd left = snd right"

definition monthPrefix :: "month_key \<Rightarrow> string" where
  "monthPrefix month = int_string (fst month) @ ''-'' @ padStart 2 (int_string (snd month + 1))"

record calendar_day =
  cd_key :: string
  cd_dayOfMonth :: int
  cd_inMonth :: bool

text \<open>Months whose grid stays in the range of dates; \<open>None\<close> otherwise.\<close>

definition grid_day :: "month_key \<Rightarrow> int \<Rightarrow> int \<Rightarrow> calendar_day option" where
  "grid_day month start offset =
     map_option (\<lambda>date. \<lparr>cd_key = dateKeyOf (Some date), cd_dayOfMonth = getDate date,
         cd_inMonth = (getMonth date = snd month \<and> getFullYear date = fst month)\<rparr>)
       (new_date (getFullYear start) (getMonth start) (getDate start + offset))"

definition monthGrid :: "month_key \<Rightarrow> calendar_day list option" where
  "monthGrid month =
     (case new_date (fst month) (snd month) 1 of
        None \<Rightarrow> None
      | Some first \<Rightarrow>
          let leading = (getDay first + 6) mod 7
          in (case (new_date (fst month) (snd month) (1 - leading), new_date (fst month) (snd month + 1) 0) of
                (Some start, Some ending) \<Rightarrow>
                  let daysInMonth = getDate ending;
                      total = (leading + daysInMonth + 6) div 7 * 7
                  in those (map (\<lambda>offset. grid_day month start (int offset)) [0 ..< nat total])
              | _ \<Rightarrow> None))"

definition shiftMonthKeepingDay :: "string \<Rightarrow> int \<Rightarrow> string" where
  "shiftMonthKeepingDay key offset =
     (case parseDateKey key of
        None \<Rightarrow> dateKeyOf None
      | Some date \<Rightarrow>
          (case new_date (getFullYear date) (getMonth date + offset) 1 of
             None \<Rightarrow> dateKeyOf None
           | Some target \<Rightarrow>
               (case new_date (getFullYear target) (getMonth target + 1) 0 of
                  None \<Rightarrow> dateKeyOf None
                | Some ending \<Rightarrow> dateKeyOf (setDate target (min (getDate date) (getDate ending))))))"

definition shiftYearKeepingDay :: "string \<Rightarrow> int \<Rightarrow> string" where
  "shiftYearKeepingDay key offset = shiftMonthKeepingDay key (offset * 12)"

text \<open>The weekday of a malformed key is \<open>NaN\<close>, here \<open>None\<close>.\<close>

definition mondayFirstWeekday :: "string \<Rightarrow> int option" where
  "mondayFirstWeekday key = map_option (\<lambda>day. (getDay day + 6) mod 7) (parseDateKey key)"

definition shift_by :: "string \<Rightarrow> int option \<Rightarrow> string" where
  "shift_by key offset = (case offset of None \<Rightarrow> dateKeyOf None | Some n \<Rightarrow> shiftDay key n)"

definition weekStart :: "string \<Rightarrow> string" where
  "weekStart key = shift_by key (map_option uminus (mondayFirstWeekday key))"

definition calendarKeyMove :: "string \<Rightarrow> string \<Rightarrow> string option" where
  "calendarKeyMove key pressed =
     (if pressed = ''ArrowLeft'' then Some (shiftDay key (-1))
      else if pressed = ''ArrowRight'' then Some (shiftDay key 1)
      else if pressed = ''ArrowUp'' then Some (shiftDay key (-7))
      else if pressed = ''ArrowDown'' then Some (shiftDay key 7)
      else if pressed = ''Home'' then Some (shift_by key (map_option uminus (mondayFirstWeekday key)))
      else if pressed = ''End'' then Some (shift_by key (map_option (\<lambda>w. 6 - w) (mondayFirstWeekday key)))
      else if pressed = ''PageUp'' then Some (shiftMonthKeepingDay key (-1))
      else if pressed = ''PageDown'' then Some (shiftMonthKeepingDay key 1)
      else None)"

end
