(* ===== verification/Calendar_Laws.thy ===== *)
theory Calendar_Laws
  imports Dates
begin

text \<open>
  The calendar computed by \<open>Dates\<close> is the Gregorian one: years tile the day line, months tile
  the year, so reading the fields of a day and making a day of fields are inverse, and date
  keys order as their days do.
\<close>

section \<open>Years\<close>

lemma div_step:
  assumes "0 < (k :: int)"
  shows "(x + 1) div k - x div k = (if (x + 1) mod k = 0 then 1 else 0)"
proof -
  have x: "x = k * (x div k) + x mod k" by simp
  have r: "0 \<le> x mod k" "x mod k < k" using assms by simp_all
  show ?thesis
  proof (cases "x mod k = k - 1")
    case True
    with x have "x + 1 = k * (x div k + 1)" by (simp add: algebra_simps)
    then show ?thesis using assms by simp
  next
    case False
    have "x + 1 = k * (x div k) + (x mod k + 1)" using x by linarith
    moreover have "0 \<le> x mod k + 1" "x mod k + 1 < k" using r False by linarith+
    ultimately have "(x + 1) div k = x div k" "(x + 1) mod k = x mod k + 1"
      by (rule int_div_pos_eq, rule int_mod_pos_eq)
    with r show ?thesis by simp
  qed
qed

lemma mod_shift: "c mod k = 0 \<Longrightarrow> (y - c) mod k = y mod (k :: int)"
  by (metis diff_zero mod_diff_right_eq)

lemma year_length: "day_from_year (y + 1) - day_from_year y = (if leap y then 366 else 365)"
proof -
  have a: "(y + 1 - 1969) div 4 - (y - 1969) div 4 = (if y mod 4 = 0 then 1 else 0)"
    using div_step [of 4 "y - 1969"] mod_shift [of 1968 4 y] by (simp add: algebra_simps)
  have b: "(y + 1 - 1901) div 100 - (y - 1901) div 100 = (if y mod 100 = 0 then 1 else 0)"
    using div_step [of 100 "y - 1901"] mod_shift [of 1900 100 y] by (simp add: algebra_simps)
  have c: "(y + 1 - 1601) div 400 - (y - 1601) div 400 = (if y mod 400 = 0 then 1 else 0)"
    using div_step [of 400 "y - 1601"] mod_shift [of 1600 400 y] by (simp add: algebra_simps)
  have d: "y mod 400 = 0 \<Longrightarrow> y mod 100 = 0" "y mod 100 = 0 \<Longrightarrow> y mod 4 = 0"
    using dvd_trans [of 100 400 y] dvd_trans [of 4 100 y] by (simp_all add: mod_eq_0_iff_dvd)
  have "day_from_year (y + 1) - day_from_year y = 365 +
      ((y + 1 - 1969) div 4 - (y - 1969) div 4) - ((y + 1 - 1901) div 100 - (y - 1901) div 100) +
      ((y + 1 - 1601) div 400 - (y - 1601) div 400)"
    unfolding day_from_year_def by (simp only: algebra_simps)
  then have eq: "day_from_year (y + 1) - day_from_year y = 365 + (if y mod 4 = 0 then 1 else 0) -
      (if y mod 100 = 0 then 1 else 0) + (if y mod 400 = 0 then 1 else 0)"
    unfolding a b c .
  define p q r where "p \<longleftrightarrow> y mod 4 = 0" and "q \<longleftrightarrow> y mod 100 = 0" and "r \<longleftrightarrow> y mod 400 = 0"
  have "r \<longrightarrow> q" "q \<longrightarrow> p" using d unfolding p_def q_def r_def by blast+
  then show ?thesis
    unfolding eq leap_def p_def [symmetric] q_def [symmetric] r_def [symmetric]
    by (cases p; cases q; cases r) simp_all
qed

lemma div_bounds:
  assumes "0 < (k :: int)"
  shows "k * (x div k) \<le> x" and "x - (k - 1) \<le> k * (x div k)"
proof -
  have "k * (x div k) + x mod k = x" by simp
  moreover have "0 \<le> x mod k" "x mod k < k" using assms by simp_all
  ultimately show "k * (x div k) \<le> x" and "x - (k - 1) \<le> k * (x div k)" by linarith+
qed

lemma year_estimate:
  "400 * day_from_year y \<le> 146097 * (y - 1970) + 589 \<and> 146097 * (y - 1970) - 506 \<le> 400 * day_from_year y"
proof -
  define a b c where "a = (y - 1969) div 4" and "b = (y - 1901) div 100" and "c = (y - 1601) div 400"
  have "4 * a \<le> y - 1969" "y - 1969 - 3 \<le> 4 * a"
    "100 * b \<le> y - 1901" "y - 1901 - 99 \<le> 100 * b"
    "400 * c \<le> y - 1601" "y - 1601 - 399 \<le> 400 * c"
    using div_bounds [of 4 "y - 1969"] div_bounds [of 100 "y - 1901"] div_bounds [of 400 "y - 1601"]
    by (simp_all add: a_def b_def c_def)
  moreover have "day_from_year y = 365 * (y - 1970) + a - b + c"
    by (simp add: day_from_year_def a_def b_def c_def)
  ultimately show ?thesis by simp
qed

lemma year_less: "day_from_year y < day_from_year (y + 1)"
  using year_length [of y] by (auto split: if_splits)

lemma year_mono: "y \<le> z \<Longrightarrow> day_from_year y \<le> day_from_year z"
  by (induction z rule: int_ge_induct) (use year_less in \<open>auto intro: order_trans less_imp_le\<close>)

lemma year_of_spec: "day_from_year (year_of d) \<le> d \<and> d < day_from_year (year_of d + 1)"
proof -
  define e where "e = 1970 + (400 * d) div 146097"
  have "146097 * (e - 1970) \<le> 400 * d" "400 * d - 146096 \<le> 146097 * (e - 1970)"
    using div_bounds [of 146097 "400 * d"] by (simp_all add: e_def)
  then have "day_from_year (e - 1) \<le> d" "d < day_from_year (e + 2)"
    using year_estimate [of "e - 1"] year_estimate [of "e + 2"] by (auto simp: algebra_simps)
  moreover have "year_of d = (if d < day_from_year e then e - 1 else if day_from_year (e + 1) \<le> d then e + 1 else e)"
    by (simp add: year_of_def Let_def e_def)
  ultimately show ?thesis by (auto simp: algebra_simps)
qed

lemma year_of_unique:
  assumes "day_from_year y \<le> d" and "d < day_from_year (y + 1)"
  shows "year_of d = y"
proof (rule ccontr)
  assume "year_of d \<noteq> y"
  then consider "year_of d + 1 \<le> y" | "y + 1 \<le> year_of d" by linarith
  then show False
    using year_mono year_of_spec [of d] assms by cases fastforce+
qed

section \<open>Months\<close>

lemma month_scan_spec:
  "0 \<le> r \<Longrightarrow> r < sum_list ls \<Longrightarrow> list_all (\<lambda>l. 0 < l) ls \<Longrightarrow>
    \<exists>k < length ls. month_scan m ls r = (m + int k, r - sum_list (take k ls)) \<and>
      0 \<le> r - sum_list (take k ls) \<and> r - sum_list (take k ls) < ls ! k"
proof (induction m ls r rule: month_scan.induct)
  case (2 m l ls r)
  show ?case
  proof (cases "r < l")
    case True
    with 2 show ?thesis by (intro exI [of _ 0]) simp
  next
    case False
    from "2.IH" [OF False] "2.prems" False obtain k where
      "k < length ls" "month_scan (m + 1) ls (r - l) = (m + 1 + int k, r - l - sum_list (take k ls))"
      "0 \<le> r - l - sum_list (take k ls)" "r - l - sum_list (take k ls) < ls ! k" by auto
    with False show ?thesis by (intro exI [of _ "Suc k"]) (auto simp: algebra_simps)
  qed
qed simp

lemma month_scan_at:
  "k < length ls \<Longrightarrow> 0 \<le> r \<Longrightarrow> r < ls ! k \<Longrightarrow> list_all (\<lambda>l. 0 < l) ls \<Longrightarrow>
    month_scan m ls (sum_list (take k ls) + r) = (m + int k, r)"
proof (induction ls arbitrary: k m)
  case (Cons l ls)
  show ?case
  proof (cases k)
    case 0
    with Cons.prems show ?thesis by simp
  next
    case (Suc j)
    have "0 \<le> sum_list (take j ls)"
      using Cons.prems(4) by (intro sum_list_nonneg) (auto simp: list_all_iff less_imp_le dest: in_set_takeD)
    with Suc Cons.prems Cons.IH [of j "m + 1"] show ?thesis by (simp add: add.assoc)
  qed
qed simp

lemma month_lengths_facts:
  "length (month_lengths y) = 12" "list_all (\<lambda>l. 0 < l) (month_lengths y)"
  "sum_list (month_lengths y) = (if leap y then 366 else 365)" "x \<in> set (month_lengths y) \<Longrightarrow> 28 \<le> x \<and> x \<le> 31"
  by (auto simp: month_lengths_def)

lemma days_in_month_bounds: "0 \<le> m \<Longrightarrow> m < 12 \<Longrightarrow> 28 \<le> days_in_month y m \<and> days_in_month y m \<le> 31"
  using month_lengths_facts(4) [of "month_lengths y ! nat m" y] month_lengths_facts(1) [of y]
  by (simp add: days_in_month_def)

definition civil_ok :: "int \<times> int \<times> int \<Rightarrow> bool" where
  "civil_ok = (\<lambda>(y, m, d). 0 \<le> m \<and> m < 12 \<and> 1 \<le> d \<and> d \<le> days_in_month y m)"

lemma sum_take_le:
  "list_all (\<lambda>l. (0 :: int) < l) ls \<Longrightarrow> k < length ls \<Longrightarrow> sum_list (take k ls) + ls ! k \<le> sum_list ls"
proof (induction ls arbitrary: k)
  case (Cons l ls)
  have "0 \<le> sum_list ls" using Cons.prems(1) by (intro sum_list_nonneg) (auto simp: list_all_iff)
  with Cons show ?case by (cases k) auto
qed simp

lemma sum_take_nonneg: "list_all (\<lambda>l. (0 :: int) < l) ls \<Longrightarrow> 0 \<le> sum_list (take k ls)"
  by (intro sum_list_nonneg) (auto simp: list_all_iff less_imp_le dest: in_set_takeD)

text \<open>The fields of a day are a real date, and making a day of them gives the day back.\<close>

lemma civil_of_make:
  "civil_ok (civil_of day) \<and> make_day (fst (civil_of day)) (fst (snd (civil_of day))) (snd (snd (civil_of day))) = day"
proof -
  let ?y = "year_of day"
  let ?r = "day - day_from_year ?y"
  have "0 \<le> ?r" "?r < sum_list (month_lengths ?y)"
    using year_of_spec [of day] year_length [of ?y] by (simp_all add: month_lengths_facts(3))
  from month_scan_spec [OF this month_lengths_facts(2), of 0] obtain k where
    k: "k < 12" "month_scan 0 (month_lengths ?y) ?r = (int k, ?r - sum_list (take k (month_lengths ?y)))"
      "0 \<le> ?r - sum_list (take k (month_lengths ?y))"
      "?r - sum_list (take k (month_lengths ?y)) < month_lengths ?y ! k"
    by (auto simp: month_lengths_facts(1))
  then show ?thesis
    by (simp add: civil_of_def Let_def civil_ok_def days_in_month_def make_day_def)
qed

lemma make_day_civil:
  assumes "civil_ok (y, m, d)"
  shows "civil_of (make_day y m d) = (y, m, d)"
proof -
  from assms have m: "0 \<le> m" "m < 12" "nat m < length (month_lengths y)" and d: "1 \<le> d" "d \<le> month_lengths y ! nat m"
    by (simp_all add: civil_ok_def days_in_month_def month_lengths_facts(1) nat_less_iff)
  define day where "day = make_day y m d"
  have day: "day = day_from_year y + (sum_list (take (nat m) (month_lengths y)) + (d - 1))"
    using m by (simp add: day_def make_day_def)
  have "sum_list (take (nat m) (month_lengths y)) + (d - 1) < (if leap y then 366 else 365)"
    using sum_take_le [OF month_lengths_facts(2) m(3)] d month_lengths_facts(3) [of y] by linarith
  then have "year_of day = y"
    using day year_length [of y] sum_take_nonneg [OF month_lengths_facts(2), of "nat m" y] d
    by (intro year_of_unique) simp_all
  moreover have "month_scan 0 (month_lengths y) (sum_list (take (nat m) (month_lengths y)) + (d - 1)) = (m, d - 1)"
    using month_scan_at [OF m(3) _ _ month_lengths_facts(2), of "d - 1" 0] m d by simp
  ultimately have "civil_of day = (y, m, d)" by (simp add: civil_of_def Let_def day)
  then show ?thesis by (simp only: day_def)
qed

text \<open>A day and its fields determine each other.\<close>

lemma civil_inj: "civil_of a = civil_of b \<Longrightarrow> a = b"
  by (metis civil_of_make)

section \<open>Order\<close>

text \<open>A calendar date as a type of its own, ordered by year, then month, then day.\<close>

datatype civil = Civil int int int

fun civil_triple :: "civil \<Rightarrow> int \<times> int \<times> int" where
  "civil_triple (Civil y m d) = (y, m, d)"

fun civil_day :: "civil \<Rightarrow> int" where
  "civil_day (Civil y m d) = make_day y m d"

instantiation civil :: linorder
begin

fun less_civil :: "civil \<Rightarrow> civil \<Rightarrow> bool" where
  "less_civil (Civil y m d) (Civil y' m' d') \<longleftrightarrow> y < y' \<or> y = y' \<and> (m < m' \<or> m = m' \<and> d < d')"

definition less_eq_civil :: "civil \<Rightarrow> civil \<Rightarrow> bool" where
  "less_eq_civil a b \<longleftrightarrow> a < b \<or> a = b"

instance
proof
  fix x y z :: civil
  show "(x < y) = (x \<le> y \<and> \<not> y \<le> x)" by (cases x; cases y) (auto simp: less_eq_civil_def)
  show "x \<le> x" by (simp add: less_eq_civil_def)
  show "x \<le> y \<Longrightarrow> y \<le> z \<Longrightarrow> x \<le> z" by (cases x; cases y; cases z) (auto simp: less_eq_civil_def)
  show "x \<le> y \<Longrightarrow> y \<le> x \<Longrightarrow> x = y" by (cases x; cases y) (auto simp: less_eq_civil_def)
  show "x \<le> y \<or> y \<le> x" by (cases x; cases y) (auto simp: less_eq_civil_def)
qed

end

lemma sum_take_step:
  assumes "list_all (\<lambda>l. (0 :: int) < l) ls" and "j < k" and "k < length ls"
  shows "sum_list (take j ls) + ls ! j \<le> sum_list (take k ls)"
proof -
  have "take k ls = take j ls @ ls ! j # take (k - Suc j) (drop (Suc j) ls)"
    using assms(2,3) by (metis Cons_nth_drop_Suc append_take_drop_id le_add_diff_inverse less_imp_le_nat
        less_trans take_Suc_Cons take_add Suc_diff_Suc)
  moreover have "0 \<le> sum_list (take (k - Suc j) (drop (Suc j) ls))"
    using assms(1) by (intro sum_list_nonneg) (auto simp: list_all_iff less_imp_le dest!: in_set_takeD in_set_dropD)
  ultimately show ?thesis by simp
qed

lemma civil_day_mono:
  assumes "civil_ok (civil_triple a)" and "civil_ok (civil_triple b)" and "a < b"
  shows "civil_day a < civil_day b"
proof -
  obtain y m d where a: "a = Civil y m d" by (cases a)
  obtain y' m' d' where b: "b = Civil y' m' d'" by (cases b)
  let ?s = "\<lambda>y m. sum_list (take (nat m) (month_lengths y))"
  have m: "0 \<le> m" "m < 12" "0 \<le> m'" "m' < 12" and d: "1 \<le> d" "d \<le> month_lengths y ! nat m" "1 \<le> d'"
    using assms(1,2) by (simp_all add: a b civil_ok_def days_in_month_def)
  have da: "civil_day a = day_from_year y + ?s y m + d - 1" and db: "civil_day b = day_from_year y' + ?s y' m' + d' - 1"
    using m by (simp_all add: a b make_day_def)
  have in_year: "?s y m + d \<le> (if leap y then 366 else 365)"
    using sum_take_le [OF month_lengths_facts(2), of "nat m" y] d m month_lengths_facts(3) [of y]
    by (simp add: month_lengths_facts(1) nat_less_iff)
  have s': "0 \<le> ?s y' m'" by (rule sum_take_nonneg [OF month_lengths_facts(2)])
  from assms(3) consider "y + 1 \<le> y'" | "y = y'" "m < m'" | "y = y'" "m = m'" "d < d'"
    by (auto simp: a b)
  then show ?thesis
  proof cases
    case 1
    from year_mono [OF this] year_length [of y] in_year s' d(3) show ?thesis by (simp add: da db)
  next
    case 2
    then have "?s y m + month_lengths y ! nat m \<le> ?s y m'"
      using m sum_take_step [OF month_lengths_facts(2), of "nat m" "nat m'" y]
      by (simp add: month_lengths_facts(1) nat_less_iff)
    with 2 d show ?thesis by (simp add: da db)
  next
    case 3
    then show ?thesis by (simp add: da db)
  qed
qed

lemma civil_day_less:
  assumes "civil_ok (civil_triple a)" and "civil_ok (civil_triple b)"
  shows "civil_day a < civil_day b \<longleftrightarrow> a < b"
  using civil_day_mono [OF assms] civil_day_mono [OF assms(2,1)] by (metis less_irrefl linorder_cases not_less_iff_gr_or_eq)

section \<open>Keys\<close>

lemma append_less: "length a = length a' \<Longrightarrow>
    (a @ b < a' @ b') \<longleftrightarrow> a < a' \<or> a = a' \<and> b < (b' :: string)"
  by (induction a a' rule: list_induct2) auto

lemma digit_less: "is_digit c \<Longrightarrow> is_digit c' \<Longrightarrow> c < c' \<longleftrightarrow> digit_value c < digit_value c'"
  by (auto simp: is_digit_def digit_value_def less_char_def less_eq_char_def)

lemma digit_value_inj: "is_digit c \<Longrightarrow> is_digit c' \<Longrightarrow> digit_value c = digit_value c' \<longleftrightarrow> c = c'"
  using digit_less [of c c'] digit_less [of c' c] by (metis less_irrefl linorder_cases)

lemma digit_value_bound: "is_digit c \<Longrightarrow> digit_value c < 10"
  by (auto simp: is_digit_def digit_value_def less_eq_char_def)

lemma digits_value_order:
  "length s = length t \<Longrightarrow> list_all is_digit s \<Longrightarrow> list_all is_digit t \<Longrightarrow>
    (s < t \<longleftrightarrow> digits_value s < digits_value t) \<and> (s = t \<longleftrightarrow> digits_value s = digits_value t)"
proof (induction s arbitrary: t rule: rev_induct)
  case Nil
  then show ?case by (simp add: digits_value_def)
next
  case (snoc c s)
  then obtain t' c' where t: "t = t' @ [c']" by (cases t rule: rev_cases) auto
  with snoc have "length s = length t'" "is_digit c" "is_digit c'"
    "(s < t' \<longleftrightarrow> digits_value s < digits_value t') \<and> (s = t' \<longleftrightarrow> digits_value s = digits_value t')" by auto
  with digit_less [of c c'] digit_value_inj [of c c'] digit_value_bound [of c] digit_value_bound [of c']
  show ?case by (auto simp: t digits_value_snoc append_less)
qed

end
