(* ===== verification/Date_Theorems.thy ===== *)
theory Date_Theorems
  imports Calendar_Laws
begin

text \<open>
  What \<open>journal/dates.ts\<close> promises of its keys: a valid key names one day and prints back to
  itself, comparing keys as strings compares their days, and shifting moves by exactly the
  days or months asked for.
\<close>

section \<open>Valid keys\<close>

lemma match_iff:
  "match_date_key k = Some (y, m, d) \<longleftrightarrow>
    (\<exists>a b c. length a = 4 \<and> length b = 2 \<and> length c = 2 \<and> list_all is_digit a \<and> list_all is_digit b \<and>
      list_all is_digit c \<and> k = a @ ''-'' @ b @ ''-'' @ c \<and>
      y = int (digits_value a) \<and> m = int (digits_value b) \<and> d = int (digits_value c))"
proof
  assume "match_date_key k = Some (y, m, d)"
  then show "\<exists>a b c. length a = 4 \<and> length b = 2 \<and> length c = 2 \<and> list_all is_digit a \<and> list_all is_digit b \<and>
      list_all is_digit c \<and> k = a @ ''-'' @ b @ ''-'' @ c \<and>
      y = int (digits_value a) \<and> m = int (digits_value b) \<and> d = int (digits_value c)"
  proof (cases k rule: match_date_key.cases)
    case (1 a b c d' s e f t g h)
    with \<open>match_date_key k = Some (y, m, d)\<close> show ?thesis
      by (intro exI [of _ "[a, b, c, d']"] exI [of _ "[e, f]"] exI [of _ "[g, h]"]) (simp split: if_splits)
  qed simp_all
next
  assume "\<exists>a b c. length a = 4 \<and> length b = 2 \<and> length c = 2 \<and> list_all is_digit a \<and> list_all is_digit b \<and>
      list_all is_digit c \<and> k = a @ ''-'' @ b @ ''-'' @ c \<and>
      y = int (digits_value a) \<and> m = int (digits_value b) \<and> d = int (digits_value c)"
  then show "match_date_key k = Some (y, m, d)"
    by (auto simp: length_Suc_conv numeral_eq_Suc)
qed

lemma digits_bound: "list_all is_digit s \<Longrightarrow> digits_value s < 10 ^ length s"
proof (induction s rule: rev_induct)
  case Nil
  then show ?case by (simp add: digits_value_def)
next
  case (snoc c s)
  with digit_value_bound [of c] show ?case by (simp add: digits_value_snoc)
qed

lemma match_bounds: "match_date_key k = Some (y, m, d) \<Longrightarrow> 0 \<le> y \<and> y \<le> 9999 \<and> 0 \<le> m \<and> m \<le> 99 \<and> 0 \<le> d \<and> d \<le> 99"
proof -
  assume "match_date_key k = Some (y, m, d)"
  then obtain a b c where s: "length a = 4" "length b = 2" "length c = 2" "list_all is_digit a"
      "list_all is_digit b" "list_all is_digit c"
    "y = int (digits_value a)" "m = int (digits_value b)" "d = int (digits_value c)"
    unfolding match_iff by blast
  with digits_bound [of a] digits_bound [of b] digits_bound [of c] show ?thesis by simp
qed

lemma day_in_range:
  assumes "civil_ok (y, m, d)" and "0 \<le> y" and "y \<le> 9999"
  shows "time_clip (make_day y m d) = Some (make_day y m d)"
proof -
  have y: "year_of (make_day y m d) = y"
    using make_day_civil [OF assms(1)] by (simp add: civil_of_def Let_def split: prod.splits)
  with year_of_spec [of "make_day y m d"] year_mono [of 0 y] year_mono [of "y + 1" 10000] assms(2,3)
  have "day_from_year 0 \<le> make_day y m d" "make_day y m d < day_from_year 10000" by auto
  moreover have "day_from_year 0 = -719528" "day_from_year 10000 = 2932897" by code_simp+
  ultimately show ?thesis by (simp add: time_clip_def MAX_DAY_def)
qed

text \<open>A key is valid when it spells a real day of a year from 100 on: the constructor maps the
  years 0 to 99 into the twentieth century.\<close>

lemma isDateKey_iff:
  "isDateKey k \<longleftrightarrow> (\<exists>y m d. match_date_key k = Some (y, m, d) \<and> 100 \<le> y \<and> civil_ok (y, m - 1, d))"
proof
  assume "isDateKey k"
  then obtain y m d p where k: "match_date_key k = Some (y, m, d)" "new_date y (m - 1) d = Some p"
      "getFullYear p = y" "getMonth p = m - 1" "getDate p = d"
    by (auto simp: isDateKey_def split: option.splits)
  have c: "civil_of p = (y, m - 1, d)"
    using k(3-5) by (cases "civil_of p") (simp add: getFullYear_def getMonth_def getDate_def)
  with civil_of_make [of p] have ok: "civil_ok (y, m - 1, d)" by simp
  have "100 \<le> y"
  proof (rule ccontr)
    assume "\<not> 100 \<le> y"
    with match_bounds [OF k(1)] have y: "0 \<le> y" "y \<le> 99" by simp_all
    with k(2) have "p = make_day (1900 + y) (m - 1) d" by (auto simp: new_date_def time_clip_def split: if_splits)
    moreover have "day_from_year (1900 + y) \<le> make_day (1900 + y) (m - 1) d"
      using ok sum_take_nonneg [OF month_lengths_facts(2), of "nat (m - 1)" "1900 + y"]
      by (simp add: make_day_def civil_ok_def)
    moreover have "year_of p = y" using c by (simp add: civil_of_def Let_def split: prod.splits)
    ultimately show False
      using year_of_spec [of p] year_mono [of "y + 1" "1900 + y"] by simp
  qed
  with k(1) ok show "\<exists>y m d. match_date_key k = Some (y, m, d) \<and> 100 \<le> y \<and> civil_ok (y, m - 1, d)" by blast
next
  assume "\<exists>y m d. match_date_key k = Some (y, m, d) \<and> 100 \<le> y \<and> civil_ok (y, m - 1, d)"
  then obtain y m d where k: "match_date_key k = Some (y, m, d)" "100 \<le> y" "civil_ok (y, m - 1, d)" by blast
  with day_in_range [OF k(3)] match_bounds [OF k(1)] make_day_civil [OF k(3)] show "isDateKey k"
    by (simp add: isDateKey_def new_date_def getFullYear_def getMonth_def getDate_def)
qed

lemma valid_key:
  assumes "isDateKey k"
  obtains y m d where "match_date_key k = Some (y, m, d)" "100 \<le> y" "y \<le> 9999" "civil_ok (y, m - 1, d)"
    "parseDateKey k = Some (make_day y (m - 1) d)"
proof -
  from assms obtain y m d where k: "match_date_key k = Some (y, m, d)" "100 \<le> y" "civil_ok (y, m - 1, d)"
    unfolding isDateKey_iff by blast
  moreover have "y \<le> 9999" using match_bounds [OF k(1)] by simp
  ultimately show thesis
    using that day_in_range [OF k(3)] by (simp add: parseDateKey_def new_date_def)
qed

lemma int_digits: "0 \<le> n \<Longrightarrow> int_string n = nat_digits (nat n)"
  by (simp add: int_string_def)

lemma padded_digits: "list_all is_digit s \<Longrightarrow> 0 < length s \<Longrightarrow> padStart (length s) (nat_digits (digits_value s)) = s"
  using digits_value_order [of "padStart (length s) (nat_digits (digits_value s))" s] digits_bound [of s]
    padStart_digits [OF nat_digits_digits] by (simp add: padded_length)

theorem date_key_roundtrip:
  assumes "isDateKey key"
  shows "dateKeyOf (parseDateKey key) = key"
proof -
  from assms obtain y m d where k: "match_date_key key = Some (y, m, d)" "100 \<le> y" "y \<le> 9999"
    "civil_ok (y, m - 1, d)" "parseDateKey key = Some (make_day y (m - 1) d)" by (rule valid_key)
  from k(1) obtain a b c where s: "length a = 4" "length b = 2" "length c = 2" "list_all is_digit a"
      "list_all is_digit b" "list_all is_digit c" "key = a @ ''-'' @ b @ ''-'' @ c"
    "y = int (digits_value a)" "m = int (digits_value b)" "d = int (digits_value c)"
    unfolding match_iff by blast
  have "padStart 4 (nat_digits (digits_value a)) = a" "padStart 2 (nat_digits (digits_value b)) = b"
    "padStart 2 (nat_digits (digits_value c)) = c"
    using padded_digits [of a] padded_digits [of b] padded_digits [of c] s by simp_all
  moreover have "civil_of (make_day y (m - 1) d) = (y, m - 1, d)" by (rule make_day_civil [OF k(4)])
  ultimately show ?thesis
    unfolding k(5) using s(7-10)
    by (simp add: dateKeyOf_def getFullYear_def getMonth_def getDate_def int_digits)
qed

theorem date_key_roundtrip_witness: "dateKeyOf (parseDateKey ''2024-02-29'') = ''2024-02-29''"
proof -
  have "isDateKey ''2024-02-29''" by code_simp
  then show ?thesis by (rule date_key_roundtrip)
qed

lemma key_less_civil:
  assumes "match_date_key a = Some (y, m, d)" and "match_date_key b = Some (y', m', d')"
  shows "a < b \<longleftrightarrow> Civil y (m - 1) d < Civil y' (m' - 1) d'"
proof -
  from assms(1) obtain p q r where s: "length p = 4" "length q = 2" "length r = 2" "list_all is_digit p"
      "list_all is_digit q" "list_all is_digit r" "a = p @ ''-'' @ q @ ''-'' @ r"
    "y = int (digits_value p)" "m = int (digits_value q)" "d = int (digits_value r)"
    unfolding match_iff by blast
  from assms(2) obtain p' q' r' where s': "length p' = 4" "length q' = 2" "length r' = 2" "list_all is_digit p'"
      "list_all is_digit q'" "list_all is_digit r'" "b = p' @ ''-'' @ q' @ ''-'' @ r'"
    "y' = int (digits_value p')" "m' = int (digits_value q')" "d' = int (digits_value r')"
    unfolding match_iff by blast
  show ?thesis
    using digits_value_order [of p p'] digits_value_order [of q q'] digits_value_order [of r r'] s s'
    by (simp add: append_less)
qed

lemma key_less:
  assumes "isDateKey a" and "isDateKey b"
  shows "a < b \<longleftrightarrow> the (parseDateKey a) < the (parseDateKey b)"
proof -
  from assms(1) obtain y m d where a: "match_date_key a = Some (y, m, d)" "civil_ok (y, m - 1, d)"
    "parseDateKey a = Some (make_day y (m - 1) d)" by (rule valid_key)
  from assms(2) obtain y' m' d' where b: "match_date_key b = Some (y', m', d')" "civil_ok (y', m' - 1, d')"
    "parseDateKey b = Some (make_day y' (m' - 1) d')" by (rule valid_key)
  show ?thesis
    using civil_day_less [of "Civil y (m - 1) d" "Civil y' (m' - 1) d'"] key_less_civil [OF a(1) b(1)] a b by simp
qed

theorem date_key_order:
  assumes "isDateKey a" and "isDateKey b"
  shows "a < b \<longleftrightarrow> the (parseDateKey a) < the (parseDateKey b)"
  by (rule key_less [OF assms])

theorem date_key_order_witness:
  "the (parseDateKey ''2023-12-31'') < the (parseDateKey ''2024-01-01'')"
proof -
  have "isDateKey ''2023-12-31''" "isDateKey ''2024-01-01''" by code_simp+
  from date_key_order [OF this] show ?thesis by simp
qed

section \<open>Shifting\<close>

lemma make_day_shift: "make_day y m (d + n) = make_day y m d + n"
  by (simp add: make_day_def)

lemma civil_key:
  assumes "civil_of day = (y, m, d)" and "100 \<le> y" and "y \<le> 9999"
  shows "match_date_key (dateKeyOf (Some day)) = Some (y, m + 1, d) \<and> isDateKey (dateKeyOf (Some day)) \<and>
    parseDateKey (dateKeyOf (Some day)) = Some day"
proof -
  have ok: "civil_ok (y, m, d)" and day: "make_day y m d = day"
    using civil_of_make [of day] assms(1) by auto
  then have m: "0 \<le> m" "m < 12" "1 \<le> d" "d \<le> 31"
    using days_in_month_bounds [of m y] by (auto simp: civil_ok_def)
  let ?a = "padStart 4 (nat_digits (nat y))" and ?b = "padStart 2 (nat_digits (nat (m + 1)))"
    and ?c = "padStart 2 (nat_digits (nat d))"
  have "length ?a = 4" "length ?b = 2" "length ?c = 2"
    using assms(2,3) m by (auto intro!: padded_length simp: nat_less_iff)
  moreover have "list_all is_digit ?a" "list_all is_digit ?b" "list_all is_digit ?c"
    by (simp_all add: padStart_digits nat_digits_digits)
  moreover have "dateKeyOf (Some day) = ?a @ ''-'' @ ?b @ ''-'' @ ?c"
    using assms m by (simp add: dateKeyOf_def getFullYear_def getMonth_def getDate_def int_digits)
  moreover have "y = int (digits_value ?a)" "m + 1 = int (digits_value ?b)" "d = int (digits_value ?c)"
    using assms(2) m by simp_all
  ultimately have match: "match_date_key (dateKeyOf (Some day)) = Some (y, m + 1, d)"
    unfolding match_iff by blast
  then have "isDateKey (dateKeyOf (Some day))" using ok assms(2) by (auto simp: isDateKey_iff)
  moreover have "parseDateKey (dateKeyOf (Some day)) = Some day"
    using match assms(2,3) ok day day_in_range [OF ok] by (simp add: parseDateKey_def new_date_def)
  ultimately show ?thesis using match by simp
qed

lemma shift_day_at:
  assumes "parseDateKey key = Some day"
    and "100 \<le> getFullYear (day + offset)" and "getFullYear (day + offset) \<le> 9999"
  shows "isDateKey (shiftDay key offset) \<and> parseDateKey (shiftDay key offset) = Some (day + offset)"
proof -
  obtain y m d where c: "civil_of (day + offset) = (y, m, d)" by (cases "civil_of (day + offset)")
  have "civil_ok (y, m, d)" "make_day y m d = day + offset"
    using civil_of_make [of "day + offset"] c by auto
  with day_in_range [of y m d] assms(2,3) c have "time_clip (day + offset) = Some (day + offset)"
    by (simp add: getFullYear_def)
  moreover have "make_day (getFullYear day) (getMonth day) (getDate day + offset) = day + offset"
    using civil_of_make [of day] by (simp add: make_day_shift getFullYear_def getMonth_def getDate_def)
  ultimately have "shiftDay key offset = dateKeyOf (Some (day + offset))"
    by (simp add: shiftDay_def assms(1) setDate_def)
  with civil_key [OF c] assms(2,3) c show ?thesis by (simp add: getFullYear_def)
qed

theorem shift_day_exact:
  assumes "parseDateKey key = Some day"
    and "100 \<le> getFullYear (day + offset)" and "getFullYear (day + offset) \<le> 9999"
  shows "isDateKey (shiftDay key offset) \<and> parseDateKey (shiftDay key offset) = Some (day + offset)"
  by (rule shift_day_at [OF assms])

theorem shift_day_exact_witness:
  "parseDateKey (shiftDay ''2024-02-28'' 2) = Some (the (parseDateKey ''2024-02-28'') + 2) \<and>
   shiftDay ''2024-02-28'' 2 = ''2024-03-01''"
proof -
  have "parseDateKey ''2024-02-28'' = Some 19781" by code_simp
  moreover have "100 \<le> getFullYear (19781 + 2)" "getFullYear (19781 + 2) \<le> 9999" by code_simp+
  moreover have "shiftDay ''2024-02-28'' 2 = ''2024-03-01''" by code_simp
  ultimately show ?thesis using shift_day_exact [of "''2024-02-28''" 19781 2] by simp
qed

lemma last_day:
  assumes "0 \<le> m" and "m < 12"
  shows "make_day y (m + 1) 0 = make_day y m (days_in_month y m)"
proof (cases "m = 11")
  case True
  have "take 11 (month_lengths y) = [31, if leap y then 29 else 28, 31, 30, 31, 30, 31, 31, 30, 31, 30]"
    by (simp add: month_lengths_def)
  with True year_length [of y] show ?thesis
    by (cases "leap y") (simp_all add: make_day_def days_in_month_def month_lengths_def)
next
  case False
  have "nat (m + 1) = Suc (nat m)" "nat m < length (month_lengths y)"
    using assms by (simp_all add: month_lengths_facts(1) nat_less_iff nat_add_distrib)
  with False assms show ?thesis
    by (simp add: make_day_def days_in_month_def take_Suc_conv_app_nth)
qed

text \<open>Stepping by months keeps the day of the month, clamped to the target month's length.\<close>

lemma shift_month_clamps:
  assumes key: "isDateKey key" and match: "match_date_key key = Some (y, m + 1, d)"
    and t: "target = y * 12 + m + offset" and y': "100 \<le> target div 12" "target div 12 \<le> 9999"
  shows "match_date_key (shiftMonthKeepingDay key offset) =
    Some (target div 12, target mod 12 + 1, min d (days_in_month (target div 12) (target mod 12)))"
proof -
  let ?y = "target div 12" and ?m = "target mod 12"
  let ?len = "days_in_month ?y ?m"
  from key match have y: "100 \<le> y" and ok: "civil_ok (y, m, d)" by (auto simp: isDateKey_iff)
  have day: "parseDateKey key = Some (make_day y m d)"
    using match y day_in_range [OF ok] match_bounds [OF match] by (simp add: parseDateKey_def new_date_def)
  have norm: "make_day y (m + offset) e = make_day ?y ?m e" for e
  proof -
    have "target = (m + offset) + y * 12" by (simp add: t)
    then have "?y = y + (m + offset) div 12" "?m = (m + offset) mod 12" by (simp_all only: div_mult_self1 mod_mult_self1)
    then show ?thesis by (simp add: make_day_def)
  qed
  have m: "0 \<le> ?m" "?m < 12" by simp_all
  note len = days_in_month_bounds [OF m, of ?y]
  have ok1: "civil_ok (?y, ?m, 1)" and okl: "civil_ok (?y, ?m, ?len)"
    and okd: "civil_ok (?y, ?m, min d ?len)"
    using len ok by (auto simp: civil_ok_def)
  have first: "new_date y (m + offset) 1 = Some (make_day ?y ?m 1)"
    using y norm day_in_range [OF ok1] y' by (simp add: new_date_def)
  have "new_date ?y (?m + 1) 0 = Some (make_day ?y ?m ?len)"
    using y' last_day [OF m, of ?y] day_in_range [OF okl] by (simp add: new_date_def)
  moreover have "setDate (make_day ?y ?m 1) (min d ?len) = Some (make_day ?y ?m (min d ?len))"
    using day_in_range [OF okd] y' by (simp add: setDate_def getFullYear_def getMonth_def make_day_civil [OF ok1])
  ultimately have "shiftMonthKeepingDay key offset = dateKeyOf (Some (make_day ?y ?m (min d ?len)))"
    using first by (simp add: shiftMonthKeepingDay_def day getFullYear_def getMonth_def getDate_def
        make_day_civil [OF ok] make_day_civil [OF ok1] make_day_civil [OF okl])
  with civil_key [OF make_day_civil [OF okd]] y' show ?thesis by simp
qed

theorem shift_month_keeps_day:
  assumes "isDateKey key" and "match_date_key key = Some (y, m + 1, d)"
    and "100 \<le> (y * 12 + m + offset) div 12" and "(y * 12 + m + offset) div 12 \<le> 9999"
  shows "match_date_key (shiftMonthKeepingDay key offset) =
    Some ((y * 12 + m + offset) div 12, (y * 12 + m + offset) mod 12 + 1,
      min d (days_in_month ((y * 12 + m + offset) div 12) ((y * 12 + m + offset) mod 12)))"
  by (rule shift_month_clamps [OF assms(1,2) refl assms(3,4)])

theorem shift_month_keeps_day_witness:
  "match_date_key (shiftMonthKeepingDay ''2024-01-31'' 1) = Some (2024, 2, 29)"
proof -
  have "isDateKey ''2024-01-31''" by code_simp
  moreover have "match_date_key ''2024-01-31'' = Some (2024, 0 + 1, 31)" by code_simp
  moreover have "days_in_month 2024 1 = 29" by code_simp
  ultimately show ?thesis using shift_month_keeps_day [of "''2024-01-31''" 2024 0 31 1] by simp
qed

section \<open>Weeks\<close>

lemma week_start_monday:
  assumes "parseDateKey key = Some day"
    and "100 \<le> getFullYear (day - (getDay day + 6) mod 7)" and "getFullYear (day - (getDay day + 6) mod 7) \<le> 9999"
  shows "\<exists>s. parseDateKey (weekStart key) = Some s \<and> getDay s = 1 \<and> s \<le> day \<and> day < s + 7"
proof -
  let ?w = "(getDay day + 6) mod 7"
  have "weekStart key = shiftDay key (- ?w)"
    by (simp add: weekStart_def shift_by_def mondayFirstWeekday_def assms(1))
  moreover have "parseDateKey (shiftDay key (- ?w)) = Some (day + - ?w)"
    using shift_day_at [OF assms(1), of "- ?w"] assms(2,3) by simp
  moreover have "getDay (day + - ?w) = 1" "day + - ?w \<le> day" "day < day + - ?w + 7"
    unfolding getDay_def by presburger+
  ultimately show ?thesis by metis
qed

end
