(* ===== verification/Linked_Tasks.thy ===== *)
theory Linked_Tasks
  imports References Property_Values Dates
begin

text \<open>
  \<open>store/linked-tasks.ts\<close>: the renderer's mirror of the save-time reconciliation between a
  note's checklist items and the task records linked to them, with a specification stated over the
  nodes of the document that the loop implements.
\<close>

section \<open>Links of a document\<close>

record document_link =
  dl_blockId :: string
  dl_title :: string
  dl_checked :: bool
  dl_dueDate :: "string option"

text \<open>A task id seen twice maps to \<open>null\<close>, here an inner \<open>None\<close>.\<close>

type_synonym link_map = "(string, document_link option) omap"

definition IDENTIFIER :: "string \<Rightarrow> bool" where
  "IDENTIFIER s \<longleftrightarrow> 1 \<le> length s \<and> length s \<le> 128 \<and> list_all id_char s"

definition opt_field :: "string \<Rightarrow> json option \<Rightarrow> json option" where
  "opt_field k v = (case v of None \<Rightarrow> None | Some j \<Rightarrow> json_field k j)"

lemma content_member: "x \<in> set (content_of v) \<Longrightarrow> size x < size v"
proof -
  have "x \<in> set xs \<Longrightarrow> size x < size_list size xs" for xs :: "json list"
    by (induction xs) auto
  moreover assume "x \<in> set (content_of v)"
  ultimately show ?thesis using content_size [of v] by fastforce
qed

function textContent :: "json \<Rightarrow> string" where
  "textContent v =
     (if \<not> is_json_node v then []
      else (case json_string (json_field ''text'' v) of None \<Rightarrow> [] | Some s \<Rightarrow> s) @
        concat (map textContent (content_of v)))"
  by pat_completeness auto

termination
  by (relation "measure size") (simp_all add: content_member)

declare textContent.simps [simp del]

definition linkTitle :: "json \<Rightarrow> string" where
  "linkTitle node =
     (case content_of node of
        [] \<Rightarrow> []
      | first # _ \<Rightarrow>
          if is_json_node first \<and> json_field ''type'' first = Some (JStr ''paragraph'')
          then js_trim (textContent first) else [])"

text \<open>What one node adds to the map.\<close>

definition record_link :: "json \<Rightarrow> link_map \<Rightarrow> link_map" where
  "record_link v links =
     (let attrs = json_field ''attrs'' v
      in case (json_string (opt_field ''taskId'' attrs), json_string (opt_field ''blockId'' attrs)) of
           (Some taskId, Some blockId) \<Rightarrow>
             if json_field ''type'' v = Some (JStr ''check_item'') \<and> IDENTIFIER taskId \<and> IDENTIFIER blockId \<and>
                taskId \<noteq> blockId \<and> linkTitle v \<noteq> []
             then omap_set taskId
               (if omap_has links taskId then None
                else Some \<lparr>dl_blockId = blockId, dl_title = linkTitle v,
                  dl_checked = (opt_field ''checked'' attrs = Some (JBool True)),
                  dl_dueDate = (case json_string (opt_field ''dueDate'' attrs) of
                      None \<Rightarrow> None | Some d \<Rightarrow> if isDateKey d then Some d else None)\<rparr>) links
             else links
         | _ \<Rightarrow> links)"

function collectLinks :: "json \<Rightarrow> link_map \<Rightarrow> link_map" where
  "collectLinks v links =
     (if \<not> is_json_node v then links
      else fold collectLinks (content_of v) (record_link v links))"
  by pat_completeness auto

termination
  by (relation "measure (\<lambda>(v, links). size v)") (simp_all add: content_member)

declare collectLinks.simps [simp del]

section \<open>Reconciliation\<close>

definition reconciledStatus :: "task_status \<Rightarrow> bool \<Rightarrow> task_status" where
  "reconciledStatus status checked =
     (if checked then Done else if status = Done then Todo else status)"

text \<open>The update of one task of the note; \<open>None\<close> when the record already agrees.\<close>

definition reconcile_task :: "string \<Rightarrow> link_map \<Rightarrow> number \<Rightarrow> workspace_task \<Rightarrow> workspace_task option" where
  "reconcile_task noteId links now task =
     (case omap_getd None links (k_id task) of
        None \<Rightarrow> Some (task\<lparr>k_source := None, k_detachedAt := Some now, k_updatedAt := now\<rparr>)
      | Some link \<Rightarrow>
          let status = reconciledStatus (k_status task) (dl_checked link)
          in if status \<noteq> k_status task \<or> dl_title link \<noteq> k_title task \<or> dl_dueDate link \<noteq> k_dueDate task \<or>
                Some (dl_blockId link) \<noteq> map_option ts_blockId (k_source task)
             then Some (task\<lparr>k_title := dl_title link, k_status := status, k_dueDate := dl_dueDate link,
                 k_source := Some \<lparr>ts_noteId = noteId, ts_blockId = dl_blockId link\<rparr>, k_updatedAt := now\<rparr>)
             else None)"

definition owned_by :: "string \<Rightarrow> workspace_task \<Rightarrow> bool" where
  "owned_by noteId task \<longleftrightarrow> (case k_source task of None \<Rightarrow> False | Some s \<Rightarrow> ts_noteId s = noteId)"

type_synonym task_map = "(string, workspace_task) omap"

definition reconcile_step :: "string \<Rightarrow> link_map \<Rightarrow> number \<Rightarrow> workspace_task \<Rightarrow> task_map \<times> bool \<Rightarrow> task_map \<times> bool" where
  "reconcile_step noteId links now task acc =
     (if \<not> owned_by noteId task then acc
      else case reconcile_task noteId links now task of
          None \<Rightarrow> acc
        | Some updated \<Rightarrow> (omap_set (k_id task) updated (fst acc), True))"

definition reconcileLinkedTasks :: "task_map \<Rightarrow> string \<Rightarrow> json \<Rightarrow> number \<Rightarrow> task_map reduced" where
  "reconcileLinkedTasks tasks noteId documentJson now =
     (let (next, changed) = fold (reconcile_step noteId (collectLinks documentJson []) now)
           (omap_values tasks) (tasks, False)
      in if changed then Changed next else Unchanged)"

section \<open>The map of tasks\<close>

definition task_map_ok :: "task_map \<Rightarrow> bool" where
  "task_map_ok m \<longleftrightarrow> omap_wf m \<and> list_all (\<lambda>(k, t). k_id t = k) m"

lemma task_map_ok_get: "task_map_ok m \<Longrightarrow> omap_get m k = Some t \<Longrightarrow> k_id t = k"
  unfolding task_map_ok_def by (auto simp: list_all_iff dest!: omap_get_in)

lemma task_map_ok_iff:
  "task_map_ok m \<longleftrightarrow> omap_wf m \<and> (\<forall>k t. omap_get m k = Some t \<longrightarrow> k_id t = k)"
  unfolding task_map_ok_def by (auto simp: list_all_iff dest: omap_get_in)

lemma reconcile_id: "reconcile_task noteId links now task = Some t \<Longrightarrow> k_id t = k_id task"
  by (auto simp: reconcile_task_def Let_def split: option.splits if_splits)

text \<open>The whole loop, task by task: a task of the note becomes its update, the others stay.\<close>

definition reconciled :: "string \<Rightarrow> link_map \<Rightarrow> number \<Rightarrow> workspace_task \<Rightarrow> workspace_task" where
  "reconciled noteId links now t =
     (if owned_by noteId t then (case reconcile_task noteId links now t of None \<Rightarrow> t | Some u \<Rightarrow> u) else t)"

definition needs_update :: "string \<Rightarrow> link_map \<Rightarrow> number \<Rightarrow> workspace_task \<Rightarrow> bool" where
  "needs_update noteId links now t \<longleftrightarrow> owned_by noteId t \<and> reconcile_task noteId links now t \<noteq> None"

lemma reconcile_fold:
  "distinct (map k_id ts) \<Longrightarrow>
    snd (fold (reconcile_step noteId links now) ts acc) = (snd acc \<or> list_ex (needs_update noteId links now) ts) \<and>
    (\<forall>k. omap_get (fst (fold (reconcile_step noteId links now) ts acc)) k =
      (case find (\<lambda>t. k_id t = k \<and> needs_update noteId links now t) ts of
         None \<Rightarrow> omap_get (fst acc) k
       | Some t \<Rightarrow> Some (reconciled noteId links now t)))"
proof (induction ts arbitrary: acc)
  case Nil
  then show ?case by simp
next
  case (Cons t ts)
  show ?case
  proof (cases "needs_update noteId links now t")
    case True
    then obtain u where u: "owned_by noteId t" "reconcile_task noteId links now t = Some u"
      by (auto simp: needs_update_def)
    have later: "find (\<lambda>t'. k_id t' = k_id t \<and> needs_update noteId links now t') ts = None"
      using Cons.prems by (simp add: find_None_iff) (metis image_eqI)
    have "reconcile_step noteId links now t acc = (omap_set (k_id t) u (fst acc), True)"
      using u by (simp add: reconcile_step_def)
    with Cons True u later show ?thesis by (auto simp: reconciled_def split: option.splits)
  next
    case False
    then have "reconcile_step noteId links now t acc = acc"
      by (auto simp: needs_update_def reconcile_step_def)
    with Cons False show ?thesis by simp
  qed
qed

lemma find_keyed:
  assumes "task_map_ok m"
  shows "find (\<lambda>t. k_id t = k \<and> P t) (omap_values m) =
    (case omap_get m k of None \<Rightarrow> None | Some t \<Rightarrow> if P t then Some t else None)"
  using assms
proof (induction m)
  case (Cons e m)
  obtain i t where e: "e = (i, t)" by (cases e)
  have ok: "task_map_ok m" and i: "k_id t = i" "i \<notin> set (omap_keys m)"
    using Cons.prems by (auto simp: task_map_ok_def e)
  show ?case
  proof (cases "k = i")
    case True
    have "omap_get m k = None" using i(2) True by (metis map_of_eq_None_iff set_map)
    with Cons.IH [OF ok] i True show ?thesis by (simp add: e)
  next
    case False
    with Cons.IH [OF ok] i show ?thesis by (simp add: e)
  qed
qed simp

lemma task_values_distinct: "task_map_ok m \<Longrightarrow> distinct (map k_id (omap_values m))"
proof -
  assume ok: "task_map_ok m"
  then have "map k_id (omap_values m) = omap_keys m" by (auto simp: task_map_ok_def list_all_iff)
  then show ?thesis using ok by (simp only: task_map_ok_def)
qed

lemma reconcile_get:
  assumes ok: "task_map_ok tasks"
  shows "\<exists>next. settle tasks (reconcileLinkedTasks tasks noteId doc now) = Some next \<and>
    (\<forall>k. omap_get next k = map_option (reconciled noteId (collectLinks doc []) now) (omap_get tasks k)) \<and>
    (reconcileLinkedTasks tasks noteId doc now = Unchanged \<longleftrightarrow>
      \<not> list_ex (needs_update noteId (collectLinks doc []) now) (omap_values tasks))"
proof -
  let ?links = "collectLinks doc []"
  let ?r = "fold (reconcile_step noteId ?links now) (omap_values tasks) (tasks, False)"
  note f = reconcile_fold [OF task_values_distinct [OF ok], of noteId ?links now "(tasks, False)"]
  have same: "reconciled noteId ?links now t = t" if "\<not> needs_update noteId ?links now t" for t
    using that by (auto simp: needs_update_def reconciled_def split: option.splits)
  have get: "omap_get (fst ?r) k = map_option (reconciled noteId ?links now) (omap_get tasks k)" for k
    using f same by (auto simp: find_keyed [OF ok] split: option.splits)
  show ?thesis
  proof (cases "snd ?r")
    case True
    then have "reconcileLinkedTasks tasks noteId doc now = Changed (fst ?r)"
      by (simp add: reconcileLinkedTasks_def case_prod_beta)
    with get f True show ?thesis by simp
  next
    case False
    then have "reconcileLinkedTasks tasks noteId doc now = Unchanged"
      by (simp add: reconcileLinkedTasks_def case_prod_beta)
    moreover have none: "\<not> list_ex (needs_update noteId ?links now) (omap_values tasks)" using f False by simp
    moreover have "map_option (reconciled noteId ?links now) (omap_get tasks k) = omap_get tasks k" for k
      using none same by (cases "omap_get tasks k") (force simp: list_ex_iff dest: omap_get_in)+
    ultimately show ?thesis by simp
  qed
qed

lemma reconciled_settled:
  "\<not> needs_update noteId links later (reconciled noteId links now t)"
  by (auto simp: needs_update_def reconciled_def reconcile_task_def owned_by_def reconciledStatus_def Let_def
      split: option.splits if_splits)

lemma reconcile_ok:
  assumes "task_map_ok tasks" and "reconcileLinkedTasks tasks noteId doc now = Changed next"
  shows "task_map_ok next"
proof -
  have "task_map_ok (fst (fold (reconcile_step noteId links now) ts acc))" if "task_map_ok (fst acc)" for links ts acc
    using that
  proof (induction ts arbitrary: acc)
    case (Cons t ts)
    have "task_map_ok (fst (reconcile_step noteId links now t acc))"
      using Cons.prems
      by (auto simp: reconcile_step_def task_map_ok_iff reconcile_id simp del: map_of_eq_Some_iff split: option.splits)
    with Cons.IH show ?case by simp
  qed simp
  from this [of "(tasks, False)"] assms show ?thesis
    by (auto simp: reconcileLinkedTasks_def case_prod_beta split: if_splits)
qed

section \<open>What a save promises its tasks\<close>

text \<open>
  The specification. The nodes of a document in order, the link a node is, and the link of a task: the only
  one of the document that names it.
\<close>

function doc_nodes :: "json \<Rightarrow> json list" where
  "doc_nodes v = (if is_json_node v then v # concat (map doc_nodes (content_of v)) else [])"
  by pat_completeness auto

termination
  by (relation "measure size") (simp_all add: content_member)

declare doc_nodes.simps [simp del]

definition link_of :: "json \<Rightarrow> (string \<times> document_link) option" where
  "link_of v =
     (let attrs = json_field ''attrs'' v
      in case (json_string (opt_field ''taskId'' attrs), json_string (opt_field ''blockId'' attrs)) of
           (Some taskId, Some blockId) \<Rightarrow>
             if json_field ''type'' v = Some (JStr ''check_item'') \<and> IDENTIFIER taskId \<and> IDENTIFIER blockId \<and>
                taskId \<noteq> blockId \<and> linkTitle v \<noteq> []
             then Some (taskId, \<lparr>dl_blockId = blockId, dl_title = linkTitle v,
               dl_checked = (opt_field ''checked'' attrs = Some (JBool True)),
               dl_dueDate = (case json_string (opt_field ''dueDate'' attrs) of
                   Some d \<Rightarrow> if isDateKey d then Some d else None | None \<Rightarrow> None)\<rparr>)
             else None
         | _ \<Rightarrow> None)"

definition only_link :: "json \<Rightarrow> string \<Rightarrow> document_link option" where
  "only_link documentJson taskId =
     (case filter (\<lambda>(i, l). i = taskId) (List.map_filter link_of (doc_nodes documentJson)) of
        [(i, l)] \<Rightarrow> Some l | _ \<Rightarrow> None)"

text \<open>A task of the note shows what its link shows, and is stamped when that changes it; without a link it is detached.
  A checked item makes a task done, an unchecked one reopens a done task.\<close>

definition as_linked :: "string \<Rightarrow> document_link \<Rightarrow> workspace_task \<Rightarrow> workspace_task" where
  "as_linked noteId link t = t\<lparr>k_title := dl_title link, k_dueDate := dl_dueDate link,
     k_status := (if dl_checked link then Done else if k_status t = Done then Todo else k_status t),
     k_source := Some \<lparr>ts_noteId = noteId, ts_blockId = dl_blockId link\<rparr>\<rparr>"

definition after_save :: "string \<Rightarrow> json \<Rightarrow> number \<Rightarrow> workspace_task \<Rightarrow> workspace_task" where
  "after_save noteId documentJson now t =
     (if map_option ts_noteId (k_source t) \<noteq> Some noteId then t
      else case only_link documentJson (k_id t) of
          None \<Rightarrow> t\<lparr>k_source := None, k_detachedAt := Some now, k_updatedAt := now\<rparr>
        | Some link \<Rightarrow> if as_linked noteId link t = t then t else (as_linked noteId link t)\<lparr>k_updatedAt := now\<rparr>)"

lemma record_link_of:
  "record_link v links = (case link_of v of None \<Rightarrow> links
     | Some (i, l) \<Rightarrow> omap_set i (if omap_has links i then None else Some l) links)"
  by (simp add: record_link_def link_of_def Let_def split: option.split)

lemma collect_nodes: "collectLinks v links = fold record_link (doc_nodes v) links"
proof (induction v arbitrary: links rule: doc_nodes.induct)
  case (1 v)
  show ?case
  proof (cases "is_json_node v")
    case True
    have "fold collectLinks vs links = fold record_link (concat (map doc_nodes vs)) links"
      if "set vs \<subseteq> set (content_of v)" for vs links
      using that 1 [OF True] by (induction vs arbitrary: links) simp_all
    from this [of "content_of v" "record_link v links"] show ?thesis
      using True by (simp add: collectLinks.simps [of v] doc_nodes.simps [of v])
  qed (simp add: collectLinks.simps [of v] doc_nodes.simps [of v])
qed

definition links_named :: "json list \<Rightarrow> string \<Rightarrow> document_link list" where
  "links_named vs i = map snd (filter (\<lambda>(j, l). j = i) (List.map_filter link_of vs))"

lemma links_named_Cons:
  "links_named (v # vs) i = (case link_of v of Some (j, l) \<Rightarrow> if j = i then l # links_named vs i else links_named vs i
     | None \<Rightarrow> links_named vs i)"
  by (simp add: links_named_def List.map_filter_simps split: option.split prod.split)

lemma recorded_get:
  "omap_get (fold record_link vs links) i =
     (case links_named vs i of
        [] \<Rightarrow> omap_get links i
      | [l] \<Rightarrow> if omap_has links i then Some None else Some (Some l)
      | _ \<Rightarrow> Some None)"
proof (induction vs arbitrary: links)
  case Nil
  then show ?case by (simp add: links_named_def List.map_filter_simps)
next
  case (Cons v vs)
  show ?case
  proof (cases "link_of v")
    case None
    with Cons show ?thesis by (simp add: links_named_Cons record_link_of)
  next
    case (Some p)
    obtain j l where p: "p = (j, l)" by (cases p)
    let ?links = "omap_set j (if omap_has links j then None else Some l) links"
    have "omap_has ?links i \<longleftrightarrow> j = i \<or> omap_has links i" by (auto simp: omap_has_get)
    with Cons [of ?links] Some p show ?thesis
      by (cases "links_named vs i") (auto simp: links_named_Cons record_link_of split: list.split)
  qed
qed

lemma only_link_collected: "omap_getd None (collectLinks doc []) i = only_link doc i"
proof -
  have "only_link doc i = (case links_named (doc_nodes doc) i of [l] \<Rightarrow> Some l | _ \<Rightarrow> None)"
    by (auto simp: only_link_def links_named_def split: list.split)
  then show ?thesis
    by (simp add: omap_getd_def collect_nodes recorded_get omap_has_def split: list.split)
qed

lemma reconciled_after_save: "reconciled noteId (collectLinks doc []) now t = after_save noteId doc now t"
proof (cases "owned_by noteId t")
  case False
  then show ?thesis by (auto simp: reconciled_def after_save_def owned_by_def split: option.splits)
next
  case True
  then obtain s where s: "k_source t = Some s" "ts_noteId s = noteId" by (auto simp: owned_by_def split: option.splits)
  show ?thesis
  proof (cases "only_link doc (k_id t)")
    case None
    with True s show ?thesis
      by (simp add: reconciled_def after_save_def reconcile_task_def only_link_collected)
  next
    case (Some link)
    have "as_linked noteId link t = t \<longleftrightarrow> reconciledStatus (k_status t) (dl_checked link) = k_status t \<and>
        dl_title link = k_title t \<and> dl_dueDate link = k_dueDate t \<and> dl_blockId link = ts_blockId s"
      using s by (cases t; cases s) (auto simp: as_linked_def reconciledStatus_def)
    with Some True s show ?thesis
      by (simp add: reconciled_def after_save_def reconcile_task_def only_link_collected Let_def as_linked_def reconciledStatus_def)
  qed
qed

text \<open>C33. Reconciling after a save computes the specification by the document itself: a task of the note whose id exactly one valid checklist item of the document names shows that item (title, due date, block, done or reopened) and is stamped when this changes it, a task named by none or by several is detached, every other task is untouched, and a second pass changes nothing.\<close>

theorem reconcile_follows_document:
  assumes "task_map_ok tasks"
  shows "\<exists>tasks'. settle tasks (reconcileLinkedTasks tasks noteId documentJson now) = Some tasks' \<and>
    (\<forall>k. omap_get tasks' k = map_option (after_save noteId documentJson now) (omap_get tasks k)) \<and>
    (\<forall>later. reconcileLinkedTasks tasks' noteId documentJson later = Unchanged)"
proof -
  from reconcile_get [OF assms, of noteId documentJson now] obtain tasks' where
    s: "settle tasks (reconcileLinkedTasks tasks noteId documentJson now) = Some tasks'"
    and get: "\<forall>k. omap_get tasks' k =
      map_option (reconciled noteId (collectLinks documentJson []) now) (omap_get tasks k)" by blast
  have ok: "task_map_ok tasks'"
    using s assms reconcile_ok [OF assms, of noteId documentJson now tasks']
    by (cases "reconcileLinkedTasks tasks noteId documentJson now") auto
  have "\<not> needs_update noteId (collectLinks documentJson []) later u" if "u \<in> set (omap_values tasks')" for u later
  proof -
    from that obtain k where "(k, u) \<in> set tasks'" by auto
    then have "omap_get tasks' k = Some u" using ok by (simp add: task_map_ok_def)
    with get obtain t where "u = reconciled noteId (collectLinks documentJson []) now t"
      by (auto simp del: map_of_eq_Some_iff)
    then show ?thesis by (simp add: reconciled_settled)
  qed
  then have "reconcileLinkedTasks tasks' noteId documentJson later = Unchanged" for later
    using reconcile_get [OF ok, of noteId documentJson later] by (auto simp: list_ex_iff)
  moreover have "(\<lambda>t. reconciled noteId (collectLinks documentJson []) now t) = after_save noteId documentJson now"
    by (rule ext) (rule reconciled_after_save)
  ultimately show ?thesis using s get by auto
qed

definition sample_task :: workspace_task where
  "sample_task = \<lparr>k_id = ''t'', k_title = ''Buy'', k_status = Todo, k_priority = Low, k_dueDate = None,
     k_description = [], k_tagIds = [], k_assigneeIds = [],
     k_source = Some \<lparr>ts_noteId = ''n'', ts_blockId = ''b''\<rparr>, k_detachedAt = None, k_createdAt = 0, k_updatedAt = 0\<rparr>"

definition checklist :: json where
  "checklist = JObj [(''type'', JStr ''doc''), (''content'', JArr [JObj [(''type'', JStr ''check_item''),
     (''attrs'', JObj [(''taskId'', JStr ''t''), (''blockId'', JStr ''b''), (''checked'', JBool True)]),
     (''content'', JArr [JObj [(''type'', JStr ''paragraph''),
        (''content'', JArr [JObj [(''type'', JStr ''text''), (''text'', JStr '' Buy milk '')]])]])]])]"

theorem reconcile_follows_document_witness:
  "\<exists>next. settle [(''t'', sample_task)] (reconcileLinkedTasks [(''t'', sample_task)] ''n'' checklist 7) = Some next \<and>
     map_option k_title (omap_get next ''t'') = Some ''Buy milk'' \<and>
     map_option k_status (omap_get next ''t'') = Some Done \<and> map_option k_updatedAt (omap_get next ''t'') = Some 7"
proof -
  have "task_map_ok [(''t'', sample_task)]" by code_simp
  from reconcile_follows_document [OF this, of "''n''" checklist 7] obtain m where
    m: "settle [(''t'', sample_task)] (reconcileLinkedTasks [(''t'', sample_task)] ''n'' checklist 7) = Some m"
      "omap_get m ''t'' = map_option (after_save ''n'' checklist 7) (omap_get [(''t'', sample_task)] ''t'')"
    by blast
  have "k_title (after_save ''n'' checklist 7 sample_task) = ''Buy milk'' \<and> k_status (after_save ''n'' checklist 7 sample_task) = Done \<and>
      k_updatedAt (after_save ''n'' checklist 7 sample_task) = 7" by code_simp
  with m show ?thesis by simp
qed

end
