(* ===== verification/Store_State.thy ===== *)
theory Store_State
  imports Panes Operations References Properties Linked_Tasks
begin

text \<open>
  The renderer store's state (\<open>store/types.ts\<close>) and the pure helpers of \<open>store/store.ts\<close>:
  co-visits, document and node comparison, \<open>derive\<close>, \<open>createInitialState\<close>, and session
  restore. A JavaScript set is a duplicate-free list in insertion order.
\<close>

section \<open>State\<close>

record document_record =
  dr_noteId :: string
  dr_documentJson :: json
  dr_markdown :: string
  dr_revision :: number
  dr_wordCount :: number
  dr_hasLosslessMarkdown :: bool
  dr_sealed :: "sealed_payload nullable"

record note_metadata =
  md_title :: string
  md_wordCount :: number
  md_updatedAt :: number

record co_visit =
  cv_count :: nat
  cv_lastVisitedAt :: number

type_synonym co_visits = "(string, (string, co_visit) omap) omap"

datatype tree_selection_mode = Replace | Toggle | Range

datatype editor_mode = Rendered | Raw

text \<open>\<open>outgoingReferences\<close> and \<open>incomingReferences\<close> are the two halves of \<open>st_references\<close>,
  which is what \<open>referenceState(current)\<close> reads.\<close>

record renderer_state =
  st_sourceNodes :: node_map
  st_nodes :: record_map
  st_childrenByParent :: "(string option, string list) omap"
  st_nodeOrder :: "string list"
  st_noteIds :: "string list"
  st_visibleIds :: "string list"
  st_expandedIds :: "string list"
  st_panes :: "pane_state list"
  st_splitOrientation :: split_orientation
  st_splitRatio :: number
  st_focusedPaneId :: string
  st_closedTabsByPaneId :: closed_stacks
  st_editorModeByNoteId :: "(string, editor_mode) omap"
  st_annotatingNoteId :: "string option"
  st_activeNoteId :: "string option"
  st_focusedNodeId :: "string option"
  st_selectedNodeIds :: "string list"
  st_selectionAnchorId :: "string option"
  st_editingNodeId :: "string option"
  st_documents :: "(string, document_record) omap"
  st_metadata :: "(string, note_metadata) omap"
  st_historyHeaders :: "(string, history_header list) omap"
  st_settings :: workspace_settings
  st_tags :: "(string, tag_record) omap"
  st_people :: "(string, person_record) omap"
  st_images :: "(string, workspace_image) omap"
  st_mediaMetadata :: "(string, media_metadata) omap"
  st_tasks :: task_map
  st_annotations :: "(string, workspace_annotation) omap"
  st_prompts :: "(string, workspace_prompt) omap"
  st_propertiesByNoteId :: "(string, note_properties) omap"
  st_propertyTemplates :: "property_template list"
  st_importReceipts :: "import_receipt list"
  st_references :: reference_projection
  st_coVisits :: co_visits
  st_noteLock :: note_lock_state

section \<open>Co-visits\<close>

definition MAX_CO_VISIT_SOURCES :: nat where "MAX_CO_VISIT_SOURCES = 100"
definition MAX_CO_VISIT_NEIGHBOURS :: nat where "MAX_CO_VISIT_NEIGHBOURS = 12"

text \<open>Most visited first, then most recent.\<close>

definition visit_cmp :: "string \<times> co_visit \<Rightarrow> string \<times> co_visit \<Rightarrow> number" where
  "visit_cmp a b =
     (if cv_count (snd a) \<noteq> cv_count (snd b) then of_nat (cv_count (snd b)) - of_nat (cv_count (snd a))
      else cv_lastVisitedAt (snd b) - cv_lastVisitedAt (snd a))"

definition visit_edge :: "number \<Rightarrow> string \<Rightarrow> string \<Rightarrow> co_visits \<Rightarrow> co_visits" where
  "visit_edge now from_id to_id visits =
     (let neighbours = omap_getd [] visits from_id;
          count = (case omap_get neighbours to_id of None \<Rightarrow> 0 | Some p \<Rightarrow> cv_count p);
          entries = omap_set to_id \<lparr>cv_count = count + 1, cv_lastVisitedAt = now\<rparr> neighbours
      in omap_set from_id (take MAX_CO_VISIT_NEIGHBOURS (js_sort visit_cmp entries)) visits)"

text \<open>The latest visit of a source; a source's neighbours are never empty.\<close>

definition latest_visit :: "(string, co_visit) omap \<Rightarrow> number" where
  "latest_visit entries =
     (case map cv_lastVisitedAt (omap_values entries) of [] \<Rightarrow> 0 | t # ts \<Rightarrow> fold max ts t)"

definition latest_cmp :: "string \<times> (string, co_visit) omap \<Rightarrow> string \<times> (string, co_visit) omap \<Rightarrow> number" where
  "latest_cmp a b = latest_visit (snd a) - latest_visit (snd b)"

definition oldest_source :: "co_visits \<Rightarrow> string" where
  "oldest_source visits = (case js_sort latest_cmp visits of [] \<Rightarrow> [] | e # _ \<Rightarrow> fst e)"

function drop_oldest :: "co_visits \<Rightarrow> co_visits" where
  "drop_oldest visits =
     (if length visits > MAX_CO_VISIT_SOURCES \<and> oldest_source visits \<noteq> []
      then drop_oldest (omap_delete (oldest_source visits) visits) else visits)"
  by pat_completeness auto

lemma oldest_present: "visits \<noteq> [] \<Longrightarrow> oldest_source visits \<in> set (omap_keys visits)"
proof -
  assume "visits \<noteq> []"
  then have "length (js_sort latest_cmp visits) \<noteq> 0" by simp
  then obtain e es where s: "js_sort latest_cmp visits = e # es"
    by (metis length_0_conv neq_Nil_conv)
  have "e \<in> set (js_sort latest_cmp visits)" by (simp add: s del: js_sort_set)
  then have "e \<in> set visits" by simp
  with s show ?thesis by (simp add: oldest_source_def)
qed

lemma delete_shorter: "k \<in> set (omap_keys m) \<Longrightarrow> length (omap_delete k m) < length m"
proof -
  assume "k \<in> set (omap_keys m)"
  then have "length (filter (\<lambda>k'. k' \<noteq> k) (omap_keys m)) < length (omap_keys m)"
    by (intro length_filter_less) auto
  then show ?thesis by (metis length_map omap_keys_delete)
qed

termination drop_oldest
proof (relation "measure length")
  fix visits :: co_visits
  assume "length visits > MAX_CO_VISIT_SOURCES \<and> oldest_source visits \<noteq> []"
  then have "visits \<noteq> []" by auto
  then show "(omap_delete (oldest_source visits) visits, visits) \<in> measure length"
    using delete_shorter [OF oldest_present] by simp
qed simp

declare drop_oldest.simps [simp del]

definition recordCoVisit :: "number \<Rightarrow> co_visits \<Rightarrow> string \<Rightarrow> string \<Rightarrow> co_visits" where
  "recordCoVisit now current sourceId targetId =
     drop_oldest (visit_edge now targetId sourceId (visit_edge now sourceId targetId current))"

section \<open>Documents and nodes\<close>

definition hasLosslessMarkdown :: "json \<Rightarrow> bool" where
  "hasLosslessMarkdown documentJson =
     list_ex (\<lambda>n. json_field ''type'' n = Some (JStr ''raw_markdown'')) (content_of documentJson)"

text \<open>\<open>None\<close> means the fresh record is adopted.\<close>

definition retainedDocument :: "document_record option \<Rightarrow> workspace_document \<Rightarrow> document_record option" where
  "retainedDocument current fresh =
     (case current of
        None \<Rightarrow> None
      | Some c \<Rightarrow>
          if dr_revision c > d_revision fresh then Some c
          else if dr_revision c = d_revision fresh \<and> dr_markdown c = d_markdown fresh then Some c
          else None)"

definition documentFromRecord :: "workspace_document \<Rightarrow> document_record" where
  "documentFromRecord fresh =
     \<lparr>dr_noteId = d_noteId fresh, dr_documentJson = d_documentJson fresh, dr_markdown = d_markdown fresh,
      dr_revision = d_revision fresh, dr_wordCount = d_wordCount fresh,
      dr_hasLosslessMarkdown = hasLosslessMarkdown (d_documentJson fresh), dr_sealed = d_sealed fresh\<rparr>"

definition or_else :: "'a \<Rightarrow> 'a option \<Rightarrow> 'a" where
  "or_else d v = (case v of None \<Rightarrow> d | Some x \<Rightarrow> x)"

definition nodePlacementEqual :: "workspace_node \<Rightarrow> workspace_node \<Rightarrow> bool" where
  "nodePlacementEqual l r \<longleftrightarrow>
     n_id l = n_id r \<and> n_kind l = n_kind r \<and> n_parentId l = n_parentId r \<and> n_rank l = n_rank r \<and>
     n_title l = n_title r \<and> n_deletedAt l = n_deletedAt r \<and> n_pinnedAt l = n_pinnedAt r \<and>
     nullish (n_lockedAt l) = nullish (n_lockedAt r) \<and>
     nullish (n_coverImageId l) = nullish (n_coverImageId r) \<and>
     nullish (n_coverGradient l) = nullish (n_coverGradient r) \<and>
     or_else False (n_coverFullWidth l) = or_else False (n_coverFullWidth r) \<and>
     or_else 50 (n_coverPositionX l) = or_else 50 (n_coverPositionX r) \<and>
     or_else 50 (n_coverPositionY l) = or_else 50 (n_coverPositionY r) \<and>
     or_else 1 (n_coverZoom l) = or_else 1 (n_coverZoom r)"

definition nodeRecordEqual :: "workspace_node \<Rightarrow> workspace_node \<Rightarrow> bool" where
  "nodeRecordEqual l r \<longleftrightarrow> nodePlacementEqual l r \<and> n_icon l = n_icon r \<and>
     n_createdAt l = n_createdAt r \<and> n_updatedAt l = n_updatedAt r"

definition nodeListPlacementEqual :: "node_map \<Rightarrow> node_map \<Rightarrow> bool" where
  "nodeListPlacementEqual current fresh \<longleftrightarrow> length current = length fresh \<and>
     list_all (\<lambda>(i, n). case omap_get current i of None \<Rightarrow> False | Some e \<Rightarrow> nodePlacementEqual e n) fresh"

definition merge_entry :: "node_map \<Rightarrow> string \<times> workspace_node \<Rightarrow> workspace_node \<times> bool" where
  "merge_entry current e =
     (case omap_get current (fst e) of
        None \<Rightarrow> (snd e, True)
      | Some x \<Rightarrow> if nodeRecordEqual x (snd e) then (x, False) else (snd e, True))"

definition mergeNodeRecords :: "node_map \<Rightarrow> node_map \<Rightarrow> node_map" where
  "mergeNodeRecords current fresh =
     (let changed = length current \<noteq> length fresh \<or> list_ex (\<lambda>e. snd (merge_entry current e)) fresh
      in if changed then map (\<lambda>e. (fst e, fst (merge_entry current e))) fresh else current)"

definition metadataFor :: "workspace_node \<Rightarrow> document_record option \<Rightarrow> note_metadata option \<Rightarrow> note_metadata" where
  "metadataFor node document previous =
     (let wordCount = (case document of None \<Rightarrow> 0 | Some d \<Rightarrow> dr_wordCount d);
          fresh = \<lparr>md_title = n_title node, md_wordCount = wordCount, md_updatedAt = n_updatedAt node\<rparr>
      in case previous of
           None \<Rightarrow> fresh
         | Some p \<Rightarrow> if md_title p = n_title node \<and> md_wordCount p = wordCount \<and> md_updatedAt p = n_updatedAt node
             then p else fresh)"

definition compareHistoryHeaders :: "history_header \<Rightarrow> history_header \<Rightarrow> number" where
  "compareHistoryHeaders l r =
     (if h_createdAt l \<noteq> h_createdAt r then h_createdAt r - h_createdAt l
      else if h_versionId l = h_versionId r then 0
      else if h_versionId l < h_versionId r then -1 else 1)"

section \<open>Derive\<close>

definition opensNotesInTabs :: "workspace_settings \<Rightarrow> bool" where
  "opensNotesInTabs settings \<longleftrightarrow> omap_get (s_extra settings) ''openNotesInTabs'' = Some (JBool True)"

definition note_metadata_of :: "(string, document_record) omap \<Rightarrow> workspace_node \<Rightarrow> note_metadata" where
  "note_metadata_of documents n =
     \<lparr>md_title = n_title n,
      md_wordCount = (case omap_get documents (n_id n) of None \<Rightarrow> 0 | Some d \<Rightarrow> dr_wordCount d),
      md_updatedAt = n_updatedAt n\<rparr>"

definition kept :: "('k, 'v) omap \<Rightarrow> 'k option \<Rightarrow> 'k option" where
  "kept m v = (case v of None \<Rightarrow> None | Some i \<Rightarrow> if omap_has m i then Some i else None)"

text \<open>The view over an ordered node list. The derived fields of the argument are not read.\<close>

definition derive_view :: "renderer_state \<Rightarrow> workspace_node list \<Rightarrow> string list \<Rightarrow> renderer_state" where
  "derive_view s ordered visible =
     (let index = buildNodeIndex ordered;
          notes = filter (\<lambda>n. n_kind n = KNote) ordered;
          metadata = omap_from n_id (note_metadata_of (st_documents s)) notes;
          active = kept metadata (st_activeNoteId s)
      in s\<lparr>st_nodes := ix_nodes index, st_childrenByParent := ix_children index, st_nodeOrder := ix_order index,
           st_noteIds := map n_id (filter (\<lambda>n. n_parentId n \<noteq> Some JOURNAL_ROOT_ID) notes),
           st_visibleIds := visible,
           st_panes := syncPanes (st_panes s) active (st_sourceNodes s) (opensNotesInTabs (st_settings s)),
           st_activeNoteId := active,
           st_focusedNodeId := (case kept (ix_nodes index) (st_focusedNodeId s) of Some i \<Rightarrow> Some i | None \<Rightarrow> active),
           st_selectedNodeIds := filter (omap_has (ix_nodes index)) (st_selectedNodeIds s),
           st_selectionAnchorId := kept (ix_nodes index) (st_selectionAnchorId s),
           st_editingNodeId := kept (ix_nodes index) (st_editingNodeId s),
           st_metadata := metadata\<rparr>)"

definition derive :: "renderer_state \<Rightarrow> renderer_state option" where
  "derive s =
     (case orderAvailableNodes (omap_values (st_sourceNodes s)) of
        None \<Rightarrow> None
      | Some ordered \<Rightarrow>
          let index = buildNodeIndex ordered
          in map_option (derive_view s ordered)
               (flattenVisible (ix_nodes index) (ix_children index) (st_expandedIds s)))"

definition derived :: "renderer_state \<Rightarrow> renderer_state reduced" where
  "derived s = (case derive s of None \<Rightarrow> Diverges | Some s' \<Rightarrow> Changed s')"

section \<open>Initial state\<close>

definition UNCONFIGURED_NOTE_LOCK :: note_lock_state where
  "UNCONFIGURED_NOTE_LOCK = \<lparr>l_configured = False, l_unlocked = False, l_kind = None, l_hint = None,
     l_failedAttempts = 0, l_nextAttemptAt = None, l_lockedNoteCount = 0\<rparr>"

definition or_empty :: "'a list option \<Rightarrow> 'a list" where
  "or_empty v = (case v of None \<Rightarrow> [] | Some xs \<Rightarrow> xs)"

definition is_folder :: "node_map \<Rightarrow> string \<Rightarrow> bool" where
  "is_folder nodes i = (case omap_get nodes i of None \<Rightarrow> False | Some n \<Rightarrow> n_kind n = KFolder)"

definition sort_values :: "('v \<Rightarrow> 'v \<Rightarrow> number) \<Rightarrow> ('k, 'v list) omap \<Rightarrow> ('k, 'v list) omap" where
  "sort_values cmp m = map (\<lambda>(k, v). (k, js_sort cmp v)) m"

definition initial_base :: "workspace_snapshot \<Rightarrow> string list option \<Rightarrow> reference_bootstrap \<Rightarrow> renderer_state" where
  "initial_base snapshot expandedFolderIds references =
     (let sourceNodes = omap_from n_id (\<lambda>n. n) (sn_nodes snapshot);
          requested = (case expandedFolderIds of
              None \<Rightarrow> map n_id (filter (\<lambda>n. n_kind n = KFolder) (sn_nodes snapshot)) | Some ids \<Rightarrow> ids);
          remembered = (if s_rememberLastNote (sn_settings snapshot) then sn_activeNoteId snapshot else None)
      in \<lparr>st_sourceNodes = sourceNodes, st_nodes = [], st_childrenByParent = [], st_nodeOrder = [],
          st_noteIds = [], st_visibleIds = [],
          st_expandedIds = oset_from (filter (is_folder sourceNodes) requested),
          st_panes = defaultPanes remembered, st_splitOrientation = DEFAULT_SPLIT_ORIENTATION,
          st_splitRatio = DEFAULT_SPLIT_RATIO, st_focusedPaneId = PRIMARY_PANE_ID,
          st_closedTabsByPaneId = [], st_editorModeByNoteId = [], st_annotatingNoteId = None,
          st_activeNoteId = remembered, st_focusedNodeId = remembered, st_selectedNodeIds = [],
          st_selectionAnchorId = None, st_editingNodeId = None,
          st_documents = omap_from d_noteId documentFromRecord (sn_documents snapshot),
          st_metadata = [],
          st_historyHeaders = sort_values compareHistoryHeaders
            (group_by (\<lambda>_. True) h_noteId (\<lambda>h. h) (sn_historyHeaders snapshot)),
          st_settings = sn_settings snapshot,
          st_tags = omap_from tag_id (\<lambda>t. t) (rb_tags references),
          st_people = omap_from person_id (\<lambda>p. p) (rb_people references),
          st_images = omap_from img_id (\<lambda>i. i) (or_empty (sn_images snapshot)),
          st_mediaMetadata = omap_from mm_contentHash (\<lambda>m. m) (or_empty (sn_mediaMetadata snapshot)),
          st_tasks = omap_from k_id (\<lambda>t. t) (or_empty (sn_tasks snapshot)),
          st_annotations = omap_from a_id (\<lambda>a. a) (or_empty (sn_annotations snapshot)),
          st_prompts = omap_from pr_id (\<lambda>p. p) (or_empty (sn_prompts snapshot)),
          st_propertiesByNoteId = sort_values (\<lambda>l r. p_position l - p_position r)
            (group_by (\<lambda>_. True) p_noteId (\<lambda>p. p) (or_empty (sn_properties snapshot))),
          st_propertyTemplates = js_sort (\<lambda>l r. t_position l - t_position r)
            (or_empty (sn_propertyTemplates snapshot)),
          st_importReceipts = or_empty (sn_importReceipts snapshot),
          st_references = buildReferenceProjection (rb_references references),
          st_coVisits = [], st_noteLock = UNCONFIGURED_NOTE_LOCK\<rparr>)"

definition open_first_note :: "renderer_state \<Rightarrow> renderer_state" where
  "open_first_note s =
     (if st_activeNoteId s \<noteq> None then s
      else (case st_noteIds s of
          [] \<Rightarrow> s
        | first # _ \<Rightarrow>
            if first = [] then s
            else s\<lparr>st_activeNoteId := Some first, st_focusedNodeId := Some first,
                   st_panes := syncPanes (st_panes s) (Some first) (st_sourceNodes s) False\<rparr>))"

definition createInitialState :: "workspace_snapshot \<Rightarrow> string list option \<Rightarrow> reference_bootstrap \<Rightarrow>
    renderer_state option" where
  "createInitialState snapshot expandedFolderIds references =
     map_option open_first_note (derive (initial_base snapshot expandedFolderIds references))"

section \<open>Session restore\<close>

definition continuedNoteId :: "renderer_state \<Rightarrow> pane_layout \<Rightarrow> string option \<Rightarrow> string option" where
  "continuedNoteId current layout rememberedNoteId =
     (if \<not> s_rememberLastNote (st_settings current) then None
      else (case kept (st_metadata current) rememberedNoteId of
          Some i \<Rightarrow> Some i
        | None \<Rightarrow> kept (st_metadata current) (pn_active (primaryPane (ly_panes layout)))))"

definition restoreSession :: "renderer_state \<Rightarrow> pane_layout \<Rightarrow> string option \<Rightarrow> renderer_state" where
  "restoreSession current layout rememberedNoteId =
     (let activeNoteId = (case continuedNoteId current layout rememberedNoteId of
            Some i \<Rightarrow> Some i | None \<Rightarrow> st_activeNoteId current)
      in current\<lparr>st_activeNoteId := activeNoteId,
           st_focusedNodeId := (case activeNoteId of Some i \<Rightarrow> Some i | None \<Rightarrow> st_focusedNodeId current),
           st_panes := restorePanes (ly_panes layout) activeNoteId (st_sourceNodes current)
             (opensNotesInTabs (st_settings current)),
           st_splitOrientation := ly_orientation layout, st_splitRatio := ly_ratio layout\<rparr>)"

end
