(* ===== verification/Store_Reduce.thy ===== *)
theory Store_Reduce
  imports Store_State
begin

text \<open>
  The reducers of \<open>store/store.ts\<close>: \<open>reduceState\<close> for workspace operations (with the
  document save, the timestamp touch and the task detachment it shares),
  \<open>reduceImportBatch\<close> for large provider imports, \<open>reduceReferenceOperation\<close> for tags
  and people.
\<close>

definition settled :: "'a \<Rightarrow> 'a reduced \<Rightarrow> 'a" where
  "settled cur r = (case r of Changed x \<Rightarrow> x | _ \<Rightarrow> cur)"

lemma settled_simps [simp]:
  "settled cur Unchanged = cur" "settled cur (Changed x) = x" "settled cur Diverges = cur"
  by (simp_all add: settled_def)

section \<open>Saving a document\<close>

record saved_document =
  sv_noteId :: string
  sv_documentJson :: json
  sv_markdown :: string
  sv_wordCount :: number

definition saved_of :: "task_source_document \<Rightarrow> saved_document" where
  "saved_of d = \<lparr>sv_noteId = sd_noteId d, sv_documentJson = sd_documentJson d, sv_markdown = sd_markdown d,
     sv_wordCount = sd_wordCount d\<rparr>"

text \<open>\<open>if (existing) patched.set(key, change(existing))\<close>.\<close>

definition omap_patch :: "'k \<Rightarrow> ('v \<Rightarrow> 'v) \<Rightarrow> ('k, 'v) omap \<Rightarrow> ('k, 'v) omap" where
  "omap_patch k change m = (case omap_get m k of None \<Rightarrow> m | Some v \<Rightarrow> omap_set k (change v) m)"

definition touchedNote :: "renderer_state \<Rightarrow> string \<Rightarrow> number \<Rightarrow> renderer_state" where
  "touchedNote current noteId now = current\<lparr>
     st_sourceNodes := omap_patch noteId (\<lambda>n. n\<lparr>n_updatedAt := now\<rparr>) (st_sourceNodes current),
     st_metadata := omap_patch noteId (\<lambda>m. m\<lparr>md_updatedAt := now\<rparr>) (st_metadata current)\<rparr>"

definition with_references :: "reference_projection option \<Rightarrow> renderer_state \<Rightarrow> renderer_state" where
  "with_references projection s = (case projection of None \<Rightarrow> s | Some p \<Rightarrow> s\<lparr>st_references := p\<rparr>)"

definition write_document :: "saved_document \<Rightarrow> document_record \<Rightarrow> document_record" where
  "write_document saved existing = existing\<lparr>dr_documentJson := sv_documentJson saved,
     dr_markdown := sv_markdown saved, dr_wordCount := sv_wordCount saved,
     dr_hasLosslessMarkdown := hasLosslessMarkdown (sv_documentJson saved)\<rparr>"

definition withSavedDocument :: "renderer_state \<Rightarrow> saved_document option \<Rightarrow> number \<Rightarrow> renderer_state reduced" where
  "withSavedDocument current saved now =
     (case saved of None \<Rightarrow> Unchanged
      | Some sv \<Rightarrow>
          (case omap_get (st_documents current) (sv_noteId sv) of None \<Rightarrow> Unchanged
           | Some existing \<Rightarrow> Changed
               (with_references
                 (updateNoteReferences (st_references current) (sv_noteId sv) (extractReferences (sv_documentJson sv)))
                 (current\<lparr>
                   st_sourceNodes := omap_patch (sv_noteId sv) (\<lambda>n. n\<lparr>n_updatedAt := now\<rparr>) (st_sourceNodes current),
                   st_documents := omap_set (sv_noteId sv) (write_document sv existing) (st_documents current),
                   st_metadata := omap_patch (sv_noteId sv)
                     (\<lambda>m. m\<lparr>md_wordCount := sv_wordCount sv, md_updatedAt := now\<rparr>) (st_metadata current),
                   st_tasks := settled (st_tasks current)
                     (reconcileLinkedTasks (st_tasks current) (sv_noteId sv) (sv_documentJson sv) now)\<rparr>))))"

definition detach :: "number \<Rightarrow> workspace_task \<Rightarrow> workspace_task" where
  "detach now task = task\<lparr>k_source := None, k_detachedAt := Some now, k_updatedAt := now\<rparr>"

definition detachTasksForNotes :: "task_map \<Rightarrow> node_map \<Rightarrow> number \<Rightarrow> task_map" where
  "detachTasksForNotes tasks sourceNodes now =
     fold (\<lambda>t m. omap_set (k_id t) (detach now t) m)
       (filter (\<lambda>t. case k_source t of None \<Rightarrow> False | Some src \<Rightarrow> \<not> omap_has sourceNodes (ts_noteId src))
         (omap_values tasks))
       tasks"

section \<open>Tasks\<close>

definition save_with :: "renderer_state \<Rightarrow> task_source_document option \<Rightarrow> number \<Rightarrow> renderer_state" where
  "save_with current document now = settled current (withSavedDocument current (map_option saved_of document) now)"

definition set_task :: "workspace_task \<Rightarrow> renderer_state \<Rightarrow> renderer_state" where
  "set_task task s = s\<lparr>st_tasks := omap_set (k_id task) task (st_tasks s)\<rparr>"

definition reduce_task :: "renderer_state \<Rightarrow> workspace_operation \<Rightarrow> renderer_state reduced" where
  "reduce_task current operation =
     (case operation of
        CreateTask task \<Rightarrow>
          if omap_has (st_tasks current) (k_id task) then Unchanged else Changed (set_task task current)
      | PromoteChecklistTask task document \<Rightarrow>
          if omap_has (st_tasks current) (k_id task)
          then withSavedDocument current (Some (saved_of document)) (k_updatedAt task)
          else Changed (set_task task (save_with current (Some document) (k_updatedAt task)))
      | UpdateTask task document \<Rightarrow>
          if \<not> omap_has (st_tasks current) (k_id task) then Unchanged
          else Changed (set_task task (save_with current document (k_updatedAt task)))
      | DeleteTask i document now \<Rightarrow>
          if \<not> omap_has (st_tasks current) i then Unchanged
          else (let next = save_with current document now
                in Changed (next\<lparr>st_tasks := omap_delete i (st_tasks next)\<rparr>))
      | DetachTask i document now \<Rightarrow>
          (case omap_get (st_tasks current) i of None \<Rightarrow> Unchanged
           | Some task \<Rightarrow>
               let next = save_with current document now
               in Changed (next\<lparr>st_tasks := omap_set i (detach now task) (st_tasks next)\<rparr>))
      | _ \<Rightarrow> Unchanged)"

section \<open>Annotations\<close>

definition edit_annotation :: "renderer_state \<Rightarrow> string \<Rightarrow> (workspace_annotation \<Rightarrow> bool) \<Rightarrow>
    (workspace_annotation \<Rightarrow> workspace_annotation) \<Rightarrow> renderer_state reduced" where
  "edit_annotation current i accepts change =
     (case omap_get (st_annotations current) i of None \<Rightarrow> Unchanged
      | Some a \<Rightarrow> if accepts a
          then Changed (current\<lparr>st_annotations := omap_set (a_id a) (change a) (st_annotations current)\<rparr>)
          else Unchanged)"

definition has_comment :: "string \<Rightarrow> workspace_annotation \<Rightarrow> bool" where
  "has_comment commentId a = list_ex (\<lambda>c. c_id c = commentId) (a_comments a)"

definition reduce_annotation :: "renderer_state \<Rightarrow> workspace_operation \<Rightarrow> renderer_state reduced" where
  "reduce_annotation current operation =
     (case operation of
        CreateAnnotation a \<Rightarrow>
          if omap_has (st_annotations current) (a_id a) then Unchanged
          else Changed (current\<lparr>st_annotations := omap_set (a_id a) a (st_annotations current)\<rparr>)
      | AddAnnotationComment i c \<Rightarrow>
          edit_annotation current i (\<lambda>_. True) (\<lambda>a. a\<lparr>a_comments := a_comments a @ [c]\<rparr>)
      | UpdateAnnotationComment i commentId body now \<Rightarrow>
          edit_annotation current i (has_comment commentId)
            (\<lambda>a. a\<lparr>a_comments := map (\<lambda>c. if c_id c = commentId
               then c\<lparr>c_bodyMarkdown := body, c_updatedAt := now\<rparr> else c) (a_comments a)\<rparr>)
      | DeleteAnnotationComment i commentId \<Rightarrow>
          edit_annotation current i (has_comment commentId)
            (\<lambda>a. a\<lparr>a_comments := filter (\<lambda>c. c_id c \<noteq> commentId) (a_comments a)\<rparr>)
      | ResolveAnnotation i now \<Rightarrow>
          edit_annotation current i (\<lambda>_. True)
            (\<lambda>a. a\<lparr>a_status := AnnotationResolved, a_resolvedAt := Present now\<rparr>)
      | ReopenAnnotation i \<Rightarrow>
          edit_annotation current i (\<lambda>_. True) (\<lambda>a. a\<lparr>a_status := AnnotationOpen, a_resolvedAt := Null\<rparr>)
      | DeleteAnnotation i \<Rightarrow>
          if \<not> omap_has (st_annotations current) i then Unchanged
          else Changed (current\<lparr>st_annotations := omap_delete i (st_annotations current)\<rparr>)
      | _ \<Rightarrow> Unchanged)"

section \<open>Media, prompts, receipts, settings\<close>

definition set_media :: "renderer_state \<Rightarrow> media_metadata \<Rightarrow> renderer_state reduced" where
  "set_media current m =
     (let blank = (js_trim (mm_name m) = [] \<and> js_trim (mm_alt m) = [])
      in if blank \<and> \<not> omap_has (st_mediaMetadata current) (mm_contentHash m) then Unchanged
         else Changed (current\<lparr>st_mediaMetadata :=
           (if blank then omap_delete (mm_contentHash m) (st_mediaMetadata current)
            else omap_set (mm_contentHash m)
              (m\<lparr>mm_name := js_trim (mm_name m), mm_alt := js_trim (mm_alt m)\<rparr>) (st_mediaMetadata current))\<rparr>))"

definition same_receipt :: "import_receipt \<Rightarrow> import_receipt \<Rightarrow> bool" where
  "same_receipt a b \<longleftrightarrow> ir_provider a = ir_provider b \<and> ir_sourceKey a = ir_sourceKey b \<and>
     ir_sourcePath a = ir_sourcePath b"

definition set_active_note :: "renderer_state \<Rightarrow> string option \<Rightarrow> renderer_state reduced" where
  "set_active_note current noteId =
     (if (case noteId of None \<Rightarrow> False | Some i \<Rightarrow>
           (case omap_get (st_nodes current) i of None \<Rightarrow> True | Some r \<Rightarrow> nr_kind r \<noteq> KNote)) then Unchanged
      else if noteId = st_activeNoteId current then Unchanged
      else Changed (current\<lparr>st_activeNoteId := noteId,
             st_focusedNodeId := (case noteId of None \<Rightarrow> st_focusedNodeId current | Some i \<Rightarrow> Some i),
             st_panes := syncPanes (st_panes current) noteId (st_sourceNodes current)
               (opensNotesInTabs (st_settings current))\<rparr>))"

definition macros_json :: "(string \<times> string) list \<Rightarrow> json" where
  "macros_json macros = JObj (map (\<lambda>(k, v). (k, JStr v)) macros)"

definition keep_macros :: "workspace_settings \<Rightarrow> workspace_settings \<Rightarrow> workspace_settings" where
  "keep_macros current fresh = fresh\<lparr>s_extra :=
     (case omap_get (s_extra current) ''mathMacros'' of
        None \<Rightarrow> omap_delete ''mathMacros'' (s_extra fresh)
      | Some m \<Rightarrow> omap_set ''mathMacros'' m (s_extra fresh))\<rparr>"

definition reduce_workspace :: "renderer_state \<Rightarrow> workspace_operation \<Rightarrow> renderer_state reduced" where
  "reduce_workspace current operation =
     (case operation of
        SetMediaMetadata m \<Rightarrow> set_media current m
      | SetPrompt p \<Rightarrow> Changed (current\<lparr>st_prompts := omap_set (pr_id p) p (st_prompts current)\<rparr>)
      | DeletePrompt i \<Rightarrow>
          if \<not> omap_has (st_prompts current) i then Unchanged
          else Changed (current\<lparr>st_prompts := omap_delete i (st_prompts current)\<rparr>)
      | RecordProviderImport r \<Rightarrow>
          Changed (current\<lparr>st_importReceipts :=
            filter (\<lambda>x. \<not> same_receipt x r) (st_importReceipts current) @ [r]\<rparr>)
      | SetActiveNote noteId \<Rightarrow> set_active_note current noteId
      | UpdateSettings settings \<Rightarrow> Changed (current\<lparr>st_settings := keep_macros (st_settings current) settings\<rparr>)
      | SetMathMacros macros \<Rightarrow>
          Changed (current\<lparr>st_settings := (st_settings current)\<lparr>s_extra :=
            omap_set ''mathMacros'' (macros_json macros) (s_extra (st_settings current))\<rparr>\<rparr>)
      | AttachImage img \<Rightarrow>
          if omap_has (st_images current) (img_id img) then Unchanged
          else Changed (current\<lparr>st_images := omap_set (img_id img) img (st_images current)\<rparr>)
      | SaveDocument noteId documentJson markdown wordCount _ now \<Rightarrow>
          withSavedDocument current (Some \<lparr>sv_noteId = noteId, sv_documentJson = documentJson,
            sv_markdown = markdown, sv_wordCount = wordCount\<rparr>) now
      | _ \<Rightarrow> Unchanged)"

section \<open>Properties\<close>

text \<open>A validation error is caught and leaves the state alone.\<close>

definition on_valid :: "'a validated \<Rightarrow> ('a \<Rightarrow> renderer_state) \<Rightarrow> renderer_state reduced" where
  "on_valid r f = (case r of Inl _ \<Rightarrow> Unchanged | Inr x \<Rightarrow> Changed (f x))"

definition set_properties :: "renderer_state \<Rightarrow> string \<Rightarrow> number \<Rightarrow> note_properties \<Rightarrow> renderer_state" where
  "set_properties current noteId now properties =
     (touchedNote current noteId now)\<lparr>st_propertiesByNoteId :=
        omap_set noteId properties (st_propertiesByNoteId current)\<rparr>"

definition source_kind :: "renderer_state \<Rightarrow> string \<Rightarrow> node_kind option" where
  "source_kind current i = map_option n_kind (omap_get (st_sourceNodes current) i)"

definition reduce_property :: "renderer_state \<Rightarrow> workspace_operation \<Rightarrow> renderer_state reduced" where
  "reduce_property current operation =
     (case operation of
        SetNoteProperty p now \<Rightarrow>
          if source_kind current (p_noteId p) \<noteq> Some KNote then Unchanged
          else on_valid (upsertNoteProperty (omap_getd [] (st_propertiesByNoteId current) (p_noteId p)) p
                 (Some (omap_keys (st_people current))))
               (set_properties current (p_noteId p) now)
      | RemoveNoteProperty noteId propertyId now \<Rightarrow>
          (case omap_get (st_propertiesByNoteId current) noteId of None \<Rightarrow> Unchanged
           | Some properties \<Rightarrow>
               on_valid (removeNoteProperty properties propertyId)
                 (\<lambda>next. if next = []
                    then (touchedNote current noteId now)\<lparr>st_propertiesByNoteId :=
                      omap_delete noteId (st_propertiesByNoteId current)\<rparr>
                    else set_properties current noteId now next))
      | ReorderNoteProperties noteId ids now \<Rightarrow>
          (case omap_get (st_propertiesByNoteId current) noteId of None \<Rightarrow> Unchanged
           | Some properties \<Rightarrow>
               on_valid (reorderNoteProperties properties ids) (set_properties current noteId now))
      | SetNotePropertyTemplate t \<Rightarrow>
          on_valid (upsertPropertyTemplate (st_propertyTemplates current) t)
            (\<lambda>ts. current\<lparr>st_propertyTemplates := ts\<rparr>)
      | DeleteNotePropertyTemplate i \<Rightarrow>
          on_valid (deletePropertyTemplate (st_propertyTemplates current) i)
            (\<lambda>ts. current\<lparr>st_propertyTemplates := ts\<rparr>)
      | ReorderNotePropertyTemplates ids \<Rightarrow>
          on_valid (reorderPropertyTemplates (st_propertyTemplates current) ids)
            (\<lambda>ts. current\<lparr>st_propertyTemplates := ts\<rparr>)
      | _ \<Rightarrow> Unchanged)"

section \<open>Structure\<close>

definition fresh_document :: "string \<Rightarrow> json \<Rightarrow> string \<Rightarrow> document_record" where
  "fresh_document i documentJson markdown =
     \<lparr>dr_noteId = i, dr_documentJson = documentJson, dr_markdown = markdown, dr_revision = 0, dr_wordCount = 0,
      dr_hasLosslessMarkdown = hasLosslessMarkdown documentJson, dr_sealed = Undefined\<rparr>"

definition purge_state :: "renderer_state \<Rightarrow> node_map \<Rightarrow> number \<Rightarrow> renderer_state" where
  "purge_state current sourceNodes trashedBefore =
     (let purgedNoteIds = filter (\<lambda>i. \<not> omap_has sourceNodes i) (omap_keys (st_documents current))
      in with_references (removeSourceNotes (st_references current) purgedNoteIds)
           (current\<lparr>st_sourceNodes := sourceNodes,
              st_documents := filter (\<lambda>(i, _). omap_has sourceNodes i) (st_documents current),
              st_expandedIds := filter (is_folder sourceNodes) (st_expandedIds current),
              st_images := filter (\<lambda>(_, img). omap_has sourceNodes (img_noteId img)) (st_images current),
              st_propertiesByNoteId := filter (\<lambda>(i, _). omap_has sourceNodes i) (st_propertiesByNoteId current),
              st_tasks := detachTasksForNotes (st_tasks current) sourceNodes trashedBefore\<rparr>))"

definition structured :: "renderer_state \<Rightarrow> workspace_operation \<Rightarrow> node_map \<Rightarrow> renderer_state" where
  "structured current operation sourceNodes =
     (let next = current\<lparr>st_sourceNodes := sourceNodes\<rparr>
      in case operation of
           CreateNote i _ placement documentJson markdown _ \<Rightarrow>
             (let opened = pl_parentId placement \<noteq> Some JOURNAL_ROOT_ID
              in with_references
                   (updateNoteReferences (st_references current) i (extractReferences documentJson))
                   (next\<lparr>st_documents := omap_set i (fresh_document i documentJson markdown) (st_documents current),
                      st_activeNoteId := (if opened then Some i else st_activeNoteId current),
                      st_focusedNodeId := (if opened then Some i else st_focusedNodeId current)\<rparr>))
         | CreateFolder i _ _ _ \<Rightarrow>
             next\<lparr>st_expandedIds := oset_add i (st_expandedIds current), st_focusedNodeId := Some i\<rparr>
         | PurgeSubtree _ trashedBefore \<Rightarrow> purge_state current sourceNodes trashedBefore
         | _ \<Rightarrow> next)"

definition reduce_structure :: "renderer_state \<Rightarrow> workspace_operation \<Rightarrow> renderer_state reduced" where
  "reduce_structure current operation =
     (case reduceOperation (st_sourceNodes current) operation of
        Unchanged \<Rightarrow> Unchanged
      | Diverges \<Rightarrow> Diverges
      | Changed sourceNodes \<Rightarrow> derived (structured current operation sourceNodes))"

text \<open>The code's chain of \<open>if (operation.type === ...)\<close>, grouped by what the branches touch.\<close>

definition reduceState :: "renderer_state \<Rightarrow> workspace_operation \<Rightarrow> renderer_state reduced" where
  "reduceState current operation =
     (case operation of
        CreateTask _ \<Rightarrow> reduce_task current operation
      | PromoteChecklistTask _ _ \<Rightarrow> reduce_task current operation
      | UpdateTask _ _ \<Rightarrow> reduce_task current operation
      | DeleteTask _ _ _ \<Rightarrow> reduce_task current operation
      | DetachTask _ _ _ \<Rightarrow> reduce_task current operation
      | CreateAnnotation _ \<Rightarrow> reduce_annotation current operation
      | AddAnnotationComment _ _ \<Rightarrow> reduce_annotation current operation
      | UpdateAnnotationComment _ _ _ _ \<Rightarrow> reduce_annotation current operation
      | DeleteAnnotationComment _ _ \<Rightarrow> reduce_annotation current operation
      | ResolveAnnotation _ _ \<Rightarrow> reduce_annotation current operation
      | ReopenAnnotation _ \<Rightarrow> reduce_annotation current operation
      | DeleteAnnotation _ \<Rightarrow> reduce_annotation current operation
      | SetMediaMetadata _ \<Rightarrow> reduce_workspace current operation
      | SetPrompt _ \<Rightarrow> reduce_workspace current operation
      | DeletePrompt _ \<Rightarrow> reduce_workspace current operation
      | RecordProviderImport _ \<Rightarrow> reduce_workspace current operation
      | SetActiveNote _ \<Rightarrow> reduce_workspace current operation
      | UpdateSettings _ \<Rightarrow> reduce_workspace current operation
      | SetMathMacros _ \<Rightarrow> reduce_workspace current operation
      | AttachImage _ \<Rightarrow> reduce_workspace current operation
      | SaveDocument _ _ _ _ _ _ \<Rightarrow> reduce_workspace current operation
      | SetNoteProperty _ _ \<Rightarrow> reduce_property current operation
      | RemoveNoteProperty _ _ _ \<Rightarrow> reduce_property current operation
      | ReorderNoteProperties _ _ _ \<Rightarrow> reduce_property current operation
      | SetNotePropertyTemplate _ \<Rightarrow> reduce_property current operation
      | DeleteNotePropertyTemplate _ \<Rightarrow> reduce_property current operation
      | ReorderNotePropertyTemplates _ \<Rightarrow> reduce_property current operation
      | _ \<Rightarrow> reduce_structure current operation)"

end
