(* ===== verification/Store_Import.thy ===== *)
theory Store_Import
  imports Store_Reduce
begin

text \<open>
  \<open>reduceImportBatch\<close> of \<open>store/store.ts\<close>, the path a large provider import takes
  instead of one \<open>reduceState\<close> per operation, and \<open>reduceReferenceOperation\<close>.
\<close>

section \<open>Large imports\<close>

definition IMPORT_BATCH_SIZE :: nat where "IMPORT_BATCH_SIZE = 256"

definition placed_last :: "node_placement \<Rightarrow> bool" where
  "placed_last p \<longleftrightarrow> pl_position p = Last"

definition importable :: "workspace_operation \<Rightarrow> bool" where
  "importable operation =
     (case operation of
        CreateTag _ \<Rightarrow> True
      | CreateFolder _ _ placement _ \<Rightarrow> placed_last placement
      | CreateNote _ _ placement _ _ _ \<Rightarrow> placed_last placement
      | RenameNode _ _ _ \<Rightarrow> True
      | SaveDocument _ _ _ _ _ _ \<Rightarrow> True
      | AttachImage _ \<Rightarrow> True
      | SetNoteProperty _ _ \<Rightarrow> True
      | RemoveNoteProperty _ _ _ \<Rightarrow> True
      | RecordProviderImport _ \<Rightarrow> True
      | _ \<Rightarrow> False)"

definition records_import :: "workspace_operation \<Rightarrow> bool" where
  "records_import operation = (case operation of RecordProviderImport _ \<Rightarrow> True | _ \<Rightarrow> False)"

definition is_import_batch :: "workspace_operation list \<Rightarrow> bool" where
  "is_import_batch operations \<longleftrightarrow> length operations \<ge> IMPORT_BATCH_SIZE \<and>
     list_ex records_import operations \<and> list_all importable operations"

definition receipt_key :: "import_receipt \<Rightarrow> string" where
  "receipt_key r = ir_provider r @ [CHR 0x00] @ ir_sourceKey r @ [CHR 0x00] @ ir_sourcePath r"

text \<open>The mutable locals of the function.\<close>

record import_batch =
  ib_sourceNodes :: node_map
  ib_documents :: "(string, document_record) omap"
  ib_tags :: "(string, tag_record) omap"
  ib_images :: "(string, workspace_image) omap"
  ib_properties :: "(string, note_properties) omap"
  ib_receipts :: "(string, import_receipt) omap"
  ib_references :: "(string, note_references) omap"
  ib_lastRank :: "(string option, number) omap"
  ib_focusedNodeId :: "string option"
  ib_activeNoteId :: "string option"
  ib_expandedIds :: "string list"

definition last_ranks :: "node_map \<Rightarrow> (string option, number) omap" where
  "last_ranks sourceNodes =
     fold (\<lambda>n ranks. if n_deletedAt n = None
         then omap_set (n_parentId n) (max (omap_getd 0 ranks (n_parentId n)) (n_rank n)) ranks else ranks)
       (omap_values sourceNodes) []"

definition import_start :: "renderer_state \<Rightarrow> import_batch" where
  "import_start current =
     \<lparr>ib_sourceNodes = st_sourceNodes current, ib_documents = st_documents current, ib_tags = st_tags current,
      ib_images = st_images current, ib_properties = st_propertiesByNoteId current,
      ib_receipts = omap_from receipt_key (\<lambda>r. r) (st_importReceipts current),
      ib_references = map (\<lambda>(i, ts). (i, \<lparr>nr_noteId = i, nr_targets = ts\<rparr>))
        (outgoingReferences (st_references current)),
      ib_lastRank = last_ranks (st_sourceNodes current),
      ib_focusedNodeId = st_focusedNodeId current, ib_activeNoteId = st_activeNoteId current,
      ib_expandedIds = st_expandedIds current\<rparr>"

definition import_node :: "node_kind \<Rightarrow> string \<Rightarrow> string \<Rightarrow> string option \<Rightarrow> number \<Rightarrow> import_batch \<Rightarrow> import_batch" where
  "import_node kind i title parentId now b =
     (let rank = omap_getd 0 (ib_lastRank b) parentId + RANK_STEP
      in b\<lparr>ib_lastRank := omap_set parentId rank (ib_lastRank b),
           ib_sourceNodes := omap_set i
             \<lparr>n_id = i, n_kind = kind, n_parentId = parentId, n_rank = rank, n_title = title, n_icon = None,
              n_coverImageId = Null, n_coverGradient = Null, n_coverFullWidth = Some False,
              n_coverPositionX = Some 50, n_coverPositionY = Some 50, n_coverZoom = Some 1,
              n_createdAt = now, n_updatedAt = now, n_deletedAt = None, n_pinnedAt = None, n_lockedAt = Null\<rparr>
             (ib_sourceNodes b),
           ib_focusedNodeId := Some i\<rparr>)"

definition import_step :: "string list \<Rightarrow> import_batch \<Rightarrow> workspace_operation \<Rightarrow> import_batch validated" where
  "import_step personIds b operation =
     (case operation of
        CreateTag t \<Rightarrow> Inr (b\<lparr>ib_tags := omap_set (tag_id t) t (ib_tags b)\<rparr>)
      | CreateFolder i title placement now \<Rightarrow>
          (let b' = import_node KFolder i title (pl_parentId placement) now b
           in Inr (b'\<lparr>ib_expandedIds := oset_add i (ib_expandedIds b')\<rparr>))
      | CreateNote i title placement documentJson markdown now \<Rightarrow>
          (let b' = import_node KNote i title (pl_parentId placement) now b
           in Inr (b'\<lparr>ib_activeNoteId := Some i,
                ib_documents := omap_set i (fresh_document i documentJson markdown) (ib_documents b')\<rparr>))
      | RenameNode i title now \<Rightarrow>
          Inr (b\<lparr>ib_sourceNodes := omap_patch i (\<lambda>n. n\<lparr>n_title := title, n_updatedAt := now\<rparr>) (ib_sourceNodes b)\<rparr>)
      | SaveDocument i documentJson markdown wordCount _ _ \<Rightarrow>
          (case omap_get (ib_documents b) i of None \<Rightarrow> Inr b
           | Some document \<Rightarrow> Inr (b\<lparr>
               ib_documents := omap_set i (write_document \<lparr>sv_noteId = i, sv_documentJson = documentJson,
                 sv_markdown = markdown, sv_wordCount = wordCount\<rparr> document) (ib_documents b),
               ib_references := omap_set i \<lparr>nr_noteId = i, nr_targets = extractReferences documentJson\<rparr>
                 (ib_references b)\<rparr>))
      | AttachImage img \<Rightarrow> Inr (b\<lparr>ib_images := omap_set (img_id img) img (ib_images b)\<rparr>)
      | RemoveNoteProperty noteId propertyId _ \<Rightarrow>
          Inr (b\<lparr>ib_properties := omap_set noteId
            (filter (\<lambda>p. p_id p \<noteq> propertyId) (omap_getd [] (ib_properties b) noteId)) (ib_properties b)\<rparr>)
      | SetNoteProperty p _ \<Rightarrow>
          bind_validated
            (upsertNoteProperty (omap_getd [] (ib_properties b) (p_noteId p)) p (Some personIds))
            (\<lambda>ps. Inr (b\<lparr>ib_properties := omap_set (p_noteId p) ps (ib_properties b)\<rparr>))
      | RecordProviderImport r \<Rightarrow> Inr (b\<lparr>ib_receipts := omap_set (receipt_key r) r (ib_receipts b)\<rparr>)
      | _ \<Rightarrow> Inr b)"

fun import_loop :: "string list \<Rightarrow> import_batch \<Rightarrow> workspace_operation list \<Rightarrow> import_batch validated" where
  "import_loop personIds b [] = Inr b"
| "import_loop personIds b (operation # operations) =
     bind_validated (import_step personIds b operation) (\<lambda>b'. import_loop personIds b' operations)"

definition import_state :: "renderer_state \<Rightarrow> import_batch \<Rightarrow> renderer_state" where
  "import_state current b = current\<lparr>st_sourceNodes := ib_sourceNodes b, st_documents := ib_documents b,
     st_tags := ib_tags b, st_images := ib_images b, st_propertiesByNoteId := ib_properties b,
     st_importReceipts := omap_values (ib_receipts b), st_expandedIds := ib_expandedIds b,
     st_focusedNodeId := ib_focusedNodeId b, st_activeNoteId := ib_activeNoteId b,
     st_references := buildReferenceProjection (omap_values (ib_references b))\<rparr>"

text \<open>
  \<open>null\<close>, a new state, an uncaught \<open>PropertyValidationError\<close>, or a \<open>derive\<close> that
  does not return.
\<close>

datatype import_outcome = NotAnImport | Imported renderer_state | ImportThrows "string list" | ImportDiverges

definition reduceImportBatch :: "renderer_state \<Rightarrow> workspace_operation list \<Rightarrow> import_outcome" where
  "reduceImportBatch current operations =
     (if \<not> is_import_batch operations then NotAnImport
      else (case import_loop (omap_keys (st_people current)) (import_start current) operations of
          Inl issues \<Rightarrow> ImportThrows issues
        | Inr b \<Rightarrow>
            (case derive (import_state current b) of None \<Rightarrow> ImportDiverges | Some s \<Rightarrow> Imported s)))"

section \<open>Tags and people\<close>

text \<open>The shared shape of rename and recolor: unchanged when absent or equal.\<close>

definition edit_reference :: "('k, 'v) omap \<Rightarrow> 'k \<Rightarrow> ('v \<Rightarrow> bool) \<Rightarrow> ('v \<Rightarrow> 'v) \<Rightarrow> ('k, 'v) omap reduced" where
  "edit_reference m k same change =
     (case omap_get m k of None \<Rightarrow> Unchanged
      | Some v \<Rightarrow> if same v then Unchanged else Changed (omap_set k (change v) m))"

definition on_changed :: "'a reduced \<Rightarrow> ('a \<Rightarrow> 'b) \<Rightarrow> 'b reduced" where
  "on_changed r f = (case r of Unchanged \<Rightarrow> Unchanged | Changed x \<Rightarrow> Changed (f x) | Diverges \<Rightarrow> Diverges)"

definition drop_target :: "reference_kind \<Rightarrow> string \<Rightarrow> renderer_state \<Rightarrow> renderer_state" where
  "drop_target kind i s = s\<lparr>st_references := (st_references s)\<lparr>incomingReferences :=
     removeTarget (incomingReferences (st_references s)) (referenceKey kind i)\<rparr>\<rparr>"

definition reduceReferenceOperation :: "number \<Rightarrow> renderer_state \<Rightarrow> reference_operation \<Rightarrow> renderer_state reduced" where
  "reduceReferenceOperation now current operation =
     (case operation of
        RCreateTag t \<Rightarrow>
          if omap_has (st_tags current) (tag_id t) then Unchanged
          else Changed (current\<lparr>st_tags := omap_set (tag_id t) t (st_tags current)\<rparr>)
      | RRenameTag i name \<Rightarrow>
          on_changed (edit_reference (st_tags current) i (\<lambda>t. tag_name t = name)
            (\<lambda>t. t\<lparr>tag_name := name, tag_updatedAt := now\<rparr>)) (\<lambda>m. current\<lparr>st_tags := m\<rparr>)
      | RRecolorTag i color \<Rightarrow>
          on_changed (edit_reference (st_tags current) i (\<lambda>t. tag_color t = color)
            (\<lambda>t. t\<lparr>tag_color := color, tag_updatedAt := now\<rparr>)) (\<lambda>m. current\<lparr>st_tags := m\<rparr>)
      | RDeleteTag i \<Rightarrow>
          if \<not> omap_has (st_tags current) i then Unchanged
          else Changed (drop_target RTag i (current\<lparr>st_tags := omap_delete i (st_tags current)\<rparr>))
      | RCreatePerson p \<Rightarrow>
          if omap_has (st_people current) (person_id p) then Unchanged
          else Changed (current\<lparr>st_people := omap_set (person_id p) p (st_people current)\<rparr>)
      | RRenamePerson i name \<Rightarrow>
          on_changed (edit_reference (st_people current) i (\<lambda>p. person_name p = name)
            (\<lambda>p. p\<lparr>person_name := name, person_updatedAt := now\<rparr>)) (\<lambda>m. current\<lparr>st_people := m\<rparr>)
      | RRecolorPerson i color \<Rightarrow>
          on_changed (edit_reference (st_people current) i (\<lambda>p. person_color p = color)
            (\<lambda>p. p\<lparr>person_color := color, person_updatedAt := now\<rparr>)) (\<lambda>m. current\<lparr>st_people := m\<rparr>)
      | RDeletePerson i \<Rightarrow>
          if \<not> omap_has (st_people current) i then Unchanged
          else Changed (drop_target RPerson i (current\<lparr>st_people := omap_delete i (st_people current)\<rparr>)))"

end
