(* ===== verification/Store_Actions.thy ===== *)
theory Store_Actions
  imports Store_Import
begin

text \<open>
  The updaters behind the operations of \<open>createRendererStore\<close> in \<open>store/store.ts\<close>, each as
  the function of the current state it hands to \<open>update\<close>. \<open>Unchanged\<close> is the updater
  returning its argument; \<open>current\<close> time is an argument where the code reads the clock.
\<close>

section \<open>Selection and focus\<close>

definition keepsSelection :: "string list \<Rightarrow> string option \<Rightarrow> bool" where
  "keepsSelection selected activeId \<longleftrightarrow>
     length selected = 0 \<or>
     (length selected = 1 \<and> (case activeId of None \<Rightarrow> False | Some i \<Rightarrow> i \<in> set selected))"

definition setActiveNote :: "number \<Rightarrow> string option \<Rightarrow> renderer_state \<Rightarrow> renderer_state reduced" where
  "setActiveNote now i current =
     on_changed (reduceState current (SetActiveNote i))
       (\<lambda>s. let next = (if keepsSelection (st_selectedNodeIds s) i then s
                        else s\<lparr>st_selectedNodeIds := [], st_selectionAnchorId := None\<rparr>)
            in case (st_activeNoteId current, i) of
                 (Some from_id, Some to_id) \<Rightarrow>
                   if to_id = from_id then next
                   else next\<lparr>st_coVisits := recordCoVisit now (st_coVisits next) from_id to_id\<rparr>
               | _ \<Rightarrow> next)"

definition known_node :: "renderer_state \<Rightarrow> string option \<Rightarrow> bool" where
  "known_node current i = (case i of None \<Rightarrow> True | Some j \<Rightarrow> omap_has (st_nodes current) j)"

definition setFocusedNode :: "string option \<Rightarrow> renderer_state \<Rightarrow> renderer_state reduced" where
  "setFocusedNode i current =
     (if i = st_focusedNodeId current then Unchanged
      else if \<not> known_node current i then Unchanged
      else Changed (current\<lparr>st_focusedNodeId := i\<rparr>))"

definition setEditingNode :: "string option \<Rightarrow> renderer_state \<Rightarrow> renderer_state reduced" where
  "setEditingNode i current =
     (if i = st_editingNodeId current then Unchanged
      else if \<not> known_node current i then Unchanged
      else Changed (current\<lparr>st_editingNodeId := i\<rparr>))"

definition range_anchor :: "renderer_state \<Rightarrow> string \<Rightarrow> string" where
  "range_anchor current i =
     (case st_selectionAnchorId current of Some a \<Rightarrow> a
      | None \<Rightarrow> (case st_focusedNodeId current of Some f \<Rightarrow> f | None \<Rightarrow> i))"

definition selectTreeNode :: "string \<Rightarrow> tree_selection_mode \<Rightarrow> renderer_state \<Rightarrow> renderer_state reduced" where
  "selectTreeNode i mode current =
     (if \<not> omap_has (st_nodes current) i then Unchanged
      else case mode of
          Replace \<Rightarrow> Changed (current\<lparr>st_selectedNodeIds := [i], st_selectionAnchorId := Some i\<rparr>)
        | Toggle \<Rightarrow> Changed (current\<lparr>
            st_selectedNodeIds := (if i \<in> set (st_selectedNodeIds current)
              then oset_remove i (st_selectedNodeIds current) else oset_add i (st_selectedNodeIds current)),
            st_selectionAnchorId := Some i\<rparr>)
        | Range \<Rightarrow> Changed (current\<lparr>
            st_selectedNodeIds := visibleTreeRange (st_visibleIds current) (range_anchor current i) i,
            st_selectionAnchorId := Some (range_anchor current i)\<rparr>))"

definition selectAllTreeNodes :: "renderer_state \<Rightarrow> renderer_state reduced" where
  "selectAllTreeNodes current =
     (case st_visibleIds current of
        [] \<Rightarrow> Unchanged
      | first # _ \<Rightarrow> Changed (current\<lparr>st_selectedNodeIds := oset_from (st_visibleIds current),
          st_selectionAnchorId := Some first\<rparr>))"

definition clearTreeSelection :: "renderer_state \<Rightarrow> renderer_state reduced" where
  "clearTreeSelection current =
     (if st_selectedNodeIds current = [] \<and> st_selectionAnchorId current = None then Unchanged
      else Changed (current\<lparr>st_selectedNodeIds := [], st_selectionAnchorId := None\<rparr>))"

text \<open>\<open>ancestorIds\<close> and \<open>flattenVisible\<close> loop; both return on the index \<open>derive\<close>
  builds.\<close>

definition refocus :: "renderer_state \<Rightarrow> string \<Rightarrow> bool \<Rightarrow> string option option" where
  "refocus current i collapsing =
     (case st_focusedNodeId current of
        None \<Rightarrow> Some None
      | Some f \<Rightarrow>
          if collapsing \<and> f \<noteq> [] then
            map_option (\<lambda>ancestors. if i \<in> set ancestors then Some i else Some f)
              (ancestorIds (st_nodes current) f)
          else Some (Some f))"

definition toggleExpanded :: "string \<Rightarrow> renderer_state \<Rightarrow> renderer_state reduced" where
  "toggleExpanded i current =
     (case omap_get (st_nodes current) i of
        None \<Rightarrow> Unchanged
      | Some node \<Rightarrow>
          if nr_kind node \<noteq> KFolder then Unchanged
          else
            let collapsing = (i \<in> set (st_expandedIds current));
                expandedIds = (if collapsing then oset_remove i (st_expandedIds current)
                               else oset_add i (st_expandedIds current))
            in case (refocus current i collapsing,
                     flattenVisible (st_nodes current) (st_childrenByParent current) expandedIds) of
                 (Some focused, Some visible) \<Rightarrow>
                   Changed (current\<lparr>st_expandedIds := expandedIds, st_visibleIds := visible,
                     st_focusedNodeId := focused\<rparr>)
               | _ \<Rightarrow> Diverges)"

section \<open>Operations\<close>

text \<open>What \<open>applyOperations\<close>' updater does: return its argument or a new state, throw, or not
  return.\<close>

datatype 's updated = Same | Next 's | Throws "string list" | Hangs

fun updated_of :: "'s reduced \<Rightarrow> 's updated" where
  "updated_of Unchanged = Same"
| "updated_of (Changed s) = Next s"
| "updated_of Diverges = Hangs"

definition applyOperations :: "workspace_operation list \<Rightarrow> renderer_state \<Rightarrow> renderer_state updated" where
  "applyOperations operations current =
     (case reduceImportBatch current operations of
        NotAnImport \<Rightarrow> updated_of (reduce_all reduceState current operations)
      | Imported s \<Rightarrow> Next s
      | ImportThrows issues \<Rightarrow> Throws issues
      | ImportDiverges \<Rightarrow> Hangs)"

definition applyReferenceOperations :: "number \<Rightarrow> reference_operation list \<Rightarrow> renderer_state \<Rightarrow>
    renderer_state reduced" where
  "applyReferenceOperations now operations current =
     reduce_all (reduceReferenceOperation now) current operations"

section \<open>Acknowledgements and history\<close>

definition ack_rank :: "node_rank_change \<Rightarrow> node_map \<times> bool \<Rightarrow> node_map \<times> bool" where
  "ack_rank change acc =
     (case omap_get (fst acc) (rc_id change) of None \<Rightarrow> acc
      | Some existing \<Rightarrow>
          (omap_set (rc_id change) (existing\<lparr>n_parentId := rc_parentId change, n_rank := rc_rank change\<rparr>) (fst acc),
           True))"

definition ack_revision :: "entity_revision \<Rightarrow> (string, document_record) omap \<times> bool \<Rightarrow>
    (string, document_record) omap \<times> bool" where
  "ack_revision revision acc =
     (case omap_get (fst acc) (er_id revision) of None \<Rightarrow> acc
      | Some existing \<Rightarrow>
          if dr_revision existing = er_revision revision then acc
          else (omap_set (er_id revision) (existing\<lparr>dr_revision := er_revision revision\<rparr>) (fst acc), True))"

definition applyAck :: "operation_ack \<Rightarrow> renderer_state \<Rightarrow> renderer_state reduced" where
  "applyAck ack current =
     (let (sourceNodes, rankChanged) = fold ack_rank (ack_rankChanges ack) (st_sourceNodes current, False);
          (documents, revisionChanged) = fold ack_revision (ack_revisions ack) (st_documents current, False)
      in if \<not> rankChanged \<and> \<not> revisionChanged then Unchanged
         else if rankChanged
         then derived (current\<lparr>st_sourceNodes := sourceNodes, st_documents := documents\<rparr>)
         else Changed (current\<lparr>st_documents := documents\<rparr>))"

definition publishHistoryHeader :: "history_header \<Rightarrow> renderer_state \<Rightarrow> renderer_state reduced" where
  "publishHistoryHeader header current =
     (if \<not> omap_has (st_documents current) (h_noteId header) then Unchanged
      else
        let existing = omap_getd [] (st_historyHeaders current) (h_noteId header)
        in if list_ex (\<lambda>c. h_versionId c = h_versionId header) existing then Unchanged
           else Changed (current\<lparr>st_historyHeaders := omap_set (h_noteId header)
             (js_sort compareHistoryHeaders (existing @ [header])) (st_historyHeaders current)\<rparr>))"

section \<open>Snapshots\<close>

definition replaced_document :: "renderer_state \<Rightarrow> workspace_document \<Rightarrow>
    (string, document_record) omap \<times> bool \<Rightarrow> (string, document_record) omap \<times> bool" where
  "replaced_document current d acc =
     (case retainedDocument (omap_get (st_documents current) (d_noteId d)) d of
        Some retained \<Rightarrow> (omap_set (d_noteId d) retained (fst acc), snd acc)
      | None \<Rightarrow> (omap_set (d_noteId d) (documentFromRecord d) (fst acc), True))"

text \<open>\<open>snapshot.tags\<close>, \<open>people\<close> and \<open>references\<close> are always present in the
  contract's type, so the fallbacks to the current state are not taken.\<close>

definition snapshot_references :: "workspace_snapshot \<Rightarrow> reference_bootstrap" where
  "snapshot_references snapshot =
     \<lparr>rb_tags = sn_tags snapshot, rb_people = sn_people snapshot, rb_references = sn_references snapshot\<rparr>"

definition folder_row :: "renderer_state \<Rightarrow> string \<Rightarrow> bool" where
  "folder_row s i = (case omap_get (st_nodes s) i of None \<Rightarrow> False | Some r \<Rightarrow> nr_kind r = KFolder)"

definition carried :: "renderer_state \<Rightarrow> renderer_state \<Rightarrow> workspace_snapshot \<Rightarrow> renderer_state" where
  "carried current fresh snapshot =
     (let (documents, documentsChanged) = fold (replaced_document current) (sn_documents snapshot)
            ([], length (st_documents fresh) \<noteq> length (st_documents current))
      in fresh\<lparr>st_documents := (if documentsChanged then documents else st_documents current),
           st_expandedIds := filter (folder_row fresh) (st_expandedIds current),
           st_panes := st_panes current,
           st_splitOrientation := st_splitOrientation current,
           st_splitRatio := st_splitRatio current,
           st_focusedPaneId := st_focusedPaneId current,
           st_closedTabsByPaneId := st_closedTabsByPaneId current,
           st_editorModeByNoteId := st_editorModeByNoteId current,
           st_activeNoteId := st_activeNoteId current,
           st_focusedNodeId := st_focusedNodeId current,
           st_selectedNodeIds := st_selectedNodeIds current,
           st_selectionAnchorId := st_selectionAnchorId current,
           st_editingNodeId := None,
           st_coVisits := st_coVisits current,
           st_noteLock := st_noteLock current\<rparr>)"

definition refreshed_metadata :: "renderer_state \<Rightarrow> node_map \<Rightarrow> (string, document_record) omap \<Rightarrow>
    (string, note_metadata) omap" where
  "refreshed_metadata current sourceNodes documents =
     List.map_filter (\<lambda>(i, previous). map_option (\<lambda>n. (i, metadataFor n (omap_get documents i) (Some previous)))
       (omap_get sourceNodes i)) (st_metadata current)"

definition replaceFromSnapshot :: "workspace_snapshot \<Rightarrow> renderer_state \<Rightarrow> renderer_state reduced" where
  "replaceFromSnapshot snapshot current =
     (case createInitialState snapshot None (snapshot_references snapshot) of
        None \<Rightarrow> Diverges
      | Some fresh \<Rightarrow>
          let base = carried current fresh snapshot;
              sourceNodes = mergeNodeRecords (st_sourceNodes current) (st_sourceNodes fresh)
          in if \<not> nodeListPlacementEqual (st_sourceNodes current) (st_sourceNodes fresh)
             then derived (base\<lparr>st_sourceNodes := sourceNodes\<rparr>)
             else (case flattenVisible (st_nodes current) (st_childrenByParent current) (st_expandedIds base) of
                 None \<Rightarrow> Diverges
               | Some visible \<Rightarrow> Changed (base\<lparr>st_sourceNodes := sourceNodes, st_nodes := st_nodes current,
                   st_childrenByParent := st_childrenByParent current, st_nodeOrder := st_nodeOrder current,
                   st_noteIds := st_noteIds current, st_visibleIds := visible,
                   st_metadata := refreshed_metadata current sourceNodes (st_documents base)\<rparr>)))"

section \<open>Note lock and remote documents\<close>

definition setNoteLock :: "note_lock_state \<Rightarrow> renderer_state \<Rightarrow> renderer_state reduced" where
  "setNoteLock noteLock current =
     (if st_noteLock current = noteLock then Unchanged else Changed (current\<lparr>st_noteLock := noteLock\<rparr>))"

record remote_documents =
  rd_documents :: "(string, document_record) omap"
  rd_changed :: bool
  rd_projection :: reference_projection

definition remote_document :: "renderer_state \<Rightarrow> workspace_document \<Rightarrow> remote_documents \<Rightarrow> remote_documents" where
  "remote_document current d acc =
     (case retainedDocument (omap_get (st_documents current) (d_noteId d)) d of
        Some _ \<Rightarrow> acc
      | None \<Rightarrow> \<lparr>rd_documents = omap_set (d_noteId d) (documentFromRecord d) (rd_documents acc), rd_changed = True,
          rd_projection = (case updateNoteReferences (rd_projection acc) (d_noteId d)
              (extractReferences (d_documentJson d)) of None \<Rightarrow> rd_projection acc | Some p \<Rightarrow> p)\<rparr>)"

record remote_nodes =
  rn_sourceNodes :: node_map
  rn_changed :: bool
  rn_placement :: bool

definition remote_node :: "renderer_state \<Rightarrow> workspace_node \<Rightarrow> remote_nodes \<Rightarrow> remote_nodes" where
  "remote_node current n acc =
     (let existing = omap_get (st_sourceNodes current) (n_id n)
      in if (case existing of None \<Rightarrow> False | Some e \<Rightarrow> nodeRecordEqual e n \<or> n_updatedAt e > n_updatedAt n)
         then acc
         else \<lparr>rn_sourceNodes = omap_set (n_id n) n (rn_sourceNodes acc), rn_changed = True,
               rn_placement = (rn_placement acc \<or>
                 (case existing of None \<Rightarrow> True | Some e \<Rightarrow> \<not> nodePlacementEqual e n))\<rparr>)"

definition remote_metadata :: "renderer_state \<Rightarrow> renderer_state \<Rightarrow> string \<Rightarrow>
    (string, note_metadata) omap \<Rightarrow> (string, note_metadata) omap" where
  "remote_metadata current next i metadata =
     (case omap_get (st_sourceNodes next) i of
        None \<Rightarrow> metadata
      | Some n \<Rightarrow>
          if n_kind n \<noteq> KNote then metadata
          else omap_set i (metadataFor n (omap_get (st_documents next) i) (omap_get (st_metadata current) i)) metadata)"

definition applyRemoteDocuments :: "workspace_delta \<Rightarrow> renderer_state \<Rightarrow> renderer_state reduced" where
  "applyRemoteDocuments delta current =
     (let d = fold (remote_document current) (delta_documents delta)
            \<lparr>rd_documents = st_documents current, rd_changed = False, rd_projection = st_references current\<rparr>;
          n = fold (remote_node current) (delta_nodes delta)
            \<lparr>rn_sourceNodes = st_sourceNodes current, rn_changed = False, rn_placement = False\<rparr>
      in if \<not> rd_changed d \<and> \<not> rn_changed n then Unchanged
         else
           let next = current\<lparr>st_documents := rd_documents d, st_sourceNodes := rn_sourceNodes n,
                 st_references := rd_projection d\<rparr>
           in if rn_placement n then derived next
              else Changed (next\<lparr>st_metadata := fold (remote_metadata current next)
                (oset_from (map d_noteId (delta_documents delta) @ map n_id (delta_nodes delta)))
                (st_metadata current)\<rparr>))"

end
