(* ===== verification/Store_View.thy ===== *)
theory Store_View
  imports Store_Actions Pane_Invariants Operation_Invariants Tree_Theorems
begin

text \<open>
  The view the store keeps beside its canonical data: row index, note list, visible rows,
  metadata, and the selection and panes over them. \<open>view_ok\<close> says every cached part is what
  \<open>derive\<close> computes from the canonical fields. This theory proves that \<open>derive\<close>
  establishes it and which updates of the canonical fields keep it.
\<close>

section \<open>The invariant\<close>

definition note_ids :: "workspace_node list \<Rightarrow> string list" where
  "note_ids ordered = map n_id (filter (\<lambda>n. n_kind n = KNote \<and> n_parentId n \<noteq> Some JOURNAL_ROOT_ID) ordered)"

definition metadata_of :: "(string, document_record) omap \<Rightarrow> workspace_node list \<Rightarrow> (string, note_metadata) omap" where
  "metadata_of documents ordered =
     map (\<lambda>n. (n_id n, note_metadata_of documents n)) (filter (\<lambda>n. n_kind n = KNote) ordered)"

definition nodes_ok :: "node_map \<Rightarrow> bool" where
  "nodes_ok m \<longleftrightarrow> node_map_ok m \<and> [] \<notin> set (omap_keys m)"

definition rows_ok :: "renderer_state \<Rightarrow> workspace_node list \<Rightarrow> bool" where
  "rows_ok s ordered \<longleftrightarrow>
     orderAvailableNodes (omap_values (st_sourceNodes s)) = Some ordered \<and>
     st_nodes s = ix_nodes (buildNodeIndex ordered) \<and> st_childrenByParent s = ix_children (buildNodeIndex ordered) \<and>
     st_nodeOrder s = ix_order (buildNodeIndex ordered) \<and> st_noteIds s = note_ids ordered \<and>
     flattenVisible (st_nodes s) (st_childrenByParent s) (st_expandedIds s) = Some (st_visibleIds s) \<and>
     st_metadata s = metadata_of (st_documents s) ordered"

definition focus_ok :: "renderer_state \<Rightarrow> bool" where
  "focus_ok s \<longleftrightarrow> kept (st_metadata s) (st_activeNoteId s) = st_activeNoteId s \<and>
     kept (st_nodes s) (st_focusedNodeId s) = st_focusedNodeId s \<and>
     list_all (omap_has (st_nodes s)) (st_selectedNodeIds s) \<and>
     kept (st_nodes s) (st_selectionAnchorId s) = st_selectionAnchorId s \<and>
     kept (st_nodes s) (st_editingNodeId s) = st_editingNodeId s"

definition strips_ok :: "renderer_state \<Rightarrow> bool" where
  "strips_ok s \<longleftrightarrow> panes_ok (st_panes s) \<and>
     (\<forall>tabs. syncPanes (st_panes s) (st_activeNoteId s) (st_sourceNodes s) tabs = st_panes s)"

definition view_ok :: "renderer_state \<Rightarrow> bool" where
  "view_ok s \<longleftrightarrow> nodes_ok (st_sourceNodes s) \<and> (\<exists>ordered. rows_ok s ordered) \<and> focus_ok s \<and> strips_ok s"

lemma view_okD:
  assumes "view_ok s"
  shows "nodes_ok (st_sourceNodes s)" "focus_ok s" "strips_ok s" "\<exists>ordered. rows_ok s ordered"
  using assms by (simp_all add: view_ok_def)

lemma kept_iff: "kept m v = v \<longleftrightarrow> (\<forall>i. v = Some i \<longrightarrow> omap_has m i)"
  by (auto simp: kept_def split: option.splits)

lemma kept_idem [simp]: "kept m (kept m v) = kept m v"
  by (auto simp: kept_def split: option.splits)

section \<open>Ordered nodes\<close>

lemma nodes_ok_named: "nodes_ok m \<Longrightarrow> named (omap_values m)"
proof -
  assume ok: "nodes_ok m"
  then have m: "node_map_ok m" and e: "[] \<notin> set (omap_keys m)" by (simp_all add: nodes_ok_def)
  from node_map_ok_keys [OF m] have "n_id ` set (omap_values m) = set (omap_keys m)" by (metis list.set_map)
  with e have "\<forall>n \<in> set (omap_values m). n_id n \<noteq> []" by (metis imageI)
  then show ?thesis using node_map_ok_distinct [OF m] by (simp only: named_def)
qed

lemma ordered_facts:
  assumes "nodes_ok m" and "orderAvailableNodes (omap_values m) = Some ordered"
  shows "distinct (map n_id ordered)" "parents_first n_id n_parentId {n. n_parentId n = None} ordered"
    "\<And>n. n \<in> set ordered \<Longrightarrow> omap_get m (n_id n) = Some n" "\<And>n. n \<in> set ordered \<Longrightarrow> n_id n \<noteq> []"
proof -
  have n: "named (omap_values m)" by (rule nodes_ok_named [OF assms(1)])
  note o = ordered_input [OF _ assms(2)]
  from o n show "distinct (map n_id ordered)" "parents_first n_id n_parentId {n. n_parentId n = None} ordered"
    by (simp_all add: named_def)
  fix x
  assume "x \<in> set ordered"
  with o(3) n have "x \<in> set (omap_values m)" by (auto simp: named_def available_def)
  moreover have "node_map_ok m" using assms(1) by (simp add: nodes_ok_def)
  ultimately show "omap_get m (n_id x) = Some x" "n_id x \<noteq> []"
    using n node_map_ok_value [of m x] unfolding named_def by blast+
qed

lemma order_total: "nodes_ok m \<Longrightarrow> \<exists>ordered. orderAvailableNodes (omap_values m) = Some ordered"
  using order_correct [of "omap_values m"] nodes_ok_named [of m] by (auto simp: named_def)

lemma rows_facts:
  assumes "nodes_ok (st_sourceNodes s)" and "rows_ok s ordered"
  shows "omap_has (st_nodes s) i \<longleftrightarrow> i \<in> n_id ` set ordered"
    "omap_get (st_nodes s) i = Some r \<Longrightarrow> \<exists>n \<in> set ordered. n_id n = i \<and> nr_kind r = n_kind n"
proof -
  from assms(2) have o: "orderAvailableNodes (omap_values (st_sourceNodes s)) = Some ordered"
    and ix: "st_nodes s = ix_nodes (buildNodeIndex ordered)" by (simp_all add: rows_ok_def)
  note f = ordered_facts [OF assms(1) o]
  show has: "omap_has (st_nodes s) i \<longleftrightarrow> i \<in> n_id ` set ordered"
    using build_index_keys [OF f(1), of i] by (auto simp: ix omap_has_get)
  assume r: "omap_get (st_nodes s) i = Some r"
  with has obtain n where n: "n \<in> set ordered" "n_id n = i" by (auto simp: omap_has_get)
  from build_index_row [OF f(1,2) n(1)] r n show "\<exists>n \<in> set ordered. n_id n = i \<and> nr_kind r = n_kind n"
    by (auto simp: ix row_of_def)
qed

lemma metadata_has: "omap_has (metadata_of documents ordered) i \<longleftrightarrow> (\<exists>n \<in> set ordered. n_id n = i \<and> n_kind n = KNote)"
  by (auto simp: metadata_of_def omap_has_def)

lemma active_is_note:
  assumes "nodes_ok (st_sourceNodes s)" and "rows_ok s ordered" and "omap_has (st_metadata s) i"
  shows "is_note (st_sourceNodes s) i" "omap_has (st_nodes s) i"
proof -
  from assms(2,3) obtain n where n: "n \<in> set ordered" "n_id n = i" "n_kind n = KNote"
    by (auto simp: rows_ok_def metadata_has)
  have "omap_get (st_sourceNodes s) i = Some n"
    using ordered_facts(3) [OF assms(1) _ n(1)] assms(2) n(2) by (simp add: rows_ok_def)
  with n show "is_note (st_sourceNodes s) i" by (simp add: is_note_def)
  show "omap_has (st_nodes s) i" using rows_facts(1) [OF assms(1,2)] n by auto
qed

section \<open>Deriving\<close>

lemma omap_set_new: "k \<notin> set (omap_keys m) \<Longrightarrow> omap_set k v m = m @ [(k, v)]"
  by (induction m) auto

lemma omap_from_distinct:
  "distinct (map key xs) \<Longrightarrow> omap_from key val xs = map (\<lambda>x. (key x, val x)) xs"
proof -
  have "distinct (map key xs) \<Longrightarrow> set (omap_keys m) \<inter> key ` set xs = {} \<Longrightarrow>
      fold (\<lambda>x m. omap_set (key x) (val x) m) xs m = m @ map (\<lambda>x. (key x, val x)) xs" for m
  proof (induction xs arbitrary: m)
    case Nil
    then show ?case by simp
  next
    case (Cons x xs)
    then have "omap_set (key x) (val x) m = m @ [(key x, val x)]" by (intro omap_set_new) auto
    moreover have "set (omap_keys (m @ [(key x, val x)])) \<inter> key ` set xs = {}" "distinct (map key xs)"
      using Cons.prems by auto
    ultimately show ?case using Cons.IH [of "m @ [(key x, val x)]"] by (simp del: omap_keys_delete)
  qed
  from this [of "[]"] show "distinct (map key xs) \<Longrightarrow> ?thesis" by (simp add: omap_from_def)
qed

lemma derive_metadata:
  "distinct (map n_id ordered) \<Longrightarrow>
    omap_from n_id (note_metadata_of documents) (filter (\<lambda>n. n_kind n = KNote) ordered) = metadata_of documents ordered"
  by (simp add: omap_from_distinct distinct_map_filter metadata_of_def)

lemma note_ids_filter:
  "map n_id (filter (\<lambda>n. n_parentId n \<noteq> Some JOURNAL_ROOT_ID) (filter (\<lambda>n. n_kind n = KNote) ordered)) = note_ids ordered"
  by (simp add: note_ids_def conj_commute)

text \<open>\<open>derive\<close> returns on every well-formed node map, and its result satisfies the invariant.\<close>

lemma derive_view_ok:
  assumes "nodes_ok (st_sourceNodes s)" and "panes_ok (st_panes s)"
  shows "\<exists>t. derive s = Some t \<and> view_ok t"
proof -
  obtain ordered where o: "orderAvailableNodes (omap_values (st_sourceNodes s)) = Some ordered"
    using order_total [OF assms(1)] by blast
  note f = ordered_facts [OF assms(1) o]
  obtain visible where v: "flattenVisible (ix_nodes (buildNodeIndex ordered)) (ix_children (buildNodeIndex ordered))
      (st_expandedIds s) = Some visible"
    using flatten_correct [OF f(1,2,4)] by blast
  let ?t = "derive_view s ordered visible"
  have d: "derive s = Some ?t" using o v by (simp add: derive_def Let_def)
  have rows: "rows_ok ?t ordered"
    using o v by (simp add: rows_ok_def derive_view_def Let_def derive_metadata [OF f(1)] note_ids_def conj_commute)
  have nodes: "nodes_ok (st_sourceNodes ?t)" using assms(1) by (simp add: derive_view_def Let_def)
  have act: "kept (st_metadata ?t) (st_activeNoteId ?t) = st_activeNoteId ?t"
    by (simp add: derive_view_def Let_def)
  have foc: "kept (st_nodes ?t) (st_focusedNodeId ?t) = st_focusedNodeId ?t"
  proof (cases "kept (ix_nodes (buildNodeIndex ordered)) (st_focusedNodeId s)")
    case None
    then have "st_focusedNodeId ?t = st_activeNoteId ?t" by (simp add: derive_view_def Let_def)
    moreover have "omap_has (st_nodes ?t) i" if "st_activeNoteId ?t = Some i" for i
      using active_is_note(2) [OF nodes rows] act that by (simp add: kept_iff)
    ultimately show ?thesis by (simp add: kept_iff)
  next
    case (Some i)
    then have "omap_has (ix_nodes (buildNodeIndex ordered)) i" by (simp add: kept_def split: option.splits if_splits)
    with Some show ?thesis by (simp add: derive_view_def Let_def kept_def)
  qed
  have "focus_ok ?t"
    using act foc by (simp add: focus_ok_def) (simp add: derive_view_def Let_def list_all_iff)
  moreover have "strips_ok ?t"
  proof -
    have "case st_activeNoteId ?t of None \<Rightarrow> True | Some i \<Rightarrow> is_note (st_sourceNodes ?t) i"
      using active_is_note(1) [OF nodes rows] act by (auto simp: kept_iff split: option.split)
    moreover have "st_panes ?t = syncPanes (st_panes s) (st_activeNoteId ?t) (st_sourceNodes ?t)
        (opensNotesInTabs (st_settings s))"
      by (simp add: derive_view_def Let_def)
    moreover have "st_panes s \<noteq> []" using assms(2) by (simp add: panes_ok_def)
    ultimately show ?thesis using assms(2) by (simp add: strips_ok_def sync_panes_ok sync_panes_fix)
  qed
  ultimately show ?thesis using d nodes rows by (auto simp: view_ok_def)
qed

lemma derived_view_ok:
  assumes "nodes_ok (st_sourceNodes s)" and "panes_ok (st_panes s)"
  shows "\<exists>t. derived s = Changed t \<and> view_ok t"
  using derive_view_ok [OF assms] by (auto simp: derived_def)

text \<open>On a state that satisfies the invariant, deriving again gives the state back; only a cleared
  focus moves to the active note.\<close>

definition refocused :: "renderer_state \<Rightarrow> string option" where
  "refocused s = (case st_focusedNodeId s of None \<Rightarrow> st_activeNoteId s | Some i \<Rightarrow> Some i)"

lemma view_ok_derive:
  assumes "view_ok s"
  shows "derive s = Some (s\<lparr>st_focusedNodeId := refocused s\<rparr>)"
proof -
  obtain ordered where r: "rows_ok s ordered" using view_okD(4) [OF assms] by blast
  have o: "orderAvailableNodes (omap_values (st_sourceNodes s)) = Some ordered" using r by (simp add: rows_ok_def)
  note f = ordered_facts [OF view_okD(1) [OF assms] o]
  have fo: "focus_ok s" and st: "strips_ok s" using assms by (simp_all add: view_ok_def)
  have sel: "filter (omap_has (st_nodes s)) (st_selectedNodeIds s) = st_selectedNodeIds s"
    using fo by (auto simp: focus_ok_def list_all_iff filter_id_conv)
  have ix: "ix_nodes (buildNodeIndex ordered) = st_nodes s" "ix_children (buildNodeIndex ordered) = st_childrenByParent s"
    "ix_order (buildNodeIndex ordered) = st_nodeOrder s" "note_ids ordered = st_noteIds s"
    "metadata_of (st_documents s) ordered = st_metadata s"
    using r unfolding rows_ok_def by auto
  have v: "flattenVisible (st_nodes s) (st_childrenByParent s) (st_expandedIds s) = Some (st_visibleIds s)"
    using r unfolding rows_ok_def by blast
  have "derive_view s ordered (st_visibleIds s) = s\<lparr>st_focusedNodeId := refocused s\<rparr>"
    unfolding derive_view_def Let_def derive_metadata [OF f(1)] note_ids_filter ix
    using fo st sel by (simp add: focus_ok_def strips_ok_def refocused_def split: option.split)
  with o v show ?thesis by (simp add: derive_def Let_def ix)
qed

section \<open>Updates that keep the view\<close>

text \<open>The fields \<open>view_ok\<close> reads. An update of any other field keeps it.\<close>

definition view_fields :: "renderer_state \<Rightarrow> _" where
  "view_fields s = (st_sourceNodes s, st_nodes s, st_childrenByParent s, st_nodeOrder s, st_noteIds s, st_visibleIds s,
     st_expandedIds s, st_panes s, st_activeNoteId s, (st_focusedNodeId s, st_selectedNodeIds s, st_selectionAnchorId s,
     st_editingNodeId s, st_documents s, st_metadata s))"

lemma view_ok_cong: "view_fields s = view_fields t \<Longrightarrow> view_ok s = view_ok t"
  by (simp add: view_fields_def view_ok_def rows_ok_def focus_ok_def strips_ok_def)

text \<open>Selection and focus may move freely among the rows.\<close>

lemma view_ok_focus:
  assumes "view_ok s"
    and "kept (st_nodes s) f = f" and "list_all (omap_has (st_nodes s)) sel" and "kept (st_nodes s) a = a"
    and "kept (st_nodes s) e = e"
  shows "view_ok (s\<lparr>st_focusedNodeId := f, st_selectedNodeIds := sel, st_selectionAnchorId := a, st_editingNodeId := e\<rparr>)"
  using assms by (simp add: view_ok_def rows_ok_def focus_ok_def strips_ok_def)

text \<open>Changing which note is active, with the panes synchronised.\<close>

lemma view_ok_active:
  assumes ok: "view_ok s" and ps: "panes_ok ps" and act: "kept (st_metadata s) act = act"
    and f: "kept (st_nodes s) f = f"
  shows "view_ok (s\<lparr>st_activeNoteId := act, st_focusedNodeId := f,
    st_panes := syncPanes ps act (st_sourceNodes s) tabs\<rparr>)"
proof -
  obtain ordered where r: "rows_ok s ordered" using view_okD(4) [OF ok] by blast
  have "case act of None \<Rightarrow> True | Some i \<Rightarrow> is_note (st_sourceNodes s) i"
    using active_is_note(1) [OF view_okD(1) [OF ok] r] act by (auto simp: kept_iff split: option.split)
  moreover have "ps \<noteq> []" using ps by (simp add: panes_ok_def)
  ultimately show ?thesis
    using ok ps act f by (simp add: view_ok_def rows_ok_def focus_ok_def strips_ok_def sync_panes_ok sync_panes_fix)
qed

text \<open>
  New records for the same placements: the order, the index, the note list and the visible rows
  stay; only the metadata of the notes has to be recomputed.
\<close>

definition same_tree :: "node_map \<Rightarrow> node_map \<Rightarrow> bool" where
  "same_tree m m' \<longleftrightarrow> placement ` set (omap_values m) = placement ` set (omap_values m')"

lemma same_tree_is_note:
  assumes "nodes_ok m" and "nodes_ok m'" and "same_tree m m'"
  shows "is_note m i = is_note m' i"
proof -
  have "is_note k i \<Longrightarrow> placement ` set (omap_values k) \<subseteq> placement ` set (omap_values k') \<Longrightarrow> nodes_ok k \<Longrightarrow>
      nodes_ok k' \<Longrightarrow> is_note k' i" for k k'
  proof -
    assume n: "is_note k i" and sub: "placement ` set (omap_values k) \<subseteq> placement ` set (omap_values k')"
      and ok: "nodes_ok k" "nodes_ok k'"
    then obtain x where x: "omap_get k i = Some x" "n_kind x = KNote"
      by (auto simp: is_note_def split: option.splits)
    then have "x \<in> set (omap_values k)" by (metis omap_get_in image_eqI list.set_map snd_conv)
    with sub obtain y where y: "y \<in> set (omap_values k')" "placement x = placement y" by blast
    have "n_id x = i" using node_map_ok_id [OF _ x(1)] ok(1) by (simp add: nodes_ok_def)
    then have "omap_get k' i = Some y"
      using node_map_ok_value [of k' y] y ok(2) placement_fields(1) [OF y(2)] unfolding nodes_ok_def by auto
    with x(2) placement_fields(2) [OF y(2)] show "is_note k' i" by (simp add: is_note_def)
  qed
  with assms show ?thesis unfolding same_tree_def by (metis equalityE)
qed

lemma sync_same_notes:
  "(\<And>i. is_note m i = is_note m' i) \<Longrightarrow> syncPanes ps act m tabs = syncPanes ps act m' tabs"
proof -
  assume "\<And>i. is_note m i = is_note m' i"
  then have e: "is_note m = is_note m'" by (rule ext)
  show ?thesis unfolding syncPanes_def sync_pane_def sync_strip_def e ..
qed

lemma note_ids_placements: "map placement xs = map placement ys \<Longrightarrow> note_ids xs = note_ids ys"
  unfolding note_ids_def by (rule ids_placements, erule filter_placements) (simp add: placement_def)

lemma rows_ok_records:
  assumes ok: "nodes_ok (st_sourceNodes s)" and r: "rows_ok s ordered"
    and m: "nodes_ok m" "same_tree (st_sourceNodes s) m"
  shows "\<exists>ordered'. map placement ordered' = map placement ordered \<and>
    orderAvailableNodes (omap_values m) = Some ordered' \<and>
    rows_ok (s\<lparr>st_sourceNodes := m, st_documents := docs, st_metadata := metadata_of docs ordered'\<rparr>) ordered'"
proof -
  have "map_option (map placement) (orderAvailableNodes (omap_values (st_sourceNodes s))) =
      map_option (map placement) (orderAvailableNodes (omap_values m))"
    using order_placements [OF nodes_ok_named [OF ok] nodes_ok_named [OF m(1)]] m(2) by (simp add: same_tree_def)
  moreover obtain ordered' where o': "orderAvailableNodes (omap_values m) = Some ordered'"
    using order_total [OF m(1)] by blast
  ultimately have o: "orderAvailableNodes (omap_values m) = Some ordered'"
    "map placement ordered' = map placement ordered"
    using r by (simp_all add: rows_ok_def)
  have "rows_ok (s\<lparr>st_sourceNodes := m, st_documents := docs, st_metadata := metadata_of docs ordered'\<rparr>) ordered'"
    using r o(1) unfolding rows_ok_def index_placements [OF o(2)] note_ids_placements [OF o(2)]
    by (elim conjE) simp
  with o show ?thesis by blast
qed

lemma metadata_keys: "omap_keys (metadata_of docs ordered) = map n_id (filter (\<lambda>n. n_kind n = KNote) ordered)"
  by (simp add: metadata_of_def comp_def)

lemma metadata_has_keys: "omap_keys m = omap_keys m' \<Longrightarrow> omap_has m i = omap_has m' i"
  by (simp add: omap_has_def)

lemma metadata_placements:
  assumes "map placement xs = map placement ys"
  shows "omap_keys (metadata_of docs xs) = omap_keys (metadata_of docs' ys)"
  unfolding metadata_keys by (rule ids_placements, rule filter_placements [OF assms]) (simp add: placement_def)

lemma view_ok_records:
  assumes ok: "view_ok s" and m: "nodes_ok m" "same_tree (st_sourceNodes s) m"
    and md: "\<And>ordered'. orderAvailableNodes (omap_values m) = Some ordered' \<Longrightarrow>
      (\<And>ordered. rows_ok s ordered \<Longrightarrow> map placement ordered' = map placement ordered) \<Longrightarrow> md = metadata_of docs ordered'"
  shows "view_ok (s\<lparr>st_sourceNodes := m, st_documents := docs, st_metadata := md\<rparr>)"
proof -
  obtain ordered where r: "rows_ok s ordered" using view_okD(4) [OF ok] by blast
  from rows_ok_records [OF view_okD(1) [OF ok] r m] obtain ordered' where
    o: "map placement ordered' = map placement ordered" "orderAvailableNodes (omap_values m) = Some ordered'"
    and r': "rows_ok (s\<lparr>st_sourceNodes := m, st_documents := docs, st_metadata := metadata_of docs ordered'\<rparr>) ordered'"
    by blast
  have "ordered2 = ordered" if "rows_ok s ordered2" for ordered2 using that r by (simp add: rows_ok_def)
  with md [OF o(2)] o(1) have md: "md = metadata_of docs ordered'" by blast
  have has: "omap_has md i = omap_has (st_metadata s) i" for i
    using metadata_has_keys [OF metadata_placements [OF o(1)]] r by (simp add: md rows_ok_def)
  have "syncPanes ps act m tabs = syncPanes ps act (st_sourceNodes s) tabs" for ps act tabs
    by (rule sync_same_notes) (rule same_tree_is_note [OF view_okD(1) [OF ok] m, symmetric])
  with ok r' m(1) has show ?thesis
    unfolding view_ok_def focus_ok_def strips_ok_def kept_iff md by auto
qed

end
