(* ===== verification/Store_Invariants.thy ===== *)
theory Store_Invariants
  imports Store_View
begin

text \<open>
  Every reducer of the store keeps the cached view consistent with the canonical data
  (\<open>view_ok\<close>): the ones that skip \<open>derive\<close>, because they touch no placement, and the
  ones that run it.
\<close>

section \<open>Records with the same placements\<close>

lemma alist_eqI:
  assumes "omap_keys xs = omap_keys ys" and "omap_wf xs" and "\<And>k. omap_get xs k = omap_get ys k"
  shows "xs = ys"
proof (rule nth_equalityI)
  from assms(1) show len: "length xs = length ys" by (metis length_map)
  fix i
  assume i: "i < length xs"
  have k: "fst (xs ! i) = fst (ys ! i)" using assms(1) i len by (metis nth_map)
  have wf: "omap_wf ys" using assms(1,2) by simp
  have "omap_get xs (fst (xs ! i)) = Some (snd (xs ! i))" "omap_get ys (fst (ys ! i)) = Some (snd (ys ! i))"
    using i len by (simp_all add: omap_get_iff [OF assms(2)] omap_get_iff [OF wf])
  with k assms(3) show "xs ! i = ys ! i" by (simp add: prod_eq_iff)
qed

lemma metadata_get:
  assumes "nodes_ok m" and "orderAvailableNodes (omap_values m) = Some ordered" and "omap_has (metadata_of docs ordered) i"
  shows "\<exists>n. omap_get m i = Some n \<and> omap_get (metadata_of docs ordered) i = Some (note_metadata_of docs n)"
proof -
  note f = ordered_facts [OF assms(1,2)]
  from assms(3) obtain n where n: "n \<in> set ordered" "n_id n = i" "n_kind n = KNote" by (auto simp: metadata_has)
  have wf: "omap_wf (metadata_of docs ordered)" using f(1) by (simp only: metadata_keys distinct_map_filter)
  have "(i, note_metadata_of docs n) \<in> set (metadata_of docs ordered)" using n by (auto simp: metadata_of_def)
  with wf f(3) [OF n(1)] n(2) show ?thesis by (metis omap_get_iff)
qed

lemma metadata_wf:
  "nodes_ok m \<Longrightarrow> orderAvailableNodes (omap_values m) = Some ordered \<Longrightarrow> omap_wf (metadata_of docs ordered)"
  using ordered_facts(1) [of m ordered] by (simp only: metadata_keys distinct_map_filter)

lemma view_ok_metadata:
  assumes "view_ok s" and "omap_has (st_metadata s) i"
  shows "\<exists>n. omap_get (st_sourceNodes s) i = Some n \<and> omap_get (st_metadata s) i = Some (note_metadata_of (st_documents s) n)"
proof -
  obtain ordered where r: "rows_ok s ordered" using view_okD(4) [OF assms(1)] by blast
  then show ?thesis
    using metadata_get [OF view_okD(1) [OF assms(1)], of ordered "st_documents s" i] assms(2)
    by (simp add: rows_ok_def)
qed

lemma view_ok_same_tree:
  assumes ok: "view_ok s" and m: "nodes_ok m" "same_tree (st_sourceNodes s) m"
    and keys: "omap_keys md = omap_keys (st_metadata s)"
    and get: "\<And>i n. omap_has (st_metadata s) i \<Longrightarrow> omap_get m i = Some n \<Longrightarrow>
      omap_get md i = Some (note_metadata_of docs n)"
  shows "view_ok (s\<lparr>st_sourceNodes := m, st_documents := docs, st_metadata := md\<rparr>)"
proof (rule view_ok_records [OF ok m])
  fix ordered'
  assume o: "orderAvailableNodes (omap_values m) = Some ordered'"
    and p: "\<And>ordered. rows_ok s ordered \<Longrightarrow> map placement ordered' = map placement ordered"
  obtain ordered where r: "rows_ok s ordered" using view_okD(4) [OF ok] by blast
  have k: "omap_keys md = omap_keys (metadata_of docs ordered')"
    using metadata_placements [OF p [OF r], of docs "st_documents s"] r keys by (simp add: rows_ok_def)
  show "md = metadata_of docs ordered'"
  proof (rule alist_eqI [OF k])
    show "omap_wf md" unfolding k by (rule metadata_wf [OF m(1) o])
    fix i
    show "omap_get md i = omap_get (metadata_of docs ordered') i"
    proof (cases "omap_has (metadata_of docs ordered') i")
      case True
      then have "omap_has (st_metadata s) i" using keys k by (simp only: metadata_has_keys [of "st_metadata s" "metadata_of docs ordered'"])
      with get metadata_get [OF m(1) o True] show ?thesis by metis
    next
      case False
      moreover have "omap_has md i = omap_has (metadata_of docs ordered') i" by (rule metadata_has_keys [OF k])
      ultimately have "\<not> omap_has md i" by iprover
      with False show ?thesis by (simp add: omap_has_get)
    qed
  qed
qed

lemma same_tree_get:
  assumes "nodes_ok m" and "nodes_ok m'" and "\<And>k. map_option placement (omap_get m k) = map_option placement (omap_get m' k)"
  shows "same_tree m m'"
proof -
  have "placement ` set (omap_values a) \<subseteq> placement ` set (omap_values b)"
    if ok: "nodes_ok a" "nodes_ok b" and g: "\<And>k. map_option placement (omap_get a k) = map_option placement (omap_get b k)"
    for a b
  proof (rule subsetI)
    fix p
    assume "p \<in> placement ` set (omap_values a)"
    then obtain n where n: "n \<in> set (omap_values a)" "p = placement n" by blast
    have "omap_get a (n_id n) = Some n" using node_map_ok_value [of a n] ok(1) n(1) unfolding nodes_ok_def by blast
    with g [of "n_id n"] obtain n' where n': "omap_get b (n_id n) = Some n'" "placement n = placement n'"
      by (cases "omap_get b (n_id n)") auto
    then have "n' \<in> set (omap_values b)" by (metis omap_get_in image_eqI list.set_map snd_conv)
    with n n' show "p \<in> placement ` set (omap_values b)" by auto
  qed
  with assms show ?thesis unfolding same_tree_def by (metis subset_antisym)
qed

lemma nodes_ok_iff: "nodes_ok m \<longleftrightarrow> node_map_ok m \<and> omap_get m [] = None"
  by (simp add: nodes_ok_def map_of_eq_None_iff)

lemma nodes_ok_set: "nodes_ok m \<Longrightarrow> n_id n = k \<Longrightarrow> k \<noteq> [] \<Longrightarrow> nodes_ok (omap_set k n m)"
  by (simp add: nodes_ok_iff node_map_ok_set)

lemma nodes_ok_id: "nodes_ok m \<Longrightarrow> omap_get m k = Some n \<Longrightarrow> n_id n = k \<and> k \<noteq> []"
  by (metis nodes_ok_iff node_map_ok_id option.distinct(1))

lemma patch_get: "omap_get (omap_patch k f m) i = (if i = k then map_option f (omap_get m k) else omap_get m i)"
  by (simp add: omap_patch_def split: option.split)

lemma patch_keys: "omap_keys (omap_patch k f m) = omap_keys m"
  by (simp add: omap_patch_def omap_set_map_snd split: option.split)

lemma patch_nodes_ok:
  assumes "nodes_ok m" and "\<And>n. n_id (f n) = n_id n"
  shows "nodes_ok (omap_patch k f m)"
  using assms nodes_ok_id [of m k] by (auto simp: omap_patch_def intro!: nodes_ok_set split: option.split)

lemma patch_nodes:
  assumes ok: "nodes_ok m" and f: "\<And>n. placement (f n) = placement n"
  shows "nodes_ok (omap_patch k f m)" "same_tree m (omap_patch k f m)"
proof -
  have "n_id (f n) = n_id n" for n by (rule placement_fields(1) [OF f])
  then show ok': "nodes_ok (omap_patch k f m)"
    by (rule patch_nodes_ok [OF ok])
  show "same_tree m (omap_patch k f m)"
    by (rule same_tree_get [OF ok ok']) (simp add: patch_get f option.map_comp comp_def)
qed

lemma touch_placement: "placement (n\<lparr>n_updatedAt := now\<rparr>) = placement n"
  by (simp add: placement_def)

lemma touched_view:
  assumes "view_ok s"
  shows "view_ok (touchedNote s i now)"
proof -
  let ?m = "omap_patch i (\<lambda>n. n\<lparr>n_updatedAt := now\<rparr>) (st_sourceNodes s)"
  have "view_ok (s\<lparr>st_sourceNodes := ?m, st_documents := st_documents s,
      st_metadata := omap_patch i (\<lambda>m. m\<lparr>md_updatedAt := now\<rparr>) (st_metadata s)\<rparr>)"
  proof (rule view_ok_same_tree [OF assms patch_nodes(1) [OF view_okD(1) [OF assms] touch_placement]
        patch_nodes(2) [OF view_okD(1) [OF assms] touch_placement]])
    fix k n
    assume "omap_has (st_metadata s) k" and n: "omap_get ?m k = Some n"
    from view_ok_metadata [OF assms this(1)] n
    show "omap_get (omap_patch i (\<lambda>m. m\<lparr>md_updatedAt := now\<rparr>) (st_metadata s)) k =
        Some (note_metadata_of (st_documents s) n)"
      by (auto simp: patch_get note_metadata_of_def split: if_splits)
  qed (rule patch_keys)
  then show ?thesis by (simp add: touchedNote_def)
qed

lemma with_references_view: "view_ok (with_references p s) = view_ok s"
  by (rule view_ok_cong) (simp add: with_references_def view_fields_def split: option.split)

lemma saved_view:
  assumes ok: "view_ok s" and t: "withSavedDocument s saved now = Changed t"
  shows "view_ok t"
proof -
  from t obtain sv d where sv: "saved = Some sv" and d: "omap_get (st_documents s) (sv_noteId sv) = Some d"
    by (auto simp: withSavedDocument_def split: option.splits)
  let ?i = "sv_noteId sv" and ?docs = "omap_set (sv_noteId sv) (write_document sv d) (st_documents s)"
  let ?m = "omap_patch ?i (\<lambda>n. n\<lparr>n_updatedAt := now\<rparr>) (st_sourceNodes s)"
  let ?md = "omap_patch ?i (\<lambda>m. m\<lparr>md_wordCount := sv_wordCount sv, md_updatedAt := now\<rparr>) (st_metadata s)"
  have "view_ok (s\<lparr>st_sourceNodes := ?m, st_documents := ?docs, st_metadata := ?md\<rparr>)"
  proof (rule view_ok_same_tree [OF ok patch_nodes(1) [OF view_okD(1) [OF ok] touch_placement]
        patch_nodes(2) [OF view_okD(1) [OF ok] touch_placement]])
    fix k n
    assume has: "omap_has (st_metadata s) k" and n: "omap_get ?m k = Some n"
    obtain n0 where n0: "omap_get (st_sourceNodes s) k = Some n0"
      "omap_get (st_metadata s) k = Some (note_metadata_of (st_documents s) n0)"
      using view_ok_metadata [OF ok has] by blast
    have id: "n_id n0 = k" using nodes_ok_id [OF view_okD(1) [OF ok] n0(1)] by simp
    show "omap_get ?md k = Some (note_metadata_of ?docs n)"
    proof (cases "k = ?i")
      case True
      with n n0 id show ?thesis by (auto simp: patch_get note_metadata_of_def write_document_def)
    next
      case False
      with n n0 id show ?thesis by (simp add: patch_get note_metadata_of_def)
    qed
  qed (rule patch_keys)
  moreover have "view_fields t = view_fields (s\<lparr>st_sourceNodes := ?m, st_documents := ?docs, st_metadata := ?md\<rparr>)"
    using t sv d by (auto simp: withSavedDocument_def with_references_def view_fields_def split: option.splits)
  ultimately show ?thesis using view_ok_cong by blast
qed

lemma save_with_view: "view_ok s \<Longrightarrow> view_ok (save_with s document now)"
  using saved_view [of s "map_option saved_of document" now]
  by (cases "withSavedDocument s (map_option saved_of document) now") (simp_all add: save_with_def)

section \<open>Fields the view does not read\<close>

lemma view_ok_other [simp]:
  "view_ok (s\<lparr>st_tasks := a\<rparr>) = view_ok s" "view_ok (s\<lparr>st_annotations := b\<rparr>) = view_ok s"
  "view_ok (s\<lparr>st_mediaMetadata := c\<rparr>) = view_ok s" "view_ok (s\<lparr>st_prompts := d\<rparr>) = view_ok s"
  "view_ok (s\<lparr>st_importReceipts := e\<rparr>) = view_ok s" "view_ok (s\<lparr>st_settings := f\<rparr>) = view_ok s"
  "view_ok (s\<lparr>st_images := g\<rparr>) = view_ok s" "view_ok (s\<lparr>st_propertiesByNoteId := h\<rparr>) = view_ok s"
  "view_ok (s\<lparr>st_propertyTemplates := k\<rparr>) = view_ok s" "view_ok (s\<lparr>st_references := l\<rparr>) = view_ok s"
  "view_ok (s\<lparr>st_tags := m\<rparr>) = view_ok s" "view_ok (s\<lparr>st_people := n\<rparr>) = view_ok s"
  "view_ok (s\<lparr>st_coVisits := r\<rparr>) = view_ok s" "view_ok (s\<lparr>st_noteLock := t\<rparr>) = view_ok s"
  "view_ok (s\<lparr>st_historyHeaders := u\<rparr>) = view_ok s"
  by (rule view_ok_cong, simp add: view_fields_def)+

section \<open>The reducers of \<open>reduceState\<close>\<close>

text \<open>The ids an operation creates are not empty.\<close>

fun op_named :: "workspace_operation \<Rightarrow> bool" where
  "op_named (CreateFolder i _ _ _) = (i \<noteq> [])"
| "op_named (CreateNote i _ _ _ _ _) = (i \<noteq> [])"
| "op_named _ = True"

lemma edit_node_absent: "edit_node m i accepts change = Changed m' \<Longrightarrow> omap_get m k = None \<Longrightarrow> omap_get m' k = None"
  by (auto simp: edit_node_def split: option.splits if_splits)

lemma lock_fold_absent:
  "omap_get (fst acc) k = None \<Longrightarrow> omap_get m k = None \<Longrightarrow>
    omap_get (fst (fold (lock_one m lock now) ids acc)) k = None"
proof (induction ids arbitrary: acc)
  case Nil
  then show ?case by simp
next
  case (Cons i ids)
  have "omap_get (fst (lock_one m lock now i acc)) k = None"
    using Cons.prems by (auto simp: lock_one_def split: option.split)
  with Cons show ?case by simp
qed

lemma lock_subtree_absent:
  "lock_subtree m i lock now = Changed m' \<Longrightarrow> omap_get m k = None \<Longrightarrow> omap_get m' k = None"
  using lock_fold_absent [of "(m, False)" k m]
  by (auto simp: lock_subtree_def split: option.splits if_splits prod.splits) (metis fst_conv)

lemma reduceOperation_absent:
  "reduceOperation m op = Changed m' \<Longrightarrow> omap_get m [] = None \<Longrightarrow> op_named op \<Longrightarrow> omap_get m' [] = None"
  by (cases op)
    (auto simp: reduceOperation_def create_node_def purge_subtree_def Let_def delete_all_get
      dest: edit_node_absent lock_subtree_absent split: if_splits)

lemma reduceOperation_nodes:
  "nodes_ok m \<Longrightarrow> op_named op \<Longrightarrow> reduceOperation m op = Changed m' \<Longrightarrow> nodes_ok m'"
  using reduceOperation_ok reduceOperation_absent unfolding nodes_ok_iff by blast

lemma with_references_fields [simp]:
  "st_sourceNodes (with_references p s) = st_sourceNodes s" "st_panes (with_references p s) = st_panes s"
  by (simp_all add: with_references_def split: option.split)

lemma structured_fields [simp]:
  "st_sourceNodes (structured s op m) = m" "st_panes (structured s op m) = st_panes s"
  by (simp_all add: structured_def purge_state_def Let_def split: workspace_operation.split)

lemma view_ok_panes: "view_ok s \<Longrightarrow> panes_ok (st_panes s)"
  by (simp add: view_ok_def strips_ok_def)

lemma derived_keeps:
  "derived s = Changed t \<Longrightarrow> nodes_ok (st_sourceNodes s) \<Longrightarrow> panes_ok (st_panes s) \<Longrightarrow> view_ok t"
  using derived_view_ok [of s] by auto

lemma structure_view:
  assumes ok: "view_ok s" and op: "op_named op" and t: "reduce_structure s op = Changed t"
  shows "view_ok t"
proof -
  obtain m where m: "reduceOperation (st_sourceNodes s) op = Changed m" and d: "derived (structured s op m) = Changed t"
    using t by (auto simp: reduce_structure_def split: reduced.splits)
  have "nodes_ok m" by (rule reduceOperation_nodes [OF view_okD(1) [OF ok] op m])
  with derived_keeps [OF d] view_ok_panes [OF ok] show ?thesis by simp
qed

lemma set_task_view: "view_ok (set_task task s) = view_ok s"
  by (simp add: set_task_def)

lemma task_view: "view_ok s \<Longrightarrow> reduce_task s op = Changed t \<Longrightarrow> view_ok t"
  by (auto simp: reduce_task_def set_task_view save_with_view saved_view Let_def
      split: workspace_operation.splits if_splits option.splits)

lemma edit_annotation_view: "view_ok s \<Longrightarrow> edit_annotation s i accepts change = Changed t \<Longrightarrow> view_ok t"
  by (auto simp: edit_annotation_def split: option.splits if_splits)

lemma annotation_view: "view_ok s \<Longrightarrow> reduce_annotation s op = Changed t \<Longrightarrow> view_ok t"
  by (auto simp: reduce_annotation_def intro: edit_annotation_view
      split: workspace_operation.splits if_splits)

lemma rows_are_nodes:
  assumes "view_ok s"
  shows "omap_has (st_metadata s) i \<Longrightarrow> omap_has (st_nodes s) i"
    and "omap_get (st_nodes s) i = Some r \<Longrightarrow> nr_kind r = KNote \<Longrightarrow> omap_has (st_metadata s) i"
proof -
  obtain ordered where r: "rows_ok s ordered" using view_okD(4) [OF assms] by blast
  show "omap_has (st_metadata s) i \<Longrightarrow> omap_has (st_nodes s) i"
    by (rule active_is_note(2) [OF view_okD(1) [OF assms] r])
  assume g: "omap_get (st_nodes s) i = Some r" "nr_kind r = KNote"
  from rows_facts(2) [OF view_okD(1) [OF assms] r g(1)] g(2)
  have "\<exists>n \<in> set ordered. n_id n = i \<and> n_kind n = KNote" by metis
  with r show "omap_has (st_metadata s) i" by (simp add: rows_ok_def metadata_has)
qed

lemma set_active_note_view:
  assumes ok: "view_ok s" and t: "set_active_note s i = Changed t"
  shows "view_ok t"
proof -
  have row: "\<exists>r. omap_get (st_nodes s) j = Some r \<and> nr_kind r = KNote" if "i = Some j" for j
    using t that by (auto simp: set_active_note_def split: option.splits if_splits)
  have md: "omap_has (st_metadata s) j" if "i = Some j" for j
    using row [OF that] rows_are_nodes(2) [OF ok] by blast
  have f: "kept (st_nodes s) (st_focusedNodeId s) = st_focusedNodeId s"
    using view_okD(2) [OF ok] by (simp add: focus_ok_def)
  have "view_ok (s\<lparr>st_activeNoteId := i,
      st_focusedNodeId := (case i of None \<Rightarrow> st_focusedNodeId s | Some j \<Rightarrow> Some j),
      st_panes := syncPanes (st_panes s) i (st_sourceNodes s) (opensNotesInTabs (st_settings s))\<rparr>)"
    by (rule view_ok_active [OF ok view_ok_panes [OF ok]])
      (use md f rows_are_nodes(1) [OF ok] in \<open>auto simp: kept_iff split: option.split\<close>)
  moreover have "t = s\<lparr>st_activeNoteId := i,
      st_focusedNodeId := (case i of None \<Rightarrow> st_focusedNodeId s | Some j \<Rightarrow> Some j),
      st_panes := syncPanes (st_panes s) i (st_sourceNodes s) (opensNotesInTabs (st_settings s))\<rparr>"
    using t by (auto simp: set_active_note_def split: option.splits if_splits)
  ultimately show ?thesis by simp
qed

lemma workspace_view: "view_ok s \<Longrightarrow> reduce_workspace s op = Changed t \<Longrightarrow> view_ok t"
  by (auto simp: reduce_workspace_def set_media_def Let_def intro: set_active_note_view saved_view
      split: workspace_operation.splits if_splits)

lemma on_valid_iff: "on_valid r f = Changed t \<longleftrightarrow> (\<exists>x. r = Inr x \<and> t = f x)"
  by (auto simp: on_valid_def split: sum.splits)

lemma set_properties_view: "view_ok s \<Longrightarrow> view_ok (set_properties s i now ps)"
  by (simp add: set_properties_def touched_view)

lemma property_view: "view_ok s \<Longrightarrow> reduce_property s op = Changed t \<Longrightarrow> view_ok t"
  by (cases op)
    (auto simp: reduce_property_def on_valid_iff set_properties_view touched_view split: if_splits option.splits)

lemma reduceState_part:
  "reduceState s op \<in> {reduce_task s op, reduce_annotation s op, reduce_workspace s op, reduce_property s op,
    reduce_structure s op}"
  by (cases op) (simp_all add: reduceState_def)

lemma reduceState_view:
  "view_ok s \<Longrightarrow> op_named op \<Longrightarrow> reduceState s op = Changed t \<Longrightarrow> view_ok t"
  using reduceState_part [of s op]
  by (auto dest: task_view [OF _ sym] annotation_view [OF _ sym] workspace_view [OF _ sym] property_view [OF _ sym]
      structure_view [OF _ _ sym])

interpretation store_reducer: reducer reduceState view_ok op_named
  by unfold_locales (rule reduceState_view)

end
