(* ===== verification/Action_Invariants.thy ===== *)
theory Action_Invariants
  imports Store_Invariants Property_Theorems
begin

text \<open>
  Every action of the store keeps the cached view consistent with the canonical data: large
  imports, selection and focus, acknowledgements, snapshots and remote documents; and the store
  starts consistent.
\<close>

section \<open>Large imports\<close>

lemma import_node_nodes:
  "nodes_ok (ib_sourceNodes b) \<Longrightarrow> i \<noteq> [] \<Longrightarrow> nodes_ok (ib_sourceNodes (import_node kind i title parentId now b))"
  by (simp add: import_node_def Let_def nodes_ok_set)

lemma import_step_nodes:
  assumes "nodes_ok (ib_sourceNodes b)" and "op_named op" and "import_step personIds b op = Inr b'"
  shows "nodes_ok (ib_sourceNodes b')"
  using assms
  by (cases op)
    (auto simp: import_step_def Let_def bind_validated_Inr intro!: import_node_nodes patch_nodes_ok
      split: option.splits)

lemma import_loop_nodes:
  "nodes_ok (ib_sourceNodes b) \<Longrightarrow> list_all op_named ops \<Longrightarrow> import_loop personIds b ops = Inr b' \<Longrightarrow>
    nodes_ok (ib_sourceNodes b')"
proof (induction ops arbitrary: b)
  case Nil
  then show ?case by simp
next
  case (Cons op ops)
  then obtain b1 where "import_step personIds b op = Inr b1" "import_loop personIds b1 ops = Inr b'"
    by (auto simp: bind_validated_Inr)
  moreover from this(1) Cons.prems have "nodes_ok (ib_sourceNodes b1)" by (auto intro: import_step_nodes)
  ultimately show ?case using Cons by simp
qed

lemma import_view:
  assumes ok: "view_ok s" and ops: "list_all op_named ops" and t: "reduceImportBatch s ops = Imported t"
  shows "view_ok t"
proof -
  obtain b where b: "import_loop (omap_keys (st_people s)) (import_start s) ops = Inr b"
    and d: "derive (import_state s b) = Some t"
    using t by (auto simp: reduceImportBatch_def split: if_splits sum.splits option.splits)
  have "nodes_ok (ib_sourceNodes b)"
    by (rule import_loop_nodes [OF _ ops b]) (simp add: import_start_def view_okD(1) [OF ok])
  moreover have "derived (import_state s b) = Changed t" using d by (simp add: derived_def)
  ultimately show ?thesis
    using derived_keeps [of "import_state s b"] view_ok_panes [OF ok] by (simp add: import_state_def)
qed

lemma operations_view:
  "view_ok s \<Longrightarrow> list_all op_named ops \<Longrightarrow> applyOperations ops s = Next t \<Longrightarrow> view_ok t"
  by (auto simp: applyOperations_def split: import_outcome.splits elim!: updated_of.elims
      dest: import_view store_reducer.batch_keeps)

section \<open>Selection and focus\<close>

lemma view_ok_rows:
  assumes "view_ok s"
  shows "kept (st_nodes s) (st_focusedNodeId s) = st_focusedNodeId s"
    and "list_all (omap_has (st_nodes s)) (st_selectedNodeIds s)"
    and "kept (st_nodes s) (st_selectionAnchorId s) = st_selectionAnchorId s"
    and "kept (st_nodes s) (st_editingNodeId s) = st_editingNodeId s"
  using view_okD(2) [OF assms] by (simp_all add: focus_ok_def)

lemma view_ok_reselect:
  assumes "view_ok s" and "list_all (omap_has (st_nodes s)) sel" and "kept (st_nodes s) a = a"
  shows "view_ok (s\<lparr>st_selectedNodeIds := sel, st_selectionAnchorId := a\<rparr>)"
  using view_ok_focus [OF assms(1) view_ok_rows(1) [OF assms(1)] assms(2,3) view_ok_rows(4) [OF assms(1)]] by simp

lemma kept_simps [simp]: "kept m None = None" "kept m (Some i) = Some i \<longleftrightarrow> omap_has m i"
  by (simp_all add: kept_def)

lemma visible_are_rows:
  assumes "view_ok s" and "i \<in> set (st_visibleIds s)"
  shows "omap_has (st_nodes s) i"
proof -
  obtain ordered where r: "rows_ok s ordered" using view_okD(4) [OF assms(1)] by blast
  have o: "orderAvailableNodes (omap_values (st_sourceNodes s)) = Some ordered" using r by (simp add: rows_ok_def)
  note f = ordered_facts [OF view_okD(1) [OF assms(1)] o]
  from flatten_correct [OF f(1,2,4), of "st_expandedIds s"] r assms(2) have "shown ordered (st_expandedIds s) i"
    by (auto simp: rows_ok_def)
  then have "i \<in> n_id ` set ordered" by cases auto
  then show ?thesis by (simp add: rows_facts(1) [OF view_okD(1) [OF assms(1)] r])
qed

lemma known_kept: "known_node s i \<Longrightarrow> kept (st_nodes s) i = i"
  by (auto simp: known_node_def split: option.splits)

lemma setFocusedNode_view:
  assumes ok: "view_ok s" and t: "setFocusedNode i s = Changed t"
  shows "view_ok t"
proof -
  have k: "known_node s i" and t': "t = s\<lparr>st_focusedNodeId := i\<rparr>"
    using t by (auto simp: setFocusedNode_def split: if_splits)
  from view_ok_focus [OF ok known_kept [OF k] view_ok_rows(2-4) [OF ok]] t' show ?thesis by simp
qed

lemma setEditingNode_view:
  assumes ok: "view_ok s" and t: "setEditingNode i s = Changed t"
  shows "view_ok t"
proof -
  have k: "known_node s i" and t': "t = s\<lparr>st_editingNodeId := i\<rparr>"
    using t by (auto simp: setEditingNode_def split: if_splits)
  from view_ok_focus [OF ok view_ok_rows(1-3) [OF ok] known_kept [OF k]] t' show ?thesis by simp
qed

lemma range_rows:
  assumes "view_ok s" and "omap_has (st_nodes s) i"
  shows "list_all (omap_has (st_nodes s)) (visibleTreeRange (st_visibleIds s) a i)"
proof -
  have "set (visibleTreeRange (st_visibleIds s) a i) \<subseteq> insert i (set (st_visibleIds s))"
    by (auto simp: visibleTreeRange_def Let_def dest!: in_set_takeD in_set_dropD split: option.splits)
  with assms visible_are_rows [OF assms(1)] show ?thesis by (auto simp: list_all_iff)
qed

lemma range_anchor_row:
  "view_ok s \<Longrightarrow> omap_has (st_nodes s) i \<Longrightarrow> omap_has (st_nodes s) (range_anchor s i)"
  using view_ok_rows(1,3) [of s] by (auto simp: range_anchor_def kept_iff split: option.split)

lemma oset_rows:
  "list_all P xs \<Longrightarrow> list_all P (oset_remove i xs)" "list_all P xs \<Longrightarrow> P i \<Longrightarrow> list_all P (oset_add i xs)"
  by (auto simp: list_all_iff oset_remove_def oset_add_def)

lemma selectTreeNode_view:
  assumes ok: "view_ok s" and t: "selectTreeNode i mode s = Changed t"
  shows "view_ok t"
proof -
  have i: "omap_has (st_nodes s) i" using t by (auto simp: selectTreeNode_def split: if_splits)
  show ?thesis
    using t i view_ok_rows(2) [OF ok] range_rows [OF ok i] range_anchor_row [OF ok i]
    by (cases mode) (auto simp: selectTreeNode_def intro!: view_ok_reselect ok oset_rows split: if_splits)
qed

lemma selectAll_view:
  assumes ok: "view_ok s" and t: "selectAllTreeNodes s = Changed t"
  shows "view_ok t"
proof -
  obtain v vs where v: "st_visibleIds s = v # vs"
    "t = s\<lparr>st_selectedNodeIds := oset_from (st_visibleIds s), st_selectionAnchorId := Some v\<rparr>"
    using t by (auto simp: selectAllTreeNodes_def split: list.splits)
  have "view_ok (s\<lparr>st_selectedNodeIds := oset_from (st_visibleIds s), st_selectionAnchorId := Some v\<rparr>)"
    by (rule view_ok_reselect [OF ok]) (use visible_are_rows [OF ok] v in \<open>auto simp: list_all_iff\<close>)
  with v show ?thesis by simp
qed

lemma clear_view: "view_ok s \<Longrightarrow> clearTreeSelection s = Changed t \<Longrightarrow> view_ok t"
  by (auto simp: clearTreeSelection_def intro!: view_ok_reselect split: if_splits)

lemma setActiveNote_view:
  assumes ok: "view_ok s" and t: "setActiveNote now i s = Changed t"
  shows "view_ok t"
proof -
  obtain s' where s': "reduceState s (SetActiveNote i) = Changed s'"
    using t by (auto simp: setActiveNote_def on_changed_def split: reduced.splits)
  have ok': "view_ok s'" by (rule reduceState_view [OF ok _ s']) simp
  have "view_ok (s'\<lparr>st_selectedNodeIds := [], st_selectionAnchorId := None\<rparr>)"
    by (rule view_ok_reselect [OF ok']) simp_all
  with t s' ok' show ?thesis
    by (auto simp: setActiveNote_def on_changed_def Let_def split: option.splits if_splits)
qed

lemma toggleExpanded_view:
  assumes ok: "view_ok s" and t: "toggleExpanded i s = Changed t"
  shows "view_ok t"
proof -
  obtain focused visible expanded where f: "refocus s i (i \<in> set (st_expandedIds s)) = Some focused"
    and v: "flattenVisible (st_nodes s) (st_childrenByParent s) expanded = Some visible"
    and i: "omap_has (st_nodes s) i"
    and t': "t = s\<lparr>st_expandedIds := expanded, st_visibleIds := visible, st_focusedNodeId := focused\<rparr>"
    using t by (auto simp: toggleExpanded_def Let_def omap_has_get split: option.splits if_splits)
  obtain ordered where r: "rows_ok s ordered" using view_okD(4) [OF ok] by blast
  have "rows_ok t ordered" using r v by (simp add: rows_ok_def t')
  moreover have "kept (st_nodes s) focused = focused"
    using f i view_ok_rows(1) [OF ok] by (auto simp: refocus_def kept_iff split: option.splits if_splits)
  ultimately show ?thesis using ok by (auto simp: view_ok_def focus_ok_def strips_ok_def t')
qed

lemma toggleExpanded_returns:
  assumes ok: "view_ok s"
  shows "toggleExpanded i s \<noteq> Diverges"
proof -
  obtain ordered where r: "rows_ok s ordered" using view_okD(4) [OF ok] by blast
  have o: "orderAvailableNodes (omap_values (st_sourceNodes s)) = Some ordered" using r by (simp add: rows_ok_def)
  note f = ordered_facts [OF view_okD(1) [OF ok] o]
  have "\<exists>v. flattenVisible (st_nodes s) (st_childrenByParent s) e = Some v" for e
    using flatten_correct [OF f(1,2,4), of e] r by (auto simp: rows_ok_def)
  then obtain visible where v: "\<And>e. flattenVisible (st_nodes s) (st_childrenByParent s) e = Some (visible e)" by metis
  have "\<exists>x. refocus s i c = Some x" for c
    using ancestors_correct [OF f(1,2,4)] r by (auto simp: refocus_def rows_ok_def split: option.split)
  then obtain focused where "\<And>c. refocus s i c = Some (focused c)" by metis
  with v show ?thesis by (simp add: toggleExpanded_def Let_def split: option.split)
qed

section \<open>Acknowledgements\<close>

text \<open>New documents with the same word counts leave the metadata as it is.\<close>

lemma view_ok_documents:
  assumes "view_ok s" and "\<And>i. map_option dr_wordCount (omap_get docs i) = map_option dr_wordCount (omap_get (st_documents s) i)"
  shows "view_ok (s\<lparr>st_documents := docs\<rparr>)"
proof -
  have "note_metadata_of docs n = note_metadata_of (st_documents s) n" for n
    using assms(2) [of "n_id n"] by (auto simp: note_metadata_of_def split: option.splits)
  then have "metadata_of docs ordered = metadata_of (st_documents s) ordered" for ordered
    by (simp add: metadata_of_def)
  with assms(1) show ?thesis by (simp add: view_ok_def rows_ok_def focus_ok_def strips_ok_def)
qed

lemma ack_rank_nodes: "nodes_ok (fst acc) \<Longrightarrow> nodes_ok (fst (fold ack_rank cs acc))"
proof (induction cs arbitrary: acc)
  case Nil
  then show ?case by simp
next
  case (Cons c cs)
  have "nodes_ok (fst (ack_rank c acc))"
    using Cons.prems nodes_ok_id [OF Cons.prems, of "rc_id c"]
    by (auto simp: ack_rank_def intro!: nodes_ok_set split: option.split)
  with Cons show ?case by simp
qed

lemma ack_revision_counts:
  "map_option dr_wordCount (omap_get (fst (fold ack_revision rs acc)) i) = map_option dr_wordCount (omap_get (fst acc) i)"
proof (induction rs arbitrary: acc)
  case Nil
  then show ?case by simp
next
  case (Cons r rs)
  have "map_option dr_wordCount (omap_get (fst (ack_revision r acc)) i) = map_option dr_wordCount (omap_get (fst acc) i)"
    by (auto simp: ack_revision_def split: option.split)
  with Cons show ?case by simp
qed

lemma applyAck_view:
  assumes ok: "view_ok s" and t: "applyAck ack s = Changed t"
  shows "view_ok t"
proof -
  obtain m c where m: "fold ack_rank (ack_rankChanges ack) (st_sourceNodes s, False) = (m, c)" by fastforce
  obtain docs d where d: "fold ack_revision (ack_revisions ack) (st_documents s, False) = (docs, d)" by fastforce
  have "nodes_ok m"
    using ack_rank_nodes [of "(st_sourceNodes s, False)" "ack_rankChanges ack"] view_okD(1) [OF ok] m by simp
  then have "view_ok t" if "derived (s\<lparr>st_sourceNodes := m, st_documents := docs\<rparr>) = Changed t"
    using derived_keeps [OF that] view_ok_panes [OF ok] by simp
  moreover have "view_ok (s\<lparr>st_documents := docs\<rparr>)"
    by (rule view_ok_documents [OF ok])
      (use ack_revision_counts [of "ack_revisions ack" "(st_documents s, False)"] d in simp)
  ultimately show ?thesis using t m d by (auto simp: applyAck_def split: if_splits)
qed

lemma history_view: "view_ok s \<Longrightarrow> publishHistoryHeader h s = Changed t \<Longrightarrow> view_ok t"
  by (auto simp: publishHistoryHeader_def Let_def split: if_splits)

lemma note_lock_view: "view_ok s \<Longrightarrow> setNoteLock lock s = Changed t \<Longrightarrow> view_ok t"
  by (auto simp: setNoteLock_def split: if_splits)

lemma reference_view: "view_ok s \<Longrightarrow> reduceReferenceOperation now s op = Changed t \<Longrightarrow> view_ok t"
  by (cases op)
    (auto simp: reduceReferenceOperation_def drop_target_def on_changed_def split: if_splits reduced.splits)

interpretation reference_reducer: reducer "reduceReferenceOperation now" view_ok "\<lambda>_. True" for now
  by unfold_locales (rule reference_view)

section \<open>The initial state\<close>

definition named_nodes :: "workspace_node list \<Rightarrow> bool" where
  "named_nodes ns \<longleftrightarrow> list_all (\<lambda>n. n_id n \<noteq> []) ns"

lemma omap_from_nodes: "named_nodes ns \<Longrightarrow> nodes_ok (omap_from n_id (\<lambda>n. n) ns)"
proof -
  have "nodes_ok m \<Longrightarrow> named_nodes ns \<Longrightarrow> nodes_ok (fold (\<lambda>n m. omap_set (n_id n) n m) ns m)" for m
    by (induction ns arbitrary: m) (auto simp: named_nodes_def intro: nodes_ok_set)
  moreover have "nodes_ok []" by (simp add: nodes_ok_def node_map_ok_def)
  ultimately show "named_nodes ns \<Longrightarrow> nodes_ok (omap_from n_id (\<lambda>n. n) ns)" by (simp add: omap_from_def)
qed

lemma note_ids_metadata:
  assumes "view_ok s" and "i \<in> set (st_noteIds s)"
  shows "omap_has (st_metadata s) i"
  using view_okD(4) [OF assms(1)] assms(2) by (auto simp: rows_ok_def note_ids_def metadata_has)

lemma open_first_note_view:
  assumes ok: "view_ok s"
  shows "view_ok (open_first_note s)"
proof -
  have "view_ok (s\<lparr>st_activeNoteId := Some i, st_focusedNodeId := Some i,
      st_panes := syncPanes (st_panes s) (Some i) (st_sourceNodes s) False\<rparr>)" if "i \<in> set (st_noteIds s)" for i
    by (rule view_ok_active [OF ok view_ok_panes [OF ok]])
      (use note_ids_metadata [OF ok that] rows_are_nodes(1) [OF ok] in simp_all)
  with ok show ?thesis by (auto simp: open_first_note_def split: list.split)
qed

lemma initial_view:
  assumes "named_nodes (sn_nodes snapshot)"
  shows "\<exists>s. createInitialState snapshot expandedFolderIds references = Some s \<and> view_ok s"
proof -
  let ?b = "initial_base snapshot expandedFolderIds references"
  have "nodes_ok (st_sourceNodes ?b)" "panes_ok (st_panes ?b)"
    using omap_from_nodes [OF assms] by (simp_all add: initial_base_def Let_def default_panes_ok)
  from derive_view_ok [OF this] open_first_note_view show ?thesis by (auto simp: createInitialState_def)
qed

section \<open>Session restore\<close>

lemma restored_pane_ok:
  assumes p: "pane_ok p" and q: "q \<in> set (restore_pane avail k p)"
  shows "pane_ok q" "pn_id q = pn_id p"
proof -
  define a where "a = (case pn_active p of Some i \<Rightarrow> if i \<in> set (filter avail (pn_open p)) then Some i
      else array_at (filter avail (pn_open p)) 0 | None \<Rightarrow> array_at (filter avail (pn_open p)) 0)"
  have q: "q = p\<lparr>pn_open := filter avail (pn_open p),
      pn_pinned := filter (\<lambda>i. i \<in> set (filter avail (pn_open p))) (pn_pinned p), pn_active := a\<rparr>"
    using q unfolding restore_pane_def Let_def a_def by (simp split: if_split_asm)
  have a: "i \<in> set (filter avail (pn_open p))" if "a = Some i" for i
  proof (cases "\<exists>j. pn_active p = Some j \<and> j \<in> set (filter avail (pn_open p))")
    case True
    with that show ?thesis unfolding a_def by auto
  next
    case False
    then have "a = array_at (filter avail (pn_open p)) 0" unfolding a_def by (cases "pn_active p") auto
    with that show ?thesis by (metis array_at_mem)
  qed
  show "pn_id q = pn_id p" by (simp add: q)
  show "pane_ok q" unfolding q
    by (rule pane_okI) (use pane_okD [OF p] a in auto)
qed

lemma restore_panes_ok:
  assumes "panes_ok ps"
  shows "\<exists>qs. panes_ok qs \<and> restorePanes ps act nodes tabs = syncPanes qs act nodes tabs"
proof -
  have pane: "pane_ok q \<and> pn_id q = pn_id p" if "pane_ok p" "q \<in> set (restore_pane avail k p)" for avail k p q
    using restored_pane_ok [OF that] by simp
  let ?avail = "\<lambda>i. is_note nodes i \<and> i \<notin> set (unavailableNodeIds (omap_values nodes))"
  let ?qs = "concat (map (\<lambda>(index, pane). restore_pane ?avail index pane) (enumerate 0 ps))"
  have first: "\<exists>q. restore_pane avail 0 p = [q]" for avail p by (simp add: restore_pane_def Let_def)
  have rest: "restore_pane avail k p = [] \<or> (\<exists>q. restore_pane avail k p = [q])" for avail k p
    by (simp add: restore_pane_def Let_def)
  have "panes_ok ?qs"
  proof (cases ps)
    case Nil
    with assms show ?thesis by (simp add: panes_ok_def)
  next
    case (Cons p ps')
    obtain q where q: "restore_pane ?avail 0 p = [q]" using first by blast
    have p: "pane_ok p" using assms Cons by (simp add: panes_ok_def)
    show ?thesis
    proof (cases ps')
      case Nil
      with Cons q pane [OF p, of q ?avail 0] assms show ?thesis by (simp add: panes_ok_def)
    next
      case (Cons p2 ps2)
      with \<open>ps = p # ps'\<close> assms have 2: "pane_ok p2" "ps2 = []" by (auto simp: panes_ok_def)
      from rest [of ?avail 1 p2] consider "restore_pane ?avail 1 p2 = []"
        | q2 where "restore_pane ?avail 1 p2 = [q2]" by blast
      then show ?thesis
      proof cases
        case 1
        with Cons 2 \<open>ps = p # ps'\<close> q pane [OF p, of q ?avail 0] assms show ?thesis by (simp add: panes_ok_def)
      next
        case 2
        with Cons \<open>ps2 = []\<close> \<open>pane_ok p2\<close> \<open>ps = p # ps'\<close> q pane [OF p, of q ?avail 0]
          pane [of p2 q2 ?avail 1] assms show ?thesis by (auto simp: panes_ok_def)
      qed
    qed
  qed
  then show ?thesis by (auto simp: restorePanes_def Let_def)
qed

end
