(* ===== verification/Snapshot_Invariants.thy ===== *)
theory Snapshot_Invariants
  imports Action_Invariants
begin

text \<open>
  Session restore, snapshots and remote deltas keep the cached view consistent, also on the
  paths that skip \<open>derive\<close> because no node changed its placement.
\<close>

section \<open>Session restore\<close>

lemma restore_view:
  assumes ok: "view_ok s" and ps: "panes_ok (ly_panes layout)"
  shows "view_ok (restoreSession s layout remembered)"
proof -
  define act where "act = (case continuedNoteId s layout remembered of Some i \<Rightarrow> Some i | None \<Rightarrow> st_activeNoteId s)"
  obtain qs where qs: "panes_ok qs" "restorePanes (ly_panes layout) act (st_sourceNodes s)
      (opensNotesInTabs (st_settings s)) = syncPanes qs act (st_sourceNodes s) (opensNotesInTabs (st_settings s))"
    using restore_panes_ok [OF ps] by blast
  have old: "kept (st_metadata s) (st_activeNoteId s) = st_activeNoteId s"
    using view_okD(2) [OF ok] by (simp add: focus_ok_def)
  have md: "omap_has (st_metadata s) i" if "act = Some i" for i
    using that old unfolding act_def continuedNoteId_def
    by (auto simp: kept_iff split: option.splits if_splits) (auto simp: kept_def split: option.splits if_splits)
  have "view_ok (s\<lparr>st_activeNoteId := act,
      st_focusedNodeId := (case act of Some i \<Rightarrow> Some i | None \<Rightarrow> st_focusedNodeId s),
      st_panes := syncPanes qs act (st_sourceNodes s) (opensNotesInTabs (st_settings s))\<rparr>)"
    by (rule view_ok_active [OF ok qs(1)])
      (use md rows_are_nodes(1) [OF ok] view_ok_rows(1) [OF ok] in \<open>auto simp: kept_iff split: option.split\<close>)
  moreover have "view_fields (restoreSession s layout remembered) = view_fields (s\<lparr>st_activeNoteId := act,
      st_focusedNodeId := (case act of Some i \<Rightarrow> Some i | None \<Rightarrow> st_focusedNodeId s),
      st_panes := syncPanes qs act (st_sourceNodes s) (opensNotesInTabs (st_settings s))\<rparr>)"
    using qs(2) by (simp add: restoreSession_def Let_def act_def view_fields_def)
  ultimately show ?thesis using view_ok_cong by blast
qed

section \<open>Snapshots\<close>

lemma metadataFor_eq: "metadataFor n (omap_get docs (n_id n)) previous = note_metadata_of docs n"
  by (auto simp: metadataFor_def note_metadata_of_def Let_def split: option.split)

lemma placement_equal: "nodePlacementEqual a b \<Longrightarrow> placement a = placement b"
  by (simp add: nodePlacementEqual_def placement_def)

lemma record_equal: "nodeRecordEqual a b \<Longrightarrow> placement a = placement b"
  by (simp add: nodeRecordEqual_def placement_equal)

lemma derive_source: "derive s = Some t \<Longrightarrow> st_sourceNodes t = st_sourceNodes s"
  by (auto simp: derive_def derive_view_def Let_def split: option.splits)

lemma initial_source:
  assumes "createInitialState snapshot e references = Some s"
  shows "st_sourceNodes s = omap_from n_id (\<lambda>n. n) (sn_nodes snapshot)"
proof -
  obtain b where b: "derive (initial_base snapshot e references) = Some b" "s = open_first_note b"
    using assms by (auto simp: createInitialState_def)
  have "st_sourceNodes (open_first_note b) = st_sourceNodes b"
    by (simp add: open_first_note_def split: list.split)
  with derive_source [OF b(1)] b(2) show ?thesis by (simp add: initial_base_def Let_def)
qed

lemma merge_entry_cases:
  "fst (merge_entry current e) = snd e \<or>
    (\<exists>x. omap_get current (fst e) = Some x \<and> nodeRecordEqual x (snd e) \<and> fst (merge_entry current e) = x)"
  by (simp add: merge_entry_def split: option.split)

lemma merge_entry_placement: "placement (fst (merge_entry current e)) = placement (snd e)"
  using merge_entry_cases [of current e] record_equal by fastforce

lemma merge_nodes:
  assumes cur: "nodes_ok current" and fresh: "nodes_ok fresh"
  shows "nodes_ok (mergeNodeRecords current fresh)"
proof -
  let ?m = "map (\<lambda>e. (fst e, fst (merge_entry current e))) fresh"
  have keys: "omap_keys ?m = omap_keys fresh" by simp
  have "list_all (\<lambda>(k, n). n_id n = k) ?m"
    using fresh placement_fields(1) [OF merge_entry_placement [of current]]
    by (auto simp: nodes_ok_def node_map_ok_def list_all_iff)
  with fresh keys have "nodes_ok ?m" unfolding nodes_ok_def node_map_ok_def by metis
  with cur show ?thesis by (simp add: mergeNodeRecords_def Let_def)
qed

lemma same_tree_merge:
  assumes cur: "nodes_ok current" and fresh: "nodes_ok fresh" and eq: "nodeListPlacementEqual current fresh"
  shows "same_tree current (mergeNodeRecords current fresh)"
proof -
  have len: "length current = length fresh" using eq by (simp add: nodeListPlacementEqual_def)
  have match: "\<exists>e. omap_get current i = Some e \<and> placement e = placement n" if "(i, n) \<in> set fresh" for i n
    using eq that placement_equal by (auto simp: nodeListPlacementEqual_def list_all_iff split: option.splits)
  have sub: "set (omap_keys fresh) \<subseteq> set (omap_keys current)"
  proof
    fix i assume "i \<in> set (omap_keys fresh)"
    then obtain n where "(i, n) \<in> set fresh" by force
    from match [OF this] show "i \<in> set (omap_keys current)" by (metis omap_get_in fst_conv image_eqI list.set_map)
  qed
  have "card (set (omap_keys fresh)) = length fresh" "card (set (omap_keys current)) = length current"
    using cur fresh distinct_card [of "omap_keys current"] distinct_card [of "omap_keys fresh"]
    by (simp_all add: nodes_ok_def node_map_ok_def)
  with sub len have keys: "set (omap_keys fresh) = set (omap_keys current)"
    by (metis List.finite_set card_subset_eq)
  let ?m = "map (\<lambda>e. (fst e, fst (merge_entry current e))) fresh"
  have "same_tree current ?m"
    unfolding same_tree_def
  proof (intro equalityI subsetI)
    fix p assume "p \<in> placement ` set (omap_values current)"
    then obtain i n where n: "(i, n) \<in> set current" "p = placement n" by force
    then have "i \<in> set (omap_keys fresh)" using keys by force
    then obtain n' where n': "(i, n') \<in> set fresh" by force
    have "omap_get current i = Some n" using cur n(1) by (simp add: nodes_ok_def node_map_ok_def omap_get_iff)
    with match [OF n'] n(2) have "p = placement n'" by simp
    with n' merge_entry_placement [of current "(i, n')"] show "p \<in> placement ` set (omap_values ?m)"
      by (force simp: image_iff)
  next
    fix p assume "p \<in> placement ` set (omap_values ?m)"
    then obtain i n where n: "(i, n) \<in> set fresh" "p = placement n"
      using merge_entry_placement [of current] by force
    from match [OF n(1)] n(2) show "p \<in> placement ` set (omap_values current)"
      by (metis omap_get_in image_eqI list.set_map snd_conv)
  qed
  then show ?thesis by (simp add: mergeNodeRecords_def same_tree_def Let_def image_image)
qed

lemma refreshed_keys:
  assumes "\<And>i. omap_has (st_metadata s) i \<Longrightarrow> omap_get m i \<noteq> None"
  shows "omap_keys (refreshed_metadata s m docs) = omap_keys (st_metadata s)"
proof -
  have "omap_keys (List.map_filter (\<lambda>(i, previous). map_option (\<lambda>n. (i, metadataFor n (omap_get docs i) (Some previous)))
      (omap_get m i)) md) = omap_keys md" if "\<forall>i \<in> set (omap_keys md). omap_get m i \<noteq> None" for md
    using that by (induction md) (auto simp: List.map_filter_simps split: option.split)
  then show ?thesis using assms by (simp add: refreshed_metadata_def omap_has_def)
qed

lemma refreshed_get:
  assumes "(i, md) \<in> set (refreshed_metadata s m docs)"
  shows "\<exists>n previous. omap_get m i = Some n \<and> md = metadataFor n (omap_get docs i) (Some previous)"
  using assms by (auto simp: refreshed_metadata_def List.map_filter_def split: option.splits)

lemma snapshot_view:
  assumes ok: "view_ok s" and named: "named_nodes (sn_nodes snapshot)" and t: "replaceFromSnapshot snapshot s = Changed t"
  shows "view_ok t"
proof -
  obtain fresh where f: "createInitialState snapshot None (snapshot_references snapshot) = Some fresh"
    using initial_view [OF named] by blast
  let ?base = "carried s fresh snapshot" and ?m = "mergeNodeRecords (st_sourceNodes s) (st_sourceNodes fresh)"
  have cur: "nodes_ok (st_sourceNodes s)" by (rule view_okD(1) [OF ok])
  have fresh: "nodes_ok (st_sourceNodes fresh)"
    using initial_source [OF f] omap_from_nodes [OF named] by simp
  have m: "nodes_ok ?m" by (rule merge_nodes [OF cur fresh])
  have base: "st_panes ?base = st_panes s" "st_activeNoteId ?base = st_activeNoteId s"
    "st_focusedNodeId ?base = st_focusedNodeId s" "st_selectedNodeIds ?base = st_selectedNodeIds s"
    "st_selectionAnchorId ?base = st_selectionAnchorId s" "st_editingNodeId ?base = None"
    by (simp_all add: carried_def split: prod.split)
  show ?thesis
  proof (cases "nodeListPlacementEqual (st_sourceNodes s) (st_sourceNodes fresh)")
    case False
    then have "derived (?base\<lparr>st_sourceNodes := ?m\<rparr>) = Changed t"
      using t f by (simp add: replaceFromSnapshot_def Let_def)
    from derived_keeps [OF this] m view_ok_panes [OF ok] base(1) show ?thesis by simp
  next
    case True
    note tree = same_tree_merge [OF cur fresh True]
    obtain v where v: "flattenVisible (st_nodes s) (st_childrenByParent s) (st_expandedIds ?base) = Some v"
      and t': "t = ?base\<lparr>st_sourceNodes := ?m, st_nodes := st_nodes s, st_childrenByParent := st_childrenByParent s,
        st_nodeOrder := st_nodeOrder s, st_noteIds := st_noteIds s, st_visibleIds := v,
        st_metadata := refreshed_metadata s ?m (st_documents ?base)\<rparr>"
      using t f True by (auto simp: replaceFromSnapshot_def Let_def split: option.splits)
    let ?s = "s\<lparr>st_expandedIds := st_expandedIds ?base, st_visibleIds := v, st_editingNodeId := None\<rparr>"
    have s': "view_ok ?s"
      using ok v by (auto simp: view_ok_def rows_ok_def focus_ok_def strips_ok_def)
    have has: "omap_get ?m i \<noteq> None" if "omap_has (st_metadata s) i" for i
    proof -
      obtain ordered where r: "rows_ok s ordered" using view_okD(4) [OF ok] by blast
      have "is_note (st_sourceNodes s) i" by (rule active_is_note(1) [OF cur r that])
      with same_tree_is_note [OF cur m tree, of i] show ?thesis by (auto simp: is_note_def split: option.splits)
    qed
    have "view_ok (?s\<lparr>st_sourceNodes := ?m, st_documents := st_documents ?base,
        st_metadata := refreshed_metadata s ?m (st_documents ?base)\<rparr>)"
    proof (rule view_ok_same_tree [OF s' m])
      show "same_tree (st_sourceNodes ?s) ?m" using tree by simp
      show keys: "omap_keys (refreshed_metadata s ?m (st_documents ?base)) = omap_keys (st_metadata ?s)"
        using refreshed_keys [OF has] by simp
      fix i n
      assume "omap_has (st_metadata ?s) i" and n: "omap_get ?m i = Some n"
      then have "omap_has (refreshed_metadata s ?m (st_documents ?base)) i"
        using metadata_has_keys [OF keys] by simp
      then obtain md where md: "omap_get (refreshed_metadata s ?m (st_documents ?base)) i = Some md"
        by (auto simp: omap_has_get)
      have "n_id n = i" using nodes_ok_id [OF m n] by simp
      with refreshed_get [OF omap_get_in [OF md]] n metadataFor_eq [of n "st_documents ?base"] md
      show "omap_get (refreshed_metadata s ?m (st_documents ?base)) i = Some (note_metadata_of (st_documents ?base) n)"
        by auto
    qed
    moreover have "view_fields t = view_fields (?s\<lparr>st_sourceNodes := ?m, st_documents := st_documents ?base,
        st_metadata := refreshed_metadata s ?m (st_documents ?base)\<rparr>)"
      by (simp add: t' view_fields_def base)
    ultimately show ?thesis using view_ok_cong by blast
  qed
qed

section \<open>Remote documents\<close>

lemma remote_node_nodes:
  "nodes_ok (rn_sourceNodes acc) \<Longrightarrow> n_id n \<noteq> [] \<Longrightarrow> nodes_ok (rn_sourceNodes (remote_node s n acc))"
  by (simp add: remote_node_def Let_def nodes_ok_set)

lemma remote_nodes_ok:
  "nodes_ok (rn_sourceNodes acc) \<Longrightarrow> named_nodes ns \<Longrightarrow> nodes_ok (rn_sourceNodes (fold (remote_node s) ns acc))"
  by (induction ns arbitrary: acc) (auto simp: named_nodes_def remote_node_nodes)

lemma remote_node_step:
  assumes "\<not> rn_placement (remote_node s n acc)"
  shows "\<not> rn_placement acc"
    and "(\<And>i. map_option placement (omap_get (rn_sourceNodes acc) i) = map_option placement (omap_get (st_sourceNodes s) i)) \<Longrightarrow>
      map_option placement (omap_get (rn_sourceNodes (remote_node s n acc)) i) = map_option placement (omap_get (st_sourceNodes s) i)"
  using assms placement_equal
  by (auto simp: remote_node_def Let_def split: option.splits if_splits)

lemma rn_sticky: "rn_placement acc \<Longrightarrow> rn_placement (fold (remote_node s) ns acc)"
  by (induction ns arbitrary: acc) (auto simp: remote_node_def Let_def)

lemma remote_nodes_placed:
  "\<not> rn_placement (fold (remote_node s) ns acc) \<Longrightarrow>
    (\<And>i. map_option placement (omap_get (rn_sourceNodes acc) i) = map_option placement (omap_get (st_sourceNodes s) i)) \<Longrightarrow>
    \<not> rn_placement acc \<and> (\<forall>i. map_option placement (omap_get (rn_sourceNodes (fold (remote_node s) ns acc)) i) =
      map_option placement (omap_get (st_sourceNodes s) i))"
proof (induction ns arbitrary: acc)
  case Nil
  then show ?case by simp
next
  case (Cons n ns)
  from Cons.prems(1) have r: "\<not> rn_placement (fold (remote_node s) ns (remote_node s n acc))" by simp
  have p: "\<not> rn_placement (remote_node s n acc)"
    by (rule ccontr) (use r rn_sticky in blast)
  from Cons.IH [OF r] remote_node_step [OF p] Cons.prems(2) show ?case by simp
qed

lemma remote_nodes_other:
  "i \<notin> n_id ` set ns \<Longrightarrow> omap_get (rn_sourceNodes (fold (remote_node s) ns acc)) i = omap_get (rn_sourceNodes acc) i"
  by (induction ns arbitrary: acc) (auto simp: remote_node_def Let_def)

lemma remote_documents_other:
  "i \<notin> d_noteId ` set ds \<Longrightarrow>
    omap_get (rd_documents (fold (remote_document s) ds acc)) i = omap_get (rd_documents acc) i"
  by (induction ds arbitrary: acc) (auto simp: remote_document_def split: option.split)

lemma remote_metadata_keys:
  "omap_keys (fold (remote_metadata s t) ids md) = omap_keys md"
  if "\<And>i n. i \<in> set ids \<Longrightarrow> omap_get (st_sourceNodes t) i = Some n \<Longrightarrow> n_kind n = KNote \<Longrightarrow> omap_has md i"
  using that
proof (induction ids arbitrary: md)
  case Nil
  then show ?case by simp
next
  case (Cons i ids)
  have set: "omap_keys (omap_set i v md) = omap_keys md" if "omap_has md i" for v
    using that omap_set_map_snd by (auto simp: omap_has_get)
  have k: "omap_keys (remote_metadata s t i md) = omap_keys md"
    using Cons.prems [of i] set by (auto simp: remote_metadata_def split: option.split)
  have "omap_keys (fold (remote_metadata s t) ids (remote_metadata s t i md)) = omap_keys (remote_metadata s t i md)"
    by (rule Cons.IH) (use Cons.prems metadata_has_keys [OF k] in auto)
  with k show ?case by simp
qed

lemma remote_metadata_get:
  assumes "omap_get (st_sourceNodes t) i = Some n" and "n_id n = i" and "n_kind n = KNote"
  shows "omap_get (fold (remote_metadata s t) ids md) i =
    (if i \<in> set ids then Some (note_metadata_of (st_documents t) n) else omap_get md i)"
proof (induction ids arbitrary: md)
  case Nil
  then show ?case by simp
next
  case (Cons k ids)
  have "omap_get (remote_metadata s t k md) i =
      (if k = i then Some (note_metadata_of (st_documents t) n) else omap_get md i)"
    using assms metadataFor_eq [of n "st_documents t"] by (auto simp: remote_metadata_def split: option.split)
  with Cons show ?case by (cases "k = i") simp_all
qed

text \<open>Every note the delta names is listed: the store already keeps its metadata.\<close>

definition delta_ids :: "workspace_delta \<Rightarrow> string list" where
  "delta_ids delta = oset_from (map d_noteId (delta_documents delta) @ map n_id (delta_nodes delta))"

definition delta_listed :: "renderer_state \<Rightarrow> workspace_delta \<Rightarrow> bool" where
  "delta_listed s delta \<longleftrightarrow> list_all (\<lambda>i. is_note (st_sourceNodes s) i \<longrightarrow> omap_has (st_metadata s) i) (delta_ids delta)"

text \<open>The delta brings a node, or moves, renames, trashes or restores one.\<close>

definition delta_moves :: "renderer_state \<Rightarrow> workspace_delta \<Rightarrow> bool" where
  "delta_moves s delta \<longleftrightarrow> list_ex (\<lambda>n. case omap_get (st_sourceNodes s) (n_id n) of
       None \<Rightarrow> True
     | Some e \<Rightarrow> n_updatedAt e \<le> n_updatedAt n \<and> \<not> nodePlacementEqual e n) (delta_nodes delta)"

lemma placement_moves:
  "rn_placement (fold (remote_node s) ns acc) \<longleftrightarrow> rn_placement acc \<or>
    list_ex (\<lambda>n. case omap_get (st_sourceNodes s) (n_id n) of
       None \<Rightarrow> True | Some e \<Rightarrow> n_updatedAt e \<le> n_updatedAt n \<and> \<not> nodePlacementEqual e n) ns"
  by (induction ns arbitrary: acc)
    (auto simp: remote_node_def Let_def nodeRecordEqual_def not_less split: option.splits)

lemma remote_view:
  assumes ok: "view_ok s" and named: "named_nodes (delta_nodes delta)" and listed: "delta_moves s delta \<or> delta_listed s delta"
    and t: "applyRemoteDocuments delta s = Changed t"
  shows "view_ok t"
proof -
  define d where "d = fold (remote_document s) (delta_documents delta)
    \<lparr>rd_documents = st_documents s, rd_changed = False, rd_projection = st_references s\<rparr>"
  define r where "r = fold (remote_node s) (delta_nodes delta)
    \<lparr>rn_sourceNodes = st_sourceNodes s, rn_changed = False, rn_placement = False\<rparr>"
  let ?t = "s\<lparr>st_documents := rd_documents d, st_sourceNodes := rn_sourceNodes r, st_references := rd_projection d\<rparr>"
  let ?md = "fold (remote_metadata s ?t) (delta_ids delta) (st_metadata s)"
  have cur: "nodes_ok (st_sourceNodes s)" by (rule view_okD(1) [OF ok])
  have m: "nodes_ok (rn_sourceNodes r)" unfolding r_def by (rule remote_nodes_ok [OF _ named]) (simp add: cur)
  have split: "rn_placement r \<and> derived ?t = Changed t \<or> \<not> rn_placement r \<and> t = ?t\<lparr>st_metadata := ?md\<rparr>"
    using t unfolding applyRemoteDocuments_def Let_def d_def [symmetric] r_def [symmetric] delta_ids_def
    by (auto split: if_splits)
  show ?thesis
  proof (cases "rn_placement r")
    case True
    with split have "derived ?t = Changed t" by simp
    from derived_keeps [OF this] m view_ok_panes [OF ok] show ?thesis by simp
  next
    case False
    then have listed: "delta_listed s delta" using listed placement_moves [of s "delta_nodes delta"] by (simp add: r_def delta_moves_def)
    from False split have t': "t = ?t\<lparr>st_metadata := ?md\<rparr>" by simp
    have "map_option placement (omap_get (st_sourceNodes s) i) = map_option placement (omap_get (rn_sourceNodes r) i)" for i
      using remote_nodes_placed [OF False [unfolded r_def]] unfolding r_def by simp
    then have tree: "same_tree (st_sourceNodes s) (rn_sourceNodes r)" by (rule same_tree_get [OF cur m])
    note kinds = same_tree_is_note [OF cur m tree]
    have keys: "omap_keys ?md = omap_keys (st_metadata s)"
      by (rule remote_metadata_keys)
        (use listed kinds in \<open>auto simp: delta_listed_def list_all_iff is_note_def split: option.splits\<close>)
    have "view_ok (s\<lparr>st_sourceNodes := rn_sourceNodes r, st_documents := rd_documents d, st_metadata := ?md\<rparr>)"
    proof (rule view_ok_same_tree [OF ok m tree keys])
      fix i n
      assume has: "omap_has (st_metadata s) i" and n: "omap_get (rn_sourceNodes r) i = Some n"
      obtain n0 where n0: "omap_get (st_sourceNodes s) i = Some n0"
        "omap_get (st_metadata s) i = Some (note_metadata_of (st_documents s) n0)"
        using view_ok_metadata [OF ok has] by blast
      obtain ordered where ro: "rows_ok s ordered" using view_okD(4) [OF ok] by blast
      have kind: "n_kind n = KNote"
        using active_is_note(1) [OF cur ro has] kinds [of i] n by (simp add: is_note_def)
      have id: "n_id n = i" using nodes_ok_id [OF m n] by simp
      have "n = n0 \<and> omap_get (rd_documents d) i = omap_get (st_documents s) i" if "i \<notin> set (delta_ids delta)"
        using that n n0 remote_nodes_other [of i "delta_nodes delta" s] remote_documents_other [of i "delta_documents delta" s]
        by (simp add: delta_ids_def r_def d_def)
      then show "omap_get ?md i = Some (note_metadata_of (rd_documents d) n)"
        using remote_metadata_get [of ?t i n s "delta_ids delta" "st_metadata s"] n id kind n0
        by (auto simp: note_metadata_of_def)
    qed
    moreover have "view_fields t = view_fields (s\<lparr>st_sourceNodes := rn_sourceNodes r, st_documents := rd_documents d,
        st_metadata := ?md\<rparr>)" by (simp add: t' view_fields_def)
    ultimately show ?thesis using view_ok_cong by blast
  qed
qed


text \<open>The condition is exact: any other delta leaves the metadata of a note the tree does not list.\<close>

lemma remote_view_only:
  assumes ok: "view_ok s" and named: "named_nodes (delta_nodes delta)" and t: "applyRemoteDocuments delta s = Changed t"
    and "view_ok t"
  shows "delta_moves s delta \<or> delta_listed s delta"
proof (rule ccontr)
  assume "\<not> (delta_moves s delta \<or> delta_listed s delta)"
  then have still: "\<not> delta_moves s delta" and "\<not> delta_listed s delta" by simp_all
  then obtain i where i: "i \<in> set (delta_ids delta)" "is_note (st_sourceNodes s) i" "\<not> omap_has (st_metadata s) i"
    by (auto simp: delta_listed_def list_all_iff)
  define d where "d = fold (remote_document s) (delta_documents delta)
    \<lparr>rd_documents = st_documents s, rd_changed = False, rd_projection = st_references s\<rparr>"
  define r where "r = fold (remote_node s) (delta_nodes delta)
    \<lparr>rn_sourceNodes = st_sourceNodes s, rn_changed = False, rn_placement = False\<rparr>"
  let ?t = "s\<lparr>st_documents := rd_documents d, st_sourceNodes := rn_sourceNodes r, st_references := rd_projection d\<rparr>"
  let ?md = "fold (remote_metadata s ?t) (delta_ids delta) (st_metadata s)"
  have p: "\<not> rn_placement r" using still by (simp add: r_def placement_moves delta_moves_def)
  have t': "t = ?t\<lparr>st_metadata := ?md\<rparr>"
    using t p unfolding applyRemoteDocuments_def Let_def d_def [symmetric] r_def [symmetric] delta_ids_def
    by (auto split: if_splits)
  have cur: "nodes_ok (st_sourceNodes s)" by (rule view_okD(1) [OF ok])
  have m: "nodes_ok (rn_sourceNodes r)" unfolding r_def by (rule remote_nodes_ok [OF _ named]) (simp add: cur)
  have "map_option placement (omap_get (st_sourceNodes s) k) = map_option placement (omap_get (rn_sourceNodes r) k)" for k
    using remote_nodes_placed [OF p [unfolded r_def]] unfolding r_def by simp
  then have tree: "same_tree (st_sourceNodes s) (rn_sourceNodes r)" by (rule same_tree_get [OF cur m])
  have "is_note (rn_sourceNodes r) i" using same_tree_is_note [OF cur m tree] i(2) by simp
  then obtain n where n: "omap_get (rn_sourceNodes r) i = Some n" "n_kind n = KNote" by (auto simp: is_note_def split: option.splits)
  have "omap_has ?md i"
    using remote_metadata_get [of ?t i n s "delta_ids delta" "st_metadata s"] n nodes_ok_id [OF m n(1)] i(1)
    by (simp add: omap_has_get)
  then have has: "omap_has (st_metadata t) i" by (simp add: t')
  obtain ordered where ro: "rows_ok s ordered" using view_okD(4) [OF ok] by blast
  obtain listed where rl: "rows_ok t listed" using view_okD(4) [OF assms(4)] by blast
  from rows_ok_records [OF cur ro m tree] obtain ordered' where
    o: "map placement ordered' = map placement ordered" "orderAvailableNodes (omap_values (rn_sourceNodes r)) = Some ordered'"
    by blast
  have "listed = ordered'" using rl o(2) by (simp add: rows_ok_def t')
  with o(1) have "omap_keys (st_metadata t) = omap_keys (st_metadata s)"
    using rl ro metadata_placements [OF o(1)] by (simp add: rows_ok_def)
  from metadata_has_keys [OF this, of i] has i(3) show False by simp
qed

end
