(* ===== verification/Store_Publish.thy ===== *)
theory Store_Publish
  imports Store_Actions
begin

text \<open>
  The publishing core of \<open>createRendererStore\<close> in \<open>store/store.ts\<close>: subscribers, the queue
  of updaters that listeners post while a publication runs, bindings and destruction. The
  state is a parameter; the operations of \<open>Store_Actions\<close> are the updaters.
\<close>

section \<open>Subscribers\<close>

text \<open>
  \<open>sb_handle\<close> is the object's identity. An active subscriber is one in the store's set:
  unsubscribing and destroying clear the flag and remove it together. A selector, an equality
  or a listener may throw (\<open>None\<close>, \<open>Fail\<close>). What a listener does to the store, given the
  state it reads, is a list of actions.
\<close>

datatype ('s, 'v) subscriber = Subscriber
    (sb_handle: nat) (sb_selector: "'s \<Rightarrow> 'v option") (sb_equality: "'v \<Rightarrow> 'v \<Rightarrow> bool option")
    (sb_selected: 'v) (sb_listener: "'s \<Rightarrow> ('s, 'v) listener_action list")
  and ('s, 'v) listener_action =
    Post "'s \<Rightarrow> 's updated"
  | Join "'s \<Rightarrow> 'v option" "'v \<Rightarrow> 'v \<Rightarrow> bool option" "'s \<Rightarrow> ('s, 'v) listener_action list"
  | Leave nat
  | Destroy
  | Fail

record ('s, 'v) store =
  so_state :: 's
  so_destroyed :: bool
  so_subscribers :: "('s, 'v) subscriber list"
  so_handle :: nat
  so_publishing :: bool
  so_queue :: "('s \<Rightarrow> 's updated) list"

definition new_store :: "'s \<Rightarrow> ('s, 'v) store" where
  "new_store initialState = \<lparr>so_state = initialState, so_destroyed = False, so_subscribers = [], so_handle = 0,
     so_publishing = False, so_queue = []\<rparr>"

definition subscribe :: "('s \<Rightarrow> 'v option) \<Rightarrow> ('v \<Rightarrow> 'v \<Rightarrow> bool option) \<Rightarrow> ('s \<Rightarrow> ('s, 'v) listener_action list) \<Rightarrow>
    ('s, 'v) store \<Rightarrow> ('s, 'v) store option" where
  "subscribe selector equality listener st =
     (if so_destroyed st then None
      else (case selector (so_state st) of
          None \<Rightarrow> None
        | Some v \<Rightarrow> Some (st\<lparr>so_subscribers := so_subscribers st @
              [Subscriber (so_handle st) selector equality v listener], so_handle := Suc (so_handle st)\<rparr>)))"

definition unsubscribe :: "nat \<Rightarrow> ('s, 'v) store \<Rightarrow> ('s, 'v) store" where
  "unsubscribe h st = st\<lparr>so_subscribers := filter (\<lambda>sb. sb_handle sb \<noteq> h) (so_subscribers st)\<rparr>"

definition destroy :: "('s, 'v) store \<Rightarrow> ('s, 'v) store" where
  "destroy st = st\<lparr>so_destroyed := True, so_subscribers := []\<rparr>"

section \<open>A listener's run\<close>

text \<open>During a publication \<open>update\<close> only queues. The boolean tells whether the listener threw,
  which ends it.\<close>

fun run_listener :: "('s, 'v) listener_action list \<Rightarrow> ('s, 'v) store \<Rightarrow> ('s, 'v) store \<times> bool" where
  "run_listener [] st = (st, False)"
| "run_listener (a # as) st =
     (case a of
        Post u \<Rightarrow> if so_destroyed st then (st, True)
          else run_listener as (st\<lparr>so_queue := so_queue st @ [u]\<rparr>)
      | Join sel eq l \<Rightarrow> (case subscribe sel eq l st of None \<Rightarrow> (st, True) | Some st' \<Rightarrow> run_listener as st')
      | Leave h \<Rightarrow> run_listener as (unsubscribe h st)
      | Destroy \<Rightarrow> run_listener as (destroy st)
      | Fail \<Rightarrow> (st, True))"

definition select_as :: "'v \<Rightarrow> ('s, 'v) subscriber \<Rightarrow> ('s, 'v) subscriber" where
  "select_as v sb = Subscriber (sb_handle sb) (sb_selector sb) (sb_equality sb) v (sb_listener sb)"

definition reselect :: "nat \<Rightarrow> 'v \<Rightarrow> ('s, 'v) store \<Rightarrow> ('s, 'v) store" where
  "reselect h v st = st\<lparr>so_subscribers :=
     map (\<lambda>sb. if sb_handle sb = h then select_as v sb else sb) (so_subscribers st)\<rparr>"

definition notify_one :: "nat \<Rightarrow> ('s, 'v) store \<times> nat \<Rightarrow> ('s, 'v) store \<times> nat" where
  "notify_one h acc =
     (let (st, failures) = acc in
      case find (\<lambda>sb. sb_handle sb = h) (so_subscribers st) of
        None \<Rightarrow> acc
      | Some sb \<Rightarrow>
          (case sb_selector sb (so_state st) of
             None \<Rightarrow> (st, Suc failures)
           | Some v \<Rightarrow>
               (case sb_equality sb (sb_selected sb) v of
                  None \<Rightarrow> (st, Suc failures)
                | Some True \<Rightarrow> acc
                | Some False \<Rightarrow>
                    (case run_listener (sb_listener sb (so_state st)) (reselect h v st) of
                       (st', threw) \<Rightarrow> (st', if threw then Suc failures else failures)))))"

text \<open>\<open>Array.from(subscribers)\<close> fixes the round's subscribers before any listener runs.\<close>

definition notify_all :: "('s, 'v) store \<Rightarrow> nat \<Rightarrow> ('s, 'v) store \<times> nat" where
  "notify_all st failures = fold notify_one (map sb_handle (so_subscribers st)) (st, failures)"

section \<open>Updates\<close>

text \<open>What a call of \<open>update\<close> ends with: its result, the \<open>AggregateError\<close> of the listeners'
  failures, or an exception of an updater (or of a destroyed store).\<close>

datatype outcome = Returned bool | Aggregate nat | Threw "string list"

partial_function (option) drain :: "('s, 'v) store \<Rightarrow> nat \<Rightarrow> bool \<Rightarrow> (('s, 'v) store \<times> outcome) option" where
  "drain st failures changed =
     (case so_queue st of
        [] \<Rightarrow> Some (st\<lparr>so_publishing := False\<rparr>, if failures > 0 then Aggregate failures else Returned changed)
      | u # us \<Rightarrow>
          (case u (so_state st) of
             Hangs \<Rightarrow> None
           | Throws issues \<Rightarrow> Some (st\<lparr>so_queue := us\<rparr>, Threw issues)
           | Same \<Rightarrow> drain (st\<lparr>so_queue := us\<rparr>) failures changed
           | Next s \<Rightarrow>
               (case notify_all (st\<lparr>so_queue := us, so_state := s\<rparr>) failures of
                  (st', failures') \<Rightarrow> drain st' failures' True)))"

definition update_store :: "('s \<Rightarrow> 's updated) \<Rightarrow> ('s, 'v) store \<Rightarrow> (('s, 'v) store \<times> outcome) option" where
  "update_store u st =
     (if so_destroyed st then Some (st, Threw [''renderer store is destroyed''])
      else if so_publishing st then Some (st\<lparr>so_queue := so_queue st @ [u]\<rparr>, Returned True)
      else drain (st\<lparr>so_publishing := True, so_queue := so_queue st @ [u]\<rparr>) 0 False)"

section \<open>Bindings\<close>

record ('s, 'v) binding =
  bi_selectedState :: 's
  bi_selected :: 'v

definition new_binding :: "('s \<Rightarrow> 'v) \<Rightarrow> ('s, 'v) store \<Rightarrow> ('s, 'v) binding" where
  "new_binding selector st = \<lparr>bi_selectedState = so_state st, bi_selected = selector (so_state st)\<rparr>"

definition getSnapshot :: "('s \<Rightarrow> 'v) \<Rightarrow> ('v \<Rightarrow> 'v \<Rightarrow> bool) \<Rightarrow> ('s, 'v) store \<Rightarrow> ('s, 'v) binding \<Rightarrow>
    'v \<times> ('s, 'v) binding" where
  "getSnapshot selector equality st b =
     (if bi_selectedState b = so_state st then (bi_selected b, b)
      else
        let next = selector (so_state st);
            selected = (if equality (bi_selected b) next then bi_selected b else next)
        in (selected, \<lparr>bi_selectedState = so_state st, bi_selected = selected\<rparr>))"

section \<open>Properties\<close>

text \<open>Running updaters one after another, as if nothing were published in between.\<close>

fun run_updaters :: "('s \<Rightarrow> 's updated) list \<Rightarrow> 's \<Rightarrow> 's option" where
  "run_updaters [] s = Some s"
| "run_updaters (u # us) s =
     (case u s of Same \<Rightarrow> run_updaters us s | Next t \<Rightarrow> run_updaters us t | _ \<Rightarrow> None)"

lemma run_updaters_append: "run_updaters (us @ vs) s = Option.bind (run_updaters us s) (run_updaters vs)"
  by (induction us arbitrary: s) (auto split: updated.splits)

subsection \<open>A publication does not touch the state\<close>

lemma subscribe_fields:
  "subscribe sel eq l st = Some st' \<Longrightarrow> so_state st' = so_state st \<and> so_queue st' = so_queue st \<and>
     so_publishing st' = so_publishing st \<and> so_destroyed st' = so_destroyed st"
  by (auto simp: subscribe_def split: if_splits option.splits)

lemma run_listener_posts:
  "run_listener as st = (st', threw) \<Longrightarrow> so_state st' = so_state st \<and> so_publishing st' = so_publishing st \<and>
     (\<exists>posted. so_queue st' = so_queue st @ posted)"
proof (induction as arbitrary: st)
  case Nil
  then show ?case by simp
next
  case (Cons a as)
  show ?case
  proof (cases a)
    case (Post u)
    with Cons.prems Cons.IH [of "st\<lparr>so_queue := so_queue st @ [u]\<rparr>"] show ?thesis
      by (auto split: if_splits)
  next
    case (Join sel eq l)
    then show ?thesis
    proof (cases "subscribe sel eq l st")
      case None
      with Join Cons.prems show ?thesis by simp
    next
      case (Some t)
      with Join Cons.prems Cons.IH [of t] subscribe_fields [OF Some] show ?thesis by auto
    qed
  next
    case (Leave h)
    with Cons.prems Cons.IH [of "unsubscribe h st"] show ?thesis by (auto simp: unsubscribe_def)
  next
    case Destroy
    with Cons.prems Cons.IH [of "destroy st"] show ?thesis by (auto simp: destroy_def)
  next
    case Fail
    with Cons.prems show ?thesis by simp
  qed
qed

lemma notify_one_posts:
  "notify_one h (st, n) = (st', m) \<Longrightarrow> so_state st' = so_state st \<and> so_publishing st' = so_publishing st \<and>
     (\<exists>posted. so_queue st' = so_queue st @ posted)"
  by (auto simp: notify_one_def reselect_def dest!: run_listener_posts
      split: option.splits bool.splits prod.splits if_splits)

lemma notify_all_posts:
  "notify_all st n = (st', m) \<Longrightarrow> so_state st' = so_state st \<and> so_publishing st' = so_publishing st \<and>
     (\<exists>posted. so_queue st' = so_queue st @ posted)"
proof -
  have "fold notify_one hs (st, n) = (st', m) \<Longrightarrow> so_state st' = so_state st \<and> so_publishing st' = so_publishing st \<and>
     (\<exists>posted. so_queue st' = so_queue st @ posted)" for hs
  proof (induction hs arbitrary: st n)
    case Nil
    then show ?case by simp
  next
    case (Cons h hs)
    obtain t k where t: "notify_one h (st, n) = (t, k)" by (cases "notify_one h (st, n)")
    with Cons.prems have "fold notify_one hs (t, k) = (st', m)" by simp
    from Cons.IH [OF this] notify_one_posts [OF t] show ?case by auto
  qed
  then show "notify_all st n = (st', m) \<Longrightarrow> ?thesis" by (simp add: notify_all_def)
qed

end
