(* ===== verification/Publish_Theorems.thy ===== *)
theory Publish_Theorems
  imports Store_Publish
begin

text \<open>
  What the publishing core promises: the updates applied are those posted, in the order they were posted,
  over listeners that post or throw; an update returns when no listener posts; no subscriber that does not
  throw itself is left with a stale selection; and a throwing updater leaves the store wedged.
\<close>

section \<open>Order\<close>

text \<open>
  The specification of one publication over listeners that only post updates or throw. What a listener
  posts are its posts up to the throw. A change of the state reaches a subscriber whose selector returns a
  value its equality tells from the one held. The updates posted along a sequence of updates are those of
  the listeners reached, in the order of the updates and of the subscribers.
\<close>

fun posting_action :: "('s, 'v) listener_action \<Rightarrow> bool" where
  "posting_action (Post u) = True"
| "posting_action Fail = True"
| "posting_action _ = False"

definition posting :: "('s, 'v) subscriber \<Rightarrow> bool" where
  "posting sb \<longleftrightarrow> (\<forall>s. list_all posting_action (sb_listener sb s))"

fun posted_by :: "('s, 'v) listener_action list \<Rightarrow> ('s \<Rightarrow> 's updated) list" where
  "posted_by (Post u # as) = u # posted_by as"
| "posted_by _ = []"

definition reached_by :: "'s \<Rightarrow> ('s, 'v) subscriber \<Rightarrow> 'v option" where
  "reached_by s sb =
     (case sb_selector sb s of None \<Rightarrow> None
      | Some v \<Rightarrow> if sb_equality sb (sb_selected sb) v = Some False then Some v else None)"

definition sub_told :: "'s \<Rightarrow> ('s, 'v) subscriber \<Rightarrow> ('s, 'v) subscriber" where
  "sub_told s sb = (case reached_by s sb of None \<Rightarrow> sb | Some v \<Rightarrow> select_as v sb)"

definition sub_posts :: "'s \<Rightarrow> ('s, 'v) subscriber \<Rightarrow> ('s \<Rightarrow> 's updated) list" where
  "sub_posts s sb = (case reached_by s sb of None \<Rightarrow> [] | Some v \<Rightarrow> posted_by (sb_listener sb s))"

fun posts_along :: "('s \<Rightarrow> 's updated) list \<Rightarrow> ('s, 'v) subscriber list \<Rightarrow> 's \<Rightarrow> ('s \<Rightarrow> 's updated) list" where
  "posts_along [] subs s = []"
| "posts_along (u # us) subs s =
     (case u s of
        Next t \<Rightarrow> concat (map (sub_posts t) subs) @ posts_along us (map (sub_told t) subs) t
      | _ \<Rightarrow> posts_along us subs s)"

lemma select_as_simps [simp]:
  "sb_handle (select_as v sb) = sb_handle sb" "sb_selector (select_as v sb) = sb_selector sb"
  "sb_equality (select_as v sb) = sb_equality sb" "sb_selected (select_as v sb) = v"
  "sb_listener (select_as v sb) = sb_listener sb"
  by (simp_all add: select_as_def)

lemma sub_told_simps [simp]:
  "sb_handle (sub_told s sb) = sb_handle sb" "sb_listener (sub_told s sb) = sb_listener sb"
  "posting (sub_told s sb) = posting sb"
  by (simp_all add: sub_told_def posting_def split: option.split)

lemma run_posting:
  "\<not> so_destroyed st \<Longrightarrow> list_all posting_action as \<Longrightarrow>
    fst (run_listener as st) = st\<lparr>so_queue := so_queue st @ posted_by as\<rparr>"
proof (induction as arbitrary: st)
  case (Cons a as)
  then show ?case by (cases a) simp_all
qed simp

lemma find_handle:
  assumes "distinct (map sb_handle (front @ sb # rest))"
  shows "find (\<lambda>x. sb_handle x = sb_handle sb) (front @ sb # rest) = Some sb"
  using assms by (induction front) auto

lemma reselect_list:
  assumes "distinct (map sb_handle (front @ sb # rest))"
  shows "map (\<lambda>x. if sb_handle x = sb_handle sb then select_as v x else x) (front @ sb # rest) = front @ select_as v sb # rest"
proof -
  have "\<forall>x \<in> set front \<union> set rest. sb_handle x \<noteq> sb_handle sb" using assms by (auto simp: image_iff)
  then show ?thesis by (auto simp: map_idI)
qed

lemma notify_one_posting:
  assumes "so_subscribers st = front @ sb # rest" and "distinct (map sb_handle (front @ sb # rest))"
    and "\<not> so_destroyed st" and "posting sb"
  shows "fst (notify_one (sb_handle sb) (st, n)) =
    st\<lparr>so_subscribers := front @ sub_told (so_state st) sb # rest, so_queue := so_queue st @ sub_posts (so_state st) sb\<rparr>"
proof -
  have found: "find (\<lambda>x. sb_handle x = sb_handle sb) (so_subscribers st) = Some sb"
    using find_handle [OF assms(2)] assms(1) by simp
  show ?thesis
  proof (cases "reached_by (so_state st) sb")
    case None
    then show ?thesis
      using assms(1) found
      by (auto simp: notify_one_def reached_by_def sub_told_def sub_posts_def split: option.splits bool.splits if_splits)
  next
    case (Some v)
    then have v: "sb_selector sb (so_state st) = Some v" "sb_equality sb (sb_selected sb) v = Some False"
      by (auto simp: reached_by_def split: option.splits if_splits)
    have "reselect (sb_handle sb) v st = st\<lparr>so_subscribers := front @ select_as v sb # rest\<rparr>"
      using reselect_list [OF assms(2), of v] by (simp add: reselect_def assms(1))
    moreover have "list_all posting_action (sb_listener sb (so_state st))" using assms(4) by (simp add: posting_def)
    from run_posting [OF _ this, of "st\<lparr>so_subscribers := front @ select_as v sb # rest\<rparr>"] assms(3)
    have "fst (run_listener (sb_listener sb (so_state st)) (st\<lparr>so_subscribers := front @ select_as v sb # rest\<rparr>)) =
      st\<lparr>so_subscribers := front @ select_as v sb # rest, so_queue := so_queue st @ posted_by (sb_listener sb (so_state st))\<rparr>"
      by simp
    ultimately show ?thesis using found v Some
      by (simp add: notify_one_def sub_told_def sub_posts_def case_prod_beta)
  qed
qed

lemma notify_fold_posting:
  assumes "so_subscribers st = front @ rest" and "distinct (map sb_handle (front @ rest))"
    and "\<not> so_destroyed st" and "list_all posting rest"
  shows "fst (fold notify_one (map sb_handle rest) (st, n)) =
    st\<lparr>so_subscribers := front @ map (sub_told (so_state st)) rest,
       so_queue := so_queue st @ concat (map (sub_posts (so_state st)) rest)\<rparr>"
  using assms
proof (induction rest arbitrary: front st n)
  case (Cons sb rest)
  obtain t m where t: "notify_one (sb_handle sb) (st, n) = (t, m)" by (cases "notify_one (sb_handle sb) (st, n)")
  have "t = st\<lparr>so_subscribers := front @ sub_told (so_state st) sb # rest, so_queue := so_queue st @ sub_posts (so_state st) sb\<rparr>"
    using notify_one_posting [OF Cons.prems(1-3), of n] Cons.prems(4) t by simp
  with Cons.IH [of t "front @ [sub_told (so_state st) sb]" m] Cons.prems t show ?case by simp
qed simp

lemma notify_all_posting:
  assumes "distinct (map sb_handle (so_subscribers st))" and "\<not> so_destroyed st" and "list_all posting (so_subscribers st)"
  shows "fst (notify_all st n) =
    st\<lparr>so_subscribers := map (sub_told (so_state st)) (so_subscribers st),
       so_queue := so_queue st @ concat (map (sub_posts (so_state st)) (so_subscribers st))\<rparr>"
  using notify_fold_posting [of st "[]"] assms by (simp add: notify_all_def)

lemma drain_order:
  assumes "drain st failures changed = Some r"
  shows "distinct (map sb_handle (so_subscribers st)) \<longrightarrow> \<not> so_destroyed st \<longrightarrow> list_all posting (so_subscribers st) \<longrightarrow>
    (\<forall>issues. snd r \<noteq> Threw issues) \<longrightarrow>
    (\<exists>applied. applied = so_queue st @ posts_along applied (so_subscribers st) (so_state st) \<and>
       run_updaters applied (so_state st) = Some (so_state (fst r)) \<and> so_queue (fst r) = [] \<and> \<not> so_publishing (fst r))"
proof (rule drain.raw_induct [OF _ assms], goal_cases)
  case (1 self st n c r)
  show ?case
  proof (cases "so_queue st")
    case Nil
    with 1(2) have "r = (st\<lparr>so_publishing := False\<rparr>, if n > 0 then Aggregate n else Returned c)" by simp
    with Nil show ?thesis by (auto intro: exI [of _ "[]"])
  next
    case (Cons u us)
    show ?thesis
    proof (cases "u (so_state st)")
      case Same
      with 1(2) Cons have "self (st\<lparr>so_queue := us\<rparr>) n c = Some r" by simp
      from 1(1) [OF this] show ?thesis
        using Same Cons by (auto intro: exI [of _ "u # applied" for applied])
    next
      case (Next s)
      let ?st = "st\<lparr>so_queue := us, so_state := s\<rparr>"
      obtain t m where t: "notify_all ?st n = (t, m)" by (cases "notify_all ?st n")
      with 1(2) Cons Next have "self t m True = Some r" by simp
      note later = 1(1) [OF this]
      show ?thesis
      proof (intro impI)
        assume d: "distinct (map sb_handle (so_subscribers st))" "\<not> so_destroyed st" "list_all posting (so_subscribers st)"
          and ok: "\<forall>issues. snd r \<noteq> Threw issues"
        have t': "t = st\<lparr>so_state := s, so_subscribers := map (sub_told s) (so_subscribers st),
            so_queue := us @ concat (map (sub_posts s) (so_subscribers st))\<rparr>"
          using notify_all_posting [of ?st n] d t by simp
        have "distinct (map sb_handle (so_subscribers t))" "\<not> so_destroyed t" "list_all posting (so_subscribers t)"
          using d by (simp_all add: t' comp_def list_all_iff)
        with later ok obtain applied where a: "applied = so_queue t @ posts_along applied (so_subscribers t) (so_state t)"
          "run_updaters applied (so_state t) = Some (so_state (fst r))" "so_queue (fst r) = []" "\<not> so_publishing (fst r)" by blast
        from a(1) have "u # applied = so_queue st @ posts_along (u # applied) (so_subscribers st) (so_state st)"
          using Next Cons by (simp add: t')
        moreover have "run_updaters (u # applied) (so_state st) = Some (so_state (fst r))" using a(2) Next by (simp add: t')
        ultimately show "\<exists>applied. applied = so_queue st @ posts_along applied (so_subscribers st) (so_state st) \<and>
            run_updaters applied (so_state st) = Some (so_state (fst r)) \<and> so_queue (fst r) = [] \<and> \<not> so_publishing (fst r)"
          using a(3,4) by blast
      qed
    next
      case (Throws issues)
      with 1(2) Cons have "snd r = Threw issues" by auto
      then show ?thesis by simp
    next
      case Hangs
      with 1(2) Cons show ?thesis by simp
    qed
  qed
qed

text \<open>C3. On an idle store whose listeners only post updates or throw, an update that returns without an updater throwing has applied exactly one sequence of updaters: those queued before, its own, and then everything the listeners posted along the way, in the order of the updates they were told of, of the subscribers and of their posts, where a listener is told when its selection changed; the queue ends empty and the store idle.\<close>

theorem updates_apply_in_order:
  assumes "update_store u st = Some (st', result)" and "\<not> so_destroyed st" and "\<not> so_publishing st"
    and "\<forall>issues. result \<noteq> Threw issues"
    and "list_all posting (so_subscribers st)" and "distinct (map sb_handle (so_subscribers st))"
  shows "\<exists>applied. applied = so_queue st @ u # posts_along applied (so_subscribers st) (so_state st) \<and>
    run_updaters applied (so_state st) = Some (so_state st') \<and> so_queue st' = [] \<and> \<not> so_publishing st'"
proof -
  from assms(1-3) have "drain (st\<lparr>so_publishing := True, so_queue := so_queue st @ [u]\<rparr>) 0 False = Some (st', result)"
    by (simp add: update_store_def)
  from drain_order [OF this] assms(2,4-6) show ?thesis by simp
qed

text \<open>A store whose subscriber posts a doubling and then an increment after each change below ten.\<close>

definition double :: "nat \<Rightarrow> nat updated" where
  "double n = Next (2 * n)"

definition incremented :: "nat \<Rightarrow> nat updated" where
  "incremented n = Next (Suc n)"

definition doubling_store :: "(nat, nat) store" where
  "doubling_store = (new_store 1)\<lparr>so_subscribers :=
     [Subscriber 0 Some (\<lambda>a b. Some (a = b)) 1 (\<lambda>s. if s < 4 then [Post double, Post incremented] else [])], so_handle := 1\<rparr>"

lemmas publication = update_store_def drain.simps notify_all_def notify_one_def reselect_def select_as_def
  doubling_store_def new_store_def double_def incremented_def

theorem updates_apply_in_order_witness:
  "\<exists>st' applied. update_store double doubling_store = Some (st', Returned True) \<and> so_state st' = 5 \<and>
     applied = double # posts_along applied (so_subscribers doubling_store) 1 \<and> run_updaters applied 1 = Some 5"
proof -
  have "\<exists>st'. update_store double doubling_store = Some (st', Returned True) \<and> so_state st' = 5"
    by (simp add: publication)
  then obtain st' where r: "update_store double doubling_store = Some (st', Returned True)" "so_state st' = 5"
    by blast
  have "\<not> so_destroyed doubling_store" "\<not> so_publishing doubling_store" "so_queue doubling_store = []"
    "so_state doubling_store = 1" "list_all posting (so_subscribers doubling_store)"
    "distinct (map sb_handle (so_subscribers doubling_store))"
    by (simp_all add: doubling_store_def new_store_def posting_def)
  with updates_apply_in_order [OF r(1)] r show ?thesis by auto
qed

section \<open>What listeners may do\<close>

inductive admits :: "(('s, 'v) listener_action \<Rightarrow> bool) \<Rightarrow> ('s \<Rightarrow> ('s, 'v) listener_action list) \<Rightarrow> bool" for P where
  admitsI: "(\<And>s a. a \<in> set (l s) \<Longrightarrow> P a) \<Longrightarrow>
    (\<And>s sel eq l'. Join sel eq l' \<in> set (l s) \<Longrightarrow> admits P l') \<Longrightarrow> admits P l"

inductive_cases admitsE: "admits P l"

definition all_admit :: "(('s, 'v) listener_action \<Rightarrow> bool) \<Rightarrow> ('s, 'v) store \<Rightarrow> bool" where
  "all_admit P st \<longleftrightarrow> (\<forall>sb \<in> set (so_subscribers st). admits P (sb_listener sb))"

lemma all_admit_subscribers:
  "so_subscribers st' = so_subscribers st \<Longrightarrow> all_admit P st' = all_admit P st"
  by (simp add: all_admit_def)

lemma run_listener_admits:
  "run_listener as st = (st', threw) \<Longrightarrow> all_admit P st \<Longrightarrow>
    (\<forall>sel eq l. Join sel eq l \<in> set as \<longrightarrow> admits P l) \<Longrightarrow> all_admit P st'"
proof (induction as arbitrary: st)
  case Nil
  then show ?case by simp
next
  case (Cons a as)
  have rest: "\<forall>sel eq l. Join sel eq l \<in> set as \<longrightarrow> admits P l" using Cons.prems(3) by simp
  show ?case
  proof (cases a)
    case (Post u)
    with Cons.prems Cons.IH [of "st\<lparr>so_queue := so_queue st @ [u]\<rparr>"] rest show ?thesis
      by (auto simp: all_admit_def split: if_splits)
  next
    case (Join sel eq l)
    show ?thesis
    proof (cases "subscribe sel eq l st")
      case None
      with Join Cons.prems show ?thesis by simp
    next
      case (Some t)
      have "admits P l" using Cons.prems(3) Join by simp
      with Some Cons.prems(2) have "all_admit P t"
        by (auto simp: subscribe_def all_admit_def split: if_splits option.splits)
      with Join Some Cons.prems(1) Cons.IH [of t] rest show ?thesis by simp
    qed
  next
    case (Leave h)
    with Cons.prems Cons.IH [of "unsubscribe h st"] rest show ?thesis
      by (auto simp: unsubscribe_def all_admit_def)
  next
    case Destroy
    with Cons.prems Cons.IH [of "destroy st"] rest show ?thesis
      by (auto simp: destroy_def all_admit_def)
  next
    case Fail
    with Cons.prems show ?thesis by simp
  qed
qed

lemma reselect_admits: "all_admit P (reselect h v st) = all_admit P st"
  unfolding all_admit_def reselect_def
  by (simp add: if_distrib [of sb_listener] cong: if_cong del: if_image_distrib)

lemma notify_one_cases:
  assumes "notify_one h (st, n) = (st', m)"
  obtains (gone) "find (\<lambda>sb. sb_handle sb = h) (so_subscribers st) = None" "st' = st" "m = n"
  | (failed) sb where "find (\<lambda>sb. sb_handle sb = h) (so_subscribers st) = Some sb"
      "sb_selector sb (so_state st) = None \<or> (\<exists>v. sb_equality sb (sb_selected sb) v = None)" "st' = st" "m = Suc n"
  | (same) sb v where "find (\<lambda>sb. sb_handle sb = h) (so_subscribers st) = Some sb"
      "sb_selector sb (so_state st) = Some v" "sb_equality sb (sb_selected sb) v = Some True" "st' = st" "m = n"
  | (told) sb v threw where "find (\<lambda>sb. sb_handle sb = h) (so_subscribers st) = Some sb"
      "sb_selector sb (so_state st) = Some v" "sb_equality sb (sb_selected sb) v = Some False"
      "run_listener (sb_listener sb (so_state st)) (reselect h v st) = (st', threw)"
      "m = (if threw then Suc n else n)"
proof (cases "find (\<lambda>sb. sb_handle sb = h) (so_subscribers st)")
  case None
  show ?thesis by (rule gone) (use assms None in \<open>simp_all add: notify_one_def\<close>)
next
  case sb: (Some sb)
  show ?thesis
  proof (cases "sb_selector sb (so_state st)")
    case None
    show ?thesis by (rule failed [OF sb]) (use assms sb None in \<open>simp_all add: notify_one_def\<close>)
  next
    case v: (Some v)
    show ?thesis
    proof (cases "sb_equality sb (sb_selected sb) v")
      case None
      show ?thesis by (rule failed [OF sb]) (use assms sb v None in \<open>auto simp: notify_one_def\<close>)
    next
      case e: (Some e)
      show ?thesis
      proof (cases e)
        case True
        show ?thesis
          by (rule same [OF sb v]) (use assms sb v e True in \<open>simp_all add: notify_one_def\<close>)
      next
        case False
        obtain t threw where t: "run_listener (sb_listener sb (so_state st)) (reselect h v st) = (t, threw)"
          by (cases "run_listener (sb_listener sb (so_state st)) (reselect h v st)")
        from assms sb v e False t have "st' = t" "m = (if threw then Suc n else n)"
          by (simp_all add: notify_one_def)
        with t have "run_listener (sb_listener sb (so_state st)) (reselect h v st) = (st', threw)" by simp
        from told [OF sb v _ this \<open>m = _\<close>] e False show ?thesis by simp
      qed
    qed
  qed
qed

lemma notify_one_admits:
  assumes "notify_one h (st, n) = (st', m)" and "all_admit P st"
  shows "all_admit P st'"
  using assms(1)
proof (cases rule: notify_one_cases)
  case (told sb v threw)
  from told(1) have "sb \<in> set (so_subscribers st)" by (auto simp: find_Some_iff)
  then have "admits P (sb_listener sb)" using assms(2) by (simp add: all_admit_def)
  then have "\<forall>sel eq l. Join sel eq l \<in> set (sb_listener sb (so_state st)) \<longrightarrow> admits P l"
    by (auto elim: admitsE)
  with run_listener_admits [OF told(4)] assms(2) show ?thesis by (simp add: reselect_admits)
qed (use assms(2) in simp_all)

section \<open>Returning\<close>

fun posts :: "('s, 'v) listener_action \<Rightarrow> bool" where
  "posts (Post u) = True"
| "posts _ = False"

definition quiet :: "('s, 'v) store \<Rightarrow> bool" where
  "quiet st \<longleftrightarrow> all_admit (\<lambda>a. \<not> posts a) st"

lemma quiet_listener: "run_listener as st = (st', threw) \<Longrightarrow> (\<forall>a \<in> set as. \<not> posts a) \<Longrightarrow> so_queue st' = so_queue st"
proof (induction as arbitrary: st)
  case Nil
  then show ?case by simp
next
  case (Cons a as)
  then show ?case
    by (cases a) (auto simp: unsubscribe_def destroy_def subscribe_fields split: option.splits dest!: subscribe_fields)
qed

lemma quiet_notify_one:
  assumes "notify_one h (st, n) = (st', m)" and "quiet st"
  shows "so_queue st' = so_queue st"
  using assms(1)
proof (cases rule: notify_one_cases)
  case (told sb v threw)
  from told(1) have "sb \<in> set (so_subscribers st)" by (auto simp: find_Some_iff)
  then have "admits (\<lambda>a. \<not> posts a) (sb_listener sb)" using assms(2) by (simp add: quiet_def all_admit_def)
  then have "\<forall>a \<in> set (sb_listener sb (so_state st)). \<not> posts a" by (auto elim: admitsE)
  from quiet_listener [OF told(4) this] show ?thesis by (simp add: reselect_def)
qed simp_all

lemma quiet_notify_all:
  assumes "notify_all st n = (st', m)" and "quiet st"
  shows "so_queue st' = so_queue st \<and> quiet st'"
proof -
  have "fold notify_one hs (st, n) = (st', m) \<Longrightarrow> quiet st \<Longrightarrow> so_queue st' = so_queue st \<and> quiet st'" for hs
  proof (induction hs arbitrary: st n)
    case Nil
    then show ?case by simp
  next
    case (Cons h hs)
    obtain t k where t: "notify_one h (st, n) = (t, k)" by (cases "notify_one h (st, n)")
    have "quiet t" using notify_one_admits [OF t] Cons.prems(2) by (simp add: quiet_def)
    with Cons.IH [of t k] quiet_notify_one [OF t Cons.prems(2)] Cons.prems(1) t show ?case by simp
  qed
  with assms show ?thesis by (simp add: notify_all_def)
qed

lemma drain_returns:
  "quiet st \<Longrightarrow> (\<forall>u \<in> set (so_queue st). \<forall>s. u s \<noteq> Hangs) \<Longrightarrow> \<exists>r. drain st n c = Some r"
proof (induction "so_queue st" arbitrary: st n c)
  case Nil
  then show ?case by (simp add: drain.simps)
next
  case (Cons u us)
  note q = Cons.hyps(2) [symmetric]
  show ?case
  proof (cases "u (so_state st)")
    case Same
    have "\<exists>r. drain (st\<lparr>so_queue := us\<rparr>) n c = Some r"
      by (rule Cons.hyps(1)) (use Cons.prems q in \<open>simp_all add: quiet_def all_admit_def\<close>)
    with Same q show ?thesis by (subst drain.simps) simp
  next
    case (Next s)
    let ?st = "st\<lparr>so_queue := us, so_state := s\<rparr>"
    obtain t m where t: "notify_all ?st n = (t, m)" by (cases "notify_all ?st n")
    have "quiet ?st" using Cons.prems(1) by (simp add: quiet_def all_admit_def)
    from quiet_notify_all [OF t this] have f: "so_queue t = us" "quiet t" by simp_all
    have "\<exists>r. drain t m True = Some r"
      by (rule Cons.hyps(1)) (use Cons.prems q f in simp_all)
    with Next q t show ?thesis by (subst drain.simps) simp
  next
    case (Throws issues)
    with q show ?thesis by (subst drain.simps) simp
  next
    case Hangs
    with q Cons.prems(2) show ?thesis by simp
  qed
qed

theorem update_returns:
  assumes "quiet st" and "\<forall>v \<in> set (u # so_queue st). \<forall>s. v s \<noteq> Hangs"
  shows "\<exists>r. update_store u st = Some r"
proof -
  let ?st = "st\<lparr>so_publishing := True, so_queue := so_queue st @ [u]\<rparr>"
  have "quiet ?st" using assms(1) by (simp add: quiet_def all_admit_def)
  then have "\<exists>r. drain ?st 0 False = Some r" using assms(2) by (intro drain_returns) auto
  then show ?thesis by (simp add: update_store_def)
qed

theorem update_returns_witness:
  "\<exists>r. update_store double (new_store 3 :: (nat, nat) store) = Some r"
  by (rule update_returns) (simp_all add: quiet_def all_admit_def new_store_def double_def)

section \<open>No stale selection\<close>

text \<open>A subscriber whose selector and equality never throw. Its selection of a state is held when the value it
  holds is that selection or one its own equality does not tell from it.\<close>

definition never_throws :: "('s, 'v) subscriber \<Rightarrow> bool" where
  "never_throws sb \<longleftrightarrow> (\<forall>s. sb_selector sb s \<noteq> None) \<and> (\<forall>a b. sb_equality sb a b \<noteq> None)"

definition current_selection :: "'s \<Rightarrow> ('s, 'v) subscriber \<Rightarrow> bool" where
  "current_selection s sb \<longleftrightarrow>
     (\<exists>v. sb_selector sb s = Some v \<and> (sb_selected sb = v \<or> sb_equality sb (sb_selected sb) v = Some True))"

text \<open>Subscribers outside \<open>hs\<close>, those still to be told, hold their selection of the state.\<close>

definition watched :: "nat set \<Rightarrow> ('s, 'v) store \<Rightarrow> bool" where
  "watched hs st \<longleftrightarrow> (\<forall>sb \<in> set (so_subscribers st). sb_handle sb < so_handle st \<and>
     (never_throws sb \<longrightarrow> sb_handle sb \<notin> hs \<longrightarrow> current_selection (so_state st) sb)) \<and>
     distinct (map sb_handle (so_subscribers st))"

lemma watched_fields [simp]:
  "watched hs (st\<lparr>so_queue := q\<rparr>) = watched hs st" "watched hs (st\<lparr>so_publishing := b\<rparr>) = watched hs st"
  by (simp_all add: watched_def)

lemma watched_filter: "watched hs st \<Longrightarrow> watched hs (unsubscribe h st)"
  by (auto simp: watched_def unsubscribe_def distinct_map_filter)

lemma watched_destroy: "watched hs (destroy st)"
  by (simp add: watched_def destroy_def)

lemma watched_subscribe:
  assumes "subscribe sel eq l st = Some st'" and "watched hs st"
  shows "watched hs st'"
proof -
  from assms(1) obtain v where v: "sel (so_state st) = Some v"
    and st': "st' = st\<lparr>so_subscribers := so_subscribers st @ [Subscriber (so_handle st) sel eq v l],
      so_handle := Suc (so_handle st)\<rparr>"
    by (auto simp: subscribe_def split: if_splits option.splits)
  from assms(2) have "\<forall>sb \<in> set (so_subscribers st). sb_handle sb < so_handle st"
    by (simp add: watched_def)
  then have "so_handle st \<notin> sb_handle ` set (so_subscribers st)" by auto
  with assms(2) v show ?thesis
    unfolding st' watched_def by (auto simp: current_selection_def less_SucI)
qed

lemma watched_listener: "run_listener as st = (st', threw) \<Longrightarrow> watched hs st \<Longrightarrow> watched hs st'"
proof (induction as arbitrary: st)
  case (Cons a as)
  then show ?case
    by (cases a) (auto simp: watched_filter watched_destroy intro: watched_subscribe split: if_splits option.splits)
qed simp

lemma reselect_subscribers:
  "sb \<in> set (so_subscribers (reselect h v st)) \<Longrightarrow>
    \<exists>sb0 \<in> set (so_subscribers st). sb = (if sb_handle sb0 = h then select_as v sb0 else sb0)"
  by (auto simp: reselect_def)

lemma handle_unique:
  "watched hs st \<Longrightarrow> sb \<in> set (so_subscribers st) \<Longrightarrow> t \<in> set (so_subscribers st) \<Longrightarrow> sb_handle t = sb_handle sb \<Longrightarrow> t = sb"
  by (auto simp: watched_def distinct_map inj_on_def)

lemma reselect_watched:
  assumes w: "watched (insert h hs) st" and sb: "sb \<in> set (so_subscribers st)" "sb_handle sb = h"
    and v: "sb_selector sb (so_state st) = Some v"
  shows "watched hs (reselect h v st)"
proof -
  have fields: "so_state (reselect h v st) = so_state st" "so_handle (reselect h v st) = so_handle st"
    "map sb_handle (so_subscribers (reselect h v st)) = map sb_handle (so_subscribers st)"
    by (auto simp: reselect_def)
  have "sb_handle t < so_handle st \<and> (never_throws t \<longrightarrow> sb_handle t \<notin> hs \<longrightarrow> current_selection (so_state st) t)"
    if t: "t \<in> set (so_subscribers (reselect h v st))" for t
  proof -
    from reselect_subscribers [OF t] obtain t0 where t0: "t0 \<in> set (so_subscribers st)"
      "t = (if sb_handle t0 = h then select_as v t0 else t0)" by blast
    show ?thesis
    proof (cases "sb_handle t0 = h")
      case True
      with handle_unique [OF w sb(1) t0(1)] sb(2) have "t0 = sb" by simp
      with t0 True v w show ?thesis by (auto simp: watched_def current_selection_def)
    next
      case False
      with t0 w show ?thesis by (auto simp: watched_def)
    qed
  qed
  with w fields show ?thesis by (simp add: watched_def)
qed

lemma watched_told:
  assumes "watched (insert h hs) st"
    and "\<And>sb. sb \<in> set (so_subscribers st) \<Longrightarrow> sb_handle sb = h \<Longrightarrow> never_throws sb \<Longrightarrow> current_selection (so_state st) sb"
  shows "watched hs st"
  using assms unfolding watched_def by blast

lemma notify_one_watched:
  assumes n: "notify_one h (st, n) = (st', m)" and w: "watched (insert h hs) st"
  shows "watched hs st'"
  using n
proof (cases rule: notify_one_cases)
  case gone
  then have "\<forall>sb \<in> set (so_subscribers st). sb_handle sb \<noteq> h" by (simp add: find_None_iff)
  with watched_told [OF w] gone(2) show ?thesis by blast
next
  case (failed sb)
  then have sb: "sb \<in> set (so_subscribers st)" "sb_handle sb = h" by (auto simp: find_Some_iff)
  have "\<not> never_throws sb" using failed(2) by (auto simp: never_throws_def)
  with watched_told [OF w] handle_unique [OF w sb(1)] sb(2) failed(3) show ?thesis by metis
next
  case (same sb v)
  then have sb: "sb \<in> set (so_subscribers st)" "sb_handle sb = h" by (auto simp: find_Some_iff)
  have "current_selection (so_state st) sb" using same(2,3) by (simp add: current_selection_def)
  with watched_told [OF w] handle_unique [OF w sb(1)] sb(2) same(4) show ?thesis by metis
next
  case (told sb v threw)
  then have sb: "sb \<in> set (so_subscribers st)" "sb_handle sb = h" by (auto simp: find_Some_iff)
  from watched_listener [OF told(4) reselect_watched [OF w sb told(2)]] show ?thesis .
qed

lemma notify_fold_watched: "fold notify_one hs (st, n) = (st', m) \<Longrightarrow> watched (set hs) st \<Longrightarrow> watched {} st'"
proof (induction hs arbitrary: st n)
  case (Cons h hs)
  obtain t k where t: "notify_one h (st, n) = (t, k)" by (cases "notify_one h (st, n)")
  from notify_one_watched [OF t] Cons.prems(2) have "watched (set hs) t" by simp
  with Cons.IH [of t k] Cons.prems(1) t show ?case by simp
qed simp

lemma notify_all_watched:
  assumes "notify_all (st\<lparr>so_queue := us, so_state := s\<rparr>) n = (st', m)" and "watched {} st"
  shows "watched {} st'"
proof -
  have "watched (set (map sb_handle (so_subscribers st))) (st\<lparr>so_queue := us, so_state := s\<rparr>)"
    using assms(2) by (simp add: watched_def)
  with assms(1) notify_fold_watched [of "map sb_handle (so_subscribers st)" "st\<lparr>so_queue := us, so_state := s\<rparr>" n st' m]
  show ?thesis by (simp add: notify_all_def)
qed

lemma drain_watched:
  assumes "drain st failures changed = Some r"
  shows "watched {} st \<longrightarrow> watched {} (fst r)"
proof (rule drain.raw_induct [OF _ assms], goal_cases)
  case (1 self st n c r)
  show ?case
  proof (cases "so_queue st")
    case Nil
    with 1(2) have "r = (st\<lparr>so_publishing := False\<rparr>, if n > 0 then Aggregate n else Returned c)" by simp
    then show ?thesis by simp
  next
    case (Cons u us)
    show ?thesis
    proof (cases "u (so_state st)")
      case Same
      with 1(2) Cons have "self (st\<lparr>so_queue := us\<rparr>) n c = Some r" by simp
      from 1(1) [OF this] show ?thesis by simp
    next
      case (Next s)
      obtain t m where t: "notify_all (st\<lparr>so_queue := us, so_state := s\<rparr>) n = (t, m)"
        by (cases "notify_all (st\<lparr>so_queue := us, so_state := s\<rparr>) n")
      with 1(2) Cons Next have "self t m True = Some r" by simp
      from 1(1) [OF this] notify_all_watched [OF t] show ?thesis by blast
    next
      case (Throws issues)
      with 1(2) Cons have "r = (st\<lparr>so_queue := us\<rparr>, Threw issues)" by simp
      then show ?thesis by simp
    next
      case Hangs
      with 1(2) Cons show ?thesis by simp
    qed
  qed
qed

text \<open>The calls a program makes of a store. An update may return, end with the failures of listeners or throw.\<close>

inductive store_step :: "('s, 'v) store \<Rightarrow> ('s, 'v) store \<Rightarrow> bool" where
  step_subscribe: "subscribe sel eq l st = Some st' \<Longrightarrow> store_step st st'"
| step_unsubscribe: "store_step st (unsubscribe h st)"
| step_update: "update_store u st = Some (st', result) \<Longrightarrow> store_step st st'"
| step_destroy: "store_step st (destroy st)"

lemma update_watched:
  assumes "update_store u st = Some (st', result)" and "watched {} st"
  shows "watched {} st'"
proof (cases "so_destroyed st \<or> so_publishing st")
  case True
  with assms show ?thesis by (auto simp: update_store_def split: if_splits)
next
  case False
  then have "drain (st\<lparr>so_publishing := True, so_queue := so_queue st @ [u]\<rparr>) 0 False = Some (st', result)"
    using assms(1) by (simp add: update_store_def)
  from drain_watched [OF this] assms(2) show ?thesis by simp
qed

lemma store_step_watched: "store_step st st' \<Longrightarrow> watched {} st \<Longrightarrow> watched {} st'"
  by (induction rule: store_step.induct) (blast intro: watched_subscribe watched_filter watched_destroy update_watched)+

interpretation publisher: invariant_system store_step "new_store s0" "watched {}" for s0
proof
  show "watched {} (new_store s0)" by (simp add: watched_def new_store_def)
qed (rule store_step_watched)

text \<open>C28. After any sequence of subscriptions, unsubscriptions, updates and destruction of a new store, whether an update returns, ends with the failures of listeners or throws, and whatever the listeners do, every subscriber whose own selector and equality never throw holds its selection of the current state or a value its equality does not tell from it.\<close>

theorem no_stale_subscriber:
  assumes "reached store_step (new_store s0) st" and "sb \<in> set (so_subscribers st)"
    and "\<forall>s. sb_selector sb s \<noteq> None" and "\<forall>a b. sb_equality sb a b \<noteq> None"
  shows "\<exists>v. sb_selector sb (so_state st) = Some v \<and>
    (sb_selected sb = v \<or> sb_equality sb (sb_selected sb) v = Some True)"
  using publisher.reachable_inv [OF assms(1)] assms(2-4)
  by (simp add: watched_def never_throws_def current_selection_def)

text \<open>A subscriber that holds the parity of the state and throws when told, and an update that changes it.\<close>

definition parity_store :: "(nat, nat) store" where
  "parity_store = (new_store 3)\<lparr>so_subscribers := [Subscriber 0 (\<lambda>s. Some (s mod 2)) (\<lambda>a b. Some (a = b)) 1 (\<lambda>s. [Fail])],
     so_handle := 1\<rparr>"

theorem no_stale_subscriber_witness:
  "\<exists>st. update_store double parity_store = Some (st, Aggregate 1) \<and> so_state st = 6 \<and>
     map sb_selected (so_subscribers st) = [0]"
proof -
  let ?sb = "Subscriber 0 (\<lambda>s. Some (s mod 2)) (\<lambda>a b. Some (a = b)) 0 (\<lambda>s. [Fail]) :: (nat, nat) subscriber"
  have "subscribe (\<lambda>s. Some (s mod 2)) (\<lambda>a b. Some (a = b)) (\<lambda>s. [Fail]) (new_store 3) = Some parity_store"
    by (simp add: subscribe_def new_store_def parity_store_def)
  then have one: "store_step (new_store 3) parity_store" by (rule step_subscribe)
  have "\<exists>st sel. update_store double parity_store = Some (st, Aggregate 1) \<and> so_state st = 6 \<and>
      so_subscribers st = [Subscriber 0 (\<lambda>s. Some (s mod 2)) (\<lambda>a b. Some (a = b)) sel (\<lambda>s. [Fail])]"
    by (simp add: publication parity_store_def)
  then obtain st sel where st: "update_store double parity_store = Some (st, Aggregate 1)" "so_state st = 6"
    "so_subscribers st = [Subscriber 0 (\<lambda>s. Some (s mod 2)) (\<lambda>a b. Some (a = b)) sel (\<lambda>s. [Fail])]" by blast
  have "reached store_step (new_store 3) st"
    using reached_step [where step = store_step, OF reached_step [where step = store_step, OF reached_refl one] step_update [OF st(1)]] .
  from no_stale_subscriber [OF this, of "hd (so_subscribers st)"] st show ?thesis by simp
qed

section \<open>A throwing updater\<close>

fun update_each :: "('s \<Rightarrow> 's updated) list \<Rightarrow> ('s, 'v) store \<Rightarrow> (('s, 'v) store \<times> outcome list) option" where
  "update_each [] st = Some (st, [])"
| "update_each (u # us) st =
     (case update_store u st of None \<Rightarrow> None
      | Some (st', r) \<Rightarrow> (case update_each us st' of None \<Rightarrow> None | Some (st'', rs) \<Rightarrow> Some (st'', r # rs)))"

lemma wedged:
  "so_publishing st \<Longrightarrow> \<not> so_destroyed st \<Longrightarrow>
    update_each us st = Some (st\<lparr>so_queue := so_queue st @ us\<rparr>, replicate (length us) (Returned True))"
  by (induction us arbitrary: st) (simp_all add: update_store_def)

theorem throwing_import_wedges_store:
  assumes "\<not> so_destroyed st" and "\<not> so_publishing st" and "so_queue st = []"
    and "reduceImportBatch (so_state st) operations = ImportThrows issues"
  shows "\<exists>st'. update_store (applyOperations operations) st = Some (st', Threw issues) \<and>
    (\<forall>us. \<exists>st''. update_each us st' = Some (st'', replicate (length us) (Returned True)) \<and>
      so_state st'' = so_state st)"
proof -
  have "applyOperations operations (so_state st) = Throws issues" by (simp add: applyOperations_def assms(4))
  then have "update_store (applyOperations operations) st =
      Some (st\<lparr>so_publishing := True\<rparr>, Threw issues)"
    using assms(1-3) by (simp add: update_store_def drain.simps)
  with wedged [of "st\<lparr>so_publishing := True\<rparr>"] assms(1) show ?thesis by auto
qed

text \<open>An import whose first operation carries a property with an empty owner.\<close>

definition empty_settings :: workspace_settings where
  "empty_settings = \<lparr>s_settingsVersion = 1, s_theme = [], s_compactSidebar = False, s_showPageIcons = False,
     s_rememberLastNote = True, s_editorFont = [], s_editorLineHeight = [], s_showLineNumbers = False,
     s_editorPlaceholder = [], s_extra = []\<rparr>"

definition empty_snapshot :: workspace_snapshot where
  "empty_snapshot = \<lparr>sn_protocolVersion = 1, sn_activeNoteId = None, sn_nodes = [], sn_documents = [],
     sn_historyHeaders = [], sn_settings = empty_settings, sn_tags = [], sn_people = [], sn_references = [],
     sn_images = None, sn_mediaMetadata = None, sn_properties = None, sn_propertyTemplates = None,
     sn_tasks = None, sn_prompts = None, sn_annotations = None, sn_importReceipts = None\<rparr>"

definition empty_state :: renderer_state where
  "empty_state = initial_base empty_snapshot None emptyReferenceBootstrap"

definition bad_import :: "workspace_operation list" where
  "bad_import = SetNoteProperty \<lparr>p_noteId = [], p_field = \<lparr>f_id = ''p'', f_name = ''P'', f_value = VText [],
       f_options = [], f_position = 0\<rparr>\<rparr> 0 #
     RecordProviderImport \<lparr>ir_provider = ''md'', ir_sourceKey = [], ir_sourcePath = [], ir_noteId = [],
       ir_importedAt = 0, ir_openedFile = Undefined\<rparr> # replicate 254 (RenameNode [] [] 0)"

lemma bad_import_throws: "reduceImportBatch s bad_import = ImportThrows [''note ID is invalid'']"
proof -
  have "is_import_batch bad_import"
    by (simp add: is_import_batch_def bad_import_def IMPORT_BATCH_SIZE_def importable_def records_import_def
        list_all_iff)
  moreover have "import_loop people b bad_import = Inl [''note ID is invalid'']" for people b
    by (simp add: bad_import_def import_step_def upsertNoteProperty_def assertSingleOwner_def assertNoteId_def
        check_def)
  ultimately show ?thesis by (simp add: reduceImportBatch_def)
qed

theorem throwing_import_wedges_store_witness:
  "\<exists>st'. update_store (applyOperations bad_import) (new_store empty_state :: (renderer_state, bool) store) =
     Some (st', Threw [''note ID is invalid'']) \<and>
     (\<exists>st''. update_each [\<lambda>s. Next (s\<lparr>st_focusedNodeId := Some ''x''\<rparr>)] st' = Some (st'', [Returned True]) \<and>
       so_state st'' = empty_state)"
proof -
  let ?st = "new_store empty_state :: (renderer_state, bool) store"
  let ?u = "\<lambda>s :: renderer_state. Next (s\<lparr>st_focusedNodeId := Some ''x''\<rparr>)"
  have "\<not> so_destroyed ?st" "\<not> so_publishing ?st" "so_queue ?st = []" "so_state ?st = empty_state"
    by (simp_all add: new_store_def)
  from throwing_import_wedges_store [OF this(1-3) bad_import_throws] this(4)
  obtain st' where st': "update_store (applyOperations bad_import) ?st = Some (st', Threw [''note ID is invalid''])"
    "\<forall>us. \<exists>st''. update_each us st' = Some (st'', replicate (length us) (Returned True)) \<and> so_state st'' = empty_state"
    by auto
  from spec [OF st'(2), of "[?u]"] obtain st'' where
    "update_each [?u] st' = Some (st'', replicate (length [?u]) (Returned True))" "so_state st'' = empty_state" by blast
  then have "update_each [?u] st' = Some (st'', [Returned True]) \<and> so_state st'' = empty_state" by simp
  with st'(1) show ?thesis by blast
qed

end
