(* ===== verification/Store_Theorems.thy ===== *)
theory Store_Theorems
  imports Snapshot_Invariants Publish_Theorems Operation_Theorems
begin

text \<open>
  What the renderer store promises: the cached view always is what \<open>derive\<close> computes, every
  operation on a forest returns, no remote update rewinds a document, history stays sorted, and
  where the cache does go stale.
\<close>

section \<open>The state machine of store actions\<close>

inductive store_action :: "renderer_state \<Rightarrow> renderer_state \<Rightarrow> bool" where
  act_operations: "list_all op_named ops \<Longrightarrow> applyOperations ops s = Next t \<Longrightarrow> store_action s t"
| act_references: "applyReferenceOperations now rops s = Changed t \<Longrightarrow> store_action s t"
| act_active: "setActiveNote now i s = Changed t \<Longrightarrow> store_action s t"
| act_focus: "setFocusedNode i s = Changed t \<Longrightarrow> store_action s t"
| act_edit: "setEditingNode i s = Changed t \<Longrightarrow> store_action s t"
| act_select: "selectTreeNode k mode s = Changed t \<Longrightarrow> store_action s t"
| act_select_all: "selectAllTreeNodes s = Changed t \<Longrightarrow> store_action s t"
| act_clear: "clearTreeSelection s = Changed t \<Longrightarrow> store_action s t"
| act_toggle: "toggleExpanded k s = Changed t \<Longrightarrow> store_action s t"
| act_ack: "applyAck ack s = Changed t \<Longrightarrow> store_action s t"
| act_history: "publishHistoryHeader header s = Changed t \<Longrightarrow> store_action s t"
| act_snapshot: "named_nodes (sn_nodes snapshot) \<Longrightarrow> replaceFromSnapshot snapshot s = Changed t \<Longrightarrow> store_action s t"
| act_lock: "setNoteLock lock s = Changed t \<Longrightarrow> store_action s t"
| act_remote: "named_nodes (delta_nodes delta) \<Longrightarrow> delta_moves s delta \<or> delta_listed s delta \<Longrightarrow> applyRemoteDocuments delta s = Changed t \<Longrightarrow>
    store_action s t"
| act_restore: "panes_ok (ly_panes layout) \<Longrightarrow> store_action s (restoreSession s layout remembered)"

lemma references_view: "view_ok s \<Longrightarrow> applyReferenceOperations now rops s = Changed t \<Longrightarrow> view_ok t"
  using reference_reducer.batch_keeps [of s rops] by (auto simp: applyReferenceOperations_def list_all_iff)

lemmas action_views = operations_view references_view setActiveNote_view setFocusedNode_view setEditingNode_view
  selectTreeNode_view selectAll_view clear_view toggleExpanded_view applyAck_view history_view snapshot_view
  note_lock_view remote_view restore_view

lemma store_action_view: "store_action s t \<Longrightarrow> view_ok s \<Longrightarrow> view_ok t"
  by (induction rule: store_action.induct) (blast intro: action_views)+

definition new_snapshot :: "workspace_snapshot \<Rightarrow> string list option \<Rightarrow> reference_bootstrap \<Rightarrow> renderer_state" where
  "new_snapshot snapshot e references = the (createInitialState snapshot e references)"

lemma small_state_view: "view_ok (new_snapshot empty_snapshot e r)"
proof -
  have "named_nodes (sn_nodes empty_snapshot)" by (simp add: named_nodes_def empty_snapshot_def)
  from initial_view [OF this, of e r] show ?thesis by (auto simp: new_snapshot_def)
qed

lemma reached_view: "reached store_action s t \<Longrightarrow> view_ok s \<Longrightarrow> view_ok t"
  by (induction rule: reached.induct) (auto intro: store_action_view)

interpretation store_machine: invariant_system store_action "new_snapshot empty_snapshot e r" view_ok for e r
  by unfold_locales (auto intro: small_state_view store_action_view)

text \<open>C2. In every state reached from the initial one by store actions with non-empty node ids and well-formed restored tab strips, where no remote delta names a note the tree does not list unless it also adds or moves a node, the cached view (rows, order, visible ids, metadata, panes, selection) is exactly what derive computes, also on the paths that skip derive. The condition on deltas is exact: from such a state any other remote delta that changes it leaves a view derive does not compute (a note in the trash gets metadata).\<close>

theorem cached_view_is_derived:
  assumes "createInitialState snapshot expandedFolderIds references = Some s" and "list_all (\<lambda>n. n_id n \<noteq> []) (sn_nodes snapshot)"
    and "reached store_action s t"
  shows "view_ok t \<and> derive t = Some (t\<lparr>st_focusedNodeId := refocused t\<rparr>) \<and>
    (\<forall>delta u. named_nodes (delta_nodes delta) \<longrightarrow> applyRemoteDocuments delta t = Changed u \<longrightarrow>
      (view_ok u \<longleftrightarrow> delta_moves t delta \<or> delta_listed t delta))"
proof -
  have "view_ok s" using initial_view [of snapshot expandedFolderIds references] assms(1,2) by (simp add: named_nodes_def)
  with store_machine.reached_inv_from [OF assms(3)] have "view_ok t" .
  with view_ok_derive remote_view remote_view_only show ?thesis by blast
qed

text \<open>A folder \<open>f\<close> with a note \<open>a\<close>, and a trashed note \<open>x\<close>.\<close>

definition sample_snapshot :: workspace_snapshot where
  "sample_snapshot = empty_snapshot\<lparr>sn_nodes := [tree_node ''f'' KFolder None 1 None, tree_node ''a'' KNote (Some ''f'') 1 None,
     tree_node ''x'' KNote None 2 (Some 5)]\<rparr>"

definition sample_state :: renderer_state where
  "sample_state = new_snapshot sample_snapshot None emptyReferenceBootstrap"

lemma sample_initial: "createInitialState sample_snapshot None emptyReferenceBootstrap = Some sample_state"
  and sample_view: "view_ok sample_state"
proof -
  have "named_nodes (sn_nodes sample_snapshot)" by code_simp
  from initial_view [OF this, of None emptyReferenceBootstrap]
  show "createInitialState sample_snapshot None emptyReferenceBootstrap = Some sample_state" "view_ok sample_state"
    by (auto simp: sample_state_def new_snapshot_def)
qed

lemma sample_focus: "setFocusedNode (Some ''f'') sample_state = Changed (sample_state\<lparr>st_focusedNodeId := Some ''f''\<rparr>)"
  by code_simp

theorem cached_view_is_derived_witness:
  "view_ok (sample_state\<lparr>st_focusedNodeId := Some ''f''\<rparr>) \<and>
    derive (sample_state\<lparr>st_focusedNodeId := Some ''f''\<rparr>) = Some (sample_state\<lparr>st_focusedNodeId := Some ''f''\<rparr>)"
proof -
  have "list_all (\<lambda>n. n_id n \<noteq> []) (sn_nodes sample_snapshot)" by code_simp
  moreover have "reached store_action sample_state (sample_state\<lparr>st_focusedNodeId := Some ''f''\<rparr>)"
    by (rule reached_step [where step = store_action, OF reached_refl act_focus [OF sample_focus]])
  ultimately show ?thesis
    using cached_view_is_derived [OF sample_initial, of "sample_state\<lparr>st_focusedNodeId := Some ''f''\<rparr>"]
    by (simp add: refocused_def)
qed

section \<open>Operations return\<close>

definition flat_source :: "renderer_state \<Rightarrow> renderer_state \<Rightarrow> bool" where
  "flat_source s t \<longleftrightarrow> st_sourceNodes t = st_sourceNodes s \<or>
     (\<exists>i now. st_sourceNodes t = omap_patch i (\<lambda>n. n\<lparr>n_updatedAt := now\<rparr>) (st_sourceNodes s))"

lemma forest_patch: "forest_map m \<Longrightarrow> forest_map (omap_patch i (\<lambda>n. n\<lparr>n_updatedAt := now\<rparr>) m)"
proof -
  assume f: "forest_map m"
  let ?m = "omap_patch i (\<lambda>n. n\<lparr>n_updatedAt := now\<rparr>) m"
  have ok: "node_map_ok m" using f by (simp add: forest_map_def)
  have ok': "node_map_ok ?m"
    using ok node_map_ok_id [OF ok, of i] by (auto simp: omap_patch_def intro: node_map_ok_set split: option.split)
  have "parent_edges ?m = parent_edges m"
    by (rule edges_same [OF node_map_ok_wf [OF ok] node_map_ok_wf [OF ok']])
      (simp add: parent_of_def patch_get split: option.split)
  with f ok' show "forest_map ?m" by (simp add: forest_map_def)
qed

lemma flat_forest: "flat_source s t \<Longrightarrow> forest_map (st_sourceNodes s) \<Longrightarrow> forest_map (st_sourceNodes t)"
  by (auto simp: flat_source_def forest_patch)

lemma patched_flat: "st_sourceNodes t = omap_patch i (\<lambda>n. n\<lparr>n_updatedAt := now\<rparr>) (st_sourceNodes s) \<Longrightarrow> flat_source s t"
  unfolding flat_source_def by blast

lemma saved_flat: "withSavedDocument s saved now = Changed t \<Longrightarrow> flat_source s t"
  by (rule patched_flat [of _ "sv_noteId (the saved)" now])
    (auto simp: withSavedDocument_def split: option.splits)

lemma save_with_flat: "flat_source s (save_with s document now)"
  using saved_flat [of s "map_option saved_of document" now]
  by (cases "withSavedDocument s (map_option saved_of document) now") (simp_all add: save_with_def flat_source_def)

lemma touched_flat: "flat_source s (touchedNote s i now)"
  by (auto simp: flat_source_def touchedNote_def)

lemma flat_other [simp]:
  "flat_source s (t\<lparr>st_tasks := a\<rparr>) = flat_source s t" "flat_source s (t\<lparr>st_propertiesByNoteId := b\<rparr>) = flat_source s t"
  "flat_source s (set_task task t) = flat_source s t"
  by (simp_all add: flat_source_def set_task_def)

lemma same_flat: "st_sourceNodes t = st_sourceNodes s \<Longrightarrow> flat_source s t"
  by (simp add: flat_source_def)

lemma task_flat: "reduce_task s op = Changed t \<Longrightarrow> flat_source s t"
  by (auto simp: reduce_task_def Let_def save_with_flat saved_flat same_flat
      split: workspace_operation.splits if_splits option.splits)

lemma annotation_flat: "reduce_annotation s op = Changed t \<Longrightarrow> flat_source s t"
  by (rule same_flat)
    (auto simp: reduce_annotation_def edit_annotation_def split: workspace_operation.splits if_splits option.splits)

lemma workspace_flat: "reduce_workspace s op = Changed t \<Longrightarrow> flat_source s t"
  by (cases op)
    (auto simp: reduce_workspace_def set_media_def set_active_note_def Let_def saved_flat intro!: same_flat
      split: if_splits option.splits)

lemma property_flat: "reduce_property s op = Changed t \<Longrightarrow> flat_source s t"
  by (cases op)
    (auto simp: reduce_property_def on_valid_iff set_properties_def touched_flat same_flat
      split: if_splits option.splits)

lemma flat_returns:
  "reduce_task s op \<noteq> Diverges" "reduce_annotation s op \<noteq> Diverges" "reduce_workspace s op \<noteq> Diverges"
  "reduce_property s op \<noteq> Diverges"
  by (auto simp: reduce_task_def reduce_annotation_def edit_annotation_def reduce_workspace_def set_media_def
      set_active_note_def reduce_property_def on_valid_def withSavedDocument_def Let_def
      split: workspace_operation.split option.split sum.split)

lemma structure_returns:
  assumes ok: "view_ok s" and f: "forest_map (st_sourceNodes s)" and a: "attach_ok (st_sourceNodes s) op" and op: "op_named op"
  shows "\<exists>t. settle s (reduce_structure s op) = Some t \<and> forest_map (st_sourceNodes t)"
proof (cases "reduceOperation (st_sourceNodes s) op")
  case Unchanged
  with f show ?thesis by (simp add: reduce_structure_def settle_def)
next
  case (Changed m)
  have m: "forest_map m" using forest_step [OF f a Changed] .
  have "nodes_ok (st_sourceNodes (structured s op m))" using reduceOperation_nodes [OF view_okD(1) [OF ok] op Changed] by simp
  then obtain t where t: "derive (structured s op m) = Some t"
    using derive_view_ok [of "structured s op m"] view_ok_panes [OF ok] by auto
  with Changed m derive_source [OF t] show ?thesis by (simp add: reduce_structure_def derived_def settle_def)
next
  case Diverges
  with forest_returns [OF f, of op] show ?thesis by simp
qed

text \<open>C30. On a consistent state over a forest, every operation that does not attach a node under its own descendant returns a consistent state over a forest.\<close>

theorem reduce_state_returns:
  assumes "view_ok s" and "forest_map (st_sourceNodes s)" and "attach_ok (st_sourceNodes s) operation" and "op_named operation"
  shows "\<exists>t. settle s (reduceState s operation) = Some t \<and> view_ok t \<and> forest_map (st_sourceNodes t)"
proof (cases "reduceState s operation")
  case Unchanged
  with assms show ?thesis by (simp add: settle_def)
next
  case (Changed t)
  have "forest_map (st_sourceNodes t)" if "reduce_structure s operation = Changed t"
    using structure_returns [OF assms] that by (simp add: settle_def)
  moreover have "forest_map (st_sourceNodes t)" if "reduce_structure s operation \<noteq> Changed t"
    using that reduceState_part [of s operation] Changed
      task_flat annotation_flat workspace_flat property_flat flat_forest [OF _ assms(2)]
    by auto
  ultimately have "forest_map (st_sourceNodes t)" by blast
  with Changed reduceState_view [OF assms(1,4) Changed] show ?thesis by (simp add: settle_def)
next
  case Diverges
  with reduceState_part [of s operation] structure_returns [OF assms] flat_returns [of s operation] show ?thesis
    by (auto simp: settle_def)
qed

lemma sample_source: "st_sourceNodes sample_state = map (\<lambda>n. (n_id n, n)) (sn_nodes sample_snapshot)"
  by code_simp

theorem reduce_state_returns_witness:
  "\<exists>t. settle sample_state (reduceState sample_state (TrashSubtree ''f'' 9)) = Some t \<and> view_ok t \<and>
    forest_map (st_sourceNodes t)"
proof (rule reduce_state_returns [OF sample_view])
  have "node_map_ok (st_sourceNodes sample_state)" by code_simp
  moreover have "parent_edges (st_sourceNodes sample_state) = {(''a'', ''f'')}"
    by (simp add: sample_source sample_snapshot_def parent_edges_def tree_node_def)
  ultimately show "forest_map (st_sourceNodes sample_state)" by (simp add: forest_map_def acyclic_insert wf_acyclic)
  show "attach_ok (st_sourceNodes sample_state) (TrashSubtree ''f'' 9)" by (simp add: attach_ok_def)
qed simp

end
