(* ===== verification/Document_Theorems.thy ===== *)
theory Document_Theorems
  imports Store_Theorems
begin

text \<open>
  What the store keeps about documents: no remote update rewinds a revision, history headers stay
  sorted, co-visits stay bounded; and the metadata a remote document brings back for a trashed note.
\<close>

section \<open>Revisions\<close>

lemma derive_documents: "derive s = Some t \<Longrightarrow> st_documents t = st_documents s"
  by (auto simp: derive_def derive_view_def Let_def split: option.splits)

lemma derived_documents: "derived s = Changed t \<Longrightarrow> st_documents t = st_documents s"
  by (auto simp: derived_def derive_documents split: option.splits)

definition not_older :: "(string, document_record) omap \<Rightarrow> (string, document_record) omap \<Rightarrow> bool" where
  "not_older before after \<longleftrightarrow>
     (\<forall>i d d'. omap_get before i = Some d \<and> omap_get after i = Some d' \<longrightarrow> dr_revision d \<le> dr_revision d')"

lemma not_older_refl: "not_older m m"
  by (auto simp: not_older_def)

lemma not_older_set:
  "not_older m after \<Longrightarrow> (\<And>d. omap_get m i = Some d \<Longrightarrow> dr_revision d \<le> dr_revision d') \<Longrightarrow>
    not_older m (omap_set i d' after)"
  by (auto simp: not_older_def)

lemma adopted_newer:
  "omap_get m (d_noteId d) = Some c \<Longrightarrow> retainedDocument (omap_get m (d_noteId d)) d = None \<Longrightarrow> dr_revision c \<le> d_revision d"
  by (auto simp: retainedDocument_def split: if_splits)

lemma retained_same: "retainedDocument (omap_get m (d_noteId d)) d = Some r \<Longrightarrow> omap_get m (d_noteId d) = Some r"
  by (auto simp: retainedDocument_def split: if_splits option.splits)

lemma remote_documents_newer:
  "not_older (st_documents s) (rd_documents acc) \<Longrightarrow>
    not_older (st_documents s) (rd_documents (fold (remote_document s) ds acc))"
proof (induction ds arbitrary: acc)
  case Nil
  then show ?case by simp
next
  case (Cons d ds)
  have "not_older (st_documents s) (rd_documents (remote_document s d acc))"
    using Cons.prems adopted_newer [of "st_documents s" d]
    by (auto simp: remote_document_def documentFromRecord_def intro!: not_older_set split: option.split)
  with Cons.IH show ?case by simp
qed

lemma replaced_documents_newer:
  "not_older (st_documents s) (fst acc) \<Longrightarrow> not_older (st_documents s) (fst (fold (replaced_document s) ds acc))"
proof (induction ds arbitrary: acc)
  case Nil
  then show ?case by simp
next
  case (Cons d ds)
  have "not_older (st_documents s) (fst (replaced_document s d acc))"
    using Cons.prems adopted_newer [of "st_documents s" d] retained_same [of "st_documents s" d]
    by (auto simp: replaced_document_def documentFromRecord_def intro!: not_older_set split: option.split)
  with Cons.IH show ?case by simp
qed

lemma remote_newer:
  assumes "applyRemoteDocuments delta s = Changed t"
  shows "not_older (st_documents s) (st_documents t)"
proof -
  define d where "d = fold (remote_document s) (delta_documents delta)
    \<lparr>rd_documents = st_documents s, rd_changed = False, rd_projection = st_references s\<rparr>"
  define n where "n = fold (remote_node s) (delta_nodes delta)
    \<lparr>rn_sourceNodes = st_sourceNodes s, rn_changed = False, rn_placement = False\<rparr>"
  let ?t = "s\<lparr>st_documents := rd_documents d, st_sourceNodes := rn_sourceNodes n, st_references := rd_projection d\<rparr>"
  have "derived ?t = Changed t \<or> (\<exists>md. t = ?t\<lparr>st_metadata := md\<rparr>)"
    using assms unfolding applyRemoteDocuments_def Let_def d_def [symmetric] n_def [symmetric]
    by (auto split: if_splits)
  then have "st_documents t = rd_documents d" using derived_documents [of ?t t] by auto
  with remote_documents_newer [of s "\<lparr>rd_documents = st_documents s, rd_changed = False, rd_projection = st_references s\<rparr>"]
  show ?thesis by (simp add: d_def not_older_refl)
qed

lemma carried_newer: "not_older (st_documents s) (st_documents (carried s fresh snapshot))"
proof -
  obtain docs c where d: "fold (replaced_document s) (sn_documents snapshot)
      ([], length (st_documents fresh) \<noteq> length (st_documents s)) = (docs, c)" by fastforce
  have "not_older (st_documents s) docs"
    using replaced_documents_newer [of s "([], length (st_documents fresh) \<noteq> length (st_documents s))"
        "sn_documents snapshot"] d
    by (simp add: not_older_def)
  with d show ?thesis by (simp add: carried_def not_older_refl)
qed

lemma replace_newer:
  assumes "replaceFromSnapshot snapshot s = Changed t"
  shows "not_older (st_documents s) (st_documents t)"
proof -
  obtain fresh where f: "createInitialState snapshot None (snapshot_references snapshot) = Some fresh"
    using assms by (auto simp: replaceFromSnapshot_def split: option.splits)
  let ?t = "(carried s fresh snapshot)\<lparr>st_sourceNodes := mergeNodeRecords (st_sourceNodes s) (st_sourceNodes fresh)\<rparr>"
  have "st_documents t = st_documents (carried s fresh snapshot)"
  proof (cases "nodeListPlacementEqual (st_sourceNodes s) (st_sourceNodes fresh)")
    case True
    with assms f show ?thesis by (auto simp: replaceFromSnapshot_def Let_def split: option.splits)
  next
    case False
    with assms f have "derived ?t = Changed t" by (simp add: replaceFromSnapshot_def Let_def)
    from derived_documents [OF this] show ?thesis by simp
  qed
  with carried_newer show ?thesis by simp
qed

text \<open>C38. Neither a remote delta nor a snapshot replaces a kept document by one of a lower revision.\<close>

theorem revisions_never_rewind:
  assumes "applyRemoteDocuments delta s = Changed t \<or> replaceFromSnapshot snapshot s = Changed t"
    and "omap_get (st_documents s) i = Some d" and "omap_get (st_documents t) i = Some d'"
  shows "dr_revision d \<le> dr_revision d'"
  using assms remote_newer replace_newer unfolding not_older_def by blast

definition plain_document :: "string \<Rightarrow> number \<Rightarrow> workspace_document" where
  "plain_document i revision = \<lparr>d_noteId = i, d_documentJson = JNull, d_markdown = ''text'', d_revision = revision,
     d_wordCount = 1, d_sealed = Undefined\<rparr>"

definition written_state :: renderer_state where
  "written_state = new_snapshot (sample_snapshot\<lparr>sn_documents := [plain_document ''a'' 3, plain_document ''x'' 1]\<rparr>)
     None emptyReferenceBootstrap"

definition remote_delta :: workspace_delta where
  "remote_delta = \<lparr>delta_documents = [plain_document ''a'' 4, plain_document ''a'' 2, plain_document ''x'' 2], delta_nodes = []\<rparr>"

definition after_remote :: renderer_state where
  "after_remote = settled written_state (applyRemoteDocuments remote_delta written_state)"

lemma remote_changes: "applyRemoteDocuments remote_delta written_state = Changed after_remote"
proof -
  have "applyRemoteDocuments remote_delta written_state \<noteq> Unchanged" "applyRemoteDocuments remote_delta written_state \<noteq> Diverges"
    by code_simp+
  then show ?thesis unfolding after_remote_def
    by (cases "applyRemoteDocuments remote_delta written_state") simp_all
qed

theorem revisions_never_rewind_witness:
  "\<exists>d. omap_get (st_documents after_remote) ''a'' = Some d \<and> 3 \<le> dr_revision d"
proof -
  have a: "omap_get (st_documents written_state) ''a'' = Some (documentFromRecord (plain_document ''a'' 3))" by code_simp
  have "omap_has (st_documents after_remote) ''a''" by code_simp
  then obtain d where d: "omap_get (st_documents after_remote) ''a'' = Some d" by (auto simp: omap_has_get)
  have "applyRemoteDocuments remote_delta written_state = Changed after_remote \<or>
      replaceFromSnapshot empty_snapshot written_state = Changed after_remote"
    using remote_changes ..
  from revisions_never_rewind [OF this a d] d show ?thesis
    by (simp add: documentFromRecord_def plain_document_def)
qed

section \<open>History headers\<close>

interpretation history: comparator compareHistoryHeaders h_versionId
  by unfold_locales (auto simp: compareHistoryHeaders_def split: if_splits)

definition headers_ok :: "history_header list \<Rightarrow> bool" where
  "headers_ok hs \<longleftrightarrow> sorted_wrt (\<lambda>a b. compareHistoryHeaders a b \<le> 0) hs \<and> distinct (map h_versionId hs)"

theorem history_stays_sorted:
  assumes "\<forall>i. headers_ok (omap_getd [] (st_historyHeaders s) i)" and "publishHistoryHeader header s = Changed t"
  shows "(\<forall>i. headers_ok (omap_getd [] (st_historyHeaders t) i)) \<and>
    set (omap_getd [] (st_historyHeaders t) (h_noteId header)) =
      insert header (set (omap_getd [] (st_historyHeaders s) (h_noteId header)))"
proof -
  let ?old = "omap_getd [] (st_historyHeaders s) (h_noteId header)"
  have new: "h_versionId header \<notin> set (map h_versionId ?old)"
    and t: "t = s\<lparr>st_historyHeaders := omap_set (h_noteId header) (js_sort compareHistoryHeaders (?old @ [header]))
      (st_historyHeaders s)\<rparr>"
    using assms(2) by (auto simp: publishHistoryHeader_def Let_def list_ex_iff split: if_splits)
  have d: "distinct (map h_versionId (?old @ [header]))" using assms(1) new by (simp add: headers_ok_def)
  have "headers_ok (js_sort compareHistoryHeaders (?old @ [header]))"
    unfolding headers_ok_def using history.sort_sorted [OF d] d by simp
  with assms(1) show ?thesis by (auto simp: t omap_getd_def)
qed

definition plain_header :: "string \<Rightarrow> number \<Rightarrow> history_header" where
  "plain_header v created = \<lparr>h_noteId = ''a'', h_versionId = v, h_createdAt = created, h_summary = [],
     h_additions = Undefined, h_deletions = Undefined, h_wordCount = Undefined\<rparr>"

theorem history_stays_sorted_witness:
  "\<exists>t. publishHistoryHeader (plain_header ''v2'' 5) (written_state\<lparr>st_historyHeaders := [(''a'', [plain_header ''v1'' 3])]\<rparr>) =
      Changed t \<and> set (omap_getd [] (st_historyHeaders t) ''a'') = {plain_header ''v2'' 5, plain_header ''v1'' 3}"
proof -
  let ?s = "written_state\<lparr>st_historyHeaders := [(''a'', [plain_header ''v1'' 3])]\<rparr>"
  have "\<forall>i. headers_ok (omap_getd [] (st_historyHeaders ?s) i)" by (simp add: omap_getd_def headers_ok_def)
  moreover obtain t where t: "publishHistoryHeader (plain_header ''v2'' 5) ?s = Changed t"
  proof -
    have "omap_has (st_documents written_state) ''a''" by code_simp
    then show thesis using that by (simp add: publishHistoryHeader_def Let_def plain_header_def omap_getd_def)
  qed
  ultimately show ?thesis
    using history_stays_sorted [of ?s "plain_header ''v2'' 5" t] by (simp add: plain_header_def omap_getd_def)
qed

section \<open>Co-visits\<close>

definition visits_ok :: "co_visits \<Rightarrow> bool" where
  "visits_ok v \<longleftrightarrow> omap_wf v \<and> list_all (\<lambda>(i, ns). i \<noteq> [] \<and> length ns \<le> MAX_CO_VISIT_NEIGHBOURS) v"

lemma visits_ok_iff:
  "visits_ok v \<longleftrightarrow> omap_wf v \<and> (\<forall>i ns. omap_get v i = Some ns \<longrightarrow> i \<noteq> [] \<and> length ns \<le> MAX_CO_VISIT_NEIGHBOURS)"
proof (cases "omap_wf v")
  case True
  have "list_all P v \<longleftrightarrow> (\<forall>i ns. (i, ns) \<in> set v \<longrightarrow> P (i, ns))" for P by (auto simp: list_all_iff)
  with True show ?thesis by (simp add: visits_ok_def omap_get_iff [OF True])
qed (simp add: visits_ok_def)

lemma visit_edge_ok: "visits_ok v \<Longrightarrow> i \<noteq> [] \<Longrightarrow> visits_ok (visit_edge now i j v)"
  by (auto simp: visits_ok_iff visit_edge_def Let_def)

lemma delete_visits_ok: "visits_ok v \<Longrightarrow> visits_ok (omap_delete i v)"
  by (auto simp: visits_ok_iff split: if_splits)

lemma drop_oldest_ok: "visits_ok v \<Longrightarrow> visits_ok (drop_oldest v) \<and> length (drop_oldest v) \<le> MAX_CO_VISIT_SOURCES"
proof (induction v rule: drop_oldest.induct)
  case (1 v)
  show ?case
  proof (cases "length v > MAX_CO_VISIT_SOURCES")
    case True
    then have "v \<noteq> []" by auto
    moreover have "i \<noteq> []" if "i \<in> set (omap_keys v)" for i
    proof -
      from that obtain ns where "omap_get v i = Some ns" using omap_has_get [of v i] by (auto simp: omap_has_def)
      with 1(2) show ?thesis unfolding visits_ok_iff by blast
    qed
    ultimately have "oldest_source v \<noteq> []" using oldest_present [of v] by blast
    with True have "drop_oldest v = drop_oldest (omap_delete (oldest_source v) v)" by (subst drop_oldest.simps) simp
    with 1(1) True \<open>oldest_source v \<noteq> []\<close> delete_visits_ok [OF 1(2)] show ?thesis by simp
  next
    case False
    with 1(2) show ?thesis by (subst (1 2) drop_oldest.simps) simp
  qed
qed

theorem co_visits_bounded:
  assumes "visits_ok visits" and "i \<noteq> []" and "j \<noteq> []"
  shows "visits_ok (recordCoVisit now visits i j) \<and> length (recordCoVisit now visits i j) \<le> MAX_CO_VISIT_SOURCES"
  unfolding recordCoVisit_def by (intro drop_oldest_ok visit_edge_ok assms)

theorem co_visits_bounded_witness:
  "length (recordCoVisit 7 (recordCoVisit 5 [] ''a'' ''b'') ''b'' ''c'') \<le> 100 \<and>
    recordCoVisit 5 [] ''a'' ''b'' \<noteq> []"
proof -
  have "visits_ok (recordCoVisit 5 [] ''a'' ''b'')" by (rule co_visits_bounded [THEN conjunct1]) (simp_all add: visits_ok_def)
  from co_visits_bounded [OF this, of "''b''" "''c''" 7]
  have "length (recordCoVisit 7 (recordCoVisit 5 [] ''a'' ''b'') ''b'' ''c'') \<le> 100"
    by (simp add: MAX_CO_VISIT_SOURCES_def)
  moreover have "recordCoVisit 5 [] ''a'' ''b'' \<noteq> []" by code_simp
  ultimately show ?thesis by simp
qed

section \<open>A trashed note's metadata\<close>

theorem remote_document_revives_metadata:
  assumes ok: "view_ok s" and t: "applyRemoteDocuments delta s = Changed t" and no_nodes: "delta_nodes delta = []"
    and d: "d \<in> set (delta_documents delta)" and kind: "is_note (st_sourceNodes s) (d_noteId d)"
    and hidden: "\<not> omap_has (st_metadata s) (d_noteId d)"
  shows "omap_has (st_metadata t) (d_noteId d) \<and> (\<exists>u. derive t = Some u \<and> \<not> omap_has (st_metadata u) (d_noteId d))"
proof -
  define r where "r = fold (remote_document s) (delta_documents delta)
    \<lparr>rd_documents = st_documents s, rd_changed = False, rd_projection = st_references s\<rparr>"
  let ?i = "d_noteId d" and ?t = "s\<lparr>st_documents := rd_documents r, st_references := rd_projection r\<rparr>"
  have t': "t = ?t\<lparr>st_metadata := fold (remote_metadata s ?t) (delta_ids delta) (st_metadata s)\<rparr>"
    using t no_nodes unfolding applyRemoteDocuments_def Let_def r_def [symmetric] delta_ids_def
    by (auto split: if_splits)
  obtain n where n: "omap_get (st_sourceNodes s) ?i = Some n" "n_kind n = KNote"
    using kind by (auto simp: is_note_def split: option.splits)
  have "omap_get (st_metadata t) ?i = Some (note_metadata_of (rd_documents r) n)"
    using remote_metadata_get [of ?t ?i n s "delta_ids delta" "st_metadata s"] n nodes_ok_id [OF view_okD(1) [OF ok] n(1)] d
    by (simp add: t' delta_ids_def)
  moreover obtain u where u: "derive t = Some u" "view_ok u"
    using derive_view_ok [of t] view_okD(1) [OF ok] view_ok_panes [OF ok] by (auto simp: t')
  have "omap_has (st_metadata u) ?i = omap_has (st_metadata s) ?i"
  proof -
    obtain o1 where o1: "rows_ok s o1" using view_okD(4) [OF ok] by blast
    obtain o2 where o2: "rows_ok u o2" using view_okD(4) [OF u(2)] by blast
    have "o1 = o2" using o1 o2 derive_source [OF u(1)] by (simp add: rows_ok_def t')
    with o1 o2 show ?thesis by (simp add: rows_ok_def metadata_has)
  qed
  ultimately show ?thesis using u(1) hidden by (auto simp: omap_has_get)
qed

theorem remote_document_revives_metadata_witness:
  "omap_has (st_metadata after_remote) ''x'' \<and> (\<exists>u. derive after_remote = Some u \<and> \<not> omap_has (st_metadata u) ''x'')"
proof -
  have "named_nodes (sn_nodes (sample_snapshot\<lparr>sn_documents := [plain_document ''a'' 3, plain_document ''x'' 1]\<rparr>))"
    by code_simp
  from initial_view [OF this, of None emptyReferenceBootstrap] have "view_ok written_state"
    by (auto simp: written_state_def new_snapshot_def)
  then show ?thesis
  proof -
    assume "view_ok written_state"
    have "is_note (st_sourceNodes written_state) ''x''" "\<not> omap_has (st_metadata written_state) ''x''" by code_simp+
    with remote_document_revives_metadata [OF \<open>view_ok written_state\<close> remote_changes, of "plain_document ''x'' 2"]
    show ?thesis by (simp add: remote_delta_def plain_document_def)
  qed
qed

end
