(* ===== verification/Commit_Gate.thy ===== *)
theory Commit_Gate
  imports Prelude
begin

text \<open>
  The commit gate (\<open>store/commit-gate.ts\<close>): local commits run together, a reconcile runs alone.
  Both functions are asynchronous; between two awaits they run without interruption, so each
  piece between awaits is one function of the gate, and a call is a program counter that says
  which promise it awaits. Which resolved waiter continues first is left open.
\<close>

section \<open>State\<close>

text \<open>
  The \<open>n\<close>-th call of \<open>holdForReconcile\<close> makes one turn and one hold, so the call's number names
  both: \<open>Turn n\<close> is its turn's promise, \<open>Release n\<close> its hold's, \<open>Resume n\<close> the hold's \<open>resumed\<close>.
\<close>

datatype promise = Turn nat | Release nat | Resume nat | Drain nat

datatype commit_pc = Entering | Parked nat | Committing | Committed

datatype reconcile_pc = Starting | AwaitTurn nat | AwaitRelease nat | AwaitResume nat | AwaitDrain nat
  | Reconciling | Reconciled

record gate =
  ga_sequence :: nat
  ga_inFlight :: nat
  ga_hold :: "nat option"
  ga_waiters :: "nat \<Rightarrow> nat"
  ga_lastReleased :: "nat option"
  ga_drained :: "nat option"
  ga_holdQueue :: "nat list"
  ga_deferred :: nat
  ga_settled :: "promise list"
  ga_commits :: "commit_pc list"
  ga_reconciles :: "reconcile_pc list"

definition createCommitGate :: gate where
  "createCommitGate = \<lparr>ga_sequence = 0, ga_inFlight = 0, ga_hold = None, ga_waiters = (\<lambda>_. 0),
     ga_lastReleased = None, ga_drained = None, ga_holdQueue = [], ga_deferred = 0, ga_settled = [],
     ga_commits = [], ga_reconciles = []\<rparr>"

definition resolve :: "promise \<Rightarrow> gate \<Rightarrow> gate" where
  "resolve p g = g\<lparr>ga_settled := p # ga_settled g\<rparr>"

definition set_commit :: "nat \<Rightarrow> commit_pc \<Rightarrow> gate \<Rightarrow> gate" where
  "set_commit k pc g = g\<lparr>ga_commits := (ga_commits g)[k := pc]\<rparr>"

definition set_reconcile :: "nat \<Rightarrow> reconcile_pc \<Rightarrow> gate \<Rightarrow> gate" where
  "set_reconcile k pc g = g\<lparr>ga_reconciles := (ga_reconciles g)[k := pc]\<rparr>"

definition noteLocalCommit :: "gate \<Rightarrow> gate" where
  "noteLocalCommit g = g\<lparr>ga_sequence := ga_sequence g + 1\<rparr>"

definition commitSequence :: "gate \<Rightarrow> nat" where
  "commitSequence g = ga_sequence g"

definition held :: "gate \<Rightarrow> bool" where
  "held g \<longleftrightarrow> ga_hold g \<noteq> None"

section \<open>Commits\<close>

definition settleDrain :: "gate \<Rightarrow> gate" where
  "settleDrain g =
     (if ga_inFlight g = 0 then
        (case ga_drained g of None \<Rightarrow> g | Some d \<Rightarrow> resolve (Drain d) (g\<lparr>ga_drained := None\<rparr>))
      else g)"

text \<open>The loop head of \<open>enterCommit\<close>, up to its next await or to \<open>run\<close>.\<close>

definition enter_loop :: "nat \<Rightarrow> gate \<Rightarrow> gate" where
  "enter_loop k g =
     (case ga_hold g of
        Some h \<Rightarrow> set_commit k (Parked h) (g\<lparr>ga_waiters := (ga_waiters g)(h := ga_waiters g h + 1)\<rparr>)
      | None \<Rightarrow> set_commit k Committing (g\<lparr>ga_inFlight := ga_inFlight g + 1\<rparr>))"

definition enterCommit :: "gate \<Rightarrow> gate" where
  "enterCommit g = enter_loop (length (ga_commits g)) (g\<lparr>ga_commits := ga_commits g @ [Entering]\<rparr>)"

definition unpark :: "nat \<Rightarrow> nat \<Rightarrow> gate \<Rightarrow> gate" where
  "unpark k h g =
     (let g' = g\<lparr>ga_waiters := (ga_waiters g)(h := ga_waiters g h - 1), ga_commits := (ga_commits g)[k := Entering]\<rparr>
      in enter_loop k (if ga_waiters g' h = 0 then resolve (Resume h) g' else g'))"

text \<open>The \<open>finally\<close> of \<open>enterCommit\<close>, whether \<open>run\<close> returned or threw.\<close>

definition finish_commit :: "nat \<Rightarrow> gate \<Rightarrow> gate" where
  "finish_commit k g = settleDrain (set_commit k Committed (g\<lparr>ga_inFlight := ga_inFlight g - 1\<rparr>))"

section \<open>Reconciles\<close>

definition drain_loop :: "nat \<Rightarrow> gate \<Rightarrow> gate" where
  "drain_loop k g =
     (if ga_inFlight g > 0 then
        (case ga_drained g of
           Some d \<Rightarrow> set_reconcile k (AwaitDrain d) g
         | None \<Rightarrow> set_reconcile k (AwaitDrain (ga_deferred g))
             (g\<lparr>ga_drained := Some (ga_deferred g), ga_deferred := ga_deferred g + 1\<rparr>))
      else set_reconcile k Reconciling g)"

definition acquire :: "nat \<Rightarrow> gate \<Rightarrow> gate" where
  "acquire k g = drain_loop k (g\<lparr>ga_hold := Some k, ga_waiters := (ga_waiters g)(k := 0),
     ga_holdQueue := tl (ga_holdQueue g)\<rparr>)"

definition after_release :: "nat \<Rightarrow> gate \<Rightarrow> gate" where
  "after_release k g =
     (case ga_lastReleased g of
        None \<Rightarrow> acquire k g
      | Some h \<Rightarrow> if ga_waiters g h > 0 then set_reconcile k (AwaitResume h) g else acquire k g)"

definition hold_loop :: "nat \<Rightarrow> gate \<Rightarrow> gate" where
  "hold_loop k g =
     (case ga_hold g of Some h \<Rightarrow> set_reconcile k (AwaitRelease h) g | None \<Rightarrow> after_release k g)"

text \<open>An empty queue would be a \<open>TypeError\<close> that rejects the call; a call's turn is in the queue
  until it acquires the gate, so this does not happen.\<close>

definition turn_loop :: "nat \<Rightarrow> gate \<Rightarrow> gate" where
  "turn_loop k g =
     (case ga_holdQueue g of
        [] \<Rightarrow> set_reconcile k Reconciled g
      | t # _ \<Rightarrow> if t \<noteq> k then set_reconcile k (AwaitTurn t) g else hold_loop k g)"

definition holdForReconcile :: "gate \<Rightarrow> gate" where
  "holdForReconcile g = turn_loop (length (ga_reconciles g))
     (g\<lparr>ga_reconciles := ga_reconciles g @ [Starting], ga_holdQueue := ga_holdQueue g @ [length (ga_reconciles g)]\<rparr>)"

definition finish_reconcile :: "nat \<Rightarrow> gate \<Rightarrow> gate" where
  "finish_reconcile k g =
     (let g' = set_reconcile k Reconciled (g\<lparr>ga_hold := None, ga_lastReleased := Some k\<rparr>)
      in resolve (Turn k) (resolve (Release k) (if ga_waiters g' k = 0 then resolve (Resume k) g' else g')))"

section \<open>Steps\<close>

definition commit_at :: "gate \<Rightarrow> nat \<Rightarrow> commit_pc \<Rightarrow> bool" where
  "commit_at g k pc \<longleftrightarrow> k < length (ga_commits g) \<and> ga_commits g ! k = pc"

definition reconcile_at :: "gate \<Rightarrow> nat \<Rightarrow> reconcile_pc \<Rightarrow> bool" where
  "reconcile_at g k pc \<longleftrightarrow> k < length (ga_reconciles g) \<and> ga_reconciles g ! k = pc"

text \<open>The steps of the calls under way, and with \<open>gate_step\<close> also new calls.\<close>

inductive gate_progress :: "gate \<Rightarrow> gate \<Rightarrow> bool" where
  go_unpark: "commit_at g k (Parked h) \<Longrightarrow> Release h \<in> set (ga_settled g) \<Longrightarrow> gate_progress g (unpark k h g)"
| go_commit: "commit_at g k Committing \<Longrightarrow> gate_progress g (finish_commit k g)"
| go_turn: "reconcile_at g k (AwaitTurn t) \<Longrightarrow> Turn t \<in> set (ga_settled g) \<Longrightarrow> gate_progress g (turn_loop k g)"
| go_release: "reconcile_at g k (AwaitRelease h) \<Longrightarrow> Release h \<in> set (ga_settled g) \<Longrightarrow> gate_progress g (hold_loop k g)"
| go_resume: "reconcile_at g k (AwaitResume h) \<Longrightarrow> Resume h \<in> set (ga_settled g) \<Longrightarrow> gate_progress g (acquire k g)"
| go_drain: "reconcile_at g k (AwaitDrain d) \<Longrightarrow> Drain d \<in> set (ga_settled g) \<Longrightarrow> gate_progress g (drain_loop k g)"
| go_reconcile: "reconcile_at g k Reconciling \<Longrightarrow> gate_progress g (finish_reconcile k g)"

inductive gate_step :: "gate \<Rightarrow> gate \<Rightarrow> bool" where
  step_progress: "gate_progress g g' \<Longrightarrow> gate_step g g'"
| step_enter: "gate_step g (enterCommit g)"
| step_hold: "gate_step g (holdForReconcile g)"
| step_note: "gate_step g (noteLocalCommit g)"

end
