(* ===== verification/Gate_Invariants.thy ===== *)
theory Gate_Invariants
  imports Commit_Gate "HOL-Library.Multiset"
begin

text \<open>The invariant of the commit gate and its preservation by every step.\<close>

section \<open>Counting calls\<close>

definition commits_in :: "gate \<Rightarrow> commit_pc \<Rightarrow> nat" where
  "commits_in g pc = count (mset (ga_commits g)) pc"

lemma count_update:
  "k < length xs \<Longrightarrow> count (mset (xs[k := x])) y =
    (count (mset xs) y - (if xs ! k = y then 1 else 0)) + (if x = y then 1 else 0)"
  by (auto simp: mset_update)

lemma count_present: "k < length xs \<Longrightarrow> count (mset xs) (xs ! k) > 0"
  by simp

lemma commits_in_positive: "commits_in g pc > 0 \<longleftrightarrow> (\<exists>k. commit_at g k pc)"
  by (auto simp: commits_in_def commit_at_def in_set_conv_nth)

section \<open>The invariant\<close>

fun holding :: "reconcile_pc \<Rightarrow> bool" where
  "holding (AwaitDrain _) = True"
| "holding Reconciling = True"
| "holding _ = False"

fun queued :: "reconcile_pc \<Rightarrow> bool" where
  "queued Reconciled = False"
| "queued pc = (\<not> holding pc)"

definition counts_ok :: "gate \<Rightarrow> bool" where
  "counts_ok g \<longleftrightarrow> ga_inFlight g = commits_in g Committing \<and> (\<forall>h. ga_waiters g h = commits_in g (Parked h))"

definition parked_ok :: "gate \<Rightarrow> bool" where
  "parked_ok g \<longleftrightarrow> (\<forall>k h. commit_at g k (Parked h) \<longrightarrow>
     (\<forall>n. ga_hold g = Some n \<longrightarrow> h = n) \<and> (ga_hold g = None \<longrightarrow> ga_lastReleased g = Some h))"

definition queue_ok :: "gate \<Rightarrow> bool" where
  "queue_ok g \<longleftrightarrow> sorted_wrt (<) (ga_holdQueue g) \<and>
     set (ga_holdQueue g) = {n. n < length (ga_reconciles g) \<and> queued (ga_reconciles g ! n)}"

definition hold_ok :: "gate \<Rightarrow> bool" where
  "hold_ok g \<longleftrightarrow> (\<forall>n. ga_hold g = Some n \<longleftrightarrow> n < length (ga_reconciles g) \<and> holding (ga_reconciles g ! n)) \<and>
     (\<forall>n. ga_lastReleased g = Some n \<longrightarrow> reconcile_at g n Reconciled) \<and>
     (\<forall>n. reconcile_at g n Reconciling \<longrightarrow> ga_inFlight g = 0)"

fun await_ok :: "gate \<Rightarrow> nat \<Rightarrow> reconcile_pc \<Rightarrow> bool" where
  "await_ok g n (AwaitTurn t) = (t < n)"
| "await_ok g n (AwaitRelease h) = (n = hd (ga_holdQueue g) \<and> (ga_hold g = Some h \<or> reconcile_at g h Reconciled))"
| "await_ok g n (AwaitResume h) = (n = hd (ga_holdQueue g) \<and> ga_lastReleased g = Some h \<and> ga_hold g = None)"
| "await_ok g n (AwaitDrain d) = (ga_drained g = Some d \<and> ga_inFlight g > 0 \<or> Drain d \<in> set (ga_settled g))"
| "await_ok g n _ = True"

definition awaits_ok :: "gate \<Rightarrow> bool" where
  "awaits_ok g \<longleftrightarrow> (\<forall>n < length (ga_reconciles g). await_ok g n (ga_reconciles g ! n))"

definition settled_ok :: "gate \<Rightarrow> bool" where
  "settled_ok g \<longleftrightarrow> (\<forall>n. Turn n \<in> set (ga_settled g) \<longleftrightarrow> reconcile_at g n Reconciled) \<and>
     (\<forall>n. Release n \<in> set (ga_settled g) \<longleftrightarrow> reconcile_at g n Reconciled) \<and>
     (\<forall>n. Resume n \<in> set (ga_settled g) \<longleftrightarrow> reconcile_at g n Reconciled \<and> ga_waiters g n = 0)"

definition gate_ok :: "gate \<Rightarrow> bool" where
  "gate_ok g \<longleftrightarrow> counts_ok g \<and> parked_ok g \<and> queue_ok g \<and> hold_ok g \<and> awaits_ok g \<and> settled_ok g"

lemma gate_okD:
  assumes "gate_ok g"
  shows "counts_ok g" "parked_ok g" "queue_ok g" "hold_ok g" "awaits_ok g" "settled_ok g"
  using assms by (simp_all add: gate_ok_def)

lemma gate_okI:
  "counts_ok g \<Longrightarrow> parked_ok g \<Longrightarrow> queue_ok g \<Longrightarrow> hold_ok g \<Longrightarrow> awaits_ok g \<Longrightarrow> settled_ok g \<Longrightarrow> gate_ok g"
  by (simp add: gate_ok_def)

lemma empty_gate_ok: "gate_ok createCommitGate"
  by (simp add: createCommitGate_def gate_ok_def counts_ok_def commits_in_def parked_ok_def commit_at_def queue_ok_def
      hold_ok_def awaits_ok_def settled_ok_def reconcile_at_def)

text \<open>Without parked commits nobody waits.\<close>

lemma no_parked: "counts_ok g \<Longrightarrow> ga_waiters g h = 0 \<Longrightarrow> \<not> commit_at g k (Parked h)"
  using commits_in_positive [of g "Parked h"] by (auto simp: counts_ok_def)

lemma head_queued:
  assumes "queue_ok g" and "ga_holdQueue g = n # rest"
  shows "n < length (ga_reconciles g)" "queued (ga_reconciles g ! n)" "n \<notin> set rest" "\<forall>m \<in> set rest. n < m"
  using assms by (auto simp: queue_ok_def)

section \<open>Commits\<close>

lemma commits_in_set:
  assumes "commit_at g k old"
  shows "commits_in (set_commit k pc g) pc' = (commits_in g pc' - (if old = pc' then 1 else 0)) + (if pc = pc' then 1 else 0)"
  using assms by (simp add: commits_in_def set_commit_def commit_at_def count_update)

lemma commit_at_set: "commit_at (set_commit k pc g) k' pc' \<longleftrightarrow>
    (if k' = k \<and> k < length (ga_commits g) then pc' = pc else commit_at g k' pc')"
  by (auto simp: commit_at_def set_commit_def nth_list_update)

lemma enter_loop_ok:
  assumes ok: "gate_ok g" and k: "commit_at g k Entering"
  shows "gate_ok (enter_loop k g)"
proof (cases "ga_hold g")
  case None
  let ?g = "set_commit k Committing (g\<lparr>ga_inFlight := ga_inFlight g + 1\<rparr>)"
  have k': "commit_at (g\<lparr>ga_inFlight := ga_inFlight g + 1\<rparr>) k Entering" using k by (simp add: commit_at_def)
  have c: "commits_in (g\<lparr>ga_inFlight := n\<rparr>) pc = commits_in g pc" for n pc by (simp add: commits_in_def)
  have "counts_ok ?g" using gate_okD(1) [OF ok] commits_in_set [OF k'] c
    by (simp add: counts_ok_def) (simp add: set_commit_def)
  moreover have "parked_ok ?g" using gate_okD(2) [OF ok] None
    by (auto simp: parked_ok_def commit_at_set) (auto simp: set_commit_def commit_at_def)
  moreover have "queue_ok ?g" using gate_okD(3) [OF ok] by (simp add: queue_ok_def set_commit_def)
  moreover have "hold_ok ?g" using gate_okD(4) [OF ok] None
    by (auto simp: hold_ok_def set_commit_def reconcile_at_def)
  moreover have "awaits_ok ?g"
  proof -
    have "await_ok g n pc \<Longrightarrow> await_ok ?g n pc" for n pc
      by (cases pc) (auto simp: set_commit_def reconcile_at_def)
    then show ?thesis using gate_okD(5) [OF ok] by (simp add: awaits_ok_def set_commit_def)
  qed
  moreover have "settled_ok ?g" using gate_okD(6) [OF ok] by (simp add: settled_ok_def set_commit_def reconcile_at_def)
  ultimately show ?thesis using None by (simp add: enter_loop_def gate_okI)
next
  case (Some h)
  let ?w = "g\<lparr>ga_waiters := (ga_waiters g)(h := ga_waiters g h + 1)\<rparr>"
  let ?g = "set_commit k (Parked h) ?w"
  have k': "commit_at ?w k Entering" using k by (simp add: commit_at_def)
  have c: "commits_in (g\<lparr>ga_waiters := w\<rparr>) pc = commits_in g pc" for w pc by (simp add: commits_in_def)
  have h: "h < length (ga_reconciles g)" "holding (ga_reconciles g ! h)"
    using gate_okD(4) [OF ok] Some by (auto simp: hold_ok_def)
  have "counts_ok ?g" using gate_okD(1) [OF ok] commits_in_set [OF k'] c
    by (simp add: counts_ok_def) (simp add: set_commit_def)
  moreover have "parked_ok ?g" using gate_okD(2) [OF ok] Some
    by (auto simp: parked_ok_def commit_at_set) (auto simp: set_commit_def commit_at_def)
  moreover have "queue_ok ?g" using gate_okD(3) [OF ok] by (simp add: queue_ok_def set_commit_def)
  moreover have "hold_ok ?g" using gate_okD(4) [OF ok] by (simp add: hold_ok_def set_commit_def reconcile_at_def)
  moreover have "awaits_ok ?g"
  proof -
    have "await_ok g n pc \<Longrightarrow> await_ok ?g n pc" for n pc
      by (cases pc) (auto simp: set_commit_def reconcile_at_def)
    then show ?thesis using gate_okD(5) [OF ok] by (simp add: awaits_ok_def set_commit_def)
  qed
  moreover have "settled_ok ?g"
  proof -
    have "\<not> reconcile_at g h Reconciled" using h by (auto simp: reconcile_at_def)
    moreover have "reconcile_at ?g = reconcile_at g" "ga_settled ?g = ga_settled g"
      "ga_waiters ?g = (ga_waiters g)(h := ga_waiters g h + 1)"
      by (simp_all add: reconcile_at_def fun_eq_iff set_commit_def)
    ultimately show ?thesis using gate_okD(6) [OF ok] by (auto simp: settled_ok_def)
  qed
  ultimately show ?thesis using Some by (simp add: enter_loop_def gate_okI)
qed

lemma enterCommit_ok:
  assumes "gate_ok g"
  shows "gate_ok (enterCommit g)"
proof -
  let ?g = "g\<lparr>ga_commits := ga_commits g @ [Entering]\<rparr>"
  have at: "commit_at ?g k pc \<longleftrightarrow> commit_at g k pc \<or> k = length (ga_commits g) \<and> pc = Entering" for k pc
    by (auto simp: commit_at_def nth_append)
  have c: "commits_in ?g pc = commits_in g pc + (if pc = Entering then 1 else 0)" for pc by (simp add: commits_in_def)
  have ra: "reconcile_at ?g = reconcile_at g" by (simp add: reconcile_at_def fun_eq_iff)
  have "await_ok g n pc \<Longrightarrow> await_ok ?g n pc" for n pc by (cases pc) (auto simp: ra)
  then have "awaits_ok ?g" using gate_okD(5) [OF assms] by (simp add: awaits_ok_def)
  moreover have "counts_ok ?g" using gate_okD(1) [OF assms] by (simp add: counts_ok_def c)
  moreover have "parked_ok ?g" using gate_okD(2) [OF assms] by (auto simp: parked_ok_def at)
  moreover have "queue_ok ?g" "hold_ok ?g" "settled_ok ?g"
    using gate_okD(3,4,6) [OF assms] by (simp_all add: queue_ok_def hold_ok_def settled_ok_def ra)
  ultimately have "gate_ok ?g" by (simp add: gate_okI)
  then show ?thesis unfolding enterCommit_def by (rule enter_loop_ok) (simp add: at)
qed

lemma unpark_ok:
  assumes ok: "gate_ok g" and k: "commit_at g k (Parked h)" and r: "Release h \<in> set (ga_settled g)"
  shows "gate_ok (unpark k h g)"
proof -
  define g' where "g' = g\<lparr>ga_waiters := (ga_waiters g)(h := ga_waiters g h - 1), ga_commits := (ga_commits g)[k := Entering]\<rparr>"
  define g2 where "g2 = (if ga_waiters g' h = 0 then resolve (Resume h) g' else g')"
  have h: "reconcile_at g h Reconciled" using gate_okD(6) [OF ok] r by (simp add: settled_ok_def)
  have at: "commit_at g2 k' pc \<longleftrightarrow> (if k' = k then pc = Entering else commit_at g k' pc)" for k' pc
    using k by (auto simp: g2_def g'_def resolve_def commit_at_def nth_list_update)
  have c: "commits_in g2 pc = (commits_in g pc - (if pc = Parked h then 1 else 0)) + (if pc = Entering then 1 else 0)" for pc
    using k by (auto simp: g2_def g'_def resolve_def commits_in_def commit_at_def count_update)
  have f: "ga_waiters g2 = (ga_waiters g)(h := ga_waiters g h - 1)" "ga_hold g2 = ga_hold g" "ga_inFlight g2 = ga_inFlight g"
    "ga_lastReleased g2 = ga_lastReleased g" "ga_holdQueue g2 = ga_holdQueue g" "ga_reconciles g2 = ga_reconciles g"
    "ga_drained g2 = ga_drained g"
    "set (ga_settled g2) = (if ga_waiters g h - 1 = 0 then insert (Resume h) else id) (set (ga_settled g))"
    by (simp_all add: g2_def g'_def resolve_def)
  have ra: "reconcile_at g2 = reconcile_at g" by (simp add: reconcile_at_def fun_eq_iff f)
  have pos: "ga_waiters g h > 0" using no_parked [OF gate_okD(1) [OF ok], of h k] k by auto
  have "counts_ok g2" using gate_okD(1) [OF ok] by (simp add: counts_ok_def c f)
  moreover have "parked_ok g2" using gate_okD(2) [OF ok] by (simp add: parked_ok_def at f)
  moreover have "queue_ok g2" using gate_okD(3) [OF ok] by (simp add: queue_ok_def f)
  moreover have "hold_ok g2" using gate_okD(4) [OF ok] by (simp add: hold_ok_def f ra)
  moreover have "awaits_ok g2"
  proof -
    have "await_ok g n pc \<Longrightarrow> await_ok g2 n pc" for n pc by (cases pc) (auto simp: f ra)
    then show ?thesis using gate_okD(5) [OF ok] by (simp add: awaits_ok_def f)
  qed
  moreover have "settled_ok g2" using gate_okD(6) [OF ok] h pos by (auto simp: settled_ok_def f ra)
  ultimately have "gate_ok g2" by (rule gate_okI)
  then have "gate_ok (enter_loop k g2)" by (rule enter_loop_ok) (simp add: at)
  then show ?thesis unfolding unpark_def Let_def g2_def g'_def .
qed

lemma finish_commit_ok:
  assumes ok: "gate_ok g" and k: "commit_at g k Committing"
  shows "gate_ok (finish_commit k g)"
proof -
  define g' where "g' = set_commit k Committed (g\<lparr>ga_inFlight := ga_inFlight g - 1\<rparr>)"
  define g2 where "g2 = settleDrain g'"
  have pos: "ga_inFlight g > 0" using gate_okD(1) [OF ok] commits_in_positive [of g Committing] k
    by (auto simp: counts_ok_def)
  have at: "commit_at g2 k' pc \<longleftrightarrow> (if k' = k then pc = Committed else commit_at g k' pc)" for k' pc
    using k by (auto simp: g2_def g'_def settleDrain_def resolve_def set_commit_def commit_at_def nth_list_update
        split: option.split)
  have c: "commits_in g2 pc = (commits_in g pc - (if pc = Committing then 1 else 0)) + (if pc = Committed then 1 else 0)" for pc
    using k by (auto simp: g2_def g'_def settleDrain_def resolve_def set_commit_def commits_in_def commit_at_def count_update
        split: option.split)
  have f: "ga_waiters g2 = ga_waiters g" "ga_hold g2 = ga_hold g" "ga_inFlight g2 = ga_inFlight g - 1"
    "ga_lastReleased g2 = ga_lastReleased g" "ga_holdQueue g2 = ga_holdQueue g" "ga_reconciles g2 = ga_reconciles g"
    "Turn n \<in> set (ga_settled g2) \<longleftrightarrow> Turn n \<in> set (ga_settled g)"
    "Release n \<in> set (ga_settled g2) \<longleftrightarrow> Release n \<in> set (ga_settled g)"
    "Resume n \<in> set (ga_settled g2) \<longleftrightarrow> Resume n \<in> set (ga_settled g)" for n
    by (simp_all add: g2_def g'_def settleDrain_def resolve_def set_commit_def split: option.split)
  have drained: "ga_inFlight g2 = 0 \<Longrightarrow> ga_drained g = Some d \<Longrightarrow> Drain d \<in> set (ga_settled g2)"
    "ga_inFlight g2 > 0 \<Longrightarrow> ga_drained g2 = ga_drained g"
    "Drain d \<in> set (ga_settled g) \<Longrightarrow> Drain d \<in> set (ga_settled g2)" for d
    by (auto simp: g2_def g'_def settleDrain_def resolve_def set_commit_def split: option.splits)
  have ra: "reconcile_at g2 = reconcile_at g" by (simp add: reconcile_at_def fun_eq_iff f)
  have "counts_ok g2" using gate_okD(1) [OF ok] by (simp add: counts_ok_def c f)
  moreover have "parked_ok g2" using gate_okD(2) [OF ok] by (simp add: parked_ok_def at f)
  moreover have "queue_ok g2" using gate_okD(3) [OF ok] by (simp add: queue_ok_def f)
  moreover have "hold_ok g2" using gate_okD(4) [OF ok] by (auto simp: hold_ok_def f ra)
  moreover have "awaits_ok g2"
  proof -
    have "await_ok g n pc \<Longrightarrow> await_ok g2 n pc" for n pc
      using drained by (cases "ga_inFlight g \<le> 1"; cases pc) (auto simp: f ra)
    then show ?thesis using gate_okD(5) [OF ok] by (simp add: awaits_ok_def f)
  qed
  moreover have "settled_ok g2" using gate_okD(6) [OF ok] by (simp add: settled_ok_def f ra)
  ultimately show ?thesis unfolding finish_commit_def g2_def g'_def by (rule gate_okI)
qed

section \<open>Reconciles\<close>

lemma reconcile_at_set: "reconcile_at (set_reconcile k pc g) n pc' \<longleftrightarrow>
    (if n = k \<and> k < length (ga_reconciles g) then pc' = pc else reconcile_at g n pc')"
  by (auto simp: reconcile_at_def set_reconcile_def nth_list_update)

lemma set_reconcile_fields [simp]:
  "ga_inFlight (set_reconcile k pc g) = ga_inFlight g" "ga_hold (set_reconcile k pc g) = ga_hold g"
  "ga_waiters (set_reconcile k pc g) = ga_waiters g" "ga_lastReleased (set_reconcile k pc g) = ga_lastReleased g"
  "ga_drained (set_reconcile k pc g) = ga_drained g" "ga_holdQueue (set_reconcile k pc g) = ga_holdQueue g"
  "ga_settled (set_reconcile k pc g) = ga_settled g" "ga_commits (set_reconcile k pc g) = ga_commits g"
  "ga_reconciles (set_reconcile k pc g) = (ga_reconciles g)[k := pc]"
  by (simp_all add: set_reconcile_def)

lemma commits_kept:
  "ga_commits g' = ga_commits g \<Longrightarrow> commit_at g' = commit_at g \<and> commits_in g' = commits_in g"
  by (simp add: commit_at_def commits_in_def fun_eq_iff)

lemma set_queued_ok:
  assumes ok: "gate_ok g" and k: "k < length (ga_reconciles g)" "queued (ga_reconciles g ! k)"
    and pc: "queued pc" "await_ok g k pc"
  shows "gate_ok (set_reconcile k pc g)"
proof -
  let ?g = "set_reconcile k pc g"
  have c: "commit_at ?g = commit_at g" "commits_in ?g = commits_in g" using commits_kept [of ?g g] by simp_all
  have not: "\<not> holding pc" "pc \<noteq> Reconciled" "\<not> holding (ga_reconciles g ! k)" "ga_reconciles g ! k \<noteq> Reconciled"
    using k(2) pc(1) by (cases pc; cases "ga_reconciles g ! k"; simp)+
  have rec: "reconcile_at ?g n Reconciled = reconcile_at g n Reconciled" for n
    using not by (cases "n = k") (auto simp: reconcile_at_def)
  have await: "await_ok ?g n q = await_ok g n q" for n q by (cases q) (simp_all add: rec)
  have "counts_ok ?g" using gate_okD(1) [OF ok] by (simp add: counts_ok_def c)
  moreover have "parked_ok ?g" using gate_okD(2) [OF ok] by (simp add: parked_ok_def c)
  moreover have "queue_ok ?g" using gate_okD(3) [OF ok] k pc(1) by (auto simp: queue_ok_def nth_list_update)
  moreover have "hold_ok ?g"
  proof -
    have "n < length (ga_reconciles g) \<and> holding ((ga_reconciles g)[k := pc] ! n) \<longleftrightarrow>
        n < length (ga_reconciles g) \<and> holding (ga_reconciles g ! n)" for n
      using not by (cases "n = k") auto
    moreover have "reconcile_at ?g n Reconciling \<Longrightarrow> reconcile_at g n Reconciling" for n
      using not by (auto simp: reconcile_at_set split: if_splits)
    ultimately show ?thesis using gate_okD(4) [OF ok] unfolding hold_ok_def by (simp add: rec) blast
  qed
  moreover have "awaits_ok ?g"
  proof -
    have "await_ok g n ((ga_reconciles g)[k := pc] ! n)" if "n < length (ga_reconciles g)" for n
      using that gate_okD(5) [OF ok] pc(2) by (cases "n = k") (simp_all add: awaits_ok_def)
    then show ?thesis by (simp add: awaits_ok_def await)
  qed
  moreover have "settled_ok ?g" using gate_okD(6) [OF ok] by (simp add: settled_ok_def rec)
  ultimately show ?thesis by (rule gate_okI)
qed

text \<open>What \<open>drain_loop\<close> leaves: the call runs with nothing in flight, or waits for the drain.\<close>

lemma drain_loop_cases:
  "\<exists>pc dr df. drain_loop k g = set_reconcile k pc (g\<lparr>ga_drained := dr, ga_deferred := df\<rparr>) \<and> holding pc \<and>
    (pc = Reconciling \<longrightarrow> ga_inFlight g = 0) \<and> (\<forall>d. pc = AwaitDrain d \<longrightarrow> dr = Some d \<and> ga_inFlight g > 0)"
proof (cases "ga_inFlight g > 0")
  case False
  then show ?thesis
    by (intro exI [of _ Reconciling] exI [of _ "ga_drained g"] exI [of _ "ga_deferred g"]) (simp add: drain_loop_def)
next
  case True
  show ?thesis
  proof (cases "ga_drained g")
    case None
    with True show ?thesis
      by (intro exI [of _ "AwaitDrain (ga_deferred g)"] exI [of _ "Some (ga_deferred g)"] exI [of _ "ga_deferred g + 1"])
        (simp add: drain_loop_def)
  next
    case (Some d)
    then have e: "g\<lparr>ga_drained := Some d\<rparr> = g" by (cases g) simp
    from True Some show ?thesis
      by (intro exI [of _ "AwaitDrain d"] exI [of _ "ga_drained g"] exI [of _ "ga_deferred g"])
        (simp add: drain_loop_def e)
  qed
qed

lemma only_holder:
  assumes "hold_ok g" and "ga_hold g = Some k" and "n < length (ga_reconciles g)" and "holding (ga_reconciles g ! n)"
  shows "n = k"
  using assms by (auto simp: hold_ok_def)

lemma no_holder:
  assumes "hold_ok g" and "ga_hold g = None" and "n < length (ga_reconciles g)"
  shows "\<not> holding (ga_reconciles g ! n)"
  using assms by (auto simp: hold_ok_def)

lemma drain_loop_ok:
  assumes ok: "gate_ok g" and k: "k < length (ga_reconciles g)" "holding (ga_reconciles g ! k)"
  shows "gate_ok (drain_loop k g)"
proof -
  have hold: "ga_hold g = Some k" using gate_okD(4) [OF ok] k by (auto simp: hold_ok_def)
  note only = only_holder [OF gate_okD(4) [OF ok] hold]
  obtain pc dr df where d: "drain_loop k g = set_reconcile k pc (g\<lparr>ga_drained := dr, ga_deferred := df\<rparr>)"
    and pc: "holding pc" "pc = Reconciling \<Longrightarrow> ga_inFlight g = 0" "\<And>d. pc = AwaitDrain d \<Longrightarrow> dr = Some d \<and> ga_inFlight g > 0"
    using drain_loop_cases [of k g] by blast
  let ?g = "set_reconcile k pc (g\<lparr>ga_drained := dr, ga_deferred := df\<rparr>)"
  have c: "commit_at ?g = commit_at g" "commits_in ?g = commits_in g" using commits_kept [of ?g g] by simp_all
  have not: "\<not> queued pc" "pc \<noteq> Reconciled" "\<not> queued (ga_reconciles g ! k)" "ga_reconciles g ! k \<noteq> Reconciled"
    using k(2) pc(1) by (cases pc; cases "ga_reconciles g ! k"; simp)+
  have at: "reconcile_at ?g n q \<longleftrightarrow> (if n = k then q = pc else reconcile_at g n q)" for n q
    using k(1) by (auto simp: reconcile_at_def nth_list_update)
  have rec: "reconcile_at ?g n Reconciled = reconcile_at g n Reconciled" for n
    using not(2,4) by (cases "n = k") (auto simp: reconcile_at_def)
  have "counts_ok ?g" using gate_okD(1) [OF ok] by (simp add: counts_ok_def c)
  moreover have "parked_ok ?g" using gate_okD(2) [OF ok] by (simp add: parked_ok_def c)
  moreover have "queue_ok ?g" using gate_okD(3) [OF ok] k(1) not by (auto simp: queue_ok_def nth_list_update)
  moreover have "hold_ok ?g" unfolding hold_ok_def
  proof (intro conjI allI impI)
    fix n
    show "ga_hold ?g = Some n \<longleftrightarrow> n < length (ga_reconciles ?g) \<and> holding (ga_reconciles ?g ! n)"
      using hold only [of n] k pc(1) by (auto simp: nth_list_update)
    show "reconcile_at ?g n Reconciled" if "ga_lastReleased ?g = Some n"
      using that gate_okD(4) [OF ok] by (simp add: rec hold_ok_def)
    show "ga_inFlight ?g = 0" if "reconcile_at ?g n Reconciling"
      using that gate_okD(4) [OF ok] pc(2) by (auto simp: at hold_ok_def split: if_splits)
  qed
  moreover have "awaits_ok ?g" unfolding awaits_ok_def
  proof (intro allI impI)
    fix n assume n: "n < length (ga_reconciles ?g)"
    show "await_ok ?g n (ga_reconciles ?g ! n)"
    proof (cases "n = k")
      case True
      with pc k(1) show ?thesis by (cases pc) auto
    next
      case False
      then have "\<not> holding (ga_reconciles g ! n)" using only [of n] n by auto
      moreover have "await_ok g n (ga_reconciles g ! n)" using gate_okD(5) [OF ok] n by (simp add: awaits_ok_def)
      ultimately have "await_ok ?g n (ga_reconciles g ! n)" by (cases "ga_reconciles g ! n") (auto simp: rec)
      with False show ?thesis by simp
    qed
  qed
  moreover have "settled_ok ?g" using gate_okD(6) [OF ok] by (simp add: settled_ok_def rec)
  ultimately show ?thesis unfolding d by (rule gate_okI)
qed

text \<open>Taking the gate: nobody holds it, no commit waits, and the call heads the queue.\<close>

lemma acquire_ok:
  assumes ok: "gate_ok g" and q: "ga_holdQueue g = k # rest" and free: "ga_hold g = None"
    and quiet: "\<And>h. ga_waiters g h = 0"
  shows "gate_ok (acquire k g)"
proof -
  note head = head_queued [OF gate_okD(3) [OF ok] q]
  note none = no_holder [OF gate_okD(4) [OF ok] free]
  let ?w = "g\<lparr>ga_hold := Some k, ga_waiters := (ga_waiters g)(k := 0), ga_holdQueue := tl (ga_holdQueue g)\<rparr>"
  obtain pc dr df where d: "drain_loop k ?w = set_reconcile k pc (?w\<lparr>ga_drained := dr, ga_deferred := df\<rparr>)"
    and pc: "holding pc" "pc = Reconciling \<Longrightarrow> ga_inFlight ?w = 0" "\<And>d. pc = AwaitDrain d \<Longrightarrow> dr = Some d \<and> ga_inFlight ?w > 0"
    using drain_loop_cases [of k ?w] by blast
  let ?g = "set_reconcile k pc (?w\<lparr>ga_drained := dr, ga_deferred := df\<rparr>)"
  have c: "commit_at ?g = commit_at g" "commits_in ?g = commits_in g" using commits_kept [of ?g g] by simp_all
  have w: "(ga_waiters g)(k := 0) = ga_waiters g" using quiet by (simp add: fun_eq_iff)
  have not: "\<not> queued pc" "pc \<noteq> Reconciled" "ga_reconciles g ! k \<noteq> Reconciled"
    using pc(1) head(2) by (cases pc; cases "ga_reconciles g ! k"; simp)+
  have at: "reconcile_at ?g n q \<longleftrightarrow> (if n = k then q = pc else reconcile_at g n q)" for n q
    using head(1) by (auto simp: reconcile_at_def nth_list_update)
  have rec: "reconcile_at ?g n Reconciled = reconcile_at g n Reconciled" for n
    using not(2,3) by (cases "n = k") (auto simp: reconcile_at_def)
  have "counts_ok ?g" using gate_okD(1) [OF ok] unfolding counts_ok_def c by (simp add: w)
  moreover have "parked_ok ?g"
    using no_parked [OF gate_okD(1) [OF ok] quiet] by (simp add: parked_ok_def c)
  moreover have "queue_ok ?g"
    using gate_okD(3) [OF ok] q head not(1) by (auto simp: queue_ok_def nth_list_update)
  moreover have "hold_ok ?g" unfolding hold_ok_def
  proof (intro conjI allI impI)
    fix n
    show "ga_hold ?g = Some n \<longleftrightarrow> n < length (ga_reconciles ?g) \<and> holding (ga_reconciles ?g ! n)"
      using none [of n] head(1) pc(1) by (auto simp: nth_list_update)
    show "reconcile_at ?g n Reconciled" if "ga_lastReleased ?g = Some n"
      using that gate_okD(4) [OF ok] by (simp add: rec hold_ok_def)
    show "ga_inFlight ?g = 0" if "reconcile_at ?g n Reconciling"
    proof (cases "n = k")
      case True
      with that pc(2) show ?thesis by (simp add: at)
    next
      case False
      with that none [of n] show ?thesis by (auto simp: reconcile_at_def)
    qed
  qed
  moreover have "awaits_ok ?g" unfolding awaits_ok_def
  proof (intro allI impI)
    fix n assume n: "n < length (ga_reconciles ?g)"
    show "await_ok ?g n (ga_reconciles ?g ! n)"
    proof (cases "n = k")
      case True
      with pc head(1) show ?thesis by (cases pc) auto
    next
      case False
      then have "\<not> holding (ga_reconciles g ! n)" using none [of n] n by auto
      moreover have "await_ok g n (ga_reconciles g ! n)" using gate_okD(5) [OF ok] n by (simp add: awaits_ok_def)
      ultimately have "await_ok ?g n (ga_reconciles g ! n)"
        using False q by (cases "ga_reconciles g ! n") (auto simp: rec)
      with False show ?thesis by simp
    qed
  qed
  moreover have "settled_ok ?g" using gate_okD(6) [OF ok] unfolding settled_ok_def rec by (simp add: w)
  ultimately have "gate_ok ?g" by (rule gate_okI)
  then show ?thesis by (simp only: acquire_def d)
qed

lemma waiters_none:
  assumes "counts_ok g" and "\<And>k h. \<not> commit_at g k (Parked h)"
  shows "ga_waiters g h = 0"
  using assms commits_in_positive [of g "Parked h"] by (auto simp: counts_ok_def)

lemma after_release_ok:
  assumes ok: "gate_ok g" and q: "ga_holdQueue g = k # rest" and free: "ga_hold g = None"
  shows "gate_ok (after_release k g)"
proof -
  note head = head_queued [OF gate_okD(3) [OF ok] q]
  have parked: "ga_lastReleased g = Some h" if "commit_at g n (Parked h)" for n h
    using gate_okD(2) [OF ok] that free by (simp add: parked_ok_def)
  show ?thesis
  proof (cases "ga_lastReleased g")
    case None
    then have "ga_waiters g h = 0" for h
      using waiters_none [OF gate_okD(1) [OF ok]] parked by fastforce
    from acquire_ok [OF ok q free this] None show ?thesis by (simp add: after_release_def)
  next
    case (Some h)
    show ?thesis
    proof (cases "ga_waiters g h > 0")
      case True
      have "gate_ok (set_reconcile k (AwaitResume h) g)"
        by (rule set_queued_ok [OF ok head(1,2)]) (use Some q free in simp_all)
      with Some True show ?thesis by (simp add: after_release_def)
    next
      case False
      then have "ga_waiters g n = 0" for n
        using waiters_none [OF gate_okD(1) [OF ok]] parked no_parked [OF gate_okD(1) [OF ok], of h] Some by fastforce
      from acquire_ok [OF ok q free this] Some False show ?thesis by (simp add: after_release_def)
    qed
  qed
qed

lemma hold_loop_ok:
  assumes ok: "gate_ok g" and q: "ga_holdQueue g = k # rest"
  shows "gate_ok (hold_loop k g)"
proof (cases "ga_hold g")
  case None
  with after_release_ok [OF ok q None] show ?thesis by (simp add: hold_loop_def)
next
  case (Some h)
  note head = head_queued [OF gate_okD(3) [OF ok] q]
  have "gate_ok (set_reconcile k (AwaitRelease h) g)"
    by (rule set_queued_ok [OF ok head(1,2)]) (use Some q in simp_all)
  with Some show ?thesis by (simp add: hold_loop_def)
qed

lemma turn_loop_ok:
  assumes ok: "gate_ok g" and k: "k < length (ga_reconciles g)" "queued (ga_reconciles g ! k)"
  shows "gate_ok (turn_loop k g)"
proof -
  have "k \<in> set (ga_holdQueue g)" using gate_okD(3) [OF ok] k by (simp add: queue_ok_def)
  then obtain t rest where q: "ga_holdQueue g = t # rest" by (cases "ga_holdQueue g") auto
  show ?thesis
  proof (cases "t = k")
    case True
    with hold_loop_ok [OF ok] q show ?thesis by (simp add: turn_loop_def)
  next
    case False
    with \<open>k \<in> set (ga_holdQueue g)\<close> q head_queued(4) [OF gate_okD(3) [OF ok] q] have "t < k" by auto
    then have "gate_ok (set_reconcile k (AwaitTurn t) g)" by (intro set_queued_ok [OF ok k]) simp_all
    with False q show ?thesis by (simp add: turn_loop_def)
  qed
qed

lemma holdForReconcile_ok:
  assumes ok: "gate_ok g"
  shows "gate_ok (holdForReconcile g)"
proof -
  let ?n = "length (ga_reconciles g)"
  let ?g = "g\<lparr>ga_reconciles := ga_reconciles g @ [Starting], ga_holdQueue := ga_holdQueue g @ [?n]\<rparr>"
  have c: "commit_at ?g = commit_at g" "commits_in ?g = commits_in g" using commits_kept [of ?g g] by simp_all
  have at: "reconcile_at ?g m q \<longleftrightarrow> reconcile_at g m q \<or> m = ?n \<and> q = Starting" for m q
    by (auto simp: reconcile_at_def nth_append)
  have "counts_ok ?g" using gate_okD(1) [OF ok] by (simp add: counts_ok_def c)
  moreover have "parked_ok ?g" using gate_okD(2) [OF ok] by (simp add: parked_ok_def c)
  moreover have "queue_ok ?g"
  proof -
    have q: "sorted_wrt (<) (ga_holdQueue g)"
      "set (ga_holdQueue g) = {m. m < ?n \<and> queued (ga_reconciles g ! m)}"
      using gate_okD(3) [OF ok] by (simp_all add: queue_ok_def)
    have "m < Suc ?n \<and> queued ((ga_reconciles g @ [Starting]) ! m) \<longleftrightarrow> m = ?n \<or> m < ?n \<and> queued (ga_reconciles g ! m)" for m
      by (cases "m < ?n") (auto simp: nth_append)
    with q show ?thesis by (auto simp: queue_ok_def sorted_wrt_append)
  qed
  moreover have "hold_ok ?g"
  proof -
    have "m < Suc ?n \<and> holding ((ga_reconciles g @ [Starting]) ! m) \<longleftrightarrow> m < ?n \<and> holding (ga_reconciles g ! m)" for m
      by (cases "m < ?n") (auto simp: nth_append)
    with gate_okD(4) [OF ok] show ?thesis by (simp add: hold_ok_def at)
  qed
  moreover have "awaits_ok ?g" unfolding awaits_ok_def
  proof (intro allI impI)
    fix m assume m: "m < length (ga_reconciles ?g)"
    show "await_ok ?g m (ga_reconciles ?g ! m)"
    proof (cases "m = ?n")
      case True
      then show ?thesis by simp
    next
      case False
      with m have m: "m < ?n" by simp
      have "ga_holdQueue g \<noteq> []" if "queued (ga_reconciles g ! m)"
      proof -
        have "m \<in> set (ga_holdQueue g)" using gate_okD(3) [OF ok] m that by (simp add: queue_ok_def)
        then show ?thesis by auto
      qed
      moreover have "await_ok g m (ga_reconciles g ! m)" using gate_okD(5) [OF ok] m by (simp add: awaits_ok_def)
      ultimately have "await_ok ?g m (ga_reconciles g ! m)"
        by (cases "ga_reconciles g ! m") (auto simp: at)
      with m show ?thesis by (simp add: nth_append)
    qed
  qed
  moreover have "settled_ok ?g" using gate_okD(6) [OF ok] by (simp add: settled_ok_def at)
  ultimately have "gate_ok ?g" by (rule gate_okI)
  then have "gate_ok (turn_loop ?n ?g)" by (rule turn_loop_ok) simp_all
  then show ?thesis by (simp add: holdForReconcile_def)
qed

lemma finish_reconcile_ok:
  assumes ok: "gate_ok g" and k: "reconcile_at g k Reconciling"
  shows "gate_ok (finish_reconcile k g)"
proof -
  let ?g = "finish_reconcile k g"
  have kl: "k < length (ga_reconciles g)" "ga_reconciles g ! k = Reconciling" using k by (simp_all add: reconcile_at_def)
  have hold: "ga_hold g = Some k" using gate_okD(4) [OF ok] kl by (auto simp: hold_ok_def)
  note only = only_holder [OF gate_okD(4) [OF ok] hold]
  have f: "ga_inFlight ?g = ga_inFlight g" "ga_hold ?g = None" "ga_waiters ?g = ga_waiters g" "ga_lastReleased ?g = Some k"
    "ga_drained ?g = ga_drained g" "ga_holdQueue ?g = ga_holdQueue g" "ga_commits ?g = ga_commits g"
    "ga_reconciles ?g = (ga_reconciles g)[k := Reconciled]"
    "set (ga_settled ?g) = {Turn k, Release k} \<union> (if ga_waiters g k = 0 then {Resume k} else {}) \<union> set (ga_settled g)"
    by (simp_all add: finish_reconcile_def resolve_def Let_def)
  have c: "commit_at ?g = commit_at g" "commits_in ?g = commits_in g" using commits_kept [of ?g g] f(7) by simp_all
  have at: "reconcile_at ?g n q \<longleftrightarrow> (if n = k then q = Reconciled else reconcile_at g n q)" for n q
    using kl by (auto simp: reconcile_at_def f nth_list_update)
  have "counts_ok ?g" using gate_okD(1) [OF ok] by (simp add: counts_ok_def c f)
  moreover have "parked_ok ?g" using gate_okD(2) [OF ok] hold unfolding parked_ok_def c f by auto
  moreover have "queue_ok ?g"
  proof -
    have "n < length (ga_reconciles g) \<and> queued ((ga_reconciles g)[k := Reconciled] ! n) \<longleftrightarrow>
        n < length (ga_reconciles g) \<and> queued (ga_reconciles g ! n)" for n
      using kl by (cases "n = k") auto
    with gate_okD(3) [OF ok] show ?thesis by (simp add: queue_ok_def f)
  qed
  moreover have "hold_ok ?g" unfolding hold_ok_def
  proof (intro conjI allI impI)
    fix n
    show "ga_hold ?g = Some n \<longleftrightarrow> n < length (ga_reconciles ?g) \<and> holding (ga_reconciles ?g ! n)"
      using only [of n] kl by (cases "n = k") (auto simp: f)
    have "reconcile_at ?g k Reconciled" by (simp add: at)
    then show "reconcile_at ?g n Reconciled" if "ga_lastReleased ?g = Some n" using that f(4) by simp
    show "ga_inFlight ?g = 0" if "reconcile_at ?g n Reconciling"
      using that gate_okD(4) [OF ok] by (auto simp: f at hold_ok_def split: if_splits)
  qed
  moreover have "awaits_ok ?g" unfolding awaits_ok_def
  proof (intro allI impI)
    fix n assume n: "n < length (ga_reconciles ?g)"
    show "await_ok ?g n (ga_reconciles ?g ! n)"
    proof (cases "n = k")
      case True
      with kl show ?thesis by (simp add: f)
    next
      case False
      with n have "await_ok g n (ga_reconciles g ! n)" using gate_okD(5) [OF ok] by (simp add: awaits_ok_def f)
      then have "await_ok ?g n (ga_reconciles g ! n)" using hold
        by (cases "ga_reconciles g ! n") (auto simp: f at)
      with False show ?thesis by (simp add: f)
    qed
  qed
  moreover have "settled_ok ?g"
  proof -
    have nr: "\<not> reconcile_at g k Reconciled" using kl by (simp add: reconcile_at_def)
    have "Turn n \<in> set (ga_settled ?g) \<longleftrightarrow> reconcile_at ?g n Reconciled"
      "Release n \<in> set (ga_settled ?g) \<longleftrightarrow> reconcile_at ?g n Reconciled"
      "Resume n \<in> set (ga_settled ?g) \<longleftrightarrow> reconcile_at ?g n Reconciled \<and> ga_waiters ?g n = 0" for n
      using gate_okD(6) [OF ok] nr unfolding at f settled_ok_def by (cases "n = k"; simp)+
    then show ?thesis by (simp add: settled_ok_def)
  qed
  ultimately show ?thesis by (rule gate_okI)
qed

section \<open>Every step\<close>

lemma at_head:
  assumes ok: "gate_ok g" and k: "k < length (ga_reconciles g)" "queued (ga_reconciles g ! k)" "k = hd (ga_holdQueue g)"
  shows "\<exists>rest. ga_holdQueue g = k # rest"
proof -
  have "k \<in> set (ga_holdQueue g)" using gate_okD(3) [OF ok] k by (simp add: queue_ok_def)
  with k(3) show ?thesis by (cases "ga_holdQueue g") auto
qed

lemma await_at: "gate_ok g \<Longrightarrow> reconcile_at g k pc \<Longrightarrow> await_ok g k pc"
  by (auto simp: gate_ok_def awaits_ok_def reconcile_at_def)

lemma progress_ok: "gate_progress g g' \<Longrightarrow> gate_ok g \<Longrightarrow> gate_ok g'"
proof (induction rule: gate_progress.induct)
  case (go_unpark g k h)
  then show ?case by (intro unpark_ok)
next
  case (go_commit g k)
  then show ?case by (intro finish_commit_ok)
next
  case (go_turn g k t)
  then show ?case by (intro turn_loop_ok) (auto simp: reconcile_at_def)
next
  case (go_release g k h)
  then obtain rest where "ga_holdQueue g = k # rest"
    using await_at [OF go_release.prems go_release.hyps(1)] at_head [OF go_release.prems, of k] by (auto simp: reconcile_at_def)
  with go_release.prems show ?case by (rule hold_loop_ok)
next
  case (go_resume g k h)
  note a = await_at [OF go_resume.prems go_resume.hyps(1), simplified]
  obtain rest where q: "ga_holdQueue g = k # rest"
    using go_resume.hyps(1) a at_head [OF go_resume.prems, of k] by (auto simp: reconcile_at_def)
  have "ga_waiters g h = 0" using gate_okD(6) [OF go_resume.prems] go_resume.hyps(2) by (simp add: settled_ok_def)
  then have "\<not> commit_at g n (Parked m)" for n m
    using gate_okD(2) [OF go_resume.prems] no_parked [OF gate_okD(1) [OF go_resume.prems], of h n] a
    by (auto simp: parked_ok_def)
  then have "ga_waiters g m = 0" for m by (intro waiters_none [OF gate_okD(1) [OF go_resume.prems]])
  with go_resume.prems q a show ?case by (intro acquire_ok) auto
next
  case (go_drain g k d)
  then show ?case by (intro drain_loop_ok) (auto simp: reconcile_at_def)
next
  case (go_reconcile g k)
  then show ?case by (intro finish_reconcile_ok)
qed

lemma note_ok: "gate_ok g \<Longrightarrow> gate_ok (noteLocalCommit g)"
proof -
  assume ok: "gate_ok g"
  let ?g = "noteLocalCommit g"
  have f: "ga_inFlight ?g = ga_inFlight g" "ga_hold ?g = ga_hold g" "ga_waiters ?g = ga_waiters g"
    "ga_lastReleased ?g = ga_lastReleased g" "ga_drained ?g = ga_drained g" "ga_holdQueue ?g = ga_holdQueue g"
    "ga_commits ?g = ga_commits g" "ga_reconciles ?g = ga_reconciles g" "ga_settled ?g = ga_settled g"
    by (simp_all add: noteLocalCommit_def)
  have c: "commit_at ?g = commit_at g" "commits_in ?g = commits_in g" "reconcile_at ?g = reconcile_at g"
    using commits_kept [of ?g g] by (simp_all add: f reconcile_at_def fun_eq_iff)
  have "await_ok ?g n pc = await_ok g n pc" for n pc by (cases pc) (simp_all add: f c)
  then have "awaits_ok ?g" using gate_okD(5) [OF ok] by (simp add: awaits_ok_def f)
  moreover have "counts_ok ?g" "parked_ok ?g" "queue_ok ?g" "hold_ok ?g" "settled_ok ?g"
    using gate_okD [OF ok] unfolding counts_ok_def parked_ok_def queue_ok_def hold_ok_def settled_ok_def f c by simp_all
  ultimately show "gate_ok ?g" by (simp add: gate_okI)
qed

lemma gate_step_ok: "gate_ok g \<Longrightarrow> gate_step g g' \<Longrightarrow> gate_ok g'"
  by (auto elim!: gate_step.cases intro: progress_ok enterCommit_ok holdForReconcile_ok note_ok)

interpretation gate_machine: invariant_system gate_step createCommitGate gate_ok
  by unfold_locales (auto intro: empty_gate_ok gate_step_ok)

end
