(* ===== verification/Gate_Theorems.thy ===== *)
theory Gate_Theorems
  imports Gate_Invariants
begin

text \<open>
  What the commit gate promises: a reconcile runs alone, nothing ever deadlocks, and a commit that
  a release woke enters before the next reconcile.
\<close>

section \<open>Exclusion\<close>

text \<open>C4. While a reconcile runs it holds the gate, no commit runs and no other reconcile runs, whatever the interleaving.\<close>

theorem reconcile_runs_alone:
  assumes "reached gate_step createCommitGate g" and "reconcile_at g n Reconciling"
  shows "held g \<and> (\<forall>k. \<not> commit_at g k Committing) \<and> (\<forall>m. reconcile_at g m Reconciling \<longrightarrow> m = n)"
proof -
  have ok: "gate_ok g" by (rule gate_machine.reachable_inv [OF assms(1)])
  have n: "n < length (ga_reconciles g)" "holding (ga_reconciles g ! n)"
    using assms(2) by (simp_all add: reconcile_at_def)
  then have hold: "ga_hold g = Some n" using gate_okD(4) [OF ok] by (auto simp: hold_ok_def)
  have "ga_inFlight g = 0" using gate_okD(4) [OF ok] assms(2) by (auto simp: hold_ok_def)
  then have "\<not> commit_at g k Committing" for k
    using gate_okD(1) [OF ok] commits_in_positive [of g Committing] by (auto simp: counts_ok_def)
  moreover have "m = n" if "reconcile_at g m Reconciling" for m
    using only_holder [OF gate_okD(4) [OF ok] hold, of m] that by (simp add: reconcile_at_def)
  ultimately show ?thesis using hold by (simp add: held_def)
qed

text \<open>A commit, a reconcile that waits for it to drain, and the drain.\<close>

definition drained_gate :: gate where
  "drained_gate = drain_loop 0 (finish_commit 0 (holdForReconcile (enterCommit createCommitGate)))"

lemma drained_reached: "reached gate_step createCommitGate drained_gate"
proof -
  let ?a = "enterCommit createCommitGate" and ?b = "holdForReconcile (enterCommit createCommitGate)"
  have "commit_at ?b 0 Committing" by code_simp
  then have 3: "gate_step ?b (finish_commit 0 ?b)" by (intro step_progress go_commit)
  have "reconcile_at (finish_commit 0 ?b) 0 (AwaitDrain 0)" "Drain 0 \<in> set (ga_settled (finish_commit 0 ?b))"
    by code_simp+
  then have 4: "gate_step (finish_commit 0 ?b) drained_gate" unfolding drained_gate_def
    by (intro step_progress go_drain)
  have "reached gate_step createCommitGate ?a" by (rule reached_step [where step = gate_step, OF reached_refl step_enter])
  from reached_step [OF this step_hold] have "reached gate_step createCommitGate ?b" .
  from reached_step [OF reached_step [OF this 3] 4] show ?thesis .
qed

theorem reconcile_runs_alone_witness: "held drained_gate \<and> \<not> commit_at drained_gate 0 Committing"
proof -
  have "reconcile_at drained_gate 0 Reconciling" by code_simp
  from reconcile_runs_alone [OF drained_reached this] show ?thesis by blast
qed

section \<open>No starvation\<close>

theorem released_commit_enters:
  assumes "reached gate_step createCommitGate g" and "commit_at g k (Parked h)" and "Release h \<in> set (ga_settled g)"
  shows "\<not> held g \<and> commit_at (unpark k h g) k Committing"
proof -
  have ok: "gate_ok g" by (rule gate_machine.reachable_inv [OF assms(1)])
  have "reconcile_at g h Reconciled" using gate_okD(6) [OF ok] assms(3) by (simp add: settled_ok_def)
  then have "ga_hold g \<noteq> Some h" using gate_okD(4) [OF ok] by (auto simp: hold_ok_def reconcile_at_def)
  then have free: "ga_hold g = None"
    using gate_okD(2) [OF ok] assms(2) by (cases "ga_hold g") (auto simp: parked_ok_def)
  have "commit_at (unpark k h g) k Committing"
    using assms(2) free by (simp add: unpark_def Let_def enter_loop_def commit_at_def set_commit_def resolve_def)
  with free show ?thesis by (simp add: held_def)
qed

text \<open>A commit parked behind a reconcile, then the release.\<close>

definition released_gate :: gate where
  "released_gate = finish_reconcile 0 (enterCommit (holdForReconcile createCommitGate))"

lemma released_reached: "reached gate_step createCommitGate released_gate"
proof -
  let ?b = "enterCommit (holdForReconcile createCommitGate)"
  have "reconcile_at ?b 0 Reconciling" by code_simp
  then have "gate_step ?b released_gate" unfolding released_gate_def by (intro step_progress go_reconcile)
  moreover have "reached gate_step createCommitGate (holdForReconcile createCommitGate)"
    by (rule reached_step [where step = gate_step, OF reached_refl step_hold])
  then have "reached gate_step createCommitGate ?b" by (rule reached_step [where step = gate_step, OF _ step_enter])
  ultimately show ?thesis using reached_step by metis
qed

theorem released_commit_enters_witness: "\<not> held released_gate \<and> commit_at (unpark 0 0 released_gate) 0 Committing"
proof (rule released_commit_enters [OF released_reached])
  show "commit_at released_gate 0 (Parked 0)" "Release 0 \<in> set (ga_settled released_gate)" by code_simp+
qed

section \<open>No deadlock\<close>

text \<open>Between steps no call is in the middle of its synchronous part.\<close>

definition calls_parked :: "gate \<Rightarrow> bool" where
  "calls_parked g \<longleftrightarrow> Entering \<notin> set (ga_commits g) \<and> Starting \<notin> set (ga_reconciles g)"

lemma calls_parkedD:
  assumes "calls_parked g"
  shows "k < length (ga_commits g) \<Longrightarrow> ga_commits g ! k \<noteq> Entering"
    and "k < length (ga_reconciles g) \<Longrightarrow> ga_reconciles g ! k \<noteq> Starting"
  using assms unfolding calls_parked_def by (metis nth_mem)+

lemma update_absent: "x \<noteq> y \<Longrightarrow> x \<notin> set xs \<Longrightarrow> x \<notin> set (xs[k := y])"
  using set_update_subset_insert [of xs k y] by auto

lemma enter_loop_commits:
  "\<exists>pc. ga_commits (enter_loop k g) = (ga_commits g)[k := pc] \<and> pc \<noteq> Entering \<and>
    ga_reconciles (enter_loop k g) = ga_reconciles g"
  by (auto simp: enter_loop_def set_commit_def split: option.split)

lemma drain_loop_calls:
  "\<exists>pc. ga_reconciles (drain_loop k g) = (ga_reconciles g)[k := pc] \<and> pc \<noteq> Starting \<and>
    ga_commits (drain_loop k g) = ga_commits g"
  by (auto simp: drain_loop_def set_reconcile_def split: option.split)

lemma acquire_calls:
  "\<exists>pc. ga_reconciles (acquire k g) = (ga_reconciles g)[k := pc] \<and> pc \<noteq> Starting \<and>
    ga_commits (acquire k g) = ga_commits g"
  using drain_loop_calls [of k "g\<lparr>ga_hold := Some k, ga_waiters := (ga_waiters g)(k := 0), ga_holdQueue := tl (ga_holdQueue g)\<rparr>"]
  by (simp add: acquire_def)

lemma hold_loop_calls:
  "\<exists>pc. ga_reconciles (hold_loop k g) = (ga_reconciles g)[k := pc] \<and> pc \<noteq> Starting \<and>
    ga_commits (hold_loop k g) = ga_commits g"
  using acquire_calls [of k g]
  by (auto simp: hold_loop_def after_release_def set_reconcile_def split: option.split)

lemma turn_loop_calls:
  "\<exists>pc. ga_reconciles (turn_loop k g) = (ga_reconciles g)[k := pc] \<and> pc \<noteq> Starting \<and>
    ga_commits (turn_loop k g) = ga_commits g"
  using hold_loop_calls [of k g] by (auto simp: turn_loop_def set_reconcile_def split: list.split)

lemma calls_parked_update:
  "calls_parked g \<Longrightarrow> \<exists>pc. ga_reconciles g' = (ga_reconciles g)[k := pc] \<and> pc \<noteq> Starting \<and> ga_commits g' = ga_commits g \<Longrightarrow>
    calls_parked g'"
  using update_absent [of Starting] by (auto simp: calls_parked_def)

lemma calls_parked_commit:
  "calls_parked g \<Longrightarrow> \<exists>pc. ga_commits g' = (ga_commits g)[k := pc] \<and> pc \<noteq> Entering \<and> ga_reconciles g' = ga_reconciles g \<Longrightarrow>
    calls_parked g'"
  using update_absent [of Entering] by (auto simp: calls_parked_def)

lemma unpark_calls:
  "\<exists>pc. ga_commits (unpark k h g) = (ga_commits g)[k := pc] \<and> pc \<noteq> Entering \<and> ga_reconciles (unpark k h g) = ga_reconciles g"
proof -
  let ?w = "g\<lparr>ga_waiters := (ga_waiters g)(h := ga_waiters g h - 1), ga_commits := (ga_commits g)[k := Entering]\<rparr>"
  let ?g = "if ga_waiters ?w h = 0 then resolve (Resume h) ?w else ?w"
  have "ga_commits ?g = (ga_commits g)[k := Entering]" "ga_reconciles ?g = ga_reconciles g" by (simp_all add: resolve_def)
  with enter_loop_commits [of k ?g] show ?thesis unfolding unpark_def Let_def by (metis list_update_overwrite)
qed

lemma finish_commit_calls:
  "\<exists>pc. ga_commits (finish_commit k g) = (ga_commits g)[k := pc] \<and> pc \<noteq> Entering \<and>
    ga_reconciles (finish_commit k g) = ga_reconciles g"
  by (auto simp: finish_commit_def settleDrain_def resolve_def set_commit_def split: option.split)

lemma finish_reconcile_calls:
  "\<exists>pc. ga_reconciles (finish_reconcile k g) = (ga_reconciles g)[k := pc] \<and> pc \<noteq> Starting \<and>
    ga_commits (finish_reconcile k g) = ga_commits g"
  by (auto simp: finish_reconcile_def Let_def resolve_def set_reconcile_def)

lemma progress_calls: "gate_progress g g' \<Longrightarrow> calls_parked g \<Longrightarrow> calls_parked g'"
  by (induction rule: gate_progress.induct)
    (blast intro: calls_parked_update calls_parked_commit unpark_calls finish_commit_calls finish_reconcile_calls
      turn_loop_calls hold_loop_calls acquire_calls drain_loop_calls)+

lemma enterCommit_calls: "calls_parked g \<Longrightarrow> calls_parked (enterCommit g)"
  using enter_loop_commits [of "length (ga_commits g)" "g\<lparr>ga_commits := ga_commits g @ [Entering]\<rparr>"]
  by (auto simp: enterCommit_def calls_parked_def)

lemma holdForReconcile_calls: "calls_parked g \<Longrightarrow> calls_parked (holdForReconcile g)"
  using turn_loop_calls [of "length (ga_reconciles g)" "g\<lparr>ga_reconciles := ga_reconciles g @ [Starting],
      ga_holdQueue := ga_holdQueue g @ [length (ga_reconciles g)]\<rparr>"]
  by (auto simp: holdForReconcile_def calls_parked_def)

interpretation parked_machine: invariant_system gate_step createCommitGate calls_parked
proof
  show "calls_parked createCommitGate" by (simp add: calls_parked_def createCommitGate_def)
  show "gate_step g g' \<Longrightarrow> calls_parked g'" if "calls_parked g" for g g'
    using that
    by (auto elim!: gate_step.cases intro: progress_calls enterCommit_calls holdForReconcile_calls)
      (simp add: calls_parked_def noteLocalCommit_def)
qed

text \<open>Who is responsible for the promise a call awaits.\<close>

lemma reconciled_or_held:
  assumes "gate_ok g" and "calls_parked g" and "t < length (ga_reconciles g)" and "t \<notin> set (ga_holdQueue g)"
  shows "reconcile_at g t Reconciled \<or> ga_hold g = Some t"
proof -
  have "\<not> queued (ga_reconciles g ! t)" using gate_okD(3) [OF assms(1)] assms(3,4) by (simp add: queue_ok_def)
  then have "holding (ga_reconciles g ! t) \<or> ga_reconciles g ! t = Reconciled"
    by (cases "ga_reconciles g ! t") auto
  with assms(3) gate_okD(4) [OF assms(1)] show ?thesis by (auto simp: hold_ok_def reconcile_at_def)
qed

lemma held_progress:
  assumes ok: "gate_ok g" and hold: "ga_hold g = Some n"
  shows "\<exists>g'. gate_progress g g'"
proof -
  have h: "holding (ga_reconciles g ! n)" using gate_okD(4) [OF ok] hold unfolding hold_ok_def by metis
  show ?thesis
  proof (cases "ga_reconciles g ! n")
    case (AwaitDrain d)
    have n: "reconcile_at g n (AwaitDrain d)" using gate_okD(4) [OF ok] hold AwaitDrain by (auto simp: hold_ok_def reconcile_at_def)
    from await_at [OF ok n] consider "ga_inFlight g > 0" | "Drain d \<in> set (ga_settled g)" by auto
    then show ?thesis
    proof cases
      case 1
      then obtain k where "commit_at g k Committing"
        using gate_okD(1) [OF ok] commits_in_positive [of g Committing] by (auto simp: counts_ok_def)
      then show ?thesis by (blast intro: go_commit)
    next
      case 2
      with n show ?thesis by (blast intro: go_drain)
    qed
  next
    case Reconciling
    then have "reconcile_at g n Reconciling" using gate_okD(4) [OF ok] hold by (auto simp: hold_ok_def reconcile_at_def)
    then show ?thesis by (blast intro: go_reconcile)
  qed (use h in auto)
qed

lemma parked_progress:
  assumes ok: "gate_ok g" and free: "ga_hold g = None" and k: "commit_at g k (Parked h)"
  shows "\<exists>g'. gate_progress g g'"
proof -
  have "ga_lastReleased g = Some h" using gate_okD(2) [OF ok] k free by (simp add: parked_ok_def)
  then have "reconcile_at g h Reconciled" using gate_okD(4) [OF ok] by (simp add: hold_ok_def)
  then have "Release h \<in> set (ga_settled g)" using gate_okD(6) [OF ok] by (simp add: settled_ok_def)
  with k show ?thesis by (blast intro: go_unpark)
qed

lemma queue_progress:
  assumes ok: "gate_ok g" and parked: "calls_parked g" and free: "ga_hold g = None" and q: "ga_holdQueue g = n # rest"
  shows "\<exists>g'. gate_progress g g'"
proof (cases "ga_reconciles g ! n")
  case Starting
  with calls_parkedD(2) [OF parked head_queued(1) [OF gate_okD(3) [OF ok] q]] show ?thesis by simp
next
  case (AwaitTurn t)
  then have n: "reconcile_at g n (AwaitTurn t)" using head_queued(1) [OF gate_okD(3) [OF ok] q] by (simp add: reconcile_at_def)
  have "t < n" using await_at [OF ok n] by simp
  then have "t \<notin> set (ga_holdQueue g)" using head_queued(4) [OF gate_okD(3) [OF ok] q] q by auto
  then have "reconcile_at g t Reconciled"
    using reconciled_or_held [OF ok parked, of t] \<open>t < n\<close> free head_queued(1) [OF gate_okD(3) [OF ok] q] by auto
  then have "Turn t \<in> set (ga_settled g)" using gate_okD(6) [OF ok] by (simp add: settled_ok_def)
  with n show ?thesis by (blast intro: go_turn)
next
  case (AwaitRelease h)
  then have n: "reconcile_at g n (AwaitRelease h)" using head_queued(1) [OF gate_okD(3) [OF ok] q] by (simp add: reconcile_at_def)
  from await_at [OF ok n] free have "Release h \<in> set (ga_settled g)" using gate_okD(6) [OF ok] by (simp add: settled_ok_def)
  with n show ?thesis by (blast intro: go_release)
next
  case (AwaitResume h)
  then have n: "reconcile_at g n (AwaitResume h)" using head_queued(1) [OF gate_okD(3) [OF ok] q] by (simp add: reconcile_at_def)
  have last: "ga_lastReleased g = Some h" using await_at [OF ok n] by simp
  show ?thesis
  proof (cases "ga_waiters g h = 0")
    case True
    have "reconcile_at g h Reconciled" using gate_okD(4) [OF ok] last by (simp add: hold_ok_def)
    with True have "Resume h \<in> set (ga_settled g)" using gate_okD(6) [OF ok] by (simp add: settled_ok_def)
    with n show ?thesis by (blast intro: go_resume)
  next
    case False
    then obtain k where "commit_at g k (Parked h)"
      using gate_okD(1) [OF ok] commits_in_positive [of g "Parked h"] by (auto simp: counts_ok_def)
    from parked_progress [OF ok free this] show ?thesis .
  qed
qed (use head_queued(2) [OF gate_okD(3) [OF ok] q] in auto)

text \<open>C5. Whenever a commit or a reconcile has not finished, some call under way can take its next step.\<close>

theorem gate_never_deadlocks:
  assumes "reached gate_step createCommitGate g"
    and "\<not> (\<forall>pc \<in> set (ga_commits g). pc = Committed) \<or> \<not> (\<forall>pc \<in> set (ga_reconciles g). pc = Reconciled)"
  shows "\<exists>g'. gate_progress g g'"
proof -
  have ok: "gate_ok g" and parked: "calls_parked g"
    using gate_machine.reachable_inv [OF assms(1)] parked_machine.reachable_inv [OF assms(1)] by simp_all
  show ?thesis
  proof (cases "ga_hold g")
    case (Some n)
    with held_progress [OF ok] show ?thesis by blast
  next
    case None
    from assms(2) show ?thesis
    proof
      assume "\<not> (\<forall>pc \<in> set (ga_commits g). pc = Committed)"
      then obtain k where k: "k < length (ga_commits g)" "ga_commits g ! k \<noteq> Committed" by (auto simp: in_set_conv_nth)
      moreover have "ga_commits g ! k \<noteq> Entering" by (rule calls_parkedD(1) [OF parked k(1)])
      ultimately have "commit_at g k Committing \<or> (\<exists>h. commit_at g k (Parked h))"
        by (cases "ga_commits g ! k") (auto simp: commit_at_def)
      with parked_progress [OF ok None] show ?thesis by (blast intro: go_commit)
    next
      assume "\<not> (\<forall>pc \<in> set (ga_reconciles g). pc = Reconciled)"
      then obtain n where n: "n < length (ga_reconciles g)" "ga_reconciles g ! n \<noteq> Reconciled" by (auto simp: in_set_conv_nth)
      moreover have "\<not> holding (ga_reconciles g ! n)" by (rule no_holder [OF gate_okD(4) [OF ok] None n(1)])
      ultimately have "queued (ga_reconciles g ! n)" by (cases "ga_reconciles g ! n") auto
      with n(1) have "n \<in> set (ga_holdQueue g)" using gate_okD(3) [OF ok] by (simp add: queue_ok_def)
      then obtain m rest where "ga_holdQueue g = m # rest" by (cases "ga_holdQueue g") auto
      from queue_progress [OF ok parked None this] show ?thesis .
    qed
  qed
qed

theorem gate_never_deadlocks_witness: "\<exists>g'. gate_progress released_gate g'"
proof (rule gate_never_deadlocks [OF released_reached])
  have "Parked 0 \<in> set (ga_commits released_gate)" by code_simp
  then show "\<not> (\<forall>pc \<in> set (ga_commits released_gate). pc = Committed) \<or>
      \<not> (\<forall>pc \<in> set (ga_reconciles released_gate). pc = Reconciled)" by blast
qed

end
