(* ===== verification/Debounced_Persistence.thy ===== *)
theory Debounced_Persistence
  imports Prelude
begin

text \<open>
  Background persistence (\<open>store/debounced-persistence.ts\<close>): a store slice is written after a
  delay, writes never overlap, and \<open>flush\<close> waits until the latest snapshot is durable. The
  pieces between two awaits are functions; timers, \<open>persist\<close> and the store are the environment.
  \<open>persist\<close> returns a promise and \<open>onError\<close> does not throw.
\<close>

section \<open>State\<close>

text \<open>A write runs, then its \<open>then\<close> or \<open>catch\<close> has run and its \<open>finally\<close> has not.\<close>

datatype 'v flight = Writing 'v | Finishing

datatype 'v flush_pc = Looping | AwaitFlight nat | FlushReturned | FlushRejected 'v

text \<open>
  \<open>pe_flight\<close> numbers the writes. The last three fields are not variables of the code: the
  \<open>persist\<close> calls under way, the value of the last one that resolved, and the last snapshot
  the listener took.
\<close>

record 'v persister =
  pe_timer :: bool
  pe_pending :: "'v option"
  pe_inFlight :: "'v flight option"
  pe_flight :: nat
  pe_failed :: "'v option"
  pe_disposed :: bool
  pe_subscribed :: bool
  pe_flushes :: "'v flush_pc list"
  pe_running :: nat
  pe_durable :: "'v option"
  pe_accepted :: "'v option"

definition bindDebouncedPersistence :: "'v persister" where
  "bindDebouncedPersistence = \<lparr>pe_timer = False, pe_pending = None, pe_inFlight = None, pe_flight = 0,
     pe_failed = None, pe_disposed = False, pe_subscribed = True, pe_flushes = [], pe_running = 0,
     pe_durable = None, pe_accepted = None\<rparr>"

section \<open>Operations\<close>

definition drain_pending :: "'v persister \<Rightarrow> 'v persister" where
  "drain_pending p =
     (if pe_inFlight p \<noteq> None then p
      else (case pe_pending p of
          None \<Rightarrow> p
        | Some v \<Rightarrow> p\<lparr>pe_pending := None, pe_inFlight := Some (Writing v), pe_flight := pe_flight p + 1,
            pe_running := pe_running p + 1\<rparr>))"

definition on_change :: "'v \<Rightarrow> 'v persister \<Rightarrow> 'v persister" where
  "on_change v p = p\<lparr>pe_pending := Some v, pe_timer := True, pe_accepted := Some v\<rparr>"

definition on_timer :: "'v persister \<Rightarrow> 'v persister" where
  "on_timer p = drain_pending (p\<lparr>pe_timer := False\<rparr>)"

definition on_settled :: "bool \<Rightarrow> 'v \<Rightarrow> 'v persister \<Rightarrow> 'v persister" where
  "on_settled resolved v p = p\<lparr>pe_inFlight := Some Finishing, pe_running := pe_running p - 1,
     pe_failed := (if resolved then None else Some v),
     pe_durable := (if resolved then Some v else pe_durable p)\<rparr>"

definition on_finally :: "'v persister \<Rightarrow> 'v persister" where
  "on_finally p =
     (let p' = p\<lparr>pe_inFlight := None\<rparr>
      in if pe_pending p' \<noteq> None \<and> \<not> pe_disposed p' then drain_pending p' else p')"

definition set_flush :: "nat \<Rightarrow> 'v flush_pc \<Rightarrow> 'v persister \<Rightarrow> 'v persister" where
  "set_flush k pc p = p\<lparr>pe_flushes := (pe_flushes p)[k := pc]\<rparr>"

text \<open>The loop of \<open>flush\<close>, up to its next await or its end.\<close>

definition flush_loop :: "nat \<Rightarrow> 'v persister \<Rightarrow> 'v persister" where
  "flush_loop k p =
     (if pe_pending p \<noteq> None \<or> pe_inFlight p \<noteq> None
      then (let p' = drain_pending p in set_flush k (AwaitFlight (pe_flight p')) p')
      else set_flush k (case pe_failed p of None \<Rightarrow> FlushReturned | Some v \<Rightarrow> FlushRejected v) p)"

definition flush :: "'v persister \<Rightarrow> 'v persister" where
  "flush p =
     (let p' = p\<lparr>pe_timer := False, pe_flushes := pe_flushes p @ [Looping]\<rparr>
      in flush_loop (length (pe_flushes p))
           (if pe_pending p' = None \<and> pe_inFlight p' = None \<and> pe_failed p' \<noteq> None
            then p'\<lparr>pe_pending := pe_failed p'\<rparr> else p'))"

definition dispose :: "'v persister \<Rightarrow> 'v persister" where
  "dispose p = (if pe_disposed p then p else flush (p\<lparr>pe_disposed := True, pe_subscribed := False\<rparr>))"

section \<open>Steps\<close>

definition flush_at :: "'v persister \<Rightarrow> nat \<Rightarrow> 'v flush_pc \<Rightarrow> bool" where
  "flush_at p k pc \<longleftrightarrow> k < length (pe_flushes p) \<and> pe_flushes p ! k = pc"

text \<open>The promise of write \<open>n\<close> has settled once its \<open>finally\<close> has run.\<close>

definition flight_over :: "'v persister \<Rightarrow> nat \<Rightarrow> bool" where
  "flight_over p n \<longleftrightarrow> n < pe_flight p \<or> n = pe_flight p \<and> pe_inFlight p = None"

inductive persist_step :: "'v persister \<Rightarrow> 'v persister \<Rightarrow> bool" where
  step_change: "pe_subscribed p \<Longrightarrow> persist_step p (on_change v p)"
| step_timer: "pe_timer p \<Longrightarrow> persist_step p (on_timer p)"
| step_settled: "pe_inFlight p = Some (Writing v) \<Longrightarrow> persist_step p (on_settled resolved v p)"
| step_finally: "pe_inFlight p = Some Finishing \<Longrightarrow> persist_step p (on_finally p)"
| step_flush: "persist_step p (flush p)"
| step_dispose: "persist_step p (dispose p)"
| step_resume: "flush_at p k (AwaitFlight n) \<Longrightarrow> flight_over p n \<Longrightarrow> persist_step p (flush_loop k p)"

section \<open>The invariant\<close>

text \<open>Where the latest snapshot is: pending, being written, failed, or durable.\<close>

fun latest_of :: "'v option \<Rightarrow> 'v flight option \<Rightarrow> 'v option \<Rightarrow> 'v option \<Rightarrow> 'v option" where
  "latest_of (Some v) _ _ _ = Some v"
| "latest_of None (Some (Writing v)) _ _ = Some v"
| "latest_of None _ (Some v) _ = Some v"
| "latest_of None _ None durable = durable"

definition tracks_latest :: "'v persister \<Rightarrow> bool" where
  "tracks_latest p \<longleftrightarrow> pe_accepted p = latest_of (pe_pending p) (pe_inFlight p) (pe_failed p) (pe_durable p)"

definition one_write :: "'v persister \<Rightarrow> bool" where
  "one_write p \<longleftrightarrow> pe_running p = (case pe_inFlight p of Some (Writing _) \<Rightarrow> 1 | _ \<Rightarrow> 0)"

definition flushing :: "'v persister \<Rightarrow> bool" where
  "flushing p \<longleftrightarrow> (\<exists>k n. flush_at p k (AwaitFlight n))"

definition scheduled :: "'v persister \<Rightarrow> bool" where
  "scheduled p \<longleftrightarrow> (pe_pending p = None \<or> flushing p \<or> \<not> pe_disposed p \<and> (pe_timer p \<or> pe_inFlight p \<noteq> None)) \<and>
     (pe_disposed p \<longrightarrow> \<not> pe_subscribed p)"

definition persister_ok :: "'v persister \<Rightarrow> bool" where
  "persister_ok p \<longleftrightarrow> tracks_latest p \<and> one_write p \<and> scheduled p"

lemma persister_okD:
  assumes "persister_ok p"
  shows "tracks_latest p" "one_write p" "scheduled p"
  using assms by (simp_all add: persister_ok_def)

text \<open>\<open>tracks_latest\<close> and \<open>one_write\<close> do not read the flush calls or the timer.\<close>

lemma tracks_fields:
  "tracks_latest (p\<lparr>pe_timer := a\<rparr>) = tracks_latest p" "tracks_latest (p\<lparr>pe_flushes := b\<rparr>) = tracks_latest p"
  "one_write (p\<lparr>pe_timer := a\<rparr>) = one_write p" "one_write (p\<lparr>pe_flushes := b\<rparr>) = one_write p"
  "tracks_latest (p\<lparr>pe_disposed := c, pe_subscribed := d\<rparr>) = tracks_latest p"
  "one_write (p\<lparr>pe_disposed := c, pe_subscribed := d\<rparr>) = one_write p"
  by (simp_all add: tracks_latest_def one_write_def)

lemma drain_tracks: "tracks_latest (drain_pending p) = tracks_latest p"
  by (auto simp: drain_pending_def tracks_latest_def split: option.splits)

lemma drain_one: "one_write p \<Longrightarrow> one_write (drain_pending p)"
  by (auto simp: drain_pending_def one_write_def split: option.splits)

lemma drain_busy: "pe_pending p \<noteq> None \<or> pe_inFlight p \<noteq> None \<Longrightarrow> pe_inFlight (drain_pending p) \<noteq> None"
  by (auto simp: drain_pending_def)

lemma drain_fields [simp]:
  "pe_timer (drain_pending p) = pe_timer p" "pe_flushes (drain_pending p) = pe_flushes p"
  "pe_disposed (drain_pending p) = pe_disposed p" "pe_subscribed (drain_pending p) = pe_subscribed p"
  by (simp_all add: drain_pending_def split: option.split)

lemma drain_pending_kept: "pe_pending (drain_pending p) \<noteq> None \<Longrightarrow> pe_pending p \<noteq> None \<and> pe_inFlight p \<noteq> None"
  by (auto simp: drain_pending_def split: option.splits if_splits)

lemma flushing_drain [simp]: "flushing (drain_pending p) = flushing p"
  by (simp add: flushing_def flush_at_def)

lemma drain_ok: "persister_ok p \<Longrightarrow> persister_ok (drain_pending p)"
  using drain_pending_kept [of p] drain_busy [of p]
  by (auto simp: persister_ok_def drain_tracks drain_one scheduled_def)

lemma change_ok: "persister_ok p \<Longrightarrow> pe_subscribed p \<Longrightarrow> persister_ok (on_change v p)"
  by (auto simp: persister_ok_def on_change_def tracks_latest_def one_write_def scheduled_def)

lemma timer_ok:
  assumes "persister_ok p"
  shows "persister_ok (on_timer p)"
proof -
  let ?p = "drain_pending (p\<lparr>pe_timer := False\<rparr>)"
  have "tracks_latest ?p" "one_write ?p"
    using persister_okD(1,2) [OF assms] by (simp_all add: drain_tracks drain_one tracks_fields)
  moreover have "flushing (p\<lparr>pe_timer := False\<rparr>) = flushing p" by (simp add: flushing_def flush_at_def)
  then have "scheduled ?p"
    using persister_okD(3) [OF assms] drain_pending_kept [of "p\<lparr>pe_timer := False\<rparr>"] drain_busy [of "p\<lparr>pe_timer := False\<rparr>"]
    by (auto simp: scheduled_def)
  ultimately show ?thesis by (simp add: on_timer_def persister_ok_def)
qed

lemma latest_settled:
  "latest_of q (Some (Writing v)) f d = latest_of q (Some Finishing) None (Some v)"
  "latest_of q (Some (Writing v)) f d = latest_of q (Some Finishing) (Some v) d"
  by (cases q; simp)+

lemma settled_ok:
  assumes "persister_ok p" and "pe_inFlight p = Some (Writing v)"
  shows "persister_ok (on_settled resolved v p)"
proof -
  have "tracks_latest (on_settled resolved v p)"
    using persister_okD(1) [OF assms(1)] latest_settled [of "pe_pending p" v "pe_failed p" "pe_durable p"] assms(2)
    by (auto simp: tracks_latest_def on_settled_def)
  moreover have "one_write (on_settled resolved v p)"
    using persister_okD(2) [OF assms(1)] assms(2) by (simp add: one_write_def on_settled_def)
  moreover have "scheduled (on_settled resolved v p)"
    using persister_okD(3) [OF assms(1)] assms(2)
    by (auto simp: scheduled_def on_settled_def flushing_def flush_at_def)
  ultimately show ?thesis by (simp add: persister_ok_def)
qed

lemma finally_ok:
  assumes ok: "persister_ok p" and f: "pe_inFlight p = Some Finishing"
  shows "persister_ok (on_finally p)"
proof -
  let ?p = "p\<lparr>pe_inFlight := None\<rparr>"
  have t: "tracks_latest ?p" "one_write ?p"
    using persister_okD(1,2) [OF ok] f by (auto simp: tracks_latest_def one_write_def) (cases "pe_pending p"; cases "pe_failed p"; simp)
  have fl: "flushing ?p = flushing p" by (simp add: flushing_def flush_at_def)
  show ?thesis
  proof (cases "pe_pending p \<noteq> None \<and> \<not> pe_disposed p")
    case True
    then have "scheduled (drain_pending ?p)"
      using persister_okD(3) [OF ok] drain_busy [of ?p] by (auto simp: scheduled_def fl)
    with True t show ?thesis by (simp add: on_finally_def persister_ok_def drain_tracks drain_one)
  next
    case False
    then have "scheduled ?p" using persister_okD(3) [OF ok] by (auto simp: scheduled_def fl)
    with False t show ?thesis by (auto simp: on_finally_def persister_ok_def)
  qed
qed

lemma flushing_set: "k < length (pe_flushes p) \<Longrightarrow> flushing (set_flush k (AwaitFlight n) p)"
  unfolding flushing_def by (intro exI [of _ k] exI [of _ n]) (simp add: flush_at_def set_flush_def)

lemma flush_loop_ok:
  assumes t: "tracks_latest p" "one_write p" and d: "pe_disposed p \<longrightarrow> \<not> pe_subscribed p" and k: "k < length (pe_flushes p)"
  shows "persister_ok (flush_loop k p)"
proof (cases "pe_pending p \<noteq> None \<or> pe_inFlight p \<noteq> None")
  case True
  have "persister_ok (set_flush k (AwaitFlight n) (drain_pending p))" for n
    using t d flushing_set [of k "drain_pending p" n] k
    by (simp add: persister_ok_def scheduled_def drain_tracks drain_one set_flush_def tracks_fields)
  with True show ?thesis by (simp add: flush_loop_def Let_def)
next
  case False
  then have "persister_ok (set_flush k pc p)" for pc
    using t d by (simp add: persister_ok_def scheduled_def set_flush_def tracks_fields)
  with False show ?thesis by (simp add: flush_loop_def)
qed

lemma flush_ok:
  assumes t: "tracks_latest p" "one_write p" and d: "pe_disposed p \<longrightarrow> \<not> pe_subscribed p"
  shows "persister_ok (flush p)"
proof -
  let ?p = "p\<lparr>pe_timer := False, pe_flushes := pe_flushes p @ [Looping]\<rparr>"
  let ?q = "if pe_pending ?p = None \<and> pe_inFlight ?p = None \<and> pe_failed ?p \<noteq> None then ?p\<lparr>pe_pending := pe_failed ?p\<rparr> else ?p"
  have "tracks_latest ?q" using t(1) by (auto simp: tracks_latest_def)
  moreover have "one_write ?q" using t(2) by (simp add: one_write_def)
  ultimately have "persister_ok (flush_loop (length (pe_flushes p)) ?q)" by (rule flush_loop_ok) (use d in simp_all)
  then show ?thesis unfolding flush_def Let_def .
qed

lemma persist_step_ok: "persist_step p q \<Longrightarrow> persister_ok p \<Longrightarrow> persister_ok q"
proof (induction rule: persist_step.induct)
  case (step_dispose p)
  have "persister_ok (flush (p\<lparr>pe_disposed := True, pe_subscribed := False\<rparr>))"
    by (rule flush_ok) (use persister_okD [OF step_dispose] in \<open>simp_all add: tracks_fields\<close>)
  with step_dispose show ?case by (simp add: dispose_def)
next
  case (step_flush p)
  show ?case by (rule flush_ok) (use persister_okD [OF step_flush] in \<open>simp_all add: scheduled_def\<close>)
next
  case (step_resume p k n)
  show ?case
    by (rule flush_loop_ok) (use persister_okD [OF step_resume.prems] step_resume.hyps in \<open>simp_all add: scheduled_def flush_at_def\<close>)
qed (auto intro: change_ok timer_ok settled_ok finally_ok)

lemma bound_ok: "persister_ok bindDebouncedPersistence"
  by (simp add: bindDebouncedPersistence_def persister_ok_def tracks_latest_def one_write_def scheduled_def)

interpretation persist_machine: invariant_system persist_step bindDebouncedPersistence persister_ok
  by unfold_locales (auto intro: bound_ok persist_step_ok)

section \<open>What it promises\<close>

text \<open>C31. At most one write runs, and a snapshot that is still pending has a timer, a write or a flush that will take it.\<close>

theorem writes_never_overlap:
  assumes "reached persist_step bindDebouncedPersistence p"
  shows "pe_running p \<le> 1 \<and> (pe_pending p = None \<or> pe_timer p \<or> pe_inFlight p \<noteq> None \<or> flushing p)"
  using persister_okD(2,3) [OF persist_machine.reachable_inv [OF assms]]
  by (auto simp: one_write_def scheduled_def split: option.splits flight.splits)

text \<open>A change, its timer, and a second change during the write.\<close>

definition busy_persister :: "nat persister" where
  "busy_persister = on_change 2 (on_timer (on_change 1 bindDebouncedPersistence))"

lemma busy_reached: "reached persist_step bindDebouncedPersistence busy_persister"
proof -
  let ?a = "on_change 1 bindDebouncedPersistence :: nat persister"
  have 1: "persist_step bindDebouncedPersistence ?a"
    by (rule step_change) (simp add: bindDebouncedPersistence_def)
  have 2: "persist_step ?a (on_timer ?a)" by (rule step_timer) (simp add: on_change_def)
  have 3: "persist_step (on_timer ?a) busy_persister" unfolding busy_persister_def
    by (rule step_change) code_simp
  have "reached persist_step bindDebouncedPersistence ?a" using reached_refl 1 by (rule reached_step)
  from reached_step [OF reached_step [OF this 2] 3] show ?thesis .
qed

theorem writes_never_overlap_witness: "pe_running busy_persister \<le> 1 \<and> pe_pending busy_persister = Some 2"
proof -
  have "pe_pending busy_persister = Some 2" by code_simp
  with writes_never_overlap [OF busy_reached] show ?thesis by simp
qed

theorem flush_outcome:
  assumes "reached persist_step bindDebouncedPersistence p" and "k < length (pe_flushes p)"
  shows "case pe_flushes (flush_loop k p) ! k of
      FlushReturned \<Rightarrow> pe_durable (flush_loop k p) = pe_accepted p
    | FlushRejected v \<Rightarrow> pe_accepted p = Some v \<and> pe_failed p = Some v
    | _ \<Rightarrow> pe_inFlight (flush_loop k p) \<noteq> None"
proof (cases "pe_pending p \<noteq> None \<or> pe_inFlight p \<noteq> None")
  case True
  with drain_busy [OF True] assms(2) show ?thesis by (simp add: flush_loop_def Let_def set_flush_def)
next
  case False
  then have "pe_accepted p = (case pe_failed p of Some v \<Rightarrow> Some v | None \<Rightarrow> pe_durable p)"
    using persister_okD(1) [OF persist_machine.reachable_inv [OF assms(1)]] by (simp add: tracks_latest_def split: option.split)
  with False assms(2) show ?thesis by (simp add: flush_loop_def set_flush_def split: option.split)
qed

text \<open>The write of 1 fails, then a flush retries it, and it resolves.\<close>

definition retried_persister :: "nat persister" where
  "retried_persister = on_finally (on_settled True 1 (flush (on_finally (on_settled False 1
     (on_timer (on_change 1 bindDebouncedPersistence))))))"

lemma retried_reached: "reached persist_step bindDebouncedPersistence retried_persister"
proof -
  let ?a = "on_change 1 bindDebouncedPersistence :: nat persister"
  let ?b = "on_timer ?a" let ?c = "on_settled False 1 ?b" let ?d = "on_finally ?c"
  let ?e = "flush ?d" let ?f = "on_settled True 1 ?e"
  have 1: "persist_step bindDebouncedPersistence ?a" by (rule step_change) (simp add: bindDebouncedPersistence_def)
  have 2: "persist_step ?a ?b" by (rule step_timer) (simp add: on_change_def)
  have 3: "persist_step ?b ?c" by (rule step_settled) code_simp
  have 4: "persist_step ?c ?d" by (rule step_finally) code_simp
  have 5: "persist_step ?d ?e" by (rule step_flush)
  have 6: "persist_step ?e ?f" by (rule step_settled) code_simp
  have 7: "persist_step ?f retried_persister" unfolding retried_persister_def by (rule step_finally) code_simp
  have "reached persist_step bindDebouncedPersistence ?a" using reached_refl 1 by (rule reached_step)
  from reached_step [OF reached_step [OF reached_step [OF reached_step [OF reached_step [OF reached_step [OF this 2] 3] 4] 5] 6] 7]
  show ?thesis .
qed

theorem flush_outcome_witness:
  "pe_flushes (flush_loop 0 retried_persister) ! 0 = FlushReturned \<and> pe_durable (flush_loop 0 retried_persister) = Some 1"
proof -
  have "0 < length (pe_flushes retried_persister)" "pe_flushes (flush_loop 0 retried_persister) ! 0 = FlushReturned"
    "pe_accepted retried_persister = Some 1" by code_simp+
  with flush_outcome [OF retried_reached, of 0] show ?thesis by simp
qed

end
