(* ===== verification/Text_Ops.thy ===== *)
theory Text_Ops
  imports Strings
begin

text \<open>
  String operations the search, trash and task modules share: lower case, white-space
  collapsing, \<open>startsWith\<close>, \<open>includes\<close>, \<open>split\<close>, \<open>join\<close> and a fold over the leftmost
  matches of a global \<open>replace\<close>. Code units are below 256, where
  \<open>toLowerCase\<close> maps one unit to one unit and \<open>normalize("NFC")\<close> changes nothing.
\<close>

section \<open>Lower case\<close>

definition lower_char :: "char \<Rightarrow> char" where
  "lower_char c =
     (let u = of_char c :: nat
      in if (65 \<le> u \<and> u \<le> 90) \<or> (192 \<le> u \<and> u \<le> 222 \<and> u \<noteq> 215) then char_of (u + 32) else c)"

definition toLowerCase :: "string \<Rightarrow> string" where
  "toLowerCase s = map lower_char s"

lemma of_char_bound: "(of_char c :: nat) < 256"
  by (metis mod_less_divisor of_char_mod_256 zero_less_numeral)

lemma lower_unit:
  "(of_char (lower_char c) :: nat) =
     (let u = of_char c :: nat
      in if (65 \<le> u \<and> u \<le> 90) \<or> (192 \<le> u \<and> u \<le> 222 \<and> u \<noteq> 215) then u + 32 else u)"
proof -
  have "(of_char (char_of (u + 32 :: nat) :: char) :: nat) = u + 32" if "u \<le> 222" for u
    using that by (simp add: of_char_of)
  then show ?thesis by (auto simp: lower_char_def Let_def)
qed

lemma lower_char_idem [simp]: "lower_char (lower_char c) = lower_char c"
proof -
  have "(of_char (lower_char (lower_char c)) :: nat) = of_char (lower_char c)"
    by (simp add: lower_unit [of "lower_char c"]) (simp add: lower_unit [of c] Let_def)
  then show ?thesis by (simp only: of_char_eq_iff)
qed

lemma lower_idem [simp]: "toLowerCase (toLowerCase s) = toLowerCase s"
  by (simp add: toLowerCase_def)

lemma js_space_lower [simp]: "js_space (lower_char c) \<longleftrightarrow> js_space c"
  by (auto simp: js_space_def lower_unit Let_def)

section \<open>White space\<close>

text \<open>\<open>replace(/\s+/g, " ")\<close>.\<close>

function collapse :: "string \<Rightarrow> string" where
  "collapse [] = []"
| "collapse (c # s) =
     (if js_space c then CHR '' '' # collapse (dropWhile js_space s) else c # collapse s)"
  by pat_completeness auto

termination collapse
  by (relation "measure length") (auto simp: length_dropWhile_le le_imp_less_Suc)

text \<open>Trimming and collapsing give a name without outer or doubled white space, and doing it
  again changes nothing.\<close>

definition trimmed :: "string \<Rightarrow> bool" where
  "trimmed s \<longleftrightarrow> s = [] \<or> \<not> js_space (hd s) \<and> \<not> js_space (last s)"

lemma js_trim_trimmed [simp]: "trimmed (js_trim s)"
proof (cases "js_trim s = []")
  case False
  let ?r = "dropWhile js_space s"
  have r: "dropWhile js_space (rev ?r) \<noteq> []" using False by (simp add: js_trim_def)
  then have "\<not> js_space (last (js_trim s))"
    unfolding js_trim_def by (simp add: last_rev hd_dropWhile)
  moreover have "?r = js_trim s @ rev (takeWhile js_space (rev ?r))"
    unfolding js_trim_def by (metis rev_append rev_rev_ident takeWhile_dropWhile_id)
  then have "hd (js_trim s) = hd ?r" and "?r \<noteq> []" using False by (metis hd_append2, force)
  then have "\<not> js_space (hd (js_trim s))" by (simp add: hd_dropWhile)
  ultimately show ?thesis by (simp add: trimmed_def)
qed (simp add: trimmed_def)

lemma trimmed_trim: "trimmed s \<Longrightarrow> js_trim s = s"
proof (cases "s = []")
  case False
  assume t: "trimmed s"
  with False have "dropWhile js_space s = s" by (cases s) (auto simp: trimmed_def)
  moreover have "dropWhile js_space (rev s) = rev s"
    using t False by (cases s rule: rev_cases) (auto simp: trimmed_def)
  ultimately show ?thesis by (simp add: js_trim_def)
qed (simp add: js_trim_def)

lemma collapse_nil [simp]: "collapse s = [] \<longleftrightarrow> s = []"
  by (cases s) auto

lemma collapse_hd: "s \<noteq> [] \<Longrightarrow> js_space (hd (collapse s)) \<longleftrightarrow> js_space (hd s)"
  by (cases s) (auto simp: js_space_def)

lemma collapse_last: "s \<noteq> [] \<Longrightarrow> \<not> js_space (last s) \<Longrightarrow> last (collapse s) = last s"
proof (induction s rule: collapse.induct)
  case (2 c s)
  show ?case
  proof (cases "js_space c")
    case True
    then have ne: "s \<noteq> []" using "2.prems" by auto
    then have l: "\<not> js_space (last s)" using "2.prems" by simp
    have d: "dropWhile js_space s \<noteq> []" using ne l by (auto dest: last_in_set)
    moreover have "last (dropWhile js_space s) = last s"
      using d takeWhile_dropWhile_id [of js_space s] by (metis last_appendR)
    ultimately show ?thesis using 2 True l ne by (simp del: dropWhile_eq_Nil_conv)
  next
    case False
    with 2 show ?thesis by auto
  qed
qed simp

lemma collapse_trimmed: "trimmed s \<Longrightarrow> trimmed (collapse s)"
  by (cases "s = []") (auto simp: trimmed_def collapse_hd collapse_last)

lemma collapse_idem [simp]: "collapse (collapse s) = collapse s"
proof (induction s rule: collapse.induct)
  case (2 c s)
  show ?case
  proof (cases "js_space c")
    case True
    have "dropWhile js_space (collapse (dropWhile js_space s)) = collapse (dropWhile js_space s)"
    proof (cases "dropWhile js_space s")
      case (Cons d r)
      then have "\<not> js_space d" using hd_dropWhile [of js_space s] by auto
      with Cons show ?thesis by simp
    next
      case Nil
      then show ?thesis by (simp only: collapse.simps dropWhile.simps)
    qed
    then show ?thesis using True 2 by (simp add: js_space_def [of "CHR '' ''"])
  next
    case False
    with 2 show ?thesis by simp
  qed
qed simp

lemma clean_again [simp]: "collapse (js_trim (collapse (js_trim s))) = collapse (js_trim s)"
  by (simp add: trimmed_trim collapse_trimmed)

section \<open>Searching\<close>

definition startsWith :: "string \<Rightarrow> string \<Rightarrow> bool" where
  "startsWith s p \<longleftrightarrow> take (length p) s = p"

fun str_includes :: "string \<Rightarrow> string \<Rightarrow> bool" where
  "str_includes [] p \<longleftrightarrow> p = []"
| "str_includes (c # s) p \<longleftrightarrow> startsWith (c # s) p \<or> str_includes s p"

text \<open>\<open>s.indexOf(p)\<close>, \<open>None\<close> for \<open>-1\<close>.\<close>

fun indexOf :: "string \<Rightarrow> string \<Rightarrow> nat option" where
  "indexOf [] p = (if p = [] then Some 0 else None)"
| "indexOf (c # s) p = (if startsWith (c # s) p then Some 0 else map_option Suc (indexOf s p))"

lemma startsWith_append: "startsWith s p \<longleftrightarrow> (\<exists>r. s = p @ r)"
  by (auto simp: startsWith_def) (metis append_take_drop_id)

lemma includes_iff: "str_includes s p \<longleftrightarrow> (\<exists>a b. s = a @ p @ b)"
proof (induction s)
  case Nil
  then show ?case by auto
next
  case (Cons c s)
  show ?case
  proof
    assume "str_includes (c # s) p"
    then show "\<exists>a b. c # s = a @ p @ b"
    proof (unfold str_includes.simps, elim disjE)
      assume "startsWith (c # s) p"
      then obtain r where "c # s = [] @ p @ r" by (auto simp: startsWith_append)
      then show ?thesis by blast
    next
      assume "str_includes s p"
      with Cons obtain a b where "s = a @ p @ b" by blast
      then have "c # s = (c # a) @ p @ b" by simp
      then show ?thesis by blast
    qed
  next
    assume "\<exists>a b. c # s = a @ p @ b"
    then obtain a b where ab: "c # s = a @ p @ b" by blast
    show "str_includes (c # s) p"
    proof (cases a)
      case Nil
      with ab have "startsWith (c # s) p" by (auto simp: startsWith_append)
      then show ?thesis by simp
    next
      case (Cons d a')
      with ab have "s = a' @ p @ b" by simp
      with Cons.IH show ?thesis by auto
    qed
  qed
qed

lemma indexOf_Some: "indexOf s p = Some i \<Longrightarrow> i + length p \<le> length s \<and> s = take i s @ p @ drop (i + length p) s"
proof (induction s arbitrary: i)
  case Nil
  then show ?case by (auto split: if_splits)
next
  case (Cons c s)
  show ?case
  proof (cases "startsWith (c # s) p")
    case True
    with Cons.prems have "i = 0" by simp
    from True obtain r where "c # s = p @ r" by (auto simp: startsWith_append)
    with \<open>i = 0\<close> show ?thesis using length_append [of p r] by simp
  next
    case False
    with Cons.prems obtain j where "indexOf s p = Some j" "i = Suc j" by auto
    with Cons.IH [of j] show ?thesis by simp
  qed
qed

lemma indexOf_None: "indexOf s p = None \<longleftrightarrow> \<not> str_includes s p"
  by (induction s) auto

lemma indexOf_first: "indexOf s p = Some i \<Longrightarrow> j < i \<Longrightarrow> \<not> startsWith (drop j s) p"
proof (induction s arbitrary: i j)
  case Nil
  then show ?case by (auto split: if_splits)
next
  case (Cons c s)
  then show ?case by (cases j) (auto split: if_splits)
qed

section \<open>Splitting and joining\<close>

text \<open>\<open>s.split(c)\<close> for a one-character separator, and \<open>xs.join(sep)\<close>.\<close>

fun split_on :: "char \<Rightarrow> string \<Rightarrow> string list" where
  "split_on d [] = [[]]"
| "split_on d (c # s) =
     (if c = d then [] # split_on d s
      else case split_on d s of [] \<Rightarrow> [[c]] | w # ws \<Rightarrow> (c # w) # ws)"

fun join :: "string \<Rightarrow> string list \<Rightarrow> string" where
  "join sep [] = []"
| "join sep [x] = x"
| "join sep (x # y # ys) = x @ sep @ join sep (y # ys)"

text \<open>\<open>trimEnd\<close>.\<close>

definition trimEnd :: "string \<Rightarrow> string" where
  "trimEnd s = rev (dropWhile js_space (rev s))"

lemma split_on_nonempty [simp]: "split_on d s \<noteq> []"
  by (induction s) (auto split: list.splits)

lemma split_on_parts: "w \<in> set (split_on d s) \<Longrightarrow> d \<notin> set w"
  by (induction s arbitrary: w) (auto split: if_splits list.splits)

lemma split_on_step: "d \<notin> set a \<Longrightarrow> split_on d (a @ d # b) = a # split_on d b"
  by (induction a) auto

lemma split_on_plain: "d \<notin> set a \<Longrightarrow> split_on d a = [a]"
  by (induction a) auto

lemma join_set: "set (join sep xs) \<subseteq> (\<Union>x \<in> set xs. set x) \<union> set sep"
  by (induction sep xs rule: join.induct) auto

lemma join_split: "join [d] (split_on d s) = s"
proof (induction s)
  case (Cons c s)
  then show ?case by (cases "split_on d s"; cases "tl (split_on d s)") auto
qed simp

lemma trimEnd_prefix: "\<exists>t. s = trimEnd s @ t"
  unfolding trimEnd_def
  by (metis rev_append rev_rev_ident takeWhile_dropWhile_id)

lemma trimEnd_length: "length (trimEnd s) \<le> length s"
  unfolding trimEnd_def by (metis length_dropWhile_le length_rev)

lemma trim_set: "set (js_trim s) \<subseteq> set s"
  unfolding js_trim_def set_rev by (metis (no_types, lifting) set_dropWhileD set_rev subsetI)

section \<open>A collation\<close>

text \<open>The order by code units, the concrete \<open>localeCompare\<close> of the examples.\<close>

definition unit_order :: "string \<Rightarrow> string \<Rightarrow> number" where
  "unit_order a b = (if a < b then -1 else if a = b then 0 else 1)"

end
