(* ===== verification/Trash.thy ===== *)
theory Trash
  imports Operation_Invariants Text_Ops
begin

text \<open>
  \<open>store/trash.ts\<close>: the projection of the node map the trash view shows. The recursion of
  \<open>visit\<close> is run on an explicit work list (a call pushes the children before the
  rest), \<open>localeCompare\<close> is the parameter \<open>lc\<close>, and the ellipsis character, whose code
  unit lies beyond the modelled range, is the parameter \<open>ellipsis\<close>.
\<close>

section \<open>Rows\<close>

record trash_root =
  tr_id :: string
  tr_kind :: node_kind
  tr_title :: string
  tr_deletedAt :: number
  tr_descendantCount :: nat
  tr_noteCount :: nat
  tr_folderCount :: nat

record trash_row =
  tw_id :: string
  tw_kind :: node_kind
  tw_title :: string
  tw_deletedAt :: number
  tw_location :: "string option"
  tw_summary :: string
  tw_snippet :: string

section \<open>Snippets\<close>

definition SNIPPET_LENGTH :: nat where "SNIPPET_LENGTH = 180"

text \<open>\<open>/^\s*(```|~~~)/\<close>.\<close>

definition is_fence :: "string \<Rightarrow> bool" where
  "is_fence line =
     (let s = dropWhile js_space line in startsWith s ''```'' \<or> startsWith s ''~~~'')"

text \<open>
  The alternatives of \<open>LEADING_MARKERS\<close> at the first character that is no space: the rest of the
  line after the match. \<open>spaced\<close> is \<open>\s+\<close>. No shorter match of a repetition lets a later
  part match, because each is followed by a character outside its own class.
\<close>

definition spaced :: "string \<Rightarrow> string option" where
  "spaced s = (case s of [] \<Rightarrow> None | c # r \<Rightarrow> if js_space c then Some (dropWhile js_space r) else None)"

definition heading_marker :: "string \<Rightarrow> string option" where
  "heading_marker s =
     (let n = length (takeWhile (\<lambda>c. c = CHR ''#'') s)
      in if 1 \<le> n \<and> n \<le> 6 then spaced (drop n s) else None)"

definition quote_marker :: "string \<Rightarrow> string option" where
  "quote_marker s =
     (case s of [] \<Rightarrow> None
      | c # r \<Rightarrow> if c = CHR ''>'' then Some (case r of [] \<Rightarrow> [] | d # q \<Rightarrow> if js_space d then q else r) else None)"

definition checkbox :: "string \<Rightarrow> string option" where
  "checkbox s =
     (if length s \<ge> 3 \<and> s ! 0 = CHR ''['' \<and> s ! 1 \<in> {CHR '' '', CHR ''x'', CHR ''X''} \<and> s ! 2 = CHR '']''
      then spaced (drop 3 s) else None)"

definition bullet_marker :: "string \<Rightarrow> string option" where
  "bullet_marker s =
     (case s of [] \<Rightarrow> None
      | c # r \<Rightarrow>
          if c \<in> {CHR ''-'', CHR ''*'', CHR ''+''}
          then (case spaced r of None \<Rightarrow> None | Some q \<Rightarrow> Some (case checkbox q of None \<Rightarrow> q | Some t \<Rightarrow> t))
          else None)"

definition number_marker :: "string \<Rightarrow> string option" where
  "number_marker s =
     (let r = dropWhile is_digit s
      in if r = s then None
         else case r of [] \<Rightarrow> None
            | c # q \<Rightarrow> if c \<in> {CHR ''.'', CHR '')''} then spaced q else None)"

definition or_match :: "'a option \<Rightarrow> 'a option \<Rightarrow> 'a option" where
  "or_match a b = (case a of None \<Rightarrow> b | Some x \<Rightarrow> Some x)"

definition strip_markers :: "string \<Rightarrow> string" where
  "strip_markers line =
     (let s = dropWhile js_space line
      in case or_match (heading_marker s) (or_match (quote_marker s)
               (or_match (bullet_marker s) (number_marker s))) of
           None \<Rightarrow> line
         | Some r \<Rightarrow> r)"

text \<open>\<open>[^\]]*\] \<close> and \<open>\([^)]*\)\<close>: the text up to the first closing character, and
  the rest after it.\<close>

definition upto :: "char \<Rightarrow> string \<Rightarrow> (string \<times> string) option" where
  "upto d s = (case dropWhile (\<lambda>c. c \<noteq> d) s of [] \<Rightarrow> None | _ # r \<Rightarrow> Some (takeWhile (\<lambda>c. c \<noteq> d) s, r))"

text \<open>\<open>\[([^\]]*)\]\([^)]*\)\<close> after its opening bracket: the label and the rest.\<close>

definition link_tail :: "string \<Rightarrow> (string \<times> string) option" where
  "link_tail s =
     (case upto (CHR '']'') s of
        Some (label, CHR ''('' # r) \<Rightarrow> map_option (\<lambda>(_, q). (label, q)) (upto (CHR '')'') r)
      | _ \<Rightarrow> None)"

definition image_match :: "string \<Rightarrow> (string \<times> string) option" where
  "image_match s =
     (case s of CHR ''!'' # CHR ''['' # r \<Rightarrow> map_option (\<lambda>(_, q). ([], q)) (link_tail r) | _ \<Rightarrow> None)"

definition link_match :: "string \<Rightarrow> (string \<times> string) option" where
  "link_match s = (case s of CHR ''['' # r \<Rightarrow> link_tail r | _ \<Rightarrow> None)"

text \<open>\<open>/\[\[([^\]|]*)(?:\|([^\]]*))?\]\]/\<close>, replaced by \<open>label ?? target\<close>.\<close>

definition wikilink_match :: "string \<Rightarrow> (string \<times> string) option" where
  "wikilink_match s =
     (case s of
        CHR ''['' # CHR ''['' # r \<Rightarrow>
          (let target = takeWhile (\<lambda>c. c \<notin> {CHR '']'', CHR ''|''}) r
           in case dropWhile (\<lambda>c. c \<notin> {CHR '']'', CHR ''|''}) r of
                CHR '']'' # CHR '']'' # q \<Rightarrow> Some (target, q)
              | CHR ''|'' # q \<Rightarrow>
                  (case upto (CHR '']'') q of
                     Some (label, CHR '']'' # t) \<Rightarrow> Some (label, t)
                   | _ \<Rightarrow> None)
              | _ \<Rightarrow> None)
      | _ \<Rightarrow> None)"

text \<open>A global \<open>replace\<close>: at each place the match, if there is one, is replaced, and the scan goes
  on after it. One unit of fuel per character is enough, for every match is nonempty.\<close>

fun replace_all :: "(string \<Rightarrow> (string \<times> string) option) \<Rightarrow> nat \<Rightarrow> string \<Rightarrow> string" where
  "replace_all m fuel [] = []"
| "replace_all m 0 s = s"
| "replace_all m (Suc fuel) (c # s) =
     (case m (c # s) of
        Some (by_text, r) \<Rightarrow> by_text @ replace_all m fuel r
      | None \<Rightarrow> c # replace_all m fuel s)"

definition replaceAll :: "(string \<Rightarrow> (string \<times> string) option) \<Rightarrow> string \<Rightarrow> string" where
  "replaceAll m s = replace_all m (length s) s"

definition plain_line :: "string \<Rightarrow> string" where
  "plain_line line =
     js_trim (filter (\<lambda>c. c \<notin> {CHR ''*'', CHR ''_'', CHR ''`'', CHR ''~''})
       (replaceAll wikilink_match (replaceAll link_match (replaceAll image_match (strip_markers line)))))"

fun snippet_loop :: "string list \<Rightarrow> bool \<Rightarrow> string list \<Rightarrow> string list" where
  "snippet_loop [] inFence parts = parts"
| "snippet_loop (line # rest) inFence parts =
     (if is_fence line then snippet_loop rest (\<not> inFence) parts
      else if inFence then snippet_loop rest inFence parts
      else let text = plain_line line
           in if text = [] then snippet_loop rest inFence parts
              else if SNIPPET_LENGTH \<le> length (join '' '' (parts @ [text])) then parts @ [text]
              else snippet_loop rest inFence (parts @ [text]))"

definition trashSnippet :: "string \<Rightarrow> string \<Rightarrow> string" where
  "trashSnippet ellipsis markdown =
     (let joined = join '' '' (snippet_loop (split_on (CHR 0x0A) markdown) False [])
      in if length joined > SNIPPET_LENGTH then trimEnd (take SNIPPET_LENGTH joined) @ ellipsis else joined)"

section \<open>Subtrees\<close>

text \<open>\<open>isNodeInSubtree\<close>: the climb stops at a missing id, at the root looked for, or where it has
  been before.\<close>

function climb :: "node_map \<Rightarrow> string \<Rightarrow> string option \<Rightarrow> string list \<Rightarrow> bool" where
  "climb nodes rootId None visited = False"
| "climb nodes rootId (Some currentId) visited =
     (if currentId \<in> set visited then False
      else if currentId = rootId then True
      else climb nodes rootId (parent_of nodes currentId) (currentId # visited))"
  by pat_completeness auto

termination climb
proof (relation "measure (\<lambda>(nodes, rootId, currentId, visited).
    case currentId of None \<Rightarrow> 0 | Some i \<Rightarrow>
      Suc (card (set (omap_keys nodes) - set visited) + (if i \<in> set (omap_keys nodes) then 1 else 0)))")
  fix nodes :: node_map and rootId i :: string and visited :: "string list"
  let ?K = "set (omap_keys nodes)"
  assume new: "i \<notin> set visited"
  show "((nodes, rootId, parent_of nodes i, i # visited), nodes, rootId, Some i, visited)
    \<in> measure (\<lambda>(nodes, rootId, currentId, visited).
    case currentId of None \<Rightarrow> 0 | Some i \<Rightarrow>
      Suc (card (set (omap_keys nodes) - set visited) + (if i \<in> set (omap_keys nodes) then 1 else 0)))"
  proof (cases "parent_of nodes i")
    case None
    then show ?thesis by simp
  next
    case (Some p)
    then have i: "i \<in> ?K" by (force simp: parent_of_def split: option.splits dest: omap_get_in)
    then have "card (?K - insert i (set visited)) < card (?K - set visited)"
      using new by (intro psubset_card_mono) auto
    with Some i show ?thesis by auto
  qed
qed simp

definition isNodeInSubtree :: "node_map \<Rightarrow> string \<Rightarrow> string \<Rightarrow> bool" where
  "isNodeInSubtree nodes nodeId rootId = climb nodes rootId (Some nodeId) []"

definition childrenByParent :: "node_map \<Rightarrow> (string, workspace_node list) omap" where
  "childrenByParent nodes =
     group_by (\<lambda>n. n_parentId n \<noteq> None) (\<lambda>n. the (n_parentId n)) (\<lambda>n. n) (omap_values nodes)"

definition compareNodes :: "workspace_node \<Rightarrow> workspace_node \<Rightarrow> number" where
  "compareNodes l r =
     (if n_rank l \<noteq> n_rank r then n_rank l - n_rank r else if n_id l < n_id r then -1 else 1)"

text \<open>The preorder walk; a parent cycle below the root would keep it going for ever, \<open>None\<close>.\<close>

definition trashedSubtreeNodes :: "node_map \<Rightarrow> string \<Rightarrow> workspace_node list option" where
  "trashedSubtreeNodes nodes rootId =
     (let children = map (\<lambda>(k, siblings). (k, js_sort compareNodes siblings)) (childrenByParent nodes)
      in case omap_get nodes rootId of
           None \<Rightarrow> Some []
         | Some n0 \<Rightarrow> walk (length nodes) (\<lambda>n. omap_getd [] children (n_id n)) [n0] [])"

section \<open>Trashed roots\<close>

type_synonym root_map = "(string, trash_root) omap"

definition kind_count :: "node_kind \<Rightarrow> workspace_node \<Rightarrow> nat" where
  "kind_count kind n = (if n_kind n = kind then 1 else 0)"

definition count_node :: "string \<Rightarrow> workspace_node \<Rightarrow> root_map \<Rightarrow> root_map" where
  "count_node rootId n roots =
     (case omap_get roots rootId of
        Some existing \<Rightarrow>
          omap_set rootId (existing\<lparr>tr_descendantCount := tr_descendantCount existing + 1,
            tr_noteCount := tr_noteCount existing + kind_count KNote n,
            tr_folderCount := tr_folderCount existing + kind_count KFolder n\<rparr>) roots
      | None \<Rightarrow>
          omap_set rootId \<lparr>tr_id = n_id n, tr_kind = n_kind n, tr_title = n_title n,
            tr_deletedAt = (case n_deletedAt n of None \<Rightarrow> 0 | Some d \<Rightarrow> d),
            tr_descendantCount = 0, tr_noteCount = kind_count KNote n,
            tr_folderCount = kind_count KFolder n\<rparr> roots)"

definition root_for :: "workspace_node \<Rightarrow> string option \<Rightarrow> string option" where
  "root_for n inherited =
     (case inherited of Some r \<Rightarrow> Some r | None \<Rightarrow> if n_deletedAt n = None then None else Some (n_id n))"

definition count_for :: "string option \<Rightarrow> workspace_node \<Rightarrow> root_map \<Rightarrow> root_map" where
  "count_for rootId n roots = (case rootId of None \<Rightarrow> roots | Some r \<Rightarrow> count_node r n roots)"

text \<open>The calls of \<open>visit\<close> still to make, with the visited set and the rows so far.\<close>

function visit_all :: "(string, workspace_node list) omap \<Rightarrow> (workspace_node \<times> string option) list \<Rightarrow>
    string list \<Rightarrow> root_map \<Rightarrow> string list \<times> root_map" where
  "visit_all children [] visited roots = (visited, roots)"
| "visit_all children ((n, inherited) # calls) visited roots =
     (if n_id n \<in> set visited then visit_all children calls visited roots
      else let rootId = root_for n inherited
           in visit_all children (map (\<lambda>c. (c, rootId)) (omap_getd [] children (n_id n)) @ calls)
                (n_id n # visited) (count_for rootId n roots))"
  by pat_completeness auto

definition visit_universe :: "(string, workspace_node list) omap \<Rightarrow> (workspace_node \<times> string option) list \<Rightarrow> string set" where
  "visit_universe children calls = n_id ` (fst ` set calls \<union> set (concat (map snd children)))"

lemma children_universe: "set (omap_getd [] children k) \<subseteq> set (concat (map snd children))"
  using omap_getd_sub [of children k] by simp

termination visit_all
proof (relation "measures [\<lambda>(children, calls, visited, roots). card (visit_universe children calls - set visited),
    \<lambda>(children, calls, visited, roots). length calls]", simp, goal_cases)
  case (1 children n inherited calls visited roots)
  have "card (visit_universe children calls - set visited)
      \<le> card (visit_universe children ((n, inherited) # calls) - set visited)"
    by (intro card_mono) (auto simp: visit_universe_def)
  then show ?case by auto
next
  case (2 children n inherited calls visited roots rootId)
  let ?next = "map (\<lambda>c. (c, rootId)) (omap_getd [] children (n_id n)) @ calls"
  have "card (visit_universe children ?next - set (n_id n # visited))
      < card (visit_universe children ((n, inherited) # calls) - set visited)"
    using 2 children_universe [of children "n_id n"]
    by (intro psubset_card_mono) (auto simp: visit_universe_def image_iff)
  then show ?case by simp
qed

declare visit_all.simps [simp del]

definition is_tree_root :: "node_map \<Rightarrow> workspace_node \<Rightarrow> bool" where
  "is_tree_root nodes n \<longleftrightarrow>
     (case n_parentId n of None \<Rightarrow> True | Some p \<Rightarrow> \<not> omap_has nodes p)"

definition trash_cmp :: "(string \<Rightarrow> string \<Rightarrow> number) \<Rightarrow> trash_root \<Rightarrow> trash_root \<Rightarrow> number" where
  "trash_cmp lc l r =
     (if tr_deletedAt l \<noteq> tr_deletedAt r then tr_deletedAt r - tr_deletedAt l else lc (tr_title l) (tr_title r))"

definition root_rows :: "node_map \<Rightarrow> root_map" where
  "root_rows nodes =
     (let children = childrenByParent nodes;
          ns = omap_values nodes;
          (visited, roots) = visit_all children (map (\<lambda>n. (n, None)) (filter (is_tree_root nodes) ns)) [] []
      in snd (visit_all children (map (\<lambda>n. (n, None)) ns) visited roots))"

definition trashedRoots :: "(string \<Rightarrow> string \<Rightarrow> number) \<Rightarrow> node_map \<Rightarrow> trash_root list" where
  "trashedRoots lc nodes = js_sort (trash_cmp lc) (omap_values (root_rows nodes))"

section \<open>The rows of the view\<close>

definition counted_noun :: "nat \<Rightarrow> string \<Rightarrow> string" where
  "counted_noun n noun = nat_digits n @ '' '' @ noun @ (if n = 1 then [] else ''s'')"

definition rootSummary :: "trash_root \<Rightarrow> string" where
  "rootSummary r =
     (if tr_kind r = KNote then ''Note''
      else counted_noun (tr_folderCount r) ''folder'' @ '', '' @ counted_noun (tr_noteCount r) ''note'')"

definition row_for :: "string \<Rightarrow> node_map \<Rightarrow> (string, string) omap \<Rightarrow> trash_root \<Rightarrow> trash_row" where
  "row_for ellipsis nodes documents r =
     (let summary = rootSummary r
      in \<lparr>tw_id = tr_id r, tw_kind = tr_kind r, tw_title = tr_title r, tw_deletedAt = tr_deletedAt r,
          tw_location = (case parent_of nodes (tr_id r) of
              None \<Rightarrow> None
            | Some p \<Rightarrow> map_option n_title (omap_get nodes p)),
          tw_summary = summary,
          tw_snippet = (if tr_kind r = KNote
            then trashSnippet ellipsis (case omap_get documents (tr_id r) of None \<Rightarrow> [] | Some md \<Rightarrow> md)
            else summary)\<rparr>)"

definition trashRows :: "(string \<Rightarrow> string \<Rightarrow> number) \<Rightarrow> string \<Rightarrow> node_map \<Rightarrow> (string, string) omap \<Rightarrow> trash_row list" where
  "trashRows lc ellipsis nodes documents = map (row_for ellipsis nodes documents) (trashedRoots lc nodes)"

definition row_matches :: "string \<Rightarrow> trash_row \<Rightarrow> bool" where
  "row_matches needle row \<longleftrightarrow>
     list_ex (\<lambda>field. str_includes (toLowerCase field) needle)
       [tw_title row, case tw_location row of None \<Rightarrow> [] | Some l \<Rightarrow> l, tw_snippet row]"

definition filterTrashRows :: "trash_row list \<Rightarrow> string \<Rightarrow> trash_row list" where
  "filterTrashRows rows query =
     (let needle = toLowerCase (js_trim query)
      in if needle = [] then rows else filter (row_matches needle) rows)"

datatype trash_sort_key = Newest | Oldest | AtoZ | ZtoA

fun trashComparators :: "(string \<Rightarrow> string \<Rightarrow> number) \<Rightarrow> trash_sort_key \<Rightarrow> trash_row \<Rightarrow> trash_row \<Rightarrow> number" where
  "trashComparators lc Newest l r =
     (if tw_deletedAt r - tw_deletedAt l \<noteq> 0 then tw_deletedAt r - tw_deletedAt l else lc (tw_title l) (tw_title r))"
| "trashComparators lc Oldest l r =
     (if tw_deletedAt l - tw_deletedAt r \<noteq> 0 then tw_deletedAt l - tw_deletedAt r else lc (tw_title l) (tw_title r))"
| "trashComparators lc AtoZ l r =
     (if lc (tw_title l) (tw_title r) \<noteq> 0 then lc (tw_title l) (tw_title r) else tw_deletedAt l - tw_deletedAt r)"
| "trashComparators lc ZtoA l r =
     (if lc (tw_title r) (tw_title l) \<noteq> 0 then lc (tw_title r) (tw_title l) else tw_deletedAt l - tw_deletedAt r)"

definition sortTrashRows :: "(string \<Rightarrow> string \<Rightarrow> number) \<Rightarrow> trash_row list \<Rightarrow> trash_sort_key \<Rightarrow> trash_row list" where
  "sortTrashRows lc rows key = js_sort (trashComparators lc key) rows"

record trash_window =
  tv_start :: number
  tv_end :: number

text \<open>For a positive row height; a division by zero would give \<open>NaN\<close> or an infinity.\<close>

definition trashWindowRange :: "number \<Rightarrow> number \<Rightarrow> number \<Rightarrow> number \<Rightarrow> number \<Rightarrow> trash_window" where
  "trashWindowRange itemCount scrollTop viewportHeight rowHeight overscan =
     \<lparr>tv_start = max 0 (of_int \<lfloor>scrollTop / rowHeight\<rfloor> - overscan),
      tv_end = min itemCount (of_int \<lceil>(scrollTop + viewportHeight) / rowHeight\<rceil> + overscan)\<rparr>"

end
