(* ===== verification/Trash_Theorems.thy ===== *)
theory Trash_Theorems
  imports Trash Operation_Theorems
begin

text \<open>
  What the trash view promises. The specification of a row is the subtree under a topmost
  trashed node: \<open>topmost\<close> has a trash marker of its own and no hidden parent. The run of
  \<open>visit\<close> keeps \<open>visit_inv\<close>: the rows count exactly the visited nodes.
\<close>

section \<open>Climbing to a root\<close>

lemma climb_sound: "climb m r i visited \<Longrightarrow> omap_wf m \<Longrightarrow> \<exists>k. i = Some k \<and> descends m r k"
proof (induction m r i visited rule: climb.induct)
  case (2 m r i visited)
  show ?case
  proof (cases "i = r")
    case True
    then show ?thesis by simp
  next
    case False
    with 2 obtain p where "parent_of m i = Some p" "descends m r p" by (auto split: if_splits)
    then have "descends m r i" using 2 by (auto intro: descends_child simp: parent_of_edge)
    then show ?thesis by simp
  qed
qed simp

lemma climb_complete:
  assumes wf: "omap_wf m"
  shows "(i, r) \<in> parent_edges m ^^ n \<Longrightarrow> (\<forall>j < n. (i, r) \<notin> parent_edges m ^^ j) \<Longrightarrow>
    (\<forall>v \<in> set visited. \<forall>j \<le> n. (v, r) \<notin> parent_edges m ^^ j) \<Longrightarrow> climb m r (Some i) visited"
proof (induction n arbitrary: i visited)
  case 0
  then show ?case by auto
next
  case (Suc n)
  have "i \<notin> set visited" using Suc.prems by blast
  moreover have "i \<noteq> r" using Suc.prems(2) by force
  moreover from Suc.prems(1) obtain p where p: "(i, p) \<in> parent_edges m" "(p, r) \<in> parent_edges m ^^ n"
    by (meson relpow_Suc_E2)
  have "climb m r (Some p) (i # visited)"
  proof (rule Suc.IH [OF p(2)])
    show "\<forall>j < n. (p, r) \<notin> parent_edges m ^^ j"
    proof (intro allI impI notI)
      fix j assume "j < n" and "(p, r) \<in> parent_edges m ^^ j"
      then have "(i, r) \<in> parent_edges m ^^ Suc j" using p(1) by (meson relpow_Suc_I2)
      with Suc.prems(2) \<open>j < n\<close> show False by blast
    qed
    show "\<forall>v \<in> set (i # visited). \<forall>j \<le> n. (v, r) \<notin> parent_edges m ^^ j"
      using Suc.prems(2,3) by auto
  qed
  ultimately show ?case using p(1) by (simp add: parent_of_edge [OF wf])
qed

text \<open>The climb decides the subtree relation, whether or not the parent links form a forest.\<close>

lemma in_subtree_iff:
  assumes wf: "omap_wf m"
  shows "isNodeInSubtree m k r \<longleftrightarrow> descends m r k"
proof
  assume "isNodeInSubtree m k r"
  then show "descends m r k" using climb_sound [of m r "Some k" "[]"] wf by (simp add: isNodeInSubtree_def)
next
  assume "descends m r k"
  then obtain n where "(k, r) \<in> parent_edges m ^^ n" by (auto simp: descends_def rtrancl_power)
  then have "(k, r) \<in> parent_edges m ^^ (LEAST n. (k, r) \<in> parent_edges m ^^ n)" by (rule LeastI)
  then show "isNodeInSubtree m k r"
    unfolding isNodeInSubtree_def by (rule climb_complete [OF wf]) (auto dest: not_less_Least)
qed

section \<open>Topmost trashed nodes\<close>

definition topmost :: "node_map \<Rightarrow> string \<Rightarrow> bool" where
  "topmost m r \<longleftrightarrow>
     (\<exists>n. omap_get m r = Some n \<and> n_deletedAt n \<noteq> None) \<and>
     (\<forall>p. parent_of m r = Some p \<longrightarrow> \<not> hidden (omap_values m) p)"

definition assigned :: "node_map \<Rightarrow> string \<Rightarrow> string option \<Rightarrow> bool" where
  "assigned m k rid \<longleftrightarrow>
     (case rid of Some r \<Rightarrow> topmost m r \<and> descends m r k | None \<Rightarrow> \<not> hidden (omap_values m) k)"

definition inherits :: "node_map \<Rightarrow> workspace_node \<Rightarrow> string option \<Rightarrow> bool" where
  "inherits m n rid \<longleftrightarrow>
     (case rid of
        Some r \<Rightarrow> topmost m r \<and> (\<exists>p. n_parentId n = Some p \<and> descends m r p)
      | None \<Rightarrow> \<forall>p. n_parentId n = Some p \<longrightarrow> \<not> hidden (omap_values m) p)"

lemma node_in_map: "node_map_ok m \<Longrightarrow> omap_get m k = Some n \<Longrightarrow> n \<in> set (omap_values m) \<and> n_id n = k"
  by (metis node_map_ok_id node_map_ok_value)

lemma value_get: "node_map_ok m \<Longrightarrow> n \<in> set (omap_values m) \<Longrightarrow> omap_get m (n_id n) = Some n"
  by (simp only: node_map_ok_value)

lemma value_edge:
  "node_map_ok m \<Longrightarrow> n \<in> set (omap_values m) \<Longrightarrow> (n_id n, p) \<in> parent_edges m \<longleftrightarrow> n_parentId n = Some p"
  using value_get [of m n] by (simp add: parent_edges_iff node_map_ok_wf)

lemma hidden_key:
  assumes ok: "node_map_ok m"
  shows "hidden (omap_values m) k \<longleftrightarrow>
    (\<exists>n. omap_get m k = Some n \<and> (n_deletedAt n \<noteq> None \<or> (\<exists>p. n_parentId n = Some p \<and> hidden (omap_values m) p)))"
  (is "_ \<longleftrightarrow> ?R")
proof
  assume "hidden (omap_values m) k"
  then show ?R by (cases rule: hidden.cases) (use value_get [OF ok] in blast)+
next
  assume ?R
  then show "hidden (omap_values m) k"
    using node_in_map [OF ok] hidden_own hidden_inherited by metis
qed

lemma hidden_below:
  assumes ok: "node_map_ok m" and "descends m r k" and "hidden (omap_values m) r"
  shows "hidden (omap_values m) k"
  using assms(2)
proof (induction rule: descends_induct)
  case base
  show ?case by (rule assms(3))
next
  case (child k p)
  then obtain n where "omap_get m k = Some n" "n_parentId n = Some p"
    by (auto simp: parent_edges_iff node_map_ok_wf [OF ok])
  with child.IH show ?case by (auto simp: hidden_key [OF ok, of k])
qed

lemma topmost_hidden: "node_map_ok m \<Longrightarrow> topmost m r \<Longrightarrow> hidden (omap_values m) r"
  by (auto simp: topmost_def hidden_key [of m r])

lemma descends_linear:
  assumes wf: "omap_wf m" and "descends m a k" and "descends m b k"
  shows "descends m a b \<or> descends m b a"
  using assms(2,3)
proof (induction rule: descends_induct)
  case base
  then show ?case by simp
next
  case (child k p)
  show ?case
  proof (cases "k = b")
    case True
    then show ?thesis using child.hyps descends_child by blast
  next
    case False
    with child.prems obtain q where "(k, q) \<in> parent_edges m" "descends m b q"
      unfolding descends_def by (meson converse_rtranclE)
    moreover from this child.hyps(2) have "q = p" by (simp add: parent_of_edge [OF wf])
    ultimately show ?thesis using child.IH by blast
  qed
qed

lemma topmost_top:
  assumes ok: "node_map_ok m" and "topmost m a" and "topmost m b" and "descends m a b"
  shows "a = b"
proof (rule ccontr)
  assume "a \<noteq> b"
  with assms(4) obtain p where p: "(b, p) \<in> parent_edges m" "descends m a p"
    unfolding descends_def by (metis converse_rtranclE)
  have "hidden (omap_values m) p" using hidden_below [OF ok p(2)] topmost_hidden [OF ok assms(2)] .
  moreover have "parent_of m b = Some p" using p(1) by (simp add: parent_of_edge node_map_ok_wf [OF ok])
  ultimately show False using assms(3) by (simp add: topmost_def)
qed

lemma topmost_unique:
  assumes ok: "node_map_ok m" and "topmost m a" "descends m a k" "topmost m b" "descends m b k"
  shows "a = b"
  using descends_linear [OF node_map_ok_wf [OF ok] assms(3,5)] topmost_top [OF ok] assms(2,4) by metis

lemma forest_induct [consumes 1, case_names node]:
  assumes f: "forest_map m" and step: "\<And>k. (\<And>p. (k, p) \<in> parent_edges m \<Longrightarrow> P p) \<Longrightarrow> P k"
  shows "P k"
proof -
  have "finite (parent_edges m)" unfolding parent_edges_def by (rule finite_set)
  with f have "wf ((parent_edges m)\<inverse>)" by (simp add: forest_map_def finite_acyclic_wf_converse)
  then show ?thesis by (induction k rule: wf_induct_rule) (auto intro: step)
qed

lemma hidden_topmost:
  assumes f: "forest_map m"
  shows "hidden (omap_values m) k \<Longrightarrow> \<exists>r. topmost m r \<and> descends m r k"
  using f
proof (induction rule: forest_induct)
  case (node k)
  have ok: "node_map_ok m" using f by (simp add: forest_map_def)
  from node.prems obtain n where n: "omap_get m k = Some n" by (auto simp: hidden_key [OF ok, of k])
  show ?case
  proof (cases "\<exists>p. n_parentId n = Some p \<and> hidden (omap_values m) p")
    case True
    then obtain p where "(k, p) \<in> parent_edges m" "hidden (omap_values m) p"
      using n by (auto simp: parent_edges_iff node_map_ok_wf [OF ok])
    with node.IH show ?thesis using descends_child by blast
  next
    case False
    with node.prems n have "topmost m k" by (auto simp: hidden_key [OF ok, of k] topmost_def parent_of_def)
    then show ?thesis using descends_refl by blast
  qed
qed

lemma root_for_assigned:
  assumes ok: "node_map_ok m" and n: "n \<in> set (omap_values m)" and inh: "inherits m n inh"
  shows "assigned m (n_id n) (root_for n inh)"
proof -
  have get: "omap_get m (n_id n) = Some n" using n by (rule value_get [OF ok])
  show ?thesis
  proof (cases inh)
    case None
    with inh get show ?thesis
      by (auto simp: assigned_def inherits_def root_for_def topmost_def parent_of_def hidden_key [OF ok, of "n_id n"])
  next
    case (Some r)
    with inh obtain p where "topmost m r" "n_parentId n = Some p" "descends m r p"
      by (auto simp: inherits_def)
    moreover from this have "(n_id n, p) \<in> parent_edges m" by (simp add: value_edge [OF ok n])
    ultimately show ?thesis using Some by (auto simp: assigned_def root_for_def intro: descends_child)
  qed
qed

lemma assigned_child: "assigned m k rid \<Longrightarrow> n_parentId c = Some k \<Longrightarrow> inherits m c rid"
  by (auto simp: assigned_def inherits_def split: option.splits)

section \<open>The run of visit\<close>

definition kind_at :: "node_map \<Rightarrow> node_kind \<Rightarrow> string \<Rightarrow> bool" where
  "kind_at m kind k \<longleftrightarrow> map_option n_kind (omap_get m k) = Some kind"

text \<open>The row of a root when the nodes of \<open>V\<close> have been counted.\<close>

definition row_counting :: "node_map \<Rightarrow> string set \<Rightarrow> string \<Rightarrow> trash_root" where
  "row_counting m V r =
     (let n = the (omap_get m r)
      in \<lparr>tr_id = r, tr_kind = n_kind n, tr_title = n_title n, tr_deletedAt = the (n_deletedAt n),
          tr_descendantCount = card {k \<in> V. descends m r k \<and> k \<noteq> r},
          tr_noteCount = card {k \<in> V. descends m r k \<and> kind_at m KNote k},
          tr_folderCount = card {k \<in> V. descends m r k \<and> kind_at m KFolder k}\<rparr>)"

definition counted :: "node_map \<Rightarrow> string set \<Rightarrow> root_map \<Rightarrow> bool" where
  "counted m V roots \<longleftrightarrow> omap_wf roots \<and>
     (\<forall>r. omap_get roots r = (if r \<in> V \<and> topmost m r then Some (row_counting m V r) else None))"

definition up_closed :: "node_map \<Rightarrow> string set \<Rightarrow> bool" where
  "up_closed m V \<longleftrightarrow> (\<forall>k p. k \<in> V \<longrightarrow> (k, p) \<in> parent_edges m \<longrightarrow> p \<in> set (omap_keys m) \<longrightarrow> p \<in> V)"

lemma edge_key: "(k, p) \<in> parent_edges m \<Longrightarrow> k \<in> set (omap_keys m)"
  by (force simp: parent_edges_in)

lemma up_closed_descends:
  assumes up: "up_closed m V" and r: "r \<in> set (omap_keys m)" and "descends m r k" and "k \<in> V"
  shows "r \<in> V"
proof -
  from assms(3) have "(k, r) \<in> (parent_edges m)\<^sup>*" by (simp add: descends_def)
  then have "r \<in> set (omap_keys m) \<longrightarrow> r \<in> V"
  proof induction
    case base
    show ?case using assms(4) by blast
  next
    case (step x y)
    with up edge_key [OF step.hyps(2)] show ?case unfolding up_closed_def by blast
  qed
  with r show ?thesis by blast
qed

lemma card_insert_where:
  "finite V \<Longrightarrow> k \<notin> V \<Longrightarrow> card {x \<in> insert k V. P x} = card {x \<in> V. P x} + (if P k then 1 else 0)"
proof -
  assume f: "finite V" and k: "k \<notin> V"
  have "{x \<in> insert k V. P x} = (if P k then insert k {x \<in> V. P x} else {x \<in> V. P x})" by auto
  with f k show ?thesis by simp
qed

lemma row_counting_insert:
  "finite V \<Longrightarrow> k \<notin> V \<Longrightarrow> omap_get m k = Some n \<Longrightarrow> k \<noteq> r \<Longrightarrow> descends m r k \<Longrightarrow>
    row_counting m (insert k V) r =
      (row_counting m V r)\<lparr>tr_descendantCount := tr_descendantCount (row_counting m V r) + 1,
        tr_noteCount := tr_noteCount (row_counting m V r) + kind_count KNote n,
        tr_folderCount := tr_folderCount (row_counting m V r) + kind_count KFolder n\<rparr>"
proof -
  assume h: "finite V" "k \<notin> V" and n: "omap_get m k = Some n" "k \<noteq> r" and d: "descends m r k"
  note c = card_insert_where [OF h, of "\<lambda>x. descends m r x \<and> x \<noteq> r"]
    card_insert_where [OF h, of "\<lambda>x. descends m r x \<and> kind_at m KNote x"]
    card_insert_where [OF h, of "\<lambda>x. descends m r x \<and> kind_at m KFolder x"]
  have "kind_at m kind k \<longleftrightarrow> n_kind n = kind" for kind using n(1) by (simp add: kind_at_def)
  with d n(2) show ?thesis by (simp only: row_counting_def Let_def c) (simp add: kind_count_def)
qed

lemma row_counting_other:
  "\<not> descends m r k \<Longrightarrow> row_counting m (insert k V) r = row_counting m V r"
proof -
  assume "\<not> descends m r k"
  then have "{x \<in> insert k V. descends m r x \<and> P x} = {x \<in> V. descends m r x \<and> P x}" for P by auto
  then show ?thesis by (simp add: row_counting_def Let_def)
qed

lemma row_counting_new:
  assumes "omap_get m r = Some n" and "n_deletedAt n = Some d" and none: "\<And>k. k \<in> V \<Longrightarrow> \<not> descends m r k"
  shows "row_counting m (insert r V) r =
    \<lparr>tr_id = r, tr_kind = n_kind n, tr_title = n_title n, tr_deletedAt = d, tr_descendantCount = 0,
      tr_noteCount = kind_count KNote n, tr_folderCount = kind_count KFolder n\<rparr>"
proof -
  have "{x \<in> insert r V. descends m r x \<and> P x} = (if P r then {r} else {})" for P
    using none by auto
  with assms(1,2) show ?thesis by (simp add: row_counting_def Let_def kind_at_def kind_count_def)
qed

text \<open>Visiting one more node keeps the rows counting exactly the visited nodes.\<close>

lemma counted_step:
  assumes ok: "node_map_ok m" and n: "n \<in> set (omap_values m)" and k: "n_id n \<notin> V" and fin: "finite V"
    and up: "up_closed m V" and anc: "\<And>p. n_parentId n = Some p \<Longrightarrow> p \<in> set (omap_keys m) \<Longrightarrow> p \<in> V"
    and inh: "inherits m n inh" and roots: "counted m V roots"
  shows "counted m (insert (n_id n) V) (count_for (root_for n inh) n roots)"
proof -
  let ?k = "n_id n"
  have get: "omap_get m ?k = Some n" using n by (rule value_get [OF ok])
  have as: "assigned m ?k (root_for n inh)" by (rule root_for_assigned [OF ok n inh])
  have old: "omap_get roots r = (if r \<in> V \<and> topmost m r then Some (row_counting m V r) else None)" for r
    using roots by (simp add: counted_def)
  have wf: "omap_wf roots" using roots by (simp add: counted_def)
  show ?thesis
  proof (cases "root_for n inh")
    case None
    with as have nh: "\<not> hidden (omap_values m) ?k" by (simp add: assigned_def)
    then have "\<not> topmost m ?k" using topmost_hidden [OF ok] by blast
    moreover have "row_counting m (insert ?k V) r = row_counting m V r" if "topmost m r" for r
      by (rule row_counting_other) (use that nh hidden_below [OF ok] topmost_hidden [OF ok] in blast)
    ultimately show ?thesis using None wf by (auto simp: counted_def count_for_def old)
  next
    case (Some r)
    with as have r: "topmost m r" "descends m r ?k" by (simp_all add: assigned_def)
    have rkey: "r \<in> set (omap_keys m)" using r(1) by (force simp: topmost_def dest: omap_get_in)
    have others: "row_counting m (insert ?k V) q = row_counting m V q" if "topmost m q" "q \<noteq> r" for q
      by (rule row_counting_other) (use that r topmost_unique [OF ok] in blast)
    have "omap_get (count_node r n roots) q =
        (if q \<in> insert ?k V \<and> topmost m q then Some (row_counting m (insert ?k V) q) else None)" for q
    proof (cases "r = ?k")
      case True
      then obtain d where d: "n_deletedAt n = Some d" using r(1) get by (auto simp: topmost_def)
      have "\<not> descends m ?k j" if "j \<in> V" for j
        using up_closed_descends [OF up, of ?k j] k rkey True that by blast
      note new = row_counting_new [OF get d this]
      show ?thesis using True k r(1) d new others by (auto simp: count_node_def old)
    next
      case False
      from r(2) False obtain p where p: "(?k, p) \<in> parent_edges m" "descends m r p"
        unfolding descends_def by (metis converse_rtranclE)
      have "n_parentId n = Some p" using p(1) by (simp add: value_edge [OF ok n])
      have "r \<in> V"
      proof (cases "p = r")
        case True
        then show ?thesis using anc [OF \<open>n_parentId n = Some p\<close>] rkey by simp
      next
        case False
        with p(2) obtain q where "(p, q) \<in> parent_edges m"
          unfolding descends_def by (metis converse_rtranclE)
        then have "p \<in> V" using anc [OF \<open>n_parentId n = Some p\<close>] edge_key by blast
        then show ?thesis by (rule up_closed_descends [OF up rkey p(2)])
      qed
      moreover have "\<not> topmost m ?k" using topmost_unique [OF ok r(1,2), of ?k] False by auto
      ultimately show ?thesis
        using False r(1) others k row_counting_insert [OF fin k get _ r(2)] by (auto simp: count_node_def old)
    qed
    moreover have "omap_wf (count_node r n roots)" using wf by (auto simp: count_node_def split: option.splits)
    ultimately show ?thesis using Some by (simp add: counted_def count_for_def)
  qed
qed

text \<open>The invariant of the work list: each call has the right inherited root, and its parent was visited.\<close>

definition call_ok :: "node_map \<Rightarrow> string set \<Rightarrow> workspace_node \<times> string option \<Rightarrow> bool" where
  "call_ok m V call \<longleftrightarrow>
     fst call \<in> set (omap_values m) \<and> inherits m (fst call) (snd call) \<and>
     (\<forall>p. n_parentId (fst call) = Some p \<longrightarrow> p \<in> set (omap_keys m) \<longrightarrow> p \<in> V)"

definition visit_inv :: "node_map \<Rightarrow> (workspace_node \<times> string option) list \<Rightarrow> string set \<Rightarrow> root_map \<Rightarrow> bool" where
  "visit_inv m calls V roots \<longleftrightarrow>
     V \<subseteq> set (omap_keys m) \<and> up_closed m V \<and> counted m V roots \<and> (\<forall>call \<in> set calls. call_ok m V call) \<and>
     (\<forall>c k. (c, k) \<in> parent_edges m \<longrightarrow> k \<in> V \<longrightarrow> c \<in> V \<or> c \<in> n_id ` fst ` set calls)"

lemma children_get:
  "omap_getd [] (childrenByParent m) k = filter (\<lambda>n. n_parentId n = Some k) (omap_values m)"
  unfolding childrenByParent_def group_by_get by (simp add: filter_map o_def) (rule arg_cong [where f = "map snd"], rule filter_cong, auto)

lemma call_ok_mono: "call_ok m V call \<Longrightarrow> V \<subseteq> W \<Longrightarrow> call_ok m W call"
  by (auto simp: call_ok_def)

lemma visit_inv_step:
  assumes ok: "node_map_ok m" and inv: "visit_inv m ((n, inh) # calls) V roots" and k: "n_id n \<notin> V" and fin: "finite V"
  shows "visit_inv m (map (\<lambda>c. (c, root_for n inh)) (omap_getd [] (childrenByParent m) (n_id n)) @ calls)
    (insert (n_id n) V) (count_for (root_for n inh) n roots)"
proof -
  let ?k = "n_id n" and ?ch = "omap_getd [] (childrenByParent m) (n_id n)"
  from inv have n: "n \<in> set (omap_values m)" "inherits m n inh" "up_closed m V" "counted m V roots"
    and anc: "\<And>p. n_parentId n = Some p \<Longrightarrow> p \<in> set (omap_keys m) \<Longrightarrow> p \<in> V"
    by (auto simp: visit_inv_def call_ok_def)
  have as: "assigned m ?k (root_for n inh)" by (rule root_for_assigned [OF ok n(1,2)])
  have ch: "set ?ch = {c \<in> set (omap_values m). n_parentId c = Some ?k}" unfolding children_get set_filter ..
  have "counted m (insert ?k V) (count_for (root_for n inh) n roots)"
    by (rule counted_step [OF ok n(1) k fin n(3) anc n(2,4)])
  moreover have "?k \<in> set (omap_keys m)" using value_get [OF ok n(1)] by (metis map_of_eq_None_iff not_None_eq set_map)
  then have "insert ?k V \<subseteq> set (omap_keys m)" using inv unfolding visit_inv_def by blast
  moreover have "up_closed m (insert ?k V)"
    using n(3) anc value_edge [OF ok n(1)] unfolding up_closed_def by blast
  moreover have "call_ok m (insert ?k V) call"
    if "call \<in> set (map (\<lambda>c. (c, root_for n inh)) ?ch @ calls)" for call
  proof (cases "call \<in> set calls")
    case True
    with inv have "call_ok m V call" by (simp add: visit_inv_def)
    then show ?thesis by (rule call_ok_mono) blast
  next
    case False
    with that obtain c where c: "call = (c, root_for n inh)" "c \<in> set (omap_values m)" "n_parentId c = Some ?k"
      unfolding set_append set_map ch by blast
    with assigned_child [OF as c(3)] show ?thesis by (simp add: call_ok_def del: set_map)
  qed
  moreover have "c \<in> insert ?k V \<or> c \<in> n_id ` fst ` set (map (\<lambda>c. (c, root_for n inh)) ?ch @ calls)"
    if e: "(c, j) \<in> parent_edges m" and j: "j \<in> insert ?k V" for c j
  proof (cases "j = ?k")
    case True
    from e obtain x where x: "omap_get m c = Some x" "n_parentId x = Some j"
      by (auto simp: parent_edges_iff node_map_ok_wf [OF ok])
    with True node_in_map [OF ok x(1)] have "x \<in> set ?ch" "n_id x = c" unfolding ch by simp_all
    then have "c \<in> n_id ` fst ` set (map (\<lambda>c. (c, root_for n inh)) ?ch)" by force
    then show ?thesis unfolding set_append image_Un by blast
  next
    case False
    with inv e j have "c \<in> V \<or> c \<in> n_id ` fst ` set ((n, inh) # calls)" unfolding visit_inv_def by blast
    then show ?thesis by auto
  qed
  ultimately show ?thesis unfolding visit_inv_def by blast
qed

lemma visit_run:
  assumes ok: "node_map_ok m"
  shows "visit_inv m calls (set visited) roots \<Longrightarrow>
    \<exists>visited' roots'. visit_all (childrenByParent m) calls visited roots = (visited', roots') \<and>
      visit_inv m [] (set visited') roots' \<and> set visited \<union> n_id ` fst ` set calls \<subseteq> set visited'"
proof (induction "childrenByParent m" calls visited roots rule: visit_all.induct)
  case (1 visited roots)
  then show ?case by (simp add: visit_all.simps)
next
  case (2 n inh calls visited roots)
  show ?case
  proof (cases "n_id n \<in> set visited")
    case True
    with "2.prems" have "visit_inv m calls (set visited) roots" by (auto simp: visit_inv_def)
    from "2.hyps"(1) [OF True this] True show ?thesis by (auto simp: visit_all.simps)
  next
    case False
    from "2.hyps"(2) [OF False refl] visit_inv_step [OF ok "2.prems" False]
    obtain visited' roots' where run:
      "visit_all (childrenByParent m) (map (\<lambda>c. (c, root_for n inh)) (omap_getd [] (childrenByParent m) (n_id n)) @ calls)
         (n_id n # visited) (count_for (root_for n inh) n roots) = (visited', roots')"
      "visit_inv m [] (set visited') roots'"
      "set (n_id n # visited) \<union> n_id ` fst ` set (map (\<lambda>c. (c, root_for n inh)) (omap_getd [] (childrenByParent m) (n_id n)) @ calls)
         \<subseteq> set visited'"
      by auto
    then show ?thesis using False by (auto simp: visit_all.simps image_Un)
  qed
qed

lemma visit_again:
  "n_id ` fst ` set calls \<subseteq> set visited \<Longrightarrow> visit_all ch calls visited roots = (visited, roots)"
  by (induction calls) (auto simp: visit_all.simps)

text \<open>On a forest the first loop reaches every node, so the second changes nothing.\<close>

lemma root_rows_counted:
  assumes f: "forest_map m"
  shows "counted m (set (omap_keys m)) (root_rows m)"
proof -
  have ok: "node_map_ok m" using f by (simp add: forest_map_def)
  let ?calls = "map (\<lambda>n. (n, None :: string option)) (filter (is_tree_root m) (omap_values m))"
  have orphan: "\<not> omap_has m p \<Longrightarrow> \<not> hidden (omap_values m) p" for p
    by (simp add: hidden_key [OF ok, of p] omap_has_get)
  have start: "call_ok m {} (n, None)" if "n \<in> set (omap_values m)" "is_tree_root m n" for n
  proof -
    have "\<not> hidden (omap_values m) p \<and> p \<notin> set (omap_keys m)" if "n_parentId n = Some p" for p
    proof -
      have "\<not> omap_has m p" using that \<open>is_tree_root m n\<close> by (simp add: is_tree_root_def)
      then show ?thesis using orphan by (simp add: omap_has_get map_of_eq_None_iff)
    qed
    with \<open>n \<in> set (omap_values m)\<close> show ?thesis by (auto simp: call_ok_def inherits_def)
  qed
  have "visit_inv m ?calls (set []) []"
    unfolding visit_inv_def using start by (auto simp: up_closed_def counted_def)
  from visit_run [OF ok this] obtain visited roots where run:
    "visit_all (childrenByParent m) ?calls [] [] = (visited, roots)" "visit_inv m [] (set visited) roots"
    "n_id ` fst ` set ?calls \<subseteq> set visited" by auto
  have all: "k \<in> set (omap_keys m) \<longrightarrow> k \<in> set visited" for k
    using f
  proof (induction k rule: forest_induct)
    case (node k)
    show ?case
    proof
      assume "k \<in> set (omap_keys m)"
      then obtain n where n: "omap_get m k = Some n" by (metis map_of_eq_None_iff not_None_eq set_map)
      note nv = node_in_map [OF ok n]
      show "k \<in> set visited"
      proof (cases "is_tree_root m n")
        case True
        with nv have "k \<in> n_id ` fst ` set ?calls" by force
        with run(3) show ?thesis by blast
      next
        case False
        then obtain p where p: "n_parentId n = Some p" "omap_has m p"
          by (auto simp: is_tree_root_def split: option.splits)
        then have e: "(k, p) \<in> parent_edges m" using n by (simp add: parent_edges_iff node_map_ok_wf [OF ok])
        moreover have "p \<in> set (omap_keys m)" using p(2) by (auto simp: omap_has_get map_of_eq_None_iff)
        ultimately have "p \<in> set visited" using node by blast
        with run(2) e show ?thesis by (auto simp: visit_inv_def)
      qed
    qed
  qed
  have keys: "set visited = set (omap_keys m)" using all run(2) by (auto simp: visit_inv_def)
  have "n_id ` fst ` set (map (\<lambda>n. (n, None :: string option)) (omap_values m)) \<subseteq> set visited"
    using all node_map_ok_keys [OF ok] by (auto simp: image_image)
  then have "root_rows m = roots" by (simp add: root_rows_def Let_def run(1) visit_again)
  with run(2) keys show ?thesis by (simp add: visit_inv_def)
qed

section \<open>The rows\<close>

lemma in_keys: "k \<in> set (omap_keys m) \<longleftrightarrow> omap_get m k \<noteq> None"
  by (simp add: map_of_eq_None_iff)

lemma rows_of_counted:
  assumes "counted m (set (omap_keys m)) roots"
  shows "map tr_id (omap_values roots) = omap_keys roots \<and> set (omap_keys roots) = {r. topmost m r} \<and>
    (\<forall>t \<in> set (omap_values roots). t = row_counting m (set (omap_keys m)) (tr_id t))"
proof -
  let ?K = "set (omap_keys m)"
  have wf: "omap_wf roots" and get: "omap_get roots r = (if r \<in> ?K \<and> topmost m r then Some (row_counting m ?K r) else None)" for r
    using assms by (simp_all add: counted_def)
  have key: "topmost m r \<Longrightarrow> r \<in> ?K" for r
    by (auto simp: topmost_def dest!: omap_get_in) force
  have id: "tr_id (row_counting m V r) = r" for V r by (simp add: row_counting_def Let_def)
  have entry: "v = row_counting m ?K k \<and> topmost m k" if "(k, v) \<in> set roots" for k v
    using get [of k] that omap_get_iff [OF wf, of k v] by (auto split: if_splits)
  have "map tr_id (omap_values roots) = omap_keys roots"
    unfolding map_map o_def by (rule map_cong [OF refl]) (use entry id in force)
  moreover have "set (omap_keys roots) = {r. topmost m r}"
    by (auto simp only: in_keys [of _ roots] get if_True if_False option.distinct mem_Collect_eq dest: key split: if_splits)
  moreover have "t = row_counting m ?K (tr_id t)" if "t \<in> set (omap_values roots)" for t
    using that entry id by force
  ultimately show ?thesis by blast
qed

lemma trash_cmp_comparator:
  assumes total: "\<And>a b. lc a b \<le> 0 \<or> lc b a \<le> (0 :: number)"
    and trans: "\<And>a b c. lc a b \<le> 0 \<Longrightarrow> lc b c \<le> 0 \<Longrightarrow> lc a c \<le> 0"
  shows "comparator (trash_cmp lc) tr_id"
proof
  fix x y z
  show "trash_cmp lc x y \<le> 0 \<or> trash_cmp lc y x \<le> 0" using total by (auto simp: trash_cmp_def)
  assume "trash_cmp lc x y \<le> 0" "trash_cmp lc y z \<le> 0"
  then show "trash_cmp lc x z \<le> 0"
    using trans [of "tr_title x" "tr_title y" "tr_title z"] by (auto simp: trash_cmp_def split: if_splits)
qed

lemma trashed_row:
  assumes f: "forest_map m" and t: "t \<in> set (trashedRoots lc m)"
  shows "topmost m (tr_id t) \<and> t = row_counting m (set (omap_keys m)) (tr_id t)"
proof -
  have t': "t \<in> set (omap_values (root_rows m))" using t by (simp add: trashedRoots_def)
  note rows = rows_of_counted [OF root_rows_counted [OF f]]
  have "tr_id t \<in> set (map tr_id (omap_values (root_rows m)))" using t' by (simp only: set_map) (rule imageI)
  with rows have "topmost m (tr_id t)" by simp
  with rows t' show ?thesis by blast
qed

theorem trashed_roots_correct:
  assumes "forest_map nodes"
    and "\<And>a b. lc a b \<le> 0 \<or> lc b a \<le> (0 :: number)"
    and "\<And>a b c. lc a b \<le> 0 \<Longrightarrow> lc b c \<le> 0 \<Longrightarrow> lc a c \<le> 0"
  shows "distinct (map tr_id (trashedRoots lc nodes)) \<and>
    set (map tr_id (trashedRoots lc nodes)) = {r. topmost nodes r} \<and>
    sorted_wrt (\<lambda>s t. trash_cmp lc s t \<le> 0) (trashedRoots lc nodes) \<and>
    (\<forall>t n. t \<in> set (trashedRoots lc nodes) \<longrightarrow> omap_get nodes (tr_id t) = Some n \<longrightarrow>
       tr_kind t = n_kind n \<and> tr_title t = n_title n \<and> Some (tr_deletedAt t) = n_deletedAt n \<and>
       tr_descendantCount t = card {k \<in> set (omap_keys nodes). descends nodes (tr_id t) k \<and> k \<noteq> tr_id t} \<and>
       tr_noteCount t = card {k \<in> set (omap_keys nodes). descends nodes (tr_id t) k \<and> kind_at nodes KNote k} \<and>
       tr_folderCount t = card {k \<in> set (omap_keys nodes). descends nodes (tr_id t) k \<and> kind_at nodes KFolder k})"
proof -
  note counts = root_rows_counted [OF assms(1)]
  note rows = rows_of_counted [OF counts]
  have ids: "map tr_id (omap_values (root_rows nodes)) = omap_keys (root_rows nodes)" using rows by blast
  have d: "distinct (map tr_id (omap_values (root_rows nodes)))" unfolding ids using counts unfolding counted_def by blast
  have s: "set (map tr_id (trashedRoots lc nodes)) = set (map tr_id (omap_values (root_rows nodes)))"
    unfolding trashedRoots_def set_map js_sort_set ..
  have "\<forall>t n. t \<in> set (trashedRoots lc nodes) \<longrightarrow> omap_get nodes (tr_id t) = Some n \<longrightarrow>
       tr_kind t = n_kind n \<and> tr_title t = n_title n \<and> Some (tr_deletedAt t) = n_deletedAt n \<and>
       tr_descendantCount t = card {k \<in> set (omap_keys nodes). descends nodes (tr_id t) k \<and> k \<noteq> tr_id t} \<and>
       tr_noteCount t = card {k \<in> set (omap_keys nodes). descends nodes (tr_id t) k \<and> kind_at nodes KNote k} \<and>
       tr_folderCount t = card {k \<in> set (omap_keys nodes). descends nodes (tr_id t) k \<and> kind_at nodes KFolder k}"
  proof (intro allI impI)
    fix t n
    assume t: "t \<in> set (trashedRoots lc nodes)" and n: "omap_get nodes (tr_id t) = Some n"
    from trashed_row [OF assms(1) t] obtain r where top: "topmost nodes r"
      and row: "t = row_counting nodes (set (omap_keys nodes)) r" by blast
    have id: "tr_id t = r" unfolding row by (simp add: row_counting_def Let_def)
    from top n obtain d where "n_deletedAt n = Some d" unfolding id by (auto simp: topmost_def)
    then show "tr_kind t = n_kind n \<and> tr_title t = n_title n \<and> Some (tr_deletedAt t) = n_deletedAt n \<and>
      tr_descendantCount t = card {k \<in> set (omap_keys nodes). descends nodes (tr_id t) k \<and> k \<noteq> tr_id t} \<and>
      tr_noteCount t = card {k \<in> set (omap_keys nodes). descends nodes (tr_id t) k \<and> kind_at nodes KNote k} \<and>
      tr_folderCount t = card {k \<in> set (omap_keys nodes). descends nodes (tr_id t) k \<and> kind_at nodes KFolder k}"
      using n unfolding id unfolding row by (simp add: row_counting_def Let_def)
  qed
  moreover have "sorted_wrt (\<lambda>s t. trash_cmp lc s t \<le> 0) (trashedRoots lc nodes)"
    unfolding trashedRoots_def by (rule comparator.sort_sorted [OF trash_cmp_comparator [OF assms(2,3)] d])
  moreover have "distinct (map tr_id (trashedRoots lc nodes))" using d by (simp add: trashedRoots_def)
  moreover have "set (map tr_id (trashedRoots lc nodes)) = {r. topmost nodes r}" unfolding s using rows by metis
  ultimately show ?thesis by blast
qed

definition trash_sample :: node_map where
  "trash_sample = omap_set ''f'' ((sample_node ''f'' KFolder None 1024)\<lparr>n_deletedAt := Some 3\<rparr>) sample_map"

lemma trash_sample_forest: "forest_map trash_sample"
proof -
  have "parent_edges trash_sample = parent_edges sample_map"
    by (simp add: parent_edges_def trash_sample_def sample_map_def sample_node_def)
  moreover have "node_map_ok trash_sample" by code_simp
  ultimately show ?thesis using sample_forest by (simp add: forest_map_def)
qed

theorem trashed_roots_correct_witness:
  "map (\<lambda>t. (tr_id t, tr_descendantCount t, tr_noteCount t)) (trashedRoots unit_order trash_sample) = [(''f'', 1, 1)] \<and>
   set (map tr_id (trashedRoots unit_order trash_sample)) = {r. topmost trash_sample r}"
proof
  show "set (map tr_id (trashedRoots unit_order trash_sample)) = {r. topmost trash_sample r}"
    by (rule trashed_roots_correct [OF trash_sample_forest, THEN conjunct2, THEN conjunct1])
      (auto simp: unit_order_def split: if_splits)
  show "map (\<lambda>t. (tr_id t, tr_descendantCount t, tr_noteCount t)) (trashedRoots unit_order trash_sample) = [(''f'', 1, 1)]"
    by code_simp
qed

section \<open>Composition with the reducer\<close>

lemma delete_keys: "omap_wf m \<Longrightarrow> omap_wf m' \<Longrightarrow>
  (\<And>k. omap_get m' k = (if P k then None else omap_get m k)) \<Longrightarrow>
  length m' + card {k \<in> set (omap_keys m). P k} = length m"
proof -
  assume wf: "omap_wf m" "omap_wf m'" and get: "\<And>k. omap_get m' k = (if P k then None else omap_get m k)"
  have "set (omap_keys m') = {k \<in> set (omap_keys m). \<not> P k}"
    using get by (auto simp only: in_keys mem_Collect_eq split: if_splits)
  then have "card (set (omap_keys m')) = card {k \<in> set (omap_keys m). \<not> P k}" by simp
  moreover have "card (set (omap_keys m)) = card {k \<in> set (omap_keys m). P k} + card {k \<in> set (omap_keys m). \<not> P k}"
    by (subst card_Un_disjoint [symmetric]) (auto intro: arg_cong [where f = card])
  moreover have "card (set (omap_keys m)) = length m" "card (set (omap_keys m')) = length m'"
    using wf by (simp_all only: distinct_card length_map)
  ultimately show ?thesis by simp
qed

theorem purging_a_row_removes_its_count:
  assumes "forest_map nodes" and "[] \<notin> set (omap_keys nodes)" and "t \<in> set (trashedRoots lc nodes)"
  shows "\<exists>nodes'. reduceOperation nodes (PurgeSubtree (tr_id t) now) = Changed nodes' \<and>
    length nodes' + tr_descendantCount t + 1 = length nodes"
proof -
  have ok: "node_map_ok nodes" using assms(1) by (simp add: forest_map_def)
  from trashed_row [OF assms(1,3)] have top: "topmost nodes (tr_id t)"
    and row: "t = row_counting nodes (set (omap_keys nodes)) (tr_id t)" by blast+
  from purge_get [OF ok assms(2) topmost_hidden [OF ok top]] obtain nodes' where purged:
    "reduceOperation nodes (PurgeSubtree (tr_id t) now) = Changed nodes'"
    "\<And>k. omap_get nodes' k = (if descends nodes (tr_id t) k then None else omap_get nodes k)" by blast
  have "omap_wf nodes'" using reduceOperation_ok [OF ok purged(1)] by (rule node_map_ok_wf)
  note count = delete_keys [OF node_map_ok_wf [OF ok] this purged(2)]
  let ?D = "{k \<in> set (omap_keys nodes). descends nodes (tr_id t) k}"
  have "tr_descendantCount t = card (?D - {tr_id t})"
    by (subst row) (auto simp: row_counting_def Let_def intro!: arg_cong [where f = card])
  moreover have "tr_id t \<in> ?D" using top unfolding mem_Collect_eq in_keys by (auto simp: topmost_def)
  ultimately have "tr_descendantCount t + 1 = card ?D" using card_Suc_Diff1 [of ?D "tr_id t"] by simp
  with count purged(1) show ?thesis by auto
qed

theorem purging_a_row_removes_its_count_witness:
  "\<exists>t \<in> set (trashedRoots unit_order trash_sample). \<exists>m.
     reduceOperation trash_sample (PurgeSubtree (tr_id t) 9) = Changed m \<and>
     length m + tr_descendantCount t + 1 = 3"
proof -
  have "trashedRoots unit_order trash_sample \<noteq> []" by code_simp
  then obtain t where t: "t \<in> set (trashedRoots unit_order trash_sample)" by (meson list.set_sel(1))
  have "[] \<notin> set (omap_keys trash_sample)" by code_simp
  moreover have "length trash_sample = 3" by code_simp
  ultimately show ?thesis
    using purging_a_row_removes_its_count [OF trash_sample_forest _ t, of 9] t by metis
qed

section \<open>The subtree preview\<close>

definition preview_children :: "workspace_node list \<Rightarrow> string \<Rightarrow> workspace_node list" where
  "preview_children ns k = js_sort compareNodes (filter (\<lambda>n. n_parentId n = Some k) ns)"

interpretation preview: forest n_id n_parentId preview_children
  by unfold_locales (auto simp: preview_children_def distinct_map)

interpretation preview_order: comparator compareNodes n_id
  by unfold_locales (auto simp: compareNodes_def split: if_splits)

lemma preview_walk:
  "omap_get m r = Some n \<Longrightarrow>
    trashedSubtreeNodes m r = walk (length m) (\<lambda>x. preview_children (omap_values m) (n_id x)) [n] []"
proof -
  assume "omap_get m r = Some n"
  moreover have "omap_getd [] (map (\<lambda>(k, siblings). (k, js_sort compareNodes siblings)) (childrenByParent m)) k =
      preview_children (omap_values m) k" for k
    by (simp only: omap_getd_map_snd js_sort.simps children_get preview_children_def)
  ultimately show ?thesis by (simp add: trashedSubtreeNodes_def Let_def)
qed

lemma preview_below:
  assumes ok: "node_map_ok m" and n: "n \<in> set (omap_values m)"
  shows "below n_id n_parentId (omap_values m) [n] x \<longleftrightarrow> x \<in> set (omap_values m) \<and> descends m (n_id n) (n_id x)"
proof
  assume "below n_id n_parentId (omap_values m) [n] x"
  then show "x \<in> set (omap_values m) \<and> descends m (n_id n) (n_id x)"
  proof induction
    case (below_start x)
    then show ?case using n by simp
  next
    case (below_child y x)
    then show ?case using value_edge [OF ok below_child.hyps(2)] descends_child by blast
  qed
next
  have "descends m (n_id n) k \<Longrightarrow> x \<in> set (omap_values m) \<Longrightarrow> n_id x = k \<Longrightarrow>
      below n_id n_parentId (omap_values m) [n] x" for k
  proof (induction arbitrary: x rule: descends_induct)
    case base
    then have "x = n" using value_get [OF ok] n by (metis option.inject)
    then show ?case by (simp add: below_start)
  next
    case (child k p)
    then have px: "n_parentId x = Some p" using value_edge [OF ok child.prems(1), of p] by simp
    show ?case
    proof (cases "omap_get m p")
      case (Some y)
      from node_in_map [OF ok this] child.IH [of y] show ?thesis
        using below_child [of n_id n_parentId "omap_values m" "[n]" y x] px child.prems(1) by auto
    next
      case None
      with child.hyps(1) have "p = n_id n"
        unfolding descends_def by (metis converse_rtranclE edge_key in_keys)
      with None value_get [OF ok n] show ?thesis by simp
    qed
  qed
  then show "x \<in> set (omap_values m) \<and> descends m (n_id n) (n_id x) \<Longrightarrow> below n_id n_parentId (omap_values m) [n] x"
    by blast
qed

theorem preview_in_tree_order:
  assumes "forest_map nodes" and "omap_get nodes r = Some n"
  shows "\<exists>out. trashedSubtreeNodes nodes r = Some out \<and> distinct (map n_id out) \<and>
    set out = {x \<in> set (omap_values nodes). isNodeInSubtree nodes (n_id x) r} \<and>
    parents_first n_id n_parentId {n} out \<and>
    (\<forall>p \<in> set out. sorted_wrt (\<lambda>x y. compareNodes x y \<le> 0) (filter (\<lambda>x. n_parentId x = Some (n_id p)) out))"
proof -
  have ok: "node_map_ok nodes" and ac: "acyclic (parent_edges nodes)" using assms(1) by (simp_all add: forest_map_def)
  note n = node_in_map [OF ok assms(2)]
  note d = node_map_ok_distinct [OF ok]
  note below = preview_below [OF ok conjunct1 [OF n]]
  have free: "n_parentId s \<noteq> Some (n_id y)"
    if "s \<in> set [n]" "below n_id n_parentId (omap_values nodes) [n] y" for s y
  proof
    assume "n_parentId s = Some (n_id y)"
    then have "(n_id n, n_id y) \<in> parent_edges nodes" using that(1) value_edge [OF ok conjunct1 [OF n]] by simp
    moreover have "(n_id y, n_id n) \<in> (parent_edges nodes)\<^sup>*" using that(2) by (simp add: below descends_def)
    ultimately show False using ac unfolding acyclic_def by (meson rtrancl_into_trancl2)
  qed
  have "\<exists>out. walk (length nodes) (\<lambda>x. preview_children (omap_values nodes) (n_id x)) [n] [] = Some out \<and> distinct out \<and>
      set out = {x. below n_id n_parentId (omap_values nodes) [n] x} \<and> set out \<subseteq> set (omap_values nodes) \<and>
      parents_first n_id n_parentId (set [n]) out"
    by (rule preview.walk_correct [OF d _ _ free]) (use n in auto)
  then obtain out where out: "walk (length nodes) (\<lambda>x. preview_children (omap_values nodes) (n_id x)) [n] [] = Some out"
    "distinct out" "set out = {x. below n_id n_parentId (omap_values nodes) [n] x}"
    "parents_first n_id n_parentId {n} out" by auto
  have "set out = {x \<in> set (omap_values nodes). isNodeInSubtree nodes (n_id x) r}"
    unfolding out(3) in_subtree_iff [OF node_map_ok_wf [OF ok]] using n by (intro set_eqI) (auto simp only: mem_Collect_eq below)
  moreover have "distinct (map n_id out)"
    using out(2,3) d below by (auto simp: distinct_map inj_on_def)
  moreover have "filter (\<lambda>x. n_parentId x = Some (n_id p)) out = preview_children (omap_values nodes) (n_id p)"
    if "p \<in> set out" for p
    using preview.walk_orders [OF d _ _ free out(1)] n that by auto
  moreover have "sorted_wrt (\<lambda>x y. compareNodes x y \<le> 0) (preview_children (omap_values nodes) k)" for k
    unfolding preview_children_def by (rule preview_order.sort_sorted) (rule distinct_map_filter [OF d])
  ultimately show ?thesis using out(1,4) preview_walk [OF assms(2)] by auto
qed

theorem preview_in_tree_order_witness:
  "\<exists>out. trashedSubtreeNodes trash_sample ''f'' = Some out \<and> map n_id out = [''f'', ''n''] \<and> distinct (map n_id out)"
proof -
  have "map_option (map n_id) (trashedSubtreeNodes trash_sample ''f'') = Some [''f'', ''n'']" by code_simp
  moreover obtain n where "omap_get trash_sample ''f'' = Some n" by (simp add: trash_sample_def)
  ultimately show ?thesis using preview_in_tree_order [OF trash_sample_forest, of "''f''" n] by auto
qed

section \<open>Snippets\<close>

text \<open>A matcher consumes at least one character and puts back only characters of its input.\<close>

definition consumes :: "(string \<Rightarrow> (string \<times> string) option) \<Rightarrow> bool" where
  "consumes m \<longleftrightarrow> (\<forall>s b r. m s = Some (b, r) \<longrightarrow> length r < length s \<and> set b \<subseteq> set s \<and> set r \<subseteq> set s)"

lemma consumesD:
  "consumes m \<Longrightarrow> m s = Some (b, r) \<Longrightarrow> length r < length s \<and> set b \<subseteq> set s \<and> set r \<subseteq> set s"
  by (simp add: consumes_def)

lemma upto_parts: "upto d s = Some (a, r) \<Longrightarrow> s = a @ d # r"
proof -
  assume "upto d s = Some (a, r)"
  then obtain c where "dropWhile (\<lambda>c. c \<noteq> d) s = c # r" "a = takeWhile (\<lambda>c. c \<noteq> d) s"
    by (auto simp: upto_def split: list.splits)
  moreover from this(1) have "c = d" using hd_dropWhile [of "\<lambda>c. c \<noteq> d" s] by simp
  ultimately show ?thesis by (metis takeWhile_dropWhile_id)
qed

lemma link_tail_parts: "link_tail s = Some (a, r) \<Longrightarrow> \<exists>u. s = a @ '']('' @ u @ '')'' @ r"
proof -
  assume h: "link_tail s = Some (a, r)"
  then obtain q where q: "upto (CHR '']'') s = Some (a, CHR ''('' # q)" "\<exists>u. upto (CHR '')'') q = Some (u, r)"
    unfolding link_tail_def by (auto split: option.splits list.splits if_splits char.splits bool.splits)
  then obtain u where "upto (CHR '')'') q = Some (u, r)" by blast
  with upto_parts [OF q(1)] upto_parts [OF this] show ?thesis by auto
qed

lemma image_consumes: "consumes image_match"
proof -
  have "\<exists>q u. s = ''!['' @ u @ r \<and> b = []" if m: "image_match s = Some (b, r)" for s b r
  proof -
    from m obtain q a where q: "s = CHR ''!'' # CHR ''['' # q" "link_tail q = Some (a, r)" "b = []"
      unfolding image_match_def by (auto split: list.splits char.splits bool.splits if_splits)
    from link_tail_parts [OF q(2)] obtain u where "q = a @ '']('' @ u @ '')'' @ r" by blast
    with q have "s = ''!['' @ (a @ '']('' @ u @ '')'') @ r" by simp
    with q(3) show ?thesis by blast
  qed
  then show ?thesis unfolding consumes_def by fastforce
qed

lemma link_consumes: "consumes link_match"
proof -
  have "\<exists>u. s = ''['' @ b @ '']'' @ u @ r" if m: "link_match s = Some (b, r)" for s b r
  proof -
    from m obtain q where q: "s = CHR ''['' # q" "link_tail q = Some (b, r)"
      unfolding link_match_def by (auto split: list.splits char.splits bool.splits if_splits)
    from link_tail_parts [OF q(2)] obtain u where "q = b @ '']('' @ u @ '')'' @ r" by blast
    with q have "s = ''['' @ b @ '']'' @ (''('' @ u @ '')'') @ r" by simp
    then show ?thesis by blast
  qed
  then show ?thesis unfolding consumes_def by fastforce
qed

lemma wikilink_consumes: "consumes wikilink_match"
proof -
  have "\<exists>u v. s = ''[['' @ u @ b @ v @ r" if m: "wikilink_match s = Some (b, r)" for s b r
  proof -
    let ?P = "\<lambda>c. c \<notin> {CHR '']'', CHR ''|''}"
    from m obtain q where q: "s = ''[['' @ q"
      unfolding wikilink_match_def by (auto split: list.splits char.splits bool.splits if_splits)
    have parts: "q = takeWhile ?P q @ dropWhile ?P q" by simp
    from m consider "dropWhile ?P q = '']]'' @ r" "b = takeWhile ?P q"
      | t where "dropWhile ?P q = CHR ''|'' # t" "upto (CHR '']'') t = Some (b, CHR '']'' # r)"
      unfolding q wikilink_match_def Let_def
      by (auto split: list.splits char.splits bool.splits if_splits option.splits)
    then show ?thesis
    proof cases
      case 1
      have "q = b @ dropWhile ?P q" unfolding 1(2) by (rule parts)
      then have "s = ''[['' @ [] @ b @ '']]'' @ r" unfolding q 1(1) by simp
      then show ?thesis by blast
    next
      case 2
      have "q = takeWhile ?P q @ CHR ''|'' # t" using parts unfolding 2(1) .
      with upto_parts [OF 2(2)] have "s = ''[['' @ (takeWhile ?P q @ ''|'') @ b @ '']]'' @ r"
        unfolding q by simp
      then show ?thesis by blast
    qed
  qed
  then show ?thesis unfolding consumes_def by fastforce
qed

lemma replace_all_set: "consumes m \<Longrightarrow> set (replace_all m fuel s) \<subseteq> set s"
proof (induction m fuel s rule: replace_all.induct)
  case (3 m fuel c s)
  show ?case
  proof (cases "m (c # s)")
    case None
    with 3 show ?thesis by auto
  next
    case (Some p)
    obtain b r where p: "p = (b, r)" by force
    with Some have "set b \<subseteq> set (c # s)" "set r \<subseteq> set (c # s)" using consumesD [OF "3.prems", of "c # s" b r] by auto
    moreover have "set (replace_all m fuel r) \<subseteq> set r" using 3 Some p by auto
    ultimately have "set b \<union> set (replace_all m fuel r) \<subseteq> set (c # s)" by blast
    then show ?thesis using Some p by simp
  qed
qed auto

text \<open>One unit of fuel per character never runs out.\<close>

lemma replace_all_fuel:
  "consumes m \<Longrightarrow> length s \<le> f \<Longrightarrow> replace_all m (f + k) s = replace_all m f s"
proof (induction m f s arbitrary: k rule: replace_all.induct)
  case (3 m f c s)
  show ?case
  proof (cases "m (c # s)")
    case None
    with 3 show ?thesis by simp
  next
    case (Some p)
    obtain b r where p: "p = (b, r)" by force
    with Some "3.prems"(2) have "length r \<le> f" using consumesD [OF "3.prems"(1), of "c # s" b r] by auto
    with 3 Some p show ?thesis by simp
  qed
qed (auto simp: neq_Nil_conv)

lemma spaced_set: "spaced s = Some r \<Longrightarrow> set r \<subseteq> set s"
  by (auto simp: spaced_def split: list.splits if_splits dest: set_dropWhileD)

lemma strip_markers_set: "set (strip_markers line) \<subseteq> set line"
proof -
  have h: "heading_marker s = Some r \<Longrightarrow> set r \<subseteq> set s" for s r
    by (auto simp: heading_marker_def Let_def split: if_splits dest!: spaced_set dest: in_set_dropD)
  have q: "quote_marker s = Some r \<Longrightarrow> set r \<subseteq> set s" for s r
    by (auto simp: quote_marker_def split: list.splits if_splits)
  have c: "checkbox s = Some r \<Longrightarrow> set r \<subseteq> set s" for s r
    unfolding checkbox_def by (auto split: if_splits dest!: spaced_set dest: in_set_dropD)
  have b: "bullet_marker s = Some r \<Longrightarrow> set r \<subseteq> set s" for s r
    unfolding bullet_marker_def by (auto split: list.splits if_splits option.splits dest!: spaced_set c)
  have n: "number_marker s = Some r \<Longrightarrow> set r \<subseteq> set s" for s r
  proof -
    assume "number_marker s = Some r"
    then obtain c q where "dropWhile is_digit s = c # q" "spaced q = Some r"
      unfolding number_marker_def by (auto simp: Let_def split: list.splits if_splits)
    then show ?thesis using spaced_set set_dropWhileD [of _ is_digit s] by fastforce
  qed
  have "set s \<subseteq> set line" if "s = dropWhile js_space line" for s using that by (auto dest: set_dropWhileD)
  then show ?thesis
    unfolding strip_markers_def Let_def or_match_def
    by (auto split: option.splits dest!: h q b n)
qed

lemma plain_line_set: "set (plain_line line) \<subseteq> set line"
proof -
  have "set (replaceAll wikilink_match (replaceAll link_match (replaceAll image_match (strip_markers line)))) \<subseteq> set line"
    unfolding replaceAll_def
    using replace_all_set [OF wikilink_consumes] replace_all_set [OF link_consumes]
      replace_all_set [OF image_consumes] strip_markers_set by (meson order_trans)
  then show ?thesis unfolding plain_line_def using trim_set by (meson filter_is_subset order_trans)
qed

lemma snippet_loop_set:
  "p \<in> set (snippet_loop ls fence parts) \<Longrightarrow> p \<in> set parts \<or> (\<exists>l \<in> set ls. p = plain_line l)"
  by (induction ls fence parts rule: snippet_loop.induct) (auto simp: Let_def split: if_splits)

text \<open>A snippet is one line of at most 180 characters and the ellipsis.\<close>

lemma snippet_fits:
  "length (trashSnippet ellipsis markdown) \<le> SNIPPET_LENGTH + length ellipsis \<and>
   (CHR 0x0A \<notin> set ellipsis \<longrightarrow> CHR 0x0A \<notin> set (trashSnippet ellipsis markdown))"
proof -
  let ?parts = "snippet_loop (split_on (CHR 0x0A) markdown) False []"
  have "CHR 0x0A \<notin> set p" if "p \<in> set ?parts" for p
    using snippet_loop_set [OF that] plain_line_set split_on_parts by fastforce
  then have j: "CHR 0x0A \<notin> set (join '' '' ?parts)" using join_set [of "'' ''" ?parts] by auto
  obtain t where "take SNIPPET_LENGTH (join '' '' ?parts) = trimEnd (take SNIPPET_LENGTH (join '' '' ?parts)) @ t"
    using trimEnd_prefix by blast
  then have "set (trimEnd (take SNIPPET_LENGTH (join '' '' ?parts))) \<subseteq> set (join '' '' ?parts)"
    by (metis set_append set_take_subset sup.bounded_iff)
  moreover have "length (trimEnd (take SNIPPET_LENGTH (join '' '' ?parts))) \<le> SNIPPET_LENGTH"
    using trimEnd_length [of "take SNIPPET_LENGTH (join '' '' ?parts)"] by simp
  ultimately show ?thesis using j by (auto simp: trashSnippet_def Let_def)
qed

end
