(* ===== verification/Search_Query.thy ===== *)
theory Search_Query
  imports References Text_Ops
begin

text \<open>
  \<open>search/query-parser.ts\<close>: the query grammar. The code's index into the query is the suffix
  that remains to be read. \<open>normalize("NFC")\<close> is the identity on code units below 256, so
  \<open>normalizeEntityName\<close> is trim, collapse and lower case.
\<close>

section \<open>Results\<close>

datatype search_filter_kind = FTag | FPerson

fun filter_reference :: "search_filter_kind \<Rightarrow> reference_kind" where
  "filter_reference FTag = RTag"
| "filter_reference FPerson = RPerson"

record search_filter =
  sf_kind :: search_filter_kind
  sf_name :: string
  sf_key :: string

record incomplete_filter =
  if_kind :: search_filter_kind
  if_raw :: string

record parsed_query =
  pq_text :: string
  pq_terms :: "string list"
  pq_filters :: "search_filter list"
  pq_incomplete :: "incomplete_filter list"

definition SIGILS :: "(char, search_filter_kind) omap" where
  "SIGILS = [(CHR ''#'', FTag), (CHR ''$'', FPerson)]"

definition KEYWORD_PREFIXES :: "(string \<times> search_filter_kind) list" where
  "KEYWORD_PREFIXES = [(''tag:'', FTag), (''person:'', FPerson)]"

definition normalizeEntityName :: "string \<Rightarrow> string" where
  "normalizeEntityName s = toLowerCase (collapse (js_trim s))"

section \<open>Values\<close>

record read_value =
  rv_value :: string
  rv_rest :: string
  rv_unterminated :: bool

definition push_char :: "char \<Rightarrow> read_value \<Rightarrow> read_value" where
  "push_char c r = r\<lparr>rv_value := c # rv_value r\<rparr>"

fun read_quoted :: "string \<Rightarrow> read_value" where
  "read_quoted [] = \<lparr>rv_value = [], rv_rest = [], rv_unterminated = True\<rparr>"
| "read_quoted [c] =
     (if c = CHR 0x22 then \<lparr>rv_value = [], rv_rest = [], rv_unterminated = False\<rparr>
      else push_char c (read_quoted []))"
| "read_quoted (c # d # s) =
     (if c = CHR 0x5C then push_char d (read_quoted s)
      else if c = CHR 0x22 then \<lparr>rv_value = [], rv_rest = d # s, rv_unterminated = False\<rparr>
      else push_char c (read_quoted (d # s)))"

fun read_bare :: "string \<Rightarrow> read_value" where
  "read_bare [] = \<lparr>rv_value = [], rv_rest = [], rv_unterminated = False\<rparr>"
| "read_bare [c] =
     (if js_space c then \<lparr>rv_value = [], rv_rest = [c], rv_unterminated = False\<rparr>
      else push_char c (read_bare []))"
| "read_bare (c # d # s) =
     (if c = CHR 0x5C then push_char d (read_bare s)
      else if js_space c then \<lparr>rv_value = [], rv_rest = c # d # s, rv_unterminated = False\<rparr>
      else push_char c (read_bare (d # s)))"

definition readValue :: "string \<Rightarrow> read_value" where
  "readValue s = (case s of [] \<Rightarrow> read_bare s | c # r \<Rightarrow> if c = CHR 0x22 then read_quoted r else read_bare s)"

text \<open>The operator at the start of a token, with the rest after its sigil or prefix.\<close>

definition filterStart :: "string \<Rightarrow> (search_filter_kind \<times> string) option" where
  "filterStart s =
     (case s of
        [] \<Rightarrow> None
      | c # r \<Rightarrow>
          (case omap_get SIGILS c of
             Some kind \<Rightarrow> Some (kind, r)
           | None \<Rightarrow>
               map_option (\<lambda>(p, kind). (kind, drop (length p) s))
                 (find (\<lambda>(p, kind). startsWith (toLowerCase s) p) KEYWORD_PREFIXES)))"

lemma read_quoted_shorter: "length (rv_rest (read_quoted s)) \<le> length s"
  by (induction s rule: read_quoted.induct) (auto simp: push_char_def)

lemma read_bare_shorter: "length (rv_rest (read_bare s)) \<le> length s"
  by (induction s rule: read_bare.induct) (auto simp: push_char_def)

lemma readValue_shorter: "length (rv_rest (readValue s)) \<le> length s"
  using read_quoted_shorter [of "tl s"] read_bare_shorter [of s] by (cases s) (auto simp: readValue_def)

lemma filterStart_shorter: "filterStart s = Some (kind, r) \<Longrightarrow> length r < length s"
  by (auto simp: filterStart_def KEYWORD_PREFIXES_def startsWith_def toLowerCase_def
      split: list.splits option.splits if_splits)

section \<open>The parser\<close>

record parse_state =
  ps_terms :: "string list"
  ps_filters :: "search_filter list"
  ps_incomplete :: "incomplete_filter list"
  ps_seen :: "string list"

definition dedupe_key :: "search_filter_kind \<Rightarrow> string \<Rightarrow> string" where
  "dedupe_key kind key = kind_name (filter_reference kind) @ '':'' @ key"

definition add_term :: "string \<Rightarrow> parse_state \<Rightarrow> parse_state" where
  "add_term v p = (if v = [] then p else p\<lparr>ps_terms := ps_terms p @ [v]\<rparr>)"

definition add_filter :: "search_filter_kind \<Rightarrow> string \<Rightarrow> parse_state \<Rightarrow> parse_state" where
  "add_filter kind name p =
     (let key = normalizeEntityName name; dedupe = dedupe_key kind key
      in if dedupe \<in> set (ps_seen p) then p
         else p\<lparr>ps_seen := ps_seen p @ [dedupe],
           ps_filters := ps_filters p @ [\<lparr>sf_kind = kind, sf_name = name, sf_key = key\<rparr>]\<rparr>)"

definition read_filter :: "search_filter_kind \<Rightarrow> string \<Rightarrow> read_value \<Rightarrow> parse_state \<Rightarrow> parse_state" where
  "read_filter kind token parsed p =
     (let name = collapse (js_trim (rv_value parsed))
      in if rv_unterminated parsed \<or> name = []
         then p\<lparr>ps_incomplete := ps_incomplete p @
           [\<lparr>if_kind = kind, if_raw = take (length token - length (rv_rest parsed)) token\<rparr>]\<rparr>
         else add_filter kind name p)"

function parse_loop :: "string \<Rightarrow> parse_state \<Rightarrow> parse_state" where
  "parse_loop [] p = p"
| "parse_loop (c # s) p =
     (if js_space c then parse_loop s p
      else case filterStart (c # s) of
        None \<Rightarrow>
          (let t = readValue (c # s)
           in parse_loop (if length (rv_rest t) < length (c # s) then rv_rest t else s) (add_term (rv_value t) p))
      | Some (kind, r) \<Rightarrow>
          (let parsed = readValue r
           in parse_loop (rv_rest parsed) (read_filter kind (c # s) parsed p)))"
  by pat_completeness auto

termination parse_loop
  by (relation "measure (\<lambda>(s, p). length s)")
    (use filterStart_shorter readValue_shorter le_less_trans in \<open>fastforce+\<close>)

declare parse_loop.simps [simp del]

definition parseSearchQuery :: "string \<Rightarrow> parsed_query" where
  "parseSearchQuery raw =
     (let p = parse_loop raw \<lparr>ps_terms = [], ps_filters = [], ps_incomplete = [], ps_seen = []\<rparr>
      in \<lparr>pq_text = join '' '' (ps_terms p), pq_terms = ps_terms p, pq_filters = ps_filters p,
          pq_incomplete = ps_incomplete p\<rparr>)"

end
