(* ===== verification/Search_Plan.thy ===== *)
theory Search_Plan
  imports Search_Query Store_State
begin

text \<open>
  \<open>search/filter-resolution.ts\<close> and \<open>search/search-plan.ts\<close>: filter names resolved to entities,
  the plan of a query, and its results. \<open>localeCompare\<close> is the parameter \<open>lc\<close>; the ellipsis
  and the curly quotes lie beyond the modelled code units and are parameters. The index
  cache is keyed on maps that never change in place, so the index is computed afresh here.
\<close>

section \<open>Resolving filters\<close>

record search_candidate =
  sc_id :: string
  sc_label :: string

record resolved_filter =
  rf_kind :: search_filter_kind
  rf_name :: string
  rf_targetId :: string
  rf_label :: string

datatype problem_reason = UnknownName | AmbiguousName

record filter_problem =
  fp_kind :: search_filter_kind
  fp_name :: string
  fp_reason :: problem_reason
  fp_candidates :: "search_candidate list"

record filter_resolution =
  fr_resolved :: "resolved_filter list"
  fr_problems :: "filter_problem list"

definition candidate_cmp :: "(string \<Rightarrow> string \<Rightarrow> number) \<Rightarrow> search_candidate \<Rightarrow> search_candidate \<Rightarrow> number" where
  "candidate_cmp lc l r = lc (sc_id l) (sc_id r)"

text \<open>Over the entries \<open>[id, record.name]\<close> of the tag or person map.\<close>

definition nameIndex :: "(string \<Rightarrow> string \<Rightarrow> number) \<Rightarrow> (string \<times> string) list \<Rightarrow> (string, search_candidate list) omap" where
  "nameIndex lc source =
     map (\<lambda>(k, bucket). (k, js_sort (candidate_cmp lc) bucket))
       (group_by (\<lambda>(i, name). normalizeEntityName name \<noteq> []) (\<lambda>(i, name). normalizeEntityName name)
         (\<lambda>(i, name). \<lparr>sc_id = i, sc_label = name\<rparr>) source)"

definition entity_names :: "renderer_state \<Rightarrow> search_filter_kind \<Rightarrow> (string \<times> string) list" where
  "entity_names s kind =
     (case kind of
        FTag \<Rightarrow> map (\<lambda>(i, t). (i, tag_name t)) (st_tags s)
      | FPerson \<Rightarrow> map (\<lambda>(i, p). (i, person_name p)) (st_people s))"

definition filter_candidates :: "(string \<Rightarrow> string \<Rightarrow> number) \<Rightarrow> renderer_state \<Rightarrow> search_filter \<Rightarrow> search_candidate list" where
  "filter_candidates lc s f = omap_getd [] (nameIndex lc (entity_names s (sf_kind f))) (sf_key f)"

definition resolve_one :: "(string \<Rightarrow> string \<Rightarrow> number) \<Rightarrow> renderer_state \<Rightarrow> search_filter \<Rightarrow> filter_resolution \<Rightarrow> filter_resolution" where
  "resolve_one lc s f acc =
     (case filter_candidates lc s f of
        [] \<Rightarrow> acc\<lparr>fr_problems := fr_problems acc @
            [\<lparr>fp_kind = sf_kind f, fp_name = sf_name f, fp_reason = UnknownName, fp_candidates = []\<rparr>]\<rparr>
      | [only] \<Rightarrow> acc\<lparr>fr_resolved := fr_resolved acc @
            [\<lparr>rf_kind = sf_kind f, rf_name = sf_name f, rf_targetId = sc_id only, rf_label = sc_label only\<rparr>]\<rparr>
      | candidates \<Rightarrow> acc\<lparr>fr_problems := fr_problems acc @
            [\<lparr>fp_kind = sf_kind f, fp_name = sf_name f, fp_reason = AmbiguousName, fp_candidates = candidates\<rparr>]\<rparr>)"

definition resolveSearchFilters :: "(string \<Rightarrow> string \<Rightarrow> number) \<Rightarrow> renderer_state \<Rightarrow> search_filter list \<Rightarrow> filter_resolution" where
  "resolveSearchFilters lc s filters = fold (resolve_one lc s) filters \<lparr>fr_resolved = [], fr_problems = []\<rparr>"

definition describeSearchFilterProblem :: "string \<Rightarrow> string \<Rightarrow> filter_problem \<Rightarrow> string" where
  "describeSearchFilterProblem lq rq p =
     (let noun = (if fp_kind p = FTag then ''tag'' else ''person'')
      in if fp_reason p = UnknownName then ''No '' @ noun @ '' named '' @ lq @ fp_name p @ rq @ ''.''
         else lq @ fp_name p @ rq @ '' matches '' @ nat_digits (length (fp_candidates p)) @ '' '' @ noun @ ''s ('' @
           join '', '' (map sc_label (fp_candidates p)) @ ''). Rename one to search by name.'')"

section \<open>The plan\<close>

definition MIN_FULL_TEXT_LENGTH :: nat where "MIN_FULL_TEXT_LENGTH = 2"
definition PLAN_SNIPPET_LENGTH :: nat where "PLAN_SNIPPET_LENGTH = 96"

datatype plan_status = PlanIdle | PlanBlocked | PlanReady

record search_plan =
  sp_parsed :: parsed_query
  sp_resolution :: filter_resolution
  sp_text :: string
  sp_allowedNoteIds :: "string list option"
  sp_fullTextLimit :: nat
  sp_requiresFullText :: bool
  sp_status :: plan_status

definition filter_sources :: "renderer_state \<Rightarrow> resolved_filter \<Rightarrow> string list" where
  "filter_sources s f =
     omap_getd [] (incomingReferences (st_references s)) (referenceKey (filter_reference (rf_kind f)) (rf_targetId f))"

definition length_cmp :: "string list \<Rightarrow> string list \<Rightarrow> int" where
  "length_cmp l r = int (length l) - int (length r)"

definition intersectReferencedNotes :: "renderer_state \<Rightarrow> filter_resolution \<Rightarrow> string list option" where
  "intersectReferencedNotes s resolution =
     (if fr_resolved resolution = [] then None
      else Some (case js_sort length_cmp (map (filter_sources s) (fr_resolved resolution)) of
          [] \<Rightarrow> []
        | smallest # others \<Rightarrow>
            fold (\<lambda>noteId allowed.
              if \<not> omap_has (st_nodes s) noteId then allowed
              else if list_all (\<lambda>sources. noteId \<in> set sources) others then oset_add noteId allowed
              else allowed) smallest []))"

definition planWorkspaceSearch :: "(string \<Rightarrow> string \<Rightarrow> number) \<Rightarrow> renderer_state \<Rightarrow> string \<Rightarrow> nat \<Rightarrow> search_plan" where
  "planWorkspaceSearch lc s raw limit =
     (let parsed = parseSearchQuery raw;
          resolution = resolveSearchFilters lc s (pq_filters parsed);
          allowed = intersectReferencedNotes s resolution;
          filtered = (allowed \<noteq> None);
          minimum = (if filtered then 1 else MIN_FULL_TEXT_LENGTH);
          requires = (minimum \<le> length (pq_text parsed));
          status = (if fr_problems resolution \<noteq> [] then PlanBlocked
                    else if \<not> filtered \<and> \<not> requires then PlanIdle else PlanReady)
      in \<lparr>sp_parsed = parsed, sp_resolution = resolution, sp_text = pq_text parsed,
          sp_allowedNoteIds = allowed, sp_fullTextLimit = limit,
          sp_requiresFullText = (status = PlanReady \<and> requires), sp_status = status\<rparr>)"

section \<open>Results\<close>

definition snippetFor :: "string \<Rightarrow> renderer_state \<Rightarrow> string \<Rightarrow> string" where
  "snippetFor ellipsis s noteId =
     (let markdown = (case omap_get (st_documents s) noteId of None \<Rightarrow> [] | Some d \<Rightarrow> dr_markdown d);
          flattened = js_trim (collapse markdown)
      in if length flattened \<le> PLAN_SNIPPET_LENGTH then flattened
         else trimEnd (take PLAN_SNIPPET_LENGTH flattened) @ ellipsis)"

definition updated_at :: "renderer_state \<Rightarrow> string \<Rightarrow> number" where
  "updated_at s noteId = (case omap_get (st_metadata s) noteId of None \<Rightarrow> 0 | Some m \<Rightarrow> md_updatedAt m)"

definition hit_cmp :: "(string \<Rightarrow> string \<Rightarrow> number) \<Rightarrow> renderer_state \<Rightarrow> search_hit \<Rightarrow> search_hit \<Rightarrow> number" where
  "hit_cmp lc s l r =
     (let u = updated_at s (sh_noteId r) - updated_at s (sh_noteId l)
      in if u \<noteq> 0 then u
         else if lc (sh_title l) (sh_title r) \<noteq> 0 then lc (sh_title l) (sh_title r)
         else lc (sh_noteId l) (sh_noteId r))"

definition filtered_hit :: "string \<Rightarrow> renderer_state \<Rightarrow> string \<Rightarrow> search_hit list" where
  "filtered_hit ellipsis s noteId =
     (case omap_get (st_metadata s) noteId of
        None \<Rightarrow> []
      | Some m \<Rightarrow> [\<lparr>sh_noteId = noteId, sh_title = md_title m, sh_snippet = snippetFor ellipsis s noteId, sh_score = 0\<rparr>])"

definition projectFilteredNotes :: "(string \<Rightarrow> string \<Rightarrow> number) \<Rightarrow> string \<Rightarrow> renderer_state \<Rightarrow> string list \<Rightarrow> nat \<Rightarrow> search_hit list" where
  "projectFilteredNotes lc ellipsis s allowed limit =
     take limit (js_sort (hit_cmp lc s) (concat (map (filtered_hit ellipsis s) allowed)))"

definition applySearchPlan :: "(string \<Rightarrow> string \<Rightarrow> number) \<Rightarrow> string \<Rightarrow> renderer_state \<Rightarrow> search_plan \<Rightarrow> search_hit list \<Rightarrow> nat \<Rightarrow> search_hit list" where
  "applySearchPlan lc ellipsis s plan hits limit =
     (if sp_status plan \<noteq> PlanReady then []
      else if \<not> sp_requiresFullText plan
      then (case sp_allowedNoteIds plan of None \<Rightarrow> [] | Some allowed \<Rightarrow> projectFilteredNotes lc ellipsis s allowed limit)
      else take limit
        (case sp_allowedNoteIds plan of None \<Rightarrow> hits | Some allowed \<Rightarrow> filter (\<lambda>h. sh_noteId h \<in> set allowed) hits))"

end
