(* ===== verification/Search_Theorems.thy ===== *)
theory Search_Theorems
  imports Search_Query "HOL-Library.Sublist"
begin

text \<open>
  The query parser against its documentation: what a parsed query always satisfies, and that a
  query written out from its terms and filters, quoted or escaped, parses back to them.
\<close>

section \<open>Every parsed query\<close>

lemma read_quoted_suffix: "suffix (rv_rest (read_quoted s)) s"
  by (induction s rule: read_quoted.induct) (auto simp: push_char_def intro: suffix_ConsI)

lemma read_bare_suffix: "suffix (rv_rest (read_bare s)) s"
  by (induction s rule: read_bare.induct) (auto simp: push_char_def intro: suffix_ConsI)

lemma readValue_suffix: "suffix (rv_rest (readValue s)) s"
  using read_quoted_suffix [of "tl s"] read_bare_suffix [of s]
  by (cases s) (auto simp: readValue_def intro: suffix_ConsI)

lemma filterStart_suffix: "filterStart s = Some (kind, r) \<Longrightarrow> suffix r s"
  by (auto simp: filterStart_def suffix_drop split: list.splits option.splits intro: suffix_ConsI)

definition parse_ok :: "string \<Rightarrow> parse_state \<Rightarrow> bool" where
  "parse_ok raw p \<longleftrightarrow>
     distinct (ps_seen p) \<and>
     ps_seen p = map (\<lambda>f. dedupe_key (sf_kind f) (sf_key f)) (ps_filters p) \<and>
     (\<forall>f \<in> set (ps_filters p). sf_name f \<noteq> [] \<and> collapse (js_trim (sf_name f)) = sf_name f \<and>
        sf_key f = toLowerCase (sf_name f)) \<and>
     [] \<notin> set (ps_terms p) \<and>
     (\<forall>i \<in> set (ps_incomplete p). str_includes raw (if_raw i))"

lemma dedupe_key_inj: "dedupe_key k a = dedupe_key k' b \<longleftrightarrow> k = k' \<and> a = b"
  by (cases k; cases k') (auto simp: dedupe_key_def)

lemma add_term_ok: "parse_ok raw p \<Longrightarrow> parse_ok raw (add_term v p)"
  by (auto simp: parse_ok_def add_term_def)

lemma read_filter_ok:
  assumes ok: "parse_ok raw p" and token: "suffix token raw" and rest: "suffix (rv_rest parsed) token"
  shows "parse_ok raw (read_filter kind token parsed p)"
proof -
  let ?name = "collapse (js_trim (rv_value parsed))"
  from token rest obtain pre u where pre: "raw = pre @ token" and u: "token = u @ rv_rest parsed"
    by (auto simp: suffix_def)
  have take: "take (length token - length (rv_rest parsed)) token = u" by (simp add: u)
  have inc: "str_includes raw u" unfolding includes_iff pre u by blast
  have name: "normalizeEntityName ?name = toLowerCase ?name" by (simp add: normalizeEntityName_def)
  show ?thesis
    using ok inc by (auto simp: read_filter_def add_filter_def parse_ok_def Let_def name take)
qed

lemma parse_loop_ok: "parse_ok raw p \<Longrightarrow> suffix s raw \<Longrightarrow> parse_ok raw (parse_loop s p)"
proof (induction s p rule: parse_loop.induct)
  case (1 p)
  then show ?case by (simp add: parse_loop.simps)
next
  case (2 c s p)
  have s: "suffix s raw" using "2.prems"(2) by (rule suffix_ConsD)
  show ?case
  proof (cases "js_space c")
    case True
    from "2.IH"(1) [OF True "2.prems"(1) s] True show ?thesis by (simp add: parse_loop.simps)
  next
    case sp: False
    show ?thesis
    proof (cases "filterStart (c # s)")
      case None
      let ?t = "readValue (c # s)"
      have "suffix (if length (rv_rest ?t) < length (c # s) then rv_rest ?t else s) raw"
        using s suffix_order.trans [OF readValue_suffix "2.prems"(2)] by simp
      from "2.IH"(2) [OF sp None refl add_term_ok [OF "2.prems"(1)] this] show ?thesis
        using sp None by (simp add: parse_loop.simps Let_def)
    next
      case (Some kr)
      obtain kind r where kr: "kr = (kind, r)" by force
      from Some kr have f: "filterStart (c # s) = Some (kind, r)" by simp
      have rest: "suffix (rv_rest (readValue r)) (c # s)"
        using suffix_order.trans [OF readValue_suffix filterStart_suffix [OF f]] .
      from "2.IH"(3) [OF sp f refl refl read_filter_ok [OF "2.prems" rest, of kind] suffix_order.trans [OF rest "2.prems"(2)]]
      show ?thesis using sp f by (simp add: parse_loop.simps Let_def)
    qed
  qed
qed

lemma parse_start_ok:
  "parse_ok raw (parse_loop raw \<lparr>ps_terms = [], ps_filters = [], ps_incomplete = [], ps_seen = []\<rparr>)"
  by (rule parse_loop_ok) (simp_all add: parse_ok_def)

lemma parsed_keys: "list_all (\<lambda>f. sf_key f \<noteq> []) (pq_filters (parseSearchQuery raw))"
  using parse_start_ok [of raw] by (auto simp: parseSearchQuery_def Let_def parse_ok_def list_all_iff toLowerCase_def)

theorem parsed_query_ok:
  "distinct (map (\<lambda>f. (sf_kind f, sf_key f)) (pq_filters (parseSearchQuery raw))) \<and>
   list_all (\<lambda>f. sf_name f \<noteq> [] \<and> collapse (js_trim (sf_name f)) = sf_name f \<and>
      sf_key f = normalizeEntityName (sf_name f)) (pq_filters (parseSearchQuery raw)) \<and>
   [] \<notin> set (pq_terms (parseSearchQuery raw)) \<and>
   pq_text (parseSearchQuery raw) = join '' '' (pq_terms (parseSearchQuery raw)) \<and>
   list_all (\<lambda>i. str_includes raw (if_raw i)) (pq_incomplete (parseSearchQuery raw))"
proof -
  let ?p0 = "\<lparr>ps_terms = [], ps_filters = [], ps_incomplete = [], ps_seen = []\<rparr>"
  note ok = parse_start_ok [of raw]
  then have "distinct (map (\<lambda>f. dedupe_key (sf_kind f) (sf_key f)) (ps_filters (parse_loop raw ?p0)))"
    unfolding parse_ok_def by metis
  then have "distinct (map (\<lambda>f. (sf_kind f, sf_key f)) (ps_filters (parse_loop raw ?p0)))"
    by (simp add: distinct_map inj_on_def dedupe_key_inj)
  with ok show ?thesis by (auto simp: parseSearchQuery_def Let_def parse_ok_def normalizeEntityName_def list_all_iff)
qed

section \<open>Writing a query out\<close>

text \<open>
  A token is written quoted, with the quote and the backslash escaped, or bare with every
  character escaped. Bare escaping protects white space, sigils and keyword prefixes alike.
\<close>

datatype query_token = QuotedTerm string | EscapedTerm string | FilterToken search_filter_kind string

definition escape_quoted :: "string \<Rightarrow> string" where
  "escape_quoted s = concat (map (\<lambda>c. if c = CHR 0x22 \<or> c = CHR 0x5C then [CHR 0x5C, c] else [c]) s)"

definition escape_bare :: "string \<Rightarrow> string" where
  "escape_bare s = concat (map (\<lambda>c. [CHR 0x5C, c]) s)"

definition quoted :: "string \<Rightarrow> string" where
  "quoted s = CHR 0x22 # escape_quoted s @ [CHR 0x22]"

fun sigil :: "search_filter_kind \<Rightarrow> char" where
  "sigil FTag = CHR ''#''"
| "sigil FPerson = CHR ''$''"

fun write_token :: "query_token \<Rightarrow> string" where
  "write_token (QuotedTerm t) = quoted t"
| "write_token (EscapedTerm t) = escape_bare t"
| "write_token (FilterToken kind name) = sigil kind # quoted name"

definition write_query :: "query_token list \<Rightarrow> string" where
  "write_query ts = join '' '' (map write_token ts)"

fun token_terms :: "query_token \<Rightarrow> string list" where
  "token_terms (FilterToken kind name) = []"
| "token_terms (QuotedTerm t) = [t]"
| "token_terms (EscapedTerm t) = [t]"

fun token_filters :: "query_token \<Rightarrow> search_filter list" where
  "token_filters (FilterToken kind name) = [\<lparr>sf_kind = kind, sf_name = name, sf_key = normalizeEntityName name\<rparr>]"
| "token_filters _ = []"

fun token_ok :: "query_token \<Rightarrow> bool" where
  "token_ok (FilterToken kind name) \<longleftrightarrow> name \<noteq> [] \<and> collapse (js_trim name) = name"
| "token_ok (QuotedTerm t) \<longleftrightarrow> t \<noteq> []"
| "token_ok (EscapedTerm t) \<longleftrightarrow> t \<noteq> []"

definition token_ends :: "string \<Rightarrow> bool" where
  "token_ends s \<longleftrightarrow> s = [] \<or> js_space (hd s)"

lemma read_quoted_written:
  "read_quoted (escape_quoted t @ CHR 0x22 # s) = \<lparr>rv_value = t, rv_rest = s, rv_unterminated = False\<rparr>"
proof (induction t)
  case Nil
  show ?case by (cases s) (simp_all add: escape_quoted_def)
next
  case (Cons c t)
  show ?case
  proof (cases "c = CHR 0x22 \<or> c = CHR 0x5C")
    case True
    with Cons show ?thesis by (auto simp: escape_quoted_def push_char_def)
  next
    case False
    obtain d u where "escape_quoted t @ CHR 0x22 # s = d # u" by (cases "escape_quoted t") auto
    with Cons False show ?thesis by (simp add: escape_quoted_def push_char_def)
  qed
qed

lemma readValue_quoted: "readValue (quoted t @ s) = \<lparr>rv_value = t, rv_rest = s, rv_unterminated = False\<rparr>"
  by (simp add: readValue_def quoted_def read_quoted_written)

lemma read_bare_written:
  "token_ends s \<Longrightarrow> read_bare (escape_bare t @ s) = \<lparr>rv_value = t, rv_rest = s, rv_unterminated = False\<rparr>"
proof (induction t)
  case Nil
  have "\<not> js_space (CHR 0x5C)" by (simp add: js_space_def)
  with Nil show ?case by (cases s rule: read_bare.cases) (auto simp: escape_bare_def token_ends_def)
qed (simp add: escape_bare_def push_char_def)

lemma filterStart_other:
  "c \<in> {CHR 0x22, CHR 0x5C} \<Longrightarrow> filterStart (c # s) = None"
  by (auto simp: filterStart_def SIGILS_def KEYWORD_PREFIXES_def startsWith_def toLowerCase_def lower_char_def)

lemma filterStart_sigil: "filterStart (sigil kind # s) = Some (kind, s)"
  by (cases kind) (simp_all add: filterStart_def SIGILS_def)

fun read_token :: "query_token \<Rightarrow> parse_state \<Rightarrow> parse_state" where
  "read_token (FilterToken kind name) p = add_filter kind name p"
| "read_token (QuotedTerm t) p = add_term t p"
| "read_token (EscapedTerm t) p = add_term t p"

lemma not_space: "\<not> js_space (CHR 0x22)" "\<not> js_space (CHR 0x5C)" "\<not> js_space (sigil kind)"
  by (simp_all add: js_space_def) (cases kind; simp add: js_space_def)

lemma parse_token:
  assumes "token_ok t" and "token_ends s"
  shows "parse_loop (write_token t @ s) p = parse_loop s (read_token t p)"
proof (cases t)
  case (QuotedTerm v)
  have "parse_loop (quoted v @ s) p = parse_loop s (add_term v p)"
    using readValue_quoted [of v s] filterStart_other [of "CHR 0x22" "escape_quoted v @ CHR 0x22 # s"] not_space
    by (simp add: quoted_def parse_loop.simps(2))
  with QuotedTerm show ?thesis by simp
next
  case (EscapedTerm v)
  with assms obtain c v' where v: "v = c # v'" by (cases v) auto
  have "readValue (escape_bare v @ s) = \<lparr>rv_value = v, rv_rest = s, rv_unterminated = False\<rparr>"
    using read_bare_written [OF assms(2), of v] by (simp add: readValue_def v escape_bare_def)
  then have "parse_loop (escape_bare v @ s) p = parse_loop s (add_term v p)"
    using filterStart_other [of "CHR 0x5C"] not_space by (simp add: v escape_bare_def parse_loop.simps(2))
  with EscapedTerm show ?thesis by simp
next
  case (FilterToken kind name)
  with assms have name: "name \<noteq> []" "collapse (js_trim name) = name" by simp_all
  have "parse_loop (sigil kind # quoted name @ s) p = parse_loop s (add_filter kind name p)"
    using readValue_quoted [of name s] not_space(3) [of kind] name
    by (simp add: parse_loop.simps(2) filterStart_sigil Let_def read_filter_def del: collapse_nil)
  with FilterToken show ?thesis by simp
qed

lemma parse_tokens:
  "list_all token_ok ts \<Longrightarrow> parse_loop (write_query ts) p = fold read_token ts p"
proof (induction ts arbitrary: p)
  case Nil
  then show ?case by (simp add: write_query_def parse_loop.simps)
next
  case (Cons t ts)
  show ?case
  proof (cases ts)
    case Nil
    with Cons.prems parse_token [of t "[]" p] show ?thesis
      by (simp add: write_query_def token_ends_def parse_loop.simps)
  next
    case (Cons t' ts')
    have "write_query (t # ts) = write_token t @ '' '' @ write_query ts"
      by (simp add: write_query_def Cons)
    moreover have "token_ends ('' '' @ write_query ts)" by (simp add: token_ends_def js_space_def)
    moreover have "parse_loop ('' '' @ w) q = parse_loop w q" for w q
      by (simp add: parse_loop.simps(2) js_space_def)
    ultimately show ?thesis using parse_token [of t "'' '' @ write_query ts" p] Cons.prems Cons.IH by simp
  qed
qed

lemma read_tokens:
  "distinct (ps_seen p @ map (\<lambda>f. dedupe_key (sf_kind f) (sf_key f)) (concat (map token_filters ts))) \<Longrightarrow>
   list_all token_ok ts \<Longrightarrow>
   fold read_token ts p = p\<lparr>ps_terms := ps_terms p @ concat (map token_terms ts),
     ps_filters := ps_filters p @ concat (map token_filters ts),
     ps_seen := ps_seen p @ map (\<lambda>f. dedupe_key (sf_kind f) (sf_key f)) (concat (map token_filters ts))\<rparr>"
proof (induction ts arbitrary: p)
  case (Cons t ts)
  show ?case
  proof (cases t)
    case (FilterToken kind name)
    with Cons show ?thesis by (simp add: add_filter_def Let_def)
  qed (use Cons in \<open>simp_all add: add_term_def\<close>)
qed simp

text \<open>C39. A query written out from terms and filters, quoted or escaped, parses back to exactly those terms and filters.\<close>

theorem query_roundtrip:
  assumes "list_all token_ok tokens"
    and "distinct (map (\<lambda>f. (sf_kind f, sf_key f)) (concat (map token_filters tokens)))"
  shows "parseSearchQuery (write_query tokens) =
    \<lparr>pq_text = join '' '' (concat (map token_terms tokens)), pq_terms = concat (map token_terms tokens),
      pq_filters = concat (map token_filters tokens), pq_incomplete = []\<rparr>"
proof -
  have "distinct (map (\<lambda>f. dedupe_key (sf_kind f) (sf_key f)) (concat (map token_filters tokens)))"
    using assms(2) by (simp add: distinct_map inj_on_def dedupe_key_inj)
  then show ?thesis using assms(1) by (simp add: parseSearchQuery_def Let_def parse_tokens read_tokens)
qed

theorem query_roundtrip_witness:
  "parseSearchQuery (write_query [FilterToken FTag ''Design system'', EscapedTerm ''#literal'', QuotedTerm ''a b'']) =
    \<lparr>pq_text = ''#literal a b'', pq_terms = [''#literal'', ''a b''],
      pq_filters = [\<lparr>sf_kind = FTag, sf_name = ''Design system'', sf_key = ''design system''\<rparr>], pq_incomplete = []\<rparr>"
proof -
  let ?ts = "[FilterToken FTag ''Design system'', EscapedTerm ''#literal'', QuotedTerm ''a b'']"
  have key: "normalizeEntityName ''Design system'' = ''design system''" by code_simp
  have "list_all token_ok ?ts" by code_simp
  then show ?thesis using query_roundtrip [of ?ts] by (simp add: key)
qed

end
