(* ===== verification/Plan_Theorems.thy ===== *)
theory Plan_Theorems
  imports Search_Plan Search_Theorems Store_Theorems
begin

text \<open>
  What a search plan promises: a name is resolved only when it is unique, the allowed notes are
  the intersection of the filters' backlinks whatever order they are taken in, and no result
  escapes the filters, the limit or the trash.
\<close>

section \<open>Resolution\<close>

definition named_entities :: "renderer_state \<Rightarrow> search_filter \<Rightarrow> (string \<times> string) list" where
  "named_entities s f = filter (\<lambda>(i, name). normalizeEntityName name = sf_key f) (entity_names s (sf_kind f))"

lemma name_index_get:
  "k \<noteq> [] \<Longrightarrow> omap_getd [] (nameIndex lc source) k =
    js_sort (candidate_cmp lc) (map (\<lambda>(i, name). \<lparr>sc_id = i, sc_label = name\<rparr>)
      (filter (\<lambda>(i, name). normalizeEntityName name = k) source))"
proof -
  assume "k \<noteq> []"
  then have "filter (\<lambda>x. (case x of (i, name) \<Rightarrow> normalizeEntityName name \<noteq> []) \<and>
      (case x of (i, name) \<Rightarrow> normalizeEntityName name) = k) source =
    filter (\<lambda>(i, name). normalizeEntityName name = k) source"
    by (intro filter_cong) auto
  then show ?thesis unfolding nameIndex_def by (subst omap_getd_map_snd) (simp_all add: group_by_get)
qed

lemma candidates_eq:
  "sf_key f \<noteq> [] \<Longrightarrow> filter_candidates lc s f =
    js_sort (candidate_cmp lc) (map (\<lambda>(i, name). \<lparr>sc_id = i, sc_label = name\<rparr>) (named_entities s f))"
  by (simp add: filter_candidates_def named_entities_def name_index_get)

abbreviation resolve_alone :: "(string \<Rightarrow> string \<Rightarrow> number) \<Rightarrow> renderer_state \<Rightarrow> search_filter \<Rightarrow> filter_resolution" where
  "resolve_alone lc s f \<equiv> resolve_one lc s f \<lparr>fr_resolved = [], fr_problems = []\<rparr>"

lemma resolve_one_acc:
  "resolve_one lc s f acc =
    \<lparr>fr_resolved = fr_resolved acc @ fr_resolved (resolve_alone lc s f),
     fr_problems = fr_problems acc @ fr_problems (resolve_alone lc s f)\<rparr>"
  by (cases acc) (simp add: resolve_one_def split: list.split)

lemma fold_resolve:
  "fold (resolve_one lc s) fs acc =
    \<lparr>fr_resolved = fr_resolved acc @ concat (map (\<lambda>f. fr_resolved (resolve_alone lc s f)) fs),
     fr_problems = fr_problems acc @ concat (map (\<lambda>f. fr_problems (resolve_alone lc s f)) fs)\<rparr>"
proof (induction fs arbitrary: acc)
  case (Cons f fs)
  show ?case unfolding fold_simps Cons.IH by (subst (1 2) resolve_one_acc) simp
qed simp

text \<open>Each filter in turn: resolved when one entity has its name, a problem that lists all of them
  otherwise.\<close>

definition resolves_to :: "renderer_state \<Rightarrow> search_filter \<Rightarrow> resolved_filter list" where
  "resolves_to s f =
     (case named_entities s f of
        [(i, name)] \<Rightarrow> [\<lparr>rf_kind = sf_kind f, rf_name = sf_name f, rf_targetId = i, rf_label = name\<rparr>]
      | _ \<Rightarrow> [])"

definition problem_of :: "renderer_state \<Rightarrow> search_filter \<Rightarrow> filter_problem \<Rightarrow> bool" where
  "problem_of s f p \<longleftrightarrow>
     fp_kind p = sf_kind f \<and> fp_name p = sf_name f \<and> length (named_entities s f) \<noteq> 1 \<and>
     fp_reason p = (if named_entities s f = [] then UnknownName else AmbiguousName) \<and>
     (\<lambda>c. (sc_id c, sc_label c)) ` set (fp_candidates p) = set (named_entities s f)"

lemma resolve_one_spec:
  assumes "sf_key f \<noteq> []"
  shows "fr_resolved (resolve_one lc s f \<lparr>fr_resolved = [], fr_problems = []\<rparr>) = resolves_to s f \<and>
    list_all2 (problem_of s) (if length (named_entities s f) = 1 then [] else [f])
      (fr_problems (resolve_one lc s f \<lparr>fr_resolved = [], fr_problems = []\<rparr>))"
proof -
  let ?c = "filter_candidates lc s f" and ?n = "named_entities s f"
  have len: "length ?c = length ?n" by (simp add: candidates_eq [OF assms])
  have set: "(\<lambda>c. (sc_id c, sc_label c)) ` set ?c = set ?n"
    by (simp add: candidates_eq [OF assms] image_image case_prod_unfold)
  show ?thesis
  proof (cases ?n)
    case Nil
    with len have "?c = []" by simp
    with Nil show ?thesis by (simp add: resolve_one_def resolves_to_def problem_of_def)
  next
    case (Cons e es)
    show ?thesis
    proof (cases es)
      case Nil
      with Cons have "?c = [\<lparr>sc_id = fst e, sc_label = snd e\<rparr>]"
        by (simp add: candidates_eq [OF assms] case_prod_unfold)
      with Cons Nil show ?thesis by (simp add: resolve_one_def resolves_to_def case_prod_unfold)
    next
      case (Cons e' es')
      with \<open>?n = e # es\<close> len obtain a b cs where c: "?c = a # b # cs" by (cases ?c; cases "tl ?c") auto
      with set \<open>?n = e # es\<close> Cons show ?thesis
        by (simp add: resolve_one_def resolves_to_def problem_of_def split: prod.split)
    qed
  qed
qed

lemma resolution_spec:
  assumes "list_all (\<lambda>f. sf_key f \<noteq> []) fs"
  shows "fr_resolved (resolveSearchFilters lc s fs) = concat (map (resolves_to s) fs) \<and>
    list_all2 (problem_of s) (filter (\<lambda>f. length (named_entities s f) \<noteq> 1) fs)
      (fr_problems (resolveSearchFilters lc s fs))"
proof -
  have "map (\<lambda>f. fr_resolved (resolve_alone lc s f)) fs = map (resolves_to s) fs"
    using assms resolve_one_spec by (auto simp: list_all_iff)
  then have "concat (map (\<lambda>f. fr_resolved (resolve_alone lc s f)) fs) = concat (map (resolves_to s) fs)"
    by (rule arg_cong)
  moreover have "list_all2 (problem_of s) (filter (\<lambda>f. length (named_entities s f) \<noteq> 1) fs)
      (concat (map (\<lambda>f. fr_problems (resolve_alone lc s f)) fs))"
    using assms
  proof (induction fs)
    case (Cons f fs)
    then have ih: "list_all2 (problem_of s) (filter (\<lambda>f. length (named_entities s f) \<noteq> 1) fs)
      (concat (map (\<lambda>f. fr_problems (resolve_alone lc s f)) fs))" by simp
    have one: "list_all2 (problem_of s) (if length (named_entities s f) = 1 then [] else [f]) (fr_problems (resolve_alone lc s f))"
      using resolve_one_spec [of f lc s] Cons.prems by simp
    have "filter (\<lambda>f. length (named_entities s f) \<noteq> 1) (f # fs) =
        (if length (named_entities s f) = 1 then [] else [f]) @ filter (\<lambda>f. length (named_entities s f) \<noteq> 1) fs" by simp
    with list_all2_appendI [OF one ih] show ?case by (simp only: list.map concat.simps)
  qed simp
  ultimately show ?thesis by (simp add: resolveSearchFilters_def fold_resolve)
qed

section \<open>Allowed notes\<close>

lemma intersect_fold:
  "set (fold (\<lambda>i allowed. if \<not> has i then allowed else if ok i then oset_add i allowed else allowed) xs acc) =
     set acc \<union> {i \<in> set xs. has i \<and> ok i} \<and>
   (distinct acc \<longrightarrow> distinct (fold (\<lambda>i allowed. if \<not> has i then allowed else if ok i then oset_add i allowed else allowed) xs acc))"
  by (induction xs arbitrary: acc) auto

lemma intersect_spec:
  assumes "fr_resolved res \<noteq> []"
  shows "\<exists>ids. intersectReferencedNotes s res = Some ids \<and> distinct ids \<and>
    set ids = {i. omap_has (st_nodes s) i \<and> (\<forall>f \<in> set (fr_resolved res). i \<in> set (filter_sources s f))}"
proof -
  let ?lists = "map (filter_sources s) (fr_resolved res)"
  obtain smallest others where sorted: "js_sort length_cmp ?lists = smallest # others"
    using assms by (metis js_sort_length length_0_conv list.exhaust map_is_Nil_conv)
  then have members: "set ?lists = insert smallest (set others)" by (metis js_sort_set list.simps(15))
  let ?ids = "fold (\<lambda>i allowed. if \<not> omap_has (st_nodes s) i then allowed
      else if list_all (\<lambda>sources. i \<in> set sources) others then oset_add i allowed else allowed) smallest []"
  have "set ?ids = {i \<in> set smallest. omap_has (st_nodes s) i \<and> list_all (\<lambda>sources. i \<in> set sources) others}"
    and "distinct ?ids"
    using intersect_fold [of "omap_has (st_nodes s)" "\<lambda>i. list_all (\<lambda>sources. i \<in> set sources) others" smallest "[]"] by simp_all
  moreover have "(\<forall>f \<in> set (fr_resolved res). i \<in> set (filter_sources s f)) \<longleftrightarrow>
      i \<in> set smallest \<and> list_all (\<lambda>sources. i \<in> set sources) others" for i
  proof -
    have "(\<forall>f \<in> set (fr_resolved res). i \<in> set (filter_sources s f)) \<longleftrightarrow> (\<forall>l \<in> set ?lists. i \<in> set l)" by simp
    then show ?thesis unfolding members by (simp add: list_all_iff)
  qed
  moreover have "intersectReferencedNotes s res = Some ?ids"
    using assms sorted by (simp add: intersectReferencedNotes_def)
  ultimately show ?thesis by auto
qed

section \<open>Plans\<close>

lemma plan_fields:
  "sp_parsed (planWorkspaceSearch lc s raw limit) = parseSearchQuery raw"
  "sp_resolution (planWorkspaceSearch lc s raw limit) = resolveSearchFilters lc s (pq_filters (parseSearchQuery raw))"
  "sp_allowedNoteIds (planWorkspaceSearch lc s raw limit) =
     intersectReferencedNotes s (resolveSearchFilters lc s (pq_filters (parseSearchQuery raw)))"
  "sp_status (planWorkspaceSearch lc s raw limit) = PlanBlocked \<longleftrightarrow>
     fr_problems (resolveSearchFilters lc s (pq_filters (parseSearchQuery raw))) \<noteq> []"
  by (simp_all add: planWorkspaceSearch_def Let_def)

theorem filters_never_guessed:
  "fr_resolved (sp_resolution (planWorkspaceSearch lc s raw limit)) =
     concat (map (resolves_to s) (pq_filters (parseSearchQuery raw))) \<and>
   list_all2 (problem_of s) (filter (\<lambda>f. length (named_entities s f) \<noteq> 1) (pq_filters (parseSearchQuery raw)))
     (fr_problems (sp_resolution (planWorkspaceSearch lc s raw limit))) \<and>
   (sp_status (planWorkspaceSearch lc s raw limit) = PlanBlocked \<longleftrightarrow>
     list_ex (\<lambda>f. length (named_entities s f) \<noteq> 1) (pq_filters (parseSearchQuery raw)))"
proof -
  let ?fs = "pq_filters (parseSearchQuery raw)"
  note spec = resolution_spec [OF parsed_keys, of lc s raw]
  then have "length (fr_problems (resolveSearchFilters lc s ?fs)) = length (filter (\<lambda>f. length (named_entities s f) \<noteq> 1) ?fs)"
    by (metis list_all2_lengthD)
  then have "fr_problems (resolveSearchFilters lc s ?fs) \<noteq> [] \<longleftrightarrow> list_ex (\<lambda>f. length (named_entities s f) \<noteq> 1) ?fs"
    by (metis (no_types, lifting) filter_empty_conv length_0_conv list_ex_iff)
  with spec show ?thesis unfolding plan_fields by blast
qed

theorem allowed_is_intersection:
  "map_option set (sp_allowedNoteIds (planWorkspaceSearch lc s raw limit)) =
     (if fr_resolved (sp_resolution (planWorkspaceSearch lc s raw limit)) = [] then None
      else Some {i. omap_has (st_nodes s) i \<and>
        list_all (\<lambda>f. i \<in> set (filter_sources s f)) (fr_resolved (sp_resolution (planWorkspaceSearch lc s raw limit)))}) \<and>
   pred_option distinct (sp_allowedNoteIds (planWorkspaceSearch lc s raw limit))"
proof (cases "fr_resolved (resolveSearchFilters lc s (pq_filters (parseSearchQuery raw))) = []")
  case True
  then show ?thesis by (simp add: plan_fields intersectReferencedNotes_def)
next
  case False
  from intersect_spec [OF this, of s] False show ?thesis unfolding plan_fields list_all_iff by force
qed

text \<open>A row of the node index is not in the trash.\<close>

lemma row_available:
  assumes "view_ok s" and "omap_has (st_nodes s) i"
  shows "omap_has (st_sourceNodes s) i \<and> \<not> hidden (omap_values (st_sourceNodes s)) i"
proof -
  from assms(1) obtain ordered where n: "nodes_ok (st_sourceNodes s)" and r: "rows_ok s ordered" by (auto simp: view_ok_def)
  from rows_facts(1) [OF n r] assms(2) obtain x where x: "x \<in> set ordered" "n_id x = i" by auto
  have o: "orderAvailableNodes (omap_values (st_sourceNodes s)) = Some ordered" using r by (simp add: rows_ok_def)
  note named = nodes_ok_named [OF n, unfolded named_def]
  have "x \<in> set (available (omap_values (st_sourceNodes s)))"
    using order_correct [of "omap_values (st_sourceNodes s)"] named o x(1) by auto
  then have "i \<notin> set (unavailableNodeIds (omap_values (st_sourceNodes s)))" using x(2) by (simp add: available_def)
  then have "\<not> hidden (omap_values (st_sourceNodes s)) i"
    using unavailable_hidden [of "omap_values (st_sourceNodes s)"] named by blast
  moreover have "omap_get (st_sourceNodes s) i = Some x" using ordered_facts(3) [OF n o x(1)] x(2) by simp
  ultimately show ?thesis by (simp add: omap_has_get)
qed

lemma projected_ids:
  "h \<in> set (projectFilteredNotes lc ellipsis s allowed limit) \<Longrightarrow> sh_noteId h \<in> set allowed"
  unfolding projectFilteredNotes_def
  by (auto dest!: in_set_takeD simp: filtered_hit_def split: option.splits)

text \<open>C35. A search result of a query with filters is never trashed, lies in the workspace, and refers to the one entity each filter names, also when the full-text engine returns other hits.\<close>

theorem results_within_plan:
  assumes "view_ok s" and "pq_filters (parseSearchQuery raw) \<noteq> []"
    and "h \<in> set (applySearchPlan lc ellipsis s (planWorkspaceSearch lc s raw limit) hits n)"
  shows "\<not> hidden (omap_values (st_sourceNodes s)) (sh_noteId h) \<and> omap_has (st_sourceNodes s) (sh_noteId h) \<and>
    (\<forall>f \<in> set (pq_filters (parseSearchQuery raw)). \<exists>i name. named_entities s f = [(i, name)] \<and>
      sh_noteId h \<in> set (omap_getd [] (incomingReferences (st_references s)) (referenceKey (filter_reference (sf_kind f)) i)))"
proof -
  let ?fs = "pq_filters (parseSearchQuery raw)" and ?plan = "planWorkspaceSearch lc s raw limit"
  let ?res = "resolveSearchFilters lc s ?fs"
  note spec = resolution_spec [OF parsed_keys, of lc s raw]
  have "sp_status ?plan \<noteq> PlanBlocked" using assms(3) by (auto simp: applySearchPlan_def split: if_splits)
  then have "fr_problems ?res = []" using plan_fields(4) by blast
  with spec have none: "filter (\<lambda>f. length (named_entities s f) \<noteq> 1) ?fs = []" by simp
  have unique: "\<exists>i name. named_entities s f = [(i, name)]" if "f \<in> set ?fs" for f
  proof -
    have "length (named_entities s f) = 1" using none that by (auto simp: filter_empty_conv)
    then show ?thesis by (cases "named_entities s f") auto
  qed
  have resolved: "\<lparr>rf_kind = sf_kind f, rf_name = sf_name f, rf_targetId = i, rf_label = name\<rparr> \<in> set (fr_resolved ?res)"
    if "f \<in> set ?fs" "named_entities s f = [(i, name)]" for f i name
    using that spec by (force simp: resolves_to_def)
  obtain f0 where "f0 \<in> set ?fs" using assms(2) by (meson list.set_sel(1))
  with unique resolved have "fr_resolved ?res \<noteq> []" by (metis empty_iff empty_set)
  from intersect_spec [OF this, of s] obtain ids where ids: "sp_allowedNoteIds ?plan = Some ids"
    "set ids = {i. omap_has (st_nodes s) i \<and> (\<forall>f \<in> set (fr_resolved ?res). i \<in> set (filter_sources s f))}"
    unfolding plan_fields by blast
  have "sh_noteId h \<in> set ids"
    using assms(3) ids(1) projected_ids by (auto simp: applySearchPlan_def split: if_splits dest: in_set_takeD)
  then have h: "omap_has (st_nodes s) (sh_noteId h)"
    "\<And>f. f \<in> set (fr_resolved ?res) \<Longrightarrow> sh_noteId h \<in> set (filter_sources s f)" using ids(2) by auto
  have "\<exists>i name. named_entities s f = [(i, name)] \<and>
      sh_noteId h \<in> set (omap_getd [] (incomingReferences (st_references s)) (referenceKey (filter_reference (sf_kind f)) i))"
    if f: "f \<in> set ?fs" for f
  proof -
    from unique [OF f] obtain i name where n: "named_entities s f = [(i, name)]" by blast
    from h(2) [OF resolved [OF f n]] n show ?thesis by (simp add: filter_sources_def)
  qed
  with row_available [OF assms(1) h(1)] show ?thesis by blast
qed

text \<open>The sample workspace with a tag \<open>t\<close>, named \<open>Design\<close>, that the note \<open>a\<close> and the trashed
  note \<open>x\<close> refer to.\<close>

definition tagged_state :: renderer_state where
  "tagged_state = sample_state\<lparr>
     st_tags := [(''t'', \<lparr>tag_id = ''t'', tag_name = ''Design'', tag_color = None, tag_createdAt = 0, tag_updatedAt = 0, tag_createdIn = None\<rparr>)],
     st_references := \<lparr>outgoingReferences = [], incomingReferences = [(''tag:t'', [''a'', ''x''])]\<rparr>\<rparr>"

lemma tagged_query: "parseSearchQuery ''#design'' =
  \<lparr>pq_text = [], pq_terms = [], pq_filters = [\<lparr>sf_kind = FTag, sf_name = ''design'', sf_key = ''design''\<rparr>], pq_incomplete = []\<rparr>"
  by code_simp

lemma tagged_resolution:
  "resolveSearchFilters unit_order tagged_state [\<lparr>sf_kind = FTag, sf_name = ''design'', sf_key = ''design''\<rparr>] =
    \<lparr>fr_resolved = [\<lparr>rf_kind = FTag, rf_name = ''design'', rf_targetId = ''t'', rf_label = ''Design''\<rparr>], fr_problems = []\<rparr>"
  by code_simp

lemma tagged_rows: "omap_has (st_nodes tagged_state) ''a''" "\<not> omap_has (st_nodes tagged_state) ''x''"
    "omap_has (st_metadata tagged_state) ''a''"
    "filter_sources tagged_state \<lparr>rf_kind = FTag, rf_name = ''design'', rf_targetId = ''t'', rf_label = ''Design''\<rparr> = [''a'', ''x'']"
  by code_simp+

theorem results_within_plan_witness:
  "map sh_noteId (applySearchPlan unit_order [] tagged_state (planWorkspaceSearch unit_order tagged_state ''#design'' 9) [] 9) = [''a''] \<and>
   \<not> hidden (omap_values (st_sourceNodes tagged_state)) ''a''"
proof -
  let ?hits = "applySearchPlan unit_order [] tagged_state (planWorkspaceSearch unit_order tagged_state ''#design'' 9) [] 9"
  obtain m where m: "omap_get (st_metadata tagged_state) ''a'' = Some m" using tagged_rows(3) by (auto simp: omap_has_get)
  have r: "map sh_noteId ?hits = [''a'']"
    by (simp add: applySearchPlan_def planWorkspaceSearch_def Let_def tagged_query tagged_resolution
        intersectReferencedNotes_def tagged_rows oset_add_def projectFilteredNotes_def filtered_hit_def m)
  have "''a'' \<in> set (map sh_noteId ?hits)" unfolding r by simp
  then obtain h where h: "h \<in> set ?hits" "sh_noteId h = ''a''" unfolding set_map by (elim imageE) simp
  have v: "view_ok tagged_state" using sample_view unfolding tagged_state_def by (simp only: view_ok_other)
  have f: "pq_filters (parseSearchQuery ''#design'') \<noteq> []" by (simp add: tagged_query)
  have "\<not> hidden (omap_values (st_sourceNodes tagged_state)) (sh_noteId h)"
    by (rule conjunct1 [OF results_within_plan [OF v f h(1)]])
  with r show ?thesis unfolding h(2) by blast
qed

end
