(* ===== verification/Snippets.thy ===== *)
theory Snippets
  imports Text_Ops
begin

text \<open>
  \<open>search/snippet.ts\<close>: splitting a full-text snippet into plain and matched runs. Writing the
  runs back gives the snippet, and runs whose texts hold no delimiter are read back as
  they were written.
\<close>

record snippet_segment =
  sg_text :: string
  sg_matched :: bool

definition OPEN :: string where "OPEN = ''<mark>''"
definition CLOSE :: string where "CLOSE = ''</mark>''"

definition plain_segment :: "string \<Rightarrow> snippet_segment list" where
  "plain_segment s = (if s = [] then [] else [\<lparr>sg_text = s, sg_matched = False\<rparr>])"

function snippetSegments :: "string \<Rightarrow> snippet_segment list" where
  "snippetSegments rest =
     (case indexOf rest OPEN of
        None \<Rightarrow> plain_segment rest
      | Some i \<Rightarrow>
          (let after = drop (i + length OPEN) rest
           in case indexOf after CLOSE of
                None \<Rightarrow> plain_segment rest
              | Some j \<Rightarrow>
                  plain_segment (take i rest) @ [\<lparr>sg_text = take j after, sg_matched = True\<rparr>] @
                  snippetSegments (drop (j + length CLOSE) after)))"
  by pat_completeness auto

termination snippetSegments
  by (relation "measure length") (auto simp: CLOSE_def dest!: indexOf_Some)

declare snippetSegments.simps [simp del]

definition snippetPlainText :: "string \<Rightarrow> string" where
  "snippetPlainText s = join [] (map sg_text (snippetSegments s))"

section \<open>Writing the runs back\<close>

definition write_segment :: "snippet_segment \<Rightarrow> string" where
  "write_segment g = (if sg_matched g then OPEN @ sg_text g @ CLOSE else sg_text g)"

text \<open>The runs of a snippet as the code makes them: no empty plain run, no two plain runs in a row,
  no delimiter inside a run.\<close>

fun segments_ok :: "snippet_segment list \<Rightarrow> bool" where
  "segments_ok [] \<longleftrightarrow> True"
| "segments_ok (g # gs) \<longleftrightarrow>
     (if sg_matched g then \<not> str_includes (sg_text g) CLOSE
      else sg_text g \<noteq> [] \<and> \<not> str_includes (sg_text g) OPEN \<and> (case gs of [] \<Rightarrow> True | h # _ \<Rightarrow> sg_matched h)) \<and>
     segments_ok gs"

lemma write_plain: "concat (map write_segment (plain_segment s)) = s"
  by (simp add: plain_segment_def write_segment_def)

lemma write_segments: "concat (map write_segment (snippetSegments s)) = s"
proof (induction s rule: snippetSegments.induct)
  case (1 s)
  show ?case
  proof (cases "indexOf s OPEN")
    case None
    then show ?thesis by (simp add: snippetSegments.simps write_plain)
  next
    case (Some i)
    let ?after = "drop (i + length OPEN) s"
    show ?thesis
    proof (cases "indexOf ?after CLOSE")
      case None
      with Some show ?thesis by (simp add: snippetSegments.simps Let_def write_plain)
    next
      case (Some j)
      note ih = "1.IH" [OF \<open>indexOf s OPEN = Some i\<close> refl Some]
      have "s = take i s @ OPEN @ ?after" using indexOf_Some [OF \<open>indexOf s OPEN = Some i\<close>] by blast
      moreover have "?after = take j ?after @ CLOSE @ drop (j + length CLOSE) ?after"
        using indexOf_Some [OF Some] by blast
      moreover have "concat (map write_segment (snippetSegments s)) =
          take i s @ OPEN @ take j ?after @ CLOSE @ drop (j + length CLOSE) ?after"
        by (subst snippetSegments.simps)
          (simp add: \<open>indexOf s OPEN = Some i\<close> Some Let_def write_plain ih write_segment_def [of "\<lparr>sg_text = _, sg_matched = True\<rparr>"] del: drop_drop)
      ultimately show ?thesis by metis
    qed
  qed
qed

text \<open>A delimiter starts with \<open><\<close> and has no other, so it cannot begin inside a text and end in the
  delimiter that follows.\<close>

lemma indexOf_at:
  assumes no: "\<not> str_includes t (d # ds)" and ds: "d \<notin> set ds"
  shows "indexOf (t @ (d # ds) @ r) (d # ds) = Some (length t)"
  using no
proof (induction t)
  case Nil
  then show ?case by (simp add: startsWith_def)
next
  case (Cons c t)
  have "\<not> startsWith ((c # t) @ (d # ds) @ r) (d # ds)"
  proof
    assume "startsWith ((c # t) @ (d # ds) @ r) (d # ds)"
    then have pre: "take (length (d # ds)) ((c # t) @ (d # ds) @ r) = d # ds" by (simp only: startsWith_def)
    show False
    proof (cases "length (d # ds) \<le> length (c # t)")
      case True
      with pre have "startsWith (c # t) (d # ds)" by (simp add: startsWith_def)
      with Cons.prems show False by simp
    next
      case False
      have "(d # ds) ! length (c # t) = take (length (d # ds)) ((c # t) @ (d # ds) @ r) ! length (c # t)"
        by (simp only: pre)
      also have "\<dots> = ((c # t) @ (d # ds) @ r) ! length (c # t)" using False by (intro nth_take) simp
      also have "\<dots> = d" using nth_append_length [of "c # t" d "ds @ r"] by simp
      finally have "ds ! length t = d" by simp
      moreover have "length t < length ds" using False by simp
      ultimately show False using ds nth_mem by metis
    qed
  qed
  with Cons show ?case by simp
qed

lemma open_at: "\<not> str_includes t OPEN \<Longrightarrow> indexOf (t @ OPEN @ r) OPEN = Some (length t)"
  unfolding OPEN_def by (rule indexOf_at) simp_all

lemma close_at: "\<not> str_includes t CLOSE \<Longrightarrow> indexOf (t @ CLOSE @ r) CLOSE = Some (length t)"
  unfolding CLOSE_def by (rule indexOf_at) simp_all

lemma read_matched:
  assumes "\<not> str_includes t OPEN" and "\<not> str_includes m CLOSE"
  shows "snippetSegments (t @ OPEN @ m @ CLOSE @ r) =
    plain_segment t @ \<lparr>sg_text = m, sg_matched = True\<rparr> # snippetSegments r"
  by (subst snippetSegments.simps) (simp add: open_at [OF assms(1)] close_at [OF assms(2)])

lemma write_matched: "sg_matched g \<Longrightarrow> write_segment g = OPEN @ sg_text g @ CLOSE"
  and write_unmatched: "\<not> sg_matched g \<Longrightarrow> write_segment g = sg_text g"
  by (simp_all add: write_segment_def)

lemma segment_eq: "\<lparr>sg_text = sg_text g, sg_matched = sg_matched g\<rparr> = g"
  by (cases g) simp

lemma nothing_included: "\<not> str_includes [] OPEN" by (simp add: OPEN_def)

lemma read_segments: "segments_ok gs \<Longrightarrow> snippetSegments (concat (map write_segment gs)) = gs"
proof (induction gs rule: segments_ok.induct)
  case 1
  then show ?case by (simp add: snippetSegments.simps OPEN_def plain_segment_def)
next
  case (2 g gs)
  show ?case
  proof (cases "sg_matched g")
    case True
    with 2 have "snippetSegments (concat (map write_segment gs)) = gs" "\<not> str_includes (sg_text g) CLOSE" by auto
    with True read_matched [OF nothing_included, of "sg_text g" "concat (map write_segment gs)"]
    show ?thesis using segment_eq [of g] by (simp add: write_matched plain_segment_def)
  next
    case False
    show ?thesis
    proof (cases gs)
      case Nil
      with 2 False show ?thesis
        using segment_eq [of g] by (simp add: snippetSegments.simps write_unmatched plain_segment_def indexOf_None [symmetric])
    next
      case (Cons h hs)
      with 2 False have h: "sg_matched h" "\<not> str_includes (sg_text h) CLOSE" "\<not> str_includes (sg_text g) OPEN" by auto
      have w: "concat (map write_segment (h # hs)) = OPEN @ sg_text h @ CLOSE @ concat (map write_segment hs)"
        using h(1) by (simp add: write_matched)
      have "snippetSegments (concat (map write_segment gs)) = gs" using 2 by simp
      then have tl: "snippetSegments (concat (map write_segment hs)) = hs"
        unfolding Cons w using read_matched [OF nothing_included h(2)] by (simp add: plain_segment_def)
      then show ?thesis
        using 2(2) False h read_matched [OF h(3,2), of "concat (map write_segment hs)"] w segment_eq [of g] segment_eq [of h]
        by (simp add: Cons write_unmatched write_matched plain_segment_def)
    qed
  qed
qed

theorem snippet_roundtrip:
  "concat (map write_segment (snippetSegments s)) = s \<and>
   (segments_ok gs \<longrightarrow> snippetSegments (concat (map write_segment gs)) = gs \<and>
      snippetPlainText (concat (map write_segment gs)) = concat (map sg_text gs))"
proof -
  have "join [] xs = concat xs" for xs :: "string list"
    by (induction "[] :: string" xs rule: join.induct) auto
  then show ?thesis by (simp add: write_segments read_segments snippetPlainText_def)
qed

theorem snippet_roundtrip_witness:
  "snippetSegments ''see <mark>this</mark> one'' =
    [\<lparr>sg_text = ''see '', sg_matched = False\<rparr>, \<lparr>sg_text = ''this'', sg_matched = True\<rparr>,
     \<lparr>sg_text = '' one'', sg_matched = False\<rparr>]"
proof -
  let ?gs = "[\<lparr>sg_text = ''see '', sg_matched = False\<rparr>, \<lparr>sg_text = ''this'', sg_matched = True\<rparr>,
     \<lparr>sg_text = '' one'', sg_matched = False\<rparr>]"
  have "segments_ok ?gs" by code_simp
  moreover have "concat (map write_segment ?gs) = ''see <mark>this</mark> one''" by code_simp
  ultimately show ?thesis using snippet_roundtrip [of "[]" ?gs] by metis
qed

end
