(* ===== verification/Recurrence.thy ===== *)
theory Recurrence
  imports Dates Text_Ops
begin

text \<open>
  \<open>tasks/recurrence.ts\<close>: the repeat rules of tasks, their spellings and the next due date.
  \<open>UNIT_ALIASES\<close> is an object literal, so looking up a word also finds what every object
  inherits. Of the words the rule grammar admits only \<open>constructor\<close> is inherited, and
  \<open>UInherited\<close> stands for the function it finds.
\<close>

section \<open>Rules\<close>

datatype recurrence_unit = UDay | UWeek | UMonth | UYear | UInherited

datatype recurrence_rule = WeekdayRule | IntervalRule nat recurrence_unit

definition MAX_INTERVAL :: nat where "MAX_INTERVAL = 999"

definition UNIT_ALIASES :: "(string, recurrence_unit) omap" where
  "UNIT_ALIASES =
     [(''day'', UDay), (''days'', UDay), (''daily'', UDay),
      (''week'', UWeek), (''weeks'', UWeek), (''weekly'', UWeek),
      (''month'', UMonth), (''months'', UMonth), (''monthly'', UMonth),
      (''year'', UYear), (''years'', UYear), (''yearly'', UYear), (''annually'', UYear)]"

text \<open>\<open>UNIT_ALIASES[word]\<close> for a word of lower-case letters.\<close>

definition unit_alias :: "string \<Rightarrow> recurrence_unit option" where
  "unit_alias word =
     (case omap_get UNIT_ALIASES word of
        Some u \<Rightarrow> Some u
      | None \<Rightarrow> if word = ''constructor'' then Some UInherited else None)"

text \<open>A unit inside a template string; a function prints its source text.\<close>

fun unit_text :: "recurrence_unit \<Rightarrow> string" where
  "unit_text UDay = ''day''"
| "unit_text UWeek = ''week''"
| "unit_text UMonth = ''month''"
| "unit_text UYear = ''year''"
| "unit_text UInherited = ''function Object() { [native code] }''"

fun ADVERBS :: "recurrence_unit \<Rightarrow> string nullable" where
  "ADVERBS UDay = Present ''Daily''"
| "ADVERBS UWeek = Present ''Weekly''"
| "ADVERBS UMonth = Present ''Monthly''"
| "ADVERBS UYear = Present ''Yearly''"
| "ADVERBS UInherited = Undefined"

definition underscores_to_spaces :: "string \<Rightarrow> string" where
  "underscores_to_spaces s = map (\<lambda>c. if c = CHR ''_'' then CHR '' '' else c) s"

definition is_lower_letter :: "char \<Rightarrow> bool" where
  "is_lower_letter c \<longleftrightarrow> CHR ''a'' \<le> c \<and> c \<le> CHR ''z''"

text \<open>\<open>/^(?:(\d{1,3}) ?)?([a-z]+)$/\<close>: the optional count and the word.\<close>

definition match_count_unit :: "string \<Rightarrow> (string option \<times> string) option" where
  "match_count_unit s =
     (let digits = takeWhile is_digit s; r = dropWhile is_digit s;
          word = (case r of [] \<Rightarrow> [] | c # q \<Rightarrow> if digits \<noteq> [] \<and> c = CHR '' '' then q else r)
      in if length digits \<le> 3 \<and> word \<noteq> [] \<and> list_all is_lower_letter word
         then Some (if digits = [] then None else Some digits, word) else None)"

definition ruleFromWords :: "string \<Rightarrow> recurrence_rule option" where
  "ruleFromWords s =
     (let normalized = collapse (underscores_to_spaces (toLowerCase (js_trim s)))
      in if normalized = ''weekday'' \<or> normalized = ''weekdays'' then Some WeekdayRule
         else case match_count_unit normalized of
           None \<Rightarrow> None
         | Some (digits, word) \<Rightarrow>
             (let count = (case digits of None \<Rightarrow> 1 | Some ds \<Rightarrow> digits_value ds)
              in case unit_alias word of
                   None \<Rightarrow> None
                 | Some u \<Rightarrow> if count < 1 \<or> count > MAX_INTERVAL then None else Some (IntervalRule count u)))"

fun ruleText :: "recurrence_rule \<Rightarrow> string" where
  "ruleText WeekdayRule = ''every weekday''"
| "ruleText (IntervalRule count u) =
     (if count = 1 then ''every '' @ unit_text u else ''every '' @ nat_digits count @ '' '' @ unit_text u @ ''s'')"

text \<open>\<open>.\<close> matches any code unit below 256 but the line feed and the carriage return.\<close>

definition one_line :: "string \<Rightarrow> bool" where
  "one_line s \<longleftrightarrow> CHR 0x0A \<notin> set s \<and> CHR 0x0D \<notin> set s"

definition parseRule :: "string \<Rightarrow> recurrence_rule option" where
  "parseRule recurrence =
     (let r = drop 6 recurrence
      in if startsWith recurrence ''every '' \<and> r \<noteq> [] \<and> one_line r then ruleFromWords r else None)"

definition isRecurrence :: "string \<Rightarrow> bool" where
  "isRecurrence v = (case parseRule v of None \<Rightarrow> False | Some rule \<Rightarrow> ruleText rule = v)"

text \<open>\<open>/^every\s+(.+)$/i\<close> on a trimmed text, whose last character is no space.\<close>

definition normalizeRecurrence :: "string \<Rightarrow> string option" where
  "normalizeRecurrence text =
     (let t = js_trim text; r = drop 5 t; q = dropWhile js_space r
      in if toLowerCase (take 5 t) = ''every'' \<and> q \<noteq> r \<and> q \<noteq> [] \<and> one_line q
         then map_option ruleText (ruleFromWords q) else None)"

definition resolveRecurrenceExpression :: "string \<Rightarrow> string option" where
  "resolveRecurrenceExpression expression = map_option ruleText (ruleFromWords expression)"

section \<open>The next occurrence\<close>

definition addMonths :: "string \<Rightarrow> int \<Rightarrow> string" where
  "addMonths from_key months =
     (case parseDateKey from_key of
        None \<Rightarrow> dateKeyOf None
      | Some date \<Rightarrow>
          (case new_date (getFullYear date) (getMonth date + months) 1 of
             None \<Rightarrow> dateKeyOf None
           | Some target \<Rightarrow>
               (case new_date (getFullYear target) (getMonth target + 1) 0 of
                  None \<Rightarrow> dateKeyOf None
                | Some ending \<Rightarrow> dateKeyOf (setDate target (min (getDate date) (getDate ending))))))"

text \<open>\<open>null\<close> for no rule or no date; the switch over an inherited unit falls through to
  \<open>undefined\<close>.\<close>

definition nextOccurrence :: "string \<Rightarrow> string \<Rightarrow> string nullable" where
  "nextOccurrence recurrence from_key =
     (case parseRule recurrence of
        None \<Rightarrow> Null
      | Some rule \<Rightarrow>
          if \<not> isDateKey from_key then Null
          else case rule of
            WeekdayRule \<Rightarrow>
              Present (shift_by from_key (map_option (\<lambda>w. if w \<ge> 4 then 7 - w else 1) (mondayFirstWeekday from_key)))
          | IntervalRule count u \<Rightarrow>
              (case u of
                 UDay \<Rightarrow> Present (shiftDay from_key (int count))
               | UWeek \<Rightarrow> Present (shiftDay from_key (int count * 7))
               | UMonth \<Rightarrow> Present (addMonths from_key (int count))
               | UYear \<Rightarrow> Present (addMonths from_key (int count * 12))
               | UInherited \<Rightarrow> Undefined))"

definition formatRecurrenceLabel :: "string \<Rightarrow> string nullable" where
  "formatRecurrenceLabel recurrence =
     (case parseRule recurrence of
        None \<Rightarrow> Present recurrence
      | Some WeekdayRule \<Rightarrow> Present ''Weekdays''
      | Some (IntervalRule count u) \<Rightarrow>
          if count = 1 then ADVERBS u
          else Present (''Every '' @ nat_digits count @ '' '' @ unit_text u @ ''s''))"

end
