(* ===== verification/Recurrence_Theorems.thy ===== *)
theory Recurrence_Theorems
  imports Recurrence Date_Theorems
begin

text \<open>
  Repeat rules: the canonical spelling parses back to its rule, normalising any spelling gives the
  canonical one unless the unit was inherited, and the next occurrence is a later valid day.
\<close>

section \<open>Spellings\<close>

fun canonical :: "recurrence_rule \<Rightarrow> bool" where
  "canonical WeekdayRule \<longleftrightarrow> True"
| "canonical (IntervalRule count u) \<longleftrightarrow> 1 \<le> count \<and> count \<le> MAX_INTERVAL \<and> u \<noteq> UInherited"

definition plain_char :: "char \<Rightarrow> bool" where
  "plain_char c \<longleftrightarrow> is_digit c \<or> is_lower_letter c"

lemma plain_char_unit: "plain_char c \<longleftrightarrow> (48 \<le> (of_char c :: nat) \<and> (of_char c :: nat) \<le> 57) \<or>
    (97 \<le> (of_char c :: nat) \<and> (of_char c :: nat) \<le> 122)"
  by (simp add: plain_char_def is_digit_def is_lower_letter_def less_eq_char_def)

lemma plain_char_fixed:
  assumes "plain_char c"
  shows "lower_char c = c" "\<not> js_space c" "c \<noteq> CHR ''_''" "c \<noteq> CHR 0x0A" "c \<noteq> CHR 0x0D" "c \<noteq> CHR '' ''"
  using assms by (auto simp: plain_char_unit lower_char_def js_space_def Let_def)

text \<open>Words of plain characters between single spaces pass normalisation unchanged.\<close>

lemma collapse_plain: "list_all plain_char s \<Longrightarrow> collapse (s @ t) = s @ collapse t"
  by (induction s) (simp_all add: plain_char_fixed)

lemma plain_map: "list_all plain_char s \<Longrightarrow> toLowerCase s = s" "list_all plain_char s \<Longrightarrow> underscores_to_spaces s = s"
  by (induction s) (simp_all add: toLowerCase_def underscores_to_spaces_def plain_char_fixed)

lemma plain_trimmed: "list_all plain_char s \<Longrightarrow> list_all plain_char t \<Longrightarrow> s \<noteq> [] \<Longrightarrow> t \<noteq> [] \<Longrightarrow> js_trim (s @ u @ t) = s @ u @ t"
  by (rule trimmed_trim) (auto simp: trimmed_def plain_char_fixed list_all_iff)

lemma plain_normal:
  assumes "list_all plain_char s" and "s \<noteq> []"
  shows "collapse (underscores_to_spaces (toLowerCase (js_trim s))) = s"
proof -
  have "js_trim s = s" using assms by (intro trimmed_trim) (auto simp: trimmed_def plain_char_fixed list_all_iff)
  with assms(1) collapse_plain [OF assms(1), of "[]"] show ?thesis by (simp add: plain_map)
qed

lemma plain_pair_normal:
  assumes "list_all plain_char s" "list_all plain_char t" and "s \<noteq> []" "t \<noteq> []"
  shows "collapse (underscores_to_spaces (toLowerCase (js_trim (s @ '' '' @ t)))) = s @ '' '' @ t"
proof -
  have "js_trim (s @ '' '' @ t) = s @ '' '' @ t" by (rule plain_trimmed [OF assms])
  moreover have "underscores_to_spaces (toLowerCase (s @ '' '' @ t)) = s @ '' '' @ t"
    using plain_map [OF assms(1)] plain_map [OF assms(2)] by (simp add: toLowerCase_def underscores_to_spaces_def lower_char_def)
  moreover have "collapse ('' '' @ t) = '' '' @ t"
  proof -
    obtain c t' where t: "t = c # t'" using assms(4) by (cases t) auto
    then have "\<not> js_space c" using assms(2) plain_char_fixed(2) by simp
    with t collapse_plain [OF assms(2), of "[]"] show ?thesis by (simp add: js_space_def [of "CHR '' ''"])
  qed
  ultimately show ?thesis using collapse_plain [OF assms(1)] by simp
qed

lemma nat_digits_nonempty [simp]: "nat_digits n \<noteq> []"
  by (subst nat_digits.simps) (simp add: Let_def)

lemma units_text: "u \<noteq> UInherited \<Longrightarrow> list_all is_lower_letter (unit_text u) \<and> unit_text u \<noteq> [] \<and>
    unit_alias (unit_text u) = Some u \<and> unit_alias (unit_text u @ ''s'') = Some u \<and>
    unit_text u \<noteq> ''weekday'' \<and> unit_text u \<noteq> ''weekdays''"
  by (cases u) (simp_all add: is_lower_letter_def unit_alias_def UNIT_ALIASES_def less_eq_char_def)

lemma letters_plain: "list_all is_lower_letter s \<Longrightarrow> list_all plain_char s"
  by (auto simp: list_all_iff plain_char_def)

lemma letter_not_digit: "is_lower_letter c \<Longrightarrow> \<not> is_digit c"
  by (auto simp: is_lower_letter_def is_digit_def less_eq_char_def)

lemma match_word: "list_all is_lower_letter w \<Longrightarrow> w \<noteq> [] \<Longrightarrow> match_count_unit w = Some (None, w)"
  by (cases w) (auto simp: match_count_unit_def Let_def letter_not_digit)

lemma match_counted:
  assumes "list_all is_digit d" "d \<noteq> []" "length d \<le> 3" "list_all is_lower_letter w" "w \<noteq> []"
  shows "match_count_unit (d @ '' '' @ w) = Some (Some d, w)"
proof -
  have nd: "\<not> is_digit (CHR '' '')" by (simp add: is_digit_def less_eq_char_def)
  have "takeWhile is_digit (d @ '' '' @ w) = d"
    using assms(1) nd by (simp add: takeWhile_append2 list_all_iff)
  moreover have "dropWhile is_digit (d @ '' '' @ w) = '' '' @ w"
    using assms(1) nd by (simp add: dropWhile_append2 list_all_iff)
  ultimately show ?thesis using assms by (simp add: match_count_unit_def Let_def)
qed

lemma rule_words:
  "ruleFromWords ''weekday'' = Some WeekdayRule"
  "u \<noteq> UInherited \<Longrightarrow> ruleFromWords (unit_text u) = Some (IntervalRule 1 u)"
  "u \<noteq> UInherited \<Longrightarrow> 1 \<le> n \<Longrightarrow> n \<le> MAX_INTERVAL \<Longrightarrow> ruleFromWords (nat_digits n @ '' '' @ unit_text u @ ''s'') = Some (IntervalRule n u)"
proof -
  show "ruleFromWords ''weekday'' = Some WeekdayRule" by code_simp
  assume u: "u \<noteq> UInherited"
  note ut = units_text [OF u]
  from plain_normal [OF letters_plain] ut
  show "ruleFromWords (unit_text u) = Some (IntervalRule 1 u)"
    by (simp add: ruleFromWords_def match_word MAX_INTERVAL_def)
  assume n: "1 \<le> n" "n \<le> MAX_INTERVAL"
  let ?d = "nat_digits n" and ?w = "unit_text u @ ''s''"
  have d: "list_all is_digit ?d" "?d \<noteq> []" "length ?d \<le> 3"
    using nat_digits_digits nat_digits_length [of n 3] n(2) by (simp_all add: MAX_INTERVAL_def)
  have w: "list_all is_lower_letter ?w" "?w \<noteq> []" using ut by (simp_all add: is_lower_letter_def less_eq_char_def)
  have dp: "list_all plain_char ?d" using d(1) by (auto simp: list_all_iff plain_char_def)
  have "?d @ '' '' @ ?w \<noteq> ''weekday''" "?d @ '' '' @ ?w \<noteq> ''weekdays''"
    using d(1,2) by (cases ?d; auto simp: is_digit_def less_eq_char_def)+
  with plain_pair_normal [OF dp letters_plain [OF w(1)] d(2) w(2)] match_counted [OF d w] ut n
  show "ruleFromWords (?d @ '' '' @ unit_text u @ ''s'') = Some (IntervalRule n u)"
    by (simp add: ruleFromWords_def Let_def)
qed

text \<open>The canonical spelling is \<open>every\<close>, a space and words of plain characters.\<close>

fun rule_body :: "recurrence_rule \<Rightarrow> string" where
  "rule_body WeekdayRule = ''weekday''"
| "rule_body (IntervalRule count u) =
     (if count = 1 then unit_text u else nat_digits count @ '' '' @ unit_text u @ ''s'')"

lemma rule_text_body: "ruleText r = ''every '' @ rule_body r"
  by (cases r) simp_all

lemma rule_body_words: "canonical r \<Longrightarrow> ruleFromWords (rule_body r) = Some r"
proof (cases r)
  case (IntervalRule n u)
  assume "canonical r"
  with IntervalRule rule_words(2,3) [of u] show ?thesis by simp
qed (simp add: rule_words)

lemma rule_body_chars:
  assumes "canonical r"
  shows "rule_body r \<noteq> [] \<and> plain_char (hd (rule_body r)) \<and> plain_char (last (rule_body r)) \<and>
    (\<forall>c \<in> set (rule_body r). plain_char c \<or> c = CHR '' '')"
proof (cases r)
  case WeekdayRule
  have "list_all plain_char ''weekday''" by (rule letters_plain) code_simp
  with WeekdayRule show ?thesis by (simp add: list_all_iff)
next
  case (IntervalRule n u)
  with assms have u: "u \<noteq> UInherited" by simp
  note ut = units_text [OF u]
  have up: "list_all plain_char (unit_text u)" using letters_plain ut by blast
  have d: "list_all plain_char (nat_digits n)" "nat_digits n \<noteq> []"
    using nat_digits_digits [of n] by (auto simp: list_all_iff plain_char_def)
  have s: "plain_char (CHR ''s'')" by (simp add: plain_char_def is_lower_letter_def less_eq_char_def)
  have h: "plain_char (hd (nat_digits n))" "plain_char (hd (unit_text u))" "plain_char (last (unit_text u))"
    using d up ut by (auto simp: list_all_iff)
  show ?thesis
  proof (cases "n = 1")
    case True
    with IntervalRule up ut h show ?thesis by (simp add: list_all_iff)
  next
    case False
    with IntervalRule up ut d s h show ?thesis by (auto simp: list_all_iff)
  qed
qed

lemma rule_body_line: "canonical r \<Longrightarrow> one_line (rule_body r)"
  using rule_body_chars plain_char_fixed(4,5) by (fastforce simp: one_line_def)

lemma parse_rule_text: "canonical r \<Longrightarrow> parseRule (ruleText r) = Some r"
  using rule_body_chars [of r] rule_body_line [of r] rule_body_words [of r]
  by (simp add: parseRule_def rule_text_body startsWith_append Let_def)

lemma canonical_recurrence: "canonical r \<Longrightarrow> isRecurrence (ruleText r)"
  by (simp add: isRecurrence_def parse_rule_text)

lemma normalize_rule_text:
  assumes "canonical r"
  shows "normalizeRecurrence (ruleText r) = Some (ruleText r)"
proof -
  note c = rule_body_chars [OF assms]
  then obtain h t where b: "rule_body r = h # t" "\<not> js_space h" using plain_char_fixed(2) by (cases "rule_body r") auto
  have "js_trim (ruleText r) = ruleText r"
    unfolding rule_text_body using c plain_char_fixed(2) by (intro trimmed_trim) (auto simp: trimmed_def js_space_def)
  moreover have "toLowerCase ''every'' = ''every''" by code_simp
  moreover have "js_space (CHR '' '')" by (simp add: js_space_def)
  ultimately show ?thesis
    using b rule_body_line [OF assms] rule_body_words [OF assms]
    by (simp add: normalizeRecurrence_def Let_def rule_text_body)
qed

lemma rule_from_words_cases:
  "ruleFromWords s = Some r \<Longrightarrow> canonical r \<or> (\<exists>n. r = IntervalRule n UInherited)"
  by (auto simp: ruleFromWords_def Let_def split: if_splits option.splits prod.splits)

theorem rule_roundtrip:
  assumes "canonical rule"
  shows "parseRule (ruleText rule) = Some rule \<and> isRecurrence (ruleText rule) \<and>
    normalizeRecurrence (ruleText rule) = Some (ruleText rule)"
  using parse_rule_text [OF assms] canonical_recurrence [OF assms] normalize_rule_text [OF assms] by blast

theorem rule_roundtrip_witness: "parseRule ''every 2 weeks'' = Some (IntervalRule 2 UWeek)"
proof -
  have "canonical (IntervalRule 2 UWeek)" by (simp add: MAX_INTERVAL_def)
  moreover have "ruleText (IntervalRule 2 UWeek) = ''every 2 weeks''" by code_simp
  ultimately show ?thesis using rule_roundtrip [of "IntervalRule 2 UWeek"] by simp
qed

text \<open>Normalising gives a rule that \<open>isRecurrence\<close> accepts, except for the inherited unit: the word
  \<open>constructor\<close> is taken for a unit, and a function's source text is stored as the rule.\<close>

theorem inherited_unit_leaks:
  "pred_option (\<lambda>rule. isRecurrence rule \<or> (\<exists>n. rule = ruleText (IntervalRule n UInherited))) (normalizeRecurrence s) \<and>
   normalizeRecurrence ''every constructor'' = Some ''every function Object() { [native code] }'' \<and>
   \<not> isRecurrence ''every function Object() { [native code] }''"
proof (intro conjI)
  show "pred_option (\<lambda>rule. isRecurrence rule \<or> (\<exists>n. rule = ruleText (IntervalRule n UInherited))) (normalizeRecurrence s)"
  proof (cases "normalizeRecurrence s")
    case (Some rule)
    then obtain q r where "ruleFromWords q = Some r" "rule = ruleText r"
      by (auto simp: normalizeRecurrence_def Let_def split: if_splits)
    with rule_from_words_cases [OF this(1)] canonical_recurrence
    have "isRecurrence rule \<or> (\<exists>n. rule = ruleText (IntervalRule n UInherited))" by blast
    then show ?thesis unfolding Some option.pred_inject .
  qed simp
next
  show "normalizeRecurrence ''every constructor'' = Some ''every function Object() { [native code] }''" by code_simp
  show "\<not> isRecurrence ''every function Object() { [native code] }''" by code_simp
qed

section \<open>The next occurrence\<close>

lemma add_months_shift: "addMonths = shiftMonthKeepingDay"
  by (intro ext) (simp add: addMonths_def shiftMonthKeepingDay_def)

text \<open>Adding up to 20 years of days to a day before year 9000 stays in the four-digit years.\<close>

lemma year_bounds:
  assumes "isDateKey k" and "match_date_key k = Some (y, m, d)" and "parseDateKey k = Some day"
    and "y \<le> 8999" and "0 \<le> n" and "n \<le> 7000"
  shows "100 \<le> getFullYear (day + n) \<and> getFullYear (day + n) \<le> 9999"
proof -
  from assms(1) obtain y' m' d' where v: "match_date_key k = Some (y', m', d')" "100 \<le> y'" "civil_ok (y', m' - 1, d')"
    "parseDateKey k = Some (make_day y' (m' - 1) d')" by (rule valid_key)
  with assms(2,3) have day: "civil_of day = (y, m - 1, d)" and y: "100 \<le> y" using make_day_civil [OF v(3)] by auto
  then have "year_of day = y" by (simp add: civil_of_def Let_def split: prod.splits)
  with year_of_spec [of day] have b: "day_from_year y \<le> day" "day < day_from_year (y + 1)" by simp_all
  have c: "day_from_year 9000 + 7000 < day_from_year 10000" by code_simp
  have "getFullYear (day + n) = year_of (day + n)"
    by (simp add: getFullYear_def civil_of_def Let_def split: prod.split)
  moreover have "\<not> year_of (day + n) < 100"
    using year_of_spec [of "day + n"] year_mono [of "year_of (day + n) + 1" y] b assms(5) y by auto
  moreover have "\<not> 10000 \<le> year_of (day + n)"
    using year_of_spec [of "day + n"] year_mono [of 10000 "year_of (day + n)"] year_mono [of "y + 1" 9000] b assms(4,6) c by auto
  ultimately show ?thesis by simp
qed

definition workday :: "int \<Rightarrow> bool" where
  "workday day \<longleftrightarrow> 1 \<le> getDay day \<and> getDay day \<le> 5"

text \<open>Three days ahead at most, and every day skipped is a Saturday or a Sunday.\<close>

lemma weekday_step:
  fixes day :: int
  defines "w \<equiv> (getDay day + 6) mod 7"
  defines "n \<equiv> (if w \<ge> 4 then 7 - w else 1)"
  shows "1 \<le> n \<and> n \<le> 3 \<and> workday (day + n) \<and> (\<forall>x. day < x \<longrightarrow> x < day + n \<longrightarrow> \<not> workday x)"
proof -
  have d: "getDay (day + k) = (w + 1 + k) mod 7" for k
  proof -
    have "w = (day + 10) mod 7" unfolding w_def getDay_def by (simp add: mod_simps algebra_simps)
    then have "(w + 1 + k) mod 7 = (4 + (day + k) + 7) mod 7"
      using mod_add_left_eq [of "day + 10" 7 "1 + k"] by (simp add: algebra_simps)
    then show ?thesis unfolding getDay_def by (simp only: mod_add_self2)
  qed
  have "0 \<le> w" "w < 7" by (simp_all add: w_def)
  then consider "w < 4" | "w = 4" | "w = 5" | "w = 6" by linarith
  then have n: "1 \<le> n \<and> n \<le> 3 \<and> workday (day + n) \<and> (1 < n \<longrightarrow> \<not> workday (day + 1)) \<and> (2 < n \<longrightarrow> \<not> workday (day + 2))"
  proof cases
    case 1
    then have "n = 1" "(w + 1 + 1) mod 7 = w + 2" using \<open>0 \<le> w\<close> by (simp_all add: n_def)
    with 1 \<open>0 \<le> w\<close> show ?thesis by (simp add: workday_def d)
  qed (simp_all add: n_def workday_def d)
  moreover have "x = day + 1 \<and> 1 < n \<or> x = day + 2 \<and> 2 < n" if "day < x" "x < day + n" for x
    using that n by linarith
  ultimately show ?thesis using n by blast
qed

text \<open>\<open>n\<close> months after the day \<open>d\<close> of month \<open>m\<close>, clamped to the month's last day.\<close>

definition month_after :: "int \<Rightarrow> int \<Rightarrow> int \<Rightarrow> int \<Rightarrow> int \<times> int \<times> int" where
  "month_after y m n d =
     (let t = y * 12 + (m - 1) + n
      in (t div 12, t mod 12 + 1, min d (days_in_month (t div 12) (t mod 12))))"

definition occurs_after :: "recurrence_rule \<Rightarrow> string \<Rightarrow> string \<Rightarrow> bool" where
  "occurs_after rule from_key next_key =
     (case (parseDateKey from_key, match_date_key from_key) of
        (Some day, Some (y, m, d)) \<Rightarrow>
          (case rule of
             WeekdayRule \<Rightarrow> (\<exists>e. parseDateKey next_key = Some e \<and> workday e \<and> (\<forall>x. day < x \<longrightarrow> x < e \<longrightarrow> \<not> workday x))
           | IntervalRule n UDay \<Rightarrow> parseDateKey next_key = Some (day + int n)
           | IntervalRule n UWeek \<Rightarrow> parseDateKey next_key = Some (day + int n * 7)
           | IntervalRule n UMonth \<Rightarrow> match_date_key next_key = Some (month_after y m (int n) d)
           | IntervalRule n UYear \<Rightarrow> match_date_key next_key = Some (month_after y m (int n * 12) d)
           | IntervalRule n UInherited \<Rightarrow> False)
      | _ \<Rightarrow> False)"

lemma day_step:
  assumes "isDateKey k" and "match_date_key k = Some (y, m, d)" and "parseDateKey k = Some day"
    and "y \<le> 8999" and "1 \<le> n" and "n \<le> 7000"
  shows "isDateKey (shiftDay k n) \<and> parseDateKey (shiftDay k n) = Some (day + n) \<and> k < shiftDay k n"
proof -
  from year_bounds [OF assms(1-4)] assms(5,6) have "100 \<le> getFullYear (day + n)" "getFullYear (day + n) \<le> 9999" by simp_all
  from shift_day_at [OF assms(3) this] have s: "isDateKey (shiftDay k n)" "parseDateKey (shiftDay k n) = Some (day + n)" by simp_all
  with key_less [OF assms(1) s(1)] assms(3,5) show ?thesis by simp
qed

lemma month_step:
  assumes key: "isDateKey k" and match: "match_date_key k = Some (y, m, d)" and "y \<le> 8999" and "1 \<le> n" and "n \<le> 11988"
  shows "isDateKey (addMonths k n) \<and> match_date_key (addMonths k n) = Some (month_after y m n d) \<and> k < addMonths k n"
proof -
  let ?t = "y * 12 + (m - 1) + n"
  let ?y = "?t div 12" and ?m = "?t mod 12"
  from key match have y: "100 \<le> y" and ok: "civil_ok (y, m - 1, d)" by (auto simp: isDateKey_iff)
  have m: "0 \<le> m - 1" "m - 1 < 12" "1 \<le> d" using ok by (simp_all add: civil_ok_def)
  have mb: "0 \<le> ?m" "?m < 12" by simp_all
  have split: "?t = ?y * 12 + ?m" by simp
  have ty: "100 \<le> ?y" "?y \<le> 9999" using y m assms(3-5) mb split by linarith+
  have match': "match_date_key (addMonths k n) = Some (?y, ?m + 1, min d (days_in_month ?y ?m))"
    unfolding add_months_shift by (rule shift_month_clamps [OF key _ refl ty]) (simp add: match)
  have "civil_ok (?y, ?m, min d (days_in_month ?y ?m))"
    using days_in_month_bounds [OF mb, of ?y] m mb by (auto simp: civil_ok_def)
  then have "isDateKey (addMonths k n)" using match' ty(1) by (auto simp: isDateKey_iff)
  moreover have "Civil y (m - 1) d < Civil ?y ?m (min d (days_in_month ?y ?m))"
  proof -
    have "y * 12 + (m - 1) < ?y * 12 + ?m" using assms(4) split by linarith
    then have "y < ?y \<or> y = ?y \<and> m - 1 < ?m" using m mb by linarith
    then show ?thesis by auto
  qed
  then have "k < addMonths k n" using key_less_civil [OF match match'] by simp
  ultimately show ?thesis using match' by (simp add: month_after_def Let_def)
qed

text \<open>C36. From any valid day before year 9000 every canonical rule has a next occurrence: a later valid day that is exactly the interval away, clamped to the month, or the first weekday after.\<close>

theorem next_occurrence_exact:
  assumes "isDateKey k" and "match_date_key k = Some (y, m, d)" and "y \<le> 8999" and "canonical rule"
  shows "\<exists>next. nextOccurrence (ruleText rule) k = Present next \<and> isDateKey next \<and> k < next \<and> occurs_after rule k next"
proof -
  from assms(1) obtain day where day: "parseDateKey k = Some day" by (rule valid_key)
  note dstep = day_step [OF assms(1,2) day assms(3)] and mstep = month_step [OF assms(1,2,3)]
  note nxt = nextOccurrence_def [of "ruleText rule" k, unfolded parse_rule_text [OF assms(4)]]
  show ?thesis
  proof (cases rule)
    case WeekdayRule
    let ?w = "(getDay day + 6) mod 7"
    let ?n = "if ?w \<ge> 4 then 7 - ?w else 1"
    note step = weekday_step [of day]
    have "nextOccurrence (ruleText rule) k = Present (shiftDay k ?n)"
      using nxt assms(1) by (simp add: WeekdayRule mondayFirstWeekday_def day shift_by_def)
    then show ?thesis using dstep [of ?n] step WeekdayRule by (auto simp: occurs_after_def day assms(2))
  next
    case (IntervalRule n u)
    with assms(4) have n: "1 \<le> n" "n \<le> 999" "u \<noteq> UInherited" by (simp_all add: MAX_INTERVAL_def)
    show ?thesis
    proof (cases u)
      case UDay
      then show ?thesis using nxt IntervalRule n dstep [of "int n"] assms(1) by (simp add: occurs_after_def day assms(2))
    next
      case UWeek
      then show ?thesis using nxt IntervalRule n dstep [of "int n * 7"] assms(1) by (simp add: occurs_after_def day assms(2))
    next
      case UMonth
      then show ?thesis using nxt IntervalRule n mstep [of "int n"] assms(1) by (simp add: occurs_after_def day assms(2))
    next
      case UYear
      then show ?thesis using nxt IntervalRule n mstep [of "int n * 12"] assms(1) by (simp add: occurs_after_def day assms(2))
    next
      case UInherited
      with n show ?thesis by simp
    qed
  qed
qed

theorem next_occurrence_exact_witness:
  "nextOccurrence ''every month'' ''2026-01-31'' = Present ''2026-02-28'' \<and>
   (\<exists>next. nextOccurrence ''every month'' ''2026-01-31'' = Present next \<and> ''2026-01-31'' < next)"
proof -
  have "isDateKey ''2026-01-31''" "match_date_key ''2026-01-31'' = Some (2026, 1, 31)" by code_simp+
  moreover have "ruleText (IntervalRule 1 UMonth) = ''every month''" by simp
  moreover have "canonical (IntervalRule 1 UMonth)" by (simp add: MAX_INTERVAL_def)
  moreover have "nextOccurrence ''every month'' ''2026-01-31'' = Present ''2026-02-28''" by code_simp
  ultimately show ?thesis using next_occurrence_exact [of "''2026-01-31''" 2026 1 31 "IntervalRule 1 UMonth"] by auto
qed

end
