(* ===== verification/Database_Config.thy ===== *)
theory Database_Config
  imports Contracts Strings
begin

text \<open>
  \<open>database/config.ts
  The ids of scopes are taken to be neither array indices nor members of \<open>Object.prototype\<close>, so that
  the entries of the stored object keep their order and a lookup finds own members only.
\<close>: the saved layouts of property databases, kept as untyped JSON under one
  settings key. \<open>JSON.stringify\<close> is modelled on everything but numbers, whose text is the
  parameter \<open>nt\<close>. The names of \<open>Object.prototype\<close> are not folder ids.
\<close>

section \<open>Views\<close>

definition DATABASE_VIEWS_KEY :: string where "DATABASE_VIEWS_KEY = ''databaseViews''"
definition DATABASE_VIEWS_VERSION :: number where "DATABASE_VIEWS_VERSION = 1"
definition WORKSPACE_SCOPE_KEY :: string where "WORKSPACE_SCOPE_KEY = ''@workspace''"
definition MAX_DATABASE_SCOPES :: nat where "MAX_DATABASE_SCOPES = 100"
definition MAX_DATABASE_VIEWS_BYTES :: nat where "MAX_DATABASE_VIEWS_BYTES = 240 * 1024"
definition MAX_DATABASE_SORTS :: nat where "MAX_DATABASE_SORTS = 3"
definition MAX_DATABASE_FILTERS :: nat where "MAX_DATABASE_FILTERS = 8"
definition MAX_COLUMN_KEYS :: nat where "MAX_COLUMN_KEYS = 128"
definition MAX_KEY_LENGTH :: nat where "MAX_KEY_LENGTH = 200"
definition MAX_FILTER_VALUE_LENGTH :: nat where "MAX_FILTER_VALUE_LENGTH = 200"

datatype database_layout = LTable | LBoard

datatype filter_operator =
    OpContains | OpNotContains | OpIs | OpIsNot | OpEmpty | OpNotEmpty
  | OpGreater | OpLess | OpBefore | OpAfter | OpChecked | OpUnchecked

datatype sort_direction = Asc | Desc

record database_sort =
  ds_column :: string
  ds_direction :: sort_direction

record database_filter =
  df_column :: string
  df_operator :: filter_operator
  df_value :: string

record database_view =
  dv_layout :: database_layout
  dv_subfolders :: bool
  dv_order :: "string list"
  dv_hidden :: "string list"
  dv_sorts :: "database_sort list"
  dv_filters :: "database_filter list"
  dv_groupBy :: "string option"
  dv_updatedAt :: number

record database_view_read =
  vr_view :: database_view
  vr_problem :: "string option"
  vr_readOnly :: bool

definition DATABASE_LAYOUTS :: "(string, database_layout) omap" where
  "DATABASE_LAYOUTS = [(''table'', LTable), (''board'', LBoard)]"

definition FILTER_OPERATORS :: "(string, filter_operator) omap" where
  "FILTER_OPERATORS =
     [(''contains'', OpContains), (''not-contains'', OpNotContains), (''is'', OpIs), (''is-not'', OpIsNot),
      (''empty'', OpEmpty), (''not-empty'', OpNotEmpty), (''greater'', OpGreater), (''less'', OpLess),
      (''before'', OpBefore), (''after'', OpAfter), (''checked'', OpChecked), (''unchecked'', OpUnchecked)]"

definition SORT_DIRECTIONS :: "(string, sort_direction) omap" where
  "SORT_DIRECTIONS = [(''asc'', Asc), (''desc'', Desc)]"

definition databaseScopeKey :: "string option \<Rightarrow> string" where
  "databaseScopeKey folderId = (case folderId of None \<Rightarrow> WORKSPACE_SCOPE_KEY | Some i \<Rightarrow> i)"

definition defaultDatabaseView :: "string option \<Rightarrow> database_view" where
  "defaultDatabaseView folderId =
     \<lparr>dv_layout = LTable, dv_subfolders = (folderId = None), dv_order = [], dv_hidden = [''created'', ''words''],
      dv_sorts = [], dv_filters = [], dv_groupBy = None, dv_updatedAt = 0\<rparr>"

section \<open>Parsing\<close>

fun isKey :: "json option \<Rightarrow> string option" where
  "isKey (Some (JStr s)) = (if 0 < length s \<and> length s \<le> MAX_KEY_LENGTH then Some s else None)"
| "isKey _ = None"

fun all_some :: "'a option list \<Rightarrow> 'a list option" where
  "all_some [] = Some []"
| "all_some (x # xs) = (case x of None \<Rightarrow> None | Some y \<Rightarrow> map_option ((#) y) (all_some xs))"

fun isKeyList :: "json option \<Rightarrow> string list option" where
  "isKeyList (Some (JArr xs)) = (if length xs \<le> MAX_COLUMN_KEYS then all_some (map (\<lambda>x. isKey (Some x)) xs) else None)"
| "isKeyList _ = None"

text \<open>The member of an enumeration that a string names.\<close>

definition named_member :: "(string, 'a) omap \<Rightarrow> json option \<Rightarrow> 'a option" where
  "named_member names v = (case json_string v of None \<Rightarrow> None | Some s \<Rightarrow> omap_get names s)"

definition parse_sort :: "json \<Rightarrow> database_sort option" where
  "parse_sort entry =
     (case (isKey (json_field ''column'' entry), named_member SORT_DIRECTIONS (json_field ''direction'' entry)) of
        (Some column, Some direction) \<Rightarrow> Some \<lparr>ds_column = column, ds_direction = direction\<rparr>
      | _ \<Rightarrow> None)"

definition parseSorts :: "json option \<Rightarrow> database_sort list option" where
  "parseSorts v =
     (case json_is_array v of
        None \<Rightarrow> None
      | Some xs \<Rightarrow> if length xs > MAX_DATABASE_SORTS then None else all_some (map parse_sort xs))"

definition parse_filter :: "json \<Rightarrow> database_filter option" where
  "parse_filter entry =
     (case (isKey (json_field ''column'' entry), named_member FILTER_OPERATORS (json_field ''operator'' entry),
         json_string (json_field ''value'' entry)) of
        (Some column, Some operator, Some v) \<Rightarrow>
          if length v > MAX_FILTER_VALUE_LENGTH then None
          else Some \<lparr>df_column = column, df_operator = operator, df_value = v\<rparr>
      | _ \<Rightarrow> None)"

definition parseFilters :: "json option \<Rightarrow> database_filter list option" where
  "parseFilters v =
     (case json_is_array v of
        None \<Rightarrow> None
      | Some xs \<Rightarrow> if length xs > MAX_DATABASE_FILTERS then None else all_some (map parse_filter xs))"

text \<open>\<open>groupBy\<close> is \<open>null\<close> or a key; an absent field is neither.\<close>

definition parse_group :: "json option \<Rightarrow> string option option" where
  "parse_group v = (if v = Some JNull then Some None else map_option Some (isKey v))"

fun bool_field :: "json option \<Rightarrow> bool option" where
  "bool_field (Some (JBool b)) = Some b"
| "bool_field _ = None"

fun number_field :: "json option \<Rightarrow> number option" where
  "number_field (Some (JNum n)) = Some n"
| "number_field _ = None"

definition parseDatabaseView :: "json \<Rightarrow> database_view option" where
  "parseDatabaseView v =
     (case (named_member DATABASE_LAYOUTS (json_field ''layout'' v), bool_field (json_field ''subfolders'' v),
         isKeyList (json_field ''order'' v), isKeyList (json_field ''hidden'' v), parse_group (json_field ''groupBy'' v),
         number_field (json_field ''updatedAt'' v), parseSorts (json_field ''sorts'' v), parseFilters (json_field ''filters'' v)) of
        (Some layout, Some subfolders, Some order, Some hidden, Some groupBy, Some updatedAt, Some sorts, Some filters) \<Rightarrow>
          Some \<lparr>dv_layout = layout, dv_subfolders = subfolders, dv_order = order, dv_hidden = hidden, dv_sorts = sorts,
            dv_filters = filters, dv_groupBy = groupBy, dv_updatedAt = updatedAt\<rparr>
      | _ \<Rightarrow> None)"

text \<open>The view object as JSON, its fields in the order of the literal.\<close>

definition name_of :: "(string, 'a) omap \<Rightarrow> 'a \<Rightarrow> string" where
  "name_of names x = (case find (\<lambda>e. snd e = x) names of None \<Rightarrow> [] | Some e \<Rightarrow> fst e)"

definition sort_json :: "database_sort \<Rightarrow> json" where
  "sort_json s = JObj [(''column'', JStr (ds_column s)), (''direction'', JStr (name_of SORT_DIRECTIONS (ds_direction s)))]"

definition filter_json :: "database_filter \<Rightarrow> json" where
  "filter_json f = JObj [(''column'', JStr (df_column f)), (''operator'', JStr (name_of FILTER_OPERATORS (df_operator f))),
     (''value'', JStr (df_value f))]"

definition view_json :: "database_view \<Rightarrow> json" where
  "view_json v = JObj
     [(''layout'', JStr (name_of DATABASE_LAYOUTS (dv_layout v))), (''subfolders'', JBool (dv_subfolders v)),
      (''order'', JArr (map JStr (dv_order v))), (''hidden'', JArr (map JStr (dv_hidden v))),
      (''sorts'', JArr (map sort_json (dv_sorts v))), (''filters'', JArr (map filter_json (dv_filters v))),
      (''groupBy'', case dv_groupBy v of None \<Rightarrow> JNull | Some k \<Rightarrow> JStr k), (''updatedAt'', JNum (dv_updatedAt v))]"

definition normalizeDatabaseView :: "database_view \<Rightarrow> database_view option" where
  "normalizeDatabaseView view = parseDatabaseView (view_json view)"

section \<open>Reading\<close>

definition readStoredViews :: "json \<Rightarrow> (number \<times> (string, json) omap) option" where
  "readStoredViews v =
     (case (number_field (json_field ''version'' v), json_field ''views'' v) of
        (Some version, Some (JObj views)) \<Rightarrow> Some (version, views)
      | _ \<Rightarrow> None)"

definition readDatabaseView :: "json option \<Rightarrow> string option \<Rightarrow> database_view_read" where
  "readDatabaseView stored folderId =
     (let fallback = defaultDatabaseView folderId
      in case stored of
           None \<Rightarrow> \<lparr>vr_view = fallback, vr_problem = None, vr_readOnly = False\<rparr>
         | Some j \<Rightarrow>
             (case readStoredViews j of
                None \<Rightarrow> \<lparr>vr_view = fallback,
                  vr_problem = Some ''Saved database layouts are unreadable. Changing this layout starts them over.'',
                  vr_readOnly = False\<rparr>
              | Some (version, views) \<Rightarrow>
                  if version > DATABASE_VIEWS_VERSION
                  then \<lparr>vr_view = fallback, vr_problem = Some ''These layouts were saved by a newer version of Skriuw.'',
                    vr_readOnly = True\<rparr>
                  else (case omap_get views (databaseScopeKey folderId) of
                      None \<Rightarrow> \<lparr>vr_view = fallback, vr_problem = None, vr_readOnly = False\<rparr>
                    | Some entry \<Rightarrow>
                        (case parseDatabaseView entry of
                           None \<Rightarrow> \<lparr>vr_view = fallback,
                             vr_problem = Some (''This database'' @ [CHR 0x27] @ ''s saved layout is unreadable. Changing it starts a new one.''),
                             vr_readOnly = False\<rparr>
                         | Some view \<Rightarrow> \<lparr>vr_view = view, vr_problem = None, vr_readOnly = False\<rparr>))))"

section \<open>The text of JSON\<close>

definition hex_digit :: "nat \<Rightarrow> char" where
  "hex_digit n = char_of (if n < 10 then 48 + n else 87 + n)"

definition escape_char :: "char \<Rightarrow> string" where
  "escape_char c =
     (if c = CHR 0x22 \<or> c = CHR 0x5C then [CHR 0x5C, c]
      else if c = CHR 0x08 then [CHR 0x5C, CHR ''b'']
      else if c = CHR 0x09 then [CHR 0x5C, CHR ''t'']
      else if c = CHR 0x0A then [CHR 0x5C, CHR ''n'']
      else if c = CHR 0x0C then [CHR 0x5C, CHR ''f'']
      else if c = CHR 0x0D then [CHR 0x5C, CHR ''r'']
      else if (of_char c :: nat) < 32
      then [CHR 0x5C, CHR ''u'', CHR ''0'', CHR ''0'', hex_digit (of_char c div 16), hex_digit (of_char c mod 16)]
      else [c])"

definition quoted :: "string \<Rightarrow> string" where
  "quoted s = [CHR 0x22] @ concat (map escape_char s) @ [CHR 0x22]"

fun commas :: "string list \<Rightarrow> string" where
  "commas [] = []"
| "commas [x] = x"
| "commas (x # y # xs) = x @ '','' @ commas (y # xs)"

text \<open>\<open>JSON.stringify\<close>; \<open>nt\<close> is the text of a number.\<close>

primrec stringify :: "(number \<Rightarrow> string) \<Rightarrow> json \<Rightarrow> string" where
  "stringify nt JNull = ''null''"
| "stringify nt (JBool b) = (if b then ''true'' else ''false'')"
| "stringify nt (JNum n) = nt n"
| "stringify nt (JStr s) = quoted s"
| "stringify nt (JArr xs) = ''['' @ commas (map (stringify nt) xs) @ '']''"
| "stringify nt (JObj members) =
     ''{'' @ commas (map (\<lambda>(k, text). quoted k @ '':'' @ text) (map (map_prod id (stringify nt)) members)) @ ''}''"

definition entryBytes :: "(number \<Rightarrow> string) \<Rightarrow> string \<times> json \<Rightarrow> nat" where
  "entryBytes nt e = byteLength (quoted (fst e) @ '':'' @ stringify nt (snd e))"

section \<open>Writing\<close>

definition updatedAtOf :: "json \<Rightarrow> number" where
  "updatedAtOf entry = (case number_field (json_field ''updatedAt'' entry) of None \<Rightarrow> 0 | Some n \<Rightarrow> n)"

definition newest_cmp :: "string \<times> json \<Rightarrow> string \<times> json \<Rightarrow> number" where
  "newest_cmp l r = updatedAtOf (snd r) - updatedAtOf (snd l)"

text \<open>The entries the loop counted by \<open>keep\<close> lets through, from the bytes used so far.\<close>

fun keep_within :: "(number \<Rightarrow> string) \<Rightarrow> nat \<Rightarrow> (string \<times> json) list \<Rightarrow> (string \<times> json) list" where
  "keep_within nt used [] = []"
| "keep_within nt used (e # es) =
     (if used + 1 + entryBytes nt e \<le> MAX_DATABASE_VIEWS_BYTES
      then e # keep_within nt (used + 1 + entryBytes nt e) es else [])"

definition views_document :: "(string, json) omap \<Rightarrow> json" where
  "views_document views = JObj [(''version'', JNum DATABASE_VIEWS_VERSION), (''views'', JObj views)]"

definition live_entries :: "(string \<Rightarrow> bool) \<Rightarrow> string \<Rightarrow> (string, json) omap \<Rightarrow> (string \<times> json) list" where
  "live_entries folderExists scopeKey views =
     filter (\<lambda>(k, entry). k \<noteq> scopeKey \<and> (k = WORKSPACE_SCOPE_KEY \<or> folderExists k) \<and> parseDatabaseView entry \<noteq> None) views"

text \<open>A throw is \<open>Inl\<close> of its message.\<close>

definition withDatabaseView :: "(number \<Rightarrow> string) \<Rightarrow> workspace_settings \<Rightarrow> string option \<Rightarrow> database_view \<Rightarrow> (string \<Rightarrow> bool) \<Rightarrow>
    string + workspace_settings" where
  "withDatabaseView nt settings folderId view folderExists =
     (let document = (case omap_get (s_extra settings) DATABASE_VIEWS_KEY of
            None \<Rightarrow> Some (1, []) | Some j \<Rightarrow> readStoredViews j)
      in if (case document of None \<Rightarrow> False | Some (version, _) \<Rightarrow> version > DATABASE_VIEWS_VERSION)
         then Inl ''Database layouts were saved by a newer version of Skriuw.''
         else (let scopeKey = databaseScopeKey folderId;
                   entries = live_entries folderExists scopeKey (case document of None \<Rightarrow> [] | Some (_, views) \<Rightarrow> views)
               in case normalizeDatabaseView view of
                    None \<Rightarrow> Inl ''Database layout is invalid.''
                  | Some normal \<Rightarrow>
                      (let current = (scopeKey, view_json normal);
                           others = take (MAX_DATABASE_SCOPES - 1) (js_sort newest_cmp entries);
                           used = byteLength (stringify nt (views_document [])) + entryBytes nt current
                       in if used > MAX_DATABASE_VIEWS_BYTES then Inl ''This database layout is too large to save.''
                          else Inr (settings\<lparr>s_extra := omap_set DATABASE_VIEWS_KEY
                            (views_document (omap_from fst snd (current # keep_within nt used others))) (s_extra settings)\<rparr>))))"

end
