(* ===== verification/Config_Theorems.thy ===== *)
theory Config_Theorems
  imports Database_Config
begin

text \<open>
  What the saved layouts promise: a layout that is valid is read back as it was written, the
  other layouts are kept or dropped but never changed, and the stored text stays within its cap.
\<close>

section \<open>A view and its JSON\<close>

definition view_valid :: "database_view \<Rightarrow> bool" where
  "view_valid v \<longleftrightarrow>
     list_all (\<lambda>k. k \<noteq> [] \<and> length k \<le> MAX_KEY_LENGTH)
       (dv_order v @ dv_hidden v @ map ds_column (dv_sorts v) @ map df_column (dv_filters v) @
        (case dv_groupBy v of None \<Rightarrow> [] | Some k \<Rightarrow> [k])) \<and>
     length (dv_order v) \<le> MAX_COLUMN_KEYS \<and> length (dv_hidden v) \<le> MAX_COLUMN_KEYS \<and>
     length (dv_sorts v) \<le> MAX_DATABASE_SORTS \<and> length (dv_filters v) \<le> MAX_DATABASE_FILTERS \<and>
     list_all (\<lambda>f. length (df_value f) \<le> MAX_FILTER_VALUE_LENGTH) (dv_filters v)"

lemma named_layout [simp]: "named_member DATABASE_LAYOUTS (Some (JStr (name_of DATABASE_LAYOUTS x))) = Some x"
  by (cases x; hypsubst; code_simp)

lemma named_operator [simp]: "named_member FILTER_OPERATORS (Some (JStr (name_of FILTER_OPERATORS x))) = Some x"
  by (cases x; hypsubst; code_simp)

lemma named_direction [simp]: "named_member SORT_DIRECTIONS (Some (JStr (name_of SORT_DIRECTIONS x))) = Some x"
  by (cases x; hypsubst; code_simp)

lemma isKey_Some: "isKey v = Some k \<longleftrightarrow> v = Some (JStr k) \<and> k \<noteq> [] \<and> length k \<le> MAX_KEY_LENGTH"
  by (cases v rule: isKey.cases) auto

lemma all_some_iff: "all_some xs = Some ys \<longleftrightarrow> xs = map Some ys"
  by (induction xs arbitrary: ys) (auto split: option.splits simp: Cons_eq_map_conv)

lemma all_some_set:
  "all_some (map f xs) = Some ys \<Longrightarrow> length ys = length xs \<and> list_all (\<lambda>y. \<exists>x. f x = Some y) ys"
  by (induction xs arbitrary: ys) (auto split: option.splits)

lemma all_some_back:
  "all_some (map f (map g ys)) = Some zs \<Longrightarrow> (\<And>y z. f (g y) = Some z \<Longrightarrow> z = y) \<Longrightarrow> zs = ys"
  by (induction ys arbitrary: zs) (auto split: option.splits)

lemma keys_read:
  assumes "list_all (\<lambda>k. k \<noteq> [] \<and> length k \<le> MAX_KEY_LENGTH) ks" and "length ks \<le> MAX_COLUMN_KEYS"
  shows "isKeyList (Some (JArr (map JStr ks))) = Some ks"
  using assms by (simp add: all_some_iff isKey_Some list_all_iff comp_def)

lemma view_read:
  assumes "view_valid v"
  shows "parseDatabaseView (view_json v) = Some v"
proof -
  have v: "list_all (\<lambda>k. k \<noteq> [] \<and> length k \<le> MAX_KEY_LENGTH) (dv_order v)"
    "list_all (\<lambda>k. k \<noteq> [] \<and> length k \<le> MAX_KEY_LENGTH) (dv_hidden v)"
    using assms by (simp_all add: view_valid_def)
  have sorts: "parseSorts (Some (JArr (map sort_json (dv_sorts v)))) = Some (dv_sorts v)"
    using assms by (auto simp: parseSorts_def view_valid_def all_some_iff list_all_iff parse_sort_def sort_json_def)
  have filters: "parseFilters (Some (JArr (map filter_json (dv_filters v)))) = Some (dv_filters v)"
    using assms by (auto simp: parseFilters_def view_valid_def all_some_iff list_all_iff parse_filter_def filter_json_def)
  have group: "parse_group (Some (case dv_groupBy v of None \<Rightarrow> JNull | Some k \<Rightarrow> JStr k)) = Some (dv_groupBy v)"
    using assms by (auto simp: parse_group_def view_valid_def split: option.split)
  have "isKeyList (Some (JArr (map JStr (dv_order v)))) = Some (dv_order v)"
    "isKeyList (Some (JArr (map JStr (dv_hidden v)))) = Some (dv_hidden v)"
    using assms v by (simp_all only: keys_read view_valid_def)
  with sorts filters group show ?thesis
    by (simp add: parseDatabaseView_def view_json_def del: isKeyList.simps)
qed

lemma parse_parts:
  "parseDatabaseView j = Some v \<Longrightarrow>
    isKeyList (json_field ''order'' j) = Some (dv_order v) \<and> isKeyList (json_field ''hidden'' j) = Some (dv_hidden v) \<and>
    parseSorts (json_field ''sorts'' j) = Some (dv_sorts v) \<and> parseFilters (json_field ''filters'' j) = Some (dv_filters v) \<and>
    parse_group (json_field ''groupBy'' j) = Some (dv_groupBy v) \<and>
    named_member DATABASE_LAYOUTS (json_field ''layout'' j) = Some (dv_layout v) \<and>
    bool_field (json_field ''subfolders'' j) = Some (dv_subfolders v) \<and>
    number_field (json_field ''updatedAt'' j) = Some (dv_updatedAt v)"
  by (auto simp: parseDatabaseView_def split: option.splits)

lemma parsed_valid:
  assumes "parseDatabaseView j = Some v"
  shows "view_valid v"
proof -
  have keys: "list_all (\<lambda>k. k \<noteq> [] \<and> length k \<le> MAX_KEY_LENGTH) ks \<and> length ks \<le> MAX_COLUMN_KEYS"
    if "isKeyList x = Some ks" for x ks
    using that by (cases x rule: isKeyList.cases) (auto dest!: all_some_set simp: list_all_iff isKey_Some split: if_splits)
  have sorts: "length ss \<le> MAX_DATABASE_SORTS \<and> list_all (\<lambda>s. ds_column s \<noteq> [] \<and> length (ds_column s) \<le> MAX_KEY_LENGTH) ss"
    if "parseSorts x = Some ss" for x ss
    using that by (fastforce dest!: all_some_set simp: parseSorts_def list_all_iff parse_sort_def isKey_Some
        split: option.splits if_splits)
  have filters: "length fs \<le> MAX_DATABASE_FILTERS \<and> list_all (\<lambda>f. df_column f \<noteq> [] \<and> length (df_column f) \<le> MAX_KEY_LENGTH \<and>
      length (df_value f) \<le> MAX_FILTER_VALUE_LENGTH) fs"
    if "parseFilters x = Some fs" for x fs
    using that by (fastforce dest!: all_some_set simp: parseFilters_def list_all_iff parse_filter_def isKey_Some
        split: option.splits if_splits)
  have group: "k \<noteq> [] \<and> length k \<le> MAX_KEY_LENGTH" if "parse_group x = Some (Some k)" for x k
    using that by (auto simp: parse_group_def isKey_Some split: if_splits)
  from parse_parts [OF assms] have parts: "isKeyList (json_field ''order'' j) = Some (dv_order v)"
    "isKeyList (json_field ''hidden'' j) = Some (dv_hidden v)" "parseSorts (json_field ''sorts'' j) = Some (dv_sorts v)"
    "parseFilters (json_field ''filters'' j) = Some (dv_filters v)" "parse_group (json_field ''groupBy'' j) = Some (dv_groupBy v)" by simp_all
  from keys [OF parts(1)] keys [OF parts(2)] sorts [OF parts(3)] filters [OF parts(4)] group [of "json_field ''groupBy'' j"] parts(5)
  show ?thesis unfolding view_valid_def by (cases "dv_groupBy v") (auto simp: list_all_iff)
qed

lemma view_read_back:
  assumes "parseDatabaseView (view_json v) = Some w"
  shows "w = v"
proof -
  have keys: "ks' = ks" if "isKeyList (Some (JArr (map JStr ks))) = Some ks'" for ks ks'
  proof (rule all_some_back)
    show "all_some (map (\<lambda>x. isKey (Some x)) (map JStr ks)) = Some ks'" using that by (simp del: isKey.simps split: if_splits)
  qed (simp split: if_splits)
  have sorts: "ss' = ss" if "parseSorts (Some (JArr (map sort_json ss))) = Some ss'" for ss ss'
  proof (rule all_some_back)
    show "all_some (map parse_sort (map sort_json ss)) = Some ss'" using that by (simp add: parseSorts_def split: if_splits)
  qed (auto simp: parse_sort_def sort_json_def split: option.splits if_splits)
  have filters: "fs' = fs" if "parseFilters (Some (JArr (map filter_json fs))) = Some fs'" for fs fs'
  proof (rule all_some_back)
    show "all_some (map parse_filter (map filter_json fs)) = Some fs'" using that by (simp add: parseFilters_def split: if_splits)
  qed (auto simp: parse_filter_def filter_json_def split: option.splits if_splits)
  have group: "g' = g" if "parse_group (Some (case g of None \<Rightarrow> JNull | Some k \<Rightarrow> JStr k)) = Some g'" for g g'
    using that by (auto simp: parse_group_def split: option.splits if_splits)
  have fields: "json_field ''order'' (view_json v) = Some (JArr (map JStr (dv_order v)))"
    "json_field ''hidden'' (view_json v) = Some (JArr (map JStr (dv_hidden v)))"
    "json_field ''sorts'' (view_json v) = Some (JArr (map sort_json (dv_sorts v)))"
    "json_field ''filters'' (view_json v) = Some (JArr (map filter_json (dv_filters v)))"
    "json_field ''groupBy'' (view_json v) = Some (case dv_groupBy v of None \<Rightarrow> JNull | Some k \<Rightarrow> JStr k)"
    "json_field ''layout'' (view_json v) = Some (JStr (name_of DATABASE_LAYOUTS (dv_layout v)))"
    "json_field ''subfolders'' (view_json v) = Some (JBool (dv_subfolders v))"
    "json_field ''updatedAt'' (view_json v) = Some (JNum (dv_updatedAt v))"
    by (simp_all add: view_json_def)
  from parse_parts [OF assms, unfolded fields] keys sorts filters group
  show ?thesis by (intro database_view.equality) simp_all
qed

lemma normalize_view: "normalizeDatabaseView v = (if view_valid v then Some v else None)"
proof (cases "view_valid v")
  case False
  show ?thesis
  proof (cases "parseDatabaseView (view_json v)")
    case (Some w)
    with view_read_back [OF Some] parsed_valid [OF Some] False show ?thesis by simp
  qed (simp add: normalizeDatabaseView_def False)
qed (simp add: normalizeDatabaseView_def view_read)

section \<open>The stored text\<close>

lemma byteLength_append [simp]: "byteLength (s @ t) = byteLength s + byteLength t"
  by (simp add: byteLength_def)

lemma byteLength_Cons: "byteLength (c # s) = (if (of_char c :: nat) < 128 then 1 else 2) + byteLength s"
  by (simp add: byteLength_def)

lemma byteLength_nil [simp]: "byteLength [] = 0"
  by (simp add: byteLength_def)

lemma commas_bytes: "xs \<noteq> [] \<Longrightarrow> byteLength (commas xs) = sum_list (map byteLength xs) + (length xs - 1)"
proof (induction xs rule: commas.induct)
  case (3 x y xs)
  then show ?case by (simp add: byteLength_Cons)
qed simp_all

lemma document_bytes:
  assumes "views \<noteq> []"
  shows "byteLength (stringify nt (views_document views)) =
    byteLength (stringify nt (views_document [])) + sum_list (map (entryBytes nt) views) + (length views - 1)"
proof -
  let ?texts = "map (\<lambda>(k, text). quoted k @ '':'' @ text) (map (map_prod id (stringify nt)) views)"
  have "map byteLength ?texts = map (entryBytes nt) views" by (simp add: entryBytes_def case_prod_unfold)
  moreover have "?texts \<noteq> []" using assms by simp
  note commas_bytes [OF this]
  ultimately have "byteLength (commas ?texts) = sum_list (map (entryBytes nt) views) + (length views - 1)"
    by (simp only: length_map)
  then show ?thesis by (simp add: views_document_def byteLength_Cons del: map_map)
qed

lemma keep_within_bytes:
  "used \<le> MAX_DATABASE_VIEWS_BYTES \<Longrightarrow>
    used + sum_list (map (entryBytes nt) (keep_within nt used es)) + length (keep_within nt used es) \<le> MAX_DATABASE_VIEWS_BYTES"
  by (induction nt used es rule: keep_within.induct) auto

lemma keep_within_prefix: "\<exists>n. keep_within nt used es = take n es"
proof (induction nt used es rule: keep_within.induct)
  case (2 nt used e es)
  show ?case
  proof (cases "used + 1 + entryBytes nt e \<le> MAX_DATABASE_VIEWS_BYTES")
    case True
    from "2.IH" [OF True] obtain n where "keep_within nt (used + 1 + entryBytes nt e) es = take n es" by blast
    with True have "keep_within nt used (e # es) = take (Suc n) (e # es)" by simp
    then show ?thesis by blast
  next
    case False
    then have "keep_within nt used (e # es) = take 0 (e # es)" by simp
    then show ?thesis by blast
  qed
qed simp

interpretation newest: comparator newest_cmp fst
  by unfold_locales (auto simp: newest_cmp_def)

section \<open>Saving a layout\<close>

definition stored_views :: "workspace_settings \<Rightarrow> (string, json) omap" where
  "stored_views settings =
     (case omap_get (s_extra settings) DATABASE_VIEWS_KEY of
        None \<Rightarrow> [] | Some j \<Rightarrow> (case readStoredViews j of None \<Rightarrow> [] | Some (_, views) \<Rightarrow> views))"

abbreviation live_views :: "workspace_settings \<Rightarrow> string option \<Rightarrow> (string \<Rightarrow> bool) \<Rightarrow> (string \<times> json) list" where
  "live_views settings folderId folderExists \<equiv> live_entries folderExists (databaseScopeKey folderId) (stored_views settings)"

lemma omap_from_entries: "omap_wf m \<Longrightarrow> omap_from fst snd m = m"
proof -
  have "omap_wf (acc @ m) \<Longrightarrow> fold (\<lambda>x m. omap_set (fst x) (snd x) m) m acc = acc @ m" for acc
  proof (induction m arbitrary: acc)
    case (Cons e m)
    have "omap_set (fst e) (snd e) acc = acc @ [e]" using Cons.prems
      by (induction acc) auto
    with Cons.IH [of "acc @ [e]"] Cons.prems show ?case by simp
  qed simp
  from this [of "[]"] show "omap_wf m \<Longrightarrow> omap_from fst snd m = m" by (simp add: omap_from_def)
qed

lemma saved:
  assumes "withDatabaseView nt settings folderId view folderExists = Inr saved" and "omap_wf (stored_views settings)"
  obtains used n where "view_valid view" "used \<le> MAX_DATABASE_VIEWS_BYTES"
    "used = byteLength (stringify nt (views_document [])) + entryBytes nt (databaseScopeKey folderId, view_json view)"
    "omap_get (s_extra saved) DATABASE_VIEWS_KEY = Some (views_document ((databaseScopeKey folderId, view_json view) #
       keep_within nt used (take (MAX_DATABASE_SCOPES - 1) (js_sort newest_cmp (live_views settings folderId folderExists)))))"
    "omap_wf ((databaseScopeKey folderId, view_json view) #
       keep_within nt used (take (MAX_DATABASE_SCOPES - 1) (js_sort newest_cmp (live_views settings folderId folderExists))))"
proof -
  let ?live = "live_views settings folderId folderExists" and ?e = "(databaseScopeKey folderId, view_json view)"
  let ?used = "byteLength (stringify nt (views_document [])) + entryBytes nt ?e"
  let ?kept = "keep_within nt ?used (take (MAX_DATABASE_SCOPES - 1) (js_sort newest_cmp ?live))"
  have views: "(case (case omap_get (s_extra settings) DATABASE_VIEWS_KEY of None \<Rightarrow> Some (1, []) | Some j \<Rightarrow> readStoredViews j) of
      None \<Rightarrow> [] | Some (version, views) \<Rightarrow> views) = stored_views settings"
    by (simp add: stored_views_def split: option.split)
  from assms(1) have v: "view_valid view" "?used \<le> MAX_DATABASE_VIEWS_BYTES"
    and s: "saved = settings\<lparr>s_extra := omap_set DATABASE_VIEWS_KEY (views_document (omap_from fst snd (?e # ?kept))) (s_extra settings)\<rparr>"
    unfolding withDatabaseView_def Let_def views normalize_view by (simp_all split: if_splits)
  obtain n where n: "?kept = take n (take (MAX_DATABASE_SCOPES - 1) (js_sort newest_cmp ?live))" using keep_within_prefix by blast
  have "omap_wf ?live" "databaseScopeKey folderId \<notin> set (omap_keys ?live)"
    using assms(2) by (auto simp: live_entries_def intro: distinct_map_filter)
  then have "omap_wf (js_sort newest_cmp ?live)" "databaseScopeKey folderId \<notin> set (omap_keys (js_sort newest_cmp ?live))" by simp_all
  then have wf: "omap_wf (?e # ?kept)" unfolding n
    by (auto simp: take_map [symmetric] dest: in_set_takeD)
  show thesis
    by (rule that [OF v(1) v(2) refl _ wf], unfold s omap_from_entries [OF wf]) simp
qed

text \<open>C26. A saved settings document holds at most 100 layouts within its byte cap, and every live layout that was evicted is no newer than any kept one.\<close>

theorem stored_layouts_bounded:
  assumes "withDatabaseView nt settings folderId view folderExists = Inr saved" and "omap_wf (stored_views settings)"
  shows "\<exists>views. omap_get (s_extra saved) DATABASE_VIEWS_KEY = Some (views_document views) \<and> omap_wf views \<and>
    length views \<le> MAX_DATABASE_SCOPES \<and> byteLength (stringify nt (views_document views)) \<le> MAX_DATABASE_VIEWS_BYTES \<and>
    (\<forall>e \<in> set (live_views settings folderId folderExists). e \<notin> set views \<longrightarrow>
      (\<forall>e' \<in> set (tl views). updatedAtOf (snd e) \<le> updatedAtOf (snd e')))"
proof -
  let ?live = "live_views settings folderId folderExists" and ?e = "(databaseScopeKey folderId, view_json view)"
  from saved [OF assms] obtain used where u: "used \<le> MAX_DATABASE_VIEWS_BYTES"
    "used = byteLength (stringify nt (views_document [])) + entryBytes nt ?e"
    "omap_get (s_extra saved) DATABASE_VIEWS_KEY =
       Some (views_document (?e # keep_within nt used (take (MAX_DATABASE_SCOPES - 1) (js_sort newest_cmp ?live))))"
    "omap_wf (?e # keep_within nt used (take (MAX_DATABASE_SCOPES - 1) (js_sort newest_cmp ?live)))" by metis
  let ?kept = "keep_within nt used (take (MAX_DATABASE_SCOPES - 1) (js_sort newest_cmp ?live))"
  obtain n where n: "?kept = take n (take (MAX_DATABASE_SCOPES - 1) (js_sort newest_cmp ?live))" using keep_within_prefix by blast
  have short: "length (?e # ?kept) \<le> MAX_DATABASE_SCOPES" unfolding n by (simp add: MAX_DATABASE_SCOPES_def)
  have bytes: "byteLength (stringify nt (views_document (?e # ?kept))) \<le> MAX_DATABASE_VIEWS_BYTES"
    using keep_within_bytes [OF u(1), of nt "take (MAX_DATABASE_SCOPES - 1) (js_sort newest_cmp ?live)"] u(2)
    by (simp add: document_bytes)
  define m where "m = min n (MAX_DATABASE_SCOPES - 1)"
  have kept: "?kept = take m (js_sort newest_cmp ?live)" unfolding n m_def by (simp add: min.commute)
  have "omap_wf ?live" using assms(2) by (auto simp: live_entries_def intro: distinct_map_filter)
  then have "sorted_wrt (\<lambda>x y. newest_cmp x y \<le> 0) (take m (js_sort newest_cmp ?live) @ drop m (js_sort newest_cmp ?live))"
    unfolding append_take_drop_id by (rule newest.sort_sorted)
  then have "newest_cmp e' e \<le> 0" if "e' \<in> set (take m (js_sort newest_cmp ?live))" "e \<in> set (drop m (js_sort newest_cmp ?live))" for e e'
    using that unfolding sorted_wrt_append by blast
  moreover have "e \<in> set (drop m (js_sort newest_cmp ?live))" if "e \<in> set ?live" "e \<notin> set ?kept" for e
    using that set_append [of "take m (js_sort newest_cmp ?live)" "drop m (js_sort newest_cmp ?live)"]
    unfolding kept append_take_drop_id by auto
  ultimately have "\<forall>e \<in> set ?live. e \<notin> set (?e # ?kept) \<longrightarrow>
      (\<forall>e' \<in> set (tl (?e # ?kept)). updatedAtOf (snd e) \<le> updatedAtOf (snd e'))"
    unfolding kept by (auto simp: newest_cmp_def)
  with u(3,4) short bytes show ?thesis by blast
qed

lemma read_current:
  "readDatabaseView (Some (views_document views)) folderId =
    (case omap_get views (databaseScopeKey folderId) of
       None \<Rightarrow> \<lparr>vr_view = defaultDatabaseView folderId, vr_problem = None, vr_readOnly = False\<rparr>
     | Some entry \<Rightarrow>
         (case parseDatabaseView entry of
            None \<Rightarrow> \<lparr>vr_view = defaultDatabaseView folderId,
              vr_problem = Some (''This database'' @ [CHR 0x27] @ ''s saved layout is unreadable. Changing it starts a new one.''),
              vr_readOnly = False\<rparr>
          | Some view \<Rightarrow> \<lparr>vr_view = view, vr_problem = None, vr_readOnly = False\<rparr>))"
  by (simp add: readDatabaseView_def readStoredViews_def views_document_def Let_def DATABASE_VIEWS_VERSION_def)

text \<open>A layout among the stored ones that parses is the one that is read.\<close>

lemma read_stored:
  assumes "withDatabaseView nt settings folderId view folderExists = Inr saved"
    and "omap_get (stored_views settings) (databaseScopeKey other) = Some entry" and "parseDatabaseView entry = Some v"
  shows "readDatabaseView (omap_get (s_extra settings) DATABASE_VIEWS_KEY) other = \<lparr>vr_view = v, vr_problem = None, vr_readOnly = False\<rparr>"
proof -
  from assms(2) obtain j version views where j: "omap_get (s_extra settings) DATABASE_VIEWS_KEY = Some j"
    "readStoredViews j = Some (version, views)" "omap_get views (databaseScopeKey other) = Some entry"
    by (auto simp: stored_views_def split: option.splits)
  moreover have "\<not> version > DATABASE_VIEWS_VERSION"
    using assms(1) j by (auto simp: withDatabaseView_def Let_def split: if_splits)
  ultimately show ?thesis using assms(3) by (simp add: readDatabaseView_def Let_def)
qed

theorem saved_layout_read_back:
  assumes "withDatabaseView nt settings folderId view folderExists = Inr saved" and "omap_wf (stored_views settings)"
  shows "readDatabaseView (omap_get (s_extra saved) DATABASE_VIEWS_KEY) folderId =
      \<lparr>vr_view = view, vr_problem = None, vr_readOnly = False\<rparr> \<and>
    (\<forall>other. databaseScopeKey other \<noteq> databaseScopeKey folderId \<longrightarrow>
      readDatabaseView (omap_get (s_extra saved) DATABASE_VIEWS_KEY) other \<in>
        {readDatabaseView (omap_get (s_extra settings) DATABASE_VIEWS_KEY) other,
         \<lparr>vr_view = defaultDatabaseView other, vr_problem = None, vr_readOnly = False\<rparr>})"
proof -
  let ?live = "live_views settings folderId folderExists" and ?e = "(databaseScopeKey folderId, view_json view)"
  from saved [OF assms] obtain used where u: "view_valid view"
    "omap_get (s_extra saved) DATABASE_VIEWS_KEY =
       Some (views_document (?e # keep_within nt used (take (MAX_DATABASE_SCOPES - 1) (js_sort newest_cmp ?live))))"
    "omap_wf (?e # keep_within nt used (take (MAX_DATABASE_SCOPES - 1) (js_sort newest_cmp ?live)))" by metis
  let ?kept = "keep_within nt used (take (MAX_DATABASE_SCOPES - 1) (js_sort newest_cmp ?live))"
  have "set ?kept \<subseteq> set ?live"
    using keep_within_prefix [of nt used "take (MAX_DATABASE_SCOPES - 1) (js_sort newest_cmp ?live)"]
    by (auto dest!: in_set_takeD)
  then have live: "omap_get (stored_views settings) k = Some entry \<and> parseDatabaseView entry \<noteq> None"
    if "omap_get ?kept k = Some entry" for k entry
    using omap_get_in [OF that] assms(2) by (auto simp: live_entries_def)
  have "readDatabaseView (omap_get (s_extra saved) DATABASE_VIEWS_KEY) other \<in>
        {readDatabaseView (omap_get (s_extra settings) DATABASE_VIEWS_KEY) other,
         \<lparr>vr_view = defaultDatabaseView other, vr_problem = None, vr_readOnly = False\<rparr>}"
    if other: "databaseScopeKey other \<noteq> databaseScopeKey folderId" for other
  proof (cases "omap_get ?kept (databaseScopeKey other)")
    case None
    with other show ?thesis by (simp add: u(2) read_current)
  next
    case (Some entry)
    with live obtain v where v: "omap_get (stored_views settings) (databaseScopeKey other) = Some entry" "parseDatabaseView entry = Some v"
      by blast
    with Some other read_stored [OF assms(1) v] show ?thesis by (simp add: u(2) read_current)
  qed
  moreover have "readDatabaseView (omap_get (s_extra saved) DATABASE_VIEWS_KEY) folderId =
      \<lparr>vr_view = view, vr_problem = None, vr_readOnly = False\<rparr>"
    using view_read [OF u(1)] by (simp add: u(2) read_current)
  ultimately show ?thesis by blast
qed

section \<open>A saved layout\<close>

definition layout_settings :: workspace_settings where
  "layout_settings =
     \<lparr>s_settingsVersion = 1, s_theme = ''system'', s_compactSidebar = False, s_showPageIcons = True, s_rememberLastNote = True,
      s_editorFont = [], s_editorLineHeight = [], s_showLineNumbers = False, s_editorPlaceholder = [],
      s_extra = [(DATABASE_VIEWS_KEY, views_document [(''g'', view_json (defaultDatabaseView (Some ''g'')))])]\<rparr>"

definition board_view :: database_view where
  "board_view = (defaultDatabaseView (Some ''f''))\<lparr>dv_layout := LBoard, dv_groupBy := Some ''p:status'', dv_updatedAt := 5,
     dv_filters := [\<lparr>df_column = ''p:done'', df_operator = OpUnchecked, df_value = []\<rparr>]\<rparr>"

definition board_saved :: "string + workspace_settings" where
  "board_saved = withDatabaseView (\<lambda>_. ''0'') layout_settings (Some ''f'') board_view (\<lambda>k. k = ''g'')"

lemma board_bytes: "byteLength (stringify (\<lambda>_. ''0'') (views_document [])) +
    entryBytes (\<lambda>_. ''0'') (''f'', view_json board_view) < 300"
  by code_simp

lemma board_saves: "\<exists>saved. board_saved = Inr saved"
proof -
  have "view_valid board_view" by code_simp
  then have v: "normalizeDatabaseView board_view = Some board_view" by (simp add: normalize_view)
  have "omap_get (s_extra layout_settings) DATABASE_VIEWS_KEY = Some (views_document [(''g'', view_json (defaultDatabaseView (Some ''g'')))])"
    by (simp add: layout_settings_def)
  moreover have "readStoredViews (views_document vs) = Some (DATABASE_VIEWS_VERSION, vs)" for vs
    by (simp add: readStoredViews_def views_document_def)
  moreover have "byteLength (stringify (\<lambda>_. ''0'') (views_document [])) +
      entryBytes (\<lambda>_. ''0'') (databaseScopeKey (Some ''f''), view_json board_view) \<le> MAX_DATABASE_VIEWS_BYTES"
    using board_bytes by (simp add: databaseScopeKey_def MAX_DATABASE_VIEWS_BYTES_def)
  ultimately show ?thesis by (simp add: board_saved_def withDatabaseView_def Let_def v)
qed

lemma layout_settings_wf: "omap_wf (stored_views layout_settings)"
  by code_simp

theorem stored_layouts_bounded_witness:
  "\<exists>saved views. board_saved = Inr saved \<and> omap_get (s_extra saved) DATABASE_VIEWS_KEY = Some (views_document views) \<and>
     byteLength (stringify (\<lambda>_. ''0'') (views_document views)) \<le> 240 * 1024"
proof -
  from board_saves obtain saved where saved: "board_saved = Inr saved" by blast
  from stored_layouts_bounded [OF saved [unfolded board_saved_def] layout_settings_wf] obtain views where
    "omap_get (s_extra saved) DATABASE_VIEWS_KEY = Some (views_document views)"
    "byteLength (stringify (\<lambda>_. ''0'') (views_document views)) \<le> MAX_DATABASE_VIEWS_BYTES" by blast
  with saved show ?thesis unfolding MAX_DATABASE_VIEWS_BYTES_def by blast
qed

theorem saved_layout_read_back_witness:
  "\<exists>saved. board_saved = Inr saved \<and>
     vr_view (readDatabaseView (omap_get (s_extra saved) DATABASE_VIEWS_KEY) (Some ''f'')) = board_view"
proof -
  from board_saves obtain saved where saved: "board_saved = Inr saved" by blast
  have "readDatabaseView (omap_get (s_extra saved) DATABASE_VIEWS_KEY) (Some ''f'') =
      \<lparr>vr_view = board_view, vr_problem = None, vr_readOnly = False\<rparr>"
    by (rule conjunct1 [OF saved_layout_read_back [OF saved [unfolded board_saved_def] layout_settings_wf]])
  with saved show ?thesis by (intro exI [of _ saved]) simp
qed

end
