(* ===== verification/Database_Rows.thy ===== *)
theory Database_Rows
  imports Store_State
begin

text \<open>
  \<open>database/rows.ts\<close>: the notes of one folder, or of the whole workspace, as the rows of a
  property database. The selector's cache is explicit state. \<open>===\<close> on the store's immutable
  maps and records is equality: on an equal value that is not identical the code recomputes what
  the cache holds. The recursion of \<open>collectScope\<close> is fuelled by its depth.
\<close>

section \<open>Rows\<close>

datatype scope_status = ScopeReady | ScopeMissing | ScopeTrashed | ScopeJournal | ScopeNotFolder

record database_row =
  row_noteId :: string
  row_title :: string
  row_parentId :: "string option"
  row_folderPath :: string
  row_treeIndex :: nat
  row_locked :: bool
  row_createdAt :: number
  row_updatedAt :: number
  row_wordCount :: "number option"
  row_properties :: note_properties

definition databaseScopeStatus :: "renderer_state \<Rightarrow> string option \<Rightarrow> scope_status" where
  "databaseScopeStatus s folderId =
     (case folderId of
        None \<Rightarrow> ScopeReady
      | Some f \<Rightarrow>
          if f = JOURNAL_ROOT_ID then ScopeJournal
          else (case omap_get (st_nodes s) f of
              Some node \<Rightarrow> if nr_kind node = KFolder then ScopeReady else ScopeNotFolder
            | None \<Rightarrow>
                (case omap_get (st_sourceNodes s) f of
                   None \<Rightarrow> ScopeMissing
                 | Some source \<Rightarrow> if n_kind source = KFolder then ScopeTrashed else ScopeNotFolder)))"

record row_inputs =
  ri_source :: "workspace_node option"
  ri_metadata :: "note_metadata option"
  ri_document :: "document_record option"
  ri_properties :: note_properties

record row_entry =
  re_inputs :: row_inputs
  re_row :: database_row

definition readRowInputs :: "renderer_state \<Rightarrow> string \<Rightarrow> row_inputs" where
  "readRowInputs s noteId =
     \<lparr>ri_source = omap_get (st_sourceNodes s) noteId, ri_metadata = omap_get (st_metadata s) noteId,
      ri_document = omap_get (st_documents s) noteId, ri_properties = omap_getd [] (st_propertiesByNoteId s) noteId\<rparr>"

definition sameRowInputs :: "row_inputs \<Rightarrow> row_inputs \<Rightarrow> bool" where
  "sameRowInputs l r \<longleftrightarrow> ri_source l = ri_source r \<and> ri_metadata l = ri_metadata r \<and>
     ri_document l = ri_document r \<and> ri_properties l = ri_properties r"

definition buildRow :: "renderer_state \<Rightarrow> string \<Rightarrow> row_inputs \<Rightarrow> string option \<Rightarrow> string \<Rightarrow> nat \<Rightarrow> database_row" where
  "buildRow s noteId inputs parentId folderPath treeIndex =
     (let source = ri_source inputs; metadata = ri_metadata inputs;
          sealed = (case ri_document inputs of None \<Rightarrow> False | Some d \<Rightarrow> nullish (dr_sealed d) \<noteq> None)
      in \<lparr>row_noteId = noteId,
          row_title = (case metadata of Some m \<Rightarrow> md_title m
            | None \<Rightarrow> (case omap_get (st_nodes s) noteId of Some r \<Rightarrow> nr_title r | None \<Rightarrow> [])),
          row_parentId = parentId, row_folderPath = folderPath, row_treeIndex = treeIndex,
          row_locked = (case source of None \<Rightarrow> False | Some n \<Rightarrow> nullish (n_lockedAt n) \<noteq> None),
          row_createdAt = (case source of None \<Rightarrow> 0 | Some n \<Rightarrow> n_createdAt n),
          row_updatedAt = (case metadata of Some m \<Rightarrow> md_updatedAt m
            | None \<Rightarrow> (case source of Some n \<Rightarrow> n_updatedAt n | None \<Rightarrow> 0)),
          row_wordCount = (if sealed then None else Some (case metadata of None \<Rightarrow> 0 | Some m \<Rightarrow> md_wordCount m)),
          row_properties = ri_properties inputs\<rparr>)"

definition sameRow :: "database_row \<Rightarrow> database_row \<Rightarrow> bool" where
  "sameRow l r \<longleftrightarrow> row_title l = row_title r \<and> row_parentId l = row_parentId r \<and>
     row_folderPath l = row_folderPath r \<and> row_treeIndex l = row_treeIndex r \<and> row_locked l = row_locked r \<and>
     row_createdAt l = row_createdAt r \<and> row_updatedAt l = row_updatedAt r \<and>
     row_wordCount l = row_wordCount r \<and> row_properties l = row_properties r"

section \<open>Collecting a scope\<close>

type_synonym scope_visit = "string \<times> string option \<times> string"

definition child_path :: "string \<Rightarrow> string \<Rightarrow> string" where
  "child_path path title = (if path = [] then title else path @ '' / '' @ title)"

text \<open>The visits of \<open>walk(parentId, path)\<close>; \<open>None\<close> is a recursion deeper than the fuel.\<close>

fun scope_walk :: "nat \<Rightarrow> renderer_state \<Rightarrow> bool \<Rightarrow> string option \<Rightarrow> string \<Rightarrow> scope_visit list option" where
  "scope_walk 0 s subfolders parentId path = None"
| "scope_walk (Suc fuel) s subfolders parentId path =
     map_option concat (those (map (\<lambda>childId.
       case omap_get (st_nodes s) childId of
         None \<Rightarrow> Some []
       | Some child \<Rightarrow>
           if childId = JOURNAL_ROOT_ID then Some []
           else if nr_kind child = KNote then Some [(childId, parentId, path)]
           else if subfolders then scope_walk fuel s subfolders (Some childId) (child_path path (nr_title child))
           else Some []) (omap_getd [] (st_childrenByParent s) parentId)))"

definition collectScope :: "renderer_state \<Rightarrow> string option \<Rightarrow> bool \<Rightarrow> scope_visit list option" where
  "collectScope s folderId subfolders =
     (if databaseScopeStatus s folderId \<noteq> ScopeReady then Some []
      else scope_walk (Suc (length (st_nodes s))) s subfolders folderId [])"

section \<open>The selector\<close>

record rows_selector =
  rs_lastState :: "renderer_state option"
  rs_lastRows :: "database_row list"
  rs_entries :: "row_entry list"

definition createDatabaseRowsSelector :: rows_selector where
  "createDatabaseRowsSelector = \<lparr>rs_lastState = None, rs_lastRows = [], rs_entries = []\<rparr>"

definition visit_entry :: "renderer_state \<Rightarrow> (string, database_row) omap \<Rightarrow> nat \<times> scope_visit \<Rightarrow> row_entry" where
  "visit_entry s previous v =
     (case v of (index, noteId, parentId, folderPath) \<Rightarrow>
        let inputs = readRowInputs s noteId;
            built = buildRow s noteId inputs parentId folderPath index
        in \<lparr>re_inputs = inputs,
            re_row = (case omap_get previous noteId of
                Some earlier \<Rightarrow> if sameRow earlier built then earlier else built
              | None \<Rightarrow> built)\<rparr>)"

definition rebuild :: "string option \<Rightarrow> bool \<Rightarrow> rows_selector \<Rightarrow> renderer_state \<Rightarrow> rows_selector option" where
  "rebuild folderId subfolders sel s =
     (case collectScope s folderId subfolders of
        None \<Rightarrow> None
      | Some visits \<Rightarrow>
          let previous = omap_from (\<lambda>e. row_noteId (re_row e)) re_row (rs_entries sel);
              entries = map (visit_entry s previous) (List.enumerate 0 visits);
              rows = map re_row entries;
              changed = list_ex (\<lambda>(i, row). array_at (rs_lastRows sel) i \<noteq> Some row) (List.enumerate 0 rows)
          in Some (sel\<lparr>rs_entries := entries,
               rs_lastRows := if changed \<or> length rows \<noteq> length (rs_lastRows sel) then rows else rs_lastRows sel\<rparr>))"

text \<open>One pass over the entries from an index on; the rows are the copy the loop writes to.\<close>

fun refresh_from :: "renderer_state \<Rightarrow> nat \<Rightarrow> row_entry list \<Rightarrow> database_row list \<Rightarrow> row_entry list \<times> database_row list" where
  "refresh_from s index [] rows = ([], rows)"
| "refresh_from s index (e # es) rows =
     (let row = re_row e; inputs = readRowInputs s (row_noteId row);
          built = buildRow s (row_noteId row) inputs (row_parentId row) (row_folderPath row) (row_treeIndex row);
          (e', rows') = (if sameRowInputs (re_inputs e) inputs then (e, rows)
            else if sameRow row built then (e\<lparr>re_inputs := inputs\<rparr>, rows)
            else (\<lparr>re_inputs = inputs, re_row = built\<rparr>, rows[index := built]));
          (es', rows'') = refresh_from s (Suc index) es rows'
      in (e' # es', rows''))"

definition refresh :: "rows_selector \<Rightarrow> renderer_state \<Rightarrow> rows_selector" where
  "refresh sel s =
     (let (entries, rows) = refresh_from s 0 (rs_entries sel) (rs_lastRows sel)
      in sel\<lparr>rs_entries := entries, rs_lastRows := rows\<rparr>)"

definition same_row_sources :: "renderer_state \<Rightarrow> renderer_state \<Rightarrow> bool" where
  "same_row_sources p s \<longleftrightarrow> st_nodes p = st_nodes s \<and> st_childrenByParent p = st_childrenByParent s \<and>
     st_sourceNodes p = st_sourceNodes s \<and> st_metadata p = st_metadata s \<and>
     st_documents p = st_documents s \<and> st_propertiesByNoteId p = st_propertiesByNoteId s"

text \<open>The selector after a call; its result is the new \<open>rs_lastRows\<close>.\<close>

definition selectDatabaseRows :: "string option \<Rightarrow> bool \<Rightarrow> rows_selector \<Rightarrow> renderer_state \<Rightarrow> rows_selector option" where
  "selectDatabaseRows folderId subfolders sel s =
     (let sel' = sel\<lparr>rs_lastState := Some s\<rparr>
      in case rs_lastState sel of
           None \<Rightarrow> rebuild folderId subfolders sel' s
         | Some previous \<Rightarrow>
             if same_row_sources previous s then Some sel'
             else if st_nodes previous = st_nodes s \<and> st_childrenByParent previous = st_childrenByParent s
             then Some (refresh sel' s)
             else rebuild folderId subfolders sel' s)"

end
