(* ===== verification/Rows_Theorems.thy ===== *)
theory Rows_Theorems
  imports Database_Rows Store_Theorems
begin

text \<open>
  The rows of a property database: the selector's cache never shows, whatever states it has
  seen, and in a consistent state the rows are the notes of the scope in tree order.
\<close>

section \<open>The cache\<close>

definition scope_rows :: "renderer_state \<Rightarrow> scope_visit list \<Rightarrow> database_row list" where
  "scope_rows s visits =
     map (\<lambda>(i, noteId, parentId, path). buildRow s noteId (readRowInputs s noteId) parentId path i) (List.enumerate 0 visits)"

definition shows_rows :: "string option \<Rightarrow> bool \<Rightarrow> renderer_state \<Rightarrow> rows_selector \<Rightarrow> bool" where
  "shows_rows folderId subfolders s sel \<longleftrightarrow> map_option (scope_rows s) (collectScope s folderId subfolders) = Some (rs_lastRows sel)"

definition selector_ok :: "string option \<Rightarrow> bool \<Rightarrow> rows_selector \<Rightarrow> bool" where
  "selector_ok folderId subfolders sel \<longleftrightarrow>
     (case rs_lastState sel of
        None \<Rightarrow> True
      | Some s \<Rightarrow> shows_rows folderId subfolders s sel \<and> map re_row (rs_entries sel) = rs_lastRows sel \<and>
          list_all (\<lambda>e. re_inputs e = readRowInputs s (row_noteId (re_row e))) (rs_entries sel))"

lemma row_of_build [simp]:
  "row_noteId (buildRow s i inputs p path n) = i" "row_parentId (buildRow s i inputs p path n) = p"
  "row_folderPath (buildRow s i inputs p path n) = path" "row_treeIndex (buildRow s i inputs p path n) = n"
  by (simp_all add: buildRow_def Let_def)

lemma same_row: "sameRow l r \<Longrightarrow> row_noteId l = row_noteId r \<Longrightarrow> l = r"
  by (simp add: sameRow_def)

lemma previous_note:
  "omap_get (omap_from (\<lambda>e. row_noteId (re_row e)) re_row es) i = Some row \<Longrightarrow> row_noteId row = i"
proof -
  have "omap_get (fold (\<lambda>x m. omap_set (row_noteId (re_row x)) (re_row x) m) es m) i = Some row \<Longrightarrow>
      (\<forall>k v. omap_get m k = Some v \<longrightarrow> row_noteId v = k) \<Longrightarrow> row_noteId row = i" for m
    by (induction es arbitrary: m) (auto split: if_splits)
  from this [of "[]"] show "omap_get (omap_from (\<lambda>e. row_noteId (re_row e)) re_row es) i = Some row \<Longrightarrow> row_noteId row = i"
    by (simp add: omap_from_def)
qed

lemma visit_entry_row:
  "visit_entry s (omap_from (\<lambda>e. row_noteId (re_row e)) re_row es) (i, noteId, p, path) =
    \<lparr>re_inputs = readRowInputs s noteId, re_row = buildRow s noteId (readRowInputs s noteId) p path i\<rparr>"
proof (cases "omap_get (omap_from (\<lambda>e. row_noteId (re_row e)) re_row es) noteId")
  case (Some row)
  with previous_note [OF Some] same_row [of row "buildRow s noteId (readRowInputs s noteId) p path i"]
  show ?thesis by (simp add: visit_entry_def Let_def)
qed (simp add: visit_entry_def Let_def)

lemma unchanged_rows:
  assumes "\<not> list_ex (\<lambda>(i, row). array_at old i \<noteq> Some row) (List.enumerate 0 rows)" and "length rows = length old"
  shows "old = rows"
proof (rule nth_equalityI)
  fix i
  assume i: "i < length old"
  then have "(i, rows ! i) \<in> set (List.enumerate 0 rows)" using assms(2) by (simp add: in_set_enumerate_eq)
  with assms(1) have "array_at old i = Some (rows ! i)" by (auto simp: list_ex_iff)
  with i show "old ! i = rows ! i" by (simp add: array_at_def)
qed (simp add: assms(2))

lemma rebuild_ok:
  assumes "rebuild folderId subfolders sel s = Some sel'" and "rs_lastState sel = Some s"
  shows "selector_ok folderId subfolders sel'"
proof -
  from assms(1) obtain visits where v: "collectScope s folderId subfolders = Some visits" by (auto simp: rebuild_def split: option.splits)
  let ?entries = "map (visit_entry s (omap_from (\<lambda>e. row_noteId (re_row e)) re_row (rs_entries sel))) (List.enumerate 0 visits)"
  have entry: "visit_entry s (omap_from (\<lambda>e. row_noteId (re_row e)) re_row (rs_entries sel)) v =
      (case v of (i, noteId, p, path) \<Rightarrow> \<lparr>re_inputs = readRowInputs s noteId,
        re_row = buildRow s noteId (readRowInputs s noteId) p path i\<rparr>)" for v
    by (cases v) (simp add: visit_entry_row)
  have rows: "map re_row ?entries = scope_rows s visits"
    by (simp add: scope_rows_def entry case_prod_unfold)
  from assms(1) have sel': "rs_lastState sel' = Some s" "rs_entries sel' = ?entries" "rs_lastRows sel' = scope_rows s visits"
    using unchanged_rows [of "rs_lastRows sel" "scope_rows s visits"]
    unfolding rebuild_def v option.case Let_def rows assms(2) by (auto simp: assms(2))
  have "list_all (\<lambda>e. re_inputs e = readRowInputs s (row_noteId (re_row e))) ?entries"
    by (auto simp: list_all_iff entry)
  with rows sel' v show ?thesis by (simp add: selector_ok_def shows_rows_def)
qed

text \<open>While the tree is untouched the visits are.\<close>

lemma scope_walk_cong:
  assumes "st_nodes s = st_nodes t" and "st_childrenByParent s = st_childrenByParent t"
  shows "scope_walk fuel s sub p path = scope_walk fuel t sub p path"
proof (induction fuel arbitrary: p path)
  case (Suc fuel)
  show ?case by (simp only: scope_walk.simps Suc.IH assms)
qed simp

lemma collect_cong:
  assumes "st_nodes s = st_nodes t" and "st_childrenByParent s = st_childrenByParent t"
  shows "collectScope s folderId sub = collectScope t folderId sub"
proof -
  have "databaseScopeStatus s folderId = ScopeReady \<longleftrightarrow> databaseScopeStatus t folderId = ScopeReady"
    by (auto simp: databaseScopeStatus_def assms(1) split: option.splits)
  then show ?thesis by (simp add: collectScope_def assms(1) scope_walk_cong [OF assms])
qed

lemma refresh_from_rows:
  assumes nodes: "st_nodes s = st_nodes t"
  shows "map re_row es = drop index rows \<Longrightarrow> index \<le> length rows \<Longrightarrow>
    list_all (\<lambda>e. re_inputs e = readRowInputs t (row_noteId (re_row e))) es \<Longrightarrow>
    (\<And>e. e \<in> set es \<Longrightarrow> \<exists>p path i. re_row e = buildRow t (row_noteId (re_row e)) (readRowInputs t (row_noteId (re_row e))) p path i) \<Longrightarrow>
    refresh_from s index es rows = (es', rows') \<Longrightarrow>
    rows' = take index rows @ map (\<lambda>r. buildRow s (row_noteId r) (readRowInputs s (row_noteId r)) (row_parentId r)
      (row_folderPath r) (row_treeIndex r)) (drop index rows) \<and>
    map re_row es' = drop index rows' \<and>
    list_all (\<lambda>e. re_inputs e = readRowInputs s (row_noteId (re_row e))) es'"
proof (induction es arbitrary: index rows es' rows')
  case Nil
  then show ?case by simp
next
  case (Cons e es)
  let ?row = "re_row e"
  let ?built = "buildRow s (row_noteId ?row) (readRowInputs s (row_noteId ?row)) (row_parentId ?row) (row_folderPath ?row) (row_treeIndex ?row)"
  from Cons.prems(1) have i: "index < length rows" "rows ! index = ?row" "map re_row es = drop (Suc index) rows"
    by (metis drop_eq_Nil list.simps(3) map_is_Nil_conv linorder_not_less list.simps(9),
        metis hd_drop_conv_nth list.sel(1) list.simps(9) drop_eq_Nil linorder_not_less list.simps(3),
        metis drop_Suc list.sel(3) list.simps(9) tl_drop)
  define e2 rows2 where "e2 = (if sameRowInputs (re_inputs e) (readRowInputs s (row_noteId ?row)) then e
      else if sameRow ?row ?built then e\<lparr>re_inputs := readRowInputs s (row_noteId ?row)\<rparr>
      else \<lparr>re_inputs = readRowInputs s (row_noteId ?row), re_row = ?built\<rparr>)"
    and "rows2 = (if sameRowInputs (re_inputs e) (readRowInputs s (row_noteId ?row)) \<or> sameRow ?row ?built then rows else rows[index := ?built])"
  obtain es2 rows3 where rest: "refresh_from s (Suc index) es rows2 = (es2, rows3)" by (cases "refresh_from s (Suc index) es rows2")
  have step: "es' = e2 # es2" "rows' = rows3"
    using Cons.prems(5) rest by (auto simp: e2_def rows2_def Let_def split: if_splits)
  have inputs: "re_inputs e = readRowInputs t (row_noteId ?row)" using Cons.prems(3) by simp
  obtain p path k where built: "?row = buildRow t (row_noteId ?row) (readRowInputs t (row_noteId ?row)) p path k"
    using Cons.prems(4) [of e] by auto
  have same: "?row = ?built" if "sameRowInputs (re_inputs e) (readRowInputs s (row_noteId ?row))"
  proof -
    have "readRowInputs s (row_noteId ?row) = readRowInputs t (row_noteId ?row)"
      using that inputs by (simp add: sameRowInputs_def readRowInputs_def)
    moreover have "buildRow s = buildRow t" unfolding buildRow_def nodes by (rule refl)
    ultimately have "?built = buildRow t (row_noteId ?row) (readRowInputs t (row_noteId ?row)) (row_parentId ?row) (row_folderPath ?row) (row_treeIndex ?row)"
      by simp
    also have "\<dots> = buildRow t (row_noteId ?row) (readRowInputs t (row_noteId ?row)) p path k"
      by (subst (2 3 4) built) simp
    finally show ?thesis using built by simp
  qed
  have rows2: "rows2 = rows[index := ?built]"
  proof (cases "sameRowInputs (re_inputs e) (readRowInputs s (row_noteId ?row)) \<or> sameRow ?row ?built")
    case True
    then have "?row = ?built" using same same_row [of ?row ?built] by auto
    with i(2) True show ?thesis unfolding rows2_def by (metis list_update_id)
  qed (simp add: rows2_def)
  have e2: "re_row e2 = ?built" "re_inputs e2 = readRowInputs s (row_noteId ?row)"
  proof -
    show "re_row e2 = ?built" unfolding e2_def using same same_row [of ?row ?built] by auto
    show "re_inputs e2 = readRowInputs s (row_noteId ?row)"
      using inputs by (auto simp: e2_def sameRowInputs_def readRowInputs_def)
  qed
  have d: "drop (Suc index) rows2 = drop (Suc index) rows" "take index rows2 = take index rows" "length rows2 = length rows"
    "rows2 ! index = ?built"
    using i(1) by (simp_all add: rows2)
  from Cons.IH [of "Suc index" rows2 es2 rows3] Cons.prems(3,4) rest i d
  have ih: "rows3 = take (Suc index) rows2 @ map (\<lambda>r. buildRow s (row_noteId r) (readRowInputs s (row_noteId r)) (row_parentId r)
      (row_folderPath r) (row_treeIndex r)) (drop (Suc index) rows)"
    "map re_row es2 = drop (Suc index) rows3"
    "list_all (\<lambda>e. re_inputs e = readRowInputs s (row_noteId (re_row e))) es2" by simp_all
  have "take (Suc index) rows2 = take index rows @ [?built]"
    using i(1) d by (metis take_Suc_conv_app_nth)
  moreover have "drop index rows = ?row # drop (Suc index) rows" using i by (metis Cons_nth_drop_Suc)
  ultimately have r: "rows3 = take index rows @ ?built # map (\<lambda>r. buildRow s (row_noteId r) (readRowInputs s (row_noteId r)) (row_parentId r)
      (row_folderPath r) (row_treeIndex r)) (drop (Suc index) rows)"
    "rows3 = take index rows @ map (\<lambda>r. buildRow s (row_noteId r) (readRowInputs s (row_noteId r)) (row_parentId r)
      (row_folderPath r) (row_treeIndex r)) (drop index rows)"
    using ih(1) by simp_all
  have "drop index rows3 = ?built # drop (Suc index) rows3"
    unfolding r(1) using i(1) by simp
  with r(2) ih e2 show ?case by (simp add: step)
qed

lemma scope_rows_rebuilt:
  assumes "st_nodes s = st_nodes t"
  shows "map (\<lambda>r. buildRow s (row_noteId r) (readRowInputs s (row_noteId r)) (row_parentId r) (row_folderPath r) (row_treeIndex r))
    (scope_rows t visits) = scope_rows s visits"
  by (simp add: scope_rows_def case_prod_unfold)

lemma refresh_ok:
  assumes ok: "selector_ok folderId subfolders (sel\<lparr>rs_lastState := Some t\<rparr>)"
    and same: "st_nodes s = st_nodes t" "st_childrenByParent s = st_childrenByParent t"
  shows "selector_ok folderId subfolders (refresh (sel\<lparr>rs_lastState := Some s\<rparr>) s)"
proof -
  obtain es rows where r: "refresh_from s 0 (rs_entries sel) (rs_lastRows sel) = (es, rows)" by force
  from ok obtain visits where v: "collectScope t folderId subfolders = Some visits" "rs_lastRows sel = scope_rows t visits"
    and e: "map re_row (rs_entries sel) = rs_lastRows sel"
      "list_all (\<lambda>e. re_inputs e = readRowInputs t (row_noteId (re_row e))) (rs_entries sel)"
    by (auto simp: selector_ok_def shows_rows_def)
  have built: "\<exists>p path i. re_row e = buildRow t (row_noteId (re_row e)) (readRowInputs t (row_noteId (re_row e))) p path i"
    if "e \<in> set (rs_entries sel)" for e
  proof -
    have "re_row e \<in> set (scope_rows t visits)" using that e(1) v(2) by (metis image_eqI list.set_map)
    then show ?thesis by (auto simp: scope_rows_def) blast
  qed
  from refresh_from_rows [OF same(1), of "rs_entries sel" 0, OF _ _ e(2) built r] e(1)
  have "rows = scope_rows s visits" "map re_row es = rows" "list_all (\<lambda>e. re_inputs e = readRowInputs s (row_noteId (re_row e))) es"
    by (simp_all add: v(2) scope_rows_rebuilt [OF same(1)])
  with v(1) collect_cong [OF same] show ?thesis by (simp add: refresh_def r selector_ok_def shows_rows_def)
qed

definition selects :: "string option \<Rightarrow> bool \<Rightarrow> rows_selector \<Rightarrow> rows_selector \<Rightarrow> bool" where
  "selects folderId subfolders sel sel' \<longleftrightarrow> (\<exists>s. selectDatabaseRows folderId subfolders sel s = Some sel')"

lemma select_ok:
  assumes ok: "selector_ok folderId subfolders sel" and sel': "selectDatabaseRows folderId subfolders sel s = Some sel'"
  shows "selector_ok folderId subfolders sel' \<and> rs_lastState sel' = Some s"
proof -
  have rebuilt: "selector_ok folderId subfolders sel' \<and> rs_lastState sel' = Some s"
    if "rebuild folderId subfolders (sel\<lparr>rs_lastState := Some s\<rparr>) s = Some sel'"
    using rebuild_ok [OF that] that by (auto simp: rebuild_def Let_def split: option.splits)
  show ?thesis
  proof (cases "rs_lastState sel")
    case None
    with sel' rebuilt show ?thesis by (simp add: selectDatabaseRows_def)
  next
    case (Some t)
    then have "sel\<lparr>rs_lastState := Some t\<rparr> = sel" by (cases sel) simp
    with ok have t: "selector_ok folderId subfolders (sel\<lparr>rs_lastState := Some t\<rparr>)" by simp
    consider (same) "same_row_sources t s"
      | (tree) "\<not> same_row_sources t s" "st_nodes t = st_nodes s" "st_childrenByParent t = st_childrenByParent s"
      | (other) "\<not> same_row_sources t s" "\<not> (st_nodes t = st_nodes s \<and> st_childrenByParent t = st_childrenByParent s)" by blast
    then show ?thesis
    proof cases
      case same
      then have s: "st_nodes s = st_nodes t" "st_childrenByParent s = st_childrenByParent t" "readRowInputs s = readRowInputs t"
        by (auto simp: same_row_sources_def readRowInputs_def)
      have "buildRow s = buildRow t" unfolding buildRow_def s by (rule refl)
      then have "scope_rows s = scope_rows t" by (intro ext) (simp add: scope_rows_def s(3))
      with t s collect_cong [OF s(1,2)] sel' Some same show ?thesis
        by (auto simp: selectDatabaseRows_def selector_ok_def shows_rows_def)
    next
      case tree
      with refresh_ok [OF t, of s] sel' Some show ?thesis
        by (auto simp: selectDatabaseRows_def refresh_def split: prod.splits)
    next
      case other
      with sel' Some rebuilt show ?thesis by (simp add: selectDatabaseRows_def)
    qed
  qed
qed

interpretation row_selector: invariant_system "selects folderId subfolders" createDatabaseRowsSelector
    "selector_ok folderId subfolders" for folderId subfolders
proof
  show "selector_ok folderId subfolders createDatabaseRowsSelector"
    by (simp add: selector_ok_def createDatabaseRowsSelector_def)
  fix sel sel'
  assume "selector_ok folderId subfolders sel" "selects folderId subfolders sel sel'"
  then show "selector_ok folderId subfolders sel'" using select_ok by (auto simp: selects_def)
qed

lemma select_fresh:
  assumes "reached (selects folderId subfolders) createDatabaseRowsSelector sel"
    and "selectDatabaseRows folderId subfolders sel s = Some sel'"
  shows "map_option (scope_rows s) (collectScope s folderId subfolders) = Some (rs_lastRows sel')"
proof -
  have "selector_ok folderId subfolders sel" by (rule row_selector.reachable_inv [OF assms(1)])
  from select_ok [OF this assms(2)] show ?thesis by (auto simp: selector_ok_def shows_rows_def)
qed

text \<open>C21. After any sequence of selections the rows the caching selector returns are exactly the rows built from the current state, although it reuses and refreshes earlier ones.\<close>

theorem selector_is_fresh:
  assumes "reached (selects folderId subfolders) createDatabaseRowsSelector sel"
    and "selectDatabaseRows folderId subfolders sel s = Some sel'"
  shows "map_option (scope_rows s) (collectScope s folderId subfolders) = Some (rs_lastRows sel')"
  by (rule select_fresh [OF assms])

section \<open>Tree order\<close>

lemma walk_mono: "walk f ch st acc = Some r \<Longrightarrow> f \<le> g \<Longrightarrow> walk g ch st acc = Some r"
  by (metis le_Suc_ex walk_more_fuel)

lemma walk_acc: "walk f ch st (acc @ acc') = map_option ((@) acc) (walk f ch st acc')"
  by (induction f ch st acc' rule: walk.induct) simp_all

lemma walk_Cons:
  "walk (Suc f) ch (x # st) [] = Some r \<longleftrightarrow> (\<exists>r'. walk f ch (ch x @ st) [] = Some r' \<and> r = x # r')"
  using walk_acc [of f ch "ch x @ st" "[x]" "[]"] by (cases "walk f ch (ch x @ st) []") auto

declare walk.simps(3) [simp del]

lemma walk_split:
  "walk f ch (s @ t) [] = Some r \<Longrightarrow> \<exists>r1 r2. walk f ch s [] = Some r1 \<and> walk f ch t [] = Some r2 \<and> r = r1 @ r2"
proof (induction f arbitrary: s r)
  case 0
  then show ?case by (cases s) auto
next
  case (Suc f)
  show ?case
  proof (cases s)
    case Nil
    with Suc.prems show ?thesis by simp
  next
    case (Cons x s')
    with Suc.prems obtain r' where r: "walk f ch ((ch x @ s') @ t) [] = Some r'" "r = x # r'" by (auto simp: walk_Cons)
    from Suc.IH [OF r(1)] obtain r1 r2 where i: "walk f ch (ch x @ s') [] = Some r1" "walk f ch t [] = Some r2" "r' = r1 @ r2" by blast
    then have "walk (Suc f) ch (x # s') [] = Some (x # r1)" "walk (Suc f) ch t [] = Some r2"
      by (auto simp: walk_Cons intro: walk_mono)
    with i(3) r(2) Cons show ?thesis by auto
  qed
qed

text \<open>A walk visits a node, then everything below it, then the rest.\<close>

lemma walk_node:
  assumes "walk (Suc f) ch (x # st) [] = Some r"
  obtains r1 r2 where "walk f ch (ch x) [] = Some r1" "walk f ch st [] = Some r2" "r = x # r1 @ r2"
  using assms walk_split [of f ch "ch x" st] by (auto simp: walk_Cons)

lemma walk_starts: "walk f ch st [] = Some r \<Longrightarrow> set st \<subseteq> set r"
proof (induction f arbitrary: st r)
  case 0
  then show ?case by (cases st) auto
next
  case (Suc f)
  show ?case
  proof (cases st)
    case (Cons x st')
    from Suc.prems [unfolded Cons] obtain r1 r2 where "walk f ch st' [] = Some r2" "r = x # r1 @ r2" by (rule walk_node)
    with Suc.IH Cons show ?thesis by auto
  qed simp
qed

lemma walk_below:
  "walk f ch st [] = Some r \<Longrightarrow> x \<in> set r \<Longrightarrow>
    \<exists>a r1 b. walk f ch (ch x) [] = Some r1 \<and> r = a @ x # r1 @ b"
proof (induction f arbitrary: st r)
  case 0
  then show ?case by (cases st) auto
next
  case (Suc f)
  show ?case
  proof (cases st)
    case Nil
    with Suc.prems show ?thesis by simp
  next
    case (Cons y st')
    from Suc.prems(1) [unfolded Cons] obtain r1 r2 where
      r: "walk f ch (ch y) [] = Some r1" "walk f ch st' [] = Some r2" "r = y # r1 @ r2" by (rule walk_node)
    consider "x = y" | "x \<in> set r1" | "x \<in> set r2" using Suc.prems(2) r(3) by auto
    then show ?thesis
    proof cases
      case 1
      with r have "walk (Suc f) ch (ch x) [] = Some r1" "r = [] @ x # r1 @ r2" by (auto intro: walk_mono)
      then show ?thesis by blast
    next
      case 2
      from Suc.IH [OF r(1) 2] obtain a r' b where "walk f ch (ch x) [] = Some r'" "r1 = a @ x # r' @ b" by blast
      then have "walk (Suc f) ch (ch x) [] = Some r'" "r = (y # a) @ x # r' @ b @ r2" using r(3) by (auto intro: walk_mono)
      then show ?thesis by blast
    next
      case 3
      from Suc.IH [OF r(2) 3] obtain a r' b where "walk f ch (ch x) [] = Some r'" "r2 = a @ x # r' @ b" by blast
      then have "walk (Suc f) ch (ch x) [] = Some r'" "r = (y # r1 @ a) @ x # r' @ b" using r(3) by (auto intro: walk_mono)
      then show ?thesis by blast
    qed
  qed
qed

lemma walk_closed: "walk f ch st [] = Some r \<Longrightarrow> x \<in> set r \<Longrightarrow> set (ch x) \<subseteq> set r"
  using walk_below [of f ch st r x] walk_starts by fastforce

lemma walk_needs: "walk f ch st [] = Some r \<Longrightarrow> walk (length r) ch st [] = Some r"
proof (induction f arbitrary: st r)
  case 0
  then show ?case by (cases st) auto
next
  case (Suc f)
  show ?case
  proof (cases st)
    case Nil
    with Suc.prems show ?thesis by simp
  next
    case (Cons x st')
    with Suc.prems obtain r' where "walk f ch (ch x @ st') [] = Some r'" "r = x # r'" by (auto simp: walk_Cons)
    with Suc.IH Cons show ?thesis by (auto simp: walk_Cons)
  qed
qed

lemma walk_cong:
  "walk f ch st [] = Some r \<Longrightarrow> (\<And>x. x \<in> set r \<Longrightarrow> ch' x = ch x) \<Longrightarrow> walk f ch' st [] = Some r"
proof (induction f arbitrary: st r)
  case 0
  then show ?case by (cases st) auto
next
  case (Suc f)
  show ?case
  proof (cases st)
    case Nil
    with Suc.prems show ?thesis by simp
  next
    case (Cons x st')
    with Suc.prems(1) obtain r' where r: "walk f ch (ch x @ st') [] = Some r'" "r = x # r'" by (auto simp: walk_Cons)
    with Suc.IH [OF r(1)] Suc.prems(2) show ?thesis by (simp add: Cons walk_Cons)
  qed
qed

abbreviation tree_children :: "workspace_node list \<Rightarrow> workspace_node \<Rightarrow> workspace_node list" where
  "tree_children ns n \<equiv> filter (\<lambda>m. n_parentId m = Some (n_id n)) ns"

text \<open>The order of the tree is the walk over its own children lists.\<close>

lemma ordered_walk:
  assumes d: "distinct (map n_id nodes)" and o: "orderAvailableNodes nodes = Some ordered"
  shows "walk (length ordered) (tree_children ordered) (filter (\<lambda>n. n_parentId n = None) ordered) [] = Some ordered"
proof -
  let ?ns = "available nodes"
  let ?S = "js_sort sibling_cmp (filter (\<lambda>n. n_parentId n = None) ?ns)"
  have dn: "distinct (map n_id ?ns)" by (rule available_distinct [OF d])
  have S: "distinct ?S" "set ?S \<subseteq> set ?ns" using dn by (auto simp: distinct_map)
  have free: "\<And>s y. s \<in> set ?S \<Longrightarrow> below n_id n_parentId ?ns ?S y \<Longrightarrow> n_parentId s \<noteq> Some (n_id y)" by auto
  have w: "walk (length nodes) (\<lambda>n. sorted_children ?ns (n_id n)) ?S [] = Some ordered"
    using o by (simp add: orderAvailableNodes_def Let_def by_parent_get sorted_children_def)
  note order = tree_walk.walk_orders [OF dn S free w]
  have "set ordered \<subseteq> set ?ns" using order_correct [OF d] o by auto
  then have "filter (\<lambda>n. n_parentId n = None) ordered = filter (\<lambda>n. n \<in> set ?S) ordered"
    by (intro filter_cong) auto
  with order have S2: "filter (\<lambda>n. n_parentId n = None) ordered = ?S" by simp
  have "walk (length nodes) (tree_children ordered) ?S [] = Some ordered"
    by (rule walk_cong [OF w]) (use order in auto)
  with walk_needs S2 show ?thesis by simp
qed

section \<open>The notes of a scope\<close>

inductive in_scope :: "workspace_node list \<Rightarrow> bool \<Rightarrow> workspace_node list \<Rightarrow> workspace_node \<Rightarrow> bool" for ns subfolders starts where
  scope_here: "n \<in> set starts \<Longrightarrow> n_id n \<noteq> JOURNAL_ROOT_ID \<Longrightarrow> in_scope ns subfolders starts n"
| scope_inside: "in_scope ns subfolders starts p \<Longrightarrow> subfolders \<Longrightarrow> n_kind p = KFolder \<Longrightarrow> n \<in> set ns \<Longrightarrow>
    n_parentId n = Some (n_id p) \<Longrightarrow> n_id n \<noteq> JOURNAL_ROOT_ID \<Longrightarrow> in_scope ns subfolders starts n"

lemma in_scope_outside: "in_scope ns sub st n \<Longrightarrow> n_id n \<noteq> JOURNAL_ROOT_ID"
  by (induction rule: in_scope.induct) auto

lemma in_scope_Cons: "in_scope ns sub (x # st) n \<longleftrightarrow> in_scope ns sub [x] n \<or> in_scope ns sub st n"
proof
  assume "in_scope ns sub (x # st) n"
  then show "in_scope ns sub [x] n \<or> in_scope ns sub st n"
    by (induction rule: in_scope.induct) (auto intro: in_scope.intros)
next
  have "in_scope ns sub st' n \<Longrightarrow> set st' \<subseteq> set (x # st) \<Longrightarrow> in_scope ns sub (x # st) n" for st'
    by (induction rule: in_scope.induct) (auto intro: in_scope.intros simp: subset_iff)
  then show "in_scope ns sub [x] n \<or> in_scope ns sub st n \<Longrightarrow> in_scope ns sub (x # st) n" by auto
qed

lemma in_scope_one:
  assumes "x \<in> set ns"
  shows "in_scope ns sub [x] n \<longleftrightarrow> n_id x \<noteq> JOURNAL_ROOT_ID \<and> (n = x \<or> sub \<and> n_kind x = KFolder \<and> in_scope ns sub (tree_children ns x) n)"
proof
  assume "in_scope ns sub [x] n"
  then show "n_id x \<noteq> JOURNAL_ROOT_ID \<and> (n = x \<or> sub \<and> n_kind x = KFolder \<and> in_scope ns sub (tree_children ns x) n)"
    by (induction rule: in_scope.induct) (auto intro: in_scope.intros)
next
  assume r: "n_id x \<noteq> JOURNAL_ROOT_ID \<and> (n = x \<or> sub \<and> n_kind x = KFolder \<and> in_scope ns sub (tree_children ns x) n)"
  then have x: "in_scope ns sub [x] x" by (auto intro: scope_here)
  have "in_scope ns sub [x] n" if "in_scope ns sub (tree_children ns x) n" "sub" "n_kind x = KFolder"
    using that(1)
  proof (induction rule: in_scope.induct)
    case (scope_here n)
    then have "n \<in> set ns" "n_parentId n = Some (n_id x)" by simp_all
    from in_scope.scope_inside [OF x that(2,3) this scope_here(2)] show ?case .
  next
    case (scope_inside p n)
    show ?case by (rule in_scope.scope_inside [OF scope_inside.IH scope_inside.hyps(2-6)])
  qed
  with r x show "in_scope ns sub [x] n" by auto
qed

lemma in_scope_walk:
  assumes "walk f (tree_children ns) st [] = Some r" and "in_scope ns sub st n"
  shows "n \<in> set r"
  using assms(2)
proof (induction rule: in_scope.induct)
  case (scope_here n)
  with walk_starts [OF assms(1)] show ?case by auto
next
  case (scope_inside p n)
  with walk_closed [OF assms(1), of p] show ?case by auto
qed

abbreviation visit_child :: "nat \<Rightarrow> renderer_state \<Rightarrow> bool \<Rightarrow> string option \<Rightarrow> string \<Rightarrow> string \<Rightarrow> scope_visit list option" where
  "visit_child fuel s subfolders parentId path \<equiv> \<lambda>childId.
       case omap_get (st_nodes s) childId of
         None \<Rightarrow> Some []
       | Some child \<Rightarrow>
           if childId = JOURNAL_ROOT_ID then Some []
           else if nr_kind child = KNote then Some [(childId, parentId, path)]
           else if subfolders then scope_walk fuel s subfolders (Some childId) (child_path path (nr_title child))
           else Some []"

definition tree_of :: "renderer_state \<Rightarrow> workspace_node list \<Rightarrow> bool" where
  "tree_of s ns \<longleftrightarrow>
     (\<forall>n \<in> set ns. \<exists>r. omap_get (st_nodes s) (n_id n) = Some r \<and> nr_kind r = n_kind n) \<and>
     (\<forall>p. omap_getd [] (st_childrenByParent s) p = map n_id (filter (\<lambda>n. n_parentId n = p) ns))"

lemma scope_walk_notes:
  assumes tree: "tree_of s ns"
  shows "walk f (tree_children ns) st [] = Some r \<Longrightarrow> distinct r \<Longrightarrow> set r \<subseteq> set ns \<Longrightarrow> f \<le> g \<Longrightarrow>
    \<exists>v. map_option concat (those (map (visit_child g s sub p path) (map n_id st))) = Some v \<and>
      map fst v = map n_id (filter (\<lambda>n. n_kind n = KNote \<and> in_scope ns sub st n) r)"
proof (induction f arbitrary: st r g p path)
  case 0
  then show ?case by (cases st) auto
next
  case (Suc f)
  show ?case
  proof (cases st)
    case Nil
    with Suc.prems show ?thesis by simp
  next
    case (Cons x st')
    from Suc.prems(1) [unfolded Cons] obtain r1 r2 where
      w: "walk f (tree_children ns) (tree_children ns x) [] = Some r1" "walk f (tree_children ns) st' [] = Some r2"
      and r: "r = x # r1 @ r2" by (rule walk_node)
    obtain g' where g: "g = Suc g'" "f \<le> g'" using Suc.prems(4) by (cases g) auto
    have d: "distinct r1" "distinct r2" "x \<notin> set r1" "x \<notin> set r2" "set r1 \<inter> set r2 = {}" "set r1 \<subseteq> set ns" "set r2 \<subseteq> set ns"
      and x: "x \<in> set ns" using Suc.prems(2,3) r by auto
    from Suc.IH [OF w(2) d(2,7), of g p path] g obtain v2 where
      v2: "map_option concat (those (map (visit_child g s sub p path) (map n_id st'))) = Some v2"
        "map fst v2 = map n_id (filter (\<lambda>n. n_kind n = KNote \<and> in_scope ns sub st' n) r2)" by auto
    obtain row where row: "omap_get (st_nodes s) (n_id x) = Some row" "nr_kind row = n_kind x"
      using tree x by (auto simp: tree_of_def)
    let ?path = "child_path path (nr_title row)"
    from Suc.IH [OF w(1) d(1,6) g(2), of "Some (n_id x)" ?path] obtain v1 where
      v1: "scope_walk g s sub (Some (n_id x)) ?path = Some v1"
        "map fst v1 = map n_id (filter (\<lambda>n. n_kind n = KNote \<and> in_scope ns sub (tree_children ns x) n) r1)"
      using tree by (auto simp: tree_of_def g(1))
    define vx where "vx = (if n_id x = JOURNAL_ROOT_ID then [] else if n_kind x = KNote then [(n_id x, p, path)]
        else if sub then v1 else [])"
    have "visit_child g s sub p path (n_id x) = Some vx"
      by (cases sub) (use row v1(1) in \<open>simp_all add: vx_def\<close>)
    with v2(1) have out: "map_option concat (those (map (visit_child g s sub p path) (map n_id st))) = Some (vx @ v2)"
      by (auto simp: Cons)
    have split: "in_scope ns sub st n \<longleftrightarrow> n_id x \<noteq> JOURNAL_ROOT_ID \<and>
        (n = x \<or> sub \<and> n_kind x = KFolder \<and> in_scope ns sub (tree_children ns x) n) \<or> in_scope ns sub st' n" for n
      unfolding Cons in_scope_Cons [of ns sub x st'] in_scope_one [OF x] by (rule refl)
    have 1: "in_scope ns sub st n \<longleftrightarrow> n_id x \<noteq> JOURNAL_ROOT_ID \<and> sub \<and> n_kind x = KFolder \<and> in_scope ns sub (tree_children ns x) n"
      if "n \<in> set r1" for n
      using that d in_scope_walk [OF w(2), of sub n] unfolding split by blast
    have 2: "in_scope ns sub st n \<longleftrightarrow> in_scope ns sub st' n" if "n \<in> set r2" for n
      using that d in_scope_walk [OF w(1), of sub n] unfolding split by blast
    have 3: "in_scope ns sub st x \<longleftrightarrow> n_id x \<noteq> JOURNAL_ROOT_ID"
      using in_scope_outside unfolding split by blast
    have "filter (\<lambda>n. n_kind n = KNote \<and> in_scope ns sub st n) r2 = filter (\<lambda>n. n_kind n = KNote \<and> in_scope ns sub st' n) r2"
      by (rule filter_cong) (auto simp: 2)
    moreover have "map n_id (filter (\<lambda>n. n_kind n = KNote \<and> in_scope ns sub st n) (x # r1)) = map fst vx"
    proof (cases "n_id x \<noteq> JOURNAL_ROOT_ID \<and> sub \<and> n_kind x = KFolder")
      case True
      have "filter (\<lambda>n. n_kind n = KNote \<and> in_scope ns sub st n) r1 =
          filter (\<lambda>n. n_kind n = KNote \<and> in_scope ns sub (tree_children ns x) n) r1"
        by (rule filter_cong [OF refl]) (use True 1 in blast)
      with True v1(2) show ?thesis by (simp add: vx_def)
    next
      case False
      then have "filter (\<lambda>n. n_kind n = KNote \<and> in_scope ns sub st n) r1 = []"
        by (auto simp: filter_empty_conv 1)
      with False 3 show ?thesis by (cases "n_kind x") (auto simp: vx_def)
    qed
    ultimately have "map fst (vx @ v2) = map n_id (filter (\<lambda>n. n_kind n = KNote \<and> in_scope ns sub st n) r)"
      using v2(2) unfolding r by (metis (no_types, lifting) append_Cons filter_append map_append)
    with out show ?thesis by blast
  qed
qed

definition tree_nodes :: "renderer_state \<Rightarrow> workspace_node list" where
  "tree_nodes s = map (\<lambda>i. the (omap_get (st_sourceNodes s) i)) (st_nodeOrder s)"

definition scope_notes :: "renderer_state \<Rightarrow> string option \<Rightarrow> bool \<Rightarrow> workspace_node list" where
  "scope_notes s folderId sub =
     filter (\<lambda>n. n_kind n = KNote \<and>
       in_scope (tree_nodes s) sub (filter (\<lambda>m. n_parentId m = folderId) (tree_nodes s)) n) (tree_nodes s)"

lemma view_tree:
  assumes "view_ok s"
  shows "tree_of s (tree_nodes s) \<and> distinct (tree_nodes s) \<and> length (tree_nodes s) \<le> length (st_nodes s) \<and>
    walk (length (tree_nodes s)) (tree_children (tree_nodes s)) (filter (\<lambda>n. n_parentId n = None) (tree_nodes s)) [] = Some (tree_nodes s)"
proof -
  from assms obtain ordered where n: "nodes_ok (st_sourceNodes s)" and r: "rows_ok s ordered" by (auto simp: view_ok_def)
  have o: "orderAvailableNodes (omap_values (st_sourceNodes s)) = Some ordered"
    and ix: "st_nodes s = ix_nodes (buildNodeIndex ordered)" "st_childrenByParent s = ix_children (buildNodeIndex ordered)"
      "st_nodeOrder s = ix_order (buildNodeIndex ordered)" using r by (simp_all add: rows_ok_def)
  note f = ordered_facts [OF n o]
  have order: "st_nodeOrder s = map n_id ordered" by (simp add: ix(3) build_parts index_rows_order)
  then have t: "tree_nodes s = ordered" using f(3) by (simp add: tree_nodes_def map_idI)
  have "tree_of s ordered"
    using build_index_row [OF f(1,2)] by (auto simp: tree_of_def ix build_index_children row_of_def)
  moreover have "set (map n_id ordered) \<subseteq> set (omap_keys (st_nodes s))"
    using rows_facts(1) [OF n r] by (auto simp: omap_has_def)
  then have "card (set (map n_id ordered)) \<le> length (st_nodes s)"
    by (metis List.finite_set card_length card_mono length_map order_trans)
  then have "length ordered \<le> length (st_nodes s)" using distinct_card [OF f(1)] by simp
  moreover have "distinct (map n_id (omap_values (st_sourceNodes s)))" using nodes_ok_named [OF n] by (simp add: named_def)
  ultimately show ?thesis using ordered_walk [OF _ o] f(1) by (simp add: t distinct_map)
qed

lemma collect_notes:
  assumes "view_ok s" and "databaseScopeStatus s folderId = ScopeReady"
  shows "\<exists>v. collectScope s folderId sub = Some v \<and> map fst v = map n_id (scope_notes s folderId sub)"
proof -
  let ?ns = "tree_nodes s" and ?st = "filter (\<lambda>m. n_parentId m = folderId) (tree_nodes s)"
  note v = view_tree [OF assms(1)]
  then have tree: "tree_of s ?ns" and d: "distinct ?ns" and len: "length ?ns \<le> length (st_nodes s)"
    and w: "walk (length ?ns) (tree_children ?ns) (filter (\<lambda>n. n_parentId n = None) ?ns) [] = Some ?ns" by blast+
  have "\<exists>a r b. ?ns = a @ r @ b \<and> walk (length ?ns) (tree_children ?ns) ?st [] = Some r"
  proof (cases folderId)
    case None
    with w have "?ns = [] @ ?ns @ [] \<and> walk (length ?ns) (tree_children ?ns) ?st [] = Some ?ns" by simp
    then show ?thesis by blast
  next
    case (Some f)
    with assms(2) have has: "omap_has (st_nodes s) f"
      by (auto simp: databaseScopeStatus_def omap_has_get split: if_splits option.splits)
    from assms(1) obtain ordered where n: "nodes_ok (st_sourceNodes s)" and r: "rows_ok s ordered" by (auto simp: view_ok_def)
    have "ordered = ?ns"
    proof -
      have o: "orderAvailableNodes (omap_values (st_sourceNodes s)) = Some ordered"
        and ix: "st_nodeOrder s = ix_order (buildNodeIndex ordered)" using r by (simp_all add: rows_ok_def)
      have "st_nodeOrder s = map n_id ordered" by (simp add: ix build_parts index_rows_order)
      then show ?thesis using ordered_facts(3) [OF n o] by (simp add: tree_nodes_def map_idI)
    qed
    with has obtain x where x: "x \<in> set ?ns" "n_id x = f" using rows_facts(1) [OF n r, of f] by auto
    from walk_below [OF w x(1)] obtain a r b where
      "walk (length ?ns) (tree_children ?ns) (tree_children ?ns x) [] = Some r" "?ns = a @ x # r @ b" by blast
    then have "?ns = (a @ [x]) @ r @ b \<and> walk (length ?ns) (tree_children ?ns) ?st [] = Some r" using x(2) Some by simp
    then show ?thesis by blast
  qed
  then obtain a r b where r: "?ns = a @ r @ b" "walk (length ?ns) (tree_children ?ns) ?st [] = Some r" by blast
  have "distinct r" "set r \<subseteq> set ?ns" using d r(1) by (metis distinct_append, metis Un_iff set_append subsetI)
  from scope_walk_notes [OF tree r(2) this len, where sub = sub and p = folderId and path = "[]"] obtain v where
    v: "collectScope s folderId sub = Some v" "map fst v = map n_id (filter (\<lambda>n. n_kind n = KNote \<and> in_scope ?ns sub ?st n) r)"
    using assms(2) tree by (auto simp: collectScope_def tree_of_def)
  have "in_scope ?ns sub ?st n \<Longrightarrow> n \<in> set r" for n by (rule in_scope_walk [OF r(2)])
  moreover have "set a \<inter> set r = {}" "set r \<inter> set b = {}" using d r(1) by (metis distinct_append inf_sup_distrib1 set_append sup_eq_bot_iff, metis distinct_append)
  ultimately have "filter (\<lambda>n. n_kind n = KNote \<and> in_scope ?ns sub ?st n) a = []"
    "filter (\<lambda>n. n_kind n = KNote \<and> in_scope ?ns sub ?st n) b = []" by (auto simp: filter_empty_conv)
  then have "scope_notes s folderId sub = filter (\<lambda>n. n_kind n = KNote \<and> in_scope ?ns sub ?st n) r"
    unfolding scope_notes_def by (subst (3) r(1)) simp
  with v show ?thesis by simp
qed

text \<open>C22. In a consistent state the recursive collection of a scope terminates and the rows implement the specification: the notes of the scope in sidebar order, each numbered by its position.\<close>

theorem rows_in_tree_order:
  assumes "reached (selects folderId sub) createDatabaseRowsSelector sel" and "view_ok s"
    and "databaseScopeStatus s folderId = ScopeReady"
  shows "\<exists>sel'. selectDatabaseRows folderId sub sel s = Some sel' \<and>
    map row_noteId (rs_lastRows sel') = map n_id (scope_notes s folderId sub) \<and>
    map row_treeIndex (rs_lastRows sel') = [0..<length (rs_lastRows sel')]"
proof -
  from collect_notes [OF assms(2,3)] obtain v where
    v: "collectScope s folderId sub = Some v" "map fst v = map n_id (scope_notes s folderId sub)" by blast
  then have "rebuild folderId sub (sel\<lparr>rs_lastState := Some s\<rparr>) s \<noteq> None" by (simp add: rebuild_def Let_def)
  then obtain sel' where sel': "selectDatabaseRows folderId sub sel s = Some sel'"
    by (cases "selectDatabaseRows folderId sub sel s") (auto simp: selectDatabaseRows_def Let_def split: option.splits if_splits)
  from select_fresh [OF assms(1) sel'] v(1) have "rs_lastRows sel' = scope_rows s v" by simp
  moreover have "map row_noteId (scope_rows s v) = map fst v"
    by (rule nth_equalityI) (simp_all add: scope_rows_def nth_enumerate_eq case_prod_unfold)
  moreover have "map row_treeIndex (scope_rows s v) = [0..<length (scope_rows s v)]"
    by (rule nth_equalityI) (simp_all add: scope_rows_def nth_enumerate_eq case_prod_unfold)
  ultimately show ?thesis using sel' v(2) by simp
qed

section \<open>The sample workspace as a database\<close>

lemma sample_ready: "databaseScopeStatus sample_state (Some ''f'') = ScopeReady"
  by code_simp

lemma sample_rows: "map_option (\<lambda>sel. map (\<lambda>r. (row_noteId r, row_parentId r, row_folderPath r)) (rs_lastRows sel))
    (selectDatabaseRows (Some ''f'') True createDatabaseRowsSelector sample_state) = Some [(''a'', Some ''f'', [])]"
  by code_simp

theorem selector_is_fresh_witness:
  "\<exists>sel. selectDatabaseRows (Some ''f'') True createDatabaseRowsSelector sample_state = Some sel \<and>
     map_option (scope_rows sample_state) (collectScope sample_state (Some ''f'') True) = Some (rs_lastRows sel)"
proof -
  from sample_rows obtain sel where sel: "selectDatabaseRows (Some ''f'') True createDatabaseRowsSelector sample_state = Some sel" by auto
  from selector_is_fresh [OF reached_refl sel] sel show ?thesis by blast
qed

theorem rows_in_tree_order_witness:
  "\<exists>sel. selectDatabaseRows (Some ''f'') True createDatabaseRowsSelector sample_state = Some sel \<and>
     map row_noteId (rs_lastRows sel) = [''a''] \<and> map row_treeIndex (rs_lastRows sel) = [0]"
proof -
  from rows_in_tree_order [OF reached_refl sample_view sample_ready, of True] obtain sel where
    sel: "selectDatabaseRows (Some ''f'') True createDatabaseRowsSelector sample_state = Some sel"
      "map row_treeIndex (rs_lastRows sel) = [0..<length (rs_lastRows sel)]" by blast
  from sel(1) sample_rows have "map (\<lambda>r. (row_noteId r, row_parentId r, row_folderPath r)) (rs_lastRows sel) = [(''a'', Some ''f'', [])]" by simp
  then have "map fst (map (\<lambda>r. (row_noteId r, row_parentId r, row_folderPath r)) (rs_lastRows sel)) = [''a'']" by simp
  then have "map row_noteId (rs_lastRows sel) = [''a'']" by (simp add: comp_def)
  moreover from this have "length (rs_lastRows sel) = 1" by (metis length_map length_Cons list.size(3) One_nat_def)
  ultimately show ?thesis using sel by simp
qed

end
