(* ===== verification/Database_Columns.thy ===== *)
theory Database_Columns
  imports Database_Rows Search_Query
begin

text \<open>
  \<open>database/columns.ts\<close>: the columns of a property database, discovered from the properties of
  its rows. A built-in column is one whose type is \<open>None\<close>. The caches of folded names, property
  lookups and schema signatures hold values of pure functions and are left out.
\<close>

section \<open>Columns\<close>

record database_option =
  do_key :: string
  do_label :: string
  do_color :: property_color

record database_column =
  dc_key :: string
  dc_name :: string
  dc_type :: "property_type option"
  dc_options :: "database_option list"

definition BUILT_IN_NAMES :: "(string, string) omap" where
  "BUILT_IN_NAMES = [(''title'', ''Name''), (''folder'', ''Folder''), (''created'', ''Created''), (''updated'', ''Updated''),
     (''words'', ''Words'')]"

definition BUILT_IN_COLUMN_KEYS :: "string list" where
  "BUILT_IN_COLUMN_KEYS = [''title'', ''folder'', ''created'', ''updated'', ''words'']"

abbreviation p_name :: "note_property \<Rightarrow> string" where
  "p_name p \<equiv> f_name (p_field p)"

abbreviation p_type :: "note_property \<Rightarrow> property_type" where
  "p_type p \<equiv> value_type (p_value p)"

definition propertyColumnKey :: "string \<Rightarrow> string" where
  "propertyColumnKey name = ''p:'' @ normalizeEntityName name"

definition foldOptionLabel :: "string \<Rightarrow> string" where
  "foldOptionLabel label = normalizeEntityName label"

definition isBuiltInColumnKey :: "string \<Rightarrow> bool" where
  "isBuiltInColumnKey k \<longleftrightarrow> k \<in> set BUILT_IN_COLUMN_KEYS"

text \<open>The lookup of a note's properties by column key keeps the first of each key.\<close>

definition property_lookup :: "note_properties \<Rightarrow> (string, note_property) omap" where
  "property_lookup ps =
     fold (\<lambda>p m. if omap_has m (propertyColumnKey (p_name p)) then m else omap_set (propertyColumnKey (p_name p)) p m) ps []"

definition rowProperty :: "database_row \<Rightarrow> string \<Rightarrow> note_property option" where
  "rowProperty row columnKey = omap_get (property_lookup (row_properties row)) columnKey"

definition typedRowProperty :: "database_row \<Rightarrow> database_column \<Rightarrow> note_property option" where
  "typedRowProperty row column =
     (case rowProperty row (dc_key column) of
        None \<Rightarrow> None
      | Some p \<Rightarrow> if Some (p_type p) = dc_type column then Some p else None)"

section \<open>Discovery\<close>

record type_tally =
  tt_count :: nat
  tt_firstSeen :: nat

record option_tally =
  ot_label :: string
  ot_color :: property_color
  ot_rank :: nat
  ot_seen :: nat

record column_tally =
  ct_name :: string
  ct_firstSeen :: nat
  ct_types :: "(property_type, type_tally) omap"
  ct_options :: "(string, option_tally) omap"

definition tally_option :: "nat \<Rightarrow> nat \<times> property_option \<Rightarrow> (string, option_tally) omap \<Rightarrow> (string, option_tally) omap" where
  "tally_option seen e options =
     (case e of (rank, opt) \<Rightarrow>
        let k = foldOptionLabel (o_label opt)
        in case omap_get options k of
             None \<Rightarrow> omap_set k \<lparr>ot_label = o_label opt, ot_color = o_color opt, ot_rank = rank, ot_seen = seen\<rparr> options
           | Some existing \<Rightarrow> if rank < ot_rank existing then omap_set k (existing\<lparr>ot_rank := rank\<rparr>) options else options)"

definition tally_type :: "nat \<Rightarrow> property_type \<Rightarrow> (property_type, type_tally) omap \<Rightarrow> (property_type, type_tally) omap" where
  "tally_type seen type types =
     (case omap_get types type of
        Some t \<Rightarrow> omap_set type (t\<lparr>tt_count := tt_count t + 1\<rparr>) types
      | None \<Rightarrow> omap_set type \<lparr>tt_count = 1, tt_firstSeen = seen\<rparr> types)"

definition tally_property :: "note_property \<Rightarrow> nat \<times> (string, column_tally) omap \<Rightarrow> nat \<times> (string, column_tally) omap" where
  "tally_property property st =
     (case st of (seen, tallies) \<Rightarrow>
        let k = propertyColumnKey (p_name property);
            tally = (case omap_get tallies k of
                Some t \<Rightarrow> t
              | None \<Rightarrow> \<lparr>ct_name = js_trim (p_name property), ct_firstSeen = seen, ct_types = [], ct_options = []\<rparr>)
        in (seen + 1,
            omap_set k (tally\<lparr>ct_types := tally_type seen (p_type property) (ct_types tally),
              ct_options := fold (tally_option seen) (List.enumerate 0 (p_options property)) (ct_options tally)\<rparr>) tallies))"

definition column_tallies :: "database_row list \<Rightarrow> (string, column_tally) omap" where
  "column_tallies rows = snd (fold (\<lambda>row st. fold tally_property (row_properties row) st) rows (0, []))"

text \<open>\<open>bestCount\<close> starts at -1 and \<open>bestSeen\<close> at infinity: the first type always wins.\<close>

definition dominantType :: "column_tally \<Rightarrow> property_type" where
  "dominantType tally =
     (case fold (\<lambda>(type, t) best. case best of
          None \<Rightarrow> Some (type, t)
        | Some (_, b) \<Rightarrow> if tt_count t > tt_count b \<or> (tt_count t = tt_count b \<and> tt_firstSeen t < tt_firstSeen b)
            then Some (type, t) else best) (ct_types tally) None of
        None \<Rightarrow> PText | Some (type, _) \<Rightarrow> type)"

definition first_seen_cmp :: "string \<times> column_tally \<Rightarrow> string \<times> column_tally \<Rightarrow> int" where
  "first_seen_cmp l r = int (ct_firstSeen (snd l)) - int (ct_firstSeen (snd r))"

definition option_rank_cmp :: "string \<times> option_tally \<Rightarrow> string \<times> option_tally \<Rightarrow> int" where
  "option_rank_cmp l r =
     (if ot_rank (snd l) \<noteq> ot_rank (snd r) then int (ot_rank (snd l)) - int (ot_rank (snd r))
      else int (ot_seen (snd l)) - int (ot_seen (snd r)))"

definition property_column :: "string \<times> column_tally \<Rightarrow> database_column" where
  "property_column e =
     (case e of (k, tally) \<Rightarrow>
        let type = dominantType tally;
            options = (if type = PSelect \<or> type = PMultiSelect
              then map (\<lambda>(optionKey, opt). \<lparr>do_key = optionKey, do_label = ot_label opt, do_color = ot_color opt\<rparr>)
                (js_sort option_rank_cmp (ct_options tally))
              else [])
        in \<lparr>dc_key = k, dc_name = ct_name tally, dc_type = Some type, dc_options = options\<rparr>)"

definition builtInColumn :: "string \<Rightarrow> database_column" where
  "builtInColumn k = \<lparr>dc_key = k, dc_name = omap_getd [] BUILT_IN_NAMES k, dc_type = None, dc_options = []\<rparr>"

definition discoverColumns :: "database_row list \<Rightarrow> bool \<Rightarrow> database_column list" where
  "discoverColumns rows includeFolder =
     map builtInColumn (if includeFolder then [''title'', ''folder''] else [''title'']) @
     map property_column (js_sort first_seen_cmp (column_tallies rows)) @
     map builtInColumn [''created'', ''updated'', ''words'']"

section \<open>Unchanged columns\<close>

text \<open>The JSON text of a signature is modelled as the value it denotes.\<close>

definition schemaSignature :: "note_properties \<Rightarrow> (string \<times> property_type \<times> (string \<times> property_color) list) list" where
  "schemaSignature ps = map (\<lambda>p. (p_name p, p_type p, map (\<lambda>opt. (o_label opt, o_color opt)) (p_options p))) ps"

definition sameColumnSchema :: "database_row list \<Rightarrow> database_row list \<Rightarrow> bool" where
  "sameColumnSchema previous next_rows \<longleftrightarrow> length previous = length next_rows \<and>
     list_all (\<lambda>(before, after). before = after \<or>
       row_noteId before = row_noteId after \<and>
       (row_properties before = row_properties after \<or>
        schemaSignature (row_properties before) = schemaSignature (row_properties after))) (zip previous next_rows)"

definition sameColumns :: "database_column list \<Rightarrow> database_column list \<Rightarrow> bool" where
  "sameColumns left right \<longleftrightarrow> length left = length right \<and>
     list_all (\<lambda>(column, other). dc_key column = dc_key other \<and> dc_name column = dc_name other \<and>
       dc_type column = dc_type other \<and> length (dc_options column) = length (dc_options other) \<and>
       list_all (\<lambda>(opt, o'). do_key opt = do_key o' \<and> do_label opt = do_label o' \<and> do_color opt = do_color o')
         (zip (dc_options column) (dc_options other))) (zip left right)"

section \<open>Display order\<close>

definition place_column :: "database_column \<Rightarrow> string list \<times> database_column list \<Rightarrow> string list \<times> database_column list" where
  "place_column column st =
     (case st of (placed, ordered) \<Rightarrow>
        if dc_key column \<notin> set placed then (oset_add (dc_key column) placed, ordered @ [column]) else st)"

definition place_key :: "(string, database_column) omap \<Rightarrow> string \<Rightarrow> string list \<times> database_column list \<Rightarrow> string list \<times> database_column list" where
  "place_key byKey k st =
     (case omap_get byKey k of
        None \<Rightarrow> st
      | Some column \<Rightarrow>
          (case st of (placed, ordered) \<Rightarrow>
             if k \<notin> set placed then (oset_add k placed, ordered @ [column]) else st))"

definition orderedColumns :: "database_column list \<Rightarrow> string list \<Rightarrow> database_column list" where
  "orderedColumns columns order =
     (let byKey = omap_from dc_key (\<lambda>c. c) columns;
          start = ([''title''], case omap_get byKey ''title'' of None \<Rightarrow> [] | Some title \<Rightarrow> [title])
      in snd (fold place_column columns (fold (place_key byKey) order start)))"

definition visibleColumns :: "database_column list \<Rightarrow> string list \<Rightarrow> string list \<Rightarrow> database_column list" where
  "visibleColumns columns order hidden_keys =
     filter (\<lambda>column. dc_key column = ''title'' \<or> dc_key column \<notin> set hidden_keys) (orderedColumns columns order)"

end
