(* ===== verification/Column_Theorems.thy ===== *)
theory Column_Theorems
  imports Database_Columns Property_Theorems
begin

text \<open>
  What column discovery promises: one column per folded property name in order of appearance,
  typed by the majority; that an unchanged schema keeps the columns; and the display order.
\<close>

section \<open>Discovery\<close>

abbreviation prop_key :: "note_property \<Rightarrow> string" where
  "prop_key p \<equiv> propertyColumnKey (p_name p)"

definition all_properties :: "database_row list \<Rightarrow> note_properties" where
  "all_properties rows = concat (map row_properties rows)"

definition type_count :: "note_properties \<Rightarrow> string \<Rightarrow> property_type \<Rightarrow> nat" where
  "type_count ps k t = length (filter (\<lambda>p. prop_key p = k \<and> p_type p = t) ps)"

definition option_keys :: "note_properties \<Rightarrow> string \<Rightarrow> string set" where
  "option_keys ps k = {foldOptionLabel (o_label opt) | p opt. p \<in> set ps \<and> prop_key p = k \<and> opt \<in> set (p_options p)}"

definition tally_ok :: "note_properties \<Rightarrow> string \<Rightarrow> column_tally \<Rightarrow> bool" where
  "tally_ok ps k t \<longleftrightarrow> ct_firstSeen t < length ps \<and> omap_wf (ct_types t) \<and>
     (\<forall>ty. (case omap_get (ct_types t) ty of None \<Rightarrow> 0 | Some tt \<Rightarrow> tt_count tt) = type_count ps k ty) \<and>
     list_all (\<lambda>(ty, tt). 0 < tt_count tt) (ct_types t) \<and>
     omap_wf (ct_options t) \<and> set (omap_keys (ct_options t)) = option_keys ps k"

definition tallies_ok :: "note_properties \<Rightarrow> nat \<times> (string, column_tally) omap \<Rightarrow> bool" where
  "tallies_ok ps st \<longleftrightarrow> fst st = length ps \<and> omap_keys (snd st) = oset_from (map prop_key ps) \<and>
     sorted_wrt (\<lambda>e f. ct_firstSeen (snd e) < ct_firstSeen (snd f)) (snd st) \<and>
     (\<forall>(k, t) \<in> set (snd st). tally_ok ps k t)"

lemma column_tallies_fold: "column_tallies rows = snd (fold tally_property (all_properties rows) (0, []))"
proof -
  have "fold (\<lambda>row st. fold tally_property (row_properties row) st) rows st = fold tally_property (all_properties rows) st" for st
    by (induction rows arbitrary: st) (simp_all add: all_properties_def)
  then show ?thesis by (simp add: column_tallies_def)
qed

lemma tally_options:
  "omap_wf m \<Longrightarrow> omap_wf (fold (tally_option seen) es m) \<and>
    set (omap_keys (fold (tally_option seen) es m)) = (\<lambda>e. foldOptionLabel (o_label (snd e))) ` set es \<union> set (omap_keys m)"
proof (induction es arbitrary: m)
  case (Cons e es)
  obtain r opt where e: "e = (r, opt)" by force
  have "omap_wf (tally_option seen e m)"
    using Cons.prems by (auto simp: tally_option_def e Let_def split: option.split)
  moreover have "set (omap_keys (tally_option seen e m)) = insert (foldOptionLabel (o_label opt)) (set (omap_keys m))"
    by (auto simp: tally_option_def e Let_def dom_update image_iff dest: omap_get_in split: option.split)
      (force dest: omap_get_in)+
  ultimately show ?case using Cons.IH [of "tally_option seen e m"] by (simp add: e)
qed simp

lemma tally_type_get:
  "omap_get (tally_type seen ty m) ty' =
    (if ty' = ty then Some (case omap_get m ty of Some t \<Rightarrow> t\<lparr>tt_count := tt_count t + 1\<rparr>
       | None \<Rightarrow> \<lparr>tt_count = 1, tt_firstSeen = seen\<rparr>) else omap_get m ty')"
  by (simp add: tally_type_def split: option.split)

lemma tally_type_wf: "omap_wf m \<Longrightarrow> omap_wf (tally_type seen ty m)"
  by (simp add: tally_type_def split: option.split)

lemma positive_counts:
  "omap_wf m \<Longrightarrow> list_all (\<lambda>(ty, tt). 0 < tt_count tt) m \<longleftrightarrow> (\<forall>ty tt. omap_get m ty = Some tt \<longrightarrow> 0 < tt_count tt)"
  by (auto simp: list_all_iff omap_get_iff)

lemma option_keys_snoc:
  "option_keys (ps @ [p]) k = option_keys ps k \<union>
    (if prop_key p = k then foldOptionLabel ` o_label ` set (p_options p) else {})"
  by (auto simp: option_keys_def)

lemma type_count_snoc:
  "type_count (ps @ [p]) k ty = type_count ps k ty + (if prop_key p = k \<and> p_type p = ty then 1 else 0)"
  by (simp add: type_count_def)

lemma tally_ok_other: "tally_ok ps k t \<Longrightarrow> prop_key p \<noteq> k \<Longrightarrow> tally_ok (ps @ [p]) k t"
  by (simp add: tally_ok_def option_keys_snoc type_count_snoc)

lemma tally_ok_same:
  assumes "prop_key p = k" and "omap_wf (ct_types t)" and "omap_wf (ct_options t)" and "ct_firstSeen t \<le> length ps"
    and "\<forall>ty. (case omap_get (ct_types t) ty of None \<Rightarrow> 0 | Some tt \<Rightarrow> tt_count tt) = type_count ps k ty"
    and "list_all (\<lambda>(ty, tt). 0 < tt_count tt) (ct_types t)" and "set (omap_keys (ct_options t)) = option_keys ps k"
  shows "tally_ok (ps @ [p]) k (t\<lparr>ct_types := tally_type seen (p_type p) (ct_types t),
    ct_options := fold (tally_option seen) (List.enumerate 0 (p_options p)) (ct_options t)\<rparr>)"
proof -
  have "(case omap_get (tally_type seen (p_type p) (ct_types t)) ty of None \<Rightarrow> 0 | Some tt \<Rightarrow> tt_count tt) =
      type_count (ps @ [p]) k ty" for ty
    using spec [OF assms(5), of ty] assms(1) by (auto simp: tally_type_get type_count_snoc split: option.split)
  moreover have "list_all (\<lambda>(ty, tt). 0 < tt_count tt) (tally_type seen (p_type p) (ct_types t))"
    using assms(2,6) by (auto simp: positive_counts tally_type_wf tally_type_get split: option.split if_splits)
  moreover have "snd ` set (List.enumerate 0 (p_options p)) = set (p_options p)"
    by (metis list.set_map map_snd_enumerate)
  then have "(\<lambda>e. foldOptionLabel (o_label (snd e))) ` set (List.enumerate 0 (p_options p)) = foldOptionLabel ` o_label ` set (p_options p)"
    by (metis (no_types, lifting) image_cong image_image)
  ultimately show ?thesis
    using assms tally_options [OF assms(3), of seen "List.enumerate 0 (p_options p)"]
    by (auto simp: tally_ok_def tally_type_wf option_keys_snoc)
qed

lemma oset_from_snoc: "oset_from (xs @ [x]) = oset_add x (oset_from xs)"
  by (simp add: oset_from_def)

lemma update_old: "k \<in> set (omap_keys m) \<Longrightarrow> omap_keys (omap_set k v m) = omap_keys m"
  by (simp add: update_keys)

lemma update_new: "k \<notin> set (omap_keys m) \<Longrightarrow> omap_set k v m = m @ [(k, v)]"
  by (induction m) auto

lemma update_map:
  "omap_get m k = Some t \<Longrightarrow> g (k, v) = g (k, t) \<Longrightarrow> map g (omap_set k v m) = map g m"
  by (induction m) (auto split: if_splits)

lemma update_sorted:
  assumes "sorted_wrt (\<lambda>e f. ct_firstSeen (snd e) < ct_firstSeen (snd f)) m" and "omap_get m k = Some t"
    and "ct_firstSeen v = ct_firstSeen t"
  shows "sorted_wrt (\<lambda>e f. ct_firstSeen (snd e) < ct_firstSeen (snd f)) (omap_set k v m)"
proof -
  have eq: "map (\<lambda>e. ct_firstSeen (snd e)) (omap_set k v m) = map (\<lambda>e. ct_firstSeen (snd e)) m"
    by (rule update_map [OF assms(2)]) (simp add: assms(3))
  have "sorted_wrt (<) (map (\<lambda>e. ct_firstSeen (snd e)) (omap_set k v m))"
    unfolding eq using assms(1) by (simp only: sorted_wrt_map)
  then show ?thesis by (simp only: sorted_wrt_map)
qed

lemma tallies_step:
  assumes ok: "tallies_ok ps st"
  shows "tallies_ok (ps @ [p]) (tally_property p st)"
proof -
  obtain seen m where st: "st = (seen, m)" by force
  let ?k = "prop_key p"
  have m: "seen = length ps" "omap_keys m = oset_from (map prop_key ps)" "omap_wf m"
    "sorted_wrt (\<lambda>e f. ct_firstSeen (snd e) < ct_firstSeen (snd f)) m" "\<forall>(k, t) \<in> set m. tally_ok ps k t"
    using ok by (simp_all add: tallies_ok_def st)
  show ?thesis
  proof (cases "omap_get m ?k")
    case None
    then have new: "?k \<notin> set (omap_keys m)" by (simp add: map_of_eq_None_iff)
    then have fresh: "prop_key q \<noteq> ?k" if "q \<in> set ps" for q using that m(2) new by (metis image_eqI list.set_map oset_from_set)
    then have z: "type_count ps ?k ty = 0" "option_keys ps ?k = {}" for ty
      by (auto simp: type_count_def option_keys_def filter_empty_conv)
    define t where "t = \<lparr>ct_name = js_trim (p_name p), ct_firstSeen = seen, ct_types = [], ct_options = []\<rparr>"
    define t' where "t' = t\<lparr>ct_types := tally_type seen (p_type p) (ct_types t),
      ct_options := fold (tally_option seen) (List.enumerate 0 (p_options p)) (ct_options t)\<rparr>"
    have t': "tally_ok (ps @ [p]) ?k t'"
      unfolding t'_def by (rule tally_ok_same) (simp_all add: t_def z m(1))
    have out: "tally_property p st = (seen + 1, m @ [(?k, t')])"
      using None by (simp add: tally_property_def st Let_def t'_def t_def update_new [OF new])
    have "\<forall>(k, t) \<in> set m. tally_ok (ps @ [p]) k t"
      using m(5) new by (auto intro!: tally_ok_other) (metis fst_conv image_eqI list.set_map)
    moreover have "ct_firstSeen (snd e) < seen" if "e \<in> set m" for e
      using that m(1,5) by (auto simp: tally_ok_def)
    ultimately show ?thesis
      using m t' new by (auto simp: out tallies_ok_def oset_from_snoc oset_add_def sorted_wrt_append t'_def t_def)
  next
    case (Some t)
    then have old2: "(?k, t) \<in> set m" by (rule omap_get_in)
    then have old: "?k \<in> set (omap_keys m)" by (metis fst_conv image_eqI list.set_map)
    from old2 m(5) have t: "tally_ok ps ?k t" by auto
    define t' where "t' = t\<lparr>ct_types := tally_type seen (p_type p) (ct_types t),
      ct_options := fold (tally_option seen) (List.enumerate 0 (p_options p)) (ct_options t)\<rparr>"
    have t': "tally_ok (ps @ [p]) ?k t'"
      unfolding t'_def using t by (intro tally_ok_same) (simp_all add: tally_ok_def)
    have out: "tally_property p st = (seen + 1, omap_set ?k t' m)"
      using Some by (simp add: tally_property_def st Let_def t'_def)
    have "tally_ok (ps @ [p]) k u" if "(k, u) \<in> set (omap_set ?k t' m)" for k u
    proof -
      have "omap_get (omap_set ?k t' m) k = Some u" using that omap_wf_set [OF m(3)] by (simp add: omap_get_iff del: omap_get_set)
      with t' m(5) show ?thesis by (auto split: if_splits dest!: omap_get_in intro!: tally_ok_other)
    qed
    moreover have "sorted_wrt (\<lambda>e f. ct_firstSeen (snd e) < ct_firstSeen (snd f)) (omap_set ?k t' m)"
      by (rule update_sorted [OF m(4) Some]) (simp add: t'_def)
    moreover have "oset_add ?k (oset_from (map prop_key ps)) = oset_from (map prop_key ps)"
      using old m(2) by (simp add: oset_add_def)
    ultimately show ?thesis
      using m(1,2) by (auto simp: out tallies_ok_def oset_from_snoc update_old [OF old])
  qed
qed

lemma tallies_spec: "tallies_ok ps (fold tally_property ps (0, []))"
proof (induction ps rule: rev_induct)
  case Nil
  then show ?case by (simp add: tallies_ok_def oset_from_def)
next
  case (snoc p ps)
  from tallies_step [OF snoc.IH, of p] show ?case by simp
qed

lemma best_type:
  "list_all (\<lambda>(ty, tt). 0 < tt_count tt) m \<Longrightarrow>
   fold (\<lambda>(type, t) best. case best of
          None \<Rightarrow> Some (type, t)
        | Some (_, b) \<Rightarrow> if tt_count t > tt_count b \<or> (tt_count t = tt_count b \<and> tt_firstSeen t < tt_firstSeen b)
            then Some (type, t) else best) m (Some (ty0, t0)) = Some (ty, t) \<Longrightarrow>
   ((ty, t) = (ty0, t0) \<or> (ty, t) \<in> set m) \<and> tt_count t0 \<le> tt_count t \<and> (\<forall>(_, u) \<in> set m. tt_count u \<le> tt_count t)"
proof (induction m arbitrary: ty0 t0)
  case (Cons e m)
  obtain ty1 t1 where e: "e = (ty1, t1)" by force
  show ?case
  proof (cases "tt_count t1 > tt_count t0 \<or> (tt_count t1 = tt_count t0 \<and> tt_firstSeen t1 < tt_firstSeen t0)")
    case True
    with Cons.prems Cons.IH [of ty1 t1] show ?thesis by (auto simp: e)
  next
    case False
    with Cons.prems Cons.IH [of ty0 t0] show ?thesis by (auto simp: e)
  qed
qed simp

lemma dominant_type:
  assumes ok: "tally_ok ps k t" and p: "p \<in> set ps" "prop_key p = k"
  shows "(\<exists>q \<in> set ps. prop_key q = k \<and> p_type q = dominantType t) \<and>
    (\<forall>ty. type_count ps k ty \<le> type_count ps k (dominantType t))"
proof -
  have wf: "omap_wf (ct_types t)" and pos: "list_all (\<lambda>(ty, tt). 0 < tt_count tt) (ct_types t)"
    and count: "\<And>ty. (case omap_get (ct_types t) ty of None \<Rightarrow> 0 | Some tt \<Rightarrow> tt_count tt) = type_count ps k ty"
    using ok by (simp_all add: tally_ok_def)
  have "0 < type_count ps k (p_type p)" using p by (auto simp: type_count_def filter_empty_conv)
  with count [of "p_type p"] have "ct_types t \<noteq> []" by auto
  then obtain ty0 t0 m where m: "ct_types t = (ty0, t0) # m" by (metis list.exhaust surj_pair)
  let ?f = "\<lambda>(type, t) best. case best of
          None \<Rightarrow> Some (type, t)
        | Some (_, b) \<Rightarrow> if tt_count t > tt_count b \<or> (tt_count t = tt_count b \<and> tt_firstSeen t < tt_firstSeen b)
            then Some (type, t) else best"
  have "fold ?f m' (Some e) \<noteq> None" for m' e
    by (induction m' arbitrary: e) (auto split: prod.splits)
  then obtain ty u where u: "fold ?f m (Some (ty0, t0)) = Some (ty, u)" by fastforce
  then have d: "dominantType t = ty" by (simp add: dominantType_def m)
  from best_type [OF _ u] pos m have b: "(ty, u) \<in> set (ct_types t)" "\<forall>(_, v) \<in> set (ct_types t). tt_count v \<le> tt_count u" by auto
  from b(1) wf have g: "omap_get (ct_types t) ty = Some u" by (simp add: omap_get_iff)
  with count [of ty] have c: "type_count ps k ty = tt_count u" by simp
  have "type_count ps k ty' \<le> tt_count u" for ty'
  proof (cases "omap_get (ct_types t) ty'")
    case (Some v)
    from omap_get_in [OF this] b(2) Some count [of ty'] show ?thesis by auto
  qed (use count [of ty'] in simp)
  moreover have "0 < tt_count u" using pos b(1) by (auto simp: list_all_iff)
  then have "filter (\<lambda>p. prop_key p = k \<and> p_type p = ty) ps \<noteq> []" using c by (auto simp: type_count_def)
  then have "\<exists>q \<in> set ps. prop_key q = k \<and> p_type q = ty" by (auto simp: filter_empty_conv)
  ultimately show ?thesis unfolding d c by blast
qed

interpretation seen_order: comparator first_seen_cmp fst
  by unfold_locales (auto simp: first_seen_cmp_def)

theorem columns_discovered:
  "map dc_key (discoverColumns rows includeFolder) =
     (if includeFolder then [''title'', ''folder''] else [''title'']) @ oset_from (map prop_key (all_properties rows)) @
     [''created'', ''updated'', ''words''] \<and>
   (\<forall>c \<in> set (discoverColumns rows includeFolder). \<forall>t. dc_type c = Some t \<longrightarrow>
     (\<exists>p \<in> set (all_properties rows). prop_key p = dc_key c \<and> p_type p = t) \<and>
     (\<forall>t'. type_count (all_properties rows) (dc_key c) t' \<le> type_count (all_properties rows) (dc_key c) t) \<and>
     distinct (map do_key (dc_options c)) \<and>
     set (map do_key (dc_options c)) =
       (if t = PSelect \<or> t = PMultiSelect then option_keys (all_properties rows) (dc_key c) else {}))"
proof -
  let ?ps = "all_properties rows" and ?m = "column_tallies rows"
  from tallies_spec [of ?ps] have m: "omap_keys ?m = oset_from (map prop_key ?ps)"
    "sorted_wrt (\<lambda>e f. ct_firstSeen (snd e) < ct_firstSeen (snd f)) ?m" "\<forall>(k, t) \<in> set ?m. tally_ok ?ps k t"
    by (simp_all add: column_tallies_fold tallies_ok_def)
  have "sorted_wrt (\<lambda>x y. first_seen_cmp x y \<le> 0) ?m"
    by (rule sorted_wrt_mono_rel [OF _ m(2)]) (simp add: first_seen_cmp_def)
  then have sorted: "js_sort first_seen_cmp ?m = ?m" by (rule seen_order.sort_idem)
  have key: "dc_key (property_column e) = fst e" "dc_type (property_column e) = Some (dominantType (snd e))" for e
    by (simp_all add: property_column_def Let_def case_prod_unfold)
  have "map dc_key (map builtInColumn ks) = ks" for ks by (simp add: builtInColumn_def comp_def)
  moreover have "map dc_key (map property_column ?m) = omap_keys ?m" by (simp add: key)
  ultimately have keys: "map dc_key (discoverColumns rows includeFolder) =
     (if includeFolder then [''title'', ''folder''] else [''title'']) @ oset_from (map prop_key ?ps) @ [''created'', ''updated'', ''words'']"
    unfolding discoverColumns_def sorted map_append m(1) by presburger
  have cols: "(\<exists>p \<in> set ?ps. prop_key p = dc_key c \<and> p_type p = t) \<and>
     (\<forall>t'. type_count ?ps (dc_key c) t' \<le> type_count ?ps (dc_key c) t) \<and> distinct (map do_key (dc_options c)) \<and>
     set (map do_key (dc_options c)) = (if t = PSelect \<or> t = PMultiSelect then option_keys ?ps (dc_key c) else {})"
    if c: "c \<in> set (discoverColumns rows includeFolder)" and t: "dc_type c = Some t" for c t
  proof -
    from c t obtain k tally where e: "(k, tally) \<in> set ?m" "c = property_column (k, tally)"
      by (auto simp: discoverColumns_def sorted builtInColumn_def split: if_splits)
    with m(3) have ok: "tally_ok ?ps k tally" by auto
    have "k \<in> set (omap_keys ?m)" using e(1) by force
    then obtain p where "p \<in> set ?ps" "prop_key p = k" unfolding m(1) by auto
    note d = dominant_type [OF ok this]
    have t': "t = dominantType tally" and k: "dc_key c = k" using t e(2) key by simp_all
    have "map do_key (dc_options c) = (if t = PSelect \<or> t = PMultiSelect then omap_keys (js_sort option_rank_cmp (ct_options tally)) else [])"
      by (simp add: e(2) t' property_column_def Let_def case_prod_unfold)
    moreover have "distinct (omap_keys (js_sort option_rank_cmp (ct_options tally)))"
      "set (omap_keys (js_sort option_rank_cmp (ct_options tally))) = option_keys ?ps k"
      using ok by (simp_all add: tally_ok_def)
    ultimately show ?thesis using d unfolding t' k by (simp split: if_splits)
  qed
  from keys cols show ?thesis by blast
qed

section \<open>Unchanged schema\<close>

lemma tally_options_cong:
  "map (\<lambda>opt. (o_label opt, o_color opt)) os = map (\<lambda>opt. (o_label opt, o_color opt)) os' \<Longrightarrow>
    fold (tally_option seen) (List.enumerate n os) m = fold (tally_option seen) (List.enumerate n os') m"
proof (induction os arbitrary: os' n m)
  case (Cons opt os)
  then obtain opt' os2 where os': "os' = opt' # os2" "o_label opt = o_label opt'" "o_color opt = o_color opt'" by (cases os') auto
  then have "tally_option seen (n, opt) m = tally_option seen (n, opt') m" by (simp add: tally_option_def Let_def split: option.split)
  with Cons os' show ?case by simp
qed simp

lemma tally_fold_cong:
  "schemaSignature ps = schemaSignature ps' \<Longrightarrow> fold tally_property ps st = fold tally_property ps' st"
proof (induction ps arbitrary: ps' st)
  case (Cons p ps)
  then obtain q qs where q: "ps' = q # qs" "p_name p = p_name q" "p_type p = p_type q"
    "map (\<lambda>opt. (o_label opt, o_color opt)) (p_options p) = map (\<lambda>opt. (o_label opt, o_color opt)) (p_options q)"
    "schemaSignature ps = schemaSignature qs"
    by (cases ps') (auto simp: schemaSignature_def)
  have "tally_property p st = tally_property q st"
    unfolding tally_property_def q(2,3) tally_options_cong [OF q(4)] by (rule refl)
  with Cons.IH [OF q(5)] q(1) show ?case by simp
qed (simp add: schemaSignature_def)

theorem same_schema_same_columns:
  assumes "sameColumnSchema previous rows"
  shows "discoverColumns previous includeFolder = discoverColumns rows includeFolder"
proof -
  have "schemaSignature (all_properties previous) = schemaSignature (all_properties rows)"
    using assms
  proof (induction previous arbitrary: rows)
    case (Cons r previous)
    then obtain r' rest where r: "rows = r' # rest" "sameColumnSchema previous rest"
      "schemaSignature (row_properties r) = schemaSignature (row_properties r')"
      by (cases rows) (auto simp: sameColumnSchema_def)
    with Cons.IH [OF r(2)] show ?case by (simp add: all_properties_def schemaSignature_def)
  qed (simp add: sameColumnSchema_def)
  then have "column_tallies previous = column_tallies rows"
    unfolding column_tallies_fold by (metis tally_fold_cong)
  then show ?thesis by (simp add: discoverColumns_def)
qed

section \<open>Display order\<close>

lemma place_key_cases:
  "omap_get byKey k = None \<Longrightarrow> place_key byKey k st = st"
  "k \<in> set placed \<Longrightarrow> place_key byKey k (placed, ordered) = (placed, ordered)"
  "omap_get byKey k = Some c \<Longrightarrow> k \<notin> set placed \<Longrightarrow> place_key byKey k (placed, ordered) = (oset_add k placed, ordered @ [c])"
  by (auto simp: place_key_def split: option.split)

lemma place_keys:
  "map dc_key (snd (fold (place_key byKey) os (placed, ordered))) =
     map dc_key ordered @ filter (\<lambda>k. omap_has byKey k \<and> k \<notin> set placed) (oset_from os) \<and>
   set (fst (fold (place_key byKey) os (placed, ordered))) = set placed \<union> {k \<in> set os. omap_has byKey k} \<and>
   set (snd (fold (place_key byKey) os (placed, ordered))) \<subseteq> set ordered \<union> set (omap_values byKey)"
  if keyed: "\<And>k c. omap_get byKey k = Some c \<Longrightarrow> dc_key c = k"
proof (induction os rule: rev_induct)
  case Nil
  show ?case by (simp add: oset_from_def)
next
  case (snoc k os)
  obtain placed' ordered' where st: "fold (place_key byKey) os (placed, ordered) = (placed', ordered')" by force
  show ?case
  proof (cases "omap_get byKey k")
    case None
    then have "\<not> omap_has byKey k" by (simp add: omap_has_get)
    with snoc None show ?thesis by (auto simp: st place_key_cases oset_from_snoc oset_add_def)
  next
    case (Some c)
    then have has: "omap_has byKey k" and c: "c \<in> set (omap_values byKey)" by (auto simp: omap_has_get dest!: omap_get_in intro: rev_image_eqI)
    show ?thesis
    proof (cases "k \<in> set placed'")
      case True
      with snoc has have k: "k \<in> set placed \<or> k \<in> set os" by (auto simp: st)
      then have "filter (\<lambda>k. omap_has byKey k \<and> k \<notin> set placed) (oset_from (os @ [k])) =
          filter (\<lambda>k. omap_has byKey k \<and> k \<notin> set placed) (oset_from os)"
        by (auto simp: oset_from_snoc oset_add_def)
      with snoc True Some k has show ?thesis by (auto simp: st place_key_cases)
    next
      case False
      with snoc has have k: "k \<notin> set placed" "k \<notin> set os" by (auto simp: st)
      with snoc False Some has keyed [OF Some] c show ?thesis
        by (auto simp: st place_key_cases oset_from_snoc oset_add_def)
    qed
  qed
qed

lemma place_columns:
  "distinct (map dc_key cs) \<Longrightarrow>
   map dc_key (snd (fold place_column cs (placed, ordered))) = map dc_key ordered @ filter (\<lambda>k. k \<notin> set placed) (map dc_key cs) \<and>
   set (snd (fold place_column cs (placed, ordered))) \<subseteq> set ordered \<union> set cs"
proof (induction cs arbitrary: placed ordered)
  case (Cons c cs)
  have "filter (\<lambda>k. k \<notin> insert (dc_key c) (set placed)) (map dc_key cs) = filter (\<lambda>k. k \<notin> set placed) (map dc_key cs)"
    by (rule filter_cong [OF refl]) (use Cons.prems in \<open>metis insert_iff list.set_map distinct.simps(2) list.simps(9)\<close>)
  with Cons.IH [of "oset_add (dc_key c) placed" "ordered @ [c]"] Cons.IH [of placed ordered] Cons.prems
  show ?case by (auto simp: place_column_def)
qed simp

theorem columns_keep_saved_order:
  assumes "distinct (map dc_key columns)" and "''title'' \<in> set (map dc_key columns)"
  shows "map dc_key (orderedColumns columns order) =
      ''title'' # filter (\<lambda>k. k \<in> set (map dc_key columns) \<and> k \<noteq> ''title'') (oset_from order) @
      filter (\<lambda>k. k \<noteq> ''title'' \<and> k \<notin> set order) (map dc_key columns) \<and>
    set (orderedColumns columns order) = set columns \<and>
    map dc_key (visibleColumns columns order hidden_keys) =
      filter (\<lambda>k. k = ''title'' \<or> k \<notin> set hidden_keys) (map dc_key (orderedColumns columns order))"
proof -
  let ?byKey = "omap_from dc_key (\<lambda>c. c) columns"
  have get: "omap_get ?byKey k = find (\<lambda>c. dc_key c = k) columns" for k
    by (simp add: omap_from_get [OF assms(1)] option.map_ident)
  then have keyed: "dc_key c = k" "c \<in> set columns" if "omap_get ?byKey k = Some c" for k c
    using that by (auto simp: find_Some_iff)
  have has: "omap_has ?byKey k \<longleftrightarrow> k \<in> set (map dc_key columns)" for k
    by (auto simp: omap_has_get get find_None_iff)
  have vals: "set (omap_values ?byKey) \<subseteq> set columns"
  proof
    fix c assume "c \<in> set (omap_values ?byKey)"
    then obtain k where "(k, c) \<in> set ?byKey" by auto
    then have "omap_get ?byKey k = Some c" by (simp add: omap_get_iff)
    then show "c \<in> set columns" by (rule keyed(2))
  qed
  obtain title where title: "omap_get ?byKey ''title'' = Some title" using assms(2) has by (auto simp: omap_has_get)
  obtain placed ordered where st: "fold (place_key ?byKey) order ([''title''], [title]) = (placed, ordered)" by force
  have pk: "map dc_key ordered = map dc_key [title] @ filter (\<lambda>k. omap_has ?byKey k \<and> k \<notin> set [''title'']) (oset_from order)"
    "set placed = set [''title''] \<union> {k \<in> set order. omap_has ?byKey k}" "set ordered \<subseteq> set [title] \<union> set (omap_values ?byKey)"
    using place_keys [where byKey = ?byKey, OF keyed(1), where os = order and placed = "[''title'']" and ordered = "[title]"]
    unfolding st by simp_all
  have o: "map dc_key ordered = ''title'' # filter (\<lambda>k. k \<in> set (map dc_key columns) \<and> k \<noteq> ''title'') (oset_from order)"
    "set placed = insert ''title'' {k \<in> set order. k \<in> set (map dc_key columns)}"
    unfolding pk(1,2) has using keyed(1) [OF title] by simp_all
  have o3: "set ordered \<subseteq> set columns" using pk(3) vals keyed(2) [OF title] by (metis Un_least empty_subsetI insert_subset list.set(1,2) order_trans)
  have out: "orderedColumns columns order = snd (fold place_column columns (placed, ordered))"
    by (simp add: orderedColumns_def Let_def title st)
  have rest: "filter (\<lambda>k. k \<notin> set placed) (map dc_key columns) = filter (\<lambda>k. k \<noteq> ''title'' \<and> k \<notin> set order) (map dc_key columns)"
    by (rule filter_cong) (auto simp: o(2))
  note pc = place_columns [OF assms(1), of placed ordered, folded out]
  have keys: "map dc_key (orderedColumns columns order) =
      ''title'' # filter (\<lambda>k. k \<in> set (map dc_key columns) \<and> k \<noteq> ''title'') (oset_from order) @
      filter (\<lambda>k. k \<noteq> ''title'' \<and> k \<notin> set order) (map dc_key columns)"
    unfolding conjunct1 [OF pc] o(1) rest by simp
  have sub: "set (orderedColumns columns order) \<subseteq> set columns" using conjunct2 [OF pc] o3 by blast
  have "dc_key ` set columns \<subseteq> set (map dc_key (orderedColumns columns order))" unfolding keys by auto
  then have "dc_key ` set columns \<subseteq> dc_key ` set (orderedColumns columns order)" by simp
  then have "set columns \<subseteq> set (orderedColumns columns order)"
    using sub assms(1) inj_on_image_mem_iff [of dc_key "set columns" _ "set (orderedColumns columns order)"]
    by (auto simp: distinct_map)
  moreover have "map dc_key (visibleColumns columns order hidden_keys) =
      filter (\<lambda>k. k = ''title'' \<or> k \<notin> set hidden_keys) (map dc_key (orderedColumns columns order))"
    by (simp add: visibleColumns_def filter_map comp_def)
  ultimately show ?thesis using keys sub by blast
qed

section \<open>Samples\<close>

definition sample_row :: "string \<Rightarrow> nat \<Rightarrow> string \<Rightarrow> string option \<Rightarrow> database_row" where
  "sample_row i k name v =
     \<lparr>row_noteId = i, row_title = i, row_parentId = None, row_folderPath = [], row_treeIndex = k, row_locked = False,
      row_createdAt = 0, row_updatedAt = 0, row_wordCount = Some 3,
      row_properties = [\<lparr>p_noteId = i, p_field = \<lparr>f_id = i, f_name = name, f_value = VSelect v,
        f_options = [\<lparr>o_id = ''1'', o_label = ''Open'', o_color = CRed\<rparr>, \<lparr>o_id = ''2'', o_label = ''Done'', o_color = CBlue\<rparr>],
        f_position = 0\<rparr>\<rparr>]\<rparr>"

definition sample_rows :: "database_row list" where
  "sample_rows = [sample_row ''a'' 0 ''State'' (Some ''1''), sample_row ''b'' 1 '' state'' None]"

lemma sample_columns:
  "map dc_key (discoverColumns sample_rows False) = [''title'', ''p:state'', ''created'', ''updated'', ''words'']"
  by code_simp

theorem columns_discovered_witness:
  "map dc_key (discoverColumns sample_rows False) = [''title''] @ oset_from (map prop_key (all_properties sample_rows)) @
     [''created'', ''updated'', ''words''] \<and>
   (\<exists>c \<in> set (discoverColumns sample_rows False). dc_key c = ''p:state'' \<and> distinct (map do_key (dc_options c)))"
proof -
  from columns_discovered [of sample_rows False] have k: "map dc_key (discoverColumns sample_rows False) =
      [''title''] @ oset_from (map prop_key (all_properties sample_rows)) @ [''created'', ''updated'', ''words'']" by (simp only: if_False)
  obtain c where c: "c \<in> set (discoverColumns sample_rows False)" "dc_key c = ''p:state''" "dc_type c \<noteq> None"
  proof -
    have "\<exists>c \<in> set (discoverColumns sample_rows False). dc_key c = ''p:state'' \<and> dc_type c \<noteq> None" by code_simp
    with that show thesis by blast
  qed
  then obtain t where "dc_type c = Some t" by blast
  with columns_discovered [of sample_rows False] c have "distinct (map do_key (dc_options c))" by blast
  with k c show ?thesis by blast
qed

theorem same_schema_same_columns_witness:
  "discoverColumns sample_rows False = discoverColumns [sample_row ''a'' 0 ''State'' None, sample_row ''b'' 1 '' state'' (Some ''2'')] False"
  by (rule same_schema_same_columns) code_simp

theorem columns_keep_saved_order_witness:
  "map dc_key (orderedColumns (discoverColumns sample_rows False) [''words'', ''p:state'', ''gone'']) =
     [''title'', ''words'', ''p:state'', ''created'', ''updated'']"
proof -
  have "distinct (map dc_key (discoverColumns sample_rows False))" "''title'' \<in> set (map dc_key (discoverColumns sample_rows False))"
    unfolding sample_columns by simp_all
  from conjunct1 [OF columns_keep_saved_order [OF this, of "[''words'', ''p:state'', ''gone'']" "[]"]]
  show ?thesis unfolding sample_columns by (simp add: oset_from_def oset_add_def)
qed

end
