(* ===== verification/Database_Arrange.thy ===== *)
theory Database_Arrange
  imports Database_Columns Database_Config Dates
begin

text \<open>
  \<open>database/arrange.ts\<close>: cell values, filters, sorts and board groups of a property database,
  and the incremental update of a finished arrangement. \<open>Intl.Collator\<close> is the parameter \<open>coll\<close>,
  and \<open>ld\<close> gives the local calendar day of a time stamp. \<open>===\<close> on rows is equality.
\<close>

section \<open>Cell values\<close>

datatype cell_value =
    CText string
  | CNumber "number option"
  | CDate string
  | COptions "string list"
  | CPeople "string list"
  | CCheckbox bool

datatype value_kind = VKText | VKNumber | VKDate | VKOptions | VKPeople | VKCheckbox

fun cell_kind :: "cell_value \<Rightarrow> value_kind" where
  "cell_kind (CText _) = VKText"
| "cell_kind (CNumber _) = VKNumber"
| "cell_kind (CDate _) = VKDate"
| "cell_kind (COptions _) = VKOptions"
| "cell_kind (CPeople _) = VKPeople"
| "cell_kind (CCheckbox _) = VKCheckbox"

fun propertyValueKind :: "property_type \<Rightarrow> value_kind" where
  "propertyValueKind PNumber = VKNumber"
| "propertyValueKind PRating = VKNumber"
| "propertyValueKind PDate = VKDate"
| "propertyValueKind PSelect = VKOptions"
| "propertyValueKind PMultiSelect = VKOptions"
| "propertyValueKind PPerson = VKPeople"
| "propertyValueKind PCheckbox = VKCheckbox"
| "propertyValueKind _ = VKText"

definition columnValueKind :: "database_column \<Rightarrow> value_kind" where
  "columnValueKind column =
     (case dc_type column of
        None \<Rightarrow>
          if dc_key column = ''created'' \<or> dc_key column = ''updated'' then VKDate
          else if dc_key column = ''words'' then VKNumber else VKText
      | Some type \<Rightarrow> propertyValueKind type)"

definition TEXT_OPERATORS :: "filter_operator list" where
  "TEXT_OPERATORS = [OpContains, OpNotContains, OpIs, OpIsNot, OpEmpty, OpNotEmpty]"
definition NUMBER_OPERATORS :: "filter_operator list" where
  "NUMBER_OPERATORS = [OpIs, OpIsNot, OpGreater, OpLess, OpEmpty, OpNotEmpty]"
definition DATE_OPERATORS :: "filter_operator list" where
  "DATE_OPERATORS = [OpIs, OpBefore, OpAfter, OpEmpty, OpNotEmpty]"
definition SELECT_OPERATORS :: "filter_operator list" where
  "SELECT_OPERATORS = [OpIs, OpIsNot, OpEmpty, OpNotEmpty]"
definition LIST_OPERATORS :: "filter_operator list" where
  "LIST_OPERATORS = [OpContains, OpNotContains, OpEmpty, OpNotEmpty]"
definition CHECKBOX_OPERATORS :: "filter_operator list" where
  "CHECKBOX_OPERATORS = [OpChecked, OpUnchecked]"

definition filterOperators :: "database_column \<Rightarrow> filter_operator list" where
  "filterOperators column =
     (if dc_type column = Some PSelect then SELECT_OPERATORS
      else case columnValueKind column of
          VKNumber \<Rightarrow> NUMBER_OPERATORS
        | VKDate \<Rightarrow> DATE_OPERATORS
        | VKOptions \<Rightarrow> LIST_OPERATORS
        | VKPeople \<Rightarrow> LIST_OPERATORS
        | VKCheckbox \<Rightarrow> CHECKBOX_OPERATORS
        | VKText \<Rightarrow> TEXT_OPERATORS)"

definition operatorNeedsValue :: "filter_operator \<Rightarrow> bool" where
  "operatorNeedsValue operator \<longleftrightarrow> operator \<noteq> OpEmpty \<and> operator \<noteq> OpNotEmpty \<and> operator \<noteq> OpChecked \<and> operator \<noteq> OpUnchecked"

definition isGroupableColumn :: "database_column \<Rightarrow> bool" where
  "isGroupableColumn column \<longleftrightarrow> dc_type column = Some PSelect \<or> dc_type column = Some PCheckbox"

definition localDateKey :: "(number \<Rightarrow> int) \<Rightarrow> number \<Rightarrow> string" where
  "localDateKey ld timestamp =
     (if timestamp \<le> 0 then []
      else let date = ld timestamp
           in int_string (getFullYear date) @ ''-'' @ padStart 2 (int_string (getMonth date + 1)) @ ''-'' @
              padStart 2 (int_string (getDate date)))"

fun emptyValue :: "value_kind \<Rightarrow> cell_value" where
  "emptyValue VKNumber = CNumber None"
| "emptyValue VKDate = CDate []"
| "emptyValue VKOptions = COptions []"
| "emptyValue VKPeople = CPeople []"
| "emptyValue VKCheckbox = CCheckbox False"
| "emptyValue VKText = CText []"

definition option_labels :: "note_property \<Rightarrow> string list \<Rightarrow> string list" where
  "option_labels p ids =
     (let labels = omap_from o_id o_label (p_options p)
      in concat (map (\<lambda>i. case omap_get labels i of None \<Rightarrow> [] | Some label \<Rightarrow> [foldOptionLabel label]) ids))"

definition property_cell :: "note_property \<Rightarrow> cell_value" where
  "property_cell p =
     (case p_value p of
        VNumber n \<Rightarrow> CNumber n
      | VRating n \<Rightarrow> CNumber n
      | VDate d \<Rightarrow> CDate d
      | VSelect v \<Rightarrow> COptions (case find (\<lambda>opt. Some (o_id opt) = v) (p_options p) of
            None \<Rightarrow> [] | Some opt \<Rightarrow> [foldOptionLabel (o_label opt)])
      | VMultiSelect ids \<Rightarrow> COptions (option_labels p ids)
      | VPerson ids \<Rightarrow> CPeople ids
      | VCheckbox b \<Rightarrow> CCheckbox b
      | VText s \<Rightarrow> CText s
      | VUrl s \<Rightarrow> CText s
      | VLocation s \<Rightarrow> CText s
      | VEmail s \<Rightarrow> CText s
      | VPhone s \<Rightarrow> CText s)"

definition cellValue :: "(number \<Rightarrow> int) \<Rightarrow> database_row \<Rightarrow> database_column \<Rightarrow> cell_value" where
  "cellValue ld row column =
     (case dc_type column of
        None \<Rightarrow>
          if dc_key column = ''folder'' then CText (row_folderPath row)
          else if dc_key column = ''created'' then CDate (localDateKey ld (row_createdAt row))
          else if dc_key column = ''updated'' then CDate (localDateKey ld (row_updatedAt row))
          else if dc_key column = ''words'' then CNumber (row_wordCount row)
          else CText (row_title row)
      | Some type \<Rightarrow>
          (case typedRowProperty row column of
             None \<Rightarrow> emptyValue (propertyValueKind type)
           | Some p \<Rightarrow> property_cell p))"

fun isEmptyValue :: "cell_value \<Rightarrow> bool" where
  "isEmptyValue (CText s) \<longleftrightarrow> js_trim s = []"
| "isEmptyValue (CNumber n) \<longleftrightarrow> n = None"
| "isEmptyValue (CDate k) \<longleftrightarrow> k = []"
| "isEmptyValue (COptions ks) \<longleftrightarrow> ks = []"
| "isEmptyValue (CPeople ids) \<longleftrightarrow> ids = []"
| "isEmptyValue (CCheckbox b) \<longleftrightarrow> \<not> b"

section \<open>The number a text denotes\<close>

text \<open>\<open>Number(s)\<close>; \<open>None\<close> is NaN or an infinity. A magnitude from \<open>2^1024 - 2^970\<close> on rounds to
  infinity.\<close>

definition scaled :: "nat \<Rightarrow> int \<Rightarrow> number" where
  "scaled n e = (if 0 \<le> e then of_nat n * 10 ^ nat e else of_nat n / 10 ^ nat (- e))"

definition exponent_of :: "string \<Rightarrow> int option" where
  "exponent_of s =
     (case s of
        [] \<Rightarrow> Some 0
      | c # t \<Rightarrow>
          if c = CHR ''e'' \<or> c = CHR ''E''
          then (let neg = (t \<noteq> [] \<and> hd t = CHR ''-'');
                    digits = (if t \<noteq> [] \<and> (hd t = CHR ''-'' \<or> hd t = CHR ''+'') then tl t else t)
                in if digits \<noteq> [] \<and> list_all is_digit digits
                   then Some (if neg then - int (digits_value digits) else int (digits_value digits)) else None)
          else None)"

definition decimal_of :: "string \<Rightarrow> number option" where
  "decimal_of s =
     (let whole = takeWhile is_digit s; r = dropWhile is_digit s;
          (fraction, rest) = (if r \<noteq> [] \<and> hd r = CHR ''.'' then (takeWhile is_digit (tl r), dropWhile is_digit (tl r)) else ([], r))
      in if whole = [] \<and> fraction = [] then None
         else map_option (\<lambda>e. scaled (digits_value (whole @ fraction)) (e - int (length fraction))) (exponent_of rest))"

definition radix_digit :: "char \<Rightarrow> nat" where
  "radix_digit c =
     (if is_digit c then digit_value c
      else if CHR ''a'' \<le> c \<and> c \<le> CHR ''f'' then of_char c - 87
      else if CHR ''A'' \<le> c \<and> c \<le> CHR ''F'' then of_char c - 55 else 99)"

definition radix_of :: "nat \<Rightarrow> string \<Rightarrow> number option" where
  "radix_of base s =
     (if s \<noteq> [] \<and> list_all (\<lambda>c. radix_digit c < base) s
      then Some (of_nat (fold (\<lambda>c n. base * n + radix_digit c) s 0)) else None)"

definition number_of_text :: "string \<Rightarrow> number option" where
  "number_of_text text =
     (let s = js_trim text;
          parsed =
            (if s = [] then Some 0
             else if startsWith s ''0x'' \<or> startsWith s ''0X'' then radix_of 16 (drop 2 s)
             else if startsWith s ''0o'' \<or> startsWith s ''0O'' then radix_of 8 (drop 2 s)
             else if startsWith s ''0b'' \<or> startsWith s ''0B'' then radix_of 2 (drop 2 s)
             else if hd s = CHR ''-'' then map_option uminus (decimal_of (tl s))
             else if hd s = CHR ''+'' then decimal_of (tl s) else decimal_of s)
      in case parsed of
           None \<Rightarrow> None
         | Some n \<Rightarrow> if \<bar>n\<bar> < 2 ^ 1024 - 2 ^ 970 then Some n else None)"

section \<open>Filters\<close>

definition match_text :: "filter_operator \<Rightarrow> string \<Rightarrow> string \<Rightarrow> bool" where
  "match_text operator text target =
     (let haystack = normalizeEntityName text; needle = normalizeEntityName target
      in case operator of
           OpContains \<Rightarrow> str_includes haystack needle
         | OpNotContains \<Rightarrow> \<not> str_includes haystack needle
         | OpIs \<Rightarrow> haystack = needle
         | OpIsNot \<Rightarrow> haystack \<noteq> needle
         | _ \<Rightarrow> True)"

definition match_number :: "filter_operator \<Rightarrow> number option \<Rightarrow> string \<Rightarrow> bool" where
  "match_number operator v target =
     (case number_of_text target of
        None \<Rightarrow> True
      | Some wanted \<Rightarrow>
          if operator = OpIsNot then v \<noteq> Some wanted
          else (case v of
              None \<Rightarrow> False
            | Some n \<Rightarrow>
                if operator = OpIs then n = wanted
                else if operator = OpGreater then n > wanted
                else if operator = OpLess then n < wanted else True))"

definition match_date :: "filter_operator \<Rightarrow> string \<Rightarrow> string \<Rightarrow> bool" where
  "match_date operator k target =
     (if operator = OpIs then k = target
      else if k = [] then False
      else if operator = OpBefore then k < target
      else if operator = OpAfter then k > target else True)"

definition match_member :: "filter_operator \<Rightarrow> bool \<Rightarrow> bool \<Rightarrow> bool" where
  "match_member operator exact has =
     (if operator = OpContains \<or> (exact \<and> operator = OpIs) then has
      else if operator = OpNotContains \<or> (exact \<and> operator = OpIsNot) then \<not> has else True)"

definition matchesFilter :: "(number \<Rightarrow> int) \<Rightarrow> database_row \<Rightarrow> database_column \<Rightarrow> database_filter \<Rightarrow> bool" where
  "matchesFilter ld row column filter_spec =
     (let v = cellValue ld row column; operator = df_operator filter_spec
      in if operator = OpEmpty then isEmptyValue v
         else if operator = OpNotEmpty then \<not> isEmptyValue v
         else if operator = OpChecked then v = CCheckbox True
         else if operator = OpUnchecked then v = CCheckbox False
         else (let target = js_trim (df_value filter_spec)
               in if target = [] then True
                  else case v of
                      CText text \<Rightarrow> match_text operator text target
                    | CNumber n \<Rightarrow> match_number operator n target
                    | CDate k \<Rightarrow> match_date operator k target
                    | COptions ks \<Rightarrow> match_member operator True (foldOptionLabel target \<in> set ks)
                    | CPeople ids \<Rightarrow> match_member operator False (target \<in> set ids)
                    | CCheckbox _ \<Rightarrow> True))"

section \<open>Sorting\<close>

record prepared_sort =
  pso_column :: database_column
  pso_descending :: bool
  pso_emptiesSort :: bool
  pso_ranks :: "(string, nat) omap"

type_synonym collation = "string \<Rightarrow> string \<Rightarrow> number"

definition optionRank :: "string list \<Rightarrow> (string, nat) omap \<Rightarrow> number" where
  "optionRank ks ranks =
     (case ks of
        [] \<Rightarrow> MAX_SAFE_INTEGER
      | k # _ \<Rightarrow> of_nat (case omap_get ranks k of Some r \<Rightarrow> r | None \<Rightarrow> length ranks))"

definition firstPersonName :: "string list \<Rightarrow> (string, person_record) omap \<Rightarrow> string" where
  "firstPersonName ids people =
     (case ids of [] \<Rightarrow> [] | i # _ \<Rightarrow> (case omap_get people i of None \<Rightarrow> [] | Some p \<Rightarrow> person_name p))"

definition date_cmp :: "string \<Rightarrow> string \<Rightarrow> number" where
  "date_cmp l r = (if l < r then -1 else if r < l then 1 else 0)"

fun compareValues :: "collation \<Rightarrow> cell_value \<Rightarrow> cell_value \<Rightarrow> prepared_sort \<Rightarrow> (string, person_record) omap \<Rightarrow> number" where
  "compareValues coll (CText l) (CText r) srt people = coll l r"
| "compareValues coll (CNumber l) (CNumber r) srt people = or_else 0 l - or_else 0 r"
| "compareValues coll (CDate l) (CDate r) srt people = date_cmp l r"
| "compareValues coll (COptions l) (COptions r) srt people = optionRank l (pso_ranks srt) - optionRank r (pso_ranks srt)"
| "compareValues coll (CPeople l) (CPeople r) srt people = coll (firstPersonName l people) (firstPersonName r people)"
| "compareValues coll (CCheckbox l) (CCheckbox r) srt people = of_bool l - of_bool r"
| "compareValues coll _ _ srt people = 0"

record decorated_row =
  dec_row :: database_row
  dec_values :: "cell_value list"

definition decorateRow :: "(number \<Rightarrow> int) \<Rightarrow> database_row \<Rightarrow> prepared_sort list \<Rightarrow> decorated_row" where
  "decorateRow ld row sorts = \<lparr>dec_row = row, dec_values = map (\<lambda>srt. cellValue ld row (pso_column srt)) sorts\<rparr>"

text \<open>The loop over the sorts and the two rows' values.\<close>

fun compare_values :: "collation \<Rightarrow> (string, person_record) omap \<Rightarrow> prepared_sort list \<Rightarrow> cell_value list \<Rightarrow> cell_value list \<Rightarrow> number option" where
  "compare_values coll people (srt # sorts) (l # ls) (r # rs) =
     (let leftEmpty = (pso_emptiesSort srt \<and> isEmptyValue l); rightEmpty = (pso_emptiesSort srt \<and> isEmptyValue r);
          compared = compareValues coll l r srt people
      in if leftEmpty \<noteq> rightEmpty then Some (if leftEmpty then 1 else -1)
         else if leftEmpty then compare_values coll people sorts ls rs
         else if compared \<noteq> 0 then Some (if pso_descending srt then - compared else compared)
         else compare_values coll people sorts ls rs)"
| "compare_values coll people _ _ _ = None"

definition compareDecorated :: "collation \<Rightarrow> (string, person_record) omap \<Rightarrow> prepared_sort list \<Rightarrow> decorated_row \<Rightarrow> decorated_row \<Rightarrow> number" where
  "compareDecorated coll people sorts l r =
     (case compare_values coll people sorts (dec_values l) (dec_values r) of
        Some c \<Rightarrow> c
      | None \<Rightarrow> of_nat (row_treeIndex (dec_row l)) - of_nat (row_treeIndex (dec_row r)))"

definition sortRows :: "(number \<Rightarrow> int) \<Rightarrow> collation \<Rightarrow> database_row list \<Rightarrow> prepared_sort list \<Rightarrow> (string, person_record) omap \<Rightarrow> database_row list" where
  "sortRows ld coll rows sorts people =
     map dec_row (js_sort (compareDecorated coll people sorts) (map (\<lambda>row. decorateRow ld row sorts) rows))"

text \<open>The binary search of \<open>insertionIndex\<close>.\<close>

function insertion_search :: "(nat \<Rightarrow> bool) \<Rightarrow> nat \<Rightarrow> nat \<Rightarrow> nat" where
  "insertion_search before_target low high =
     (if low < high
      then let middle = (low + high) div 2
           in if before_target middle then insertion_search before_target (middle + 1) high
              else insertion_search before_target low middle
      else low)"
  by pat_completeness auto

termination insertion_search
  by (relation "measure (\<lambda>(_, low, high). high - low)") auto

declare insertion_search.simps [simp del]

definition insertionIndex :: "(number \<Rightarrow> int) \<Rightarrow> collation \<Rightarrow> database_row list \<Rightarrow> database_row \<Rightarrow> prepared_sort list \<Rightarrow>
    (string, person_record) omap \<Rightarrow> nat" where
  "insertionIndex ld coll sorted_rows row sorts people =
     insertion_search
       (\<lambda>middle. compareDecorated coll people sorts (decorateRow ld (sorted_rows ! middle) sorts) (decorateRow ld row sorts) < 0)
       0 (length sorted_rows)"

section \<open>Board groups\<close>

record database_group =
  dg_key :: "string option"
  dg_label :: string
  dg_color :: "property_color option"
  dg_rows :: "database_row list"

definition CHECKED_KEY :: string where "CHECKED_KEY = ''checked''"
definition UNCHECKED_KEY :: string where "UNCHECKED_KEY = ''unchecked''"

definition groupKeyOf :: "(number \<Rightarrow> int) \<Rightarrow> database_row \<Rightarrow> database_column \<Rightarrow> string list \<Rightarrow> string option" where
  "groupKeyOf ld row column knownKeys =
     (let v = cellValue ld row column
      in if dc_type column = Some PCheckbox
         then Some (if v = CCheckbox True then CHECKED_KEY else UNCHECKED_KEY)
         else (case v of
             COptions (k # _) \<Rightarrow> if k \<in> set knownKeys then Some k else None
           | _ \<Rightarrow> None))"

definition groupKeys :: "database_column \<Rightarrow> string list" where
  "groupKeys column = oset_from (map do_key (dc_options column))"

definition groupShells :: "database_column \<Rightarrow> (string option \<times> string \<times> property_color option) list" where
  "groupShells column =
     (if dc_type column = Some PCheckbox
      then [(Some UNCHECKED_KEY, ''Not '' @ toLowerCase (dc_name column), None), (Some CHECKED_KEY, dc_name column, None)]
      else (None, ''No '' @ dc_name column, None) #
        map (\<lambda>opt. (Some (do_key opt), do_label opt, Some (do_color opt))) (dc_options column))"

definition group_buckets :: "(number \<Rightarrow> int) \<Rightarrow> database_column \<Rightarrow> database_row list \<Rightarrow> (string option, database_row list) omap" where
  "group_buckets ld column rows =
     group_by (\<lambda>_. True) (\<lambda>row. groupKeyOf ld row column (groupKeys column)) (\<lambda>row. row) rows"

definition groupRows :: "(number \<Rightarrow> int) \<Rightarrow> database_row list \<Rightarrow> database_column \<Rightarrow> database_group list" where
  "groupRows ld rows column =
     (let buckets = group_buckets ld column rows
      in map (\<lambda>(k, label, color). \<lparr>dg_key = k, dg_label = label, dg_color = color, dg_rows = omap_getd [] buckets k\<rparr>)
           (groupShells column))"

section \<open>Arranging\<close>

record arrangement =
  ar_activeFilters :: "(database_column \<times> database_filter) list"
  ar_inactiveFilters :: "database_filter list"
  ar_needle :: string
  ar_sorts :: "prepared_sort list"
  ar_groupColumn :: "database_column option"

definition filter_active :: "(string, database_column) omap \<Rightarrow> database_filter \<Rightarrow> bool" where
  "filter_active byKey f =
     (case omap_get byKey (df_column f) of
        None \<Rightarrow> False | Some column \<Rightarrow> df_operator f \<in> set (filterOperators column))"

definition prepare_sort :: "(string, database_column) omap \<Rightarrow> database_sort \<Rightarrow> prepared_sort list" where
  "prepare_sort byKey srt =
     (case omap_get byKey (ds_column srt) of
        None \<Rightarrow> []
      | Some column \<Rightarrow>
          [\<lparr>pso_column = column, pso_descending = (ds_direction srt = Desc),
            pso_emptiesSort = (columnValueKind column \<noteq> VKCheckbox),
            pso_ranks = omap_from (\<lambda>(i, opt). do_key opt) (\<lambda>(i, opt). i) (List.enumerate 0 (dc_options column))\<rparr>])"

definition prepareArrangement :: "database_column list \<Rightarrow> database_view \<Rightarrow> string \<Rightarrow> arrangement" where
  "prepareArrangement columns view search =
     (let byKey = omap_from dc_key (\<lambda>c. c) columns;
          groupColumn = (case dv_groupBy view of None \<Rightarrow> None | Some k \<Rightarrow> omap_get byKey k)
      in \<lparr>ar_activeFilters =
            concat (map (\<lambda>f. if filter_active byKey f then [(the (omap_get byKey (df_column f)), f)] else []) (dv_filters view)),
          ar_inactiveFilters = filter (\<lambda>f. \<not> filter_active byKey f) (dv_filters view),
          ar_needle = normalizeEntityName search,
          ar_sorts = concat (map (prepare_sort byKey) (dv_sorts view)),
          ar_groupColumn = (case groupColumn of
              Some column \<Rightarrow> if dv_layout view = LBoard \<and> isGroupableColumn column then Some column else None
            | None \<Rightarrow> None)\<rparr>)"

definition rowPasses :: "(number \<Rightarrow> int) \<Rightarrow> arrangement \<Rightarrow> database_row \<Rightarrow> bool" where
  "rowPasses ld ar row \<longleftrightarrow>
     (ar_needle ar = [] \<or> str_includes (normalizeEntityName (row_title row)) (ar_needle ar)) \<and>
     list_all (\<lambda>(column, f). matchesFilter ld row column f) (ar_activeFilters ar)"

record arranged_database =
  ad_rows :: "database_row list"
  ad_groups :: "database_group list option"
  ad_inactiveFilters :: "database_filter list"

definition arrangeDatabase :: "(number \<Rightarrow> int) \<Rightarrow> collation \<Rightarrow> database_row list \<Rightarrow> database_column list \<Rightarrow> database_view \<Rightarrow>
    string \<Rightarrow> (string, person_record) omap \<Rightarrow> arranged_database" where
  "arrangeDatabase ld coll rows columns view search people =
     (let ar = prepareArrangement columns view search;
          passing = filter (rowPasses ld ar) rows;
          arranged = (if ar_sorts ar \<noteq> [] then sortRows ld coll passing (ar_sorts ar) people else passing)
      in \<lparr>ad_rows = arranged,
          ad_groups = map_option (groupRows ld arranged) (ar_groupColumn ar),
          ad_inactiveFilters = ar_inactiveFilters ar\<rparr>)"

section \<open>Rearranging\<close>

record arranged_snapshot =
  as_rows :: "database_row list"
  as_columns :: "database_column list"
  as_view :: database_view
  as_search :: string
  as_people :: "(string, person_record) omap"
  as_arranged :: arranged_database

definition INCREMENTAL_ROW_LIMIT :: nat where "INCREMENTAL_ROW_LIMIT = 32"

definition withoutRows :: "database_row list \<Rightarrow> database_row list \<Rightarrow> database_row list" where
  "withoutRows rows removed = filter (\<lambda>row. row \<notin> set removed) rows"

definition splice_in :: "nat \<Rightarrow> 'a \<Rightarrow> 'a list \<Rightarrow> 'a list" where
  "splice_in index x xs = take index xs @ [x] @ drop index xs"

definition insertRows :: "(number \<Rightarrow> int) \<Rightarrow> collation \<Rightarrow> database_row list \<Rightarrow> database_row list \<Rightarrow> arrangement \<Rightarrow>
    (string, person_record) omap \<Rightarrow> database_row list" where
  "insertRows ld coll sorted_rows inserted ar people =
     fold (\<lambda>row rows. splice_in (insertionIndex ld coll rows row (ar_sorts ar) people) row rows) inserted sorted_rows"

text \<open>The loop that pairs old and new rows: the rows that leave and those that arrive, or
  \<open>None\<close> when the code arranges from scratch.\<close>

fun changed_rows :: "(database_row \<times> database_row) list \<Rightarrow> database_row list \<Rightarrow> database_row list \<Rightarrow>
    (database_row list \<times> database_row list) option" where
  "changed_rows [] removed changed = Some (removed, changed)"
| "changed_rows ((before, after) # pairs) removed changed =
     (if before = after then changed_rows pairs removed changed
      else if row_noteId before \<noteq> row_noteId after \<or> length changed \<ge> INCREMENTAL_ROW_LIMIT then None
      else changed_rows pairs (oset_add before removed) (changed @ [after]))"

definition regroup :: "(number \<Rightarrow> int) \<Rightarrow> collation \<Rightarrow> arrangement \<Rightarrow> (string, person_record) omap \<Rightarrow> database_row list \<Rightarrow>
    (string option, database_row list) omap \<Rightarrow> database_group \<Rightarrow> database_group" where
  "regroup ld coll ar people removed arrivals grp =
     (let arriving = omap_getd [] arrivals (dg_key grp);
          leaving = list_ex (\<lambda>row. row \<in> set removed) (dg_rows grp)
      in if \<not> leaving \<and> arriving = [] then grp
         else grp\<lparr>dg_rows := insertRows ld coll (withoutRows (dg_rows grp) removed) arriving ar people\<rparr>)"

definition rearrangeDatabase :: "(number \<Rightarrow> int) \<Rightarrow> collation \<Rightarrow> arranged_snapshot \<Rightarrow> database_row list \<Rightarrow> database_column list \<Rightarrow>
    database_view \<Rightarrow> string \<Rightarrow> (string, person_record) omap \<Rightarrow> arranged_database" where
  "rearrangeDatabase ld coll previous rows columns view search people =
     (if as_columns previous \<noteq> columns \<or> as_view previous \<noteq> view \<or> as_search previous \<noteq> search \<or>
         as_people previous \<noteq> people \<or> length (as_rows previous) \<noteq> length rows
      then arrangeDatabase ld coll rows columns view search people
      else (case changed_rows (zip (as_rows previous) rows) [] [] of
          None \<Rightarrow> arrangeDatabase ld coll rows columns view search people
        | Some (removed, changed) \<Rightarrow>
            if changed = [] then as_arranged previous
            else
              (let ar = prepareArrangement columns view search;
                   passing = filter (rowPasses ld ar) changed;
                   arrangedRows = insertRows ld coll (withoutRows (ad_rows (as_arranged previous)) removed) passing ar people;
                   groups = (case (ar_groupColumn ar, ad_groups (as_arranged previous)) of
                       (Some column, Some groups) \<Rightarrow>
                         Some (map (regroup ld coll ar people removed (group_buckets ld column passing)) groups)
                     | _ \<Rightarrow> None)
               in \<lparr>ad_rows = arrangedRows, ad_groups = groups,
                   ad_inactiveFilters = ad_inactiveFilters (as_arranged previous)\<rparr>)))"

section \<open>The default group\<close>

definition status_like :: "string \<Rightarrow> bool" where
  "status_like name \<longleftrightarrow>
     (let s = toLowerCase name in str_includes s ''status'' \<or> str_includes s ''stage'' \<or> str_includes s ''state'')"

definition defaultGroupColumn :: "database_column list \<Rightarrow> database_column option" where
  "defaultGroupColumn columns =
     (let groupable = filter isGroupableColumn columns
      in case find (\<lambda>c. dc_type c = Some PSelect \<and> status_like (dc_name c)) groupable of
           Some c \<Rightarrow> Some c
         | None \<Rightarrow>
             (case find (\<lambda>c. dc_type c = Some PSelect) groupable of
                Some c \<Rightarrow> Some c
              | None \<Rightarrow> (case groupable of [] \<Rightarrow> None | c # _ \<Rightarrow> Some c)))"

end
