(* ===== verification/Arrange_Laws.thy ===== *)
theory Arrange_Laws
  imports Database_Arrange Column_Theorems
begin

text \<open>
  The laws behind the arrangements of a database: total orderings (the locale \<open>ordering\<close>), the order
  of the prepared sorts, insertion by binary search, and the rows of a full arrangement.
\<close>

section \<open>Orderings\<close>

text \<open>A comparator that orders its arguments totally, ties included.\<close>

locale ordering =
  fixes cmp :: "'a \<Rightarrow> 'a \<Rightarrow> number"
  assumes flip: "cmp x y < 0 \<longleftrightarrow> 0 < cmp y x"
    and chain: "cmp x y \<le> 0 \<Longrightarrow> cmp y z \<le> 0 \<Longrightarrow> cmp x z \<le> 0"
begin

lemma refl [simp]: "cmp x x = 0"
  using flip [of x x] by linarith

lemma le_flip: "cmp x y \<le> 0 \<longleftrightarrow> 0 \<le> cmp y x"
  using flip [of y x] by linarith

lemma zero_flip: "cmp x y = 0 \<longleftrightarrow> cmp y x = 0"
  using flip [of x y] flip [of y x] by linarith

lemma less_chain:
  assumes "cmp x y < 0" and "cmp y z \<le> 0"
  shows "cmp x z < 0"
proof (rule ccontr)
  assume "\<not> cmp x z < 0"
  then have "cmp z x \<le> 0" using le_flip [of z x] by simp
  from chain [OF assms(2) this] have "0 \<le> cmp x y" using le_flip [of y x] by simp
  with assms(1) show False by simp
qed

lemma chain_less:
  assumes "cmp x y \<le> 0" and "cmp y z < 0"
  shows "cmp x z < 0"
proof (rule ccontr)
  assume "\<not> cmp x z < 0"
  then have "cmp z x \<le> 0" using le_flip [of z x] by simp
  from chain [OF this assms(1)] have "0 \<le> cmp y z" using le_flip [of z y] by simp
  with assms(2) show False by simp
qed

text \<open>The contract of a comparator whose ties have the same key.\<close>

lemma keyed: "comparator cmp key"
proof
  show "cmp x y \<le> 0 \<or> cmp y x \<le> 0" for x y using le_flip [of x y] by auto
qed (rule chain)

lemma sorts:
  assumes "distinct (map key xs)" and "\<And>x y. cmp x y = 0 \<Longrightarrow> key x = key y"
  shows "sorted_wrt (\<lambda>x y. cmp x y < 0) (js_sort cmp xs)"
proof -
  have "sorted_wrt (\<lambda>x y. cmp x y \<le> 0) (js_sort cmp xs)" by (rule comparator.sort_sorted [OF keyed assms(1)])
  moreover have "distinct (map key (js_sort cmp xs))" using assms(1) by simp
  ultimately show ?thesis
    unfolding sorted_wrt_iff_nth_less
  proof (intro allI impI)
    let ?xs = "js_sort cmp xs"
    fix i j
    assume le: "\<forall>i j. i < j \<longrightarrow> j < length ?xs \<longrightarrow> cmp (?xs ! i) (?xs ! j) \<le> 0"
      and d: "distinct (map key ?xs)" and ij: "i < j" "j < length ?xs"
    have "map key ?xs ! i \<noteq> map key ?xs ! j" using d ij by (subst nth_eq_iff_index_eq) simp_all
    then have "key (?xs ! i) \<noteq> key (?xs ! j)" using ij by simp
    with assms(2) have "cmp (?xs ! i) (?xs ! j) \<noteq> 0" by blast
    with le ij show "cmp (?xs ! i) (?xs ! j) < 0" by (metis order_le_less)
  qed
qed

text \<open>Two strictly sorted lists of the same elements are equal.\<close>

lemma ascending_unique:
  "sorted_wrt (\<lambda>x y. cmp x y < 0) xs \<Longrightarrow> sorted_wrt (\<lambda>x y. cmp x y < 0) ys \<Longrightarrow> set xs = set ys \<Longrightarrow> xs = ys"
proof (induction xs arbitrary: ys)
  case Nil
  then show ?case by simp
next
  case (Cons x xs)
  then obtain y ys' where y: "ys = y # ys'" by (cases ys) auto
  have "x = y"
  proof (rule ccontr)
    assume "x \<noteq> y"
    with Cons.prems(3) y have "y \<in> set xs" "x \<in> set ys'" by auto
    with Cons.prems(1,2) y have "cmp x y < 0" "cmp y x < 0" by auto
    with flip [of x y] show False by linarith
  qed
  moreover have irr: "\<not> cmp z z < 0" for z by simp
  have "x \<notin> set xs" "y \<notin> set ys'" using Cons.prems(1,2) y irr by auto
  with Cons.prems(3) y \<open>x = y\<close> have "set xs = set ys'" by auto
  ultimately show ?case using Cons y by simp
qed

end

lemma ordering_by: "ordering c \<Longrightarrow> ordering (\<lambda>x y. c (f x) (f y))"
  unfolding ordering_def by blast

lemma ordering_diff: "ordering (\<lambda>x y. f x - f y)"
  by unfold_locales auto

lemma ordering_minus:
  assumes "ordering c"
  shows "ordering (\<lambda>x y. - c x y)"
proof
  show "- c x y < 0 \<longleftrightarrow> 0 < - c y x" for x y using ordering.flip [OF assms, of y x] by simp
  show "- c x z \<le> 0" if "- c x y \<le> 0" "- c y z \<le> 0" for x y z
    using that ordering.le_flip [OF assms] ordering.chain [OF assms, of z y x] by simp
qed

lemma ordering_lex:
  assumes c: "ordering c" and d: "ordering d"
  shows "ordering (\<lambda>x y. if c x y \<noteq> 0 then c x y else d x y)"
proof
  show "(if c x y \<noteq> 0 then c x y else d x y) < 0 \<longleftrightarrow> 0 < (if c y x \<noteq> 0 then c y x else d y x)" for x y
    using ordering.zero_flip [OF c, of x y] ordering.flip [OF c, of x y] ordering.flip [OF d, of x y] by auto
  fix x y z
  assume xy: "(if c x y \<noteq> 0 then c x y else d x y) \<le> 0" and yz: "(if c y z \<noteq> 0 then c y z else d y z) \<le> 0"
  then have le: "c x y \<le> 0" "c y z \<le> 0" by (auto split: if_splits)
  show "(if c x z \<noteq> 0 then c x z else d x z) \<le> 0"
  proof (cases "c x z = 0")
    case True
    with ordering.less_chain [OF c, of x y z] ordering.chain_less [OF c, of x y z] le
    have "c x y = 0" "c y z = 0" by fastforce+
    with xy yz True ordering.chain [OF d, of x y z] show ?thesis by simp
  next
    case False
    with ordering.chain [OF c le] show ?thesis by simp
  qed
qed

lemma ordering_empties:
  assumes c: "ordering c"
  shows "ordering (\<lambda>x y. if e x \<noteq> e y then (if e x then 1 else -1) else if e x then 0 else c x y)"
proof
  fix x y
  show "(if e x \<noteq> e y then (if e x then 1 else -1) else if e x then 0 else c x y) < 0 \<longleftrightarrow>
      0 < (if e y \<noteq> e x then (if e y then 1 else -1) else if e y then 0 else c y x)"
    using ordering.flip [OF c, of x y] by auto
next
  fix x y z
  assume "(if e x \<noteq> e y then (if e x then 1 else -1) else if e x then 0 else c x y) \<le> 0"
    "(if e y \<noteq> e z then (if e y then 1 else -1) else if e y then 0 else c y z) \<le> 0"
  then show "(if e x \<noteq> e z then (if e x then 1 else -1) else if e x then 0 else c x z) \<le> 0"
    using ordering.chain [OF c, of x y z] by (auto split: if_splits)
qed

interpretation dates: ordering date_cmp
  by unfold_locales (auto simp: date_cmp_def split: if_splits)

interpretation units: ordering unit_order
  by unfold_locales (auto simp: unit_order_def split: if_splits)

section \<open>The order of the rows\<close>

lemma property_cell_kind: "cell_kind (property_cell p) = propertyValueKind (p_type p)"
  by (cases "p_value p") (simp_all add: property_cell_def)

lemma empty_kind [simp]: "cell_kind (emptyValue k) = k"
  by (cases k) simp_all

lemma cell_kind_column: "cell_kind (cellValue ld row column) = columnValueKind column"
proof (cases "dc_type column")
  case None
  then show ?thesis by (simp add: cellValue_def columnValueKind_def)
next
  case (Some type)
  show ?thesis
  proof (cases "typedRowProperty row column")
    case None
    with Some show ?thesis by (simp add: cellValue_def columnValueKind_def)
  next
    fix p
    assume p: "typedRowProperty row column = Some p"
    with Some have "p_type p = type" by (auto simp: typedRowProperty_def split: option.splits if_splits)
    with Some p show ?thesis by (simp add: cellValue_def columnValueKind_def property_cell_kind)
  qed
qed

definition kind_cmp :: "collation \<Rightarrow> (string, person_record) omap \<Rightarrow> prepared_sort \<Rightarrow> value_kind \<Rightarrow> cell_value \<Rightarrow> cell_value \<Rightarrow> number" where
  "kind_cmp coll people srt k l r =
     (case k of
        VKText \<Rightarrow> coll (case l of CText s \<Rightarrow> s | _ \<Rightarrow> []) (case r of CText s \<Rightarrow> s | _ \<Rightarrow> [])
      | VKNumber \<Rightarrow> (case l of CNumber n \<Rightarrow> or_else 0 n | _ \<Rightarrow> 0) - (case r of CNumber n \<Rightarrow> or_else 0 n | _ \<Rightarrow> 0)
      | VKDate \<Rightarrow> date_cmp (case l of CDate s \<Rightarrow> s | _ \<Rightarrow> []) (case r of CDate s \<Rightarrow> s | _ \<Rightarrow> [])
      | VKOptions \<Rightarrow> (case l of COptions ks \<Rightarrow> optionRank ks (pso_ranks srt) | _ \<Rightarrow> 0) -
          (case r of COptions ks \<Rightarrow> optionRank ks (pso_ranks srt) | _ \<Rightarrow> 0)
      | VKPeople \<Rightarrow> coll (case l of CPeople ids \<Rightarrow> firstPersonName ids people | _ \<Rightarrow> [])
          (case r of CPeople ids \<Rightarrow> firstPersonName ids people | _ \<Rightarrow> [])
      | VKCheckbox \<Rightarrow> (case l of CCheckbox b \<Rightarrow> of_bool b | _ \<Rightarrow> 0) - (case r of CCheckbox b \<Rightarrow> of_bool b | _ \<Rightarrow> 0))"

lemma compare_kind:
  "cell_kind l = k \<Longrightarrow> cell_kind r = k \<Longrightarrow> compareValues coll l r srt people = kind_cmp coll people srt k l r"
  by (cases l; cases r) (auto simp: kind_cmp_def)

lemma kind_ordering:
  assumes "ordering coll"
  shows "ordering (kind_cmp coll people srt k)"
proof (cases k)
  case VKText
  then show ?thesis using ordering_by [OF assms, of "\<lambda>l. case l of CText s \<Rightarrow> s | _ \<Rightarrow> []"] by (simp add: kind_cmp_def [abs_def])
next
  case VKNumber
  then show ?thesis by (simp add: kind_cmp_def [abs_def] ordering_diff)
next
  case VKDate
  then show ?thesis using ordering_by [OF dates.ordering_axioms, of "\<lambda>l. case l of CDate s \<Rightarrow> s | _ \<Rightarrow> []"] by (simp add: kind_cmp_def [abs_def])
next
  case VKOptions
  then show ?thesis by (simp add: kind_cmp_def [abs_def] ordering_diff)
next
  case VKPeople
  then show ?thesis
    using ordering_by [OF assms, of "\<lambda>l. case l of CPeople ids \<Rightarrow> firstPersonName ids people | _ \<Rightarrow> []"]
    by (simp add: kind_cmp_def [abs_def])
next
  case VKCheckbox
  then show ?thesis by (simp add: kind_cmp_def [abs_def] ordering_diff)
qed

definition row_step :: "(number \<Rightarrow> int) \<Rightarrow> collation \<Rightarrow> (string, person_record) omap \<Rightarrow> prepared_sort \<Rightarrow> database_row \<Rightarrow> database_row \<Rightarrow> number" where
  "row_step ld coll people srt x y =
     (let l = cellValue ld x (pso_column srt); r = cellValue ld y (pso_column srt);
          le = (pso_emptiesSort srt \<and> isEmptyValue l); re = (pso_emptiesSort srt \<and> isEmptyValue r)
      in if le \<noteq> re then (if le then 1 else -1)
         else if le then 0
         else if pso_descending srt then - compareValues coll l r srt people else compareValues coll l r srt people)"

definition row_cmp :: "(number \<Rightarrow> int) \<Rightarrow> collation \<Rightarrow> (string, person_record) omap \<Rightarrow> prepared_sort list \<Rightarrow> database_row \<Rightarrow> database_row \<Rightarrow> number" where
  "row_cmp ld coll people sorts x y = compareDecorated coll people sorts (decorateRow ld x sorts) (decorateRow ld y sorts)"

lemma row_cmp_values:
  "row_cmp ld coll people sorts x y =
    (case compare_values coll people sorts (map (\<lambda>srt. cellValue ld x (pso_column srt)) sorts)
        (map (\<lambda>srt. cellValue ld y (pso_column srt)) sorts) of
       Some c \<Rightarrow> c | None \<Rightarrow> of_nat (row_treeIndex x) - of_nat (row_treeIndex y))"
  unfolding row_cmp_def compareDecorated_def decorateRow_def decorated_row.simps by (rule refl)

lemma row_cmp_Nil: "row_cmp ld coll people [] x y = of_nat (row_treeIndex x) - of_nat (row_treeIndex y)"
  by (simp add: row_cmp_values)

lemma row_cmp_Cons:
  "row_cmp ld coll people (srt # sorts) x y =
    (if row_step ld coll people srt x y \<noteq> 0 then row_step ld coll people srt x y else row_cmp ld coll people sorts x y)"
  by (simp add: row_cmp_values row_step_def Let_def)

lemma step_ordering:
  assumes "ordering coll"
  shows "ordering (row_step ld coll people srt)"
proof -
  let ?v = "\<lambda>x. cellValue ld x (pso_column srt)"
  let ?c = "\<lambda>x y. kind_cmp coll people srt (columnValueKind (pso_column srt)) (?v x) (?v y)"
  have c: "ordering ?c" by (rule ordering_by [OF kind_ordering [OF assms]])
  then have "ordering (\<lambda>x y. if pso_descending srt then - ?c x y else ?c x y)"
    using ordering_minus [OF c] by (cases "pso_descending srt") simp_all
  from ordering_empties [OF this, of "\<lambda>x. pso_emptiesSort srt \<and> isEmptyValue (?v x)"]
  show ?thesis unfolding row_step_def [abs_def] Let_def compare_kind [OF cell_kind_column cell_kind_column] .
qed

lemma row_ordering:
  assumes "ordering coll"
  shows "ordering (row_cmp ld coll people sorts)"
proof (induction sorts)
  case Nil
  show ?case by (simp add: row_cmp_Nil [abs_def] ordering_diff)
next
  case (Cons srt sorts)
  from ordering_lex [OF step_ordering [OF assms] Cons] show ?case by (simp only: row_cmp_Cons [abs_def])
qed

lemma row_cmp_tie: "row_cmp ld coll people sorts x y = 0 \<Longrightarrow> row_treeIndex x = row_treeIndex y"
  by (induction sorts) (auto simp: row_cmp_Nil row_cmp_Cons split: if_splits)

section \<open>Inserting\<close>

lemma insertion_search_spec:
  "(\<forall>i j. i \<le> j \<longrightarrow> j < n \<longrightarrow> P j \<longrightarrow> P i) \<Longrightarrow> low \<le> high \<Longrightarrow> high \<le> n \<Longrightarrow>
    low \<le> insertion_search P low high \<and> insertion_search P low high \<le> high \<and>
    (\<forall>i. low \<le> i \<longrightarrow> i < insertion_search P low high \<longrightarrow> P i) \<and>
    (\<forall>i. insertion_search P low high \<le> i \<longrightarrow> i < high \<longrightarrow> \<not> P i)"
proof (induction P low high rule: insertion_search.induct)
  case (1 P low high)
  let ?m = "(low + high) div 2"
  show ?case
  proof (cases "low < high")
    case False
    with "1.prems" show ?thesis by (simp add: insertion_search.simps)
  next
    case True
    show ?thesis
    proof (cases "P ?m")
      case P: True
      from "1.IH"(1) [OF True refl P "1.prems"(1)] True "1.prems"(3)
      have ih: "?m + 1 \<le> insertion_search P (?m + 1) high" "insertion_search P (?m + 1) high \<le> high"
        "\<forall>i. ?m + 1 \<le> i \<longrightarrow> i < insertion_search P (?m + 1) high \<longrightarrow> P i"
        "\<forall>i. insertion_search P (?m + 1) high \<le> i \<longrightarrow> i < high \<longrightarrow> \<not> P i" by simp_all
      have m: "?m < n" using True "1.prems"(3) by linarith
      have "P i" if "i < ?m + 1" for i
      proof -
        have "i \<le> ?m" using that by simp
        with "1.prems"(1) m P show ?thesis by blast
      qed
      with ih have "\<forall>i. low \<le> i \<longrightarrow> i < insertion_search P (?m + 1) high \<longrightarrow> P i" by (meson not_less)
      with ih True P show ?thesis by (simp add: insertion_search.simps [of P low high] Let_def)
    next
      case nP: False
      from "1.IH"(2) [OF True refl nP "1.prems"(1)] True "1.prems"(3)
      have ih: "low \<le> insertion_search P low ?m" "insertion_search P low ?m \<le> ?m"
        "\<forall>i. low \<le> i \<longrightarrow> i < insertion_search P low ?m \<longrightarrow> P i"
        "\<forall>i. insertion_search P low ?m \<le> i \<longrightarrow> i < ?m \<longrightarrow> \<not> P i" by simp_all
      have "\<not> P i" if "?m \<le> i" "i < high" for i
        using "1.prems"(1,3) nP that by (meson less_le_trans)
      with ih have "\<forall>i. insertion_search P low ?m \<le> i \<longrightarrow> i < high \<longrightarrow> \<not> P i" by (meson not_less)
      with ih True nP show ?thesis by (simp add: insertion_search.simps [of P low high] Let_def)
    qed
  qed
qed

abbreviation ascending :: "(database_row \<Rightarrow> database_row \<Rightarrow> number) \<Rightarrow> database_row list \<Rightarrow> bool" where
  "ascending cmp xs \<equiv> sorted_wrt (\<lambda>x y. cmp x y < 0) xs"

lemma splice_between:
  assumes s: "ascending cmp xs" and before: "\<And>y. y \<in> set (take i xs) \<Longrightarrow> cmp y x < 0"
    and after: "\<And>y. y \<in> set (drop i xs) \<Longrightarrow> cmp x y < 0"
  shows "ascending cmp (splice_in i x xs)"
proof -
  have "ascending cmp (take i xs @ drop i xs)" using s by simp
  with before after show ?thesis by (auto simp: splice_in_def sorted_wrt_append simp del: append_take_drop_id)
qed

lemma splice_sorted:
  assumes o: "ordering cmp" and s: "ascending cmp xs" and d: "\<And>y. y \<in> set xs \<Longrightarrow> cmp y x \<noteq> 0"
  shows "ascending cmp (splice_in (insertion_search (\<lambda>m. cmp (xs ! m) x < 0) 0 (length xs)) x xs)"
proof -
  let ?i = "insertion_search (\<lambda>m. cmp (xs ! m) x < 0) 0 (length xs)"
  have mono: "\<forall>i j. i \<le> j \<longrightarrow> j < length xs \<longrightarrow> cmp (xs ! j) x < 0 \<longrightarrow> cmp (xs ! i) x < 0"
  proof (intro allI impI)
    fix i j assume ij: "i \<le> j" "j < length xs" "cmp (xs ! j) x < 0"
    then have "cmp (xs ! i) (xs ! j) \<le> 0"
      using s ordering.refl [OF o] by (cases "i = j") (auto simp: sorted_wrt_iff_nth_less less_imp_le)
    with ij(3) show "cmp (xs ! i) x < 0" using ordering.chain_less [OF o] by blast
  qed
  note spec = insertion_search_spec [OF mono le0 order_refl]
  have i: "?i \<le> length xs" "\<forall>k. k < ?i \<longrightarrow> cmp (xs ! k) x < 0" "\<forall>k. ?i \<le> k \<longrightarrow> k < length xs \<longrightarrow> \<not> cmp (xs ! k) x < 0"
    using spec le0 by blast+
  have before: "cmp y x < 0" if "y \<in> set (take ?i xs)" for y
    using that i(1,2) by (auto simp: in_set_conv_nth)
  have after: "cmp x y < 0" if "y \<in> set (drop ?i xs)" for y
  proof -
    from that obtain k where "k < length (drop ?i xs)" "drop ?i xs ! k = y" unfolding in_set_conv_nth by blast
    then have k: "y = xs ! (?i + k)" "?i + k < length xs" using i(1) by (simp_all add: add.commute)
    from k have y: "y \<in> set xs" by simp
    have "\<not> cmp y x < 0" unfolding k(1) using i(3) k(2) by (metis le_add1)
    with d [OF y] have "0 < cmp y x" by linarith
    then show ?thesis using ordering.flip [OF o, of x y] by simp
  qed
  show ?thesis by (rule splice_between [OF s before after])
qed

lemma set_splice [simp]: "set (splice_in i x xs) = insert x (set xs)"
proof -
  have "set xs = set (take i xs) \<union> set (drop i xs)" by (metis append_take_drop_id set_append)
  then show ?thesis by (auto simp: splice_in_def)
qed

lemma insertRows_sorted:
  assumes o: "ordering coll"
  shows "ascending (row_cmp ld coll people (ar_sorts ar)) xs \<Longrightarrow> distinct (map row_treeIndex ys) \<Longrightarrow>
    row_treeIndex ` set ys \<inter> row_treeIndex ` set xs = {} \<Longrightarrow>
    ascending (row_cmp ld coll people (ar_sorts ar)) (insertRows ld coll xs ys ar people) \<and>
    set (insertRows ld coll xs ys ar people) = set xs \<union> set ys"
proof (induction ys arbitrary: xs)
  case Nil
  then show ?case by (simp add: insertRows_def)
next
  case (Cons y ys)
  let ?xs = "splice_in (insertionIndex ld coll xs y (ar_sorts ar) people) y xs"
  have "row_cmp ld coll people (ar_sorts ar) x y \<noteq> 0" if "x \<in> set xs" for x
  proof
    assume "row_cmp ld coll people (ar_sorts ar) x y = 0"
    then have "row_treeIndex y = row_treeIndex x" by (rule row_cmp_tie [symmetric])
    then have "row_treeIndex y \<in> row_treeIndex ` set xs" using that by (rule image_eqI)
    with Cons.prems(3) show False by auto
  qed
  from splice_sorted [OF row_ordering [OF o] Cons.prems(1) this]
  have s: "ascending (row_cmp ld coll people (ar_sorts ar)) ?xs" by (simp add: insertionIndex_def row_cmp_def)
  have "insertRows ld coll xs (y # ys) ar people = insertRows ld coll ?xs ys ar people" by (simp add: insertRows_def)
  moreover from Cons.IH [OF s] Cons.prems
  have "ascending (row_cmp ld coll people (ar_sorts ar)) (insertRows ld coll ?xs ys ar people) \<and>
    set (insertRows ld coll ?xs ys ar people) = set ?xs \<union> set ys" by auto
  ultimately show ?case by auto
qed

section \<open>Full arrangements\<close>

definition indexed :: "database_row list \<Rightarrow> bool" where
  "indexed rows \<longleftrightarrow> map row_treeIndex rows = [0..<length rows]"

lemma indexed_nth: "indexed rows \<Longrightarrow> i < length rows \<Longrightarrow> row_treeIndex (rows ! i) = i"
  by (metis indexed_def add_0 length_map nth_map nth_upt)

lemma indexed_distinct: "indexed rows \<Longrightarrow> distinct (map row_treeIndex rows)"
  by (simp add: indexed_def)

lemma sort_rows: "sortRows ld coll rows sorts people = js_sort (row_cmp ld coll people sorts) rows"
proof -
  have "map (\<lambda>row. decorateRow ld row sorts) (js_sort (row_cmp ld coll people sorts) rows) =
      js_sort (compareDecorated coll people sorts) (map (\<lambda>row. decorateRow ld row sorts) rows)"
    by (rule js_sort_map) (simp add: row_cmp_def)
  then have "sortRows ld coll rows sorts people = map dec_row (map (\<lambda>row. decorateRow ld row sorts) (js_sort (row_cmp ld coll people sorts) rows))"
    by (simp add: sortRows_def)
  then show ?thesis by (simp add: decorateRow_def comp_def)
qed

lemma arranged_rows:
  assumes o: "ordering coll" and i: "indexed rows"
  shows "ascending (row_cmp ld coll people (ar_sorts (prepareArrangement columns view search)))
      (ad_rows (arrangeDatabase ld coll rows columns view search people)) \<and>
    set (ad_rows (arrangeDatabase ld coll rows columns view search people)) =
      {row \<in> set rows. rowPasses ld (prepareArrangement columns view search) row}"
proof -
  let ?ar = "prepareArrangement columns view search"
  let ?pass = "filter (rowPasses ld ?ar) rows"
  have d: "distinct (map row_treeIndex ?pass)" by (rule distinct_map_filter [OF indexed_distinct [OF i]])
  have rows: "ad_rows (arrangeDatabase ld coll rows columns view search people) =
      (if ar_sorts ?ar \<noteq> [] then js_sort (row_cmp ld coll people (ar_sorts ?ar)) ?pass else ?pass)"
    by (simp add: arrangeDatabase_def Let_def sort_rows)
  have "sorted_wrt (\<lambda>x y. row_treeIndex x < row_treeIndex y) rows"
    using i by (simp add: sorted_wrt_iff_nth_less indexed_nth)
  then have "ascending (row_cmp ld coll people []) ?pass"
    by (intro sorted_wrt_filter) (simp add: row_cmp_Nil)
  with ordering.sorts [OF row_ordering [OF o] d row_cmp_tie] show ?thesis by (auto simp: rows)
qed

end
