(* ===== verification/Arrange_Theorems.thy ===== *)
theory Arrange_Theorems
  imports Arrange_Laws "HOL-Library.Multiset"
begin

text \<open>
  What arranging a database promises: the incremental update of an arrangement is the full
  arrangement, and the groups of a board partition its rows.
\<close>

section \<open>Incremental arrangements\<close>

lemma changed_rows_spec:
  "changed_rows pairs removed changed = Some (removed', changed') \<Longrightarrow>
    set removed' = set removed \<union> fst ` {p \<in> set pairs. fst p \<noteq> snd p} \<and>
    changed' = changed @ map snd (filter (\<lambda>p. fst p \<noteq> snd p) pairs)"
proof (induction pairs removed changed rule: changed_rows.induct)
  case (2 before after pairs removed changed)
  show ?case
  proof (cases "before = after")
    case True
    then have "{p \<in> set ((before, after) # pairs). fst p \<noteq> snd p} = {p \<in> set pairs. fst p \<noteq> snd p}" by auto
    with "2.IH"(1) [OF True] "2.prems" True show ?thesis by simp
  next
    case False
    with "2.prems" have go: "\<not> (row_noteId before \<noteq> row_noteId after \<or> length changed \<ge> INCREMENTAL_ROW_LIMIT)"
      and rec: "changed_rows pairs (oset_add before removed) (changed @ [after]) = Some (removed', changed')"
      by (simp_all split: if_splits)
    have "{p \<in> set ((before, after) # pairs). fst p \<noteq> snd p} = insert (before, after) {p \<in> set pairs. fst p \<noteq> snd p}"
      using False by auto
    with "2.IH"(2) [OF False go rec] False show ?thesis by simp
  qed
qed simp

lemma changed_rows_parts:
  assumes len: "length old = length rows" and old: "indexed old" and rows: "indexed rows"
    and c: "changed_rows (zip old rows) [] [] = Some (removed, changed)"
  shows "set rows = (set old - set removed) \<union> set changed" "distinct (map row_treeIndex changed)"
    "row_treeIndex ` set changed \<inter> row_treeIndex ` (set old - set removed) = {}"
proof -
  from changed_rows_spec [OF c] have
    r: "set removed = fst ` {p \<in> set (zip old rows). fst p \<noteq> snd p}" and
    ch: "changed = map snd (filter (\<lambda>p. fst p \<noteq> snd p) (zip old rows))" by simp_all
  have rem: "old ! i \<in> set removed \<longleftrightarrow> old ! i \<noteq> rows ! i" if "i < length rows" for i
  proof
    assume "old ! i \<in> set removed"
    then obtain j where j: "j < length rows" "old ! j = old ! i" "old ! j \<noteq> rows ! j"
      unfolding r using len by (auto simp: in_set_zip)
    then have "j = i" using indexed_nth [OF old] that len by metis
    with j show "old ! i \<noteq> rows ! i" by simp
  next
    assume "old ! i \<noteq> rows ! i"
    moreover have "(old ! i, rows ! i) \<in> set (zip old rows)" using that len by (auto simp: in_set_zip)
    ultimately show "old ! i \<in> set removed" unfolding r by force
  qed
  have cha: "x \<in> set changed \<longleftrightarrow> (\<exists>i < length rows. x = rows ! i \<and> old ! i \<noteq> rows ! i)" for x
  proof
    assume "x \<in> set changed"
    then obtain p where "p \<in> set (zip old rows)" "fst p \<noteq> snd p" "x = snd p" unfolding ch by auto
    then show "\<exists>i < length rows. x = rows ! i \<and> old ! i \<noteq> rows ! i" by (auto simp: in_set_zip)
  next
    assume "\<exists>i < length rows. x = rows ! i \<and> old ! i \<noteq> rows ! i"
    then obtain i where i: "i < length rows" "x = rows ! i" "old ! i \<noteq> rows ! i" by blast
    then have "(old ! i, rows ! i) \<in> set (filter (\<lambda>p. fst p \<noteq> snd p) (zip old rows))" using len by (auto simp: in_set_zip)
    then have "snd (old ! i, rows ! i) \<in> set changed" unfolding ch set_map by (rule imageI)
    with i show "x \<in> set changed" by simp
  qed
  show "set rows = (set old - set removed) \<union> set changed"
  proof (intro set_eqI iffI)
    fix x assume "x \<in> set rows"
    then obtain i where i: "i < length rows" "x = rows ! i" by (auto simp: in_set_conv_nth)
    then show "x \<in> (set old - set removed) \<union> set changed"
      using rem [OF i(1)] cha len by (cases "old ! i = rows ! i") (auto simp: in_set_conv_nth)
  next
    fix x assume "x \<in> (set old - set removed) \<union> set changed"
    then consider i where "i < length rows" "x = old ! i" "old ! i \<notin> set removed" | i where "i < length rows" "x = rows ! i"
      using cha len by (auto simp: in_set_conv_nth)
    then show "x \<in> set rows" using rem by cases (auto simp: in_set_conv_nth)
  qed
  have "map (\<lambda>p. row_treeIndex (snd p)) (zip old rows) = map row_treeIndex (map snd (zip old rows))" by simp
  also have "map snd (zip old rows) = rows" using len by simp
  finally have "distinct (map (\<lambda>p. row_treeIndex (snd p)) (zip old rows))"
    using indexed_distinct [OF rows] by (simp only:)
  from distinct_map_filter [OF this] show "distinct (map row_treeIndex changed)" by (simp add: ch comp_def)
  have "row_treeIndex x \<noteq> row_treeIndex y" if x: "x \<in> set changed" and y: "y \<in> set old" "y \<notin> set removed" for x y
  proof -
    from x cha obtain i where i: "i < length rows" "x = rows ! i" "old ! i \<noteq> rows ! i" by blast
    from y len obtain j where j: "j < length rows" "y = old ! j" by (auto simp: in_set_conv_nth)
    have "i \<noteq> j" using rem [OF i(1)] i(3) j y(2) by blast
    then show ?thesis using i j len indexed_nth [OF old] indexed_nth [OF rows] by simp
  qed
  then show "row_treeIndex ` set changed \<inter> row_treeIndex ` (set old - set removed) = {}" by blast
qed

lemma group_bucket: "omap_getd [] (group_buckets ld column rows) k =
    filter (\<lambda>row. groupKeyOf ld row column (groupKeys column) = k) rows"
  by (simp add: group_buckets_def group_by_get)

text \<open>A strictly sorted list without the rows that left and with those that arrived.\<close>

lemma merged_unique:
  assumes o: "ordering coll" and s: "ascending (row_cmp ld coll people (ar_sorts ar)) xs"
    and t: "ascending (row_cmp ld coll people (ar_sorts ar)) ys" and d: "distinct (map row_treeIndex arriving)"
    and disjoint: "row_treeIndex ` set arriving \<inter> row_treeIndex ` (set xs - set removed) = {}"
    and eq: "set ys = (set xs - set removed) \<union> set arriving"
  shows "insertRows ld coll (withoutRows xs removed) arriving ar people = ys"
proof -
  have "set (withoutRows xs removed) = set xs - set removed" by (auto simp: withoutRows_def)
  moreover have "ascending (row_cmp ld coll people (ar_sorts ar)) (withoutRows xs removed)"
    unfolding withoutRows_def by (rule sorted_wrt_filter [OF s])
  ultimately have "ascending (row_cmp ld coll people (ar_sorts ar)) (insertRows ld coll (withoutRows xs removed) arriving ar people)"
    "set (insertRows ld coll (withoutRows xs removed) arriving ar people) = set ys"
    using insertRows_sorted [OF o, of ld people ar "withoutRows xs removed" arriving] d disjoint eq by auto
  then show ?thesis using ordering.ascending_unique [OF row_ordering [OF o]] t by blast
qed

lemma nothing_changed:
  assumes c: "changed_rows (zip old rows) [] [] = Some (removed, [])" and len: "length old = length rows"
  shows "old = rows"
proof (rule nth_equalityI [OF len])
  from changed_rows_spec [OF c] have same: "\<forall>p \<in> set (zip old rows). fst p = snd p" by (simp add: filter_empty_conv)
  fix i assume "i < length old"
  then have "(old ! i, rows ! i) \<in> set (zip old rows)" using len by (auto simp: in_set_zip)
  with same show "old ! i = rows ! i" by fastforce
qed

text \<open>Regrouping one group, and all groups of a board.\<close>

lemma regroup_merged:
  assumes o: "ordering coll" and A: "ascending (row_cmp ld coll people (ar_sorts ar)) A"
    and B: "ascending (row_cmp ld coll people (ar_sorts ar)) B" and d: "distinct (map row_treeIndex pass)"
    and disjoint: "row_treeIndex ` set pass \<inter> row_treeIndex ` (set A - set removed) = {}"
    and sub: "set B = (set A - set removed) \<union> set pass"
  shows "regroup ld coll ar people removed (group_buckets ld column pass)
      \<lparr>dg_key = k, dg_label = label, dg_color = color, dg_rows = omap_getd [] (group_buckets ld column A) k\<rparr> =
      \<lparr>dg_key = k, dg_label = label, dg_color = color, dg_rows = omap_getd [] (group_buckets ld column B) k\<rparr>"
proof -
  let ?K = "\<lambda>row. groupKeyOf ld row column (groupKeys column) = k"
  have m: "insertRows ld coll (withoutRows (filter ?K A) removed) (filter ?K pass) ar people = filter ?K B"
  proof (rule merged_unique [OF o])
    show "ascending (row_cmp ld coll people (ar_sorts ar)) (filter ?K A)"
      "ascending (row_cmp ld coll people (ar_sorts ar)) (filter ?K B)" using A B by (simp_all add: sorted_wrt_filter)
    show "distinct (map row_treeIndex (filter ?K pass))" by (rule distinct_map_filter [OF d])
    show "row_treeIndex ` set (filter ?K pass) \<inter> row_treeIndex ` (set (filter ?K A) - set removed) = {}"
      using disjoint by auto
    show "set (filter ?K B) = (set (filter ?K A) - set removed) \<union> set (filter ?K pass)" using sub by auto
  qed
  have "filter ?K A = filter ?K B" if "\<not> list_ex (\<lambda>row. row \<in> set removed) (filter ?K A)" "filter ?K pass = []"
  proof -
    have "withoutRows (filter ?K A) removed = filter ?K A" using that(1)
      unfolding withoutRows_def by (intro filter_True) (auto simp: list_ex_iff)
    with m that(2) show ?thesis by (simp add: insertRows_def)
  qed
  then show ?thesis unfolding regroup_def Let_def database_group.simps group_bucket m by simp
qed

lemma regroup_board:
  assumes "ordering coll" and "ascending (row_cmp ld coll people (ar_sorts ar)) A"
    and "ascending (row_cmp ld coll people (ar_sorts ar)) B" and "distinct (map row_treeIndex pass)"
    and "row_treeIndex ` set pass \<inter> row_treeIndex ` (set A - set removed) = {}"
    and "set B = (set A - set removed) \<union> set pass"
  shows "map (regroup ld coll ar people removed (group_buckets ld column pass)) (groupRows ld A column) = groupRows ld B column"
  by (simp add: groupRows_def Let_def regroup_merged [OF assms] case_prod_unfold)

text \<open>A board arranged from the rows \<open>A\<close> becomes the one arranged from \<open>B\<close>.\<close>

lemma rearrange_changed:
  assumes o: "ordering coll" and old: "indexed old" and new: "indexed rows" and len: "length old = length rows"
    and c: "changed_rows (zip old rows) [] [] = Some (removed, changed)" and nonempty: "changed \<noteq> []"
  shows "rearrangeDatabase ld coll \<lparr>as_rows = old, as_columns = columns, as_view = view, as_search = search, as_people = people,
      as_arranged = arrangeDatabase ld coll old columns view search people\<rparr> rows columns view search people =
    arrangeDatabase ld coll rows columns view search people"
proof -
  let ?ar = "prepareArrangement columns view search"
  let ?pass = "filter (rowPasses ld ?ar) changed"
  let ?arranged = "\<lambda>rows. arrangeDatabase ld coll rows columns view search people"
  note parts = changed_rows_parts [OF len old new c]
  note A = arranged_rows [OF o old, where ld = ld and people = people and columns = columns and view = view and search = search]
  note B = arranged_rows [OF o new, where ld = ld and people = people and columns = columns and view = view and search = search]
  have sub: "set (ad_rows (?arranged rows)) = (set (ad_rows (?arranged old)) - set removed) \<union> set ?pass"
    using A B parts(1) by auto
  have disjoint: "row_treeIndex ` set ?pass \<inter> row_treeIndex ` (set (ad_rows (?arranged old)) - set removed) = {}"
    using parts(3) A by auto
  have d: "distinct (map row_treeIndex ?pass)" by (rule distinct_map_filter [OF parts(2)])
  note merge = o conjunct1 [OF A] conjunct1 [OF B] d disjoint sub
  have "?arranged rows = \<lparr>ad_rows = ad_rows (?arranged rows),
      ad_groups = map_option (groupRows ld (ad_rows (?arranged rows))) (ar_groupColumn ?ar), ad_inactiveFilters = ar_inactiveFilters ?ar\<rparr>" for rows
    by (simp add: arrangeDatabase_def Let_def)
  note parts_of = this
  have groups: "ad_groups (?arranged old) = map_option (groupRows ld (ad_rows (?arranged old))) (ar_groupColumn ?ar)"
    "ad_inactiveFilters (?arranged old) = ar_inactiveFilters ?ar" by (simp_all add: arrangeDatabase_def Let_def)
  have "rearrangeDatabase ld coll \<lparr>as_rows = old, as_columns = columns, as_view = view, as_search = search, as_people = people,
      as_arranged = ?arranged old\<rparr> rows columns view search people =
    \<lparr>ad_rows = insertRows ld coll (withoutRows (ad_rows (?arranged old)) removed) ?pass ?ar people,
     ad_groups = (case (ar_groupColumn ?ar, ad_groups (?arranged old)) of
       (Some column, Some groups) \<Rightarrow> Some (map (regroup ld coll ?ar people removed (group_buckets ld column ?pass)) groups)
     | _ \<Rightarrow> None),
     ad_inactiveFilters = ad_inactiveFilters (?arranged old)\<rparr>"
    unfolding rearrangeDatabase_def arranged_snapshot.simps c option.case prod.case if_not_P [OF nonempty] Let_def using len by simp
  also have "\<dots> = ?arranged rows"
    by (subst parts_of [of rows], cases "ar_groupColumn ?ar")
      (simp_all only: merged_unique [OF o conjunct1 [OF A] conjunct1 [OF B] d disjoint sub] groups option.case option.map prod.case regroup_board [OF merge])
  finally show ?thesis .
qed

text \<open>C15. The incremental update of an arranged database, which refilters and reinserts by binary search only the changed rows and regroups only the touched board groups, gives exactly what arranging from scratch gives, for any total and transitive collation.\<close>

theorem rearrange_is_arrange:
  assumes o: "ordering coll" and old: "indexed (as_rows previous)" and new: "indexed rows"
    and prev: "as_arranged previous = arrangeDatabase ld coll (as_rows previous) (as_columns previous) (as_view previous)
      (as_search previous) (as_people previous)"
  shows "rearrangeDatabase ld coll previous rows columns view search people =
    arrangeDatabase ld coll rows columns view search people"
proof (cases "as_columns previous = columns \<and> as_view previous = view \<and> as_search previous = search \<and>
    as_people previous = people \<and> length (as_rows previous) = length rows \<and>
    changed_rows (zip (as_rows previous) rows) [] [] \<noteq> None")
  case False
  then show ?thesis
    by (cases "changed_rows (zip (as_rows previous) rows) [] [] = None") (auto simp: rearrangeDatabase_def)
next
  case True
  then obtain removed changed where c: "changed_rows (zip (as_rows previous) rows) [] [] = Some (removed, changed)" by auto
  have p: "previous = \<lparr>as_rows = as_rows previous, as_columns = columns, as_view = view, as_search = search, as_people = people,
      as_arranged = arrangeDatabase ld coll (as_rows previous) columns view search people\<rparr>"
    using True prev by (cases previous) simp
  show ?thesis
  proof (cases "changed = []")
    case same: True
    with c nothing_changed [of "as_rows previous" rows removed] True prev show ?thesis by (simp add: rearrangeDatabase_def)
  next
    case False
    from rearrange_changed [OF o old new _ c False] True show ?thesis by (subst p) simp
  qed
qed

section \<open>Board groups\<close>

lemma partition_mset:
  "distinct ks \<Longrightarrow> mset (concat (map (\<lambda>k. filter (\<lambda>r. f r = k) rows) ks)) = mset (filter (\<lambda>r. f r \<in> set ks) rows)"
proof (induction ks)
  case (Cons k ks)
  have "mset (filter (\<lambda>r. f r = k) rows) + mset (filter (\<lambda>r. f r \<in> set ks) rows) = mset (filter (\<lambda>r. f r = k \<or> f r \<in> set ks) rows)"
    using Cons.prems by (induction rows) auto
  with Cons show ?case by simp
qed simp

lemma shell_keys:
  "map fst (groupShells column) =
     (if dc_type column = Some PCheckbox then [Some UNCHECKED_KEY, Some CHECKED_KEY]
      else None # map Some (map do_key (dc_options column)))"
  by (simp add: groupShells_def comp_def)

lemma group_key_known: "groupKeyOf ld row column (groupKeys column) \<in> set (map fst (groupShells column))"
proof (cases "dc_type column = Some PCheckbox")
  case True
  then show ?thesis by (simp add: shell_keys groupKeyOf_def Let_def)
next
  case False
  then show ?thesis
    by (auto simp: shell_keys groupKeyOf_def Let_def groupKeys_def oset_from_def oset_fold_set
      split: cell_value.split list.split)
qed

theorem board_partitions_rows:
  assumes "distinct (map do_key (dc_options column))"
  shows "mset (concat (map dg_rows (groupRows ld rows column))) = mset rows \<and>
    distinct (map dg_key (groupRows ld rows column))"
proof -
  have d: "distinct (map fst (groupShells column))"
    using assms by (auto simp: shell_keys UNCHECKED_KEY_def CHECKED_KEY_def distinct_map comp_inj_on)
  have keys: "map dg_key (groupRows ld rows column) = map fst (groupShells column)"
    by (simp add: groupRows_def Let_def comp_def case_prod_unfold)
  have "map dg_rows (groupRows ld rows column) =
      map (\<lambda>k. filter (\<lambda>row. groupKeyOf ld row column (groupKeys column) = k) rows) (map fst (groupShells column))"
    by (simp add: groupRows_def Let_def comp_def case_prod_unfold group_bucket)
  with partition_mset [OF d, of "\<lambda>row. groupKeyOf ld row column (groupKeys column)" rows]
  have "mset (concat (map dg_rows (groupRows ld rows column))) = mset rows" by (simp only: group_key_known) simp
  with keys d show ?thesis by simp
qed

section \<open>Samples\<close>

definition sample_view :: database_view where
  "sample_view = \<lparr>dv_layout = LBoard, dv_subfolders = True, dv_order = [], dv_hidden = [],
     dv_sorts = [\<lparr>ds_column = ''p:state'', ds_direction = Desc\<rparr>], dv_filters = [], dv_groupBy = Some ''p:state'', dv_updatedAt = 0\<rparr>"

definition sample_arranged :: arranged_snapshot where
  "sample_arranged = \<lparr>as_rows = sample_rows, as_columns = discoverColumns sample_rows False, as_view = sample_view, as_search = [],
     as_people = [], as_arranged = arrangeDatabase (\<lambda>_. 0) unit_order sample_rows (discoverColumns sample_rows False) sample_view [] []\<rparr>"

text \<open>The second note takes the second option: its card moves to that group and sorts first.\<close>

theorem rearrange_is_arrange_witness:
  "let rows = [sample_row ''a'' 0 ''State'' (Some ''1''), sample_row ''b'' 1 '' state'' (Some ''2'')];
       arranged = rearrangeDatabase (\<lambda>_. 0) unit_order sample_arranged rows (discoverColumns sample_rows False) sample_view [] []
   in arranged = arrangeDatabase (\<lambda>_. 0) unit_order rows (discoverColumns sample_rows False) sample_view [] [] \<and>
      map row_noteId (ad_rows arranged) = [''b'', ''a''] \<and>
      map_option (map (\<lambda>g. (dg_key g, map row_noteId (dg_rows g)))) (ad_groups arranged) =
        Some [(None, []), (Some ''open'', [''a'']), (Some ''done'', [''b''])]"
proof -
  let ?new = "[sample_row ''a'' 0 ''State'' (Some ''1''), sample_row ''b'' 1 '' state'' (Some ''2'')]"
  let ?columns = "discoverColumns sample_rows False"
  have i: "indexed (as_rows sample_arranged)" "indexed ?new"
    by (simp_all add: sample_arranged_def indexed_def sample_rows_def sample_row_def)
  have p: "as_arranged sample_arranged = arrangeDatabase (\<lambda>_. 0) unit_order (as_rows sample_arranged) (as_columns sample_arranged)
      (as_view sample_arranged) (as_search sample_arranged) (as_people sample_arranged)"
    by (simp add: sample_arranged_def)
  have "map row_noteId (ad_rows (arrangeDatabase (\<lambda>_. 0) unit_order ?new ?columns sample_view [] [])) = [''b'', ''a''] \<and>
    map_option (map (\<lambda>g. (dg_key g, map row_noteId (dg_rows g)))) (ad_groups (arrangeDatabase (\<lambda>_. 0) unit_order ?new ?columns sample_view [] [])) =
      Some [(None, []), (Some ''open'', [''a'']), (Some ''done'', [''b''])]" by code_simp
  then show ?thesis
    unfolding Let_def rearrange_is_arrange [OF units.ordering_axioms i p] by blast
qed

theorem board_partitions_rows_witness:
  "mset (concat (map dg_rows (groupRows (\<lambda>_. 0) sample_rows
     \<lparr>dc_key = ''p:state'', dc_name = ''State'', dc_type = Some PSelect, dc_options =
       [\<lparr>do_key = ''open'', do_label = ''Open'', do_color = CRed\<rparr>, \<lparr>do_key = ''done'', do_label = ''Done'', do_color = CBlue\<rparr>]\<rparr>))) = mset sample_rows"
  by (rule conjunct1 [OF board_partitions_rows]) simp

end
