(* ===== verification/Database_Writes.thy ===== *)
theory Database_Writes
  imports Database_Columns Database_Config Store_Reduce
begin

text \<open>
  \<open>database/writes.ts\<close>: the operations that set a cell of a property database or create a note in
  it. A plan is built from the store's state and validated before it is posted. An id factory is a
  stateful source of strings; an error that the code does not catch is \<open>Inl\<close> of its issues.
  Two properties have the same JSON text exactly when they are equal.
\<close>

section \<open>Inputs and plans\<close>

datatype cell_input =
    InputValue property_value
  | InputLabels "string list"

datatype database_write =
    Ready "workspace_operation list"
  | Refused string

record cell_preset =
  cp_column :: database_column
  cp_input :: cell_input

datatype built_property =
    Built "note_property option"
  | NotBuilt string

definition NOTE_PROPERTY_COLORS :: "property_color list" where
  "NOTE_PROPERTY_COLORS = [CGray, CStone, CAmber, CGreen, CBlue, CTeal, CRose, CRed]"

definition column_type :: "database_column \<Rightarrow> property_type" where
  "column_type column = (case dc_type column of Some t \<Rightarrow> t | None \<Rightarrow> PText)"

section \<open>Options\<close>

definition optionColor :: "database_column \<Rightarrow> property_option list \<Rightarrow> string \<Rightarrow> property_color" where
  "optionColor column options label =
     (case find (\<lambda>opt. do_key opt = foldOptionLabel label) (dc_options column) of
        Some known \<Rightarrow> do_color known
      | None \<Rightarrow>
          let used = map do_color (dc_options column) @ map o_color options
          in case find (\<lambda>color. color \<notin> set used) NOTE_PROPERTY_COLORS of Some color \<Rightarrow> color | None \<Rightarrow> CGray)"

definition option_for :: "property_option list \<Rightarrow> string \<Rightarrow> property_option option" where
  "option_for options wanted =
     (case find (\<lambda>entry. o_label entry = wanted) options of
        Some opt \<Rightarrow> Some opt
      | None \<Rightarrow> find (\<lambda>entry. foldOptionLabel (o_label entry) = foldOptionLabel wanted) options)"

text \<open>The loop over the labels, with the options and the chosen ids so far; \<open>None\<close> when the options
  are full.\<close>

fun apply_labels :: "database_column \<Rightarrow> 's id_factory \<Rightarrow> 's \<Rightarrow> string list \<Rightarrow> property_option list \<Rightarrow> string list \<Rightarrow>
    (property_option list \<times> string list) option \<times> 's" where
  "apply_labels column createId st [] options ids = (Some (options, ids), st)"
| "apply_labels column createId st (label # labels) options ids =
     (let wanted = js_trim label
      in if wanted = [] then apply_labels column createId st labels options ids
         else case option_for options wanted of
             Some opt \<Rightarrow> apply_labels column createId st labels options (oset_add (o_id opt) ids)
           | None \<Rightarrow>
               if length options \<ge> MAX_PROPERTY_OPTIONS then (None, st)
               else (let (i, st') = createId st OptionId;
                         opt = \<lparr>o_id = i, o_label = wanted, o_color = optionColor column options wanted\<rparr>
                     in apply_labels column createId st' labels (options @ [opt]) (oset_add i ids)))"

definition applyInput :: "note_property \<Rightarrow> database_column \<Rightarrow> cell_input \<Rightarrow> 's id_factory \<Rightarrow> 's \<Rightarrow> built_property \<times> 's" where
  "applyInput property column input createId st =
     (case input of
        InputValue v \<Rightarrow>
          if value_type v \<noteq> column_type column
          then (NotBuilt (dc_name column @ '' expects a different value.''), st)
          else (Built (Some (with_value property v)), st)
      | InputLabels labels \<Rightarrow>
          if column_type column \<noteq> PSelect \<and> column_type column \<noteq> PMultiSelect
          then (NotBuilt (dc_name column @ '' does not have options.''), st)
          else (case apply_labels column createId st labels (p_options property) [] of
              (None, st') \<Rightarrow>
                (NotBuilt (dc_name column @ '' already has '' @ nat_digits MAX_PROPERTY_OPTIONS @ '' options in this note.''), st')
            | (Some (options, ids), st') \<Rightarrow>
                let v = (if column_type column = PSelect then VSelect (case ids of [] \<Rightarrow> None | i # _ \<Rightarrow> Some i)
                         else VMultiSelect ids)
                in (Built (Some (with_value (with_options property options) v)), st')))"

section \<open>Building a property\<close>

fun fresh_column_options :: "'s id_factory \<Rightarrow> 's \<Rightarrow> database_option list \<Rightarrow> property_option list \<times> 's" where
  "fresh_column_options createId st [] = ([], st)"
| "fresh_column_options createId st (opt # opts) =
     (let (i, st') = createId st OptionId; (rest, st'') = fresh_column_options createId st' opts
      in (\<lparr>o_id = i, o_label = do_label opt, o_color = do_color opt\<rparr> # rest, st''))"

definition create_base :: "string \<Rightarrow> note_properties \<Rightarrow> database_column \<Rightarrow> 's id_factory \<Rightarrow> 's \<Rightarrow> note_property validated \<times> 's" where
  "create_base noteId properties column createId st =
     (case createNoteProperty noteId (column_type column) createId st (Some (dc_name column)) (of_nat (length properties)) of
        (Inl e, st') \<Rightarrow> (Inl e, st')
      | (Inr base, st') \<Rightarrow>
          if column_type column = PSelect \<or> column_type column = PMultiSelect
          then (let (options, st'') = fresh_column_options createId st' (take MAX_PROPERTY_OPTIONS (dc_options column))
                in (Inr (with_options base options), st''))
          else (Inr base, st'))"

definition unless_same :: "note_property option \<Rightarrow> built_property \<Rightarrow> built_property" where
  "unless_same existing built = (if existing \<noteq> None \<and> built = Built existing then Built None else built)"

definition buildProperty :: "string \<Rightarrow> note_properties \<Rightarrow> database_column \<Rightarrow> cell_input \<Rightarrow> 's id_factory \<Rightarrow> 's \<Rightarrow>
    built_property validated \<times> 's" where
  "buildProperty noteId properties column input createId st =
     (let existing = find (\<lambda>p. propertyColumnKey (p_name p) = dc_key column) properties
      in case existing of
           Some p \<Rightarrow>
             if Some (p_type p) \<noteq> dc_type column
             then (Inr (NotBuilt (dc_name column @ '' has a different type in this note. Open the note to change it.'')), st)
             else (let (built, st') = applyInput p column input createId st in (Inr (unless_same existing built), st'))
         | None \<Rightarrow>
             if length properties \<ge> MAX_NOTE_PROPERTIES
             then (Inr (NotBuilt (''This note already has '' @ nat_digits MAX_NOTE_PROPERTIES @ '' properties.'')), st)
             else (case create_base noteId properties column createId st of
                 (Inl e, st') \<Rightarrow> (Inl e, st')
               | (Inr base, st') \<Rightarrow> map_prod Inr id (applyInput base column input createId st')))"

definition personContext :: "renderer_state \<Rightarrow> string list option" where
  "personContext s = Some (omap_keys (st_people s))"

text \<open>The messages of a validation error, joined, when the property is not valid.\<close>

definition validate :: "note_properties \<Rightarrow> note_property \<Rightarrow> renderer_state \<Rightarrow> string option" where
  "validate properties property s =
     (case upsertNoteProperty properties property (personContext s) of
        Inl issues \<Rightarrow> Some (join ''; '' issues)
      | Inr _ \<Rightarrow> None)"

section \<open>Plans\<close>

definition planCellWrite :: "renderer_state \<Rightarrow> string \<Rightarrow> database_column \<Rightarrow> cell_input \<Rightarrow> number \<Rightarrow> 's id_factory \<Rightarrow> 's \<Rightarrow>
    database_write validated \<times> 's" where
  "planCellWrite s noteId column input now createId st =
     (if map_option nr_kind (omap_get (st_nodes s) noteId) \<noteq> Some KNote
      then (Inr (Refused ''This note is in the trash or no longer exists.''), st)
      else (let properties = omap_getd [] (st_propertiesByNoteId s) noteId
            in case buildProperty noteId properties column input createId st of
                 (Inl e, st') \<Rightarrow> (Inl e, st')
               | (Inr (NotBuilt message), st') \<Rightarrow> (Inr (Refused message), st')
               | (Inr (Built None), st') \<Rightarrow> (Inr (Ready []), st')
               | (Inr (Built (Some property)), st') \<Rightarrow>
                   (Inr (case validate properties property s of
                       Some message \<Rightarrow> Refused message
                     | None \<Rightarrow> Ready [SetNoteProperty property now]), st')))"

text \<open>The loop over the presets, with the properties and operations so far.\<close>

fun plan_presets :: "renderer_state \<Rightarrow> string \<Rightarrow> number \<Rightarrow> 's id_factory \<Rightarrow> 's \<Rightarrow> cell_preset list \<Rightarrow> note_properties \<Rightarrow>
    workspace_operation list \<Rightarrow> database_write validated \<times> 's" where
  "plan_presets s noteId now createId st [] properties operations = (Inr (Ready operations), st)"
| "plan_presets s noteId now createId st (preset # presets) properties operations =
     (case buildProperty noteId properties (cp_column preset) (cp_input preset) createId st of
        (Inl e, st') \<Rightarrow> (Inl e, st')
      | (Inr (NotBuilt message), st') \<Rightarrow> (Inr (Refused message), st')
      | (Inr (Built None), st') \<Rightarrow> plan_presets s noteId now createId st' presets properties operations
      | (Inr (Built (Some property)), st') \<Rightarrow>
          (case validate properties property s of
             Some message \<Rightarrow> (Inr (Refused message), st')
           | None \<Rightarrow>
               (case upsertNoteProperty properties property (personContext s) of
                  Inl e \<Rightarrow> (Inl e, st')
                | Inr properties' \<Rightarrow>
                    plan_presets s noteId now createId st' presets properties' (operations @ [SetNoteProperty property now]))))"

definition planDatabaseNote :: "renderer_state \<Rightarrow> string option \<Rightarrow> string \<Rightarrow> json \<Rightarrow> string \<Rightarrow> cell_preset list \<Rightarrow> number \<Rightarrow>
    string \<Rightarrow> 's id_factory \<Rightarrow> 's \<Rightarrow> database_write validated \<times> 's" where
  "planDatabaseNote s folderId title documentJson markdown presets now noteId createId st =
     (if databaseScopeStatus s folderId \<noteq> ScopeReady
      then (Inr (Refused ''This folder is in the trash or no longer exists.''), st)
      else (case plan_presets s noteId now createId st presets []
                [CreateNote noteId title \<lparr>pl_parentId = folderId, pl_position = Last\<rparr> documentJson markdown now] of
          (Inr (Ready operations), st') \<Rightarrow> (Inr (Ready (operations @ [SetActiveNote (st_activeNoteId s)])), st')
        | r \<Rightarrow> r))"

section \<open>Presets\<close>

definition groupInput :: "database_column \<Rightarrow> string option \<Rightarrow> cell_input option" where
  "groupInput column groupKey =
     (if dc_type column = Some PCheckbox then Some (InputValue (VCheckbox (groupKey = Some ''checked'')))
      else if dc_type column \<noteq> Some PSelect then None
      else (case groupKey of
          None \<Rightarrow> Some (InputLabels [])
        | Some k \<Rightarrow> map_option (\<lambda>opt. InputLabels [do_label opt]) (find (\<lambda>entry. do_key entry = k) (dc_options column))))"

definition filterInput :: "database_column \<Rightarrow> filter_operator \<Rightarrow> string \<Rightarrow> cell_input option" where
  "filterInput column operator v =
     (if dc_type column = Some PCheckbox
      then if operator \<noteq> OpChecked then None else Some (InputValue (VCheckbox True))
      else if dc_type column \<noteq> Some PSelect \<and> dc_type column \<noteq> Some PMultiSelect then None
      else if operator \<noteq> OpIs \<and> operator \<noteq> OpContains then None
      else map_option (\<lambda>opt. InputLabels [do_label opt]) (find (\<lambda>entry. do_key entry = foldOptionLabel v) (dc_options column)))"

definition preset_filter :: "(string, database_column) omap \<Rightarrow> database_filter \<Rightarrow> (string, cell_preset) omap \<Rightarrow> (string, cell_preset) omap" where
  "preset_filter byKey f presets =
     (case omap_get byKey (df_column f) of
        None \<Rightarrow> presets
      | Some column \<Rightarrow>
          if dc_type column = None then presets
          else (case filterInput column (df_operator f) (df_value f) of
              None \<Rightarrow> presets
            | Some input \<Rightarrow> omap_set (dc_key column) \<lparr>cp_column = column, cp_input = input\<rparr> presets))"

text \<open>\<open>groupKey\<close> is \<open>None\<close> where the code passes \<open>undefined\<close>.\<close>

definition impliedPresets :: "database_column list \<Rightarrow> database_view \<Rightarrow> string option option \<Rightarrow> cell_preset list" where
  "impliedPresets columns view groupKey =
     (let byKey = omap_from dc_key (\<lambda>c. c) columns;
          presets = fold (preset_filter byKey) (dv_filters view) [];
          groupColumn = (case dv_groupBy view of None \<Rightarrow> None | Some k \<Rightarrow> omap_get byKey k)
      in omap_values
           (case (groupKey, groupColumn) of
              (Some k, Some column) \<Rightarrow>
                if dc_type column = None then presets
                else (case groupInput column k of
                    None \<Rightarrow> presets
                  | Some input \<Rightarrow> omap_set (dc_key column) \<lparr>cp_column = column, cp_input = input\<rparr> presets)
            | _ \<Rightarrow> presets))"

end
