(* ===== verification/Write_Theorems.thy ===== *)
theory Write_Theorems
  imports Database_Writes Database_Arrange Column_Theorems Store_Theorems
begin

text \<open>
  What a planned write promises: the store accepts it, and afterwards the cell holds the input, so a
  card dropped on a board group lands in that group.
\<close>

section \<open>The property behind a cell\<close>

lemma property_first: "omap_get (property_lookup ps) k = find (\<lambda>p. prop_key p = k) ps"
proof -
  have "omap_get (fold (\<lambda>p m. if omap_has m (propertyColumnKey (p_name p)) then m else omap_set (propertyColumnKey (p_name p)) p m) ps m) k =
      (case omap_get m k of Some p \<Rightarrow> Some p | None \<Rightarrow> find (\<lambda>p. prop_key p = k) ps)" for m
    by (induction ps arbitrary: m) (auto simp: omap_has_get split: option.splits)
  then show ?thesis by (simp add: property_lookup_def)
qed

lemma typed_property:
  "find (\<lambda>p. prop_key p = dc_key column) (row_properties row) = Some p \<Longrightarrow> dc_type column = Some (p_type p) \<Longrightarrow>
    typedRowProperty row column = Some p"
  by (simp add: typedRowProperty_def rowProperty_def property_first)

section \<open>Labels\<close>

definition label_key :: "property_option list \<Rightarrow> string \<Rightarrow> string list" where
  "label_key options i = (case find (\<lambda>opt. o_id opt = i) options of None \<Rightarrow> [] | Some opt \<Rightarrow> [foldOptionLabel (o_label opt)])"

definition wanted_keys :: "string list \<Rightarrow> string list" where
  "wanted_keys labels = map foldOptionLabel (filter (\<lambda>s. s \<noteq> []) (map js_trim labels))"

lemma wanted_keys_simps [simp]:
  "wanted_keys [] = []"
  "wanted_keys (label # labels) =
     (if js_trim label = [] then wanted_keys labels else foldOptionLabel (js_trim label) # wanted_keys labels)"
  by (simp_all add: wanted_keys_def)

lemma label_key_member:
  "distinct (map o_id options) \<Longrightarrow> opt \<in> set options \<Longrightarrow> label_key options (o_id opt) = [foldOptionLabel (o_label opt)]"
proof (induction options)
  case (Cons x options)
  then show ?case by (cases "o_id x = o_id opt") (auto simp: label_key_def intro: rev_image_eqI)
qed simp

lemma option_for_Some: "option_for options s = Some opt \<Longrightarrow> opt \<in> set options \<and> foldOptionLabel (o_label opt) = foldOptionLabel s"
  by (auto simp: option_for_def find_Some_iff split: option.splits)

lemma apply_label:
  assumes "apply_labels column createId st (label # labels) options ids = (Some r, st')"
  shows "js_trim label = [] \<and> apply_labels column createId st labels options ids = (Some r, st') \<or>
    js_trim label \<noteq> [] \<and> (\<exists>opt st1 options1. opt \<in> set options1 \<and> foldOptionLabel (o_label opt) = foldOptionLabel (js_trim label) \<and>
      (\<exists>xs. options1 = options @ xs) \<and> apply_labels column createId st1 labels options1 (oset_add (o_id opt) ids) = (Some r, st'))"
proof (cases "js_trim label = []")
  case False
  show ?thesis
  proof (cases "option_for options (js_trim label)")
    case None
    obtain i st1 where i: "createId st OptionId = (i, st1)" by force
    let ?opt = "\<lparr>o_id = i, o_label = js_trim label, o_color = optionColor column options (js_trim label)\<rparr>"
    from assms False None i have "apply_labels column createId st1 labels (options @ [?opt]) (oset_add (o_id ?opt) ids) = (Some r, st')"
      by (simp add: Let_def split: if_splits)
    moreover have "?opt \<in> set (options @ [?opt])" "foldOptionLabel (o_label ?opt) = foldOptionLabel (js_trim label)" by simp_all
    ultimately show ?thesis using False by blast
  next
    case (Some opt)
    with assms False have "apply_labels column createId st labels options (oset_add (o_id opt) ids) = (Some r, st')" by simp
    moreover have "options = options @ []" by simp
    ultimately show ?thesis using False option_for_Some [OF Some] by blast
  qed
qed (use assms in simp)

lemma apply_labels_spec:
  assumes "apply_labels column createId st labels options ids = (Some (options', ids'), st')"
    and "distinct (map o_id options')"
  shows "(\<exists>xs. options' = options @ xs) \<and> (\<exists>ys. ids' = ids @ ys) \<and>
    set (concat (map (label_key options') ids')) = set (concat (map (label_key options') ids)) \<union> set (wanted_keys labels) \<and>
    (ids = [] \<longrightarrow> (case ids' of [] \<Rightarrow> [] | i # _ \<Rightarrow> label_key options' i) = take 1 (wanted_keys labels))"
  using assms(1)
proof (induction labels arbitrary: st options ids)
  case (Cons label labels)
  from apply_label [OF Cons.prems] show ?case
  proof (elim disjE conjE exE)
    assume "js_trim label = []" "apply_labels column createId st labels options ids = (Some (options', ids'), st')"
    with Cons.IH show ?thesis by fastforce
  next
    fix opt st1 options1 xs
    assume label: "js_trim label \<noteq> []" and opt: "opt \<in> set options1" "foldOptionLabel (o_label opt) = foldOptionLabel (js_trim label)"
      and xs: "options1 = options @ xs" and r: "apply_labels column createId st1 labels options1 (oset_add (o_id opt) ids) = (Some (options', ids'), st')"
    note ih = Cons.IH [OF r]
    from ih obtain zs ys where z: "options' = options1 @ zs" "ids' = oset_add (o_id opt) ids @ ys" by blast
    then have "opt \<in> set options'" using opt by simp
    from label_key_member [OF assms(2) this] have k: "label_key options' (o_id opt) = [foldOptionLabel (js_trim label)]" using opt(2) by simp
    have "set (concat (map (label_key options') (oset_add (o_id opt) ids))) = set (concat (map (label_key options') ids)) \<union> {foldOptionLabel (js_trim label)}"
      using k by (auto simp: oset_add_def)
    moreover have "\<exists>ys. ids' = ids @ ys" using z(2) by (auto simp: oset_add_def)
    moreover have "ids' = o_id opt # ys" if "ids = []" using that z(2) by (simp add: oset_add_def)
    ultimately show ?thesis using ih z(1) xs label k by auto
  qed
qed simp

section \<open>The property a plan builds\<close>

text \<open>What the input asks of a property: its value, or the labels of the options it selects.\<close>

definition holds_input :: "note_property \<Rightarrow> cell_input \<Rightarrow> bool" where
  "holds_input p input =
     (case input of
        InputValue v \<Rightarrow> p_value p = v
      | InputLabels labels \<Rightarrow>
          (case p_value p of
             VSelect v \<Rightarrow> (case v of None \<Rightarrow> [] | Some i \<Rightarrow> label_key (p_options p) i) = take 1 (wanted_keys labels)
           | VMultiSelect ids \<Rightarrow> set (concat (map (label_key (p_options p)) ids)) = set (wanted_keys labels)
           | _ \<Rightarrow> False))"

lemma applied_input:
  assumes a: "applyInput base column input createId st = (Built (Some p), st')"
    and d: "distinct (map o_id (p_options p))"
  shows "p_noteId p = p_noteId base \<and> p_id p = p_id base \<and> p_name p = p_name base \<and> p_position p = p_position base \<and>
    p_type p = column_type column \<and> holds_input p input"
proof (cases input)
  case (InputValue v)
  with a show ?thesis by (auto simp: applyInput_def with_value_def holds_input_def split: if_splits)
next
  case (InputLabels labels)
  with a have t: "column_type column = PSelect \<or> column_type column = PMultiSelect"
    by (auto simp: applyInput_def split: if_splits)
  with a InputLabels obtain options ids where
    l: "apply_labels column createId st labels (p_options base) [] = (Some (options, ids), st')"
    and p: "p = with_value (with_options base options)
      (if column_type column = PSelect then VSelect (case ids of [] \<Rightarrow> None | i # _ \<Rightarrow> Some i) else VMultiSelect ids)"
    by (cases "apply_labels column createId st labels (p_options base) []") (auto simp: applyInput_def Let_def split: option.splits)
  have o: "p_options p = options" by (simp add: p with_value_def with_options_def)
  from apply_labels_spec [OF l d [unfolded o]] have
    "set (concat (map (label_key options) ids)) = set (wanted_keys labels)"
    "(case ids of [] \<Rightarrow> [] | i # _ \<Rightarrow> label_key options i) = take 1 (wanted_keys labels)" by simp_all
  with t InputLabels show ?thesis
    by (auto simp: p with_value_def with_options_def holds_input_def split: list.splits)
qed

lemma created_base:
  assumes "create_base noteId ps column createId st = (Inr base, st')"
  shows "p_noteId base = noteId \<and> p_name base = dc_name column \<and> p_position base = of_nat (length ps) \<and> valid_id noteId"
proof -
  obtain b st1 where b: "createNoteProperty noteId (column_type column) createId st (Some (dc_name column)) (of_nat (length ps)) = (Inr b, st1)"
    using assms by (cases "createNoteProperty noteId (column_type column) createId st (Some (dc_name column)) (of_nat (length ps))")
      (auto simp: create_base_def split: sum.splits)
  then have "p_noteId b = noteId \<and> p_name b = dc_name column \<and> p_position b = of_nat (length ps) \<and> valid_id noteId"
    by (auto simp: createNoteProperty_def assertNoteId_Inr normalize_owned_Inr Let_def split: sum.splits prod.splits)
  with assms b show ?thesis by (auto simp: create_base_def with_options_def split: if_splits prod.splits)
qed

text \<open>A built property belongs to the column; nothing is built when the property already is what the input asks for.\<close>

lemma built_property:
  assumes b: "buildProperty noteId ps column input createId st = (Inr (Built r), st')"
    and key: "propertyColumnKey (dc_name column) = dc_key column" and ty: "dc_type column = Some t"
  shows "\<exists>base p st0. applyInput base column input createId st0 = (Built (Some p), st') \<and> prop_key base = dc_key column \<and>
    (find (\<lambda>q. prop_key q = dc_key column) ps = Some base \<and> (r = Some p \<or> r = None \<and> p = base) \<or>
     find (\<lambda>q. prop_key q = dc_key column) ps = None \<and> r = Some p \<and> p_position base = of_nat (length ps) \<and> p_noteId base = noteId)"
proof (cases "find (\<lambda>q. prop_key q = dc_key column) ps")
  case None
  with b have n: "\<not> MAX_NOTE_PROPERTIES \<le> length ps" by (auto simp: buildProperty_def split: if_splits)
  obtain c st1 where c: "create_base noteId ps column createId st = (c, st1)" by force
  from b None n c obtain base where base: "c = Inr base" by (cases c) (auto simp: buildProperty_def)
  with b None n c have a: "applyInput base column input createId st1 = (Built r, st')"
    by (cases "applyInput base column input createId st1") (auto simp: buildProperty_def)
  then obtain p where "r = Some p" by (auto simp: applyInput_def Let_def split: cell_input.splits if_splits prod.splits option.splits)
  with a None created_base [OF c [unfolded base]] key show ?thesis by auto
next
  case (Some base)
  obtain built st1 where a: "applyInput base column input createId st = (built, st1)" by force
  with b Some have u: "unless_same (Some base) built = Built r" "st1 = st'" by (auto simp: buildProperty_def split: if_splits)
  then obtain p where p: "built = Built (Some p)" "r = Some p \<or> r = None \<and> p = base"
    using a by (auto simp: unless_same_def applyInput_def Let_def split: cell_input.splits if_splits prod.splits option.splits)
  from Some have "prop_key base = dc_key column" by (auto simp: find_Some_iff)
  with a p u Some show ?thesis by blast
qed

lemma find_snoc: "find P xs = None \<Longrightarrow> P x \<Longrightarrow> find P (xs @ [x]) = Some x"
  by (induction xs) (auto split: if_splits)

lemma find_update:
  "find P xs = Some x \<Longrightarrow> distinct (map f xs) \<Longrightarrow> i < length xs \<Longrightarrow> f (xs ! i) = f x \<Longrightarrow> P y \<Longrightarrow> find P (xs[i := y]) = Some y"
proof (induction xs arbitrary: i)
  case (Cons z xs)
  show ?case
  proof (cases "P z")
    case True
    with Cons.prems have "f ((z # xs) ! i) = f ((z # xs) ! 0)" by simp
    with Cons.prems(2,3) have "i = 0" by (metis length_map length_pos_if_in_set list.set_intros(1) nth_eq_iff_index_eq nth_map)
    with Cons.prems show ?thesis by simp
  next
    case False
    with Cons.prems have x: "find P xs = Some x" by simp
    then have "x \<in> set xs" by (auto simp: find_Some_iff)
    with Cons.prems have "i \<noteq> 0" by (cases i) auto
    then obtain j where "i = Suc j" by (cases i) auto
    with Cons False x show ?thesis by simp
  qed
qed simp

text \<open>The properties after the write.\<close>

definition written :: "note_properties \<Rightarrow> string list option \<Rightarrow> note_property option \<Rightarrow> note_properties \<Rightarrow> bool" where
  "written ps personIds r qs \<longleftrightarrow> (case r of None \<Rightarrow> qs = ps | Some p \<Rightarrow> upsertNoteProperty ps p personIds = Inr qs)"

lemma built_is_held:
  assumes ok: "owned_ok personIds noteId ps" and b: "buildProperty noteId ps column input createId st = (Inr (Built r), st')"
    and key: "propertyColumnKey (dc_name column) = dc_key column" and ty: "dc_type column = Some t"
    and w: "written ps personIds r qs"
  shows "\<exists>p. find (\<lambda>q. prop_key q = dc_key column) qs = Some p \<and> p_type p = t \<and> holds_input p input \<and> field_ok personIds (p_field p) \<and>
    owned_ok personIds noteId qs \<and> pred_option (\<lambda>q. p_noteId q = noteId) r"
proof -
  from built_property [OF b key ty] obtain base p st0 where
    a: "applyInput base column input createId st0 = (Built (Some p), st')" and k: "prop_key base = dc_key column" and
    c: "find (\<lambda>q. prop_key q = dc_key column) ps = Some base \<and> (r = Some p \<or> r = None \<and> p = base) \<or>
      find (\<lambda>q. prop_key q = dc_key column) ps = None \<and> r = Some p \<and> p_position base = of_nat (length ps) \<and> p_noteId base = noteId" by blast
  have t: "column_type column = t" by (simp add: column_type_def ty)
  show ?thesis
  proof (cases r)
    case None
    with c have p: "find (\<lambda>q. prop_key q = dc_key column) ps = Some p" "p = base" by auto
    then have "p \<in> set ps" by (auto simp: find_Some_iff)
    with ok have f: "field_ok personIds (p_field p)" by (auto simp: owned_ok_def list_all_iff)
    then have "distinct (map o_id (p_options p))" by (simp add: field_ok_def options_ok_def)
    from applied_input [OF a this] t p f w None ok show ?thesis by (simp add: written_def)
  next
    case (Some p')
    with c w have r: "r = Some p" and u: "upsertNoteProperty ps p personIds = Inr qs" by (auto simp: written_def)
    from upsert_cases [OF ok u] have f: "field_ok personIds (p_field p)" by blast
    then have "distinct (map o_id (p_options p))" by (simp add: field_ok_def options_ok_def)
    note p = applied_input [OF a this]
    have "p_noteId base = noteId"
    proof (cases "find (\<lambda>q. prop_key q = dc_key column) ps")
      case (Some q)
      then have "q \<in> set ps" by (auto simp: find_Some_iff)
      with ok have "p_noteId q = noteId" by (auto simp: owned_ok_def list_all_iff)
      with c Some show ?thesis by auto
    qed (use c in simp)
    with p have own: "p_noteId p = noteId" by simp
    have kp: "prop_key p = dc_key column" using p k by simp
    have "find (\<lambda>q. prop_key q = dc_key column) qs = Some p"
    proof (cases "find (\<lambda>q. prop_key q = dc_key column) ps")
      case None
      with c p have pos: "p_position p = of_nat (length ps)" by auto
      from upsert_cases [OF ok u] pos have "qs = ps @ [p]" by auto
      with None kp find_snoc [OF None, of p] show ?thesis by simp
    next
      case (Some q)
      with c have q: "q = base" by auto
      from Some have "q \<in> set ps" by (auto simp: find_Some_iff)
      with q p have "p_id p \<in> p_id ` set ps" by (metis imageI)
      with upsert_cases [OF ok u] obtain i where "i < length ps" "p_id (ps ! i) = p_id p" "qs = ps[i := p]" by blast
      with find_update [OF Some, of p_id i p] ok kp q p show ?thesis by (simp add: owned_ok_def)
    qed
    with p f t upsert_ok [OF ok own u] own r show ?thesis by simp
  qed
qed

section \<open>Running a plan\<close>

fun run_operations :: "renderer_state \<Rightarrow> workspace_operation list \<Rightarrow> renderer_state option" where
  "run_operations s [] = Some s"
| "run_operations s (operation # operations) =
     (case settle s (reduceState s operation) of None \<Rightarrow> None | Some t \<Rightarrow> run_operations t operations)"

abbreviation note_props :: "renderer_state \<Rightarrow> string \<Rightarrow> note_properties" where
  "note_props s noteId \<equiv> omap_getd [] (st_propertiesByNoteId s) noteId"

lemma set_property_runs:
  assumes "source_kind s noteId = Some KNote" and "p_noteId p = noteId"
    and "upsertNoteProperty (note_props s noteId) p (personContext s) = Inr qs"
  shows "\<exists>t. reduceState s (SetNoteProperty p now) = Changed t \<and> note_props t noteId = qs \<and> st_people t = st_people s \<and>
    source_kind t noteId = Some KNote \<and> st_activeNoteId t = st_activeNoteId s \<and> st_nodes t = st_nodes s"
  using assms
  by (auto simp: reduceState_def reduce_property_def on_valid_def personContext_def set_properties_def touchedNote_def
      omap_getd_def source_kind_def patch_get split: option.splits)

lemma available_note:
  assumes "view_ok s" and "map_option nr_kind (omap_get (st_nodes s) noteId) = Some KNote"
  shows "source_kind s noteId = Some KNote"
proof -
  from view_okD [OF assms(1)] obtain ordered where o: "nodes_ok (st_sourceNodes s)" "rows_ok s ordered" by blast
  from assms(2) obtain r where "omap_get (st_nodes s) noteId = Some r" "nr_kind r = KNote" by (cases "omap_get (st_nodes s) noteId") auto
  with rows_facts(2) [OF o] obtain n where n: "n \<in> set ordered" "n_id n = noteId" "n_kind n = KNote" by force
  from o(2) have "orderAvailableNodes (omap_values (st_sourceNodes s)) = Some ordered" by (simp add: rows_ok_def)
  from ordered_facts [OF o(1) this] n have "omap_get (st_sourceNodes s) noteId = Some n" by blast
  with n show ?thesis by (simp add: source_kind_def)
qed

lemma plan_runs:
  assumes v: "view_ok s" and ok: "owned_ok (personContext s) noteId (note_props s noteId)"
    and key: "propertyColumnKey (dc_name column) = dc_key column" and ty: "dc_type column = Some type"
    and plan: "planCellWrite s noteId column input now createId st = (Inr (Ready operations), st')"
  shows "\<exists>t p. run_operations s operations = Some t \<and>
    find (\<lambda>q. prop_key q = dc_key column) (note_props t noteId) = Some p \<and> p_type p = type \<and> holds_input p input \<and>
    field_ok (personContext s) (p_field p) \<and> owned_ok (personContext t) noteId (note_props t noteId)"
proof -
  from plan have kind: "map_option nr_kind (omap_get (st_nodes s) noteId) = Some KNote" by (simp add: planCellWrite_def split: if_splits)
  note source = available_note [OF v kind]
  from plan kind obtain r st1 where b: "buildProperty noteId (note_props s noteId) column input createId st = (Inr (Built r), st1)"
    by (auto simp: planCellWrite_def Let_def split: prod.splits sum.splits built_property.splits)
  show ?thesis
  proof (cases r)
    case None
    with b plan kind have "operations = []" by (simp add: planCellWrite_def)
    with built_is_held [OF ok b key ty, of "note_props s noteId"] None show ?thesis by (auto simp: written_def)
  next
    case (Some p)
    with b plan kind have v: "validate (note_props s noteId) p s = None" and op: "operations = [SetNoteProperty p now]"
      by (auto simp: planCellWrite_def split: option.splits)
    then obtain qs where u: "upsertNoteProperty (note_props s noteId) p (personContext s) = Inr qs"
      by (auto simp: validate_def split: sum.splits)
    with built_is_held [OF ok b key ty, of qs] Some obtain p' where
      p': "find (\<lambda>q. prop_key q = dc_key column) qs = Some p'" "p_type p' = type" "holds_input p' input"
        "field_ok (personContext s) (p_field p')" "owned_ok (personContext s) noteId qs" "p_noteId p = noteId"
      by (auto simp: written_def)
    from set_property_runs [OF source p'(6) u] obtain t where
      t: "reduceState s (SetNoteProperty p now) = Changed t" "note_props t noteId = qs" "st_people t = st_people s" by blast
    with p' op show ?thesis by (auto simp: personContext_def)
  qed
qed

section \<open>Cells\<close>

text \<open>The cell of a row shows the input.\<close>

definition cell_holds :: "(number \<Rightarrow> int) \<Rightarrow> database_row \<Rightarrow> database_column \<Rightarrow> cell_input \<Rightarrow> bool" where
  "cell_holds ld row column input =
     (case input of
        InputValue v \<Rightarrow> map_option p_value (typedRowProperty row column) = Some v
      | InputLabels labels \<Rightarrow>
          (case cellValue ld row column of
             COptions ks \<Rightarrow> if dc_type column = Some PSelect then ks = take 1 (wanted_keys labels) else set ks = set (wanted_keys labels)
           | _ \<Rightarrow> False))"

lemma option_labels_keys:
  assumes "distinct (map o_id (p_options p))"
  shows "option_labels p ids = concat (map (label_key (p_options p)) ids)"
  by (simp add: option_labels_def Let_def omap_from_get [OF assms] label_key_def option.map_comp)
    (induction ids, auto simp: label_key_def split: option.splits)

lemma held_cell:
  assumes p: "find (\<lambda>q. prop_key q = dc_key column) (row_properties row) = Some p" "dc_type column = Some (p_type p)"
    and h: "holds_input p input" and d: "distinct (map o_id (p_options p))"
  shows "cell_holds ld row column input"
proof -
  have t: "typedRowProperty row column = Some p" by (rule typed_property [OF p])
  show ?thesis
  proof (cases input)
    case (InputValue v)
    with t h show ?thesis by (simp add: cell_holds_def holds_input_def)
  next
    case (InputLabels labels)
    have c: "cellValue ld row column = property_cell p" by (simp add: cellValue_def p(2) t)
    show ?thesis
    proof (cases "p_value p")
      case (VSelect v)
      with InputLabels h have "(case v of None \<Rightarrow> [] | Some i \<Rightarrow> label_key (p_options p) i) = take 1 (wanted_keys labels)" by (simp add: holds_input_def)
      moreover have "property_cell p = COptions (case v of None \<Rightarrow> [] | Some i \<Rightarrow> label_key (p_options p) i)"
        by (cases v) (simp_all add: property_cell_def VSelect label_key_def find_None_iff [THEN iffD2])
      ultimately show ?thesis using InputLabels c p(2) VSelect by (simp add: cell_holds_def)
    next
      case (VMultiSelect ids)
      with InputLabels h c p(2) show ?thesis
        by (simp add: cell_holds_def holds_input_def property_cell_def option_labels_keys [OF d])
    qed (use InputLabels h in \<open>simp_all add: holds_input_def\<close>)
  qed
qed

text \<open>C17. A planned cell write implements its specification on the store: once its operations have run the cell shows the input, a value as given and labels by their folded names, and the properties of the note stay valid.\<close>

theorem planned_cell_is_stored:
  assumes "view_ok s" and "owned_ok (personContext s) noteId (note_props s noteId)"
    and "propertyColumnKey (dc_name column) = dc_key column" and "dc_type column \<noteq> None"
    and "planCellWrite s noteId column input now createId st = (Inr (Ready operations), st')"
  shows "\<exists>t. run_operations s operations = Some t \<and> owned_ok (personContext t) noteId (note_props t noteId) \<and>
    cell_holds ld (buildRow t noteId (readRowInputs t noteId) parentId path index) column input"
proof -
  from assms(4) obtain type where ty: "dc_type column = Some type" by blast
  from plan_runs [OF assms(1-3) ty assms(5)] obtain t p where
    t: "run_operations s operations = Some t" "owned_ok (personContext t) noteId (note_props t noteId)" and
    p: "find (\<lambda>q. prop_key q = dc_key column) (note_props t noteId) = Some p" "p_type p = type" "holds_input p input"
      "field_ok (personContext s) (p_field p)" by blast
  have "cell_holds ld (buildRow t noteId (readRowInputs t noteId) parentId path index) column input"
    by (rule held_cell [OF _ _ p(3)]) (use p ty in \<open>simp_all add: buildRow_def readRowInputs_def field_ok_def options_ok_def Let_def\<close>)
  with t show ?thesis by blast
qed

section \<open>Board groups\<close>

text \<open>The columns that discovery gives have these options.\<close>

definition group_column :: "database_column \<Rightarrow> bool" where
  "group_column column \<longleftrightarrow> isGroupableColumn column \<and> propertyColumnKey (dc_name column) = dc_key column \<and>
     list_all (\<lambda>opt. do_key opt = foldOptionLabel (do_label opt) \<and> js_trim (do_label opt) \<noteq> []) (dc_options column)"

lemma fold_trim [simp]: "foldOptionLabel (js_trim s) = foldOptionLabel s"
  by (simp add: foldOptionLabel_def normalizeEntityName_def trimmed_trim)

lemma held_group:
  assumes c: "group_column column" and k: "groupKey \<in> set (map fst (groupShells column))"
    and i: "groupInput column groupKey = Some input" and h: "cell_holds ld row column input"
  shows "groupKeyOf ld row column (groupKeys column) = groupKey"
proof (cases "dc_type column = Some PCheckbox")
  case True
  with i have input: "input = InputValue (VCheckbox (groupKey = Some ''checked''))" by (simp add: groupInput_def)
  with h obtain p where p: "typedRowProperty row column = Some p" "p_value p = VCheckbox (groupKey = Some ''checked'')"
    by (auto simp: cell_holds_def)
  with True have "cellValue ld row column = CCheckbox (groupKey = Some ''checked'')" by (simp add: cellValue_def property_cell_def)
  with True k show ?thesis
    by (auto simp: groupKeyOf_def CHECKED_KEY_def UNCHECKED_KEY_def groupShells_def)
next
  case False
  with c have select: "dc_type column = Some PSelect" by (simp add: group_column_def isGroupableColumn_def)
  show ?thesis
  proof (cases groupKey)
    case None
    with i select have "input = InputLabels []" by (simp add: groupInput_def)
    with h select have "cellValue ld row column = COptions []"
      by (auto simp: cell_holds_def split: cell_value.splits)
    with None select show ?thesis by (simp add: groupKeyOf_def)
  next
    case (Some k)
    with i select obtain opt where opt: "find (\<lambda>entry. do_key entry = k) (dc_options column) = Some opt"
      "input = InputLabels [do_label opt]" by (auto simp: groupInput_def)
    then have m: "opt \<in> set (dc_options column)" "do_key opt = k" by (auto simp: find_Some_iff)
    with c have l: "foldOptionLabel (do_label opt) = k" "js_trim (do_label opt) \<noteq> []" by (auto simp: group_column_def list_all_iff)
    with h opt select have "cellValue ld row column = COptions [k]"
      by (auto simp: cell_holds_def split: cell_value.splits)
    moreover have "k \<in> set (groupKeys column)" using m by (auto simp: groupKeys_def oset_from_def oset_fold_set)
    ultimately show ?thesis using Some select by (simp add: groupKeyOf_def)
  qed
qed

theorem card_lands_in_group:
  assumes "view_ok s" and "owned_ok (personContext s) noteId (note_props s noteId)"
    and "group_column column" and "groupKey \<in> set (map fst (groupShells column))" and "groupInput column groupKey = Some input"
    and "planCellWrite s noteId column input now createId st = (Inr (Ready operations), st')"
  shows "\<exists>t. run_operations s operations = Some t \<and>
    groupKeyOf ld (buildRow t noteId (readRowInputs t noteId) parentId path index) column (groupKeys column) = groupKey"
proof -
  obtain type where ty: "dc_type column = Some type" and key: "propertyColumnKey (dc_name column) = dc_key column"
    using assms(3) by (auto simp: group_column_def isGroupableColumn_def)
  from plan_runs [OF assms(1,2) key ty assms(6)] obtain t p where t: "run_operations s operations = Some t" and
    p: "find (\<lambda>q. prop_key q = dc_key column) (note_props t noteId) = Some p" "p_type p = type" "holds_input p input"
      "field_ok (personContext s) (p_field p)" by blast
  have "cell_holds ld (buildRow t noteId (readRowInputs t noteId) parentId path index) column input"
    by (rule held_cell [OF _ _ p(3)]) (use p ty in \<open>simp_all add: buildRow_def readRowInputs_def field_ok_def options_ok_def Let_def\<close>)
  from held_group [OF assms(3-5) this] t show ?thesis by blast
qed

end
