(* ===== verification/Create_Theorems.thy ===== *)
theory Create_Theorems
  imports Write_Theorems
begin

text \<open>
  A note created in a database: the tree keeps its nodes when a leaf is added, the planned operations
  run one after the other, and the note that was open stays open.
\<close>

section \<open>Adding a leaf\<close>

lemma leaf_hidden:
  assumes h: "hidden (nodes @ [leaf]) x" and live: "n_deletedAt leaf = None"
    and parent: "\<And>p. n_parentId leaf = Some p \<Longrightarrow> \<not> hidden nodes p"
  shows "hidden nodes x"
  using h
proof induction
  case (hidden_own n)
  with live show ?case by (auto intro: hidden.hidden_own)
next
  case (hidden_inherited p n)
  with parent show ?case by (auto intro: hidden.hidden_inherited)
qed

lemma leaf_keeps_order:
  assumes named: "named nodes" "named (nodes @ [leaf])" and live: "n_deletedAt leaf = None"
    and parent: "\<And>p. n_parentId leaf = Some p \<Longrightarrow> \<not> hidden nodes p"
    and old: "orderAvailableNodes nodes = Some r" and new: "orderAvailableNodes (nodes @ [leaf]) = Some r'"
  shows "set r \<subseteq> set r'"
proof -
  have d: "distinct (map n_id nodes)" "distinct (map n_id (nodes @ [leaf]))" using named by (simp_all add: named_def)
  have ids: "\<And>n. n \<in> set nodes \<Longrightarrow> n_id n \<noteq> []" "\<And>n. n \<in> set (nodes @ [leaf]) \<Longrightarrow> n_id n \<noteq> []"
    using named by (auto simp: named_def)
  from order_correct [OF d(1)] old have
    avail: "set r \<subseteq> set (available nodes)" and first: "parents_first n_id n_parentId {n. n_parentId n = None} r" by auto
  from order_correct [OF d(2)] new have
    roots: "\<forall>n \<in> set (available (nodes @ [leaf])). n_parentId n = None \<longrightarrow> n \<in> set r'" and
    children: "\<forall>n \<in> set (available (nodes @ [leaf])). \<forall>p \<in> set r'. n_parentId n = Some (n_id p) \<longrightarrow> n \<in> set r'" by auto
  have kept: "n \<in> set (available (nodes @ [leaf]))" if "n \<in> set (available nodes)" for n
  proof -
    have "n \<in> set nodes" "\<not> hidden nodes (n_id n)"
      using that unavailable_hidden [of nodes, OF ids(1)] by (auto simp: available_def)
    moreover from this have "\<not> hidden (nodes @ [leaf]) (n_id n)" using leaf_hidden [OF _ live parent] by blast
    ultimately show ?thesis using unavailable_hidden [of "nodes @ [leaf]", OF ids(2)] unfolding available_def by auto
  qed
  have "set ys \<subseteq> set r'" if "r = ys @ zs" for ys zs
    using that
  proof (induction ys arbitrary: zs rule: rev_induct)
    case (snoc n ys)
    then have ys: "set ys \<subseteq> set r'" by simp
    from snoc.prems have n: "n \<in> set (available (nodes @ [leaf]))" using avail kept by auto
    from first snoc.prems have "n_parentId n = None \<or> (\<exists>p \<in> set ys. n_parentId n = Some (n_id p))"
      unfolding parents_first_def by fastforce
    with roots children n ys have "n \<in> set r'" by blast
    with ys show ?case by simp
  qed simp
  from this [of r "[]"] show ?thesis by simp
qed

text \<open>What a note created in an available scope leaves as it was.\<close>

lemma derive_keeps_data:
  "derive s = Some t \<Longrightarrow> st_sourceNodes t = st_sourceNodes s \<and> st_propertiesByNoteId t = st_propertiesByNoteId s \<and> st_people t = st_people s"
  by (auto simp: derive_def derive_view_def Let_def split: option.splits)

lemma scope_parent:
  assumes v: "view_ok s" and ready: "databaseScopeStatus s folderId = ScopeReady" and f: "folderId = Some f"
  shows "\<not> hidden (omap_values (st_sourceNodes s)) f"
proof -
  from view_okD [OF v] obtain ordered where o: "nodes_ok (st_sourceNodes s)" "rows_ok s ordered" by blast
  from ready f have "omap_has (st_nodes s) f" by (auto simp: databaseScopeStatus_def omap_has_get split: option.splits if_splits)
  with rows_facts(1) [OF o] obtain n where n: "n \<in> set ordered" "n_id n = f" by auto
  have named: "named (omap_values (st_sourceNodes s))" by (rule nodes_ok_named [OF o(1)])
  from o(2) have "orderAvailableNodes (omap_values (st_sourceNodes s)) = Some ordered" by (simp add: rows_ok_def)
  with order_correct [of "omap_values (st_sourceNodes s)"] named n(1)
  have "n \<in> set (available (omap_values (st_sourceNodes s)))" by (auto simp: named_def)
  with n(2) unavailable_hidden [of "omap_values (st_sourceNodes s)"] named show ?thesis by (auto simp: available_def named_def)
qed

lemma nodes_kind:
  assumes "nodes_ok (st_sourceNodes s)" and "rows_ok s ordered"
  shows "map_option nr_kind (omap_get (st_nodes s) i) = Some k \<longleftrightarrow> (\<exists>n \<in> set ordered. n_id n = i \<and> n_kind n = k)"
proof
  assume "map_option nr_kind (omap_get (st_nodes s) i) = Some k"
  with rows_facts(2) [OF assms] show "\<exists>n \<in> set ordered. n_id n = i \<and> n_kind n = k" by force
next
  assume "\<exists>n \<in> set ordered. n_id n = i \<and> n_kind n = k"
  then obtain n where n: "n \<in> set ordered" "n_id n = i" "n_kind n = k" by blast
  with rows_facts(1) [OF assms, of i] obtain r where r: "omap_get (st_nodes s) i = Some r" by (auto simp: omap_has_get)
  with rows_facts(2) [OF assms] obtain m where m: "m \<in> set ordered" "n_id m = i" "nr_kind r = n_kind m" by blast
  from assms(2) have "orderAvailableNodes (omap_values (st_sourceNodes s)) = Some ordered" by (simp add: rows_ok_def)
  from ordered_facts(1) [OF assms(1) this] n m have "m = n" by (simp add: distinct_map inj_on_def)
  with n r m show "map_option nr_kind (omap_get (st_nodes s) i) = Some k" by simp
qed

lemma created_note:
  assumes v: "view_ok s" and fresh: "\<not> omap_has (st_sourceNodes s) noteId" and named: "noteId \<noteq> []"
    and ready: "databaseScopeStatus s folderId = ScopeReady"
  shows "\<exists>t. reduceState s (CreateNote noteId title \<lparr>pl_parentId = folderId, pl_position = Last\<rparr> documentJson markdown now) = Changed t \<and>
    view_ok t \<and> st_propertiesByNoteId t = st_propertiesByNoteId s \<and> st_people t = st_people s \<and> source_kind t noteId = Some KNote \<and>
    (\<forall>a. map_option nr_kind (omap_get (st_nodes s) a) = Some KNote \<longrightarrow> map_option nr_kind (omap_get (st_nodes t) a) = Some KNote)"
proof -
  let ?pl = "\<lparr>pl_parentId = folderId, pl_position = Last\<rparr>"
  let ?op = "CreateNote noteId title ?pl documentJson markdown now"
  let ?m = "create_node (st_sourceNodes s) KNote noteId title ?pl now"
  from view_okD [OF v] obtain ordered where ok: "nodes_ok (st_sourceNodes s)" and rows: "rows_ok s ordered" by blast
  have m: "reduceOperation (st_sourceNodes s) ?op = Changed ?m" by (simp add: reduceOperation_def)
  have "op_named ?op" using named by simp
  from reduceOperation_nodes [OF ok this m] have okm: "nodes_ok ?m" .
  then obtain t where t: "derive (structured s ?op ?m) = Some t" "view_ok t"
    using derive_view_ok [of "structured s ?op ?m"] view_ok_panes [OF v] by auto
  then have r: "reduceState s ?op = Changed t" by (simp add: reduceState_def reduce_structure_def m derived_def)
  from derive_keeps_data [OF t(1)] have data: "st_sourceNodes t = ?m" "st_propertiesByNoteId t = st_propertiesByNoteId s" "st_people t = st_people s"
    by (simp_all add: structured_def with_references_def Let_def split: option.split)
  obtain leaf where leaf: "?m = st_sourceNodes s @ [(noteId, leaf)]" "n_id leaf = noteId" "n_deletedAt leaf = None" "n_parentId leaf = folderId" "n_kind leaf = KNote"
  proof -
    from fresh have "noteId \<notin> set (omap_keys (st_sourceNodes s))" by (auto simp: omap_has_def)
    then show thesis by - (rule that, simp add: create_node_def update_new, simp_all)
  qed
  from view_okD(4) [OF t(2)] obtain ordered' where rows': "rows_ok t ordered'" by blast
  have "set ordered \<subseteq> set ordered'"
  proof (rule leaf_keeps_order [of "omap_values (st_sourceNodes s)" leaf])
    show "named (omap_values (st_sourceNodes s))" by (rule nodes_ok_named [OF ok])
    show "named (omap_values (st_sourceNodes s) @ [leaf])" using nodes_ok_named [OF okm] by (simp add: leaf(1))
    show "orderAvailableNodes (omap_values (st_sourceNodes s)) = Some ordered" using rows by (simp add: rows_ok_def)
    show "orderAvailableNodes (omap_values (st_sourceNodes s) @ [leaf]) = Some ordered'" using rows' by (simp add: rows_ok_def data leaf(1))
  qed (use leaf scope_parent [OF v ready] in auto)
  then have "map_option nr_kind (omap_get (st_nodes t) a) = Some KNote" if "map_option nr_kind (omap_get (st_nodes s) a) = Some KNote" for a
    using that nodes_kind [OF ok rows, of a KNote] nodes_kind [OF view_okD(1) [OF t(2)] rows', of a KNote] by blast
  moreover have "source_kind t noteId = Some KNote" by (simp add: source_kind_def data create_node_def)
  ultimately show ?thesis using r t(2) data by blast
qed

section \<open>Running the presets\<close>

lemma run_append: "run_operations s (xs @ ys) = Option.bind (run_operations s xs) (\<lambda>t. run_operations t ys)"
  by (induction xs arbitrary: s) (auto split: option.split)

text \<open>A write to one column leaves the property behind every other column alone.\<close>

lemma other_column_kept:
  assumes ok: "owned_ok personIds noteId ps" and b: "buildProperty noteId ps column input createId st = (Inr (Built r), st')"
    and key: "propertyColumnKey (dc_name column) = dc_key column" and ty: "dc_type column \<noteq> None"
    and w: "written ps personIds r qs" and k: "k \<noteq> dc_key column"
  shows "find (\<lambda>q. prop_key q = k) qs = find (\<lambda>q. prop_key q = k) ps"
proof (cases r)
  case None
  with w show ?thesis by (simp add: written_def)
next
  case (Some p)
  from ty obtain t where t: "dc_type column = Some t" by blast
  from w Some have u: "upsertNoteProperty ps p personIds = Inr qs" by (simp add: written_def)
  from upsert_cases [OF ok u] have f: "distinct (map o_id (p_options p))" by (simp add: field_ok_def options_ok_def)
  from built_property [OF b key t] Some obtain base st0 where
    a: "applyInput base column input createId st0 = (Built (Some p), st')" and bk: "prop_key base = dc_key column" and
    c: "find (\<lambda>q. prop_key q = dc_key column) ps = Some base \<or> p_position base = of_nat (length ps)" by auto
  note ap = applied_input [OF a f]
  have pk: "prop_key p \<noteq> k" using ap bk k by simp
  have snoc: "find P (ps @ [p]) = find P ps" if "\<not> P p" for P using that by (induction ps) auto
  have update: "find P (ps[i := p]) = find P ps" if "i < length ps" "\<not> P (ps ! i)" "\<not> P p" for P i
    using that
  proof (induction ps arbitrary: i)
    case (Cons q ps)
    then show ?case by (cases i) auto
  qed simp
  from upsert_cases [OF ok u] show ?thesis
  proof (elim conjE disjE exE)
    assume "qs = ps @ [p]"
    then show ?thesis using pk by (simp add: snoc)
  next
    fix i assume i: "i < length ps" "p_id (ps ! i) = p_id p" "p_position p = of_nat i" "qs = ps[i := p]"
    with c ap have "find (\<lambda>q. prop_key q = dc_key column) ps = Some base" by auto
    then obtain j where j: "j < length ps" "ps ! j = base" by (auto simp: find_Some_iff)
    with i ap ok have "i = j" by (auto simp: owned_ok_def distinct_conv_nth)
    with i j bk k pk show ?thesis by (simp add: update)
  qed
qed

definition column_held :: "string list option \<Rightarrow> note_properties \<Rightarrow> cell_preset \<Rightarrow> bool" where
  "column_held personIds ps preset \<longleftrightarrow>
     (\<exists>p. find (\<lambda>q. prop_key q = dc_key (cp_column preset)) ps = Some p \<and> dc_type (cp_column preset) = Some (p_type p) \<and>
       holds_input p (cp_input preset) \<and> field_ok personIds (p_field p))"

definition preset_column :: "cell_preset \<Rightarrow> bool" where
  "preset_column preset \<longleftrightarrow> dc_type (cp_column preset) \<noteq> None \<and>
     propertyColumnKey (dc_name (cp_column preset)) = dc_key (cp_column preset)"

text \<open>The note's state while the presets run: the properties of the plan are those of the store.\<close>

definition in_step :: "renderer_state \<Rightarrow> string \<Rightarrow> renderer_state \<Rightarrow> note_properties \<Rightarrow> bool" where
  "in_step s noteId u ps \<longleftrightarrow> note_props u noteId = ps \<and> st_people u = st_people s \<and> source_kind u noteId = Some KNote \<and>
     owned_ok (personContext s) noteId ps"

lemma preset_step:
  assumes plan: "plan_presets s noteId now createId st (preset # presets) ps operations = (Inr (Ready final), st')"
    and c: "preset_column preset" and u: "in_step s noteId u ps"
  shows "\<exists>qs ops' st1 v. plan_presets s noteId now createId st1 presets qs (operations @ ops') = (Inr (Ready final), st') \<and>
    run_operations u ops' = Some v \<and> in_step s noteId v qs \<and> st_nodes v = st_nodes u \<and> st_activeNoteId v = st_activeNoteId u \<and>
    column_held (personContext s) qs preset \<and>
    (\<forall>k. k \<noteq> dc_key (cp_column preset) \<longrightarrow> find (\<lambda>q. prop_key q = k) qs = find (\<lambda>q. prop_key q = k) ps)"
proof -
  have ok: "owned_ok (personContext s) noteId ps" using u by (simp add: in_step_def)
  from c obtain t where t: "dc_type (cp_column preset) = Some t" and key: "propertyColumnKey (dc_name (cp_column preset)) = dc_key (cp_column preset)"
    by (auto simp: preset_column_def)
  from plan obtain r st1 where b: "buildProperty noteId ps (cp_column preset) (cp_input preset) createId st = (Inr (Built r), st1)"
    by (auto split: prod.splits sum.splits built_property.splits)
  have held: "column_held (personContext s) qs preset \<and> owned_ok (personContext s) noteId qs \<and> pred_option (\<lambda>q. p_noteId q = noteId) r \<and>
      (\<forall>k. k \<noteq> dc_key (cp_column preset) \<longrightarrow> find (\<lambda>q. prop_key q = k) qs = find (\<lambda>q. prop_key q = k) ps)"
    if "written ps (personContext s) r qs" for qs
    using built_is_held [OF ok b key t that] other_column_kept [OF ok b key _ that] t by (auto simp: column_held_def)
  show ?thesis
  proof (cases r)
    case None
    with b plan have "plan_presets s noteId now createId st1 presets ps (operations @ []) = (Inr (Ready final), st')" by simp
    moreover have "run_operations u [] = Some u" by simp
    ultimately show ?thesis using held [of ps] None u unfolding written_def by (metis option.simps(4))
  next
    case (Some p)
    with b plan obtain qs where q: "upsertNoteProperty ps p (personContext s) = Inr qs"
      and rest: "plan_presets s noteId now createId st1 presets qs (operations @ [SetNoteProperty p now]) = (Inr (Ready final), st')"
      by (auto simp: validate_def split: sum.splits)
    have h: "column_held (personContext s) qs preset" "owned_ok (personContext s) noteId qs" "p_noteId p = noteId"
      "\<forall>k. k \<noteq> dc_key (cp_column preset) \<longrightarrow> find (\<lambda>q. prop_key q = k) qs = find (\<lambda>q. prop_key q = k) ps"
      using held [of qs] q Some by (auto simp: written_def)
    have "personContext u = personContext s" using u by (simp add: in_step_def personContext_def)
    with u q h(3) set_property_runs [of u noteId p qs now] obtain v where
      v: "reduceState u (SetNoteProperty p now) = Changed v" "note_props v noteId = qs" "st_people v = st_people u"
        "source_kind v noteId = Some KNote" "st_activeNoteId v = st_activeNoteId u" "st_nodes v = st_nodes u"
      by (auto simp: in_step_def)
    then have "run_operations u [SetNoteProperty p now] = Some v" "in_step s noteId v qs"
      using u h(2) by (simp_all add: in_step_def)
    with rest v h show ?thesis by blast
  qed
qed

lemma presets_run:
  "plan_presets s noteId now createId st presets ps operations = (Inr (Ready final), st') \<Longrightarrow> list_all preset_column presets \<Longrightarrow>
    distinct (map (\<lambda>preset. dc_key (cp_column preset)) presets) \<Longrightarrow> in_step s noteId u ps \<Longrightarrow>
    \<exists>ops' t qs. final = operations @ ops' \<and> run_operations u ops' = Some t \<and> in_step s noteId t qs \<and> st_nodes t = st_nodes u \<and>
      st_activeNoteId t = st_activeNoteId u \<and> list_all (column_held (personContext s) qs) presets \<and>
      (\<forall>k. k \<notin> set (map (\<lambda>preset. dc_key (cp_column preset)) presets) \<longrightarrow> find (\<lambda>q. prop_key q = k) qs = find (\<lambda>q. prop_key q = k) ps)"
proof (induction presets arbitrary: st ps operations u)
  case Nil
  then show ?case by (intro exI [of _ "[]"] exI [of _ u] exI [of _ ps]) simp
next
  case (Cons preset presets)
  from Cons.prems(2) have "preset_column preset" by simp
  from preset_step [OF Cons.prems(1) this Cons.prems(4)] obtain qs ops1 st1 v where
    rest: "plan_presets s noteId now createId st1 presets qs (operations @ ops1) = (Inr (Ready final), st')" and
    v: "run_operations u ops1 = Some v" "in_step s noteId v qs" "st_nodes v = st_nodes u" "st_activeNoteId v = st_activeNoteId u" and
    h: "column_held (personContext s) qs preset"
      "\<forall>k. k \<noteq> dc_key (cp_column preset) \<longrightarrow> find (\<lambda>q. prop_key q = k) qs = find (\<lambda>q. prop_key q = k) ps" by blast
  from Cons.IH [OF rest _ _ v(2)] Cons.prems(2,3) obtain ops2 t rs where
    t: "final = (operations @ ops1) @ ops2" "run_operations v ops2 = Some t" "in_step s noteId t rs" "st_nodes t = st_nodes v"
      "st_activeNoteId t = st_activeNoteId v" "list_all (column_held (personContext s) rs) presets" and
    other: "\<forall>k. k \<notin> set (map (\<lambda>preset. dc_key (cp_column preset)) presets) \<longrightarrow> find (\<lambda>q. prop_key q = k) rs = find (\<lambda>q. prop_key q = k) qs"
    by auto
  have "column_held (personContext s) rs preset" using h(1) other Cons.prems(3) by (simp add: column_held_def)
  moreover have "run_operations u (ops1 @ ops2) = Some t" by (simp add: run_append v(1) t(2))
  moreover have "final = operations @ (ops1 @ ops2)" using t(1) by simp
  ultimately show ?case using t v h(2) other by (intro exI [of _ "ops1 @ ops2"] exI [of _ t] exI [of _ rs]) auto
qed

lemma database_note_created:
  assumes v: "view_ok s" and fresh: "\<not> omap_has (st_sourceNodes s) noteId" "noteId \<noteq> []" "note_props s noteId = []"
    and presets: "list_all preset_column presets" "distinct (map (\<lambda>preset. dc_key (cp_column preset)) presets)"
    and plan: "planDatabaseNote s folderId title documentJson markdown presets now noteId createId st = (Inr (Ready operations), st')"
  shows "\<exists>t. run_operations s operations = Some t \<and> st_activeNoteId t = st_activeNoteId s \<and>
    source_kind t noteId = Some KNote \<and> owned_ok (personContext t) noteId (note_props t noteId) \<and>
    list_all (\<lambda>preset. cell_holds ld (buildRow t noteId (readRowInputs t noteId) parentId path index) (cp_column preset) (cp_input preset)) presets"
proof -
  let ?create = "CreateNote noteId title \<lparr>pl_parentId = folderId, pl_position = Last\<rparr> documentJson markdown now"
  from plan have ready: "databaseScopeStatus s folderId = ScopeReady" by (simp add: planDatabaseNote_def split: if_splits)
  with plan obtain final where f: "plan_presets s noteId now createId st presets [] [?create] = (Inr (Ready final), st')"
    "operations = final @ [SetActiveNote (st_activeNoteId s)]"
    by (auto simp: planDatabaseNote_def split: prod.splits sum.splits database_write.splits)
  from created_note [OF v fresh(1,2) ready] obtain u where
    u: "reduceState s ?create = Changed u" "st_propertiesByNoteId u = st_propertiesByNoteId s" "st_people u = st_people s"
      "source_kind u noteId = Some KNote" and
    kept: "\<forall>a. map_option nr_kind (omap_get (st_nodes s) a) = Some KNote \<longrightarrow> map_option nr_kind (omap_get (st_nodes u) a) = Some KNote" by blast
  have "in_step s noteId u []" using u fresh(3) by (simp add: in_step_def owned_ok_def numbered_def)
  from presets_run [OF f(1) presets this] obtain ops' w qs where
    w: "final = [?create] @ ops'" "run_operations u ops' = Some w" "in_step s noteId w qs" "st_nodes w = st_nodes u"
      "list_all (column_held (personContext s) qs) presets" by blast
  have run: "run_operations s final = Some w" by (simp add: w(1,2) u(1))
  have active: "map_option nr_kind (omap_get (st_nodes w) a) = Some KNote" if "st_activeNoteId s = Some a" for a
  proof -
    from v that have "omap_has (st_metadata s) a" by (auto simp: view_ok_def focus_ok_def kept_iff)
    moreover from view_okD [OF v] obtain ordered where o: "nodes_ok (st_sourceNodes s)" "rows_ok s ordered" by blast
    ultimately have "\<exists>n \<in> set ordered. n_id n = a \<and> n_kind n = KNote" by (simp add: rows_ok_def metadata_has)
    with nodes_kind [OF o] kept w(4) show ?thesis by simp
  qed
  obtain t where t: "settle w (reduceState w (SetActiveNote (st_activeNoteId s))) = Some t" "st_activeNoteId t = st_activeNoteId s"
    "st_propertiesByNoteId t = st_propertiesByNoteId w" "st_people t = st_people w" "st_sourceNodes t = st_sourceNodes w"
    using active by (cases "st_activeNoteId s")
      (fastforce simp: reduceState_def reduce_workspace_def set_active_note_def split: option.splits if_splits)+
  have "run_operations s operations = Some t" by (simp add: f(2) run_append run t(1))
  moreover have "cell_holds ld (buildRow t noteId (readRowInputs t noteId) parentId path index) (cp_column preset) (cp_input preset)"
    if "preset \<in> set presets" for preset
  proof -
    from w(5) that obtain p where p: "find (\<lambda>q. prop_key q = dc_key (cp_column preset)) qs = Some p"
      "dc_type (cp_column preset) = Some (p_type p)" "holds_input p (cp_input preset)" "field_ok (personContext s) (p_field p)"
      by (auto simp: list_all_iff column_held_def)
    then show ?thesis using w(3) t(3)
      by (intro held_cell [OF _ p(2,3)]) (simp_all add: in_step_def buildRow_def readRowInputs_def Let_def field_ok_def options_ok_def)
  qed
  ultimately show ?thesis using t w(3) by (auto simp: in_step_def list_all_iff source_kind_def personContext_def)
qed

section \<open>The presets of a view\<close>

definition keyed_presets :: "(string, cell_preset) omap \<Rightarrow> bool" where
  "keyed_presets presets \<longleftrightarrow> omap_wf presets \<and> list_all (\<lambda>(k, preset). k = dc_key (cp_column preset) \<and> preset_column preset) presets"

lemma keyed_presets_set:
  assumes "keyed_presets presets" and "preset_column preset"
  shows "keyed_presets (omap_set (dc_key (cp_column preset)) preset presets)"
proof -
  have "set (omap_set k v m) \<subseteq> insert (k, v) (set m)" for k v and m :: "(string, cell_preset) omap" by (induction m) auto
  with assms show ?thesis unfolding keyed_presets_def list_all_iff by (fastforce simp: omap_wf_set)
qed

definition keyed_columns :: "database_column list \<Rightarrow> bool" where
  "keyed_columns columns \<longleftrightarrow> distinct (map dc_key columns) \<and>
     list_all (\<lambda>c. dc_type c = None \<or> propertyColumnKey (dc_name c) = dc_key c) columns"

lemma column_found:
  assumes "keyed_columns columns" and "omap_get (omap_from dc_key (\<lambda>c. c) columns) k = Some c"
  shows "c \<in> set columns" "dc_key c = k"
  using assms by (auto simp: keyed_columns_def omap_from_get option.map_ident find_Some_iff)

lemma preset_filters:
  assumes "keyed_columns columns"
  shows "keyed_presets presets \<Longrightarrow> keyed_presets (fold (preset_filter (omap_from dc_key (\<lambda>c. c) columns)) filters presets)"
proof (induction filters arbitrary: presets)
  case (Cons f filters)
  have "keyed_presets (preset_filter (omap_from dc_key (\<lambda>c. c) columns) f presets)"
  proof (cases "omap_get (omap_from dc_key (\<lambda>c. c) columns) (df_column f)")
    case None
    with Cons.prems show ?thesis by (simp add: preset_filter_def)
  next
    case (Some c)
    from column_found [OF assms Some] assms have ok: "dc_type c = None \<or> preset_column \<lparr>cp_column = c, cp_input = i\<rparr>" for i
      by (auto simp: preset_column_def keyed_columns_def list_all_iff)
    have "dc_type c = None \<or> keyed_presets (omap_set (dc_key c) \<lparr>cp_column = c, cp_input = i\<rparr> presets)" for i
      using ok [of i] keyed_presets_set [OF Cons.prems, of "\<lparr>cp_column = c, cp_input = i\<rparr>"] by auto
    with Some Cons.prems show ?thesis by (auto simp: preset_filter_def split: option.split)
  qed
  then show ?case using Cons.IH by simp
qed simp

lemma keyed_presets_list:
  assumes "keyed_presets presets"
  shows "list_all preset_column (omap_values presets)" "distinct (map (\<lambda>preset. dc_key (cp_column preset)) (omap_values presets))"
proof -
  have "map (\<lambda>preset. dc_key (cp_column preset)) (omap_values presets) = omap_keys presets"
    using assms by (auto simp: keyed_presets_def list_all_iff)
  then show "distinct (map (\<lambda>preset. dc_key (cp_column preset)) (omap_values presets))"
    using assms unfolding keyed_presets_def by metis
  show "list_all preset_column (omap_values presets)" using assms by (auto simp: keyed_presets_def list_all_iff)
qed

lemma group_input:
  assumes "group_column column" and "groupKey \<in> set (map fst (groupShells column))"
  shows "\<exists>input. groupInput column groupKey = Some input"
proof (cases "dc_type column = Some PCheckbox")
  case False
  with assms(1) have t: "dc_type column = Some PSelect" by (simp add: group_column_def isGroupableColumn_def)
  show ?thesis
  proof (cases groupKey)
    case (Some k)
    with assms(2) t obtain opt where "opt \<in> set (dc_options column)" "do_key opt = k" by (auto simp: groupShells_def)
    then obtain o' where "find (\<lambda>entry. do_key entry = k) (dc_options column) = Some o'"
      by (cases "find (\<lambda>entry. do_key entry = k) (dc_options column)") (auto simp: find_None_iff)
    with Some t show ?thesis by (simp add: groupInput_def)
  qed (use t in \<open>simp add: groupInput_def\<close>)
qed (simp add: groupInput_def)

lemma implied_presets:
  assumes columns: "keyed_columns columns" and column: "column \<in> set columns" "group_column column"
    and view: "dv_groupBy view = Some (dc_key column)" and k: "groupKey \<in> set (map fst (groupShells column))"
  shows "list_all preset_column (impliedPresets columns view (Some groupKey)) \<and>
    distinct (map (\<lambda>preset. dc_key (cp_column preset)) (impliedPresets columns view (Some groupKey))) \<and>
    (\<exists>input. groupInput column groupKey = Some input \<and> \<lparr>cp_column = column, cp_input = input\<rparr> \<in> set (impliedPresets columns view (Some groupKey)))"
proof -
  let ?byKey = "omap_from dc_key (\<lambda>c. c) columns"
  define presets where "presets = fold (preset_filter ?byKey) (dv_filters view) []"
  have p: "keyed_presets presets" unfolding presets_def by (rule preset_filters [OF columns]) (simp add: keyed_presets_def)
  from group_input [OF column(2) k] obtain input where i: "groupInput column groupKey = Some input" by blast
  have "find (\<lambda>c. dc_key c = dc_key column) columns = Some column"
    using column(1) columns by (auto simp: keyed_columns_def find_Some_iff in_set_conv_nth distinct_conv_nth)
  then have get: "omap_get ?byKey (dc_key column) = Some column" using columns by (simp add: keyed_columns_def omap_from_get)
  have t: "dc_type column \<noteq> None" using column(2) by (auto simp: group_column_def isGroupableColumn_def)
  let ?preset = "\<lparr>cp_column = column, cp_input = input\<rparr>"
  have all: "impliedPresets columns view (Some groupKey) = omap_values (omap_set (dc_key column) ?preset presets)"
    by (simp add: impliedPresets_def Let_def view get i t presets_def)
  have "preset_column ?preset" using column(2) t by (simp add: preset_column_def group_column_def)
  from keyed_presets_set [OF p this] have kp: "keyed_presets (omap_set (dc_key column) ?preset presets)" by simp
  have "(dc_key column, ?preset) \<in> set (omap_set (dc_key column) ?preset presets)"
    by (rule omap_get_in) simp
  then have "?preset \<in> set (impliedPresets columns view (Some groupKey))" unfolding all by force
  with keyed_presets_list [OF kp] i show ?thesis unfolding all by blast
qed

text \<open>C16. The operations planned for a new note of a board, run one after the other through the store, create the note in the board group it was added to, with every preset cell of the view set, and leave the open note open.\<close>

theorem new_note_lands_in_group:
  assumes "view_ok s" and "\<not> omap_has (st_sourceNodes s) noteId" and "noteId \<noteq> []" and "note_props s noteId = []"
    and "keyed_columns columns" and "column \<in> set columns" and "group_column column"
    and "dv_groupBy view = Some (dc_key column)" and "groupKey \<in> set (map fst (groupShells column))"
    and "planDatabaseNote s folderId title documentJson markdown (impliedPresets columns view (Some groupKey)) now noteId createId st =
      (Inr (Ready operations), st')"
  shows "\<exists>t. run_operations s operations = Some t \<and> st_activeNoteId t = st_activeNoteId s \<and> source_kind t noteId = Some KNote \<and>
    groupKeyOf ld (buildRow t noteId (readRowInputs t noteId) parentId path index) column (groupKeys column) = groupKey \<and>
    list_all (\<lambda>preset. cell_holds ld (buildRow t noteId (readRowInputs t noteId) parentId path index) (cp_column preset) (cp_input preset))
      (impliedPresets columns view (Some groupKey))"
proof -
  from implied_presets [OF assms(5-9)] obtain input where
    p: "list_all preset_column (impliedPresets columns view (Some groupKey))"
      "distinct (map (\<lambda>preset. dc_key (cp_column preset)) (impliedPresets columns view (Some groupKey)))" and
    i: "groupInput column groupKey = Some input" "\<lparr>cp_column = column, cp_input = input\<rparr> \<in> set (impliedPresets columns view (Some groupKey))" by blast
  from database_note_created [OF assms(1-4) p assms(10), of ld parentId path index] obtain t where
    t: "run_operations s operations = Some t" "st_activeNoteId t = st_activeNoteId s" "source_kind t noteId = Some KNote"
      "list_all (\<lambda>preset. cell_holds ld (buildRow t noteId (readRowInputs t noteId) parentId path index) (cp_column preset) (cp_input preset))
        (impliedPresets columns view (Some groupKey))" by blast
  then have "cell_holds ld (buildRow t noteId (readRowInputs t noteId) parentId path index) column input"
    using i(2) by (force simp: list_all_iff)
  from held_group [OF assms(7,9) i(1) this] t show ?thesis by blast
qed

section \<open>Samples\<close>

definition counter_ids :: "nat id_factory" where
  "counter_ids n kind = (''id'' @ nat_digits n, Suc n)"

definition state_column :: database_column where
  "state_column = \<lparr>dc_key = ''p:state'', dc_name = ''State'', dc_type = Some PSelect, dc_options =
     [\<lparr>do_key = ''open'', do_label = ''Open'', do_color = CRed\<rparr>, \<lparr>do_key = ''done'', do_label = ''Done'', do_color = CBlue\<rparr>]\<rparr>"

definition done_view :: database_view where
  "done_view = \<lparr>dv_layout = LBoard, dv_subfolders = True, dv_order = [], dv_hidden = [], dv_sorts = [], dv_filters = [],
     dv_groupBy = Some ''p:state'', dv_updatedAt = 0\<rparr>"

lemma sample_column: "group_column state_column" "Some ''done'' \<in> set (map fst (groupShells state_column))"
  "groupInput state_column (Some ''done'') = Some (InputLabels [''Done''])"
  by code_simp+

lemma sample_unset: "owned_ok (personContext sample_state) ''a'' (note_props sample_state ''a'')"
  by code_simp

lemma sample_plan: "\<exists>operations st'. planCellWrite sample_state ''a'' state_column (InputLabels [''Done'']) 5 counter_ids 0 = (Inr (Ready operations), st')"
proof -
  have "case fst (planCellWrite sample_state ''a'' state_column (InputLabels [''Done'']) 5 counter_ids 0) of Inr (Ready _) \<Rightarrow> True | _ \<Rightarrow> False"
    by code_simp
  then show ?thesis
    by (cases "planCellWrite sample_state ''a'' state_column (InputLabels [''Done'']) 5 counter_ids 0")
      (auto split: sum.splits database_write.splits)
qed

theorem planned_cell_is_stored_witness:
  "\<exists>operations st' t. planCellWrite sample_state ''a'' state_column (InputLabels [''Done'']) 5 counter_ids 0 = (Inr (Ready operations), st') \<and>
    run_operations sample_state operations = Some t \<and>
    cell_holds (\<lambda>_. 0) (buildRow t ''a'' (readRowInputs t ''a'') (Some ''f'') [] 0) state_column (InputLabels [''Done''])"
proof -
  from sample_plan obtain operations st' where
    p: "planCellWrite sample_state ''a'' state_column (InputLabels [''Done'']) 5 counter_ids 0 = (Inr (Ready operations), st')" by blast
  have "propertyColumnKey (dc_name state_column) = dc_key state_column" "dc_type state_column \<noteq> None" by code_simp+
  from planned_cell_is_stored [OF sample_view sample_unset this p, of "\<lambda>_. 0" "Some ''f''" "[]" 0] p show ?thesis by blast
qed

theorem card_lands_in_group_witness:
  "\<exists>operations st' t. planCellWrite sample_state ''a'' state_column (InputLabels [''Done'']) 5 counter_ids 0 = (Inr (Ready operations), st') \<and>
    run_operations sample_state operations = Some t \<and>
    groupKeyOf (\<lambda>_. 0) (buildRow t ''a'' (readRowInputs t ''a'') (Some ''f'') [] 0) state_column (groupKeys state_column) = Some ''done''"
proof -
  from sample_plan obtain operations st' where
    p: "planCellWrite sample_state ''a'' state_column (InputLabels [''Done'']) 5 counter_ids 0 = (Inr (Ready operations), st')" by blast
  from card_lands_in_group [OF sample_view sample_unset sample_column p, of "\<lambda>_. 0" "Some ''f''" "[]" 0] p show ?thesis by blast
qed

theorem new_note_lands_in_group_witness:
  "\<exists>operations st' t. planDatabaseNote sample_state (Some ''f'') ''New'' JNull [] (impliedPresets [state_column] done_view (Some (Some ''done'')))
      5 ''z'' counter_ids 0 = (Inr (Ready operations), st') \<and> run_operations sample_state operations = Some t \<and>
    groupKeyOf (\<lambda>_. 0) (buildRow t ''z'' (readRowInputs t ''z'') (Some ''f'') [] 0) state_column (groupKeys state_column) = Some ''done''"
proof -
  let ?plan = "planDatabaseNote sample_state (Some ''f'') ''New'' JNull [] (impliedPresets [state_column] done_view (Some (Some ''done''))) 5 ''z'' counter_ids 0"
  have "case fst ?plan of Inr (Ready _) \<Rightarrow> True | _ \<Rightarrow> False" by code_simp
  then obtain operations st' where p: "?plan = (Inr (Ready operations), st')"
    by (cases ?plan) (auto split: sum.splits database_write.splits)
  have "\<not> omap_has (st_sourceNodes sample_state) ''z''" "''z'' \<noteq> ([] :: string)" "note_props sample_state ''z'' = []"
    "keyed_columns [state_column]" "state_column \<in> set [state_column]" "dv_groupBy done_view = Some (dc_key state_column)" by code_simp+
  from new_note_lands_in_group [OF sample_view this(1-5) sample_column(1) this(6) sample_column(2) p, of "\<lambda>_. 0" "Some ''f''" "[]" 0] p
  show ?thesis by blast
qed

end
