(* ===== verification/Database_Embed.thy ===== *)
theory Database_Embed
  imports Store_State Text_Ops
begin

text \<open>
  \<open>database/embed.ts\<close>: the folder a database block names by its path, and the folders a block can
  name. The climb to the root is fuelled; \<open>None\<close> is a parent cycle.
\<close>

record embeddable_folder =
  ef_id :: string
  ef_path :: string

definition PATH_SEPARATOR :: char where "PATH_SEPARATOR = CHR ''/''"

definition foldTitle :: "string \<Rightarrow> string" where
  "foldTitle title = toLowerCase (js_trim title)"

definition pathSegments :: "string \<Rightarrow> string list" where
  "pathSegments path = filter (\<lambda>segment. segment \<noteq> []) (map js_trim (split_on PATH_SEPARATOR path))"

definition matches_segment :: "renderer_state \<Rightarrow> string \<Rightarrow> string \<Rightarrow> bool" where
  "matches_segment s segment childId \<longleftrightarrow>
     (case omap_get (st_nodes s) childId of
        None \<Rightarrow> False
      | Some child \<Rightarrow> nr_kind child = KFolder \<and> childId \<noteq> JOURNAL_ROOT_ID \<and> foldTitle (nr_title child) = foldTitle segment)"

fun resolve_segments :: "renderer_state \<Rightarrow> string option \<Rightarrow> string list \<Rightarrow> string option" where
  "resolve_segments s parentId [] = parentId"
| "resolve_segments s parentId (segment # segments) =
     (case find (matches_segment s segment) (omap_getd [] (st_childrenByParent s) parentId) of
        None \<Rightarrow> None
      | Some match \<Rightarrow> resolve_segments s (Some match) segments)"

definition resolveFolderPath :: "renderer_state \<Rightarrow> string \<Rightarrow> string option" where
  "resolveFolderPath s path =
     (let segments = pathSegments path in if segments = [] then None else resolve_segments s None segments)"

fun climb_titles :: "nat \<Rightarrow> renderer_state \<Rightarrow> node_record option \<Rightarrow> bool \<Rightarrow> string list \<Rightarrow> (bool \<times> string list) option" where
  "climb_titles fuel s None inside titles = Some (inside, titles)"
| "climb_titles 0 s (Some current) inside titles = None"
| "climb_titles (Suc fuel) s (Some current) inside titles =
     climb_titles fuel s (case nr_parentId current of None \<Rightarrow> None | Some p \<Rightarrow> omap_get (st_nodes s) p)
       (inside \<or> nr_id current = JOURNAL_ROOT_ID) (js_trim (nr_title current) # titles)"

definition embeddable_one :: "renderer_state \<Rightarrow> string \<Rightarrow> embeddable_folder list option" where
  "embeddable_one s i =
     (case omap_get (st_nodes s) i of
        None \<Rightarrow> Some []
      | Some node \<Rightarrow>
          if nr_kind node \<noteq> KFolder \<or> i = JOURNAL_ROOT_ID then Some []
          else map_option (\<lambda>(inside, titles).
            if inside \<or> list_ex (\<lambda>title. title = [] \<or> PATH_SEPARATOR \<in> set title) titles then []
            else [\<lparr>ef_id = i, ef_path = join [PATH_SEPARATOR] titles\<rparr>])
            (climb_titles (length (st_nodes s)) s (Some node) False []))"

definition embeddableFolders :: "renderer_state \<Rightarrow> embeddable_folder list option" where
  "embeddableFolders s = map_option concat (those (map (embeddable_one s) (st_nodeOrder s)))"

end
