(* ===== verification/Embed_Theorems.thy ===== *)
theory Embed_Theorems
  imports Database_Embed Rows_Theorems
begin

text \<open>
  The path a database block stores for a folder leads back to the folder, as long as no two sibling
  folders have the same title; with duplicate titles it may lead nowhere.
\<close>

section \<open>Paths\<close>

lemma split_part: "d \<notin> set w \<Longrightarrow> split_on d w = [w]"
  by (induction w) auto

lemma split_part_more: "d \<notin> set w \<Longrightarrow> split_on d (w @ d # s) = w # split_on d s"
  by (induction w) auto

lemma split_join: "ws \<noteq> [] \<Longrightarrow> list_all (\<lambda>w. d \<notin> set w) ws \<Longrightarrow> split_on d (join [d] ws) = ws"
  by (induction "[d]" ws rule: join.induct) (simp_all add: split_part split_part_more)

lemma path_segments:
  assumes "titles \<noteq> []" and "list_all (\<lambda>t. t \<noteq> [] \<and> PATH_SEPARATOR \<notin> set t \<and> js_trim t = t) titles"
  shows "pathSegments (join [PATH_SEPARATOR] titles) = titles"
proof -
  have "map js_trim titles = titles" using assms(2) by (simp add: list_all_iff map_idI)
  moreover have "filter (\<lambda>t. t \<noteq> []) titles = titles" using assms(2) by (simp add: list_all_iff)
  moreover have "split_on PATH_SEPARATOR (join [PATH_SEPARATOR] titles) = titles"
    using assms by (intro split_join) (auto simp: list_all_iff)
  ultimately show ?thesis by (simp add: pathSegments_def)
qed

section \<open>Climbing\<close>

text \<open>The chain of available nodes from a root of the tree down to a node.\<close>

inductive chain_to :: "workspace_node list \<Rightarrow> workspace_node list \<Rightarrow> workspace_node \<Rightarrow> bool" for ns where
  chain_root: "n \<in> set ns \<Longrightarrow> n_parentId n = None \<Longrightarrow> chain_to ns [n] n"
| chain_child: "chain_to ns c p \<Longrightarrow> n \<in> set ns \<Longrightarrow> n_parentId n = Some (n_id p) \<Longrightarrow> chain_to ns (c @ [n]) n"

inductive_cases chain_childE: "chain_to ns c n"

lemma chain_exists:
  assumes "parents_first n_id n_parentId {n. n_parentId n = None} ns"
    and "i < length ns"
  shows "\<exists>c. chain_to ns c (ns ! i) \<and> length c \<le> Suc i"
  using assms(2)
proof (induction i rule: less_induct)
  case (less i)
  have "ns = take i ns @ ns ! i # drop (Suc i) ns" using less.prems by (rule id_take_nth_drop)
  with assms(1) have "n_parentId (ns ! i) = None \<or> (\<exists>p \<in> set (take i ns). n_parentId (ns ! i) = Some (n_id p))"
    unfolding parents_first_def by blast
  then show ?case
  proof
    assume "n_parentId (ns ! i) = None"
    with less.prems have "chain_to ns [ns ! i] (ns ! i)" by (intro chain_root) simp_all
    then show ?thesis by force
  next
    assume "\<exists>p \<in> set (take i ns). n_parentId (ns ! i) = Some (n_id p)"
    then obtain j where j: "j < i" "n_parentId (ns ! i) = Some (n_id (ns ! j))" using less.prems by (auto simp: in_set_conv_nth)
    with less.IH [of j] less.prems obtain c where "chain_to ns c (ns ! j)" "length c \<le> Suc j" by auto
    with j less.prems show ?thesis by (intro exI [of _ "c @ [ns ! i]"]) (auto intro: chain_child)
  qed
qed

definition full_tree :: "renderer_state \<Rightarrow> workspace_node list \<Rightarrow> bool" where
  "full_tree s ns \<longleftrightarrow> distinct (map n_id ns) \<and> parents_first n_id n_parentId {n. n_parentId n = None} ns \<and>
     (\<forall>n \<in> set ns. \<exists>r. omap_get (st_nodes s) (n_id n) = Some r \<and> row_of n r) \<and>
     (\<forall>p. omap_getd [] (st_childrenByParent s) p = map n_id (filter (\<lambda>n. n_parentId n = p) ns)) \<and>
     st_nodeOrder s = map n_id ns \<and> length ns \<le> length (st_nodes s)"

lemma view_full_tree:
  assumes "view_ok s"
  shows "full_tree s (tree_nodes s)"
proof -
  from assms obtain ordered where n: "nodes_ok (st_sourceNodes s)" and r: "rows_ok s ordered" by (auto simp: view_ok_def)
  have o: "orderAvailableNodes (omap_values (st_sourceNodes s)) = Some ordered"
    and ix: "st_nodes s = ix_nodes (buildNodeIndex ordered)" "st_childrenByParent s = ix_children (buildNodeIndex ordered)"
      "st_nodeOrder s = ix_order (buildNodeIndex ordered)" using r by (simp_all add: rows_ok_def)
  note f = ordered_facts [OF n o]
  have "set (map n_id ordered) \<subseteq> set (omap_keys (st_nodes s))" using rows_facts(1) [OF n r] by (auto simp: omap_has_def)
  then have "card (set (map n_id ordered)) \<le> length (st_nodes s)"
    by (metis List.finite_set card_length card_mono length_map order_trans)
  then have "length ordered \<le> length (st_nodes s)" using distinct_card [OF f(1)] by simp
  moreover have "\<exists>r. omap_get (st_nodes s) (n_id n) = Some r \<and> row_of n r" if "n \<in> set ordered" for n
    using build_index_row [OF f(1,2) that] unfolding ix(1) by blast
  moreover have order: "st_nodeOrder s = map n_id ordered" by (simp add: ix(3) build_parts index_rows_order)
  moreover have "omap_getd [] (st_childrenByParent s) p = map n_id (filter (\<lambda>n. n_parentId n = p) ordered)" for p
    by (simp only: ix(2) build_index_children)
  ultimately have "full_tree s ordered" using f(1,2) unfolding full_tree_def by blast
  moreover have "tree_nodes s = ordered" using f(3) by (simp add: tree_nodes_def order map_idI)
  ultimately show ?thesis by simp
qed

lemma climb_chain:
  assumes t: "full_tree s ns"
  shows "chain_to ns c n \<Longrightarrow> omap_get (st_nodes s) (n_id n) = Some r \<Longrightarrow> length c \<le> fuel \<Longrightarrow>
    climb_titles fuel s (Some r) inside titles =
      Some (inside \<or> list_ex (\<lambda>m. n_id m = JOURNAL_ROOT_ID) c, map (\<lambda>m. js_trim (n_title m)) c @ titles)"
proof (induction c n arbitrary: fuel inside titles r rule: chain_to.induct)
  case (chain_root n)
  then have "row_of n r" using t by (auto simp: full_tree_def)
  with chain_root show ?case by (cases fuel) (auto simp: row_of_def)
next
  case (chain_child c p n)
  then have row: "row_of n r" using t by (auto simp: full_tree_def)
  have "p \<in> set ns" using chain_child.hyps(1) by cases
  with t obtain q where q: "omap_get (st_nodes s) (n_id p) = Some q" by (auto simp: full_tree_def)
  from chain_child.prems(2) obtain f where f: "fuel = Suc f" "length c \<le> f" by (cases fuel) auto
  have step: "climb_titles fuel s (Some r) inside titles =
      climb_titles f s (Some q) (inside \<or> n_id n = JOURNAL_ROOT_ID) (js_trim (n_title n) # titles)"
    using row f(1) q chain_child.hyps(3) by (simp add: row_of_def)
  show ?case unfolding step chain_child.IH [OF q f(2)] by (simp add: disj_assoc disj_commute)
qed

section \<open>Resolving\<close>

text \<open>No two folders under the same parent have the same title.\<close>

definition unique_titles :: "workspace_node list \<Rightarrow> bool" where
  "unique_titles ns \<longleftrightarrow> (\<forall>p. distinct (map (\<lambda>n. foldTitle (n_title n)) (filter (\<lambda>n. n_parentId n = p \<and> n_kind n = KFolder) ns)))"

lemma find_unique:
  "x \<in> set xs \<Longrightarrow> P x \<Longrightarrow> (\<And>y. y \<in> set xs \<Longrightarrow> P y \<Longrightarrow> y = x) \<Longrightarrow> find P xs = Some x"
proof (induction xs)
  case (Cons y ys)
  show ?case
  proof (cases "P y")
    case True
    with Cons.prems(3) [of y] show ?thesis by simp
  next
    case False
    with Cons.prems(1,2) have "x \<in> set ys" by auto
    then have "find P ys = Some x" by (rule Cons.IH [OF _ Cons.prems(2) Cons.prems(3)]) simp_all
    with False show ?thesis by simp
  qed
qed simp

lemma resolve_chain:
  assumes t: "full_tree s ns" and u: "unique_titles ns"
  shows "chain_to ns c n \<Longrightarrow> list_all (\<lambda>m. n_kind m = KFolder \<and> n_id m \<noteq> JOURNAL_ROOT_ID) c \<Longrightarrow>
    resolve_segments s None (map (\<lambda>m. js_trim (n_title m)) c @ rest) = resolve_segments s (Some (n_id n)) rest"
proof -
  have step: "resolve_segments s p (js_trim (n_title n) # rest) = resolve_segments s (Some (n_id n)) rest"
    if n: "n \<in> set ns" "n_parentId n = p" "n_kind n = KFolder" "n_id n \<noteq> JOURNAL_ROOT_ID" for n p rest
  proof -
    have match: "matches_segment s (js_trim (n_title n)) (n_id m) \<longleftrightarrow>
        n_kind m = KFolder \<and> n_id m \<noteq> JOURNAL_ROOT_ID \<and> foldTitle (n_title m) = foldTitle (n_title n)" if "m \<in> set ns" for m
    proof -
      from t that obtain r where "omap_get (st_nodes s) (n_id m) = Some r" "row_of m r" by (auto simp: full_tree_def)
      then show ?thesis by (simp add: matches_segment_def row_of_def foldTitle_def trimmed_trim)
    qed
    have "find (matches_segment s (js_trim (n_title n))) (map n_id (filter (\<lambda>m. n_parentId m = p) ns)) = Some (n_id n)"
    proof (rule find_unique)
      show "n_id n \<in> set (map n_id (filter (\<lambda>m. n_parentId m = p) ns))" using n by simp
      show "matches_segment s (js_trim (n_title n)) (n_id n)" using match n by simp
      fix y assume "y \<in> set (map n_id (filter (\<lambda>m. n_parentId m = p) ns))" "matches_segment s (js_trim (n_title n)) y"
      then obtain m where m: "m \<in> set ns" "n_parentId m = p" "y = n_id m" "n_kind m = KFolder" "foldTitle (n_title m) = foldTitle (n_title n)"
        using match by auto
      from u have "inj_on (\<lambda>n. foldTitle (n_title n)) (set (filter (\<lambda>n. n_parentId n = p \<and> n_kind n = KFolder) ns))"
        by (simp add: unique_titles_def distinct_map)
      with m n have "m = n" by (auto simp: inj_on_def)
      with m show "y = n_id n" by simp
    qed
    moreover from t have "omap_getd [] (st_childrenByParent s) p = map n_id (filter (\<lambda>n. n_parentId n = p) ns)" by (simp add: full_tree_def)
    ultimately show ?thesis by simp
  qed
  show "resolve_segments s None (map (\<lambda>m. js_trim (n_title m)) c @ rest) = resolve_segments s (Some (n_id n)) rest"
    if "chain_to ns c n" "list_all (\<lambda>m. n_kind m = KFolder \<and> n_id m \<noteq> JOURNAL_ROOT_ID) c"
    using that
  proof (induction c n arbitrary: rest rule: chain_to.induct)
    case (chain_root n)
    with step show ?case by simp
  next
    case (chain_child c p n)
    then have "resolve_segments s None (map (\<lambda>m. js_trim (n_title m)) c @ js_trim (n_title n) # rest) =
        resolve_segments s (Some (n_id p)) (js_trim (n_title n) # rest)" by simp
    also have "\<dots> = resolve_segments s (Some (n_id n)) rest" using chain_child by (intro step) simp_all
    finally show ?case by simp
  qed
qed

section \<open>Embeddable folders\<close>

text \<open>Only folders have children.\<close>

definition folder_parents :: "workspace_node list \<Rightarrow> bool" where
  "folder_parents ns \<longleftrightarrow> list_all (\<lambda>n. list_all (\<lambda>p. n_parentId n = Some (n_id p) \<longrightarrow> n_kind p = KFolder) ns) ns"

lemma chain_member: "chain_to ns c n \<Longrightarrow> n \<in> set ns"
  by (erule chain_childE) auto

lemma chain_folders: "chain_to ns c n \<Longrightarrow> folder_parents ns \<Longrightarrow> n_kind n = KFolder \<Longrightarrow> list_all (\<lambda>m. n_kind m = KFolder) c"
proof (induction rule: chain_to.induct)
  case (chain_child c p n)
  with chain_member [OF chain_child.hyps(1)] show ?case by (auto simp: folder_parents_def list_all_iff)
qed simp

lemma those_map_total: "(\<And>x. x \<in> set xs \<Longrightarrow> f x = Some (g x)) \<Longrightarrow> those (map f xs) = Some (map g xs)"
  by (induction xs) auto

text \<open>What is listed for one node of the tree.\<close>

lemma one_folder:
  assumes t: "full_tree s ns" and n: "n \<in> set ns"
  shows "\<exists>fs. embeddable_one s (n_id n) = Some fs \<and>
    (\<forall>f \<in> set fs. ef_id f = n_id n \<and> n_kind n = KFolder \<and> (\<exists>c. chain_to ns c n \<and> c \<noteq> [] \<and>
      list_all (\<lambda>m. n_id m \<noteq> JOURNAL_ROOT_ID) c \<and> ef_path f = join [PATH_SEPARATOR] (map (\<lambda>m. js_trim (n_title m)) c) \<and>
      list_all (\<lambda>t. t \<noteq> [] \<and> PATH_SEPARATOR \<notin> set t \<and> js_trim t = t) (map (\<lambda>m. js_trim (n_title m)) c)))"
proof -
  from t n obtain r where r: "omap_get (st_nodes s) (n_id n) = Some r" "row_of n r" by (auto simp: full_tree_def)
  from n obtain i where i: "i < length ns" "ns ! i = n" by (auto simp: in_set_conv_nth)
  from t chain_exists [OF _ i(1)] i(2) obtain c where c: "chain_to ns c n" "length c \<le> Suc i" by (auto simp: full_tree_def)
  with i(1) t have "length c \<le> length (st_nodes s)" by (simp add: full_tree_def)
  from climb_chain [OF t c(1) r(1) this, of False "[]"] have climb:
    "climb_titles (length (st_nodes s)) s (Some r) False [] =
      Some (list_ex (\<lambda>m. n_id m = JOURNAL_ROOT_ID) c, map (\<lambda>m. js_trim (n_title m)) c)" by simp
  have "c \<noteq> []" using c(1) by cases auto
  show ?thesis
  proof (cases "nr_kind r \<noteq> KFolder \<or> n_id n = JOURNAL_ROOT_ID")
    case True
    with r(1) have "embeddable_one s (n_id n) = Some []" by (simp add: embeddable_one_def)
    then show ?thesis by simp
  next
    case False
    let ?titles = "map (\<lambda>m. js_trim (n_title m)) c"
    let ?bad = "list_ex (\<lambda>m. n_id m = JOURNAL_ROOT_ID) c \<or> list_ex (\<lambda>title. title = [] \<or> PATH_SEPARATOR \<in> set title) ?titles"
    from r(1) False climb have one: "embeddable_one s (n_id n) =
        Some (if ?bad then [] else [\<lparr>ef_id = n_id n, ef_path = join [PATH_SEPARATOR] ?titles\<rparr>])" by (simp add: embeddable_one_def)
    have "list_all (\<lambda>m. n_id m \<noteq> JOURNAL_ROOT_ID) c" "list_all (\<lambda>t. t \<noteq> [] \<and> PATH_SEPARATOR \<notin> set t \<and> js_trim t = t) ?titles" if "\<not> ?bad"
      using that by (auto simp: list_all_iff list_ex_iff trimmed_trim)
    with c(1) \<open>c \<noteq> []\<close> False r(2) one show ?thesis by (cases ?bad) (auto simp: row_of_def)
  qed
qed

theorem embedded_path_leads_back:
  assumes v: "view_ok s" and u: "unique_titles (tree_nodes s)" and f: "folder_parents (tree_nodes s)"
  shows "\<exists>folders. embeddableFolders s = Some folders \<and>
    list_all (\<lambda>folder. resolveFolderPath s (ef_path folder) = Some (ef_id folder)) folders"
proof -
  note t = view_full_tree [OF v]
  have "resolveFolderPath s (ef_path folder) = Some (ef_id folder)"
    if n: "n \<in> set (tree_nodes s)" and "embeddable_one s (n_id n) = Some fs" and "folder \<in> set fs" for n fs folder
  proof -
    from one_folder [OF t n] that(2,3) obtain c where c: "chain_to (tree_nodes s) c n" "c \<noteq> []" "ef_id folder = n_id n" "n_kind n = KFolder"
      "list_all (\<lambda>m. n_id m \<noteq> JOURNAL_ROOT_ID) c" "ef_path folder = join [PATH_SEPARATOR] (map (\<lambda>m. js_trim (n_title m)) c)"
      "list_all (\<lambda>t. t \<noteq> [] \<and> PATH_SEPARATOR \<notin> set t \<and> js_trim t = t) (map (\<lambda>m. js_trim (n_title m)) c)" by auto
    have "list_all (\<lambda>m. n_kind m = KFolder \<and> n_id m \<noteq> JOURNAL_ROOT_ID) c"
      using chain_folders [OF c(1) f c(4)] c(5) by (simp add: list_all_iff)
    from resolve_chain [OF t u c(1) this, of "[]"] show ?thesis
      using c(2) path_segments [OF _ c(7)] by (simp add: resolveFolderPath_def Let_def c(3,6))
  qed
  moreover have "\<exists>folders. embeddableFolders s = Some folders \<and>
      (\<forall>folder \<in> set folders. \<exists>n \<in> set (tree_nodes s). \<exists>fs. embeddable_one s (n_id n) = Some fs \<and> folder \<in> set fs)"
  proof -
    have order: "st_nodeOrder s = map n_id (tree_nodes s)" using t by (simp add: full_tree_def)
    have "embeddable_one s (n_id n) = Some (the (embeddable_one s (n_id n)))" if "n \<in> set (tree_nodes s)" for n
      using one_folder [OF t that] by auto
    then have "those (map (embeddable_one s) (st_nodeOrder s)) = Some (map (\<lambda>n. the (embeddable_one s (n_id n))) (tree_nodes s))"
      unfolding order map_map by (intro those_map_total) simp
    then have e: "embeddableFolders s = Some (concat (map (\<lambda>n. the (embeddable_one s (n_id n))) (tree_nodes s)))" by (simp add: embeddableFolders_def)
    show ?thesis unfolding e using one_folder [OF t] by fastforce
  qed
  ultimately show ?thesis by (fastforce simp: list_all_iff)
qed

section \<open>Samples\<close>

text \<open>Two root folders named \<open>A\<close>; only the second has a folder \<open>B\<close>.\<close>

definition named_folder :: "string \<Rightarrow> string option \<Rightarrow> string \<Rightarrow> workspace_node" where
  "named_folder i parent title = (tree_node i KFolder parent 1 None)\<lparr>n_title := title\<rparr>"

definition twin_state :: renderer_state where
  "twin_state = new_snapshot (sample_snapshot\<lparr>sn_nodes :=
     [named_folder ''1'' None ''A'', named_folder ''2'' None ''A'', named_folder ''3'' (Some ''2'') ''B'']\<rparr>) None emptyReferenceBootstrap"

theorem duplicate_titles_hide_folder:
  "embeddableFolders twin_state =
     Some [\<lparr>ef_id = ''1'', ef_path = ''A''\<rparr>, \<lparr>ef_id = ''2'', ef_path = ''A''\<rparr>, \<lparr>ef_id = ''3'', ef_path = ''A/B''\<rparr>] \<and>
   resolveFolderPath twin_state ''A'' = Some ''1'' \<and> resolveFolderPath twin_state ''A/B'' = None"
  by code_simp

theorem embedded_path_leads_back_witness:
  "\<exists>folders. embeddableFolders sample_state = Some folders \<and>
    list_all (\<lambda>folder. resolveFolderPath sample_state (ef_path folder) = Some (ef_id folder)) folders"
proof (rule embedded_path_leads_back [OF sample_view])
  have nodes: "map (\<lambda>n. (n_id n, n_kind n, n_parentId n)) (tree_nodes sample_state) = [(''f'', KFolder, None), (''a'', KNote, Some ''f'')]" by code_simp
  then obtain x y where xy: "tree_nodes sample_state = [x, y]" "n_kind x = KFolder" "n_kind y = KNote" "n_parentId x = None" "n_parentId y = Some (n_id x)"
    "n_id x = ''f''" "n_id y = ''a''"
    by (cases "tree_nodes sample_state"; cases "tl (tree_nodes sample_state)") auto
  then show "unique_titles (tree_nodes sample_state)" "folder_parents (tree_nodes sample_state)"
    by (auto simp: unique_titles_def folder_parents_def)
qed

end
