(* ===== verification/Date_Expressions.thy ===== *)
theory Date_Expressions
  imports Dates Text_Ops
begin

text \<open>
  \<open>journal/date-expressions.ts\<close>: the date grammar behind "Go to date". A year or a shift that
  the code may compute as \<open>NaN\<close> is an \<open>int option\<close>, a key that may be \<open>undefined\<close> a
  \<open>string option\<close>. \<open>UNITS\<close> and \<open>DIRECTIONS\<close> are object literals: of the lower-case words
  \<open>constructor\<close> and \<open>__proto__\<close> are inherited by every object, and \<open>InheritedUnit\<close> and
  \<open>InheritedDirection\<close> stand for what those lookups find. Integers are exact where the code
  rounds numbers above \<open>2^53\<close>: such a number is refused either way, only the day quoted in
  the message differs. The \<open>Intl\<close> labels and the punctuation outside the first 256 code
  units are parameters.
\<close>

section \<open>Outcomes\<close>

datatype granularity = GDay | GMonth | GYear

datatype refusal =
    YearOutside string
  | NoSuchMonth int
  | NotRealDate int int int
  | NotMonthDayOrYear string
  | NotLikeADate
  | TooManyParts
  | TwoOrFourDigits
  | LandsOutside
  | NothingTyped
  | NotUnderstood string

datatype date_outcome = Found "string option" granularity | Invalid refusal

datatype journal_date_resolution = Resolved string granularity string | Refused refusal

definition JOURNAL_YEAR_MIN :: int where "JOURNAL_YEAR_MIN = 1000"
definition JOURNAL_YEAR_MAX :: int where "JOURNAL_YEAR_MAX = 9999"
definition BARE_YEAR_MIN :: int where "BARE_YEAR_MIN = 1900"
definition BARE_YEAR_MAX :: int where "BARE_YEAR_MAX = 2999"
definition TWO_DIGIT_YEAR_LOOKAHEAD :: int where "TWO_DIGIT_YEAR_LOOKAHEAD = 20"

definition MONTH_NAMES :: "string list" where
  "MONTH_NAMES = [''january'', ''february'', ''march'', ''april'', ''may'', ''june'', ''july'',
     ''august'', ''september'', ''october'', ''november'', ''december'']"

definition WEEKDAY_NAMES :: "string list" where
  "WEEKDAY_NAMES = [''monday'', ''tuesday'', ''wednesday'', ''thursday'', ''friday'', ''saturday'', ''sunday'']"

definition MONTH_LABELS :: "string list" where
  "MONTH_LABELS = [''January'', ''February'', ''March'', ''April'', ''May'', ''June'', ''July'',
     ''August'', ''September'', ''October'', ''November'', ''December'']"

text \<open>The texts of the refusals, given the en dash and the curly quotes.\<close>

record punctuation =
  pu_dash :: string
  pu_open :: string
  pu_close :: string

fun refusal_text :: "punctuation \<Rightarrow> refusal \<Rightarrow> string" where
  "refusal_text p (YearOutside y) =
     ''Year '' @ y @ '' is outside the journal's range of 1000'' @ pu_dash p @ ''9999.''"
| "refusal_text p (NoSuchMonth m) = ''There's no month '' @ int_string m @ ''.''"
| "refusal_text p (NotRealDate y m d) =
     MONTH_LABELS ! nat (m - 1) @ '' '' @ int_string d @ '' isn't a real date in '' @ int_string y @ ''.''"
| "refusal_text p (NotMonthDayOrYear t) =
     pu_open p @ t @ pu_close p @ '' isn't a month and day like 0312, or a year from 1900 to 2999.''"
| "refusal_text p NotLikeADate = ''That doesn't look like a date.''"
| "refusal_text p TooManyParts = ''That date has too many parts.''"
| "refusal_text p TwoOrFourDigits = ''Write the year with two or four digits, like 2-12-25 or 2-12-2025.''"
| "refusal_text p LandsOutside =
     ''That lands outside the journal's range of 1000'' @ pu_dash p @ ''9999.''"
| "refusal_text p NothingTyped =
     ''Type a date, like '' @ pu_open p @ ''tomorrow'' @ pu_close p @ '', '' @ pu_open p @
     ''next week thursday'' @ pu_close p @ '', or '' @ pu_open p @ ''3/12'' @ pu_close p @ ''.''"
| "refusal_text p (NotUnderstood t) =
     pu_open p @ t @ pu_close p @ '' isn't a date the journal understands.''"

section \<open>Words\<close>

datatype direction = Step int | InheritedDirection

definition DIRECTIONS :: "(string, int) omap" where
  "DIRECTIONS = [(''next'', 1), (''last'', -1), (''previous'', -1), (''prev'', -1), (''this'', 0), (''current'', 0)]"

datatype unit_word = DayUnit | WeekUnit | MonthUnit | YearUnit | InheritedUnit

definition UNITS :: "(string, unit_word) omap" where
  "UNITS = [(''day'', DayUnit), (''days'', DayUnit), (''week'', WeekUnit), (''weeks'', WeekUnit),
     (''month'', MonthUnit), (''months'', MonthUnit), (''year'', YearUnit), (''years'', YearUnit)]"

text \<open>The lower-case names found on \<open>Object.prototype\<close>.\<close>

definition inherited_word :: "string \<Rightarrow> bool" where
  "inherited_word word \<longleftrightarrow> word = ''constructor'' \<or> word = ''__proto__''"

definition direction_of :: "string \<Rightarrow> direction option" where
  "direction_of word =
     (case omap_get DIRECTIONS word of
        Some n \<Rightarrow> Some (Step n)
      | None \<Rightarrow> if inherited_word word then Some InheritedDirection else None)"

definition unit_of :: "string \<Rightarrow> unit_word option" where
  "unit_of word =
     (case omap_get UNITS word of
        Some u \<Rightarrow> Some u
      | None \<Rightarrow> if inherited_word word then Some InheritedUnit else None)"

text \<open>A direction as a number: an object or a function is \<open>NaN\<close>.\<close>

fun direction_number :: "direction \<Rightarrow> int option" where
  "direction_number (Step n) = Some n"
| "direction_number InheritedDirection = None"

definition all_digits :: "string \<Rightarrow> bool" where
  "all_digits s \<longleftrightarrow> s \<noteq> [] \<and> list_all is_digit s"

definition number_of :: "string \<Rightarrow> int" where
  "number_of s = int (digits_value s)"

definition indexByPrefix :: "string list \<Rightarrow> string \<Rightarrow> nat option" where
  "indexByPrefix names word =
     (if length word < 3 then None
      else case concat (map (\<lambda>(i, name). if startsWith name word then [i] else []) (enumerate 0 names)) of
             [i] \<Rightarrow> Some i
           | _ \<Rightarrow> None)"

definition monthIndex :: "string \<Rightarrow> nat option" where
  "monthIndex word = indexByPrefix MONTH_NAMES word"

text \<open>An inherited alias is no prefix of a weekday, like the word itself.\<close>

definition weekdayIndex :: "string \<Rightarrow> nat option" where
  "weekdayIndex word =
     indexByPrefix WEEKDAY_NAMES
       (if word = ''weds'' then ''wednesday'' else if word = ''tues'' then ''tuesday'' else word)"

section \<open>Parts of a date\<close>

text \<open>Years are \<open>None\<close> for \<open>NaN\<close>, which prints as such and is in no range.\<close>

definition yearOf :: "string \<Rightarrow> int option" where
  "yearOf key = map_option getFullYear (parseDateKey key)"

definition inYearRange :: "int option \<Rightarrow> bool" where
  "inYearRange year = (case year of None \<Rightarrow> False | Some y \<Rightarrow> JOURNAL_YEAR_MIN \<le> y \<and> y \<le> JOURNAL_YEAR_MAX)"

definition year_text :: "int option \<Rightarrow> string" where
  "year_text year = (case year of None \<Rightarrow> ''NaN'' | Some y \<Rightarrow> int_string y)"

definition keyOf :: "int \<Rightarrow> int \<Rightarrow> int \<Rightarrow> string" where
  "keyOf year month day =
     padStart 4 (int_string year) @ ''-'' @ padStart 2 (int_string month) @ ''-'' @ padStart 2 (int_string day)"

text \<open>\<open>new Date(year, month, 0).getDate()\<close> for a month from 1, in the range of dates.\<close>

definition daysInMonth :: "int \<Rightarrow> int \<Rightarrow> int option" where
  "daysInMonth year month = map_option getDate (new_date year month 0)"

definition dayFromParts :: "int option \<Rightarrow> int \<Rightarrow> int \<Rightarrow> date_outcome" where
  "dayFromParts year month day =
     (if \<not> inYearRange year then Invalid (YearOutside (year_text year))
      else let y = the year
        in if month < 1 \<or> month > 12 then Invalid (NoSuchMonth month)
           else if day < 1 \<or> (case daysInMonth y month of None \<Rightarrow> False | Some n \<Rightarrow> day > n)
           then Invalid (NotRealDate y month day)
           else Found (Some (keyOf y month day)) GDay)"

definition monthFromParts :: "int option \<Rightarrow> int \<Rightarrow> string \<Rightarrow> date_outcome" where
  "monthFromParts year month yearText =
     (if \<not> inYearRange year then Invalid (YearOutside yearText)
      else if month < 1 \<or> month > 12 then Invalid (NoSuchMonth month)
      else Found (Some (keyOf (the year) month 1)) GMonth)"

definition expandTwoDigitYear :: "int \<Rightarrow> string \<Rightarrow> int option" where
  "expandTwoDigitYear n today =
     map_option (\<lambda>year.
       let latest = year + TWO_DIGIT_YEAR_LOOKAHEAD;
           candidate = latest div 100 * 100 + n
       in if candidate > latest then candidate - 100 else candidate) (yearOf today)"

text \<open>The outer \<open>None\<close> is \<open>null\<close>.\<close>

definition yearFromText :: "string \<Rightarrow> string \<Rightarrow> int option option" where
  "yearFromText t today =
     (if length t = 2 then Some (expandTwoDigitYear (number_of t) today)
      else if length t = 4 then Some (Some (number_of t)) else None)"

text \<open>A switch over an inherited unit falls through to \<open>undefined\<close>.\<close>

fun shiftUnits :: "string \<Rightarrow> unit_word \<Rightarrow> int option \<Rightarrow> string option" where
  "shiftUnits context DayUnit amount = Some (shift_by context amount)"
| "shiftUnits context WeekUnit amount = Some (shift_by context (map_option (\<lambda>n. n * 7) amount))"
| "shiftUnits context MonthUnit amount =
     Some (case amount of None \<Rightarrow> dateKeyOf None | Some n \<Rightarrow> shiftMonthKeepingDay context n)"
| "shiftUnits context YearUnit amount =
     Some (case amount of None \<Rightarrow> dateKeyOf None | Some n \<Rightarrow> shiftYearKeepingDay context n)"
| "shiftUnits context InheritedUnit amount = None"

definition weekdayInWeek :: "string \<Rightarrow> nat \<Rightarrow> int option \<Rightarrow> string" where
  "weekdayInWeek context index weekOffset =
     shift_by (weekStart context) (map_option (\<lambda>n. n * 7 + int index) weekOffset)"

section \<open>Numbers\<close>

definition resolveDigitRun :: "string \<Rightarrow> string \<Rightarrow> date_outcome" where
  "resolveDigitRun t context =
     (let year = map_option fst (monthOfKey context);
          month = (case monthOfKey context of None \<Rightarrow> 0 | Some m \<Rightarrow> snd m)
      in if length t \<le> 2 then dayFromParts year (month + 1) (number_of t)
         else if length t = 3 then dayFromParts year (number_of (take 1 t)) (number_of (drop 1 t))
         else if length t = 4 then
           (let v = number_of t
            in if BARE_YEAR_MIN \<le> v \<and> v \<le> BARE_YEAR_MAX then Found (Some (keyOf v 1 1)) GYear
               else case dayFromParts year (number_of (take 2 t)) (number_of (drop 2 t)) of
                 Found key g \<Rightarrow> Found key g
               | Invalid r \<Rightarrow> Invalid (NotMonthDayOrYear t))
         else if length t = 8 then
           (let yearText = take 4 t
            in if \<not> inYearRange (Some (number_of yearText)) then Invalid (YearOutside yearText)
               else dayFromParts (Some (number_of yearText)) (number_of (take 2 (drop 4 t))) (number_of (drop 6 t)))
         else Invalid NotLikeADate)"

text \<open>\<open>split\<close> at each run of separators.\<close>

definition separator :: "char \<Rightarrow> bool" where
  "separator c \<longleftrightarrow> js_space c \<or> c = CHR ''-'' \<or> c = CHR ''/'' \<or> c = CHR ''.''"

function split_runs :: "string \<Rightarrow> string list" where
  "split_runs s =
     (let r = dropWhile (\<lambda>c. \<not> separator c) s
      in if r = [] then [s]
         else takeWhile (\<lambda>c. \<not> separator c) s # split_runs (dropWhile separator r))"
  by pat_completeness auto

lemma split_runs_shorter:
  assumes "dropWhile (\<lambda>c. \<not> separator c) s \<noteq> []"
  shows "length (dropWhile separator (dropWhile (\<lambda>c. \<not> separator c) s)) < length s"
proof -
  let ?r = "dropWhile (\<lambda>c. \<not> separator c) s"
  from assms obtain c q where r: "?r = c # q" "separator c"
    using hd_dropWhile [OF assms] by (cases ?r) auto
  then have "length (dropWhile separator ?r) \<le> length q" by (simp add: length_dropWhile_le)
  also have "\<dots> < length ?r" by (simp add: r)
  also have "\<dots> \<le> length s" by (rule length_dropWhile_le)
  finally show ?thesis .
qed

termination split_runs
  by (relation "measure length") (simp_all del: dropWhile_eq_Nil_conv add: split_runs_shorter)

declare split_runs.simps [simp del]

definition resolveNumeric :: "string \<Rightarrow> string \<Rightarrow> string \<Rightarrow> date_outcome option" where
  "resolveNumeric input context today =
     (case filter (\<lambda>part. part \<noteq> []) (split_runs input) of
        [] \<Rightarrow> None
      | first # rest \<Rightarrow>
          if \<not> list_all all_digits (first # rest) then None
          else Some (case rest of
             [] \<Rightarrow> resolveDigitRun first context
           | [second] \<Rightarrow>
               if length first = 4 \<and> length second \<le> 2 then
                 monthFromParts (Some (number_of first)) (number_of second) first
               else if length second = 4 \<and> length first \<le> 2 then
                 monthFromParts (Some (number_of second)) (number_of first) second
               else if length first \<le> 2 \<and> length second \<le> 2 then
                 dayFromParts (yearOf context) (number_of first) (number_of second)
               else Invalid NotLikeADate
           | second # third # more_parts \<Rightarrow>
               if more_parts \<noteq> [] then Invalid TooManyParts
               else if length second > 2 then Invalid NotLikeADate
               else if length first = 4 then
                 (if \<not> inYearRange (Some (number_of first)) then Invalid (YearOutside first)
                  else if length third \<le> 2
                  then dayFromParts (Some (number_of first)) (number_of second) (number_of third)
                  else Invalid NotLikeADate)
               else case (if length first \<le> 2 then yearFromText third today else None) of
                      None \<Rightarrow> Invalid TwoOrFourDigits
                    | Some year \<Rightarrow>
                        if \<not> inYearRange year then Invalid (YearOutside third)
                        else dayFromParts year (number_of second) (number_of first)))"

section \<open>Word forms\<close>

definition found_day :: "string option \<Rightarrow> date_outcome" where
  "found_day key = Found key GDay"

definition resolveAnchor :: "string \<Rightarrow> string \<Rightarrow> date_outcome option" where
  "resolveAnchor word today =
     (if word = ''today'' \<or> word = ''now'' then Some (found_day (Some today))
      else if word = ''yesterday'' then Some (found_day (Some (shiftDay today (-1))))
      else if word = ''tomorrow'' then Some (found_day (Some (shiftDay today 1)))
      else None)"

definition resolveCountedOffset :: "string list \<Rightarrow> string \<Rightarrow> date_outcome option" where
  "resolveCountedOffset words context =
     (case words of
        [first, second, third] \<Rightarrow>
          (case (if first = ''in'' \<and> all_digits second then unit_of third else None) of
             Some u \<Rightarrow> Some (found_day (shiftUnits context u (Some (number_of second))))
           | None \<Rightarrow>
               (case (if third = ''ago'' \<and> all_digits first then unit_of second else None) of
                  Some u \<Rightarrow> Some (found_day (shiftUnits context u (Some (- number_of first))))
                | None \<Rightarrow> None))
      | _ \<Rightarrow> None)"

text \<open>With an unreadable context both comparisons of the month fail and the year is \<open>NaN\<close>.\<close>

definition monthOccurrence :: "string \<Rightarrow> nat \<Rightarrow> direction \<Rightarrow> date_outcome" where
  "monthOccurrence context month d =
     (case monthOfKey context of
        None \<Rightarrow> monthFromParts None (int month + 1) (year_text None)
      | Some (currentYear, currentMonth) \<Rightarrow>
          let yearShift =
                (if d = Step 1 then (if int month > currentMonth then 0 else 1)
                 else if d = Step (-1) then (if int month < currentMonth then 0 else -1)
                 else 0);
              year = Some (currentYear + yearShift)
          in monthFromParts year (int month + 1) (year_text year))"

definition resolveDirected :: "direction \<Rightarrow> string list \<Rightarrow> string \<Rightarrow> date_outcome option" where
  "resolveDirected d rest context =
     (case rest of
        [head, tail] \<Rightarrow>
          if unit_of head = Some WeekUnit then
            (case weekdayIndex tail of
               None \<Rightarrow> None
             | Some index \<Rightarrow> Some (found_day (Some (weekdayInWeek context index (direction_number d)))))
          else None
      | [head] \<Rightarrow>
          (case unit_of head of
             Some u \<Rightarrow> Some (found_day (shiftUnits context u (direction_number d)))
           | None \<Rightarrow>
               (case weekdayIndex head of
                  Some weekday \<Rightarrow> Some (found_day (Some (weekdayInWeek context weekday (direction_number d))))
                | None \<Rightarrow>
                    (case monthIndex head of
                       None \<Rightarrow> None
                     | Some month \<Rightarrow> Some (monthOccurrence context month d))))
      | _ \<Rightarrow> None)"

definition resolveNamedMonth :: "string list \<Rightarrow> string \<Rightarrow> date_outcome option" where
  "resolveNamedMonth words context =
     (case find_index (\<lambda>word. monthIndex word \<noteq> None) words of
        None \<Rightarrow> None
      | Some position \<Rightarrow>
          let month = the (monthIndex (words ! position));
              numbers = take position words @ drop (Suc position) words
          in if length numbers > 2 \<or> \<not> list_all all_digits numbers then None
             else
               let yearText = find (\<lambda>word. length word = 4) numbers;
                   days = filter (\<lambda>word. Some word \<noteq> yearText) numbers
               in Some (if yearText = None \<and> length numbers = 2 then Invalid TooManyParts
                  else
                    let year = (case yearText of None \<Rightarrow> yearOf context | Some t \<Rightarrow> Some (number_of t));
                        shown = (case yearText of None \<Rightarrow> year_text year | Some t \<Rightarrow> t)
                    in case days of
                         [] \<Rightarrow> monthFromParts year (int month + 1) shown
                       | dayText # _ \<Rightarrow>
                           if \<not> inYearRange year then Invalid (YearOutside shown)
                           else dayFromParts year (int month + 1) (number_of dayText)))"

definition resolveWords :: "string list \<Rightarrow> string \<Rightarrow> string \<Rightarrow> date_outcome option" where
  "resolveWords words context today =
     (let first = (case words of [] \<Rightarrow> [] | w # _ \<Rightarrow> w);
          single = (if length words = 1 then
                      (case resolveAnchor first today of
                         Some anchor \<Rightarrow> Some anchor
                       | None \<Rightarrow> map_option (\<lambda>weekday. found_day (Some (weekdayInWeek context weekday (Some 0))))
                                   (weekdayIndex first))
                    else None)
      in case single of
           Some outcome \<Rightarrow> Some outcome
         | None \<Rightarrow>
             (case resolveCountedOffset words context of
                Some counted \<Rightarrow> Some counted
              | None \<Rightarrow>
                  (case (case direction_of first of
                           None \<Rightarrow> None
                         | Some d \<Rightarrow> resolveDirected d (tl words) context) of
                     Some directed \<Rightarrow> Some directed
                   | None \<Rightarrow> resolveNamedMonth words context)))"

section \<open>The resolution\<close>

text \<open>\<open>formatLongDate\<close> and \<open>formatMonthTitle\<close> are the parameters.\<close>

definition labelFor ::
  "(string \<Rightarrow> string) \<Rightarrow> (month_key option \<Rightarrow> string) \<Rightarrow> string \<Rightarrow> granularity \<Rightarrow> string" where
  "labelFor longDate monthTitle key g =
     (case g of GDay \<Rightarrow> longDate key | GMonth \<Rightarrow> monthTitle (monthOfKey key) | GYear \<Rightarrow> take 4 key)"

text \<open>\<open>undefined\<close> as a key reads as the text of that name, which is no key.\<close>

definition finish ::
  "(string \<Rightarrow> string) \<Rightarrow> (month_key option \<Rightarrow> string) \<Rightarrow> date_outcome \<Rightarrow> journal_date_resolution" where
  "finish longDate monthTitle outcome =
     (case outcome of
        Invalid r \<Rightarrow> Refused r
      | Found None g \<Rightarrow> Refused LandsOutside
      | Found (Some key) g \<Rightarrow>
          if \<not> isDateKey key \<or> \<not> inYearRange (yearOf key) then Refused LandsOutside
          else Resolved key g (labelFor longDate monthTitle key g))"

definition resolveJournalDateExpression ::
  "(string \<Rightarrow> string) \<Rightarrow> (month_key option \<Rightarrow> string) \<Rightarrow> string \<Rightarrow> string \<Rightarrow> string \<Rightarrow> journal_date_resolution" where
  "resolveJournalDateExpression longDate monthTitle input context today =
     (let normalized = collapse (toLowerCase (js_trim input))
      in if normalized = [] then Refused NothingTyped
         else finish longDate monthTitle
           (case resolveNumeric normalized context today of
              Some outcome \<Rightarrow> outcome
            | None \<Rightarrow>
                (case resolveWords (split_on (CHR '' '') normalized) context today of
                   Some outcome \<Rightarrow> outcome
                 | None \<Rightarrow> Invalid (NotUnderstood (js_trim input)))))"

definition JOURNAL_DATE_SUGGESTIONS :: "(string \<times> string) list" where
  "JOURNAL_DATE_SUGGESTIONS =
     [(''today'', ''Today's entry''), (''yesterday'', ''The day before today''),
      (''next week thursday'', ''A weekday in the following week''),
      (''last friday'', ''Friday of the previous week''),
      (''3 days ago'', ''A counted step from this entry''),
      (''3/12'', ''Month and day, in this entry's year''),
      (''dec 2025'', ''A month, opening on its first day'')]"

end
