(* ===== verification/Due_Dates.thy ===== *)
theory Due_Dates
  imports Date_Expressions
begin

text \<open>
  \<open>tasks/due-dates.ts\<close>, and the day heading of \<open>journal/dates.ts\<close> that counts days the same
  way. The parameter \<open>midnight\<close> gives the time value of local midnight of a day in
  milliseconds, so the time zone shows; the \<open>Intl\<close> formats are parameters over the day they
  print, and formatting an Invalid Date throws, \<open>None\<close> here.
\<close>

datatype due_bucket = Overdue | DueToday | Upcoming | NoDate | Earlier

definition DAY_MS :: int where "DAY_MS = 86400000"

text \<open>A value of unknown type that is not a string is \<open>None\<close>.\<close>

definition isDueDate :: "string option \<Rightarrow> bool" where
  "isDueDate v = (case v of None \<Rightarrow> False | Some s \<Rightarrow> isDateKey s)"

text \<open>\<open>Math.round\<close> of a quotient; \<open>None\<close> is \<open>NaN\<close>.\<close>

definition round_div :: "int \<Rightarrow> int \<Rightarrow> int" where
  "round_div a b = (2 * a + b) div (2 * b)"

definition daysBetween :: "(int \<Rightarrow> int) \<Rightarrow> string \<Rightarrow> string \<Rightarrow> int option" where
  "daysBetween midnight from_key to_key =
     (case (parseDateKey from_key, parseDateKey to_key) of
        (Some a, Some b) \<Rightarrow> Some (round_div (midnight b - midnight a) DAY_MS)
      | _ \<Rightarrow> None)"

definition upcomingWeekday :: "string \<Rightarrow> string \<Rightarrow> string option" where
  "upcomingWeekday name today =
     (case find_index (\<lambda>weekday. weekday = name \<or> length name \<ge> 3 \<and> startsWith weekday name) WEEKDAY_NAMES of
        None \<Rightarrow> None
      | Some index \<Rightarrow>
          Some (shift_by today (map_option (\<lambda>w. (int index - w + 7) mod 7) (mondayFirstWeekday today))))"

definition resolveDueExpression ::
  "(string \<Rightarrow> string) \<Rightarrow> (month_key option \<Rightarrow> string) \<Rightarrow> string \<Rightarrow> string \<Rightarrow> string option" where
  "resolveDueExpression longDate monthTitle expression today =
     (let normalized = map (\<lambda>c. if c = CHR ''_'' then CHR '' '' else c) (toLowerCase (js_trim expression))
      in if normalized = [] then None
         else case upcomingWeekday normalized today of
           Some weekday \<Rightarrow> Some weekday
         | None \<Rightarrow>
             (case resolveJournalDateExpression longDate monthTitle normalized today today of
                Resolved key g label \<Rightarrow> if g = GDay then Some key else None
              | Refused r \<Rightarrow> None))"

definition dueBucket :: "string option \<Rightarrow> bool \<Rightarrow> string \<Rightarrow> due_bucket" where
  "dueBucket dueDate isDone today =
     (case dueDate of
        None \<Rightarrow> NoDate
      | Some due \<Rightarrow>
          if due < today then (if isDone then Earlier else Overdue)
          else if due = today then DueToday else Upcoming)"

record due_formats =
  df_shortWeekday :: "int \<Rightarrow> string"
  df_monthDay :: "int \<Rightarrow> string"
  df_monthDayYear :: "int \<Rightarrow> string"

definition formatDueLabel :: "(int \<Rightarrow> int) \<Rightarrow> due_formats \<Rightarrow> string \<Rightarrow> string \<Rightarrow> string option" where
  "formatDueLabel midnight formats dueDate today =
     (let offset = daysBetween midnight today dueDate
      in if offset = Some 0 then Some ''Today''
         else if offset = Some 1 then Some ''Tomorrow''
         else if offset = Some (-1) then Some ''Yesterday''
         else map_option
           (if (case offset of None \<Rightarrow> False | Some n \<Rightarrow> n > 1 \<and> n < 7) then df_shortWeekday formats
            else if take 4 dueDate = take 4 today then df_monthDay formats
            else df_monthDayYear formats)
           (parseDateKey dueDate))"

definition describeDueDate :: "(int \<Rightarrow> string) \<Rightarrow> string \<Rightarrow> bool \<Rightarrow> string \<Rightarrow> string option" where
  "describeDueDate longDate dueDate isDone today =
     map_option (\<lambda>day.
       if dueBucket (Some dueDate) isDone today = Overdue then ''Overdue, due '' @ longDate day
       else ''Due '' @ longDate day) (parseDateKey dueDate)"

text \<open>\<open>formatDayHeading\<close> of \<open>journal/dates.ts\<close>.\<close>

definition formatDayHeading :: "(int \<Rightarrow> int) \<Rightarrow> (int \<Rightarrow> string) \<Rightarrow> string \<Rightarrow> string \<Rightarrow> string option" where
  "formatDayHeading midnight weekday key today =
     (let offset = daysBetween midnight today key
      in if offset = Some 0 then Some ''Today''
         else if offset = Some (-1) then Some ''Yesterday''
         else if offset = Some 1 then Some ''Tomorrow''
         else map_option weekday (parseDateKey key))"

end
