(* ===== verification/Expression_Theorems.thy ===== *)
theory Expression_Theorems
  imports Date_Theorems Due_Dates
begin

text \<open>
  What the date grammar of \<open>journal/date-expressions.ts\<close> and the due dates of
  \<open>tasks/due-dates.ts\<close> promise: an accepted expression names a real day of the journal's
  range, a written key resolves to itself, the weekday rule, and the labels of due dates.
\<close>

section \<open>Keys put together from parts\<close>

lemma keyOf_match:
  assumes "0 \<le> y" "y \<le> 9999" "0 \<le> m" "m \<le> 99" "0 \<le> d" "d \<le> 99"
  shows "match_date_key (keyOf y m d) = Some (y, m, d)"
proof -
  let ?a = "padStart 4 (nat_digits (nat y))" and ?b = "padStart 2 (nat_digits (nat m))"
    and ?c = "padStart 2 (nat_digits (nat d))"
  have "length ?a = 4" "length ?b = 2" "length ?c = 2"
    using assms by (auto intro!: padded_length simp: nat_less_iff)
  moreover have "list_all is_digit ?a" "list_all is_digit ?b" "list_all is_digit ?c"
    by (simp_all add: padStart_digits nat_digits_digits)
  moreover have "keyOf y m d = ?a @ ''-'' @ ?b @ ''-'' @ ?c"
    using assms by (simp add: keyOf_def int_digits)
  moreover have "y = int (digits_value ?a)" "m = int (digits_value ?b)" "d = int (digits_value ?c)"
    using assms by simp_all
  ultimately show ?thesis unfolding match_iff by blast
qed

lemma match_keyOf: "match_date_key k = Some (y, m, d) \<Longrightarrow> keyOf y m d = k"
proof -
  assume "match_date_key k = Some (y, m, d)"
  then obtain a b c where s: "length a = 4" "length b = 2" "length c = 2" "list_all is_digit a"
      "list_all is_digit b" "list_all is_digit c" "k = a @ ''-'' @ b @ ''-'' @ c"
    "y = int (digits_value a)" "m = int (digits_value b)" "d = int (digits_value c)"
    unfolding match_iff by blast
  with padded_digits [of a] padded_digits [of b] padded_digits [of c] show ?thesis
    by (simp add: keyOf_def int_digits)
qed

lemma inYearRange_iff: "inYearRange y \<longleftrightarrow> (\<exists>n. y = Some n \<and> 1000 \<le> n \<and> n \<le> 9999)"
  by (auto simp: inYearRange_def JOURNAL_YEAR_MIN_def JOURNAL_YEAR_MAX_def split: option.splits)

lemma yearOf_match:
  "isDateKey k \<Longrightarrow> match_date_key k = Some (y, m, d) \<Longrightarrow> yearOf k = Some y"
  using make_day_civil [of y "m - 1" d]
  by (auto elim!: valid_key simp: yearOf_def getFullYear_def)

lemma daysInMonth_eq:
  assumes "1000 \<le> y" "y \<le> 9999" "1 \<le> m" "m \<le> 12"
  shows "daysInMonth y m = Some (days_in_month y (m - 1))"
proof -
  have ok: "civil_ok (y, m - 1, days_in_month y (m - 1))"
    using assms days_in_month_bounds [of "m - 1" y] by (simp add: civil_ok_def)
  have "make_day y m 0 = make_day y (m - 1) (days_in_month y (m - 1))"
    using last_day [of "m - 1" y] assms by simp
  with day_in_range [OF ok] make_day_civil [OF ok] assms show ?thesis
    by (simp add: daysInMonth_def new_date_def getDate_def)
qed

section \<open>Month and year answers open on their first day\<close>

fun opens_period :: "date_outcome \<Rightarrow> bool" where
  "opens_period (Found (Some key) GMonth) \<longleftrightarrow>
     (\<exists>y m. 1000 \<le> y \<and> y \<le> 9999 \<and> 1 \<le> m \<and> m \<le> 12 \<and> key = keyOf y m 1)"
| "opens_period (Found (Some key) GYear) \<longleftrightarrow> (\<exists>y. 1000 \<le> y \<and> y \<le> 9999 \<and> key = keyOf y 1 1)"
| "opens_period _ \<longleftrightarrow> True"

lemma opens_day [simp]: "opens_period (Found k GDay)"
  by (cases k) simp_all

lemma opens_dayFromParts [simp]: "opens_period (dayFromParts y m d)"
  by (simp add: dayFromParts_def Let_def)

lemma opens_month: "1000 \<le> y \<Longrightarrow> y \<le> 9999 \<Longrightarrow> 1 \<le> m \<Longrightarrow> m \<le> 12 \<Longrightarrow> opens_period (Found (Some (keyOf y m 1)) GMonth)"
  unfolding opens_period.simps by blast

lemma opens_year: "1000 \<le> y \<Longrightarrow> y \<le> 9999 \<Longrightarrow> opens_period (Found (Some (keyOf y 1 1)) GYear)"
  unfolding opens_period.simps by blast

declare opens_period.simps(1,2) [simp del]

lemma opens_monthFromParts [simp]: "opens_period (monthFromParts y m t)"
  by (auto simp: monthFromParts_def inYearRange_iff intro: opens_month)

lemma day_granularity: "dayFromParts y m d = Found k g \<Longrightarrow> g = GDay"
  by (auto simp: dayFromParts_def Let_def split: if_splits)

lemma opens_digit_run [simp]: "opens_period (resolveDigitRun t c)"
proof -
  have md: "opens_period (case dayFromParts y m d of Found key g \<Rightarrow> Found key g | Invalid r \<Rightarrow> Invalid (NotMonthDayOrYear t))" for y m d
    by (cases "dayFromParts y m d") (auto dest: day_granularity)
  show ?thesis
    unfolding resolveDigitRun_def Let_def BARE_YEAR_MIN_def BARE_YEAR_MAX_def
    by (simp only: if_split opens_dayFromParts md) (auto intro: opens_year)
qed

lemma opens_numeric: "resolveNumeric i c t = Some out \<Longrightarrow> opens_period out"
  unfolding resolveNumeric_def by (simp split: list.splits option.splits if_splits) auto

lemma opens_anchor: "resolveAnchor w t = Some out \<Longrightarrow> opens_period out"
  by (auto simp: resolveAnchor_def found_day_def split: if_splits)

lemma opens_counted: "resolveCountedOffset ws c = Some out \<Longrightarrow> opens_period out"
  unfolding resolveCountedOffset_def by (auto simp: found_day_def split: list.splits option.splits)

lemma opens_directed: "resolveDirected d ws c = Some out \<Longrightarrow> opens_period out"
  unfolding resolveDirected_def
  by (auto simp: found_day_def monthOccurrence_def Let_def split: list.splits option.splits if_splits)

lemma opens_named: "resolveNamedMonth ws c = Some out \<Longrightarrow> opens_period out"
  unfolding resolveNamedMonth_def by (auto simp: Let_def split: list.splits option.splits if_splits)

lemma opens_words: "resolveWords ws c t = Some out \<Longrightarrow> opens_period out"
  unfolding resolveWords_def Let_def
  by (auto simp: found_day_def split: option.splits if_splits list.splits
      dest: opens_anchor opens_counted opens_directed opens_named)

lemma finish_type:
  assumes "opens_period out"
  shows "case finish L T out of
      Refused r \<Rightarrow> True
    | Resolved key g label \<Rightarrow> isDateKey key \<and> label = labelFor L T key g \<and>
        (\<exists>y m d. match_date_key key = Some (y, m, d) \<and> 1000 \<le> y \<and> y \<le> 9999 \<and>
          (case g of GDay \<Rightarrow> True | GMonth \<Rightarrow> d = 1 | GYear \<Rightarrow> m = 1 \<and> d = 1))"
proof (cases "finish L T out")
  case (Resolved key g label)
  then have out: "out = Found (Some key) g" and key: "isDateKey key" "inYearRange (yearOf key)"
    and label: "label = labelFor L T key g"
    by (auto simp: finish_def split: date_outcome.splits option.splits if_splits)
  from key(1) obtain y m d where m: "match_date_key key = Some (y, m, d)" by (rule valid_key)
  with key yearOf_match have y: "1000 \<le> y" "y \<le> 9999" by (auto simp: inYearRange_iff)
  have "case g of GDay \<Rightarrow> True | GMonth \<Rightarrow> d = 1 | GYear \<Rightarrow> m = 1 \<and> d = 1"
    using assms m out by (cases g) (auto simp: keyOf_match opens_period.simps)
  with Resolved key(1) label m y show ?thesis by simp
qed simp

text \<open>C37. Whatever is typed, a resolved date expression is a valid date key of the years 1000 to 9999 with its own label, and a month or year result is the first day of its period.\<close>

theorem resolution_lands_in_range:
  "case resolveJournalDateExpression longDate monthTitle input context today of
      Refused r \<Rightarrow> True
    | Resolved key g label \<Rightarrow> isDateKey key \<and> label = labelFor longDate monthTitle key g \<and>
        (\<exists>y m d. match_date_key key = Some (y, m, d) \<and> 1000 \<le> y \<and> y \<le> 9999 \<and>
          (case g of GDay \<Rightarrow> True | GMonth \<Rightarrow> d = 1 | GYear \<Rightarrow> m = 1 \<and> d = 1))"
proof -
  let ?n = "collapse (toLowerCase (js_trim input))"
  have "opens_period (case resolveNumeric ?n context today of
      Some outcome \<Rightarrow> outcome
    | None \<Rightarrow> (case resolveWords (split_on (CHR '' '') ?n) context today of
                 Some outcome \<Rightarrow> outcome | None \<Rightarrow> Invalid (NotUnderstood (js_trim input))))"
    by (auto split: option.splits dest: opens_numeric opens_words)
  from finish_type [OF this, of longDate monthTitle] show ?thesis
    by (simp add: resolveJournalDateExpression_def Let_def)
qed

section \<open>A written key resolves to itself\<close>

lemma digit_facts:
  assumes "is_digit c"
  shows "\<not> js_space c" "lower_char c = c" "\<not> separator c"
proof -
  have u: "48 \<le> (of_char c :: nat)" "(of_char c :: nat) \<le> 57"
    using assms by (simp_all add: is_digit_def less_eq_char_def)
  then show "\<not> js_space c" by (simp add: js_space_def)
  moreover have "c \<noteq> CHR ''-'' \<and> c \<noteq> CHR ''/'' \<and> c \<noteq> CHR ''.''" using u by auto
  ultimately show "\<not> separator c" by (simp add: separator_def)
  show "lower_char c = c" using u by (simp add: lower_char_def Let_def)
qed

lemma digits_no_separator: "list_all is_digit a \<Longrightarrow> \<forall>c \<in> set a. \<not> separator c"
  by (auto simp: list_all_iff digit_facts)

lemma split_runs_step:
  assumes "\<forall>c \<in> set a. \<not> separator c" and "separator x" and "s = [] \<or> \<not> separator (hd s)"
  shows "split_runs (a @ x # s) = a # split_runs s"
proof -
  have "dropWhile (\<lambda>c. \<not> separator c) (a @ x # s) = x # s" "takeWhile (\<lambda>c. \<not> separator c) (a @ x # s) = a"
    using assms(1,2) by (simp_all add: dropWhile_append2 takeWhile_append2)
  moreover have "dropWhile separator (x # s) = s" using assms(2,3) by (cases s) simp_all
  ultimately show ?thesis by (simp add: split_runs.simps [of "a @ x # s"])
qed

lemma split_runs_end: "\<forall>c \<in> set a. \<not> separator c \<Longrightarrow> split_runs a = [a]"
proof -
  assume "\<forall>c \<in> set a. \<not> separator c"
  then have "dropWhile (\<lambda>c. \<not> separator c) a = []" by simp
  then show ?thesis by (subst split_runs.simps) simp
qed

lemma collapse_no_space: "\<forall>c \<in> set s. \<not> js_space c \<Longrightarrow> collapse s = s"
  by (induction s rule: collapse.induct) auto

lemma trim_plain: "\<forall>c \<in> set s. \<not> js_space c \<Longrightarrow> js_trim s = s"
  by (intro trimmed_trim) (auto simp: trimmed_def)

lemma lower_plain: "\<forall>c \<in> set s. lower_char c = c \<Longrightarrow> toLowerCase s = s"
  by (simp add: toLowerCase_def map_idI)

lemma finish_found:
  "isDateKey k \<Longrightarrow> inYearRange (yearOf k) \<Longrightarrow> finish L T (Found (Some k) g) = Resolved k g (labelFor L T k g)"
  by (simp add: finish_def)

theorem written_date_resolves_to_itself:
  assumes "isDateKey key" and "inYearRange (yearOf key)"
  shows "resolveJournalDateExpression longDate monthTitle key context today = Resolved key GDay (longDate key)"
proof -
  from assms(1) obtain y m d where k: "match_date_key key = Some (y, m, d)" "civil_ok (y, m - 1, d)" by (rule valid_key)
  have y: "1000 \<le> y" "y \<le> 9999" using assms yearOf_match [OF assms(1) k(1)] by (auto simp: inYearRange_iff)
  have md: "1 \<le> m" "m \<le> 12" "1 \<le> d" "d \<le> days_in_month y (m - 1)" using k(2) by (auto simp: civil_ok_def)
  from k(1) obtain a b c where s: "length a = 4" "length b = 2" "length c = 2" "list_all is_digit a"
      "list_all is_digit b" "list_all is_digit c" "key = a @ ''-'' @ b @ ''-'' @ c"
    "y = number_of a" "m = number_of b" "d = number_of c"
    unfolding match_iff number_of_def by blast
  have dash: "\<not> js_space CHR ''-''" "lower_char CHR ''-'' = CHR ''-''" "separator CHR ''-''"
    by code_simp+
  have plain: "\<forall>x \<in> set key. \<not> js_space x \<and> lower_char x = x"
    using s(4-6) dash unfolding s(7) by (auto simp: list_all_iff digit_facts)
  then have norm: "collapse (toLowerCase (js_trim key)) = key"
    by (simp add: trim_plain lower_plain collapse_no_space)
  have ne: "a \<noteq> []" "b \<noteq> []" "c \<noteq> []" using s(1-3) by auto
  have "split_runs key = [a, b, c]"
    unfolding s(7) using split_runs_step [OF digits_no_separator [OF s(4)] dash(3), of "b @ ''-'' @ c"]
      split_runs_step [OF digits_no_separator [OF s(5)] dash(3), of c] split_runs_end [OF digits_no_separator [OF s(6)]]
      ne s(5,6) by (auto simp: neq_Nil_conv digit_facts)
  then have "resolveNumeric key context today = Some (dayFromParts (Some y) m d)"
    using ne s(1-6) y by (simp add: resolveNumeric_def all_digits_def inYearRange_iff flip: s(8-10))
  also have "dayFromParts (Some y) m d = Found (Some key) GDay"
    using y md match_keyOf [OF k(1)] daysInMonth_eq [of y m] by (simp add: dayFromParts_def inYearRange_iff)
  finally have "resolveNumeric key context today = Some (Found (Some key) GDay)" .
  moreover have "key \<noteq> []" by (simp add: s(7))
  ultimately show ?thesis
    by (simp add: resolveJournalDateExpression_def norm finish_found [OF assms] labelFor_def)
qed

theorem written_date_resolves_to_itself_witness:
  "resolveJournalDateExpression id (\<lambda>x. []) ''2024-02-29'' ''2026-09-15'' ''2026-09-30'' =
     Resolved ''2024-02-29'' GDay ''2024-02-29''"
proof -
  have "isDateKey ''2024-02-29''" "inYearRange (yearOf ''2024-02-29'')" by code_simp+
  from written_date_resolves_to_itself [OF this] show ?thesis by simp
qed

section \<open>The weekday rule\<close>

lemma year_near:
  assumes "\<bar>n\<bar> \<le> 365"
  shows "getFullYear day - 1 \<le> getFullYear (day + n)" "getFullYear (day + n) \<le> getFullYear day + 1"
proof -
  have g: "getFullYear x = year_of x" for x by (simp add: getFullYear_def civil_of_def Let_def split: prod.splits)
  let ?y = "year_of day"
  have spec: "day_from_year ?y \<le> day" "day < day_from_year (?y + 1)" using year_of_spec [of day] by auto
  have "365 \<le> day_from_year ?y - day_from_year (?y - 1)" using year_length [of "?y - 1"] by simp
  moreover have "365 \<le> day_from_year (?y + 2) - day_from_year (?y + 1)" using year_length [of "?y + 1"] by (simp add: add.commute)
  ultimately have near: "day_from_year (?y - 1) \<le> day + n" "day + n < day_from_year (?y + 2)" using spec assms by auto
  have spec': "day_from_year (year_of (day + n)) \<le> day + n" "day + n < day_from_year (year_of (day + n) + 1)"
    using year_of_spec [of "day + n"] by auto
  show "getFullYear day - 1 \<le> getFullYear (day + n)"
  proof (rule ccontr)
    assume "\<not> ?thesis"
    then have "day_from_year (year_of (day + n) + 1) \<le> day_from_year (?y - 1)" by (intro year_mono) (simp add: g)
    with near spec' show False by simp
  qed
  show "getFullYear (day + n) \<le> getFullYear day + 1"
  proof (rule ccontr)
    assume "\<not> ?thesis"
    then have "day_from_year (?y + 2) \<le> day_from_year (year_of (day + n))" by (intro year_mono) (simp add: g)
    with near spec' show False by simp
  qed
qed

text \<open>The Monday of the week and a day counted from it.\<close>

lemma weekday_in_week:
  assumes "parseDateKey context = Some day" and "1001 \<le> getFullYear day" and "getFullYear day \<le> 9998"
    and "\<bar>n\<bar> \<le> 14" and "i < 7"
  shows "\<exists>k. weekdayInWeek context i (Some n) = k \<and> isDateKey k \<and> inYearRange (yearOf k) \<and>
    parseDateKey k = Some (day - (getDay day + 6) mod 7 + n * 7 + int i)"
proof -
  let ?w = "(getDay day + 6) mod 7"
  have w: "0 \<le> ?w" "?w < 7" by simp_all
  have s: "weekStart context = shiftDay context (- ?w)"
    by (simp add: weekStart_def shift_by_def mondayFirstWeekday_def assms(1))
  have near: "getFullYear day - 1 \<le> getFullYear (day + e) \<and> getFullYear (day + e) \<le> getFullYear day + 1"
    if "\<bar>e\<bar> \<le> 365" for e
    using year_near [OF that, of day] by simp
  have p: "parseDateKey (weekStart context) = Some (day + - ?w)"
    using shift_day_at [OF assms(1), of "- ?w"] near [of "- ?w"] w assms(2,3) unfolding s by linarith
  let ?e = "- ?w + (n * 7 + int i)"
  have e: "\<bar>?e\<bar> \<le> 365" using assms(4,5) w by linarith
  have eq: "day + - ?w + (n * 7 + int i) = day + ?e" by simp
  have year: "1000 \<le> getFullYear (day + - ?w + (n * 7 + int i))" "getFullYear (day + - ?w + (n * 7 + int i)) \<le> 9999"
    using near [OF e] assms(2,3) unfolding eq by linarith+
  have r: "isDateKey (shiftDay (weekStart context) (n * 7 + int i)) \<and>
      parseDateKey (shiftDay (weekStart context) (n * 7 + int i)) = Some (day + - ?w + (n * 7 + int i))"
    by (rule shift_day_at [OF p]) (use year in linarith)+
  moreover have "day + - ?w + (n * 7 + int i) = day - ?w + n * 7 + int i" by simp
  moreover have "inYearRange (Some (getFullYear (day + - ?w + (n * 7 + int i))))"
    using year by (simp add: inYearRange_iff)
  ultimately show ?thesis by (simp add: weekdayInWeek_def shift_by_def yearOf_def)
qed

text \<open>An input whose first word is no number is read word by word.\<close>

lemma words_not_numeric:
  assumes "\<not> separator c" and "\<not> is_digit c"
  shows "resolveNumeric (c # s) context today = None"
proof -
  have "\<exists>w ws. split_runs (c # s) = (c # w) # ws"
    using assms(1) by (subst split_runs.simps) (simp add: Let_def)
  with assms(2) show ?thesis by (auto simp: resolveNumeric_def all_digits_def)
qed

text \<open>Plain words with one space between them are their own normal form.\<close>

definition plain_word :: "string \<Rightarrow> bool" where
  "plain_word w \<longleftrightarrow> w \<noteq> [] \<and> list_all (\<lambda>c. \<not> js_space c \<and> lower_char c = c) w"

lemma space_facts: "js_space CHR '' ''" "lower_char CHR '' '' = CHR '' ''" "\<not> separator c \<Longrightarrow> \<not> js_space c"
proof -
  show "js_space CHR '' ''" "lower_char CHR '' '' = CHR '' ''" by code_simp+
qed (simp add: separator_def)

lemma collapse_append: "\<forall>c \<in> set a. \<not> js_space c \<Longrightarrow> collapse (a @ r) = a @ collapse r"
  by (induction a) auto

lemma collapse_join: "list_all plain_word ws \<Longrightarrow> collapse (join '' '' ws) = join '' '' ws"
proof (induction "'' ''" ws rule: join.induct)
  case (2 x)
  then show ?case by (simp add: plain_word_def list_all_iff collapse_no_space)
next
  case (3 x y ys)
  then have "\<forall>c \<in> set x. \<not> js_space c" by (simp add: plain_word_def list_all_iff)
  moreover have "y \<noteq> []" "\<not> js_space (hd y)" using "3.prems" by (auto simp: plain_word_def list_all_iff)
  then have "dropWhile js_space (join '' '' (y # ys)) = join '' '' (y # ys)"
    by (cases ys; cases y) simp_all
  ultimately show ?case using 3 by (simp add: collapse_append space_facts)
qed simp

lemma join_plain:
  "list_all plain_word ws \<Longrightarrow> c \<in> set (join '' '' ws) \<Longrightarrow> c = CHR '' '' \<or> \<not> js_space c \<and> lower_char c = c"
  using join_set [of "'' ''" ws] by (auto simp: plain_word_def list_all_iff)

lemma join_trimmed: "list_all plain_word ws \<Longrightarrow> trimmed (join '' '' ws)"
proof (induction "'' ''" ws rule: join.induct)
  case (2 x)
  then show ?case by (auto simp: plain_word_def list_all_iff trimmed_def)
next
  case (3 x y ys)
  have "join '' '' (y # ys) \<noteq> []" using "3.prems" by (cases ys) (auto simp: plain_word_def)
  with 3 show ?case by (auto simp: trimmed_def plain_word_def list_all_iff)
qed (simp add: trimmed_def)

lemma join_normal:
  assumes "list_all plain_word ws"
  shows "collapse (toLowerCase (js_trim (join '' '' ws))) = join '' '' ws"
proof -
  have "toLowerCase (join '' '' ws) = join '' '' ws"
    using join_plain [OF assms] space_facts(2) by (intro lower_plain) auto
  then show ?thesis by (simp add: trimmed_trim join_trimmed collapse_join assms)
qed

lemma split_words: "ws \<noteq> [] \<Longrightarrow> list_all plain_word ws \<Longrightarrow> split_on (CHR '' '') (join '' '' ws) = ws"
proof (induction "'' ''" ws rule: join.induct)
  case (2 x)
  then have "CHR '' '' \<notin> set x" using space_facts(1) by (auto simp: plain_word_def list_all_iff)
  then show ?case by (simp add: split_on_plain)
next
  case (3 x y ys)
  then have "CHR '' '' \<notin> set x" using space_facts(1) by (auto simp: plain_word_def list_all_iff)
  with 3 show ?case by (simp add: split_on_step)
qed simp

lemma resolve_join:
  assumes "list_all plain_word ws" and "ws = (c # w) # ws'" and "\<not> separator c" and "\<not> is_digit c"
    and "resolveWords ws context today = Some out"
  shows "resolveJournalDateExpression L T (join '' '' ws) context today = finish L T out"
proof -
  obtain r where r: "join '' '' ws = c # r" using assms(2) by (cases ws') auto
  with words_not_numeric [OF assms(3,4)] have "resolveNumeric (join '' '' ws) context today = None" by simp
  moreover have "ws \<noteq> []" "join '' '' ws \<noteq> []" using assms(2) r by simp_all
  ultimately show ?thesis
    unfolding resolveJournalDateExpression_def Let_def join_normal [OF assms(1)] by (simp add: split_words assms(1,5))
qed

section \<open>Weekdays\<close>

lemma weekday_name:
  assumes "i < 7"
  shows "weekdayIndex (WEEKDAY_NAMES ! i) = Some i \<and> unit_of (WEEKDAY_NAMES ! i) = None \<and>
    plain_word (WEEKDAY_NAMES ! i) \<and> CHR ''_'' \<notin> set (WEEKDAY_NAMES ! i)"
proof -
  have "list_all (\<lambda>i. weekdayIndex (WEEKDAY_NAMES ! i) = Some i \<and> unit_of (WEEKDAY_NAMES ! i) = None \<and>
    plain_word (WEEKDAY_NAMES ! i) \<and> CHR ''_'' \<notin> set (WEEKDAY_NAMES ! i)) [0, 1, 2, 3, 4, 5, 6]"
    by code_simp
  moreover have "i = 0 \<or> i = 1 \<or> i = 2 \<or> i = 3 \<or> i = 4 \<or> i = 5 \<or> i = 6" using assms by arith
  ultimately show ?thesis by (elim disjE) simp_all
qed

lemma direction_word:
  assumes "(word, n) \<in> set DIRECTIONS"
  shows "direction_of word = Some (Step n) \<and> plain_word word \<and> \<bar>n\<bar> \<le> 1 \<and>
    \<not> separator (hd word) \<and> \<not> is_digit (hd word) \<and> word \<noteq> ''in''"
proof -
  have "list_all (\<lambda>(word, n). direction_of word = Some (Step n) \<and> plain_word word \<and> \<bar>n\<bar> \<le> 1 \<and>
    \<not> separator (hd word) \<and> \<not> is_digit (hd word) \<and> word \<noteq> ''in'') DIRECTIONS"
    by code_simp
  with assms show ?thesis by (auto simp: list_all_iff)
qed

lemma week_word: "unit_of ''week'' = Some WeekUnit" "plain_word ''week''"
  by code_simp+

lemma not_ago: "plain_word (WEEKDAY_NAMES ! i) \<Longrightarrow> i < 7 \<Longrightarrow> WEEKDAY_NAMES ! i \<noteq> ''ago''"
proof -
  assume "i < 7"
  then have "i = 0 \<or> i = 1 \<or> i = 2 \<or> i = 3 \<or> i = 4 \<or> i = 5 \<or> i = 6" by arith
  then show ?thesis by (elim disjE) (simp_all add: WEEKDAY_NAMES_def)
qed

theorem directed_weekday:
  assumes "parseDateKey context = Some day" and "1001 \<le> getFullYear day" and "getFullYear day \<le> 9998"
    and "i < 7" and "(word, n) \<in> set DIRECTIONS"
  shows "\<exists>k. resolveJournalDateExpression longDate monthTitle (join '' '' [word, WEEKDAY_NAMES ! i]) context today =
      Resolved k GDay (longDate k) \<and>
    resolveJournalDateExpression longDate monthTitle (join '' '' [word, ''week'', WEEKDAY_NAMES ! i]) context today =
      Resolved k GDay (longDate k) \<and>
    parseDateKey k = Some (day - (getDay day + 6) mod 7 + n * 7 + int i)"
proof -
  let ?w = "WEEKDAY_NAMES ! i" and ?k = "weekdayInWeek context i (Some n)"
  note w = weekday_name [OF assms(4)] and d = direction_word [OF assms(5)]
  have k: "isDateKey ?k" "inYearRange (yearOf ?k)" "parseDateKey ?k = Some (day - (getDay day + 6) mod 7 + n * 7 + int i)"
    using weekday_in_week [OF assms(1-3) _ assms(4), of n] d by auto
  obtain c r where word: "word = c # r" "\<not> separator c" "\<not> is_digit c"
    using d by (cases word) (auto simp: plain_word_def)
  have "resolveWords [word, ?w] context today = Some (found_day (Some ?k))"
    using d w by (simp add: resolveWords_def resolveCountedOffset_def resolveDirected_def)
  moreover have "resolveWords [word, ''week'', ?w] context today = Some (found_day (Some ?k))"
    using d w not_ago [OF _ assms(4)] week_word by (simp add: resolveWords_def resolveCountedOffset_def resolveDirected_def)
  moreover have "list_all plain_word [word, ?w]" "list_all plain_word [word, ''week'', ?w]"
    using d w week_word by simp_all
  ultimately show ?thesis
    using resolve_join [of "[word, ?w]" c r "[?w]" "context" today] resolve_join [of "[word, ''week'', ?w]" c r "[''week'', ?w]" "context" today]
      word k by (simp add: found_day_def finish_found labelFor_def)
qed

theorem directed_weekday_witness:
  "resolveJournalDateExpression id (\<lambda>x. []) ''next thursday'' ''2026-09-15'' [] =
    resolveJournalDateExpression id (\<lambda>x. []) ''next week thursday'' ''2026-09-15'' []"
proof -
  have "parseDateKey ''2026-09-15'' = Some 20711" by code_simp
  moreover have "1001 \<le> getFullYear 20711" "getFullYear 20711 \<le> 9998" by code_simp+
  moreover have "(''next'', 1) \<in> set DIRECTIONS" by (simp add: DIRECTIONS_def)
  moreover have "WEEKDAY_NAMES ! 3 = ''thursday''" by (simp add: WEEKDAY_NAMES_def)
  ultimately show ?thesis using directed_weekday [of "''2026-09-15''" 20711 3 "''next''" 1 id "\<lambda>x. []" "[]"] by auto
qed

text \<open>A word found on \<open>Object.prototype\<close> passes for a direction of no step.\<close>

lemma month_name:
  assumes "name \<in> set MONTH_NAMES"
  shows "plain_word name \<and> unit_of name = None \<and> weekdayIndex name = None \<and> monthIndex name \<noteq> None"
proof -
  have "list_all (\<lambda>name. plain_word name \<and> unit_of name = None \<and> weekdayIndex name = None \<and> monthIndex name \<noteq> None) MONTH_NAMES"
    by code_simp
  with assms show ?thesis by (auto simp: list_all_iff)
qed

theorem inherited_direction_accepted:
  "list_all (\<lambda>name.
     resolveJournalDateExpression longDate monthTitle (join '' '' [''constructor'', name]) context today =
     resolveJournalDateExpression longDate monthTitle (join '' '' [''this'', name]) context today) MONTH_NAMES"
proof -
  have c: "plain_word ''constructor''" "direction_of ''constructor'' = Some InheritedDirection"
      "\<not> separator CHR ''c''" "\<not> is_digit CHR ''c''"
    and t: "plain_word ''this''" "direction_of ''this'' = Some (Step 0)" "\<not> separator CHR ''t''" "\<not> is_digit CHR ''t''"
    by code_simp+
  have "resolveJournalDateExpression longDate monthTitle (join '' '' [''constructor'', name]) context today =
     resolveJournalDateExpression longDate monthTitle (join '' '' [''this'', name]) context today"
    if name: "name \<in> set MONTH_NAMES" for name
  proof -
    from month_name [OF name] obtain m where n: "plain_word name" "unit_of name = None" "weekdayIndex name = None"
      "monthIndex name = Some m" by auto
    have "resolveWords [''constructor'', name] context today = Some (monthOccurrence context m InheritedDirection)"
      "resolveWords [''this'', name] context today = Some (monthOccurrence context m (Step 0))"
      using n c(2) t(2) by (simp_all add: resolveWords_def resolveCountedOffset_def resolveDirected_def)
    moreover have "monthOccurrence context m InheritedDirection = monthOccurrence context m (Step 0)"
      by (cases "monthOfKey context") (auto simp: monthOccurrence_def Let_def)
    ultimately show ?thesis
      using resolve_join [OF _ refl c(3,4), of "''onstructor''" "[name]"] resolve_join [OF _ refl t(3,4), of "''his''" "[name]"]
        n(1) c(1) t(1) by simp
  qed
  then show ?thesis by (simp add: list_all_iff)
qed

section \<open>Due dates\<close>

lemma plain_word_normal: "plain_word w \<Longrightarrow> toLowerCase (js_trim w) = w"
  by (simp add: plain_word_def list_all_iff trim_plain lower_plain)

text \<open>Three letters tell the weekdays apart.\<close>

lemma other_prefix:
  assumes "3 \<le> k" and "3 \<le> length u" and "take 3 v \<noteq> take 3 u"
  shows "\<not> (v = take k u \<or> 3 \<le> length (take k u) \<and> startsWith v (take k u))"
proof
  assume "v = take k u \<or> 3 \<le> length (take k u) \<and> startsWith v (take k u)"
  then have "\<exists>r. v = take k u @ r" by (auto simp: startsWith_append)
  then have "take 3 v = take 3 u" using assms(1,2) by (auto simp: min_def)
  with assms(3) show False by simp
qed

lemma own_prefix: "3 \<le> k \<Longrightarrow> 3 \<le> length u \<Longrightarrow> u = take k u \<or> 3 \<le> length (take k u) \<and> startsWith u (take k u)"
  by (metis append_take_drop_id length_take min.boundedI startsWith_append)

lemma weekday_prefix:
  assumes "i < 7" and "3 \<le> k"
  shows "plain_word (take k (WEEKDAY_NAMES ! i)) \<and> CHR ''_'' \<notin> set (take k (WEEKDAY_NAMES ! i)) \<and>
    find_index (\<lambda>weekday. weekday = take k (WEEKDAY_NAMES ! i) \<or>
      length (take k (WEEKDAY_NAMES ! i)) \<ge> 3 \<and> startsWith weekday (take k (WEEKDAY_NAMES ! i))) WEEKDAY_NAMES = Some i"
proof (intro conjI)
  show "plain_word (take k (WEEKDAY_NAMES ! i))" "CHR ''_'' \<notin> set (take k (WEEKDAY_NAMES ! i))"
    using weekday_name [OF assms(1)] assms(2) by (auto simp: plain_word_def list_all_iff dest: in_set_takeD)
  have "i = 0 \<or> i = 1 \<or> i = 2 \<or> i = 3 \<or> i = 4 \<or> i = 5 \<or> i = 6" using assms(1) by arith
  then show "find_index (\<lambda>weekday. weekday = take k (WEEKDAY_NAMES ! i) \<or>
      length (take k (WEEKDAY_NAMES ! i)) \<ge> 3 \<and> startsWith weekday (take k (WEEKDAY_NAMES ! i))) WEEKDAY_NAMES = Some i"
    using other_prefix [OF assms(2)] own_prefix [OF assms(2)]
    by (elim disjE) (simp_all add: WEEKDAY_NAMES_def)
qed

lemma next_weekday:
  assumes "0 \<le> (j :: int)" and "j < 7"
  shows "((4 + (t + (j - ((4 + t) mod 7 + 6) mod 7 + 7) mod 7)) mod 7 + 6) mod 7 = j"
proof -
  have week: "((4 + t) mod 7 + 6) mod 7 = (t + 10) mod 7"
    unfolding mod_add_left_eq by (simp only: ac_simps) simp
  have shift: "((4 + (t + x mod 7)) mod 7 + 6) mod 7 = (t + 10 + x) mod 7" for x :: int
  proof -
    have "((4 + (t + x mod 7)) mod 7 + 6) mod 7 = (4 + (t + x mod 7) + 6) mod 7" by (rule mod_add_left_eq)
    also have "4 + (t + x mod 7) + 6 = (t + 10) + x mod 7" by simp
    also have "((t + 10) + x mod 7) mod 7 = (t + 10 + x) mod 7" by (rule mod_add_right_eq)
    finally show ?thesis .
  qed
  have "t + 10 + (j - (t + 10) mod 7 + 7) = (t + j + 17) - (t + 10) mod 7" by simp
  then have "(t + 10 + (j - (t + 10) mod 7 + 7)) mod 7 = ((t + j + 17) - (t + 10)) mod 7"
    by (simp only: mod_diff_right_eq)
  also have "(t + j + 17) - (t + 10) = j + 7" by simp
  finally show ?thesis using assms by (simp only: shift week) simp
qed

theorem due_weekday_is_next:
  assumes "parseDateKey today = Some t" and "1000 \<le> getFullYear t" and "getFullYear t \<le> 9998"
    and "i < 7" and "3 \<le> k"
  shows "\<exists>key day. resolveDueExpression longDate monthTitle (take k (WEEKDAY_NAMES ! i)) today = Some key \<and>
    isDateKey key \<and> parseDateKey key = Some day \<and> t \<le> day \<and> day < t + 7 \<and> (getDay day + 6) mod 7 = int i"
proof -
  let ?w = "take k (WEEKDAY_NAMES ! i)" and ?o = "(int i - (getDay t + 6) mod 7 + 7) mod 7"
  note p = weekday_prefix [OF assms(4,5)]
  have o: "0 \<le> ?o" "?o < 7" by simp_all
  have "map (\<lambda>c. if c = CHR ''_'' then CHR '' '' else c) ?w = ?w"
    using p by (intro map_idI) auto
  moreover have "?w \<noteq> []" using p by (simp add: plain_word_def)
  moreover have "upcomingWeekday ?w today = Some (shiftDay today ?o)"
    using p by (simp add: upcomingWeekday_def shift_by_def mondayFirstWeekday_def assms(1))
  ultimately have "resolveDueExpression longDate monthTitle ?w today = Some (shiftDay today ?o)"
    using p by (simp add: resolveDueExpression_def plain_word_normal Let_def)
  moreover have "100 \<le> getFullYear (t + ?o)" "getFullYear (t + ?o) \<le> 9999"
    using year_near [of ?o t] o assms(2,3) by linarith+
  note shift_day_at [OF assms(1) this]
  moreover have "(getDay (t + ?o) + 6) mod 7 = int i" 
    unfolding getDay_def by (rule next_weekday) (use assms(4) in simp_all)
  ultimately show ?thesis using o by (intro exI [of _ "shiftDay today ?o"] exI [of _ "t + ?o"]) simp
qed

theorem due_weekday_is_next_witness:
  "resolveDueExpression id (\<lambda>x. []) ''fri'' ''2026-10-02'' \<noteq> None"
proof -
  have "parseDateKey ''2026-10-02'' = Some 20728" by code_simp
  moreover have "1000 \<le> getFullYear 20728" "getFullYear 20728 \<le> 9998" by code_simp+
  moreover have "take 3 (WEEKDAY_NAMES ! 4) = ''fri''" by (simp add: WEEKDAY_NAMES_def)
  ultimately show ?thesis using due_weekday_is_next [of "''2026-10-02''" 20728 4 3 id "\<lambda>x. []"] by auto
qed

text \<open>The alias \<open>weds\<close> is unknown to the due dates and falls through to the journal's rule.\<close>

theorem weds_may_be_past:
  assumes "parseDateKey today = Some t" and "1001 \<le> getFullYear t" and "getFullYear t \<le> 9998"
  shows "\<exists>key. resolveDueExpression longDate monthTitle ''weds'' today = Some key \<and>
    parseDateKey key = Some (t - (getDay t + 6) mod 7 + 2)"
proof -
  let ?k = "weekdayInWeek today 2 (Some 0)"
  have k: "isDateKey ?k" "inYearRange (yearOf ?k)" "parseDateKey ?k = Some (t - (getDay t + 6) mod 7 + 2)"
    using weekday_in_week [OF assms, of 0 2] by simp_all
  have w: "plain_word ''weds''" "weekdayIndex ''weds'' = Some 2" "\<not> separator CHR ''w''" "\<not> is_digit CHR ''w''"
    "map (\<lambda>c. if c = CHR ''_'' then CHR '' '' else c) ''weds'' = ''weds''"
    "find_index (\<lambda>weekday. weekday = ''weds'' \<or> length ''weds'' \<ge> 3 \<and> startsWith weekday ''weds'') WEEKDAY_NAMES = None"
    by code_simp+
  have "resolveWords [''weds''] today today = Some (found_day (Some ?k))"
    using w(2) by (simp add: resolveWords_def resolveAnchor_def)
  from resolve_join [OF _ refl w(3,4) this, of longDate monthTitle] w(1)
  have "resolveJournalDateExpression longDate monthTitle ''weds'' today today = Resolved ?k GDay (longDate ?k)"
    using k by (simp add: found_day_def finish_found labelFor_def)
  moreover have "upcomingWeekday ''weds'' today = None" unfolding upcomingWeekday_def w(6) by simp
  ultimately have "resolveDueExpression longDate monthTitle ''weds'' today = Some ?k"
    unfolding resolveDueExpression_def Let_def plain_word_normal [OF w(1)] w(5) by simp
  with k show ?thesis by blast
qed

theorem weds_may_be_past_witness:
  "\<exists>key. resolveDueExpression id (\<lambda>x. []) ''weds'' ''2026-10-02'' = Some key \<and> parseDateKey key = Some (20728 - 2)"
proof -
  have "parseDateKey ''2026-10-02'' = Some 20728" by code_simp
  moreover have "1001 \<le> getFullYear 20728" "getFullYear 20728 \<le> 9998" "(getDay 20728 + 6) mod 7 = 4" by code_simp+
  ultimately show ?thesis using weds_may_be_past [of "''2026-10-02''" 20728 id "\<lambda>x. []"] by simp
qed

text \<open>Rounding absorbs what the time zone moves a midnight by.\<close>

lemma days_between_rounds:
  assumes "2 * \<bar>midnight b - midnight a - (b - a) * DAY_MS\<bar> < DAY_MS"
  shows "round_div (midnight b - midnight a) DAY_MS = b - a"
proof -
  let ?r = "midnight b - midnight a - (b - a) * DAY_MS"
  have "2 * (midnight b - midnight a) + DAY_MS = (2 * ?r + DAY_MS) + (b - a) * (2 * DAY_MS)" by algebra
  moreover have "(2 * ?r + DAY_MS) div (2 * DAY_MS) = 0"
    using assms by (intro div_pos_pos_trivial) (auto simp: DAY_MS_def)
  ultimately show ?thesis unfolding round_div_def by (simp add: DAY_MS_def)
qed

theorem due_label_counts_days:
  assumes "isDateKey due" and "isDateKey today"
    and "parseDateKey today = Some a" and "parseDateKey due = Some b"
    and "2 * \<bar>midnight b - midnight a - (b - a) * DAY_MS\<bar> < DAY_MS"
  shows "formatDueLabel midnight formats due today =
      Some (if b = a then ''Today'' else if b = a + 1 then ''Tomorrow'' else if b = a - 1 then ''Yesterday''
        else if a < b \<and> b < a + 7 then df_shortWeekday formats b
        else if take 4 due = take 4 today then df_monthDay formats b else df_monthDayYear formats b) \<and>
    dueBucket (Some due) isDone today =
      (if b < a then if isDone then Earlier else Overdue else if b = a then DueToday else Upcoming)"
proof -
  have d: "daysBetween midnight today due = Some (b - a)"
    using days_between_rounds [of midnight b a, OF assms(5)] by (simp add: daysBetween_def assms(3,4))
  have "formatDueLabel midnight formats due today =
      Some (if b = a then ''Today'' else if b = a + 1 then ''Tomorrow'' else if b = a - 1 then ''Yesterday''
        else if a < b \<and> b < a + 7 then df_shortWeekday formats b
        else if take 4 due = take 4 today then df_monthDay formats b else df_monthDayYear formats b)"
    unfolding formatDueLabel_def d Let_def by (auto simp: assms(4))
  moreover have "due < today \<longleftrightarrow> b < a" "today < due \<longleftrightarrow> a < b"
    using key_less [OF assms(1,2)] key_less [OF assms(2,1)] assms(3,4) by simp_all
  then have "due = today \<longleftrightarrow> a = b" using assms(3,4) by (metis less_irrefl linorder_less_linear)
  ultimately show ?thesis using \<open>due < today \<longleftrightarrow> b < a\<close> by (simp add: dueBucket_def)
qed

theorem due_label_counts_days_witness:
  "formatDueLabel (\<lambda>d. d * DAY_MS - (if d < 20729 then 3600000 else 0))
     \<lparr>df_shortWeekday = \<lambda>d. [], df_monthDay = \<lambda>d. [], df_monthDayYear = \<lambda>d. []\<rparr> ''2026-10-03'' ''2026-10-02'' = Some ''Tomorrow'' \<and>
   dueBucket (Some ''2026-10-03'') False ''2026-10-02'' = Upcoming"
proof -
  have "isDateKey ''2026-10-03''" "isDateKey ''2026-10-02''"
    "parseDateKey ''2026-10-02'' = Some 20728" "parseDateKey ''2026-10-03'' = Some 20729" by code_simp+
  from due_label_counts_days [OF this, of "\<lambda>d. d * DAY_MS - (if d < 20729 then 3600000 else 0)"
      "\<lparr>df_shortWeekday = \<lambda>d. [], df_monthDay = \<lambda>d. [], df_monthDayYear = \<lambda>d. []\<rparr>" False]
  show ?thesis by (simp add: DAY_MS_def)
qed

end
