(* ===== verification/Alignment.thy ===== *)
theory Alignment
  imports Prelude "HOL-Library.Sublist"
begin

text \<open>
  The longest-common-subsequence alignment of \<open>shared/text/word-diff.ts\<close>, which
  \<open>document/remote-merge.ts\<close> repeats over blocks: a table of the lengths of the longest common
  subsequences of all suffixes, filled from the end, and the walk that reads the operations off
  it. The flat \<open>Uint32Array\<close> is a list of rows; the entries stay below the callers' cell
  budgets, so nothing wraps. The lemmas show that the walk keeps both sides and is optimal.
\<close>

section \<open>The table\<close>

text \<open>One row, given the row below it.\<close>

fun fill_row :: "'a \<Rightarrow> 'a list \<Rightarrow> nat list \<Rightarrow> nat list" where
  "fill_row b (a # after) (skipRow # below) =
     (let row = fill_row b after below
      in (if b = a then hd below + 1 else max skipRow (hd row)) # row)"
| "fill_row b after below = [0]"

fun lcs_table :: "'a list \<Rightarrow> 'a list \<Rightarrow> nat list list" where
  "lcs_table [] after = [replicate (Suc (length after)) 0]"
| "lcs_table (b # before) after =
     (let table = lcs_table before after in fill_row b after (hd table) # table)"

section \<open>The walk\<close>

datatype diff_kind = Context | Added | Removed

type_synonym 'a diff_op = "diff_kind \<times> 'a"

function lcs_walk :: "nat list list \<Rightarrow> 'a list \<Rightarrow> 'a list \<Rightarrow> nat \<Rightarrow> nat \<Rightarrow> 'a diff_op list" where
  "lcs_walk table before after row column =
     (if row < length before \<and> column < length after then
        if before ! row = after ! column
        then (Context, before ! row) # lcs_walk table before after (row + 1) (column + 1)
        else if table ! (row + 1) ! column \<ge> table ! row ! (column + 1)
        then (Removed, before ! row) # lcs_walk table before after (row + 1) column
        else (Added, after ! column) # lcs_walk table before after row (column + 1)
      else map (Pair Removed) (drop row before) @ map (Pair Added) (drop column after))"
  by pat_completeness auto

termination lcs_walk
  by (relation "measure (\<lambda>(_, before, after, row, column). (length before - row) + (length after - column))") auto

declare lcs_walk.simps [simp del]

definition lcsOps :: "'a list \<Rightarrow> 'a list \<Rightarrow> 'a diff_op list" where
  "lcsOps before after = lcs_walk (lcs_table before after) before after 0 0"

section \<open>The reference alignment\<close>

fun lcs :: "'a list \<Rightarrow> 'a list \<Rightarrow> nat" where
  "lcs [] ys = 0"
| "lcs (x # xs) [] = 0"
| "lcs (x # xs) (y # ys) = (if x = y then lcs xs ys + 1 else max (lcs xs (y # ys)) (lcs (x # xs) ys))"

fun align :: "'a list \<Rightarrow> 'a list \<Rightarrow> 'a diff_op list" where
  "align [] ys = map (Pair Added) ys"
| "align (x # xs) [] = map (Pair Removed) (x # xs)"
| "align (x # xs) (y # ys) =
     (if x = y then (Context, x) # align xs ys
      else if lcs xs (y # ys) \<ge> lcs (x # xs) ys then (Removed, x) # align xs (y # ys)
      else (Added, y) # align (x # xs) ys)"

lemma lcs_Nil [simp]: "lcs xs [] = 0"
  by (cases xs) simp_all

lemma align_Nil [simp]: "align xs [] = map (Pair Removed) xs"
  by (cases xs) simp_all

fun suffix_row :: "'a list \<Rightarrow> 'a list \<Rightarrow> nat list" where
  "suffix_row xs [] = [0]"
| "suffix_row xs (y # ys) = lcs xs (y # ys) # suffix_row xs ys"

lemma suffix_row_hd [simp]: "hd (suffix_row xs ys) = lcs xs ys"
  by (cases ys) simp_all

lemma suffix_row_nth: "j \<le> length ys \<Longrightarrow> suffix_row xs ys ! j = lcs xs (drop j ys)"
  by (induction xs ys arbitrary: j rule: suffix_row.induct) (auto simp: nth_Cons split: nat.split)

lemma suffix_row_Nil: "suffix_row [] ys = replicate (Suc (length ys)) 0"
  by (induction ys) simp_all

lemma fill_row_suffix: "fill_row b ys (suffix_row xs ys) = suffix_row (b # xs) ys"
  by (induction ys) (simp_all add: Let_def)

lemma lcs_table_hd: "hd (lcs_table xs ys) = suffix_row xs ys"
  by (induction xs) (simp_all add: suffix_row_Nil fill_row_suffix Let_def)

lemma lcs_table_nth: "i \<le> length xs \<Longrightarrow> lcs_table xs ys ! i = suffix_row (drop i xs) ys"
proof (induction xs arbitrary: i)
  case Nil
  then show ?case by (simp add: suffix_row_Nil)
next
  case (Cons x xs)
  then show ?case by (cases i) (simp_all add: Let_def lcs_table_hd fill_row_suffix)
qed

lemma table_entry: "i \<le> length xs \<Longrightarrow> j \<le> length ys \<Longrightarrow> lcs_table xs ys ! i ! j = lcs (drop i xs) (drop j ys)"
  by (simp add: lcs_table_nth suffix_row_nth)

lemma lcs_walk_align:
  "lcs_walk (lcs_table xs ys) xs ys i j = align (drop i xs) (drop j ys)"
proof (induction "lcs_table xs ys" xs ys i j rule: lcs_walk.induct)
  case (1 xs ys i j)
  show ?case
  proof (cases "i < length xs \<and> j < length ys")
    case True
    then have d: "drop i xs = xs ! i # drop (Suc i) xs" "drop j ys = ys ! j # drop (Suc j) ys"
      by (simp_all add: Cons_nth_drop_Suc)
    have t: "lcs_table xs ys ! (i + 1) ! j = lcs (drop (Suc i) xs) (drop j ys)"
        "lcs_table xs ys ! i ! (j + 1) = lcs (drop i xs) (drop (Suc j) ys)"
      using True by (simp_all add: table_entry)
    show ?thesis
      unfolding lcs_walk.simps [of _ _ _ i j] t
      using True 1 unfolding t by (simp add: d)
  next
    case False
    then have "drop i xs = [] \<or> drop j ys = []" by auto
    with False show ?thesis by (auto simp: lcs_walk.simps [of _ _ _ i j])
  qed
qed

lemma lcsOps_align: "lcsOps xs ys = align xs ys"
  by (simp add: lcsOps_def lcs_walk_align)

section \<open>Both sides are kept, and no alignment keeps more\<close>

definition old_side :: "'a diff_op list \<Rightarrow> 'a list" where
  "old_side ops = map snd (filter (\<lambda>op. fst op \<noteq> Added) ops)"

definition new_side :: "'a diff_op list \<Rightarrow> 'a list" where
  "new_side ops = map snd (filter (\<lambda>op. fst op \<noteq> Removed) ops)"

definition kept :: "'a diff_op list \<Rightarrow> 'a list" where
  "kept ops = map snd (filter (\<lambda>op. fst op = Context) ops)"

lemma side_simps [simp]:
  "old_side [] = []" "new_side [] = []" "kept [] = []"
  "old_side ((k, x) # ops) = (if k = Added then old_side ops else x # old_side ops)"
  "new_side ((k, x) # ops) = (if k = Removed then new_side ops else x # new_side ops)"
  "kept ((k, x) # ops) = (if k = Context then x # kept ops else kept ops)"
  "old_side (ops @ ops') = old_side ops @ old_side ops'"
  "new_side (ops @ ops') = new_side ops @ new_side ops'"
  "kept (ops @ ops') = kept ops @ kept ops'"
  by (simp_all add: old_side_def new_side_def kept_def)

lemma side_maps [simp]:
  "old_side (map (Pair k) xs) = (if k = Added then [] else xs)"
  "new_side (map (Pair k) xs) = (if k = Removed then [] else xs)"
  "kept (map (Pair k) xs) = (if k = Context then xs else [])"
  by (induction xs; cases k; simp)+

lemma align_sides: "old_side (align xs ys) = xs \<and> new_side (align xs ys) = ys"
  by (induction xs ys rule: align.induct) simp_all

lemma align_kept_length: "length (kept (align xs ys)) = lcs xs ys"
  by (induction xs ys rule: align.induct) (simp_all add: max_def)

lemma kept_subseq: "subseq (kept ops) (old_side ops) \<and> subseq (kept ops) (new_side ops)"
proof (induction ops)
  case (Cons op ops)
  then show ?case by (cases op; cases "fst op") auto
qed simp

lemma lcs_upper: "subseq zs xs \<Longrightarrow> subseq zs ys \<Longrightarrow> length zs \<le> lcs xs ys"
proof (induction xs ys arbitrary: zs rule: lcs.induct)
  case (3 x xs y ys)
  show ?case
  proof (cases zs)
    case (Cons z zs')
    show ?thesis
    proof (cases "x = y")
      case True
      have "subseq zs' xs" "subseq zs' ys"
        using "3.prems" Cons by (metis subseq_Cons' subseq_Cons2_neq subseq_Cons2_iff)+
      with "3.IH"(1) [OF True] True Cons show ?thesis by auto
    next
      case False
      then have "z \<noteq> x \<or> z \<noteq> y" by blast
      then show ?thesis
      proof
        assume "z \<noteq> x"
        then have "subseq zs xs" using "3.prems" Cons by simp
        with "3.IH"(2) [OF False] "3.prems" have "length zs \<le> lcs xs (y # ys)" by blast
        with False show ?thesis by simp
      next
        assume "z \<noteq> y"
        then have "subseq zs ys" using "3.prems" Cons by simp
        with "3.IH"(3) [OF False] "3.prems" have "length zs \<le> lcs (x # xs) ys" by blast
        with False show ?thesis by simp
      qed
    qed
  qed simp
qed auto

lemma lcs_reached: "\<exists>zs. subseq zs xs \<and> subseq zs ys \<and> length zs = lcs xs ys"
  using kept_subseq [of "align xs ys"] align_sides [of xs ys] align_kept_length [of xs ys] by metis

lemma lcs_prefix: "lcs (ps @ xs) (ps @ ys) = length ps + lcs xs ys"
  by (induction ps) simp_all

lemma subseq_snoc: "subseq zs (vs @ [c]) \<Longrightarrow> subseq (butlast zs) vs"
proof (elim subseq_appendE)
  fix us ws
  assume z: "zs = us @ ws" "subseq us vs" "subseq ws [c]"
  from z(3) have "length ws \<le> 1" by (auto dest: list_emb_length)
  then have "butlast zs = us \<or> butlast zs = butlast us"
    unfolding z(1) by (cases ws; cases "tl ws") (simp_all add: butlast_append)
  moreover have "subseq (butlast us) us" by (metis append_butlast_last_id butlast.simps(1) subseq_order.order_refl subseq_rev_drop_many)
  ultimately show ?thesis using z(2) subseq_order.order_trans by metis
qed

lemma lcs_snoc: "lcs (xs @ [c]) (ys @ [c]) = Suc (lcs xs ys)"
proof (rule antisym)
  obtain zs where z: "subseq zs (xs @ [c])" "subseq zs (ys @ [c])" "length zs = lcs (xs @ [c]) (ys @ [c])"
    using lcs_reached by blast
  have "length (butlast zs) \<le> lcs xs ys" using z(1,2) by (intro lcs_upper subseq_snoc)
  with z(3) show "lcs (xs @ [c]) (ys @ [c]) \<le> Suc (lcs xs ys)" by simp
next
  obtain zs where "subseq zs xs" "subseq zs ys" "length zs = lcs xs ys" using lcs_reached by blast
  then show "Suc (lcs xs ys) \<le> lcs (xs @ [c]) (ys @ [c])"
    using lcs_upper [of "zs @ [c]" "xs @ [c]" "ys @ [c]"] by simp
qed

lemma lcs_suffix: "lcs (xs @ ss) (ys @ ss) = lcs xs ys + length ss"
  by (induction ss rule: rev_induct) (simp_all add: lcs_snoc flip: append_assoc)

section \<open>Trimming the common ends\<close>

fun commonPrefixLength :: "'a list \<Rightarrow> 'a list \<Rightarrow> nat" where
  "commonPrefixLength (x # before) (y # after) = (if x = y then commonPrefixLength before after + 1 else 0)"
| "commonPrefixLength _ _ = 0"

text \<open>The scan from the ends, at most \<open>limit\<close> steps.\<close>

definition commonSuffixLength :: "'a list \<Rightarrow> 'a list \<Rightarrow> nat \<Rightarrow> nat" where
  "commonSuffixLength before after limit = min limit (commonPrefixLength (rev before) (rev after))"

lemma common_prefix:
  "take (commonPrefixLength xs ys) xs = take (commonPrefixLength xs ys) ys \<and>
   commonPrefixLength xs ys \<le> length xs \<and> commonPrefixLength xs ys \<le> length ys"
  by (induction xs ys rule: commonPrefixLength.induct) auto

lemma common_suffix:
  assumes "k \<le> commonPrefixLength (rev xs) (rev ys)"
  shows "drop (length xs - k) xs = drop (length ys - k) ys"
proof -
  let ?c = "commonPrefixLength (rev xs) (rev ys)"
  have "take k (rev xs) = take k (take ?c (rev xs))" "take k (rev ys) = take k (take ?c (rev ys))"
    using assms by (simp_all add: min_def)
  then have "take k (rev xs) = take k (rev ys)"
    using common_prefix [of "rev xs" "rev ys"] by simp
  then have "rev (drop (length xs - k) xs) = rev (drop (length ys - k) ys)"
    by (simp only: take_rev)
  then show ?thesis by simp
qed

lemma middle_cut: "p \<le> n \<Longrightarrow> xs = take p xs @ drop p (take n xs) @ drop n xs"
proof -
  assume "p \<le> n"
  then have "take p xs = take p (take n xs)" by (simp add: min_def)
  then show ?thesis by (simp only: append_assoc [symmetric] append_take_drop_id)
qed

lemma trimmed_parts:
  fixes before after :: "'a list" and limit :: nat
  defines "p \<equiv> commonPrefixLength before after"
  defines "s \<equiv> commonSuffixLength before after limit"
  assumes limit: "limit \<le> length before - p" "limit \<le> length after - p"
  obtains front mid mid' ending where
    "before = front @ mid @ ending" "after = front @ mid' @ ending"
    "front = take p before" "mid = drop p (take (length before - s) before)"
    "mid' = drop p (take (length after - s) after)" "ending = drop (length before - s) before"
    "p = length front" "s = length ending"
proof -
  have p: "take p before = take p after" "p \<le> length before" "p \<le> length after"
    using common_prefix [of before after] by (simp_all add: p_def)
  have e: "drop (length before - s) before = drop (length after - s) after"
    by (rule common_suffix) (simp add: s_def commonSuffixLength_def)
  have "s \<le> limit" by (simp add: s_def commonSuffixLength_def)
  then have "p \<le> length before - s" "p \<le> length after - s" "s \<le> length before" "s \<le> length after" using p limit by auto
  note middle_cut [OF this(1), of before] middle_cut [OF this(2), of after] this(3,4)
  with e p show thesis
    by (intro that [OF _ _ refl refl refl refl]) (simp only: p(1), simp only: p(1), simp_all)
qed

end
