(* ===== verification/Text_Diff.thy ===== *)
theory Text_Diff
  imports Alignment Text_Ops
begin

text \<open>
  \<open>shared/text/word-diff.ts\<close> and \<open>features/history/diff/model.ts\<close> of the workspace: the line
  diff of two documents for the history view, with word-level segments inside replaced lines.
  Similarities are exact rationals where the code divides doubles: a single quotient compares
  alike, a sum of quotients may round a tie the other way and then pair other lines of a block.
\<close>

section \<open>Word segments\<close>

type_synonym diff_segment = "string \<times> bool"

definition MAX_MATRIX_CELLS :: nat where "MAX_MATRIX_CELLS = 4000000"
definition MAX_LINE_DIFF_CHARS :: nat where "MAX_LINE_DIFF_CHARS = 4096"
definition MIN_PAIR_SIMILARITY :: number where "MIN_PAIR_SIMILARITY = 34 / 100"

text \<open>\<open>text.match(/(\s+|[^\s]+)/g)\<close>: maximal runs of white space and of anything else.\<close>

function tokenizeWords :: "string \<Rightarrow> string list" where
  "tokenizeWords [] = []"
| "tokenizeWords (c # s) =
     (c # takeWhile (\<lambda>d. js_space d = js_space c) s) # tokenizeWords (dropWhile (\<lambda>d. js_space d = js_space c) s)"
  by pat_completeness auto

termination tokenizeWords
  by (relation "measure length") (auto simp: length_dropWhile_le le_imp_less_Suc)

definition pool_of :: "string list \<Rightarrow> (string, nat) omap" where
  "pool_of before =
     fold (\<lambda>token pool. if js_trim token \<noteq> [] then omap_set token (omap_getd 0 pool token + 1) pool else pool) before []"

definition shared_tokens :: "(string, nat) omap \<Rightarrow> string list \<Rightarrow> nat" where
  "shared_tokens pool after =
     snd (fold (\<lambda>token (pool, shared).
       let remaining = omap_getd 0 pool token
       in if remaining > 0 then (omap_set token (remaining - 1) pool, shared + 1) else (pool, shared))
       after (pool, 0))"

definition wordSimilarity :: "string list \<Rightarrow> string list \<Rightarrow> number" where
  "wordSimilarity before after =
     (if before = [] \<and> after = [] then 1
      else of_nat (shared_tokens (pool_of before) after) / of_nat (max (length before) (length after)))"

text \<open>Appending to the last run when the flag agrees.\<close>

definition push_run :: "diff_segment list \<Rightarrow> diff_segment \<Rightarrow> diff_segment list" where
  "push_run runs s =
     (if runs \<noteq> [] \<and> snd (last runs) = snd s then butlast runs @ [(fst (last runs) @ fst s, snd s)] else runs @ [s])"

definition mergeSegments :: "diff_segment list \<Rightarrow> diff_segment list" where
  "mergeSegments segments =
     fold (\<lambda>s merged. if fst s = [] then merged else push_run merged s) segments []"

definition wholeBlob :: "string \<Rightarrow> string \<Rightarrow> diff_segment list \<times> diff_segment list" where
  "wholeBlob before after =
     (if before \<noteq> [] then [(before, True)] else [], if after \<noteq> [] then [(after, True)] else [])"

definition side_runs :: "string diff_op list \<Rightarrow> diff_kind \<Rightarrow> diff_segment list" where
  "side_runs ops changedKind =
     fold (\<lambda>op runs. if fst op \<noteq> Context \<and> fst op \<noteq> changedKind then runs
       else push_run runs (snd op, fst op = changedKind)) ops []"

text \<open>A one-character unchanged run between two changed ones joins the run before it.\<close>

fun absorb_gaps :: "diff_segment list \<Rightarrow> diff_segment list \<Rightarrow> diff_segment list" where
  "absorb_gaps joined [] = joined"
| "absorb_gaps joined (run # runs) =
     (if \<not> snd run \<and> length (fst run) = 1 \<and> joined \<noteq> [] \<and> snd (last joined) \<and> runs \<noteq> []
      then absorb_gaps (butlast joined @ [(fst (last joined) @ fst run, True)]) runs
      else absorb_gaps (joined @ [run]) runs)"

definition sideSegments :: "string diff_op list \<Rightarrow> diff_kind \<Rightarrow> diff_segment list" where
  "sideSegments ops changedKind = mergeSegments (absorb_gaps [] (side_runs ops changedKind))"

definition diffWords :: "string \<Rightarrow> string \<Rightarrow> diff_segment list \<times> diff_segment list" where
  "diffWords before after =
     (if length before > MAX_LINE_DIFF_CHARS \<or> length after > MAX_LINE_DIFF_CHARS then wholeBlob before after
      else
        let beforeTokens = tokenizeWords before; afterTokens = tokenizeWords after
        in if length beforeTokens * length afterTokens > MAX_MATRIX_CELLS then wholeBlob before after
           else if wordSimilarity beforeTokens afterTokens < MIN_PAIR_SIMILARITY then wholeBlob before after
           else
             let ops = lcsOps beforeTokens afterTokens
             in (sideSegments ops Removed, sideSegments ops Added))"

section \<open>Lines\<close>

record diff_line =
  dl_key :: string
  dl_kind :: diff_kind
  dl_beforeLine :: "nat option"
  dl_afterLine :: "nat option"
  dl_segments :: "diff_segment list"

record diff_hunk =
  dh_key :: string
  dh_hiddenBefore :: "diff_line list"
  dh_lines :: "diff_line list"

record markdown_diff =
  md_hunks :: "diff_hunk list"
  md_added :: nat
  md_removed :: nat
  md_truncated :: bool

definition CONTEXT_LINES :: nat where "CONTEXT_LINES = 3"
definition MAX_ALIGNMENT_COMPARISONS :: nat where "MAX_ALIGNMENT_COMPARISONS = 4096"
definition MIN_IMPROVEMENT_PER_PAIR :: number where "MIN_IMPROVEMENT_PER_PAIR = 1 / 2"

definition LF :: char where "LF = CHR 0x0A"
definition CR :: char where "CR = CHR 0x0D"

text \<open>\<open>replace(/\r\n?/g, "\n")\<close>.\<close>

fun unix_lines :: "string \<Rightarrow> string" where
  "unix_lines [] = []"
| "unix_lines [c] = [if c = CR then LF else c]"
| "unix_lines (c # d # s) =
     (if c = CR then LF # (if d = LF then unix_lines s else unix_lines (d # s)) else c # unix_lines (d # s))"

definition splitLines :: "string \<Rightarrow> string list" where
  "splitLines markdown =
     (let normalized = rev (dropWhile (\<lambda>c. c = LF) (rev (unix_lines markdown)))
      in if normalized = [] then [] else split_on LF normalized)"

text \<open>One pass over the change runs; a uniform blank run moves before the equal context lines
  above it.\<close>

definition change_run :: "string diff_op list \<Rightarrow> nat \<Rightarrow> string diff_op list" where
  "change_run result index = takeWhile (\<lambda>op. fst op \<noteq> Context) (drop index result)"

definition slide_run :: "string diff_op list \<Rightarrow> nat \<Rightarrow> string diff_op list" where
  "slide_run result index =
     (let first = result ! index;
          run = change_run result index;
          ending = index + length run;
          pure = list_all (\<lambda>op. fst op = fst first) run;
          unit = snd first;
          uniformBlank = (pure \<and> js_trim unit = [] \<and> list_all (\<lambda>op. snd op = unit) run);
          slide = length (takeWhile (\<lambda>op. op = (Context, unit)) (rev (take index result)))
      in if uniformBlank \<and> slide > 0
         then take (index - slide) result @ replicate (length run) (fst first, unit) @
              replicate slide (Context, unit) @ drop ending result
         else result)"

lemma slide_bound: "length (takeWhile P (rev (take i xs))) \<le> i"
  using length_takeWhile_le [of P "rev (take i xs)"] by simp

lemma change_run_bound: "index + length (change_run result index) \<le> max index (length result)"
  using length_takeWhile_le [of "\<lambda>op. fst op \<noteq> Context" "drop index result"] by (simp add: change_run_def)

lemma change_run_moves: "index < length result \<Longrightarrow> fst (result ! index) \<noteq> Context \<Longrightarrow> 0 < length (change_run result index)"
  by (simp add: change_run_def Cons_nth_drop_Suc [symmetric])

lemma slide_run_length: "index < length result \<Longrightarrow> length (slide_run result index) = length result"
  using change_run_bound [of index result] slide_bound [of _ index result]
  by (auto simp: slide_run_def Let_def min_def)

function slide_loop :: "string diff_op list \<Rightarrow> nat \<Rightarrow> string diff_op list" where
  "slide_loop result index =
     (if index < length result then
        if fst (result ! index) = Context then slide_loop result (index + 1)
        else slide_loop (slide_run result index) (index + length (change_run result index))
      else result)"
  by pat_completeness auto

lemma slide_step:
  assumes "index < length result" and "fst (result ! index) \<noteq> Context"
  shows "length (slide_run result index) - (index + length (change_run result index)) < length result - index"
  unfolding slide_run_length [OF assms(1)] using assms(1) change_run_moves [OF assms] by linarith

termination slide_loop
  by (relation "measure (\<lambda>(result, index). length result - index)") (simp_all add: slide_step)

declare slide_loop.simps [simp del]

definition slideBlankRunsUp :: "string diff_op list \<Rightarrow> string diff_op list" where
  "slideBlankRunsUp ops = slide_loop ops 0"

section \<open>Pairing replaced lines\<close>

definition stripped :: "string \<Rightarrow> string" where
  "stripped s = filter (\<lambda>c. \<not> js_space c) s"

definition lineSimilarity :: "string \<Rightarrow> string \<Rightarrow> number" where
  "lineSimilarity before after =
     (let strippedBefore = stripped before; strippedAfter = stripped after
      in if strippedBefore = strippedAfter then 1
         else
           let maxLength = max (length strippedBefore) (length strippedAfter);
               minLength = min (length strippedBefore) (length strippedAfter)
           in if minLength = 0 then 0
              else
                let prefix = commonPrefixLength strippedBefore strippedAfter;
                    suffix = commonSuffixLength strippedBefore strippedAfter (minLength - prefix)
                in of_nat (prefix + suffix) / of_nat maxLength)"

definition lineText :: "diff_line \<Rightarrow> string" where
  "lineText line = concat (map fst (dl_segments line))"

fun best_offset :: "(nat \<Rightarrow> number) \<Rightarrow> nat list \<Rightarrow> nat \<Rightarrow> number \<Rightarrow> nat" where
  "best_offset score [] bestOffset bestScore = bestOffset"
| "best_offset score (offset # offsets) bestOffset bestScore =
     (if score offset > bestScore then best_offset score offsets offset (score offset)
      else best_offset score offsets bestOffset bestScore)"

definition bestPairOffset :: "diff_line list \<Rightarrow> diff_line list \<Rightarrow> nat" where
  "bestPairOffset removed added =
     (let pairCount = min (length removed) (length added);
          surplus = max (length removed) (length added) - pairCount
      in if pairCount = 0 \<or> surplus = 0 \<or> pairCount * (surplus + 1) > MAX_ALIGNMENT_COMPARISONS then 0
         else
           let addedIsLonger = length added > length removed;
               score = (\<lambda>offset. sum_list (map (\<lambda>pair.
                 lineSimilarity (lineText (removed ! (pair + (if addedIsLonger then 0 else offset))))
                   (lineText (added ! (pair + (if addedIsLonger then offset else 0))))) [0 ..< pairCount]))
           in best_offset score [1 ..< Suc surplus] 0 (score 0 + of_nat pairCount * MIN_IMPROVEMENT_PER_PAIR))"

definition pair_words :: "diff_line \<times> diff_line \<Rightarrow> diff_segment list \<times> diff_segment list" where
  "pair_words p = diffWords (lineText (fst p)) (lineText (snd p))"

definition refineChangeBlock :: "diff_line list \<Rightarrow> diff_line list \<Rightarrow> diff_line list" where
  "refineChangeBlock removed added =
     (if removed = [] \<or> added = [] then removed @ added
      else
        let offset = (if length removed = length added then 0 else bestPairOffset removed added);
            pairCount = min (length removed) (length added);
            removedOffset = (if length removed > length added then offset else 0);
            addedOffset = (if length added > length removed then offset else 0);
            pairs = map (\<lambda>pair. (removed ! (removedOffset + pair), added ! (addedOffset + pair))) [0 ..< pairCount]
        in take removedOffset removed @ take addedOffset added @
           map (\<lambda>p. (fst p)\<lparr>dl_segments := fst (pair_words p)\<rparr>) pairs @
           map (\<lambda>p. (snd p)\<lparr>dl_segments := snd (pair_words p)\<rparr>) pairs @
           drop (removedOffset + pairCount) removed @ drop (addedOffset + pairCount) added)"

function refinePairs :: "diff_line list \<Rightarrow> diff_line list" where
  "refinePairs [] = []"
| "refinePairs (line # lines) =
     (if dl_kind line = Context then line # refinePairs lines
      else
        let block = line # takeWhile (\<lambda>l. dl_kind l \<noteq> Context) lines
        in refineChangeBlock (filter (\<lambda>l. dl_kind l = Removed) block) (filter (\<lambda>l. dl_kind l \<noteq> Removed) block) @
           refinePairs (dropWhile (\<lambda>l. dl_kind l \<noteq> Context) lines))"
  by pat_completeness auto

termination refinePairs
  by (relation "measure length") (auto simp: length_dropWhile_le le_imp_less_Suc)

section \<open>Hunks\<close>

definition toLine :: "string diff_op \<Rightarrow> nat option \<Rightarrow> nat option \<Rightarrow> string \<Rightarrow> diff_line" where
  "toLine op beforeLine afterLine key =
     \<lparr>dl_key = key, dl_kind = fst op, dl_beforeLine = beforeLine, dl_afterLine = afterLine,
      dl_segments = (if snd op \<noteq> [] then [(snd op, False)] else [])\<rparr>"

text \<open>The numbered lines from the cursors on.\<close>

fun number_lines :: "string diff_op list \<Rightarrow> nat \<Rightarrow> nat \<Rightarrow> nat \<Rightarrow> diff_line list" where
  "number_lines [] index beforeCursor afterCursor = []"
| "number_lines (op # ops) index beforeCursor afterCursor =
     (let key = ''line-'' @ nat_digits index
      in case fst op of
           Context \<Rightarrow> toLine op (Some (beforeCursor + 1)) (Some (afterCursor + 1)) key #
             number_lines ops (index + 1) (beforeCursor + 1) (afterCursor + 1)
         | Removed \<Rightarrow> toLine op (Some (beforeCursor + 1)) None key #
             number_lines ops (index + 1) (beforeCursor + 1) afterCursor
         | Added \<Rightarrow> toLine op None (Some (afterCursor + 1)) key #
             number_lines ops (index + 1) beforeCursor (afterCursor + 1))"

definition changed_indexes :: "diff_line list \<Rightarrow> nat list" where
  "changed_indexes lines = filter (\<lambda>index. dl_kind (lines ! index) \<noteq> Context) [0 ..< length lines]"

text \<open>Ranges with both ends included; one that touches the last is merged into it.\<close>

definition add_range :: "nat \<Rightarrow> nat \<Rightarrow> (nat \<times> nat) list \<Rightarrow> (nat \<times> nat) list" where
  "add_range count index ranges =
     (let start = index - CONTEXT_LINES; ending = min (count - 1) (index + CONTEXT_LINES)
      in if ranges \<noteq> [] \<and> start \<le> snd (last ranges) + 1
         then butlast ranges @ [(fst (last ranges), max (snd (last ranges)) ending)]
         else ranges @ [(start, ending)])"

definition hunk_ranges :: "diff_line list \<Rightarrow> (nat \<times> nat) list" where
  "hunk_ranges lines = fold (add_range (length lines)) (changed_indexes lines) []"

text \<open>\<open>from_index\<close> is the line after the previous range.\<close>

fun cut_hunks :: "diff_line list \<Rightarrow> (nat \<times> nat) list \<Rightarrow> nat \<Rightarrow> nat \<Rightarrow> diff_hunk list" where
  "cut_hunks lines [] index from_index = []"
| "cut_hunks lines ((start, ending) # ranges) index from_index =
     \<lparr>dh_key = ''hunk-'' @ nat_digits index,
      dh_hiddenBefore = drop from_index (take start lines),
      dh_lines = drop start (take (ending + 1) lines)\<rparr> # cut_hunks lines ranges (index + 1) (ending + 1)"

definition buildHunks :: "diff_line list \<Rightarrow> diff_hunk list" where
  "buildHunks lines = (if changed_indexes lines = [] then [] else cut_hunks lines (hunk_ranges lines) 0 0)"

definition diff_ops :: "string list \<Rightarrow> string list \<Rightarrow> string diff_op list \<times> bool" where
  "diff_ops before after =
     (let prefix = commonPrefixLength before after;
          suffixLimit = min (length before) (length after) - prefix;
          suffix = commonSuffixLength before after suffixLimit;
          beforeMiddle = drop prefix (take (length before - suffix) before);
          afterMiddle = drop prefix (take (length after - suffix) after);
          truncated = ((length beforeMiddle + 1) * (length afterMiddle + 1) > MAX_MATRIX_CELLS);
          middleOps = (if truncated then map (Pair Removed) beforeMiddle @ map (Pair Added) afterMiddle
                       else lcsOps beforeMiddle afterMiddle);
          joinedOps = map (Pair Context) (take prefix before) @ middleOps @
                      map (Pair Context) (drop (length before - suffix) before)
      in (if truncated then joinedOps else slideBlankRunsUp joinedOps, truncated))"

definition diffMarkdown :: "string \<Rightarrow> string \<Rightarrow> markdown_diff" where
  "diffMarkdown beforeMarkdown afterMarkdown =
     (let (ops, truncated) = diff_ops (splitLines beforeMarkdown) (splitLines afterMarkdown);
          lines = number_lines ops 0 0 0
      in \<lparr>md_hunks = buildHunks (if truncated then lines else refinePairs lines),
          md_added = length (filter (\<lambda>op. fst op = Added) ops),
          md_removed = length (filter (\<lambda>op. fst op = Removed) ops),
          md_truncated = truncated\<rparr>)"

end
