(* ===== verification/Diff_Theorems.thy ===== *)
theory Diff_Theorems
  imports Text_Diff
begin

text \<open>
  What the history diff promises: its lines are both documents, numbered and with the changes
  between them, the hunks cut them without dropping a change, and a diff that is not truncated
  changes as few lines as possible.
\<close>

section \<open>Segments keep the text\<close>

definition segments_text :: "diff_segment list \<Rightarrow> string" where
  "segments_text segments = concat (map fst segments)"

lemma segments_text_simps [simp]:
  "segments_text [] = []"
  "segments_text (s # ss) = fst s @ segments_text ss"
  "segments_text (ss @ ss') = segments_text ss @ segments_text ss'"
  by (simp_all add: segments_text_def)

lemma segments_text_last: "ss \<noteq> [] \<Longrightarrow> segments_text (butlast ss) @ fst (last ss) = segments_text ss"
  by (induction ss rule: rev_induct) simp_all

lemma lineText_segments: "lineText l = segments_text (dl_segments l)"
  by (simp add: lineText_def segments_text_def)

lemma tokens_text: "concat (tokenizeWords s) = s"
  by (induction s rule: tokenizeWords.induct) simp_all

lemma push_run_text [simp]: "segments_text (push_run runs s) = segments_text runs @ fst s"
  using segments_text_last [of runs] by (auto simp: push_run_def simp flip: append_assoc)

lemma mergeSegments_text [simp]: "segments_text (mergeSegments ss) = segments_text ss"
proof -
  have "segments_text (fold (\<lambda>s merged. if fst s = [] then merged else push_run merged s) ss merged) =
      segments_text merged @ segments_text ss" for merged
    by (induction ss arbitrary: merged) simp_all
  then show ?thesis by (simp add: mergeSegments_def)
qed

lemma absorb_gaps_text: "segments_text (absorb_gaps joined runs) = segments_text joined @ segments_text runs"
  using segments_text_last
  by (induction joined runs rule: absorb_gaps.induct) (auto simp flip: append_assoc)

lemma side_runs_text:
  "segments_text (side_runs ops Removed) = concat (old_side ops)"
  "segments_text (side_runs ops Added) = concat (new_side ops)"
proof -
  have "segments_text (fold (\<lambda>op runs. if fst op \<noteq> Context \<and> fst op \<noteq> k then runs
       else push_run runs (snd op, fst op = k)) ops runs) =
      segments_text runs @ concat (map snd (filter (\<lambda>op. fst op = Context \<or> fst op = k) ops))" for k runs
    by (induction ops arbitrary: runs) simp_all
  then have k: "segments_text (side_runs ops k) = concat (map snd (filter (\<lambda>op. fst op = Context \<or> fst op = k) ops))" for k
    by (simp add: side_runs_def)
  have "(fst op = Context \<or> fst op = Removed) = (fst op \<noteq> Added)" "(fst op = Context \<or> fst op = Added) = (fst op \<noteq> Removed)"
    for op :: "string diff_op" by (cases "fst op"; simp)+
  with k [of Removed] k [of Added] show
    "segments_text (side_runs ops Removed) = concat (old_side ops)"
    "segments_text (side_runs ops Added) = concat (new_side ops)"
    by (simp_all add: old_side_def new_side_def)
qed

lemma wholeBlob_text: "segments_text (fst (wholeBlob a b)) = a \<and> segments_text (snd (wholeBlob a b)) = b"
  by (simp add: wholeBlob_def)

lemma diffWords_text: "segments_text (fst (diffWords a b)) = a \<and> segments_text (snd (diffWords a b)) = b"
  using align_sides [of "tokenizeWords a" "tokenizeWords b"] wholeBlob_text [of a b]
  by (simp add: diffWords_def Let_def sideSegments_def absorb_gaps_text side_runs_text lcsOps_align tokens_text)

section \<open>Sliding blank runs\<close>

definition count_kind :: "diff_kind \<Rightarrow> 'a diff_op list \<Rightarrow> nat" where
  "count_kind k ops = length (filter (\<lambda>op. fst op = k) ops)"

lemma count_append [simp]: "count_kind k (xs @ ys) = count_kind k xs + count_kind k ys"
  by (simp add: count_kind_def)

lemma side_replicate [simp]:
  "old_side (replicate n (k, x)) = (if k = Added then [] else replicate n x)"
  "new_side (replicate n (k, x)) = (if k = Removed then [] else replicate n x)"
  "count_kind j (replicate n (k, x)) = (if j = k then n else 0)"
  by (induction n) (auto simp: count_kind_def)

lemma all_equal_replicate: "\<forall>y \<in> set ys. y = x \<Longrightarrow> ys = replicate (length ys) x"
  by (induction ys) simp_all

lemma ending_run: "t = take (length t - length (takeWhile P (rev t))) t @ rev (takeWhile P (rev t))"
proof -
  have t: "t = rev (dropWhile P (rev t)) @ rev (takeWhile P (rev t))"
    by (simp flip: rev_append)
  then have "length t - length (takeWhile P (rev t)) = length (rev (dropWhile P (rev t)))"
    by (metis add_diff_cancel_right' length_append length_rev)
  then have "take (length t - length (takeWhile P (rev t))) t = rev (dropWhile P (rev t))"
    using t by (metis append_eq_conv_conj)
  with t show ?thesis by simp
qed

lemma split_at_run: "t = p @ r \<Longrightarrow> d = q @ z \<Longrightarrow> q = q' \<Longrightarrow> x = t @ d \<Longrightarrow> x = p @ r @ q' @ z"
  by simp

lemma slide_shape:
  assumes "index < length result" and "fst (result ! index) \<noteq> Context" and "slide_run result index \<noteq> result"
  obtains pre post s n k u where "k \<noteq> Context"
    "result = pre @ replicate s (Context, u) @ replicate n (k, u) @ post"
    "slide_run result index = pre @ replicate n (k, u) @ replicate s (Context, u) @ post"
proof -
  let ?k = "fst (result ! index)" and ?u = "snd (result ! index)" and ?run = "change_run result index"
  let ?s = "length (takeWhile (\<lambda>op. op = (Context, ?u)) (rev (take index result)))"
  let ?pre = "take (index - ?s) result" and ?post = "drop (index + length ?run) result"
  have uniform: "list_all (\<lambda>op. fst op = ?k) ?run" "list_all (\<lambda>op. snd op = ?u) ?run"
    and run: "slide_run result index = ?pre @ replicate (length ?run) (?k, ?u) @ replicate ?s (Context, ?u) @ ?post"
    using assms(3) by (auto simp: slide_run_def Let_def split: if_splits)
  have n: "?run = replicate (length ?run) (?k, ?u)"
    using uniform by (intro all_equal_replicate) (auto simp: list_all_iff prod_eq_iff)
  have "takeWhile (\<lambda>op. op = (Context, ?u)) (rev (take index result)) = replicate ?s (Context, ?u)"
    by (intro all_equal_replicate) (auto dest: set_takeWhileD)
  then have "rev (takeWhile (\<lambda>op. op = (Context, ?u)) (rev (take index result))) = replicate ?s (Context, ?u)"
    by (metis rev_replicate)
  moreover have "?pre = take (length (take index result) - ?s) (take index result)"
    using assms(1) by (simp add: min_def)
  ultimately have "take index result = ?pre @ replicate ?s (Context, ?u)"
    using ending_run [of "take index result" "\<lambda>op. op = (Context, ?u)"] by simp
  moreover have "?post = dropWhile (\<lambda>op. fst op \<noteq> Context) (drop index result)"
    unfolding dropWhile_eq_drop change_run_def drop_drop by (simp only: add.commute)
  then have "drop index result = ?run @ ?post"
    by (simp only: change_run_def takeWhile_dropWhile_id)
  ultimately have "result = ?pre @ replicate ?s (Context, ?u) @ replicate (length ?run) (?k, ?u) @ ?post"
    by (rule split_at_run [OF _ _ n append_take_drop_id [symmetric]])
  with assms(2) run that show thesis by blast
qed

lemma slide_run_keeps:
  assumes "index < length result" and "fst (result ! index) \<noteq> Context"
  shows "old_side (slide_run result index) = old_side result \<and> new_side (slide_run result index) = new_side result \<and>
    count_kind k (slide_run result index) = count_kind k result"
proof (cases "slide_run result index = result")
  case False
  with assms obtain pre post s n j u where s: "j \<noteq> Context"
    "result = pre @ replicate s (Context, u) @ replicate n (j, u) @ post"
    "slide_run result index = pre @ replicate n (j, u) @ replicate s (Context, u) @ post"
    by (rule slide_shape)
  have "replicate n u @ replicate s u @ ws = replicate s u @ replicate n u @ ws" for ws
    by (metis add.commute append_assoc replicate_add)
  then have "r = pre @ replicate s (Context, u) @ replicate n (j, u) @ post \<Longrightarrow>
      r' = pre @ replicate n (j, u) @ replicate s (Context, u) @ post \<Longrightarrow>
      old_side r' = old_side r \<and> new_side r' = new_side r \<and> count_kind k r' = count_kind k r" for r r'
    using s(1) by (cases j) simp_all
  from this [OF s(2,3)] show ?thesis .
qed simp

lemma slide_keeps:
  "old_side (slide_loop result index) = old_side result \<and> new_side (slide_loop result index) = new_side result \<and>
    count_kind k (slide_loop result index) = count_kind k result"
proof (induction result index rule: slide_loop.induct)
  case (1 result index)
  then show ?case
    using slide_run_keeps [of index result k] by (simp add: slide_loop.simps [of result index])
qed

section \<open>Numbered lines\<close>

text \<open>The lines of each side, with their numbers.\<close>

definition old_lines :: "diff_line list \<Rightarrow> (nat option \<times> string) list" where
  "old_lines ls = map (\<lambda>l. (dl_beforeLine l, lineText l)) (filter (\<lambda>l. dl_kind l \<noteq> Added) ls)"

definition new_lines :: "diff_line list \<Rightarrow> (nat option \<times> string) list" where
  "new_lines ls = map (\<lambda>l. (dl_afterLine l, lineText l)) (filter (\<lambda>l. dl_kind l \<noteq> Removed) ls)"

definition numbered :: "nat \<Rightarrow> string list \<Rightarrow> (nat option \<times> string) list" where
  "numbered from_line texts = zip (map Some [Suc from_line ..< Suc (from_line + length texts)]) texts"

lemma lines_append [simp]:
  "old_lines (xs @ ys) = old_lines xs @ old_lines ys" "new_lines (xs @ ys) = new_lines xs @ new_lines ys"
  "old_lines [] = []" "new_lines [] = []"
  by (simp_all add: old_lines_def new_lines_def)

lemma numbered_Nil [simp]: "numbered n [] = []"
  by (simp add: numbered_def)

lemma numbered_Cons [simp]: "numbered n (t # ts) = (Some (Suc n), t) # numbered (Suc n) ts"
  by (simp add: numbered_def upt_conv_Cons del: upt_Suc)

lemma toLine_fields [simp]:
  "dl_kind (toLine op b a k) = fst op" "dl_beforeLine (toLine op b a k) = b" "dl_afterLine (toLine op b a k) = a"
  "lineText (toLine op b a k) = snd op"
  by (simp_all add: toLine_def lineText_def)

lemma number_lines_sides:
  "old_lines (number_lines ops i b a) = numbered b (old_side ops) \<and>
   new_lines (number_lines ops i b a) = numbered a (new_side ops) \<and>
   map dl_kind (number_lines ops i b a) = map fst ops"
proof (induction ops arbitrary: i b a)
  case (Cons op ops)
  then show ?case
    by (cases op; cases "fst op") (auto simp: Let_def old_lines_def new_lines_def)
qed simp

section \<open>Pairing keeps both sides\<close>

lemma best_offset_bound:
  "bestOffset \<le> n \<Longrightarrow> \<forall>k \<in> set offsets. k \<le> n \<Longrightarrow> best_offset score offsets bestOffset bestScore \<le> n"
  by (induction score offsets bestOffset bestScore rule: best_offset.induct) simp_all

lemma bestPairOffset_bound:
  "bestPairOffset removed added + min (length removed) (length added) \<le> max (length removed) (length added)"
proof -
  have "bestPairOffset removed added \<le> max (length removed) (length added) - min (length removed) (length added)"
    by (auto simp: bestPairOffset_def Let_def intro!: best_offset_bound)
  then show ?thesis by linarith
qed

lemma nth_range: "k + n \<le> length xs \<Longrightarrow> map (\<lambda>i. xs ! (k + i)) [0 ..< n] = take n (drop k xs)"
  by (rule nth_equalityI) simp_all

lemma three_parts: "take k xs @ take n (drop k xs) @ drop (k + n) xs = xs"
  by (metis add.commute append_take_drop_id drop_drop)

lemma refine_block_sides:
  assumes r: "\<forall>l \<in> set removed. dl_kind l = Removed" and a: "\<forall>l \<in> set added. dl_kind l = Added"
  shows "old_lines (refineChangeBlock removed added) = old_lines removed \<and>
    new_lines (refineChangeBlock removed added) = new_lines added \<and>
    (\<forall>l \<in> set (refineChangeBlock removed added). dl_kind l \<noteq> Context) \<and>
    length (filter (\<lambda>l. dl_kind l = k) (refineChangeBlock removed added)) = length (filter (\<lambda>l. dl_kind l = k) (removed @ added))"
proof (cases "removed = [] \<or> added = []")
  case True
  have "old_lines added = []" "new_lines removed = []" using r a by (auto simp: old_lines_def new_lines_def filter_empty_conv)
  with True r a show ?thesis by (auto simp: refineChangeBlock_def)
next
  case False
  define n where "n = min (length removed) (length added)"
  define off where "off = (if length removed = length added then 0 else bestPairOffset removed added)"
  define ro where "ro = (if length removed > length added then off else 0)"
  define ao where "ao = (if length added > length removed then off else 0)"
  define pairs where "pairs = map (\<lambda>i. (removed ! (ro + i), added ! (ao + i))) [0 ..< n]"
  have bound: "ro + n \<le> length removed" "ao + n \<le> length added"
    using bestPairOffset_bound [of removed added] by (auto simp: ro_def ao_def off_def n_def)
  let ?pr = "map (\<lambda>p. (fst p)\<lparr>dl_segments := fst (pair_words p)\<rparr>) pairs"
  let ?pa = "map (\<lambda>p. (snd p)\<lparr>dl_segments := snd (pair_words p)\<rparr>) pairs"
  have shape: "refineChangeBlock removed added =
      take ro removed @ take ao added @ ?pr @ ?pa @ drop (ro + n) removed @ drop (ao + n) added"
    using False unfolding refineChangeBlock_def Let_def pairs_def n_def ro_def ao_def off_def by (simp only: if_False)
  have p: "map fst pairs = take n (drop ro removed)" "map snd pairs = take n (drop ao added)"
    unfolding pairs_def using nth_range [OF bound(1)] nth_range [OF bound(2)] by (simp_all add: comp_def)
  have kinds: "\<forall>q \<in> set pairs. dl_kind (fst q) = Removed \<and> dl_kind (snd q) = Added"
    using r a bound by (auto simp: pairs_def)
  have texts: "lineText ((fst q)\<lparr>dl_segments := fst (pair_words q)\<rparr>) = lineText (fst q)"
    "lineText ((snd q)\<lparr>dl_segments := snd (pair_words q)\<rparr>) = lineText (snd q)" for q
    using diffWords_text [of "lineText (fst q)" "lineText (snd q)"] by (simp_all add: lineText_segments [of "_\<lparr>dl_segments := _\<rparr>"] pair_words_def)
  have "old_lines ?pr = old_lines (map fst pairs)" "new_lines ?pa = new_lines (map snd pairs)"
    using kinds texts by (induction pairs) (auto simp: old_lines_def new_lines_def)
  moreover have "old_lines ?pa = []" "new_lines ?pr = []"
    using kinds by (auto simp: old_lines_def new_lines_def filter_empty_conv)
  moreover have "old_lines (take m added) = []" "old_lines (drop m added) = []"
    "new_lines (take m removed) = []" "new_lines (drop m removed) = []" for m
    using r a by (auto simp: old_lines_def new_lines_def filter_empty_conv dest: in_set_takeD in_set_dropD)
  ultimately have "old_lines (refineChangeBlock removed added) =
      old_lines (take ro removed @ take n (drop ro removed) @ drop (ro + n) removed)"
    "new_lines (refineChangeBlock removed added) =
      new_lines (take ao added @ take n (drop ao added) @ drop (ao + n) added)"
    unfolding shape p by simp_all
  moreover have "\<forall>l \<in> set (refineChangeBlock removed added). dl_kind l \<noteq> Context"
    using r a kinds by (auto simp: shape dest: in_set_takeD in_set_dropD)
  moreover have "length (filter (\<lambda>l. dl_kind l = k) (refineChangeBlock removed added)) =
      length (filter (\<lambda>l. dl_kind l = k) (removed @ added))"
  proof -
    have all: "length (filter (\<lambda>l. dl_kind l = k) xs) = (if k = j then length xs else 0)"
      if "\<forall>l \<in> set xs. dl_kind l = j" for xs :: "diff_line list" and j
      using that by (induction xs) auto
    have "length ?pr = n" "length ?pa = n" by (simp_all add: pairs_def)
    moreover have "length (filter (\<lambda>l. dl_kind l = k) ?pr) = (if k = Removed then length ?pr else 0)"
      "length (filter (\<lambda>l. dl_kind l = k) ?pa) = (if k = Added then length ?pa else 0)"
      using kinds by (intro all; auto)+
    moreover have "\<forall>l \<in> set (take m removed). dl_kind l = Removed" "\<forall>l \<in> set (drop m removed). dl_kind l = Removed"
      "\<forall>l \<in> set (take m added). dl_kind l = Added" "\<forall>l \<in> set (drop m added). dl_kind l = Added" for m
      using r a by (auto dest: in_set_takeD in_set_dropD)
    note parts = this [THEN all]
    ultimately show ?thesis using bound all [OF r] all [OF a] unfolding shape by (simp add: parts)
  qed
  ultimately show ?thesis using three_parts by (metis add.commute)
qed

definition line_count :: "diff_kind \<Rightarrow> diff_line list \<Rightarrow> nat" where
  "line_count k ls = length (filter (\<lambda>l. dl_kind l = k) ls)"

lemma line_count_append [simp]: "line_count k (xs @ ys) = line_count k xs + line_count k ys" "line_count k [] = 0"
  by (simp_all add: line_count_def)

lemma block_split:
  assumes "\<forall>l \<in> set block. dl_kind l \<noteq> Context"
  shows "old_lines (filter (\<lambda>l. dl_kind l = Removed) block) = old_lines block"
    "new_lines (filter (\<lambda>l. dl_kind l \<noteq> Removed) block) = new_lines block"
    "line_count k (filter (\<lambda>l. dl_kind l = Removed) block @ filter (\<lambda>l. dl_kind l \<noteq> Removed) block) = line_count k block"
    "\<forall>l \<in> set (filter (\<lambda>l. dl_kind l \<noteq> Removed) block). dl_kind l = Added"
proof -
  have k: "dl_kind l = Removed \<longleftrightarrow> dl_kind l \<noteq> Added" if "l \<in> set block" for l
    using assms that by (cases "dl_kind l") auto
  then show "\<forall>l \<in> set (filter (\<lambda>l. dl_kind l \<noteq> Removed) block). dl_kind l = Added" by auto
  from k have "filter (\<lambda>l. dl_kind l = Removed) block = filter (\<lambda>l. dl_kind l \<noteq> Added) block"
    by (intro filter_cong) auto
  then show "old_lines (filter (\<lambda>l. dl_kind l = Removed) block) = old_lines block"
    by (simp add: old_lines_def)
  show "new_lines (filter (\<lambda>l. dl_kind l \<noteq> Removed) block) = new_lines block"
    by (simp add: new_lines_def)
  show "line_count k (filter (\<lambda>l. dl_kind l = Removed) block @ filter (\<lambda>l. dl_kind l \<noteq> Removed) block) = line_count k block"
    by (induction block) (auto simp: line_count_def)
qed

lemma refinePairs_sides:
  "old_lines (refinePairs ls) = old_lines ls \<and> new_lines (refinePairs ls) = new_lines ls \<and>
   line_count k (refinePairs ls) = line_count k ls"
proof (induction ls rule: refinePairs.induct)
  case (2 line ls)
  show ?case
  proof (cases "dl_kind line = Context")
    case True
    with 2 show ?thesis by (auto simp: old_lines_def new_lines_def line_count_def)
  next
    case False
    let ?block = "line # takeWhile (\<lambda>l. dl_kind l \<noteq> Context) ls" and ?rest = "dropWhile (\<lambda>l. dl_kind l \<noteq> Context) ls"
    have b: "\<forall>l \<in> set ?block. dl_kind l \<noteq> Context" using False by (auto dest: set_takeWhileD)
    have "\<forall>l \<in> set (filter (\<lambda>l. dl_kind l = Removed) ?block). dl_kind l = Removed" by simp
    note block = refine_block_sides [OF this block_split(4) [OF b], of k, folded line_count_def]
    have eq: "refinePairs (line # ls) =
        refineChangeBlock (filter (\<lambda>l. dl_kind l = Removed) ?block) (filter (\<lambda>l. dl_kind l \<noteq> Removed) ?block) @ refinePairs ?rest"
      using False by (simp only: refinePairs.simps Let_def if_False)
    note IH = "2.IH"(2) [OF False refl]
    have "old_lines (refinePairs (line # ls)) = old_lines ?block @ old_lines ?rest"
      unfolding eq lines_append(1) conjunct1 [OF block] conjunct1 [OF IH] block_split(1) [OF b] ..
    moreover have "new_lines (refinePairs (line # ls)) = new_lines ?block @ new_lines ?rest"
      unfolding eq lines_append(2) conjunct1 [OF conjunct2 [OF block]] conjunct1 [OF conjunct2 [OF IH]] block_split(2) [OF b] ..
    moreover have "line_count k (refinePairs (line # ls)) = line_count k ?block + line_count k ?rest"
      unfolding eq line_count_append(1) conjunct2 [OF conjunct2 [OF conjunct2 [OF block]], unfolded line_count_append]
        conjunct2 [OF conjunct2 [OF IH]] block_split(3) [OF b, of k, unfolded line_count_append] ..
    moreover have "line # ls = ?block @ ?rest" by simp
    then have "old_lines (line # ls) = old_lines ?block @ old_lines ?rest"
      "new_lines (line # ls) = new_lines ?block @ new_lines ?rest"
      "line_count k (line # ls) = line_count k ?block + line_count k ?rest"
      by (simp_all only: lines_append line_count_append)
    ultimately show ?thesis by simp
  qed
qed simp

section \<open>The operations keep both sides\<close>

lemma if_either: "(if c then x else y) = x \<or> (if c then x else y) = y"
  by simp

lemma diff_ops_sides:
  "old_side (fst (diff_ops before after)) = before \<and> new_side (fst (diff_ops before after)) = after"
proof -
  obtain front mid mid' ending where t: "before = front @ mid @ ending" "after = front @ mid' @ ending"
    "front = take (commonPrefixLength before after) before"
    "mid = drop (commonPrefixLength before after) (take (length before - commonSuffixLength before after (min (length before) (length after) - commonPrefixLength before after)) before)"
    "mid' = drop (commonPrefixLength before after) (take (length after - commonSuffixLength before after (min (length before) (length after) - commonPrefixLength before after)) after)"
    "ending = drop (length before - commonSuffixLength before after (min (length before) (length after) - commonPrefixLength before after)) before"
    "commonPrefixLength before after = length front"
    "commonSuffixLength before after (min (length before) (length after) - commonPrefixLength before after) = length ending"
    by (rule trimmed_parts [OF diff_le_mono [OF min.cobounded1] diff_le_mono [OF min.cobounded2]])
  define joined where "joined = map (Pair Context) front @
     (if (length mid + 1) * (length mid' + 1) > MAX_MATRIX_CELLS
      then map (Pair Removed) mid @ map (Pair Added) mid' else lcsOps mid mid') @ map (Pair Context) ending"
  have "fst (diff_ops before after) = joined \<or> fst (diff_ops before after) = slideBlankRunsUp joined"
    unfolding diff_ops_def Let_def joined_def t(3-6) fst_conv by (rule if_either)
  moreover have "old_side joined = before" "new_side joined = after"
    using align_sides [of mid mid'] unfolding joined_def by (simp_all add: lcsOps_align flip: t(1,2))
  ultimately show ?thesis using slide_keeps [of joined 0] by (auto simp: slideBlankRunsUp_def)
qed

section \<open>Hunks\<close>

text \<open>Ranges in order with a line or more between them.\<close>

fun ranges_ok :: "nat \<Rightarrow> (nat \<times> nat) list \<Rightarrow> bool" where
  "ranges_ok from_index [] \<longleftrightarrow> True"
| "ranges_ok from_index ((start, ending) # ranges) \<longleftrightarrow>
     from_index \<le> start \<and> start \<le> ending \<and> ranges_ok (ending + 1) ranges"

lemma ranges_ok_snoc:
  "ranges_ok f (rs @ [(s, e)]) \<longleftrightarrow> ranges_ok f rs \<and> (if rs = [] then f else snd (last rs) + 1) \<le> s \<and> s \<le> e"
  by (induction f rs rule: ranges_ok.induct) auto

definition covered :: "(nat \<times> nat) list \<Rightarrow> nat \<Rightarrow> bool" where
  "covered ranges i \<longleftrightarrow> (\<exists>(s, e) \<in> set ranges. s \<le> i \<and> i \<le> e)"

lemma add_range_ok:
  assumes ok: "ranges_ok 0 ranges" and bound: "\<forall>(s, e) \<in> set ranges. s \<le> index - CONTEXT_LINES \<and> e < count"
    and i: "index < count"
  shows "ranges_ok 0 (add_range count index ranges)"
    "\<forall>(s, e) \<in> set (add_range count index ranges). s \<le> index - CONTEXT_LINES \<and> e < count"
    "covered (add_range count index ranges) index"
    "covered ranges j \<Longrightarrow> covered (add_range count index ranges) j"
proof -
  let ?start = "index - CONTEXT_LINES" and ?stop = "min (count - 1) (index + CONTEXT_LINES)"
  have se: "?start \<le> index" "index \<le> ?stop" "?stop < count" using i by auto
  have "ranges_ok 0 (add_range count index ranges) \<and>
    (\<forall>(s, e) \<in> set (add_range count index ranges). s \<le> ?start \<and> e < count) \<and>
    covered (add_range count index ranges) index \<and> (covered ranges j \<longrightarrow> covered (add_range count index ranges) j)"
  proof (cases "ranges \<noteq> [] \<and> ?start \<le> snd (last ranges) + 1")
    case True
    then obtain rs s e where r: "ranges = rs @ [(s, e)]" by (cases ranges rule: rev_cases) auto
    with True have new: "add_range count index ranges = rs @ [(s, max e ?stop)]"
      by (simp add: add_range_def Let_def)
    show ?thesis
      using ok bound se unfolding new unfolding r by (auto simp: ranges_ok_snoc covered_def max_def)
  next
    case False
    then have new: "add_range count index ranges = ranges @ [(?start, ?stop)]"
      by (auto simp: add_range_def Let_def)
    show ?thesis
      using ok bound se False unfolding new by (auto simp: ranges_ok_snoc covered_def)
  qed
  then show "ranges_ok 0 (add_range count index ranges)"
    "\<forall>(s, e) \<in> set (add_range count index ranges). s \<le> index - CONTEXT_LINES \<and> e < count"
    "covered (add_range count index ranges) index"
    "covered ranges j \<Longrightarrow> covered (add_range count index ranges) j" by blast+
qed

lemma add_ranges_ok:
  assumes "sorted idx" and "\<forall>i \<in> set idx. i < count" and "ranges_ok 0 ranges"
    and "\<forall>i \<in> set idx. \<forall>(s, e) \<in> set ranges. s \<le> i - CONTEXT_LINES" and "\<forall>(s, e) \<in> set ranges. e < count"
  shows "ranges_ok 0 (fold (add_range count) idx ranges) \<and>
    (\<forall>(s, e) \<in> set (fold (add_range count) idx ranges). e < count) \<and>
    (\<forall>j. j \<in> set idx \<or> covered ranges j \<longrightarrow> covered (fold (add_range count) idx ranges) j)"
  using assms
proof (induction idx arbitrary: ranges)
  case (Cons i idx)
  have b: "\<forall>(s, e) \<in> set ranges. s \<le> i - CONTEXT_LINES \<and> e < count" using Cons.prems(4,5) by auto
  have i: "i < count" using Cons.prems(2) by simp
  note a = add_range_ok [OF Cons.prems(3) b i]
  have "\<forall>k \<in> set idx. \<forall>(s, e) \<in> set (add_range count i ranges). s \<le> k - CONTEXT_LINES"
    using a(2) Cons.prems(1) by (fastforce intro: le_trans diff_le_mono)
  moreover have "\<forall>(s, e) \<in> set (add_range count i ranges). e < count" using a(2) by auto
  ultimately show ?case
    using Cons.IH [of "add_range count i ranges"] a(1,3,4) Cons.prems(1,2) by auto
qed simp

lemma cut_hunks_cover:
  assumes "ranges_ok from_index ranges" and "\<forall>(s, e) \<in> set ranges. e < length ls"
    and "\<forall>i. from_index \<le> i \<and> i < length ls \<and> dl_kind (ls ! i) \<noteq> Context \<longrightarrow> covered ranges i"
  shows "\<exists>rest. concat (map (\<lambda>h. dh_hiddenBefore h @ dh_lines h) (cut_hunks ls ranges index from_index)) @ rest = drop from_index ls \<and>
    (\<forall>l \<in> set rest. dl_kind l = Context) \<and>
    (\<forall>h \<in> set (cut_hunks ls ranges index from_index). \<forall>l \<in> set (dh_hiddenBefore h). dl_kind l = Context)"
  using assms
proof (induction ls ranges index from_index rule: cut_hunks.induct)
  case (1 ls index from_index)
  have "dl_kind l = Context" if "l \<in> set (drop from_index ls)" for l
  proof -
    from that obtain n where "n < length ls - from_index" "l = ls ! (from_index + n)" by (auto simp: in_set_conv_nth)
    then have "from_index + n < length ls" "l = ls ! (from_index + n)" by linarith+
    with 1(3) [rule_format, of "from_index + n"] show ?thesis by (auto simp: covered_def)
  qed
  then show ?case by simp
next
  case (2 ls start ending ranges index from_index)
  have r: "from_index \<le> start" "start \<le> ending" "ranges_ok (ending + 1) ranges" "ending < length ls"
    using 2 by simp_all
  have later: "\<forall>(s, e) \<in> set ranges. ending < s"
  proof -
    have "\<forall>(s, e) \<in> set rs. f \<le> s" if "ranges_ok f rs" for f rs
      using that by (induction f rs rule: ranges_ok.induct) fastforce+
    with r(3) show ?thesis by fastforce
  qed
  have "covered ranges i" if "ending + 1 \<le> i \<and> i < length ls \<and> dl_kind (ls ! i) \<noteq> Context" for i
    using 2(4) [rule_format, of i] that r by (auto simp: covered_def)
  with 2 r obtain rest where rest: "concat (map (\<lambda>h. dh_hiddenBefore h @ dh_lines h) (cut_hunks ls ranges (index + 1) (ending + 1))) @ rest = drop (ending + 1) ls"
    "\<forall>l \<in> set rest. dl_kind l = Context"
    "\<forall>h \<in> set (cut_hunks ls ranges (index + 1) (ending + 1)). \<forall>l \<in> set (dh_hiddenBefore h). dl_kind l = Context"
    by fastforce
  have hidden: "dl_kind l = Context" if "l \<in> set (drop from_index (take start ls))" for l
  proof -
    from that obtain n where "n < start - from_index" "l = ls ! (from_index + n)"
      using r by (auto simp: in_set_conv_nth)
    then have n: "from_index + n < start" "l = ls ! (from_index + n)" by linarith+
    then have "\<not> covered ((start, ending) # ranges) (from_index + n)" using later r by (auto simp: covered_def)
    with 2(4) [rule_format, of "from_index + n"] n r show ?thesis by auto
  qed
  have "drop from_index ls = drop from_index (take start ls) @ drop start (take (ending + 1) ls) @ drop (ending + 1) ls"
  proof -
    have "ls = take start ls @ drop start (take (ending + 1) ls) @ drop (ending + 1) ls"
      using r by (intro middle_cut) simp
    then have "drop from_index ls = drop from_index (take start ls @ drop start (take (ending + 1) ls) @ drop (ending + 1) ls)" by simp
    also have "\<dots> = drop from_index (take start ls) @ drop start (take (ending + 1) ls) @ drop (ending + 1) ls"
      using r by simp
    finally show ?thesis .
  qed
  then show ?case using rest hidden by (intro exI [of _ rest]) auto
qed

lemma hunks_cover:
  "\<exists>rest. concat (map (\<lambda>h. dh_hiddenBefore h @ dh_lines h) (buildHunks ls)) @ rest = ls \<and>
    (\<forall>l \<in> set rest. dl_kind l = Context) \<and>
    (\<forall>h \<in> set (buildHunks ls). \<forall>l \<in> set (dh_hiddenBefore h). dl_kind l = Context)"
proof (cases "changed_indexes ls = []")
  case True
  then have "dl_kind (ls ! i) = Context" if "i < length ls" for i
    using that by (auto simp: changed_indexes_def filter_empty_conv)
  with True show ?thesis by (auto simp: buildHunks_def in_set_conv_nth)
next
  case False
  have "sorted (changed_indexes ls)" by (simp add: changed_indexes_def sorted_wrt_filter)
  moreover have "\<forall>i \<in> set (changed_indexes ls). i < length ls" by (auto simp: changed_indexes_def)
  ultimately have "ranges_ok 0 (hunk_ranges ls)" "\<forall>(s, e) \<in> set (hunk_ranges ls). e < length ls"
    "\<forall>j \<in> set (changed_indexes ls). covered (hunk_ranges ls) j"
    using add_ranges_ok [of "changed_indexes ls" "length ls" "[]"] by (simp_all add: hunk_ranges_def)
  with False cut_hunks_cover [of 0 "hunk_ranges ls" ls 0] show ?thesis
    by (auto simp: buildHunks_def changed_indexes_def)
qed

section \<open>The diff\<close>

lemma diff_lines:
  fixes before after :: string
  defines "d \<equiv> diffMarkdown before after"
  defines "shown \<equiv> concat (map (\<lambda>h. dh_hiddenBefore h @ dh_lines h) (md_hunks d))"
  shows "\<exists>rest. (\<forall>l \<in> set rest. dl_kind l = Context) \<and>
    old_lines (shown @ rest) = numbered 0 (splitLines before) \<and> new_lines (shown @ rest) = numbered 0 (splitLines after) \<and>
    (\<forall>h \<in> set (md_hunks d). \<forall>l \<in> set (dh_hiddenBefore h). dl_kind l = Context) \<and>
    md_added d = line_count Added shown \<and> md_removed d = line_count Removed shown"
proof -
  obtain ops tr where o: "diff_ops (splitLines before) (splitLines after) = (ops, tr)" by (cases "diff_ops (splitLines before) (splitLines after)")
  define ls where "ls = (if tr then number_lines ops 0 0 0 else refinePairs (number_lines ops 0 0 0))"
  have d: "md_hunks d = buildHunks ls" "md_added d = count_kind Added ops" "md_removed d = count_kind Removed ops"
    by (simp_all add: d_def diffMarkdown_def o Let_def ls_def count_kind_def)
  have count: "line_count k (number_lines ops 0 0 0) = count_kind k ops" for k
  proof -
    have "length (filter (\<lambda>x. x = k) (map dl_kind (number_lines ops 0 0 0))) = length (filter (\<lambda>x. x = k) (map fst ops))"
      using number_lines_sides [of ops 0 0 0] by simp
    then show ?thesis by (simp add: line_count_def count_kind_def filter_map comp_def)
  qed
  have ls: "old_lines ls = numbered 0 (splitLines before)" "new_lines ls = numbered 0 (splitLines after)"
    "line_count k ls = count_kind k ops" for k
    using number_lines_sides [of ops 0 0 0] refinePairs_sides [of "number_lines ops 0 0 0"] count
      diff_ops_sides [of "splitLines before" "splitLines after"] by (simp_all add: ls_def o)
  from hunks_cover [of ls] obtain rest where r: "shown @ rest = ls" "\<forall>l \<in> set rest. dl_kind l = Context"
      "\<forall>h \<in> set (md_hunks d). \<forall>l \<in> set (dh_hiddenBefore h). dl_kind l = Context"
    unfolding shown_def d by blast
  have "line_count k shown = count_kind k ops" if "k \<noteq> Context" for k
  proof -
    have "line_count k rest = 0" using r(2) that by (auto simp: line_count_def filter_empty_conv)
    with ls(3) [of k] show ?thesis by (simp flip: r(1))
  qed
  then show ?thesis using r ls(1,2) d(2,3) by (intro exI [of _ rest]) simp
qed

text \<open>C18. The shown and the hidden lines of a diff, with the unchanged lines after the last hunk, give back both documents line by line with their line numbers: without the added lines the text before, without the removed lines the text after, and the counts are those of the lines.\<close>

theorem diff_reconstructs_both_sides:
  "\<exists>rest. list_all (\<lambda>l. dl_kind l = Context) rest \<and>
    (let d = diffMarkdown before after;
         shown = concat (map (\<lambda>h. dh_hiddenBefore h @ dh_lines h) (md_hunks d));
         old = filter (\<lambda>l. dl_kind l \<noteq> Added) (shown @ rest);
         new = filter (\<lambda>l. dl_kind l \<noteq> Removed) (shown @ rest)
     in map lineText old = splitLines before \<and>
        map dl_beforeLine old = map Some [1 ..< Suc (length (splitLines before))] \<and>
        map lineText new = splitLines after \<and>
        map dl_afterLine new = map Some [1 ..< Suc (length (splitLines after))] \<and>
        list_all (\<lambda>h. list_all (\<lambda>l. dl_kind l = Context) (dh_hiddenBefore h)) (md_hunks d) \<and>
        md_added d = length (filter (\<lambda>l. dl_kind l = Added) shown) \<and>
        md_removed d = length (filter (\<lambda>l. dl_kind l = Removed) shown))"
proof -
  have sides: "map lineText (filter (\<lambda>l. dl_kind l \<noteq> Added) ls) = map snd (old_lines ls)"
    "map dl_beforeLine (filter (\<lambda>l. dl_kind l \<noteq> Added) ls) = map fst (old_lines ls)"
    "map lineText (filter (\<lambda>l. dl_kind l \<noteq> Removed) ls) = map snd (new_lines ls)"
    "map dl_afterLine (filter (\<lambda>l. dl_kind l \<noteq> Removed) ls) = map fst (new_lines ls)" for ls
    by (simp_all add: old_lines_def new_lines_def)
  have numbers: "map fst (numbered 0 ts) = map Some [1 ..< Suc (length ts)]" "map snd (numbered 0 ts) = ts" for ts
    by (simp_all add: numbered_def del: upt_Suc)
  from diff_lines [of before after] obtain rest where
    "\<forall>l \<in> set rest. dl_kind l = Context" and
    old: "old_lines (concat (map (\<lambda>h. dh_hiddenBefore h @ dh_lines h) (md_hunks (diffMarkdown before after))) @ rest) = numbered 0 (splitLines before)" and
    new: "new_lines (concat (map (\<lambda>h. dh_hiddenBefore h @ dh_lines h) (md_hunks (diffMarkdown before after))) @ rest) = numbered 0 (splitLines after)" and
    "\<forall>h \<in> set (md_hunks (diffMarkdown before after)). \<forall>l \<in> set (dh_hiddenBefore h). dl_kind l = Context"
    "md_added (diffMarkdown before after) = line_count Added (concat (map (\<lambda>h. dh_hiddenBefore h @ dh_lines h) (md_hunks (diffMarkdown before after))))"
    "md_removed (diffMarkdown before after) = line_count Removed (concat (map (\<lambda>h. dh_hiddenBefore h @ dh_lines h) (md_hunks (diffMarkdown before after))))"
    by blast
  then show ?thesis
    unfolding Let_def line_count_def list_all_iff sides
    by (intro exI [of _ rest] conjI) (simp_all only: old new numbers)
qed

lemma count_kind_sides: "length (old_side ops) = count_kind Removed ops + length (kept ops) \<and>
    length (new_side ops) = count_kind Added ops + length (kept ops)"
proof (induction ops)
  case (Cons op ops)
  then show ?case by (cases op; cases "fst op") (auto simp: count_kind_def)
qed (simp add: count_kind_def)

lemma diff_ops_minimal:
  assumes "\<not> snd (diff_ops before after)"
  shows "count_kind Removed (fst (diff_ops before after)) + lcs before after = length before \<and>
    count_kind Added (fst (diff_ops before after)) + lcs before after = length after"
proof -
  obtain front mid mid' ending where t: "before = front @ mid @ ending" "after = front @ mid' @ ending"
    "front = take (commonPrefixLength before after) before"
    "mid = drop (commonPrefixLength before after) (take (length before - commonSuffixLength before after (min (length before) (length after) - commonPrefixLength before after)) before)"
    "mid' = drop (commonPrefixLength before after) (take (length after - commonSuffixLength before after (min (length before) (length after) - commonPrefixLength before after)) after)"
    "ending = drop (length before - commonSuffixLength before after (min (length before) (length after) - commonPrefixLength before after)) before"
    "commonPrefixLength before after = length front"
    "commonSuffixLength before after (min (length before) (length after) - commonPrefixLength before after) = length ending"
    by (rule trimmed_parts [OF diff_le_mono [OF min.cobounded1] diff_le_mono [OF min.cobounded2]])
  define joined where "joined = map (Pair Context) front @ lcsOps mid mid' @ map (Pair Context) ending"
  have "fst (diff_ops before after) = slideBlankRunsUp joined"
    using assms unfolding diff_ops_def Let_def joined_def t(3-6) fst_conv snd_conv by (simp only: if_False)
  then have "count_kind k (fst (diff_ops before after)) = count_kind k joined" for k
    using slide_keeps [of joined 0 k] by (simp add: slideBlankRunsUp_def)
  moreover have "length (kept joined) = lcs before after"
    unfolding joined_def t(1,2) by (simp add: lcsOps_align align_kept_length lcs_prefix lcs_suffix)
  moreover have "old_side joined = before" "new_side joined = after"
    using align_sides [of mid mid'] unfolding joined_def by (simp_all add: lcsOps_align flip: t(1,2))
  ultimately show ?thesis using count_kind_sides [of joined] by simp
qed

text \<open>C19. Unless it was cut short, a diff is minimal against the specification by common subsequences: the lines left unchanged are at least as many as any common subsequence of both texts has.\<close>

theorem diff_is_minimal:
  assumes "\<not> md_truncated (diffMarkdown before after)"
    and "subseq common (splitLines before)" and "subseq common (splitLines after)"
  shows "md_removed (diffMarkdown before after) + length common \<le> length (splitLines before) \<and>
    md_added (diffMarkdown before after) + length common \<le> length (splitLines after)"
proof -
  obtain ops tr where o: "diff_ops (splitLines before) (splitLines after) = (ops, tr)" by (cases "diff_ops (splitLines before) (splitLines after)")
  with assms(1) have "\<not> tr" by (simp add: diffMarkdown_def Let_def)
  with diff_ops_minimal [of "splitLines before" "splitLines after"] lcs_upper [OF assms(2,3)] show ?thesis
    by (simp add: o diffMarkdown_def Let_def count_kind_def)
qed

theorem diff_is_minimal_witness:
  "md_removed (diffMarkdown [CHR ''a'', LF, CHR ''b''] [CHR ''a'', LF, CHR ''c'']) + length [''a''] \<le> 2"
proof -
  have lines: "splitLines [CHR ''a'', LF, CHR ''b''] = [''a'', ''b'']" "splitLines [CHR ''a'', LF, CHR ''c''] = [''a'', ''c'']"
    by code_simp+
  have "\<not> md_truncated (diffMarkdown [CHR ''a'', LF, CHR ''b''] [CHR ''a'', LF, CHR ''c''])"
    by (simp add: diffMarkdown_def lines diff_ops_def Let_def commonSuffixLength_def MAX_MATRIX_CELLS_def)
  from diff_is_minimal [OF this, of "[''a'']"] lines show ?thesis by simp
qed

end
