(* ===== verification/Block_Merge.thy ===== *)
theory Block_Merge
  imports Alignment
begin

text \<open>
  \<open>features/editor/document/remote-merge.ts\<close> of the workspace: the changed range of two
  documents, the regions of blocks one document changed against another, and the three-way merge
  of a note that was edited here while another device saved it. A block is a value whose
  equality is \<open>Node.eq\<close>; an attribute value is a reference, compared by identity. The
  transactions that install a merged document are built by ProseMirror and are not modelled.
\<close>

section \<open>The changed range\<close>

record content_diff =
  cd_start :: int
  cd_endA :: int
  cd_endB :: int

text \<open>\<open>findDiffStart\<close> and \<open>findDiffEnd\<close> are ProseMirror's; their results are arguments.\<close>

definition contentDiff :: "int \<Rightarrow> int \<Rightarrow> int option \<Rightarrow> (int \<times> int) option \<Rightarrow> content_diff option" where
  "contentDiff currentSize incomingSize diffStart diffEnd =
     (case diffStart of
        None \<Rightarrow> None
      | Some start \<Rightarrow>
          let endA = (case diffEnd of None \<Rightarrow> currentSize | Some (a, b) \<Rightarrow> a);
              endB = (case diffEnd of None \<Rightarrow> incomingSize | Some (a, b) \<Rightarrow> b)
          in if endA < start \<and> currentSize < incomingSize
             then Some \<lparr>cd_start = start, cd_endA = start, cd_endB = endB + (start - endA)\<rparr>
             else if endB < start
             then Some \<lparr>cd_start = start, cd_endA = endA + (start - endB), cd_endB = start\<rparr>
             else Some \<lparr>cd_start = start, cd_endA = endA, cd_endB = endB\<rparr>)"

definition caretAfterReplace :: "int \<Rightarrow> content_diff \<Rightarrow> int" where
  "caretAfterReplace head diff =
     (if head < cd_start diff then head
      else if head > cd_endA diff then head + (cd_endB diff - cd_endA diff)
      else max (cd_start diff) (min (cd_endB diff) (cd_start diff + (head - cd_start diff))))"

section \<open>Changed regions\<close>

record 'b block_region =
  br_start :: nat
  br_end :: nat
  br_replacement :: "'b list"

definition LCS_CELL_BUDGET :: nat where "LCS_CELL_BUDGET = 4000000"

text \<open>The walk over the alignment table; \<open>opened\<close> is the region being grown.\<close>

function region_walk ::
  "nat list list \<Rightarrow> 'b list \<Rightarrow> 'b list \<Rightarrow> nat \<Rightarrow> nat \<Rightarrow> nat \<Rightarrow> 'b block_region option \<Rightarrow> 'b block_region list" where
  "region_walk table before after skipped i j opened =
     (if i < length before \<or> j < length after then
        if i < length before \<and> j < length after \<and> before ! i = after ! j
        then (case opened of None \<Rightarrow> [] | Some r \<Rightarrow> [r]) @ region_walk table before after skipped (i + 1) (j + 1) None
        else
          let r = (case opened of
                     None \<Rightarrow> \<lparr>br_start = skipped + i, br_end = skipped + i, br_replacement = []\<rparr> | Some r \<Rightarrow> r)
          in if j < length after \<and> (i \<ge> length before \<or> table ! (i + 1) ! j < table ! i ! (j + 1))
             then region_walk table before after skipped i (j + 1)
                    (Some (r\<lparr>br_replacement := br_replacement r @ [after ! j]\<rparr>))
             else region_walk table before after skipped (i + 1) j (Some (r\<lparr>br_end := br_end r + 1\<rparr>))
      else (case opened of None \<Rightarrow> [] | Some r \<Rightarrow> [r]))"
  by pat_completeness auto

termination region_walk
  by (relation "measure (\<lambda>(_, before, after, _, i, j, _). (length before - i) + (length after - j))") auto

declare region_walk.simps [simp del]

definition blockChanges :: "'b list \<Rightarrow> 'b list \<Rightarrow> 'b block_region list" where
  "blockChanges base revised =
     (let skipped = commonPrefixLength base revised;
          suffix = commonSuffixLength base revised (min (length base - skipped) (length revised - skipped));
          before = drop skipped (take (length base - suffix) base);
          after = drop skipped (take (length revised - suffix) revised)
      in if before = [] \<and> after = [] then []
         else if before = [] \<or> after = [] \<or> length before * length after > LCS_CELL_BUDGET
         then [\<lparr>br_start = skipped, br_end = skipped + length before, br_replacement = after\<rparr>]
         else region_walk (lcs_table before after) before after skipped 0 0 None)"

definition regionsIntersect :: "'b block_region \<Rightarrow> 'b block_region \<Rightarrow> bool" where
  "regionsIntersect left right \<longleftrightarrow> br_start left < br_end right \<and> br_start right < br_end left"

section \<open>The merge\<close>

text \<open>A missing attribute is \<open>undefined\<close>.\<close>

definition mergeAttributes ::
  "(string, 'v) omap \<Rightarrow> (string, 'v) omap \<Rightarrow> (string, 'v) omap \<Rightarrow> (string, 'v option) omap" where
  "mergeAttributes base localAttrs incoming =
     map (\<lambda>key. (key,
       if omap_get localAttrs key \<noteq> omap_get base key then omap_get localAttrs key
       else if omap_get incoming key \<noteq> omap_get base key then omap_get incoming key
       else omap_get base key))
     (oset_from (omap_keys base @ omap_keys localAttrs @ omap_keys incoming))"

datatype merge_source = Local | Remote

text \<open>The order of regions: by start, at one start the local region first.\<close>

definition region_cmp :: "merge_source \<times> 'b block_region \<Rightarrow> merge_source \<times> 'b block_region \<Rightarrow> int" where
  "region_cmp left right =
     (let d = int (br_start (snd left)) - int (br_start (snd right))
      in if d \<noteq> 0 then d else if fst left = fst right then 0 else if fst left = Local then -1 else 1)"

definition merge_regions :: "'b list \<Rightarrow> 'b list \<Rightarrow> 'b list \<Rightarrow> (merge_source \<times> 'b block_region) list" where
  "merge_regions base localBlocks incoming =
     (let localRegions = blockChanges base localBlocks;
          remoteRegions = filter (\<lambda>region. \<not> list_ex (\<lambda>l. regionsIntersect l region) localRegions)
            (blockChanges base incoming)
      in js_sort region_cmp (map (Pair Local) localRegions @ map (Pair Remote) remoteRegions))"

fun splice :: "'b list \<Rightarrow> (merge_source \<times> 'b block_region) list \<Rightarrow> nat \<Rightarrow> 'b list" where
  "splice base [] cursor = drop cursor base"
| "splice base ((_, region) # regions) cursor =
     drop cursor (take (max cursor (br_start region)) base) @ br_replacement region @
     splice base regions (max cursor (br_end region))"

definition merged_blocks :: "'b list \<Rightarrow> 'b list \<Rightarrow> 'b list \<Rightarrow> 'b list" where
  "merged_blocks base localBlocks incoming = splice base (merge_regions base localBlocks incoming) 0"

record ('b, 'v) block_document =
  bd_blocks :: "'b list"
  bd_attrs :: "(string, 'v option) omap"

text \<open>A document without blocks gets an empty paragraph.\<close>

definition documentFromBlocks :: "'b \<Rightarrow> 'b list \<Rightarrow> (string, 'v option) omap \<Rightarrow> ('b, 'v) block_document" where
  "documentFromBlocks paragraph blocks attrs =
     \<lparr>bd_blocks = (if blocks = [] then [paragraph] else blocks), bd_attrs = attrs\<rparr>"

definition mergeDocuments ::
  "'b \<Rightarrow> 'b list \<times> (string, 'v) omap \<Rightarrow> 'b list \<times> (string, 'v) omap \<Rightarrow> 'b list \<times> (string, 'v) omap \<Rightarrow>
   ('b, 'v) block_document" where
  "mergeDocuments paragraph base localDoc incoming =
     documentFromBlocks paragraph (merged_blocks (fst base) (fst localDoc) (fst incoming))
       (mergeAttributes (snd base) (snd localDoc) (snd incoming))"

end
