(* ===== verification/Merge_Theorems.thy ===== *)
theory Merge_Theorems
  imports Block_Merge
begin

text \<open>
  What the merge of \<open>document/remote-merge.ts\<close> promises: the changed range never inverts, the
  regions of a document turn the base into it, and the merge keeps every local change, every
  remote change that touches no block the local side changed, and every block neither changed.
\<close>

section \<open>The changed range\<close>

theorem changed_range_in_bounds:
  assumes "0 \<le> start" and "start \<le> sizeA" and "start \<le> sizeB"
    and "pred_option (\<lambda>(a, b). a \<le> sizeA \<and> sizeA - a = sizeB - b) diffEnd"
    and "contentDiff sizeA sizeB (Some start) diffEnd = Some d" and "0 \<le> head" and "head \<le> sizeA"
  shows "cd_start d = start \<and> start \<le> cd_endA d \<and> cd_endA d \<le> sizeA \<and> start \<le> cd_endB d \<and> cd_endB d \<le> sizeB \<and>
    sizeA - cd_endA d = sizeB - cd_endB d \<and> 0 \<le> caretAfterReplace head d \<and> caretAfterReplace head d \<le> sizeB"
proof -
  have d: "cd_start d = start \<and> start \<le> cd_endA d \<and> cd_endA d \<le> sizeA \<and> start \<le> cd_endB d \<and> cd_endB d \<le> sizeB \<and>
    sizeA - cd_endA d = sizeB - cd_endB d"
    using assms(1-5) by (cases diffEnd) (auto simp: contentDiff_def split: if_splits prod.splits)
  then show ?thesis using assms(1,6,7) by (auto simp: caretAfterReplace_def min_def max_def)
qed

theorem changed_range_in_bounds_witness:
  "caretAfterReplace 3 \<lparr>cd_start = 2, cd_endA = 2, cd_endB = 3\<rparr> \<le> 4"
proof -
  have "contentDiff 3 4 (Some 2) (Some (1, 2)) = Some \<lparr>cd_start = 2, cd_endA = 2, cd_endB = 3\<rparr>"
    by (simp add: contentDiff_def)
  from changed_range_in_bounds [OF _ _ _ _ this, of 3] show ?thesis by simp
qed

section \<open>Regions\<close>

text \<open>Regions in order with an unchanged block between them.\<close>

fun regions_ok :: "nat \<Rightarrow> nat \<Rightarrow> 'b block_region list \<Rightarrow> bool" where
  "regions_ok f n [] \<longleftrightarrow> True"
| "regions_ok f n (r # rs) \<longleftrightarrow> f \<le> br_start r \<and> br_start r \<le> br_end r \<and> br_end r \<le> n \<and> regions_ok (br_end r + 1) n rs"

lemma regions_ok_mono: "regions_ok f n rs \<Longrightarrow> f' \<le> f \<Longrightarrow> n \<le> n' \<Longrightarrow> regions_ok f' n' rs"
  by (induction f n rs arbitrary: f' rule: regions_ok.induct) auto

text \<open>The walk reads its regions off the reference alignment.\<close>

fun regions_of :: "'b diff_op list \<Rightarrow> nat \<Rightarrow> 'b block_region option \<Rightarrow> 'b block_region list" where
  "regions_of [] p opened = (case opened of None \<Rightarrow> [] | Some r \<Rightarrow> [r])"
| "regions_of ((k, x) # ops) p opened =
     (let r = (case opened of None \<Rightarrow> \<lparr>br_start = p, br_end = p, br_replacement = []\<rparr> | Some r \<Rightarrow> r)
      in case k of
           Context \<Rightarrow> (case opened of None \<Rightarrow> [] | Some r \<Rightarrow> [r]) @ regions_of ops (p + 1) None
         | Added \<Rightarrow> regions_of ops p (Some (r\<lparr>br_replacement := br_replacement r @ [x]\<rparr>))
         | Removed \<Rightarrow> regions_of ops (p + 1) (Some (r\<lparr>br_end := br_end r + 1\<rparr>)))"

lemma region_walk_of:
  "region_walk (lcs_table xs ys) xs ys p i j opened = regions_of (align (drop i xs) (drop j ys)) (p + i) opened"
proof (induction "lcs_table xs ys" xs ys p i j opened rule: region_walk.induct)
  case (1 xs ys p i j opened)
  consider (both) "i < length xs" "j < length ys" | (old) "i < length xs" "length ys \<le> j"
    | (new) "length xs \<le> i" "j < length ys" | (done_both) "length xs \<le> i" "length ys \<le> j" by linarith
  then show ?case
  proof cases
    case both
    then have d: "drop i xs = xs ! i # drop (Suc i) xs" "drop j ys = ys ! j # drop (Suc j) ys"
      by (simp_all add: Cons_nth_drop_Suc)
    have t: "lcs_table xs ys ! (i + 1) ! j = lcs (drop (Suc i) xs) (drop j ys)"
        "lcs_table xs ys ! i ! (j + 1) = lcs (drop i xs) (drop (Suc j) ys)"
      using both by (simp_all add: table_entry)
    show ?thesis
      unfolding region_walk.simps [of _ _ _ p i j opened] t
      using both 1 unfolding t by (auto simp: d Let_def split: option.splits)
  next
    case old
    then have "drop i xs = xs ! i # drop (Suc i) xs" by (simp add: Cons_nth_drop_Suc)
    with old 1 show ?thesis by (simp add: region_walk.simps [of _ _ _ p i j opened] Let_def)
  next
    case new
    then have "drop j ys = ys ! j # drop (Suc j) ys" by (simp add: Cons_nth_drop_Suc)
    with new 1 show ?thesis by (simp add: region_walk.simps [of _ _ _ p i j opened] Let_def)
  next
    case done_both
    then show ?thesis by (simp add: region_walk.simps [of _ _ _ p i j opened])
  qed
qed

lemma regions_of_ok:
  "regions_ok p (p + length (old_side ops)) (regions_of ops p None) \<and>
   (\<forall>r f. f \<le> br_start r \<and> br_start r \<le> br_end r \<and> br_end r = p \<longrightarrow>
     regions_ok f (p + length (old_side ops)) (regions_of ops p (Some r)))"
proof (induction ops arbitrary: p)
  case (Cons op ops)
  obtain k x where op: "op = (k, x)" by (cases op)
  show ?case
  proof (cases k)
    case Context
    with Cons [of "p + 1"] show ?thesis by (auto simp: op Let_def elim!: regions_ok_mono)
  next
    case Added
    with Cons [of p] show ?thesis by (auto simp: op Let_def)
  next
    case Removed
    with Cons [of "p + 1"] show ?thesis by (auto simp: op Let_def)
  qed
qed simp

lemma splice_skip:
  assumes "regions_ok (c + 1) n rs" and "c < length base"
  shows "splice base (map (Pair s) rs) c = base ! c # splice base (map (Pair s) rs) (c + 1)"
proof (cases rs)
  case Nil
  with assms show ?thesis by (simp add: Cons_nth_drop_Suc)
next
  case (Cons r rs')
  with assms have r: "c < br_start r" "br_start r \<le> br_end r" by simp_all
  then have "drop c (take (br_start r) base) = base ! c # drop (c + 1) (take (br_start r) base)"
    using assms(2) by (simp add: Cons_nth_drop_Suc [symmetric])
  with r Cons show ?thesis by (simp add: max_def)
qed

lemma splice_regions_of:
  assumes "base = pre @ old_side ops @ ending" and "p = length pre"
  shows "splice base (map (Pair s) (regions_of ops p None)) p = new_side ops @ ending \<and>
    (\<forall>r c. br_end r = p \<and> br_start r \<le> p \<and> c \<le> br_start r \<longrightarrow>
      splice base (map (Pair s) (regions_of ops p (Some r))) c =
        drop c (take (br_start r) base) @ br_replacement r @ new_side ops @ ending)"
  using assms
proof (induction ops arbitrary: p pre)
  case Nil
  then show ?case by (auto simp: max_def)
next
  case (Cons op ops)
  obtain k x where op: "op = (k, x)" by (cases op)
  show ?case
  proof (cases k)
    case Context
    have IH: "splice base (map (Pair s) (regions_of ops (p + 1) None)) (p + 1) = new_side ops @ ending"
      using Cons.IH [of "pre @ [x]" "p + 1"] Cons.prems Context by (simp add: op)
    have "splice base (map (Pair s) (regions_of ops (p + 1) None)) p = x # new_side ops @ ending"
      using splice_skip [OF conjunct1 [OF regions_of_ok, of "p + 1" ops], of base s] IH Cons.prems Context by (simp add: op nth_append)
    then show ?thesis using Context by (auto simp: op max_def)
  next
    case Added
    with Cons.IH [OF _ Cons.prems(2)] Cons.prems(1) show ?thesis by (auto simp: op Let_def)
  next
    case Removed
    have IH: "\<forall>r c. br_end r = p + 1 \<and> br_start r \<le> p + 1 \<and> c \<le> br_start r \<longrightarrow>
      splice base (map (Pair s) (regions_of ops (p + 1) (Some r))) c =
        drop c (take (br_start r) base) @ br_replacement r @ new_side ops @ ending"
      using Cons.IH [of "pre @ [x]" "p + 1"] Cons.prems Removed by (simp add: op)
    then show ?thesis using Removed by (auto simp: op Let_def)
  qed
qed

lemma blockChanges_cases:
  obtains front before after ending where "base = front @ before @ ending" "revised = front @ after @ ending"
    "blockChanges base revised = [] \<and> before = after \<or>
     blockChanges base revised = [\<lparr>br_start = length front, br_end = length front + length before, br_replacement = after\<rparr>] \<or>
     blockChanges base revised = regions_of (align before after) (length front) None"
proof -
  let ?p = "commonPrefixLength base revised"
  obtain front before after ending where t: "base = front @ before @ ending" "revised = front @ after @ ending"
    "front = take ?p base"
    "before = drop ?p (take (length base - commonSuffixLength base revised (min (length base - ?p) (length revised - ?p))) base)"
    "after = drop ?p (take (length revised - commonSuffixLength base revised (min (length base - ?p) (length revised - ?p))) revised)"
    "ending = drop (length base - commonSuffixLength base revised (min (length base - ?p) (length revised - ?p))) base"
    "?p = length front" "commonSuffixLength base revised (min (length base - ?p) (length revised - ?p)) = length ending"
    by (rule trimmed_parts [OF min.cobounded1 min.cobounded2])
  have "blockChanges base revised =
      (if before = [] \<and> after = [] then []
       else if before = [] \<or> after = [] \<or> length before * length after > LCS_CELL_BUDGET
       then [\<lparr>br_start = ?p, br_end = ?p + length before, br_replacement = after\<rparr>]
       else region_walk (lcs_table before after) before after ?p 0 0 None)"
    unfolding blockChanges_def Let_def t(4,5) ..
  then show thesis
    using that [OF t(1,2)] t(7) region_walk_of [of before after ?p 0 0 None] by (simp split: if_splits)
qed

lemma blockChanges_ok: "regions_ok 0 (length base) (blockChanges base revised)"
proof -
  obtain front before after ending where t: "base = front @ before @ ending" "revised = front @ after @ ending"
    "blockChanges base revised = [] \<and> before = after \<or>
     blockChanges base revised = [\<lparr>br_start = length front, br_end = length front + length before, br_replacement = after\<rparr>] \<or>
     blockChanges base revised = regions_of (align before after) (length front) None" by (rule blockChanges_cases)
  have "regions_ok 0 (length base) (regions_of (align before after) (length front) None)"
    using regions_of_ok [of "length front" "align before after"] align_sides [of before after] t(1)
    by (auto elim!: regions_ok_mono)
  with t(1,3) show ?thesis by auto
qed

lemma blockChanges_splice: "splice base (map (Pair s) (blockChanges base revised)) 0 = revised"
proof -
  obtain front before after ending where t: "base = front @ before @ ending" "revised = front @ after @ ending"
    "blockChanges base revised = [] \<and> before = after \<or>
     blockChanges base revised = [\<lparr>br_start = length front, br_end = length front + length before, br_replacement = after\<rparr>] \<or>
     blockChanges base revised = regions_of (align before after) (length front) None" by (rule blockChanges_cases)
  have "splice base (map (Pair s) (regions_of (align before after) (length front) None)) (length front) = after @ ending"
    using splice_regions_of [of base front "align before after" ending] align_sides [of before after] t(1) by simp
  moreover have "splice base (map (Pair s) rs) 0 = front @ splice base (map (Pair s) rs) (length front)"
    if "regions_ok (length front) (length base) rs" for rs
    using that t(1) by (cases rs) (auto simp: max_def)
  moreover have "regions_ok (length front) (length base) (regions_of (align before after) (length front) None)"
    using regions_of_ok [of "length front" "align before after"] align_sides [of before after] t(1)
    by (auto elim!: regions_ok_mono)
  ultimately have "splice base (map (Pair s) (regions_of (align before after) (length front) None)) 0 = revised" using t(2) by simp
  with t show ?thesis by (auto simp: max_def)
qed

section \<open>The order of regions\<close>

interpretation regions: comparator region_cmp "\<lambda>(source, r). (source, br_start r)"
proof
  fix x y z :: "merge_source \<times> 'a block_region"
  show "region_cmp x y \<le> 0 \<or> region_cmp y x \<le> 0"
    by (cases "fst x"; cases "fst y") (auto simp: region_cmp_def Let_def)
  show "region_cmp x y \<le> 0 \<Longrightarrow> region_cmp y z \<le> 0 \<Longrightarrow> region_cmp x z \<le> 0"
    by (cases "fst x"; cases "fst y"; cases "fst z") (auto simp: region_cmp_def Let_def split: if_splits)
qed

lemma regions_ok_starts: "regions_ok f n rs \<Longrightarrow> distinct (map br_start rs) \<and> (\<forall>r \<in> set rs. f \<le> br_start r \<and> br_start r \<le> br_end r \<and> br_end r \<le> n)"
  by (induction f n rs rule: regions_ok.induct) fastforce+

lemma regions_ok_filter: "regions_ok f n rs \<Longrightarrow> regions_ok f n (filter P rs)"
  by (induction f n rs rule: regions_ok.induct) (auto elim: regions_ok_mono)

text \<open>At most one region of a side starts at a position.\<close>

lemma starting_at: "distinct (map br_start rs) \<Longrightarrow> \<exists>o'. filter (\<lambda>r. br_start r = k) rs = (case o' of None \<Rightarrow> [] | Some r \<Rightarrow> [r])"
proof (induction rs)
  case (Cons r rs)
  show ?case
  proof (cases "br_start r = k")
    case True
    with Cons.prems have "k \<notin> br_start ` set rs" by simp
    then have "filter (\<lambda>q. br_start q = k) rs = []" unfolding filter_empty_conv by blast
    with True show ?thesis by (intro exI [of _ "Some r"]) simp
  qed (use Cons in simp)
qed (simp add: exI [of _ None])

lemma two_sorted:
  assumes "set F = set (xs @ ys)" and "distinct F" and "sorted_wrt (\<lambda>x y. region_cmp x y \<le> 0) F"
    and "xs = (case l of None \<Rightarrow> [] | Some r \<Rightarrow> [(Local, r)])" and "ys = (case m of None \<Rightarrow> [] | Some r \<Rightarrow> [(Remote, r)])"
    and "\<forall>x \<in> set F. br_start (snd x) = k"
  shows "F = xs @ ys"
proof -
  have card: "length F = length (xs @ ys)"
    using assms(1,2,4,5) distinct_card [of F] distinct_card [of "xs @ ys"] by (auto split: option.splits)
  show ?thesis
  proof (cases "l = None \<or> m = None")
    case True
    then show ?thesis using assms(1,4,5) card by (cases F; cases "tl F") (auto split: option.splits)
  next
    case False
    then obtain r q where s: "xs = [(Local, r)]" "ys = [(Remote, q)]" using assms(4,5) by auto
    with card obtain a b where F: "F = [a, b]" by (cases F; cases "tl F") auto
    have "a = (Local, r) \<and> b = (Remote, q) \<or> a = (Remote, q) \<and> b = (Local, r)"
      using assms(1,2) s F by auto
    moreover have "\<not> region_cmp (Remote, q) (Local, r) \<le> 0"
      using assms(1,6) s by (auto simp: region_cmp_def)
    ultimately show ?thesis using assms(3) s F by auto
  qed
qed

section \<open>The merge, position by position\<close>

definition changed_at :: "'b block_region list \<Rightarrow> nat \<Rightarrow> bool" where
  "changed_at rs k \<longleftrightarrow> list_ex (\<lambda>r. br_start r \<le> k \<and> k < br_end r) rs"

definition inserted_at :: "'b block_region list \<Rightarrow> nat \<Rightarrow> 'b list" where
  "inserted_at rs k = concat (map br_replacement (filter (\<lambda>r. br_start r = k) rs))"

lemma kept_range:
  "a \<le> c \<Longrightarrow> m \<le> length base \<Longrightarrow>
    concat (map (\<lambda>k. if k < length base \<and> c \<le> k then [base ! k] else []) [a ..< m]) = drop c (take m base)"
proof (induction m)
  case (Suc m)
  then show ?case by (cases "a \<le> m") (auto simp: take_Suc_conv_app_nth)
qed simp

lemma splice_positions:
  assumes "sorted_wrt (\<lambda>x y. br_start (snd x) \<le> br_start (snd y)) rs"
    and "\<forall>x \<in> set rs. br_start (snd x) \<le> br_end (snd x) \<and> br_end (snd x) \<le> length base"
    and "\<forall>x \<in> set rs. a \<le> br_start (snd x)" and "a \<le> c"
  shows "splice base rs c = concat (map (\<lambda>k. inserted_at (map snd rs) k @
      (if k < length base \<and> c \<le> k \<and> \<not> changed_at (map snd rs) k then [base ! k] else [])) [a ..< Suc (length base)])"
  using assms
proof (induction rs arbitrary: a c)
  case Nil
  from kept_range [OF Nil(4) order_refl, of base] Nil(4) show ?case
    by (auto simp: inserted_at_def changed_at_def)
next
  case (Cons x rs)
  obtain src r where x: "x = (src, r)" by (cases x)
  let ?s = "br_start r" and ?n = "length base"
  have r: "a \<le> ?s" "?s \<le> br_end r" "br_end r \<le> ?n" using Cons.prems by (auto simp: x)
  have later: "\<forall>y \<in> set rs. ?s \<le> br_start (snd y)" using Cons.prems(1) by (simp add: x)
  let ?f = "\<lambda>ps c k. inserted_at ps k @ (if k < ?n \<and> c \<le> k \<and> \<not> changed_at ps k then [base ! k] else [])"
  have IH: "splice base rs (max c (br_end r)) = concat (map (?f (map snd rs) (max c (br_end r))) [?s ..< Suc ?n])"
    using Cons.prems later r by (intro Cons.IH) auto
  have before: "concat (map (?f (map snd (x # rs)) c) [a ..< ?s]) = drop c (take (max c ?s) base)"
  proof -
    have "?f (map snd (x # rs)) c k = (if k < ?n \<and> c \<le> k then [base ! k] else [])" if "k < ?s" for k
      using that later by (fastforce simp: x inserted_at_def changed_at_def list_ex_iff filter_empty_conv)
    then have "concat (map (?f (map snd (x # rs)) c) [a ..< ?s]) =
        concat (map (\<lambda>k. if k < ?n \<and> c \<le> k then [base ! k] else []) [a ..< ?s])"
      by (intro arg_cong [where f = concat] map_cong) auto
    also have "\<dots> = drop c (take ?s base)"
      using r by (intro kept_range [OF Cons.prems(4)]) simp
    finally show ?thesis by (simp add: max_def)
  qed
  have at: "?f (map snd (x # rs)) c ?s = br_replacement r @ ?f (map snd rs) (max c (br_end r)) ?s"
    using r by (auto simp: x inserted_at_def changed_at_def)
  have after: "map (?f (map snd (x # rs)) c) [Suc ?s ..< Suc ?n] = map (?f (map snd rs) (max c (br_end r))) [Suc ?s ..< Suc ?n]"
    by (intro map_cong) (auto simp: x inserted_at_def changed_at_def)
  have "[a ..< Suc ?n] = [a ..< ?s] @ ?s # [Suc ?s ..< Suc ?n]" "[?s ..< Suc ?n] = ?s # [Suc ?s ..< Suc ?n]"
    using r upt_add_eq_append [of a ?s "Suc ?n - ?s"] by (simp_all add: upt_conv_Cons del: upt_Suc)
  then have "concat (map G [a ..< Suc ?n]) = concat (map G [a ..< ?s]) @ G ?s @ concat (map G [Suc ?s ..< Suc ?n])"
    "concat (map H [?s ..< Suc ?n]) = H ?s @ concat (map H [Suc ?s ..< Suc ?n])" for G H :: "nat \<Rightarrow> 'a list"
    by (simp_all only: map_append list.map concat_append concat.simps)
  note parts = this
  show ?case
    unfolding parts(1) before at after
    using IH unfolding parts(2) by (simp add: x)
qed

lemma region_cmp_starts: "region_cmp x y \<le> 0 \<Longrightarrow> br_start (snd x) \<le> br_start (snd y)"
  by (auto simp: region_cmp_def Let_def split: if_splits)

definition remote_regions :: "'b list \<Rightarrow> 'b list \<Rightarrow> 'b list \<Rightarrow> 'b block_region list" where
  "remote_regions base localBlocks incoming =
     filter (\<lambda>region. \<not> list_ex (\<lambda>l. regionsIntersect l region) (blockChanges base localBlocks)) (blockChanges base incoming)"

lemma merge_regions_sorted:
  fixes base localBlocks incoming :: "'b list"
  defines "rs \<equiv> merge_regions base localBlocks incoming"
  shows "sorted_wrt (\<lambda>x y. region_cmp x y \<le> 0) rs"
    "set rs = Pair Local ` set (blockChanges base localBlocks) \<union> Pair Remote ` set (remote_regions base localBlocks incoming)"
    "distinct rs"
proof -
  let ?L = "blockChanges base localBlocks" and ?R = "remote_regions base localBlocks incoming"
  have rs: "rs = js_sort region_cmp (map (Pair Local) ?L @ map (Pair Remote) ?R)"
    by (simp add: rs_def merge_regions_def remote_regions_def Let_def)
  have d: "distinct (map br_start ?L)" "distinct (map br_start ?R)"
    using regions_ok_starts [OF blockChanges_ok] regions_ok_starts [OF regions_ok_filter [OF blockChanges_ok]]
    unfolding remote_regions_def by blast+
  then have "distinct (map (\<lambda>(source, r). (source, br_start r)) (map (Pair Local) ?L @ map (Pair Remote) ?R))"
    by (auto simp: comp_def distinct_map inj_on_def)
  then show "sorted_wrt (\<lambda>x y. region_cmp x y \<le> 0) rs" unfolding rs by (rule regions.sort_sorted)
  show "set rs = Pair Local ` set ?L \<union> Pair Remote ` set ?R" by (simp add: rs)
  have "distinct ?L" "distinct ?R" using d by (simp_all add: distinct_map)
  then show "distinct rs" by (auto simp: rs distinct_map inj_on_def)
qed

lemma merge_inserted:
  "inserted_at (map snd (merge_regions base localBlocks incoming)) k =
    inserted_at (blockChanges base localBlocks) k @ inserted_at (remote_regions base localBlocks incoming) k"
proof -
  let ?rs = "merge_regions base localBlocks incoming" and ?L = "blockChanges base localBlocks"
    and ?R = "remote_regions base localBlocks incoming"
  let ?P = "\<lambda>r. br_start r = k" let ?F = "filter (\<lambda>x. ?P (snd x)) ?rs"
  have "distinct (map br_start ?L)" "distinct (map br_start ?R)"
    using regions_ok_starts [OF blockChanges_ok] regions_ok_starts [OF regions_ok_filter [OF blockChanges_ok]]
    unfolding remote_regions_def by blast+
  then obtain l m where lm: "filter ?P ?L = (case l of None \<Rightarrow> [] | Some r \<Rightarrow> [r])"
      "filter ?P ?R = (case m of None \<Rightarrow> [] | Some r \<Rightarrow> [r])" using starting_at by metis
  have "?F = map (Pair Local) (filter ?P ?L) @ map (Pair Remote) (filter ?P ?R)"
  proof (rule two_sorted)
    show "set ?F = set (map (Pair Local) (filter ?P ?L) @ map (Pair Remote) (filter ?P ?R))"
      using merge_regions_sorted(2) [of base localBlocks incoming] by auto
    show "distinct ?F" using merge_regions_sorted(3) by (rule distinct_filter)
    show "sorted_wrt (\<lambda>x y. region_cmp x y \<le> 0) ?F" using merge_regions_sorted(1) by (rule sorted_wrt_filter)
    show "map (Pair Local) (filter ?P ?L) = (case l of None \<Rightarrow> [] | Some r \<Rightarrow> [(Local, r)])"
      "map (Pair Remote) (filter ?P ?R) = (case m of None \<Rightarrow> [] | Some r \<Rightarrow> [(Remote, r)])"
      using lm by (simp_all split: option.splits)
    show "\<forall>x \<in> set ?F. ?P (snd x)" by simp
  qed
  then have "map snd ?F = filter ?P ?L @ filter ?P ?R" by (simp add: comp_def)
  moreover have "filter ?P (map snd ?rs) = map snd ?F" by (simp add: filter_map comp_def)
  ultimately show ?thesis by (simp add: inserted_at_def)
qed

text \<open>C20. The three-way merge of two revisions, a sort of the changed regions and one splice, implements its block-by-block specification: at each position of the base come the local insertion, then the remote one, then the base block unless one side changed it, where remote regions that touch a local one are dropped.\<close>

theorem merge_is_blockwise:
  "merged_blocks base localBlocks incoming =
    (let localRegions = blockChanges base localBlocks;
         remoteRegions = filter (\<lambda>region. \<not> list_ex (\<lambda>l. regionsIntersect l region) localRegions) (blockChanges base incoming)
     in concat (map (\<lambda>k. inserted_at localRegions k @ inserted_at remoteRegions k @
          (if k < length base \<and> \<not> changed_at localRegions k \<and> \<not> changed_at remoteRegions k then [base ! k] else []))
        [0 ..< Suc (length base)]))"
proof -
  let ?rs = "merge_regions base localBlocks incoming"
  have ok: "\<forall>x \<in> set ?rs. br_start (snd x) \<le> br_end (snd x) \<and> br_end (snd x) \<le> length base"
    using regions_ok_starts [OF blockChanges_ok, of base localBlocks] regions_ok_starts [OF blockChanges_ok, of base incoming]
    unfolding merge_regions_sorted(2) remote_regions_def by auto
  have sorted: "sorted_wrt (\<lambda>x y. br_start (snd x) \<le> br_start (snd y)) ?rs"
    using merge_regions_sorted(1) by (rule sorted_wrt_mono_rel [rotated]) (rule region_cmp_starts)
  have changed: "changed_at (map snd ?rs) k \<longleftrightarrow>
      changed_at (blockChanges base localBlocks) k \<or> changed_at (remote_regions base localBlocks incoming) k" for k
    by (simp add: changed_at_def list_ex_iff merge_regions_sorted(2) bex_Un)
  have "merged_blocks base localBlocks incoming = concat (map (\<lambda>k. inserted_at (map snd ?rs) k @
      (if k < length base \<and> 0 \<le> k \<and> \<not> changed_at (map snd ?rs) k then [base ! k] else [])) [0 ..< Suc (length base)])"
    unfolding merged_blocks_def by (rule splice_positions [OF sorted ok]) simp_all
  also have "\<dots> = concat (map (\<lambda>k. inserted_at (blockChanges base localBlocks) k @
      inserted_at (remote_regions base localBlocks incoming) k @
      (if k < length base \<and> \<not> changed_at (blockChanges base localBlocks) k \<and>
         \<not> changed_at (remote_regions base localBlocks incoming) k then [base ! k] else [])) [0 ..< Suc (length base)])"
    unfolding merge_inserted changed by (intro arg_cong [where f = concat] map_cong refl) auto
  finally show ?thesis unfolding Let_def remote_regions_def .
qed

section \<open>One-sided merges and the same insertion twice\<close>

lemma blockChanges_same: "blockChanges base base = []"
proof -
  have "commonPrefixLength base base = length base" by (induction base) simp_all
  then show ?thesis by (simp add: blockChanges_def)
qed

theorem one_sided_merge:
  "merged_blocks base revised base = revised \<and> merged_blocks base base revised = revised"
proof -
  have "js_sort region_cmp (map (Pair src) (blockChanges base revised)) = map (Pair src) (blockChanges base revised)" for src
  proof (rule regions.sort_idem)
    have "sorted_wrt (\<lambda>x y. br_start x < br_start y) rs" if "regions_ok f n rs" for f n and rs :: "'a block_region list"
      using that by (induction f n rs rule: regions_ok.induct) (fastforce dest: regions_ok_starts)+
    from this [OF blockChanges_ok]
    have "sorted_wrt (\<lambda>x y. br_start x < br_start y) (blockChanges base revised)" .
    then have "sorted_wrt (\<lambda>x y. region_cmp (src, x) (src, y) \<le> 0) (blockChanges base revised)"
      by (rule sorted_wrt_mono_rel [rotated]) (simp add: region_cmp_def)
    then show "sorted_wrt (\<lambda>x y. region_cmp x y \<le> 0) (map (Pair src) (blockChanges base revised))"
      by (simp add: sorted_wrt_map)
  qed
  then show ?thesis
    by (simp add: merged_blocks_def merge_regions_def blockChanges_same blockChanges_splice)
qed

lemma blockChanges_append: "blockChanges base (base @ [x]) = [\<lparr>br_start = length base, br_end = length base, br_replacement = [x]\<rparr>]"
proof -
  have "commonPrefixLength base (base @ [x]) = length base" by (induction base) simp_all
  then show ?thesis by (simp add: blockChanges_def Let_def commonSuffixLength_def)
qed

theorem same_insertion_twice:
  "merged_blocks base (base @ [x]) (base @ [x]) = base @ [x, x]"
  by (simp add: merged_blocks_def merge_regions_def blockChanges_append regionsIntersect_def region_cmp_def)

end
