(* ===== verification/Routes.thy ===== *)
theory Routes
  imports Text_Ops
begin

text \<open>
  \<open>route/app-route.ts\<close>: the routes of the application in the location hash, the entity a route
  focuses, and the hashes that lead there. \<open>encodeURIComponent\<close> and \<open>decodeURIComponent\<close> of the
  JavaScript library are written out on code units below 256; a well-formed escape of a code
  point above is \<open>Beyond\<close>, and \<open>UriError\<close> is the exception the library throws.
\<close>

section \<open>URI components\<close>

datatype uri_text = UriText string | Beyond | UriError

definition uri_unreserved :: "char \<Rightarrow> bool" where
  "uri_unreserved c \<longleftrightarrow> is_digit c \<or> (CHR ''A'' \<le> c \<and> c \<le> CHR ''Z'') \<or> (CHR ''a'' \<le> c \<and> c \<le> CHR ''z'') \<or>
     c \<in> set ''-_.!~*'' \<or> c = CHR 0x27 \<or> c = CHR ''('' \<or> c = CHR '')''"

definition hex_digit :: "nat \<Rightarrow> char" where
  "hex_digit n = (if n < 10 then char_of (48 + n) else char_of (55 + n))"

definition percent_byte :: "nat \<Rightarrow> string" where
  "percent_byte b = [CHR ''%'', hex_digit (b div 16), hex_digit (b mod 16)]"

definition encode_unit :: "char \<Rightarrow> string" where
  "encode_unit c =
     (let u = of_char c :: nat
      in if uri_unreserved c then [c]
         else if u < 128 then percent_byte u
         else percent_byte (192 + u div 64) @ percent_byte (128 + u mod 64))"

definition encodeURIComponent :: "string \<Rightarrow> string" where
  "encodeURIComponent s = concat (map encode_unit s)"

definition hex_value :: "char \<Rightarrow> nat option" where
  "hex_value c =
     (let u = of_char c :: nat
      in if 48 \<le> u \<and> u \<le> 57 then Some (u - 48)
         else if 65 \<le> u \<and> u \<le> 70 then Some (u - 55)
         else if 97 \<le> u \<and> u \<le> 102 then Some (u - 87) else None)"

text \<open>One \<open>%XX\<close> at the front.\<close>

fun read_byte :: "string \<Rightarrow> (nat \<times> string) option" where
  "read_byte (p # a # b # s) =
     (if p = CHR ''%'' then
        (case (hex_value a, hex_value b) of (Some x, Some y) \<Rightarrow> Some (16 * x + y, s) | _ \<Rightarrow> None)
      else None)"
| "read_byte _ = None"

text \<open>\<open>n\<close> continuation bytes after the bits read so far.\<close>

fun read_tail :: "nat \<Rightarrow> nat \<Rightarrow> string \<Rightarrow> (nat \<times> string) option" where
  "read_tail 0 v s = Some (v, s)"
| "read_tail (Suc n) v s =
     (case read_byte s of
        None \<Rightarrow> None
      | Some (b, r) \<Rightarrow> if 128 \<le> b \<and> b < 192 then read_tail n (64 * v + (b - 128)) r else None)"

text \<open>The code point a lead byte from 128 on begins, valid UTF-8 only.\<close>

definition read_point :: "nat \<Rightarrow> string \<Rightarrow> (nat \<times> string) option" where
  "read_point b s =
     (if 194 \<le> b \<and> b < 224 then read_tail 1 (b - 192) s
      else if 224 \<le> b \<and> b < 240 then
        (case read_tail 2 (b - 224) s of
           Some (v, r) \<Rightarrow> if 2048 \<le> v \<and> \<not> (55296 \<le> v \<and> v < 57344) then Some (v, r) else None
         | None \<Rightarrow> None)
      else if 240 \<le> b \<and> b < 245 then
        (case read_tail 3 (b - 240) s of
           Some (v, r) \<Rightarrow> if 65536 \<le> v \<and> v < 1114112 then Some (v, r) else None
         | None \<Rightarrow> None)
      else None)"

fun cons_uri :: "char \<Rightarrow> uri_text \<Rightarrow> uri_text" where
  "cons_uri c (UriText s) = UriText (c # s)"
| "cons_uri c Beyond = Beyond"
| "cons_uri c UriError = UriError"

lemma read_byte_length: "read_byte s = Some (b, r) \<Longrightarrow> length r < length s"
  by (cases s rule: read_byte.cases) (auto split: if_splits option.splits)

lemma read_tail_length: "read_tail n v s = Some (w, r) \<Longrightarrow> length r \<le> length s"
proof (induction n arbitrary: v s)
  case (Suc n)
  then obtain b q where "read_byte s = Some (b, q)" "read_tail n (64 * v + (b - 128)) q = Some (w, r)"
    by (auto split: option.splits if_splits)
  with Suc.IH read_byte_length show ?case by fastforce
qed simp

lemma read_point_length: "read_point b s = Some (v, r) \<Longrightarrow> length r \<le> length s"
  unfolding read_point_def by (auto split: if_splits option.splits dest: read_tail_length simp del: read_tail.simps One_nat_def)

function decodeURIComponent :: "string \<Rightarrow> uri_text" where
  "decodeURIComponent [] = UriText []"
| "decodeURIComponent (c # s) =
     (if c \<noteq> CHR ''%'' then cons_uri c (decodeURIComponent s)
      else case read_byte (c # s) of
             None \<Rightarrow> UriError
           | Some (b, r) \<Rightarrow>
               if b < 128 then cons_uri (char_of b) (decodeURIComponent r)
               else (case read_point b r of
                       None \<Rightarrow> UriError
                     | Some (v, q) \<Rightarrow>
                         if v < 256 then cons_uri (char_of v) (decodeURIComponent q)
                         else (case decodeURIComponent q of UriError \<Rightarrow> UriError | _ \<Rightarrow> Beyond)))"
  by pat_completeness auto

termination decodeURIComponent
proof (relation "measure length", goal_cases)
  case (4 c s z b r z' v q)
  then show ?case using read_byte_length [of "c # s" b r] read_point_length [of b r v q] by simp
next
  case (5 c s z b r z' v q)
  then show ?case using read_byte_length [of "c # s" b r] read_point_length [of b r v q] by simp
qed (auto dest: read_byte_length)

section \<open>Routes\<close>

datatype app_route =
  NotesRoute | TrashRoute | TagsRoute | PeopleRoute | HistoryRoute | JournalRoute | TasksRoute
  | DatabaseRoute | MediaRoute | PromptPlaygroundRoute

definition routeHasSidebar :: "app_route \<Rightarrow> bool" where
  "routeHasSidebar route \<longleftrightarrow> route = NotesRoute \<or> route = JournalRoute \<or> route = DatabaseRoute"

definition resolveAppRoute :: "string \<Rightarrow> app_route" where
  "resolveAppRoute hash =
     (if hash = ''#/trash'' then TrashRoute
      else if hash = ''#/prompt-playground'' then PromptPlaygroundRoute
      else if hash = ''#/media'' then MediaRoute
      else if startsWith hash ''#/history/'' then HistoryRoute
      else if hash = ''#/tags'' \<or> startsWith hash ''#/tags/'' then TagsRoute
      else if hash = ''#/people'' \<or> startsWith hash ''#/people/'' then PeopleRoute
      else if hash = ''#/journal'' \<or> startsWith hash ''#/journal/'' then JournalRoute
      else if hash = ''#/tasks'' \<or> startsWith hash ''#/tasks/'' then TasksRoute
      else if hash = ''#/database'' \<or> startsWith hash ''#/database/'' then DatabaseRoute
      else NotesRoute)"

definition FOCUS_SEGMENTS :: "string list" where
  "FOCUS_SEGMENTS = [''tags'', ''people'', ''history'', ''journal'', ''tasks'', ''database'']"

text \<open>The patterns fix the segments between slashes.\<close>

definition resolveRouteFocus :: "string \<Rightarrow> uri_text option" where
  "resolveRouteFocus hash =
     (case split_on (CHR ''/'') hash of
        mark # segment # focus # rest \<Rightarrow>
          if mark = ''#'' \<and> segment \<in> set FOCUS_SEGMENTS \<and> focus \<noteq> [] \<and> length rest \<le> 1
          then Some (decodeURIComponent focus) else None
      | _ \<Rightarrow> None)"

definition resolveHistoryVersion :: "string \<Rightarrow> uri_text option" where
  "resolveHistoryVersion hash =
     (case split_on (CHR ''/'') hash of
        [mark, segment, note, version] \<Rightarrow>
          if mark = ''#'' \<and> segment = ''history'' \<and> note \<noteq> [] \<and> version \<noteq> []
          then Some (decodeURIComponent version) else None
      | _ \<Rightarrow> None)"

definition appRouteHash :: "app_route \<Rightarrow> string" where
  "appRouteHash route =
     (if route = TrashRoute then ''#/trash''
      else if route = TagsRoute then ''#/tags''
      else if route = PeopleRoute then ''#/people''
      else if route = JournalRoute then ''#/journal''
      else if route = TasksRoute then ''#/tasks''
      else if route = DatabaseRoute then ''#/database''
      else if route = PromptPlaygroundRoute then ''#/prompt-playground''
      else if route = MediaRoute then ''#/media''
      else ''#/notes'')"

definition taskFocusHash :: "string \<Rightarrow> string" where
  "taskFocusHash taskId = ''#/tasks/'' @ encodeURIComponent taskId"

definition databaseHash :: "string option \<Rightarrow> string" where
  "databaseHash folderId =
     (case folderId of None \<Rightarrow> ''#/database'' | Some f \<Rightarrow> ''#/database/'' @ encodeURIComponent f)"

definition journalDayHash :: "string \<Rightarrow> string" where
  "journalDayHash dateKey = ''#/journal/'' @ encodeURIComponent dateKey"

definition noteHistoryHash :: "string \<Rightarrow> string option \<Rightarrow> string" where
  "noteHistoryHash noteId versionId =
     (let base = ''#/history/'' @ encodeURIComponent noteId
      in case versionId of None \<Rightarrow> base | Some v \<Rightarrow> base @ ''/'' @ encodeURIComponent v)"

datatype focus_kind = TagFocus | PersonFocus

definition entityFocusHash :: "focus_kind \<Rightarrow> string \<Rightarrow> string" where
  "entityFocusHash kind i =
     ''#/'' @ (if kind = TagFocus then ''tags'' else ''people'') @ ''/'' @ encodeURIComponent i"

section \<open>Round trips\<close>

lemma hex_char: "n < 16 \<Longrightarrow> hex_value (hex_digit n) = Some n \<and> hex_digit n \<noteq> CHR ''/''"
proof -
  assume n: "n < 16"
  define u where "u = (if n < 10 then 48 + n else 55 + n)"
  have d: "hex_digit n = char_of u" by (simp add: hex_digit_def u_def)
  have u: "of_char (hex_digit n) = u" using n by (simp add: d of_char_of u_def)
  then have "hex_value (hex_digit n) = Some n" using n by (auto simp: hex_value_def Let_def u_def)
  moreover have "of_char CHR ''/'' = (47 :: nat)" by simp
  then have "hex_digit n \<noteq> CHR ''/''" using u n by (auto simp: u_def split: if_splits)
  ultimately show ?thesis by blast
qed

lemma read_percent [simp]: "b < 256 \<Longrightarrow> read_byte (percent_byte b @ s) = Some (b, s)"
  using hex_char [of "b div 16"] hex_char [of "b mod 16"] by (simp add: percent_byte_def less_mult_imp_div_less)

lemma percent_front: "\<exists>x y. percent_byte b = [CHR ''%'', x, y]"
  by (simp add: percent_byte_def)

lemma decode_unit: "decodeURIComponent (encode_unit c @ s) = cons_uri c (decodeURIComponent s)"
proof (cases "uri_unreserved c")
  case True
  then have "c \<noteq> CHR ''%''" by (auto simp: uri_unreserved_def is_digit_def less_eq_char_def)
  with True show ?thesis by (simp add: encode_unit_def)
next
  case False
  let ?u = "of_char c :: nat"
  have u: "?u < 256" by (rule of_char_bound)
  show ?thesis
  proof (cases "?u < 128")
    case True
    obtain x y where "percent_byte ?u = [CHR ''%'', x, y]" using percent_front by blast
    with read_percent [of ?u s] True False show ?thesis by (simp add: encode_unit_def)
  next
    case large: False
    let ?b = "192 + ?u div 64"
    have b: "194 \<le> ?b" "?b < 224" "?b < 256" using u large by linarith+
    obtain x y where xy: "percent_byte ?b = [CHR ''%'', x, y]" using percent_front by blast
    have tail: "read_byte (percent_byte (128 + ?u mod 64) @ s) = Some (128 + ?u mod 64, s)"
      by (rule read_percent) (use mod_less_divisor [of 64 ?u] in linarith)
    have "64 * (?u div 64) + ?u mod 64 = ?u" by (rule mult_div_mod_eq)
    then have "read_point ?b (percent_byte (128 + ?u mod 64) @ s) = Some (?u, s)"
      using b tail by (simp add: read_point_def)
    with read_percent [OF b(3), of "percent_byte (128 + ?u mod 64) @ s"] xy False large b u show ?thesis
      by (simp add: encode_unit_def Let_def)
  qed
qed

lemma decode_encode_append: "decodeURIComponent (encodeURIComponent s @ r) = foldr cons_uri s (decodeURIComponent r)"
  by (induction s) (simp_all add: encodeURIComponent_def decode_unit)

lemma decode_encode [simp]: "decodeURIComponent (encodeURIComponent s) = UriText s"
proof -
  have "foldr cons_uri s (UriText []) = UriText s" by (induction s) simp_all
  with decode_encode_append [of s "[]"] show ?thesis by simp
qed

lemma encode_unit_plain: "CHR ''/'' \<notin> set (encode_unit c) \<and> encode_unit c \<noteq> []"
proof -
  have "\<not> uri_unreserved CHR ''/''" by code_simp
  moreover have "CHR ''/'' \<notin> set (percent_byte b)" if "b < 256" for b
    using that hex_char [of "b div 16"] hex_char [of "b mod 16"] by (auto simp: percent_byte_def less_mult_imp_div_less)
  from this [of "of_char c"] this [of "192 + of_char c div 64"] this [of "128 + of_char c mod 64"]
  have "CHR ''/'' \<notin> set (percent_byte (of_char c))" "CHR ''/'' \<notin> set (percent_byte (192 + of_char c div 64))"
    "CHR ''/'' \<notin> set (percent_byte (128 + of_char c mod 64))"
    using of_char_bound [of c] mod_less_divisor [of 64 "of_char c"] by linarith+
  ultimately show ?thesis by (auto simp: encode_unit_def Let_def percent_byte_def)
qed

lemma encode_plain: "CHR ''/'' \<notin> set (encodeURIComponent s)"
  using encode_unit_plain by (auto simp: encodeURIComponent_def)

lemma encode_nonempty: "s \<noteq> [] \<Longrightarrow> encodeURIComponent s \<noteq> []"
  using encode_unit_plain by (cases s) (simp_all add: encodeURIComponent_def)

text \<open>The segments of a hash.\<close>

lemma hash_segments:
  assumes "seg \<in> set FOCUS_SEGMENTS" and "CHR ''/'' \<notin> set x"
  shows "split_on (CHR ''/'') (''#/'' @ seg @ ''/'' @ x @ (if more_text then CHR ''/'' # y else [])) =
    ''#'' # seg # x # (if more_text then split_on (CHR ''/'') y else [])"
proof -
  have "CHR ''/'' \<notin> set seg" using assms(1) by (auto simp: FOCUS_SEGMENTS_def)
  then have "split_on (CHR ''/'') (seg @ CHR ''/'' # z) = seg # split_on (CHR ''/'') z" for z by (rule split_on_step)
  moreover have "split_on (CHR ''/'') (''#'' @ CHR ''/'' # z) = ''#'' # split_on (CHR ''/'') z" for z
    by (rule split_on_step) simp
  ultimately show ?thesis
    using split_on_step [OF assms(2), of y] split_on_plain [OF assms(2)] by simp
qed

lemma focus_of:
  assumes "seg \<in> set FOCUS_SEGMENTS" and "i \<noteq> []"
  shows "resolveRouteFocus (''#/'' @ seg @ ''/'' @ encodeURIComponent i) = Some (UriText i)"
    "resolveRouteFocus (''#/'' @ seg @ ''/'' @ encodeURIComponent i @ ''/'' @ encodeURIComponent v) = Some (UriText i)"
  using hash_segments [OF assms(1) encode_plain, of i False] hash_segments [OF assms(1) encode_plain, of i True "encodeURIComponent v"]
    split_on_plain [OF encode_plain, of v] assms encode_nonempty [OF assms(2)] by (simp_all add: resolveRouteFocus_def)

lemma version_of:
  assumes "i \<noteq> []" and "v \<noteq> []"
  shows "resolveHistoryVersion (''#/history/'' @ encodeURIComponent i @ ''/'' @ encodeURIComponent v) = Some (UriText v)"
  using hash_segments [of "''history''" "encodeURIComponent i" True "encodeURIComponent v"] encode_plain [of i]
    split_on_plain [OF encode_plain, of v] assms encode_nonempty by (simp add: resolveHistoryVersion_def FOCUS_SEGMENTS_def)

text \<open>C40. For non-empty identifiers of code units below 256, among them slashes, percent signs and spaces, every hash built for a task, database, journal day, tag, person or note history reads back its route, its focus and its version.\<close>

theorem focus_hash_roundtrip:
  assumes "i \<noteq> []" and "v \<noteq> []"
  shows "resolveRouteFocus (taskFocusHash i) = Some (UriText i) \<and> resolveAppRoute (taskFocusHash i) = TasksRoute \<and>
    resolveRouteFocus (databaseHash (Some i)) = Some (UriText i) \<and> resolveAppRoute (databaseHash (Some i)) = DatabaseRoute \<and>
    resolveRouteFocus (journalDayHash i) = Some (UriText i) \<and> resolveAppRoute (journalDayHash i) = JournalRoute \<and>
    resolveRouteFocus (entityFocusHash kind i) = Some (UriText i) \<and>
    resolveAppRoute (entityFocusHash kind i) = (if kind = TagFocus then TagsRoute else PeopleRoute) \<and>
    resolveRouteFocus (noteHistoryHash i None) = Some (UriText i) \<and> resolveHistoryVersion (noteHistoryHash i None) = None \<and>
    resolveRouteFocus (noteHistoryHash i (Some v)) = Some (UriText i) \<and>
    resolveHistoryVersion (noteHistoryHash i (Some v)) = Some (UriText v) \<and>
    resolveAppRoute (noteHistoryHash i version) = HistoryRoute"
proof -
  have seg: "''tasks'' \<in> set FOCUS_SEGMENTS" "''database'' \<in> set FOCUS_SEGMENTS" "''journal'' \<in> set FOCUS_SEGMENTS"
    "''tags'' \<in> set FOCUS_SEGMENTS" "''people'' \<in> set FOCUS_SEGMENTS" "''history'' \<in> set FOCUS_SEGMENTS"
    by (simp_all add: FOCUS_SEGMENTS_def)
  note focus = seg [THEN focus_of(1), OF assms(1)] focus_of(2) [OF seg(6) assms(1), of v] version_of [OF assms]
  have "resolveHistoryVersion (''#/history/'' @ encodeURIComponent i) = None"
    using hash_segments [OF seg(6) encode_plain, of i False] by (simp add: resolveHistoryVersion_def)
  moreover have "resolveAppRoute (taskFocusHash i) = TasksRoute" "resolveAppRoute (databaseHash (Some i)) = DatabaseRoute"
    "resolveAppRoute (journalDayHash i) = JournalRoute"
    "resolveAppRoute (entityFocusHash kind i) = (if kind = TagFocus then TagsRoute else PeopleRoute)"
    "resolveAppRoute (noteHistoryHash i version) = HistoryRoute"
    by (simp_all add: taskFocusHash_def databaseHash_def journalDayHash_def entityFocusHash_def noteHistoryHash_def
        resolveAppRoute_def startsWith_def Let_def split: option.split)
  moreover have "resolveRouteFocus (entityFocusHash kind i) = Some (UriText i)"
    using focus by (cases kind) (simp_all add: entityFocusHash_def)
  ultimately show ?thesis
    using focus by (simp add: taskFocusHash_def databaseHash_def journalDayHash_def noteHistoryHash_def Let_def)
qed

theorem focus_hash_roundtrip_witness:
  "resolveRouteFocus (taskFocusHash ''a/b c%'') = Some (UriText ''a/b c%'')"
  using focus_hash_roundtrip [of "''a/b c%''" "''v''"] by simp

theorem route_hash_roundtrip:
  "resolveAppRoute (appRouteHash route) = (if route = HistoryRoute then NotesRoute else route)"
  by (cases route) (simp_all add: resolveAppRoute_def appRouteHash_def startsWith_def)

text \<open>A lone percent sign in a hash makes the focus throw.\<close>

theorem stray_percent_throws:
  "resolveRouteFocus (''#/tasks/'' @ encodeURIComponent i @ ''%'') = Some UriError"
proof -
  have "foldr cons_uri i UriError = UriError" by (induction i) simp_all
  then have "decodeURIComponent (encodeURIComponent i @ ''%'') = UriError" by (simp add: decode_encode_append)
  moreover have "CHR ''/'' \<notin> set (encodeURIComponent i @ ''%'')" using encode_plain by simp
  from hash_segments [OF _ this, of "''tasks''" False] have
    "split_on (CHR ''/'') (''#/tasks/'' @ encodeURIComponent i @ ''%'') = [''#'', ''tasks'', encodeURIComponent i @ ''%'']"
    by (simp add: FOCUS_SEGMENTS_def)
  ultimately show ?thesis by (simp add: resolveRouteFocus_def FOCUS_SEGMENTS_def)
qed

end
