(* ===== verification/Vim_Text.thy ===== *)
theory Vim_Text
  imports Text_Ops
begin

text \<open>
  Vim's text grammar on one line (\<open>src/apps/workspace/src/features/editor/vim/text.ts\<close>): word motions,
  find targets, bracket matching and text objects as functions from a line and an offset to an offset
  or a range. A line is a list of characters below 256 and of the object character that stands for an
  inline node. Offsets are not negative, as the callers pass them. A loop that runs down to and
  past index 0 is \<open>scan_down\<close>, which counts the characters in front of the index.
\<close>

section \<open>Characters\<close>

datatype line_char = ObjectCharacter | Ch char

type_synonym line = "line_char list"

datatype character_class = Blank | Punctuation | Word | ObjectClass

datatype find_kind = FindF | FindBigF | FindT | FindBigT

record text_range =
  tr_from :: nat
  tr_to :: nat

text \<open>\<open>[\p{L}\p{N}_]\<close> among the first 256 code units.\<close>

definition word_character :: "char \<Rightarrow> bool" where
  "word_character c =
     (let u = of_char c :: nat
      in (48 \<le> u \<and> u \<le> 57) \<or> (65 \<le> u \<and> u \<le> 90) \<or> u = 95 \<or> (97 \<le> u \<and> u \<le> 122) \<or>
         u = 170 \<or> u = 178 \<or> u = 179 \<or> u = 181 \<or> u = 185 \<or> u = 186 \<or> (188 \<le> u \<and> u \<le> 190) \<or>
         (192 \<le> u \<and> u \<noteq> 215 \<and> u \<noteq> 247))"

fun characterClass :: "line_char option \<Rightarrow> bool \<Rightarrow> character_class" where
  "characterClass None bigWord = Blank"
| "characterClass (Some ObjectCharacter) bigWord = ObjectClass"
| "characterClass (Some (Ch c)) bigWord =
     (if js_space c then Blank else if bigWord then Word else if word_character c then Word else Punctuation)"

definition char_at :: "line \<Rightarrow> nat \<Rightarrow> line_char option" where
  "char_at line i = (if i < length line then Some (line ! i) else None)"

definition classAt :: "line \<Rightarrow> nat \<Rightarrow> bool \<Rightarrow> character_class" where
  "classAt line index bigWord = characterClass (char_at line index) bigWord"

definition sameWord :: "character_class \<Rightarrow> character_class \<Rightarrow> bool" where
  "sameWord a b \<longleftrightarrow> a = b \<and> a \<noteq> Blank \<and> a \<noteq> ObjectClass"

section \<open>Scans\<close>

text \<open>\<open>while (index < text.length && P(index)) index += 1\<close>.\<close>

function scan_up :: "(nat \<Rightarrow> bool) \<Rightarrow> nat \<Rightarrow> nat \<Rightarrow> nat" where
  "scan_up P n i = (if i < n \<and> P i then scan_up P n (i + 1) else i)"
  by pat_completeness auto

termination scan_up by (relation "measure (\<lambda>(P, n, i). n - i)") auto

declare scan_up.simps [simp del]

lemma scan_up_here: "\<not> P i \<Longrightarrow> scan_up P n i = i"
  by (simp add: scan_up.simps [of P n i])

lemma scan_up_ge: "i \<le> scan_up P n i"
proof (induction P n i rule: scan_up.induct)
  case (1 P n i)
  then show ?case by (subst scan_up.simps) (auto simp: Suc_le_eq)
qed

lemma scan_up_le: "i \<le> n \<Longrightarrow> scan_up P n i \<le> n"
proof (induction P n i rule: scan_up.induct)
  case (1 P n i)
  then show ?case by (subst scan_up.simps) auto
qed

lemma scan_up_inside: "i \<le> k \<Longrightarrow> k < scan_up P n i \<Longrightarrow> k < n \<and> P k"
proof (induction P n i rule: scan_up.induct)
  case (1 P n i)
  show ?case
  proof (cases "i < n \<and> P i")
    case True
    with 1 show ?thesis by (cases "k = i") (auto simp: scan_up.simps [of P n i])
  next
    case False
    with 1 show ?thesis by (auto simp: scan_up.simps [of P n i])
  qed
qed

lemma scan_up_stop: "scan_up P n i < n \<Longrightarrow> \<not> P (scan_up P n i)"
proof (induction P n i rule: scan_up.induct)
  case (1 P n i)
  then show ?case by (subst (asm) scan_up.simps, subst scan_up.simps) (auto split: if_splits)
qed

lemmas scan_up = scan_up_ge scan_up_le scan_up_inside scan_up_stop

text \<open>\<open>while (index > 0 && P(index - 1)) index -= 1\<close>.\<close>

primrec scan_down :: "(nat \<Rightarrow> bool) \<Rightarrow> nat \<Rightarrow> nat" where
  "scan_down P 0 = 0"
| "scan_down P (Suc i) = (if P i then scan_down P i else Suc i)"

lemma scan_down_le: "scan_down P i \<le> i"
  by (induction i) auto

lemma scan_down_inside: "scan_down P i \<le> k \<Longrightarrow> k < i \<Longrightarrow> P k"
  by (induction i) (auto split: if_splits simp: less_Suc_eq)

lemma scan_down_stop: "0 < scan_down P i \<Longrightarrow> \<not> P (scan_down P i - 1)"
  by (induction i) (auto split: if_splits)

lemmas scan_down = scan_down_le scan_down_inside scan_down_stop

section \<open>Word motions\<close>

definition nextWordStart :: "line \<Rightarrow> nat \<Rightarrow> bool \<Rightarrow> nat option" where
  "nextWordStart line offset bigWord =
     (if length line \<le> offset then None
      else
        let start = classAt line offset bigWord;
            index = (if start = ObjectClass then offset + 1
              else if start \<noteq> Blank then scan_up (\<lambda>i. sameWord (classAt line i bigWord) start) (length line) offset
              else offset);
            index' = scan_up (\<lambda>i. classAt line i bigWord = Blank) (length line) index
        in if index' < length line then Some index' else None)"

definition wordEnd :: "line \<Rightarrow> nat \<Rightarrow> bool \<Rightarrow> nat option" where
  "wordEnd line offset bigWord =
     (let index = scan_up (\<lambda>i. classAt line i bigWord = Blank) (length line) (offset + 1)
      in if length line \<le> index then None
         else
           let start = classAt line index bigWord
           in if start = ObjectClass then Some index
              else Some (scan_up (\<lambda>i. sameWord (classAt line (i + 1) bigWord) start) (length line - 1) index))"

definition previousWordStart :: "line \<Rightarrow> nat \<Rightarrow> bool \<Rightarrow> nat option" where
  "previousWordStart line offset bigWord =
     (case scan_down (\<lambda>i. classAt line i bigWord = Blank) (min offset (length line)) of
        0 \<Rightarrow> None
      | Suc index \<Rightarrow>
          let start = classAt line index bigWord
          in if start = ObjectClass then Some index
             else Some (scan_down (\<lambda>i. sameWord (classAt line i bigWord) start) index))"

definition previousWordEnd :: "line \<Rightarrow> nat \<Rightarrow> bool \<Rightarrow> nat option" where
  "previousWordEnd line offset bigWord =
     (let before = min offset (length line)
      in if before = 0 then None
         else
           let current = classAt line before bigWord;
               left = (if current \<noteq> Blank \<and> current \<noteq> ObjectClass
                 then scan_down (\<lambda>i. sameWord (classAt line i bigWord) current) before else before)
           in case scan_down (\<lambda>i. classAt line i bigWord = Blank) left of
                0 \<Rightarrow> None
              | Suc index \<Rightarrow> Some index)"

definition char_space :: "line_char \<Rightarrow> bool" where
  "char_space c = (case c of ObjectCharacter \<Rightarrow> False | Ch c \<Rightarrow> js_space c)"

definition firstNonBlank :: "line \<Rightarrow> nat" where
  "firstNonBlank line =
     (case find_index (\<lambda>c. \<not> char_space c) line of Some i \<Rightarrow> i | None \<Rightarrow> length line - 1)"

definition isBlankLine :: "line \<Rightarrow> bool" where
  "isBlankLine line \<longleftrightarrow> list_all char_space line"

section \<open>Find and match\<close>

definition find_step :: "line \<Rightarrow> bool \<Rightarrow> line_char \<Rightarrow> nat \<Rightarrow> nat option" where
  "find_step line forward character index =
     (if forward then find (\<lambda>i. line ! i = character) [index + 1 ..< length line]
      else find (\<lambda>i. char_at line i = Some character) (rev [0 ..< index]))"

primrec find_loop :: "line \<Rightarrow> bool \<Rightarrow> line_char \<Rightarrow> nat \<Rightarrow> nat \<Rightarrow> nat option" where
  "find_loop line forward character 0 index = Some index"
| "find_loop line forward character (Suc remaining) index =
     Option.bind (find_step line forward character index) (find_loop line forward character remaining)"

definition findCharacter :: "line \<Rightarrow> nat \<Rightarrow> find_kind \<Rightarrow> line_char \<Rightarrow> nat \<Rightarrow> int option" where
  "findCharacter line offset kind character count =
     (let forward = (kind = FindF \<or> kind = FindT); till = (kind = FindT \<or> kind = FindBigT)
      in map_option (\<lambda>index. if till then if forward then int index - 1 else int index + 1 else int index)
           (find_loop line forward character count offset))"

definition PAIRS :: "(line_char, line_char) omap" where
  "PAIRS = [(Ch CHR ''('', Ch CHR '')''), (Ch CHR ''['', Ch CHR '']''), (Ch CHR ''{'', Ch CHR ''}''), (Ch CHR ''<'', Ch CHR ''>'')]"

definition CLOSERS :: "(line_char, line_char) omap" where
  "CLOSERS = [(Ch CHR '')'', Ch CHR ''(''), (Ch CHR '']'', Ch CHR ''[''), (Ch CHR ''}'', Ch CHR ''{''), (Ch CHR ''>'', Ch CHR ''<'')]"

text \<open>The depth scan of \<open>matchingBracket\<close> over the characters still ahead in its direction: how many
  of them it reads before the depth is back at zero. \<open>up\<close> raises the depth, \<open>down\<close> lowers it.\<close>

fun balance_scan :: "line_char \<Rightarrow> line_char \<Rightarrow> int \<Rightarrow> line \<Rightarrow> nat option" where
  "balance_scan up down depth [] = None"
| "balance_scan up down depth (c # cs) =
     (let depth = (if c = up then depth + 1 else if c = down then depth - 1 else depth)
      in if depth = 0 then Some 0 else map_option Suc (balance_scan up down depth cs))"

definition matchingBracket :: "line \<Rightarrow> nat \<Rightarrow> nat option" where
  "matchingBracket line offset =
     (let index = scan_up (\<lambda>i. \<not> omap_has PAIRS (line ! i) \<and> \<not> omap_has CLOSERS (line ! i)) (length line) offset
      in if length line \<le> index then None
         else
           let character = line ! index
           in case omap_get PAIRS character of
                Some closer \<Rightarrow> map_option (\<lambda>k. index + k) (balance_scan character closer 0 (drop index line))
              | None \<Rightarrow>
                  (case omap_get CLOSERS character of
                     None \<Rightarrow> None
                   | Some opener \<Rightarrow>
                       map_option (\<lambda>k. index - k) (balance_scan character opener 0 (rev (take (Suc index) line)))))"

section \<open>Text objects\<close>

definition wordObject :: "line \<Rightarrow> nat \<Rightarrow> bool \<Rightarrow> bool \<Rightarrow> text_range option" where
  "wordObject line offset around bigWord =
     (if line = [] then None
      else
        let n = length line;
            pos = min offset (n - 1);
            kind = classAt line pos bigWord;
            same = (\<lambda>i. sameWord (classAt line i bigWord) kind);
            blank = (\<lambda>i. classAt line i bigWord = Blank);
            (start, stop) =
              (if kind = ObjectClass then (pos, pos + 1)
               else let (s, t) = (scan_down same pos, scan_up same n (pos + 1))
                    in if kind = Blank then (scan_down blank s, scan_up blank n t) else (s, t))
        in Some
             (if \<not> around then \<lparr>tr_from = start, tr_to = stop\<rparr>
              else if kind = Blank then
                let following = classAt line stop bigWord
                in if following = ObjectClass then \<lparr>tr_from = start, tr_to = stop + 1\<rparr>
                   else \<lparr>tr_from = start, tr_to = scan_up (\<lambda>i. sameWord (classAt line i bigWord) following) n stop\<rparr>
              else
                let trailing = scan_up blank n stop
                in if stop < trailing then \<lparr>tr_from = start, tr_to = trailing\<rparr>
                   else \<lparr>tr_from = scan_down blank start, tr_to = stop\<rparr>))"

text \<open>The quotes of a line that no backslash precedes.\<close>

definition quote_positions :: "line \<Rightarrow> line_char \<Rightarrow> nat list" where
  "quote_positions line mark =
     filter (\<lambda>i. line ! i = mark \<and> \<not> (0 < i \<and> line ! (i - 1) = Ch CHR 0x5C)) [0 ..< length line]"

fun quote_pair :: "nat \<Rightarrow> nat list \<Rightarrow> (nat \<times> nat) option" where
  "quote_pair offset (a # b # positions) = (if offset \<le> b then Some (a, b) else quote_pair offset positions)"
| "quote_pair offset _ = None"

definition quoteObject :: "line \<Rightarrow> nat \<Rightarrow> line_char \<Rightarrow> bool \<Rightarrow> text_range option" where
  "quoteObject line offset mark around =
     (case quote_pair offset (quote_positions line mark) of
        None \<Rightarrow> None
      | Some (a, b) \<Rightarrow>
          Some (if \<not> around then \<lparr>tr_from = a + 1, tr_to = b\<rparr>
            else
              let stop = scan_up (\<lambda>i. char_space (line ! i)) (length line) (b + 1)
              in if b + 1 < stop then \<lparr>tr_from = a, tr_to = stop\<rparr>
                 else \<lparr>tr_from = scan_down (\<lambda>i. char_space (line ! i)) a, tr_to = b + 1\<rparr>))"

text \<open>Both scans of \<open>bracketObject\<close>: the first \<open>goal\<close> ahead pos depth zero, where \<open>other\<close> counts one
  level deeper. The second component of a character says whether it may count as \<open>other\<close>.\<close>

fun enclosing_scan :: "line_char \<Rightarrow> line_char \<Rightarrow> nat \<Rightarrow> (line_char \<times> bool) list \<Rightarrow> nat option" where
  "enclosing_scan goal other depth [] = None"
| "enclosing_scan goal other depth ((c, counts) # cs) =
     (if c = other \<and> counts then map_option Suc (enclosing_scan goal other (depth + 1) cs)
      else if c = goal then
        if depth = 0 then Some 0 else map_option Suc (enclosing_scan goal other (depth - 1) cs)
      else map_option Suc (enclosing_scan goal other depth cs))"

definition bracketObject :: "line \<Rightarrow> nat \<Rightarrow> line_char \<Rightarrow> bool \<Rightarrow> text_range option" where
  "bracketObject line offset opener around =
     (case omap_get PAIRS opener of
        None \<Rightarrow> None
      | Some closer \<Rightarrow>
          let m = min (offset + 1) (length line)
          in case enclosing_scan opener closer 0 (rev (map (\<lambda>i. (line ! i, i \<noteq> offset)) [0 ..< m])) of
               None \<Rightarrow> None
             | Some k \<Rightarrow>
                 let start = m - 1 - k
                 in case enclosing_scan closer opener 0 (map (\<lambda>c. (c, True)) (drop (start + 1) line)) of
                      None \<Rightarrow> None
                    | Some j \<Rightarrow>
                        let stop = start + 1 + j
                        in Some (if around then \<lparr>tr_from = start, tr_to = stop + 1\<rparr>
                             else \<lparr>tr_from = start + 1, tr_to = stop\<rparr>))"

section \<open>Case, numbers and the word under the cursor\<close>

text \<open>\<open>toUpperCase\<close> leaves the first 256 code units for some of them, so it is a parameter.\<close>

definition swapCase :: "(char \<Rightarrow> line) \<Rightarrow> line \<Rightarrow> line" where
  "swapCase upper line =
     concat (map (\<lambda>c. case c of
        ObjectCharacter \<Rightarrow> [ObjectCharacter]
      | Ch c \<Rightarrow> if c = lower_char c then upper c else [Ch (lower_char c)]) line)"

definition digit_at :: "line \<Rightarrow> nat \<Rightarrow> bool" where
  "digit_at line i = (case char_at line i of Some (Ch c) \<Rightarrow> is_digit c | _ \<Rightarrow> False)"

record number_target =
  nt_from :: nat
  nt_to :: nat
  nt_value :: int

text \<open>\<open>Number(text.slice(from, to))\<close> of digits after an optional minus sign.\<close>

definition char_of_line :: "line_char \<Rightarrow> char" where
  "char_of_line c = (case c of Ch c \<Rightarrow> c | ObjectCharacter \<Rightarrow> CHR ''?'')"

definition number_value :: "line \<Rightarrow> int" where
  "number_value digits =
     (if digits \<noteq> [] \<and> hd digits = Ch CHR ''-'' then - int (digits_value (map char_of_line (tl digits)))
      else int (digits_value (map char_of_line digits)))"

text \<open>One match of \<open>/-?\d+/g\<close> pos or after \<open>pos\<close>.\<close>

definition number_starts :: "line \<Rightarrow> nat \<Rightarrow> bool" where
  "number_starts line i \<longleftrightarrow> digit_at line i \<or> char_at line i = Some (Ch CHR ''-'') \<and> digit_at line (i + 1)"

definition next_number :: "line \<Rightarrow> nat \<Rightarrow> (nat \<times> nat) option" where
  "next_number line pos =
     (let index = scan_up (\<lambda>i. \<not> number_starts line i) (length line) pos
      in if length line \<le> index then None
         else Some (index, scan_up (digit_at line) (length line) (index + 1)))"

lemma next_number_moves: "next_number line pos = Some (a, b) \<Longrightarrow> pos < b \<and> b \<le> length line \<and> pos \<le> a \<and> a < b"
  using scan_up_ge [of pos "\<lambda>i. \<not> number_starts line i" "length line"]
    scan_up_ge [of "scan_up (\<lambda>i. \<not> number_starts line i) (length line) pos + 1" "digit_at line" "length line"]
    scan_up_le [of "scan_up (\<lambda>i. \<not> number_starts line i) (length line) pos + 1" "length line" "digit_at line"]
  by (auto simp: next_number_def Let_def split: if_splits)

function number_loop :: "line \<Rightarrow> nat \<Rightarrow> nat \<Rightarrow> number_target option" where
  "number_loop line offset pos =
     (case next_number line pos of
        None \<Rightarrow> None
      | Some (a, b) \<Rightarrow>
          if offset < b then
            let signAttached = (line ! a = Ch CHR ''-'' \<and> 0 < a \<and> classAt line (a - 1) False = Word);
                start = (if signAttached then a + 1 else a)
            in Some \<lparr>nt_from = start, nt_to = b, nt_value = number_value (drop start (take b line))\<rparr>
          else number_loop line offset b)"
  by pat_completeness auto

termination number_loop
  by (relation "measure (\<lambda>(line, offset, pos). length line - pos)") (auto dest!: next_number_moves)

declare number_loop.simps [simp del]

definition numberAtOrAfter :: "line \<Rightarrow> nat \<Rightarrow> number_target option" where
  "numberAtOrAfter line offset = number_loop line offset 0"

definition wordUnderCursor :: "line \<Rightarrow> nat \<Rightarrow> text_range option" where
  "wordUnderCursor line offset =
     (let word = (\<lambda>i. classAt line i False = Word);
          pos = scan_up (\<lambda>i. \<not> word i) (length line) offset
      in if length line \<le> pos then None
         else Some \<lparr>tr_from = scan_down word pos, tr_to = scan_up word (length line) (pos + 1)\<rparr>)"

end
