(* ===== verification/Vim_Parser.thy ===== *)
theory Vim_Parser
  imports Vim_Text
begin

text \<open>
  The incremental parser of Vim's normal and visual mode
  (\<open>src/apps/workspace/src/features/editor/vim/parser.ts\<close>). The plugin parses its whole key buffer
  again after every key; a key is its name, such as \<open>d\<close> or \<open><Esc>\<close>. Reading \<open>keys[at]\<close> past the end
  is \<open>None\<close>.
\<close>

section \<open>Commands\<close>

type_synonym key = string

datatype vim_operator = Delete | Change | Yank | Indent | Outdent | SwapCase | LowerCase | UpperCase

datatype vim_motion =
    SimpleMotion key
  | FindMotion find_kind key
  | SearchMotion string bool
  | TextObject bool key

datatype vim_command =
    MotionCommand vim_motion "nat option"
  | OperatorCommand vim_operator "vim_motion option" "nat option" "key option"
  | ActionCommand string "nat option" "key option" "key option"

datatype parse_result = Pending | InvalidKeys | Prompt string | Complete vim_command

datatype vim_mode = NormalMode | VisualMode

record parse_context =
  pc_mode :: vim_mode
  pc_recording :: bool

datatype motion_parse = MotionPending | MotionInvalid | MotionPrompt string | MotionComplete vim_motion nat

definition SIMPLE_MOTIONS :: "key list" where
  "SIMPLE_MOTIONS = [''h'', ''j'', ''k'', ''l'', ''w'', ''W'', ''b'', ''B'', ''e'', ''E'', ''0'', ''^'', ''$'', ''G'', ''{'', ''}'', ''%'', ''|'',
     ''+'', ''-'', ''_'', ''n'', ''N'', ''*'', ''#'', '';'', '','', ''<CR>'', ''<BS>'', ''<Space>'', ''<Left>'', ''<Right>'', ''<Up>'', ''<Down>'',
     ''<Home>'', ''<End>'', ''<C-d>'', ''<C-u>'', ''<C-f>'', ''<C-b>'', ''<PageUp>'', ''<PageDown>'']"

definition G_MOTIONS :: "key list" where
  "G_MOTIONS = [''g'', ''e'', ''E'', ''j'', ''k'', ''_'', ''0'', ''$'']"

definition FIND_KEYS :: "(key, find_kind) omap" where
  "FIND_KEYS = [(''f'', FindF), (''F'', FindBigF), (''t'', FindT), (''T'', FindBigT)]"

definition TEXT_OBJECTS :: "key list" where
  "TEXT_OBJECTS = [''w'', ''W'', ''p'', [CHR 0x22], [CHR 0x27], [CHR 0x60], ''('', '')'', ''b'', ''['', '']'', ''{'', ''}'', ''B'', ''<'', ''>'']"

definition NORMAL_ACTIONS :: "key list" where
  "NORMAL_ACTIONS = [''i'', ''I'', ''a'', ''A'', ''o'', ''O'', ''x'', ''X'', ''s'', ''S'', ''D'', ''C'', ''Y'', ''p'', ''P'', ''J'', ''u'', ''<C-r>'',
     ''~'', ''.'', ''v'', ''V'', ''<Esc>'', ''<C-a>'', ''<C-x>'', ''<Del>'', ''&'']"

definition VISUAL_ACTIONS :: "key list" where
  "VISUAL_ACTIONS = [''d'', ''x'', ''<Del>'', ''c'', ''s'', ''y'', ''D'', ''X'', ''C'', ''S'', ''R'', ''Y'', ''>'', ''<'', ''~'', ''u'', ''U'', ''J'',
     ''p'', ''P'', ''o'', ''O'', ''v'', ''V'', ''<Esc>'', ''I'', ''A'']"

definition letter_or_digit :: "char \<Rightarrow> bool" where
  "letter_or_digit c \<longleftrightarrow> (CHR ''a'' \<le> c \<and> c \<le> CHR ''z'') \<or> (CHR ''A'' \<le> c \<and> c \<le> CHR ''Z'') \<or> is_digit c"

definition one_of :: "(char \<Rightarrow> bool) \<Rightarrow> key \<Rightarrow> bool" where
  "one_of P key = (case key of [c] \<Rightarrow> P c | _ \<Rightarrow> False)"

definition REGISTER_NAMES :: "key \<Rightarrow> bool" where
  "REGISTER_NAMES = one_of (\<lambda>c. letter_or_digit c \<or> c \<in> set [CHR 0x22, CHR ''+'', CHR ''*'', CHR ''_'', CHR ''-''])"

definition key_at :: "key list \<Rightarrow> nat \<Rightarrow> key option" where
  "key_at keys i = (if i < length keys then Some (keys ! i) else None)"

section \<open>Counts\<close>

definition isCountDigit :: "key \<Rightarrow> bool \<Rightarrow> bool" where
  "isCountDigit key isFirst \<longleftrightarrow> one_of is_digit key \<and> \<not> (isFirst \<and> key = ''0'')"

function read_digits :: "key list \<Rightarrow> nat \<Rightarrow> string \<Rightarrow> string \<times> nat" where
  "read_digits keys index digits =
     (if index < length keys \<and> isCountDigit (keys ! index) (digits = [])
      then read_digits keys (index + 1) (digits @ keys ! index) else (digits, index))"
  by pat_completeness auto

termination read_digits by (relation "measure (\<lambda>(keys, index, digits). length keys - index)") auto

declare read_digits.simps [simp del]

definition readCount :: "key list \<Rightarrow> nat \<Rightarrow> nat option \<times> nat" where
  "readCount keys start =
     (let (digits, index) = read_digits keys start []
      in (if digits \<noteq> [] then Some (digits_value digits) else None, index))"

definition combineCounts :: "nat option \<Rightarrow> nat option \<Rightarrow> nat option" where
  "combineCounts a b =
     (if a = None \<and> b = None then None
      else Some ((case a of Some n \<Rightarrow> n | None \<Rightarrow> 1) * (case b of Some n \<Rightarrow> n | None \<Rightarrow> 1)))"

section \<open>Motions and operators\<close>

definition parseMotion :: "key list \<Rightarrow> nat \<Rightarrow> bool \<Rightarrow> motion_parse" where
  "parseMotion keys i allowTextObjects =
     (case key_at keys i of
        None \<Rightarrow> MotionPending
      | Some key \<Rightarrow>
          if key \<in> set SIMPLE_MOTIONS then MotionComplete (SimpleMotion key) (i + 1)
          else if key = ''g'' then
            (case key_at keys (i + 1) of
               None \<Rightarrow> MotionPending
             | Some second \<Rightarrow>
                 if second \<in> set G_MOTIONS then MotionComplete (SimpleMotion (''g'' @ second)) (i + 2) else MotionInvalid)
          else
            (case omap_get FIND_KEYS key of
               Some kind \<Rightarrow>
                 (case key_at keys (i + 1) of
                    None \<Rightarrow> MotionPending
                  | Some character \<Rightarrow>
                      if length character \<noteq> 1 \<and> character \<noteq> ''<Space>'' then MotionInvalid
                      else MotionComplete (FindMotion kind (if character = ''<Space>'' then '' '' else character)) (i + 2))
             | None \<Rightarrow>
                 if key = ''/'' \<or> key = ''?'' then MotionPrompt key
                 else if startsWith key ''<search:'' then
                   MotionComplete (SearchMotion (drop 9 (take (length key - 1) key)) (take 1 (drop 8 key) = ''?'')) (i + 1)
                 else if allowTextObjects \<and> (key = ''i'' \<or> key = ''a'') then
                   (case key_at keys (i + 1) of
                      None \<Rightarrow> MotionPending
                    | Some object \<Rightarrow>
                        if object \<in> set TEXT_OBJECTS then MotionComplete (TextObject (key = ''a'') object) (i + 2)
                        else MotionInvalid)
                 else MotionInvalid))"

datatype operator_parse = OperatorPending | NoOperator | OperatorAt vim_operator nat

definition plain_operator :: "key \<Rightarrow> vim_operator option" where
  "plain_operator key = omap_get
     [(''d'', Delete), (''c'', Change), (''y'', Yank), (''>'', Indent), (''<'', Outdent)] key"

definition g_operator :: "key \<Rightarrow> vim_operator option" where
  "g_operator second = omap_get [(''~'', SwapCase), (''u'', LowerCase), (''U'', UpperCase)] second"

text \<open>The text of an operator in the code, whose last character doubles it.\<close>

fun operator_text :: "vim_operator \<Rightarrow> key" where
  "operator_text Delete = ''d''"
| "operator_text Change = ''c''"
| "operator_text Yank = ''y''"
| "operator_text Indent = ''>''"
| "operator_text Outdent = ''<''"
| "operator_text SwapCase = ''g~''"
| "operator_text LowerCase = ''gu''"
| "operator_text UpperCase = ''gU''"

definition readOperator :: "key list \<Rightarrow> nat \<Rightarrow> operator_parse" where
  "readOperator keys i =
     (case key_at keys i of
        None \<Rightarrow> OperatorPending
      | Some key \<Rightarrow>
          (case plain_operator key of
             Some operator \<Rightarrow> OperatorAt operator (i + 1)
           | None \<Rightarrow>
               if key = ''g'' then
                 (case key_at keys (i + 1) of
                    None \<Rightarrow> OperatorPending
                  | Some second \<Rightarrow>
                      (case g_operator second of Some operator \<Rightarrow> OperatorAt operator (i + 2) | None \<Rightarrow> NoOperator))
               else NoOperator))"

datatype doubled_parse = DoubledPending | NotDoubled | DoubledAt nat

definition doubledOperatorEnd :: "vim_operator \<Rightarrow> key list \<Rightarrow> nat \<Rightarrow> doubled_parse" where
  "doubledOperatorEnd operator keys i =
     (case key_at keys i of
        None \<Rightarrow> DoubledPending
      | Some key \<Rightarrow>
          let name = operator_text operator
          in if length name = 1 then if key = name then DoubledAt (i + 1) else NotDoubled
             else
               let suffix = take 1 (drop 1 name)
               in if key = suffix then DoubledAt (i + 1)
                  else if key = ''g'' then
                    (case key_at keys (i + 1) of
                       None \<Rightarrow> DoubledPending
                     | Some second \<Rightarrow> if second = suffix then DoubledAt (i + 2) else NotDoubled)
                  else NotDoubled)"

section \<open>The two modes\<close>

text \<open>\<open>motion.next !== keys.length\<close> and the statuses before it, for a motion that ends the keys.\<close>

definition finish_motion :: "key list \<Rightarrow> motion_parse \<Rightarrow> (vim_motion \<Rightarrow> vim_command) \<Rightarrow> parse_result" where
  "finish_motion keys motion build =
     (case motion of
        MotionPending \<Rightarrow> Pending
      | MotionInvalid \<Rightarrow> InvalidKeys
      | MotionPrompt prefix \<Rightarrow> Prompt prefix
      | MotionComplete m after \<Rightarrow> if after \<noteq> length keys then InvalidKeys else Complete (build m))"

text \<open>A command of one key and a second one: pending without it, invalid when more keys follow.\<close>

definition with_second :: "key list \<Rightarrow> nat \<Rightarrow> (key \<Rightarrow> vim_command option) \<Rightarrow> parse_result" where
  "with_second keys i command =
     (case key_at keys (i + 1) of
        None \<Rightarrow> Pending
      | Some second \<Rightarrow>
          if i + 2 \<noteq> length keys then InvalidKeys
          else (case command second of Some c \<Rightarrow> Complete c | None \<Rightarrow> InvalidKeys))"

text \<open>\<open>replace\<close>, \<open>startRecording\<close> and \<open>playMacro\<close> look at the second key first and at the length after;
  both answers are invalid.\<close>

definition replace_command :: "bool \<Rightarrow> nat option \<Rightarrow> key option \<Rightarrow> key \<Rightarrow> vim_command option" where
  "replace_command allowReturn count register character =
     (if length character \<noteq> 1 \<and> character \<noteq> ''<Space>'' \<and> \<not> (allowReturn \<and> character = ''<CR>'') then None
      else Some (ActionCommand ''replace'' count register
        (Some (if character = ''<Space>'' then '' '' else if allowReturn \<and> character = ''<CR>'' then [CHR 0x0A] else character))))"

definition named_action :: "string \<Rightarrow> key list \<Rightarrow> nat option \<Rightarrow> key option \<Rightarrow> key \<Rightarrow> vim_command option" where
  "named_action prefix seconds count register second =
     (if second \<in> set seconds then Some (ActionCommand (prefix @ second) count register None) else None)"

definition g_command :: "key list \<Rightarrow> nat option \<Rightarrow> key option \<Rightarrow> key \<Rightarrow> vim_command option" where
  "g_command actions count register second =
     (if second \<in> set G_MOTIONS then Some (MotionCommand (SimpleMotion (''g'' @ second)) count)
      else named_action ''g'' actions count register second)"

definition operator_rest ::
  "key list \<Rightarrow> vim_operator \<Rightarrow> nat \<Rightarrow> nat option \<Rightarrow> key option \<Rightarrow> parse_result" where
  "operator_rest keys operator start count register =
     (let (innerCount, after) = readCount keys start
      in case doubledOperatorEnd operator keys after of
           DoubledPending \<Rightarrow> Pending
         | DoubledAt doubled \<Rightarrow>
             if doubled \<noteq> length keys then InvalidKeys
             else Complete (OperatorCommand operator None (combineCounts count innerCount) register)
         | NotDoubled \<Rightarrow>
             finish_motion keys (parseMotion keys after True)
               (\<lambda>m. OperatorCommand operator (Some m) (combineCounts count innerCount) register))"

definition parseNormal ::
  "key list \<Rightarrow> nat \<Rightarrow> nat option \<Rightarrow> key option \<Rightarrow> parse_context \<Rightarrow> parse_result" where
  "parseNormal keys i count register ctx =
     (case key_at keys i of
        None \<Rightarrow> Pending
      | Some key \<Rightarrow>
          if key = '':'' then Prompt '':''
          else
            (case readOperator keys i of
               OperatorPending \<Rightarrow> Pending
             | OperatorAt operator start \<Rightarrow> operator_rest keys operator start count register
             | NoOperator \<Rightarrow>
                 if key = ''r'' then with_second keys i (replace_command True count register)
                 else if key = ''q'' then
                   if pc_recording ctx then
                     if i + 1 = length keys then Complete (ActionCommand ''stopRecording'' count register None) else InvalidKeys
                   else with_second keys i (\<lambda>name.
                     if one_of letter_or_digit name then Some (ActionCommand ''startRecording'' count register (Some name)) else None)
                 else if key = ''@'' then
                   with_second keys i (\<lambda>name.
                     if one_of (\<lambda>c. letter_or_digit c \<or> c = CHR ''@'') name
                     then Some (ActionCommand ''playMacro'' count register (Some name)) else None)
                 else if key = ''g'' then with_second keys i (g_command [''v'', ''J'', ''p'', ''P'', ''i''] count register)
                 else if key = ''z'' then
                   with_second keys i (named_action ''z'' [''z'', ''t'', ''b'', ''.'', ''<CR>'', ''-''] count register)
                 else if key = ''Z'' then with_second keys i (named_action ''Z'' [''Z''] count register)
                 else if key \<in> set NORMAL_ACTIONS then
                   if i + 1 \<noteq> length keys then InvalidKeys else Complete (ActionCommand key count register None)
                 else finish_motion keys (parseMotion keys i False) (\<lambda>m. MotionCommand m count)))"

definition parseVisual :: "key list \<Rightarrow> nat \<Rightarrow> nat option \<Rightarrow> key option \<Rightarrow> parse_result" where
  "parseVisual keys i count register =
     (case key_at keys i of
        None \<Rightarrow> Pending
      | Some key \<Rightarrow>
          if key = '':'' then Prompt '':''
          else if key = ''r'' then with_second keys i (replace_command False count register)
          else if key = ''g'' then with_second keys i (g_command [''~'', ''u'', ''U'', ''v'', ''J''] count register)
          else if key = ''z'' then with_second keys i (named_action ''z'' [''z'', ''t'', ''b''] count register)
          else if key \<in> set VISUAL_ACTIONS then
            if i + 1 \<noteq> length keys then InvalidKeys else Complete (ActionCommand key count register None)
          else finish_motion keys (parseMotion keys i True) (\<lambda>m. MotionCommand m count))"

definition parse_counted :: "key list \<Rightarrow> nat \<Rightarrow> key option \<Rightarrow> parse_context \<Rightarrow> parse_result" where
  "parse_counted keys i register ctx =
     (let (count, after) = readCount keys i
      in if length keys \<le> after then Pending
         else if pc_mode ctx = VisualMode then parseVisual keys after count register
         else parseNormal keys after count register ctx)"

definition parseVimKeys :: "key list \<Rightarrow> parse_context \<Rightarrow> parse_result" where
  "parseVimKeys keys ctx =
     (if key_at keys 0 = Some [CHR 0x22] then
        (case key_at keys 1 of
           None \<Rightarrow> Pending
         | Some name \<Rightarrow> if REGISTER_NAMES name then parse_counted keys 2 (Some name) ctx else InvalidKeys)
      else parse_counted keys 0 None ctx)"

text \<open>The pending keys as the status line shows them; the sign for a space is a parameter.\<close>

definition describePendingKeys :: "string \<Rightarrow> key list \<Rightarrow> string" where
  "describePendingKeys spaceSign keys = concat (map (\<lambda>key. if key = ''<Space>'' then spaceSign else key) keys)"

end
