(* ===== verification/Vim_Theorems.thy ===== *)
theory Vim_Theorems
  imports Vim_Parser
begin

text \<open>
  The word motions of \<open>Vim_Text\<close> are searches for the nearest start or end of a word, and matching a
  bracket twice comes back. The parser answers a buffer that is parsed again after every key: no
  beginning of a finished command is finished or rejected, and no pending buffer is a dead end.
\<close>

section \<open>Searches\<close>

lemma find_upt:
  assumes "a \<le> j" and "j < b" and "Q j" and "\<And>k. a \<le> k \<Longrightarrow> k < j \<Longrightarrow> \<not> Q k"
  shows "find Q [a ..< b] = Some j"
  using assms unfolding find_Some_iff by (intro exI [of _ "j - a"]) auto

lemma find_down:
  assumes "j < b" and "Q j" and "\<And>k. j < k \<Longrightarrow> k < b \<Longrightarrow> \<not> Q k"
  shows "find Q (rev [0 ..< b]) = Some j"
  using assms unfolding find_Some_iff by (intro exI [of _ "b - 1 - j"]) (auto simp: rev_nth)

lemma find_upt_None: "(\<And>k. a \<le> k \<Longrightarrow> k < b \<Longrightarrow> \<not> Q k) \<Longrightarrow> find Q [a ..< b] = None"
  by (auto simp: find_None_iff)

lemma find_down_None: "(\<And>k. k < b \<Longrightarrow> \<not> Q k) \<Longrightarrow> find Q (rev [0 ..< b]) = None"
  by (auto simp: find_None_iff)

section \<open>Word motions\<close>

text \<open>A word starts at a character that does not continue the word of the one before it, and ends at
  one the next character does not continue.\<close>

definition word_start :: "line \<Rightarrow> bool \<Rightarrow> nat \<Rightarrow> bool" where
  "word_start line bigWord i \<longleftrightarrow>
     i < length line \<and> classAt line i bigWord \<noteq> Blank \<and>
     (i = 0 \<or> \<not> sameWord (classAt line (i - 1) bigWord) (classAt line i bigWord))"

definition word_end :: "line \<Rightarrow> bool \<Rightarrow> nat \<Rightarrow> bool" where
  "word_end line bigWord i \<longleftrightarrow>
     i < length line \<and> classAt line i bigWord \<noteq> Blank \<and>
     \<not> sameWord (classAt line i bigWord) (classAt line (i + 1) bigWord)"

lemma same_iff [simp]:
  "sameWord Blank c = False" "sameWord ObjectClass c = False" "sameWord c Blank = False" "sameWord c ObjectClass = False"
  by (auto simp: sameWord_def)

lemma class_past: "length line \<le> i \<Longrightarrow> classAt line i bigWord = Blank"
  by (simp add: classAt_def char_at_def)

lemma nextWordStart_search:
  "nextWordStart line offset bigWord = find (word_start line bigWord) [offset + 1 ..< length line]"
proof (cases "offset < length line")
  case True
  let ?n = "length line" and ?c = "\<lambda>i. classAt line i bigWord"
  let ?start = "?c offset"
  define index where "index = (if ?start = ObjectClass then offset + 1
    else if ?start \<noteq> Blank then scan_up (\<lambda>i. sameWord (?c i) ?start) ?n offset else offset)"
  define j where "j = scan_up (\<lambda>i. ?c i = Blank) ?n index"
  have r: "nextWordStart line offset bigWord = (if j < ?n then Some j else None)"
    using True by (simp add: nextWordStart_def Let_def index_def j_def)
  have i: "offset \<le> index" "index \<le> ?n" using True scan_up by (auto simp: index_def)
  have word: "?c k = ?start \<and> sameWord ?start ?start" if "offset \<le> k" "k < index" "?start \<noteq> ObjectClass" for k
    using that scan_up_inside [of offset k "\<lambda>i. sameWord (?c i) ?start" ?n]
    by (auto simp: index_def sameWord_def split: if_splits)
  have obj: "?start = ObjectClass \<Longrightarrow> index = offset + 1" by (simp add: index_def)
  have blank: "?c k = Blank" if "index \<le> k" "k < j" for k using that scan_up_inside [of index k _ ?n] by (auto simp: j_def)
  have ij: "index \<le> j" using scan_up by (simp add: j_def)
  have none: "\<not> word_start line bigWord k" if k: "offset + 1 \<le> k" "k < j" for k
  proof (cases "k < index")
    case True
    then have "?start \<noteq> ObjectClass" using obj k by auto
    with word [of k] word [of "k - 1"] True k show ?thesis by (auto simp: word_start_def)
  next
    case False
    with blank k show ?thesis by (simp add: word_start_def)
  qed
  show ?thesis
  proof (cases "j < ?n")
    case jn: True
    have "?c j \<noteq> Blank" using scan_up_stop jn by (auto simp: j_def)
    have "offset < j"
    proof (rule ccontr)
      assume "\<not> offset < j"
      then have j: "j = offset" "index = offset" using ij i by auto
      then have "?start \<noteq> ObjectClass" "?start \<noteq> Blank" using obj \<open>?c j \<noteq> Blank\<close> by auto
      with j(2) scan_up_stop [of "\<lambda>i. sameWord (?c i) ?start" ?n offset] True show False
        by (simp add: index_def sameWord_def)
    qed
    moreover have "\<not> sameWord (?c (j - 1)) (?c j)"
    proof (cases "index < j")
      case True
      then show ?thesis using blank [of "j - 1"] by simp
    next
      case False
      then have "index = j" using ij by simp
      with \<open>offset < j\<close> have "?start \<noteq> Blank" by (auto simp: index_def split: if_splits)
      show ?thesis
      proof (cases "?start = ObjectClass")
        case True
        with obj \<open>index = j\<close> show ?thesis by auto
      next
        case False
        then have "\<not> sameWord (?c j) ?start"
          using scan_up_stop [of "\<lambda>i. sameWord (?c i) ?start" ?n offset] \<open>index = j\<close> jn \<open>?start \<noteq> Blank\<close> by (simp add: index_def)
        moreover have "?c (j - 1) = ?start" using word [of "j - 1"] False \<open>index = j\<close> \<open>offset < j\<close> by auto
        ultimately show ?thesis by (auto simp: sameWord_def)
      qed
    qed
    ultimately have "word_start line bigWord j" using jn \<open>?c j \<noteq> Blank\<close> by (simp add: word_start_def)
    with none jn \<open>offset < j\<close> show ?thesis unfolding r by (auto intro!: find_upt [symmetric])
  next
    case False
    with none show ?thesis unfolding r by (auto intro!: find_upt_None [symmetric])
  qed
qed (simp add: nextWordStart_def)

lemma wordEnd_search:
  "wordEnd line offset bigWord = find (word_end line bigWord) [offset + 1 ..< length line]"
proof -
  let ?n = "length line" and ?c = "\<lambda>i. classAt line i bigWord"
  define i where "i = scan_up (\<lambda>i. ?c i = Blank) ?n (offset + 1)"
  have blank: "?c k = Blank" if "offset + 1 \<le> k" "k < i" for k
    using that scan_up_inside [of "offset + 1" k _ ?n] by (auto simp: i_def)
  have oi: "offset + 1 \<le> i" using scan_up_ge by (simp only: i_def)
  show ?thesis
  proof (cases "i < ?n")
    case True
    have nb: "?c i \<noteq> Blank" using scan_up_stop True by (auto simp: i_def)
    define j where "j = (if ?c i = ObjectClass then i else scan_up (\<lambda>k. sameWord (?c (k + 1)) (?c i)) (?n - 1) i)"
    have r: "wordEnd line offset bigWord = Some j"
      unfolding wordEnd_def Let_def i_def [symmetric] j_def using True by simp
    have "i \<le> ?n - 1" using True by simp
    from scan_up_le [OF this] have "j \<le> ?n - 1" using \<open>i \<le> ?n - 1\<close> by (simp add: j_def)
    then have j: "i \<le> j" "j < ?n" using scan_up_ge True by (auto simp: j_def)
    have word: "sameWord (?c (k + 1)) (?c i)" if "i \<le> k" "k < j" for k
      using that scan_up_inside [of i k "\<lambda>k. sameWord (?c (k + 1)) (?c i)" "?n - 1"] by (auto simp: j_def split: if_splits)
    have inside: "?c k = ?c i" if "i \<le> k" "k \<le> j" for k
      using that word [of "k - 1"] by (cases "k = i") (auto simp: sameWord_def)
    have "\<not> sameWord (?c j) (?c (j + 1))"
    proof (cases "?c i = ObjectClass \<or> j = ?n - 1")
      case True
      then show ?thesis using inside [of j] j class_past [of line "j + 1"] by auto
    next
      case False
      then have "j < ?n - 1" "?c i \<noteq> ObjectClass" using j by auto
      then have "\<not> sameWord (?c (j + 1)) (?c i)"
        using scan_up_stop [of "\<lambda>k. sameWord (?c (k + 1)) (?c i)" "?n - 1" i] by (simp add: j_def)
      with inside [of j] j show ?thesis by (auto simp: sameWord_def)
    qed
    then have "word_end line bigWord j" using inside [of j] j nb by (simp add: word_end_def)
    moreover have "\<not> word_end line bigWord k" if "offset + 1 \<le> k" "k < j" for k
      using that blank [of k] word [of k] inside [of k] by (cases "k < i") (auto simp: word_end_def sameWord_def)
    ultimately show ?thesis unfolding r using j oi by (intro find_upt [symmetric]) auto
  next
    case False
    then have "wordEnd line offset bigWord = None" unfolding wordEnd_def Let_def i_def [symmetric] by simp
    moreover have "\<not> word_end line bigWord k" if "offset + 1 \<le> k" "k < ?n" for k
      using that blank [of k] False by (simp add: word_end_def)
    ultimately show ?thesis by (auto intro!: find_upt_None [symmetric])
  qed
qed

lemma previousWordStart_search:
  "previousWordStart line offset bigWord = find (word_start line bigWord) (rev [0 ..< min offset (length line)])"
proof -
  let ?m = "min offset (length line)" and ?c = "\<lambda>i. classAt line i bigWord"
  define i where "i = scan_down (\<lambda>i. ?c i = Blank) ?m"
  have blank: "?c k = Blank" if "i \<le> k" "k < ?m" for k using scan_down_inside [of _ ?m k] that by (simp add: i_def)
  have im: "i \<le> ?m" using scan_down_le by (simp only: i_def)
  show ?thesis
  proof (cases i)
    case 0
    then have "previousWordStart line offset bigWord = None" by (simp add: previousWordStart_def i_def [symmetric])
    moreover have "\<not> word_start line bigWord k" if "k < ?m" for k using that blank [of k] 0 by (simp add: word_start_def)
    ultimately show ?thesis by (auto intro!: find_down_None [symmetric])
  next
    case (Suc index)
    have nb: "?c index \<noteq> Blank" using scan_down_stop [of "\<lambda>i. ?c i = Blank" ?m] Suc by (simp add: i_def)
    define j where "j = (if ?c index = ObjectClass then index else scan_down (\<lambda>k. sameWord (?c k) (?c index)) index)"
    have r: "previousWordStart line offset bigWord = Some j"
      using Suc by (simp add: previousWordStart_def i_def [symmetric] Let_def j_def)
    have j: "j \<le> index" using scan_down_le by (simp add: j_def)
    have inside: "?c k = ?c index" if "j \<le> k" "k \<le> index" for k
      using that scan_down_inside [of "\<lambda>k. sameWord (?c k) (?c index)" index k]
      by (cases "k = index") (auto simp: j_def sameWord_def split: if_splits)
    have "j = 0 \<or> \<not> sameWord (?c (j - 1)) (?c j)"
      using scan_down_stop [of "\<lambda>k. sameWord (?c k) (?c index)" index] inside [of j] j
      by (cases "?c index = ObjectClass") (auto simp: j_def)
    then have "word_start line bigWord j" using inside [of j] j nb im Suc by (simp add: word_start_def)
    moreover have "\<not> word_start line bigWord k" if "j < k" "k < ?m" for k
    proof (cases "k \<le> index")
      case True
      then have "?c k = ?c index" "?c (k - 1) = ?c index" "?c index \<noteq> ObjectClass" 
        using that inside [of k] inside [of "k - 1"] by (auto simp: j_def split: if_splits)
      with nb that show ?thesis by (simp add: word_start_def sameWord_def)
    next
      case False
      with blank [of k] that Suc show ?thesis by (simp add: word_start_def)
    qed
    ultimately show ?thesis unfolding r using j im Suc by (intro find_down [symmetric]) auto
  qed
qed

lemma previousWordEnd_search:
  "previousWordEnd line offset bigWord = find (word_end line bigWord) (rev [0 ..< min offset (length line)])"
proof (cases "min offset (length line) = 0")
  case False
  let ?m = "min offset (length line)" and ?c = "\<lambda>i. classAt line i bigWord"
  define l where "l = (if ?c ?m \<noteq> Blank \<and> ?c ?m \<noteq> ObjectClass then scan_down (\<lambda>i. sameWord (?c i) (?c ?m)) ?m else ?m)"
  define i where "i = scan_down (\<lambda>i. ?c i = Blank) l"
  have r: "previousWordEnd line offset bigWord = (case i of 0 \<Rightarrow> None | Suc index \<Rightarrow> Some index)"
    using False by (simp add: previousWordEnd_def Let_def l_def i_def)
  have l: "l \<le> ?m" unfolding l_def by (simp only: scan_down_le order_refl simp_thms split: if_split)
  have word: "sameWord (?c k) (?c ?m)" if "l \<le> k" "k < ?m" for k
    using that scan_down_inside [of "\<lambda>i. sameWord (?c i) (?c ?m)" ?m k] by (auto simp: l_def split: if_splits)
  have blank: "?c k = Blank" if "i \<le> k" "k < l" for k using scan_down_inside [of _ l k] that by (simp add: i_def)
  have il: "i \<le> l" using scan_down_le by (simp only: i_def)
  have none: "\<not> word_end line bigWord k" if "i \<le> k" "k < ?m" for k
  proof (cases "k < l")
    case True
    with blank that show ?thesis by (simp add: word_end_def)
  next
    case False
    moreover have "k + 1 = ?m \<or> k + 1 < ?m" using that(2) by linarith
    ultimately have "sameWord (?c k) (?c (k + 1))"
      using word [of k] word [of "k + 1"] that by (cases "k + 1 = ?m") (auto simp: sameWord_def)
    then show ?thesis by (simp add: word_end_def)
  qed
  show ?thesis
  proof (cases i)
    case 0
    with none show ?thesis unfolding r by (auto intro!: find_down_None [symmetric])
  next
    case (Suc index)
    have nb: "?c index \<noteq> Blank" using scan_down_stop [of "\<lambda>i. ?c i = Blank" l] Suc by (simp add: i_def)
    have "\<not> sameWord (?c index) (?c (index + 1))"
    proof (cases "i < l")
      case True
      then show ?thesis using blank [of i] Suc by simp
    next
      case False
      then have il: "i = l" using il by simp
      show ?thesis
      proof (cases "l < ?m")
        case True
        then have "\<not> sameWord (?c index) (?c ?m)"
          using scan_down_stop [of "\<lambda>i. sameWord (?c i) (?c ?m)" ?m] Suc il by (auto simp: l_def split: if_splits)
        with word [of l] True Suc il show ?thesis by (auto simp: sameWord_def)
      next
        case False
        then have "l = ?m" using l by linarith
        have "\<not> sameWord (?c index) (?c ?m)"
        proof (cases "?c ?m = Blank \<or> ?c ?m = ObjectClass")
          case False
          with scan_down_stop [of "\<lambda>i. sameWord (?c i) (?c ?m)" ?m] \<open>l = ?m\<close> Suc il show ?thesis by (simp add: l_def)
        qed auto
        with Suc il \<open>l = ?m\<close> show ?thesis by simp
      qed
    qed
    then have "word_end line bigWord index" using nb Suc il l by (simp add: word_end_def)
    with none show ?thesis unfolding r Suc using il l Suc by (auto intro!: find_down [symmetric])
  qed
qed (simp add: previousWordEnd_def)

text \<open>C25. The word motions, loops over the classes of characters, find exactly the nearest position in their direction where a word starts or ends.\<close>

theorem word_motions_search:
  "nextWordStart line offset bigWord = find (word_start line bigWord) [offset + 1 ..< length line] \<and>
   wordEnd line offset bigWord = find (word_end line bigWord) [offset + 1 ..< length line] \<and>
   previousWordStart line offset bigWord = find (word_start line bigWord) (rev [0 ..< min offset (length line)]) \<and>
   previousWordEnd line offset bigWord = find (word_end line bigWord) (rev [0 ..< min offset (length line)])"
  by (intro conjI nextWordStart_search wordEnd_search previousWordStart_search previousWordEnd_search)

section \<open>Matching brackets\<close>

definition level :: "line_char \<Rightarrow> line_char \<Rightarrow> line \<Rightarrow> int" where
  "level up down cs = sum_list (map (\<lambda>c. if c = up then 1 else if c = down then -1 else 0) cs)"

lemma level_simps [simp]:
  "level up down [] = 0"
  "level up down (c # cs) = (if c = up then 1 else if c = down then -1 else 0) + level up down cs"
  "level up down (xs @ ys) = level up down xs + level up down ys"
  by (simp_all add: level_def)

lemma level_rev [simp]: "level up down (rev cs) = level up down cs"
  by (induction cs) simp_all

lemma level_swap: "up \<noteq> down \<Longrightarrow> level down up cs = - level up down cs"
  by (induction cs) auto

lemma balance_scan_iff:
  "balance_scan up down depth cs = Some k \<longleftrightarrow>
     k < length cs \<and> depth + level up down (take (Suc k) cs) = 0 \<and>
     (\<forall>j<k. depth + level up down (take (Suc j) cs) \<noteq> 0)"
proof (induction cs arbitrary: depth k)
  case (Cons c cs)
  let ?e = "if c = up then depth + 1 else if c = down then depth - 1 else depth"
  have e: "?e + x = depth + ((if c = up then 1 else if c = down then -1 else 0) + x)" for x by simp
  show ?case
  proof (cases "?e = 0")
    case True
    with e [of 0] show ?thesis by (cases k) (auto simp: Let_def)
  next
    case False
    have "balance_scan up down depth (c # cs) = map_option Suc (balance_scan up down ?e cs)" using False by (simp add: Let_def)
    moreover have "?e + level up down (take (Suc j) cs) = depth + level up down (take (Suc (Suc j)) (c # cs))" for j
      unfolding e by simp
    moreover have "depth + level up down (take (Suc 0) (c # cs)) \<noteq> 0" using False e [of 0] by simp
    ultimately show ?thesis using Cons.IH [of ?e] by (cases k) (auto simp del: level_simps simp: All_less_Suc2)
  qed
qed simp

text \<open>A first return to depth zero ends at the other bracket, and read from there backwards it is a first
  return again.\<close>

lemma first_return:
  assumes "up \<noteq> down" and "balance_scan up down 0 (up # cs) = Some k"
  shows "(up # cs) ! k = down \<and> balance_scan down up 0 (rev (take (Suc k) (up # cs)) @ rest) = Some k"
proof -
  let ?xs = "up # cs" and ?h = "\<lambda>j. level up down (take j (up # cs))"
  from assms(2) have k: "k < length ?xs" "?h (Suc k) = 0" "\<And>j. j < k \<Longrightarrow> ?h (Suc j) \<noteq> 0"
    unfolding balance_scan_iff by auto
  have step: "?h (Suc j) = ?h j + (if ?xs ! j = up then 1 else if ?xs ! j = down then -1 else 0)" if "j < length ?xs" for j
    using that by (subst take_Suc_conv_app_nth) auto
  have "k \<noteq> 0" using k(2) by (cases k) auto
  have pos: "0 < ?h (Suc j)" if "j < k" for j
    using that
  proof (induction j)
    case (Suc j)
    have "?h (Suc (Suc j)) = ?h (Suc j) + (if ?xs ! Suc j = up then 1 else if ?xs ! Suc j = down then -1 else 0)"
      using Suc.prems k(1) by (intro step) simp
    with Suc k(3) [of "Suc j"] show ?case by (simp split: if_splits)
  qed simp
  have final: "?xs ! k = down"
    using step [OF k(1)] k(2) pos [of "k - 1"] \<open>k \<noteq> 0\<close> by (simp split: if_splits)
  have mirror: "level down up (take (Suc m) (rev (take (Suc k) ?xs) @ rest)) = ?h (k - m)" if "m \<le> k" for m
  proof -
    define ss where "ss = take (Suc k) ?xs"
    have l: "length ss = Suc k" "level up down ss = 0" using k(1,2) by (simp_all add: ss_def min_def)
    then have "take (Suc m) (rev ss @ rest) = rev (drop (k - m) ss)" using that by (simp add: take_rev)
    moreover have "level up down ss = level up down (take (k - m) ss) + level up down (drop (k - m) ss)"
      by (metis append_take_drop_id level_simps(3))
    moreover have "take (k - m) ss = take (k - m) ?xs" unfolding ss_def take_take by (simp add: min_def)
    ultimately show ?thesis using level_swap [OF assms(1)] l by (simp add: ss_def)
  qed
  have ne: "?h (k - j) \<noteq> 0" if "j < k" for j
    using pos [of "k - Suc j"] that unfolding Suc_diff_Suc [OF that] by simp
  have "balance_scan down up 0 (rev (take (Suc k) ?xs) @ rest) = Some k"
    unfolding balance_scan_iff
  proof (intro conjI allI impI)
    show "k < length (rev (take (Suc k) ?xs) @ rest)" using k(1) by simp
    show "0 + level down up (take (Suc k) (rev (take (Suc k) ?xs) @ rest)) = 0"
      unfolding mirror [OF order_refl] by simp
    show "0 + level down up (take (Suc j) (rev (take (Suc k) ?xs) @ rest)) \<noteq> 0" if "j < k" for j
      unfolding mirror [OF less_imp_le [OF that]] add_0 using that by (rule ne)
  qed
  with final show ?thesis by (rule conjI)
qed

lemma bracket_stay:
  assumes "omap_has PAIRS (line ! i) \<or> omap_has CLOSERS (line ! i)"
  shows "scan_up (\<lambda>i. \<not> omap_has PAIRS (line ! i) \<and> \<not> omap_has CLOSERS (line ! i)) n i = i"
  using assms by (intro scan_up_here) blast

lemma match_open:
  assumes "i < length line" and "omap_get PAIRS (line ! i) = Some closer"
  shows "matchingBracket line i = map_option (\<lambda>k. i + k) (balance_scan (line ! i) closer 0 (drop i line))"
proof -
  have "omap_has PAIRS (line ! i) \<or> omap_has CLOSERS (line ! i)" using assms(2) by (simp add: omap_has_get)
  from bracket_stay [OF this] show ?thesis unfolding matchingBracket_def Let_def using assms by simp
qed

lemma match_close:
  assumes "i < length line" and "omap_get PAIRS (line ! i) = None" and "omap_get CLOSERS (line ! i) = Some opener"
  shows "matchingBracket line i = map_option (\<lambda>k. i - k) (balance_scan (line ! i) opener 0 (rev (take (Suc i) line)))"
proof -
  have "omap_has PAIRS (line ! i) \<or> omap_has CLOSERS (line ! i)" using assms(3) by (simp add: omap_has_get)
  from bracket_stay [OF this] show ?thesis unfolding matchingBracket_def Let_def using assms by simp
qed

lemma opened: "omap_get PAIRS c = Some d \<Longrightarrow> omap_get PAIRS d = None \<and> omap_get CLOSERS d = Some c \<and> c \<noteq> d"
  by (auto simp: PAIRS_def CLOSERS_def split: if_splits)

lemma shut: "omap_get CLOSERS d = Some c \<Longrightarrow> omap_get PAIRS c = Some d \<and> omap_get PAIRS d = None \<and> d \<noteq> c"
  by (auto simp: PAIRS_def CLOSERS_def split: if_splits)

lemma first_return_last:
  assumes "up \<noteq> down" and "balance_scan up down 0 (up # cs) = Some k"
  shows "k < Suc (length cs) \<and> 0 < k"
  using assms first_return [OF assms, of "[]"] by (cases k) (auto simp: balance_scan_iff)

theorem bracket_match_is_mutual:
  assumes "i < length line" and "omap_has PAIRS (line ! i) \<or> omap_has CLOSERS (line ! i)"
    and "matchingBracket line i = Some j"
  shows "j < length line \<and> matchingBracket line j = Some i \<and>
    (omap_get PAIRS (line ! i) = Some (line ! j) \<and> i < j \<or> omap_get CLOSERS (line ! i) = Some (line ! j) \<and> j < i)"
proof (cases "omap_get PAIRS (line ! i)")
  case (Some closer)
  note o = opened [OF Some]
  have d: "drop i line = line ! i # drop (Suc i) line" using assms(1) by (rule Cons_nth_drop_Suc [symmetric])
  from assms(3) obtain k where k: "balance_scan (line ! i) closer 0 (line ! i # drop (Suc i) line) = Some k" "j = i + k"
    unfolding match_open [OF assms(1) Some] d by auto
  have ne: "line ! i \<noteq> closer" using o by simp
  have kl: "j < length line" "i < j" using first_return_last [OF ne k(1)] assms(1) k(2) by auto
  from first_return [OF ne k(1), of "rev (take i line)"]
  have r: "drop i line ! k = closer"
      "balance_scan closer (line ! i) 0 (rev (take (Suc k) (drop i line)) @ rev (take i line)) = Some k"
    unfolding d by blast+
  have "rev (take (Suc k) (drop i line)) @ rev (take i line) = rev (take (Suc j) line)"
    using take_add [of i "Suc k" line] by (simp add: k(2))
  moreover have c: "line ! j = closer" using r(1) assms(1) by (simp add: k(2))
  ultimately have "matchingBracket line j = Some i"
    using r(2) k(2) match_close [OF kl(1), of "line ! i"] o by simp
  with kl c Some show ?thesis by simp
next
  case None
  with assms(2) obtain opener where o: "omap_get CLOSERS (line ! i) = Some opener" by (auto simp: omap_has_get)
  have d: "rev (take (Suc i) line) = line ! i # rev (take i line)" using assms(1) by (simp add: take_Suc_conv_app_nth)
  from assms(3) obtain k where k: "balance_scan (line ! i) opener 0 (line ! i # rev (take i line)) = Some k" "j = i - k"
    unfolding match_close [OF assms(1) None o] d by auto
  have ne: "line ! i \<noteq> opener" using shut [OF o] by simp
  have kl: "k \<le> i" "j < i" using first_return_last [OF ne k(1)] assms(1) k(2) by auto
  from first_return [OF ne k(1), of "drop (Suc i) line"]
  have r: "rev (take (Suc i) line) ! k = opener"
      "balance_scan opener (line ! i) 0 (rev (take (Suc k) (rev (take (Suc i) line))) @ drop (Suc i) line) = Some k"
    unfolding d by blast+
  have "rev (take (Suc k) (rev (take (Suc i) line))) = drop j (take (Suc i) line)"
    using assms(1) kl by (simp add: take_rev k(2))
  moreover have "drop j line = drop j (take (Suc i) line) @ drop (Suc i) line"
    using drop_append [of j "take (Suc i) line" "drop (Suc i) line"] kl assms(1) by simp
  moreover have c: "line ! j = opener" using r(1) kl assms(1) by (simp add: rev_nth k(2))
  ultimately have "matchingBracket line j = Some i"
    using r(2) k(2) kl assms(1) match_open [of j line "line ! i"] shut [OF o] by simp
  with kl c o assms(1) show ?thesis by simp
qed

theorem bracket_match_is_mutual_witness:
  "matchingBracket (map Ch ''(a(b)'') 4 = Some 2"
proof -
  have "matchingBracket (map Ch ''(a(b)'') 2 = Some 4" "omap_has PAIRS (map Ch ''(a(b)'' ! 2)" by code_simp+
  from bracket_match_is_mutual [of 2 "map Ch ''(a(b)''" 4] this show ?thesis by simp
qed

section \<open>Beginnings of a buffer\<close>

lemma key_at_take: "key_at (take n keys) i = (if i < n then key_at keys i else None)"
  by (simp add: key_at_def)

lemma key_at_Some: "key_at keys i = Some k \<longleftrightarrow> i < length keys \<and> keys ! i = k"
  by (auto simp: key_at_def)

lemma key_at_None: "key_at keys i = None \<longleftrightarrow> length keys \<le> i"
  by (auto simp: key_at_def)

lemma read_digits_end [simp]: "length keys \<le> i \<Longrightarrow> read_digits keys i digits = (digits, i)"
  by (simp add: read_digits.simps [of keys i digits])

lemma read_digits_take:
  "read_digits keys i digits = (ds, j) \<Longrightarrow>
     i \<le> j \<and> (j < n \<longrightarrow> read_digits (take n keys) i digits = (ds, j)) \<and>
     (i \<le> n \<longrightarrow> n \<le> j \<longrightarrow> n \<le> length keys \<longrightarrow> snd (read_digits (take n keys) i digits) = n)"
proof (induction keys i digits rule: read_digits.induct)
  case (1 keys i digits)
  show ?case
  proof (cases "i < length keys \<and> isCountDigit (keys ! i) (digits = [])")
    case True
    with 1 have IH: "Suc i \<le> j" "j < n \<longrightarrow> read_digits (take n keys) (i + 1) (digits @ keys ! i) = (ds, j)"
      "i + 1 \<le> n \<longrightarrow> n \<le> j \<longrightarrow> n \<le> length keys \<longrightarrow> snd (read_digits (take n keys) (i + 1) (digits @ keys ! i)) = n"
      by (auto simp: read_digits.simps [of keys i digits])
    show ?thesis
    proof (cases "i < n")
      case True
      with \<open>i < length keys \<and> _\<close> IH show ?thesis by (auto simp: read_digits.simps [of "take n keys" i digits])
    next
      case False
      with IH show ?thesis by (auto simp: read_digits.simps [of "take n keys" n digits])
    qed
  next
    case False
    with 1 have "ds = digits" "j = i" by (auto simp: read_digits.simps [of keys i digits])
    with False show ?thesis by (auto simp: read_digits.simps [of "take n keys" i digits])
  qed
qed

lemma readCount_take:
  assumes "readCount keys i = (count, j)" and "i \<le> n" and "n \<le> length keys"
  shows "i \<le> j \<and> (if j < n then readCount (take n keys) i = (count, j) else snd (readCount (take n keys) i) = n)"
proof -
  obtain ds where d: "read_digits keys i [] = (ds, j)" "count = (if ds \<noteq> [] then Some (digits_value ds) else None)"
    using assms(1) by (auto simp: readCount_def Let_def split: prod.splits)
  from read_digits_take [OF d(1), of n] assms(2,3) d(2) show ?thesis
    by (auto simp: readCount_def Let_def split: prod.splits)
qed

lemma motion_take:
  "parseMotion keys i allow = MotionComplete m (length keys) \<Longrightarrow> n < length keys \<Longrightarrow>
     parseMotion (take n keys) i allow = MotionPending"
  unfolding parseMotion_def key_at_take
  by (auto simp: key_at_Some key_at_None split: option.splits if_splits)

lemma finish_take:
  "finish_motion keys (parseMotion keys i allow) build = Complete c \<Longrightarrow> n < length keys \<Longrightarrow>
     finish_motion (take n keys) (parseMotion (take n keys) i allow) build' = Pending"
  using motion_take [of keys i allow _ n]
  by (auto simp: finish_motion_def split: motion_parse.splits if_splits)

lemma second_take:
  "with_second keys i f = Complete c \<Longrightarrow> n < length keys \<Longrightarrow> with_second (take n keys) i f' = Pending"
  by (auto simp: with_second_def key_at_take key_at_Some key_at_None split: option.splits if_splits)

lemma doubled_take:
  assumes "n < length keys"
  shows "(doubledOperatorEnd operator keys i = DoubledAt (length keys) \<longrightarrow> doubledOperatorEnd operator (take n keys) i = DoubledPending) \<and>
    (doubledOperatorEnd operator keys i = NotDoubled \<longrightarrow> doubledOperatorEnd operator (take n keys) i \<in> {DoubledPending, NotDoubled})"
  using assms unfolding doubledOperatorEnd_def key_at_take
  by (auto simp: Let_def key_at_Some key_at_None split: option.splits if_splits)

lemma operator_rest_take:
  assumes "operator_rest keys operator start count register = Complete c" and "n < length keys" and "start \<le> n"
  shows "operator_rest (take n keys) operator start count' register' = Pending"
proof -
  obtain inner after where r: "readCount keys start = (inner, after)" by (cases "readCount keys start")
  obtain inner' after' where r': "readCount (take n keys) start = (inner', after')" by (cases "readCount (take n keys) start")
  note t = readCount_take [OF r assms(3) less_imp_le [OF assms(2)]]
  show ?thesis
  proof (cases "after < n")
    case True
    with t r' have "after' = after" by simp
    with assms(1,2) doubled_take [OF assms(2), of operator after] r r' show ?thesis
      using finish_take [OF _ assms(2), of after True]
      by (auto simp: operator_rest_def split: doubled_parse.splits if_splits)
  next
    case False
    with t r' have "after' = n" by simp
    then have "doubledOperatorEnd operator (take n keys) after' = DoubledPending"
      by (simp add: doubledOperatorEnd_def key_at_take)
    with r' show ?thesis by (simp add: operator_rest_def)
  qed
qed

lemma operator_take:
  "readOperator keys i = OperatorAt operator start \<Longrightarrow>
     readOperator (take n keys) i = OperatorPending \<or> readOperator (take n keys) i = OperatorAt operator start \<and> start \<le> n"
  "readOperator keys i = NoOperator \<Longrightarrow> readOperator (take n keys) i \<in> {OperatorPending, NoOperator}"
  unfolding readOperator_def key_at_take by (auto simp: key_at_Some key_at_None split: option.splits if_splits)

lemma normal_take:
  assumes c: "parseNormal keys i count register ctx = Complete c" and n: "n < length keys"
  shows "parseNormal (take n keys) i count' register' ctx = Pending"
proof (cases "i < n")
  case True
  with n have k: "key_at (take n keys) i = Some (keys ! i)" "key_at keys i = Some (keys ! i)" by (simp_all add: key_at_def)
  show ?thesis
  proof (cases "readOperator keys i")
    case (OperatorAt operator start)
    with c k have "keys ! i \<noteq> '':''" "operator_rest keys operator start count register = Complete c"
      by (auto simp: parseNormal_def split: if_splits)
    with operator_take(1) [OF OperatorAt, of n] operator_rest_take [OF _ n] k show ?thesis by (auto simp: parseNormal_def)
  next
    case NoOperator
    have "i + 1 \<noteq> length keys" using True n by simp
    with operator_take(2) [OF NoOperator, of n] c k n NoOperator True show ?thesis
      using second_take [of keys i _ c n] finish_take [of keys i False _ c n]
      by (auto simp: parseNormal_def split: if_splits)
  qed (use c k in \<open>auto simp: parseNormal_def split: if_splits\<close>)
qed (simp add: parseNormal_def key_at_take)

lemma visual_take:
  assumes c: "parseVisual keys i count register = Complete c" and n: "n < length keys"
  shows "parseVisual (take n keys) i count' register' = Pending"
proof (cases "i < n")
  case True
  with n have k: "key_at (take n keys) i = Some (keys ! i)" "key_at keys i = Some (keys ! i)" by (simp_all add: key_at_def)
  have "i + 1 \<noteq> length keys" using True n by simp
  with c k n show ?thesis
    using second_take [of keys i _ c n] finish_take [of keys i True _ c n]
    by (auto simp: parseVisual_def split: if_splits)
qed (simp add: parseVisual_def key_at_take)

lemma counted_take:
  assumes c: "parse_counted keys i register ctx = Complete c" and n: "n < length keys" and i: "i \<le> n"
  shows "parse_counted (take n keys) i register' ctx = Pending"
proof -
  obtain count after where r: "readCount keys i = (count, after)" by (cases "readCount keys i")
  obtain count' after' where r': "readCount (take n keys) i = (count', after')" by (cases "readCount (take n keys) i")
  note t = readCount_take [OF r i less_imp_le [OF n]]
  show ?thesis
  proof (cases "after < n")
    case True
    with t r' have "after' = after" by simp
    with c n r r' True show ?thesis
      using normal_take [OF _ n] visual_take [OF _ n] by (auto simp: parse_counted_def split: if_splits)
  next
    case False
    with t r r' n show ?thesis by (auto simp: parse_counted_def)
  qed
qed

text \<open>C23. Every proper prefix of a complete command is pending, so a command typed key by key is neither rejected nor run early.\<close>

theorem commands_typed_key_by_key:
  assumes "parseVimKeys keys ctx = Complete c" and "n < length keys"
  shows "parseVimKeys (take n keys) ctx = Pending"
proof (cases "key_at keys 0 = Some [CHR 0x22]")
  case True
  with assms(1) obtain name where name: "key_at keys 1 = Some name" "REGISTER_NAMES name" "parse_counted keys 2 (Some name) ctx = Complete c"
    by (auto simp: parseVimKeys_def split: option.splits if_splits)
  consider "n = 0" | "n = 1" | "2 \<le> n" by linarith
  then show ?thesis
  proof cases
    case 1
    then show ?thesis by (simp add: parseVimKeys_def key_at_def parse_counted_def readCount_def read_digits.simps)
  next
    case 2
    with True show ?thesis by (simp add: parseVimKeys_def key_at_take)
  next
    case 3
    with True name counted_take [OF name(3) assms(2) 3] assms(2) show ?thesis by (auto simp: parseVimKeys_def key_at_take)
  qed
next
  case False
  with assms(1) have "parse_counted keys 0 None ctx = Complete c" by (simp add: parseVimKeys_def)
  from counted_take [OF this assms(2)] False show ?thesis by (auto simp: parseVimKeys_def key_at_take)
qed

theorem commands_typed_key_by_key_witness:
  "parseVimKeys [[CHR 0x22], ''a'', ''3'', ''d'', ''2'', ''i''] \<lparr>pc_mode = NormalMode, pc_recording = False\<rparr> = Pending"
proof -
  have "parseVimKeys [[CHR 0x22], ''a'', ''3'', ''d'', ''2'', ''i'', ''w''] \<lparr>pc_mode = NormalMode, pc_recording = False\<rparr> =
      Complete (OperatorCommand Delete (Some (TextObject False ''w'')) (Some 6) (Some ''a''))"
    by code_simp
  from commands_typed_key_by_key [OF this, of 6] show ?thesis by simp
qed

section \<open>No dead ends\<close>

lemma key_at_append: "key_at (keys @ ks) i = (if i < length keys then key_at keys i else key_at ks (i - length keys))"
  by (auto simp: key_at_def nth_append)

lemma read_digits_append:
  "i \<le> length keys \<Longrightarrow> \<not> one_of is_digit k \<Longrightarrow> read_digits (keys @ [k]) i digits = read_digits keys i digits"
proof (induction keys i digits rule: read_digits.induct)
  case (1 keys i digits)
  show ?case
  proof (cases "i < length keys \<and> isCountDigit (keys ! i) (digits = [])")
    case True
    with 1 show ?thesis
      by (simp add: read_digits.simps [of keys i digits] read_digits.simps [of "keys @ [k]" i digits] nth_append)
  next
    case False
    with 1 show ?thesis
      by (auto simp: read_digits.simps [of keys i digits] read_digits.simps [of "keys @ [k]" i digits] nth_append isCountDigit_def)
  qed
qed

lemma readCount_append:
  "i \<le> length keys \<Longrightarrow> \<not> one_of is_digit k \<Longrightarrow> readCount (keys @ [k]) i = readCount keys i"
  by (simp add: readCount_def read_digits_append)

lemma not_digit_keys [simp]:
  "\<not> one_of is_digit ''h''" "\<not> one_of is_digit ''g''" "\<not> one_of is_digit ''x''" "\<not> one_of is_digit ''w''"
  "\<not> one_of is_digit ''a''" "\<not> one_of is_digit ''z''" "\<not> one_of is_digit ''Z''"
  by (simp_all add: one_of_def is_digit_def less_eq_char_def)

lemma motion_ends:
  assumes "parseMotion keys i allow = MotionPending" and "i \<le> length keys"
  shows "\<exists>k m. \<not> one_of is_digit k \<and> parseMotion (keys @ [k]) i allow = MotionComplete m (Suc (length keys))"
proof (cases "i = length keys")
  case True
  then have "parseMotion (keys @ [''h'']) i allow = MotionComplete (SimpleMotion ''h'') (Suc (length keys))"
    by (simp add: parseMotion_def key_at_def SIMPLE_MOTIONS_def)
  then show ?thesis by (intro exI conjI) simp_all
next
  case False
  with assms(2) have i: "key_at keys i = Some (keys ! i)" "\<And>k. key_at (keys @ [k]) i = Some (keys ! i)"
    by (auto simp: key_at_def nth_append)
  with assms(1) have len: "Suc i = length keys"
    using False assms(2) by (auto simp: parseMotion_def key_at_None split: option.splits if_splits)
  then have second: "key_at keys (i + 1) = None" "key_at (keys @ [k]) (i + 1) = Some k" for k
    by (simp_all add: key_at_append key_at_def)
  let ?key = "keys ! i"
  consider "?key = ''g''" | "\<exists>kind. omap_get FIND_KEYS ?key = Some kind" | "allow" "?key = ''i'' \<or> ?key = ''a''"
    using assms(1) i by (auto simp: parseMotion_def split: option.splits if_splits)
  then show ?thesis
  proof cases
    case 1
    then have "parseMotion (keys @ [''g'']) i allow = MotionComplete (SimpleMotion ''gg'') (Suc (length keys))"
      using i(2) second(2) len by (simp add: parseMotion_def SIMPLE_MOTIONS_def G_MOTIONS_def)
    then show ?thesis by (intro exI conjI) simp_all
  next
    case 2
    then obtain kind where "omap_get FIND_KEYS ?key = Some kind" by blast
    moreover then have "?key \<notin> set SIMPLE_MOTIONS" "?key \<noteq> ''g''"
      by (auto simp: FIND_KEYS_def SIMPLE_MOTIONS_def split: if_splits)
    ultimately have "parseMotion (keys @ [''x'']) i allow = MotionComplete (FindMotion kind ''x'') (Suc (length keys))"
      using i(2) second(2) len by (simp add: parseMotion_def)
    then show ?thesis by (intro exI conjI) simp_all
  next
    case 3
    then have "parseMotion (keys @ [''w'']) i allow = MotionComplete (TextObject (?key = ''a'') ''w'') (Suc (length keys))"
      using i(2) second(2) len
      by (auto simp: parseMotion_def SIMPLE_MOTIONS_def FIND_KEYS_def TEXT_OBJECTS_def startsWith_def)
    then show ?thesis by (intro exI conjI) simp_all
  qed
qed

lemma finish_ends:
  assumes "finish_motion keys (parseMotion keys i allow) build = Pending" and "i \<le> length keys"
  shows "\<exists>k c. \<not> one_of is_digit k \<and> finish_motion (keys @ [k]) (parseMotion (keys @ [k]) i allow) build = Complete c"
proof -
  have "parseMotion keys i allow = MotionPending"
    using assms(1) by (auto simp: finish_motion_def split: motion_parse.splits if_splits)
  from motion_ends [OF this assms(2)] show ?thesis by (auto simp: finish_motion_def)
qed

lemma second_ends:
  assumes "with_second keys i f = Pending" and "i < length keys" and "f k = Some c"
  shows "with_second (keys @ [k]) i f = Complete c"
proof -
  have "Suc i = length keys"
    using assms(1,2) by (auto simp: with_second_def key_at_None split: option.splits if_splits)
  with assms(3) show ?thesis by (simp add: with_second_def key_at_append) (simp add: key_at_def)
qed

lemma doubled_ends:
  "doubledOperatorEnd operator keys i = NotDoubled \<Longrightarrow> doubledOperatorEnd operator (keys @ [k]) i = NotDoubled"
  unfolding doubledOperatorEnd_def key_at_append
  by (auto simp: Let_def key_at_Some key_at_None split: option.splits if_splits)

lemma read_digits_le: "i \<le> length keys \<Longrightarrow> snd (read_digits keys i digits) \<le> length keys"
proof (induction keys i digits rule: read_digits.induct)
  case (1 keys i digits)
  then show ?case by (cases "i < length keys \<and> isCountDigit (keys ! i) (digits = [])")
    (simp_all add: read_digits.simps [of keys i digits])
qed

lemma readCount_le: "readCount keys i = (count, j) \<Longrightarrow> i \<le> length keys \<Longrightarrow> j \<le> length keys"
  using read_digits_le [of i keys "[]"] by (auto simp: readCount_def Let_def split: prod.splits)

lemma operator_rest_ends:
  assumes "operator_rest keys operator start count register = Pending" and "start \<le> length keys"
  shows "\<exists>k c. \<not> one_of is_digit k \<and> operator_rest (keys @ [k]) operator start count register = Complete c"
proof -
  obtain inner after where r: "readCount keys start = (inner, after)" by (cases "readCount keys start")
  have after: "after \<le> length keys" by (rule readCount_le [OF r assms(2)])
  have r': "readCount (keys @ [k]) start = (inner, after)" if "\<not> one_of is_digit k" for k
    using readCount_append [OF assms(2) that] r by simp
  have fresh: ?thesis if "doubledOperatorEnd operator (keys @ [k]) after = NotDoubled" "\<not> one_of is_digit k"
    "parseMotion (keys @ [k]) after True = MotionComplete m (Suc (length keys))" for k m
    using that r' [OF that(2)] by (intro exI [of _ k] exI conjI) (simp_all add: operator_rest_def finish_motion_def)
  show ?thesis
  proof (cases "after = length keys")
    case True
    have k: "key_at (keys @ [''h'']) after = Some ''h''" using True by (simp add: key_at_def)
    have "doubledOperatorEnd operator (keys @ [''h'']) after = NotDoubled"
      unfolding doubledOperatorEnd_def k by (cases operator) simp_all
    moreover have "parseMotion (keys @ [''h'']) after True = MotionComplete (SimpleMotion ''h'') (Suc (length keys))"
      unfolding parseMotion_def k using True by (simp add: SIMPLE_MOTIONS_def)
    ultimately show ?thesis by (intro fresh) simp_all
  next
    case False
    with after have at_key: "key_at keys after = Some (keys ! after)" "key_at (keys @ [k]) after = Some (keys ! after)" for k
      by (auto simp: key_at_def nth_append)
    show ?thesis
    proof (cases "doubledOperatorEnd operator keys after")
      case DoubledPending
      then have g: "keys ! after = ''g''" "Suc after = length keys" "length (operator_text operator) \<noteq> 1"
        "take 1 (drop 1 (operator_text operator)) \<noteq> ''g''"
        using at_key(1) after False by (auto simp: doubledOperatorEnd_def Let_def key_at_None split: option.splits if_splits)
      have k: "key_at (keys @ [''g'']) (after + 1) = Some ''g''" using g(2) by (simp add: key_at_def nth_append)
      have "doubledOperatorEnd operator (keys @ [''g'']) after = NotDoubled"
        unfolding doubledOperatorEnd_def at_key(2) k using g by (auto simp: Let_def)
      moreover have "parseMotion (keys @ [''g'']) after True = MotionComplete (SimpleMotion ''gg'') (Suc (length keys))"
        unfolding parseMotion_def at_key(2) k using g(1,2) by (simp add: SIMPLE_MOTIONS_def G_MOTIONS_def)
      ultimately show ?thesis by (intro fresh) simp_all
    next
      case NotDoubled
      with assms(1) r have "finish_motion keys (parseMotion keys after True)
          (\<lambda>m. OperatorCommand operator (Some m) (combineCounts count inner) register) = Pending"
        by (simp add: operator_rest_def)
      from finish_ends [OF this after] obtain k c where k: "\<not> one_of is_digit k"
        "finish_motion (keys @ [k]) (parseMotion (keys @ [k]) after True)
          (\<lambda>m. OperatorCommand operator (Some m) (combineCounts count inner) register) = Complete c" by blast
      with doubled_ends [OF NotDoubled] r' [OF k(1)] show ?thesis
        by (intro exI [of _ k] exI [of _ c]) (simp add: operator_rest_def)
    next
      case (DoubledAt j)
      with assms(1) r show ?thesis by (simp add: operator_rest_def split: if_splits)
    qed
  qed
qed

lemma operator_ends:
  "readOperator keys i = OperatorAt operator start \<Longrightarrow> readOperator (keys @ [k]) i = OperatorAt operator start \<and> start \<le> length keys"
  "readOperator keys i = NoOperator \<Longrightarrow> readOperator (keys @ [k]) i = NoOperator"
  "readOperator keys i = OperatorPending \<Longrightarrow> i < length keys \<Longrightarrow> keys ! i = ''g'' \<and> Suc i = length keys"
  unfolding readOperator_def key_at_append by (auto simp: key_at_Some key_at_None split: option.splits if_splits)

lemma normal_ends:
  assumes p: "parseNormal keys i count register ctx = Pending" and i: "i < length keys"
  shows "\<exists>k c. \<not> one_of is_digit k \<and> parseNormal (keys @ [k]) i count register ctx = Complete c"
proof -
  from i have k: "key_at keys i = Some (keys ! i)" "key_at (keys @ [k]) i = Some (keys ! i)" for k
    by (simp_all add: key_at_def nth_append)
  show ?thesis
  proof (cases "readOperator keys i")
    case OperatorPending
    from operator_ends(3) [OF this i] have g: "keys ! i = ''g''" "Suc i = length keys" by simp_all
    then have "key_at (keys @ [''g'']) (i + 1) = Some ''g''" by (simp add: key_at_def nth_append)
    with g k(2) have "readOperator (keys @ [''g'']) i = NoOperator"
      and "with_second (keys @ [''g'']) i (g_command [''v'', ''J'', ''p'', ''P'', ''i''] count register) =
        Complete (MotionCommand (SimpleMotion ''gg'') count)"
      by (simp_all add: readOperator_def with_second_def plain_operator_def g_operator_def g_command_def G_MOTIONS_def)
    then have "parseNormal (keys @ [''g'']) i count register ctx = Complete (MotionCommand (SimpleMotion ''gg'') count)"
      using g(1) k(2) by (simp add: parseNormal_def)
    then show ?thesis by (intro exI conjI) simp_all
  next
    case (OperatorAt operator start)
    with p k have "keys ! i \<noteq> '':''" "operator_rest keys operator start count register = Pending"
      by (auto simp: parseNormal_def split: if_splits)
    with operator_rest_ends [of keys operator start count register] operator_ends(1) [OF OperatorAt] k show ?thesis
      by (auto simp: parseNormal_def)
  next
    case NoOperator
    let ?key = "keys ! i"
    note no = operator_ends(2) [OF NoOperator]
    have two: ?thesis if "\<And>keys'. key_at keys' i = Some ?key \<Longrightarrow> readOperator keys' i = NoOperator \<Longrightarrow>
        parseNormal keys' i count register ctx = with_second keys' i f" and "f k = Some c" and "\<not> one_of is_digit k" for f k c
      using that(1) [OF k(1) NoOperator] that(1) [OF k(2) no] second_ends [of keys i f k c, OF _ i that(2)] that(3) p by auto
    consider "?key = ''r''" | "?key = ''q''" "\<not> pc_recording ctx" | "?key = ''@''" | "?key = ''g''" | "?key = ''z''" | "?key = ''Z''"
      | "?key \<notin> set ['':'', ''r'', ''q'', ''@'', ''g'', ''z'', ''Z'']" "?key \<notin> set NORMAL_ACTIONS"
      using p k NoOperator by (auto simp: parseNormal_def split: if_splits)
    then show ?thesis
    proof cases
      case 1
      then show ?thesis
        by (intro two [of "replace_command True count register" "''x''"]) (simp_all add: parseNormal_def replace_command_def)
    next
      case 2
      then show ?thesis
        by (intro two [of "\<lambda>name. if one_of letter_or_digit name
            then Some (ActionCommand ''startRecording'' count register (Some name)) else None" "''a''"])
          (simp_all add: parseNormal_def one_of_def letter_or_digit_def is_digit_def less_eq_char_def)
    next
      case 3
      then show ?thesis
        by (intro two [of "\<lambda>name. if one_of (\<lambda>c. letter_or_digit c \<or> c = CHR ''@'') name
            then Some (ActionCommand ''playMacro'' count register (Some name)) else None" "''a''"])
          (simp_all add: parseNormal_def one_of_def letter_or_digit_def is_digit_def less_eq_char_def)
    next
      case 4
      then show ?thesis
        by (intro two [of "g_command [''v'', ''J'', ''p'', ''P'', ''i''] count register" "''g''"])
          (simp_all add: parseNormal_def g_command_def G_MOTIONS_def)
    next
      case 5
      then show ?thesis
        by (intro two [of "named_action ''z'' [''z'', ''t'', ''b'', ''.'', ''<CR>'', ''-''] count register" "''z''"])
          (simp_all add: parseNormal_def named_action_def)
    next
      case 6
      then show ?thesis
        by (intro two [of "named_action ''Z'' [''Z''] count register" "''Z''"])
          (simp_all add: parseNormal_def named_action_def)
    next
      case 7
      with p k NoOperator have "finish_motion keys (parseMotion keys i False) (\<lambda>m. MotionCommand m count) = Pending"
        by (simp add: parseNormal_def)
      from finish_ends [OF this less_imp_le [OF i]] 7 k no show ?thesis by (auto simp: parseNormal_def)
    qed
  qed
qed

lemma visual_ends:
  assumes p: "parseVisual keys i count register = Pending" and i: "i < length keys"
  shows "\<exists>k c. \<not> one_of is_digit k \<and> parseVisual (keys @ [k]) i count register = Complete c"
proof -
  let ?key = "keys ! i"
  from i have k: "key_at keys i = Some ?key" "key_at (keys @ [k]) i = Some ?key" for k
    by (simp_all add: key_at_def nth_append)
  have two: ?thesis if "\<And>keys'. key_at keys' i = Some ?key \<Longrightarrow> parseVisual keys' i count register = with_second keys' i f"
      and "f k = Some c" and "\<not> one_of is_digit k" for f k c
    using that(1) [OF k(1)] that(1) [OF k(2)] second_ends [of keys i f k c, OF _ i that(2)] that(3) p by auto
  consider "?key = ''r''" | "?key = ''g''" | "?key = ''z''"
    | "?key \<notin> set ['':'', ''r'', ''g'', ''z'']" "?key \<notin> set VISUAL_ACTIONS"
    using p k by (auto simp: parseVisual_def split: if_splits)
  then show ?thesis
  proof cases
    case 1
    then show ?thesis
      by (intro two [of "replace_command False count register" "''x''"]) (simp_all add: parseVisual_def replace_command_def)
  next
    case 2
    then show ?thesis
      by (intro two [of "g_command [''~'', ''u'', ''U'', ''v'', ''J''] count register" "''g''"])
        (simp_all add: parseVisual_def g_command_def G_MOTIONS_def)
  next
    case 3
    then show ?thesis
      by (intro two [of "named_action ''z'' [''z'', ''t'', ''b''] count register" "''z''"])
        (simp_all add: parseVisual_def named_action_def)
  next
    case 4
    with p k have "finish_motion keys (parseMotion keys i True) (\<lambda>m. MotionCommand m count) = Pending"
      by (simp add: parseVisual_def)
    from finish_ends [OF this less_imp_le [OF i]] 4 k show ?thesis by (auto simp: parseVisual_def)
  qed
qed

lemma counted_ends:
  assumes "parse_counted keys i register ctx = Pending" and "i \<le> length keys"
  shows "\<exists>k c. parse_counted (keys @ [k]) i register ctx = Complete c"
proof -
  obtain count after where r: "readCount keys i = (count, after)" by (cases "readCount keys i")
  have le: "after \<le> length keys" by (rule readCount_le [OF r assms(2)])
  have r': "readCount (keys @ [k]) i = (count, after)" if "\<not> one_of is_digit k" for k
    using readCount_append [OF assms(2) that] r by simp
  show ?thesis
  proof (cases "after < length keys")
    case True
    show ?thesis
    proof (cases "pc_mode ctx = VisualMode")
      case visual: True
      with assms(1) r True have "parseVisual keys after count register = Pending" by (simp add: parse_counted_def)
      from visual_ends [OF this True] obtain k c where "\<not> one_of is_digit k" "parseVisual (keys @ [k]) after count register = Complete c"
        by blast
      with r' visual True show ?thesis by (intro exI [of _ k] exI [of _ c]) (simp add: parse_counted_def)
    next
      case normal: False
      with assms(1) r True have "parseNormal keys after count register ctx = Pending" by (simp add: parse_counted_def)
      from normal_ends [OF this True] obtain k c where "\<not> one_of is_digit k" "parseNormal (keys @ [k]) after count register ctx = Complete c"
        by blast
      with r' normal True show ?thesis by (intro exI [of _ k] exI [of _ c]) (simp add: parse_counted_def)
    qed
  next
    case False
    with le have after: "after = length keys" by simp
    then have "key_at (keys @ [''h'']) after = Some ''h''" by (simp add: key_at_def)
    then have "parseVisual (keys @ [''h'']) after count register = Complete (MotionCommand (SimpleMotion ''h'') count)"
      and "parseNormal (keys @ [''h'']) after count register ctx = Complete (MotionCommand (SimpleMotion ''h'') count)"
      using after by (simp_all add: parseVisual_def parseNormal_def readOperator_def plain_operator_def VISUAL_ACTIONS_def
          NORMAL_ACTIONS_def finish_motion_def parseMotion_def SIMPLE_MOTIONS_def)
    then show ?thesis using r' [of "''h''"] after
      by (intro exI [of _ "''h''"] exI) (simp add: parse_counted_def)
  qed
qed

text \<open>C24. The parser has no dead ends: pending keys can always be continued to a complete command.\<close>

theorem pending_keys_can_complete:
  assumes "parseVimKeys keys ctx = Pending"
  shows "\<exists>ks c. parseVimKeys (keys @ ks) ctx = Complete c"
proof (cases "key_at keys 0 = Some [CHR 0x22]")
  case True
  then obtain rest where keys: "keys = [CHR 0x22] # rest" by (cases keys) (auto simp: key_at_def)
  show ?thesis
  proof (cases rest)
    case Nil
    have "parse_counted ([CHR 0x22] # ''a'' # []) 2 (Some ''a'') ctx = Pending"
      by (simp add: parse_counted_def readCount_def)
    from counted_ends [OF this] obtain k c where "parse_counted [[CHR 0x22], ''a'', k] 2 (Some ''a'') ctx = Complete c" by auto
    moreover have "REGISTER_NAMES ''a''" by (simp add: REGISTER_NAMES_def one_of_def letter_or_digit_def)
    ultimately have "parseVimKeys (keys @ [''a'', k]) ctx = Complete c"
      by (simp add: parseVimKeys_def key_at_def keys Nil)
    then show ?thesis by blast
  next
    case (Cons name more)
    with assms have "REGISTER_NAMES name" "parse_counted keys 2 (Some name) ctx = Pending"
      by (auto simp: parseVimKeys_def key_at_def keys split: if_splits)
    with counted_ends [of keys 2 "Some name" ctx] Cons obtain k c where "parse_counted (keys @ [k]) 2 (Some name) ctx = Complete c"
      by (auto simp: keys)
    with \<open>REGISTER_NAMES name\<close> have "parseVimKeys (keys @ [k]) ctx = Complete c"
      by (simp add: parseVimKeys_def key_at_def keys Cons)
    then show ?thesis by blast
  qed
next
  case False
  show ?thesis
  proof (cases keys)
    case Nil
    have "parseVimKeys [''h''] ctx = Complete (MotionCommand (SimpleMotion ''h'') None)"
      by (cases "pc_mode ctx") (simp_all add: parseVimKeys_def parse_counted_def readCount_def read_digits.simps [of "[''h'']" 0 "[]"]
          isCountDigit_def key_at_def parseVisual_def parseNormal_def readOperator_def plain_operator_def VISUAL_ACTIONS_def
          NORMAL_ACTIONS_def finish_motion_def parseMotion_def SIMPLE_MOTIONS_def)
    with Nil show ?thesis by (metis append_Nil)
  next
    case (Cons key more)
    with False assms have "parse_counted keys 0 None ctx = Pending" by (simp add: parseVimKeys_def)
    with counted_ends [of keys 0 None ctx] obtain k c where "parse_counted (keys @ [k]) 0 None ctx = Complete c" by auto
    with False Cons have "parseVimKeys (keys @ [k]) ctx = Complete c" by (simp add: parseVimKeys_def key_at_def)
    then show ?thesis by blast
  qed
qed

theorem pending_keys_can_complete_witness:
  "\<exists>ks c. parseVimKeys ([''g'', ''u'', ''g''] @ ks) \<lparr>pc_mode = NormalMode, pc_recording = False\<rparr> = Complete c"
proof -
  have "parseVimKeys [''g'', ''u'', ''g''] \<lparr>pc_mode = NormalMode, pc_recording = False\<rparr> = Pending" by code_simp
  then show ?thesis by (rule pending_keys_can_complete)
qed

end
