(* ===== verification/Memory_Bridge.thy ===== *)
theory Memory_Bridge
  imports Publish_Theorems Text_Ops "HOL-Library.Word"
begin

text \<open>
  The command surface over plain memory (\<open>bridge/memory-adapter.ts\<close>): a canonical renderer store, the
  note lock, the media blobs, the sync flags and the workspace slot are the fields of one record that
  each call takes and returns. A call that rejects is \<open>Inl\<close> of the error it throws; a call that hangs
  is \<open>None\<close>. \<open>now().toString(36)\<close> and the time stamps are arguments.
\<close>

section \<open>State\<close>

record note_lock_secret_input =
  li_kind :: note_lock_kind
  li_secret :: string
  li_hint :: "string option"

record installed_lock =
  ik_input :: note_lock_secret_input
  ik_recoveryCode :: string
  ik_unlocked :: bool
  ik_failedAttempts :: number

type_synonym bytes = "8 word list"

record memory_bridge =
  mb_canonical :: "(renderer_state, unit) store"
  mb_blobs :: "(string, bytes) omap"
  mb_lock :: "installed_lock option"
  mb_expandedFolderIds :: "string list option"
  mb_activeSlot :: "string option"
  mb_syncConnected :: bool
  mb_syncOnline :: bool

abbreviation mb_state :: "memory_bridge \<Rightarrow> renderer_state" where
  "mb_state b \<equiv> so_state (mb_canonical b)"

text \<open>The errors the calls throw, one constructor for each message.\<close>

datatype bridge_error =
    UnsupportedProtocol number
  | MissingNote string
  | RevisionConflict string number number
  | NoLock
  | LockIsLocked
  | LockExists
  | WrongSecret
  | WrongRecoveryCode
  | MissingMedia string
  | NoBlockedOperation string
  | StoreThrew "string list"

definition MEMORY_SETTINGS :: workspace_settings where
  "MEMORY_SETTINGS = \<lparr>s_settingsVersion = 1, s_theme = ''midnight'', s_compactSidebar = False, s_showPageIcons = True,
     s_rememberLastNote = True, s_editorFont = ''inter'', s_editorLineHeight = ''comfortable'', s_showLineNumbers = True,
     s_editorPlaceholder = ''Start writing...'', s_extra = [(''showTreeGuides'', JBool False)]\<rparr>"

definition emptySnapshot :: "workspace_settings \<Rightarrow> workspace_snapshot" where
  "emptySnapshot settings = \<lparr>sn_protocolVersion = WORKSPACE_PROTOCOL_VERSION, sn_activeNoteId = None, sn_nodes = [],
     sn_documents = [], sn_historyHeaders = [], sn_settings = settings, sn_tags = [], sn_people = [], sn_references = [],
     sn_images = None, sn_mediaMetadata = None, sn_properties = None, sn_propertyTemplates = None,
     sn_tasks = None, sn_prompts = None, sn_annotations = None, sn_importReceipts = None\<rparr>"

definition createMemoryBridge ::
  "workspace_snapshot option \<Rightarrow> workspace_settings option \<Rightarrow> string option \<Rightarrow> memory_bridge option" where
  "createMemoryBridge snapshot settings slot =
     (let seed = (case snapshot of Some s \<Rightarrow> s
            | None \<Rightarrow> emptySnapshot (case settings of Some s \<Rightarrow> s | None \<Rightarrow> MEMORY_SETTINGS))
      in map_option
           (\<lambda>initial. \<lparr>mb_canonical = new_store initial, mb_blobs = [], mb_lock = None, mb_expandedFolderIds = None,
              mb_activeSlot = slot, mb_syncConnected = False, mb_syncOnline = True\<rparr>)
           (createInitialState seed None
              \<lparr>rb_tags = sn_tags seed, rb_people = sn_people seed, rb_references = sn_references seed\<rparr>))"

section \<open>Reading\<close>

definition recordToDocument :: "document_record \<Rightarrow> workspace_document" where
  "recordToDocument r = \<lparr>d_noteId = dr_noteId r, d_documentJson = dr_documentJson r, d_markdown = dr_markdown r,
     d_revision = dr_revision r, d_wordCount = dr_wordCount r, d_sealed = dr_sealed r\<rparr>"

definition snapshotFromState :: "renderer_state \<Rightarrow> workspace_snapshot" where
  "snapshotFromState state = \<lparr>sn_protocolVersion = WORKSPACE_PROTOCOL_VERSION, sn_activeNoteId = st_activeNoteId state,
     sn_nodes = omap_values (st_sourceNodes state),
     sn_documents = map recordToDocument (omap_values (st_documents state)),
     sn_historyHeaders = concat (omap_values (st_historyHeaders state)),
     sn_settings = st_settings state, sn_tags = omap_values (st_tags state), sn_people = omap_values (st_people state),
     sn_references = map (\<lambda>(noteId, targets). \<lparr>nr_noteId = noteId, nr_targets = targets\<rparr>)
       (outgoingReferences (st_references state)),
     sn_images = Some (omap_values (st_images state)), sn_mediaMetadata = Some (omap_values (st_mediaMetadata state)),
     sn_properties = Some (concat (omap_values (st_propertiesByNoteId state))),
     sn_propertyTemplates = Some (st_propertyTemplates state), sn_tasks = Some (omap_values (st_tasks state)),
     sn_prompts = Some (omap_values (st_prompts state)), sn_annotations = Some (omap_values (st_annotations state)),
     sn_importReceipts = Some (st_importReceipts state)\<rparr>"

definition bootstrapWorkspace :: "memory_bridge \<Rightarrow> workspace_snapshot" where
  "bootstrapWorkspace b = snapshotFromState (mb_state b)"

definition readWorkspaceDelta :: "string list \<Rightarrow> memory_bridge \<Rightarrow> workspace_delta" where
  "readWorkspaceDelta ids b =
     \<lparr>delta_documents = map recordToDocument (List.map_filter (omap_get (st_documents (mb_state b))) ids),
      delta_nodes = List.map_filter (omap_get (st_sourceNodes (mb_state b))) ids\<rparr>"

section \<open>Operations\<close>

definition placedNodeId :: "workspace_operation \<Rightarrow> string option" where
  "placedNodeId operation =
     (case operation of
        CreateFolder i _ _ _ \<Rightarrow> Some i
      | CreateNote i _ _ _ _ _ \<Rightarrow> Some i
      | MoveNode i _ _ \<Rightarrow> Some i
      | RestoreSubtree rootId _ _ \<Rightarrow> Some rootId
      | _ \<Rightarrow> None)"

fun validate_envelopes ::
  "renderer_state \<Rightarrow> (string, number) omap \<Rightarrow> (number \<times> workspace_operation) list \<Rightarrow> bridge_error option" where
  "validate_envelopes state expected [] = None"
| "validate_envelopes state expected ((protocolVersion, operation) # envelopes) =
     (if protocolVersion \<noteq> WORKSPACE_PROTOCOL_VERSION then Some (UnsupportedProtocol protocolVersion)
      else
        (case operation of
           CreateNote i _ _ _ _ _ \<Rightarrow> validate_envelopes state (omap_set i 0 expected) envelopes
         | SaveDocument noteId _ _ _ expectedRevision _ \<Rightarrow>
             (case (case omap_get expected noteId of
                  Some r \<Rightarrow> Some r
                | None \<Rightarrow> map_option dr_revision (omap_get (st_documents state) noteId)) of
                None \<Rightarrow> Some (MissingNote noteId)
              | Some revision \<Rightarrow>
                  if revision \<noteq> expectedRevision then Some (RevisionConflict noteId expectedRevision revision)
                  else validate_envelopes state (omap_set noteId (revision + 1) expected) envelopes)
         | _ \<Rightarrow> validate_envelopes state expected envelopes))"

definition validate :: "renderer_state \<Rightarrow> (number \<times> workspace_operation) list \<Rightarrow> bridge_error option" where
  "validate state envelopes = validate_envelopes state [] envelopes"

definition ack_save :: "renderer_state \<Rightarrow> workspace_operation \<Rightarrow> (string, entity_revision) omap \<Rightarrow>
    (string, entity_revision) omap" where
  "ack_save state operation revisions =
     (case operation of
        SaveDocument noteId _ _ _ _ _ \<Rightarrow>
          let current = (case omap_get revisions noteId of
                 Some r \<Rightarrow> er_revision r
               | None \<Rightarrow> (case omap_get (st_documents state) noteId of Some d \<Rightarrow> dr_revision d | None \<Rightarrow> 0))
          in omap_set noteId \<lparr>er_id = noteId, er_revision = current + 1\<rparr> revisions
      | _ \<Rightarrow> revisions)"

definition ack_place :: "renderer_state \<Rightarrow> workspace_operation \<Rightarrow> (string, node_rank_change) omap \<Rightarrow>
    (string, node_rank_change) omap" where
  "ack_place state operation rankChanges =
     (case Option.bind (placedNodeId operation) (omap_get (st_sourceNodes state)) of
        None \<Rightarrow> rankChanges
      | Some placed \<Rightarrow>
          omap_set (n_id placed) \<lparr>rc_id = n_id placed, rc_parentId = n_parentId placed, rc_rank = n_rank placed\<rparr> rankChanges)"

definition ack_for :: "workspace_operation list \<Rightarrow> renderer_state \<Rightarrow> operation_ack" where
  "ack_for operations state =
     \<lparr>ack_applied = of_nat (length operations),
      ack_revisions = omap_values (fold (ack_save state) operations []),
      ack_rankChanges = omap_values (fold (ack_place state) operations [])\<rparr>"

text \<open>A call of the canonical store: the updater runs, an exception of the store rejects.\<close>

definition call_store :: "(renderer_state \<Rightarrow> renderer_state updated) \<Rightarrow> memory_bridge \<Rightarrow>
    (memory_bridge \<times> (bridge_error + unit)) option" where
  "call_store u b =
     map_option (\<lambda>(st, r). (b\<lparr>mb_canonical := st\<rparr>,
         case r of Returned _ \<Rightarrow> Inr () | Aggregate n \<Rightarrow> Inl (StoreThrew []) | Threw issues \<Rightarrow> Inl (StoreThrew issues)))
       (update_store u (mb_canonical b))"

definition apply_batch :: "workspace_operation list \<Rightarrow> memory_bridge \<Rightarrow>
    (memory_bridge \<times> (bridge_error + operation_ack)) option" where
  "apply_batch operations b =
     Option.bind (call_store (applyOperations operations) b) (\<lambda>(b, r).
       case r of Inl e \<Rightarrow> Some (b, Inl e)
       | Inr _ \<Rightarrow>
           let ack = ack_for operations (mb_state b)
           in Option.bind (call_store (\<lambda>s. updated_of (applyAck ack s)) b) (\<lambda>(b, r).
                Some (b, case r of Inl e \<Rightarrow> Inl e | Inr _ \<Rightarrow> Inr ack)))"

definition applyWorkspaceOperations :: "(number \<times> workspace_operation) list \<Rightarrow> memory_bridge \<Rightarrow>
    (memory_bridge \<times> (bridge_error + operation_ack)) option" where
  "applyWorkspaceOperations envelopes b =
     (case validate (mb_state b) envelopes of
        Some e \<Rightarrow> Some (b, Inl e)
      | None \<Rightarrow> apply_batch (map snd envelopes) b)"

section \<open>Expansion and search\<close>

definition saveSidebarExpansion :: "string list \<Rightarrow> memory_bridge \<Rightarrow> memory_bridge" where
  "saveSidebarExpansion folderIds b = b\<lparr>mb_expandedFolderIds := Some folderIds\<rparr>"

definition loadSidebarExpansion :: "memory_bridge \<Rightarrow> string list option" where
  "loadSidebarExpansion b = mb_expandedFolderIds b"

record index_status =
  is_indexVersion :: number
  is_currentVersion :: number
  is_indexedNotes :: nat
  is_noteCount :: nat
  is_needsRebuild :: bool

definition indexStatus :: "memory_bridge \<Rightarrow> index_status" where
  "indexStatus b = \<lparr>is_indexVersion = 1, is_currentVersion = 1, is_indexedNotes = length (st_noteIds (mb_state b)),
     is_noteCount = length (st_noteIds (mb_state b)), is_needsRebuild = False\<rparr>"

definition matches :: "workspace_node \<Rightarrow> string \<Rightarrow> string \<Rightarrow> search_hit option" where
  "matches hit needle markdown =
     (let inTitle = str_includes (toLowerCase (n_title hit)) needle;
          position = indexOf (toLowerCase markdown) needle
      in if \<not> inTitle \<and> position = None then None
         else Some \<lparr>sh_noteId = n_id hit, sh_title = n_title hit,
           sh_snippet = (case position of None \<Rightarrow> []
             | Some k \<Rightarrow> drop (k - 40) (take (k + length needle + 40) markdown)),
           sh_score = (if inTitle then 2 else 1)\<rparr>)"

definition hit_cmp :: "search_hit \<Rightarrow> search_hit \<Rightarrow> number" where
  "hit_cmp l r =
     (if sh_score r \<noteq> sh_score l then sh_score r - sh_score l else if sh_noteId l < sh_noteId r then -1 else 1)"

definition search_hits :: "string \<Rightarrow> string list option \<Rightarrow> renderer_state \<Rightarrow> search_hit list" where
  "search_hits needle scope state =
     List.map_filter
       (\<lambda>node. if n_kind node \<noteq> KNote \<or> n_deletedAt node \<noteq> None \<or> locked_node node then None
          else if \<not> pred_option (\<lambda>ids. n_id node \<in> set ids) scope then None
          else matches node needle (case omap_get (st_documents state) (n_id node) of Some d \<Rightarrow> dr_markdown d | None \<Rightarrow> []))
       (omap_values (st_sourceNodes state))"

definition searchWorkspace :: "string \<Rightarrow> nat \<Rightarrow> string list option \<Rightarrow> memory_bridge \<Rightarrow> search_hit list" where
  "searchWorkspace query limit noteIds b =
     (let needle = toLowerCase (js_trim query)
      in if needle = [] then [] else take limit (js_sort hit_cmp (search_hits needle noteIds (mb_state b))))"

section \<open>The note lock\<close>

definition lockedNodes :: "memory_bridge \<Rightarrow> workspace_node list" where
  "lockedNodes b = filter (\<lambda>n. locked_node n \<and> n_deletedAt n = None) (omap_values (st_sourceNodes (mb_state b)))"

definition lockState :: "memory_bridge \<Rightarrow> note_lock_state" where
  "lockState b =
     (case mb_lock b of
        None \<Rightarrow> UNCONFIGURED_NOTE_LOCK
      | Some k \<Rightarrow> \<lparr>l_configured = True, l_unlocked = ik_unlocked k, l_kind = Some (li_kind (ik_input k)),
          l_hint = li_hint (ik_input k), l_failedAttempts = ik_failedAttempts k, l_nextAttemptAt = None,
          l_lockedNoteCount = of_nat (length (lockedNodes b))\<rparr>)"

definition requireUnlocked :: "memory_bridge \<Rightarrow> bridge_error + installed_lock" where
  "requireUnlocked b =
     (case mb_lock b of None \<Rightarrow> Inl NoLock | Some k \<Rightarrow> if ik_unlocked k then Inr k else Inl LockIsLocked)"

definition configureNoteLock :: "note_lock_secret_input \<Rightarrow> string \<Rightarrow> memory_bridge \<Rightarrow>
    memory_bridge \<times> (bridge_error + string)" where
  "configureNoteLock input time b =
     (if mb_lock b \<noteq> None then (b, Inl LockExists)
      else
        let recoveryCode = ''memory-recovery-'' @ time
        in (b\<lparr>mb_lock := Some \<lparr>ik_input = input, ik_recoveryCode = recoveryCode, ik_unlocked = True, ik_failedAttempts = 0\<rparr>\<rparr>,
            Inr recoveryCode))"

text \<open>The state a call answers with is read after the call has changed the lock.\<close>

definition with_lock_state :: "memory_bridge \<Rightarrow> memory_bridge \<times> (bridge_error + note_lock_state)" where
  "with_lock_state b = (b, Inr (lockState b))"

definition unlockNoteLock :: "string \<Rightarrow> memory_bridge \<Rightarrow> memory_bridge \<times> (bridge_error + note_lock_state)" where
  "unlockNoteLock secret b =
     (case mb_lock b of
        None \<Rightarrow> (b, Inl NoLock)
      | Some k \<Rightarrow>
          if li_secret (ik_input k) \<noteq> secret
          then (b\<lparr>mb_lock := Some (k\<lparr>ik_failedAttempts := ik_failedAttempts k + 1\<rparr>)\<rparr>, Inl WrongSecret)
          else with_lock_state (b\<lparr>mb_lock := Some (k\<lparr>ik_unlocked := True, ik_failedAttempts := 0\<rparr>)\<rparr>))"

definition recoverNoteLock :: "string \<Rightarrow> note_lock_secret_input \<Rightarrow> memory_bridge \<Rightarrow>
    memory_bridge \<times> (bridge_error + note_lock_state)" where
  "recoverNoteLock recoveryCode input b =
     (case mb_lock b of
        None \<Rightarrow> (b, Inl NoLock)
      | Some k \<Rightarrow>
          if ik_recoveryCode k \<noteq> recoveryCode then (b, Inl WrongRecoveryCode)
          else with_lock_state (b\<lparr>mb_lock := Some (k\<lparr>ik_input := input, ik_unlocked := True, ik_failedAttempts := 0\<rparr>)\<rparr>))"

definition changeNoteLockSecret :: "note_lock_secret_input \<Rightarrow> memory_bridge \<Rightarrow>
    memory_bridge \<times> (bridge_error + note_lock_state)" where
  "changeNoteLockSecret input b =
     (case requireUnlocked b of
        Inl e \<Rightarrow> (b, Inl e)
      | Inr k \<Rightarrow> with_lock_state (b\<lparr>mb_lock := Some (k\<lparr>ik_input := input\<rparr>)\<rparr>))"

definition relockNoteLock :: "memory_bridge \<Rightarrow> memory_bridge \<times> (bridge_error + note_lock_state)" where
  "relockNoteLock b = with_lock_state (b\<lparr>mb_lock := map_option (\<lambda>k. k\<lparr>ik_unlocked := False\<rparr>) (mb_lock b)\<rparr>)"

definition readLockedDocuments :: "string list option \<Rightarrow> memory_bridge \<Rightarrow> bridge_error + workspace_document list" where
  "readLockedDocuments noteIds b =
     (case requireUnlocked b of
        Inl e \<Rightarrow> Inl e
      | Inr _ \<Rightarrow>
          Inr (List.map_filter
            (\<lambda>node. case omap_get (st_documents (mb_state b)) (n_id node) of
               Some d \<Rightarrow> if pred_option (\<lambda>ids. n_id node \<in> set ids) noteIds then Some (recordToDocument d) else None
             | None \<Rightarrow> None)
            (lockedNodes b)))"

definition removeNoteLock :: "number \<Rightarrow> memory_bridge \<Rightarrow> (memory_bridge \<times> (bridge_error + operation_ack)) option" where
  "removeNoteLock now b =
     (case requireUnlocked b of
        Inl e \<Rightarrow> Some (b, Inl e)
      | Inr _ \<Rightarrow>
          map_option (\<lambda>(b, r). case r of Inl e \<Rightarrow> (b, Inl e) | Inr ack \<Rightarrow> (b\<lparr>mb_lock := None\<rparr>, Inr ack))
            (apply_batch (map (\<lambda>node. SetNodeLocked (n_id node) False now) (lockedNodes b)) b))"

section \<open>Media\<close>

text \<open>\<open>bytes[i] === v\<close>, false past the end.\<close>

definition byte_is :: "bytes \<Rightarrow> nat \<Rightarrow> 8 word \<Rightarrow> bool" where
  "byte_is bytes i v \<longleftrightarrow> i < length bytes \<and> bytes ! i = v"

definition sniffMimeType :: "bytes \<Rightarrow> string" where
  "sniffMimeType bytes =
     (if byte_is bytes 0 0x89 \<and> byte_is bytes 1 0x50 \<and> byte_is bytes 2 0x4e \<and> byte_is bytes 3 0x47 then ''image/png''
      else if byte_is bytes 0 0xff \<and> byte_is bytes 1 0xd8 \<and> byte_is bytes 2 0xff then ''image/jpeg''
      else if byte_is bytes 0 0x47 \<and> byte_is bytes 1 0x49 \<and> byte_is bytes 2 0x46 then ''image/gif''
      else if byte_is bytes 8 0x57 \<and> byte_is bytes 9 0x45 \<and> byte_is bytes 10 0x42 \<and> byte_is bytes 11 0x50 then ''image/webp''
      else ''application/octet-stream'')"

text \<open>\<open>Math.imul\<close> multiplies modulo \<open>2^32\<close>; the \<open>^\<close> before it works on 32 bits.\<close>

definition mix :: "32 word \<Rightarrow> 8 word \<Rightarrow> 32 word \<Rightarrow> 32 word" where
  "mix lane byte factor = xor lane (ucast byte) * factor"

definition hash_lanes :: "bytes \<Rightarrow> 32 word \<times> 32 word" where
  "hash_lanes bytes =
     fold (\<lambda>byte (high, low). (mix high byte 0x01000193, mix low byte 0x811c9dc5)) bytes (0x811c9dc5, 0x01000193)"

text \<open>\<open>toString(16)\<close> of a number that is not negative.\<close>

fun hex_digits :: "nat \<Rightarrow> string" where
  "hex_digits n =
     (let d = (if n mod 16 < 10 then char_of (48 + n mod 16 :: nat) else char_of (87 + n mod 16 :: nat))
      in if n < 16 then [d] else hex_digits (n div 16) @ [d])"

declare hex_digits.simps [simp del]

definition hex_word :: "32 word \<Rightarrow> string" where
  "hex_word w = padStart 8 (hex_digits (unat w))"

definition contentKey :: "bytes \<Rightarrow> string" where
  "contentKey bytes =
     (case hash_lanes bytes of (high, low) \<Rightarrow> hex_word high @ hex_word low @ hex_word (word_of_nat (length bytes)))"

record stored_image_payload =
  si_contentHash :: string
  si_mimeType :: string
  si_byteSize :: nat

definition storeNoteImage :: "bytes \<Rightarrow> memory_bridge \<Rightarrow> memory_bridge \<times> stored_image_payload" where
  "storeNoteImage bytes b =
     (let contentHash = contentKey bytes
      in (b\<lparr>mb_blobs := omap_set contentHash bytes (mb_blobs b)\<rparr>,
          \<lparr>si_contentHash = contentHash, si_mimeType = sniffMimeType bytes, si_byteSize = length bytes\<rparr>))"

definition readNoteImageBlob :: "string \<Rightarrow> memory_bridge \<Rightarrow> bridge_error + bytes" where
  "readNoteImageBlob contentHash b =
     (case omap_get (mb_blobs b) contentHash of None \<Rightarrow> Inl (MissingMedia contentHash) | Some bytes \<Rightarrow> Inr bytes)"

section \<open>Sync and slots\<close>

datatype workspace_sync_status =
    LocalOnly
  | Connecting
  | UpToDate
  | SyncPending
  | Offline
  | AuthenticationRequired
  | Rehydrating
  | Retrying number
  | SyncBlocked string "string option"

definition syncStatus :: "memory_bridge \<Rightarrow> workspace_sync_status" where
  "syncStatus b = (if \<not> mb_syncConnected b then LocalOnly else if mb_syncOnline b then UpToDate else Offline)"

definition connectWorkspaceSync :: "string \<Rightarrow> memory_bridge \<Rightarrow> memory_bridge \<times> workspace_sync_status" where
  "connectWorkspaceSync token b =
     (if token = [] then (b, AuthenticationRequired)
      else let b' = b\<lparr>mb_syncConnected := True\<rparr> in (b', syncStatus b'))"

definition pauseWorkspaceSync :: "memory_bridge \<Rightarrow> memory_bridge \<times> workspace_sync_status" where
  "pauseWorkspaceSync b = (let b' = b\<lparr>mb_syncConnected := False\<rparr> in (b', syncStatus b'))"

definition setWorkspaceSyncOnline :: "bool \<Rightarrow> memory_bridge \<Rightarrow> memory_bridge" where
  "setWorkspaceSyncOnline online b = b\<lparr>mb_syncOnline := online\<rparr>"

definition retryBlockedSyncOperation :: "string \<Rightarrow> bridge_error + unit" where
  "retryBlockedSyncOperation blockedId = Inl (NoBlockedOperation blockedId)"

definition discardBlockedSyncOperation :: "string \<Rightarrow> bridge_error + unit" where
  "discardBlockedSyncOperation blockedId = Inl (NoBlockedOperation blockedId)"

datatype slot_adoption = Claimed | AlreadyActive | Switched

definition adoptWorkspaceSlot :: "string \<Rightarrow> memory_bridge \<Rightarrow> memory_bridge \<times> slot_adoption" where
  "adoptWorkspaceSlot workspaceId b =
     (if mb_activeSlot b = Some workspaceId then (b, AlreadyActive)
      else (b\<lparr>mb_activeSlot := Some workspaceId\<rparr>, if mb_activeSlot b = None then Claimed else Switched))"

definition activeWorkspaceSlot :: "memory_bridge \<Rightarrow> string option" where
  "activeWorkspaceSlot b = mb_activeSlot b"

end
