(* ===== verification/Bridge_Theorems.thy ===== *)
theory Bridge_Theorems
  imports Memory_Bridge
begin

text \<open>
  What a client of the command surface can rely on: a save that was accepted cannot be accepted again,
  a shut lock stays shut without its secret, the key of a blob changes with every byte, and what
  happens after the canonical store has thrown.
\<close>

section \<open>Calls of the canonical store\<close>

definition idle :: "('s, 'v) store \<Rightarrow> bool" where
  "idle st \<longleftrightarrow> \<not> so_destroyed st \<and> \<not> so_publishing st \<and> so_queue st = [] \<and> so_subscribers st = []"

lemma call_idle:
  assumes "idle (mb_canonical b)"
  shows "call_store u b =
    (case u (mb_state b) of
       Same \<Rightarrow> Some (b, Inr ())
     | Next s \<Rightarrow> Some (b\<lparr>mb_canonical := (mb_canonical b)\<lparr>so_state := s\<rparr>\<rparr>, Inr ())
     | Throws issues \<Rightarrow> Some (b\<lparr>mb_canonical := (mb_canonical b)\<lparr>so_publishing := True\<rparr>\<rparr>, Inl (StoreThrew issues))
     | Hangs \<Rightarrow> None)"
proof -
  obtain st where st: "mb_canonical b = st" by simp
  have f: "\<not> so_destroyed st" "\<not> so_publishing st" "so_queue st = []" "so_subscribers st = []"
    using assms by (simp_all add: idle_def st)
  have same: "st\<lparr>so_publishing := False\<rparr> = st" "st\<lparr>so_queue := []\<rparr> = st" "b\<lparr>mb_canonical := st\<rparr> = b"
    using f st by (cases st; simp)+
  show ?thesis
    by (cases "u (so_state st)")
      (use f same in \<open>simp_all add: call_store_def st update_store_def drain.simps notify_all_def\<close>)
qed

lemma idle_state [simp]: "idle (st\<lparr>so_state := s\<rparr>) \<longleftrightarrow> idle st"
  by (simp add: idle_def)

section \<open>Revisions\<close>

definition rev_of :: "renderer_state \<Rightarrow> string \<Rightarrow> number option" where
  "rev_of s n = map_option dr_revision (omap_get (st_documents s) n)"

fun is_save :: "workspace_operation \<Rightarrow> bool" where
  "is_save (SaveDocument _ _ _ _ _ _) = True"
| "is_save _ = False"

fun saves_note :: "string \<Rightarrow> workspace_operation \<Rightarrow> bool" where
  "saves_note n (SaveDocument i _ _ _ _ _) \<longleftrightarrow> i = n"
| "saves_note n _ \<longleftrightarrow> False"

definition saves_of :: "string \<Rightarrow> workspace_operation list \<Rightarrow> nat" where
  "saves_of n operations = length (filter (saves_note n) operations)"

lemma saves_of_simps [simp]:
  "saves_of n [] = 0"
  "saves_of n (operation # operations) = (if saves_note n operation then Suc (saves_of n operations) else saves_of n operations)"
  by (simp_all add: saves_of_def)

lemma is_saveE:
  assumes "is_save operation"
  obtains n j m w e t where "operation = SaveDocument n j m w e t"
  using assms by (cases operation) simp_all

lemma with_references_documents [simp]: "st_documents (with_references p s) = st_documents s"
  by (simp add: with_references_def split: option.splits)

lemma save_keeps:
  assumes "is_save operation"
  shows "reduceState s operation = Unchanged \<or> (\<exists>t. reduceState s operation = Changed t \<and> rev_of t = rev_of s)"
proof -
  from assms obtain n j m w e t where o: "operation = SaveDocument n j m w e t" by (rule is_saveE)
  show ?thesis
    by (cases "omap_get (st_documents s) n")
      (auto simp: o reduceState_def reduce_workspace_def withSavedDocument_def rev_of_def write_document_def fun_eq_iff)
qed

lemma saves_keep:
  "list_all is_save operations \<Longrightarrow> reduce_all reduceState s operations = Unchanged \<or>
     (\<exists>t. reduce_all reduceState s operations = Changed t \<and> rev_of t = rev_of s)"
proof (induction operations arbitrary: s)
  case (Cons operation operations)
  then have "is_save operation" by simp
  from save_keeps [OF this, of s] show ?case
  proof (elim disjE exE conjE)
    assume "reduceState s operation = Unchanged"
    with Cons show ?thesis by simp
  next
    fix t assume t: "reduceState s operation = Changed t" "rev_of t = rev_of s"
    have "list_all is_save operations" using Cons.prems by simp
    from Cons.IH [OF this, of t] t show ?thesis by auto
  qed
qed simp

lemma saves_apply:
  assumes "list_all is_save operations"
  shows "applyOperations operations s = Same \<or> (\<exists>t. applyOperations operations s = Next t \<and> rev_of t = rev_of s)"
proof -
  have "\<not> list_ex records_import operations"
    using assms by (induction operations) (auto simp: records_import_def elim!: is_saveE)
  then have "\<not> is_import_batch operations" by (simp add: is_import_batch_def)
  with saves_keep [OF assms, of s] show ?thesis by (auto simp: applyOperations_def reduceImportBatch_def)
qed

text \<open>What the acknowledgement says and does.\<close>

definition acked :: "renderer_state \<Rightarrow> (string, entity_revision) omap \<Rightarrow> string \<Rightarrow> number" where
  "acked s revisions n =
     (case omap_get revisions n of Some r \<Rightarrow> er_revision r
      | None \<Rightarrow> (case rev_of s n of Some r \<Rightarrow> r | None \<Rightarrow> 0))"

lemma list_all_set: "list_all P m \<Longrightarrow> P (k, v) \<Longrightarrow> list_all P (omap_set k v m)"
  by (induction m) auto

lemma ack_saves:
  "list_all is_save operations \<Longrightarrow> omap_wf m \<Longrightarrow> list_all (\<lambda>(k, r). er_id r = k) m \<Longrightarrow>
     omap_wf (fold (ack_save s) operations m) \<and> list_all (\<lambda>(k, r). er_id r = k) (fold (ack_save s) operations m) \<and>
     acked s (fold (ack_save s) operations m) n = acked s m n + of_nat (saves_of n operations)"
proof (induction operations arbitrary: m)
  case (Cons operation operations)
  from Cons.prems(1) have "is_save operation" by simp
  then obtain i j d w e t where o: "operation = SaveDocument i j d w e t" by (rule is_saveE)
  let ?m = "ack_save s operation m"
  have m: "?m = omap_set i \<lparr>er_id = i, er_revision = acked s m i + 1\<rparr> m"
    by (auto simp: o ack_save_def Let_def acked_def rev_of_def split: option.splits)
  have "list_all (\<lambda>(k, r). er_id r = k) ?m"
    unfolding m using Cons.prems(3) by (intro list_all_set) simp_all
  moreover have "omap_wf ?m" unfolding m using Cons.prems(2) by simp
  moreover have "acked s ?m n = acked s m n + (if i = n then 1 else 0)" by (cases "i = n") (simp_all add: m acked_def)
  ultimately show ?case using Cons.IH [of ?m] Cons.prems(1) by (simp add: o)
qed simp

lemma ack_places: "list_all is_save operations \<Longrightarrow> fold (ack_place s) operations m = m"
  by (induction operations arbitrary: m) (auto simp: ack_place_def placedNodeId_def elim!: is_saveE)

lemma same_revision: "dr_revision d = v \<Longrightarrow> d\<lparr>dr_revision := v\<rparr> = d"
  by (cases d) simp

lemma ack_revisions:
  "distinct (map er_id revisions) \<Longrightarrow>
     map_option dr_revision (omap_get (fst (fold ack_revision revisions acc)) n) =
     map_option (\<lambda>d. case map_of (map (\<lambda>r. (er_id r, er_revision r)) revisions) n of Some v \<Rightarrow> v | None \<Rightarrow> dr_revision d)
       (omap_get (fst acc) n)"
proof (induction revisions arbitrary: acc)
  case (Cons r revisions)
  have fresh: "er_id r \<notin> set (map er_id revisions)" using Cons.prems by simp
  then have none: "map_of (map (\<lambda>r. (er_id r, er_revision r)) revisions) (er_id r) = None"
    by (auto simp: map_of_eq_None_iff)
  have one: "omap_get (fst (ack_revision r acc)) n =
      map_option (\<lambda>d. if n = er_id r then d\<lparr>dr_revision := er_revision r\<rparr> else d) (omap_get (fst acc) n)"
    using same_revision
    by (cases "omap_get (fst acc) n"; cases "omap_get (fst acc) (er_id r)") (auto simp: ack_revision_def)
  show ?case using Cons.IH [of "ack_revision r acc"] Cons.prems none one
    by (cases "omap_get (fst acc) n"; cases "n = er_id r") simp_all
qed (simp add: option.map_ident)

lemma ack_unchanged: "\<not> snd (fold ack_revision revisions acc) \<Longrightarrow> \<not> snd acc \<and> fold ack_revision revisions acc = acc"
proof (induction revisions arbitrary: acc)
  case (Cons r revisions)
  then have r: "\<not> snd (ack_revision r acc)" "fold ack_revision revisions (ack_revision r acc) = ack_revision r acc"
    by simp_all
  from r(1) have "\<not> snd acc \<and> ack_revision r acc = acc"
    by (auto simp: ack_revision_def split: option.splits if_splits)
  with r(2) show ?case by simp
qed simp

lemma saves_acked:
  assumes "list_all is_save operations"
  shows "\<exists>t. settle s (applyAck (ack_for operations s) s) = Some t \<and>
    (\<forall>n. rev_of t n = map_option (\<lambda>r. r + of_nat (saves_of n operations)) (rev_of s n))"
proof -
  let ?m = "fold (ack_save s) operations []"
  let ?docs = "fold ack_revision (omap_values ?m) (st_documents s, False)"
  have wf: "omap_wf ?m" and keys: "list_all (\<lambda>(k, r). er_id r = k) ?m"
    using ack_saves [OF assms, of "[]"] by simp_all
  have ids: "map er_id (omap_values ?m) = omap_keys ?m"
    using keys by (auto simp: list_all_iff)
  have distinct_ids: "distinct (map er_id (omap_values ?m))" unfolding ids by (rule wf)
  have pairs: "map (\<lambda>r. (er_id r, er_revision r)) (omap_values m) = map (\<lambda>(k, r). (k, er_revision r)) m"
    if "list_all (\<lambda>(k, r). er_id r = k) m" for m :: "(string, entity_revision) omap" using that by (induction m) auto
  have "map_of (map (\<lambda>r. (er_id r, er_revision r)) (omap_values ?m)) n = map_option er_revision (omap_get ?m n)" for n
    unfolding pairs [OF keys] map_of_map by simp
  moreover have "(case map_option er_revision (omap_get ?m n) of Some v \<Rightarrow> v | None \<Rightarrow> r) = r + of_nat (saves_of n operations)"
    if "rev_of s n = Some r" for n r
    using ack_saves [OF assms, of "[]" s n] that by (cases "omap_get ?m n") (simp_all add: acked_def)
  ultimately have rev: "map_option dr_revision (omap_get (fst ?docs) n) = map_option (\<lambda>r. r + of_nat (saves_of n operations)) (rev_of s n)" for n
    using ack_revisions [OF distinct_ids, of "(st_documents s, False)" n]
    by (cases "omap_get (st_documents s) n") (simp_all add: rev_of_def)
  have "applyAck (ack_for operations s) s = (if \<not> snd ?docs then Unchanged else Changed (s\<lparr>st_documents := fst ?docs\<rparr>))"
    by (simp add: applyAck_def ack_for_def ack_places [OF assms] split: prod.splits)
  moreover have "fst ?docs = st_documents s" if "\<not> snd ?docs" using ack_unchanged [OF that] by simp
  ultimately show ?thesis using rev by (cases "snd ?docs") (simp_all add: rev_of_def)
qed

section \<open>Accepted saves\<close>

lemma validate_saves:
  "validate_envelopes s expected envelopes = None \<Longrightarrow> list_all (\<lambda>x. is_save (snd x)) envelopes \<Longrightarrow>
     (p, SaveDocument n j m w e t) \<in> set envelopes \<Longrightarrow>
     \<exists>k < saves_of n (map snd envelopes). \<exists>r. (case omap_get expected n of Some r \<Rightarrow> Some r | None \<Rightarrow> rev_of s n) = Some r \<and> e = r + of_nat k"
proof (induction envelopes arbitrary: expected)
  case (Cons x envelopes)
  from Cons.prems(2) obtain q i j' m' w' e' t' where x: "x = (q, SaveDocument i j' m' w' e' t')"
    by (cases x) (auto elim!: is_saveE)
  let ?base = "\<lambda>n. case omap_get expected n of Some r \<Rightarrow> Some r | None \<Rightarrow> rev_of s n"
  from Cons.prems(1) have b: "?base i = Some e'" and rest: "validate_envelopes s (omap_set i (e' + 1) expected) envelopes = None"
    by (auto simp: x rev_of_def split: option.splits if_splits)
  show ?case
  proof (cases "(p, SaveDocument n j m w e t) = x")
    case True
    with b show ?thesis by (intro exI [of _ 0]) (auto simp: x)
  next
    case False
    with Cons.IH [OF rest] Cons.prems(2,3) obtain k r where k: "k < saves_of n (map snd envelopes)"
      "(case omap_get (omap_set i (e' + 1) expected) n of Some r \<Rightarrow> Some r | None \<Rightarrow> rev_of s n) = Some r" "e = r + of_nat k"
      by auto
    show ?thesis
    proof (cases "n = i")
      case True
      with k b show ?thesis by (intro exI [of _ "Suc k"]) (auto simp: x)
    next
      case False
      with k show ?thesis by (intro exI [of _ k]) (auto simp: x)
    qed
  qed
qed simp

lemma save_batch:
  assumes "idle (mb_canonical b)" and "list_all is_save operations"
  shows "\<exists>b' ack. apply_batch operations b = Some (b', Inr ack) \<and> idle (mb_canonical b') \<and>
    (\<forall>n. rev_of (mb_state b') n = map_option (\<lambda>r. r + of_nat (saves_of n operations)) (rev_of (mb_state b) n))"
proof -
  from saves_apply [OF assms(2), of "mb_state b"] obtain c where
      c: "call_store (applyOperations operations) b = Some (c, Inr ())" "idle (mb_canonical c)" "rev_of (mb_state c) = rev_of (mb_state b)"
    using assms(1) by (auto simp: call_idle)
  from saves_acked [OF assms(2), of "mb_state c"] obtain t where
      t: "settle (mb_state c) (applyAck (ack_for operations (mb_state c)) (mb_state c)) = Some t"
        "\<And>n. rev_of t n = map_option (\<lambda>r. r + of_nat (saves_of n operations)) (rev_of (mb_state c) n)" by blast
  have "\<exists>d. call_store (\<lambda>s. updated_of (applyAck (ack_for operations (mb_state c)) s)) c = Some (d, Inr ()) \<and>
      idle (mb_canonical d) \<and> mb_state d = t"
    using c(2) t(1) by (cases "applyAck (ack_for operations (mb_state c)) (mb_state c)") (auto simp: call_idle)
  then obtain d where "call_store (\<lambda>s. updated_of (applyAck (ack_for operations (mb_state c)) s)) c = Some (d, Inr ())"
      "idle (mb_canonical d)" "mb_state d = t" by blast
  with c t(2) show ?thesis by (simp add: apply_batch_def Let_def)
qed

text \<open>C13. On a bridge whose store is idle and without subscribers (in particular no earlier import has thrown in it), a valid batch of saves raises the revision of each note by the number of its saves and no other revision, and repeating any of those saves later, also as the first of a longer batch, is refused as a conflict that changes nothing.\<close>

theorem accepted_save_is_stale:
  assumes "idle (mb_canonical b)" and "list_all (\<lambda>x. is_save (snd x)) envelopes"
    and "validate (mb_state b) envelopes = None"
  shows "\<exists>b' ack. applyWorkspaceOperations envelopes b = Some (b', Inr ack) \<and> idle (mb_canonical b') \<and>
    (\<forall>n. rev_of (mb_state b') n = map_option (\<lambda>r. r + of_nat (saves_of n (map snd envelopes))) (rev_of (mb_state b) n)) \<and>
    (\<forall>(p, operation) \<in> set envelopes. case operation of SaveDocument n _ _ _ e _ \<Rightarrow>
       (\<forall>doc markdown words now later. \<exists>r. applyWorkspaceOperations ((1, SaveDocument n doc markdown words e now) # later) b' =
          Some (b', Inl (RevisionConflict n e r))) | _ \<Rightarrow> True)"
proof -
  have "list_all is_save (map snd envelopes)" using assms(2) by (simp add: list_all_iff)
  from save_batch [OF assms(1) this] obtain b' ack where b': "apply_batch (map snd envelopes) b = Some (b', Inr ack)"
    "idle (mb_canonical b')"
    "\<And>n. rev_of (mb_state b') n = map_option (\<lambda>r. r + of_nat (saves_of n (map snd envelopes))) (rev_of (mb_state b) n)" by blast
  have "\<exists>r. applyWorkspaceOperations ((1, SaveDocument n doc markdown words e now) # later) b' = Some (b', Inl (RevisionConflict n e r))"
    if "(p, SaveDocument n j m w e t) \<in> set envelopes" for p n j m w e t doc markdown words now later
  proof -
    from validate_saves [OF assms(3) [unfolded validate_def] assms(2) that] obtain k r where
      k: "k < saves_of n (map snd envelopes)" "rev_of (mb_state b) n = Some r" "e = r + of_nat k" by auto
    then have "rev_of (mb_state b') n = Some (r + of_nat (saves_of n (map snd envelopes)))"
      and "r + of_nat (saves_of n (map snd envelopes)) \<noteq> e" by (simp_all add: b'(3))
    then obtain d where "omap_get (st_documents (mb_state b')) n = Some d" "dr_revision d \<noteq> e" by (auto simp: rev_of_def)
    then show ?thesis by (simp add: applyWorkspaceOperations_def validate_def WORKSPACE_PROTOCOL_VERSION_def)
  qed
  with b' assms(3) show ?thesis by (auto simp: applyWorkspaceOperations_def split: workspace_operation.splits)
qed

definition sample_bridge :: memory_bridge where
  "sample_bridge = \<lparr>mb_canonical = new_store (empty_state\<lparr>st_documents := [(''n'',
       \<lparr>dr_noteId = ''n'', dr_documentJson = JNull, dr_markdown = [], dr_revision = 3, dr_wordCount = 0,
        dr_hasLosslessMarkdown = False, dr_sealed = Undefined\<rparr>)]\<rparr>), mb_blobs = [], mb_lock = None,
     mb_expandedFolderIds = None, mb_activeSlot = None, mb_syncConnected = False, mb_syncOnline = True\<rparr>"

lemma sample_idle: "idle (mb_canonical sample_bridge)"
  by (simp add: idle_def sample_bridge_def new_store_def)

theorem accepted_save_is_stale_witness:
  "\<exists>b' ack. applyWorkspaceOperations [(1, SaveDocument ''n'' JNull ''x'' 1 3 0)] sample_bridge = Some (b', Inr ack) \<and>
     rev_of (mb_state b') ''n'' = Some 4"
proof -
  have "validate (mb_state sample_bridge) [(1, SaveDocument ''n'' JNull ''x'' 1 3 0)] = None"
    "rev_of (mb_state sample_bridge) ''n'' = Some 3"
    by (simp_all add: validate_def WORKSPACE_PROTOCOL_VERSION_def sample_bridge_def new_store_def rev_of_def)
  with accepted_save_is_stale [OF sample_idle _ this(1)] show ?thesis by auto
qed

section \<open>The lock\<close>

text \<open>The calls that change the adapter.\<close>

datatype bridge_call =
    ApplyOperations "(number \<times> workspace_operation) list"
  | SaveExpansion "string list"
  | ConfigureLock note_lock_secret_input string
  | UnlockLock string
  | RecoverLock string note_lock_secret_input
  | ChangeSecret note_lock_secret_input
  | RelockLock
  | RemoveLock number
  | StoreImage bytes
  | ConnectSync string
  | PauseSync
  | SetOnline bool
  | AdoptSlot string

fun run_call :: "bridge_call \<Rightarrow> memory_bridge \<Rightarrow> memory_bridge option" where
  "run_call (ApplyOperations envelopes) b = map_option fst (applyWorkspaceOperations envelopes b)"
| "run_call (SaveExpansion ids) b = Some (saveSidebarExpansion ids b)"
| "run_call (ConfigureLock input time) b = Some (fst (configureNoteLock input time b))"
| "run_call (UnlockLock secret) b = Some (fst (unlockNoteLock secret b))"
| "run_call (RecoverLock code input) b = Some (fst (recoverNoteLock code input b))"
| "run_call (ChangeSecret input) b = Some (fst (changeNoteLockSecret input b))"
| "run_call RelockLock b = Some (fst (relockNoteLock b))"
| "run_call (RemoveLock now) b = map_option fst (removeNoteLock now b)"
| "run_call (StoreImage bytes) b = Some (fst (storeNoteImage bytes b))"
| "run_call (ConnectSync token) b = Some (fst (connectWorkspaceSync token b))"
| "run_call PauseSync b = Some (fst (pauseWorkspaceSync b))"
| "run_call (SetOnline online) b = Some (setWorkspaceSyncOnline online b)"
| "run_call (AdoptSlot i) b = Some (fst (adoptWorkspaceSlot i b))"

fun run_calls :: "bridge_call list \<Rightarrow> memory_bridge \<Rightarrow> memory_bridge option" where
  "run_calls [] b = Some b"
| "run_calls (c # cs) b = Option.bind (run_call c b) (run_calls cs)"

text \<open>A call that presents neither the secret nor the recovery code.\<close>

fun without_key :: "installed_lock \<Rightarrow> bridge_call \<Rightarrow> bool" where
  "without_key k (UnlockLock secret) \<longleftrightarrow> secret \<noteq> li_secret (ik_input k)"
| "without_key k (RecoverLock code _) \<longleftrightarrow> code \<noteq> ik_recoveryCode k"
| "without_key k _ \<longleftrightarrow> True"

fun is_attempt :: "bridge_call \<Rightarrow> bool" where
  "is_attempt (UnlockLock _) \<longleftrightarrow> True"
| "is_attempt _ \<longleftrightarrow> False"

lemma call_store_lock: "call_store u b = Some (b', r) \<Longrightarrow> mb_lock b' = mb_lock b"
  by (auto simp: call_store_def)

lemma apply_batch_lock: "apply_batch operations b = Some (b', r) \<Longrightarrow> mb_lock b' = mb_lock b"
proof -
  assume a: "apply_batch operations b = Some (b', r)"
  then obtain c p where c: "call_store (applyOperations operations) b = Some (c, p)"
    by (auto simp: apply_batch_def bind_eq_Some_conv)
  show "mb_lock b' = mb_lock b"
  proof (cases p)
    case (Inl e)
    with a c call_store_lock [OF c] show ?thesis by (simp add: apply_batch_def)
  next
    case (Inr u)
    with a c obtain d q where "call_store (\<lambda>s. updated_of (applyAck (ack_for operations (mb_state c)) s)) c = Some (d, q)" "b' = d"
      by (auto simp: apply_batch_def Let_def bind_eq_Some_conv)
    with call_store_lock [OF c] call_store_lock show ?thesis by metis
  qed
qed

lemma apply_lock: "applyWorkspaceOperations envelopes b = Some (b', r) \<Longrightarrow> mb_lock b' = mb_lock b"
  by (auto simp: applyWorkspaceOperations_def apply_batch_lock split: option.splits)

lemma shut_call:
  assumes "run_call c b = Some b'" and "mb_lock b = Some k" and "\<not> ik_unlocked k" and "without_key k c"
  shows "mb_lock b' = Some (if is_attempt c then k\<lparr>ik_failedAttempts := ik_failedAttempts k + 1\<rparr> else k)"
  using assms
  by (cases c) (auto simp: saveSidebarExpansion_def configureNoteLock_def unlockNoteLock_def recoverNoteLock_def
      changeNoteLockSecret_def requireUnlocked_def relockNoteLock_def with_lock_state_def removeNoteLock_def storeNoteImage_def
      Let_def connectWorkspaceSync_def pauseWorkspaceSync_def setWorkspaceSyncOnline_def adoptWorkspaceSlot_def
      dest: apply_lock split: if_splits)

text \<open>C14. Until the right secret or recovery code is given, no sequence of bridge calls opens a shut lock: only the count of failed attempts changes, and reading locked notes, changing the secret and removing the lock are refused.\<close>

theorem shut_lock_stays_shut:
  assumes "run_calls calls b = Some b'" and "mb_lock b = Some k" and "\<not> ik_unlocked k"
    and "list_all (without_key k) calls"
  shows "mb_lock b' = Some (k\<lparr>ik_failedAttempts := ik_failedAttempts k + of_nat (length (filter is_attempt calls))\<rparr>) \<and>
    readLockedDocuments noteIds b' = Inl LockIsLocked \<and> changeNoteLockSecret input b' = (b', Inl LockIsLocked) \<and>
    removeNoteLock now b' = Some (b', Inl LockIsLocked)"
proof -
  have "mb_lock b' = Some (k\<lparr>ik_failedAttempts := ik_failedAttempts k + of_nat (length (filter is_attempt calls))\<rparr>)"
    using assms
  proof (induction calls arbitrary: b k)
    case (Cons c calls)
    from Cons.prems(1) obtain d where d: "run_call c b = Some d" "run_calls calls d = Some b'" by (auto simp: bind_eq_Some_conv)
    let ?k = "if is_attempt c then k\<lparr>ik_failedAttempts := ik_failedAttempts k + 1\<rparr> else k"
    have "without_key ?k = without_key k" by (rule ext) (case_tac x, simp_all)
    with Cons.IH [OF d(2), of ?k] shut_call [OF d(1) Cons.prems(2,3)] Cons.prems(3,4) show ?case
      by (auto simp: algebra_simps)
  qed simp
  with assms(3) show ?thesis
    by (simp add: readLockedDocuments_def changeNoteLockSecret_def removeNoteLock_def requireUnlocked_def)
qed

theorem shut_lock_stays_shut_witness:
  "readLockedDocuments None (the (run_calls [RelockLock, UnlockLock ''0'', RelockLock, SetOnline False]
     (sample_bridge\<lparr>mb_lock := Some \<lparr>ik_input = \<lparr>li_kind = LockPin, li_secret = ''1234'', li_hint = None\<rparr>, ik_recoveryCode = ''r'',
        ik_unlocked = False, ik_failedAttempts = 0\<rparr>\<rparr>))) = Inl LockIsLocked"
proof -
  let ?k = "\<lparr>ik_input = \<lparr>li_kind = LockPin, li_secret = ''1234'', li_hint = None\<rparr>, ik_recoveryCode = ''r'',
    ik_unlocked = False, ik_failedAttempts = 0\<rparr>"
  let ?calls = "[RelockLock, UnlockLock ''0'', RelockLock, SetOnline False]"
  obtain b' where b': "run_calls ?calls (sample_bridge\<lparr>mb_lock := Some ?k\<rparr>) = Some b'" by simp
  have "list_all (without_key ?k) ?calls" by simp
  from shut_lock_stays_shut [OF b' _ _ this] show ?thesis using b' by simp
qed

section \<open>After the store has thrown\<close>

text \<open>C29. After an import batch has thrown in the store behind the bridge, every later valid batch is acknowledged as fully applied although none changes the state.\<close>

theorem acknowledged_without_applying:
  assumes "idle (mb_canonical b)" and "validate (mb_state b) envelopes = None"
    and "reduceImportBatch (mb_state b) (map snd envelopes) = ImportThrows issues"
  shows "\<exists>b'. applyWorkspaceOperations envelopes b = Some (b', Inl (StoreThrew issues)) \<and> mb_state b' = mb_state b \<and>
    (\<forall>batches. list_all (\<lambda>batch. validate (mb_state b) batch = None) batches \<longrightarrow>
       (\<exists>b''. run_calls (map ApplyOperations batches) b' = Some b'' \<and> mb_state b'' = mb_state b \<and>
          (\<forall>batch. validate (mb_state b) batch = None \<longrightarrow>
             (\<exists>b3 ack. applyWorkspaceOperations batch b'' = Some (b3, Inr ack) \<and> ack_applied ack = of_nat (length batch) \<and>
                mb_state b3 = mb_state b))))"
proof -
  let ?wedged = "\<lambda>c. \<not> so_destroyed (mb_canonical c) \<and> so_publishing (mb_canonical c) \<and> mb_state c = mb_state b"
  define b' where "b' = b\<lparr>mb_canonical := (mb_canonical b)\<lparr>so_publishing := True\<rparr>\<rparr>"
  have "applyOperations (map snd envelopes) (mb_state b) = Throws issues" by (simp add: applyOperations_def assms(3))
  then have "call_store (applyOperations (map snd envelopes)) b = Some (b', Inl (StoreThrew issues))"
    by (simp add: call_idle [OF assms(1)] b'_def)
  then have a: "applyWorkspaceOperations envelopes b = Some (b', Inl (StoreThrew issues))"
    by (simp add: applyWorkspaceOperations_def assms(2) apply_batch_def)
  have w: "?wedged b'" using assms(1) by (simp add: b'_def idle_def)
  have one: "\<exists>d ack. applyWorkspaceOperations batch c = Some (d, Inr ack) \<and> ack_applied ack = of_nat (length batch) \<and> ?wedged d"
    if "?wedged c" "validate (mb_state b) batch = None" for c batch
    using that by (simp add: applyWorkspaceOperations_def apply_batch_def call_store_def update_store_def ack_for_def Let_def)
  have many: "\<exists>d. run_calls (map ApplyOperations batches) c = Some d \<and> ?wedged d"
    if "?wedged c" "list_all (\<lambda>batch. validate (mb_state b) batch = None) batches" for c batches
    using that
  proof (induction batches arbitrary: c)
    case (Cons batch batches)
    from Cons.prems(2) have "validate (mb_state b) batch = None" by simp
    from one [OF Cons.prems(1) this] obtain d ack where d: "applyWorkspaceOperations batch c = Some (d, Inr ack)" "?wedged d" by blast
    from Cons.IH [OF d(2)] Cons.prems(2) d(1) show ?case by simp
  qed simp
  from a w show ?thesis using one many [OF w] by (intro exI [of _ b']) meson
qed

theorem acknowledged_without_applying_witness:
  "\<exists>b'. applyWorkspaceOperations (map (Pair 1) bad_import) sample_bridge = Some (b', Inl (StoreThrew [''note ID is invalid'']))"
proof -
  have "validate_envelopes s [] (map (Pair 1) (replicate k (RenameNode [] [] 0))) = None" for s k
    by (induction k) (simp_all add: WORKSPACE_PROTOCOL_VERSION_def)
  then have v: "validate (mb_state sample_bridge) (map (Pair 1) bad_import) = None"
    by (simp add: validate_def bad_import_def WORKSPACE_PROTOCOL_VERSION_def)
  have "map snd (map (Pair (1 :: number)) bad_import) = bad_import" by (simp add: comp_def)
  with acknowledged_without_applying [OF sample_idle v, of "[''note ID is invalid'']"] show ?thesis
    using bad_import_throws by metis
qed

section \<open>Search and the trash\<close>

text \<open>The scan looks at a note's own \<open>deletedAt\<close> only, so a note in a trashed folder is still found.\<close>

definition sample_node :: "string \<Rightarrow> node_kind \<Rightarrow> string option \<Rightarrow> number option \<Rightarrow> workspace_node" where
  "sample_node i kind parent deleted = \<lparr>n_id = i, n_kind = kind, n_parentId = parent, n_rank = 0, n_title = ''plan'',
     n_icon = None, n_coverImageId = Undefined, n_coverGradient = Undefined, n_coverFullWidth = None, n_coverPositionX = None,
     n_coverPositionY = None, n_coverZoom = None, n_createdAt = 0, n_updatedAt = 0, n_deletedAt = deleted, n_pinnedAt = None,
     n_lockedAt = Undefined\<rparr>"

lemma search_finds_trashed:
  fixes nodes defines "nodes \<equiv> [(''f'', sample_node ''f'' KFolder None (Some 1)), (''n'', sample_node ''n'' KNote (Some ''f'') None)]"
  shows "''n'' \<in> set (unavailableNodeIds (omap_values nodes)) \<and>
    map sh_noteId (searchWorkspace ''plan'' 10 None
      (sample_bridge\<lparr>mb_canonical := new_store (empty_state\<lparr>st_sourceNodes := nodes, st_documents := []\<rparr>)\<rparr>)) = [''n'']"
proof -
  have "''n'' \<in> set (unavailableNodeIds (omap_values nodes))" unfolding nodes_def by code_simp
  moreover have "toLowerCase (js_trim ''plan'') = ''plan''" "toLowerCase ''plan'' = ''plan''" by code_simp+
  moreover then have "matches (sample_node ''n'' KNote (Some ''f'') None) ''plan'' [] =
      Some \<lparr>sh_noteId = ''n'', sh_title = ''plan'', sh_snippet = [], sh_score = 2\<rparr>"
    by (simp add: matches_def sample_node_def toLowerCase_def startsWith_def)
  ultimately show ?thesis
    by (simp add: searchWorkspace_def search_hits_def nodes_def new_store_def List.map_filter_def locked_node_def)
      (simp add: sample_node_def)
qed

section \<open>Content keys\<close>

definition hex_val :: "char \<Rightarrow> nat" where
  "hex_val c = (if (of_char c :: nat) < 58 then of_char c - 48 else of_char c - 87)"

definition hex_read :: "string \<Rightarrow> nat" where
  "hex_read s = fold (\<lambda>c n. 16 * n + hex_val c) s 0"

lemma hex_digit:
  assumes "d < 16"
  shows "hex_val (if d < 10 then char_of (48 + d :: nat) else char_of (87 + d :: nat)) = d"
  using assms by (simp add: hex_val_def of_char_of)

lemma hex_read_digits: "hex_read (hex_digits n) = n"
proof (induction n rule: hex_digits.induct)
  case (1 n)
  have "hex_val (if n mod 16 < 10 then char_of (48 + n mod 16 :: nat) else char_of (87 + n mod 16 :: nat)) = n mod 16"
    by (rule hex_digit) simp
  with 1 show ?case
    by (cases "n < 16") (simp_all add: hex_digits.simps [of n] Let_def hex_read_def)
qed

lemma hex_length: "n < 16 ^ k \<Longrightarrow> 0 < k \<Longrightarrow> length (hex_digits n) \<le> k"
proof (induction n arbitrary: k rule: hex_digits.induct)
  case (1 n)
  show ?case
  proof (cases "n < 16")
    case True
    with 1 show ?thesis by (simp add: hex_digits.simps [of n] Let_def)
  next
    case False
    with "1.prems" obtain k' where k: "k = Suc k'" "0 < k'" by (cases k; cases "k - 1") auto
    from "1.prems"(1) have "n div 16 < 16 ^ k'" unfolding k by (simp add: less_mult_imp_div_less mult.commute)
    with "1.IH" [OF refl False this k(2)] False show ?thesis
      by (simp add: hex_digits.simps [of n] Let_def k(1))
  qed
qed

lemma hex_word_length: "length (hex_word w) = 8"
proof -
  have "unat w < 16 ^ 8" using unsigned_less [of w, where ?'a = nat] by simp
  then show ?thesis unfolding hex_word_def by (intro padStart_length hex_length) simp_all
qed

lemma hex_word_inject: "hex_word v = hex_word w \<longleftrightarrow> v = w"
proof
  assume "hex_word v = hex_word w"
  moreover have "hex_read (hex_word u) = unat u" for u
  proof -
    have "hex_read (replicate k (CHR ''0'') @ t) = hex_read t" for k t
      by (induction k) (simp_all add: hex_read_def hex_val_def)
    then show ?thesis by (simp add: hex_word_def padStart_def hex_read_digits)
  qed
  ultimately show "v = w" by (metis word_unat_eq_iff)
qed simp

text \<open>The factor is odd, so multiplying by it loses nothing.\<close>

lemma odd_factor: "(a :: 32 word) * 0x01000193 = b * 0x01000193 \<longleftrightarrow> a = b"
proof
  have i: "(0x01000193 :: 32 word) * 899433627 = 1" by code_simp
  assume "a * 0x01000193 = b * 0x01000193"
  then have "a * 0x01000193 * 899433627 = b * 0x01000193 * 899433627" by (simp only:)
  then show "a = b" unfolding mult.assoc i by simp
qed simp

lemma mix_lane: "mix v c 0x01000193 = mix w c 0x01000193 \<longleftrightarrow> v = w"
proof
  assume "mix v c 0x01000193 = mix w c 0x01000193"
  then have "xor v (ucast c) = xor w (ucast c)" by (simp only: mix_def odd_factor)
  then have "xor (xor v (ucast c)) (ucast c) = xor (xor w (ucast c)) (ucast c)" by simp
  then show "v = w" by (simp add: xor.assoc)
qed simp

lemma mix_byte: "mix v c 0x01000193 = mix v d 0x01000193 \<longleftrightarrow> c = d"
proof
  assume "mix v c 0x01000193 = mix v d 0x01000193"
  then have "xor v (ucast c) = xor v (ucast d)" by (simp only: mix_def odd_factor)
  then have "xor v (xor v (ucast c)) = xor v (xor v (ucast d))" by simp
  then have "(ucast c :: 32 word) = ucast d" by (simp flip: xor.assoc)
  moreover have "unat (ucast x :: 32 word) = unat x" for x :: "8 word"
    unfolding unsigned_ucast_eq using unsigned_less [of x, where ?'a = nat] by (simp add: take_bit_nat_eq_self)
  ultimately show "c = d" by (metis word_unat_eq_iff)
qed simp

lemma high_lane:
  "fst (fold (\<lambda>byte (high, low). (mix high byte 0x01000193, mix low byte 0x811c9dc5)) bytes acc) =
     fold (\<lambda>byte high. mix high byte 0x01000193) bytes (fst acc)"
  by (induction bytes arbitrary: acc) (simp_all add: case_prod_beta)

lemma high_lane_inject:
  "fold (\<lambda>byte high. mix high byte 0x01000193) bytes v = fold (\<lambda>byte high. mix high byte 0x01000193) bytes w \<longleftrightarrow> v = w"
  by (induction bytes arbitrary: v w) (simp_all add: mix_lane)

theorem content_key_detects_byte:
  "contentKey (before @ a # after) = contentKey (before @ b # after) \<longleftrightarrow> a = b"
proof
  assume "contentKey (before @ a # after) = contentKey (before @ b # after)"
  then have "hex_word (fst (hash_lanes (before @ a # after))) = hex_word (fst (hash_lanes (before @ b # after)))"
    by (simp add: contentKey_def case_prod_beta hex_word_length)
  then have "fst (hash_lanes (before @ a # after)) = fst (hash_lanes (before @ b # after))" by (simp only: hex_word_inject)
  then show "a = b" unfolding hash_lanes_def high_lane by (simp add: high_lane_inject mix_byte)
qed simp

text \<open>What was stored is read back until other bytes of the same key are stored.\<close>

theorem stored_image_read_back:
  "readNoteImageBlob (si_contentHash (snd (storeNoteImage bytes b))) (fst (storeNoteImage bytes b)) = Inr bytes"
  by (simp add: storeNoteImage_def readNoteImageBlob_def Let_def)

end
