(* ===== verification/Ai_Runs.thy ===== *)
theory Ai_Runs
  imports Text_Diff
begin

text \<open>
  The state of one AI action and its transitions
  (\<open>src/apps/workspace/src/features/ai/actions/model.ts\<close>, the types of \<open>contracts/ai.ts\<close>) and what the
  card shows of it (\<open>features/ai/run/progress.ts\<close>). A dash outside the first 256 characters is a
  parameter; the elapsed time label, which prints with \<open>toFixed\<close>, is left out.
\<close>

section \<open>The provider seam\<close>

record completion_parameters =
  cp_maxOutputBytes :: nat
  cp_timeoutMs :: nat
  cp_retryCount :: nat
  cp_temperatureMillis :: "int option"
  cp_topPMillis :: "int option"

record completion_request =
  cr_requestId :: string
  cr_providerId :: string
  cr_modelId :: string
  cr_systemPrompt :: string
  cr_userPrompt :: string
  cr_parameters :: completion_parameters

record ai_usage =
  au_inputTokens :: nat
  au_outputTokens :: nat

datatype error_category =
    UnavailableProvider | MissingCredential | InvalidCredential | QuotaExhausted | RateLimited
  | RejectedRequest | TransportFailure | MalformedResponse | InternalFailure

datatype recovery_action =
    ConfigureCredential | RetryRun | ChooseDifferentModel | CheckProviderStatus | ReduceRequest | ContactProvider | NoRecovery

record provider_error =
  pe_providerId :: string
  pe_category :: error_category
  pe_message :: string
  pe_recoveryAction :: recovery_action

text \<open>The events without the request id, which every event carries.\<close>

datatype terminal = DoneEvent "ai_usage nullable" | CancelledEvent | TimeoutEvent | ProviderErrorEvent provider_error

datatype completion_event = DeltaEvent string nat string | TerminalEvent string terminal

fun event_request :: "completion_event \<Rightarrow> string" where
  "event_request (DeltaEvent i _ _) = i"
| "event_request (TerminalEvent i _) = i"

section \<open>A run\<close>

datatype action_phase = Composing | Streaming | Finished | Cancelled | TimedOut | Failed

datatype run_stage = IdleStage | Sending | Waiting | Generating | Settled

record action_run =
  ar_phase :: action_phase
  ar_stage :: run_stage
  ar_requestId :: "string option"
  ar_preview :: string
  ar_error :: "provider_error option"
  ar_startedAt :: "number option"

definition IDLE_RUN :: action_run where
  "IDLE_RUN = \<lparr>ar_phase = Composing, ar_stage = IdleStage, ar_requestId = None, ar_preview = [], ar_error = None,
     ar_startedAt = None\<rparr>"

definition startedRun :: "string \<Rightarrow> number \<Rightarrow> action_run" where
  "startedRun requestId startedAt = \<lparr>ar_phase = Streaming, ar_stage = Sending, ar_requestId = Some requestId,
     ar_preview = [], ar_error = None, ar_startedAt = Some startedAt\<rparr>"

definition connectedRun :: "action_run \<Rightarrow> string \<Rightarrow> action_run" where
  "connectedRun run requestId =
     (if ar_phase run \<noteq> Streaming \<or> ar_requestId run \<noteq> Some requestId \<or> ar_stage run \<noteq> Sending then run
      else run\<lparr>ar_stage := Waiting\<rparr>)"

definition stoppedRun :: "action_run \<Rightarrow> action_run" where
  "stoppedRun run = (if ar_phase run \<noteq> Streaming then run else run\<lparr>ar_phase := Cancelled, ar_stage := Settled\<rparr>)"

definition runWithDelta :: "action_run \<Rightarrow> string \<Rightarrow> string \<Rightarrow> action_run" where
  "runWithDelta run requestId text =
     (if ar_phase run \<noteq> Streaming \<or> ar_requestId run \<noteq> Some requestId then run
      else run\<lparr>ar_stage := Generating, ar_preview := ar_preview run @ text\<rparr>)"

definition runWithTerminal :: "action_run \<Rightarrow> string \<Rightarrow> terminal \<Rightarrow> action_run" where
  "runWithTerminal run requestId event =
     (if ar_phase run \<noteq> Streaming \<or> ar_requestId run \<noteq> Some requestId then run
      else
        let settled = run\<lparr>ar_stage := Settled\<rparr>
        in case event of
             DoneEvent _ \<Rightarrow> settled\<lparr>ar_phase := Finished\<rparr>
           | CancelledEvent \<Rightarrow> settled\<lparr>ar_phase := Cancelled\<rparr>
           | TimeoutEvent \<Rightarrow> settled\<lparr>ar_phase := TimedOut\<rparr>
           | ProviderErrorEvent e \<Rightarrow> settled\<lparr>ar_phase := Failed, ar_error := Some e\<rparr>)"

definition failedRun :: "action_run \<Rightarrow> string \<Rightarrow> string \<Rightarrow> recovery_action \<Rightarrow> action_run" where
  "failedRun run requestId message recoveryAction =
     (if ar_requestId run \<noteq> Some requestId then run
      else run\<lparr>ar_phase := Failed, ar_stage := Settled,
        ar_error := Some \<lparr>pe_providerId = ''editor'', pe_category = InternalFailure, pe_message = message,
          pe_recoveryAction = recoveryAction\<rparr>\<rparr>)"

definition runIsStreaming :: "action_run \<Rightarrow> bool" where
  "runIsStreaming run \<longleftrightarrow> ar_phase run = Streaming"

definition runHasResult :: "action_run \<Rightarrow> bool" where
  "runHasResult run \<longleftrightarrow> ar_phase run = Finished \<and> js_trim (ar_preview run) \<noteq> []"

definition canRetryRun :: "action_run \<Rightarrow> bool" where
  "canRetryRun run \<longleftrightarrow> ar_phase run \<noteq> Streaming \<and> ar_phase run \<noteq> Composing"

definition aiActionStatusLine :: "action_run \<Rightarrow> string \<Rightarrow> string" where
  "aiActionStatusLine run label =
     (let shown = int_string (int (length (ar_preview run)))
      in case ar_phase run of
           Composing \<Rightarrow> label @ '' is ready to run.''
         | Streaming \<Rightarrow>
             if ar_stage run = Sending then label @ '' is running. Sending the request.''
             else if ar_preview run = [] then label @ '' is running. Waiting for the first words.''
             else label @ '' is streaming: '' @ shown @ '' characters so far.''
         | Cancelled \<Rightarrow> label @ '' was cancelled. The note is unchanged.''
         | TimedOut \<Rightarrow> label @ '' timed out. The note is unchanged.''
         | Failed \<Rightarrow> label @ '' failed: '' @ (case ar_error run of Some e \<Rightarrow> pe_message e | None \<Rightarrow> ''the provider stopped.'')
         | Finished \<Rightarrow>
             if js_trim (ar_preview run) = [] then label @ '' finished without producing any text.''
             else label @ '' finished: '' @ shown @ '' characters ready to review.'')"

section \<open>Applying a result\<close>

record action_target =
  at_noteId :: string
  at_from :: nat
  at_to :: nat
  at_input :: string

definition applyRefusal :: "action_target \<Rightarrow> string option \<Rightarrow> string option \<Rightarrow> string option" where
  "applyRefusal target currentNoteId currentInput =
     (if currentNoteId = None then Some ''No note is open. Open the note again and re-run the action.''
      else if currentNoteId \<noteq> Some (at_noteId target) then
        Some ''This ran on a different note. Go back to that note, or run the action again here.''
      else if currentInput = None then Some ''That part of the note is gone. Run the action again.''
      else if currentInput \<noteq> Some (at_input target) then
        Some ''The note changed while this ran. Run the action again so it works on the current text.''
      else None)"

definition isKeptLine :: "diff_line \<Rightarrow> bool" where
  "isKeptLine line \<longleftrightarrow> dl_kind line = Context \<and> list_ex (\<lambda>segment. js_trim (fst segment) \<noteq> []) (dl_segments line)"

definition noteReplacementDiff :: "string \<Rightarrow> string \<Rightarrow> markdown_diff option" where
  "noteReplacementDiff note result =
     (let diff = diffMarkdown note result
      in if md_truncated diff then None
         else if md_hunks diff = [] then Some diff
         else if list_ex (\<lambda>hunk. list_ex isKeptLine (dh_hiddenBefore hunk) \<or> list_ex isKeptLine (dh_lines hunk)) (md_hunks diff)
         then Some diff else None)"

section \<open>Progress\<close>

datatype run_step_id = SendStep | AnswerStep | WriteStep

datatype run_step_state = PendingStep | ActiveStep | DoneStep | FailedStep | StoppedStep

record run_step =
  st_step :: run_step_id
  st_label :: string
  st_state :: run_step_state

definition STEP_ORDER :: "run_step_id list" where "STEP_ORDER = [SendStep, AnswerStep, WriteStep]"

fun stepLabels :: "string option \<Rightarrow> run_step_id \<Rightarrow> string" where
  "stepLabels providerLabel SendStep =
     (case providerLabel of None \<Rightarrow> ''Sending the request'' | Some p \<Rightarrow> ''Sending to '' @ p)"
| "stepLabels providerLabel AnswerStep = ''Waiting for the model''"
| "stepLabels providerLabel WriteStep = ''Writing the result''"

definition reachedIndex :: "action_run \<Rightarrow> nat" where
  "reachedIndex run =
     (case ar_stage run of Generating \<Rightarrow> 2 | Waiting \<Rightarrow> 1 | Settled \<Rightarrow> if ar_preview run \<noteq> [] then 2 else 1 | _ \<Rightarrow> 0)"

definition aiRunSteps :: "action_run \<Rightarrow> string option \<Rightarrow> run_step list" where
  "aiRunSteps run providerLabel =
     (let step = (\<lambda>i state. \<lparr>st_step = i, st_label = stepLabels providerLabel i, st_state = state\<rparr>)
      in if ar_phase run = Composing then map (\<lambda>i. step i PendingStep) STEP_ORDER
         else
           let reached = reachedIndex run;
               live = (ar_phase run = Streaming);
               terminalState = (if ar_phase run = Finished then DoneStep
                 else if ar_phase run = Cancelled then StoppedStep else FailedStep)
           in map (\<lambda>(index, i). step i
                (if index < reached then DoneStep else if reached < index then PendingStep
                 else if live then ActiveStep else terminalState)) (enumerate 0 STEP_ORDER))"

definition aiRunIsAbortable :: "action_run \<Rightarrow> bool" where
  "aiRunIsAbortable run \<longleftrightarrow> ar_phase run = Streaming"

datatype run_tone = IdleTone | LiveTone | ResultTone | FailedTone | StoppedTone

definition aiRunTone :: "action_run \<Rightarrow> run_tone" where
  "aiRunTone run =
     (case ar_phase run of
        Streaming \<Rightarrow> LiveTone
      | Finished \<Rightarrow> if js_trim (ar_preview run) \<noteq> [] then ResultTone else IdleTone
      | Cancelled \<Rightarrow> StoppedTone
      | Failed \<Rightarrow> FailedTone
      | TimedOut \<Rightarrow> FailedTone
      | Composing \<Rightarrow> IdleTone)"

fun RECOVERY_HINTS :: "string \<Rightarrow> recovery_action \<Rightarrow> string option" where
  "RECOVERY_HINTS dash ConfigureCredential = Some (''Add or fix this provider'' @ [CHR 0x27] @ ''s API key in AI settings.'')"
| "RECOVERY_HINTS dash RetryRun = Some (''Try again '' @ dash @ '' this one usually clears on a second run.'')"
| "RECOVERY_HINTS dash ChooseDifferentModel = Some ''Pick a different model and run it again.''"
| "RECOVERY_HINTS dash CheckProviderStatus = Some ''The provider is having trouble. Check its status page.''"
| "RECOVERY_HINTS dash ReduceRequest = Some ''Send a smaller selection, or shorten the note.''"
| "RECOVERY_HINTS dash ContactProvider = Some (''This needs the provider'' @ [CHR 0x27] @ ''s support to unblock.'')"
| "RECOVERY_HINTS dash NoRecovery = None"

definition aiErrorHint :: "string \<Rightarrow> provider_error option \<Rightarrow> string option" where
  "aiErrorHint dash error = (case error of None \<Rightarrow> None | Some e \<Rightarrow> RECOVERY_HINTS dash (pe_recoveryAction e))"

record start_failure =
  sf_message :: string
  sf_recoveryAction :: recovery_action

text \<open>What a rejection says: its \<open>name\<close> and \<open>message\<close> where it is an object that has them, and
  \<open>String(reason)\<close>.\<close>

record start_reason =
  sr_name :: "string option"
  sr_message :: "string option"
  sr_string :: string

definition reasonText :: "start_reason \<Rightarrow> string" where
  "reasonText reason = (case sr_message reason of Some m \<Rightarrow> m | None \<Rightarrow> sr_string reason)"

definition isAbortError :: "start_reason \<Rightarrow> bool" where
  "isAbortError reason \<longleftrightarrow> sr_name reason = Some ''AbortError''"

definition startErrorMessage :: "start_reason \<Rightarrow> start_failure" where
  "startErrorMessage reason =
     (if isAbortError reason then
        \<lparr>sf_message = ''The run was stopped before the request went out.'', sf_recoveryAction = RetryRun\<rparr>
      else
        let text = reasonText reason
        in if str_includes text ''is already active'' then
             \<lparr>sf_message = ''The previous run is still closing. Give it a moment.'', sf_recoveryAction = RetryRun\<rparr>
           else if str_includes text ''request is invalid'' then
             \<lparr>sf_message = ''The provider would not accept this request as built.'', sf_recoveryAction = ReduceRequest\<rparr>
           else if str_includes text ''worker is unavailable'' then
             \<lparr>sf_message = ''The AI service in this app is not running.'', sf_recoveryAction = CheckProviderStatus\<rparr>
           else if str_includes text ''needs the desktop app'' then
             \<lparr>sf_message = ''AI actions run in the desktop app only.'', sf_recoveryAction = NoRecovery\<rparr>
           else \<lparr>sf_message = text, sf_recoveryAction = RetryRun\<rparr>)"

definition AI_RUN_STALL_MS :: number where "AI_RUN_STALL_MS = 6000"

definition aiRunStallNote :: "action_run \<Rightarrow> number \<Rightarrow> string option" where
  "aiRunStallNote run now =
     (case ar_startedAt run of
        None \<Rightarrow> None
      | Some startedAt \<Rightarrow>
          if ar_phase run \<noteq> Streaming then None
          else if now - startedAt < AI_RUN_STALL_MS then None
          else if ar_stage run = Sending then
            Some ''Still opening the stream. A local model loading for the first time can take a while.''
          else if ar_stage run = Waiting then Some ''The stream is open but the model has not written anything yet.''
          else None)"

end
