(* ===== verification/Run_Session.thy ===== *)
theory Run_Session
  imports Ai_Runs
begin

text \<open>
  One streaming completion outside React (\<open>features/ai/run/session.ts\<close>) with the consumer that filters
  its provider's events (\<open>features/ai/completion/consumer.ts\<close>). A callback that fires later is an event of
  the environment: a provider event delivered to the consumer of a request, the scheduled flush, the
  outcome of a start and of a repair. \<open>mint\<close> numbers the ids \<open>mintRequestId\<close> returns and \<open>repairs\<close> says
  whether \<open>options.repair\<close> is given. Listeners only repaint, so the list of them is left out. What a
  session asks of the handles it was given is logged.
\<close>

section \<open>State\<close>

record consumer =
  cs_active :: bool
  cs_nextSequence :: nat

datatype handle_call = CancelCall string | DisposeCall string

record run_session =
  rs_run :: action_run
  rs_handle :: "string option"
  rs_consumer :: "string option"
  rs_consumers :: "(string, consumer) omap"
  rs_activeRequestId :: "string option"
  rs_cancelRequested :: bool
  rs_lastRequest :: "completion_request option"
  rs_repairSpent :: bool
  rs_buffer :: string
  rs_withdrawFlush :: bool
  rs_disposed :: bool
  rs_minted :: nat
  rs_starts :: "string list"
  rs_repairs :: "(string \<times> terminal) list"
  rs_calls :: "handle_call list"

definition createRunSession :: run_session where
  "createRunSession = \<lparr>rs_run = IDLE_RUN, rs_handle = None, rs_consumer = None, rs_consumers = [], rs_activeRequestId = None,
     rs_cancelRequested = False, rs_lastRequest = None, rs_repairSpent = False, rs_buffer = [], rs_withdrawFlush = False,
     rs_disposed = False, rs_minted = 0, rs_starts = [], rs_repairs = [], rs_calls = []\<rparr>"

definition call_handle :: "handle_call \<Rightarrow> run_session \<Rightarrow> run_session" where
  "call_handle c s = s\<lparr>rs_calls := rs_calls s @ [c]\<rparr>"

section \<open>The consumer\<close>

definition dispose_consumer :: "string \<Rightarrow> run_session \<Rightarrow> run_session" where
  "dispose_consumer i s = s\<lparr>rs_consumers := map (\<lambda>(k, c). (k, if k = i then c\<lparr>cs_active := False\<rparr> else c)) (rs_consumers s)\<rparr>"

definition dispose_held :: "run_session \<Rightarrow> run_session" where
  "dispose_held s = (case rs_consumer s of Some i \<Rightarrow> dispose_consumer i s | None \<Rightarrow> s)"

section \<open>Deltas and settling\<close>

definition flushDeltas :: "run_session \<Rightarrow> run_session" where
  "flushDeltas s =
     (let chunk = rs_buffer s;
          s' = s\<lparr>rs_withdrawFlush := False, rs_buffer := []\<rparr>
      in case rs_activeRequestId s of
           Some requestId \<Rightarrow> if chunk \<noteq> [] then s'\<lparr>rs_run := runWithDelta (rs_run s) requestId chunk\<rparr> else s'
         | None \<Rightarrow> s')"

definition releaseCurrent :: "run_session \<Rightarrow> run_session" where
  "releaseCurrent s =
     (let s = (dispose_held s)\<lparr>rs_consumer := None\<rparr>;
          s = (case rs_handle s of Some h \<Rightarrow> call_handle (DisposeCall h) s | None \<Rightarrow> s)
      in s\<lparr>rs_handle := None, rs_withdrawFlush := False, rs_buffer := []\<rparr>)"

definition send :: "(nat \<Rightarrow> string) \<Rightarrow> number \<Rightarrow> completion_request \<Rightarrow> run_session \<Rightarrow> run_session" where
  "send mint now template s =
     (let requestId = mint (rs_minted s);
          s = releaseCurrent s
      in s\<lparr>rs_minted := Suc (rs_minted s), rs_activeRequestId := Some requestId, rs_cancelRequested := False,
           rs_run := startedRun requestId now,
           rs_consumers := omap_set requestId \<lparr>cs_active = True, cs_nextSequence = 0\<rparr> (rs_consumers s),
           rs_consumer := Some requestId, rs_starts := rs_starts s @ [requestId]\<rparr>)"

definition settleDone :: "bool \<Rightarrow> string \<Rightarrow> terminal \<Rightarrow> run_session \<Rightarrow> run_session" where
  "settleDone repairs requestId event s =
     (if \<not> repairs \<or> rs_repairSpent s then s\<lparr>rs_run := runWithTerminal (rs_run s) requestId event\<rparr>
      else s\<lparr>rs_repairSpent := True, rs_repairs := rs_repairs s @ [(requestId, event)]\<rparr>)"

text \<open>\<open>ownConsumer.accept(event)\<close> with the callbacks \<open>send\<close> gives it.\<close>

definition accept_event :: "bool \<Rightarrow> string \<Rightarrow> completion_event \<Rightarrow> run_session \<Rightarrow> run_session \<times> bool" where
  "accept_event repairs requestId event s =
     (case omap_get (rs_consumers s) requestId of
        None \<Rightarrow> (s, False)
      | Some c \<Rightarrow>
          if \<not> cs_active c \<or> event_request event \<noteq> requestId then (s, False)
          else
            (case event of
               DeltaEvent _ sequence text \<Rightarrow>
                 if sequence \<noteq> cs_nextSequence c then (s, False)
                 else (s\<lparr>rs_consumers := omap_set requestId (c\<lparr>cs_nextSequence := Suc (cs_nextSequence c)\<rparr>) (rs_consumers s),
                         rs_buffer := rs_buffer s @ text, rs_withdrawFlush := True\<rparr>, True)
             | TerminalEvent _ t \<Rightarrow>
                 (let s = s\<lparr>rs_consumers := omap_set requestId (c\<lparr>cs_active := False\<rparr>) (rs_consumers s)\<rparr>;
                      s = (flushDeltas s)\<lparr>rs_handle := None\<rparr>
                  in (case t of
                        DoneEvent _ \<Rightarrow> settleDone repairs requestId t s
                      | _ \<Rightarrow> s\<lparr>rs_run := runWithTerminal (rs_run s) requestId t\<rparr>, True))))"

section \<open>The session's calls\<close>

definition fire :: "(nat \<Rightarrow> string) \<Rightarrow> number \<Rightarrow> completion_request \<Rightarrow> run_session \<Rightarrow> run_session" where
  "fire mint now template s =
     (if rs_disposed s then s
      else send mint now template (s\<lparr>rs_repairSpent := False, rs_lastRequest := Some template\<rparr>))"

definition retry :: "(nat \<Rightarrow> string) \<Rightarrow> number \<Rightarrow> run_session \<Rightarrow> run_session" where
  "retry mint now s =
     (if ar_phase (rs_run s) = Streaming then s
      else case rs_lastRequest s of None \<Rightarrow> s | Some request \<Rightarrow> fire mint now request s)"

definition cancel :: "run_session \<Rightarrow> run_session" where
  "cancel s =
     (let s = flushDeltas (dispose_held (s\<lparr>rs_cancelRequested := True\<rparr>));
          s = (case rs_handle s of Some h \<Rightarrow> call_handle (CancelCall h) s | None \<Rightarrow> s)
      in s\<lparr>rs_run := stoppedRun (rs_run s)\<rparr>)"

definition dispose :: "run_session \<Rightarrow> run_session" where
  "dispose s = (if rs_disposed s then s else releaseCurrent (s\<lparr>rs_disposed := True\<rparr>))"

section \<open>Outcomes of starts and repairs\<close>

definition start_resolved :: "string \<Rightarrow> run_session \<Rightarrow> run_session" where
  "start_resolved requestId s =
     (if rs_activeRequestId s \<noteq> Some requestId \<or> rs_disposed s then call_handle (DisposeCall requestId) s
      else
        let s = s\<lparr>rs_handle := Some requestId\<rparr>
        in if rs_cancelRequested s then call_handle (CancelCall requestId) s
           else s\<lparr>rs_run := connectedRun (rs_run s) requestId\<rparr>)"

definition start_rejected :: "string \<Rightarrow> start_reason \<Rightarrow> run_session \<Rightarrow> run_session" where
  "start_rejected requestId reason s =
     (if rs_activeRequestId s \<noteq> Some requestId \<or> rs_disposed s then s
      else
        let s = dispose_consumer requestId s;
            failure = startErrorMessage reason
        in s\<lparr>rs_run := failedRun (rs_run s) requestId (sf_message failure) (sf_recoveryAction failure)\<rparr>)"

definition stillCurrent :: "string \<Rightarrow> run_session \<Rightarrow> bool" where
  "stillCurrent requestId s \<longleftrightarrow>
     \<not> rs_disposed s \<and> rs_activeRequestId s = Some requestId \<and> ar_phase (rs_run s) = Streaming"

text \<open>A repair that throws answers like one that returns \<open>null\<close>.\<close>

definition repair_answered ::
  "(nat \<Rightarrow> string) \<Rightarrow> number \<Rightarrow> string \<times> terminal \<Rightarrow> completion_request option \<Rightarrow> run_session \<Rightarrow> run_session" where
  "repair_answered mint now pending answer s =
     (case pending of (requestId, event) \<Rightarrow>
        if \<not> stillCurrent requestId s then s
        else case answer of
          None \<Rightarrow> s\<lparr>rs_run := runWithTerminal (rs_run s) requestId event\<rparr>
        | Some repaired \<Rightarrow> send mint now repaired s)"

section \<open>Events\<close>

datatype session_event =
    Fire number completion_request
  | Retry number
  | Cancel
  | Dispose
  | Deliver string completion_event
  | FlushFrame
  | StartResolved string
  | StartRejected string start_reason
  | RepairAnswered number "string \<times> terminal" "completion_request option"

text \<open>An event of the environment is ignored unless something is pending that can raise it.\<close>

fun session_step :: "(nat \<Rightarrow> string) \<Rightarrow> bool \<Rightarrow> session_event \<Rightarrow> run_session \<Rightarrow> run_session" where
  "session_step mint repairs (Fire now template) s = fire mint now template s"
| "session_step mint repairs (Retry now) s = retry mint now s"
| "session_step mint repairs Cancel s = cancel s"
| "session_step mint repairs Dispose s = dispose s"
| "session_step mint repairs (Deliver i event) s = fst (accept_event repairs i event s)"
| "session_step mint repairs FlushFrame s = (if rs_withdrawFlush s then flushDeltas s else s)"
| "session_step mint repairs (StartResolved i) s =
     (if i \<in> set (rs_starts s) then start_resolved i (s\<lparr>rs_starts := removeAll i (rs_starts s)\<rparr>) else s)"
| "session_step mint repairs (StartRejected i reason) s =
     (if i \<in> set (rs_starts s) then start_rejected i reason (s\<lparr>rs_starts := removeAll i (rs_starts s)\<rparr>) else s)"
| "session_step mint repairs (RepairAnswered now pending answer) s =
     (if pending \<in> set (rs_repairs s) then repair_answered mint now pending answer (s\<lparr>rs_repairs := removeAll pending (rs_repairs s)\<rparr>)
      else s)"

definition session_run :: "(nat \<Rightarrow> string) \<Rightarrow> bool \<Rightarrow> session_event list \<Rightarrow> run_session \<Rightarrow> run_session" where
  "session_run mint repairs events s = fold (session_step mint repairs) events s"

end
