(* ===== verification/Session_Theorems.thy ===== *)
theory Session_Theorems
  imports Run_Session
begin

text \<open>
  Whatever order the provider, the frames and the outcomes of starts and repairs come in: only the
  current request can change a run, a streaming run always has something left that can settle it, the
  preview is the in-order text of its request, and one fire sends at most two requests.
\<close>

section \<open>Parts of a step\<close>

lemma flush_fields [simp]:
  "rs_consumers (flushDeltas s) = rs_consumers s" "rs_consumer (flushDeltas s) = rs_consumer s"
  "rs_handle (flushDeltas s) = rs_handle s" "rs_activeRequestId (flushDeltas s) = rs_activeRequestId s"
  "rs_repairSpent (flushDeltas s) = rs_repairSpent s" "rs_disposed (flushDeltas s) = rs_disposed s"
  "rs_minted (flushDeltas s) = rs_minted s" "rs_starts (flushDeltas s) = rs_starts s"
  "rs_repairs (flushDeltas s) = rs_repairs s" "rs_buffer (flushDeltas s) = []" "\<not> rs_withdrawFlush (flushDeltas s)"
  by (simp_all add: flushDeltas_def Let_def split: option.splits)

lemma flush_run [simp]:
  "ar_phase (rs_run (flushDeltas s)) = ar_phase (rs_run s)"
  "ar_requestId (rs_run (flushDeltas s)) = ar_requestId (rs_run s)"
  by (simp_all add: flushDeltas_def Let_def runWithDelta_def split: option.splits)

lemma flush_preview:
  "ar_phase (rs_run s) = Streaming \<Longrightarrow> ar_requestId (rs_run s) = Some i \<Longrightarrow> rs_activeRequestId s = Some i \<Longrightarrow>
     ar_preview (rs_run (flushDeltas s)) = ar_preview (rs_run s) @ rs_buffer s"
  by (simp add: flushDeltas_def Let_def runWithDelta_def)

lemma call_handle_fields [simp]:
  "rs_consumers (call_handle c s) = rs_consumers s" "rs_consumer (call_handle c s) = rs_consumer s"
  "rs_handle (call_handle c s) = rs_handle s" "rs_activeRequestId (call_handle c s) = rs_activeRequestId s"
  "rs_repairSpent (call_handle c s) = rs_repairSpent s" "rs_disposed (call_handle c s) = rs_disposed s"
  "rs_minted (call_handle c s) = rs_minted s" "rs_starts (call_handle c s) = rs_starts s"
  "rs_repairs (call_handle c s) = rs_repairs s" "rs_buffer (call_handle c s) = rs_buffer s"
  "rs_withdrawFlush (call_handle c s) = rs_withdrawFlush s" "rs_run (call_handle c s) = rs_run s"
  by (simp_all add: call_handle_def)

lemma dispose_consumer_fields [simp]:
  "rs_consumer (dispose_consumer i s) = rs_consumer s"
  "rs_handle (dispose_consumer i s) = rs_handle s" "rs_activeRequestId (dispose_consumer i s) = rs_activeRequestId s"
  "rs_repairSpent (dispose_consumer i s) = rs_repairSpent s" "rs_disposed (dispose_consumer i s) = rs_disposed s"
  "rs_minted (dispose_consumer i s) = rs_minted s" "rs_starts (dispose_consumer i s) = rs_starts s"
  "rs_repairs (dispose_consumer i s) = rs_repairs s" "rs_buffer (dispose_consumer i s) = rs_buffer s"
  "rs_withdrawFlush (dispose_consumer i s) = rs_withdrawFlush s" "rs_run (dispose_consumer i s) = rs_run s"
  by (simp_all add: dispose_consumer_def)

lemma map_of_values: "map_of (map (\<lambda>(k, c). (k, f k c)) m) j = map_option (f j) (map_of m j)"
  by (induction m) auto

lemma dispose_consumer_get:
  "omap_get (rs_consumers (dispose_consumer i s)) j =
     map_option (\<lambda>c. if j = i then c\<lparr>cs_active := False\<rparr> else c) (omap_get (rs_consumers s) j)"
  by (simp add: dispose_consumer_def map_of_values)

lemma dispose_held_fields [simp]:
  "rs_consumer (dispose_held s) = rs_consumer s"
  "rs_handle (dispose_held s) = rs_handle s" "rs_activeRequestId (dispose_held s) = rs_activeRequestId s"
  "rs_repairSpent (dispose_held s) = rs_repairSpent s" "rs_disposed (dispose_held s) = rs_disposed s"
  "rs_minted (dispose_held s) = rs_minted s" "rs_starts (dispose_held s) = rs_starts s"
  "rs_repairs (dispose_held s) = rs_repairs s" "rs_buffer (dispose_held s) = rs_buffer s"
  "rs_withdrawFlush (dispose_held s) = rs_withdrawFlush s" "rs_run (dispose_held s) = rs_run s"
  by (simp_all add: dispose_held_def split: option.splits)

definition listening :: "run_session \<Rightarrow> string \<Rightarrow> bool" where
  "listening s i \<longleftrightarrow> (\<exists>c. omap_get (rs_consumers s) i = Some c \<and> cs_active c)"

lemma listening_fields [simp]:
  "listening (flushDeltas s) = listening s" "listening (call_handle c s) = listening s"
  "listening (s\<lparr>rs_run := r\<rparr>) = listening s" "listening (s\<lparr>rs_handle := h\<rparr>) = listening s"
  "listening (s\<lparr>rs_consumer := d\<rparr>) = listening s" "listening (s\<lparr>rs_buffer := x\<rparr>) = listening s"
  "listening (s\<lparr>rs_withdrawFlush := w\<rparr>) = listening s" "listening (s\<lparr>rs_cancelRequested := w\<rparr>) = listening s"
  "listening (s\<lparr>rs_starts := st\<rparr>) = listening s" "listening (s\<lparr>rs_repairs := re\<rparr>) = listening s"
  "listening (s\<lparr>rs_disposed := w\<rparr>) = listening s" "listening (s\<lparr>rs_repairSpent := w\<rparr>) = listening s"
  "listening (s\<lparr>rs_lastRequest := l\<rparr>) = listening s" "listening (s\<lparr>rs_minted := m\<rparr>) = listening s"
  "listening (s\<lparr>rs_activeRequestId := a\<rparr>) = listening s"
  by (auto simp: listening_def fun_eq_iff)

lemma listening_dispose [simp]: "listening (dispose_consumer i s) j \<longleftrightarrow> j \<noteq> i \<and> listening s j"
  by (cases "omap_get (rs_consumers s) j") (simp_all add: listening_def dispose_consumer_get)

section \<open>The invariant\<close>

definition session_ok :: "run_session \<Rightarrow> bool" where
  "session_ok s \<longleftrightarrow>
     (\<forall>i. listening s i \<longrightarrow> rs_consumer s = Some i) \<and>
     (\<forall>i. rs_consumer s = Some i \<longrightarrow> rs_activeRequestId s = Some i) \<and>
     (\<forall>h. rs_handle s = Some h \<longrightarrow> rs_activeRequestId s = Some h) \<and>
     ar_requestId (rs_run s) = rs_activeRequestId s \<and>
     (rs_disposed s \<longrightarrow> rs_consumer s = None \<and> rs_handle s = None \<and> rs_buffer s = []) \<and>
     (rs_buffer s \<noteq> [] \<longrightarrow> rs_withdrawFlush s) \<and>
     list_all (\<lambda>(i, t). \<exists>usage. t = DoneEvent usage) (rs_repairs s) \<and>
     (ar_phase (rs_run s) = Streaming \<and> \<not> rs_disposed s \<longrightarrow>
        (\<exists>i. rs_activeRequestId s = Some i \<and> (listening s i \<or> (\<exists>t. (i, t) \<in> set (rs_repairs s)))))"

lemma held_not_listening: "session_ok s \<Longrightarrow> \<not> listening (dispose_held s) i"
  by (auto simp: session_ok_def dispose_held_def split: option.splits)

lemma release_ok:
  assumes "session_ok s"
  shows "\<not> listening (releaseCurrent s) i \<and> rs_consumer (releaseCurrent s) = None \<and> rs_handle (releaseCurrent s) = None \<and>
    rs_buffer (releaseCurrent s) = [] \<and> \<not> rs_withdrawFlush (releaseCurrent s) \<and>
    rs_activeRequestId (releaseCurrent s) = rs_activeRequestId s \<and> rs_run (releaseCurrent s) = rs_run s \<and>
    rs_disposed (releaseCurrent s) = rs_disposed s \<and> rs_minted (releaseCurrent s) = rs_minted s \<and>
    rs_repairs (releaseCurrent s) = rs_repairs s \<and> rs_repairSpent (releaseCurrent s) = rs_repairSpent s \<and>
    rs_starts (releaseCurrent s) = rs_starts s"
  using held_not_listening [OF assms, of i]
  by (simp add: releaseCurrent_def Let_def split: option.splits)

lemma send_ok:
  assumes "session_ok s" and "\<not> rs_disposed s"
  shows "session_ok (send mint now template s)"
proof -
  let ?i = "mint (rs_minted s)"
  have l: "listening (send mint now template s) j \<longleftrightarrow> j = ?i" for j
    using release_ok [OF assms(1), of j] by (auto simp: send_def Let_def listening_def)
  have "list_all (\<lambda>(i, t). \<exists>usage. t = DoneEvent usage) (rs_repairs s)" using assms(1) by (simp add: session_ok_def)
  then show ?thesis
    unfolding session_ok_def l using release_ok [OF assms(1)] assms(2)
    by (auto simp: send_def Let_def startedRun_def)
qed

lemma run_keeps:
  assumes "session_ok s" and "ar_requestId r = ar_requestId (rs_run s)"
    and "ar_phase r = Streaming \<Longrightarrow> ar_phase (rs_run s) = Streaming"
  shows "session_ok (s\<lparr>rs_run := r\<rparr>)"
  using assms unfolding session_ok_def by simp

lemma terminal_run [simp]:
  "ar_requestId (runWithTerminal run i t) = ar_requestId run"
  "ar_phase (runWithTerminal run i t) = Streaming \<longleftrightarrow> ar_phase run = Streaming \<and> ar_requestId run \<noteq> Some i"
  by (auto simp: runWithTerminal_def Let_def split: terminal.splits)

lemma other_runs [simp]:
  "ar_requestId (stoppedRun run) = ar_requestId run" "ar_phase (stoppedRun run) \<noteq> Streaming"
  "ar_requestId (connectedRun run i) = ar_requestId run" "ar_phase (connectedRun run i) = ar_phase run"
  "ar_requestId (failedRun run i m a) = ar_requestId run"
  "ar_phase (failedRun run i m a) = Streaming \<longleftrightarrow> ar_phase run = Streaming \<and> ar_requestId run \<noteq> Some i"
  "ar_requestId (runWithDelta run i x) = ar_requestId run" "ar_phase (runWithDelta run i x) = ar_phase run"
  by (simp_all add: stoppedRun_def connectedRun_def failedRun_def runWithDelta_def)

lemma call_ok [simp]: "session_ok (call_handle c s) = session_ok s"
  by (simp add: session_ok_def)

lemma handle_ok: "session_ok s \<Longrightarrow> rs_activeRequestId s = Some i \<Longrightarrow> \<not> rs_disposed s \<Longrightarrow> session_ok (s\<lparr>rs_handle := Some i\<rparr>)"
  by (simp add: session_ok_def)

lemma flushed_ok: "session_ok s \<Longrightarrow> session_ok (flushDeltas s)"
  unfolding session_ok_def by simp

lemma cancel_ok:
  assumes "session_ok s"
  shows "session_ok (cancel s)"
proof -
  have "\<not> listening (cancel s) i" for i
    using held_not_listening [of "s\<lparr>rs_cancelRequested := True\<rparr>" i] assms
    by (simp add: cancel_def Let_def session_ok_def split: option.splits)
  moreover have "rs_consumer (cancel s) = rs_consumer s" "rs_handle (cancel s) = rs_handle s" "rs_disposed (cancel s) = rs_disposed s"
    "rs_activeRequestId (cancel s) = rs_activeRequestId s" "rs_buffer (cancel s) = []" "rs_repairs (cancel s) = rs_repairs s"
    "ar_requestId (rs_run (cancel s)) = ar_requestId (rs_run s)" "ar_phase (rs_run (cancel s)) \<noteq> Streaming"
    by (simp_all add: cancel_def Let_def split: option.splits)
  ultimately show ?thesis using assms by (simp add: session_ok_def)
qed

lemma dispose_ok:
  assumes "session_ok s"
  shows "session_ok (dispose s)"
proof (cases "rs_disposed s")
  case False
  have "listening (releaseCurrent (s\<lparr>rs_disposed := True\<rparr>)) i = listening (releaseCurrent s) i"
    "rs_consumer (releaseCurrent (s\<lparr>rs_disposed := True\<rparr>)) = None" "rs_handle (releaseCurrent (s\<lparr>rs_disposed := True\<rparr>)) = None"
    "rs_buffer (releaseCurrent (s\<lparr>rs_disposed := True\<rparr>)) = []" "rs_disposed (releaseCurrent (s\<lparr>rs_disposed := True\<rparr>))"
    "rs_run (releaseCurrent (s\<lparr>rs_disposed := True\<rparr>)) = rs_run s" "rs_repairs (releaseCurrent (s\<lparr>rs_disposed := True\<rparr>)) = rs_repairs s"
    "rs_activeRequestId (releaseCurrent (s\<lparr>rs_disposed := True\<rparr>)) = rs_activeRequestId s" for i
    by (simp_all add: releaseCurrent_def Let_def dispose_held_def dispose_consumer_def listening_def split: option.splits)
  with release_ok [OF assms] assms False show ?thesis by (simp add: dispose_def session_ok_def)
qed (simp add: dispose_def assms)

lemma accept_ok:
  assumes "session_ok s"
  shows "session_ok (fst (accept_event repairs i event s))"
proof (cases "omap_get (rs_consumers s) i")
  case (Some c)
  show ?thesis
  proof (cases "\<not> cs_active c \<or> event_request event \<noteq> i")
    case False
    then have li: "listening s i" and ev: "event_request event = i" using Some by (auto simp: listening_def)
    with assms have a: "rs_consumer s = Some i" "rs_activeRequestId s = Some i" "ar_requestId (rs_run s) = Some i" "\<not> rs_disposed s"
      by (auto simp: session_ok_def)
    show ?thesis
    proof (cases event)
      case (DeltaEvent j q x)
      let ?s = "s\<lparr>rs_consumers := omap_set i (c\<lparr>cs_nextSequence := Suc (cs_nextSequence c)\<rparr>) (rs_consumers s),
        rs_buffer := rs_buffer s @ x, rs_withdrawFlush := True\<rparr>"
      have "listening ?s = listening s" using Some False by (auto simp: listening_def fun_eq_iff)
      then have "session_ok ?s" using assms a by (simp add: session_ok_def)
      with Some False DeltaEvent assms show ?thesis by (simp add: accept_event_def)
    next
      case (TerminalEvent j t)
      let ?s = "s\<lparr>rs_consumers := omap_set i (c\<lparr>cs_active := False\<rparr>) (rs_consumers s)\<rparr>"
      let ?f = "(flushDeltas ?s)\<lparr>rs_handle := None\<rparr>"
      have quiet: "\<not> listening ?f k" for k using assms a by (auto simp: listening_def session_ok_def)
      have base: "rs_activeRequestId ?f = Some i" "ar_requestId (rs_run ?f) = Some i" "rs_consumer ?f = Some i" "\<not> rs_disposed ?f"
        "rs_repairs ?f = rs_repairs s" "rs_buffer ?f = []" using a by simp_all
      have dones: "list_all (\<lambda>(i, t). \<exists>usage. t = DoneEvent usage) (rs_repairs s)" using assms by (simp add: session_ok_def)
      have settle: "session_ok (?f\<lparr>rs_run := runWithTerminal (rs_run ?f) i t\<rparr>)"
        unfolding session_ok_def using quiet base dones by simp
      have held: "session_ok (?f\<lparr>rs_repairSpent := True, rs_repairs := rs_repairs ?f @ [(i, t)]\<rparr>)" if "t = DoneEvent usage" for usage
        unfolding session_ok_def using quiet base dones that by auto
      have "session_ok (settleDone repairs i t ?f)" if "t = DoneEvent usage" for usage
        unfolding settleDone_def using settle held [OF that] by simp
      with settle Some False TerminalEvent show ?thesis
        by (cases t) (simp_all add: accept_event_def Let_def)
    qed
  qed (use Some assms in \<open>simp add: accept_event_def\<close>)
qed (simp add: accept_event_def assms)

lemma step_ok:
  assumes "session_ok s"
  shows "session_ok (session_step mint repairs e s)"
proof -
  have keep: "session_ok (s\<lparr>rs_starts := st\<rparr>)" for st using assms by (simp add: session_ok_def)
  have fired: "session_ok (fire mint now template s)" for now template
  proof (cases "rs_disposed s")
    case False
    have "session_ok (s\<lparr>rs_repairSpent := False, rs_lastRequest := Some template\<rparr>)" using assms by (simp add: session_ok_def)
    from send_ok [OF this] False show ?thesis by (simp add: fire_def)
  qed (simp add: fire_def assms)
  show ?thesis
  proof (cases e)
    case (Fire now template)
    then show ?thesis using fired by simp
  next
    case (Retry now)
    then show ?thesis using fired assms by (simp add: retry_def split: option.splits)
  next
    case Cancel
    then show ?thesis using cancel_ok [OF assms] by simp
  next
    case Dispose
    then show ?thesis using dispose_ok [OF assms] by simp
  next
    case (Deliver i event)
    then show ?thesis using accept_ok [OF assms] by simp
  next
    case FlushFrame
    then show ?thesis using flushed_ok [OF assms] assms by simp
  next
    case (StartResolved i)
    have "session_ok (start_resolved i (s\<lparr>rs_starts := st\<rparr>))" for st
    proof (cases "rs_activeRequestId s \<noteq> Some i \<or> rs_disposed s")
      case True
      then show ?thesis using keep by (auto simp: start_resolved_def)
    next
      case False
      then have "session_ok (s\<lparr>rs_starts := st, rs_handle := Some i\<rparr>)" using handle_ok [OF keep] by simp
      with run_keeps [OF this, of "connectedRun (rs_run s) i"] False show ?thesis by (simp add: start_resolved_def Let_def)
    qed
    with StartResolved assms show ?thesis by simp
  next
    case (StartRejected i reason)
    have "session_ok (start_rejected i reason (s\<lparr>rs_starts := st\<rparr>))" for st
    proof (cases "rs_activeRequestId s \<noteq> Some i \<or> rs_disposed s")
      case True
      then show ?thesis using keep by (auto simp: start_rejected_def)
    next
      case False
      let ?r = "failedRun (rs_run s) i (sf_message (startErrorMessage reason)) (sf_recoveryAction (startErrorMessage reason))"
      have "session_ok ((dispose_consumer i (s\<lparr>rs_starts := st\<rparr>))\<lparr>rs_run := ?r\<rparr>)"
        using keep [of st] False unfolding session_ok_def by simp
      with False show ?thesis by (simp add: start_rejected_def Let_def)
    qed
    with StartRejected assms show ?thesis by simp
  next
    case (RepairAnswered now pending answer)
    obtain i t where p: "pending = (i, t)" by (cases pending)
    let ?s = "s\<lparr>rs_repairs := removeAll pending (rs_repairs s)\<rparr>"
    have parts: "(\<forall>i. listening ?s i \<longrightarrow> rs_consumer ?s = Some i)" "(\<forall>i. rs_consumer ?s = Some i \<longrightarrow> rs_activeRequestId ?s = Some i)"
      "(\<forall>h. rs_handle ?s = Some h \<longrightarrow> rs_activeRequestId ?s = Some h)" "ar_requestId (rs_run ?s) = rs_activeRequestId ?s"
      "rs_disposed ?s \<longrightarrow> rs_consumer ?s = None \<and> rs_handle ?s = None \<and> rs_buffer ?s = []" "rs_buffer ?s \<noteq> [] \<longrightarrow> rs_withdrawFlush ?s"
      "list_all (\<lambda>(i, t). \<exists>usage. t = DoneEvent usage) (rs_repairs ?s)"
      using assms by (auto simp: session_ok_def list_all_iff)
    have "session_ok (repair_answered mint now pending answer ?s)" if "pending \<in> set (rs_repairs s)"
    proof (cases "stillCurrent i ?s")
      case False
      then have "session_ok ?s" using assms parts unfolding session_ok_def p stillCurrent_def by auto
      with False show ?thesis by (simp add: repair_answered_def p)
    next
      case True
      show ?thesis
      proof (cases answer)
        case None
        with True parts show ?thesis unfolding session_ok_def by (simp add: repair_answered_def p stillCurrent_def)
      next
        case (Some repaired)
        have "session_ok (?s\<lparr>rs_run := stoppedRun (rs_run s)\<rparr>)" using parts unfolding session_ok_def by simp
        moreover have "\<not> rs_disposed (?s\<lparr>rs_run := stoppedRun (rs_run s)\<rparr>)" using True by (simp add: stillCurrent_def)
        ultimately have "session_ok (send mint now repaired (?s\<lparr>rs_run := stoppedRun (rs_run s)\<rparr>))" by (rule send_ok)
        moreover have "send mint now repaired (?s\<lparr>rs_run := stoppedRun (rs_run s)\<rparr>) = send mint now repaired ?s"
          by (simp add: send_def Let_def releaseCurrent_def dispose_held_def dispose_consumer_def call_handle_def split: option.splits)
        ultimately show ?thesis using True Some by (simp add: repair_answered_def p)
      qed
    qed
    with RepairAnswered assms show ?thesis by simp
  qed
qed

lemma created_ok: "session_ok createRunSession"
  by (simp add: session_ok_def createRunSession_def IDLE_RUN_def listening_def)

lemma session_run_nil: "session_run mint repairs [] s = s"
  by (simp add: session_run_def)

lemma session_run_step: "session_run mint repairs (e # es) s = session_run mint repairs es (session_step mint repairs e s)"
  by (simp add: session_run_def)

definition session_moves :: "(nat \<Rightarrow> string) \<Rightarrow> bool \<Rightarrow> run_session \<Rightarrow> run_session \<Rightarrow> bool" where
  "session_moves mint repairs s t \<longleftrightarrow> (\<exists>e. t = session_step mint repairs e s)"

interpretation session_machine: invariant_system "session_moves mint repairs" createRunSession session_ok for mint repairs
  by unfold_locales (auto simp: session_moves_def created_ok step_ok)

lemma session_reached: "reached (session_moves mint repairs) s t \<Longrightarrow> reached (session_moves mint repairs) s (session_run mint repairs es t)"
proof (induction es arbitrary: t)
  case (Cons e es)
  have "session_moves mint repairs t (session_step mint repairs e t)" by (auto simp: session_moves_def)
  from Cons.IH [OF reached_step [OF Cons.prems this]] show ?case unfolding session_run_step .
qed (simp add: session_run_nil)

text \<open>C10. Whatever order calls, provider events, frames and the outcomes of starts and repairs come in: only the consumer of the current request listens, the held handle and the run belong to that request, a disposed session holds nothing, waiting text has a frame scheduled, and a streaming run has a listening consumer or a repair under way.\<close>

theorem run_session_consistent: "session_ok (session_run mint repairs events createRunSession)"
  by (rule session_machine.reachable_inv [OF session_reached [OF reached.intros(1)]])

section \<open>The text of a run\<close>

text \<open>What the provider and the frames do while nobody acts on the session.\<close>

fun environment :: "session_event \<Rightarrow> bool" where
  "environment (Deliver _ _) \<longleftrightarrow> True"
| "environment FlushFrame \<longleftrightarrow> True"
| "environment (StartResolved _) \<longleftrightarrow> True"
| "environment _ \<longleftrightarrow> False"

text \<open>The specification: the deltas of request \<open>i\<close> in sequence, up to its terminal.\<close>

fun stream_text :: "string \<Rightarrow> nat \<Rightarrow> session_event list \<Rightarrow> string \<times> terminal option" where
  "stream_text i n [] = ([], None)"
| "stream_text i n (Deliver j (DeltaEvent k q x) # es) =
     (if j = i \<and> k = i \<and> q = n then (case stream_text i (Suc n) es of (y, t) \<Rightarrow> (x @ y, t)) else stream_text i n es)"
| "stream_text i n (Deliver j (TerminalEvent k t) # es) = (if j = i \<and> k = i then ([], Some t) else stream_text i n es)"
| "stream_text i n (_ # es) = stream_text i n es"

fun settled_phase :: "bool \<Rightarrow> terminal \<Rightarrow> action_phase" where
  "settled_phase held (DoneEvent _) = (if held then Streaming else Finished)"
| "settled_phase held CancelledEvent = Cancelled"
| "settled_phase held TimeoutEvent = TimedOut"
| "settled_phase held (ProviderErrorEvent _) = Failed"

definition silent :: "run_session \<Rightarrow> bool" where
  "silent s \<longleftrightarrow> (\<forall>j. \<not> listening s j) \<and> rs_buffer s = []"

lemma accept_deaf: "\<not> listening s j \<Longrightarrow> accept_event repairs j event s = (s, False)"
  by (auto simp: accept_event_def listening_def split: option.splits)

lemma terminal_preview [simp]: "ar_preview (runWithTerminal run i t) = ar_preview run"
  by (simp add: runWithTerminal_def Let_def split: terminal.splits)

lemma resolved_run [simp]:
  "listening (start_resolved i s) = listening s" "rs_buffer (start_resolved i s) = rs_buffer s"
  "ar_phase (rs_run (start_resolved i s)) = ar_phase (rs_run s)" "ar_preview (rs_run (start_resolved i s)) = ar_preview (rs_run s)"
  "rs_activeRequestId (start_resolved i s) = rs_activeRequestId s" "rs_disposed (start_resolved i s) = rs_disposed s"
  "rs_consumers (start_resolved i s) = rs_consumers s" "rs_repairSpent (start_resolved i s) = rs_repairSpent s"
  by (simp_all add: start_resolved_def Let_def connectedRun_def)

lemma flush_empty [simp]: "rs_buffer s = [] \<Longrightarrow> rs_run (flushDeltas s) = rs_run s"
  by (simp add: flushDeltas_def Let_def split: option.splits)

lemma silent_step:
  assumes "silent s" and "environment e"
  shows "silent (session_step mint repairs e s) \<and> ar_preview (rs_run (session_step mint repairs e s)) = ar_preview (rs_run s) \<and>
    ar_phase (rs_run (session_step mint repairs e s)) = ar_phase (rs_run s)"
  using assms by (cases e) (simp_all add: silent_def accept_deaf)

lemma silent_run:
  "silent s \<Longrightarrow> list_all environment es \<Longrightarrow> silent (session_run mint repairs es s) \<and>
     ar_preview (rs_run (session_run mint repairs es s)) = ar_preview (rs_run s) \<and>
     ar_phase (rs_run (session_run mint repairs es s)) = ar_phase (rs_run s)"
  using silent_step [of _ _ mint repairs] by (induction es arbitrary: s) (simp_all add: session_run_def)

text \<open>A request that streams: its consumer is the only one that listens and expects sequence \<open>n\<close>.\<close>

definition streams :: "string \<Rightarrow> nat \<Rightarrow> run_session \<Rightarrow> bool" where
  "streams i n s \<longleftrightarrow> session_ok s \<and> \<not> rs_disposed s \<and> \<not> rs_repairSpent s \<and> rs_activeRequestId s = Some i \<and>
     ar_phase (rs_run s) = Streaming \<and>
     (case omap_get (rs_consumers s) i of Some c \<Rightarrow> cs_active c \<and> cs_nextSequence c = n | None \<Rightarrow> False)"

lemma streams_listening: "streams i n s \<Longrightarrow> listening s j \<longleftrightarrow> j = i"
  by (auto simp: streams_def session_ok_def listening_def split: option.splits)

lemma active_run: "session_ok s \<Longrightarrow> ar_requestId (rs_run s) = rs_activeRequestId s"
  by (simp add: session_ok_def)

definition shown :: "run_session \<Rightarrow> string" where
  "shown s = ar_preview (rs_run s) @ rs_buffer s"

lemma streams_accept:
  assumes "streams i n s"
  shows "streams i (Suc n) (fst (accept_event repairs i (DeltaEvent i n x) s))"
    and "shown (fst (accept_event repairs i (DeltaEvent i n x) s)) = shown s @ x"
    and "q \<noteq> n \<or> k \<noteq> i \<Longrightarrow> accept_event repairs i (DeltaEvent k q x) s = (s, False)"
    and "k \<noteq> i \<Longrightarrow> accept_event repairs i (TerminalEvent k t) s = (s, False)"
    and "silent (fst (accept_event repairs i (TerminalEvent i t) s))"
    and "ar_preview (rs_run (fst (accept_event repairs i (TerminalEvent i t) s))) = shown s"
    and "ar_phase (rs_run (fst (accept_event repairs i (TerminalEvent i t) s))) = settled_phase repairs t"
proof -
  obtain c where c: "omap_get (rs_consumers s) i = Some c" "cs_active c" "cs_nextSequence c = n"
    using assms by (cases "omap_get (rs_consumers s) i") (simp_all add: streams_def)
  have s: "session_ok s" "\<not> rs_disposed s" "\<not> rs_repairSpent s" "rs_activeRequestId s = Some i" "ar_phase (rs_run s) = Streaming"
    using assms by (simp_all add: streams_def)
  note s = s active_run [OF s(1), unfolded s(4)]
  show "streams i (Suc n) (fst (accept_event repairs i (DeltaEvent i n x) s))"
    using accept_ok [OF s(1), of repairs i "DeltaEvent i n x"] s c by (simp add: streams_def accept_event_def)
  show "shown (fst (accept_event repairs i (DeltaEvent i n x) s)) = shown s @ x"
    using c by (simp add: accept_event_def shown_def)
  show "q \<noteq> n \<or> k \<noteq> i \<Longrightarrow> accept_event repairs i (DeltaEvent k q x) s = (s, False)"
    and "k \<noteq> i \<Longrightarrow> accept_event repairs i (TerminalEvent k t) s = (s, False)"
    using c by (auto simp: accept_event_def)
  let ?s = "s\<lparr>rs_consumers := omap_set i (c\<lparr>cs_active := False\<rparr>) (rs_consumers s)\<rparr>"
  have quiet: "\<not> listening ?s j" for j
    using streams_listening [OF assms, of j] by (cases "j = i") (simp_all add: listening_def)
  have p: "ar_preview (rs_run (flushDeltas ?s)) = shown s"
    using flush_preview [of ?s i] s by (simp add: shown_def)
  show "silent (fst (accept_event repairs i (TerminalEvent i t) s))"
    using c quiet by (cases t) (simp_all add: accept_event_def Let_def silent_def settleDone_def)
  show "ar_preview (rs_run (fst (accept_event repairs i (TerminalEvent i t) s))) = shown s"
    using c p by (cases t) (simp_all add: accept_event_def Let_def settleDone_def)
  show "ar_phase (rs_run (fst (accept_event repairs i (TerminalEvent i t) s))) = settled_phase repairs t"
    using c s by (cases t) (simp_all add: accept_event_def Let_def settleDone_def runWithTerminal_def)
qed

lemma streams_other:
  assumes "streams i n s"
  shows "j \<noteq> i \<Longrightarrow> accept_event repairs j event s = (s, False)"
    and "streams i n (session_step mint repairs FlushFrame s) \<and> shown (session_step mint repairs FlushFrame s) = shown s"
    and "streams i n (session_step mint repairs (StartResolved j) s) \<and> shown (session_step mint repairs (StartResolved j) s) = shown s"
proof -
  show "j \<noteq> i \<Longrightarrow> accept_event repairs j event s = (s, False)"
    using streams_listening [OF assms, of j] by (simp add: accept_deaf)
  have s: "session_ok s" "rs_activeRequestId s = Some i" "ar_phase (rs_run s) = Streaming"
    using assms by (simp_all add: streams_def)
  note s = s active_run [OF s(1), unfolded s(2)]
  show "streams i n (session_step mint repairs FlushFrame s) \<and> shown (session_step mint repairs FlushFrame s) = shown s"
    using assms step_ok [OF s(1), of mint repairs FlushFrame] flush_preview [OF s(3,4,2)] by (simp add: streams_def shown_def)
  show "streams i n (session_step mint repairs (StartResolved j) s) \<and> shown (session_step mint repairs (StartResolved j) s) = shown s"
    using assms step_ok [OF s(1), of mint repairs "StartResolved j"] by (simp add: streams_def shown_def)
qed

lemma stream_run:
  assumes "streams i n s" and "list_all environment es"
  shows "case stream_text i n es of (x, ended) \<Rightarrow>
    let t = session_run mint repairs es s
    in shown t = shown s @ x \<and> ar_phase (rs_run t) = (case ended of None \<Rightarrow> Streaming | Some e \<Rightarrow> settled_phase repairs e) \<and>
       (ended = None \<or> rs_buffer t = [])"
  using assms
proof (induction i n es arbitrary: s rule: stream_text.induct
    [case_names nothing delta terminal fire retry cancel dispose frame resolved rejected answered])
  case (nothing i n)
  then show ?case by (simp add: session_run_def streams_def)
next
  case (delta i n j k q x es)
  have run: "session_run mint repairs (Deliver j (DeltaEvent k q x) # es) s =
      session_run mint repairs es (fst (accept_event repairs j (DeltaEvent k q x) s))" by (simp add: session_run_def)
  have es: "list_all environment es" using delta.prems by simp
  note acc = streams_accept [OF delta.prems(1), where repairs = repairs]
  show ?case
  proof (cases "j = i \<and> k = i \<and> q = n")
    case True
    with delta.IH(1) [OF True acc(1) es, of x] acc(2) [of x] show ?thesis
      unfolding run by (auto simp: Let_def split: prod.splits)
  next
    case False
    then have "accept_event repairs j (DeltaEvent k q x) s = (s, False)"
      using acc(3) streams_other(1) [OF delta.prems(1)] by (cases "j = i") auto
    with False delta.IH(2) [OF False delta.prems(1) es] show ?thesis unfolding run by auto
  qed
next
  case (terminal i n j k e es)
  have run: "session_run mint repairs (Deliver j (TerminalEvent k e) # es) s =
      session_run mint repairs es (fst (accept_event repairs j (TerminalEvent k e) s))" by (simp add: session_run_def)
  have es: "list_all environment es" using terminal.prems by simp
  note acc = streams_accept [OF terminal.prems(1), where repairs = repairs]
  show ?case
  proof (cases "j = i \<and> k = i")
    case True
    with silent_run [OF acc(5) [of e] es, of mint repairs] acc(6,7) [of e] show ?thesis
      unfolding run by (simp add: Let_def shown_def silent_def)
  next
    case False
    then have "accept_event repairs j (TerminalEvent k e) s = (s, False)"
      using acc(4) streams_other(1) [OF terminal.prems(1)] by (cases "j = i") auto
    with False terminal.IH [OF False terminal.prems(1) es] show ?thesis unfolding run by auto
  qed
next
  case (frame i n es)
  from streams_other(2) [OF frame.prems(1), of mint repairs]
  have a: "streams i n (session_step mint repairs FlushFrame s)" and b: "shown (session_step mint repairs FlushFrame s) = shown s" by blast+
  from frame.prems(2) have es: "list_all environment es" by simp
  from frame.IH [OF a es] show ?case unfolding session_run_step stream_text.simps b .
next
  case (resolved i n j es)
  from streams_other(3) [OF resolved.prems(1), of mint repairs j]
  have a: "streams i n (session_step mint repairs (StartResolved j) s)" and b: "shown (session_step mint repairs (StartResolved j) s) = shown s"
    by blast+
  from resolved.prems(2) have es: "list_all environment es" by simp
  from resolved.IH [OF a es] show ?case unfolding session_run_step stream_text.simps b .
qed simp_all

lemma fire_streams:
  assumes "session_ok s" and "\<not> rs_disposed s"
  shows "streams (mint (rs_minted s)) 0 (fire mint now template s)" and "shown (fire mint now template s) = []"
proof -
  have "session_ok (s\<lparr>rs_repairSpent := False, rs_lastRequest := Some template\<rparr>)" using assms(1) by (simp add: session_ok_def)
  from release_ok [OF this] step_ok [OF assms(1), of mint False "Fire now template"] assms(2)
  show "streams (mint (rs_minted s)) 0 (fire mint now template s)" and "shown (fire mint now template s) = []"
    by (simp_all add: streams_def shown_def fire_def send_def Let_def startedRun_def)
qed

text \<open>C11. After a fire, whatever events for other requests, events out of sequence, frames and stragglers come in between, the text shown and waiting is the in-sequence text of that request up to its terminal, and the phase is the one the terminal says, held back while a repair looks at a finished reply.\<close>

theorem stream_in_order:
  assumes "session_ok s" and "\<not> rs_disposed s" and "list_all environment es"
  shows "case stream_text (mint (rs_minted s)) 0 es of (x, ended) \<Rightarrow>
    let t = session_run mint repairs (Fire now template # es) s
    in ar_preview (rs_run t) @ rs_buffer t = x \<and>
       ar_phase (rs_run t) = (case ended of None \<Rightarrow> Streaming | Some e \<Rightarrow> settled_phase repairs e) \<and>
       (ended = None \<or> rs_buffer t = [])"
  using stream_run [OF fire_streams(1) [OF assms(1,2)] assms(3), of mint repairs] fire_streams(2) [OF assms(1,2)]
  unfolding session_run_step shown_def by simp

definition sample_template :: completion_request where
  "sample_template = \<lparr>cr_requestId = ''t'', cr_providerId = ''p'', cr_modelId = ''m'', cr_systemPrompt = [], cr_userPrompt = ''u'',
     cr_parameters = \<lparr>cp_maxOutputBytes = 10, cp_timeoutMs = 10, cp_retryCount = 0, cp_temperatureMillis = None, cp_topPMillis = None\<rparr>\<rparr>"

definition sample_mint :: "nat \<Rightarrow> string" where
  "sample_mint n = replicate n CHR ''r''"

definition sample_stream :: "session_event list" where
  "sample_stream =
     [StartResolved [], Deliver [] (DeltaEvent [] 0 ''ab''), Deliver [] (DeltaEvent [] 2 ''xx''), FlushFrame,
      Deliver [] (DeltaEvent [] 1 ''c''), Deliver ''r'' (DeltaEvent ''r'' 2 ''yy''), Deliver [] (TerminalEvent [] TimeoutEvent),
      Deliver [] (DeltaEvent [] 2 ''zz''), FlushFrame]"

lemma sample_stream_facts:
  "stream_text (sample_mint (rs_minted createRunSession)) 0 sample_stream = (''abc'', Some TimeoutEvent)"
  "list_all environment sample_stream" "\<not> rs_disposed createRunSession"
  by (simp_all add: sample_stream_def sample_mint_def createRunSession_def eval_nat_numeral)

theorem stream_in_order_witness:
  "let t = session_run sample_mint True (Fire 0 sample_template # sample_stream) createRunSession
   in ar_preview (rs_run t) = ''abc'' \<and> ar_phase (rs_run t) = TimedOut \<and> rs_buffer t = []"
  using stream_in_order [OF created_ok sample_stream_facts(3) sample_stream_facts(2), of sample_mint True 0 sample_template]
  by (auto simp: sample_stream_facts(1) Let_def)

section \<open>A run that was stopped\<close>

theorem stopped_run_becomes_failed:
  "let stopped = session_run mint repairs [Fire now template, Cancel] createRunSession;
       t = session_step mint repairs (StartRejected (mint 0) reason) stopped
   in ar_phase (rs_run stopped) = Cancelled \<and> ar_phase (rs_run t) = Failed \<and> ar_error (rs_run t) \<noteq> None"
  by (simp add: session_run_def createRunSession_def fire_def send_def releaseCurrent_def dispose_held_def dispose_consumer_def
      cancel_def Let_def startedRun_def flushDeltas_def stoppedRun_def start_rejected_def failedRun_def)

section \<open>Requests sent\<close>

definition ids_ok :: "(nat \<Rightarrow> string) \<Rightarrow> run_session \<Rightarrow> bool" where
  "ids_ok mint s \<longleftrightarrow> session_ok s \<and> (\<forall>i. rs_activeRequestId s = Some i \<longrightarrow> i \<in> mint ` {..<rs_minted s}) \<and>
     fst ` set (rs_repairs s) \<subseteq> mint ` {..<rs_minted s}"

text \<open>What the session can still send on its own: a repair not yet asked for, or one asked for the active request.\<close>

definition sends :: "run_session \<Rightarrow> nat" where
  "sends s = rs_minted s + (if rs_activeRequestId s \<noteq> None \<and> \<not> rs_repairSpent s then 1 else 0) +
     (if rs_activeRequestId s \<in> Some ` fst ` set (rs_repairs s) then 1 else 0)"

fun sent_by :: "session_event \<Rightarrow> nat" where
  "sent_by (Fire _ _) = 1"
| "sent_by (Retry _) = 1"
| "sent_by _ = 0"

lemma fresh_id: "inj mint \<Longrightarrow> mint (n :: nat) \<notin> mint ` {..<n}"
  by (simp add: inj_image_mem_iff)

lemma send_sends:
  assumes "inj mint" and "session_ok s" and "fst ` set (rs_repairs s) \<subseteq> mint ` {..<rs_minted s}" and "\<not> rs_disposed s"
  shows "ids_ok mint (send mint now template s)"
    and "sends (send mint now template s) = Suc (rs_minted s) + (if rs_repairSpent s then 0 else 1)"
proof -
  have f: "rs_minted (send mint now template s) = Suc (rs_minted s)" "rs_repairs (send mint now template s) = rs_repairs s"
    "rs_activeRequestId (send mint now template s) = Some (mint (rs_minted s))"
    "rs_repairSpent (send mint now template s) = rs_repairSpent s"
    using release_ok [OF assms(2)] by (simp_all add: send_def Let_def)
  show "ids_ok mint (send mint now template s)"
    using send_ok [OF assms(2,4), of mint now template] assms(3) by (auto simp: ids_ok_def f lessThan_Suc)
  have "mint (rs_minted s) \<notin> fst ` set (rs_repairs s)" using fresh_id [OF assms(1), of "rs_minted s"] assms(3) by blast
  then have "Some (mint (rs_minted s)) \<notin> Some ` fst ` set (rs_repairs s)" by blast
  then show "sends (send mint now template s) = Suc (rs_minted s) + (if rs_repairSpent s then 0 else 1)"
    by (simp add: sends_def f)
qed

lemma fire_sends:
  assumes "inj mint" and "ids_ok mint s"
  shows "ids_ok mint (fire mint now template s) \<and> sends (fire mint now template s) \<le> sends s + 2"
proof (cases "rs_disposed s")
  case False
  let ?s = "s\<lparr>rs_repairSpent := False, rs_lastRequest := Some template\<rparr>"
  have "session_ok ?s" "fst ` set (rs_repairs ?s) \<subseteq> mint ` {..<rs_minted ?s}" "\<not> rs_disposed ?s"
    using assms(2) False by (simp_all add: ids_ok_def session_ok_def)
  from send_sends [OF assms(1) this, of now template] False show ?thesis by (simp add: fire_def sends_def)
qed (simp add: fire_def assms)

text \<open>A step that mints nothing and keeps the active request.\<close>

lemma still_sends:
  assumes "ids_ok mint s" and "session_ok t" and "rs_minted t = rs_minted s" and "rs_activeRequestId t = rs_activeRequestId s"
    and "rs_repairSpent t = rs_repairSpent s" and "set (rs_repairs t) \<subseteq> set (rs_repairs s)"
  shows "ids_ok mint t \<and> sends t \<le> sends s"
proof -
  have sub: "fst ` set (rs_repairs t) \<subseteq> fst ` set (rs_repairs s)" using assms(6) by blast
  then have "rs_activeRequestId s \<in> Some ` fst ` set (rs_repairs t) \<Longrightarrow> rs_activeRequestId s \<in> Some ` fst ` set (rs_repairs s)"
    by blast
  then have "sends t \<le> sends s" unfolding sends_def assms(3-5) by simp
  moreover have "ids_ok mint t" using assms(1,2) sub unfolding ids_ok_def assms(3,4) by blast
  ultimately show ?thesis by simp
qed

lemma asked_sends:
  assumes "ids_ok mint s" and "session_ok t" and "rs_minted t = rs_minted s" and "rs_activeRequestId t = rs_activeRequestId s"
    and "\<not> rs_repairSpent s" and "rs_repairSpent t" and "rs_activeRequestId s = Some i" and "rs_repairs t = rs_repairs s @ [(i, x)]"
  shows "ids_ok mint t \<and> sends t \<le> sends s"
  using assms unfolding ids_ok_def sends_def by auto

lemma accept_sends:
  assumes "ids_ok mint s"
  shows "ids_ok mint (fst (accept_event repairs i event s)) \<and> sends (fst (accept_event repairs i event s)) \<le> sends s"
proof -
  have ok: "session_ok s" using assms by (simp add: ids_ok_def)
  let ?t = "fst (accept_event repairs i event s)"
  have t: "session_ok ?t" by (rule accept_ok [OF ok])
  have kept: "rs_minted ?t = rs_minted s" "rs_activeRequestId ?t = rs_activeRequestId s"
    by (simp_all add: accept_event_def settleDone_def Let_def split: option.splits completion_event.splits terminal.splits)
  show ?thesis
  proof (cases "rs_repairSpent ?t = rs_repairSpent s \<and> rs_repairs ?t = rs_repairs s")
    case True
    then show ?thesis using still_sends [OF assms t kept] by simp
  next
    case False
    then obtain x where "listening s i" and "\<not> rs_repairSpent s" and "rs_repairSpent ?t" and "rs_repairs ?t = rs_repairs s @ [(i, x)]"
      by (auto simp: accept_event_def settleDone_def Let_def listening_def
        split: option.splits completion_event.splits terminal.splits if_splits)
    moreover from this(1) have "rs_activeRequestId s = Some i" using ok by (simp add: session_ok_def)
    ultimately show ?thesis using asked_sends [OF assms t kept] by simp
  qed
qed

lemma answered_sends:
  assumes "inj mint" and "ids_ok mint s" and "(i, x) \<in> set (rs_repairs s)"
  shows "ids_ok mint (session_step mint repairs (RepairAnswered now (i, x) answer) s) \<and>
    sends (session_step mint repairs (RepairAnswered now (i, x) answer) s) \<le> sends s"
proof -
  have ok: "session_ok s" using assms(2) by (simp add: ids_ok_def)
  let ?s = "s\<lparr>rs_repairs := removeAll (i, x) (rs_repairs s)\<rparr>"
  let ?t = "session_step mint repairs (RepairAnswered now (i, x) answer) s"
  have t: "session_ok ?t" by (rule step_ok [OF ok])
  show ?thesis
  proof (cases "stillCurrent i ?s \<and> answer \<noteq> None")
    case False
    then have "rs_minted ?t = rs_minted s" "rs_activeRequestId ?t = rs_activeRequestId s" "rs_repairSpent ?t = rs_repairSpent s"
      "set (rs_repairs ?t) \<subseteq> set (rs_repairs s)"
      by (auto simp: repair_answered_def split: option.splits)
    from still_sends [OF assms(2) t this] show ?thesis .
  next
    case True
    then obtain repaired where a: "answer = Some repaired" by auto
    let ?u = "?s\<lparr>rs_run := stoppedRun (rs_run s)\<rparr>"
    have u: "session_ok ?u"
      using ok unfolding session_ok_def by (simp add: list_all_iff)
    have "send mint now repaired ?u = send mint now repaired ?s"
      by (simp add: send_def Let_def releaseCurrent_def dispose_held_def dispose_consumer_def call_handle_def split: option.splits)
    then have sent: "?t = send mint now repaired ?u" using True a assms(3) by (simp add: repair_answered_def)
    have sub: "fst ` set (rs_repairs ?u) \<subseteq> mint ` {..<rs_minted ?u}" and "\<not> rs_disposed ?u"
      using assms(2) True by (auto simp: ids_ok_def stillCurrent_def)
    note new = send_sends [OF assms(1) u this, of now repaired]
    have "rs_activeRequestId s \<in> Some ` fst ` set (rs_repairs s)"
      using True assms(3) by (force simp: stillCurrent_def)
    then have "sends ?t \<le> sends s"
      using new(2) unfolding sent by (auto simp: sends_def)
    with new(1) show ?thesis unfolding sent by simp
  qed
qed

lemma step_sends:
  assumes "inj mint" and "ids_ok mint s"
  shows "ids_ok mint (session_step mint repairs e s) \<and> sends (session_step mint repairs e s) \<le> sends s + 2 * sent_by e"
proof -
  have ok: "session_ok s" using assms(2) by (simp add: ids_ok_def)
  have still: ?thesis if "sent_by e = 0" and "rs_minted (session_step mint repairs e s) = rs_minted s"
    and "rs_activeRequestId (session_step mint repairs e s) = rs_activeRequestId s"
    and "rs_repairSpent (session_step mint repairs e s) = rs_repairSpent s"
    and "rs_repairs (session_step mint repairs e s) = rs_repairs s"
    using still_sends [OF assms(2) step_ok [OF ok], of mint repairs e] that by simp
  show ?thesis
  proof (cases e)
    case (Fire now template)
    then show ?thesis using fire_sends [OF assms] by simp
  next
    case (Retry now)
    then show ?thesis using fire_sends [OF assms] assms(2) by (simp add: retry_def split: option.splits)
  next
    case (Deliver i event)
    then show ?thesis using accept_sends [OF assms(2)] by simp
  next
    case (RepairAnswered now pending answer)
    then show ?thesis using answered_sends [OF assms, of "fst pending" "snd pending"] assms(2)
      by (cases "pending \<in> set (rs_repairs s)") simp_all
  next
    case Cancel
    then show ?thesis by (intro still) (simp_all add: cancel_def Let_def split: option.splits)
  next
    case Dispose
    then show ?thesis by (intro still) (simp_all add: dispose_def releaseCurrent_def Let_def split: option.splits)
  next
    case FlushFrame
    then show ?thesis by (intro still) simp_all
  next
    case (StartResolved i)
    then show ?thesis by (intro still) (simp_all add: start_resolved_def Let_def)
  next
    case (StartRejected i reason)
    then show ?thesis
      by (intro still) (simp_all add: start_rejected_def dispose_consumer_def Let_def)
  qed
qed

lemma run_sends:
  assumes "inj mint" and "ids_ok mint s"
  shows "sends (session_run mint repairs events s) \<le> sends s + 2 * sum_list (map sent_by events)"
  using assms(2)
proof (induction events arbitrary: s)
  case (Cons e es)
  from step_sends [OF assms(1) Cons.prems, of repairs e] Cons.IH [of "session_step mint repairs e s"]
  show ?case unfolding session_run_step by simp
qed (simp add: session_run_def)

text \<open>C12. When request ids are distinct, a session sends at most two requests for each fire or retry, however many replies fail their repair check.\<close>

theorem one_repair_per_fire:
  assumes "inj mint"
  shows "rs_minted (session_run mint repairs events createRunSession) \<le> 2 * sum_list (map sent_by events)"
proof -
  have "ids_ok mint createRunSession" using created_ok by (simp add: ids_ok_def createRunSession_def)
  from run_sends [OF assms this, of repairs events] show ?thesis by (simp add: sends_def createRunSession_def)
qed

theorem one_repair_per_fire_witness:
  "inj sample_mint \<and> rs_minted (session_run sample_mint True (Fire 0 sample_template # sample_stream) createRunSession) \<le> 2"
proof -
  have i: "inj sample_mint"
    by (rule inj_on_inverseI [where g = length]) (simp add: sample_mint_def)
  from one_repair_per_fire [OF i, of True "Fire 0 sample_template # sample_stream"] i show ?thesis
    by (simp add: sample_stream_def)
qed

end
