(* ===== verification/Spec2Isabelle.thy ===== *)
theory Spec2Isabelle
  imports Tree_Theorems Pane_Theorems Operation_Theorems Reference_Theorems Property_Theorems
    Date_Theorems Linked_Tasks Document_Theorems Gate_Theorems Debounced_Persistence Trash_Theorems
    Plan_Theorems Snippets Recurrence_Theorems Config_Theorems Rows_Theorems Column_Theorems
    Arrange_Theorems Create_Theorems Embed_Theorems Expression_Theorems Diff_Theorems
    Merge_Theorems Routes Vim_Theorems Bridge_Theorems Session_Theorems
begin

text \<open>
  Skriuw is a local-first notes application. Its renderer keeps the whole workspace in memory:
  a canonical map of nodes (folders and notes) with documents, tags, people, references, note
  properties and tasks, and beside it a view derived from them (rows, order, visible ids,
  metadata, tab strips, selection). User actions and remote deltas are reducers over that state;
  a commit gate orders local writes against remote reconciles, and debounced persisters write
  slices of the state to disk. This development models the core of that renderer, the package
  \<open>src/packages/renderer-core/src\<close>, to which the file names below are relative, and those modules of
  the workspace application that hold logic of their own beside the components, whose paths are given
  in full: the history diff, the merge of remote revisions, the Vim grammar and the sessions of AI runs.

  Parts of the program and their theories.

  \<^item> \<open>contracts/workspace.ts\<close>, \<open>references/types.ts\<close>, \<open>properties/types.ts\<close>: \<open>Contracts\<close> has
    the wire records and enumerations with the source's constructors.
  \<^item> \<open>store/tree.ts\<close>: \<open>Node_Tree\<close>, with the generic depth-first sweeps in \<open>Walk\<close>. The order of
    available nodes, the row index with descendant counts, the visible rows, the selection roots.
    \<open>Node_Index\<close> holds the lemmas, \<open>Tree_Theorems\<close> the properties.
  \<^item> \<open>store/operations.ts\<close>: \<open>Operations\<close> has one definition per operation and
    \<open>reduceOperation\<close> that dispatches them; \<open>Operation_Invariants\<close> proves that node maps stay
    forests keyed by their ids, \<open>Operation_Theorems\<close> what each operation does to a subtree.
  \<^item> \<open>store/trash.ts\<close>: \<open>Trash\<close>, with \<open>Trash_Theorems\<close>.
  \<^item> \<open>store/panes.ts\<close>: \<open>Panes\<close>, \<open>Pane_Invariants\<close>, \<open>Pane_Theorems\<close>; a state machine over the
    tab strips with pins, split, close, reopen and the persisted layout.
  \<^item> \<open>references/extract.ts\<close> and \<open>projection.ts\<close>: \<open>References\<close>, \<open>Reference_Theorems\<close>.
  \<^item> \<open>properties/value.ts\<close>, \<open>operations.ts\<close>, \<open>templates.ts\<close>: \<open>Property_Values\<close> (validation of
    untyped JSON), \<open>Properties\<close>, \<open>Property_Theorems\<close>.
  \<^item> \<open>journal/dates.ts\<close>: \<open>Dates\<close>, \<open>Calendar_Laws\<close>, \<open>Date_Theorems\<close>.
  \<^item> \<open>tasks/recurrence.ts\<close>: \<open>Recurrence\<close>, \<open>Recurrence_Theorems\<close>.
  \<^item> \<open>journal/date-expressions.ts\<close> (typed dates such as \<open>next thursday\<close>) and \<open>tasks/due-dates.ts\<close>:
    \<open>Date_Expressions\<close>, \<open>Due_Dates\<close>, with \<open>Expression_Theorems\<close>: what resolves lies in range, which
    day a weekday names, and two words the resolvers treat otherwise than meant.
  \<^item> \<open>route/app-route.ts\<close>: \<open>Routes\<close>, with the URI component functions of JavaScript written out for
    code units below 256 and the round trips of the hashes for non-empty identifiers of such units
    (beyond them a lone surrogate makes \<open>encodeURIComponent\<close> throw, and an empty identifier has no focus).
  \<^item> \<open>store/linked-tasks.ts\<close>: \<open>Linked_Tasks\<close>, with its reconciliation theorem.
  \<^item> \<open>search/\<close>: \<open>Search_Query\<close> (\<open>query-parser.ts\<close>), \<open>Search_Plan\<close> (\<open>filter-resolution.ts\<close>,
    \<open>search-plan.ts\<close>), \<open>Snippets\<close> (\<open>snippet.ts\<close>), with \<open>Search_Theorems\<close> and \<open>Plan_Theorems\<close>.
  \<^item> \<open>database/\<close>: \<open>Database_Config\<close> (\<open>config.ts\<close>, the saved layouts), \<open>Database_Rows\<close> (\<open>rows.ts\<close>, the
    caching row selector over the store), \<open>Database_Columns\<close> (\<open>columns.ts\<close>) and \<open>Database_Arrange\<close>
    (\<open>arrange.ts\<close>: filters, sorts, board groups and their incremental update), \<open>Database_Writes\<close>
    (\<open>writes.ts\<close>: the operations that set a cell or create a note) and \<open>Database_Embed\<close> (\<open>embed.ts\<close>), with
    \<open>Config_Theorems\<close>, \<open>Rows_Theorems\<close>, \<open>Column_Theorems\<close>, \<open>Arrange_Laws\<close>, \<open>Arrange_Theorems\<close>,
    \<open>Write_Theorems\<close>, \<open>Create_Theorems\<close> (the plans run through \<open>reduceState\<close>) and \<open>Embed_Theorems\<close>.
  \<^item> \<open>store/store.ts\<close>, \<open>types.ts\<close>, \<open>session-restore.ts\<close>: \<open>Store_State\<close> (the state record,
    \<open>derive\<close>, the initial state), \<open>Store_Reduce\<close> (\<open>reduceState\<close>), \<open>Store_Import\<close> (import
    batches), \<open>Store_Actions\<close> (every updater the store hands to \<open>update\<close>) and \<open>Store_Publish\<close>
    (subscribers, the publishing loop and its queue). \<open>Store_View\<close>, \<open>Store_Invariants\<close>,
    \<open>Action_Invariants\<close> and \<open>Snapshot_Invariants\<close> show that the cached view always is what
    \<open>derive\<close> computes, after remote deltas exactly when \<open>delta_moves\<close> or \<open>delta_listed\<close> holds of them (any
    other gives a trashed note metadata); \<open>Store_Theorems\<close> and \<open>Document_Theorems\<close> state it.
    \<open>Publish_Theorems\<close> gives the order of updates over listeners that post or throw, and that no subscriber
    with a total selector and equality is stale, however an update ends.
  \<^item> \<open>store/commit-gate.ts\<close>: \<open>Commit_Gate\<close>, \<open>Gate_Invariants\<close>, \<open>Gate_Theorems\<close>; a step relation
    over the pending calls in which any call that may continue can be the next to run.
  \<^item> \<open>store/debounced-persistence.ts\<close>: \<open>Debounced_Persistence\<close>; timers, writes and store changes
    are steps of the environment.
  \<^item> \<open>src/apps/workspace/src/shared/text/word-diff.ts\<close> and \<open>features/history/diff/model.ts\<close> beside it:
    \<open>Alignment\<close> (the subsequence table and its walk), \<open>Text_Diff\<close> (words, lines, blank runs, pairing,
    hunks), \<open>Diff_Theorems\<close>: a diff holds both texts, and it is minimal unless it was cut short.
  \<^item> \<open>src/apps/workspace/src/features/editor/document/remote-merge.ts\<close>: \<open>Block_Merge\<close> over blocks
    compared by equality, \<open>Merge_Theorems\<close>: the merge is the block-by-block specification.
  \<^item> \<open>src/apps/workspace/src/features/editor/vim/text.ts\<close> and \<open>parser.ts\<close> beside it: \<open>Vim_Text\<close> (words,
    brackets, text objects, numbers and case within one line) and \<open>Vim_Parser\<close> (keys to commands, with
    registers and counts). \<open>Vim_Theorems\<close>: the word motions are searches, matching brackets point
    at each other, a command typed key by key is pending until its last key, and
    pending keys always have a completion.
  \<^item> \<open>bridge/port.ts\<close>, \<open>bridge/memory-adapter.ts\<close>: \<open>Memory_Bridge\<close>, the command surface in memory over the
    modelled store, which it calls through \<open>update_store\<close>: validation of envelopes, acknowledgements, search,
    the note lock, synchronisation and attachments. \<open>Bridge_Theorems\<close>: repeated saves are refused, a shut
    lock stays shut, what happens after the store has thrown, content keys.
  \<^item> \<open>src/apps/workspace/src/features/ai\<close>: \<open>Ai_Runs\<close> (\<open>actions/model.ts\<close>, \<open>run/progress.ts\<close>: the phases and
    stages of a run and what is shown of them) and \<open>Run_Session\<close> (\<open>run/session.ts\<close>, \<open>completion/consumer.ts\<close>:
    a step function over calls, provider events, frames and outcomes of starts and repairs).
    \<open>Session_Theorems\<close>: the invariant of a session, the text of a run, and how many requests are sent.

  How values are represented. \<open>Prelude\<close> has the shared vocabulary: a JavaScript \<open>Map\<close> is \<open>omap\<close>,
  an association list in insertion order whose well-formedness (distinct keys) is an invariant; a
  \<open>Set\<close> is a duplicate-free list; a number is a rational, so that ranks and time stamps compute
  exactly; strings are lists of code units below 256 (\<open>Strings\<close>, \<open>Text_Ops\<close>), so lower case and
  white space are those of Latin-1 and normalisation is the identity there. Reducers that return
  their own argument to signal no change return \<open>reduced\<close>: \<open>Unchanged\<close>, \<open>Changed\<close> a new state, or
  \<open>Diverges\<close> where the loop of the code does not end. A throw is a value of a sum type.
  \<open>localeCompare\<close>, \<open>Intl.Collator\<close>, \<open>toUpperCase\<close>, the local day of a time stamp, the text of a number, the ellipsis
  and id factories are parameters; laws on them are hypotheses of
  the theorems that need them, such as a total and transitive collation for the trash order, and
  \<open>unit_order\<close> is a concrete collation that satisfies them.

  The interfaces are locales. \<open>comparator\<close> (\<open>Prelude\<close>) is the contract of a function passed to
  \<open>Array.prototype.sort\<close>, met by the sibling, rank, history, property, preview and region orders; \<open>reducer\<close>
  that of a reducer that returns its own input to signal no change and keeps an invariant, met by
  \<open>reduceOperation\<close>, \<open>reduceState\<close> and \<open>reduceReferenceOperation\<close>; \<open>invariant_system\<close> that of a step
  relation with an invariant, met by the tab strips, the note properties, the reference
  projection, the store and its publisher, the gate and the persisters; \<open>forest\<close> (\<open>Walk\<close>) that of a
  depth-first sweep over children lists, met by the tree order and the trash preview; \<open>ordering\<close>
  (\<open>Arrange_Laws\<close>) that of a comparator whose ties are an equivalence, met by the date keys, the
  code-unit collation and every list of prepared sorts; \<open>pane_edit\<close>
  (\<open>Pane_Invariants\<close>) that of an edit of the tab strips.

  Loops and fuel. Loops over the node map that push children on a stack are \<open>function\<close>s with a
  measure where the code keeps a visited set. The subtree walk of \<open>store/operations.ts\<close> keeps
  none: its fuel is one unit per node and one for the root, more pops than that mean a parent
  cycle, and then the result is \<open>Diverges\<close>; \<open>reduce_state_returns\<close> and \<open>lock_cycle_diverges\<close> show
  that on forests it never is, and that on a cycle the loop of the code indeed does not end. The
  publishing loop is a \<open>partial_function\<close>, and \<open>update_returns\<close> shows when it returns.

  Not modelled. Code outside \<open>renderer-core\<close> except the modules above: React components and editor
  plugins (rendering, DOM effects and ProseMirror transactions), the sync server (transport and
  SQL), the Rust backend, the superseded application under \<open>src/v1-final\<close>, the bridges to the native backends (transport). Inside it:
  the parts listed as not modelled in the manifest. The listeners of a run session only repaint and are left out. Reading the clock, printing with \<open>Intl\<close>, the full-text engine and random ids are arguments.
  JSON text is modelled as the JSON value it denotes.
\<close>

end
